(* ===== verification/Prelude.thy ===== *)
theory Prelude
  imports Main "HOL-Library.Word" "HOL-Library.Monad_Syntax"
begin

unbundle bit_operations_syntax

text \<open>
  The shared base of the development: the machine types of \<^verbatim>\<open>types.h\<close>, the convention for
  code that does not come back, and the lemmas on words, options and lists that several
  components use.

  Every operation of the kernel that can fail to return has a result of type \<open>option\<close>:
  \<open>None\<close> stands for "control does not come back to the caller", that is, for \<^verbatim>\<open>PANIC\<close>
  (\<^verbatim>\<open>cli; hlt\<close>, print_utility.cpp), for an access through a pointer at which no object lives, for an
  array index outside the array, for a division by zero and for a loop that does not end.
  Errors the code reports through \<^verbatim>\<open>set_last_error\<close> and a return code are ordinary values.
\<close>

type_synonym u8 = "8 word"
type_synonym u16 = "16 word"
type_synonym u32 = "32 word"
type_synonym u64 = "64 word"
type_synonym ptr = "32 word"
type_synonym virtual_addr = "32 word"
type_synonym physical_addr = "32 word"
type_synonym error_t = "32 word"

named_theorems kernel_simps \<open>evaluation of the small operations of the kernel\<close>

subsection \<open>Constants of types.h\<close>

definition CHK_BIT :: "u32 \<Rightarrow> u32 \<Rightarrow> bool" where
  "CHK_BIT x b = ((x AND b) = b)"

definition INVALID_FD :: u32 where
  "INVALID_FD = - 1"

definition MAX_IO :: u32 where
  "MAX_IO = - 1 - 1"

definition INVALID_IO :: u32 where
  "INVALID_IO = - 1"

subsection \<open>Partial results\<close>

lemma bind_SomeE:
  assumes "Option.bind m f = Some y"
  obtains x where "m = Some x" and "f x = Some y"
  using assms by (cases m) auto

definition array_get :: "'a list \<Rightarrow> 'b::len word \<Rightarrow> 'a option" where
  "array_get xs i = (if unat i < length xs then Some (xs ! unat i) else None)"

definition array_set :: "'a list \<Rightarrow> 'b::len word \<Rightarrow> 'a \<Rightarrow> 'a list option" where
  "array_set xs i x = (if unat i < length xs then Some (xs[unat i := x]) else None)"

lemma array_get_in [simp]: "unat i < length xs \<Longrightarrow> array_get xs i = Some (xs ! unat i)"
  by (simp add: array_get_def)

lemma array_set_in [simp]: "unat i < length xs \<Longrightarrow> array_set xs i x = Some (xs[unat i := x])"
  by (simp add: array_set_def)

lemma array_get_out [simp]: "\<not> unat i < length xs \<Longrightarrow> array_get xs i = None"
  by (simp add: array_get_def)

lemma array_set_out [simp]: "\<not> unat i < length xs \<Longrightarrow> array_set xs i x = None"
  by (simp add: array_set_def)

subsection \<open>Words\<close>

lemma unat_add_no_wrap: "unat a + unat b < 2 ^ LENGTH('a) \<Longrightarrow> unat (a + b) = unat a + unat b"
  for a b :: "'a::len word"
  by (simp add: unat_word_ariths)

lemma unat_suc_u32: "unat a + 1 < 2 ^ 32 \<Longrightarrow> unat (a + 1) = unat a + 1"
  for a :: u32
  by (subst unat_add_no_wrap) auto

lemma unat_pred_u32: "a \<noteq> 0 \<Longrightarrow> unat (a - 1) = unat a - 1"
  for a :: u32
  by (simp add: unat_minus_one)

lemma unat_eq_0_iff: "unat a = 0 \<longleftrightarrow> a = 0"
  for a :: "'a::len word"
  by (simp add: unat_eq_zero)

lemma unat_lt_u32: "unat a < 4294967296"
  for a :: u32
  using unsigned_less [of a, where ?'a = nat] by simp

lemma unat_sub_le: "unat b \<le> unat a \<Longrightarrow> unat (a - b) = unat a - unat b"
  for a b :: "'a::len word"
  by (simp add: unat_sub word_le_nat_alt)

lemma word_eq_unat: "a = b \<longleftrightarrow> unat a = unat b"
  for a b :: "'a::len word"
  by (simp add: word_unat_eq_iff)

lemma unat_ucast_8_32 [simp]: "unat (ucast a :: u32) = unat a"
  for a :: u8
  using unsigned_less [of a, where ?'a = nat]
  by (simp add: unsigned_ucast_eq take_bit_nat_eq_self)

lemma unat_ucast_16_32 [simp]: "unat (ucast a :: u32) = unat a"
  for a :: u16
  using unsigned_less [of a, where ?'a = nat]
  by (simp add: unsigned_ucast_eq take_bit_nat_eq_self)

lemma unat_pred_length: "unat (c :: u32) = Suc n \<Longrightarrow> unat (c - 1) = n \<and> c \<noteq> 0 \<and> (c - 1 = 0 \<longleftrightarrow> n = 0)"
proof -
  assume c: "unat c = Suc n"
  then have "c \<noteq> 0" by auto
  with c have "unat (c - 1) = n" by (simp add: unat_pred_u32)
  then show ?thesis using \<open>c \<noteq> 0\<close> unat_eq_0_iff [of "c - 1"] by simp
qed

lemma unat_of_nat_u16: "n < 2 ^ 16 \<Longrightarrow> unat (of_nat n :: u16) = n"
  by (simp add: unat_of_nat take_bit_nat_eq_self)

lemma unat_of_nat_u32: "n < 2 ^ 32 \<Longrightarrow> unat (of_nat n :: u32) = n"
  by (simp add: unat_of_nat take_bit_nat_eq_self)

subsection \<open>Lists\<close>

definition remove_nth :: "nat \<Rightarrow> 'a list \<Rightarrow> 'a list" where
  "remove_nth i xs = take i xs @ drop (Suc i) xs"

lemma length_remove_nth: "i < length xs \<Longrightarrow> length (remove_nth i xs) = length xs - 1"
  by (simp add: remove_nth_def)

lemma set_remove_nth: "set (remove_nth i xs) \<subseteq> set xs"
  by (auto simp: remove_nth_def dest: in_set_takeD in_set_dropD)

end
