(* ===== verification/Single_List.thy ===== *)
theory Single_List
  imports Prelude
begin

text \<open>
  The singly linked list of \<^verbatim>\<open>list.h\<close>, over an explicit store of nodes.

  A store maps addresses to nodes (\<open>None\<close>: no node lives there; \<^verbatim>\<open>delete\<close> makes an address empty
  again). The address \<^verbatim>\<open>new\<close> returns is an argument of the operations that allocate, because the
  code is generic in the allocator; \<open>0\<close> is the null pointer. A dereference of an address without a
  node is \<open>None\<close>. \<open>list_ok\<close> relates a list header and a store to the addresses and elements the
  list holds in order; every operation is shown to refine the operation on that sequence.
\<close>

subsection \<open>Data\<close>

record 'a list_node =
  ln_data :: 'a
  ln_next :: ptr

record list_t =
  l_head :: ptr
  l_tail :: ptr
  l_count :: u32

type_synonym 'a nodes = "ptr \<Rightarrow> 'a list_node option"

definition new_node :: "ptr \<Rightarrow> 'a list_node \<Rightarrow> 'a nodes \<Rightarrow> 'a nodes option" where
  "new_node p n h = (if p = 0 then None else Some (h(p \<mapsto> n)))"

definition set_next :: "'a nodes \<Rightarrow> ptr \<Rightarrow> ptr \<Rightarrow> 'a nodes option" where
  "set_next h p q = do { n \<leftarrow> h p; Some (h(p \<mapsto> n\<lparr>ln_next := q\<rparr>)) }"

subsection \<open>Operations\<close>

definition list_init :: "list_t \<Rightarrow> list_t" where
  "list_init l = l\<lparr>l_count := 0, l_head := 0, l_tail := 0\<rparr>"

partial_function (option) list_get_prev_loop :: "'a nodes \<Rightarrow> ptr \<Rightarrow> 'a \<Rightarrow> ptr option" where
  [code]: "list_get_prev_loop h temp item =
     (if temp = 0 then Some 0
      else do {
        n \<leftarrow> h temp;
        m \<leftarrow> h (ln_next n);
        if ln_data m = item then Some temp else list_get_prev_loop h (ln_next n) item
      })"

definition list_get_prev :: "list_t \<Rightarrow> 'a nodes \<Rightarrow> 'a \<Rightarrow> ptr option" where
  "list_get_prev l h item =
     (if l_count l = 0 then Some 0
      else if l_count l = 1 then Some (l_head l)
      else list_get_prev_loop h (l_head l) item)"

definition list_remove :: "list_t \<Rightarrow> ptr \<Rightarrow> 'a nodes \<Rightarrow> (bool \<times> list_t \<times> 'a nodes) option" where
  "list_remove l prev h =
     (if prev = 0 then Some (False, l, h)
      else if l_count l = 0 then Some (False, l, h)
      else if l_count l = 1 then do {
        _ \<leftarrow> h prev;
        Some (True, l\<lparr>l_count := l_count l - 1, l_head := 0, l_tail := 0\<rparr>, h(prev := None))
      }
      else do {
        pn \<leftarrow> h prev;
        let temp = ln_next pn;
        tn \<leftarrow> h temp;
        h1 \<leftarrow> set_next h prev (ln_next tn);
        let l1 = (if temp = l_tail l then l\<lparr>l_tail := prev\<rparr> else l);
        let h2 = h1(temp := None);
        let l2 = l1\<lparr>l_count := l_count l1 - 1\<rparr>;
        let l3 = (if l_count l2 = 1 then l2\<lparr>l_tail := l_head l2\<rparr> else l2);
        let l4 = (if l_count l3 = 0 then l3\<lparr>l_head := 0, l_tail := 0\<rparr> else l3);
        Some (True, l4, h2)
      })"

definition list_remove_node :: "list_t \<Rightarrow> ptr \<Rightarrow> 'a nodes \<Rightarrow> (ptr \<times> list_t \<times> 'a nodes) option" where
  "list_remove_node l prev h =
     (if prev = 0 then Some (0, l, h)
      else if l_count l = 0 then Some (0, l, h)
      else if l_count l = 1 then do {
        h1 \<leftarrow> set_next h prev 0;
        Some (prev, l\<lparr>l_count := l_count l - 1, l_head := 0, l_tail := 0\<rparr>, h1)
      }
      else do {
        pn \<leftarrow> h prev;
        let temp = ln_next pn;
        let l1 = (if temp = l_tail l then l\<lparr>l_tail := prev\<rparr> else l);
        tn \<leftarrow> h temp;
        h1 \<leftarrow> set_next h prev (ln_next tn);
        let l2 = l1\<lparr>l_count := l_count l1 - 1\<rparr>;
        let l3 = (if l_count l2 = 1 then l2\<lparr>l_tail := l_head l2\<rparr> else l2);
        let l4 = (if l_count l3 = 0 then l3\<lparr>l_head := 0, l_tail := 0\<rparr> else l3);
        h2 \<leftarrow> set_next h1 temp 0;
        Some (temp, l4, h2)
      })"

definition list_remove_front :: "list_t \<Rightarrow> 'a nodes \<Rightarrow> (list_t \<times> 'a nodes) option" where
  "list_remove_front l h =
     (if l_count l = 0 then Some (l, h)
      else do {
        let temp = l_head l;
        n \<leftarrow> h temp;
        let l1 = l\<lparr>l_head := ln_next n, l_count := l_count l - 1\<rparr>;
        let h1 = h(temp := None);
        Some ((if l_count l1 = 0 then l1\<lparr>l_head := 0, l_tail := 0\<rparr> else l1), h1)
      })"

definition list_remove_front_node :: "list_t \<Rightarrow> 'a nodes \<Rightarrow> (ptr \<times> list_t \<times> 'a nodes) option" where
  "list_remove_front_node l h =
     (if l_count l = 0 then Some (0, l, h)
      else do {
        let temp = l_head l;
        n \<leftarrow> h temp;
        let l1 = l\<lparr>l_head := ln_next n, l_count := l_count l - 1\<rparr>;
        let l2 = (if l_count l1 = 0 then l1\<lparr>l_head := 0, l_tail := 0\<rparr> else l1);
        h1 \<leftarrow> set_next h temp 0;
        Some (temp, l2, h1)
      })"

definition list_insert_front :: "list_t \<Rightarrow> ptr \<Rightarrow> 'a \<Rightarrow> 'a nodes \<Rightarrow> (list_t \<times> 'a nodes) option" where
  "list_insert_front l node element h = do {
     h1 \<leftarrow> new_node node \<lparr>ln_data = element, ln_next = 0\<rparr> h;
     (l2, h2) \<leftarrow> (if l_count l = 0 then Some (l\<lparr>l_tail := node, l_head := node\<rparr>, h1)
       else do { h2 \<leftarrow> set_next h1 node (l_head l); Some (l\<lparr>l_head := node\<rparr>, h2) });
     Some (l2\<lparr>l_count := l_count l2 + 1\<rparr>, h2)
   }"

definition list_insert_back_node :: "list_t \<Rightarrow> ptr \<Rightarrow> 'a nodes \<Rightarrow> (list_t \<times> 'a nodes) option" where
  "list_insert_back_node l node h = do {
     h1 \<leftarrow> set_next h node 0;
     (l2, h2) \<leftarrow> (if l_count l = 0 then Some (l\<lparr>l_tail := node, l_head := node\<rparr>, h1)
       else do { h2 \<leftarrow> set_next h1 (l_tail l) node; Some (l\<lparr>l_tail := node\<rparr>, h2) });
     Some (l2\<lparr>l_count := l_count l2 + 1\<rparr>, h2)
   }"

definition list_insert_back :: "list_t \<Rightarrow> ptr \<Rightarrow> 'a \<Rightarrow> 'a nodes \<Rightarrow> (list_t \<times> 'a nodes) option" where
  "list_insert_back l node element h = do {
     h1 \<leftarrow> new_node node \<lparr>ln_data = element, ln_next = 0\<rparr> h;
     (l2, h2) \<leftarrow> (if l_count l = 0 then Some (l\<lparr>l_tail := node, l_head := node\<rparr>, h1)
       else do { h2 \<leftarrow> set_next h1 (l_tail l) node; Some (l\<lparr>l_tail := node\<rparr>, h2) });
     Some (l2\<lparr>l_count := l_count l2 + 1\<rparr>, h2)
   }"

definition list_merge_back :: "list_t \<Rightarrow> list_t \<Rightarrow> 'a nodes \<Rightarrow> (list_t \<times> list_t \<times> 'a nodes) option" where
  "list_merge_back l1 l2 h = do {
     let m1 = l1\<lparr>l_count := l_count l1 + l_count l2\<rparr>;
     h1 \<leftarrow> set_next h (l_tail m1) (l_head l2);
     Some (m1\<lparr>l_tail := l_tail l2\<rparr>, l2\<lparr>l_count := 0, l_tail := 0, l_head := 0\<rparr>, h1)
   }"

definition list_head_to_tail :: "list_t \<Rightarrow> 'a nodes \<Rightarrow> (list_t \<times> 'a nodes) option" where
  "list_head_to_tail l h =
     (if l_count l = 0 \<or> l_count l = 1 then Some (l, h)
      else do {
        h1 \<leftarrow> set_next h (l_tail l) (l_head l);
        let l1 = l\<lparr>l_tail := l_head l\<rparr>;
        n \<leftarrow> h1 (l_head l1);
        let l2 = l1\<lparr>l_head := ln_next n\<rparr>;
        h2 \<leftarrow> set_next h1 (l_tail l2) 0;
        Some (l2, h2)
      })"

partial_function (option) list_clear_loop :: "list_t \<Rightarrow> 'a nodes \<Rightarrow> (list_t \<times> 'a nodes) option" where
  [code]: "list_clear_loop l h =
     (if l_count l > 0 then do { (l1, h1) \<leftarrow> list_remove_front l h; list_clear_loop l1 h1 }
      else Some (l, h))"

definition list_clear :: "list_t \<Rightarrow> 'a nodes \<Rightarrow> (list_t \<times> 'a nodes) option" where
  "list_clear l h = do {
     (l1, h1) \<leftarrow> list_clear_loop l h;
     Some (l1\<lparr>l_tail := 0, l_head := 0\<rparr>, h1)
   }"

subsection \<open>The sequence a list holds\<close>

text \<open>
  \<open>chain h p cs q\<close>: following \<^verbatim>\<open>next\<close> from \<open>p\<close> visits exactly the cells \<open>cs\<close> (address and
  element) and arrives at \<open>q\<close>.
\<close>

fun chain :: "'a nodes \<Rightarrow> ptr \<Rightarrow> (ptr \<times> 'a) list \<Rightarrow> ptr \<Rightarrow> bool" where
  "chain h p [] q \<longleftrightarrow> p = q"
| "chain h p ((a, x) # cs) q \<longleftrightarrow> p = a \<and> a \<noteq> 0 \<and>
     (case h a of None \<Rightarrow> False | Some n \<Rightarrow> ln_data n = x \<and> chain h (ln_next n) cs q)"

definition list_ok :: "list_t \<Rightarrow> 'a nodes \<Rightarrow> (ptr \<times> 'a) list \<Rightarrow> bool" where
  "list_ok l h cs \<longleftrightarrow> chain h (l_head l) cs 0 \<and> distinct (map fst cs) \<and>
     l_tail l = (if cs = [] then 0 else fst (last cs)) \<and> unat (l_count l) = length cs"

lemma chain_Cons [simp]: "chain h p ((a, x) # cs) q \<longleftrightarrow>
    p = a \<and> a \<noteq> 0 \<and> (\<exists>n. h a = Some n \<and> ln_data n = x \<and> chain h (ln_next n) cs q)"
  by (auto split: option.splits)

declare chain.simps(2) [simp del]

lemma chain_append [simp]:
  "chain h p (cs @ ds) q \<longleftrightarrow> (\<exists>r. chain h p cs r \<and> chain h r ds q)"
  by (induction cs arbitrary: p; force)

lemma chain_cong:
  "(\<And>a. a \<in> fst ` set cs \<Longrightarrow> h' a = h a) \<Longrightarrow> chain h' p cs q = chain h p cs q"
  by (induction cs arbitrary: p) auto

lemma chain_upd [simp]: "a \<notin> fst ` set cs \<Longrightarrow> chain (h(a := v)) p cs q = chain h p cs q"
  by (rule chain_cong) auto

lemma chain_nonnull: "chain h p cs q \<Longrightarrow> 0 \<notin> fst ` set cs"
  by (induction cs arbitrary: p; force)

lemma chain_lookup:
  "chain h p cs q \<Longrightarrow> (a, x) \<in> set cs \<Longrightarrow> \<exists>n. h a = Some n \<and> ln_data n = x"
  by (induction cs arbitrary: p) auto

text \<open>Operations on other lists in the same store do not disturb a list.\<close>

lemma list_ok_frame:
  assumes "list_ok l h cs" and "\<And>a. a \<in> fst ` set cs \<Longrightarrow> h' a = h a"
  shows "list_ok l h' cs"
  using assms chain_cong [of cs h' h] by (simp add: list_ok_def)

lemma list_ok_Nil: "list_ok l h [] \<longleftrightarrow> l_head l = 0 \<and> l_tail l = 0 \<and> l_count l = 0"
  by (auto simp: list_ok_def unat_eq_0_iff)

lemma list_ok_count_0: "list_ok l h cs \<Longrightarrow> l_count l = 0 \<longleftrightarrow> cs = []"
  by (auto simp: list_ok_def unat_eq_0_iff)

lemma list_ok_count_1: "list_ok l h cs \<Longrightarrow> l_count l = 1 \<longleftrightarrow> length cs = 1"
  by (auto simp: list_ok_def word_eq_unat)

lemma list_ok_addr:
  assumes "list_ok l h cs" and "(a, x) \<in> set cs"
  shows "a \<noteq> 0 \<and> (\<exists>n. h a = Some n \<and> ln_data n = x)"
proof -
  have "chain h (l_head l) cs 0"
    using assms(1) by (simp add: list_ok_def)
  note c = this
  from chain_nonnull [OF c] have "a \<noteq> 0" using assms(2) by force
  with chain_lookup [OF c assms(2)] show ?thesis by simp
qed

lemma list_init_ok: "list_ok (list_init l) h []"
  by (simp add: list_init_def list_ok_Nil)

lemmas list_op_defs = new_node_def set_next_def Let_def

subsection \<open>Every operation refines its list operation\<close>

lemma list_ok_snoc:
  assumes "list_ok l h (cs @ [(t, y)])"
  shows "l_tail l = t" and "t \<noteq> 0" and "chain h (l_head l) cs t"
    and "\<exists>n. h t = Some n \<and> ln_data n = y \<and> ln_next n = 0" and "t \<notin> fst ` set cs" and "l_count l \<noteq> 0"
  using assms by (auto simp: list_ok_def)

lemma list_ok_Cons:
  assumes "list_ok l h ((a, x) # cs)"
  shows "l_head l = a" and "a \<noteq> 0" and "\<exists>n. h a = Some n \<and> ln_data n = x \<and> chain h (ln_next n) cs 0"
    and "a \<notin> fst ` set cs" and "l_count l \<noteq> 0" and "unat (l_count l - 1) = length cs"
    and "l_count l - 1 = 0 \<longleftrightarrow> cs = []"
  using assms unat_pred_length [of "l_count l" "length cs"] by (auto simp: list_ok_def)

lemma list_insert_back_ok:
  assumes ok: "list_ok l h cs" and p: "p \<noteq> 0" "p \<notin> fst ` set cs" and len: "length cs + 1 < 2 ^ 32"
  shows "\<exists>l' h'. list_insert_back l p x h = Some (l', h') \<and> list_ok l' h' (cs @ [(p, x)]) \<and>
    (\<forall>a. a \<notin> insert p (fst ` set cs) \<longrightarrow> h' a = h a)"
proof (cases cs rule: rev_cases)
  case Nil
  with ok p show ?thesis
    by (auto simp: list_insert_back_def list_op_defs list_ok_def unat_eq_0_iff)
next
  case (snoc ds c)
  obtain t y where c: "c = (t, y)" by (cases c)
  note f = list_ok_snoc [OF ok [unfolded snoc c]]
  have "unat (l_count l) = length cs" using ok by (simp add: list_ok_def)
  then have "unat (l_count l + 1) = length cs + 1"
    using len by (simp add: unat_suc_u32)
  then show ?thesis
    using ok p f snoc c by (auto simp: list_insert_back_def list_op_defs list_ok_def)
qed

lemma list_insert_front_ok:
  assumes ok: "list_ok l h cs" and p: "p \<noteq> 0" "p \<notin> fst ` set cs" and len: "length cs + 1 < 2 ^ 32"
  shows "\<exists>l' h'. list_insert_front l p x h = Some (l', h') \<and> list_ok l' h' ((p, x) # cs) \<and>
    (\<forall>a. a \<noteq> p \<longrightarrow> h' a = h a)"
proof -
  have "unat (l_count l + 1) = length cs + 1"
    using ok len by (simp add: list_ok_def unat_suc_u32)
  then show ?thesis
    using ok p
    by (cases "cs = []")
      (auto simp: list_insert_front_def list_op_defs list_ok_def unat_eq_0_iff list_ok_count_0)
qed

lemma list_insert_back_node_ok:
  assumes ok: "list_ok l h cs" and p: "p \<noteq> 0" "p \<notin> fst ` set cs" and len: "length cs + 1 < 2 ^ 32"
    and n: "h p = Some n" "ln_data n = x"
  shows "\<exists>l' h'. list_insert_back_node l p h = Some (l', h') \<and> list_ok l' h' (cs @ [(p, x)]) \<and>
    (\<forall>a. a \<notin> insert p (fst ` set cs) \<longrightarrow> h' a = h a)"
proof (cases cs rule: rev_cases)
  case Nil
  with ok p n show ?thesis
    by (auto simp: list_insert_back_node_def list_op_defs list_ok_def unat_eq_0_iff)
next
  case (snoc ds c)
  obtain t y where c: "c = (t, y)" by (cases c)
  note f = list_ok_snoc [OF ok [unfolded snoc c]]
  have "unat (l_count l + 1) = length cs + 1"
    using ok len by (simp add: list_ok_def unat_suc_u32)
  then show ?thesis
    using ok p f n snoc c by (auto simp: list_insert_back_node_def list_op_defs list_ok_def)
qed

lemma list_remove_front_ok:
  assumes ok: "list_ok l h ((a, x) # cs)"
  shows "\<exists>l' h'. list_remove_front l h = Some (l', h') \<and> list_ok l' h' cs \<and>
    h' = h(a := None)"
  using ok list_ok_Cons [OF ok]
  by (cases cs) (auto simp: list_remove_front_def list_op_defs list_ok_def)

lemma list_remove_front_node_ok:
  assumes ok: "list_ok l h ((a, x) # cs)"
  shows "\<exists>l' h' n. list_remove_front_node l h = Some (a, l', h') \<and> list_ok l' h' cs \<and>
    h' a = Some n \<and> ln_data n = x \<and> (\<forall>b. b \<noteq> a \<longrightarrow> h' b = h b)"
  using ok list_ok_Cons [OF ok]
  by (cases cs) (auto simp: list_remove_front_node_def list_op_defs list_ok_def)

text \<open>\<^verbatim>\<open>list_remove\<close> and \<^verbatim>\<open>list_remove_node\<close> unlink the successor of the node they are given.\<close>

lemma list_ok_split:
  assumes "list_ok l h (ds @ (p, y) # (t, x) # es)"
  shows "\<exists>n m. h p = Some n \<and> ln_next n = t \<and> ln_data n = y \<and> h t = Some m \<and> ln_data m = x \<and>
      chain h (l_head l) ds p \<and> chain h (ln_next m) es 0"
    and "p \<noteq> 0" and "t \<noteq> 0" and "p \<noteq> t"
    and "p \<notin> fst ` set ds" and "p \<notin> fst ` set es" and "t \<notin> fst ` set ds" and "t \<notin> fst ` set es"
    and "l_tail l = t \<longleftrightarrow> es = []" and "l_count l \<noteq> 0" and "l_count l \<noteq> 1"
    and "unat (l_count l - 1) = Suc (length ds + length es)" and "l_count l - 1 \<noteq> 0"
    and "l_count l - 1 = 1 \<longleftrightarrow> ds = [] \<and> es = []"
proof -
  have c: "unat (l_count l) = Suc (Suc (length ds + length es))"
    using assms by (simp add: list_ok_def)
  note pred = unat_pred_length [OF c]
  show "l_count l \<noteq> 0" and "l_count l \<noteq> 1"
    and "unat (l_count l - 1) = Suc (length ds + length es)" and "l_count l - 1 \<noteq> 0"
    using c pred by auto
  show "l_count l - 1 = 1 \<longleftrightarrow> ds = [] \<and> es = []"
    using pred by (simp add: word_eq_unat)
  show "l_tail l = t \<longleftrightarrow> es = []"
  proof (cases "es = []")
    case False
    have "t \<notin> fst ` set es" using assms by (auto simp: list_ok_def)
    then have "fst (last es) \<noteq> t" using False by (metis imageI last_in_set)
    with assms False show ?thesis by (auto simp: list_ok_def)
  qed (use assms in \<open>auto simp: list_ok_def\<close>)
qed (use assms in \<open>auto simp: list_ok_def\<close>)

lemma list_remove_ok:
  assumes ok: "list_ok l h (ds @ (p, y) # (t, x) # es)"
  shows "\<exists>l' h'. list_remove l p h = Some (True, l', h') \<and> list_ok l' h' (ds @ (p, y) # es) \<and>
    h' t = None \<and> (\<forall>a. a \<noteq> p \<longrightarrow> a \<noteq> t \<longrightarrow> h' a = h a)"
proof -
  have d: "distinct (map fst (ds @ (p, y) # es))" and tl: "es \<noteq> [] \<Longrightarrow> l_tail l = fst (last es)"
    using ok by (auto simp: list_ok_def)
  show ?thesis
    using list_ok_split [OF ok] d tl
    by (cases "es = []") (auto simp: list_remove_def list_op_defs list_ok_def)
qed

lemma list_remove_single_ok:
  assumes ok: "list_ok l h [(a, x)]"
  shows "\<exists>l'. list_remove l a h = Some (True, l', h(a := None)) \<and> list_ok l' (h(a := None)) []"
  using list_ok_Cons [OF ok] list_ok_count_1 [OF ok]
  by (auto simp: list_remove_def list_ok_Nil)

lemma list_remove_node_ok:
  assumes ok: "list_ok l h (ds @ (p, y) # (t, x) # es)"
  shows "\<exists>l' h' n. list_remove_node l p h = Some (t, l', h') \<and> list_ok l' h' (ds @ (p, y) # es) \<and>
    h' t = Some n \<and> ln_data n = x \<and> (\<forall>a. a \<noteq> p \<longrightarrow> a \<noteq> t \<longrightarrow> h' a = h a)"
proof -
  have d: "distinct (map fst (ds @ (p, y) # es))" and tl: "es \<noteq> [] \<Longrightarrow> l_tail l = fst (last es)"
    using ok by (auto simp: list_ok_def)
  show ?thesis
    using list_ok_split [OF ok] d tl
    by (cases "es = []") (auto simp: list_remove_node_def list_op_defs list_ok_def)
qed

text \<open>
  \<^verbatim>\<open>list_get_prev\<close> looks for the cell before the first match, starting from the second cell. When
  there is no such cell it reads \<^verbatim>\<open>next->data\<close> of the last node, whose \<^verbatim>\<open>next\<close> is null.
\<close>

fun prev_cell :: "(ptr \<times> 'a) list \<Rightarrow> 'a \<Rightarrow> ptr option" where
  "prev_cell ((a, x) # (b, y) # cs) item = (if y = item then Some a else prev_cell ((b, y) # cs) item)"
| "prev_cell cs item = None"

lemma list_get_prev_loop_spec:
  assumes "chain h p cs 0" and "cs \<noteq> []" and "h 0 = None"
  shows "list_get_prev_loop h p item = prev_cell cs item"
  using assms
proof (induction cs item arbitrary: p rule: prev_cell.induct)
  case (1 a x b y cs item)
  then show ?case
    by (subst list_get_prev_loop.simps) auto
qed (auto simp: list_get_prev_loop.simps)

lemma prev_cell_None_iff: "prev_cell cs item = None \<longleftrightarrow> item \<notin> snd ` set (tl cs)"
  by (induction cs item rule: prev_cell.induct) auto

lemma prev_cell_SomeD:
  "prev_cell cs item = Some p \<Longrightarrow> \<exists>ds y t es. cs = ds @ (p, y) # (t, item) # es \<and> item \<notin> snd ` set (tl (ds @ [(p, y)]))"
proof (induction cs item rule: prev_cell.induct)
  case (1 a x b y cs item)
  show ?case
  proof (cases "y = item")
    case True
    with 1 show ?thesis by (auto intro!: exI [of _ "[]"])
  next
    case False
    with 1 obtain ds y' t es where "(b, y) # cs = ds @ (p, y') # (t, item) # es"
      and "item \<notin> snd ` set (tl (ds @ [(p, y')]))"
      by auto
    with False have "(a, x) # (b, y) # cs = ((a, x) # ds) @ (p, y') # (t, item) # es"
      and "item \<notin> snd ` set (tl (((a, x) # ds) @ [(p, y')]))"
      by (cases ds; auto)+
    then show ?thesis by blast
  qed
qed auto

lemma list_head_to_tail_ok:
  assumes ok: "list_ok l h ((a, x) # cs)"
  shows "\<exists>l' h'. list_head_to_tail l h = Some (l', h') \<and> list_ok l' h' (cs @ [(a, x)]) \<and>
    (\<forall>b. b \<notin> insert a (fst ` set cs) \<longrightarrow> h' b = h b)"
proof (cases cs rule: rev_cases)
  case Nil
  with ok list_ok_count_1 [OF ok] show ?thesis by (auto simp: list_head_to_tail_def)
next
  case (snoc ds c)
  obtain t y where c: "c = (t, y)" by (cases c)
  have ok': "list_ok l h (((a, x) # ds) @ [(t, y)])" using ok snoc c by simp
  have "l_count l \<noteq> 1" using list_ok_count_1 [OF ok] snoc by simp
  then show ?thesis
    using ok list_ok_Cons [OF ok] list_ok_snoc [OF ok'] snoc c
    by (cases ds) (auto simp: list_head_to_tail_def list_op_defs list_ok_def)
qed

lemma list_clear_ok:
  assumes "list_ok l h cs"
  shows "\<exists>l' h'. list_clear l h = Some (l', h') \<and> list_ok l' h' [] \<and>
    (\<forall>a. h' a = (if a \<in> fst ` set cs then None else h a))"
proof -
  have "\<exists>l' h'. list_clear_loop l h = Some (l', h') \<and> l_count l' = 0 \<and>
    (\<forall>a. h' a = (if a \<in> fst ` set cs then None else h a))"
    using assms
  proof (induction cs arbitrary: l h)
    case Nil
    then show ?case by (simp add: list_ok_Nil list_clear_loop.simps)
  next
    case (Cons c cs)
    obtain a x where c: "c = (a, x)" by (cases c)
    with Cons.prems have ok: "list_ok l h ((a, x) # cs)" by simp
    obtain l' where r: "list_remove_front l h = Some (l', h(a := None))" "list_ok l' (h(a := None)) cs"
      using list_remove_front_ok [OF ok] by blast
    have "l_count l > 0" using list_ok_Cons(5) [OF ok] by (simp add: word_greater_zero_iff)
    then have "list_clear_loop l h = list_clear_loop l' (h(a := None))"
      using r(1) by (simp add: list_clear_loop.simps [of l h])
    moreover obtain l2 h2 where "list_clear_loop l' (h(a := None)) = Some (l2, h2)" "l_count l2 = 0"
      and h2: "\<forall>b. h2 b = (if b \<in> fst ` set cs then None else (h(a := None)) b)"
      using Cons.IH [OF r(2)] by blast
    moreover have "\<forall>b. h2 b = (if b \<in> fst ` set (c # cs) then None else h b)"
      unfolding c using h2 by simp
    ultimately show ?case by (metis (no_types))
  qed
  then show ?thesis by (auto simp: list_clear_def list_ok_Nil)
qed

lemma list_merge_back_ok:
  assumes ok1: "list_ok l1 h cs" and ok2: "list_ok l2 h ds" and "cs \<noteq> []" "ds \<noteq> []"
    and disj: "fst ` set cs \<inter> fst ` set ds = {}" and len: "length cs + length ds < 2 ^ 32"
  shows "\<exists>l1' l2' h'. list_merge_back l1 l2 h = Some (l1', l2', h') \<and> list_ok l1' h' (cs @ ds) \<and> list_ok l2' h' []"
proof -
  obtain es t y where cs: "cs = es @ [(t, y)]"
    using \<open>cs \<noteq> []\<close> by (cases cs rule: rev_cases) auto
  have "unat (l_count l1 + l_count l2) = length cs + length ds"
    using ok1 ok2 len by (simp add: list_ok_def unat_add_no_wrap)
  moreover have "t \<notin> fst ` set ds" using disj cs by auto
  ultimately show ?thesis
    using ok1 ok2 list_ok_snoc [OF ok1 [unfolded cs]] disj \<open>ds \<noteq> []\<close> cs
    by (auto simp: list_merge_back_def list_op_defs list_ok_def)
qed

text \<open>Merging an empty list into a non-empty one leaves a null tail behind.\<close>

lemma list_merge_back_empty:
  assumes "list_ok l1 h cs" and "cs \<noteq> []" and "list_ok l2 h []"
  shows "\<exists>l1' l2' h'. list_merge_back l1 l2 h = Some (l1', l2', h') \<and> l_tail l1' = 0 \<and> l_count l1' = l_count l1 \<and>
    \<not> list_ok l1' h' cs"
proof -
  obtain es t y where cs: "cs = es @ [(t, y)]"
    using \<open>cs \<noteq> []\<close> by (cases cs rule: rev_cases) auto
  show ?thesis
    using assms list_ok_snoc [OF assms(1) [unfolded cs]]
    by (auto simp: list_merge_back_def list_op_defs list_ok_Nil list_ok_def cs unat_eq_0_iff)
qed

subsection \<open>Removal by value\<close>

definition list_remove_item :: "list_t \<Rightarrow> 'a \<Rightarrow> 'a nodes \<Rightarrow> (bool \<times> list_t \<times> 'a nodes) option" where
  \<comment> \<open>\<^verbatim>\<open>list_remove(l, list_get_prev(l, item))\<close>, what \<^verbatim>\<open>list_get_prev\<close> is for.\<close>
  "list_remove_item l item h = do { prev \<leftarrow> list_get_prev l h item; list_remove l prev h }"

fun remove_first :: "'a \<Rightarrow> (ptr \<times> 'a) list \<Rightarrow> (ptr \<times> 'a) list" where
  "remove_first item [] = []"
| "remove_first item ((a, x) # cs) = (if x = item then cs else (a, x) # remove_first item cs)"

lemma remove_first_append: "item \<notin> snd ` set cs \<Longrightarrow> remove_first item (cs @ (t, item) # es) = cs @ es"
  by (induction cs) auto

lemma list_get_prev_many:
  assumes ok: "list_ok l h cs" and len: "2 \<le> length cs" and "h 0 = None"
  shows "list_get_prev l h item = prev_cell cs item"
proof -
  have "l_count l \<noteq> 0" "l_count l \<noteq> 1"
    using list_ok_count_0 [OF ok] list_ok_count_1 [OF ok] len by auto
  moreover have "chain h (l_head l) cs 0" using ok by (simp add: list_ok_def)
  moreover have "cs \<noteq> []" using len by auto
  ultimately show ?thesis
    using list_get_prev_loop_spec [of h "l_head l" cs item] assms(3) by (simp add: list_get_prev_def)
qed

text \<open>
  Removal by value on a list of two or more elements: when the item occurs after the head, its
  first occurrence there, and only it, is unlinked and freed and the list stays well formed; when it
  does not, the search for the predecessor runs through the null \<^verbatim>\<open>next\<close> of the last node.
\<close>

theorem list_remove_item_correct:
  assumes ok: "list_ok l h (c # cs)" and "cs \<noteq> []" and null: "h 0 = None"
  shows "if item \<in> snd ` set cs
    then \<exists>l' h'. list_remove_item l item h = Some (True, l', h') \<and> list_ok l' h' (c # remove_first item cs) \<and>
      (\<forall>a. a \<notin> fst ` set (c # cs) \<longrightarrow> h' a = h a)
    else list_remove_item l item h = None"
proof (cases "prev_cell (c # cs) item")
  case None
  then have "item \<notin> snd ` set cs" using prev_cell_None_iff [of "c # cs" item] by simp
  then show ?thesis
    using list_get_prev_many [OF ok _ null, of item] None \<open>cs \<noteq> []\<close>
    by (cases cs) (simp_all add: list_remove_item_def)
next
  case (Some p)
  obtain ds y t es where split: "c # cs = ds @ (p, y) # (t, item) # es"
      and first: "item \<notin> snd ` set (tl (ds @ [(p, y)]))"
    using prev_cell_SomeD [OF Some] by blast
  obtain l' h' where r: "list_remove l p h = Some (True, l', h')" "list_ok l' h' (ds @ (p, y) # es)"
      "\<forall>a. a \<noteq> p \<longrightarrow> a \<noteq> t \<longrightarrow> h' a = h a"
    using list_remove_ok [OF ok [unfolded split]] by blast
  have cs: "cs = tl (ds @ [(p, y)]) @ (t, item) # es" using split by (cases ds) auto
  then have "item \<in> snd ` set cs" by force
  moreover have "c # remove_first item cs = ds @ (p, y) # es"
    using remove_first_append [OF first, of t es] cs split by (cases ds) auto
  moreover have "\<forall>a. a \<notin> fst ` set (c # cs) \<longrightarrow> h' a = h a" using r(3) unfolding split by auto
  moreover have "list_get_prev l h item = Some p"
    using list_get_prev_many [OF ok _ null, of item] Some \<open>cs \<noteq> []\<close> by (cases cs) simp_all
  ultimately show ?thesis using r(1,2) by (simp add: list_remove_item_def)
qed

lemma list_remove_item_correct_witness:
  "\<exists>l' h'. list_remove_item \<lparr>l_head = 8, l_tail = 16, l_count = 2\<rparr> (5 :: nat)
     [8 \<mapsto> \<lparr>ln_data = 3, ln_next = 16\<rparr>, 16 \<mapsto> \<lparr>ln_data = 5, ln_next = 0\<rparr>] = Some (True, l', h') \<and> list_ok l' h' [(8, 3)]"
  using list_remove_item_correct [of "\<lparr>l_head = 8, l_tail = 16, l_count = 2\<rparr>"
      "[8 \<mapsto> \<lparr>ln_data = 3, ln_next = 16\<rparr>, 16 \<mapsto> \<lparr>ln_data = 5, ln_next = 0\<rparr>]" "(8, 3)" "[(16, 5 :: nat)]" 5]
  by (auto simp: list_ok_def)

text \<open>
  Merging lists: the elements of two non-empty disjoint lists are concatenated and the second
  list is left empty; merging an empty list into a non-empty one leaves the first list with a null
  tail, so it is no longer a well formed list.
\<close>

theorem list_merge_back_correct:
  assumes ok1: "list_ok l1 h cs" and ok2: "list_ok l2 h ds" and "cs \<noteq> []"
    and disj: "fst ` set cs \<inter> fst ` set ds = {}" and len: "length cs + length ds < 2 ^ 32"
  shows "\<exists>l1' l2' h'. list_merge_back l1 l2 h = Some (l1', l2', h') \<and>
    (if ds = [] then l_tail l1' = 0 \<and> \<not> list_ok l1' h' cs else list_ok l1' h' (cs @ ds) \<and> list_ok l2' h' [])"
proof (cases "ds = []")
  case True
  then show ?thesis using list_merge_back_empty [OF ok1 \<open>cs \<noteq> []\<close>, of l2] ok2 by (simp, blast)
next
  case False
  then show ?thesis using list_merge_back_ok [OF ok1 ok2 \<open>cs \<noteq> []\<close> False disj len] by auto
qed

lemma list_merge_back_correct_witness:
  "\<exists>l1' l2' h'. list_merge_back \<lparr>l_head = 8, l_tail = 8, l_count = 1\<rparr> \<lparr>l_head = 16, l_tail = 16, l_count = 1\<rparr>
     [8 \<mapsto> \<lparr>ln_data = 3, ln_next = 0\<rparr>, 16 \<mapsto> \<lparr>ln_data = 5, ln_next = 0\<rparr>] = Some (l1', l2', h') \<and>
     list_ok l1' h' [(8, 3), (16, 5 :: nat)]"
  using list_merge_back_correct [of "\<lparr>l_head = 8, l_tail = 8, l_count = 1\<rparr>"
      "[8 \<mapsto> \<lparr>ln_data = 3, ln_next = 0\<rparr>, 16 \<mapsto> \<lparr>ln_data = 5, ln_next = 0\<rparr>]" "[(8, 3)]"
      "\<lparr>l_head = 16, l_tail = 16, l_count = 1\<rparr>" "[(16, 5 :: nat)]"]
  by (auto simp: list_ok_def)

end
