(* ===== verification/Fifo.thy ===== *)
theory Fifo
  imports Prelude
begin

text \<open>
  The first-in first-out contract that the kernel's circular buffers share, stated over a state
  that holds the buffer, and what a consumer of such a buffer can rely on. The consumer is the
  deferred part of \<^verbatim>\<open>isr_handler\<close> (isr.cpp): it peeks, removes and handles until the queue is empty.
\<close>

subsection \<open>The consumer loop\<close>

partial_function (option) drain ::
  "('s \<Rightarrow> bool) \<Rightarrow> ('s \<Rightarrow> 'a option) \<Rightarrow> ('s \<Rightarrow> (bool \<times> 's) option) \<Rightarrow> 'a list \<Rightarrow> 's \<Rightarrow> ('a list \<times> 's) option" where
  [code]: "drain is_empty peek remove handled s =
     (if is_empty s then Some (handled, s)
      else do {
        x \<leftarrow> peek s;
        (_, s') \<leftarrow> remove s;
        drain is_empty peek remove (handled @ [x]) s'
      })"

subsection \<open>A sequence of producer and consumer calls\<close>

datatype 'a fifo_op = Enq 'a | Deq

fun fifo_run ::
  "('a \<Rightarrow> 's \<Rightarrow> (bool \<times> 's) option) \<Rightarrow> ('s \<Rightarrow> 'a option) \<Rightarrow> ('s \<Rightarrow> (bool \<times> 's) option) \<Rightarrow>
   'a fifo_op list \<Rightarrow> 's \<Rightarrow> ('a list \<times> 'a list \<times> 's) option" where
  "fifo_run enq peek deq [] s = Some ([], [], s)"
| "fifo_run enq peek deq (Enq x # ops) s = do {
     (b, s') \<leftarrow> enq x s;
     (ins, outs, s'') \<leftarrow> fifo_run enq peek deq ops s';
     Some ((if b then x # ins else ins), outs, s'')
   }"
| "fifo_run enq peek deq (Deq # ops) s = do {
     x \<leftarrow> peek s;
     (b, s') \<leftarrow> deq s;
     (ins, outs, s'') \<leftarrow> fifo_run enq peek deq ops s';
     Some (ins, (if b then x # outs else outs), s'')
   }"

subsection \<open>A bounded queue\<close>

text \<open>What each call is answered, by an implementation and by a list with room for \<open>room\<close> elements.\<close>

datatype 'a fifo_answer = Accepted | Refused | Delivered 'a

fun fifo_answers ::
  "('a \<Rightarrow> 's \<Rightarrow> (bool \<times> 's) option) \<Rightarrow> ('s \<Rightarrow> 'a option) \<Rightarrow> ('s \<Rightarrow> (bool \<times> 's) option) \<Rightarrow>
   'a fifo_op list \<Rightarrow> 's \<Rightarrow> ('a fifo_answer list \<times> 's) option" where
  "fifo_answers enq peek deq [] s = Some ([], s)"
| "fifo_answers enq peek deq (Enq x # ops) s = do {
     (b, s') \<leftarrow> enq x s;
     (answers, s'') \<leftarrow> fifo_answers enq peek deq ops s';
     Some ((if b then Accepted else Refused) # answers, s'')
   }"
| "fifo_answers enq peek deq (Deq # ops) s = do {
     x \<leftarrow> peek s;
     (b, s') \<leftarrow> deq s;
     (answers, s'') \<leftarrow> fifo_answers enq peek deq ops s';
     Some ((if b then Delivered x else Refused) # answers, s'')
   }"

fun bounded_answers :: "nat \<Rightarrow> 'a fifo_op list \<Rightarrow> 'a list \<Rightarrow> 'a fifo_answer list \<times> 'a list" where
  "bounded_answers room [] xs = ([], xs)"
| "bounded_answers room (Enq x # ops) xs =
     (if length xs < room then map_prod (Cons Accepted) id (bounded_answers room ops (xs @ [x]))
      else map_prod (Cons Refused) id (bounded_answers room ops xs))"
| "bounded_answers room (Deq # ops) [] = map_prod (Cons Refused) id (bounded_answers room ops [])"
| "bounded_answers room (Deq # ops) (x # xs) = map_prod (Cons (Delivered x)) id (bounded_answers room ops xs)"

subsection \<open>The contract\<close>

locale fifo =
  fixes inv :: "'s \<Rightarrow> bool"
    and contents :: "'s \<Rightarrow> 'a list"
    and enq :: "'a \<Rightarrow> 's \<Rightarrow> (bool \<times> 's) option"
    and deq :: "'s \<Rightarrow> (bool \<times> 's) option"
    and peek :: "'s \<Rightarrow> 'a option"
    and is_empty :: "'s \<Rightarrow> bool"
  assumes enq_law: "inv s \<Longrightarrow> \<exists>b s'. enq x s = Some (b, s') \<and> inv s' \<and>
      contents s' = (if b then contents s @ [x] else contents s)"
    and deq_law: "inv s \<Longrightarrow> \<exists>s'. deq s = Some (contents s \<noteq> [], s') \<and> inv s' \<and> contents s' = tl (contents s)"
    and peek_law: "inv s \<Longrightarrow> \<exists>x. peek s = Some x \<and> (contents s \<noteq> [] \<longrightarrow> x = hd (contents s))"
    and empty_law: "inv s \<Longrightarrow> is_empty s \<longleftrightarrow> contents s = []"
begin

lemma drain_all:
  "inv s \<Longrightarrow> \<exists>s'. drain is_empty peek deq hs s = Some (hs @ contents s, s') \<and> inv s' \<and> contents s' = []"
proof (induction "contents s" arbitrary: s hs)
  case Nil
  then show ?case by (auto simp: drain.simps empty_law)
next
  case (Cons x xs)
  note c = Cons.hyps(2) [symmetric]
  have p: "peek s = Some x" using peek_law [OF Cons.prems] c by auto
  obtain s1 where d: "deq s = Some (True, s1)" "inv s1" "contents s1 = xs"
    using deq_law [OF Cons.prems] c by auto
  have "drain is_empty peek deq hs s = drain is_empty peek deq (hs @ [x]) s1"
    using empty_law [OF Cons.prems] p d(1) c by (simp add: drain.simps [of _ _ _ hs s])
  then show ?case using Cons.hyps(1) [of s1 "hs @ [x]"] d c by auto
qed

lemma run_order:
  "inv s \<Longrightarrow> \<exists>ins outs s'. fifo_run enq peek deq ops s = Some (ins, outs, s') \<and> inv s' \<and>
     contents s @ ins = outs @ contents s'"
proof (induction ops arbitrary: s)
  case Nil
  then show ?case by simp
next
  case (Cons opn ops)
  show ?case
  proof (cases opn)
    case (Enq x)
    obtain b s1 where e: "enq x s = Some (b, s1)" "inv s1"
        "contents s1 = (if b then contents s @ [x] else contents s)"
      using enq_law [OF Cons.prems] by blast
    with Cons.IH [OF e(2)] Enq show ?thesis by fastforce
  next
    case Deq
    obtain x where p: "peek s = Some x" "contents s \<noteq> [] \<Longrightarrow> x = hd (contents s)"
      using peek_law [OF Cons.prems] by blast
    obtain s1 where d: "deq s = Some (contents s \<noteq> [], s1)" "inv s1" "contents s1 = tl (contents s)"
      using deq_law [OF Cons.prems] by blast
    with Cons.IH [OF d(2)] Deq p show ?thesis
      by (cases "contents s") fastforce+
  qed
qed

end

subsection \<open>The contract with a bound\<close>

locale bounded_fifo = fifo inv contents enq deq peek is_empty
  for inv :: "'s \<Rightarrow> bool" and contents :: "'s \<Rightarrow> 'a list" and enq :: "'a \<Rightarrow> 's \<Rightarrow> (bool \<times> 's) option"
    and deq :: "'s \<Rightarrow> (bool \<times> 's) option" and peek :: "'s \<Rightarrow> 'a option" and is_empty :: "'s \<Rightarrow> bool" +
  fixes room :: "'s \<Rightarrow> nat"
  assumes enq_room: "inv s \<Longrightarrow> enq x s = Some (b, s') \<Longrightarrow> b = (length (contents s) < room s) \<and> room s' = room s"
    and deq_room: "inv s \<Longrightarrow> deq s = Some (b, s') \<Longrightarrow> room s' = room s"
begin

lemma answers_bounded:
  "inv s \<Longrightarrow> \<exists>s'. fifo_answers enq peek deq ops s = Some (fst (bounded_answers (room s) ops (contents s)), s') \<and> inv s' \<and>
     contents s' = snd (bounded_answers (room s) ops (contents s)) \<and> room s' = room s"
proof (induction ops arbitrary: s)
  case Nil
  then show ?case by simp
next
  case (Cons opn ops)
  show ?case
  proof (cases opn)
    case (Enq x)
    obtain b s1 where e: "enq x s = Some (b, s1)" "inv s1"
        "contents s1 = (if b then contents s @ [x] else contents s)"
      using enq_law [OF Cons.prems] by blast
    with Cons.IH [OF e(2)] Enq enq_room [OF Cons.prems e(1)] show ?thesis by auto
  next
    case Deq
    obtain x where p: "peek s = Some x" "contents s \<noteq> [] \<Longrightarrow> x = hd (contents s)"
      using peek_law [OF Cons.prems] by blast
    obtain s1 where d: "deq s = Some (contents s \<noteq> [], s1)" "inv s1" "contents s1 = tl (contents s)"
      using deq_law [OF Cons.prems] by blast
    with Cons.IH [OF d(2)] Deq p deq_room [OF Cons.prems d(1)] show ?thesis by (cases "contents s") auto
  qed
qed

end

end
