(* ===== verification/Ring_Queue.thy ===== *)
theory Ring_Queue
  imports Fifo
begin

text \<open>
  The circular queues \<^verbatim>\<open>queue_spsc.h\<close> and \<^verbatim>\<open>queue_mpmc.h\<close>. The buffer is a list of
  \<^verbatim>\<open>max_count\<close> cells; an index outside it, and \<^verbatim>\<open>% 0\<close>, are \<open>None\<close>. Both satisfy the
  \<open>fifo\<close> contract. The single-producer single-consumer queue is also modelled with its reads and
  writes interleaved one at a time.
\<close>

subsection \<open>queue_spsc.h\<close>

record 'a queue_spsc =
  buffer :: "'a list"
  max_count :: u32
  head_index :: u32
  tail_index :: u32

definition ring_next :: "u32 \<Rightarrow> u32 \<Rightarrow> u32 option" where
  "ring_next i m = (if m = 0 then None else Some ((i + 1) mod m))"

definition queue_spsc_init :: "u32 \<Rightarrow> 'a list \<Rightarrow> 'a queue_spsc" where
  "queue_spsc_init max_elements cells =
     \<lparr>buffer = cells, max_count = max_elements, head_index = 0, tail_index = 0\<rparr>"

definition queue_spsc_remove :: "'a queue_spsc \<Rightarrow> (bool \<times> 'a queue_spsc) option" where
  "queue_spsc_remove q =
     (if head_index q \<noteq> tail_index q then do {
        i \<leftarrow> ring_next (head_index q) (max_count q);
        Some (True, q\<lparr>head_index := i\<rparr>)
      }
      else Some (False, q))"

definition queue_spsc_insert :: "'a \<Rightarrow> 'a queue_spsc \<Rightarrow> (bool \<times> 'a queue_spsc) option" where
  "queue_spsc_insert element q = do {
     i \<leftarrow> ring_next (tail_index q) (max_count q);
     if i \<noteq> head_index q then do {
       b \<leftarrow> array_set (buffer q) (tail_index q) element;
       let q1 = q\<lparr>buffer := b\<rparr>;
       j \<leftarrow> ring_next (tail_index q1) (max_count q1);
       Some (True, q1\<lparr>tail_index := j\<rparr>)
     }
     else Some (False, q)
   }"

definition queue_spsc_peek :: "'a \<Rightarrow> 'a queue_spsc \<Rightarrow> 'a option" where
  \<comment> \<open>The first argument is the value-initialised \<^verbatim>\<open>T()\<close>.\<close>
  "queue_spsc_peek T0 q =
     (if tail_index q \<noteq> head_index q then array_get (buffer q) (head_index q) else Some T0)"

definition queue_spsc_is_empty :: "'a queue_spsc \<Rightarrow> bool" where
  "queue_spsc_is_empty q \<longleftrightarrow> tail_index q = head_index q"

definition queue_spsc_clear :: "'a queue_spsc \<Rightarrow> bool \<Rightarrow> 'a queue_spsc" where
  "queue_spsc_clear q reader_caller =
     (if reader_caller then q\<lparr>head_index := tail_index q\<rparr> else q\<lparr>tail_index := head_index q\<rparr>)"

subsection \<open>The sequence in the buffer\<close>

definition ring :: "'a list \<Rightarrow> nat \<Rightarrow> nat \<Rightarrow> 'a list" where
  "ring xs h t = map (\<lambda>i. xs ! ((h + i) mod length xs)) [0..<(t + length xs - h) mod length xs]"

definition spsc_contents :: "'a queue_spsc \<Rightarrow> 'a list" where
  "spsc_contents q = ring (buffer q) (unat (head_index q)) (unat (tail_index q))"

definition spsc_ok :: "'a queue_spsc \<Rightarrow> bool" where
  "spsc_ok q \<longleftrightarrow> length (buffer q) = unat (max_count q) \<and>
     unat (head_index q) < length (buffer q) \<and> unat (tail_index q) < length (buffer q)"

lemma mod_lt_double: "a < 2 * m \<Longrightarrow> a mod m = (if a < m then a else a - m)"
  for a m :: nat
  by (simp add: mod_if)

lemma ring_length: "h < length xs \<Longrightarrow> t < length xs \<Longrightarrow>
    length (ring xs h t) = (if h \<le> t then t - h else t + length xs - h)"
  by (simp add: ring_def mod_lt_double)

lemma ring_length_less: "h < length xs \<Longrightarrow> t < length xs \<Longrightarrow> length (ring xs h t) < length xs"
  by (auto simp: ring_length)

lemma ring_Nil_iff: "h < length xs \<Longrightarrow> t < length xs \<Longrightarrow> ring xs h t = [] \<longleftrightarrow> h = t"
  by (auto simp flip: length_0_conv simp: ring_length)

lemma ring_nth: "h < length xs \<Longrightarrow> t < length xs \<Longrightarrow> i < length (ring xs h t) \<Longrightarrow>
    ring xs h t ! i = xs ! (if h + i < length xs then h + i else h + i - length xs)"
  by (simp add: ring_def mod_lt_double split: if_splits)

lemma ring_tl:
  assumes "h < length xs" "t < length xs" "h \<noteq> t"
  shows "ring xs ((h + 1) mod length xs) t = tl (ring xs h t)"
proof (rule nth_equalityI)
  have h': "(h + 1) mod length xs = (if h + 1 < length xs then h + 1 else 0)"
    using assms by (simp add: mod_lt_double)
  then have lt: "(h + 1) mod length xs < length xs" using assms by auto
  show len: "length (ring xs ((h + 1) mod length xs) t) = length (tl (ring xs h t))"
    using assms lt h' by (auto simp: ring_length)
  fix i assume i: "i < length (ring xs ((h + 1) mod length xs) t)"
  then have "Suc i < length (ring xs h t)" using len by simp
  moreover have "Suc h < length xs \<or> Suc h = length xs" using assms by auto
  moreover have "i < length xs" using i ring_length_less [OF lt assms(2)] by simp
  ultimately show "ring xs ((h + 1) mod length xs) t ! i = tl (ring xs h t) ! i"
    using assms lt h' i by (auto simp: ring_nth nth_tl simp flip: add_Suc)
qed

lemma ring_hd: "h < length xs \<Longrightarrow> t < length xs \<Longrightarrow> h \<noteq> t \<Longrightarrow> hd (ring xs h t) = xs ! h"
  using ring_nth [of h xs t 0] ring_length [of h xs t]
  by (subst hd_conv_nth) (auto simp flip: length_0_conv)

lemma ring_snoc:
  assumes "h < length xs" "t < length xs" "(t + 1) mod length xs \<noteq> h"
  shows "ring (xs[t := x]) h ((t + 1) mod length xs) = ring xs h t @ [x]"
proof (rule nth_equalityI)
  have t': "(t + 1) mod length xs = (if t + 1 < length xs then t + 1 else 0)"
    using assms by (simp add: mod_lt_double)
  then have lt: "(t + 1) mod length xs < length xs" using assms by auto
  show len: "length (ring (xs[t := x]) h ((t + 1) mod length xs)) = length (ring xs h t @ [x])"
    using assms lt t' by (auto simp: ring_length)
  fix i assume i: "i < length (ring (xs[t := x]) h ((t + 1) mod length xs))"
  define k where "k = (if h + i < length xs then h + i else h + i - length xs)"
  have k: "ring (xs[t := x]) h ((t + 1) mod length xs) ! i = xs[t := x] ! k"
    using assms lt i by (simp add: ring_nth k_def)
  have n: "length (ring xs h t) = (if h \<le> t then t - h else t + length xs - h)"
    using assms by (simp add: ring_length)
  show "ring (xs[t := x]) h ((t + 1) mod length xs) ! i = (ring xs h t @ [x]) ! i"
  proof (cases "i < length (ring xs h t)")
    case True
    moreover have "k \<noteq> t" using True n assms by (auto simp: k_def split: if_splits)
    ultimately show ?thesis using k assms by (simp add: nth_append ring_nth k_def)
  next
    case False
    then have "i = length (ring xs h t)" using i len by simp
    moreover from this have "k = t" using n assms by (auto simp: k_def split: if_splits)
    ultimately show ?thesis using k assms by (simp add: nth_append)
  qed
qed

subsection \<open>The queue satisfies the FIFO contract\<close>

lemma ring_next_ok:
  assumes "unat i < unat m"
  shows "\<exists>j. ring_next i m = Some j \<and> unat j = (unat i + 1) mod unat m \<and> unat j < unat m"
proof -
  have "unat i + 1 < 2 ^ 32" using assms unat_lt_u32 [of m] by simp
  then have "unat (i + 1) = unat i + 1" by (rule unat_suc_u32)
  then show ?thesis using assms by (auto simp: ring_next_def unat_mod)
qed

lemma spsc_okD:
  assumes "spsc_ok q"
  shows "length (buffer q) = unat (max_count q)" "unat (head_index q) < unat (max_count q)"
    "unat (tail_index q) < unat (max_count q)"
  using assms by (auto simp: spsc_ok_def)

lemma spsc_contents_Nil: "spsc_ok q \<Longrightarrow> spsc_contents q = [] \<longleftrightarrow> head_index q = tail_index q"
  by (simp add: spsc_ok_def spsc_contents_def ring_Nil_iff word_eq_unat)

lemma queue_spsc_init_ok:
  "0 < max_elements \<Longrightarrow> length cells = unat max_elements \<Longrightarrow>
    spsc_ok (queue_spsc_init max_elements cells) \<and> spsc_contents (queue_spsc_init max_elements cells) = []"
  by (auto simp: queue_spsc_init_def spsc_ok_def spsc_contents_def ring_def word_less_nat_alt)

lemma queue_spsc_insert_ok:
  assumes ok: "spsc_ok q"
  shows "\<exists>b q'. queue_spsc_insert x q = Some (b, q') \<and> spsc_ok q' \<and>
    spsc_contents q' = (if b then spsc_contents q @ [x] else spsc_contents q) \<and>
    (b \<longleftrightarrow> length (spsc_contents q) + 1 < unat (max_count q)) \<and> max_count q' = max_count q"
proof -
  note f = spsc_okD [OF ok]
  obtain j where j: "ring_next (tail_index q) (max_count q) = Some j"
      "unat j = (unat (tail_index q) + 1) mod unat (max_count q)" "unat j < unat (max_count q)"
    using ring_next_ok [OF f(3)] by blast
  have full: "j \<noteq> head_index q \<longleftrightarrow> length (spsc_contents q) + 1 < unat (max_count q)"
    using f j(2) by (auto simp: spsc_contents_def ring_length word_eq_unat mod_lt_double split: if_splits)
  show ?thesis
  proof (cases "j = head_index q")
    case True
    with j full ok show ?thesis by (auto simp: queue_spsc_insert_def)
  next
    case False
    then have "(unat (tail_index q) + 1) mod length (buffer q) \<noteq> unat (head_index q)"
      using j(2) f(1) by (simp add: word_eq_unat)
    then show ?thesis
      using False j f full ok ring_snoc [of "unat (head_index q)" "buffer q" "unat (tail_index q)" x]
      by (auto simp: queue_spsc_insert_def spsc_ok_def spsc_contents_def)
  qed
qed

lemma queue_spsc_remove_ok:
  assumes ok: "spsc_ok q"
  shows "\<exists>q'. queue_spsc_remove q = Some (spsc_contents q \<noteq> [], q') \<and> spsc_ok q' \<and>
    spsc_contents q' = tl (spsc_contents q)"
proof (cases "head_index q = tail_index q")
  case True
  then have "spsc_contents q = []" using ok by (simp add: spsc_contents_Nil)
  with True ok show ?thesis by (simp add: queue_spsc_remove_def)
next
  case False
  note f = spsc_okD [OF ok]
  obtain j where j: "ring_next (head_index q) (max_count q) = Some j"
      "unat j = (unat (head_index q) + 1) mod unat (max_count q)" "unat j < unat (max_count q)"
    using ring_next_ok [OF f(2)] by blast
  show ?thesis
    using False j f ok spsc_contents_Nil [OF ok]
      ring_tl [of "unat (head_index q)" "buffer q" "unat (tail_index q)"]
    by (auto simp: queue_spsc_remove_def spsc_ok_def spsc_contents_def word_eq_unat)
qed

lemma queue_spsc_peek_ok:
  assumes ok: "spsc_ok q"
  shows "\<exists>x. queue_spsc_peek T0 q = Some x \<and> (spsc_contents q \<noteq> [] \<longrightarrow> x = hd (spsc_contents q)) \<and>
    (spsc_contents q = [] \<longrightarrow> x = T0)"
proof (cases "head_index q = tail_index q")
  case False
  then show ?thesis
    using ok spsc_contents_Nil [OF ok] ring_hd [of "unat (head_index q)" "buffer q" "unat (tail_index q)"]
    by (auto simp: queue_spsc_peek_def spsc_ok_def spsc_contents_def word_eq_unat)
qed (use ok in \<open>auto simp: queue_spsc_peek_def spsc_contents_Nil\<close>)

lemma queue_spsc_is_empty_ok: "spsc_ok q \<Longrightarrow> queue_spsc_is_empty q \<longleftrightarrow> spsc_contents q = []"
  by (auto simp: queue_spsc_is_empty_def spsc_contents_Nil)

lemma queue_spsc_clear_ok:
  "spsc_ok q \<Longrightarrow> spsc_ok (queue_spsc_clear q r) \<and> spsc_contents (queue_spsc_clear q r) = []"
  by (auto simp: queue_spsc_clear_def spsc_ok_def spsc_contents_def ring_def)

interpretation spsc: fifo spsc_ok spsc_contents queue_spsc_insert queue_spsc_remove
    "queue_spsc_peek T0" queue_spsc_is_empty for T0
proof unfold_locales
  fix q :: "'a queue_spsc" and x
  assume ok: "spsc_ok q"
  show "\<exists>b q'. queue_spsc_insert x q = Some (b, q') \<and> spsc_ok q' \<and>
      spsc_contents q' = (if b then spsc_contents q @ [x] else spsc_contents q)"
    using queue_spsc_insert_ok [OF ok, of x] by blast
  show "\<exists>x. queue_spsc_peek T0 q = Some x \<and> (spsc_contents q \<noteq> [] \<longrightarrow> x = hd (spsc_contents q))"
    using queue_spsc_peek_ok [OF ok] by blast
qed (simp_all add: queue_spsc_remove_ok queue_spsc_is_empty_ok)

lemma queue_spsc_remove_count: "queue_spsc_remove q = Some (b, q') \<Longrightarrow> max_count q' = max_count q"
  by (auto simp: queue_spsc_remove_def elim!: bind_SomeE split: if_splits)

interpretation spsc_bounded: bounded_fifo spsc_ok spsc_contents queue_spsc_insert queue_spsc_remove
    "queue_spsc_peek T0" queue_spsc_is_empty "\<lambda>q. unat (max_count q) - 1" for T0
proof unfold_locales
  fix q q' :: "'a queue_spsc" and x b
  assume ok: "spsc_ok q"
  show "queue_spsc_insert x q = Some (b, q') \<Longrightarrow>
      b = (length (spsc_contents q) < unat (max_count q) - 1) \<and> unat (max_count q') - 1 = unat (max_count q) - 1"
    using queue_spsc_insert_ok [OF ok, of x] by (auto simp: less_diff_conv)
  show "queue_spsc_remove q = Some (b, q') \<Longrightarrow> unat (max_count q') - 1 = unat (max_count q) - 1"
    by (auto dest: queue_spsc_remove_count)
qed

subsection \<open>queue_mpmc.h\<close>

text \<open>
  The same fields as \<^verbatim>\<open>queue_spsc\<close>, with every operation inside the critical section of
  critlock.cpp. The state carries the global \<^verbatim>\<open>in_critical_section\<close> next to the queue. A peek at
  an empty queue returns the default-constructed local \<^verbatim>\<open>object\<close>, here an argument.
\<close>

type_synonym 'a queue_mpmc = "'a queue_spsc"

definition critlock_acquire :: "u32 \<Rightarrow> u32" where
  "critlock_acquire in_critical_section = 1"

definition critlock_release :: "u32 \<Rightarrow> u32" where
  "critlock_release in_critical_section = 0"

definition queue_mpmc_init :: "u32 \<Rightarrow> 'a list \<Rightarrow> 'a queue_mpmc" where
  "queue_mpmc_init max_elements cells =
     \<lparr>buffer = cells, max_count = max_elements, head_index = 0, tail_index = 0\<rparr>"

definition queue_mpmc_remove :: "'a queue_mpmc \<times> u32 \<Rightarrow> (bool \<times> 'a queue_mpmc \<times> u32) option" where
  "queue_mpmc_remove s = (let (q, c) = s; c1 = critlock_acquire c in do {
     (result, q1) \<leftarrow> (if head_index q \<noteq> tail_index q then do {
          i \<leftarrow> ring_next (head_index q) (max_count q);
          Some (True, q\<lparr>head_index := i\<rparr>)
        }
        else Some (False, q));
     Some (result, q1, critlock_release c1)
   })"

definition queue_mpmc_insert :: "'a \<Rightarrow> 'a queue_mpmc \<times> u32 \<Rightarrow> (bool \<times> 'a queue_mpmc \<times> u32) option" where
  "queue_mpmc_insert element s = (let (q, c) = s; c1 = critlock_acquire c in do {
     i \<leftarrow> ring_next (tail_index q) (max_count q);
     (result, q2) \<leftarrow> (if i \<noteq> head_index q then do {
          b \<leftarrow> array_set (buffer q) (tail_index q) element;
          let q1 = q\<lparr>buffer := b\<rparr>;
          j \<leftarrow> ring_next (tail_index q1) (max_count q1);
          Some (True, q1\<lparr>tail_index := j\<rparr>)
        }
        else Some (False, q));
     Some (result, q2, critlock_release c1)
   })"

definition queue_mpmc_peek :: "'a \<Rightarrow> 'a queue_mpmc \<times> u32 \<Rightarrow> ('a \<times> 'a queue_mpmc \<times> u32) option" where
  "queue_mpmc_peek obj s = (let (q, c) = s; c1 = critlock_acquire c in do {
     object \<leftarrow> (if tail_index q \<noteq> head_index q then array_get (buffer q) (head_index q) else Some obj);
     Some (object, q, critlock_release c1)
   })"

definition queue_mpmc_is_empty :: "'a queue_mpmc \<times> u32 \<Rightarrow> bool \<times> 'a queue_mpmc \<times> u32" where
  "queue_mpmc_is_empty s = (let (q, c) = s; c1 = critlock_acquire c;
     result = (tail_index q = head_index q) in (result, q, critlock_release c1))"

definition queue_mpmc_clear :: "'a queue_mpmc \<times> u32 \<Rightarrow> bool \<Rightarrow> 'a queue_mpmc \<times> u32" where
  "queue_mpmc_clear s reader_caller = (let (q, c) = s; c1 = critlock_acquire c;
     q1 = (if reader_caller then q\<lparr>head_index := tail_index q\<rparr> else q\<lparr>tail_index := head_index q\<rparr>)
   in (q1, critlock_release c1))"

lemma queue_mpmc_insert_alt:
  "queue_mpmc_insert x (q, c) = map_option (\<lambda>(b, q'). (b, q', 0)) (queue_spsc_insert x q)"
  by (cases "ring_next (tail_index q) (max_count q)"; cases "array_set (buffer q) (tail_index q) x")
    (auto simp: queue_mpmc_insert_def queue_spsc_insert_def critlock_release_def)

lemma queue_mpmc_remove_alt:
  "queue_mpmc_remove (q, c) = map_option (\<lambda>(b, q'). (b, q', 0)) (queue_spsc_remove q)"
  by (cases "ring_next (head_index q) (max_count q)")
    (auto simp: queue_mpmc_remove_def queue_spsc_remove_def critlock_release_def)

interpretation mpmc: fifo "\<lambda>s. spsc_ok (fst s)" "\<lambda>s. spsc_contents (fst s)" queue_mpmc_insert
    queue_mpmc_remove "\<lambda>s. map_option fst (queue_mpmc_peek obj s)" "\<lambda>s. fst (queue_mpmc_is_empty s)" for obj
proof unfold_locales
  fix s :: "'a queue_mpmc \<times> u32" and x
  obtain q c where s: "s = (q, c)" by (cases s)
  assume "spsc_ok (fst s)"
  then have ok: "spsc_ok q" by (simp add: s)
  show "\<exists>b s'. queue_mpmc_insert x s = Some (b, s') \<and> spsc_ok (fst s') \<and>
      spsc_contents (fst s') = (if b then spsc_contents (fst s) @ [x] else spsc_contents (fst s))"
    using queue_spsc_insert_ok [OF ok, of x] by (auto simp: s queue_mpmc_insert_alt)
  show "\<exists>s'. queue_mpmc_remove s = Some (spsc_contents (fst s) \<noteq> [], s') \<and> spsc_ok (fst s') \<and>
      spsc_contents (fst s') = tl (spsc_contents (fst s))"
    using queue_spsc_remove_ok [OF ok] by (auto simp: s queue_mpmc_remove_alt)
  show "\<exists>x. map_option fst (queue_mpmc_peek obj s) = Some x \<and> (spsc_contents (fst s) \<noteq> [] \<longrightarrow> x = hd (spsc_contents (fst s)))"
    using queue_spsc_peek_ok [OF ok, of obj] by (auto simp: s queue_mpmc_peek_def queue_spsc_peek_def)
  show "fst (queue_mpmc_is_empty s) \<longleftrightarrow> spsc_contents (fst s) = []"
    using queue_spsc_is_empty_ok [OF ok] by (simp add: s queue_mpmc_is_empty_def queue_spsc_is_empty_def)
qed

subsection \<open>One producer and one consumer, interleaved\<close>

text \<open>
  \<^verbatim>\<open>queue_spsc\<close> takes no lock, so the producer's \<^verbatim>\<open>queue_spsc_insert\<close> (check, store, publish) and
  the consumer's \<^verbatim>\<open>queue_spsc_peek\<close> and \<^verbatim>\<open>queue_spsc_remove\<close> (check, read, release) interleave at
  any of these points. \<open>sent\<close> and \<open>received\<close> record what was published and released.
\<close>

datatype 'a prod_pc = P_idle | P_ready 'a | P_stored 'a

datatype 'a cons_pc = C_idle | C_ready | C_read 'a

record 'a spsc_sys =
  sys_q :: "'a queue_spsc"
  prod :: "'a prod_pc"
  cons :: "'a cons_pc"
  sent :: "'a list"
  received :: "'a list"

inductive spsc_step :: "'a spsc_sys \<Rightarrow> 'a spsc_sys \<Rightarrow> bool" where
  p_check: "prod s = P_idle \<Longrightarrow> ring_next (tail_index (sys_q s)) (max_count (sys_q s)) = Some i \<Longrightarrow>
     i \<noteq> head_index (sys_q s) \<Longrightarrow> spsc_step s (s\<lparr>prod := P_ready x\<rparr>)"
| p_store: "prod s = P_ready x \<Longrightarrow> array_set (buffer (sys_q s)) (tail_index (sys_q s)) x = Some b \<Longrightarrow>
     spsc_step s (s\<lparr>sys_q := (sys_q s)\<lparr>buffer := b\<rparr>, prod := P_stored x\<rparr>)"
| p_publish: "prod s = P_stored x \<Longrightarrow> ring_next (tail_index (sys_q s)) (max_count (sys_q s)) = Some j \<Longrightarrow>
     spsc_step s (s\<lparr>sys_q := (sys_q s)\<lparr>tail_index := j\<rparr>, prod := P_idle, sent := sent s @ [x]\<rparr>)"
| c_check: "cons s = C_idle \<Longrightarrow> head_index (sys_q s) \<noteq> tail_index (sys_q s) \<Longrightarrow>
     spsc_step s (s\<lparr>cons := C_ready\<rparr>)"
| c_read: "cons s = C_ready \<Longrightarrow> array_get (buffer (sys_q s)) (head_index (sys_q s)) = Some x \<Longrightarrow>
     spsc_step s (s\<lparr>cons := C_read x\<rparr>)"
| c_release: "cons s = C_read x \<Longrightarrow> head_index (sys_q s) \<noteq> tail_index (sys_q s) \<Longrightarrow>
     ring_next (head_index (sys_q s)) (max_count (sys_q s)) = Some j \<Longrightarrow>
     spsc_step s (s\<lparr>sys_q := (sys_q s)\<lparr>head_index := j\<rparr>, cons := C_idle, received := received s @ [x]\<rparr>)"

definition spsc_start :: "u32 \<Rightarrow> 'a list \<Rightarrow> 'a spsc_sys" where
  "spsc_start n cells = \<lparr>sys_q = queue_spsc_init n cells, prod = P_idle, cons = C_idle, sent = [], received = []\<rparr>"

inductive spsc_reach :: "'a spsc_sys \<Rightarrow> 'a spsc_sys \<Rightarrow> bool" where
  reach_start: "spsc_reach s s"
| reach_step: "spsc_reach s t \<Longrightarrow> spsc_step t u \<Longrightarrow> spsc_reach s u"

definition spsc_inv :: "'a spsc_sys \<Rightarrow> bool" where
  "spsc_inv s \<longleftrightarrow> (let q = sys_q s in spsc_ok q \<and> sent s = received s @ spsc_contents q \<and>
     (prod s \<noteq> P_idle \<longrightarrow> (unat (tail_index q) + 1) mod length (buffer q) \<noteq> unat (head_index q)) \<and>
     (\<forall>x. prod s = P_stored x \<longrightarrow> buffer q ! unat (tail_index q) = x) \<and>
     (cons s \<noteq> C_idle \<longrightarrow> spsc_contents q \<noteq> []) \<and>
     (\<forall>x. cons s = C_read x \<longrightarrow> x = hd (spsc_contents q)))"

lemma ring_update_tail:
  assumes "h < length xs" "t < length xs"
  shows "ring (xs[t := x]) h t = ring xs h t"
proof (rule nth_equalityI)
  fix i assume "i < length (ring (xs[t := x]) h t)"
  moreover from this have "(if h + i < length xs then h + i else h + i - length xs) \<noteq> t"
    using assms by (auto simp: ring_length split: if_splits)
  ultimately show "ring (xs[t := x]) h t ! i = ring xs h t ! i"
    using assms by (simp add: ring_nth ring_length split: if_splits)
qed (use assms in \<open>simp add: ring_length\<close>)

lemma spsc_inv_start:
  "0 < n \<Longrightarrow> length cells = unat n \<Longrightarrow> spsc_inv (spsc_start n cells)"
  using queue_spsc_init_ok [of n cells] by (simp add: spsc_inv_def spsc_start_def)

lemma ring_next_SomeD:
  assumes "spsc_ok q" and "ring_next i (max_count q) = Some j" and "unat i < length (buffer q)"
  shows "unat j = (unat i + 1) mod length (buffer q)" and "unat j < length (buffer q)"
proof -
  have m: "length (buffer q) = unat (max_count q)" using assms(1) by (rule spsc_okD)
  obtain k where k: "ring_next i (max_count q) = Some k" "unat k = (unat i + 1) mod unat (max_count q)"
      "unat k < unat (max_count q)"
    using ring_next_ok [of i "max_count q"] assms(3) unfolding m by blast
  then have j: "j = k" using assms(2) by simp
  show "unat j = (unat i + 1) mod length (buffer q)" unfolding j m by (rule k(2))
  show "unat j < length (buffer q)" unfolding j m by (rule k(3))
qed

lemma spsc_step_inv: "spsc_step s t \<Longrightarrow> spsc_inv s \<Longrightarrow> spsc_inv t"
proof (induction rule: spsc_step.induct)
  case (p_check s i x)
  then have "spsc_ok (sys_q s)" "unat (tail_index (sys_q s)) < length (buffer (sys_q s))"
    by (auto simp: spsc_inv_def spsc_ok_def Let_def)
  then have "unat i = (unat (tail_index (sys_q s)) + 1) mod length (buffer (sys_q s))"
    using ring_next_SomeD(1) p_check(2) by blast
  moreover have "unat i \<noteq> unat (head_index (sys_q s))"
    using p_check by (simp add: word_unat_eq_iff)
  ultimately show ?case using p_check by (auto simp: spsc_inv_def Let_def)
next
  case (p_store s x b)
  then have b: "b = (buffer (sys_q s))[unat (tail_index (sys_q s)) := x]"
    by (auto simp: array_set_def split: if_splits)
  have ok: "spsc_ok (sys_q s)" using p_store by (simp add: spsc_inv_def Let_def)
  then have "spsc_contents ((sys_q s)\<lparr>buffer := b\<rparr>) = spsc_contents (sys_q s)"
    by (simp add: spsc_contents_def b ring_update_tail spsc_ok_def)
  with p_store ok b show ?case by (auto simp: spsc_inv_def Let_def spsc_ok_def)
next
  case (p_publish s x j)
  let ?q = "sys_q s"
  have inv: "spsc_ok ?q" "(unat (tail_index ?q) + 1) mod length (buffer ?q) \<noteq> unat (head_index ?q)"
      "buffer ?q ! unat (tail_index ?q) = x"
    using p_publish by (auto simp: spsc_inv_def Let_def)
  then have x: "(buffer ?q)[unat (tail_index ?q) := x] = buffer ?q" by (metis list_update_id)
  note j = ring_next_SomeD [OF inv(1) p_publish(2)]
  have "spsc_contents (?q\<lparr>tail_index := j\<rparr>) = spsc_contents ?q @ [x]"
    using ring_snoc [of "unat (head_index ?q)" "buffer ?q" "unat (tail_index ?q)" x] inv j x
    by (simp add: spsc_contents_def spsc_ok_def)
  with p_publish inv j show ?case by (auto simp: spsc_inv_def Let_def spsc_ok_def)
next
  case (c_check s)
  then show ?case by (auto simp: spsc_inv_def Let_def spsc_contents_Nil)
next
  case (c_read s x)
  then have ok: "spsc_ok (sys_q s)" and ne: "spsc_contents (sys_q s) \<noteq> []"
    by (auto simp: spsc_inv_def Let_def)
  then have "x = hd (spsc_contents (sys_q s))"
    using c_read(2) queue_spsc_peek_ok [OF ok, of x] spsc_contents_Nil [OF ok]
    by (auto simp: queue_spsc_peek_def)
  with c_read show ?case by (auto simp: spsc_inv_def Let_def)
next
  case (c_release s x j)
  let ?q = "sys_q s"
  have inv: "spsc_ok ?q" "x = hd (spsc_contents ?q)" "spsc_contents ?q \<noteq> []"
      "sent s = received s @ spsc_contents ?q"
    using c_release by (auto simp: spsc_inv_def Let_def)
  note j = ring_next_SomeD [OF inv(1) c_release(3)]
  have tl: "spsc_ok (?q\<lparr>head_index := j\<rparr>)" "spsc_contents (?q\<lparr>head_index := j\<rparr>) = tl (spsc_contents ?q)"
    using queue_spsc_remove_ok [OF inv(1)] c_release(2,3) by (auto simp: queue_spsc_remove_def)
  have "unat (head_index ?q) \<noteq> unat (tail_index ?q)"
    using c_release(2) by (simp add: word_unat_eq_iff)
  then have "(unat (tail_index ?q) + 1) mod length (buffer ?q) \<noteq> unat j"
    using inv(1) j by (auto simp: spsc_ok_def mod_lt_double split: if_splits)
  with c_release inv tl show ?case by (auto simp: spsc_inv_def Let_def)
qed

lemma spsc_reach_inv: "spsc_reach s t \<Longrightarrow> spsc_inv s \<Longrightarrow> spsc_inv t"
  by (induction rule: spsc_reach.induct) (auto intro: spsc_step_inv)

text \<open>A pending operation never faults: its next step is always possible.\<close>

lemma spsc_inv_progress:
  assumes "spsc_inv s"
  shows "prod s = P_ready x \<Longrightarrow> \<exists>t. spsc_step s t \<and> prod t = P_stored x"
    and "prod s = P_stored x \<Longrightarrow> \<exists>t. spsc_step s t \<and> prod t = P_idle"
    and "cons s = C_ready \<Longrightarrow> \<exists>t y. spsc_step s t \<and> cons t = C_read y"
    and "cons s = C_read x \<Longrightarrow> \<exists>t. spsc_step s t \<and> cons t = C_idle"
proof -
  let ?q = "sys_q s"
  have ok: "spsc_ok ?q" and ne: "cons s \<noteq> C_idle \<Longrightarrow> head_index ?q \<noteq> tail_index ?q"
    using assms by (auto simp: spsc_inv_def Let_def spsc_contents_Nil)
  note f = spsc_okD [OF ok]
  show "prod s = P_ready x \<Longrightarrow> \<exists>t. spsc_step s t \<and> prod t = P_stored x"
    using f by (auto intro!: exI spsc_step.p_store)
  show "prod s = P_stored x \<Longrightarrow> \<exists>t. spsc_step s t \<and> prod t = P_idle"
    using ring_next_ok [OF f(3)] by (fastforce intro: spsc_step.p_publish)
  show "cons s = C_ready \<Longrightarrow> \<exists>t y. spsc_step s t \<and> cons t = C_read y"
    using f by (auto intro!: exI spsc_step.c_read)
  show "cons s = C_read x \<Longrightarrow> \<exists>t. spsc_step s t \<and> cons t = C_idle"
    using ring_next_ok [OF f(2)] ne by (fastforce intro: spsc_step.c_release)
qed

text \<open>
  \<^verbatim>\<open>queue_spsc_clear\<close> by the producer between the consumer's check and its release turns the
  emptied queue into a full one of stale cells.
\<close>

lemma spsc_producer_clear_race:
  assumes ok: "spsc_ok q" and ne: "spsc_contents q \<noteq> []" and j: "ring_next (head_index q) (max_count q) = Some j"
  shows "length (spsc_contents ((queue_spsc_clear q False)\<lparr>head_index := j\<rparr>)) = unat (max_count q) - 1"
  using ok ring_next_SomeD [OF ok j]
  by (auto simp: queue_spsc_clear_def spsc_contents_def ring_length spsc_ok_def mod_lt_double split: if_splits)

subsection \<open>Properties\<close>

text \<open>
  C1. Single-producer single-consumer queue under every interleaving of the two sides' reads and
  writes: in each reachable state the items published are the items released followed by the
  contents of the buffer (nothing is lost, duplicated or reordered), at most \<^verbatim>\<open>max_elements - 1\<close>
  items are in flight, and an item the consumer has read is the oldest one.
\<close>

theorem spsc_linear_order:
  assumes "0 < n" and "length cells = unat n" and "spsc_reach (spsc_start n cells) s"
  shows "sent s = received s @ spsc_contents (sys_q s) \<and> length (spsc_contents (sys_q s)) < unat (max_count (sys_q s)) \<and>
    (\<forall>x. cons s = C_read x \<longrightarrow> (\<exists>rest. sent s = received s @ x # rest))"
proof -
  have inv: "spsc_inv s"
    using spsc_reach_inv [OF assms(3)] spsc_inv_start [OF assms(1,2)] by blast
  then have ok: "spsc_ok (sys_q s)" by (simp add: spsc_inv_def Let_def)
  have "length (spsc_contents (sys_q s)) < unat (max_count (sys_q s))"
    using spsc_okD [OF ok] ring_length_less [of "unat (head_index (sys_q s))" "buffer (sys_q s)"]
    by (simp add: spsc_contents_def)
  moreover have "\<exists>rest. sent s = received s @ x # rest" if "cons s = C_read x" for x
    using inv that by (cases "spsc_contents (sys_q s)") (auto simp: spsc_inv_def Let_def)
  ultimately show ?thesis using inv by (auto simp: spsc_inv_def Let_def)
qed

definition sample_run :: "nat spsc_sys" where
  "sample_run = (spsc_start 3 [0, 0, 0])\<lparr>sys_q := \<lparr>buffer = [7, 0, 0], max_count = 3, head_index = 0, tail_index = 1\<rparr>,
     cons := C_read 7, sent := [7]\<rparr>"

lemma sample_run_reach: "spsc_reach (spsc_start 3 [0, 0, 0]) sample_run"
proof -
  let ?s0 = "spsc_start 3 [0, 0, 0 :: nat]"
  let ?s1 = "?s0\<lparr>prod := P_ready 7\<rparr>"
  let ?s2 = "?s1\<lparr>sys_q := (sys_q ?s1)\<lparr>buffer := [7, 0, 0]\<rparr>, prod := P_stored 7\<rparr>"
  let ?s3 = "?s2\<lparr>sys_q := (sys_q ?s2)\<lparr>tail_index := 1\<rparr>, prod := P_idle, sent := sent ?s2 @ [7]\<rparr>"
  let ?s4 = "?s3\<lparr>cons := C_ready\<rparr>"
  let ?s5 = "?s4\<lparr>cons := C_read 7\<rparr>"
  note defs = spsc_start_def queue_spsc_init_def ring_next_def
  have "spsc_step ?s0 ?s1" by (rule spsc_step.p_check [where i = 1]) (simp_all add: defs)
  note r1 = spsc_reach.reach_step [OF spsc_reach.reach_start this]
  have "spsc_step ?s1 ?s2" by (rule spsc_step.p_store) (simp_all add: defs)
  note r2 = spsc_reach.reach_step [OF r1 this]
  have "spsc_step ?s2 ?s3" by (rule spsc_step.p_publish) (simp_all add: defs)
  note r3 = spsc_reach.reach_step [OF r2 this]
  have "spsc_step ?s3 ?s4" by (rule spsc_step.c_check) (simp_all add: defs)
  note r4 = spsc_reach.reach_step [OF r3 this]
  have "spsc_step ?s4 ?s5" by (rule spsc_step.c_read) (simp_all add: defs)
  note r5 = spsc_reach.reach_step [OF r4 this]
  have "?s5 = sample_run" by (simp add: sample_run_def defs)
  with r5 show ?thesis by (simp only:)
qed

lemma spsc_linear_order_witness:
  "spsc_reach (spsc_start 3 [0, 0, 0]) sample_run \<and> cons sample_run = C_read 7 \<and>
   (\<exists>rest. sent sample_run = received sample_run @ 7 # rest)"
proof -
  have c: "cons sample_run = C_read 7" by (simp add: sample_run_def)
  have "(0 :: u32) < 3" and "length [0, 0, 0 :: nat] = unat (3 :: u32)" by simp_all
  from spsc_linear_order [OF this sample_run_reach] c sample_run_reach show ?thesis by blast
qed

subsection \<open>The multi-producer multi-consumer queue as a bounded queue\<close>

text \<open>
  The calls a client of \<^verbatim>\<open>queue_mpmc.h\<close> makes, the run of the code's operations over a list of
  calls, and the reference: a list with room for one element less than the buffer has cells.
\<close>

datatype 'a queue_call = Insert_call 'a | Remove_call | Peek_call | Is_empty_call | Clear_call bool

datatype 'a queue_answer = Answer bool | Object 'a | Returned

fun mpmc_call :: "'a \<Rightarrow> 'a queue_call \<Rightarrow> 'a queue_mpmc \<times> u32 \<Rightarrow> ('a queue_answer \<times> 'a queue_mpmc \<times> u32) option" where
  "mpmc_call obj (Insert_call x) s = map_option (\<lambda>(b, s'). (Answer b, s')) (queue_mpmc_insert x s)"
| "mpmc_call obj Remove_call s = map_option (\<lambda>(b, s'). (Answer b, s')) (queue_mpmc_remove s)"
| "mpmc_call obj Peek_call s = map_option (\<lambda>(x, s'). (Object x, s')) (queue_mpmc_peek obj s)"
| "mpmc_call obj Is_empty_call s = (let (b, s') = queue_mpmc_is_empty s in Some (Answer b, s'))"
| "mpmc_call obj (Clear_call r) s = Some (Returned, queue_mpmc_clear s r)"

fun mpmc_run :: "'a \<Rightarrow> 'a queue_call list \<Rightarrow> 'a queue_mpmc \<times> u32 \<Rightarrow> ('a queue_answer list \<times> 'a queue_mpmc \<times> u32) option" where
  "mpmc_run obj [] s = Some ([], s)"
| "mpmc_run obj (call # calls) s = do {
     (answer, s1) \<leftarrow> mpmc_call obj call s;
     (answers, s2) \<leftarrow> mpmc_run obj calls s1;
     Some (answer # answers, s2)
   }"

fun bounded_call :: "nat \<Rightarrow> 'a \<Rightarrow> 'a queue_call \<Rightarrow> 'a list \<Rightarrow> 'a queue_answer \<times> 'a list" where
  "bounded_call room obj (Insert_call x) xs = (if length xs < room then (Answer True, xs @ [x]) else (Answer False, xs))"
| "bounded_call room obj Remove_call xs = (Answer (xs \<noteq> []), tl xs)"
| "bounded_call room obj Peek_call xs = (Object (if xs = [] then obj else hd xs), xs)"
| "bounded_call room obj Is_empty_call xs = (Answer (xs = []), xs)"
| "bounded_call room obj (Clear_call r) xs = (Returned, [])"

fun bounded_run :: "nat \<Rightarrow> 'a \<Rightarrow> 'a queue_call list \<Rightarrow> 'a list \<Rightarrow> 'a queue_answer list \<times> 'a list" where
  "bounded_run room obj [] xs = ([], xs)"
| "bounded_run room obj (call # calls) xs = (let (answer, ys) = bounded_call room obj call xs;
     (answers, zs) = bounded_run room obj calls ys in (answer # answers, zs))"

lemma queue_mpmc_clear_alt: "queue_mpmc_clear (q, c) r = (queue_spsc_clear q r, 0)"
  by (simp add: queue_mpmc_clear_def queue_spsc_clear_def critlock_release_def)

lemma queue_mpmc_peek_alt: "queue_mpmc_peek obj (q, c) = map_option (\<lambda>x. (x, q, 0)) (queue_spsc_peek obj q)"
  by (cases "array_get (buffer q) (head_index q)")
    (auto simp: queue_mpmc_peek_def queue_spsc_peek_def critlock_release_def)

lemma queue_mpmc_is_empty_alt: "queue_mpmc_is_empty (q, c) = (queue_spsc_is_empty q, q, 0)"
  by (simp add: queue_mpmc_is_empty_def queue_spsc_is_empty_def critlock_release_def)

lemma mpmc_call_ok:
  assumes ok: "spsc_ok q"
  shows "\<exists>q'. mpmc_call obj call (q, c) = Some (fst (bounded_call (unat (max_count q) - 1) obj call (spsc_contents q)), q', 0) \<and>
    spsc_ok q' \<and> spsc_contents q' = snd (bounded_call (unat (max_count q) - 1) obj call (spsc_contents q)) \<and>
    max_count q' = max_count q"
proof (cases call)
  case (Insert_call x)
  obtain b q' where "queue_spsc_insert x q = Some (b, q')" "spsc_ok q'" "max_count q' = max_count q"
      "spsc_contents q' = (if b then spsc_contents q @ [x] else spsc_contents q)"
      "b \<longleftrightarrow> length (spsc_contents q) + 1 < unat (max_count q)"
    using queue_spsc_insert_ok [OF ok] by blast
  then show ?thesis by (auto simp: Insert_call queue_mpmc_insert_alt less_diff_conv)
next
  case Remove_call
  then show ?thesis using queue_spsc_remove_ok [OF ok]
    by (auto simp: queue_mpmc_remove_alt dest: queue_spsc_remove_count)
next
  case Peek_call
  then show ?thesis using queue_spsc_peek_ok [OF ok, of obj] ok by (auto simp: queue_mpmc_peek_alt)
next
  case Is_empty_call
  then show ?thesis using queue_spsc_is_empty_ok [OF ok] ok by (simp add: queue_mpmc_is_empty_alt)
next
  case (Clear_call r)
  then show ?thesis using queue_spsc_clear_ok [OF ok, of r]
    by (simp add: queue_mpmc_clear_alt) (simp add: queue_spsc_clear_def)
qed

lemma mpmc_run_ok:
  "spsc_ok q \<Longrightarrow> \<exists>q'. mpmc_run obj calls (q, c) =
      Some (fst (bounded_run (unat (max_count q) - 1) obj calls (spsc_contents q)), q', if calls = [] then c else 0) \<and>
    spsc_ok q' \<and> spsc_contents q' = snd (bounded_run (unat (max_count q) - 1) obj calls (spsc_contents q)) \<and>
    max_count q' = max_count q"
proof (induction calls arbitrary: q c)
  case (Cons call calls)
  obtain q1 where "mpmc_call obj call (q, c) =
        Some (fst (bounded_call (unat (max_count q) - 1) obj call (spsc_contents q)), q1, 0)" "spsc_ok q1"
      "spsc_contents q1 = snd (bounded_call (unat (max_count q) - 1) obj call (spsc_contents q))"
      "max_count q1 = max_count q"
    using mpmc_call_ok [OF Cons.prems] by blast
  with Cons.IH [of q1 0] show ?case by (auto simp: case_prod_beta Let_def)
qed simp

text \<open>
  C2. Every sequence of calls of the multi-producer multi-consumer queue (insert, remove, peek,
  is_empty, clear by either side, in any order) completes and is indistinguishable from the same
  calls on a list with room for \<^verbatim>\<open>max_count - 1\<close> elements: an insert is accepted exactly when
  there is room and goes to the back, a remove takes the front and reports whether there was one,
  a peek returns the front (the default-constructed object when there is none), clear empties it.
  The contents in the buffer are that list at the end, the queue stays well formed with its
  capacity, and the critical section is left (\<^verbatim>\<open>in_critical_section\<close> is 0 after any call).
\<close>

theorem mpmc_fifo_order:
  assumes "spsc_ok q"
  shows "\<exists>q'. mpmc_run obj calls (q, c) =
        Some (fst (bounded_run (unat (max_count q) - 1) obj calls (spsc_contents q)), q', if calls = [] then c else 0) \<and>
      spsc_ok q' \<and> spsc_contents q' = snd (bounded_run (unat (max_count q) - 1) obj calls (spsc_contents q)) \<and>
      max_count q' = max_count q"
  using assms by (rule mpmc_run_ok)

lemma mpmc_fifo_order_witness:
  "\<exists>q'. mpmc_run 0 [Insert_call 5, Insert_call 6, Insert_call 7, Peek_call, Remove_call, Insert_call 8, Peek_call,
       Clear_call True, Is_empty_call, Peek_call] (queue_mpmc_init 3 [0, 0, 0 :: nat], 0) =
     Some ([Answer True, Answer True, Answer False, Object 5, Answer True, Answer True, Object 6,
       Returned, Answer True, Object 0], q', 0) \<and> spsc_contents q' = []"
proof -
  let ?q = "queue_mpmc_init 3 [0, 0, 0 :: nat]"
  have "?q = queue_spsc_init 3 [0, 0, 0]"
    by (simp add: queue_mpmc_init_def queue_spsc_init_def)
  then have wf: "spsc_ok ?q" and c: "spsc_contents ?q = []"
    using queue_spsc_init_ok [of 3 "[0, 0, 0 :: nat]"] by simp_all
  have m: "max_count ?q = 3" by (simp add: queue_mpmc_init_def)
  from mpmc_fifo_order [OF wf, of 0 "[Insert_call 5, Insert_call 6, Insert_call 7, Peek_call, Remove_call,
      Insert_call 8, Peek_call, Clear_call True, Is_empty_call, Peek_call]" 0]
  show ?thesis by (auto simp: c m Let_def)
qed

text \<open>
  The deferred part of \<^verbatim>\<open>isr_handler\<close> terminates and hands every queued thread exception to the
  bottom handler exactly once, oldest first, leaving the queue empty.
\<close>

theorem isr_drains_exceptions:
  assumes "spsc_ok q"
  shows "\<exists>q'. drain queue_spsc_is_empty (queue_spsc_peek T0) queue_spsc_remove [] q = Some (spsc_contents q, q') \<and>
    spsc_ok q' \<and> spsc_contents q' = []"
  using spsc.drain_all [OF assms, of T0 "[]"] by simp

lemma isr_drains_exceptions_witness:
  "\<exists>q'. drain queue_spsc_is_empty (queue_spsc_peek 0) queue_spsc_remove []
      \<lparr>buffer = [4, 0, 9 :: nat], max_count = 3, head_index = 2, tail_index = 1\<rparr> = Some ([9, 4], q')"
proof -
  let ?q = "\<lparr>buffer = [4, 0, 9 :: nat], max_count = 3, head_index = 2, tail_index = 1\<rparr>"
  have "spsc_ok ?q" by (simp add: spsc_ok_def)
  moreover have "spsc_contents ?q = [9, 4]"
    by (simp add: spsc_contents_def ring_def upt_rec)
  ultimately show ?thesis using isr_drains_exceptions [of ?q 0] by auto
qed

text \<open>
  \<^verbatim>\<open>queue_spsc_clear\<close> called by the producer while the consumer is between its emptiness check
  and its index update: the consumer's update then makes a cleared queue appear full, so
  \<^verbatim>\<open>max_elements - 1\<close> stale cells will be delivered.
\<close>

theorem spsc_producer_clear_unsafe:
  assumes "spsc_ok q" and "spsc_contents q \<noteq> []" and "ring_next (head_index q) (max_count q) = Some j"
  shows "spsc_contents (queue_spsc_clear q False) = [] \<and>
    length (spsc_contents ((queue_spsc_clear q False)\<lparr>head_index := j\<rparr>)) = unat (max_count q) - 1"
  using spsc_producer_clear_race [OF assms] queue_spsc_clear_ok [OF assms(1)] by blast

lemma spsc_producer_clear_unsafe_witness:
  "length (spsc_contents ((queue_spsc_clear \<lparr>buffer = [4, 0, 9 :: nat], max_count = 3, head_index = 0, tail_index = 1\<rparr> False)
     \<lparr>head_index := 1\<rparr>)) = 2"
  using spsc_producer_clear_unsafe [of "\<lparr>buffer = [4, 0, 9 :: nat], max_count = 3, head_index = 0, tail_index = 1\<rparr>" 1]
  by (simp add: spsc_ok_def ring_next_def spsc_contents_def ring_def)

end
