(* ===== verification/Kernel_Error.thy ===== *)
theory Kernel_Error
  imports Prelude
begin

text \<open>
  The error word of error.h and error.cpp: one byte of Linux code, two bytes of module specific
  code, one byte of origin. \<open>last_error\<close> is the word in the current thread's stack that
  \<^verbatim>\<open>thread_get_error(thread_get_current())\<close> points to; the components that report errors extend
  \<open>kerr\<close> with their own state.
\<close>

record kerr =
  last_error :: error_t

subsection \<open>Codes\<close>

definition ERROR_OK :: error_t where [kernel_simps]: "ERROR_OK = 0"
definition ERROR_OCCUR :: error_t where [kernel_simps]: "ERROR_OCCUR = 1"

definition EPERM :: u8 where "EPERM = 1"
definition ENOENT :: u8 where "ENOENT = 2"
definition EIO :: u8 where "EIO = 5"
definition EBADF :: u8 where "EBADF = 9"
definition ENOMEM :: u8 where "ENOMEM = 12"
definition EACCES :: u8 where "EACCES = 13"
definition EBUSY :: u8 where "EBUSY = 16"
definition EINVAL :: u8 where "EINVAL = 22"
definition EBADSLT :: u8 where "EBADSLT = 57"

datatype error_origin = EO_VFS | EO_VMMNGR | EO_PMMNGR | EO_HMMNGR | EO_MEMORY | EO_FS | EO_MASS_STORAGE_FS
  | EO_MASS_STORAGE_DEV | EO_FILE_INTERFACE | EO_VM_AREA | EO_VM_CONTRACT | EO_OPEN_FILE_TBL | EO_PAGE_CACHE

fun origin_code :: "error_origin \<Rightarrow> u8" where
  "origin_code EO_VFS = 1"
| "origin_code EO_VMMNGR = 2"
| "origin_code EO_PMMNGR = 3"
| "origin_code EO_HMMNGR = 4"
| "origin_code EO_MEMORY = 5"
| "origin_code EO_FS = 6"
| "origin_code EO_MASS_STORAGE_FS = 7"
| "origin_code EO_MASS_STORAGE_DEV = 8"
| "origin_code EO_FILE_INTERFACE = 9"
| "origin_code EO_VM_AREA = 10"
| "origin_code EO_VM_CONTRACT = 11"
| "origin_code EO_OPEN_FILE_TBL = 12"
| "origin_code EO_PAGE_CACHE = 13"

definition ERROR_ORIGIN_STR :: "string list" where
  "ERROR_ORIGIN_STR = [''NO ERRORS'', ''VFS'', ''VMMNGR'', ''PMMNGR'', ''HMMNGR'', ''MEMORY'', ''FS'',
     ''MASS STORAGE FS'', ''MASS STORAGE DEV'', ''FILE INTERFACE'', ''VM AREA'', ''VM CONTRACT'',
     ''OPEN FILE TBL'', ''PAGE CACHE'']"

subsection \<open>Operations\<close>

definition error_create :: "u8 \<Rightarrow> u16 \<Rightarrow> u8 \<Rightarrow> u32" where
  "error_create base_code extended_code code_origin =
     (push_bit 24 (ucast code_origin) OR push_bit 8 (ucast extended_code))
       OR ucast base_code"

definition set_raw_error :: "u32 \<Rightarrow> 'a kerr_scheme \<Rightarrow> 'a kerr_scheme" where
  "set_raw_error error s = s\<lparr>last_error := error\<rparr>"

definition set_last_error :: "u8 \<Rightarrow> u16 \<Rightarrow> error_origin \<Rightarrow> 'a kerr_scheme \<Rightarrow> 'a kerr_scheme" where
  \<comment> \<open>The callers modelled here ignore the word that \<^verbatim>\<open>set_last_error\<close> also returns.\<close>
  "set_last_error base_code extended_code code_origin s =
     (let error = error_create base_code extended_code (origin_code code_origin) in s\<lparr>last_error := error\<rparr>)"

definition clear_last_error :: "'a kerr_scheme \<Rightarrow> 'a kerr_scheme" where
  "clear_last_error s = s\<lparr>last_error := 0\<rparr>"

definition get_raw_error :: "'a kerr_scheme \<Rightarrow> u32" where
  "get_raw_error s = last_error s"

definition get_last_error :: "'a kerr_scheme \<Rightarrow> u32 \<times> 'a kerr_scheme" where
  "get_last_error s = (let temp = last_error s in (temp, clear_last_error s))"

subsection \<open>Reading an error word back\<close>

definition error_base :: "u32 \<Rightarrow> u8" where "error_base e = ucast e"
definition error_extended :: "u32 \<Rightarrow> u16" where "error_extended e = ucast (drop_bit 8 e)"
definition error_origin_of :: "u32 \<Rightarrow> u8" where "error_origin_of e = ucast (drop_bit 24 e)"

lemma error_fields [simp]:
  "error_base (error_create b x c) = b"
  "error_extended (error_create b x c) = x"
  "error_origin_of (error_create b x c) = c"
  by (rule bit_word_eqI; simp add: error_base_def error_extended_def error_origin_of_def error_create_def
      bit_simps; auto dest: bit_imp_le_length)+

lemma error_create_inject:
  "error_create b x c = error_create b' x' c' \<longleftrightarrow> b = b' \<and> x = x' \<and> c = c'"
  by (metis error_fields)

lemma origin_code_inject: "origin_code o1 = origin_code o2 \<longleftrightarrow> o1 = o2"
  by (cases o1; cases o2; simp)

lemma origin_code_nonzero: "origin_code o1 \<noteq> 0"
  by (cases o1; simp)

lemma error_create_nonzero: "error_create b x (origin_code c) \<noteq> 0"
proof
  assume "error_create b x (origin_code c) = 0"
  with error_fields(3) [of b x "origin_code c"] have "error_origin_of 0 = origin_code c" by (simp only:)
  then show False using origin_code_nonzero [of c] by (simp add: error_origin_of_def)
qed

lemma last_error_set [simp]:
  "last_error (set_last_error b x c s) = error_create b x (origin_code c)"
  by (simp add: set_last_error_def)

end
