(* ===== verification/Cstring.thy ===== *)
theory Cstring
  imports Prelude
begin

text \<open>
  The string routines of cstring.c. A character is a byte; a \<^verbatim>\<open>char*\<close> is the list of bytes from the
  address it holds to the end of the object it points into, so advancing the pointer drops the head
  of the list and reading or writing past the object is \<open>None\<close>. \<open>cstr buf s\<close> says that the buffer
  holds the zero-terminated string \<open>s\<close>.
\<close>

type_synonym bytes = "u8 list"

definition cstr :: "bytes \<Rightarrow> bytes \<Rightarrow> bool" where
  "cstr buf s \<longleftrightarrow> (\<exists>rest. buf = s @ 0 # rest) \<and> 0 \<notin> set s"

subsection \<open>Character classes of utility.h\<close>

definition isdigit :: "u8 \<Rightarrow> bool" where "isdigit c \<longleftrightarrow> 48 \<le> sint c \<and> sint c \<le> 57"
definition isupper :: "u8 \<Rightarrow> bool" where "isupper c \<longleftrightarrow> 65 \<le> sint c \<and> sint c \<le> 90"
definition islower :: "u8 \<Rightarrow> bool" where "islower c \<longleftrightarrow> 97 \<le> sint c \<and> sint c \<le> 122"
definition isalpha :: "u8 \<Rightarrow> bool" where "isalpha c \<longleftrightarrow> islower c \<or> isupper c"
definition isalnum :: "u8 \<Rightarrow> bool" where "isalnum c \<longleftrightarrow> isdigit c \<or> isalpha c"
definition tolower :: "u8 \<Rightarrow> u8" where "tolower c = (if isupper c then c + 32 else c)"
definition toupper :: "u8 \<Rightarrow> u8" where "toupper c = (if islower c then c - 32 else c)"

subsection \<open>Operations\<close>

partial_function (option) strlen_loop :: "bytes \<Rightarrow> u16 \<Rightarrow> u16 option" where
  [code]: "strlen_loop ch i = do {
     c \<leftarrow> array_get ch i;
     if c \<noteq> 0 then strlen_loop ch (i + 1) else Some i
   }"

definition strlen :: "bytes \<Rightarrow> u16 option" where
  "strlen ch = strlen_loop ch 0"

definition sign8 :: "u8 \<Rightarrow> u8" where
  \<comment> \<open>The normalisation of an \<^verbatim>\<open>int8\<close> to -1, 0 or 1 at the end of both comparisons.\<close>
  "sign8 res = (if sint res < 0 then - 1 else if sint res > 0 then 1 else res)"

fun strcmp_loop :: "(u8 \<Rightarrow> u8) \<Rightarrow> bytes \<Rightarrow> bytes \<Rightarrow> u8 option" where
  "strcmp_loop f (c1 # s1) (c2 # s2) =
     (let res = f c1 - f c2 in if res = 0 \<and> c2 \<noteq> 0 then strcmp_loop f s1 s2 else Some res)"
| "strcmp_loop f _ _ = None"

definition strcmp :: "bytes \<Rightarrow> bytes \<Rightarrow> u8 option" where
  "strcmp s1 s2 = map_option sign8 (strcmp_loop (\<lambda>c. c) s1 s2)"

definition strcmp_insensitive :: "bytes \<Rightarrow> bytes \<Rightarrow> u8 option" where
  "strcmp_insensitive s1 s2 = map_option sign8 (strcmp_loop tolower s1 s2)"

fun strcpy :: "bytes \<Rightarrow> bytes \<Rightarrow> bytes option" where
  "strcpy (d # ds) (c # cs) = (if c = 0 then Some (c # ds) else map_option (\<lambda>r. c # r) (strcpy ds cs))"
| "strcpy _ _ = None"

definition strcpy_s :: "bytes \<Rightarrow> u16 \<Rightarrow> bytes \<Rightarrow> (u8 \<times> bytes) option" where
  "strcpy_s destination destsz source = do {
     len \<leftarrow> strlen source;
     if len > destsz then Some (1, destination)
     else do { d \<leftarrow> strcpy destination source; Some (0, d) }
   }"

fun strchr_from :: "nat \<Rightarrow> bytes \<Rightarrow> int \<Rightarrow> nat option option" where
  \<comment> \<open>\<open>Some None\<close> is the null result; \<open>Some (Some i)\<close> a pointer to character \<open>i\<close>.\<close>
  "strchr_from i (x # str) c = (if x = 0 then Some None
     else if sint x = c then Some (Some i) else strchr_from (Suc i) str c)"
| "strchr_from i [] c = None"

definition strchr :: "bytes \<Rightarrow> int \<Rightarrow> nat option option" where
  "strchr str c = strchr_from 0 str c"

fun strupper :: "bytes \<Rightarrow> bytes option" where
  "strupper (x # str) = (if x = 0 then Some (x # str) else map_option (\<lambda>r. toupper x # r) (strupper str))"
| "strupper [] = None"

subsection \<open>Correctness\<close>

lemma cstr_Cons: "cstr (c # buf) s \<longleftrightarrow> (if c = 0 then s = [] else (\<exists>s'. s = c # s' \<and> cstr buf s'))"
  by (cases s) (auto simp: cstr_def)

lemma cstr_Nil [simp]: "\<not> cstr [] s"
  by (simp add: cstr_def)

lemma cstr_append: "0 \<notin> set s \<Longrightarrow> cstr (s @ 0 # rest) s"
  by (auto simp: cstr_def)

lemma array_get_of_nat_u16: "i < 2 ^ 16 \<Longrightarrow> i < length xs \<Longrightarrow> array_get xs (of_nat i :: u16) = Some (xs ! i)"
  by (simp add: array_get_def unat_of_nat take_bit_nat_eq_self)

lemma strlen_loop_ok:
  assumes "cstr buf s" and "i \<le> length s" and "length s < 2 ^ 16"
  shows "strlen_loop buf (of_nat i) = Some (of_nat (length s))"
  using assms(2)
proof (induction "length s - i" arbitrary: i)
  case 0
  then have i: "i = length s" by simp
  have "length s < length buf" "buf ! length s = 0"
    using assms(1) by (auto simp: cstr_def)
  then have "array_get buf (of_nat i :: u16) = Some 0"
    using array_get_of_nat_u16 [of i buf] assms(3) i by simp
  then show ?case unfolding i by (subst strlen_loop.simps) simp
next
  case (Suc n)
  have b: "buf ! i = s ! i" "i < length s" "i < length buf"
    using assms(1) Suc by (auto simp: cstr_def nth_append)
  have "s ! i \<noteq> 0" using assms(1) \<open>i < length s\<close> by (metis cstr_def nth_mem)
  moreover have "array_get buf (of_nat i :: u16) = Some (s ! i)"
    using array_get_of_nat_u16 [of i buf] assms(3) b by simp
  moreover have "strlen_loop buf (of_nat (i + 1)) = Some (of_nat (length s))"
    using Suc by (intro Suc.hyps(1)) auto
  ultimately show ?case by (subst strlen_loop.simps) (simp add: add.commute)
qed

lemma strlen_ok: "cstr buf s \<Longrightarrow> length s < 2 ^ 16 \<Longrightarrow> strlen buf = Some (of_nat (length s))"
  using strlen_loop_ok [of buf s 0] by (simp add: strlen_def)

lemma strcmp_loop_ok:
  assumes "cstr b1 s1" and "cstr b2 s2" and "\<And>c. f c = 0 \<longleftrightarrow> c = 0"
  shows "\<exists>r. strcmp_loop f b1 b2 = Some r \<and> (r = 0 \<longleftrightarrow> map f s1 = map f s2)"
  using assms
proof (induction f b1 b2 arbitrary: s1 s2 rule: strcmp_loop.induct)
  case (1 f c1 t1 c2 t2)
  show ?case
  proof (cases "f c1 - f c2 = 0 \<and> c2 \<noteq> 0")
    case True
    then have eq: "f c1 = f c2" and c2: "c2 \<noteq> 0" by simp_all
    with 1(4) [of c1] 1(4) [of c2] have nz: "c1 \<noteq> 0" "c2 \<noteq> 0" by auto
    obtain s1' s2' where s: "s1 = c1 # s1'" "cstr t1 s1'" "s2 = c2 # s2'" "cstr t2 s2'"
      using 1(2,3) nz by (auto simp: cstr_Cons)
    show ?thesis using 1(1) [OF refl True s(2,4) 1(4)] eq True s by simp
  next
    case False
    have "f c1 - f c2 = 0 \<longleftrightarrow> map f s1 = map f s2"
    proof (cases "c2 = 0")
      case True
      then have "s2 = []" using 1(3) by (simp add: cstr_Cons)
      moreover have "f c1 - f c2 = 0 \<longleftrightarrow> c1 = 0" using True 1(4) [of c1] 1(4) [of c2] by simp
      moreover have "c1 = 0 \<longleftrightarrow> s1 = []" using 1(2) by (auto simp: cstr_Cons split: if_splits)
      ultimately show ?thesis by simp
    next
      case c2: False
      then obtain s2' where "s2 = c2 # s2'" using 1(3) by (auto simp: cstr_Cons)
      with False c2 1(2) show ?thesis by (auto simp: cstr_Cons split: if_splits)
    qed
    moreover have "strcmp_loop f (c1 # t1) (c2 # t2) = Some (f c1 - f c2)"
      using False by (auto simp: Let_def)
    ultimately show ?thesis by blast
  qed
qed auto

lemma sign8_0: "sign8 r = 0 \<longleftrightarrow> r = 0"
  by (auto simp: sign8_def)

lemma strcpy_ok:
  assumes "cstr src s" and "length s < length dst"
  shows "strcpy dst src = Some (s @ 0 # drop (Suc (length s)) dst)"
  using assms
proof (induction dst src arbitrary: s rule: strcpy.induct)
  case (1 d ds c cs)
  then show ?case by (cases "c = 0") (auto simp: cstr_Cons)
qed auto

lemma strcpy_overflow: "cstr src s \<Longrightarrow> length dst \<le> length s \<Longrightarrow> strcpy dst src = None"
proof (induction dst src arbitrary: s rule: strcpy.induct)
  case (1 d ds c cs)
  then show ?case by (cases "c = 0") (auto simp: cstr_Cons)
qed auto

lemma strchr_from_ok:
  assumes "cstr buf s"
  shows "strchr_from i buf c = Some (if c \<in> sint ` set s
     then Some (i + length (takeWhile (\<lambda>x. sint x \<noteq> c) s)) else None)"
  using assms
proof (induction i buf c arbitrary: s rule: strchr_from.induct)
  case (1 i x str c)
  then show ?case by (cases "x = 0") (auto simp: cstr_Cons)
qed simp

lemma strupper_ok:
  assumes "cstr buf s"
  shows "strupper buf = Some (map toupper s @ drop (length s) buf)"
  using assms
proof (induction buf arbitrary: s)
  case (Cons x buf)
  then show ?case by (cases "x = 0") (auto simp: cstr_Cons)
qed simp

end
