(* ===== verification/Utility.thy ===== *)
theory Utility
  imports Cstring "HOL-Library.Signed_Division"
begin

text \<open>
  utility.cpp: number to text and back, integer power and ceiling division, and the word-wise
  \<^verbatim>\<open>memset\<close> and \<^verbatim>\<open>memcpy\<close> over a flat byte memory. \<^verbatim>\<open>hexes\<close> and \<^verbatim>\<open>alphabet\<close> are the C arrays with
  their terminating zero.
\<close>

definition hexes :: bytes where
  "hexes = [48, 49, 50, 51, 52, 53, 54, 55, 56, 57, 65, 66, 67, 68, 69, 70, 0]"

definition alphabet :: bytes where
  "alphabet = map word_of_nat [97..<123] @ [0]"

subsection \<open>Numbers to text\<close>

partial_function (option) digit_loop :: "bytes \<Rightarrow> u32 \<Rightarrow> u32 \<Rightarrow> bytes \<Rightarrow> u16 \<Rightarrow> (bytes \<times> u16) option" where
  \<comment> \<open>The \<^verbatim>\<open>do ... while\<close> loop of \<^verbatim>\<open>uitoa\<close> and \<^verbatim>\<open>uitoalpha\<close>.\<close>
  [code]: "digit_loop table base val buffer i =
     (if base = 0 then None else do {
        c \<leftarrow> array_get table (val mod base);
        b \<leftarrow> array_set buffer i c;
        if val div base \<noteq> 0 then digit_loop table base (val div base) b (i + 1) else Some (b, i + 1)
      })"

partial_function (option) reverse_loop :: "u16 \<Rightarrow> u16 \<Rightarrow> bytes \<Rightarrow> bytes option" where
  [code]: "reverse_loop length' i buffer =
     (if i < length' div 2 then do {
        temp \<leftarrow> array_get buffer i;
        c \<leftarrow> array_get buffer (length' - 1 - i);
        b1 \<leftarrow> array_set buffer i c;
        b2 \<leftarrow> array_set b1 (length' - 1 - i) temp;
        reverse_loop length' (i + 1) b2
      }
      else Some buffer)"

definition uitoa :: "u32 \<Rightarrow> bytes \<Rightarrow> u8 \<Rightarrow> bytes option" where
  "uitoa val buffer base = do {
     (b1, i) \<leftarrow> digit_loop hexes (ucast base) val buffer 0;
     b2 \<leftarrow> array_set b1 i 0;
     length' \<leftarrow> strlen b2;
     b3 \<leftarrow> reverse_loop length' 0 b2;
     array_set b3 length' 0
   }"

definition uitoalpha :: "u32 \<Rightarrow> bytes \<Rightarrow> bytes option" where
  "uitoalpha val buffer = do {
     (b1, i) \<leftarrow> digit_loop alphabet 26 val buffer 0;
     b2 \<leftarrow> array_set b1 i 0;
     length' \<leftarrow> strlen b2;
     reverse_loop length' 0 b2
   }"

partial_function (option) itoa_loop :: "int \<Rightarrow> int \<Rightarrow> bytes \<Rightarrow> u16 \<Rightarrow> (bytes \<times> u16) option" where
  \<comment> \<open>\<^verbatim>\<open>val\<close> is a signed 32-bit value: \<^verbatim>\<open>%\<close> and \<^verbatim>\<open>/\<close> truncate toward zero.\<close>
  [code]: "itoa_loop base val buffer i =
     (if val smod base < 0 then None else do {
        c \<leftarrow> array_get hexes (word_of_int (val smod base) :: u32);
        b \<leftarrow> array_set buffer i c;
        if val sdiv base \<noteq> 0 then itoa_loop base (val sdiv base) b (i + 1) else Some (b, i + 1)
      })"

definition itoa :: "u32 \<Rightarrow> bytes \<Rightarrow> u8 \<Rightarrow> bytes option" where
  "itoa val buffer base =
     (if base \<le> 1 \<or> base \<ge> 17 then Some buffer
      else do {
        let negative = sint val < 0;
        let v = (if negative then - val else val);
        (b1, i) \<leftarrow> itoa_loop (uint base) (sint v) buffer 0;
        (b2, j) \<leftarrow> (if base = 16 then do {
             b \<leftarrow> array_set b1 i 120;
             b' \<leftarrow> array_set b (i + 1) 48;
             Some (b', i + 2) }
           else Some (b1, i));
        (b3, k) \<leftarrow> (if negative then do { b \<leftarrow> array_set b2 j 45; Some (b, j + 1) } else Some (b2, j));
        b4 \<leftarrow> array_set b3 k 0;
        length' \<leftarrow> strlen b4;
        b5 \<leftarrow> reverse_loop length' 0 b4;
        array_set b5 length' 0
      })"

subsection \<open>Arithmetic\<close>

function pow_loop :: "u32 \<Rightarrow> u32 \<Rightarrow> u32 \<Rightarrow> u32 \<Rightarrow> u32" where
  "pow_loop base exp i res = (if i < exp then pow_loop base exp (i + 1) (res * base) else res)"
  by auto

definition ceil_division :: "u32 \<Rightarrow> u32 \<Rightarrow> u32 option" where
  "ceil_division value divisor =
     (if divisor = 0 then None
      else let dv = value div divisor; rm = value mod divisor in Some (if rm \<noteq> 0 then dv + 1 else dv))"

lemma unat_diff_suc: "i < n \<Longrightarrow> unat (n - (i + 1)) < unat (n - i) \<and> unat (i + 1) = unat i + 1"
  for i n :: u32
proof
  assume lt: "i < n"
  then have "unat i + 1 < 2 ^ 32" using unat_lt_u32 [of n] by (simp add: word_less_nat_alt)
  then show s: "unat (i + 1) = unat i + 1" by (rule unat_suc_u32)
  with lt show "unat (n - (i + 1)) < unat (n - i)"
    by (simp add: word_less_nat_alt unat_sub_le)
qed

termination pow_loop
  by (relation "measure (\<lambda>(base, exp, i, res). unat (exp - i))") (auto simp: unat_diff_suc)

definition pow :: "u32 \<Rightarrow> u32 \<Rightarrow> u32" where
  "pow base exp = pow_loop base exp 0 1"

subsection \<open>Text to numbers\<close>

partial_function (option) atoui_hex_loop :: "bytes \<Rightarrow> u16 \<Rightarrow> u32 \<Rightarrow> u32 \<Rightarrow> u32 option" where
  [code]: "atoui_hex_loop input length' i res =
     (if i < ucast length' then do {
        c \<leftarrow> array_get input i;
        let mult = (if isalpha c then 10 + scast (tolower c) - 97 else scast c - 48 :: u32);
        atoui_hex_loop input length' (i + 1) (res + mult * pow 16 (ucast length' - 1 - i))
      }
      else Some res)"

definition atoui_hex :: "bytes \<Rightarrow> u16 \<Rightarrow> u32 option" where
  "atoui_hex input length' = atoui_hex_loop input length' 0 0"

partial_function (option) atoui_dec_loop :: "bytes \<Rightarrow> u16 \<Rightarrow> u32 \<Rightarrow> u32 \<Rightarrow> u32 option" where
  [code]: "atoui_dec_loop input length' i res =
     (if i < ucast length' then do {
        c \<leftarrow> array_get input i;
        atoui_dec_loop input length' (i + 1) (res + (scast c - 48) * pow 10 (ucast length' - 1 - i))
      }
      else Some res)"

definition atoui_dec :: "bytes \<Rightarrow> u16 \<Rightarrow> u32 option" where
  "atoui_dec input length' = atoui_dec_loop input length' 0 0"

definition atoui :: "bytes \<Rightarrow> u32 option" where
  "atoui input = do {
     c0 \<leftarrow> array_get input (0 :: u32);
     hex \<leftarrow> (if c0 = 48 then do { c1 \<leftarrow> array_get input (1 :: u32); Some (tolower c1 = 120) } else Some False);
     n \<leftarrow> strlen input;
     if hex then atoui_hex (drop 2 input) (n - 2) else atoui_dec input n
   }"

subsection \<open>memset and memcpy\<close>

type_synonym mem = "u32 \<Rightarrow> u8"

definition read32 :: "mem \<Rightarrow> u32 \<Rightarrow> u32" where
  "read32 m a = (ucast (m a) OR push_bit 8 (ucast (m (a + 1)))) OR
     (push_bit 16 (ucast (m (a + 2))) OR push_bit 24 (ucast (m (a + 3))))"

definition write32 :: "mem \<Rightarrow> u32 \<Rightarrow> u32 \<Rightarrow> mem" where
  "write32 m a v = m(a := ucast v, a + 1 := ucast (drop_bit 8 v), a + 2 := ucast (drop_bit 16 v),
     a + 3 := ucast (drop_bit 24 v))"

primrec set_bytes :: "nat \<Rightarrow> u32 \<Rightarrow> u8 \<Rightarrow> mem \<Rightarrow> mem" where
  \<comment> \<open>\<open>n\<close> iterations of the byte loop from address \<open>p\<close>.\<close>
  "set_bytes 0 p val m = m"
| "set_bytes (Suc n) p val m = set_bytes n (p + 1) val (m(p := val))"

primrec set_words :: "nat \<Rightarrow> u32 \<Rightarrow> u32 \<Rightarrow> mem \<Rightarrow> mem" where
  "set_words 0 p val32 m = m"
| "set_words (Suc n) p val32 m = set_words n (p + 4) val32 (write32 m p val32)"

definition memset :: "u32 \<Rightarrow> u8 \<Rightarrow> u32 \<Rightarrow> mem \<Rightarrow> mem" where
  "memset base val length' m =
     (let index = length' mod 4;
        m1 = set_bytes (unat index) base val m;
        ptr = base + index;
        len = (length' - index) div 4;
        v = (ucast val :: u32);
        val32 = (((v AND 0xFF) OR (push_bit 8 v AND 0xFF00)) OR (push_bit 16 v AND 0xFF0000)) OR
          (push_bit 24 v AND 0xFF000000)
      in set_words (unat len) ptr val32 m1)"

primrec copy_bytes :: "nat \<Rightarrow> u32 \<Rightarrow> u32 \<Rightarrow> mem \<Rightarrow> mem" where
  "copy_bytes 0 d s m = m"
| "copy_bytes (Suc n) d s m = copy_bytes n (d + 1) (s + 1) (m(d := m s))"

primrec copy_words :: "nat \<Rightarrow> u32 \<Rightarrow> u32 \<Rightarrow> mem \<Rightarrow> mem" where
  "copy_words 0 d s m = m"
| "copy_words (Suc n) d s m = copy_words n (d + 4) (s + 4) (write32 m d (read32 m s))"

definition memcpy :: "u32 \<Rightarrow> u32 \<Rightarrow> u32 \<Rightarrow> mem \<Rightarrow> mem" where
  "memcpy dest source length' m =
     (let index = length' mod 4;
        m1 = copy_bytes (unat index) dest source m;
        len = (length' - index) div 4
      in copy_words (unat len) (dest + index) (source + index) m1)"

subsection \<open>memset fills and memcpy copies\<close>

lemma unat_minus_suc: "a \<noteq> p \<Longrightarrow> unat (a - (p + 1)) = unat (a - p) - 1"
  for a p :: u32
  unfolding diff_diff_eq [symmetric] by (rule unat_pred_u32) simp

lemma set_bytes_ok:
  "n \<le> 2 ^ 32 \<Longrightarrow> set_bytes n p val m a = (if unat (a - p) < n then val else m a)"
proof (induction n arbitrary: p m)
  case (Suc n)
  then show ?case
    using unat_minus_suc [of a p] unat_eq_0_iff [of "a - p"] by (cases "a = p") auto
qed simp

lemma fill_word_bytes:
  fixes val :: u8
  defines "v \<equiv> (ucast val :: u32)"
  defines "w \<equiv> (((v AND 0xFF) OR (push_bit 8 v AND 0xFF00)) OR (push_bit 16 v AND 0xFF0000)) OR (push_bit 24 v AND 0xFF000000)"
  shows "ucast w = val" "ucast (drop_bit 8 w) = val" "ucast (drop_bit 16 w) = val" "ucast (drop_bit 24 w) = val"
proof -
  have masks: "(0xFF :: u32) = mask 8" "(0xFF00 :: u32) = push_bit 8 (mask 8)"
      "(0xFF0000 :: u32) = push_bit 16 (mask 8)" "(0xFF000000 :: u32) = push_bit 24 (mask 8)"
    by (simp_all add: mask_eq_exp_minus_1)
  show "ucast w = val" "ucast (drop_bit 8 w) = val" "ucast (drop_bit 16 w) = val" "ucast (drop_bit 24 w) = val"
    unfolding w_def v_def masks
    by (rule bit_word_eqI; auto simp: bit_simps dest: bit_imp_le_length)+
qed

lemma word_near: "unat (a - p) < 4 \<longleftrightarrow> a = p \<or> a = p + 1 \<or> a = p + 2 \<or> a = p + 3"
  for a p :: u32
proof -
  have "unat x < 4 \<longleftrightarrow> x = 0 \<or> x = 1 \<or> x = 2 \<or> x = 3" for x :: u32
    by (auto simp: word_unat_eq_iff)
  from this [of "a - p"] show ?thesis by (auto simp: diff_eq_eq add.commute)
qed

lemma set_words_ok:
  assumes "ucast w = val" "ucast (drop_bit 8 w) = val" "ucast (drop_bit 16 w) = val" "ucast (drop_bit 24 w) = val"
  shows "4 * n < 2 ^ 32 \<Longrightarrow> set_words n p w m a = (if unat (a - p) < 4 * n then val else m a)"
proof (induction n arbitrary: p m)
  case (Suc n)
  have w: "write32 m p w a = (if unat (a - p) < 4 then val else m a)"
    using assms by (auto simp: write32_def word_near)
  have near: "unat (a - p) < 4 * Suc n \<longleftrightarrow> unat (a - p) < 4 \<or> unat (a - (p + 4)) < 4 * n"
  proof (cases "unat (a - p) < 4")
    case False
    then have "unat (a - p - 4) = unat (a - p) - 4" by (intro unat_sub_le [of 4 "a - p", simplified]) simp
    then show ?thesis using False by (auto simp: diff_diff_eq [symmetric])
  qed auto
  show ?case using Suc w near by auto
qed simp

text \<open>\<^verbatim>\<open>memset\<close> writes \<^verbatim>\<open>val\<close> to the \<^verbatim>\<open>length\<close> bytes from \<^verbatim>\<open>base\<close> on (addresses wrap) and nothing else.\<close>

lemma word_split_len:
  fixes len :: u32
  shows "unat (len mod 4) + 4 * unat ((len - len mod 4) div 4) = unat len"
proof -
  have "unat (len - len mod 4) = unat len - unat len mod 4"
    by (subst unat_sub_le) (auto simp: unat_mod)
  then show ?thesis by (simp add: unat_div unat_mod)
qed

lemma memset_ok: "memset base val len m a = (if unat (a - base) < unat len then val else m a)"
proof -
  let ?i = "len mod 4"
  let ?n = "unat ((len - ?i) div 4)"
  have sum: "unat ?i + 4 * ?n = unat len" by (rule word_split_len)
  have "4 * ?n < 2 ^ 32" using sum unat_lt_u32 [of len] by simp
  moreover have "unat ?i \<le> 2 ^ 32" using unat_lt_u32 [of ?i] by simp
  moreover have "unat (a - base) < unat len \<longleftrightarrow> unat (a - base) < unat ?i \<or> unat (a - (base + ?i)) < 4 * ?n"
  proof (cases "unat (a - base) < unat ?i")
    case False
    then have "unat (a - base - ?i) = unat (a - base) - unat ?i" by (intro unat_sub_le) simp
    then show ?thesis using False sum by (auto simp: diff_diff_eq [symmetric])
  qed (use sum in auto)
  ultimately show ?thesis
    using set_words_ok [OF fill_word_bytes [of val]] by (simp add: memset_def Let_def set_bytes_ok)
qed

text \<open>\<^verbatim>\<open>memcpy\<close> copies forward; this is a copy of the old bytes unless the destination starts inside the source.\<close>

definition no_clobber :: "nat \<Rightarrow> u32 \<Rightarrow> u32 \<Rightarrow> bool" where
  "no_clobber n d s \<longleftrightarrow> (\<forall>i j. i < j \<longrightarrow> j < n \<longrightarrow> d + of_nat i \<noteq> s + of_nat j)"

lemma no_clobber_shift: "no_clobber (k + n) d s \<Longrightarrow> no_clobber n (d + of_nat k) (s + of_nat k)"
  unfolding no_clobber_def
proof (intro allI impI)
  fix i j assume c: "\<forall>i j. i < j \<longrightarrow> j < k + n \<longrightarrow> d + of_nat i \<noteq> s + of_nat j" and "i < j" "j < n"
  with c [rule_format, of "k + i" "k + j"] show "d + of_nat k + of_nat i \<noteq> s + of_nat k + of_nat j"
    by (simp add: add.assoc)
qed

lemma copy_bytes_ok:
  "n \<le> 2 ^ 32 \<Longrightarrow> no_clobber n d s \<Longrightarrow>
     copy_bytes n d s m a = (if unat (a - d) < n then m (s + (a - d)) else m a)"
proof (induction n arbitrary: d s m)
  case (Suc n)
  have nc: "no_clobber n (d + 1) (s + 1)" using no_clobber_shift [of 1 n d s] Suc.prems(2) by simp
  have "n \<le> 2 ^ 32" using Suc.prems(1) by simp
  note ih = Suc.IH [OF this nc, of "m(d := m s)"]
  show ?case
  proof (cases "a = d")
    case True
    have "d - (d + 1) = - 1" by simp
    then have "unat (d - (d + 1)) = 2 ^ 32 - 1" by (simp add: unsigned_minus_1_eq_mask mask_eq_exp_minus_1)
    with Suc.prems(1) True have "\<not> unat (a - (d + 1)) < n" by simp
    with True show ?thesis unfolding copy_bytes.simps ih by simp
  next
    case False
    have "s + 1 + (a - (d + 1)) = s + (a - d)" by simp
    moreover have "s + (a - d) \<noteq> d" if "unat (a - d) < Suc n"
    proof -
      have "0 < unat (a - d)" using False unat_eq_0_iff [of "a - d"] by simp
      with Suc.prems(2) that have "d + of_nat 0 \<noteq> s + of_nat (unat (a - d))"
        unfolding no_clobber_def by blast
      then show ?thesis by (simp add: eq_commute)
    qed
    moreover have "unat (a - d) < Suc n \<longleftrightarrow> unat (a - (d + 1)) < n"
      using unat_minus_suc [OF False] False unat_eq_0_iff [of "a - d"] by auto
    ultimately show ?thesis using False unfolding copy_bytes.simps ih by simp
  qed
qed simp

lemma copy_bytes_add:
  "copy_bytes (k + n) d s m = copy_bytes n (d + of_nat k) (s + of_nat k) (copy_bytes k d s m)"
  by (induction k arbitrary: d s m) (simp_all add: ac_simps)

lemma write32_read32: "write32 m d (read32 m s) =
    m(d := m s, d + 1 := m (s + 1), d + 2 := m (s + 2), d + 3 := m (s + 3))"
proof -
  have "ucast (read32 m s) = m s" "ucast (drop_bit 8 (read32 m s)) = m (s + 1)"
      "ucast (drop_bit 16 (read32 m s)) = m (s + 2)" "ucast (drop_bit 24 (read32 m s)) = m (s + 3)"
    by (rule bit_word_eqI; auto simp: read32_def bit_simps dest: bit_imp_le_length)+
  then show ?thesis by (simp add: write32_def)
qed

lemma copy_word_bytes: "no_clobber 4 d s \<Longrightarrow> write32 m d (read32 m s) = copy_bytes 4 d s m"
proof
  fix a assume nc: "no_clobber 4 d s"
  show "write32 m d (read32 m s) a = copy_bytes 4 d s m a"
    unfolding copy_bytes_ok [OF _ nc, of m a, simplified] write32_read32 by (auto simp: word_near)
qed

lemma copy_words_bytes: "no_clobber (4 * n) d s \<Longrightarrow> copy_words n d s m = copy_bytes (4 * n) d s m"
proof (induction n arbitrary: d s m)
  case (Suc n)
  have nc: "no_clobber (4 + 4 * n) d s" using Suc.prems by simp
  then have "no_clobber 4 d s" by (auto simp: no_clobber_def)
  moreover have "no_clobber (4 * n) (d + 4) (s + 4)" using no_clobber_shift [OF nc] by simp
  ultimately show ?case
    using Suc.IH [of "d + 4" "s + 4"] copy_bytes_add [of 4 "4 * n" d s m] by (simp add: copy_word_bytes)
qed simp

lemma memcpy_ok:
  assumes "no_clobber (unat len) d s"
  shows "memcpy d s len m a = (if unat (a - d) < unat len then m (s + (a - d)) else m a)"
proof -
  let ?i = "len mod 4"
  let ?n = "unat ((len - ?i) div 4)"
  have sum: "unat ?i + 4 * ?n = unat len" by (rule word_split_len)
  then have "no_clobber (4 * ?n) (d + ?i) (s + ?i)"
    using no_clobber_shift [of "unat ?i" "4 * ?n" d s] assms by simp
  then have "memcpy d s len m = copy_bytes (unat len) d s m"
    using copy_bytes_add [of "unat ?i" "4 * ?n" d s m] sum by (simp add: memcpy_def Let_def copy_words_bytes)
  then show ?thesis using copy_bytes_ok [OF _ assms] unat_lt_u32 [of len] by simp
qed

subsection \<open>Digits\<close>

declare pow_loop.simps [simp del]

function rdigits :: "nat \<Rightarrow> nat \<Rightarrow> nat list" where
  "rdigits b v = (if b < 2 then [] else (v mod b) # (if v div b = 0 then [] else rdigits b (v div b)))"
  by auto
termination
  by (relation "measure snd") (auto simp: div_eq_0_iff)

declare rdigits.simps [simp del]

fun msb_val :: "nat \<Rightarrow> nat list \<Rightarrow> nat" where
  "msb_val b [] = 0"
| "msb_val b (x # xs) = x * b ^ length xs + msb_val b xs"

lemma msb_val_snoc: "msb_val b (xs @ [y]) = msb_val b xs * b + y"
  by (induction xs) (auto simp: algebra_simps)

lemma rdigits_value: "2 \<le> b \<Longrightarrow> msb_val b (rev (rdigits b v)) = v"
proof (induction b v rule: rdigits.induct)
  case (1 b v)
  then show ?case
    by (subst rdigits.simps) (auto simp: msb_val_snoc div_eq_0_iff)
qed

lemma rdigits_less: "2 \<le> b \<Longrightarrow> x \<in> set (rdigits b v) \<Longrightarrow> x < b"
proof (induction b v rule: rdigits.induct)
  case (1 b v)
  then show ?case
    by (subst (asm) (2) rdigits.simps) (auto split: if_splits)
qed

lemma rdigits_length: "2 \<le> b \<Longrightarrow> v < b ^ Suc k \<Longrightarrow> length (rdigits b v) \<le> Suc k"
proof (induction k arbitrary: v)
  case 0
  then show ?case by (subst rdigits.simps) simp
next
  case (Suc k)
  have "v < b ^ Suc k * b" using Suc.prems by (simp add: ac_simps)
  then have "v div b < b ^ Suc k" by (rule less_mult_imp_div_less)
  with Suc show ?case by (subst rdigits.simps) simp
qed

lemma rdigits_length_u32: "2 \<le> b \<Longrightarrow> length (rdigits b (unat v)) \<le> 32"
  for v :: u32
proof -
  assume b: "2 \<le> b"
  have "(2 :: nat) ^ 32 \<le> b ^ 32" using b by (rule power_mono) simp
  then have "unat v < b ^ Suc 31" using unat_lt_u32 [of v] by simp
  then show ?thesis using rdigits_length [OF b, of "unat v" 31] by simp
qed

lemma digit_loop_ok:
  assumes "2 \<le> unat base" and "unat base \<le> length table"
  shows "unat i + length (rdigits (unat base) (unat v)) \<le> length buffer \<Longrightarrow>
    unat i + length (rdigits (unat base) (unat v)) < 2 ^ 16 \<Longrightarrow>
    digit_loop table base v buffer i = Some (take (unat i) buffer @ map ((!) table) (rdigits (unat base) (unat v)) @
      drop (unat i + length (rdigits (unat base) (unat v))) buffer, i + of_nat (length (rdigits (unat base) (unat v))))"
proof (induction "unat v" arbitrary: v buffer i rule: less_induct)
  case less
  let ?b = "unat base"
  have nz: "base \<noteq> 0" using assms(1) by auto
  have rd: "rdigits ?b (unat v) = (unat v mod ?b) # (if unat v div ?b = 0 then [] else rdigits ?b (unat v div ?b))"
    using assms(1) by (subst rdigits.simps) simp
  have i: "unat i < length buffer" "unat i + 1 < 2 ^ 16"
    using less.prems unfolding rd by auto
  then have si: "unat (i + 1) = unat i + 1" by (subst unat_add_no_wrap) auto
  have c: "array_get table (v mod base) = Some (table ! (unat v mod ?b))"
  proof -
    have "unat v mod ?b < ?b" using assms(1) by simp
    then show ?thesis using assms(2) by (simp add: array_get_def unat_mod)
  qed
  let ?buf = "buffer[unat i := table ! (unat v mod ?b)]"
  have tk: "take (unat i + 1) ?buf = take (unat i) buffer @ [table ! (unat v mod ?b)]"
    using i by (simp add: take_Suc_conv_app_nth)
  show ?case
  proof (cases "unat v div ?b = 0")
    case True
    then have "v div base = 0" by (simp add: unat_div flip: unat_eq_0_iff)
    moreover have "?buf = take (unat i) buffer @ table ! (unat v mod ?b) # drop (Suc (unat i)) buffer"
      using i by (simp add: upd_conv_take_nth_drop)
    ultimately show ?thesis using nz c i rd True by (simp add: digit_loop.simps)
  next
    case False
    have dv: "unat (v div base) = unat v div ?b" by (simp add: unat_div)
    then have "v div base \<noteq> 0" using False by auto
    moreover have "unat (v div base) < unat v" using False assms(1) dv by (auto simp: div_eq_0_iff)
    ultimately show ?thesis
      using less.hyps [of "v div base" "i + 1" ?buf] less.prems nz c i tk rd False si dv
      by (simp add: digit_loop.simps [of table base v])
  qed
qed

text \<open>The swap loop exchanges the cells \<open>i\<close> to \<open>n - 1 - i\<close> and keeps the others.\<close>

definition mirrored :: "nat \<Rightarrow> nat \<Rightarrow> bytes \<Rightarrow> bytes" where
  "mirrored n i xs = map (\<lambda>k. if i \<le> k \<and> k < n - i then xs ! (n - 1 - k) else xs ! k) [0..<length xs]"

lemma mirrored_step:
  assumes "i < n div 2" and "n \<le> length xs"
  shows "mirrored n (Suc i) (xs[i := xs ! (n - 1 - i), n - 1 - i := xs ! i]) = mirrored n i xs"
proof (rule nth_equalityI)
  fix k assume "k < length (mirrored n (Suc i) (xs[i := xs ! (n - 1 - i), n - 1 - i := xs ! i]))"
  then have k: "k < length xs" by (simp add: mirrored_def)
  have i: "i < n - 1 - i" "n - 1 - i < length xs" using assms by auto
  consider "k = i" | "k = n - 1 - i" | "k \<noteq> i" "k \<noteq> n - 1 - i" by blast
  then show "mirrored n (Suc i) (xs[i := xs ! (n - 1 - i), n - 1 - i := xs ! i]) ! k = mirrored n i xs ! k"
    using k i by cases (auto simp: mirrored_def nth_list_update)
qed (simp add: mirrored_def)

lemma reverse_loop_ok:
  assumes "n < 2 ^ 16"
  shows "n \<le> length xs \<Longrightarrow> i \<le> n div 2 \<Longrightarrow> reverse_loop (of_nat n) (of_nat i) xs = Some (mirrored n i xs)"
proof (induction "n div 2 - i" arbitrary: i xs)
  case 0
  then have i: "i = n div 2" by simp
  have n: "unat (of_nat n :: u16) = n" "unat (of_nat i :: u16) = i" using assms i by (simp_all add: unat_of_nat_u16)
  then have "\<not> (of_nat i :: u16) < of_nat n div 2" using i by (simp add: word_less_nat_alt unat_div)
  moreover have "mirrored n i xs = xs"
    by (rule nth_equalityI) (auto simp: mirrored_def i intro!: arg_cong [of _ _ "nth xs"])
  ultimately show ?case by (simp add: reverse_loop.simps)
next
  case (Suc k)
  have lt: "i < n div 2" using Suc by simp
  have u: "unat (of_nat n :: u16) = n" "unat (of_nat i :: u16) = i" using assms lt by (simp_all add: unat_of_nat_u16)
  then have c: "(of_nat i :: u16) < of_nat n div 2" using lt by (simp add: word_less_nat_alt unat_div)
  have "(of_nat n - 1 - of_nat i :: u16) = of_nat (n - 1 - i)" using lt by (simp add: of_nat_diff)
  moreover have "unat (of_nat (n - 1 - i) :: u16) = n - 1 - i" using assms by (simp add: unat_of_nat_u16)
  ultimately have m: "unat (of_nat n - 1 - of_nat i :: u16) = n - 1 - i" by simp
  have b: "i < length xs" "n - 1 - i < length xs" using lt Suc.prems by auto
  have "reverse_loop (of_nat n) (of_nat (Suc i)) (xs[i := xs ! (n - 1 - i), n - 1 - i := xs ! i])
      = Some (mirrored n i xs)"
    unfolding mirrored_step [OF lt Suc.prems(1), symmetric]
    using Suc.hyps(2) Suc.prems lt by (intro Suc.hyps(1)) auto
  then show ?case using c u m b by (simp add: reverse_loop.simps [of "of_nat n" "of_nat i"] add.commute)
qed

lemma mirrored_0: "mirrored (length xs) 0 (xs @ ys) = rev xs @ ys"
  by (rule nth_equalityI) (auto simp: mirrored_def nth_append rev_nth)

lemma hexes_digit: "d < 16 \<Longrightarrow> hexes ! d = (if d < 10 then of_nat (48 + d) else of_nat (55 + d)) \<and> hexes ! d \<noteq> 0"
proof -
  assume "d < 16"
  then have "d \<in> set [0..<16]" by simp
  moreover have "\<forall>d \<in> set [0..<16]. hexes ! d = (if d < 10 then of_nat (48 + d) else of_nat (55 + d)) \<and> hexes ! d \<noteq> 0"
    by (simp add: hexes_def upt_rec del: set_upt)
  ultimately show ?thesis by blast
qed

lemma terminate_and_reverse:
  assumes nz: "0 \<notin> set m" and room: "length m < length buffer" and n: "length m < 2 ^ 16"
  shows "Option.bind (array_set (m @ drop (length m) buffer) (of_nat (length m) :: u16) 0) (\<lambda>b. Option.bind (strlen b) (\<lambda>len.
      Option.bind (reverse_loop len 0 b) (\<lambda>b. array_set b len 0))) = Some (rev m @ 0 # drop (Suc (length m)) buffer)"
proof -
  let ?n = "length m" and ?rest = "drop (Suc (length m)) buffer"
  have un: "unat (of_nat ?n :: u16) = ?n" using n by (simp add: unat_of_nat_u16)
  have "array_set (m @ drop ?n buffer) (of_nat ?n :: u16) 0 = Some (m @ 0 # ?rest)"
  proof -
    have "drop ?n buffer = buffer ! ?n # ?rest" using room by (simp add: Cons_nth_drop_Suc)
    then show ?thesis using un room by (simp add: array_set_def list_update_append)
  qed
  moreover have "strlen (m @ 0 # ?rest) = Some (of_nat ?n)" using cstr_append [OF nz] n by (rule strlen_ok)
  moreover have "reverse_loop (of_nat ?n) 0 (m @ 0 # ?rest) = Some (rev m @ 0 # ?rest)"
    using reverse_loop_ok [of ?n "m @ 0 # ?rest" 0] mirrored_0 [of m "0 # ?rest"] n by simp
  moreover have "array_set (rev m @ 0 # ?rest) (of_nat ?n :: u16) 0 = Some (rev m @ 0 # ?rest)"
    using un by (simp add: array_set_def list_update_append)
  ultimately show ?thesis by simp
qed

lemma digits_nonzero: "2 \<le> b \<Longrightarrow> b \<le> 16 \<Longrightarrow> 0 \<notin> set (map ((!) hexes) (rdigits b v))"
proof
  assume b: "2 \<le> b" "b \<le> 16" and "0 \<in> set (map ((!) hexes) (rdigits b v))"
  then obtain d where "d \<in> set (rdigits b v)" "hexes ! d = 0" by auto
  moreover from this have "d < 16" using rdigits_less [OF b(1)] b(2) by fastforce
  ultimately show False using hexes_digit by blast
qed

text \<open>\<^verbatim>\<open>uitoa\<close> writes the digits of the number, most significant first, and a terminating zero.\<close>

lemma uitoa_text:
  assumes base: "2 \<le> unat base" "unat base \<le> 16"
    and room: "length (rdigits (unat base) (unat v)) < length buffer"
  shows "uitoa v buffer base = Some (map ((!) hexes) (rev (rdigits (unat base) (unat v))) @ 0 #
    drop (Suc (length (rdigits (unat base) (unat v)))) buffer)"
proof -
  let ?ds = "rdigits (unat base) (unat v)"
  have b: "unat (ucast base :: u32) = unat base" by (rule unat_ucast_8_32)
  have n: "length ?ds \<le> 32" using base(1) by (rule rdigits_length_u32)
  have "digit_loop hexes (ucast base) v buffer 0 = Some (map ((!) hexes) ?ds @ drop (length ?ds) buffer, of_nat (length ?ds))"
    using digit_loop_ok [of "ucast base" hexes 0 v buffer] base b n room by (simp add: hexes_def)
  then show ?thesis
    using terminate_and_reverse [OF digits_nonzero [OF base, of "unat v"], of buffer] room n by (simp add: uitoa_def rev_map)
qed

lemma uitoa_ok:
  assumes "2 \<le> unat base" "unat base \<le> 16" and "length (rdigits (unat base) (unat v)) < length buffer"
  shows "\<exists>rest. uitoa v buffer base = Some (map ((!) hexes) (rev (rdigits (unat base) (unat v))) @ 0 # rest)"
  using uitoa_text [OF assms] by blast

lemma itoa_loop_ok:
  assumes b: "2 \<le> b" "b \<le> 16" and "n < 2 ^ 31"
  shows "unat i + length (rdigits b n) \<le> length buffer \<Longrightarrow> unat i + length (rdigits b n) < 2 ^ 16 \<Longrightarrow>
    itoa_loop (int b) (int n) buffer i = Some (take (unat i) buffer @ map ((!) hexes) (rdigits b n) @
      drop (unat i + length (rdigits b n)) buffer, i + of_nat (length (rdigits b n)))"
  using assms(3)
proof (induction n arbitrary: buffer i rule: less_induct)
  case (less n)
  have rd: "rdigits b n = (n mod b) # (if n div b = 0 then [] else rdigits b (n div b))" using b(1) by (subst rdigits.simps) simp
  have sd: "int n smod int b = int (n mod b)" "int n sdiv int b = int (n div b)"
    using b(1) by (auto simp: signed_modulo_int_def signed_divide_int_def zdiv_int zmod_int sgn_if minus_div_mult_eq_mod)
  have i: "unat i < length buffer" "unat i + 1 < 2 ^ 16" using less.prems unfolding rd by auto
  then have si: "unat (i + 1) = unat i + 1" by (subst unat_add_no_wrap) auto
  have m16: "n mod b < 16" using b mod_less_divisor [of b n] by linarith
  then have c: "array_get hexes (word_of_int (int (n mod b)) :: u32) = Some (hexes ! (n mod b))"
    by (simp add: array_get_def hexes_def unat_of_nat_u32)
  let ?buf = "buffer[unat i := hexes ! (n mod b)]"
  have tk: "take (unat i + 1) ?buf = take (unat i) buffer @ [hexes ! (n mod b)]" using i by (simp add: take_Suc_conv_app_nth)
  show ?case
  proof (cases "n div b = 0")
    case True
    moreover have "?buf = take (unat i) buffer @ hexes ! (n mod b) # drop (Suc (unat i)) buffer"
      using i by (simp add: upd_conv_take_nth_drop)
    ultimately show ?thesis unfolding itoa_loop.simps [of "int b" "int n"] sd c using i rd by simp
  next
    case False
    then have lt: "n div b < n" using b(1) by (metis div_0 div_less_dividend less_le_trans one_less_numeral_iff semiring_norm(76) bot_nat_0.not_eq_extremum)
    show ?thesis unfolding itoa_loop.simps [of "int b" "int n"] sd c
      using less.IH [OF lt, of "i + 1" ?buf] less.prems lt i tk rd False si by (simp add: add.assoc del: of_nat_mod of_nat_div zdiv_int)
  qed
qed

definition signed_text :: "u32 \<Rightarrow> bytes" where
  \<comment> \<open>The decimal text of a signed number.\<close>
  "signed_text v = (if sint v < 0 then [45] else []) @ map ((!) hexes) (rev (rdigits 10 (nat \<bar>sint v\<bar>)))"

lemma itoa_text:
  assumes v: "sint v \<noteq> - (2 ^ 31)" and room: "length (signed_text v) < length buffer"
  shows "itoa v buffer 10 = Some (signed_text v @ 0 # drop (Suc (length (signed_text v))) buffer)"
proof -
  let ?n = "nat \<bar>sint v\<bar>" and ?neg = "sint v < 0"
  let ?ds = "rdigits 10 ?n" and ?w = "if sint v < 0 then - v else v"
  have r: "- (2 ^ 31) \<le> sint v" "sint v < 2 ^ 31" using sint_greater_eq [of v] sint_less [of v] by simp_all
  then have n: "?n < 2 ^ 31" using v by auto
  have "sint (- v) = - sint v" unfolding sint_word_ariths using r v by (subst signed_take_bit_int_eq_self) auto
  then have w: "sint ?w = int ?n" by simp
  have len: "length ?ds \<le> 10" using rdigits_length [of 10 ?n 9] n by simp
  have sl: "length (signed_text v) = length ?ds + (if ?neg then 1 else 0)" by (simp add: signed_text_def)
  have lp: "itoa_loop 10 (int ?n) buffer 0 = Some (map ((!) hexes) ?ds @ drop (length ?ds) buffer, of_nat (length ?ds))"
    using itoa_loop_ok [of 10 ?n 0 buffer] n len room sl by simp
  let ?m = "map ((!) hexes) ?ds @ (if ?neg then [45] else [])"
  have nz: "0 \<notin> set ?m" using digits_nonzero [of 10 ?n] by auto
  have un: "unat (of_nat (length ?ds) :: u16) = length ?ds" using len by (simp add: unat_of_nat_u16)
  have sg: "?neg \<Longrightarrow> array_set (map ((!) hexes) ?ds @ drop (length ?ds) buffer) (of_nat (length ?ds) :: u16) 45 = Some (?m @ drop (length ?m) buffer)"
  proof -
    assume ng: ?neg
    then have "drop (length ?ds) buffer = buffer ! length ?ds # drop (Suc (length ?ds)) buffer" using room sl by (simp add: Cons_nth_drop_Suc)
    then show ?thesis using ng un room sl by (simp add: array_set_def list_update_append)
  qed
  have "length ?m < length buffer" "length ?m < 2 ^ 16" using room sl len by auto
  from terminate_and_reverse [OF nz this] have fin: "Option.bind (array_set (?m @ drop (length ?m) buffer) (of_nat (length ?m) :: u16) 0)
      (\<lambda>b. Option.bind (strlen b) (\<lambda>len. Option.bind (reverse_loop len 0 b) (\<lambda>b. array_set b len 0))) =
      Some (rev ?m @ 0 # drop (Suc (length ?m)) buffer)" .
  have "itoa v buffer 10 = Some (rev ?m @ 0 # drop (Suc (length ?m)) buffer)"
  proof -
    have t: "\<not> (10 :: u8) \<le> 1" "\<not> (17 :: u8) \<le> 10" "(10 :: u8) \<noteq> 16" "uint (10 :: u8) = 10" by (simp_all add: word_le_nat_alt)
    show ?thesis unfolding itoa_def Let_def w using lp sg fin t by (cases ?neg) (simp_all add: add.commute)
  qed
  then show ?thesis by (simp add: signed_text_def rev_map)
qed

subsection \<open>Reading back what was written\<close>

lemma pow_loop_ok: "i \<le> exp \<Longrightarrow> pow_loop base exp i res = res * base ^ unat (exp - i)"
proof (induction base exp i res rule: pow_loop.induct)
  case (1 base exp i res)
  show ?case
  proof (cases "i < exp")
    case True
    then have "i + 1 \<le> exp" by (metis unat_diff_suc word_le_nat_alt word_less_nat_alt Suc_eq_plus1 Suc_le_eq)
    moreover have "unat (exp - i) = Suc (unat (exp - (i + 1)))"
    proof -
      have "unat (exp - (i + 1)) = unat (exp - i) - 1"
        unfolding diff_diff_eq [symmetric] by (rule unat_pred_u32) (use True in auto)
      moreover have "unat (exp - i) \<noteq> 0" using True unat_eq_0_iff [of "exp - i"] by auto
      ultimately show ?thesis by simp
    qed
    ultimately show ?thesis using 1 True by (simp add: pow_loop.simps [of base exp i])
  next
    case False
    with 1 have "i = exp" by simp
    then show ?thesis by (simp add: pow_loop.simps)
  qed
qed

lemma pow_ok: "pow base exp = base ^ unat exp"
  by (simp add: pow_def pow_loop_ok)

lemma atoui_dec_loop_ok:
  assumes "length pre + length xs < 2 ^ 16" and "\<forall>x \<in> set xs. x < 10"
  shows "atoui_dec_loop (pre @ map ((!) hexes) xs @ rest) (of_nat (length pre + length xs)) (of_nat (length pre)) res
    = Some (res + of_nat (msb_val 10 xs))"
  using assms
proof (induction xs arbitrary: pre res)
  case Nil
  then show ?case by (subst atoui_dec_loop.simps) (simp add: word_less_nat_alt unat_of_nat_u16 unat_of_nat_u32)
next
  case (Cons x xs)
  let ?in = "pre @ map ((!) hexes) (x # xs) @ rest" and ?n = "length pre + length (x # xs)"
  have n: "unat (ucast (of_nat ?n :: u16) :: u32) = ?n" "unat (of_nat (length pre) :: u32) = length pre"
    unfolding unat_ucast_16_32
    by (rule unat_of_nat_u16 unat_of_nat_u32; use Cons.prems in simp)+
  then have c: "(of_nat (length pre) :: u32) < ucast (of_nat ?n :: u16)" by (simp add: word_less_nat_alt)
  have g: "array_get ?in (of_nat (length pre) :: u32) = Some (hexes ! x)"
    unfolding array_get_def n(2) by (simp add: nth_append)
  have e: "ucast (of_nat ?n :: u16) - 1 - (of_nat (length pre) :: u32) = of_nat (length xs)"
    by (rule word_unat_eq_iff [THEN iffD2]) (use Cons.prems n in \<open>simp add: unat_of_nat_u32 unat_sub_le unat_pred_u32\<close>)
  have x: "scast (hexes ! x) - 48 = (of_nat x :: u32)"
  proof -
    have "x \<in> set [0..<10]" using Cons.prems(2) by simp
    moreover have "\<forall>x \<in> set [0..<10]. scast (hexes ! x) - 48 = (of_nat x :: u32)"
      by (simp add: hexes_def upt_rec del: set_upt)
    ultimately show ?thesis by blast
  qed
  have "atoui_dec_loop ?in (of_nat ?n) (of_nat (length pre)) res
      = atoui_dec_loop ((pre @ [hexes ! x]) @ map ((!) hexes) xs @ rest) (of_nat (length (pre @ [hexes ! x]) + length xs))
          (of_nat (length (pre @ [hexes ! x]))) (res + of_nat x * 10 ^ length xs)"
    using c g e x Cons.prems(1)
    by (subst atoui_dec_loop.simps) (simp add: pow_ok unat_of_nat_u32 add.commute)
  also have "\<dots> = Some (res + of_nat x * 10 ^ length xs + of_nat (msb_val 10 xs))"
    using Cons.prems by (intro Cons.IH) auto
  finally show ?case by (simp add: add.assoc)
qed

lemma tolower_not_x: "c = 0 \<or> (\<exists>d < 10. c = hexes ! d) \<Longrightarrow> tolower c \<noteq> 120"
proof -
  have "\<forall>d \<in> set [0..<10]. tolower (hexes ! d) \<noteq> 120"
    by (simp add: hexes_def upt_rec tolower_def isupper_def del: set_upt)
  then have "\<forall>d < 10. tolower (hexes ! d) \<noteq> 120" by simp
  moreover have "tolower 0 \<noteq> 120" by (simp add: tolower_def isupper_def)
  ultimately show "c = 0 \<or> (\<exists>d < 10. c = hexes ! d) \<Longrightarrow> tolower c \<noteq> 120" by blast
qed

lemma atoui_digits:
  assumes ds: "\<forall>d \<in> set ds. d < 10" and ne: "ds \<noteq> []" and len: "length ds < 2 ^ 16"
  shows "atoui (map ((!) hexes) ds @ 0 # rest) = Some (of_nat (msb_val 10 ds))"
proof -
  let ?b = "map ((!) hexes) ds @ 0 # rest"
  have nz: "hexes ! d \<noteq> 0" if "d \<in> set ds" for d
  proof -
    have "d < 16" using ds that by fastforce
    then show ?thesis using hexes_digit by blast
  qed
  then have "cstr ?b (map ((!) hexes) ds)" by (intro cstr_append) (metis imageE set_map)
  from strlen_ok [OF this] len have n: "strlen ?b = Some (of_nat (length ds))" by simp
  obtain c where c: "array_get ?b (1 :: u32) = Some c" "tolower c \<noteq> 120"
  proof -
    have "?b ! 1 = 0 \<or> (\<exists>d < 10. ?b ! 1 = hexes ! d)" "1 < length ?b"
      using ds ne by (cases ds; cases "tl ds"; auto)+
    with tolower_not_x [of "?b ! 1"] that show ?thesis by (auto simp: array_get_def)
  qed
  have "array_get ?b (0 :: u32) = Some (?b ! 0)" by simp
  moreover have "atoui_dec ?b (of_nat (length ds)) = Some (of_nat (msb_val 10 ds))"
    using atoui_dec_loop_ok [of "[]" ds "0 # rest" 0] ds len by (simp add: atoui_dec_def)
  ultimately show ?thesis using n c by (simp add: atoui_def)
qed

subsection \<open>Properties\<close>

text \<open>
  C5. Decimal text round trip: for every 32-bit number and every buffer of at least eleven bytes
  \<^verbatim>\<open>uitoa\<close> in base ten stays inside the buffer, and \<^verbatim>\<open>atoui\<close> reads the number back.
\<close>

theorem uitoa_atoui_roundtrip:
  assumes "11 \<le> length buffer"
  shows "\<exists>b. uitoa v buffer 10 = Some b \<and> atoui b = Some v"
proof -
  let ?ds = "rdigits 10 (unat v)"
  have len: "length ?ds \<le> 10" using rdigits_length [of 10 "unat v" 9] unat_lt_u32 [of v] by simp
  then obtain rest where u: "uitoa v buffer 10 = Some (map ((!) hexes) (rev ?ds) @ 0 # rest)"
    using uitoa_ok [of 10 v buffer] assms by auto
  have "?ds \<noteq> []" by (subst rdigits.simps) simp
  then have "atoui (map ((!) hexes) (rev ?ds) @ 0 # rest) = Some (of_nat (msb_val 10 (rev ?ds)))"
    using len rdigits_less [of 10] by (intro atoui_digits) auto
  with u show ?thesis by (simp add: rdigits_value)
qed

lemma uitoa_atoui_roundtrip_witness:
  "\<exists>b. uitoa 4294967295 (replicate 11 0) 10 = Some b \<and> atoui b = Some 4294967295"
  using uitoa_atoui_roundtrip [of "replicate 11 0" 4294967295] by simp

text \<open>
  The word-wise \<^verbatim>\<open>memset\<close> changes exactly the \<^verbatim>\<open>length\<close> bytes from \<^verbatim>\<open>base\<close>, for every length and
  alignment, and the word-wise forward \<^verbatim>\<open>memcpy\<close> moves exactly the old source bytes, overlapping
  or not, as long as no destination byte is a later source byte.
\<close>

theorem memory_block_operations:
  assumes "\<forall>i j. i < j \<longrightarrow> j < unat len \<longrightarrow> dest + of_nat i \<noteq> src + of_nat j"
  shows "memset base val n m a = (if unat (a - base) < unat n then val else m a) \<and>
    memcpy dest src len m b = (if unat (b - dest) < unat len then m (src + (b - dest)) else m b)"
  using assms memset_ok memcpy_ok by (simp add: no_clobber_def)

lemma memory_block_operations_witness:
  "memcpy 8 16 6 (\<lambda>a. ucast a) 10 = 18"
proof -
  have "\<forall>i j. i < j \<longrightarrow> j < unat (6 :: u32) \<longrightarrow> (8 :: u32) + of_nat i \<noteq> 16 + of_nat j"
  proof (intro allI impI)
    fix i j :: nat assume "i < j" "j < unat (6 :: u32)"
    then have "unat ((8 :: u32) + of_nat i) = 8 + i" "unat ((16 :: u32) + of_nat j) = 16 + j"
      by (simp_all add: unat_word_ariths unat_of_nat_u32)
    with \<open>i < j\<close> show "(8 :: u32) + of_nat i \<noteq> 16 + of_nat j" by (metis add_less_mono less_irrefl numeral_less_iff semiring_norm(76,78,79))
  qed
  from memory_block_operations [OF this, of 0 0 0 "\<lambda>a. ucast a" 0 10] show ?thesis by simp
qed

end
