(* ===== verification/Allocator.thy ===== *)
theory Allocator
  imports Prelude
begin

text \<open>
  The contract between the kernel's allocators (physical blocks, kernel heap) and their clients: an
  allocation yields null or a region that overlaps no region in use, and a region in use can be
  given back. A client is a sequence of requests; it never holds the same memory twice.
\<close>

definition disjoint_regions :: "nat \<times> nat \<Rightarrow> nat \<times> nat \<Rightarrow> bool" where
  "disjoint_regions r q \<longleftrightarrow> fst r + snd r \<le> fst q \<or> fst q + snd q \<le> fst r"

subsection \<open>A client\<close>

datatype 'n alloc_op = Alloc 'n | Free nat

fun alloc_run ::
  "('n \<Rightarrow> 's \<Rightarrow> (u32 \<times> 's) option) \<Rightarrow> (u32 \<Rightarrow> 's \<Rightarrow> 's option) \<Rightarrow> 'n alloc_op list \<Rightarrow> u32 list \<Rightarrow> 's \<Rightarrow> (u32 list \<times> 's) option" where
  \<comment> \<open>The client keeps the addresses it holds; \<open>Free i\<close> gives the \<open>i\<close>-th back.\<close>
  "alloc_run alloc free [] live s = Some (live, s)"
| "alloc_run alloc free (Alloc n # ops) live s = do {
     (a, s') \<leftarrow> alloc n s;
     alloc_run alloc free ops (if a = 0 then live else a # live) s'
   }"
| "alloc_run alloc free (Free i # ops) live s =
     (if i < length live then do {
        s' \<leftarrow> free (live ! i) s;
        alloc_run alloc free ops (remove_nth i live) s'
      }
      else alloc_run alloc free ops live s)"

definition holds :: "(nat \<times> nat) set \<Rightarrow> u32 list \<Rightarrow> bool" where
  "holds rs live \<longleftrightarrow> distinct live \<and> (\<forall>a \<in> set live. \<exists>len > 0. (unat a, len) \<in> rs)"

subsection \<open>The contract\<close>

locale allocator =
  fixes inv :: "'s \<Rightarrow> bool"
    and regions :: "'s \<Rightarrow> (nat \<times> nat) set"
    and alloc :: "'n \<Rightarrow> 's \<Rightarrow> (u32 \<times> 's) option"
    and free :: "u32 \<Rightarrow> 's \<Rightarrow> 's option"
    and need :: "'n \<Rightarrow> nat"
  assumes alloc_law: "inv s \<Longrightarrow> \<exists>a s'. alloc n s = Some (a, s') \<and> inv s' \<and>
      (if a = 0 then regions s' = regions s
       else \<exists>len. 0 < len \<and> need n \<le> len \<and> regions s' = insert (unat a, len) (regions s) \<and>
         (\<forall>r \<in> regions s. disjoint_regions r (unat a, len)))"
    and free_law: "inv s \<Longrightarrow> (unat a, len) \<in> regions s \<Longrightarrow>
      \<exists>s'. free a s = Some s' \<and> inv s' \<and> regions s' = regions s - {(unat a, len)}"
begin

lemma holds_alloc:
  assumes "holds (regions s) live" and "0 < len" and "regions s' = insert (unat a, len) (regions s)"
    and "\<forall>r \<in> regions s. disjoint_regions r (unat a, len)"
  shows "holds (regions s') (a # live)"
proof -
  have "a \<notin> set live"
  proof
    assume "a \<in> set live"
    then obtain len' where "0 < len'" "(unat a, len') \<in> regions s" using assms(1) by (auto simp: holds_def)
    with assms(2,4) show False by (force simp: disjoint_regions_def)
  qed
  with assms show ?thesis by (auto simp: holds_def)
qed

lemma holds_free:
  assumes "holds (regions s) live" and "i < length live" and "regions s' = regions s - {(unat (live ! i), len)}"
  shows "holds (regions s') (remove_nth i live)"
proof -
  have split: "live = take i live @ live ! i # drop (Suc i) live" using assms(2) by (rule id_take_nth_drop)
  have "distinct (take i live @ live ! i # drop (Suc i) live)"
    using assms(1) split unfolding holds_def by (simp only:)
  then have "distinct (remove_nth i live)" "live ! i \<notin> set (remove_nth i live)"
    by (simp_all add: remove_nth_def)
  moreover have "set (remove_nth i live) \<subseteq> set live"
    by (auto simp: remove_nth_def dest: in_set_takeD in_set_dropD)
  moreover have "(unat a, n) \<noteq> (unat (live ! i), len)" if "a \<in> set (remove_nth i live)" for a n
    using that \<open>live ! i \<notin> set (remove_nth i live)\<close> by (metis Pair_inject word_unat_eq_iff)
  ultimately show ?thesis using assms(1) unfolding holds_def assms(3) by blast
qed

lemma client_never_aliased:
  "inv s \<Longrightarrow> holds (regions s) live \<Longrightarrow>
     \<exists>live' s'. alloc_run alloc free ops live s = Some (live', s') \<and> inv s' \<and> holds (regions s') live'"
proof (induction ops arbitrary: live s)
  case Nil
  then show ?case by simp
next
  case (Cons opn ops)
  show ?case
  proof (cases opn)
    case (Alloc n)
    obtain a s1 where a: "alloc n s = Some (a, s1)" "inv s1" and
      r: "if a = 0 then regions s1 = regions s
          else \<exists>len. 0 < len \<and> need n \<le> len \<and> regions s1 = insert (unat a, len) (regions s) \<and>
            (\<forall>r \<in> regions s. disjoint_regions r (unat a, len))"
      using alloc_law [OF Cons.prems(1)] by blast
    have "holds (regions s1) (if a = 0 then live else a # live)"
    proof (cases "a = 0")
      case True
      then show ?thesis using r Cons.prems(2) by (simp add: holds_def)
    next
      case False
      then show ?thesis using r holds_alloc [OF Cons.prems(2)] by auto
    qed
    from Cons.IH [OF a(2) this] a(1) Alloc show ?thesis by simp
  next
    case (Free i)
    show ?thesis
    proof (cases "i < length live")
      case True
      then obtain len where "(unat (live ! i), len) \<in> regions s"
        using Cons.prems(2) nth_mem unfolding holds_def by blast
      from free_law [OF Cons.prems(1) this] obtain s1 where
        f: "free (live ! i) s = Some s1" "inv s1" "regions s1 = regions s - {(unat (live ! i), len)}" by blast
      from Cons.IH [OF f(2) holds_free [OF Cons.prems(2) True f(3)]] f(1) Free True show ?thesis by simp
    next
      case False
      with Cons Free show ?thesis by simp
    qed
  qed
qed

end

end
