(* ===== verification/Kernel_Heap.thy ===== *)
theory Kernel_Heap
  imports Kernel_Error Utility Allocator Ring_Queue
begin

text \<open>
  The kernel heap, mmngr_heap.cpp, and the allocation functions of memory.cpp above it. Memory is
  split into the typed headers the code reads and writes (heap masters and block headers, at their
  addresses) and the payload bytes. A header stays where it was written until something else is
  written over it, so a merged block's stale header is still there. Reading a header where none was
  written is \<open>None\<close>.
\<close>

subsection \<open>State\<close>

record heap_block =
  hb_magic :: u16
  hb_used :: bool
  hb_flags :: bool
  hb_next :: ptr

record heap =
  start_address :: virtual_addr
  hp_size :: u32
  current_blocks :: u32

record heap_mem = kerr +
  heaps :: "ptr \<Rightarrow> heap option"
  hblocks :: "ptr \<Rightarrow> heap_block option"
  bytes :: mem

definition HEAP_BLOCK_MAGIC :: u16 where "HEAP_BLOCK_MAGIC = 0x1F2E"
definition HEAP_BAD_MAGIC :: u16 where "HEAP_BAD_MAGIC = 1"
definition HEAP_BAD_ARGUMENT :: u16 where "HEAP_BAD_ARGUMENT = 2"
definition HEAP_OUT_OF_MEMORY :: u16 where "HEAP_OUT_OF_MEMORY = 3"

definition sizeof_heap_block :: u32 where [simp]: "sizeof_heap_block = 8"
definition sizeof_heap :: u32 where [simp]: "sizeof_heap = 12"

subsection \<open>Access to headers\<close>

definition upd_block :: "ptr \<Rightarrow> (heap_block \<Rightarrow> heap_block) \<Rightarrow> 'a heap_mem_scheme \<Rightarrow> 'a heap_mem_scheme option" where
  "upd_block p f s = do { b \<leftarrow> hblocks s p; Some (s\<lparr>hblocks := (hblocks s)(p \<mapsto> f b)\<rparr>) }"

definition upd_heap :: "ptr \<Rightarrow> (heap \<Rightarrow> heap) \<Rightarrow> 'a heap_mem_scheme \<Rightarrow> 'a heap_mem_scheme option" where
  "upd_heap h f s = do { m \<leftarrow> heaps s h; Some (s\<lparr>heaps := (heaps s)(h \<mapsto> f m)\<rparr>) }"

definition overlaps :: "nat \<Rightarrow> nat \<Rightarrow> ptr \<Rightarrow> bool" where
  "overlaps a n p \<longleftrightarrow> a < unat p + 8 \<and> unat p < a + n"

definition put_block :: "ptr \<Rightarrow> heap_block \<Rightarrow> 'a heap_mem_scheme \<Rightarrow> 'a heap_mem_scheme" where
  \<comment> \<open>Writing a header destroys the headers it overlaps.\<close>
  "put_block p b s = s\<lparr>hblocks := (\<lambda>q. if q = p then Some b else if overlaps (unat p) 8 q then None else hblocks s q)\<rparr>"

definition put_bytes :: "u32 \<Rightarrow> u32 \<Rightarrow> u32 \<Rightarrow> 'a heap_mem_scheme \<Rightarrow> 'a heap_mem_scheme" where
  \<comment> \<open>\<^verbatim>\<open>memcpy\<close> into the payload, destroying the headers under it.\<close>
  "put_bytes dest source n s = s\<lparr>bytes := memcpy dest source n (bytes s),
     hblocks := (\<lambda>q. if overlaps (unat dest) (unat n) q then None else hblocks s q)\<rparr>"

subsection \<open>Operations\<close>

definition heap_block_size :: "ptr \<Rightarrow> ptr \<Rightarrow> 'a heap_mem_scheme \<Rightarrow> u32 option" where
  "heap_block_size h b s = do {
     k \<leftarrow> hblocks s b;
     if hb_next k = 0 then do { m \<leftarrow> heaps s h; Some (start_address m + hp_size m - b - sizeof_heap_block) }
     else Some (hb_next k - b - sizeof_heap_block)
   }"

definition heap_block_start_address :: "ptr \<Rightarrow> ptr" where
  "heap_block_start_address b = b + sizeof_heap_block"

definition heap_front_merge_block :: "ptr \<Rightarrow> ptr \<Rightarrow> 'a heap_mem_scheme \<Rightarrow> 'a heap_mem_scheme option" where
  "heap_front_merge_block h b s = do {
     k \<leftarrow> hblocks s b;
     n \<leftarrow> hblocks s (hb_next k);
     s1 \<leftarrow> upd_block b (\<lambda>k. k\<lparr>hb_next := hb_next n\<rparr>) s;
     upd_heap h (\<lambda>m. m\<lparr>current_blocks := current_blocks m - 1\<rparr>) s1
   }"

definition heap_is_next_unused :: "ptr \<Rightarrow> 'a heap_mem_scheme \<Rightarrow> bool option" where
  "heap_is_next_unused prev s = do {
     k \<leftarrow> hblocks s prev;
     if hb_next k \<noteq> 0 then do { n \<leftarrow> hblocks s (hb_next k); Some (\<not> hb_used n) } else Some False
   }"

definition heap_block_create ::
  "ptr \<Rightarrow> ptr \<Rightarrow> bool \<Rightarrow> ptr \<Rightarrow> bool \<Rightarrow> 'a heap_mem_scheme \<Rightarrow> (ptr \<times> 'a heap_mem_scheme) option" where
  \<comment> \<open>The parameter \<^verbatim>\<open>used\<close> is not read.\<close>
  "heap_block_create h base used next' flags s = do {
     let s1 = put_block base \<lparr>hb_magic = HEAP_BLOCK_MAGIC, hb_used = False, hb_flags = flags, hb_next = next'\<rparr> s;
     s2 \<leftarrow> upd_heap h (\<lambda>m. m\<lparr>current_blocks := current_blocks m + 1\<rparr>) s1;
     Some (base, s2)
   }"

partial_function (option) heap_front_merge_size_fit ::
  "ptr \<Rightarrow> ptr \<Rightarrow> u32 \<Rightarrow> 'a heap_mem_scheme \<Rightarrow> (bool \<times> 'a heap_mem_scheme) option" where
  [code]: "heap_front_merge_size_fit h prev r_size s = do {
     k \<leftarrow> hblocks s prev;
     size \<leftarrow> heap_block_size h prev s;
     if hb_next k \<noteq> 0 \<and> r_size > size then do {
       unused \<leftarrow> heap_is_next_unused prev s;
       if unused then do {
         s1 \<leftarrow> heap_front_merge_block h prev s;
         heap_front_merge_size_fit h prev r_size s1
       }
       else Some (r_size \<le> size, s)
     }
     else Some (r_size \<le> size, s)
   }"

definition heap_create :: "virtual_addr \<Rightarrow> u32 \<Rightarrow> 'a heap_mem_scheme \<Rightarrow> (ptr \<times> 'a heap_mem_scheme) option" where
  "heap_create base size' s = do {
     let m = \<lparr>start_address = base + sizeof_heap, hp_size = size' - sizeof_heap, current_blocks = 0\<rparr>;
     let s1 = s\<lparr>heaps := (heaps s)(base \<mapsto> m)\<rparr>;
     (_, s2) \<leftarrow> heap_block_create base (start_address m) False 0 False s1;
     Some (base, s2)
   }"

definition heap_squeeze :: "ptr \<Rightarrow> ptr \<Rightarrow> u32 \<Rightarrow> u32 \<Rightarrow> 'a heap_mem_scheme \<Rightarrow> 'a heap_mem_scheme option" where
  \<comment> \<open>The part of \<^verbatim>\<open>heap_alloc\<close> that squeezes a header into a block that is larger than asked for.\<close>
  "heap_squeeze h block r_size size' s =
     (if r_size + sizeof_heap_block < size' then do {
        k \<leftarrow> hblocks s block;
        (new_block, s2) \<leftarrow> heap_block_create h (block + sizeof_heap_block + r_size) False (hb_next k) (hb_flags k) s;
        upd_block block (\<lambda>k. k\<lparr>hb_next := new_block\<rparr>) s2
      }
      else Some s)"

partial_function (option) heap_alloc_loop ::
  "ptr \<Rightarrow> ptr \<Rightarrow> u32 \<Rightarrow> 'a heap_mem_scheme \<Rightarrow> (ptr \<times> 'a heap_mem_scheme) option" where
  [code]: "heap_alloc_loop h block r_size s =
     (if block = 0 then Some (0, set_last_error ENOMEM HEAP_OUT_OF_MEMORY EO_HMMNGR s)
      else do {
        k \<leftarrow> hblocks s block;
        if hb_magic k \<noteq> HEAP_BLOCK_MAGIC then Some (0, set_last_error EINVAL HEAP_BAD_MAGIC EO_HMMNGR s)
        else if hb_used k then heap_alloc_loop h (hb_next k) r_size s
        else do {
          (fits, s1) \<leftarrow> heap_front_merge_size_fit h block r_size s;
          if fits then do {
            size \<leftarrow> heap_block_size h block s1;
            s3 \<leftarrow> heap_squeeze h block r_size size s1;
            s4 \<leftarrow> upd_block block (\<lambda>k. k\<lparr>hb_used := True\<rparr>) s3;
            Some (heap_block_start_address block, s4)
          }
          else do {
            k1 \<leftarrow> hblocks s1 block;
            heap_alloc_loop h (hb_next k1) r_size s1
          }
        }
      })"

definition heap_alloc :: "ptr \<Rightarrow> u32 \<Rightarrow> 'a heap_mem_scheme \<Rightarrow> (ptr \<times> 'a heap_mem_scheme) option" where
  "heap_alloc h r_size s =
     (if h = 0 \<or> r_size = 0 then Some (0, set_last_error EINVAL HEAP_BAD_ARGUMENT EO_HMMNGR s)
      else do { m \<leftarrow> heaps s h; heap_alloc_loop h (start_address m) r_size s })"

definition heap_free :: "ptr \<Rightarrow> ptr \<Rightarrow> 'a heap_mem_scheme \<Rightarrow> (error_t \<times> 'a heap_mem_scheme) option" where
  "heap_free h address s =
     (if h = 0 \<or> address = 0 then Some (ERROR_OCCUR, set_last_error EINVAL HEAP_BAD_ARGUMENT EO_HMMNGR s)
      else do {
        let block = address - sizeof_heap_block;
        k \<leftarrow> hblocks s block;
        if hb_magic k \<noteq> HEAP_BLOCK_MAGIC then Some (ERROR_OCCUR, set_last_error EINVAL HEAP_BAD_MAGIC EO_HMMNGR s)
        else do {
          s1 \<leftarrow> upd_block block (\<lambda>k. k\<lparr>hb_used := False\<rparr>) s;
          unused \<leftarrow> (if hb_next k \<noteq> 0 then do { n \<leftarrow> hblocks s1 (hb_next k); Some (\<not> hb_used n) } else Some False);
          s2 \<leftarrow> (if unused then heap_front_merge_block h block s1 else Some s1);
          Some (ERROR_OK, s2)
        }
      })"

definition heap_realloc :: "ptr \<Rightarrow> ptr \<Rightarrow> u32 \<Rightarrow> 'a heap_mem_scheme \<Rightarrow> (ptr \<times> 'a heap_mem_scheme) option" where
  "heap_realloc h address new_size s =
     (if h = 0 \<or> address = 0 then Some (0, set_last_error EINVAL HEAP_BAD_ARGUMENT EO_HMMNGR s)
      else do {
        let block = address - sizeof_heap_block;
        k \<leftarrow> hblocks s block;
        if hb_magic k \<noteq> HEAP_BLOCK_MAGIC then Some (0, set_last_error EINVAL HEAP_BAD_MAGIC EO_HMMNGR s)
        else do {
          block_size \<leftarrow> heap_block_size h block s;
          if block_size = new_size then Some (address, s)
          else do {
            (new_addr, s1) \<leftarrow> heap_alloc h new_size s;
            if new_addr = 0 then Some (0, s1)
            else do {
              let s2 = put_bytes new_addr address (if block_size < new_size then block_size else new_size) s1;
              (e, s3) \<leftarrow> heap_free h address s2;
              if e \<noteq> ERROR_OK then Some (0, s3) else Some (new_addr, s3)
            }
          }
        }
      })"

partial_function (option) heap_defrag_loop ::
  "ptr \<Rightarrow> ptr \<Rightarrow> u32 \<Rightarrow> 'a heap_mem_scheme \<Rightarrow> (u32 \<times> 'a heap_mem_scheme) option" where
  [code]: "heap_defrag_loop h block blocks_merged s =
     (if block = 0 then Some (blocks_merged, s)
      else do {
        k \<leftarrow> hblocks s block;
        merge \<leftarrow> (if \<not> hb_used k then heap_is_next_unused block s else Some False);
        if merge then do {
          s1 \<leftarrow> heap_front_merge_block h block s;
          heap_defrag_loop h block (blocks_merged + 1) s1
        }
        else heap_defrag_loop h (hb_next k) blocks_merged s
      })"

definition heap_defrag :: "ptr \<Rightarrow> 'a heap_mem_scheme \<Rightarrow> (u32 \<times> 'a heap_mem_scheme) option" where
  "heap_defrag h s =
     (if h = 0 then Some (0, set_last_error EINVAL HEAP_BAD_ARGUMENT EO_HMMNGR s)
      else do { m \<leftarrow> heaps s h; heap_defrag_loop h (start_address m) 0 s })"

subsection \<open>memory.cpp\<close>

record kernel_mem = heap_mem +
  kernel_heap :: ptr
  in_critical_section :: u32

definition malloc :: "u32 \<Rightarrow> kernel_mem \<Rightarrow> (ptr \<times> kernel_mem) option" where
  "malloc size' s = do {
     let s1 = s\<lparr>in_critical_section := critlock_acquire (in_critical_section s)\<rparr>;
     (addr, s2) \<leftarrow> heap_alloc (kernel_heap s1) size' s1;
     Some (addr, s2\<lparr>in_critical_section := critlock_release (in_critical_section s2)\<rparr>)
   }"

definition calloc :: "u32 \<Rightarrow> kernel_mem \<Rightarrow> (ptr \<times> kernel_mem) option" where
  \<comment> \<open>The result of \<^verbatim>\<open>malloc\<close> is not tested: with no memory left the zeroes go through the null pointer.\<close>
  "calloc size' s = do {
     (p, s1) \<leftarrow> malloc size' s;
     if p = 0 \<and> size' \<noteq> 0 then None
     else Some (p, s1\<lparr>bytes := memset p 0 size' (bytes s1),
       hblocks := (\<lambda>q. if overlaps (unat p) (unat size') q then None else hblocks s1 q)\<rparr>)
   }"

definition free :: "ptr \<Rightarrow> kernel_mem \<Rightarrow> (error_t \<times> kernel_mem) option" where
  "free p s = do {
     let s1 = s\<lparr>in_critical_section := critlock_acquire (in_critical_section s)\<rparr>;
     (res, s2) \<leftarrow> heap_free (kernel_heap s1) p s1;
     Some (res, s2\<lparr>in_critical_section := critlock_release (in_critical_section s2)\<rparr>)
   }"

definition realloc :: "ptr \<Rightarrow> u32 \<Rightarrow> kernel_mem \<Rightarrow> (ptr \<times> kernel_mem) option" where
  "realloc p new_size s = do {
     let s1 = s\<lparr>in_critical_section := critlock_acquire (in_critical_section s)\<rparr>;
     (addr, s2) \<leftarrow> heap_realloc (kernel_heap s1) p new_size s1;
     Some (addr, s2\<lparr>in_critical_section := critlock_release (in_critical_section s2)\<rparr>)
   }"

subsection \<open>The chain of blocks\<close>

fun hchain :: "(ptr \<Rightarrow> heap_block option) \<Rightarrow> ptr \<Rightarrow> ptr list \<Rightarrow> ptr \<Rightarrow> bool" where
  "hchain hb p [] q \<longleftrightarrow> p = q"
| "hchain hb p (b # bs) q \<longleftrightarrow> p = b \<and> b \<noteq> 0 \<and>
     (case hb b of None \<Rightarrow> False | Some k \<Rightarrow> hb_magic k = HEAP_BLOCK_MAGIC \<and> hchain hb (hb_next k) bs q)"

definition bend :: "nat \<Rightarrow> ptr list \<Rightarrow> nat" where
  \<comment> \<open>Where a block ends: at the next block or at the end \<open>e\<close> of the heap.\<close>
  "bend e bs = (case bs of [] \<Rightarrow> e | c # _ \<Rightarrow> unat c)"

fun layout :: "nat \<Rightarrow> ptr list \<Rightarrow> bool" where
  "layout e [] \<longleftrightarrow> True"
| "layout e (b # bs) \<longleftrightarrow> unat b + 8 \<le> bend e bs \<and> layout e bs"

definition bsize :: "nat \<Rightarrow> ptr \<Rightarrow> ptr list \<Rightarrow> nat" where
  "bsize e b cs = bend e cs - (unat b + 8)"

definition hend :: "ptr \<Rightarrow> 'a heap_mem_scheme \<Rightarrow> nat" where
  "hend h s = (case heaps s h of None \<Rightarrow> 0 | Some m \<Rightarrow> unat (start_address m) + unat (hp_size m))"

definition heap_ok :: "ptr \<Rightarrow> 'a heap_mem_scheme \<Rightarrow> ptr list \<Rightarrow> bool" where
  "heap_ok h s bs \<longleftrightarrow> h \<noteq> 0 \<and> bs \<noteq> [] \<and> (\<exists>m. heaps s h = Some m \<and> hchain (hblocks s) (start_address m) bs 0 \<and>
     unat (current_blocks m) = length bs) \<and> hend h s < 2 ^ 32 \<and> layout (hend h s) bs"

definition is_used :: "(ptr \<Rightarrow> heap_block option) \<Rightarrow> ptr \<Rightarrow> bool" where
  "is_used hb b = (case hb b of None \<Rightarrow> False | Some k \<Rightarrow> hb_used k)"

fun used_regions :: "nat \<Rightarrow> (ptr \<Rightarrow> heap_block option) \<Rightarrow> ptr list \<Rightarrow> (nat \<times> nat) set" where
  "used_regions e hb [] = {}"
| "used_regions e hb (b # bs) = (if is_used hb b then {(unat b + 8, bsize e b bs)} else {}) \<union> used_regions e hb bs"

lemma hchain_Cons [simp]: "hchain hb p (b # bs) q \<longleftrightarrow> p = b \<and> b \<noteq> 0 \<and>
    (\<exists>k. hb b = Some k \<and> hb_magic k = HEAP_BLOCK_MAGIC \<and> hchain hb (hb_next k) bs q)"
  by (auto split: option.splits)

declare hchain.simps(2) [simp del]

lemma hchain_append [simp]: "hchain hb p (xs @ ys) q \<longleftrightarrow> (\<exists>r. hchain hb p xs r \<and> hchain hb r ys q)"
  by (induction xs arbitrary: p; force)

lemma hchain_cong: "(\<And>b. b \<in> set bs \<Longrightarrow> hb' b = hb b) \<Longrightarrow> hchain hb' p bs q = hchain hb p bs q"
  by (induction bs arbitrary: p) auto

lemma hchain_upd [simp]: "b \<notin> set bs \<Longrightarrow> hchain (hb(b := v)) p bs q = hchain hb p bs q"
  by (rule hchain_cong) auto

lemma hchain_hd: "hchain hb p bs 0 \<Longrightarrow> p = (case bs of [] \<Rightarrow> 0 | b # _ \<Rightarrow> b)"
  by (cases bs) auto

lemma bend_simps [simp]: "bend e [] = e" "bend e (c # cs) = unat c"
  by (simp_all add: bend_def)

lemma bend_append: "bend e (xs @ b # ys) = bend (unat b) xs"
  by (cases xs) auto

lemma layout_append [simp]: "layout e (xs @ b # ys) \<longleftrightarrow> layout (unat b) xs \<and> layout e (b # ys)"
  by (induction xs) (auto simp: bend_append)

lemma layout_le: "layout e bs \<Longrightarrow> b \<in> set bs \<Longrightarrow> unat b + 8 \<le> e"
proof (induction bs arbitrary: b)
  case (Cons c bs)
  show ?case
  proof (cases bs)
    case (Cons a as)
    with Cons.IH [of a] Cons.IH [of b] Cons.prems show ?thesis by auto
  qed (use Cons.prems in simp)
qed simp

lemma layout_ge: "layout e (b # bs) \<Longrightarrow> c \<in> set bs \<Longrightarrow> unat b + 8 \<le> unat c"
proof (induction bs arbitrary: b)
  case (Cons d bs)
  then show ?case by (cases "c = d") fastforce+
qed simp

lemma layout_bend: "layout e (b # bs) \<Longrightarrow> bend e bs \<le> e"
  using layout_le [of e bs "hd bs"] by (cases bs) auto

lemma layout_length: "layout e bs \<Longrightarrow> 8 * length bs \<le> e"
proof (induction bs arbitrary: e rule: rev_induct)
  case (snoc x xs)
  then have "8 * length xs \<le> unat x" "unat x + 8 \<le> e" by auto
  then show ?case by simp
qed simp

lemma used_regions_append [simp]:
  "used_regions e hb (xs @ b # ys) = used_regions (unat b) hb xs \<union> used_regions e hb (b # ys)"
  by (induction xs) (auto simp: bsize_def bend_append)

lemma used_regions_cong:
  "(\<And>b. b \<in> set bs \<Longrightarrow> is_used hb' b = is_used hb b) \<Longrightarrow> used_regions e hb' bs = used_regions e hb bs"
  by (induction bs) auto

lemma used_regions_le: "layout e bs \<Longrightarrow> (a, n) \<in> used_regions e hb bs \<Longrightarrow> a + n \<le> e"
proof (induction bs)
  case (Cons b bs)
  then show ?case using layout_bend [of e b bs] by (auto simp: bsize_def split: if_splits)
qed simp

lemma used_regions_ge: "layout e (b # bs) \<Longrightarrow> (a, n) \<in> used_regions e hb bs \<Longrightarrow> bend e bs + 8 \<le> a"
proof (induction bs arbitrary: b)
  case (Cons c bs)
  then show ?case by (cases bs) (fastforce split: if_splits)+
qed simp

text \<open>What the invariant says about one block of the heap.\<close>

lemma heap_okD:
  assumes "heap_ok h s (pre @ b # cs)"
  obtains k m where "heaps s h = Some m" and "hblocks s b = Some k" and "hb_magic k = HEAP_BLOCK_MAGIC"
    and "hchain (hblocks s) (start_address m) pre b" and "hchain (hblocks s) (hb_next k) cs 0"
    and "hb_next k = (case cs of [] \<Rightarrow> 0 | c # _ \<Rightarrow> c)" and "b \<noteq> 0" and "h \<noteq> 0"
    and "unat (current_blocks m) = length pre + length cs + 1" and "hend h s = unat (start_address m) + unat (hp_size m)"
proof -
  obtain m where m: "heaps s h = Some m" "hchain (hblocks s) (start_address m) (pre @ b # cs) 0"
      "unat (current_blocks m) = length (pre @ b # cs)" "h \<noteq> 0"
    using assms by (auto simp: heap_ok_def)
  then obtain k where "hblocks s b = Some k" "hb_magic k = HEAP_BLOCK_MAGIC" "b \<noteq> 0"
      "hchain (hblocks s) (start_address m) pre b" "hchain (hblocks s) (hb_next k) cs 0" by auto
  with m hchain_hd [of "hblocks s" "hb_next k" cs] show thesis
    by (intro that) (auto simp: hend_def)
qed

lemma heap_ok_layout:
  assumes "heap_ok h s (pre @ b # cs)"
  shows "layout (unat b) pre" and "layout (hend h s) (b # cs)" and "hend h s < 2 ^ 32"
    and "b \<notin> set pre" and "b \<notin> set cs"
proof -
  show l: "layout (unat b) pre" "layout (hend h s) (b # cs)" "hend h s < 2 ^ 32"
    using assms by (auto simp: heap_ok_def)
  show "b \<notin> set pre" using layout_le [OF l(1), of b] by auto
  show "b \<notin> set cs" using layout_ge [OF l(2), of b] by auto
qed

lemma heap_block_size_ok:
  assumes "heap_ok h s (pre @ b # cs)"
  shows "\<exists>sz. heap_block_size h b s = Some sz \<and> unat sz = bsize (hend h s) b cs"
proof -
  obtain k m where f: "heaps s h = Some m" "hblocks s b = Some k" "hb_next k = (case cs of [] \<Rightarrow> 0 | c # _ \<Rightarrow> c)"
      "hchain (hblocks s) (hb_next k) cs 0" "hend h s = unat (start_address m) + unat (hp_size m)"
    using heap_okD [OF assms] by metis
  note l = heap_ok_layout [OF assms]
  have le: "unat b + 8 \<le> bend (hend h s) cs" using l(2) by simp
  have sub: "unat (x - b - 8) = unat x - unat b - 8" if "unat b + 8 \<le> unat x" for x :: u32
  proof -
    have "unat (x - b) = unat x - unat b" using that by (intro unat_sub_le) simp
    then show ?thesis using that by (subst unat_sub_le) simp_all
  qed
  show ?thesis
  proof (cases cs)
    case Nil
    have "unat (start_address m + hp_size m) = hend h s"
      using f(5) l(3) by (subst unat_add_no_wrap) simp_all
    then show ?thesis
      using f Nil le sub [of "start_address m + hp_size m"] by (simp add: heap_block_size_def bsize_def)
  next
    case (Cons c cs')
    then have "c \<noteq> 0" using f(3,4) by simp
    then show ?thesis using f Cons le sub [of c] by (simp add: heap_block_size_def bsize_def)
  qed
qed

subsection \<open>Merging and splitting blocks\<close>

definition same_heap :: "ptr \<Rightarrow> 'a heap_mem_scheme \<Rightarrow> 'a heap_mem_scheme \<Rightarrow> bool" where
  \<comment> \<open>Only headers, block count and error word may differ.\<close>
  "same_heap h s s' \<longleftrightarrow> hend h s' = hend h s \<and>
     s' = s\<lparr>last_error := last_error s', heaps := heaps s', hblocks := hblocks s'\<rparr>"

lemma same_heap_refl [simp]: "same_heap h s s"
  by (simp add: same_heap_def)

lemma same_heap_trans: "same_heap h s t \<Longrightarrow> same_heap h t u \<Longrightarrow> same_heap h s u"
  by (cases s; cases t; cases u) (auto simp: same_heap_def)

lemma same_heap_error [simp]: "same_heap h s (set_last_error b x c s)"
  by (simp add: same_heap_def set_last_error_def hend_def)

lemma same_heap_bytes: "same_heap h s s' \<Longrightarrow> bytes s' = bytes s \<and> hend h s' = hend h s"
  by (cases s; cases s') (auto simp: same_heap_def)

lemma heap_front_merge_block_ok:
  assumes ok: "heap_ok h s (pre @ b # c # cs)"
  shows "\<exists>s'. heap_front_merge_block h b s = Some s' \<and> heap_ok h s' (pre @ b # cs) \<and> same_heap h s s' \<and>
    (\<forall>p. is_used (hblocks s') p = is_used (hblocks s) p)"
proof -
  obtain k m where f: "heaps s h = Some m" "hblocks s b = Some k" "hb_magic k = HEAP_BLOCK_MAGIC"
      "hchain (hblocks s) (start_address m) pre b" "hchain (hblocks s) (hb_next k) (c # cs) 0" "b \<noteq> 0" "h \<noteq> 0"
      "unat (current_blocks m) = length pre + length (c # cs) + 1" "hend h s = unat (start_address m) + unat (hp_size m)"
    using heap_okD [OF ok] by metis
  obtain n where n: "hblocks s c = Some n" "hchain (hblocks s) (hb_next n) cs 0" "hb_next k = c"
    using f(5) by auto
  note l = heap_ok_layout [OF ok]
  let ?hb = "(hblocks s)(b \<mapsto> k\<lparr>hb_next := hb_next n\<rparr>)" and ?m = "m\<lparr>current_blocks := current_blocks m - 1\<rparr>"
  let ?s' = "s\<lparr>hblocks := ?hb, heaps := (heaps s)(h \<mapsto> ?m)\<rparr>"
  have "heap_front_merge_block h b s = Some ?s'"
    using f(1,2) n by (simp add: heap_front_merge_block_def upd_block_def upd_heap_def)
  moreover have e: "hend h ?s' = hend h s" using f(1,9) by (simp add: hend_def)
  moreover have "unat (current_blocks m - 1) = length pre + length cs + 1"
    using unat_pred_length [of "current_blocks m" "length pre + length cs + 1"] f(8) by simp
  moreover have "layout (hend h s) (pre @ b # cs)"
    using l(1,2) by (cases cs) auto
  moreover have "b \<notin> set pre" "b \<notin> set cs" using l(4,5) by auto
  ultimately have "heap_ok h ?s' (pre @ b # cs)"
    using f n l(3) by (simp add: heap_ok_def)
  moreover have "same_heap h s ?s'" using e by (simp add: same_heap_def)
  moreover have "\<forall>p. is_used (hblocks ?s') p = is_used (hblocks s) p"
    using f(2) by (auto simp: is_used_def)
  ultimately show ?thesis using \<open>heap_front_merge_block h b s = Some ?s'\<close> by blast
qed

lemma heap_is_next_unused_ok:
  assumes ok: "heap_ok h s (pre @ b # cs)"
  shows "heap_is_next_unused b s = Some (cs \<noteq> [] \<and> \<not> is_used (hblocks s) (hd cs))"
proof -
  obtain k where "hblocks s b = Some k" "hchain (hblocks s) (hb_next k) cs 0" using heap_okD [OF ok] by metis
  then show ?thesis by (cases cs) (auto simp: heap_is_next_unused_def is_used_def)
qed

text \<open>The fit loop absorbs \<open>k\<close> unused blocks and stops when the block is large enough or cannot grow.\<close>

lemma heap_front_merge_size_fit_ok:
  assumes "heap_ok h s (pre @ b # cs)"
  shows "\<exists>k s'. heap_front_merge_size_fit h b r s = Some (unat r \<le> bsize (hend h s) b (drop k cs), s') \<and>
    heap_ok h s' (pre @ b # drop k cs) \<and> same_heap h s s' \<and> (\<forall>c \<in> set (take k cs). \<not> is_used (hblocks s) c) \<and>
    (\<forall>p. is_used (hblocks s') p = is_used (hblocks s) p) \<and>
    (unat r \<le> bsize (hend h s) b (drop k cs) \<or> drop k cs = [] \<or> is_used (hblocks s) (hd (drop k cs)))"
  using assms
proof (induction cs arbitrary: s)
  case Nil
  obtain sz where sz: "heap_block_size h b s = Some sz" "unat sz = bsize (hend h s) b []"
    using heap_block_size_ok [OF Nil] by blast
  obtain k where "hblocks s b = Some k" "hb_next k = 0" using heap_okD [OF Nil] by (metis list.case(1))
  then show ?case
    using sz Nil by (auto simp: heap_front_merge_size_fit.simps [of h b r s] word_le_nat_alt)
next
  case (Cons c cs)
  obtain sz where sz: "heap_block_size h b s = Some sz" "unat sz = bsize (hend h s) b (c # cs)"
    using heap_block_size_ok [OF Cons.prems] by blast
  obtain k where k: "hblocks s b = Some k" "hb_next k = c" "c \<noteq> 0"
    using heap_okD [OF Cons.prems] by (metis hchain_Cons list.case(2))
  note unf = heap_front_merge_size_fit.simps [of h b r s]
  have stop: ?case if "heap_front_merge_size_fit h b r s = Some (r \<le> sz, s)"
      "r \<le> sz \<or> is_used (hblocks s) c"
    using that sz Cons.prems by (intro exI [of _ 0] exI [of _ s]) (auto simp: word_le_nat_alt)
  show ?case
  proof (cases "r \<le> sz")
    case True
    then have "\<not> sz < r" by simp
    with True show ?thesis using k sz by (intro stop) (simp_all add: unf)
  next
    case False
    then have big: "\<not> r \<le> sz" "sz < r" by simp_all
    show ?thesis
    proof (cases "is_used (hblocks s) c")
      case True
      then show ?thesis
        using k sz big heap_is_next_unused_ok [OF Cons.prems] by (intro stop) (simp_all add: unf)
    next
      case False
      obtain s1 where s1: "heap_front_merge_block h b s = Some s1" "heap_ok h s1 (pre @ b # cs)" "same_heap h s s1"
          "\<forall>p. is_used (hblocks s1) p = is_used (hblocks s) p"
        using heap_front_merge_block_ok [OF Cons.prems] by blast
      have loop: "heap_front_merge_size_fit h b r s = heap_front_merge_size_fit h b r s1"
        using k sz big False s1(1) heap_is_next_unused_ok [OF Cons.prems] by (simp add: unf)
      have e: "hend h s1 = hend h s" using s1(3) by (simp add: same_heap_def)
      obtain j s' where IH: "heap_front_merge_size_fit h b r s1 = Some (unat r \<le> bsize (hend h s1) b (drop j cs), s')"
          "heap_ok h s' (pre @ b # drop j cs)" "same_heap h s1 s'" "\<forall>c \<in> set (take j cs). \<not> is_used (hblocks s1) c"
          "\<forall>p. is_used (hblocks s') p = is_used (hblocks s1) p"
          "unat r \<le> bsize (hend h s1) b (drop j cs) \<or> drop j cs = [] \<or> is_used (hblocks s1) (hd (drop j cs))"
        using Cons.IH [OF s1(2)] by blast
      show ?thesis
        using IH loop s1(3,4) False e same_heap_trans [OF s1(3) IH(3)]
        by (intro exI [of _ "Suc j"] exI [of _ s']) simp
    qed
  qed
qed

lemma set_used_ok:
  assumes ok: "heap_ok h s (pre @ b # cs)"
  shows "\<exists>s'. upd_block b (\<lambda>k. k\<lparr>hb_used := u\<rparr>) s = Some s' \<and> heap_ok h s' (pre @ b # cs) \<and> same_heap h s s' \<and>
    (\<forall>p. is_used (hblocks s') p = (if p = b then u else is_used (hblocks s) p)) \<and>
    (\<exists>k. hblocks s b = Some k \<and> hblocks s' = (hblocks s)(b \<mapsto> k\<lparr>hb_used := u\<rparr>) \<and> heaps s' = heaps s)"
proof -
  obtain k m where f: "heaps s h = Some m" "hblocks s b = Some k" "hb_magic k = HEAP_BLOCK_MAGIC"
      "hchain (hblocks s) (start_address m) pre b" "hchain (hblocks s) (hb_next k) cs 0" "b \<noteq> 0" "h \<noteq> 0"
      "unat (current_blocks m) = length pre + length cs + 1"
    using heap_okD [OF ok] by metis
  let ?s' = "s\<lparr>hblocks := (hblocks s)(b \<mapsto> k\<lparr>hb_used := u\<rparr>)\<rparr>"
  have e: "hend h ?s' = hend h s" by (simp add: hend_def)
  note l = heap_ok_layout [OF ok]
  have "heap_ok h ?s' (pre @ b # cs)" using f e l by (simp add: heap_ok_def)
  moreover have "same_heap h s ?s'" using e by (simp add: same_heap_def)
  moreover have "upd_block b (\<lambda>k. k\<lparr>hb_used := u\<rparr>) s = Some ?s'" using f by (simp add: upd_block_def)
  ultimately show ?thesis using f(2) by (intro exI [of _ ?s']) (auto simp: is_used_def)
qed

text \<open>Squeezing a new unused header into the tail of a block.\<close>

lemma split_ok:
  assumes ok: "heap_ok h s (pre @ b # cs)" and room: "unat r + 8 < bsize (hend h s) b cs" and k: "hblocks s b = Some k"
  shows "\<exists>s2 s3 n. heap_block_create h (b + 8 + r) False (hb_next k) (hb_flags k) s = Some (n, s2) \<and>
    upd_block b (\<lambda>k. k\<lparr>hb_next := n\<rparr>) s2 = Some s3 \<and> heap_ok h s3 (pre @ b # n # cs) \<and> same_heap h s s3 \<and>
    unat n = unat b + 8 + unat r \<and> \<not> is_used (hblocks s3) n \<and>
    (\<forall>p \<in> set (pre @ b # cs). is_used (hblocks s3) p = is_used (hblocks s) p)"
proof -
  obtain m where f: "heaps s h = Some m" "hb_magic k = HEAP_BLOCK_MAGIC"
      "hchain (hblocks s) (start_address m) pre b" "hchain (hblocks s) (hb_next k) cs 0" "b \<noteq> 0" "h \<noteq> 0"
      "unat (current_blocks m) = length pre + length cs + 1" "hend h s = unat (start_address m) + unat (hp_size m)"
    using heap_okD [OF ok] k by (metis option.inject)
  note l = heap_ok_layout [OF ok]
  define n where "n = b + 8 + r"
  have fits: "unat b + 8 + unat r + 8 < bend (hend h s) cs" using room by (simp add: bsize_def)
  also have be: "bend (hend h s) cs \<le> hend h s" using l(2) by (rule layout_bend)
  finally have small: "unat b + 8 + unat r + 8 < 2 ^ 32" using l(3) by simp
  have un: "unat n = unat b + 8 + unat r"
    unfolding n_def using small by (subst unat_add_no_wrap; simp add: unat_add_no_wrap)+
  have pre_lt: "unat c + 8 \<le> unat b" if "c \<in> set pre" for c using layout_le [OF l(1) that] .
  have cs_ge: "unat n + 8 \<le> unat c" if "c \<in> set cs" for c
  proof (cases cs)
    case (Cons d ds)
    then have nd: "unat n + 8 < unat d" using fits un by simp
    show ?thesis
    proof (cases "c = d")
      case False
      then have "unat d + 8 \<le> unat c" using layout_ge [of _ d ds c] l(2) that Cons by auto
      with nd show ?thesis by simp
    qed (use nd in simp)
  qed (use that in simp)
  have nz: "n \<noteq> 0" using un by auto
  have keep: "\<not> overlaps (unat n) 8 c \<and> c \<noteq> n" if "c \<in> set (pre @ b # cs)" for c
    using that pre_lt cs_ge un by (fastforce simp: overlaps_def)
  let ?blk = "\<lparr>hb_magic = HEAP_BLOCK_MAGIC, hb_used = False, hb_flags = hb_flags k, hb_next = hb_next k\<rparr>"
  define hb1 where "hb1 = (\<lambda>q. if q = n then Some ?blk else if overlaps (unat n) 8 q then None else hblocks s q)"
  have hb1: "hb1 c = hblocks s c" if "c \<in> set (pre @ b # cs)" for c using keep [OF that] by (simp add: hb1_def)
  define m2 where "m2 = m\<lparr>current_blocks := current_blocks m + 1\<rparr>"
  define s2 where "s2 = s\<lparr>hblocks := hb1, heaps := (heaps s)(h \<mapsto> m2)\<rparr>"
  define s3 where "s3 = s2\<lparr>hblocks := hb1(b \<mapsto> k\<lparr>hb_next := n\<rparr>)\<rparr>"
  have create: "heap_block_create h (b + 8 + r) False (hb_next k) (hb_flags k) s = Some (n, s2)"
    using f(1) unfolding n_def [symmetric]
    by (simp add: heap_block_create_def put_block_def upd_heap_def s2_def m2_def hb1_def)
  have bk: "hb1 b = Some k" using hb1 [of b] k by simp
  then have link: "upd_block b (\<lambda>k. k\<lparr>hb_next := n\<rparr>) s2 = Some s3" by (simp add: upd_block_def s2_def s3_def)
  have e: "hend h s3 = hend h s" using f(1,8) by (simp add: s3_def s2_def m2_def hend_def)
  have chains: "hchain hb1 (start_address m) pre b" "hchain hb1 (hb_next k) cs 0"
    using f(3,4) hchain_cong [of pre hb1 "hblocks s"] hchain_cong [of cs hb1 "hblocks s"] hb1 by auto
  have "n \<noteq> b" "b \<notin> set pre" "b \<notin> set cs" using un l(4,5) by auto
  have cnt: "unat (current_blocks m + 1) = length pre + length cs + 2"
  proof -
    have "length (pre @ b # cs) < 2 ^ 29"
    proof -
      have "layout (hend h s) (pre @ b # cs)" using l by simp
      then have "8 * length (pre @ b # cs) \<le> hend h s" by (rule layout_length)
      then show ?thesis using l(3) by simp
    qed
    then show ?thesis using f(7) by (subst unat_suc_u32) simp_all
  qed
  have lay: "layout (hend h s) (b # n # cs)" using l(2) fits un by simp
  have "heap_ok h s3 (pre @ b # n # cs)"
    unfolding heap_ok_def e
    using f(1,2,5,6) chains \<open>n \<noteq> b\<close> \<open>b \<notin> set pre\<close> \<open>b \<notin> set cs\<close> cnt lay l(1,3) nz bk
    by (simp add: s3_def s2_def m2_def) (simp add: hb1_def)
  moreover have "same_heap h s s3" using e by (simp add: same_heap_def s3_def s2_def)
  moreover have "\<not> is_used (hblocks s3) n" using \<open>n \<noteq> b\<close> by (simp add: is_used_def s3_def hb1_def)
  moreover have "\<forall>p \<in> set (pre @ b # cs). is_used (hblocks s3) p = is_used (hblocks s) p"
    using hb1 k by (auto simp: is_used_def s3_def)
  ultimately show ?thesis using create link un by blast
qed

subsection \<open>Allocation\<close>

fun no_fit :: "nat \<Rightarrow> (ptr \<Rightarrow> heap_block option) \<Rightarrow> nat \<Rightarrow> ptr list \<Rightarrow> bool" where
  \<comment> \<open>Every unused block is too small and followed by a used one.\<close>
  "no_fit e hb r [] \<longleftrightarrow> True"
| "no_fit e hb r (b # bs) \<longleftrightarrow> (is_used hb b \<or> bsize e b bs < r \<and> (bs = [] \<or> is_used hb (hd bs))) \<and> no_fit e hb r bs"

lemma used_regions_drop:
  "\<forall>c \<in> set (take k cs). \<not> is_used hb c \<Longrightarrow> used_regions e hb (drop k cs) = used_regions e hb cs"
proof (induction cs arbitrary: k)
  case (Cons c cs)
  then show ?case by (cases k) auto
qed simp

lemma regions_disjoint:
  assumes "layout e (pre @ b # cs)" and "unat b + 8 + len \<le> bend e cs"
    and "q \<in> used_regions (unat b) hb pre \<union> used_regions e hb cs"
  shows "disjoint_regions q (unat b + 8, len)"
proof (cases q)
  case (Pair a n)
  have l: "layout (unat b) pre" "layout e (b # cs)" using assms(1) by simp_all
  from assms(3) Pair have "a + n \<le> unat b \<or> bend e cs + 8 \<le> a"
    using used_regions_le [OF l(1), of a n hb] used_regions_ge [OF l(2), of a n hb] by auto
  then show ?thesis using Pair assms(2) by (auto simp: disjoint_regions_def)
qed

text \<open>Taking the block \<open>b\<close> that fits.\<close>

lemma alloc_place_ok:
  assumes ok: "heap_ok h s (pre @ b # cs)" and unused: "\<not> is_used (hblocks s) b" and fits: "unat r \<le> bsize (hend h s) b cs"
  shows "\<exists>size s3 s4 bs' len. heap_block_size h b s = Some size \<and>
    heap_squeeze h b r size s = Some s3 \<and>
    upd_block b (\<lambda>k. k\<lparr>hb_used := True\<rparr>) s3 = Some s4 \<and> heap_ok h s4 bs' \<and> same_heap h s s4 \<and> unat r \<le> len \<and>
    used_regions (hend h s) (hblocks s4) bs' = insert (unat b + 8, len) (used_regions (hend h s) (hblocks s) (pre @ b # cs)) \<and>
    (\<forall>q \<in> used_regions (hend h s) (hblocks s) (pre @ b # cs). disjoint_regions q (unat b + 8, len)) \<and>
    unat b + 8 + len \<le> hend h s"
proof -
  obtain sz where sz: "heap_block_size h b s = Some sz" "unat sz = bsize (hend h s) b cs"
    using heap_block_size_ok [OF ok] by blast
  obtain k where k: "hblocks s b = Some k" using heap_okD [OF ok] by metis
  note l = heap_ok_layout [OF ok]
  have lay: "layout (hend h s) (pre @ b # cs)" using l by simp
  have be: "unat b + 8 \<le> bend (hend h s) cs" "bend (hend h s) cs \<le> hend h s"
    using l(2) layout_bend [OF l(2)] by simp_all
  have old: "used_regions (hend h s) (hblocks s) (pre @ b # cs) =
      used_regions (unat b) (hblocks s) pre \<union> used_regions (hend h s) (hblocks s) cs"
    using unused by simp
  have small: "unat r + 8 < 2 ^ 32"
    using fits be l(3) by (simp add: bsize_def)
  have ur: "unat (r + 8) = unat r + 8" using small by (subst unat_add_no_wrap) simp_all
  show ?thesis
  proof (cases "r + 8 < sz")
    case True
    then have room: "unat r + 8 < bsize (hend h s) b cs" using ur sz by (simp add: word_less_nat_alt)
    obtain s2 s3 n where n: "heap_block_create h (b + 8 + r) False (hb_next k) (hb_flags k) s = Some (n, s2)"
        "upd_block b (\<lambda>k. k\<lparr>hb_next := n\<rparr>) s2 = Some s3" "heap_ok h s3 (pre @ b # n # cs)" "same_heap h s s3"
        "unat n = unat b + 8 + unat r" "\<not> is_used (hblocks s3) n"
        "\<forall>p \<in> set (pre @ b # cs). is_used (hblocks s3) p = is_used (hblocks s) p"
      using split_ok [OF ok room k] by blast
    obtain s4 where s4: "upd_block b (\<lambda>k. k\<lparr>hb_used := True\<rparr>) s3 = Some s4" "heap_ok h s4 (pre @ b # n # cs)"
        "same_heap h s3 s4" "\<forall>p. is_used (hblocks s4) p = (if p = b then True else is_used (hblocks s3) p)"
      using set_used_ok [OF n(3), of True] by blast
    have nb: "n \<noteq> b" using n(5) by auto
    have rest: "used_regions (unat b) (hblocks s4) pre = used_regions (unat b) (hblocks s) pre"
        "used_regions (hend h s) (hblocks s4) cs = used_regions (hend h s) (hblocks s) cs"
      by (rule used_regions_cong; use s4(4) n(7) l(4,5) in auto)+
    have "is_used (hblocks s4) b" "\<not> is_used (hblocks s4) n" using s4(4) n(6) nb by simp_all
    then have "used_regions (hend h s) (hblocks s4) (pre @ b # n # cs) =
        insert (unat b + 8, unat r) (used_regions (unat b) (hblocks s) pre \<union> used_regions (hend h s) (hblocks s) cs)"
      using rest n(5) by (simp add: bsize_def)
    moreover have "\<forall>q \<in> used_regions (hend h s) (hblocks s) (pre @ b # cs). disjoint_regions q (unat b + 8, unat r)"
      using room unfolding old by (intro ballI regions_disjoint [OF lay]) (simp_all add: bsize_def)
    moreover have "unat b + 8 + unat r \<le> hend h s" using room be(2) by (simp add: bsize_def)
    moreover have "heap_squeeze h b r sz s = Some s3"
      using True k n(1,2) by (simp add: heap_squeeze_def)
    ultimately show ?thesis
      using sz(1) s4(1,2) same_heap_trans [OF n(4) s4(3)] unfolding old
      by (intro exI [of _ sz] exI [of _ s3] exI [of _ s4] exI [of _ "pre @ b # n # cs"] exI [of _ "unat r"] conjI) simp_all
  next
    case False
    obtain s4 where s4: "upd_block b (\<lambda>k. k\<lparr>hb_used := True\<rparr>) s = Some s4" "heap_ok h s4 (pre @ b # cs)"
        "same_heap h s s4" "\<forall>p. is_used (hblocks s4) p = (if p = b then True else is_used (hblocks s) p)"
      using set_used_ok [OF ok, of True] by blast
    have rest: "used_regions (unat b) (hblocks s4) pre = used_regions (unat b) (hblocks s) pre"
        "used_regions (hend h s) (hblocks s4) cs = used_regions (hend h s) (hblocks s) cs"
      by (rule used_regions_cong; use s4(4) l(4,5) in auto)+
    have "is_used (hblocks s4) b" using s4(4) by simp
    then have "used_regions (hend h s) (hblocks s4) (pre @ b # cs) =
        insert (unat b + 8, bsize (hend h s) b cs) (used_regions (unat b) (hblocks s) pre \<union> used_regions (hend h s) (hblocks s) cs)"
      using rest by simp
    moreover have "\<forall>q \<in> used_regions (hend h s) (hblocks s) (pre @ b # cs). disjoint_regions q (unat b + 8, bsize (hend h s) b cs)"
      using be unfolding old by (intro ballI regions_disjoint [OF lay]) (simp_all add: bsize_def)
    moreover have "unat b + 8 + bsize (hend h s) b cs \<le> hend h s" using be by (simp add: bsize_def)
    moreover have "heap_squeeze h b r sz s = Some s" using False by (simp add: heap_squeeze_def)
    ultimately show ?thesis
      using sz(1) s4(1,2,3) fits unfolding old
      by (intro exI [of _ sz] exI [of _ s] exI [of _ s4] exI [of _ "pre @ b # cs"] exI [of _ "bsize (hend h s) b cs"] conjI) simp_all
  qed
qed

definition alloc_spec :: "ptr \<Rightarrow> u32 \<Rightarrow> ptr list \<Rightarrow> ptr list \<Rightarrow> 'a heap_mem_scheme \<Rightarrow> ptr \<Rightarrow> 'a heap_mem_scheme \<Rightarrow> bool" where
  \<comment> \<open>What a search over the blocks \<open>cs\<close> behind \<open>pre\<close> yields.\<close>
  "alloc_spec h r pre cs s a s' \<longleftrightarrow> (\<exists>bs'. heap_ok h s' bs' \<and> same_heap h s s' \<and>
     (if a = 0 then (\<exists>tl'. bs' = pre @ tl' \<and> no_fit (hend h s) (hblocks s') (unat r) tl' \<and>
          (tl' = [] \<longleftrightarrow> cs = []) \<and> (cs \<noteq> [] \<longrightarrow> hd tl' = hd cs)) \<and>
        (\<forall>p. is_used (hblocks s') p = is_used (hblocks s) p) \<and>
        used_regions (hend h s) (hblocks s') bs' = used_regions (hend h s) (hblocks s) (pre @ cs) \<and>
        last_error s' = error_create ENOMEM HEAP_OUT_OF_MEMORY (origin_code EO_HMMNGR)
      else \<exists>len. unat r \<le> len \<and> unat a + len \<le> hend h s \<and>
        used_regions (hend h s) (hblocks s') bs' = insert (unat a, len) (used_regions (hend h s) (hblocks s) (pre @ cs)) \<and>
        (\<forall>q \<in> used_regions (hend h s) (hblocks s) (pre @ cs). disjoint_regions q (unat a, len))))"

lemma heap_ok_error [simp]: "heap_ok h (set_last_error b x c s) bs = heap_ok h s bs"
  by (simp add: heap_ok_def set_last_error_def hend_def)

lemma hblocks_error [simp]: "hblocks (set_last_error b x c s) = hblocks s"
  by (simp add: set_last_error_def)

lemma block_addr_ok:
  assumes "heap_ok h s (pre @ b # cs)"
  shows "unat (b + 8) = unat b + 8" and "b + 8 \<noteq> 0"
proof -
  note l = heap_ok_layout [OF assms]
  have "unat b + 8 \<le> hend h s" using l(2) layout_bend [OF l(2)] by simp
  then show u: "unat (b + 8) = unat b + 8" using l(3) by (subst unat_add_no_wrap) simp_all
  then show "b + 8 \<noteq> 0" by auto
qed

lemma alloc_spec_null: "alloc_spec h r pre cs s 0 s' \<longleftrightarrow> (\<exists>tl'. heap_ok h s' (pre @ tl') \<and> same_heap h s s' \<and>
    no_fit (hend h s) (hblocks s') (unat r) tl' \<and> (tl' = [] \<longleftrightarrow> cs = []) \<and> (cs \<noteq> [] \<longrightarrow> hd tl' = hd cs) \<and>
    (\<forall>p. is_used (hblocks s') p = is_used (hblocks s) p) \<and>
    used_regions (hend h s) (hblocks s') (pre @ tl') = used_regions (hend h s) (hblocks s) (pre @ cs) \<and>
    last_error s' = error_create ENOMEM HEAP_OUT_OF_MEMORY (origin_code EO_HMMNGR))"
  unfolding alloc_spec_def by (simp only: if_True simp_thms) blast

lemma alloc_spec_used:
  assumes "is_used (hblocks s) b" and "alloc_spec h r (pre @ [b]) bs s a s'"
  shows "alloc_spec h r pre (b # bs) s a s'"
proof (cases "a = 0")
  case True
  from assms(2) [unfolded True alloc_spec_null] obtain tl' where t: "heap_ok h s' ((pre @ [b]) @ tl')" "same_heap h s s'"
      "no_fit (hend h s) (hblocks s') (unat r) tl'" "\<forall>p. is_used (hblocks s') p = is_used (hblocks s) p"
      "used_regions (hend h s) (hblocks s') ((pre @ [b]) @ tl') = used_regions (hend h s) (hblocks s) ((pre @ [b]) @ bs)"
      "last_error s' = error_create ENOMEM HEAP_OUT_OF_MEMORY (origin_code EO_HMMNGR)"
    by blast
  then have "no_fit (hend h s) (hblocks s') (unat r) (b # tl')" using assms(1) by simp
  with t show ?thesis unfolding True alloc_spec_null by (intro exI [of _ "b # tl'"]) simp
next
  case False
  then show ?thesis using assms(2) unfolding alloc_spec_def by (simp del: used_regions_append)
qed

lemma heap_alloc_loop_ok:
  assumes "0 < unat r"
  shows "heap_ok h s (pre @ cs) \<Longrightarrow>
    \<exists>a s'. heap_alloc_loop h (case cs of [] \<Rightarrow> 0 | b # _ \<Rightarrow> b) r s = Some (a, s') \<and> alloc_spec h r pre cs s a s'"
proof (induction "length cs" arbitrary: cs pre s rule: less_induct)
  case less
  show ?case
  proof (cases cs)
    case Nil
    then show ?thesis
      using less.prems by (intro exI [of _ 0] exI [of _ "set_last_error ENOMEM HEAP_OUT_OF_MEMORY EO_HMMNGR s"])
        (simp add: heap_alloc_loop.simps alloc_spec_def)
  next
    case (Cons b bs)
    have ok: "heap_ok h s (pre @ b # bs)" using less.prems Cons by simp
    obtain k where k: "hblocks s b = Some k" "hb_magic k = HEAP_BLOCK_MAGIC" "b \<noteq> 0"
        "hb_next k = (case bs of [] \<Rightarrow> 0 | c # _ \<Rightarrow> c)"
      using heap_okD [OF ok] by metis
    note unf = heap_alloc_loop.simps [of h b r s]
    show ?thesis
    proof (cases "hb_used k")
      case True
      have "heap_ok h s ((pre @ [b]) @ bs)" using ok by simp
      with less.hyps [of bs s "pre @ [b]"] Cons obtain a s' where
        r: "heap_alloc_loop h (hb_next k) r s = Some (a, s')" "alloc_spec h r (pre @ [b]) bs s a s'" unfolding k(4) by auto
      have "is_used (hblocks s) b" using True k(1) by (simp add: is_used_def)
      then have "alloc_spec h r pre cs s a s'"
        using r(2) unfolding Cons by (rule alloc_spec_used)
      moreover have "heap_alloc_loop h b r s = Some (a, s')" using r(1) k True by (simp add: unf)
      ultimately show ?thesis using Cons by simp
    next
      case False
      then have unused: "\<not> is_used (hblocks s) b" using k(1) by (simp add: is_used_def)
      obtain j s1 where f: "heap_front_merge_size_fit h b r s = Some (unat r \<le> bsize (hend h s) b (drop j bs), s1)"
          "heap_ok h s1 (pre @ b # drop j bs)" "same_heap h s s1" "\<forall>c \<in> set (take j bs). \<not> is_used (hblocks s) c"
          "\<forall>p. is_used (hblocks s1) p = is_used (hblocks s) p"
          "unat r \<le> bsize (hend h s) b (drop j bs) \<or> drop j bs = [] \<or> is_used (hblocks s) (hd (drop j bs))"
        using heap_front_merge_size_fit_ok [OF ok, of r] by blast
      have e: "hend h s1 = hend h s" using f(3) by (simp add: same_heap_def)
      have R: "used_regions (hend h s) (hblocks s1) (pre @ b # drop j bs) = used_regions (hend h s) (hblocks s) (pre @ b # bs)"
        using f(4,5) used_regions_drop [of j bs "hblocks s" "hend h s"]
          used_regions_cong [of pre "hblocks s1" "hblocks s"] used_regions_cong [of "drop j bs" "hblocks s1" "hblocks s"]
          unused by simp
      show ?thesis
      proof (cases "unat r \<le> bsize (hend h s) b (drop j bs)")
        case True
        have unused1: "\<not> is_used (hblocks s1) b" using unused f(5) by simp
        obtain size s3 s4 bs' len where p: "heap_block_size h b s1 = Some size" "heap_squeeze h b r size s1 = Some s3"
            "upd_block b (\<lambda>k. k\<lparr>hb_used := True\<rparr>) s3 = Some s4" "heap_ok h s4 bs'" "same_heap h s1 s4" "unat r \<le> len"
            "used_regions (hend h s1) (hblocks s4) bs' = insert (unat b + 8, len) (used_regions (hend h s1) (hblocks s1) (pre @ b # drop j bs))"
            "\<forall>q \<in> used_regions (hend h s1) (hblocks s1) (pre @ b # drop j bs). disjoint_regions q (unat b + 8, len)"
            "unat b + 8 + len \<le> hend h s1"
          using alloc_place_ok [OF f(2) unused1, of r] True e by auto
        have "heap_alloc_loop h b r s = Some (b + 8, s4)"
          using k False f(1) True p(1,2,3) by (simp add: unf heap_block_start_address_def)
        moreover have "alloc_spec h r pre cs s (b + 8) s4"
          using p(4,6,7,8,9) same_heap_trans [OF f(3) p(5)] R block_addr_ok [OF ok] e Cons
          unfolding alloc_spec_def by (intro exI [of _ bs']) auto
        ultimately show ?thesis using Cons by auto
      next
        case nofit: False
        obtain k1 where k1: "hblocks s1 b = Some k1" "hb_next k1 = (case drop j bs of [] \<Rightarrow> 0 | c # _ \<Rightarrow> c)"
          using heap_okD [OF f(2)] by metis
        have "heap_ok h s1 ((pre @ [b]) @ drop j bs)" using f(2) by simp
        moreover have "length (drop j bs) < length cs" using Cons by (simp add: less_Suc_eq_le)
        ultimately obtain a s' where
          r: "heap_alloc_loop h (hb_next k1) r s1 = Some (a, s')" "alloc_spec h r (pre @ [b]) (drop j bs) s1 a s'"
          unfolding k1(2) using less.hyps [of "drop j bs" s1 "pre @ [b]"] by blast
        have "heap_alloc_loop h b r s = Some (a, s')" using k False f(1) nofit k1(1) r(1) by (simp add: unf)
        moreover have "alloc_spec h r pre cs s a s'"
        proof (cases "a = 0")
          case True
          from r(2) [unfolded True alloc_spec_null] obtain tl' where t: "heap_ok h s' ((pre @ [b]) @ tl')" "same_heap h s1 s'"
              "no_fit (hend h s1) (hblocks s') (unat r) tl'" "tl' = [] \<longleftrightarrow> drop j bs = []" "drop j bs \<noteq> [] \<longrightarrow> hd tl' = hd (drop j bs)"
              "\<forall>p. is_used (hblocks s') p = is_used (hblocks s1) p"
              "used_regions (hend h s1) (hblocks s') ((pre @ [b]) @ tl') = used_regions (hend h s1) (hblocks s1) ((pre @ [b]) @ drop j bs)"
              "last_error s' = error_create ENOMEM HEAP_OUT_OF_MEMORY (origin_code EO_HMMNGR)"
            by blast
          have "bend (hend h s) tl' = bend (hend h s) (drop j bs)"
            using t(4,5) by (cases tl'; cases "drop j bs") auto
          then have "no_fit (hend h s) (hblocks s') (unat r) (b # tl')"
            using t(3,4,5,6) f(5,6) nofit e by (auto simp: bsize_def)
          then show ?thesis
            using t same_heap_trans [OF f(3) t(2)] f(5) R e unfolding True Cons alloc_spec_null
            by (intro exI [of _ "b # tl'"]) simp
        next
          case nz: False
          then show ?thesis
            using r(2) same_heap_trans [OF f(3)] R e Cons unfolding alloc_spec_def by (simp del: used_regions_append) blast
        qed
        ultimately show ?thesis using Cons by auto
      qed
    qed
  qed
qed

lemma heap_alloc_ok:
  assumes ok: "heap_ok h s bs" and r: "r \<noteq> 0"
  shows "\<exists>a s'. heap_alloc h r s = Some (a, s') \<and> alloc_spec h r [] bs s a s'"
proof -
  obtain m where m: "heaps s h = Some m" "hchain (hblocks s) (start_address m) bs 0" "h \<noteq> 0"
    using ok by (auto simp: heap_ok_def)
  have st: "start_address m = (case bs of [] \<Rightarrow> 0 | b # _ \<Rightarrow> b)" using hchain_hd [OF m(2)] .
  have "0 < unat r" using r by (simp add: unat_gt_0)
  from heap_alloc_loop_ok [OF this, of h s "[]" bs] ok st m r show ?thesis
    by (auto simp: heap_alloc_def)
qed

subsection \<open>Freeing\<close>

lemma used_regions_mem:
  "(x, len) \<in> used_regions e hb bs \<Longrightarrow> \<exists>pre b cs. bs = pre @ b # cs \<and> is_used hb b \<and> x = unat b + 8 \<and> len = bsize e b cs"
proof (induction bs)
  case (Cons b bs)
  show ?case
  proof (cases "(x, len) \<in> used_regions e hb bs")
    case True
    then obtain pre c cs where "bs = pre @ c # cs \<and> is_used hb c \<and> x = unat c + 8 \<and> len = bsize e c cs"
      using Cons.IH by blast
    then show ?thesis by (intro exI [of _ "b # pre"] exI [of _ c] exI [of _ cs]) simp
  next
    case False
    with Cons.prems show ?thesis by (intro exI [of _ "[]"] exI [of _ b] exI [of _ bs]) (auto split: if_splits)
  qed
qed simp

lemma used_regions_remove:
  assumes lay: "layout e (pre @ b # cs)" and "is_used hb b"
  shows "used_regions e hb (pre @ b # cs) - {(unat b + 8, bsize e b cs)} = used_regions (unat b) hb pre \<union> used_regions e hb cs"
proof -
  have l: "layout (unat b) pre" "layout e (b # cs)" using lay by simp_all
  have "(unat b + 8, n) \<notin> used_regions (unat b) hb pre" for n
    using used_regions_le [OF l(1), of "unat b + 8" n hb] by auto
  moreover have "(unat b + 8, n) \<notin> used_regions e hb cs" for n
    using used_regions_ge [OF l(2), of "unat b + 8" n hb] l(2) by auto
  ultimately show ?thesis using assms(2) by auto
qed

lemma heap_free_ok:
  assumes ok: "heap_ok h s bs" and reg: "(unat a, len) \<in> used_regions (hend h s) (hblocks s) bs"
  shows "\<exists>s' bs'. heap_free h a s = Some (ERROR_OK, s') \<and> heap_ok h s' bs' \<and> same_heap h s s' \<and>
    used_regions (hend h s) (hblocks s') bs' = used_regions (hend h s) (hblocks s) bs - {(unat a, len)}"
proof -
  obtain pre b cs where b: "bs = pre @ b # cs" "is_used (hblocks s) b" "unat a = unat b + 8" "len = bsize (hend h s) b cs"
    using used_regions_mem [OF reg] by blast
  note ok' = ok [unfolded b(1)]
  note l = heap_ok_layout [OF ok']
  have lay: "layout (hend h s) (pre @ b # cs)" using l by simp
  have ab: "a = b + 8" using block_addr_ok(1) [OF ok'] b(3) by (simp add: word_unat_eq_iff)
  then have a: "a - 8 = b" "a \<noteq> 0" using block_addr_ok(2) [OF ok'] by simp_all
  obtain k where k: "hblocks s b = Some k" "hb_magic k = HEAP_BLOCK_MAGIC" "h \<noteq> 0"
      "hb_next k = (case cs of [] \<Rightarrow> 0 | c # _ \<Rightarrow> c)" "hchain (hblocks s) (hb_next k) cs 0"
    using heap_okD [OF ok'] by metis
  obtain s1 where s1: "upd_block b (\<lambda>k. k\<lparr>hb_used := False\<rparr>) s = Some s1" "heap_ok h s1 (pre @ b # cs)" "same_heap h s s1"
      "\<forall>p. is_used (hblocks s1) p = (if p = b then False else is_used (hblocks s) p)"
      "hblocks s1 = (hblocks s)(b \<mapsto> k\<lparr>hb_used := False\<rparr>)"
    using set_used_ok [OF ok', of False] k(1) by auto
  have rest: "used_regions (unat b) hb pre = used_regions (unat b) (hblocks s) pre"
      "used_regions (hend h s) hb cs = used_regions (hend h s) (hblocks s) cs"
    if "\<forall>p. is_used hb p = is_used (hblocks s1) p" for hb
    by (rule used_regions_cong; use that s1(4) l(4,5) in auto)+
  have goal: "used_regions (hend h s) (hblocks s) bs - {(unat a, len)} =
      used_regions (unat b) (hblocks s) pre \<union> used_regions (hend h s) (hblocks s) cs"
    unfolding b(1,3,4) using used_regions_remove [OF lay b(2)] .
  show ?thesis
  proof (cases "cs \<noteq> [] \<and> \<not> is_used (hblocks s) (hd cs)")
    case True
    then obtain c ds where c: "cs = c # ds" "\<not> is_used (hblocks s) c" by (cases cs) auto
    have cb: "c \<noteq> b" using l(5) c by auto
    obtain n where n: "hblocks s c = Some n" "hb_next k = c" "c \<noteq> 0" using k(4,5) c(1) by auto
    obtain s2 where s2: "heap_front_merge_block h b s1 = Some s2" "heap_ok h s2 (pre @ b # ds)" "same_heap h s1 s2"
        "\<forall>p. is_used (hblocks s2) p = is_used (hblocks s1) p"
      using heap_front_merge_block_ok [OF s1(2) [unfolded c(1)]] by blast
    have "heap_free h a s = Some (ERROR_OK, s2)"
      using k n c cb s1(1,5) s2(1) a by (simp add: heap_free_def is_used_def)
    moreover have "used_regions (hend h s) (hblocks s2) (pre @ b # ds) =
        used_regions (unat b) (hblocks s) pre \<union> used_regions (hend h s) (hblocks s) cs"
      using rest [of "hblocks s2"] s2(4) s1(4) c cb by simp
    ultimately show ?thesis unfolding goal using s2(2) same_heap_trans [OF s1(3) s2(3)] by blast
  next
    case False
    have "heap_free h a s = Some (ERROR_OK, s1)"
    proof (cases cs)
      case Nil
      then show ?thesis using k s1(1) a by (simp add: heap_free_def)
    next
      case (Cons c ds)
      obtain n where n: "hblocks s c = Some n" "hb_next k = c" "c \<noteq> 0" using k(4,5) Cons by auto
      have "c \<noteq> b" using l(5) Cons by auto
      then show ?thesis
        using k n Cons False s1(1,5) a by (simp add: heap_free_def is_used_def)
    qed
    moreover have "used_regions (hend h s) (hblocks s1) (pre @ b # cs) =
        used_regions (unat b) (hblocks s) pre \<union> used_regions (hend h s) (hblocks s) cs"
      using rest [of "hblocks s1"] s1(4) by simp
    ultimately show ?thesis unfolding goal using s1(2,3) by blast
  qed
qed

subsection \<open>The heap satisfies the allocator contract\<close>

definition heap_inv :: "ptr \<Rightarrow> 'a heap_mem_scheme \<Rightarrow> bool" where
  "heap_inv h s \<longleftrightarrow> (\<exists>bs. heap_ok h s bs)"

fun heap_walk :: "nat \<Rightarrow> (ptr \<Rightarrow> heap_block option) \<Rightarrow> ptr \<Rightarrow> ptr list" where
  "heap_walk 0 hb p = []"
| "heap_walk (Suc n) hb p = (case hb p of None \<Rightarrow> [] | Some k \<Rightarrow> p # heap_walk n hb (hb_next k))"

definition heap_chain :: "ptr \<Rightarrow> 'a heap_mem_scheme \<Rightarrow> ptr list" where
  "heap_chain h s = (case heaps s h of None \<Rightarrow> [] | Some m \<Rightarrow> heap_walk (unat (current_blocks m)) (hblocks s) (start_address m))"

definition heap_regions :: "ptr \<Rightarrow> 'a heap_mem_scheme \<Rightarrow> (nat \<times> nat) set" where
  "heap_regions h s = used_regions (hend h s) (hblocks s) (heap_chain h s)"

lemma heap_walk_chain: "hchain hb p bs 0 \<Longrightarrow> heap_walk (length bs) hb p = bs"
  by (induction bs arbitrary: p) auto

lemma heap_chain_eq: "heap_ok h s bs \<Longrightarrow> heap_chain h s = bs"
  by (auto simp: heap_ok_def heap_chain_def heap_walk_chain)

lemma heap_regions_eq: "heap_ok h s bs \<Longrightarrow> heap_regions h s = used_regions (hend h s) (hblocks s) bs"
  by (simp add: heap_regions_def heap_chain_eq)

lemma heap_regions_same: "heap_ok h s' bs \<Longrightarrow> same_heap h s s' \<Longrightarrow> heap_regions h s' = used_regions (hend h s) (hblocks s') bs"
  by (simp add: heap_regions_eq same_heap_def)

lemma heap_error [simp]:
  "heap_inv h (set_last_error b x c s) = heap_inv h s"
  "heap_regions h (set_last_error b x c s) = heap_regions h s"
proof -
  show "heap_inv h (set_last_error b x c s) = heap_inv h s" by (simp add: heap_inv_def)
  show "heap_regions h (set_last_error b x c s) = heap_regions h s"
    unfolding heap_regions_def heap_chain_def set_last_error_def Let_def hend_def by (simp cong: option.case_cong)
qed

interpretation kheap: allocator "heap_inv h" "heap_regions h" "heap_alloc h"
    "\<lambda>a s. map_option snd (heap_free h a s)" unat for h
proof unfold_locales
  fix s :: "'a heap_mem_scheme" and r :: u32
  assume "heap_inv h s"
  then obtain bs where ok: "heap_ok h s bs" by (auto simp: heap_inv_def)
  note R = heap_regions_eq [OF ok]
  show "\<exists>a s'. heap_alloc h r s = Some (a, s') \<and> heap_inv h s' \<and>
      (if a = 0 then heap_regions h s' = heap_regions h s
       else \<exists>len. 0 < len \<and> unat r \<le> len \<and> heap_regions h s' = insert (unat a, len) (heap_regions h s) \<and>
         (\<forall>q \<in> heap_regions h s. disjoint_regions q (unat a, len)))"
  proof (cases "r = 0")
    case True
    then show ?thesis using \<open>heap_inv h s\<close> by (simp add: heap_alloc_def)
  next
    case False
    then have "0 < unat r" by (simp add: unat_gt_0)
    obtain a s' where a: "heap_alloc h r s = Some (a, s')" "alloc_spec h r [] bs s a s'"
      using heap_alloc_ok [OF ok False] by blast
    show ?thesis
    proof (cases "a = 0")
      case True
      from a(2) [unfolded True alloc_spec_null] obtain tl' where
        "heap_ok h s' tl'" "same_heap h s s'" "used_regions (hend h s) (hblocks s') tl' = used_regions (hend h s) (hblocks s) bs"
        by auto
      with heap_regions_same [of h s' tl' s] a(1) True R show ?thesis by (auto simp: heap_inv_def)
    next
      case nz: False
      with a(2) obtain bs' len where "heap_ok h s' bs'" "same_heap h s s'" "unat r \<le> len"
          "used_regions (hend h s) (hblocks s') bs' = insert (unat a, len) (used_regions (hend h s) (hblocks s) bs)"
          "\<forall>q \<in> used_regions (hend h s) (hblocks s) bs. disjoint_regions q (unat a, len)"
        unfolding alloc_spec_def by auto
      with heap_regions_same [of h s' bs' s] a(1) nz R \<open>0 < unat r\<close> show ?thesis
        by (intro exI [of _ a] exI [of _ s'] conjI) (auto simp: heap_inv_def intro!: exI [of _ len])
    qed
  qed
next
  fix s :: "'a heap_mem_scheme" and a :: u32 and len
  assume "heap_inv h s" and reg: "(unat a, len) \<in> heap_regions h s"
  then obtain bs where ok: "heap_ok h s bs" by (auto simp: heap_inv_def)
  note R = heap_regions_eq [OF ok]
  obtain s' bs' where "heap_free h a s = Some (ERROR_OK, s')" "heap_ok h s' bs'" "same_heap h s s'"
    "used_regions (hend h s) (hblocks s') bs' = used_regions (hend h s) (hblocks s) bs - {(unat a, len)}"
    using heap_free_ok [OF ok reg [unfolded R]] by blast
  with heap_regions_same [of h s' bs' s] R
  show "\<exists>s'. map_option snd (heap_free h a s) = Some s' \<and> heap_inv h s' \<and> heap_regions h s' = heap_regions h s - {(unat a, len)}"
    by (auto simp: heap_inv_def)
qed

end
