(* ===== verification/Heap_Service.thy ===== *)
theory Heap_Service
  imports Kernel_Heap
begin

text \<open>
  The remaining heap operations on top of \<open>Kernel_Heap\<close>: creation, reallocation and
  defragmentation, then the allocation functions of memory.cpp, and the properties of the heap.
\<close>

subsection \<open>Creation\<close>

lemma heap_create_ok:
  assumes "base \<noteq> 0" and "unat base + unat sz < 2 ^ 32" and "20 \<le> unat sz"
  shows "\<exists>s'. heap_create base sz s = Some (base, s') \<and> heap_ok base s' [base + 12] \<and>
    heap_regions base s' = {} \<and> hend base s' = unat base + unat sz"
proof -
  let ?st = "base + 12"
  have st: "unat ?st = unat base + 12" using assms by (subst unat_add_no_wrap) simp_all
  have sz: "unat (sz - 12) = unat sz - 12" using assms(3) by (subst unat_sub_le) simp_all
  define s' where "s' = (put_block ?st \<lparr>hb_magic = HEAP_BLOCK_MAGIC, hb_used = False, hb_flags = False, hb_next = 0\<rparr> s)
      \<lparr>heaps := (heaps s)(base \<mapsto> \<lparr>start_address = ?st, hp_size = sz - 12, current_blocks = 1\<rparr>)\<rparr>"
  have c: "heap_create base sz s = Some (base, s')"
    by (simp add: heap_create_def heap_block_create_def upd_heap_def put_block_def s'_def Let_def cong: if_cong)
  have e: "hend base s' = unat base + unat sz" using st sz assms(3) by (simp add: hend_def s'_def)
  have "?st \<noteq> 0" using st by auto
  then have ok: "heap_ok base s' [?st]"
    unfolding heap_ok_def e using assms st by (simp add: s'_def put_block_def)
  have "heap_regions base s' = {}"
    unfolding heap_regions_eq [OF ok] by (simp add: is_used_def s'_def put_block_def)
  with c ok e show ?thesis by blast
qed

subsection \<open>Writing into a payload\<close>

lemma payload_headers:
  assumes ok: "heap_ok h s bs" and reg: "(x, len) \<in> used_regions (hend h s) (hblocks s) bs" and n: "n \<le> len" and c: "c \<in> set bs"
  shows "\<not> overlaps x n c"
proof -
  obtain pre b cs where b: "bs = pre @ b # cs" "x = unat b + 8" "len = bsize (hend h s) b cs"
    using used_regions_mem [OF reg] by blast
  note l = heap_ok_layout [OF ok [unfolded b(1)]]
  consider "c \<in> set pre" | "c = b" | "c \<in> set cs" using c b(1) by auto
  then show ?thesis
  proof cases
    case 1
    then show ?thesis using layout_le [OF l(1)] b(2) by (fastforce simp: overlaps_def)
  next
    case 2
    then show ?thesis using b(2) by (simp add: overlaps_def)
  next
    case 3
    have "bend (hend h s) cs \<le> unat c"
    proof (cases cs)
      case (Cons d ds)
      then show ?thesis using 3 l(2) layout_ge [of "hend h s" d ds c] by (cases "c = d") auto
    qed (use 3 in simp)
    moreover have "unat b + 8 \<le> bend (hend h s) cs" using l(2) by simp
    ultimately have "x + n \<le> unat c" using b(2,3) n unfolding bsize_def by linarith
    then show ?thesis by (simp add: overlaps_def)
  qed
qed

lemma put_bytes_ok:
  assumes ok: "heap_ok h s bs" and reg: "(unat d, len) \<in> used_regions (hend h s) (hblocks s) bs" and n: "unat n \<le> len"
  shows "heap_ok h (put_bytes d src n s) bs" and "hend h (put_bytes d src n s) = hend h s"
    and "used_regions (hend h s) (hblocks (put_bytes d src n s)) bs = used_regions (hend h s) (hblocks s) bs"
proof -
  let ?s' = "put_bytes d src n s"
  have same: "hblocks ?s' c = hblocks s c" if "c \<in> set bs" for c
    using payload_headers [OF ok reg n that] by (simp add: put_bytes_def)
  show e: "hend h ?s' = hend h s" by (simp add: put_bytes_def hend_def)
  have "hchain (hblocks ?s') p bs q = hchain (hblocks s) p bs q" for p q
    using same by (intro hchain_cong)
  moreover have "heaps ?s' = heaps s" by (simp add: put_bytes_def)
  ultimately show "heap_ok h ?s' bs" using ok unfolding heap_ok_def e by simp
  show "used_regions (hend h s) (hblocks ?s') bs = used_regions (hend h s) (hblocks s) bs"
    using same by (intro used_regions_cong) (simp add: is_used_def)
qed

subsection \<open>Reallocation\<close>

lemma region_bounds:
  assumes ok: "heap_ok h s bs" and reg: "(x, len) \<in> used_regions (hend h s) (hblocks s) bs"
  shows "x + len \<le> hend h s" and "hend h s < 2 ^ 32"
proof -
  have l: "layout (hend h s) bs" using ok by (simp add: heap_ok_def)
  show "x + len \<le> hend h s" using used_regions_le [OF l reg] .
  show "hend h s < 2 ^ 32" using ok by (simp add: heap_ok_def)
qed

lemma disjoint_no_clobber:
  assumes dj: "disjoint_regions (unat a, m) (unat d, n)" and k: "k \<le> m" "k \<le> n"
    and "unat a + m < 2 ^ 32" and "unat d + n < 2 ^ 32"
  shows "no_clobber k d a"
  unfolding no_clobber_def
proof (intro allI impI)
  fix i j :: nat assume ij: "i < j" "j < k"
  have "unat (d + of_nat i) = unat d + i" "unat (a + of_nat j) = unat a + j"
    using ij k assms(4,5) by (subst unat_add_no_wrap; simp add: unat_of_nat_u32)+
  then show "d + of_nat i \<noteq> a + of_nat j" using dj ij k by (auto simp: disjoint_regions_def)
qed

lemma heap_realloc_ok:
  assumes ok: "heap_ok h s bs" and reg: "(unat a, len) \<in> used_regions (hend h s) (hblocks s) bs"
    and n: "n \<noteq> 0" "unat n \<noteq> len"
  shows "\<exists>a' s' bs'. heap_realloc h a n s = Some (a', s') \<and> heap_ok h s' bs' \<and> hend h s' = hend h s \<and>
    (if a' = 0 then used_regions (hend h s) (hblocks s') bs' = used_regions (hend h s) (hblocks s) bs \<and> bytes s' = bytes s
     else \<exists>len'. unat n \<le> len' \<and> (\<forall>q \<in> used_regions (hend h s) (hblocks s) bs. disjoint_regions q (unat a', len')) \<and>
       used_regions (hend h s) (hblocks s') bs' =
         insert (unat a', len') (used_regions (hend h s) (hblocks s) bs) - {(unat a, len)} \<and>
       (\<forall>p. bytes s' p = (if unat (p - a') < min len (unat n) then bytes s (a + (p - a')) else bytes s p)))"
proof -
  obtain pre b cs where b: "bs = pre @ b # cs" "unat a = unat b + 8" "len = bsize (hend h s) b cs"
    using used_regions_mem [OF reg] by blast
  note ok' = ok [unfolded b(1)]
  have ab: "a = b + 8" using block_addr_ok(1) [OF ok'] b(2) by (simp add: word_unat_eq_iff)
  then have a: "a - 8 = b" "a \<noteq> 0" using block_addr_ok(2) [OF ok'] by simp_all
  obtain k where k: "hblocks s b = Some k" "hb_magic k = HEAP_BLOCK_MAGIC" "h \<noteq> 0" using heap_okD [OF ok'] by metis
  obtain sz where sz: "heap_block_size h b s = Some sz" "unat sz = len" using heap_block_size_ok [OF ok'] b(3) by blast
  have ne: "sz \<noteq> n" using n sz by auto
  define c where "c = (if sz < n then sz else n)"
  have c: "unat c = min len (unat n)" using sz by (simp add: c_def word_less_nat_alt)
  obtain a' s1 where al: "heap_alloc h n s = Some (a', s1)" "alloc_spec h n [] bs s a' s1"
    using heap_alloc_ok [OF ok n(1)] by blast
  show ?thesis
  proof (cases "a' = 0")
    case True
    from al(2) [unfolded True alloc_spec_null] obtain tl' where t: "heap_ok h s1 tl'" "same_heap h s s1"
        "used_regions (hend h s) (hblocks s1) tl' = used_regions (hend h s) (hblocks s) bs" by auto
    have "heap_realloc h a n s = Some (0, s1)" using True al(1) k sz ne a by (simp add: heap_realloc_def)
    then show ?thesis using t same_heap_bytes [OF t(2)] by auto
  next
    case False
    let ?R = "used_regions (hend h s) (hblocks s) bs"
    obtain bs1 len' where t: "heap_ok h s1 bs1" "same_heap h s s1" "unat n \<le> len'" "unat a' + len' \<le> hend h s"
        "used_regions (hend h s) (hblocks s1) bs1 = insert (unat a', len') ?R"
        "\<forall>q \<in> ?R. disjoint_regions q (unat a', len')"
      using al(2) False unfolding alloc_spec_def by auto
    have e1: "hend h s1 = hend h s" "bytes s1 = bytes s" using same_heap_bytes [OF t(2)] by simp_all
    define s2 where "s2 = put_bytes a' a c s1"
    have in1: "(unat a', len') \<in> used_regions (hend h s1) (hblocks s1) bs1" "unat c \<le> len'" using t(3,5) e1 c by simp_all
    note pb = put_bytes_ok [OF t(1) in1, of a, folded s2_def]
    have R2: "used_regions (hend h s2) (hblocks s2) bs1 = insert (unat a', len') ?R" using pb t(5) e1 by simp
    then have "(unat a, len) \<in> used_regions (hend h s2) (hblocks s2) bs1" using reg by simp
    from heap_free_ok [OF pb(1) this] obtain s3 bs3 where f: "heap_free h a s2 = Some (ERROR_OK, s3)" "heap_ok h s3 bs3"
        "same_heap h s2 s3" "used_regions (hend h s2) (hblocks s3) bs3 = insert (unat a', len') ?R - {(unat a, len)}"
      using R2 by auto
    have e3: "hend h s2 = hend h s" "hend h s3 = hend h s" "bytes s3 = bytes s2"
      using pb(2) e1 same_heap_bytes [OF f(3)] by simp_all
    have r: "heap_realloc h a n s = Some (a', s3)"
      using False al(1) k sz ne a f(1) by (simp add: heap_realloc_def s2_def c_def)
    have "no_clobber (unat c) a' a"
    proof (rule disjoint_no_clobber)
      show "disjoint_regions (unat a, len) (unat a', len')" using t(6) reg by blast
      show "unat a + len < 2 ^ 32" "unat a' + len' < 2 ^ 32" using region_bounds [OF ok reg] t(4) by simp_all
    qed (use c t(3) in simp_all)
    then have "bytes s3 p = (if unat (p - a') < min len (unat n) then bytes s (a + (p - a')) else bytes s p)" for p
      unfolding e3(3) s2_def put_bytes_def using memcpy_ok [of c a' a] e1(2) c by simp
    then show ?thesis using r f(2,4) e3 t(3,6) False by auto
  qed
qed

subsection \<open>Defragmentation\<close>

fun no_adjacent_unused :: "(ptr \<Rightarrow> heap_block option) \<Rightarrow> ptr list \<Rightarrow> bool" where
  "no_adjacent_unused hb (b # c # bs) \<longleftrightarrow> (is_used hb b \<or> is_used hb c) \<and> no_adjacent_unused hb (c # bs)"
| "no_adjacent_unused hb bs \<longleftrightarrow> True"

lemma heap_defrag_loop_ok:
  "heap_ok h s (pre @ cs) \<Longrightarrow>
    \<exists>s' tl'. heap_defrag_loop h (case cs of [] \<Rightarrow> 0 | b # _ \<Rightarrow> b) n s = Some (n + of_nat (length cs - length tl'), s') \<and>
      length tl' \<le> length cs \<and> heap_ok h s' (pre @ tl') \<and> same_heap h s s' \<and>
      used_regions (hend h s) (hblocks s') (pre @ tl') = used_regions (hend h s) (hblocks s) (pre @ cs) \<and>
      (\<forall>p. is_used (hblocks s') p = is_used (hblocks s) p) \<and> no_adjacent_unused (hblocks s') tl' \<and>
      (tl' = [] \<longleftrightarrow> cs = []) \<and> (cs \<noteq> [] \<longrightarrow> hd tl' = hd cs)"
proof (induction "length cs" arbitrary: cs pre s n rule: less_induct)
  case less
  show ?case
  proof (cases cs)
    case Nil
    then show ?thesis using less.prems by (intro exI [of _ s] exI [of _ "[]"]) (simp add: heap_defrag_loop.simps)
  next
    case (Cons b bs)
    have ok: "heap_ok h s (pre @ b # bs)" using less.prems Cons by simp
    obtain k where k: "hblocks s b = Some k" "b \<noteq> 0" "hb_next k = (case bs of [] \<Rightarrow> 0 | c # _ \<Rightarrow> c)"
      using heap_okD [OF ok] by metis
    have u: "is_used (hblocks s) b = hb_used k" using k(1) by (simp add: is_used_def)
    note unf = heap_defrag_loop.simps [of h b n s] and nu = heap_is_next_unused_ok [OF ok]
    show ?thesis
    proof (cases "\<not> hb_used k \<and> bs \<noteq> [] \<and> \<not> is_used (hblocks s) (hd bs)")
      case True
      then obtain c ds where c: "bs = c # ds" "\<not> is_used (hblocks s) c" by (cases bs) auto
      obtain s1 where s1: "heap_front_merge_block h b s = Some s1" "heap_ok h s1 (pre @ b # ds)" "same_heap h s s1"
          "\<forall>p. is_used (hblocks s1) p = is_used (hblocks s) p"
        using heap_front_merge_block_ok [OF ok [unfolded c(1)]] by blast
      have e: "hend h s1 = hend h s" using s1(3) by (simp add: same_heap_def)
      have lt: "length (b # ds) < length cs" using Cons c by simp
      have loop: "heap_defrag_loop h b n s = heap_defrag_loop h b (n + 1) s1"
        using k True nu s1(1) by (simp add: unf)
      obtain s' tl' where r: "heap_defrag_loop h b (n + 1) s1 = Some (n + 1 + of_nat (length (b # ds) - length tl'), s')"
          "length tl' \<le> length (b # ds)" "heap_ok h s' (pre @ tl')" "same_heap h s1 s'"
          "used_regions (hend h s1) (hblocks s') (pre @ tl') = used_regions (hend h s1) (hblocks s1) (pre @ b # ds)"
          "\<forall>p. is_used (hblocks s') p = is_used (hblocks s1) p" "no_adjacent_unused (hblocks s') tl'" "tl' \<noteq> []" "hd tl' = b"
        using less.hyps [OF lt s1(2), of "n + 1"] by auto
      have R: "used_regions (hend h s) (hblocks s1) (pre @ b # ds) = used_regions (hend h s) (hblocks s) (pre @ b # bs)"
        using True s1(4) u c used_regions_cong [of pre "hblocks s1" "hblocks s"] used_regions_cong [of ds "hblocks s1" "hblocks s"]
        by simp
      have num: "n + 1 + of_nat (length (b # ds) - length tl') = n + of_nat (length cs - length tl')"
      proof -
        have "length cs - length tl' = Suc (length (b # ds) - length tl')" using Cons c r(2) by simp
        then show ?thesis by simp
      qed
      show ?thesis
        using r loop s1(4) R e num same_heap_trans [OF s1(3) r(4)] Cons c
        by (intro exI [of _ s'] exI [of _ tl']) simp
    next
      case False
      have loop: "heap_defrag_loop h b n s = heap_defrag_loop h (hb_next k) n s"
      proof (cases "hb_used k")
        case used: False
        then have "heap_is_next_unused b s = Some False" using nu False by auto
        then show ?thesis using k used by (simp add: unf)
      qed (use k in \<open>simp add: unf\<close>)
      have ok1: "heap_ok h s ((pre @ [b]) @ bs)" using ok by simp
      have lt: "length bs < length cs" using Cons by simp
      obtain s' tl' where r: "heap_defrag_loop h (hb_next k) n s = Some (n + of_nat (length bs - length tl'), s')"
          "length tl' \<le> length bs" "heap_ok h s' ((pre @ [b]) @ tl')" "same_heap h s s'"
          "used_regions (hend h s) (hblocks s') ((pre @ [b]) @ tl') = used_regions (hend h s) (hblocks s) ((pre @ [b]) @ bs)"
          "\<forall>p. is_used (hblocks s') p = is_used (hblocks s) p" "no_adjacent_unused (hblocks s') tl'"
          "tl' = [] \<longleftrightarrow> bs = []" "bs \<noteq> [] \<longrightarrow> hd tl' = hd bs"
        using less.hyps [OF lt ok1, of n] unfolding k(3) by blast
      have "no_adjacent_unused (hblocks s') (b # tl')"
        using r(6,7,8,9) False u by (cases tl'; cases bs) auto
      then show ?thesis
        using r loop Cons by (intro exI [of _ s'] exI [of _ "b # tl'"]) simp
    qed
  qed
qed

lemma heap_defrag_ok:
  assumes ok: "heap_ok h s bs"
  shows "\<exists>s' bs'. heap_defrag h s = Some (of_nat (length bs - length bs'), s') \<and> heap_ok h s' bs' \<and> same_heap h s s' \<and>
    length bs' \<le> length bs \<and> used_regions (hend h s) (hblocks s') bs' = used_regions (hend h s) (hblocks s) bs \<and>
    no_adjacent_unused (hblocks s') bs'"
proof -
  obtain m where m: "heaps s h = Some m" "hchain (hblocks s) (start_address m) bs 0" "h \<noteq> 0"
    using ok by (auto simp: heap_ok_def)
  have st: "start_address m = (case bs of [] \<Rightarrow> 0 | b # _ \<Rightarrow> b)" using hchain_hd [OF m(2)] .
  from heap_defrag_loop_ok [of h s "[]" bs 0] ok m(1,3) show ?thesis
    unfolding heap_defrag_def st [symmetric] by (simp add: st) blast
qed

subsection \<open>memory.cpp\<close>

definition mem_ok :: "kernel_mem \<Rightarrow> bool" where
  "mem_ok s \<longleftrightarrow> heap_inv (kernel_heap s) s"

definition mem_regions :: "kernel_mem \<Rightarrow> (nat \<times> nat) set" where
  "mem_regions s = heap_regions (kernel_heap s) s"

lemma crit_ignored [simp]:
  "heap_inv h (s\<lparr>in_critical_section := c\<rparr>) = heap_inv h s"
  "heap_regions h (s\<lparr>in_critical_section := c\<rparr>) = heap_regions h s"
  "heap_ok h (s\<lparr>in_critical_section := c\<rparr>) bs = heap_ok h s bs"
  by (simp_all add: heap_inv_def heap_ok_def heap_regions_def heap_chain_def hend_def cong: option.case_cong)

lemma same_heap_kernel: "same_heap h s s' \<Longrightarrow> kernel_heap s' = kernel_heap s"
  for s s' :: kernel_mem
  by (cases s; cases s') (auto simp: same_heap_def)

lemma malloc_ok:
  assumes "mem_ok s"
  shows "\<exists>a s'. malloc n s = Some (a, s') \<and> mem_ok s' \<and> kernel_heap s' = kernel_heap s \<and> bytes s' = bytes s \<and>
    in_critical_section s' = 0 \<and>
    (if a = 0 then mem_regions s' = mem_regions s
     else \<exists>len. 0 < len \<and> unat n \<le> len \<and> unat a + len \<le> hend (kernel_heap s) s \<and> mem_regions s' = insert (unat a, len) (mem_regions s) \<and>
       (\<forall>q \<in> mem_regions s. disjoint_regions q (unat a, len)))"
proof -
  define t where "t = s\<lparr>in_critical_section := 1\<rparr>"
  let ?h = "kernel_heap s"
  obtain bs where ok: "heap_ok ?h t bs" using assms by (auto simp: mem_ok_def heap_inv_def t_def)
  have R: "mem_regions s = used_regions (hend ?h t) (hblocks t) bs"
    using heap_regions_eq [OF ok] by (simp add: mem_regions_def t_def)
  have e: "hend ?h t = hend ?h s" by (simp add: t_def hend_def)
  show ?thesis
  proof (cases "n = 0")
    case True
    let ?s' = "(set_last_error EINVAL HEAP_BAD_ARGUMENT EO_HMMNGR t)\<lparr>in_critical_section := 0\<rparr>"
    have "malloc n s = Some (0, ?s')"
      using True by (simp add: malloc_def heap_alloc_def critlock_acquire_def critlock_release_def t_def)
    moreover have "heap_ok ?h ?s' bs" using ok by simp
    moreover have "mem_regions ?s' = mem_regions s"
      by (simp add: mem_regions_def t_def set_last_error_def heap_regions_def heap_chain_def hend_def cong: option.case_cong)
    moreover have "kernel_heap ?s' = ?h" "bytes ?s' = bytes s" by (simp_all add: t_def set_last_error_def)
    ultimately show ?thesis by (auto simp: mem_ok_def heap_inv_def)
  next
    case False
    then have "0 < unat n" by (simp add: unat_gt_0)
    obtain a s1 where a: "heap_alloc ?h n t = Some (a, s1)" "alloc_spec ?h n [] bs t a s1"
      using heap_alloc_ok [OF ok False] by blast
    define s' where "s' = s1\<lparr>in_critical_section := 0\<rparr>"
    have m: "malloc n s = Some (a, s')"
      using a(1) by (simp add: malloc_def critlock_acquire_def critlock_release_def t_def s'_def)
    obtain bs1 where t1: "heap_ok ?h s1 bs1" "same_heap ?h t s1" using a(2) unfolding alloc_spec_def by blast
    have k: "kernel_heap s' = ?h" "bytes s' = bytes s" "in_critical_section s' = 0"
      using same_heap_kernel [OF t1(2)] same_heap_bytes [OF t1(2)] by (simp_all add: s'_def t_def)
    have R': "mem_regions s' = used_regions (hend ?h t) (hblocks s1) bs'" if "heap_ok ?h s1 bs'" for bs'
      using heap_regions_same [OF that t1(2)] k by (simp add: mem_regions_def s'_def)
    have ok': "mem_ok s'" using t1(1) k by (auto simp: mem_ok_def heap_inv_def s'_def)
    show ?thesis
    proof (cases "a = 0")
      case True
      from a(2) [unfolded True alloc_spec_null] obtain tl' where
        "heap_ok ?h s1 tl'" "used_regions (hend ?h t) (hblocks s1) tl' = used_regions (hend ?h t) (hblocks t) bs" by auto
      with R' [of tl'] R True m k ok' show ?thesis by auto
    next
      case nz: False
      with a(2) obtain bs' len where "heap_ok ?h s1 bs'" "unat n \<le> len" "unat a + len \<le> hend ?h t"
          "used_regions (hend ?h t) (hblocks s1) bs' = insert (unat a, len) (used_regions (hend ?h t) (hblocks t) bs)"
          "\<forall>q \<in> used_regions (hend ?h t) (hblocks t) bs. disjoint_regions q (unat a, len)"
        unfolding alloc_spec_def by auto
      with R' [of bs'] R nz m k ok' e \<open>0 < unat n\<close> show ?thesis
        by (intro exI [of _ a] exI [of _ s'] conjI) (auto intro!: exI [of _ len])
    qed
  qed
qed

lemma calloc_ok:
  assumes ok: "mem_ok s" and n: "n \<noteq> 0"
  shows "(\<exists>s'. malloc n s = Some (0, s') \<and> calloc n s = None) \<or>
    (\<exists>a s' len. calloc n s = Some (a, s') \<and> a \<noteq> 0 \<and> mem_ok s' \<and> unat n \<le> len \<and>
       mem_regions s' = insert (unat a, len) (mem_regions s) \<and> (\<forall>q \<in> mem_regions s. disjoint_regions q (unat a, len)) \<and>
       (\<forall>p. bytes s' p = (if unat (p - a) < unat n then 0 else bytes s p)))"
proof -
  obtain a s1 where m: "malloc n s = Some (a, s1)" "mem_ok s1" "kernel_heap s1 = kernel_heap s" "bytes s1 = bytes s"
      "if a = 0 then mem_regions s1 = mem_regions s
       else \<exists>len. 0 < len \<and> unat n \<le> len \<and> unat a + len \<le> hend (kernel_heap s) s \<and> mem_regions s1 = insert (unat a, len) (mem_regions s) \<and>
         (\<forall>q \<in> mem_regions s. disjoint_regions q (unat a, len))"
    using malloc_ok [OF ok, of n] by blast
  show ?thesis
  proof (cases "a = 0")
    case True
    then show ?thesis using m(1) n by (simp add: calloc_def)
  next
    case False
    then obtain len where len: "unat n \<le> len" "mem_regions s1 = insert (unat a, len) (mem_regions s)"
        "\<forall>q \<in> mem_regions s. disjoint_regions q (unat a, len)" using m(5) by auto
    define s' where "s' = s1\<lparr>bytes := memset a 0 n (bytes s1),
       hblocks := (\<lambda>q. if overlaps (unat a) (unat n) q then None else hblocks s1 q)\<rparr>"
    have c: "calloc n s = Some (a, s')" using m(1) False by (simp add: calloc_def s'_def)
    obtain bs where bs: "heap_ok (kernel_heap s) s1 bs" using m(2,3) by (auto simp: mem_ok_def heap_inv_def)
    have reg: "(unat a, len) \<in> used_regions (hend (kernel_heap s) s1) (hblocks s1) bs"
      using len(2) heap_regions_eq [OF bs] m(3) by (simp add: mem_regions_def)
    note pb = put_bytes_ok [OF bs reg len(1)]
    have hb: "hblocks s' = hblocks (put_bytes a a n s1)" "heaps s' = heaps (put_bytes a a n s1)" "kernel_heap s' = kernel_heap s"
      using m(3) by (simp_all add: s'_def put_bytes_def)
    then have ok': "heap_ok (kernel_heap s) s' bs" using pb(1) by (simp add: heap_ok_def hend_def)
    have "hend (kernel_heap s) s' = hend (kernel_heap s) s1" using pb(2) hb by (simp add: hend_def)
    then have "mem_regions s' = mem_regions s1"
      using heap_regions_eq [OF ok'] heap_regions_eq [OF bs] pb(3) hb m(3) by (simp add: mem_regions_def)
    moreover have "\<forall>p. bytes s' p = (if unat (p - a) < unat n then 0 else bytes s p)"
      using memset_ok m(4) by (simp add: s'_def)
    moreover have "mem_ok s'" using ok' hb by (auto simp: mem_ok_def heap_inv_def)
    ultimately show ?thesis using c False len by auto
  qed
qed

subsection \<open>Properties\<close>

text \<open>
  C6. Heap allocation. On a well formed heap \<^verbatim>\<open>heap_alloc\<close> of a non-zero size terminates without a
  fault and keeps the heap well formed. Either it returns the payload of a block of at least that
  size, inside the heap and disjoint from every payload in use, all of which stay in use; or it
  returns null with \<^verbatim>\<open>ENOMEM\<close>, having changed no payload in use, and then every unused block is too
  small and is followed by a used block or by the end of the heap, so no merging would have helped.
\<close>

theorem heap_alloc_correct:
  assumes "heap_ok h s bs" and "r \<noteq> 0"
  shows "\<exists>a s' bs'. heap_alloc h r s = Some (a, s') \<and> heap_ok h s' bs' \<and> bytes s' = bytes s \<and>
    (if a = 0 then heap_regions h s' = heap_regions h s \<and> no_fit (hend h s) (hblocks s') (unat r) bs' \<and>
       last_error s' = error_create ENOMEM HEAP_OUT_OF_MEMORY (origin_code EO_HMMNGR)
     else \<exists>len. unat r \<le> len \<and> unat a + len \<le> hend h s \<and> heap_regions h s' = insert (unat a, len) (heap_regions h s) \<and>
       (\<forall>q \<in> heap_regions h s. disjoint_regions q (unat a, len)))"
proof -
  obtain a s' where a: "heap_alloc h r s = Some (a, s')" "alloc_spec h r [] bs s a s'"
    using heap_alloc_ok [OF assms] by blast
  note R = heap_regions_eq [OF assms(1)]
  show ?thesis
  proof (cases "a = 0")
    case True
    from a(2) [unfolded True alloc_spec_null] obtain tl' where t: "heap_ok h s' tl'" "same_heap h s s'"
        "no_fit (hend h s) (hblocks s') (unat r) tl'" "used_regions (hend h s) (hblocks s') tl' = used_regions (hend h s) (hblocks s) bs"
        "last_error s' = error_create ENOMEM HEAP_OUT_OF_MEMORY (origin_code EO_HMMNGR)" by auto
    then show ?thesis using a(1) True R heap_regions_same [OF t(1,2)] same_heap_bytes [OF t(2)] by auto
  next
    case False
    then obtain bs' len where t: "heap_ok h s' bs'" "same_heap h s s'" "unat r \<le> len" "unat a + len \<le> hend h s"
        "used_regions (hend h s) (hblocks s') bs' = insert (unat a, len) (used_regions (hend h s) (hblocks s) bs)"
        "\<forall>q \<in> used_regions (hend h s) (hblocks s) bs. disjoint_regions q (unat a, len)"
      using a(2) unfolding alloc_spec_def by auto
    then show ?thesis
      using a(1) False R heap_regions_same [OF t(1,2)] same_heap_bytes [OF t(2)]
      by (intro exI [of _ a] exI [of _ s'] exI [of _ bs'] conjI) (auto intro!: exI [of _ len])
  qed
qed

definition sample_heap :: heap_mem where
  "sample_heap = \<lparr>last_error = 0,
     heaps = [0x1000 \<mapsto> \<lparr>start_address = 0x100C, hp_size = 0xF4, current_blocks = 2\<rparr>],
     hblocks = [0x100C \<mapsto> \<lparr>hb_magic = HEAP_BLOCK_MAGIC, hb_used = True, hb_flags = False, hb_next = 0x102C\<rparr>,
                0x102C \<mapsto> \<lparr>hb_magic = HEAP_BLOCK_MAGIC, hb_used = False, hb_flags = False, hb_next = 0\<rparr>],
     bytes = (\<lambda>a. ucast a)\<rparr>"

lemma sample_heap_ok: "heap_ok 0x1000 sample_heap [0x100C, 0x102C]"
  by (simp add: heap_ok_def sample_heap_def hend_def)

lemma sample_heap_regions: "(unat (0x1014 :: u32), 24) \<in> heap_regions 0x1000 sample_heap"
  unfolding heap_regions_eq [OF sample_heap_ok] by (simp add: sample_heap_def is_used_def bsize_def)

lemma heap_alloc_correct_witness:
  "\<exists>a s' bs'. heap_alloc 0x1000 16 sample_heap = Some (a, s') \<and> heap_ok 0x1000 s' bs'"
  using heap_alloc_correct [OF sample_heap_ok, of 16] by (simp, blast)

text \<open>
  C7. A client of the kernel heap that allocates and frees in any order never meets a fault and
  never holds overlapping memory: every pointer it holds is the payload of a block in use.
\<close>

theorem heap_client_never_aliased:
  assumes "heap_inv h s"
  shows "\<exists>live s'. alloc_run (heap_alloc h) (\<lambda>a s. map_option snd (heap_free h a s)) ops [] s = Some (live, s') \<and>
    heap_inv h s' \<and> distinct live \<and> (\<forall>a \<in> set live. \<exists>len > 0. (unat a, len) \<in> heap_regions h s')"
proof -
  have "holds (heap_regions h s) []" by (simp add: holds_def)
  from kheap.client_never_aliased [OF assms this, of ops] show ?thesis unfolding holds_def by blast
qed

lemma heap_client_never_aliased_witness:
  "\<exists>live s'. alloc_run (heap_alloc 0x1000) (\<lambda>a s. map_option snd (heap_free 0x1000 a s)) [Alloc 8, Alloc 300, Alloc 4, Free 0] []
     sample_heap = Some (live, s') \<and> distinct live"
proof -
  have "heap_inv 0x1000 sample_heap" using sample_heap_ok by (auto simp: heap_inv_def)
  from heap_client_never_aliased [OF this] show ?thesis by blast
qed

text \<open>
  Reallocation to another size keeps the heap well formed and either fails with null, leaving
  the old payload in use and no byte changed, or moves to a fresh payload disjoint from all others
  that holds the first bytes of the old one, changes no other byte and gives the old payload back.
\<close>

theorem heap_realloc_preserves:
  assumes "heap_ok h s bs" and "(unat a, len) \<in> heap_regions h s" and "n \<noteq> 0" and "unat n \<noteq> len"
  shows "\<exists>a' s' bs'. heap_realloc h a n s = Some (a', s') \<and> heap_ok h s' bs' \<and>
    (if a' = 0 then heap_regions h s' = heap_regions h s \<and> bytes s' = bytes s
     else \<exists>len'. unat n \<le> len' \<and> (\<forall>q \<in> heap_regions h s. disjoint_regions q (unat a', len')) \<and>
       heap_regions h s' = insert (unat a', len') (heap_regions h s) - {(unat a, len)} \<and>
       (\<forall>p. bytes s' p = (if unat (p - a') < min len (unat n) then bytes s (a + (p - a')) else bytes s p)))"
proof -
  note R = heap_regions_eq [OF assms(1)]
  obtain a' s' bs' where r: "heap_realloc h a n s = Some (a', s')" "heap_ok h s' bs'" "hend h s' = hend h s"
    "if a' = 0 then used_regions (hend h s) (hblocks s') bs' = used_regions (hend h s) (hblocks s) bs \<and> bytes s' = bytes s
     else \<exists>len'. unat n \<le> len' \<and> (\<forall>q \<in> used_regions (hend h s) (hblocks s) bs. disjoint_regions q (unat a', len')) \<and>
       used_regions (hend h s) (hblocks s') bs' = insert (unat a', len') (used_regions (hend h s) (hblocks s) bs) - {(unat a, len)} \<and>
       (\<forall>p. bytes s' p = (if unat (p - a') < min len (unat n) then bytes s (a + (p - a')) else bytes s p))"
    using heap_realloc_ok [OF assms(1) assms(2) [unfolded R] assms(3,4)] by blast
  have R': "heap_regions h s' = used_regions (hend h s) (hblocks s') bs'" using heap_regions_eq [OF r(2)] r(3) by simp
  show ?thesis using r(1,2) r(4) [folded R R'] by blast
qed

lemma heap_realloc_preserves_witness:
  "\<exists>a' s' bs'. heap_realloc 0x1000 0x1014 40 sample_heap = Some (a', s') \<and> heap_ok 0x1000 s' bs'"
  using heap_realloc_preserves [OF sample_heap_ok sample_heap_regions, of 40] by (simp, blast)

text \<open>
  Defragmentation of a well formed heap terminates, returns the number of blocks it merged away,
  leaves no two adjacent unused blocks and does not touch the payloads in use.
\<close>

theorem heap_defrag_correct:
  assumes "heap_ok h s bs"
  shows "\<exists>s' bs'. heap_defrag h s = Some (of_nat (length bs - length bs'), s') \<and> heap_ok h s' bs' \<and>
    length bs' \<le> length bs \<and> heap_regions h s' = heap_regions h s \<and> bytes s' = bytes s \<and> no_adjacent_unused (hblocks s') bs'"
proof -
  obtain s' bs' where r: "heap_defrag h s = Some (of_nat (length bs - length bs'), s')" "heap_ok h s' bs'" "same_heap h s s'"
    "length bs' \<le> length bs" "used_regions (hend h s) (hblocks s') bs' = used_regions (hend h s) (hblocks s) bs"
    "no_adjacent_unused (hblocks s') bs'" using heap_defrag_ok [OF assms] by blast
  then have "heap_regions h s' = heap_regions h s" "bytes s' = bytes s"
    using heap_regions_eq [OF assms] heap_regions_same [OF r(2,3)] same_heap_bytes [OF r(3)] by simp_all
  then show ?thesis using r by blast
qed

lemma heap_defrag_correct_witness:
  "\<exists>n s' bs'. heap_defrag 0x1000 sample_heap = Some (n, s') \<and> heap_ok 0x1000 s' bs' \<and> no_adjacent_unused (hblocks s') bs'"
  using heap_defrag_correct [OF sample_heap_ok] by blast

definition merged_heap :: heap_mem where
  \<comment> \<open>Block 0x102C was freed and merged into 0x100C; its header is still in memory.\<close>
  "merged_heap = \<lparr>last_error = 0,
     heaps = [0x1000 \<mapsto> \<lparr>start_address = 0x100C, hp_size = 0xF4, current_blocks = 2\<rparr>],
     hblocks = [0x100C \<mapsto> \<lparr>hb_magic = HEAP_BLOCK_MAGIC, hb_used = False, hb_flags = False, hb_next = 0x104C\<rparr>,
                0x102C \<mapsto> \<lparr>hb_magic = HEAP_BLOCK_MAGIC, hb_used = False, hb_flags = False, hb_next = 0x104C\<rparr>,
                0x104C \<mapsto> \<lparr>hb_magic = HEAP_BLOCK_MAGIC, hb_used = False, hb_flags = False, hb_next = 0\<rparr>],
     bytes = (\<lambda>_. 0)\<rparr>"

lemma merged_heap_ok: "heap_ok 0x1000 merged_heap [0x100C, 0x104C]"
  by (simp add: heap_ok_def merged_heap_def hend_def)

lemma double_free:
  "\<exists>s'. heap_free 0x1000 0x1034 merged_heap = Some (ERROR_OK, s') \<and> \<not> heap_inv 0x1000 s'"
proof -
  let ?m = "\<lparr>start_address = 0x100C, hp_size = 0xF4, current_blocks = 1\<rparr>"
  let ?s' = "merged_heap\<lparr>hblocks := (hblocks merged_heap)(0x102C \<mapsto>
      \<lparr>hb_magic = HEAP_BLOCK_MAGIC, hb_used = False, hb_flags = False, hb_next = 0\<rparr>),
    heaps := (heaps merged_heap)(0x1000 \<mapsto> ?m)\<rparr>"
  have "heap_free 0x1000 0x1034 merged_heap = Some (ERROR_OK, ?s')"
    by (simp add: heap_free_def merged_heap_def upd_block_def heap_front_merge_block_def upd_heap_def HEAP_BLOCK_MAGIC_def)
  moreover have "\<not> heap_inv 0x1000 ?s'"
  proof
    assume "heap_inv 0x1000 ?s'"
    then obtain bs where "heap_ok 0x1000 ?s' bs" by (auto simp: heap_inv_def)
    then have c: "hchain (hblocks ?s') 0x100C bs 0" "length bs = 1"
      by (auto simp: heap_ok_def)
    then obtain b where "bs = [b]" by (auto simp: length_Suc_conv)
    with c(1) show False by (auto simp: merged_heap_def)
  qed
  ultimately show ?thesis by blast
qed

text \<open>
  A double free is not detected. The magic number of a block that was merged away stays in
  memory, so freeing its payload again returns success, lowers the block count of a heap that did
  not lose a block, and leaves the heap ill formed.
\<close>

theorem heap_double_free_undetected:
  "\<exists>(s :: heap_mem) a s'. heap_inv 0x1000 s \<and> (\<forall>len. (unat a, len) \<notin> heap_regions 0x1000 s) \<and>
     heap_free 0x1000 a s = Some (ERROR_OK, s') \<and> \<not> heap_inv 0x1000 s'"
proof -
  have "heap_regions 0x1000 merged_heap = {}"
    unfolding heap_regions_eq [OF merged_heap_ok] by (simp add: merged_heap_def is_used_def)
  moreover have "heap_inv 0x1000 merged_heap" using merged_heap_ok by (auto simp: heap_inv_def)
  ultimately show ?thesis using double_free by blast
qed

text \<open>
  \<^verbatim>\<open>calloc\<close> of a non-zero size returns a payload disjoint from all others whose bytes are zero,
  with every other byte unchanged, or, when \<^verbatim>\<open>malloc\<close> finds no memory, zeroes through the null pointer.
\<close>

theorem calloc_zeroed:
  assumes "mem_ok s" and "n \<noteq> 0"
  shows "(\<exists>s'. malloc n s = Some (0, s') \<and> calloc n s = None) \<or>
    (\<exists>a s' len. calloc n s = Some (a, s') \<and> a \<noteq> 0 \<and> mem_ok s' \<and> unat n \<le> len \<and>
       mem_regions s' = insert (unat a, len) (mem_regions s) \<and> (\<forall>q \<in> mem_regions s. disjoint_regions q (unat a, len)) \<and>
       (\<forall>p. bytes s' p = (if unat (p - a) < unat n then 0 else bytes s p)))"
  using assms by (rule calloc_ok)

definition sample_mem :: kernel_mem where
  "sample_mem = heap_mem.extend sample_heap \<lparr>kernel_heap = 0x1000, in_critical_section = 0\<rparr>"

lemma calloc_zeroed_witness:
  "(\<exists>s'. malloc 16 sample_mem = Some (0, s')) \<or> (\<exists>a s'. calloc 16 sample_mem = Some (a, s') \<and> a \<noteq> 0)"
proof -
  have "heap_ok 0x1000 sample_mem [0x100C, 0x102C]"
    by (simp add: heap_ok_def sample_mem_def sample_heap_def hend_def heap_mem.extend_def)
  then have "mem_ok sample_mem" by (auto simp: mem_ok_def heap_inv_def sample_mem_def heap_mem.extend_def)
  from calloc_zeroed [OF this, of 16] show ?thesis by auto
qed

end
