(* ===== verification/Phys_Memory.thy ===== *)
theory Phys_Memory
  imports Kernel_Error Utility Allocator
begin

text \<open>
  The physical memory manager, mmngr_phys.cpp. The bitmap is the list of the 32-bit words that lie
  at the bitmap's base address; an access outside it is \<open>None\<close>. \<open>block_used\<close> reads the bit of a
  block. \<open>pmm_ok\<close> is the invariant: block 0 is never free, the word loop of \<^verbatim>\<open>mmap_first_free\<close> stays
  inside the bitmap, and the use count is the number of blocks whose bit is set.
\<close>

subsection \<open>State\<close>

record pmm = kerr +
  mmngr_memory_size :: u32
  mmngr_used_blocks :: u32
  mmngr_max_blocks :: u32
  mmngr_bitmap :: "u32 list"
  cr0 :: u32
  cr3 :: physical_addr

record physical_memory_region =
  pr_base :: u32
  pr_length :: u32

definition PMEM_OUT_OF_MEM :: u16 where "PMEM_OUT_OF_MEM = 1"
definition PMEM_BAD_ARGUMENT :: u16 where "PMEM_BAD_ARGUMENT = 2"
definition PMMNGR_BLOCK_SIZE :: u32 where [kernel_simps]: "PMMNGR_BLOCK_SIZE = 4096"
definition PMMNGR_BLOCKS_PER_BYTE :: u32 where [kernel_simps]: "PMMNGR_BLOCKS_PER_BYTE = 8"

subsection \<open>The bitmap\<close>

text \<open>\<^verbatim>\<open>bit\<close> is a signed \<^verbatim>\<open>int\<close>: the word index truncates toward zero and the shift count is taken modulo 32.\<close>

definition one_bit :: "nat \<Rightarrow> u32" where
  "one_bit k = push_bit k 1"

definition mmap_index :: "u32 \<Rightarrow> int" where
  "mmap_index b = sint b sdiv 32"

definition mmap_mask :: "u32 \<Rightarrow> u32" where
  "mmap_mask b = one_bit (nat ((sint b smod 32) mod 32))"

definition mmap_word :: "u32 list \<Rightarrow> u32 \<Rightarrow> u32 option" where
  "mmap_word bm b = (if 0 \<le> mmap_index b \<and> nat (mmap_index b) < length bm
     then Some (bm ! nat (mmap_index b)) else None)"

definition mmap_set :: "u32 \<Rightarrow> u32 list \<Rightarrow> u32 list option" where
  "mmap_set b bm = do { w \<leftarrow> mmap_word bm b; Some (bm[nat (mmap_index b) := w OR mmap_mask b]) }"

definition mmap_unset :: "u32 \<Rightarrow> u32 list \<Rightarrow> u32 list option" where
  "mmap_unset b bm = do { w \<leftarrow> mmap_word bm b; Some (bm[nat (mmap_index b) := w AND NOT (mmap_mask b)]) }"

definition mmap_test :: "u32 \<Rightarrow> u32 list \<Rightarrow> bool option" where
  "mmap_test b bm = do { w \<leftarrow> mmap_word bm b; Some (w AND mmap_mask b \<noteq> 0) }"

function mmap_scan_word :: "u32 \<Rightarrow> nat \<Rightarrow> nat option" where
  \<comment> \<open>The inner loop; \<^verbatim>\<open>bit\<close> is 1 shifted left \<open>j\<close> times.\<close>
  "mmap_scan_word w j = (if j < 32 then (if w AND one_bit j = 0 then Some j else mmap_scan_word w (Suc j)) else None)"
  by auto
termination
  by (relation "measure (\<lambda>(w, j). 32 - j)") auto

partial_function (option) mmap_first_free_loop :: "u32 list \<Rightarrow> u32 \<Rightarrow> u32 \<Rightarrow> u32 option option" where
  [code]: "mmap_first_free_loop bm max_blocks i =
     (if i < max_blocks div 32 then do {
        w \<leftarrow> array_get bm i;
        case (if w \<noteq> 0xFFFFFFFF then mmap_scan_word w 0 else None) of
          Some j \<Rightarrow> Some (Some (i * 32 + of_nat j))
        | None \<Rightarrow> mmap_first_free_loop bm max_blocks (i + 1)
      }
      else Some None)"

definition mmap_first_free :: "'a pmm_scheme \<Rightarrow> (u32 \<times> 'a pmm_scheme) option" where
  "mmap_first_free s = do {
     r \<leftarrow> mmap_first_free_loop (mmngr_bitmap s) (mmngr_max_blocks s) 0;
     case r of Some frame \<Rightarrow> Some (frame, s)
     | None \<Rightarrow> Some (0, set_last_error ENOMEM PMEM_OUT_OF_MEM EO_PMMNGR s)
   }"

partial_function (option) mmap_run_loop :: "u32 list \<Rightarrow> u32 \<Rightarrow> u32 \<Rightarrow> u32 \<Rightarrow> u32 \<Rightarrow> (u32 option \<times> u32) option" where
  \<comment> \<open>The \<^verbatim>\<open>while\<close> loop: \<open>Some startBit\<close> when it returns, \<open>None\<close> and the final \<^verbatim>\<open>bit\<close> when it is left.\<close>
  [code]: "mmap_run_loop bm max_blocks count startBit b =
     (if b < max_blocks then do {
        let b = b + 1;
        used \<leftarrow> mmap_test b bm;
        if used then Some (None, b)
        else if b - startBit + 1 = count then Some (Some startBit, b)
        else mmap_run_loop bm max_blocks count startBit b
      }
      else Some (None, b))"

partial_function (option) mmap_first_free_s_loop :: "u32 list \<Rightarrow> u32 \<Rightarrow> u32 \<Rightarrow> u32 \<Rightarrow> u32 option option" where
  [code]: "mmap_first_free_s_loop bm max_blocks count b =
     (if b < max_blocks then do {
        w \<leftarrow> array_get bm (b div 32);
        if w = 0xFFFFFFFF then mmap_first_free_s_loop bm max_blocks count (b + 32)
        else do {
          used \<leftarrow> mmap_test b bm;
          (found, b') \<leftarrow> (if \<not> used then mmap_run_loop bm max_blocks count b b else Some (None, b));
          case found of Some startBit \<Rightarrow> Some (Some startBit)
          | None \<Rightarrow> mmap_first_free_s_loop bm max_blocks count (b' + 1)
        }
      }
      else Some None)"

definition mmap_first_free_s :: "u32 \<Rightarrow> 'a pmm_scheme \<Rightarrow> (u32 \<times> 'a pmm_scheme) option" where
  "mmap_first_free_s count s =
     (if count = 0 then Some (- 1, set_last_error EINVAL PMEM_BAD_ARGUMENT EO_PMMNGR s)
      else if count = 1 then mmap_first_free s
      else do {
        r \<leftarrow> mmap_first_free_s_loop (mmngr_bitmap s) (mmngr_max_blocks s) count 0;
        case r of Some startBit \<Rightarrow> Some (startBit, s)
        | None \<Rightarrow> Some (0, set_last_error ENOMEM PMEM_OUT_OF_MEM EO_PMMNGR s)
      })"

subsection \<open>Alignment\<close>

definition pmmngr_block_align_region :: "physical_memory_region \<Rightarrow> physical_memory_region option" where
  "pmmngr_block_align_region reg = do {
     let new_base = pr_base reg;
     let new_length = pr_length reg;
     (new_base, new_length) \<leftarrow> (if new_base mod PMMNGR_BLOCK_SIZE \<noteq> 0 then
          (let new_base = pr_base reg + PMMNGR_BLOCK_SIZE - pr_base reg mod PMMNGR_BLOCK_SIZE in
           if new_length < pr_base reg mod PMMNGR_BLOCK_SIZE then None
           else Some (new_base, new_length - (PMMNGR_BLOCK_SIZE - pr_base reg mod PMMNGR_BLOCK_SIZE)))
        else Some (new_base, new_length));
     let new_length = (if new_length mod PMMNGR_BLOCK_SIZE \<noteq> 0
        then new_length - new_length mod PMMNGR_BLOCK_SIZE else new_length);
     Some (reg\<lparr>pr_base := new_base, pr_length := new_length\<rparr>)
   }"

definition pmmngr_get_next_align :: "u32 \<Rightarrow> u32" where
  "pmmngr_get_next_align value = (if value mod PMMNGR_BLOCK_SIZE \<noteq> 0
     then value + PMMNGR_BLOCK_SIZE - value mod PMMNGR_BLOCK_SIZE else value)"

definition pmmngr_get_prev_align :: "u32 \<Rightarrow> u32" where
  "pmmngr_get_prev_align value = (if value mod PMMNGR_BLOCK_SIZE \<noteq> 0
     then value - value mod PMMNGR_BLOCK_SIZE else value)"

subsection \<open>Interface functions\<close>

definition pmmngr_get_memory_size :: "'a pmm_scheme \<Rightarrow> u32" where
  "pmmngr_get_memory_size s = mmngr_memory_size s"

definition pmmngr_get_block_use_count :: "'a pmm_scheme \<Rightarrow> u32" where
  "pmmngr_get_block_use_count s = mmngr_used_blocks s"

definition pmmngr_get_free_block_count :: "'a pmm_scheme \<Rightarrow> u32" where
  "pmmngr_get_free_block_count s = mmngr_max_blocks s - mmngr_used_blocks s"

definition pmmngr_get_block_count :: "'a pmm_scheme \<Rightarrow> u32" where
  "pmmngr_get_block_count s = mmngr_max_blocks s"

definition pmmngr_get_block_size :: u32 where
  "pmmngr_get_block_size = PMMNGR_BLOCK_SIZE"

definition fill_ff :: "nat \<Rightarrow> u32 list \<Rightarrow> u32 list option" where
  \<comment> \<open>\<^verbatim>\<open>memset(p, 0xff, n)\<close> on words: \<open>n div 4\<close> whole words and the low \<open>n mod 4\<close> bytes of the next.\<close>
  "fill_ff n ws = (if n \<le> 4 * length ws then
     Some (map (\<lambda>i. if i < n div 4 then - 1 else if i = n div 4 then ws ! i OR mask (8 * (n mod 4)) else ws ! i)
       [0..<length ws]) else None)"

definition pmmngr_init :: "u32 \<Rightarrow> u32 list \<Rightarrow> 'a pmm_scheme \<Rightarrow> 'a pmm_scheme option" where
  \<comment> \<open>\<open>base\<close>: the words found at the bitmap address.\<close>
  "pmmngr_init size_kb base s = do {
     let s = s\<lparr>mmngr_memory_size := size_kb, mmngr_bitmap := base\<rparr>;
     let s = s\<lparr>mmngr_max_blocks := pmmngr_get_memory_size s * 1024 div PMMNGR_BLOCK_SIZE\<rparr>;
     let s = s\<lparr>mmngr_used_blocks := mmngr_max_blocks s\<rparr>;
     bm \<leftarrow> fill_ff (unat (pmmngr_get_block_count s div PMMNGR_BLOCKS_PER_BYTE)) (mmngr_bitmap s);
     Some (s\<lparr>mmngr_bitmap := bm\<rparr>)
   }"

primrec free_region_loop :: "nat \<Rightarrow> u32 \<Rightarrow> 'a pmm_scheme \<Rightarrow> 'a pmm_scheme option" where
  \<comment> \<open>\<open>n\<close> iterations remain; \<^verbatim>\<open>aligned_addr\<close> advances only when a block was in use.\<close>
  "free_region_loop 0 aligned_addr s = Some s"
| "free_region_loop (Suc n) aligned_addr s = do {
     used \<leftarrow> mmap_test aligned_addr (mmngr_bitmap s);
     if used then do {
       bm \<leftarrow> mmap_unset aligned_addr (mmngr_bitmap s);
       free_region_loop n (aligned_addr + 1) (s\<lparr>mmngr_bitmap := bm, mmngr_used_blocks := mmngr_used_blocks s - 1\<rparr>)
     }
     else free_region_loop n aligned_addr s
   }"

definition pmmngr_free_region ::
  "physical_memory_region \<Rightarrow> 'a pmm_scheme \<Rightarrow> (error_t option \<times> 'a pmm_scheme) option" where
  \<comment> \<open>The success path ends without a \<^verbatim>\<open>return\<close>, so its \<^verbatim>\<open>error_t\<close> is not determined: \<open>None\<close>.\<close>
  "pmmngr_free_region region s =
     (if pr_length region = 0
      then Some (Some ERROR_OCCUR, set_last_error EINVAL PMEM_BAD_ARGUMENT EO_PMMNGR s)
      else if pr_length region mod PMMNGR_BLOCK_SIZE \<noteq> 0 \<or> pr_base region mod PMMNGR_BLOCK_SIZE \<noteq> 0 then None
      else do {
        let aligned_addr = pr_base region div PMMNGR_BLOCK_SIZE;
        let aligned_size = pr_length region div PMMNGR_BLOCK_SIZE;
        s1 \<leftarrow> free_region_loop (unat aligned_size) aligned_addr s;
        used0 \<leftarrow> mmap_test 0 (mmngr_bitmap s1);
        if \<not> used0 then do {
          bm \<leftarrow> mmap_set 0 (mmngr_bitmap s1);
          Some (None, s1\<lparr>mmngr_bitmap := bm, mmngr_used_blocks := mmngr_used_blocks s1 + 1\<rparr>)
        }
        else Some (None, s1)
      })"

primrec reserve_region_loop :: "nat \<Rightarrow> u32 \<Rightarrow> 'a pmm_scheme \<Rightarrow> 'a pmm_scheme option" where
  "reserve_region_loop 0 aligned_addr s = Some s"
| "reserve_region_loop (Suc n) aligned_addr s = do {
     used \<leftarrow> mmap_test aligned_addr (mmngr_bitmap s);
     if \<not> used then do {
       bm \<leftarrow> mmap_set aligned_addr (mmngr_bitmap s);
       reserve_region_loop n (aligned_addr + 1) (s\<lparr>mmngr_bitmap := bm, mmngr_used_blocks := mmngr_used_blocks s + 1\<rparr>)
     }
     else reserve_region_loop n aligned_addr s
   }"

definition pmmngr_reserve_region ::
  "physical_memory_region \<Rightarrow> 'a pmm_scheme \<Rightarrow> (error_t option \<times> 'a pmm_scheme) option" where
  "pmmngr_reserve_region region s =
     (if pr_length region = 0
      then Some (Some ERROR_OCCUR, set_last_error EINVAL PMEM_BAD_ARGUMENT EO_PMMNGR s)
      else if pr_length region mod PMMNGR_BLOCK_SIZE \<noteq> 0 \<or> pr_base region mod PMMNGR_BLOCK_SIZE \<noteq> 0 then None
      else do {
        let aligned_addr = pr_base region div PMMNGR_BLOCK_SIZE;
        let aligned_size = pr_length region div PMMNGR_BLOCK_SIZE;
        s1 \<leftarrow> reserve_region_loop (unat aligned_size) aligned_addr s;
        Some (None, s1)
      })"

definition pmmngr_alloc_block :: "'a pmm_scheme \<Rightarrow> (physical_addr \<times> 'a pmm_scheme) option" where
  "pmmngr_alloc_block s =
     (if pmmngr_get_free_block_count s \<le> 0
      then Some (0, set_last_error ENOMEM PMEM_OUT_OF_MEM EO_PMMNGR s)
      else do {
        (frame, s1) \<leftarrow> mmap_first_free s;
        if frame = 0 then Some (0, s1)
        else do {
          bm \<leftarrow> mmap_set frame (mmngr_bitmap s1);
          let addr = frame * PMMNGR_BLOCK_SIZE;
          Some (addr, s1\<lparr>mmngr_bitmap := bm, mmngr_used_blocks := mmngr_used_blocks s1 + 1\<rparr>)
        }
      })"

definition pmmngr_free_block :: "physical_addr \<Rightarrow> 'a pmm_scheme \<Rightarrow> 'a pmm_scheme option" where
  "pmmngr_free_block addr s = do {
     let frame = addr div PMMNGR_BLOCK_SIZE;
     used \<leftarrow> mmap_test frame (mmngr_bitmap s);
     if used then do {
       bm \<leftarrow> mmap_unset frame (mmngr_bitmap s);
       Some (s\<lparr>mmngr_bitmap := bm, mmngr_used_blocks := mmngr_used_blocks s - 1\<rparr>)
     }
     else Some s
   }"

primrec mmap_set_run :: "nat \<Rightarrow> u32 \<Rightarrow> u32 list \<Rightarrow> u32 list option" where
  "mmap_set_run 0 frame bm = Some bm"
| "mmap_set_run (Suc n) frame bm = do { b \<leftarrow> mmap_set frame bm; mmap_set_run n (frame + 1) b }"

definition pmmngr_alloc_blocks :: "u32 \<Rightarrow> 'a pmm_scheme \<Rightarrow> (physical_addr \<times> 'a pmm_scheme) option" where
  "pmmngr_alloc_blocks sz s = do {
     count \<leftarrow> ceil_division sz pmmngr_get_block_size;
     if pmmngr_get_free_block_count s < count
     then Some (0, set_last_error ENOMEM PMEM_OUT_OF_MEM EO_PMMNGR s)
     else do {
       (frame, s1) \<leftarrow> mmap_first_free_s count s;
       if frame = 0 then Some (0, s1)
       else do {
         bm \<leftarrow> mmap_set_run (unat count) frame (mmngr_bitmap s1);
         let addr = frame * PMMNGR_BLOCK_SIZE;
         Some (addr, s1\<lparr>mmngr_bitmap := bm, mmngr_used_blocks := mmngr_used_blocks s1 + count\<rparr>)
       }
     }
   }"

primrec free_blocks_loop :: "nat \<Rightarrow> u32 \<Rightarrow> u32 \<Rightarrow> 'a pmm_scheme \<Rightarrow> 'a pmm_scheme option" where
  \<comment> \<open>\<open>n\<close> iterations remain, \<open>i\<close> is the loop variable.\<close>
  "free_blocks_loop 0 frame i s = Some s"
| "free_blocks_loop (Suc n) frame i s = do {
     used \<leftarrow> mmap_test (frame + i) (mmngr_bitmap s);
     if used then do {
       bm \<leftarrow> mmap_unset frame (mmngr_bitmap s);
       free_blocks_loop n frame (i + 1) (s\<lparr>mmngr_bitmap := bm, mmngr_used_blocks := mmngr_used_blocks s - 1\<rparr>)
     }
     else free_blocks_loop n frame (i + 1) s
   }"

definition pmmngr_free_blocks :: "physical_addr \<Rightarrow> u32 \<Rightarrow> 'a pmm_scheme \<Rightarrow> 'a pmm_scheme option" where
  "pmmngr_free_blocks addr sz s = do {
     count \<leftarrow> ceil_division sz pmmngr_get_block_size;
     let frame = addr div PMMNGR_BLOCK_SIZE;
     free_blocks_loop (unat count) frame 0 s
   }"

definition pmmngr_paging_enable :: "bool \<Rightarrow> 'a pmm_scheme \<Rightarrow> 'a pmm_scheme" where
  "pmmngr_paging_enable flag s = s\<lparr>cr0 := (if flag then cr0 s OR 0x80000000 else cr0 s AND 0x7FFFFFFF)\<rparr>"

definition pmmngr_get_paging_enabled :: "'a pmm_scheme \<Rightarrow> bool" where
  "pmmngr_get_paging_enabled s \<longleftrightarrow> cr0 s AND 0x80000000 \<noteq> 0"

definition pmmngr_load_PDBR :: "physical_addr \<Rightarrow> 'a pmm_scheme \<Rightarrow> 'a pmm_scheme" where
  "pmmngr_load_PDBR addr s = s\<lparr>cr3 := addr\<rparr>"

definition pmmngr_get_PDBR :: "'a pmm_scheme \<Rightarrow> physical_addr" where
  "pmmngr_get_PDBR s = cr3 s"

subsection \<open>Bits of the bitmap\<close>

definition block_used :: "u32 list \<Rightarrow> nat \<Rightarrow> bool" where
  "block_used bm i \<longleftrightarrow> bit (bm ! (i div 32)) (i mod 32)"

definition block_in :: "u32 list \<Rightarrow> u32 \<Rightarrow> bool" where
  "block_in bm b \<longleftrightarrow> unat b < 2 ^ 31 \<and> unat b < 32 * length bm"

lemma signed_take_bit_nat: "n < 2 ^ 31 \<Longrightarrow> signed_take_bit 31 (int n) = int n"
  by (intro signed_take_bit_int_eq_self) simp_all

lemma sint_small: "unat b < 2 ^ 31 \<Longrightarrow> sint b = int (unat b)"
  for b :: u32
  unfolding sint_uint uint_nat using signed_take_bit_nat [of "unat b"] by simp

lemma sdiv_nat: "int n sdiv 32 = int (n div 32)"
  using signed_divide_int_eq_divide_int [of "int n" 32] zdiv_int [of n 32] by (cases "n = 0") simp_all

lemma smod_nat: "nat ((int n smod 32) mod 32) = n mod 32"
proof -
  have "int n smod 32 = int (n mod 32)"
    using signed_modulo_int_eq_modulo_int [of "int n" 32] zmod_int [of n 32] by (cases "n = 0") simp_all
  then show ?thesis by (simp flip: zmod_int)
qed

lemma mmap_index_small: "unat b < 2 ^ 31 \<Longrightarrow> mmap_index b = int (unat b div 32)"
  by (simp only: mmap_index_def sint_small sdiv_nat)

lemma mmap_mask_small: "unat b < 2 ^ 31 \<Longrightarrow> mmap_mask b = one_bit (unat b mod 32)"
  by (simp only: mmap_mask_def sint_small smod_nat)

lemma one_bit_iff [simp]: "n < 32 \<Longrightarrow> bit (one_bit k) n \<longleftrightarrow> n = k"
  by (auto simp: one_bit_def bit_simps)

lemma bit_test_mask: "k < 32 \<Longrightarrow> w AND one_bit k = 0 \<longleftrightarrow> \<not> bit w k"
  for w :: u32
proof
  assume k: "k < 32" and "w AND one_bit k = 0"
  then have "\<not> bit (w AND one_bit k) k" by simp
  then show "\<not> bit w k" using k by (simp add: bit_and_iff)
next
  assume "k < 32" "\<not> bit w k"
  then show "w AND one_bit k = 0" by (intro bit_word_eqI) (auto simp: bit_and_iff)
qed

lemma mmap_word_in: "block_in bm b \<Longrightarrow> mmap_word bm b = Some (bm ! (unat b div 32))"
  by (auto simp: mmap_word_def block_in_def mmap_index_small less_mult_imp_div_less mult.commute)

lemma mmap_test_in: "block_in bm b \<Longrightarrow> mmap_test b bm = Some (block_used bm (unat b))"
  by (simp add: mmap_test_def mmap_word_in block_used_def mmap_mask_small bit_test_mask block_in_def)

lemma mmap_test_out: "unat b < 2 ^ 31 \<Longrightarrow> 32 * length bm \<le> unat b \<Longrightarrow> mmap_test b bm = None"
  by (auto simp: mmap_test_def mmap_word_def mmap_index_small less_eq_div_iff_mult_less_eq mult.commute not_less)

definition block_set :: "nat \<Rightarrow> u32 list \<Rightarrow> u32 list" where
  "block_set i bm = bm[i div 32 := bm ! (i div 32) OR one_bit (i mod 32)]"

definition block_clear :: "nat \<Rightarrow> u32 list \<Rightarrow> u32 list" where
  "block_clear i bm = bm[i div 32 := bm ! (i div 32) AND NOT (one_bit (i mod 32))]"

lemma mmap_set_in: "block_in bm b \<Longrightarrow> mmap_set b bm = Some (block_set (unat b) bm)"
  by (simp add: mmap_set_def mmap_word_in block_set_def mmap_mask_small mmap_index_small block_in_def)

lemma mmap_unset_in: "block_in bm b \<Longrightarrow> mmap_unset b bm = Some (block_clear (unat b) bm)"
  by (simp add: mmap_unset_def mmap_word_in block_clear_def mmap_mask_small mmap_index_small block_in_def)

lemma block_length [simp]: "length (block_set i bm) = length bm" "length (block_clear i bm) = length bm"
  by (simp_all add: block_set_def block_clear_def)

lemma block_Nil [simp]: "block_set i bm = [] \<longleftrightarrow> bm = []" "block_clear i bm = [] \<longleftrightarrow> bm = []"
  by (simp_all add: block_set_def block_clear_def)

lemma block_in_upd [simp]:
  "block_in (block_set i bm) b = block_in bm b" "block_in (block_clear i bm) b = block_in bm b"
  by (simp_all add: block_in_def)

lemma div_mod_eq_iff: "i div 32 = j div 32 \<and> i mod 32 = j mod 32 \<longleftrightarrow> i = j"
  for i j :: nat
  by (metis div_mult_mod_eq)

lemma block_used_set [simp]: "i < 32 * length bm \<Longrightarrow> block_used (block_set i bm) j \<longleftrightarrow> j = i \<or> block_used bm j"
  using div_mod_eq_iff [of i j]
  by (auto simp: block_used_def block_set_def nth_list_update less_mult_imp_div_less mult.commute bit_or_iff)

lemma block_used_clear [simp]: "i < 32 * length bm \<Longrightarrow> block_used (block_clear i bm) j \<longleftrightarrow> j \<noteq> i \<and> block_used bm j"
  using div_mod_eq_iff [of i j]
  by (auto simp: block_used_def block_clear_def nth_list_update less_mult_imp_div_less mult.commute bit_and_iff bit_not_iff)

lemma block_clear_set: "i < 32 * length bm \<Longrightarrow> \<not> block_used bm i \<Longrightarrow> block_clear i (block_set i bm) = bm"
proof -
  assume i: "i < 32 * length bm" and "\<not> block_used bm i"
  then have "(bm ! (i div 32) OR one_bit (i mod 32)) AND NOT (one_bit (i mod 32)) = bm ! (i div 32)"
    by (intro bit_word_eqI) (auto simp: block_used_def bit_or_iff bit_and_iff bit_not_iff)
  then show ?thesis using i by (simp add: block_clear_def block_set_def less_mult_imp_div_less mult.commute)
qed

lemma block_clear_again: "block_clear i (block_clear i bm) = block_clear i bm"
proof (cases "i div 32 < length bm")
  case True
  have "(w AND NOT m) AND NOT m = w AND NOT m" for w m :: u32
    by (rule bit_word_eqI) (auto simp: bit_and_iff)
  with True show ?thesis by (simp add: block_clear_def)
qed (simp add: block_clear_def list_update_beyond)

subsection \<open>The search for a free block\<close>

declare mmap_scan_word.simps [simp del]

lemma mmap_scan_word_spec:
  "mmap_scan_word w j = (if \<exists>k. j \<le> k \<and> k < 32 \<and> \<not> bit w k then Some (LEAST k. j \<le> k \<and> \<not> bit w k) else None)"
proof (induction w j rule: mmap_scan_word.induct)
  case (1 w j)
  show ?case
  proof (cases "j < 32 \<and> bit w j")
    case True
    have "(j \<le> k \<and> \<not> bit w k) = (Suc j \<le> k \<and> \<not> bit w k)" for k
      using True by (metis Suc_leD Suc_leI le_neq_implies_less)
    then show ?thesis using 1 True by (subst mmap_scan_word.simps) (auto simp: bit_test_mask)
  next
    case False
    then show ?thesis
      by (subst mmap_scan_word.simps) (auto simp: bit_test_mask intro!: Least_equality [symmetric])
  qed
qed

lemma word_full_iff: "w = 0xFFFFFFFF \<longleftrightarrow> (\<forall>k < 32. bit w k)"
  for w :: u32
proof -
  have "(0xFFFFFFFF :: u32) = mask 32" by (simp add: mask_eq_exp_minus_1)
  moreover have "w = mask 32 \<longleftrightarrow> (\<forall>k < 32. bit w k)"
    by (simp add: bit_eq_iff bit_mask_iff)
  ultimately show ?thesis by (simp only:)
qed

lemma block_used_word: "k < 32 \<Longrightarrow> block_used bm (32 * i + k) \<longleftrightarrow> bit (bm ! i) k"
  by (simp add: block_used_def)

lemma mmap_first_free_loop_ok:
  assumes "unat n div 32 \<le> length bm"
  shows "unat i \<le> unat n div 32 \<Longrightarrow> (\<exists>r. mmap_first_free_loop bm n i = Some r \<and>
    (case r of None \<Rightarrow> \<forall>j. 32 * unat i \<le> j \<longrightarrow> j < 32 * (unat n div 32) \<longrightarrow> block_used bm j
     | Some f \<Rightarrow> 32 * unat i \<le> unat f \<and> unat f < 32 * (unat n div 32) \<and> \<not> block_used bm (unat f) \<and>
         (\<forall>j. 32 * unat i \<le> j \<longrightarrow> j < unat f \<longrightarrow> block_used bm j)))"
proof (induction "unat n div 32 - unat i" arbitrary: i)
  case 0
  then have "\<not> i < n div 32" by (simp add: word_less_nat_alt unat_div)
  with 0 show ?case by (simp add: mmap_first_free_loop.simps)
next
  case (Suc d)
  then have lt: "unat i < unat n div 32" by simp
  then have c: "i < n div 32" by (simp add: word_less_nat_alt unat_div)
  have n32: "unat n < 2 ^ 32" using unat_lt_u32 [of n] by simp
  have si: "unat (i + 1) = unat i + 1" by (rule unat_suc_u32) (use lt n32 in linarith)
  have g: "array_get bm i = Some (bm ! unat i)" using lt assms by simp
  show ?case
  proof (cases "\<exists>k < 32. \<not> bit (bm ! unat i) k")
    case False
    then have full: "bm ! unat i = 0xFFFFFFFF" by (simp add: word_full_iff)
    have "block_used bm j" if "32 * unat i \<le> j" "j < 32 * unat (i + 1)" for j
      using False block_used_word [of "j - 32 * unat i" bm "unat i"] that si by auto
    then have step: "block_used bm j" if "32 * unat i \<le> j" "32 * unat (i + 1) \<le> j \<longrightarrow> block_used bm j" for j
      using that by (meson not_less)
    have "d = unat n div 32 - unat (i + 1)" "unat (i + 1) \<le> unat n div 32"
      using Suc.hyps(2) lt si by simp_all
    from Suc.hyps(1) [OF this] obtain r where r: "mmap_first_free_loop bm n (i + 1) = Some r"
      "case r of None \<Rightarrow> \<forall>j. 32 * unat (i + 1) \<le> j \<longrightarrow> j < 32 * (unat n div 32) \<longrightarrow> block_used bm j
       | Some f \<Rightarrow> 32 * unat (i + 1) \<le> unat f \<and> unat f < 32 * (unat n div 32) \<and> \<not> block_used bm (unat f) \<and>
         (\<forall>j. 32 * unat (i + 1) \<le> j \<longrightarrow> j < unat f \<longrightarrow> block_used bm j)" by blast
    have "mmap_first_free_loop bm n i = Some r"
      using c g full r(1) by (simp add: mmap_first_free_loop.simps [of bm n i])
    moreover have "32 * unat i \<le> 32 * unat (i + 1)" using si by simp
    ultimately show ?thesis
      using r(2) step by (cases r) (auto intro: order_trans)
  next
    case True
    define k where "k = (LEAST k. \<not> bit (bm ! unat i) k)"
    obtain k0 where "k0 < 32" "\<not> bit (bm ! unat i) k0" using True by blast
    then have k: "k < 32" "\<not> bit (bm ! unat i) k" "\<And>j. j < k \<Longrightarrow> bit (bm ! unat i) j"
      unfolding k_def using Least_le [of "\<lambda>k. \<not> bit (bm ! unat i) k" k0] LeastI [of "\<lambda>k. \<not> bit (bm ! unat i) k" k0]
      by (auto dest: not_less_Least)
    have "mmap_scan_word (bm ! unat i) 0 = Some k" using True by (simp add: mmap_scan_word_spec k_def)
    moreover have "bm ! unat i \<noteq> 0xFFFFFFFF" using True by (simp only: word_full_iff) blast
    ultimately have loop: "mmap_first_free_loop bm n i = Some (Some (i * 32 + of_nat k))"
      using c g by (simp add: mmap_first_free_loop.simps [of bm n i])
    have "32 * unat i + k < 32 * (unat n div 32)" using lt k(1) by linarith
    then have "32 * unat i + k < unat n" by linarith
    then have f: "unat (i * 32 + of_nat k :: u32) = 32 * unat i + k"
      using n32 k(1) by (simp add: unat_word_ariths unat_of_nat)
    have "block_used bm j" if "32 * unat i \<le> j" "j < 32 * unat i + k" for j
      using k(1) k(3) [of "j - 32 * unat i"] block_used_word [of "j - 32 * unat i" bm "unat i"] that by auto
    then show ?thesis
      using loop f k \<open>32 * unat i + k < 32 * (unat n div 32)\<close> block_used_word [of k bm "unat i"] by auto
  qed
qed

subsection \<open>The invariant and the single-block operations\<close>

definition used_blocks :: "u32 list \<Rightarrow> nat \<Rightarrow> nat set" where
  "used_blocks bm n = {i. i < n \<and> block_used bm i}"

definition pmm_ok :: "'a pmm_scheme \<Rightarrow> bool" where
  "pmm_ok s \<longleftrightarrow> unat (mmngr_max_blocks s) \<le> 32 * length (mmngr_bitmap s) \<and>
     unat (mmngr_max_blocks s) < 2 ^ 20 \<and> block_used (mmngr_bitmap s) 0 \<and> mmngr_bitmap s \<noteq> [] \<and>
     unat (mmngr_used_blocks s) = card (used_blocks (mmngr_bitmap s) (unat (mmngr_max_blocks s)))"

lemma finite_used_blocks [simp]: "finite (used_blocks bm n)"
  by (simp add: used_blocks_def)

lemma card_used_le: "card (used_blocks bm n) \<le> n"
  using card_mono [of "{..<n}" "used_blocks bm n"] by (auto simp: used_blocks_def)

lemma card_used_less: "i < n \<Longrightarrow> \<not> block_used bm i \<Longrightarrow> card (used_blocks bm n) < n"
  using psubset_card_mono [of "{..<n}" "used_blocks bm n"] by (auto simp: used_blocks_def)

lemma card_used_set:
  "i < n \<Longrightarrow> n \<le> 32 * length bm \<Longrightarrow> \<not> block_used bm i \<Longrightarrow>
     card (used_blocks (block_set i bm) n) = card (used_blocks bm n) + 1"
proof -
  assume i: "i < n" "n \<le> 32 * length bm" "\<not> block_used bm i"
  then have "used_blocks (block_set i bm) n = insert i (used_blocks bm n)" by (auto simp: used_blocks_def)
  moreover have "i \<notin> used_blocks bm n" using i by (simp add: used_blocks_def)
  ultimately show ?thesis by simp
qed

lemma card_used_clear:
  "i < n \<Longrightarrow> n \<le> 32 * length bm \<Longrightarrow> block_used bm i \<Longrightarrow>
     card (used_blocks (block_clear i bm) n) = card (used_blocks bm n) - 1 \<and> 0 < card (used_blocks bm n)"
proof -
  assume i: "i < n" "n \<le> 32 * length bm" "block_used bm i"
  then have "used_blocks (block_clear i bm) n = used_blocks bm n - {i}" by (auto simp: used_blocks_def)
  moreover have "i \<in> used_blocks bm n" using i by (simp add: used_blocks_def)
  ultimately show ?thesis by (auto simp: card_gt_0_iff)
qed

lemma pmm_free_count:
  assumes "pmm_ok s"
  shows "unat (pmmngr_get_free_block_count s) =
    unat (mmngr_max_blocks s) - card (used_blocks (mmngr_bitmap s) (unat (mmngr_max_blocks s)))"
  using assms card_used_le by (simp add: pmmngr_get_free_block_count_def pmm_ok_def unat_sub_le)

lemma block_addr:
  assumes "unat frame < 2 ^ 20"
  shows "unat (frame * PMMNGR_BLOCK_SIZE) = 4096 * unat frame" and "frame * PMMNGR_BLOCK_SIZE div PMMNGR_BLOCK_SIZE = frame"
proof -
  show a: "unat (frame * PMMNGR_BLOCK_SIZE) = 4096 * unat frame"
    using assms by (simp add: PMMNGR_BLOCK_SIZE_def unat_word_ariths)
  then have "unat (frame * PMMNGR_BLOCK_SIZE div PMMNGR_BLOCK_SIZE) = unat frame"
    by (simp add: unat_div PMMNGR_BLOCK_SIZE_def)
  then show "frame * PMMNGR_BLOCK_SIZE div PMMNGR_BLOCK_SIZE = frame" by (simp add: word_unat_eq_iff)
qed

definition usable_blocks :: "'a pmm_scheme \<Rightarrow> nat" where
  \<comment> \<open>What \<^verbatim>\<open>mmap_first_free\<close> looks at: the blocks of whole bitmap words.\<close>
  "usable_blocks s = 32 * (unat (mmngr_max_blocks s) div 32)"

lemma mmap_first_free_ok:
  assumes "pmm_ok s"
  shows "(\<exists>f. mmap_first_free s = Some (f, s) \<and> 0 < unat f \<and> unat f < usable_blocks s \<and>
      \<not> block_used (mmngr_bitmap s) (unat f) \<and> (\<forall>j < unat f. block_used (mmngr_bitmap s) j)) \<or>
    (mmap_first_free s = Some (0, set_last_error ENOMEM PMEM_OUT_OF_MEM EO_PMMNGR s) \<and>
      (\<forall>j < usable_blocks s. block_used (mmngr_bitmap s) j))"
proof -
  have "unat (mmngr_max_blocks s) \<le> 32 * length (mmngr_bitmap s)" using assms by (simp add: pmm_ok_def)
  then have "unat (mmngr_max_blocks s) div 32 \<le> length (mmngr_bitmap s)" by linarith
  from mmap_first_free_loop_ok [OF this, of 0] obtain r where
    l: "mmap_first_free_loop (mmngr_bitmap s) (mmngr_max_blocks s) 0 = Some r" and
    r: "case r of None \<Rightarrow> \<forall>j < usable_blocks s. block_used (mmngr_bitmap s) j
      | Some f \<Rightarrow> unat f < usable_blocks s \<and> \<not> block_used (mmngr_bitmap s) (unat f) \<and>
         (\<forall>j < unat f. block_used (mmngr_bitmap s) j)"
    unfolding usable_blocks_def by (auto cong: option.case_cong)
  show ?thesis
  proof (cases r)
    case None
    with l r show ?thesis by (simp add: mmap_first_free_def)
  next
    case (Some f)
    have "unat f \<noteq> 0"
    proof
      assume "unat f = 0"
      then show False using r Some assms by (simp add: pmm_ok_def)
    qed
    with Some l r show ?thesis by (simp add: mmap_first_free_def)
  qed
qed

lemma pmmngr_alloc_block_ok:
  assumes ok: "pmm_ok s"
  shows "(\<exists>f s'. pmmngr_alloc_block s = Some (f * PMMNGR_BLOCK_SIZE, s') \<and> 0 < unat f \<and> unat f < usable_blocks s \<and>
      \<not> block_used (mmngr_bitmap s) (unat f) \<and> (\<forall>j < unat f. block_used (mmngr_bitmap s) j) \<and>
      s' = s\<lparr>mmngr_bitmap := block_set (unat f) (mmngr_bitmap s), mmngr_used_blocks := mmngr_used_blocks s + 1\<rparr> \<and> pmm_ok s') \<or>
    (pmmngr_alloc_block s = Some (0, set_last_error ENOMEM PMEM_OUT_OF_MEM EO_PMMNGR s) \<and>
      (\<forall>j < usable_blocks s. block_used (mmngr_bitmap s) j))"
proof -
  let ?n = "unat (mmngr_max_blocks s)" and ?bm = "mmngr_bitmap s"
  have n: "?n < 2 ^ 20" "?n \<le> 32 * length ?bm" using ok by (simp_all add: pmm_ok_def)
  have us: "usable_blocks s \<le> ?n" by (simp add: usable_blocks_def)
  show ?thesis
  proof (cases "pmmngr_get_free_block_count s = 0")
    case True
    then have "?n \<le> card (used_blocks ?bm ?n)" using pmm_free_count [OF ok] by simp
    then have "\<forall>j < usable_blocks s. block_used ?bm j"
      using card_used_less us by (meson le_less_trans less_le_trans not_less)
    then show ?thesis using True by (simp add: pmmngr_alloc_block_def)
  next
    case False
    consider f where "mmap_first_free s = Some (f, s)" "0 < unat f" "unat f < usable_blocks s"
        "\<not> block_used ?bm (unat f)" "\<forall>j < unat f. block_used ?bm j"
      | "mmap_first_free s = Some (0, set_last_error ENOMEM PMEM_OUT_OF_MEM EO_PMMNGR s)"
        "\<forall>j < usable_blocks s. block_used ?bm j"
      using mmap_first_free_ok [OF ok] by blast
    then show ?thesis
    proof cases
      case 1
      have f: "unat f < ?n" "f \<noteq> 0" using 1 us by auto
      then have bi: "block_in ?bm f" using n by (simp add: block_in_def)
      have c: "card (used_blocks (block_set (unat f) ?bm) ?n) = card (used_blocks ?bm ?n) + 1"
        using f(1) n(2) 1(4) by (rule card_used_set)
      have "unat (mmngr_used_blocks s + 1) = unat (mmngr_used_blocks s) + 1"
        using ok card_used_le [of ?bm ?n] n by (intro unat_suc_u32) (simp add: pmm_ok_def)
      moreover have "unat f < 32 * length ?bm" using f(1) n(2) by simp
      ultimately have "pmm_ok (s\<lparr>mmngr_bitmap := block_set (unat f) ?bm, mmngr_used_blocks := mmngr_used_blocks s + 1\<rparr>)"
        using ok c by (auto simp: pmm_ok_def)
      then show ?thesis
        using False 1 f(2) mmap_set_in [OF bi] by (simp add: pmmngr_alloc_block_def) blast
    next
      case 2
      then show ?thesis using False by (simp add: pmmngr_alloc_block_def)
    qed
  qed
qed

lemma pmmngr_free_block_ok:
  assumes ok: "pmm_ok s" and "unat f < unat (mmngr_max_blocks s)" and "0 < unat f"
  shows "\<exists>s'. pmmngr_free_block (f * PMMNGR_BLOCK_SIZE) s = Some s' \<and> pmm_ok s' \<and>
    s' = (if block_used (mmngr_bitmap s) (unat f) then
      s\<lparr>mmngr_bitmap := block_clear (unat f) (mmngr_bitmap s), mmngr_used_blocks := mmngr_used_blocks s - 1\<rparr> else s)"
proof -
  let ?n = "unat (mmngr_max_blocks s)" and ?bm = "mmngr_bitmap s"
  have n: "?n < 2 ^ 20" "?n \<le> 32 * length ?bm" using ok by (simp_all add: pmm_ok_def)
  have bi: "block_in ?bm f" using assms n by (simp add: block_in_def)
  have fr: "f * PMMNGR_BLOCK_SIZE div PMMNGR_BLOCK_SIZE = f" using assms n by (intro block_addr) simp
  show ?thesis
  proof (cases "block_used ?bm (unat f)")
    case True
    note c = card_used_clear [OF assms(2) n(2) True]
    have "mmngr_used_blocks s \<noteq> 0" using ok c by (auto simp: pmm_ok_def)
    then have "unat (mmngr_used_blocks s - 1) = unat (mmngr_used_blocks s) - 1" by (rule unat_pred_u32)
    moreover have "unat f < 32 * length ?bm" using assms n(2) by simp
    ultimately have "pmm_ok (s\<lparr>mmngr_bitmap := block_clear (unat f) ?bm, mmngr_used_blocks := mmngr_used_blocks s - 1\<rparr>)"
      using ok c assms(3) by (auto simp: pmm_ok_def)
    then show ?thesis using True by (simp add: pmmngr_free_block_def fr mmap_test_in [OF bi] mmap_unset_in [OF bi])
  next
    case False
    then show ?thesis using ok by (simp add: pmmngr_free_block_def fr mmap_test_in [OF bi])
  qed
qed

subsection \<open>Runs of blocks\<close>

definition run_free :: "u32 list \<Rightarrow> nat \<Rightarrow> nat \<Rightarrow> bool" where
  "run_free bm st n \<longleftrightarrow> (\<forall>j. st \<le> j \<longrightarrow> j < st + n \<longrightarrow> \<not> block_used bm j)"

lemma run_free_Suc: "run_free bm st (Suc n) \<longleftrightarrow> run_free bm st n \<and> \<not> block_used bm (st + n)"
  unfolding run_free_def by (metis add_Suc_right le_add1 less_Suc_eq less_imp_le_nat not_less)

lemma mmap_run_loop_ok:
  assumes n: "unat n < 2 ^ 20" "unat n < 32 * length bm" and cnt: "unat count < 2 ^ 20"
  shows "unat st \<le> unat b \<Longrightarrow> unat b < unat n \<Longrightarrow> unat b - unat st + 1 < unat count \<Longrightarrow>
    run_free bm (unat st) (unat b - unat st + 1) \<Longrightarrow>
    \<exists>r b'. mmap_run_loop bm n count st b = Some (r, b') \<and> unat b < unat b' \<and> unat b' \<le> unat n \<and>
      (r = None \<or> r = Some st \<and> run_free bm (unat st) (unat count) \<and> unat st + unat count \<le> unat n + 1)"
proof (induction "unat n - unat b" arbitrary: b)
  case 0
  then show ?case by simp
next
  case (Suc d)
  have c: "b < n" using Suc.prems(2) by (simp add: word_less_nat_alt)
  have sb: "unat (b + 1) = unat b + 1" by (rule unat_suc_u32) (use Suc.prems(2) n in simp)
  then have bi: "block_in bm (b + 1)" using Suc.prems(2) n by (simp add: block_in_def)
  have df: "unat (b + 1 - st + 1) = unat b - unat st + 2"
  proof -
    have "unat (b + 1 - st) = unat b + 1 - unat st" by (subst unat_sub_le) (use sb Suc.prems(1) in simp_all)
    then show ?thesis using Suc.prems(1,2) n by (subst unat_suc_u32) auto
  qed
  have eq: "b + 1 - st + 1 = count \<longleftrightarrow> unat b - unat st + 2 = unat count"
    unfolding word_unat_eq_iff df ..
  note unf = mmap_run_loop.simps [of bm n count st b]
  show ?case
  proof (cases "block_used bm (unat b + 1)")
    case True
    then show ?thesis using c sb Suc.prems(2) by (subst unf) (simp add: mmap_test_in [OF bi])
  next
    case False
    have ext: "run_free bm (unat st) (unat b - unat st + 2)"
      using run_free_Suc [of bm "unat st" "unat b - unat st + 1"] Suc.prems(1,4) False by simp
    show ?thesis
    proof (cases "unat b - unat st + 2 = unat count")
      case True
      then show ?thesis
        using c sb Suc.prems(1,2) False eq ext by (subst unf) (simp add: mmap_test_in [OF bi])
    next
      case nc: False
      have loop: "mmap_run_loop bm n count st b = mmap_run_loop bm n count st (b + 1)"
        using c sb False eq nc by (subst unf) (simp add: mmap_test_in [OF bi])
      show ?thesis
      proof (cases "unat b + 1 < unat n")
        case True
        have sub: "unat (b + 1) - unat st + 1 = unat b - unat st + 2" using sb Suc.prems(1) by simp
        have "\<exists>r b'. mmap_run_loop bm n count st (b + 1) = Some (r, b') \<and> unat (b + 1) < unat b' \<and> unat b' \<le> unat n \<and>
          (r = None \<or> r = Some st \<and> run_free bm (unat st) (unat count) \<and> unat st + unat count \<le> unat n + 1)"
          by (rule Suc.hyps(1)) (use Suc.hyps(2) Suc.prems sb True nc ext sub in auto)
        then show ?thesis using loop sb by auto
      next
        case False
        then have "\<not> b + 1 < n" using sb by (simp add: word_less_nat_alt)
        then have "mmap_run_loop bm n count st (b + 1) = Some (None, b + 1)"
          by (simp add: mmap_run_loop.simps)
        then show ?thesis using loop sb Suc.prems(2) by simp
      qed
    qed
  qed
qed

lemma mmap_first_free_s_loop_ok:
  assumes n: "unat n < 2 ^ 20" "unat n < 32 * length bm" and cnt: "1 < unat count" "unat count < 2 ^ 20"
  shows "unat b < 2 ^ 21 \<Longrightarrow> \<exists>r. mmap_first_free_s_loop bm n count b = Some r \<and>
    (\<forall>st. r = Some st \<longrightarrow> run_free bm (unat st) (unat count) \<and> unat st + unat count \<le> unat n + 1)"
proof (induction "unat n - unat b" arbitrary: b rule: less_induct)
  case less
  note unf = mmap_first_free_s_loop.simps [of bm n count b]
  show ?case
  proof (cases "unat b < unat n")
    case False
    then have "\<not> b < n" by (simp add: word_less_nat_alt)
    then show ?thesis by (subst unf) simp
  next
    case True
    then have c: "b < n" by (simp add: word_less_nat_alt)
    have g: "array_get bm (b div 32) = Some (bm ! (unat b div 32))"
      using True n by (simp add: array_get_def unat_div)
    have bi: "block_in bm b" using True n by (simp add: block_in_def)
    have next_b: "\<exists>r. mmap_first_free_s_loop bm n count (b' + k) = Some r \<and>
        (\<forall>st. r = Some st \<longrightarrow> run_free bm (unat st) (unat count) \<and> unat st + unat count \<le> unat n + 1)"
      if "unat b \<le> unat b'" "unat b' \<le> unat n" "0 < unat k" "unat k \<le> 32" for b' k
    proof -
      have "unat (b' + k) = unat b' + unat k" by (rule unat_add_no_wrap) (use that n in simp)
      then show ?thesis by (intro less.hyps) (use that n True in auto)
    qed
    show ?thesis
    proof (cases "bm ! (unat b div 32) = 0xFFFFFFFF")
      case full: True
      then have "mmap_first_free_s_loop bm n count b = mmap_first_free_s_loop bm n count (b + 32)"
        using c g by (subst unf) simp
      then show ?thesis using next_b [of b 32] True by simp
    next
      case nf: False
      show ?thesis
      proof (cases "block_used bm (unat b)")
        case used: True
        then have "mmap_first_free_s_loop bm n count b = mmap_first_free_s_loop bm n count (b + 1)"
          using c g nf by (subst unf) (simp add: mmap_test_in [OF bi])
        then show ?thesis using next_b [of b 1] True by simp
      next
        case free: False
        have "run_free bm (unat b) (unat b - unat b + 1)" using free by (auto simp: run_free_def less_Suc_eq)
        from mmap_run_loop_ok [OF n cnt(2) _ True _ this] cnt(1) obtain r b' where
          r: "mmap_run_loop bm n count b b = Some (r, b')" "unat b < unat b'" "unat b' \<le> unat n"
             "r = None \<or> r = Some b \<and> run_free bm (unat b) (unat count) \<and> unat b + unat count \<le> unat n + 1"
          by auto
        show ?thesis
        proof (cases r)
          case None
          then have "mmap_first_free_s_loop bm n count b = mmap_first_free_s_loop bm n count (b' + 1)"
            using c g nf free r(1) by (subst unf) (simp add: mmap_test_in [OF bi])
          then show ?thesis using next_b [of b' 1] r by simp
        next
          case (Some st)
          then have "mmap_first_free_s_loop bm n count b = Some (Some st)"
            using c g nf free r(1) by (subst unf) (simp add: mmap_test_in [OF bi])
          then show ?thesis using r Some by auto
        qed
      qed
    qed
  qed
qed

primrec set_blocks :: "nat \<Rightarrow> nat \<Rightarrow> u32 list \<Rightarrow> u32 list" where
  "set_blocks 0 i bm = bm"
| "set_blocks (Suc n) i bm = set_blocks n (Suc i) (block_set i bm)"

lemma set_blocks_length [simp]: "length (set_blocks n i bm) = length bm"
  by (induction n arbitrary: i bm) simp_all

lemma set_blocks_Nil [simp]: "set_blocks n i bm = [] \<longleftrightarrow> bm = []"
  by (metis length_0_conv set_blocks_length)

lemma block_used_set_blocks:
  "i + n \<le> 32 * length bm \<Longrightarrow> block_used (set_blocks n i bm) j \<longleftrightarrow> (i \<le> j \<and> j < i + n) \<or> block_used bm j"
  by (induction n arbitrary: i bm) auto

lemma mmap_set_run_ok:
  "unat f + n \<le> 32 * length bm \<Longrightarrow> unat f + n < 2 ^ 31 \<Longrightarrow> mmap_set_run n f bm = Some (set_blocks n (unat f) bm)"
proof (induction n arbitrary: f bm)
  case (Suc n)
  then have "block_in bm f" by (simp add: block_in_def)
  moreover have "unat (f + 1) = Suc (unat f)" using Suc.prems unat_suc_u32 [of f] by simp
  ultimately show ?case using Suc by (simp add: mmap_set_in)
qed simp

lemma card_used_set_blocks:
  "i + k \<le> n \<Longrightarrow> n \<le> 32 * length bm \<Longrightarrow> run_free bm i k \<Longrightarrow>
     card (used_blocks (set_blocks k i bm) n) = card (used_blocks bm n) + k"
proof (induction k arbitrary: i bm)
  case (Suc k)
  have "\<not> block_used bm i" using Suc.prems(3) by (simp add: run_free_def)
  moreover have "run_free (block_set i bm) (Suc i) k" using Suc.prems by (auto simp: run_free_def)
  ultimately show ?case using Suc by (simp add: card_used_set)
qed simp

lemma nat_ceil:
  fixes v d :: nat
  assumes d: "0 < d"
  shows "(v + d - 1) div d = (if v mod d = 0 then v div d else v div d + 1)"
proof -
  define q r where "q = v div d" and "r = v mod d"
  have v: "v = d * q + r" and r: "r < d" using d by (simp_all add: q_def r_def)
  have "v + d - 1 = d * q + (r + d - 1)" using v d by linarith
  then have "(v + d - 1) div d = (d * q + (r + d - 1)) div d" by (simp only:)
  also have "\<dots> = q + (r + d - 1) div d" using d by (intro div_mult_self4) simp
  also have "(r + d - 1) div d = (if r = 0 then 0 else 1)"
  proof (cases "r = 0")
    case False
    then have "r + d - 1 = d * 1 + (r - 1)" using d by simp
    then have "(r + d - 1) div d = 1 + (r - 1) div d" using d by (simp only: div_mult_self4)
    then show ?thesis using False r by simp
  qed (use d in simp)
  finally show ?thesis by (simp add: q_def r_def)
qed

lemma ceil_division_ok:
  assumes "0 < unat d"
  shows "ceil_division v d = Some (of_nat ((unat v + unat d - 1) div unat d))"
proof -
  have "unat v div unat d < 4294967296" using unat_lt_u32 [of v] by (meson div_le_dividend le_less_trans)
  moreover have "unat v mod unat d < 4294967296" using unat_lt_u32 [of v] by (meson mod_less_eq_dividend le_less_trans)
  ultimately have "v div d = of_nat (unat v div unat d)" "v mod d = of_nat (unat v mod unat d)"
    by (simp_all add: word_unat_eq_iff unat_div unat_mod unat_of_nat_u32)
  moreover have "d \<noteq> 0" using assms by auto
  moreover have "v mod d \<noteq> 0 \<longleftrightarrow> unat v mod unat d \<noteq> 0"
    by (simp add: unat_mod flip: unat_eq_0_iff)
  ultimately show ?thesis unfolding nat_ceil [OF assms] by (simp add: ceil_division_def)
qed

lemma block_count:
  "ceil_division sz pmmngr_get_block_size = Some (of_nat ((unat sz + 4095) div 4096))"
  "unat (of_nat ((unat sz + 4095) div 4096) :: u32) = (unat sz + 4095) div 4096"
  "(unat sz + 4095) div 4096 \<le> 2 ^ 20"
proof -
  show "ceil_division sz pmmngr_get_block_size = Some (of_nat ((unat sz + 4095) div 4096))"
  proof -
    have b: "unat pmmngr_get_block_size = 4096" by (simp add: pmmngr_get_block_size_def PMMNGR_BLOCK_SIZE_def)
    have "(unat sz + 4096 - 1) div 4096 = (unat sz + 4095) div 4096" by simp
    with ceil_division_ok [of pmmngr_get_block_size sz, unfolded b] show ?thesis by (simp only:)
  qed
  show le: "(unat sz + 4095) div 4096 \<le> 2 ^ 20"
    using unat_lt_u32 [of sz] by simp
  then show "unat (of_nat ((unat sz + 4095) div 4096) :: u32) = (unat sz + 4095) div 4096"
    by (intro unat_of_nat_u32) simp
qed

definition block_count :: "u32 \<Rightarrow> nat" where
  "block_count sz = (unat sz + 4095) div 4096"

lemma pmmngr_alloc_blocks_ok:
  assumes ok: "pmm_ok s" and slack: "unat (mmngr_max_blocks s) < 32 * length (mmngr_bitmap s)" and sz: "0 < sz"
  shows "(\<exists>f s'. pmmngr_alloc_blocks sz s = Some (f * PMMNGR_BLOCK_SIZE, s') \<and> 0 < unat f \<and>
      run_free (mmngr_bitmap s) (unat f) (block_count sz) \<and> unat f + block_count sz \<le> unat (mmngr_max_blocks s) + 1 \<and>
      s' = s\<lparr>mmngr_bitmap := set_blocks (block_count sz) (unat f) (mmngr_bitmap s),
        mmngr_used_blocks := mmngr_used_blocks s + of_nat (block_count sz)\<rparr>) \<or>
    (\<exists>s'. pmmngr_alloc_blocks sz s = Some (0, s') \<and> (s' = s \<or> s' = set_last_error ENOMEM PMEM_OUT_OF_MEM EO_PMMNGR s))"
proof -
  let ?k = "block_count sz" and ?c = "of_nat (block_count sz) :: u32" and ?n = "mmngr_max_blocks s"
  let ?bm = "mmngr_bitmap s"
  have n: "unat ?n < 2 ^ 20" using ok by (simp add: pmm_ok_def)
  have c: "ceil_division sz pmmngr_get_block_size = Some ?c" "unat ?c = ?k" "?k \<le> 2 ^ 20"
    using block_count [of sz] by (simp_all add: block_count_def)
  have "0 < unat sz" using sz by (simp add: word_less_nat_alt)
  then have k0: "0 < ?k" by (simp add: block_count_def)
  show ?thesis
  proof (cases "pmmngr_get_free_block_count s < ?c")
    case True
    then show ?thesis by (simp add: pmmngr_alloc_blocks_def c(1))
  next
    case False
    have kn: "?k \<le> unat ?n"
      using False pmm_free_count [OF ok] c(2) by (simp add: word_less_nat_alt)
    have "(\<exists>f. mmap_first_free_s ?c s = Some (f, s) \<and> run_free ?bm (unat f) ?k \<and> unat f + ?k \<le> unat ?n + 1) \<or>
        mmap_first_free_s ?c s = Some (0, set_last_error ENOMEM PMEM_OUT_OF_MEM EO_PMMNGR s)"
    proof (cases "?k = 1")
      case True
      then have "mmap_first_free_s ?c s = mmap_first_free s" by (simp add: mmap_first_free_s_def)
      moreover have "usable_blocks s \<le> unat ?n" by (simp add: usable_blocks_def)
      ultimately show ?thesis
        using mmap_first_free_ok [OF ok] True by (force simp: run_free_def less_Suc_eq)
    next
      case False
      then have "1 < unat ?c" "unat ?c < 2 ^ 20" using c k0 kn n by simp_all
      from mmap_first_free_s_loop_ok [OF n slack this, of 0] obtain r where
        r: "mmap_first_free_s_loop ?bm ?n ?c 0 = Some r"
           "\<forall>st. r = Some st \<longrightarrow> run_free ?bm (unat st) ?k \<and> unat st + ?k \<le> unat ?n + 1"
        unfolding c(2) by auto
      have "?c \<noteq> 0" "?c \<noteq> 1" using c(2) k0 False by (auto simp: word_unat_eq_iff)
      then show ?thesis using r by (cases r) (auto simp: mmap_first_free_s_def)
    qed
    then show ?thesis
    proof
      assume "\<exists>f. mmap_first_free_s ?c s = Some (f, s) \<and> run_free ?bm (unat f) ?k \<and> unat f + ?k \<le> unat ?n + 1"
      then obtain f where f: "mmap_first_free_s ?c s = Some (f, s)" "run_free ?bm (unat f) ?k" "unat f + ?k \<le> unat ?n + 1"
        by blast
      show ?thesis
      proof (cases "f = 0")
        case True
        then show ?thesis using False f(1) by (simp add: pmmngr_alloc_blocks_def c(1))
      next
        case nz: False
        have "mmap_set_run ?k f ?bm = Some (set_blocks ?k (unat f) ?bm)"
          using f(3) slack n by (intro mmap_set_run_ok) simp_all
        then have "pmmngr_alloc_blocks sz s = Some (f * PMMNGR_BLOCK_SIZE, s\<lparr>mmngr_bitmap := set_blocks ?k (unat f) ?bm,
            mmngr_used_blocks := mmngr_used_blocks s + ?c\<rparr>)"
          using False f(1) nz c(2) by (simp add: pmmngr_alloc_blocks_def c(1))
        moreover have "0 < unat f" using nz by (simp add: unat_gt_0)
        ultimately show ?thesis using f(2,3) by blast
      qed
    next
      assume "mmap_first_free_s ?c s = Some (0, set_last_error ENOMEM PMEM_OUT_OF_MEM EO_PMMNGR s)"
      then show ?thesis using False by (simp add: pmmngr_alloc_blocks_def c(1))
    qed
  qed
qed

text \<open>A run inside the managed memory keeps the use count exact.\<close>

lemma alloc_blocks_inv:
  assumes ok: "pmm_ok s" and run: "run_free (mmngr_bitmap s) (unat f) k" and fit: "unat f + k \<le> unat (mmngr_max_blocks s)"
  shows "pmm_ok (s\<lparr>mmngr_bitmap := set_blocks k (unat f) (mmngr_bitmap s), mmngr_used_blocks := mmngr_used_blocks s + of_nat k\<rparr>)"
proof -
  let ?n = "unat (mmngr_max_blocks s)" and ?bm = "mmngr_bitmap s"
  have n: "?n < 2 ^ 20" "?n \<le> 32 * length ?bm" using ok by (simp_all add: pmm_ok_def)
  have c: "card (used_blocks (set_blocks k (unat f) ?bm) ?n) = card (used_blocks ?bm ?n) + k"
    using fit n(2) run by (rule card_used_set_blocks)
  have k: "unat (of_nat k :: u32) = k" using fit n by (intro unat_of_nat_u32) simp
  have u: "unat (mmngr_used_blocks s) = card (used_blocks ?bm ?n)" using ok by (simp add: pmm_ok_def)
  have "unat (mmngr_used_blocks s + of_nat k) = unat (mmngr_used_blocks s) + unat (of_nat k :: u32)"
    using u k card_used_le [of ?bm ?n] fit n by (intro unat_add_no_wrap) simp
  moreover have "block_used (set_blocks k (unat f) ?bm) 0"
    using ok fit n by (simp add: block_used_set_blocks pmm_ok_def)
  moreover have "set_blocks k (unat f) ?bm \<noteq> []" using ok by (simp add: pmm_ok_def)
  ultimately show ?thesis using ok c k u by (simp add: pmm_ok_def)
qed

text \<open>\<^verbatim>\<open>pmmngr_free_blocks\<close> tests block \<open>frame + i\<close> but clears block \<open>frame\<close>.\<close>

lemma free_blocks_loop_ok:
  assumes "unat f + unat i + n \<le> 32 * length (mmngr_bitmap s)" and "unat f + unat i + n < 2 ^ 31"
    and "\<forall>j < n. unat i + j \<noteq> 0 \<longrightarrow> block_used (mmngr_bitmap s) (unat f + unat i + j)"
    and "0 < unat i" and "block_clear (unat f) (mmngr_bitmap s) = mmngr_bitmap s"
  shows "free_blocks_loop n f i s = Some (s\<lparr>mmngr_used_blocks := mmngr_used_blocks s - of_nat n\<rparr>)"
  using assms
proof (induction n arbitrary: i s)
  case (Suc n)
  have fi: "unat (f + i) = unat f + unat i" using Suc.prems by (intro unat_add_no_wrap) simp
  then have bi: "block_in (mmngr_bitmap s) (f + i)" "block_in (mmngr_bitmap s) f"
    using Suc.prems by (simp_all add: block_in_def)
  have si: "unat (i + 1) = unat i + 1" using Suc.prems by (intro unat_suc_u32) simp
  have t: "mmap_test (f + i) (mmngr_bitmap s) = Some True"
    using Suc.prems(3) [rule_format, of 0] Suc.prems(4) mmap_test_in [OF bi(1)] fi by simp
  have u: "mmap_unset f (mmngr_bitmap s) = Some (mmngr_bitmap s)" using mmap_unset_in [OF bi(2)] Suc.prems(5) by simp
  have "\<forall>j < n. unat (i + 1) + j \<noteq> 0 \<longrightarrow> block_used (mmngr_bitmap s) (unat f + unat (i + 1) + j)"
  proof (intro allI impI)
    fix j assume "j < n"
    then show "block_used (mmngr_bitmap s) (unat f + unat (i + 1) + j)"
      using Suc.prems(3) [rule_format, of "Suc j"] si by simp
  qed
  then have "free_blocks_loop n f (i + 1) (s\<lparr>mmngr_used_blocks := mmngr_used_blocks s - 1\<rparr>) =
      Some (s\<lparr>mmngr_used_blocks := mmngr_used_blocks s - 1 - of_nat n\<rparr>)"
    using Suc.IH [of "i + 1" "s\<lparr>mmngr_used_blocks := mmngr_used_blocks s - 1\<rparr>"] Suc.prems si by simp
  moreover have "s\<lparr>mmngr_bitmap := mmngr_bitmap s, mmngr_used_blocks := mmngr_used_blocks s - 1\<rparr>
      = s\<lparr>mmngr_used_blocks := mmngr_used_blocks s - 1\<rparr>" by simp
  ultimately show ?case using t u by (simp add: diff_diff_eq)
qed simp

lemma pmmngr_free_blocks_ok:
  assumes ok: "pmm_ok s" and sz: "block_count sz = Suc m" and f: "0 < unat f"
    and fit: "unat f + Suc m \<le> unat (mmngr_max_blocks s)"
    and used: "\<forall>j. unat f \<le> j \<longrightarrow> j < unat f + Suc m \<longrightarrow> block_used (mmngr_bitmap s) j"
  shows "pmmngr_free_blocks (f * PMMNGR_BLOCK_SIZE) sz s = Some (s\<lparr>mmngr_bitmap := block_clear (unat f) (mmngr_bitmap s),
    mmngr_used_blocks := mmngr_used_blocks s - of_nat (Suc m)\<rparr>)"
proof -
  let ?bm = "mmngr_bitmap s" and ?s1 = "s\<lparr>mmngr_bitmap := block_clear (unat f) (mmngr_bitmap s), mmngr_used_blocks := mmngr_used_blocks s - 1\<rparr>"
  have n: "unat (mmngr_max_blocks s) < 2 ^ 20" "unat (mmngr_max_blocks s) \<le> 32 * length ?bm"
    using ok by (simp_all add: pmm_ok_def)
  have fr: "f * PMMNGR_BLOCK_SIZE div PMMNGR_BLOCK_SIZE = f" using fit n by (intro block_addr) simp
  have c: "ceil_division sz pmmngr_get_block_size = Some (of_nat (Suc m))" "unat (of_nat (Suc m) :: u32) = Suc m"
    using block_count [of sz] sz by (simp_all add: block_count_def)
  have bi: "block_in ?bm f" using fit n by (simp add: block_in_def)
  have "free_blocks_loop m f 1 ?s1 = Some (?s1\<lparr>mmngr_used_blocks := mmngr_used_blocks ?s1 - of_nat m\<rparr>)"
  proof (rule free_blocks_loop_ok)
    show "\<forall>j < m. unat (1 :: u32) + j \<noteq> 0 \<longrightarrow> block_used (mmngr_bitmap ?s1) (unat f + unat (1 :: u32) + j)"
      using used fit n by simp
  qed (use fit n in \<open>simp_all add: block_clear_again\<close>)
  moreover have "mmap_test (f + 0) ?bm = Some True" using used mmap_test_in [OF bi] by simp
  ultimately have "free_blocks_loop (Suc m) f 0 s = Some (?s1\<lparr>mmngr_used_blocks := mmngr_used_blocks ?s1 - of_nat m\<rparr>)"
    using mmap_unset_in [OF bi] by simp
  then show ?thesis using c by (simp add: pmmngr_free_blocks_def fr diff_diff_eq del: free_blocks_loop.simps)
qed

subsection \<open>Regions\<close>

primrec clear_blocks :: "nat \<Rightarrow> nat \<Rightarrow> u32 list \<Rightarrow> u32 list" where
  "clear_blocks 0 i bm = bm"
| "clear_blocks (Suc n) i bm = clear_blocks n (Suc i) (block_clear i bm)"

lemma clear_blocks_length [simp]: "length (clear_blocks n i bm) = length bm"
  by (induction n arbitrary: i bm) simp_all

lemma block_used_clear_blocks:
  "i + n \<le> 32 * length bm \<Longrightarrow> block_used (clear_blocks n i bm) j \<longleftrightarrow> \<not> (i \<le> j \<and> j < i + n) \<and> block_used bm j"
  by (induction n arbitrary: i bm) auto

definition used_prefix :: "u32 list \<Rightarrow> nat \<Rightarrow> nat \<Rightarrow> nat" where
  \<comment> \<open>The number of blocks in use at the start of the \<open>n\<close> blocks from \<open>i\<close>.\<close>
  "used_prefix bm i n = length (takeWhile (block_used bm) [i..<i + n])"

definition free_prefix :: "u32 list \<Rightarrow> nat \<Rightarrow> nat \<Rightarrow> nat" where
  "free_prefix bm i n = length (takeWhile (\<lambda>j. \<not> block_used bm j) [i..<i + n])"

lemma prefix_Suc:
  "used_prefix bm i (Suc n) = (if block_used bm i then Suc (used_prefix bm (Suc i) n) else 0)"
  "free_prefix bm i (Suc n) = (if block_used bm i then 0 else Suc (free_prefix bm (Suc i) n))"
  by (simp_all add: used_prefix_def free_prefix_def upt_rec [of i])

lemma prefix_cong:
  "(\<And>j. i \<le> j \<Longrightarrow> j < i + n \<Longrightarrow> block_used bm' j = block_used bm j) \<Longrightarrow> used_prefix bm' i n = used_prefix bm i n"
  "(\<And>j. i \<le> j \<Longrightarrow> j < i + n \<Longrightarrow> block_used bm' j = block_used bm j) \<Longrightarrow> free_prefix bm' i n = free_prefix bm i n"
  unfolding used_prefix_def free_prefix_def by (auto intro!: arg_cong [of _ _ length] takeWhile_cong)

lemma free_region_loop_ok:
  "unat a + n \<le> 32 * length (mmngr_bitmap s) \<Longrightarrow> unat a + n < 2 ^ 31 \<Longrightarrow>
   free_region_loop n a s = Some (s\<lparr>mmngr_bitmap := clear_blocks (used_prefix (mmngr_bitmap s) (unat a) n) (unat a) (mmngr_bitmap s),
     mmngr_used_blocks := mmngr_used_blocks s - of_nat (used_prefix (mmngr_bitmap s) (unat a) n)\<rparr>)"
proof (induction n arbitrary: a s)
  case 0
  then show ?case by (simp add: used_prefix_def)
next
  case (Suc n)
  have bi: "block_in (mmngr_bitmap s) a" using Suc.prems by (simp add: block_in_def)
  show ?case
  proof (cases "block_used (mmngr_bitmap s) (unat a)")
    case True
    let ?s1 = "s\<lparr>mmngr_bitmap := block_clear (unat a) (mmngr_bitmap s), mmngr_used_blocks := mmngr_used_blocks s - 1\<rparr>"
    have sa: "unat (a + 1) = Suc (unat a)" using Suc.prems unat_suc_u32 [of a] by simp
    have "used_prefix (block_clear (unat a) (mmngr_bitmap s)) (Suc (unat a)) n = used_prefix (mmngr_bitmap s) (Suc (unat a)) n"
      using Suc.prems by (intro prefix_cong) auto
    moreover have "free_region_loop n (a + 1) ?s1 = Some (?s1\<lparr>
        mmngr_bitmap := clear_blocks (used_prefix (mmngr_bitmap ?s1) (unat (a + 1)) n) (unat (a + 1)) (mmngr_bitmap ?s1),
        mmngr_used_blocks := mmngr_used_blocks ?s1 - of_nat (used_prefix (mmngr_bitmap ?s1) (unat (a + 1)) n)\<rparr>)"
      using Suc.prems sa by (intro Suc.IH) simp_all
    ultimately show ?thesis
      using True sa by (simp add: mmap_test_in [OF bi] mmap_unset_in [OF bi] prefix_Suc diff_diff_eq)
  next
    case False
    have stuck: "free_region_loop m a s = Some s" for m
      by (induction m) (simp_all add: mmap_test_in [OF bi] False)
    show ?thesis using False stuck [of "Suc n"] by (simp add: prefix_Suc del: free_region_loop.simps)
  qed
qed

lemma reserve_region_loop_ok:
  "unat a + n \<le> 32 * length (mmngr_bitmap s) \<Longrightarrow> unat a + n < 2 ^ 31 \<Longrightarrow>
   reserve_region_loop n a s = Some (s\<lparr>mmngr_bitmap := set_blocks (free_prefix (mmngr_bitmap s) (unat a) n) (unat a) (mmngr_bitmap s),
     mmngr_used_blocks := mmngr_used_blocks s + of_nat (free_prefix (mmngr_bitmap s) (unat a) n)\<rparr>)"
proof (induction n arbitrary: a s)
  case 0
  then show ?case by (simp add: free_prefix_def)
next
  case (Suc n)
  have bi: "block_in (mmngr_bitmap s) a" using Suc.prems by (simp add: block_in_def)
  show ?case
  proof (cases "block_used (mmngr_bitmap s) (unat a)")
    case False
    let ?s1 = "s\<lparr>mmngr_bitmap := block_set (unat a) (mmngr_bitmap s), mmngr_used_blocks := mmngr_used_blocks s + 1\<rparr>"
    have sa: "unat (a + 1) = Suc (unat a)" using Suc.prems unat_suc_u32 [of a] by simp
    have "free_prefix (block_set (unat a) (mmngr_bitmap s)) (Suc (unat a)) n = free_prefix (mmngr_bitmap s) (Suc (unat a)) n"
      using Suc.prems by (intro prefix_cong) auto
    moreover have "reserve_region_loop n (a + 1) ?s1 = Some (?s1\<lparr>
        mmngr_bitmap := set_blocks (free_prefix (mmngr_bitmap ?s1) (unat (a + 1)) n) (unat (a + 1)) (mmngr_bitmap ?s1),
        mmngr_used_blocks := mmngr_used_blocks ?s1 + of_nat (free_prefix (mmngr_bitmap ?s1) (unat (a + 1)) n)\<rparr>)"
      using Suc.prems sa by (intro Suc.IH) simp_all
    ultimately show ?thesis
      using False sa by (simp add: mmap_test_in [OF bi] mmap_set_in [OF bi] prefix_Suc add.assoc)
  next
    case True
    have stuck: "reserve_region_loop m a s = Some s" for m
      by (induction m) (simp_all add: mmap_test_in [OF bi] True)
    show ?thesis using True stuck [of "Suc n"] by (simp add: prefix_Suc del: reserve_region_loop.simps)
  qed
qed

subsection \<open>Block allocation satisfies the allocator contract\<close>

definition block_regions :: "'a pmm_scheme \<Rightarrow> (nat \<times> nat) set" where
  "block_regions s = {(4096 * f, 4096) |f. 0 < f \<and> f < unat (mmngr_max_blocks s) \<and> block_used (mmngr_bitmap s) f}"

lemma pmm_ok_error [simp]: "pmm_ok (set_last_error b x c s) = pmm_ok s"
  by (simp add: pmm_ok_def set_last_error_def)

lemma mmngr_bitmap_error [simp]: "mmngr_bitmap (set_last_error b x c s) = mmngr_bitmap s"
  by (simp add: set_last_error_def)

lemma block_regions_error [simp]: "block_regions (set_last_error b x c s) = block_regions s"
  by (simp add: block_regions_def set_last_error_def)

interpretation pmm: allocator pmm_ok block_regions "\<lambda>_ :: unit. pmmngr_alloc_block" pmmngr_free_block "\<lambda>_. 4096"
proof unfold_locales
  fix s :: "'a pmm_scheme" and n :: unit
  assume ok: "pmm_ok s"
  let ?n = "unat (mmngr_max_blocks s)" and ?bm = "mmngr_bitmap s"
  have n: "?n < 2 ^ 20" "?n \<le> 32 * length ?bm" using ok by (simp_all add: pmm_ok_def)
  show "\<exists>a s'. pmmngr_alloc_block s = Some (a, s') \<and> pmm_ok s' \<and>
      (if a = 0 then block_regions s' = block_regions s
       else \<exists>len. 0 < len \<and> 4096 \<le> len \<and> block_regions s' = insert (unat a, len) (block_regions s) \<and>
         (\<forall>r \<in> block_regions s. disjoint_regions r (unat a, len)))"
    using pmmngr_alloc_block_ok [OF ok]
  proof
    assume "\<exists>f s'. pmmngr_alloc_block s = Some (f * PMMNGR_BLOCK_SIZE, s') \<and> 0 < unat f \<and> unat f < usable_blocks s \<and>
      \<not> block_used ?bm (unat f) \<and> (\<forall>j < unat f. block_used ?bm j) \<and>
      s' = s\<lparr>mmngr_bitmap := block_set (unat f) ?bm, mmngr_used_blocks := mmngr_used_blocks s + 1\<rparr> \<and> pmm_ok s'"
    then obtain f s' where f: "pmmngr_alloc_block s = Some (f * PMMNGR_BLOCK_SIZE, s')" "0 < unat f" "unat f < usable_blocks s"
      "\<not> block_used ?bm (unat f)" "pmm_ok s'"
      "s' = s\<lparr>mmngr_bitmap := block_set (unat f) ?bm, mmngr_used_blocks := mmngr_used_blocks s + 1\<rparr>" by blast
    have fn: "unat f < ?n" using f(3) by (simp add: usable_blocks_def)
    have a: "unat (f * PMMNGR_BLOCK_SIZE) = 4096 * unat f" using fn n by (intro block_addr) simp
    then have "f * PMMNGR_BLOCK_SIZE \<noteq> 0" using f(2) by auto
    moreover have "block_regions s' = insert (4096 * unat f, 4096) (block_regions s)"
      using f(2,6) fn n by (auto simp: block_regions_def)
    moreover have "\<forall>r \<in> block_regions s. disjoint_regions r (4096 * unat f, 4096)"
    proof
      fix r assume "r \<in> block_regions s"
      then obtain g where "r = (4096 * g, 4096)" "block_used ?bm g" by (auto simp: block_regions_def)
      moreover from this have "g \<noteq> unat f" using f(4) by auto
      ultimately show "disjoint_regions r (4096 * unat f, 4096)" by (auto simp: disjoint_regions_def)
    qed
    ultimately show ?thesis using f(1,5) a by auto
  qed (use ok in auto)
  fix a :: u32 and len
  assume "(unat a, len) \<in> block_regions s"
  then obtain g where g: "unat a = 4096 * g" "len = 4096" "0 < g" "g < ?n" "block_used ?bm g"
    by (auto simp: block_regions_def)
  have ug: "unat (of_nat g :: u32) = g" using g(4) n by (intro unat_of_nat_u32) simp
  have "a = of_nat g * PMMNGR_BLOCK_SIZE"
    using block_addr(1) [of "of_nat g"] ug g n by (simp add: word_unat_eq_iff)
  then show "\<exists>s'. pmmngr_free_block a s = Some s' \<and> pmm_ok s' \<and> block_regions s' = block_regions s - {(unat a, len)}"
    using pmmngr_free_block_ok [OF ok, of "of_nat g"] g ug n by (auto simp: block_regions_def)
qed

subsection \<open>Properties\<close>

text \<open>
  C3. Single physical blocks. From any well formed state \<^verbatim>\<open>pmmngr_alloc_block\<close> returns: either the
  lowest free block among the whole words of the bitmap, never block 0, marking exactly that block
  and counting it, or null with \<^verbatim>\<open>ENOMEM\<close> exactly when all of these blocks are in use; and giving the
  block back restores the state bit for bit.
\<close>

theorem pmm_block_roundtrip:
  assumes "pmm_ok s"
  shows "\<exists>a s'. pmmngr_alloc_block s = Some (a, s') \<and> pmm_ok s' \<and>
    (if \<forall>j < usable_blocks s. block_used (mmngr_bitmap s) j
     then a = 0 \<and> s' = set_last_error ENOMEM PMEM_OUT_OF_MEM EO_PMMNGR s
     else unat a = 4096 * (LEAST j. \<not> block_used (mmngr_bitmap s) j) \<and> a \<noteq> 0 \<and> pmmngr_free_block a s' = Some s)"
  using pmmngr_alloc_block_ok [OF assms]
proof
  assume "\<exists>f s'. pmmngr_alloc_block s = Some (f * PMMNGR_BLOCK_SIZE, s') \<and> 0 < unat f \<and> unat f < usable_blocks s \<and>
    \<not> block_used (mmngr_bitmap s) (unat f) \<and> (\<forall>j < unat f. block_used (mmngr_bitmap s) j) \<and>
    s' = s\<lparr>mmngr_bitmap := block_set (unat f) (mmngr_bitmap s), mmngr_used_blocks := mmngr_used_blocks s + 1\<rparr> \<and> pmm_ok s'"
  then obtain f s' where f: "pmmngr_alloc_block s = Some (f * PMMNGR_BLOCK_SIZE, s')" "0 < unat f" "unat f < usable_blocks s"
    "\<not> block_used (mmngr_bitmap s) (unat f)" "\<forall>j < unat f. block_used (mmngr_bitmap s) j" "pmm_ok s'"
    "s' = s\<lparr>mmngr_bitmap := block_set (unat f) (mmngr_bitmap s), mmngr_used_blocks := mmngr_used_blocks s + 1\<rparr>" by blast
  have fn: "unat f < unat (mmngr_max_blocks s)" using f(3) by (simp add: usable_blocks_def)
  have bl: "unat f < 32 * length (mmngr_bitmap s)" "unat f < 2 ^ 20" using assms fn by (auto simp: pmm_ok_def)
  have least: "(LEAST j. \<not> block_used (mmngr_bitmap s) j) = unat f"
    using f(4,5) by (intro Least_equality) (auto simp: not_less [symmetric])
  have "pmmngr_free_block (f * PMMNGR_BLOCK_SIZE) s' = Some s"
    using pmmngr_free_block_ok [OF f(6), of f] f(2,4,7) fn bl by (simp add: block_clear_set)
  moreover have "unat (f * PMMNGR_BLOCK_SIZE) = 4096 * unat f" using bl(2) by (rule block_addr)
  moreover from this have "f * PMMNGR_BLOCK_SIZE \<noteq> 0" using f(2) by auto
  ultimately show ?thesis using f(1,3,4,6) least by auto
qed (use assms in auto)

definition sample_pmm :: pmm where
  "sample_pmm = \<lparr>last_error = 0, mmngr_memory_size = 128, mmngr_used_blocks = 2, mmngr_max_blocks = 32,
     mmngr_bitmap = [0x80000001, 0], cr0 = 0, cr3 = 0\<rparr>"

lemma used_blocks_filter: "used_blocks bm n = set (filter (block_used bm) [0..<n])"
  by (auto simp: used_blocks_def)

lemma sample_pmm_ok: "pmm_ok sample_pmm"
  by (simp add: pmm_ok_def sample_pmm_def used_blocks_filter block_used_def upt_rec del: set_filter)

lemma pmm_block_roundtrip_witness:
  "\<exists>a s'. pmmngr_alloc_block sample_pmm = Some (a, s') \<and> a \<noteq> 0 \<and> pmmngr_free_block a s' = Some sample_pmm"
proof -
  have "\<not> (\<forall>j < usable_blocks sample_pmm. block_used (mmngr_bitmap sample_pmm) j)"
    by (auto simp: usable_blocks_def sample_pmm_def block_used_def intro!: exI [of _ 1])
  with pmm_block_roundtrip [OF sample_pmm_ok] show ?thesis by auto
qed

text \<open>
  C4. A client that allocates and frees physical blocks in any order is never refused by a fault and
  never holds a block twice.
\<close>

theorem pmm_client_never_aliased:
  assumes "pmm_ok s"
  shows "\<exists>live s'. alloc_run (\<lambda>_ :: unit. pmmngr_alloc_block) pmmngr_free_block ops [] s = Some (live, s') \<and>
    pmm_ok s' \<and> distinct live \<and> (\<forall>a \<in> set live. \<exists>f < unat (mmngr_max_blocks s'). 0 < f \<and> unat a = 4096 * f \<and>
      block_used (mmngr_bitmap s') f)"
proof -
  have "holds (block_regions s) []" by (simp add: holds_def)
  from pmm.client_never_aliased [OF assms this] obtain live s' where
    r: "alloc_run (\<lambda>_ :: unit. pmmngr_alloc_block) pmmngr_free_block ops [] s = Some (live, s')" "pmm_ok s'"
      "holds (block_regions s') live" by blast
  then show ?thesis by (fastforce simp: holds_def block_regions_def)
qed

lemma pmm_client_never_aliased_witness:
  "\<exists>live s'. alloc_run (\<lambda>_ :: unit. pmmngr_alloc_block) pmmngr_free_block [Alloc (), Alloc (), Free 1, Alloc ()] [] sample_pmm
     = Some (live, s') \<and> distinct live"
  using pmm_client_never_aliased [OF sample_pmm_ok] by blast

text \<open>
  Contiguous blocks, when the bitmap has room for one bit more than the managed blocks: the
  search terminates, and a non-null result is a run of blocks that were all free, now all and only
  they marked, with the use count raised by their number; the well-formedness invariant is kept
  when the run ends inside the managed memory, which the code guarantees only up to one block.
\<close>

theorem pmm_alloc_blocks_run:
  assumes "pmm_ok s" and "unat (mmngr_max_blocks s) < 32 * length (mmngr_bitmap s)" and "0 < sz"
  shows "\<exists>a s'. pmmngr_alloc_blocks sz s = Some (a, s') \<and>
    (a \<noteq> 0 \<longrightarrow> (\<exists>f. unat a = 4096 * f \<and> f + block_count sz \<le> unat (mmngr_max_blocks s) + 1 \<and>
       run_free (mmngr_bitmap s) f (block_count sz) \<and>
       (\<forall>j. block_used (mmngr_bitmap s') j \<longleftrightarrow> (f \<le> j \<and> j < f + block_count sz) \<or> block_used (mmngr_bitmap s) j) \<and>
       (f + block_count sz \<le> unat (mmngr_max_blocks s) \<longrightarrow> pmm_ok s'))) \<and>
    (a = 0 \<longrightarrow> mmngr_bitmap s' = mmngr_bitmap s \<and> pmm_ok s')"
  using pmmngr_alloc_blocks_ok [OF assms]
proof
  assume "\<exists>f s'. pmmngr_alloc_blocks sz s = Some (f * PMMNGR_BLOCK_SIZE, s') \<and> 0 < unat f \<and>
    run_free (mmngr_bitmap s) (unat f) (block_count sz) \<and> unat f + block_count sz \<le> unat (mmngr_max_blocks s) + 1 \<and>
    s' = s\<lparr>mmngr_bitmap := set_blocks (block_count sz) (unat f) (mmngr_bitmap s),
      mmngr_used_blocks := mmngr_used_blocks s + of_nat (block_count sz)\<rparr>"
  then obtain f s' where f: "pmmngr_alloc_blocks sz s = Some (f * PMMNGR_BLOCK_SIZE, s')" "0 < unat f"
    "run_free (mmngr_bitmap s) (unat f) (block_count sz)" "unat f + block_count sz \<le> unat (mmngr_max_blocks s) + 1"
    "s' = s\<lparr>mmngr_bitmap := set_blocks (block_count sz) (unat f) (mmngr_bitmap s),
      mmngr_used_blocks := mmngr_used_blocks s + of_nat (block_count sz)\<rparr>" by blast
  have "0 < unat sz" using assms(3) by (simp add: word_less_nat_alt)
  then have "0 < block_count sz" by (simp add: block_count_def)
  then have "unat f < 2 ^ 20" using f(4) assms(1) by (auto simp: pmm_ok_def)
  then have a: "unat (f * PMMNGR_BLOCK_SIZE) = 4096 * unat f" by (rule block_addr)
  have "block_used (mmngr_bitmap s') j \<longleftrightarrow> (unat f \<le> j \<and> j < unat f + block_count sz) \<or> block_used (mmngr_bitmap s) j" for j
    using f(4,5) assms(2) by (simp add: block_used_set_blocks)
  moreover have "unat f + block_count sz \<le> unat (mmngr_max_blocks s) \<longrightarrow> pmm_ok s'"
    using alloc_blocks_inv [OF assms(1) f(3)] f(5) by simp
  moreover have "f * PMMNGR_BLOCK_SIZE \<noteq> 0" using a f(2) by auto
  ultimately show ?thesis using f(1,3,4) a by auto
qed (use assms(1) in auto)

lemma pmm_alloc_blocks_run_witness:
  "\<exists>a s'. pmmngr_alloc_blocks 8192 sample_pmm = Some (a, s') \<and> (a = 0 \<longrightarrow> mmngr_bitmap s' = mmngr_bitmap sample_pmm)"
proof -
  have "unat (mmngr_max_blocks sample_pmm) < 32 * length (mmngr_bitmap sample_pmm)" by (simp add: sample_pmm_def)
  from pmm_alloc_blocks_run [OF sample_pmm_ok this, of 8192] show ?thesis by auto
qed

definition five_blocks :: pmm where
  "five_blocks = \<lparr>last_error = 0, mmngr_memory_size = 20, mmngr_used_blocks = 2, mmngr_max_blocks = 5,
     mmngr_bitmap = [5], cr0 = 0, cr3 = 0\<rparr>"

definition full_word :: pmm where
  "full_word = \<lparr>last_error = 0, mmngr_memory_size = 264, mmngr_used_blocks = 63, mmngr_max_blocks = 66,
     mmngr_bitmap = [0x7FFFFFFF, 0xFFFFFFFF, 0xFFFFFFFC], cr0 = 0, cr3 = 0\<rparr>"

lemma five_blocks_alloc:
  "pmm_ok five_blocks"
  "pmmngr_alloc_blocks 12288 five_blocks = Some (12288, five_blocks\<lparr>mmngr_bitmap := [0x3D], mmngr_used_blocks := 5\<rparr>)"
  "\<not> pmm_ok (five_blocks\<lparr>mmngr_bitmap := [0x3D], mmngr_used_blocks := 5\<rparr>)"
proof -
  show "pmm_ok five_blocks"
    by (simp add: pmm_ok_def five_blocks_def used_blocks_filter block_used_def upt_rec del: set_filter)
  show "pmmngr_alloc_blocks 12288 five_blocks = Some (12288, five_blocks\<lparr>mmngr_bitmap := [0x3D], mmngr_used_blocks := 5\<rparr>)"
    unfolding five_blocks_def by code_simp
  show "\<not> pmm_ok (five_blocks\<lparr>mmngr_bitmap := [0x3D], mmngr_used_blocks := 5\<rparr>)"
    by (simp add: pmm_ok_def five_blocks_def used_blocks_filter block_used_def upt_rec del: set_filter)
qed

lemma full_word_alloc:
  "pmm_ok full_word" "run_free (mmngr_bitmap full_word) 64 2"
  "pmmngr_alloc_blocks 8192 full_word = Some (0, set_last_error ENOMEM PMEM_OUT_OF_MEM EO_PMMNGR full_word)"
proof -
  have "card (used_blocks [0x7FFFFFFF, 0xFFFFFFFF, 0xFFFFFFFC] 66) = 63"
    unfolding used_blocks_filter block_used_def by code_simp
  then show "pmm_ok full_word" by (simp add: pmm_ok_def full_word_def block_used_def)
  show "run_free (mmngr_bitmap full_word) 64 2"
    unfolding run_free_def
  proof (intro allI impI)
    fix j :: nat assume "64 \<le> j" "j < 64 + 2"
    then have "j = 64 \<or> j = 65" by arith
    then show "\<not> block_used (mmngr_bitmap full_word) j" by (auto simp: full_word_def block_used_def)
  qed
  show "pmmngr_alloc_blocks 8192 full_word = Some (0, set_last_error ENOMEM PMEM_OUT_OF_MEM EO_PMMNGR full_word)"
    unfolding full_word_def by code_simp
qed

text \<open>
  Two faults of the search for a run. The inner loop tests one bit past the last block, so in a
  well formed state with five blocks of which the last two are free a request for three blocks is
  granted a run that ends outside the managed memory. The outer loop skips a full word with
  \<^verbatim>\<open>bit += 32\<close> although \<^verbatim>\<open>bit\<close> need not be at the start of the word, so free blocks after a full
  word are missed and a request for two blocks fails with \<^verbatim>\<open>ENOMEM\<close> while two adjacent blocks are free.
\<close>

theorem pmm_alloc_blocks_faults:
  "(\<exists>s s' :: pmm. pmm_ok s \<and> mmngr_max_blocks s = 5 \<and> pmmngr_alloc_blocks 12288 s = Some (3 * 4096, s') \<and>
      block_used (mmngr_bitmap s') 5 \<and> \<not> block_used (mmngr_bitmap s) 5 \<and> \<not> pmm_ok s') \<and>
   (\<exists>s :: pmm. pmm_ok s \<and> mmngr_max_blocks s = 66 \<and> run_free (mmngr_bitmap s) 64 2 \<and>
      pmmngr_alloc_blocks 8192 s = Some (0, set_last_error ENOMEM PMEM_OUT_OF_MEM EO_PMMNGR s))"
proof
  have "mmngr_max_blocks five_blocks = 5" "\<not> block_used (mmngr_bitmap five_blocks) 5" "block_used [0x3D] 5"
    by (simp_all add: five_blocks_def block_used_def)
  with five_blocks_alloc show "\<exists>s s' :: pmm. pmm_ok s \<and> mmngr_max_blocks s = 5 \<and>
      pmmngr_alloc_blocks 12288 s = Some (3 * 4096, s') \<and>
      block_used (mmngr_bitmap s') 5 \<and> \<not> block_used (mmngr_bitmap s) 5 \<and> \<not> pmm_ok s'"
    by (intro exI [of _ five_blocks] exI [of _ "five_blocks\<lparr>mmngr_bitmap := [0x3D], mmngr_used_blocks := 5\<rparr>"]) simp
  show "\<exists>s :: pmm. pmm_ok s \<and> mmngr_max_blocks s = 66 \<and> run_free (mmngr_bitmap s) 64 2 \<and>
      pmmngr_alloc_blocks 8192 s = Some (0, set_last_error ENOMEM PMEM_OUT_OF_MEM EO_PMMNGR s)"
    using full_word_alloc by (intro exI [of _ full_word]) (simp add: full_word_def)
qed

text \<open>
  Giving contiguous blocks back. Freeing \<open>m + 1\<close> blocks that are all in use clears the bit of the
  first one only but lowers the use count by \<open>m + 1\<close>; the invariant survives exactly for one block.
\<close>

theorem pmm_free_blocks_leak:
  assumes "pmm_ok s" and "block_count sz = Suc m" and "0 < unat f" and "unat f + Suc m \<le> unat (mmngr_max_blocks s)"
    and "\<forall>j. unat f \<le> j \<longrightarrow> j < unat f + Suc m \<longrightarrow> block_used (mmngr_bitmap s) j"
  shows "\<exists>s'. pmmngr_free_blocks (f * PMMNGR_BLOCK_SIZE) sz s = Some s' \<and>
    (\<forall>j. block_used (mmngr_bitmap s') j \<longleftrightarrow> j \<noteq> unat f \<and> block_used (mmngr_bitmap s) j) \<and>
    unat (mmngr_used_blocks s') = unat (mmngr_used_blocks s) - Suc m \<and> (pmm_ok s' \<longleftrightarrow> m = 0)"
proof -
  let ?n = "unat (mmngr_max_blocks s)" and ?bm = "mmngr_bitmap s"
  let ?s' = "s\<lparr>mmngr_bitmap := block_clear (unat f) ?bm, mmngr_used_blocks := mmngr_used_blocks s - of_nat (Suc m)\<rparr>"
  have n: "?n < 2 ^ 20" "?n \<le> 32 * length ?bm" using assms(1) by (simp_all add: pmm_ok_def)
  have u: "unat (mmngr_used_blocks s) = card (used_blocks ?bm ?n)" using assms(1) by (simp add: pmm_ok_def)
  have sub: "{unat f ..< unat f + Suc m} \<subseteq> used_blocks ?bm ?n" using assms(4,5) by (auto simp: used_blocks_def)
  then have le: "Suc m \<le> card (used_blocks ?bm ?n)" using card_mono [OF _ sub] by simp
  have "unat (of_nat (Suc m) :: u32) = Suc m" using assms(4) n by (intro unat_of_nat_u32) simp
  then have cnt: "unat (mmngr_used_blocks s - of_nat (Suc m)) = card (used_blocks ?bm ?n) - Suc m"
    using le u by (subst unat_sub_le) simp_all
  have fu: "block_used ?bm (unat f)" "unat f < ?n" using assms(4,5) by simp_all
  have c: "card (used_blocks (block_clear (unat f) ?bm) ?n) = card (used_blocks ?bm ?n) - 1"
    using card_used_clear [OF fu(2) n(2) fu(1)] by simp
  have "pmm_ok ?s' \<longleftrightarrow> m = 0"
    using assms(1,3) c cnt le fu(2) n(2) by (auto simp: pmm_ok_def)
  then show ?thesis using pmmngr_free_blocks_ok [OF assms] fu(2) n(2) u cnt by simp
qed

lemma pmm_free_blocks_leak_witness:
  "\<exists>s'. pmmngr_free_blocks (63 * PMMNGR_BLOCK_SIZE) 4096 full_word = Some s' \<and> pmm_ok s'"
proof -
  have "block_count 4096 = Suc 0" by (simp add: block_count_def)
  moreover have "unat (63 :: u32) + Suc 0 \<le> unat (mmngr_max_blocks full_word)" by (simp add: full_word_def)
  moreover have "\<forall>j. unat (63 :: u32) \<le> j \<longrightarrow> j < unat (63 :: u32) + Suc 0 \<longrightarrow> block_used (mmngr_bitmap full_word) j"
  proof (intro allI impI)
    fix j assume "unat (63 :: u32) \<le> j" "j < unat (63 :: u32) + Suc 0"
    then have "j = 63" by simp
    then show "block_used (mmngr_bitmap full_word) j" by (simp add: full_word_def block_used_def)
  qed
  ultimately show ?thesis
    using pmm_free_blocks_leak [OF full_word_alloc(1), of 4096 0 63] by auto
qed

text \<open>
  Giving a region to the manager or taking it away, for an aligned non-empty region inside the
  bitmap: \<^verbatim>\<open>pmmngr_free_region\<close> frees only the blocks before the first block of the region that is
  already free, because the block address advances only when a block was in use; block 0 is always
  taken again. \<^verbatim>\<open>pmmngr_reserve_region\<close> likewise reserves only the blocks before the first one in use.
\<close>

theorem pmm_region_prefix:
  assumes "pr_length r \<noteq> 0" and "pr_length r mod 4096 = 0" and "pr_base r mod 4096 = 0"
    and fit: "unat (pr_base r div 4096) + unat (pr_length r div 4096) \<le> 32 * length (mmngr_bitmap s)"
  shows "\<exists>s1 s2. pmmngr_free_region r s = Some (None, s1) \<and> pmmngr_reserve_region r s = Some (None, s2) \<and>
    (let b = unat (pr_base r div 4096); n = unat (pr_length r div 4096) in
      (\<forall>j. block_used (mmngr_bitmap s1) j \<longleftrightarrow> j = 0 \<or>
         block_used (mmngr_bitmap s) j \<and> \<not> (b \<le> j \<and> j < b + used_prefix (mmngr_bitmap s) b n)) \<and>
      (\<forall>j. block_used (mmngr_bitmap s2) j \<longleftrightarrow>
         block_used (mmngr_bitmap s) j \<or> (b \<le> j \<and> j < b + free_prefix (mmngr_bitmap s) b n)))"
proof -
  let ?a = "pr_base r div 4096" and ?n = "unat (pr_length r div 4096)" and ?bm = "mmngr_bitmap s"
  let ?u = "used_prefix ?bm (unat ?a) ?n" and ?f = "free_prefix ?bm (unat ?a) ?n"
  have small: "unat ?a + ?n < 2 ^ 31"
    using unat_lt_u32 [of "pr_base r"] unat_lt_u32 [of "pr_length r"] by (simp add: unat_div)
  have le: "?u \<le> ?n" "?f \<le> ?n"
    using length_takeWhile_le [of _ "[unat ?a..<unat ?a + ?n]"] by (simp_all add: used_prefix_def free_prefix_def)
  define s1 where "s1 = s\<lparr>mmngr_bitmap := clear_blocks ?u (unat ?a) ?bm, mmngr_used_blocks := mmngr_used_blocks s - of_nat ?u\<rparr>"
  have f: "free_region_loop ?n ?a s = Some s1" using free_region_loop_ok [OF fit small] by (simp add: s1_def)
  have b1: "block_used (mmngr_bitmap s1) j \<longleftrightarrow> \<not> (unat ?a \<le> j \<and> j < unat ?a + ?u) \<and> block_used ?bm j" for j
    unfolding s1_def using fit le by (simp add: block_used_clear_blocks)
  have "0 < ?n"
  proof -
    have "pr_length r div 4096 \<noteq> 0"
      using assms(1,2) div_mult_mod_eq [of "pr_length r" 4096] by auto
    then show ?thesis by (simp add: unat_gt_0)
  qed
  then have l0: "0 < length (mmngr_bitmap s1)" using fit by (cases "mmngr_bitmap s") (simp_all add: s1_def)
  then have bi: "block_in (mmngr_bitmap s1) 0" by (simp add: block_in_def)
  have "\<exists>s1'. pmmngr_free_region r s = Some (None, s1') \<and>
      (\<forall>j. block_used (mmngr_bitmap s1') j \<longleftrightarrow> j = 0 \<or> block_used (mmngr_bitmap s1) j)"
  proof (cases "block_used (mmngr_bitmap s1) 0")
    case True
    then show ?thesis
      using f assms(1,2,3) mmap_test_in [OF bi] by (auto simp: pmmngr_free_region_def PMMNGR_BLOCK_SIZE_def)
  next
    case False
    then show ?thesis
      using f assms(1,2,3) mmap_test_in [OF bi] mmap_set_in [OF bi] l0
      by (auto simp: pmmngr_free_region_def PMMNGR_BLOCK_SIZE_def)
  qed
  moreover have "pmmngr_reserve_region r s = Some (None, s\<lparr>mmngr_bitmap := set_blocks ?f (unat ?a) ?bm,
      mmngr_used_blocks := mmngr_used_blocks s + of_nat ?f\<rparr>)"
    using reserve_region_loop_ok [OF fit small] assms(1,2,3) by (simp add: pmmngr_reserve_region_def PMMNGR_BLOCK_SIZE_def)
  moreover have "block_used (set_blocks ?f (unat ?a) ?bm) j \<longleftrightarrow> block_used ?bm j \<or> (unat ?a \<le> j \<and> j < unat ?a + ?f)" for j
    using fit le by (simp add: block_used_set_blocks) blast
  ultimately show ?thesis unfolding Let_def b1 by auto
qed

lemma pmm_region_prefix_witness:
  "\<exists>s1. pmmngr_free_region \<lparr>pr_base = 4096 * 30, pr_length = 8192\<rparr> sample_pmm = Some (None, s1) \<and>
     block_used (mmngr_bitmap s1) 31"
proof -
  let ?r = "\<lparr>pr_base = 4096 * 30, pr_length = 8192\<rparr>"
  have "used_prefix (mmngr_bitmap sample_pmm) 30 2 = 0"
    by (simp add: used_prefix_def sample_pmm_def block_used_def upt_rec)
  moreover have "block_used (mmngr_bitmap sample_pmm) 31" by (simp add: sample_pmm_def block_used_def)
  ultimately show ?thesis
    using pmm_region_prefix [of ?r sample_pmm] by (auto simp: sample_pmm_def Let_def)
qed

end
