(* ===== verification/Paging.thy ===== *)
theory Paging
  imports Phys_Memory
begin

text \<open>
  The virtual memory manager: vmmngr_pde.cpp, vmmngr_pte.cpp and mmngr_virtual.cpp. A page
  directory or page table is a list of 1024 words at its block address; the code uses physical
  addresses of tables as pointers, so tables are taken to be identity mapped. A pointer to an entry
  is the block address and the index. \<open>translate\<close> is the processor's walk, the specification the
  mapping functions are measured against.
\<close>

subsection \<open>Entries\<close>

type_synonym pd_entry = u32
type_synonym pt_entry = u32
type_synonym entry_ptr = "ptr \<times> u32"

definition I86_PDE_PRESENT :: u32 where [kernel_simps]: "I86_PDE_PRESENT = 1"
definition I86_PDE_WRITABLE :: u32 where [kernel_simps]: "I86_PDE_WRITABLE = 2"
definition I86_PDE_USER :: u32 where [kernel_simps]: "I86_PDE_USER = 4"
definition I86_PDE_4MB :: u32 where [kernel_simps]: "I86_PDE_4MB = 0x80"
definition I86_PDE_FRAME :: u32 where [kernel_simps]: "I86_PDE_FRAME = 0xFFFFF000"
definition I86_PTE_PRESENT :: u32 where [kernel_simps]: "I86_PTE_PRESENT = 1"
definition I86_PTE_WRITABLE :: u32 where [kernel_simps]: "I86_PTE_WRITABLE = 2"
definition I86_PTE_FRAME :: u32 where [kernel_simps]: "I86_PTE_FRAME = 0xFFFFF000"

definition pd_entry_add_attrib :: "pd_entry \<Rightarrow> u32 \<Rightarrow> pd_entry" where
  "pd_entry_add_attrib e attrib = (e OR attrib)"

definition pd_entry_del_attrib :: "pd_entry \<Rightarrow> u32 \<Rightarrow> pd_entry" where
  "pd_entry_del_attrib e attrib = (e AND NOT attrib)"

definition pd_entry_test_attrib :: "pd_entry \<Rightarrow> u32 \<Rightarrow> bool" where
  "pd_entry_test_attrib e attrib \<longleftrightarrow> (e AND attrib) = attrib"

definition pd_entry_set_frame :: "pd_entry \<Rightarrow> physical_addr \<Rightarrow> pd_entry" where
  "pd_entry_set_frame e addr = ((e AND NOT I86_PDE_FRAME) OR addr)"

definition pd_entry_is_present :: "pd_entry \<Rightarrow> bool" where
  "pd_entry_is_present e \<longleftrightarrow> e AND I86_PDE_PRESENT \<noteq> 0"

definition pd_entry_is_writable :: "pd_entry \<Rightarrow> bool" where
  "pd_entry_is_writable e \<longleftrightarrow> e AND I86_PDE_WRITABLE \<noteq> 0"

definition pd_entry_is_user :: "pd_entry \<Rightarrow> bool" where
  "pd_entry_is_user e \<longleftrightarrow> e AND I86_PDE_USER \<noteq> 0"

definition pd_entry_is_4mb :: "pd_entry \<Rightarrow> bool" where
  "pd_entry_is_4mb e \<longleftrightarrow> e AND I86_PDE_4MB \<noteq> 0"

definition pd_entry_get_frame :: "pd_entry \<Rightarrow> physical_addr" where
  "pd_entry_get_frame e = (e AND I86_PDE_FRAME)"

definition pt_entry_add_attrib :: "pt_entry \<Rightarrow> u32 \<Rightarrow> pt_entry" where
  "pt_entry_add_attrib e attrib = (e OR attrib)"

definition pt_entry_del_attrib :: "pt_entry \<Rightarrow> u32 \<Rightarrow> pt_entry" where
  "pt_entry_del_attrib e attrib = (e AND NOT attrib)"

definition pt_entry_test_attrib :: "pt_entry \<Rightarrow> u32 \<Rightarrow> bool" where
  "pt_entry_test_attrib e attrib \<longleftrightarrow> (e AND attrib) = attrib"

definition pt_entry_set_frame :: "pt_entry \<Rightarrow> physical_addr \<Rightarrow> pt_entry" where
  "pt_entry_set_frame e addr = ((e AND NOT I86_PTE_FRAME) OR addr)"

definition pt_entry_is_present :: "pt_entry \<Rightarrow> bool" where
  "pt_entry_is_present e \<longleftrightarrow> e AND I86_PTE_PRESENT \<noteq> 0"

definition pt_entry_is_writable :: "pt_entry \<Rightarrow> bool" where
  "pt_entry_is_writable e \<longleftrightarrow> e AND I86_PTE_WRITABLE \<noteq> 0"

definition pt_entry_get_frame :: "pt_entry \<Rightarrow> physical_addr" where
  "pt_entry_get_frame e = (e AND I86_PTE_FRAME)"

subsection \<open>State\<close>

record vmm = pmm +
  tables :: "ptr \<Rightarrow> u32 list option"
  current_directory :: ptr
  current_pdbr :: physical_addr
  kernel_directory :: ptr

definition VMEM_BAD_ARGUMENT :: u16 where "VMEM_BAD_ARGUMENT = 1"
definition PAGE_SIZE :: u32 where [kernel_simps]: "PAGE_SIZE = 4096"
definition DEFAULT_FLAGS :: u32 where "DEFAULT_FLAGS = (I86_PDE_PRESENT OR I86_PDE_WRITABLE)"
definition PAGE_DIR_INDEX :: "virtual_addr \<Rightarrow> u32" where "PAGE_DIR_INDEX x = (drop_bit 22 x AND 0x3ff)"
definition PAGE_TABLE_INDEX :: "virtual_addr \<Rightarrow> u32" where "PAGE_TABLE_INDEX x = (drop_bit 12 x AND 0x3ff)"

definition entry_get :: "entry_ptr \<Rightarrow> 'a vmm_scheme \<Rightarrow> u32 option" where
  "entry_get e s = do { t \<leftarrow> tables s (fst e); array_get t (snd e) }"

definition entry_put :: "entry_ptr \<Rightarrow> u32 \<Rightarrow> 'a vmm_scheme \<Rightarrow> 'a vmm_scheme option" where
  "entry_put e v s = do {
     t \<leftarrow> tables s (fst e);
     t' \<leftarrow> array_set t (snd e) v;
     Some (s\<lparr>tables := (tables s)(fst e \<mapsto> t')\<rparr>)
   }"

definition zero_table :: "ptr \<Rightarrow> 'a vmm_scheme \<Rightarrow> 'a vmm_scheme" where
  \<comment> \<open>\<^verbatim>\<open>memset(table, 0, sizeof(ptable))\<close>.\<close>
  "zero_table p s = s\<lparr>tables := (tables s)(p \<mapsto> replicate 1024 0)\<rparr>"

subsection \<open>Operations\<close>

definition vmmngr_get_directory :: "'a vmm_scheme \<Rightarrow> ptr" where
  "vmmngr_get_directory s = current_directory s"

definition vmmngr_ptable_lookup_entry :: "ptr \<Rightarrow> virtual_addr \<Rightarrow> 'a vmm_scheme \<Rightarrow> entry_ptr option \<times> 'a vmm_scheme" where
  "vmmngr_ptable_lookup_entry p addr s =
     (if p \<noteq> 0 then (Some (p, PAGE_TABLE_INDEX addr), s)
      else (None, set_last_error EINVAL VMEM_BAD_ARGUMENT EO_VMMNGR s))"

definition vmmngr_pdirectory_lookup_entry :: "ptr \<Rightarrow> virtual_addr \<Rightarrow> 'a vmm_scheme \<Rightarrow> entry_ptr option \<times> 'a vmm_scheme" where
  "vmmngr_pdirectory_lookup_entry p addr s =
     (if p \<noteq> 0 then (Some (p, PAGE_DIR_INDEX addr), s)
      else (None, set_last_error EINVAL VMEM_BAD_ARGUMENT EO_VMMNGR s))"

definition vmmngr_create_table :: "ptr \<Rightarrow> virtual_addr \<Rightarrow> u32 \<Rightarrow> 'a vmm_scheme \<Rightarrow> (error_t \<times> 'a vmm_scheme) option" where
  "vmmngr_create_table dir addr flags s = do {
     let (entry, s) = vmmngr_pdirectory_lookup_entry dir addr s;
     case entry of None \<Rightarrow> Some (ERROR_OCCUR, s)
     | Some ep \<Rightarrow> do {
         e \<leftarrow> entry_get ep s;
         if \<not> pd_entry_is_present e then do {
           (table, s) \<leftarrow> pmmngr_alloc_block s;
           if table = 0 then Some (ERROR_OCCUR, s)
           else do {
             let s = zero_table table s;
             e \<leftarrow> entry_get ep s;
             s \<leftarrow> entry_put ep (pd_entry_set_frame e table) s;
             e \<leftarrow> entry_get ep s;
             s \<leftarrow> entry_put ep (e OR flags) s;
             Some (ERROR_OK, s)
           }
         }
         else Some (ERROR_OK, s)
       }
   }"

definition vmmngr_map_page ::
  "ptr \<Rightarrow> physical_addr \<Rightarrow> virtual_addr \<Rightarrow> u32 \<Rightarrow> 'a vmm_scheme \<Rightarrow> (error_t \<times> 'a vmm_scheme) option" where
  "vmmngr_map_page dir phys virt flags s = do {
     let (entry, s) = vmmngr_pdirectory_lookup_entry dir virt s;
     ep \<leftarrow> entry;
     e \<leftarrow> entry_get ep s;
     (err, s) \<leftarrow> (if \<not> pd_entry_test_attrib e I86_PDE_PRESENT then vmmngr_create_table dir virt flags s else Some (ERROR_OK, s));
     if err \<noteq> ERROR_OK then Some (ERROR_OCCUR, s)
     else do {
       e \<leftarrow> entry_get ep s;
       let table = pd_entry_get_frame e;
       let (page, s) = vmmngr_ptable_lookup_entry table virt s;
       case page of None \<Rightarrow> Some (ERROR_OCCUR, s)
       | Some pp \<Rightarrow> do {
           p \<leftarrow> entry_get pp s;
           s \<leftarrow> entry_put pp (p OR flags) s;
           p \<leftarrow> entry_get pp s;
           s \<leftarrow> entry_put pp (pt_entry_set_frame p phys) s;
           Some (ERROR_OK, s)
         }
     }
   }"

definition vmmngr_get_phys_addr :: "virtual_addr \<Rightarrow> 'a vmm_scheme \<Rightarrow> (physical_addr \<times> 'a vmm_scheme) option" where
  "vmmngr_get_phys_addr addr s = do {
     let (entry, s) = vmmngr_pdirectory_lookup_entry (vmmngr_get_directory s) addr s;
     case entry of None \<Rightarrow> Some (0, s)
     | Some ep \<Rightarrow> do {
         e \<leftarrow> entry_get ep s;
         let (page, s) = vmmngr_ptable_lookup_entry (pd_entry_get_frame e) addr s;
         case page of None \<Rightarrow> Some (0, s)
         | Some pp \<Rightarrow> do { p \<leftarrow> entry_get pp s; Some (pt_entry_get_frame p + (addr AND 0xfff), s) }
       }
   }"

definition vmmngr_is_page_present :: "virtual_addr \<Rightarrow> 'a vmm_scheme \<Rightarrow> (bool \<times> 'a vmm_scheme) option" where
  "vmmngr_is_page_present addr s = do {
     let (entry, s) = vmmngr_pdirectory_lookup_entry (vmmngr_get_directory s) addr s;
     case entry of None \<Rightarrow> Some (False, s)
     | Some ep \<Rightarrow> do {
         e \<leftarrow> entry_get ep s;
         if \<not> pd_entry_is_present e then Some (False, s)
         else do {
           let table = pd_entry_get_frame e;
           if table = 0 then Some (False, s)
           else do {
             let (page, s) = vmmngr_ptable_lookup_entry table addr s;
             case page of None \<Rightarrow> Some (False, s)
             | Some pp \<Rightarrow> do { p \<leftarrow> entry_get pp s; Some (pt_entry_is_present p, s) }
           }
         }
       }
   }"

definition vmmngr_alloc_page_f :: "virtual_addr \<Rightarrow> u32 \<Rightarrow> 'a vmm_scheme \<Rightarrow> (error_t \<times> 'a vmm_scheme) option" where
  "vmmngr_alloc_page_f base flags s = do {
     (present, s) \<leftarrow> vmmngr_is_page_present base s;
     (err, addr, s) \<leftarrow> (if present then do { (a, s) \<leftarrow> vmmngr_get_phys_addr base s; Some (ERROR_OK, a, s) }
       else do {
         (err, addr, s) \<leftarrow> (if base < 0xF0000000 then do {
             (a, s) \<leftarrow> pmmngr_alloc_block s;
             Some ((if a = 0 then ERROR_OCCUR else ERROR_OK), a, s)
           }
           else Some (ERROR_OK, base, s));
         if err \<noteq> ERROR_OK then Some (ERROR_OCCUR, addr, s)
         else if addr = 0 then Some (ERROR_OCCUR, addr, set_last_error EINVAL VMEM_BAD_ARGUMENT EO_VMMNGR s)
         else Some (ERROR_OK, addr, s)
       });
     if err \<noteq> ERROR_OK then Some (ERROR_OCCUR, s)
     else do {
       (err, s) \<leftarrow> vmmngr_map_page (vmmngr_get_directory s) addr base flags s;
       Some ((if err \<noteq> ERROR_OK then ERROR_OCCUR else ERROR_OK), s)
     }
   }"

definition vmmngr_alloc_page :: "virtual_addr \<Rightarrow> 'a vmm_scheme \<Rightarrow> (error_t \<times> 'a vmm_scheme) option" where
  "vmmngr_alloc_page base s = vmmngr_alloc_page_f base DEFAULT_FLAGS s"

definition vmmngr_free_page :: "entry_ptr option \<Rightarrow> 'a vmm_scheme \<Rightarrow> (error_t \<times> 'a vmm_scheme) option" where
  "vmmngr_free_page entry s =
     (case entry of None \<Rightarrow> Some (ERROR_OCCUR, set_last_error EINVAL VMEM_BAD_ARGUMENT EO_VMMNGR s)
      | Some ep \<Rightarrow> do {
          e \<leftarrow> entry_get ep s;
          let addr = pt_entry_get_frame e;
          s \<leftarrow> (if addr \<noteq> 0 then pmmngr_free_block addr s else Some s);
          e \<leftarrow> entry_get ep s;
          s \<leftarrow> entry_put ep (pt_entry_del_attrib e I86_PTE_PRESENT) s;
          e \<leftarrow> entry_get ep s;
          s \<leftarrow> entry_put ep (pt_entry_del_attrib e I86_PTE_WRITABLE) s;
          Some (ERROR_OK, s)
        })"

definition vmmngr_free_page_addr :: "virtual_addr \<Rightarrow> 'a vmm_scheme \<Rightarrow> 'a vmm_scheme option" where
  "vmmngr_free_page_addr addr s = do {
     let (entry, s) = vmmngr_pdirectory_lookup_entry (vmmngr_get_directory s) addr s;
     ep \<leftarrow> entry;
     e \<leftarrow> entry_get ep s;
     let (page, s) = vmmngr_ptable_lookup_entry (pd_entry_get_frame e) addr s;
     (_, s) \<leftarrow> vmmngr_free_page page s;
     Some s
   }"

definition vmmngr_switch_directory :: "ptr \<Rightarrow> physical_addr \<Rightarrow> 'a vmm_scheme \<Rightarrow> error_t \<times> 'a vmm_scheme" where
  "vmmngr_switch_directory dir pdbr s =
     (if pmmngr_get_PDBR s = pdbr then (ERROR_OK, s)
      else if dir = 0 then (ERROR_OCCUR, set_last_error EINVAL VMEM_BAD_ARGUMENT EO_VMMNGR s)
      else (ERROR_OK, pmmngr_load_PDBR pdbr (s\<lparr>current_directory := dir, current_pdbr := pdbr\<rparr>)))"

definition vmmngr_switch_to_kernel_directory :: "'a vmm_scheme \<Rightarrow> error_t \<times> 'a vmm_scheme" where
  "vmmngr_switch_to_kernel_directory s = vmmngr_switch_directory (kernel_directory s) (kernel_directory s) s"

definition vmmngr_ptable_clear :: "ptr \<Rightarrow> 'a vmm_scheme \<Rightarrow> (error_t \<times> 'a vmm_scheme) option" where
  "vmmngr_ptable_clear table s =
     (if table = 0 then Some (ERROR_OCCUR, set_last_error EINVAL VMEM_BAD_ARGUMENT EO_VMMNGR s)
      else do { s \<leftarrow> pmmngr_free_block table (zero_table table s); Some (ERROR_OK, s) })"

fun pdirectory_clear_loop :: "nat \<Rightarrow> u32 \<Rightarrow> ptr \<Rightarrow> 'a vmm_scheme \<Rightarrow> (error_t \<times> 'a vmm_scheme) option" where
  \<comment> \<open>\<open>n\<close> iterations remain, \<open>i\<close> is the loop variable.\<close>
  "pdirectory_clear_loop 0 i pdir s = Some (ERROR_OK, s)"
| "pdirectory_clear_loop (Suc n) i pdir s = do {
     e \<leftarrow> entry_get (pdir, i) s;
     (err, s) \<leftarrow> vmmngr_ptable_clear (pd_entry_get_frame e) s;
     if err \<noteq> ERROR_OK then Some (ERROR_OCCUR, s) else pdirectory_clear_loop n (i + 1) pdir s
   }"

definition vmmngr_pdirectory_clear :: "ptr \<Rightarrow> 'a vmm_scheme \<Rightarrow> (error_t \<times> 'a vmm_scheme) option" where
  "vmmngr_pdirectory_clear pdir s = do {
     (err, s) \<leftarrow> pdirectory_clear_loop 1024 0 pdir s;
     if err \<noteq> ERROR_OK then Some (ERROR_OCCUR, s)
     else do { s \<leftarrow> pmmngr_free_block pdir (zero_table pdir s); Some (ERROR_OK, s) }
   }"

definition vmmngr_create_address_space :: "'a vmm_scheme \<Rightarrow> (ptr \<times> 'a vmm_scheme) option" where
  "vmmngr_create_address_space s = do {
     (dir, s) \<leftarrow> pmmngr_alloc_block s;
     if dir = 0 then Some (0, s) else Some (dir, zero_table dir s)
   }"

definition vmmngr_map_kernel_space :: "ptr \<Rightarrow> 'a vmm_scheme \<Rightarrow> (error_t \<times> 'a vmm_scheme) option" where
  "vmmngr_map_kernel_space pdir s =
     (if pdir = 0 then Some (ERROR_OCCUR, s)
      else do { t \<leftarrow> tables s (kernel_directory s); Some (ERROR_OK, s\<lparr>tables := (tables s)(pdir \<mapsto> t)\<rparr>) })"

definition vmmngr_get_page_size :: u32 where
  "vmmngr_get_page_size = PAGE_SIZE"

fun map_range :: "nat \<Rightarrow> ptr \<Rightarrow> physical_addr \<Rightarrow> virtual_addr \<Rightarrow> 'a vmm_scheme \<Rightarrow> (error_t \<times> 'a vmm_scheme) option" where
  \<comment> \<open>The two mapping loops of \<^verbatim>\<open>vmmngr_initialize\<close>: \<open>n\<close> pages from \<open>phys\<close> and \<open>virt\<close>.\<close>
  "map_range 0 pdir phys virt s = Some (ERROR_OK, s)"
| "map_range (Suc n) pdir phys virt s = do {
     (err, s) \<leftarrow> vmmngr_map_page pdir phys virt DEFAULT_FLAGS s;
     if err \<noteq> ERROR_OK then Some (ERROR_OCCUR, s) else map_range n pdir (phys + 4096) (virt + 4096) s
   }"

definition vmmngr_initialize :: "u32 \<Rightarrow> 'a vmm_scheme \<Rightarrow> (error_t \<times> 'a vmm_scheme) option" where
  \<comment> \<open>The registration of the page fault handlers is not part of the state.\<close>
  "vmmngr_initialize kernel_pages s = do {
     (pdir, s) \<leftarrow> pmmngr_alloc_block s;
     if pdir = 0 then Some (ERROR_OCCUR, s)
     else do {
       let s = zero_table pdir (s\<lparr>kernel_directory := pdir\<rparr>);
       (err, s) \<leftarrow> map_range 1024 pdir 0 0 s;
       if err \<noteq> ERROR_OK then Some (ERROR_OCCUR, s)
       else do {
         (err, s) \<leftarrow> map_range (unat kernel_pages) pdir 0x100000 0xC0000000 s;
         if err \<noteq> ERROR_OK then Some (ERROR_OCCUR, s)
         else do {
           let (err, s) = vmmngr_switch_directory pdir pdir s;
           Some ((if err \<noteq> ERROR_OK then ERROR_OCCUR else ERROR_OK), s)
         }
       }
     }
   }"

subsection \<open>Words\<close>

lemma frame_mask: "(0xFFFFF000 :: u32) = NOT (mask 12)" "(0xFFF :: u32) = mask 12" "(0x3ff :: u32) = mask 10" "(1023 :: u32) = mask 10"
  by (simp_all add: mask_eq_exp_minus_1 not_eq_complement)

lemma bit_u32_lt: "bit x n \<Longrightarrow> n < 32"
  for x :: u32
  using bit_imp_le_length [of x n] by simp

lemma frame_of_set:
  fixes e p f :: u32
  assumes "p AND mask 12 = 0" and "f AND NOT (mask 12) = 0"
  shows "(((e AND NOT (NOT (mask 12))) OR p) OR f) AND NOT (mask 12) = p"
    and "((((e OR f) AND NOT (NOT (mask 12))) OR p)) AND NOT (mask 12) = p"
proof -
  have p: "bit p n \<Longrightarrow> 12 \<le> n" for n
    using assms(1) bit_u32_lt [of p n] by (auto simp: bit_eq_iff bit_simps not_less)
  have f: "bit f n \<Longrightarrow> n < 12" for n
    using assms(2) bit_u32_lt [of f n] by (auto simp: bit_eq_iff bit_simps)
  show "(((e AND NOT (NOT (mask 12))) OR p) OR f) AND NOT (mask 12) = p"
    "((((e OR f) AND NOT (NOT (mask 12))) OR p)) AND NOT (mask 12) = p"
    using p f by (auto intro!: bit_word_eqI simp: bit_simps not_less dest: p f) (use f in fastforce)+
qed

lemma low_of_set:
  fixes e p f :: u32
  assumes "p AND mask 12 = 0" and "f AND NOT (mask 12) = 0"
  shows "(((e OR f) AND NOT (NOT (mask 12))) OR p) AND mask 12 = (e AND mask 12) OR f"
proof -
  have p: "bit p n \<Longrightarrow> 12 \<le> n" for n
    using assms(1) bit_u32_lt [of p n] by (auto simp: bit_eq_iff bit_simps not_less)
  have f: "bit f n \<Longrightarrow> n < 12" for n
    using assms(2) bit_u32_lt [of f n] by (auto simp: bit_eq_iff bit_simps)
  show ?thesis
    by (auto intro!: bit_word_eqI simp: bit_simps dest: p f) (use p in fastforce)+
qed

lemma page_indices_lt: "unat (PAGE_DIR_INDEX va) < 1024" "unat (PAGE_TABLE_INDEX va) < 1024"
proof -
  have "unat (x AND mask 10) < 1024" for x :: u32
    using and_mask_less' [of 10 x] by (simp add: word_less_nat_alt)
  then show "unat (PAGE_DIR_INDEX va) < 1024" "unat (PAGE_TABLE_INDEX va) < 1024"
    by (simp_all add: PAGE_DIR_INDEX_def PAGE_TABLE_INDEX_def frame_mask)
qed

definition same_page :: "virtual_addr \<Rightarrow> virtual_addr \<Rightarrow> bool" where
  "same_page v w \<longleftrightarrow> v AND 0xFFFFF000 = w AND 0xFFFFF000"

lemma same_page_indices:
  "same_page v w \<longleftrightarrow> PAGE_DIR_INDEX v = PAGE_DIR_INDEX w \<and> PAGE_TABLE_INDEX v = PAGE_TABLE_INDEX w"
proof
  assume "same_page v w"
  then have b: "bit v n = bit w n" if "12 \<le> n" for n
    using that by (cases "n < 32") (auto simp: same_page_def frame_mask bit_eq_iff bit_simps not_less dest: bit_imp_le_length)
  then show "PAGE_DIR_INDEX v = PAGE_DIR_INDEX w \<and> PAGE_TABLE_INDEX v = PAGE_TABLE_INDEX w"
    by (auto intro!: bit_word_eqI simp: PAGE_DIR_INDEX_def PAGE_TABLE_INDEX_def bit_simps frame_mask)
next
  assume a: "PAGE_DIR_INDEX v = PAGE_DIR_INDEX w \<and> PAGE_TABLE_INDEX v = PAGE_TABLE_INDEX w"
  have "bit v n = bit w n" if "12 \<le> n" "n < 32" for n
  proof (cases "n < 22")
    case True
    from a have "bit (PAGE_TABLE_INDEX v) (n - 12) = bit (PAGE_TABLE_INDEX w) (n - 12)" by simp
    moreover have "n - 12 < 10" "n - 12 < 32" using that True by simp_all
    ultimately show ?thesis using that by (simp add: PAGE_TABLE_INDEX_def bit_simps frame_mask)
  next
    case False
    from a have "bit (PAGE_DIR_INDEX v) (n - 22) = bit (PAGE_DIR_INDEX w) (n - 22)" by simp
    moreover have "n - 22 < 10" "n - 22 < 32" using that False by simp_all
    ultimately show ?thesis using that False by (simp add: PAGE_DIR_INDEX_def bit_simps frame_mask)
  qed
  then show "same_page v w"
    by (auto intro!: bit_word_eqI simp: same_page_def bit_simps frame_mask)
qed

subsection \<open>The processor's walk and the invariant\<close>

definition page_walk :: "'a vmm_scheme \<Rightarrow> ptr \<Rightarrow> virtual_addr \<Rightarrow> (pd_entry \<times> pt_entry) option" where
  "page_walk s dir va = do {
     d \<leftarrow> tables s dir;
     pde \<leftarrow> array_get d (PAGE_DIR_INDEX va);
     if \<not> pd_entry_is_present pde then None
     else do {
       t \<leftarrow> tables s (pd_entry_get_frame pde);
       pte \<leftarrow> array_get t (PAGE_TABLE_INDEX va);
       if \<not> pt_entry_is_present pte then None else Some (pde, pte)
     }
   }"

definition translate :: "'a vmm_scheme \<Rightarrow> ptr \<Rightarrow> virtual_addr \<Rightarrow> physical_addr option" where
  "translate s dir va = map_option (\<lambda>(_, pte). (pte AND 0xFFFFF000) OR (va AND 0xFFF)) (page_walk s dir va)"

definition table_at :: "'a vmm_scheme \<Rightarrow> ptr \<Rightarrow> bool" where
  "table_at s p \<longleftrightarrow> (\<exists>t. tables s p = Some t \<and> length t = 1024) \<and> (unat p, 4096) \<in> block_regions s"

definition dir_ok :: "ptr \<Rightarrow> u32 list \<Rightarrow> 'a vmm_scheme \<Rightarrow> bool" where
  "dir_ok dir d s \<longleftrightarrow> (\<forall>i < 1024. pd_entry_is_present (d ! i) \<longrightarrow>
     table_at s (pd_entry_get_frame (d ! i)) \<and> pd_entry_get_frame (d ! i) \<noteq> dir \<and>
     (\<forall>j < 1024. pd_entry_is_present (d ! j) \<longrightarrow> pd_entry_get_frame (d ! j) = pd_entry_get_frame (d ! i) \<longrightarrow> j = i))"

definition vm_ok :: "ptr \<Rightarrow> 'a vmm_scheme \<Rightarrow> bool" where
  "vm_ok dir s \<longleftrightarrow> pmm_ok s \<and> table_at s dir \<and> dir_ok dir (the (tables s dir)) s"

definition dirent :: "'a vmm_scheme \<Rightarrow> ptr \<Rightarrow> virtual_addr \<Rightarrow> pd_entry" where
  "dirent s dir va = the (tables s dir) ! unat (PAGE_DIR_INDEX va)"

lemma table_at_nonzero: "table_at s p \<Longrightarrow> p \<noteq> 0"
  by (auto simp: table_at_def block_regions_def)

lemma vm_ok_dirE:
  assumes "vm_ok dir s"
  obtains d where "tables s dir = Some d" "length d = 1024" "dir_ok dir d s" "dir \<noteq> 0" "pmm_ok s"
  using assms table_at_nonzero [of s dir] by (auto simp: vm_ok_def table_at_def)

lemma vm_ok_tableE:
  assumes "vm_ok dir s" and "pd_entry_is_present (dirent s dir va)"
  obtains t where "tables s (pd_entry_get_frame (dirent s dir va)) = Some t" "length t = 1024"
    "pd_entry_get_frame (dirent s dir va) \<noteq> 0" "pd_entry_get_frame (dirent s dir va) \<noteq> dir"
  using assms page_indices_lt(1) [of va] table_at_nonzero
  by (auto simp: vm_ok_def dir_ok_def dirent_def table_at_def elim!: allE [of _ "unat (PAGE_DIR_INDEX va)"] impE)

lemma page_walk_ok:
  assumes "vm_ok dir s"
  shows "page_walk s dir va = (if pd_entry_is_present (dirent s dir va) then
     (let pte = the (tables s (pd_entry_get_frame (dirent s dir va))) ! unat (PAGE_TABLE_INDEX va) in
      if pt_entry_is_present pte then Some (dirent s dir va, pte) else None) else None)"
proof -
  obtain d where d: "tables s dir = Some d" "length d = 1024" using assms by (rule vm_ok_dirE)
  then have e: "dirent s dir va = d ! unat (PAGE_DIR_INDEX va)" by (simp add: dirent_def)
  show ?thesis
  proof (cases "pd_entry_is_present (dirent s dir va)")
    case True
    then obtain t where "tables s (pd_entry_get_frame (dirent s dir va)) = Some t" "length t = 1024"
      by (rule vm_ok_tableE [OF assms])
    then show ?thesis using d e page_indices_lt True by (simp add: page_walk_def Let_def)
  next
    case False
    then show ?thesis using d e page_indices_lt by (simp add: page_walk_def)
  qed
qed

lemma page_walk_same: "same_page v w \<Longrightarrow> page_walk s dir v = page_walk s dir w"
  unfolding page_walk_def same_page_indices by metis

lemma entry_get_in: "tables s p = Some t \<Longrightarrow> unat i < length t \<Longrightarrow> entry_get (p, i) s = Some (t ! unat i)"
  by (simp add: entry_get_def)

lemma entry_put_in: "tables s p = Some t \<Longrightarrow> unat i < length t \<Longrightarrow>
    entry_put (p, i) v s = Some (s\<lparr>tables := (tables s)(p \<mapsto> t[unat i := v])\<rparr>)"
  by (simp add: entry_put_def)

lemma block_regions_vmm [simp]: "block_regions (s\<lparr>tables := f\<rparr>) = block_regions s"
  "block_regions (s\<lparr>kernel_directory := k\<rparr>) = block_regions s"
  "pmm_ok (s\<lparr>tables := f\<rparr>) = pmm_ok s" "pmm_ok (s\<lparr>kernel_directory := k\<rparr>) = pmm_ok s"
  by (simp_all add: block_regions_def pmm_ok_def)

text \<open>Writing one entry of a page table that the directory points to.\<close>

lemma write_pte_ok:
  assumes ok: "vm_ok dir s" and p: "pd_entry_is_present (dirent s dir va)"
    and T: "T = pd_entry_get_frame (dirent s dir va)" and t: "tables s T = Some t"
    and s': "s' = s\<lparr>tables := (tables s)(T \<mapsto> t[unat (PAGE_TABLE_INDEX va) := v])\<rparr>"
  shows "vm_ok dir s'" and "dirent s' dir w = dirent s dir w"
    and "page_walk s' dir w = (if same_page w va then (if pt_entry_is_present v then Some (dirent s dir va, v) else None)
      else page_walk s dir w)"
proof -
  obtain d where d: "tables s dir = Some d" "length d = 1024" "dir_ok dir d s" "dir \<noteq> 0" "pmm_ok s" using ok by (rule vm_ok_dirE)
  obtain t' where t': "tables s T = Some t'" "length t' = 1024" "T \<noteq> 0" "T \<noteq> dir"
    using vm_ok_tableE [OF ok p] T by metis
  then have len: "length t = 1024" using t by simp
  have at: "table_at s' q = table_at s q" for q
    using t len by (auto simp: s' table_at_def)
  have d': "tables s' dir = Some d" using d t' by (simp add: s')
  have e: "dirent s' dir w = dirent s dir w" for w using d d' by (simp add: dirent_def)
  then show "dirent s' dir w = dirent s dir w" .
  show ok': "vm_ok dir s'"
    using ok d d' at by (simp add: vm_ok_def dir_ok_def) (simp add: s')
  have T2: "tables s' T = Some (t[unat (PAGE_TABLE_INDEX va) := v])" by (simp add: s')
  show "page_walk s' dir w = (if same_page w va then (if pt_entry_is_present v then Some (dirent s dir va, v) else None)
      else page_walk s dir w)"
  proof (cases "same_page w va")
    case True
    then have "page_walk s' dir w = page_walk s' dir va" by (rule page_walk_same)
    also have "\<dots> = (if pt_entry_is_present v then Some (dirent s dir va, v) else None)"
      using page_walk_ok [OF ok', of va] T2 T p page_indices_lt(2) [of va] len by (simp add: e Let_def)
    finally show ?thesis using True by simp
  next
    case False
    show ?thesis
    proof (cases "pd_entry_is_present (dirent s dir w) \<and> pd_entry_get_frame (dirent s dir w) = T")
      case c: True
      have "unat (PAGE_DIR_INDEX w) = unat (PAGE_DIR_INDEX va)"
        using d(1,3) c p T page_indices_lt by (simp add: dir_ok_def dirent_def)
      then have "unat (PAGE_TABLE_INDEX w) \<noteq> unat (PAGE_TABLE_INDEX va)"
        using False unfolding same_page_indices by (metis word_unat_eq_iff)
      then show ?thesis using page_walk_ok [OF ok', of w] page_walk_ok [OF ok, of w] c t T2 False by (simp add: e Let_def)
    next
      case c: False
      then show ?thesis using page_walk_ok [OF ok', of w] page_walk_ok [OF ok, of w] False
        by (auto simp: e Let_def) (simp_all add: s')
    qed
  qed
qed

subsection \<open>Creating a table\<close>

definition flags_ok :: "u32 \<Rightarrow> bool" where
  "flags_ok f \<longleftrightarrow> f AND 0xFFFFF000 = 0 \<and> f AND 1 \<noteq> 0"

lemma and_1_bit0: "x AND 1 \<noteq> 0 \<longleftrightarrow> bit x 0"
  for x :: u32
  by (simp add: and_one_eq bit_0 odd_iff_mod_2_eq_one)

lemma block_addr_low: "(f * PMMNGR_BLOCK_SIZE) AND mask 12 = 0"
proof -
  have "f * PMMNGR_BLOCK_SIZE = push_bit 12 f"
    by (simp add: PMMNGR_BLOCK_SIZE_def push_bit_eq_mult mult.commute)
  then show ?thesis by (simp add: bit_eq_iff bit_simps)
qed

definition new_pde :: "pd_entry \<Rightarrow> ptr \<Rightarrow> u32 \<Rightarrow> pd_entry" where
  "new_pde e T f = (pd_entry_set_frame e T OR f)"

lemma new_pde_ok:
  assumes "T AND mask 12 = 0" and "flags_ok f"
  shows "pd_entry_get_frame (new_pde e T f) = T" and "pd_entry_is_present (new_pde e T f)"
proof -
  have "f AND NOT (mask 12) = 0" using assms(2) by (simp add: flags_ok_def frame_mask)
  then show "pd_entry_get_frame (new_pde e T f) = T"
    using frame_of_set(1) [OF assms(1)]
    by (simp add: new_pde_def pd_entry_get_frame_def pd_entry_set_frame_def I86_PDE_FRAME_def frame_mask)
  show "pd_entry_is_present (new_pde e T f)"
    using assms(2) by (simp add: new_pde_def pd_entry_is_present_def I86_PDE_PRESENT_def flags_ok_def and_1_bit0 bit_simps)
qed

lemma vm_ok_new_table:
  assumes ok: "vm_ok dir s" and np: "\<not> pd_entry_is_present (dirent s dir va)"
    and d: "tables s dir = Some d" and e: "pd_entry_get_frame e = T" "pd_entry_is_present e"
    and p1: "pmm_ok s1" and T: "T \<noteq> 0" "block_regions s1 = insert (unat T, 4096) (block_regions s)" "(unat T, 4096) \<notin> block_regions s"
    and s': "tables s' = (tables s)(T \<mapsto> replicate 1024 0, dir \<mapsto> d[unat (PAGE_DIR_INDEX va) := e])"
      "block_regions s' = block_regions s1" "pmm_ok s' = pmm_ok s1"
  shows "vm_ok dir s'" and "dirent s' dir w = (if PAGE_DIR_INDEX w = PAGE_DIR_INDEX va then e else dirent s dir w)"
    and "page_walk s' dir w = page_walk s dir w"
proof -
  have d2: "length d = 1024" "dir_ok dir d s" "dir \<noteq> 0" using ok d by (auto elim: vm_ok_dirE)
  have td: "table_at s dir" using ok by (simp add: vm_ok_def)
  have new: "table_at s q \<Longrightarrow> q \<noteq> T" for q using T(3) by (auto simp: table_at_def)
  have at: "table_at s' q" if "table_at s q" for q
    using that d2 T(2) s' by (auto simp: table_at_def)
  have atT: "table_at s' T" using new [OF td] T(2) s' by (auto simp: table_at_def)
  let ?i = "unat (PAGE_DIR_INDEX va)"
  have pres: "table_at s (pd_entry_get_frame (d ! j)) \<and> pd_entry_get_frame (d ! j) \<noteq> dir"
    if "j < 1024" "pd_entry_is_present (d ! j)" for j using d2 that by (auto simp: dir_ok_def)
  have "dir_ok dir (d[?i := e]) s'"
    unfolding dir_ok_def
  proof (intro allI impI)
    fix j :: nat assume j: "j < 1024" "pd_entry_is_present (d[?i := e] ! j)"
    show "table_at s' (pd_entry_get_frame (d[?i := e] ! j)) \<and> pd_entry_get_frame (d[?i := e] ! j) \<noteq> dir \<and>
        (\<forall>k<1024. pd_entry_is_present (d[?i := e] ! k) \<longrightarrow>
           pd_entry_get_frame (d[?i := e] ! k) = pd_entry_get_frame (d[?i := e] ! j) \<longrightarrow> k = j)"
    proof (cases "j = ?i")
      case True
      have "k = j" if "k < 1024" "pd_entry_is_present (d[?i := e] ! k)"
        "pd_entry_get_frame (d[?i := e] ! k) = pd_entry_get_frame (d[?i := e] ! j)" for k
        using that True e d2(1) pres [of k] new by (cases "k = ?i") (auto simp: page_indices_lt)
      then show ?thesis using True e d2(1) atT new [OF td] by (auto simp: page_indices_lt)
    next
      case False
      have "k = j" if "k < 1024" "pd_entry_is_present (d[?i := e] ! k)"
        "pd_entry_get_frame (d[?i := e] ! k) = pd_entry_get_frame (d[?i := e] ! j)" for k
        using that False e d2 pres [of j] new j
        by (cases "k = ?i") (auto simp: page_indices_lt dir_ok_def)
      then show ?thesis using False pres [OF j(1)] j at by (auto)
    qed
  qed
  then show ok': "vm_ok dir s'" using at [OF td] s' p1 by (simp add: vm_ok_def)
  have ent: "dirent s' dir w = (if PAGE_DIR_INDEX w = PAGE_DIR_INDEX va then e else dirent s dir w)" for w
    using d d2(1) s'(1) page_indices_lt by (simp add: dirent_def nth_list_update word_unat_eq_iff)
  then show "dirent s' dir w = (if PAGE_DIR_INDEX w = PAGE_DIR_INDEX va then e else dirent s dir w)" .
  have tT: "tables s' T = Some (replicate 1024 0)" using new [OF td] s'(1) by simp
  show "page_walk s' dir w = page_walk s dir w"
  proof (cases "PAGE_DIR_INDEX w = PAGE_DIR_INDEX va")
    case True
    then have "dirent s dir w = dirent s dir va" by (simp add: dirent_def)
    then show ?thesis
      using page_walk_ok [OF ok', of w] page_walk_ok [OF ok, of w] True np e tT page_indices_lt(2) [of w]
      by (simp add: ent pt_entry_is_present_def)
  next
    case False
    have "tables s' (pd_entry_get_frame (dirent s dir w)) = tables s (pd_entry_get_frame (dirent s dir w))"
      if "pd_entry_is_present (dirent s dir w)"
      using pres [of "unat (PAGE_DIR_INDEX w)"] that new page_indices_lt(1) [of w] d s'(1) by (auto simp: dirent_def)
    then show ?thesis using page_walk_ok [OF ok', of w] page_walk_ok [OF ok, of w] False by (simp add: ent Let_def)
  qed
qed

lemma tables_error [simp]: "tables (set_last_error b x c s) = tables s"
  "current_directory (set_last_error b x c s) = current_directory s"
  "kernel_directory (set_last_error b x c s) = kernel_directory s"
  by (simp_all add: set_last_error_def)

lemma entry_get_error [simp]: "entry_get p (set_last_error b x c s) = entry_get p s"
  by (simp add: entry_get_def)

lemma vm_ok_error [simp]: "vm_ok dir (set_last_error b x c s) = vm_ok dir s"
  by (simp add: vm_ok_def table_at_def dir_ok_def block_regions_def set_last_error_def pmm_ok_def)

lemma page_walk_error [simp]: "page_walk (set_last_error b x c s) = page_walk s"
  by (intro ext) (simp add: page_walk_def cong: Option.bind_cong if_cong)

definition out_of_memory :: "'a pmm_scheme \<Rightarrow> bool" where
  \<comment> \<open>No block the manager could hand out is free.\<close>
  "out_of_memory s \<longleftrightarrow> (\<forall>j < usable_blocks s. block_used (mmngr_bitmap s) j)"

lemma out_of_memory_error [simp]: "out_of_memory (set_last_error b x c s) = out_of_memory s"
  by (simp add: out_of_memory_def usable_blocks_def set_last_error_def)

lemma vmm_alloc_block:
  fixes s :: "'a vmm_scheme"
  assumes "pmm_ok s"
  obtains (got) T s1 where "pmmngr_alloc_block s = Some (T, s1)" "T \<noteq> 0" "T AND mask 12 = 0" "pmm_ok s1"
      "block_regions s1 = insert (unat T, 4096) (block_regions s)" "(unat T, 4096) \<notin> block_regions s"
      "tables s1 = tables s" "current_directory s1 = current_directory s" "kernel_directory s1 = kernel_directory s"
      "usable_blocks s1 = usable_blocks s" "\<not> out_of_memory s" "mmngr_max_blocks s1 = mmngr_max_blocks s"
  | (fail) "pmmngr_alloc_block s = Some (0, set_last_error ENOMEM PMEM_OUT_OF_MEM EO_PMMNGR s)" "out_of_memory s"
proof -
  from pmm.alloc_law [OF assms] obtain a s1 where a: "pmmngr_alloc_block s = Some (a, s1)" "pmm_ok s1"
    "a \<noteq> 0 \<Longrightarrow> \<exists>len. 0 < len \<and> 4096 \<le> len \<and> block_regions s1 = insert (unat a, len) (block_regions s) \<and>
         (\<forall>r \<in> block_regions s. disjoint_regions r (unat a, len))" by auto
  show thesis
    using pmmngr_alloc_block_ok [OF assms]
  proof (elim disjE exE conjE)
    fix f s'
    assume f: "pmmngr_alloc_block s = Some (f * PMMNGR_BLOCK_SIZE, s')" "0 < unat f" "unat f < usable_blocks s"
      "\<not> block_used (mmngr_bitmap s) (unat f)"
      "s' = s\<lparr>mmngr_bitmap := block_set (unat f) (mmngr_bitmap s), mmngr_used_blocks := mmngr_used_blocks s + 1\<rparr>"
    have u: "usable_blocks s \<le> unat (mmngr_max_blocks s)" by (simp add: usable_blocks_def)
    then have ba: "unat (f * PMMNGR_BLOCK_SIZE) = 4096 * unat f" using f(3) assms by (intro block_addr) (simp add: pmm_ok_def)
    have nz: "f * PMMNGR_BLOCK_SIZE \<noteq> 0" using ba f(2) by auto
    have s1: "s1 = s'" "a = f * PMMNGR_BLOCK_SIZE" using a(1) f(1) by simp_all
    have nz': "a \<noteq> 0" using nz s1(2) by simp
    from a(3) [OF this] obtain len where len: "0 < len" "block_regions s1 = insert (unat a, len) (block_regions s)"
      "\<forall>r \<in> block_regions s. disjoint_regions r (unat a, len)" by blast
    have "(unat a, len) \<in> block_regions s1" using len by simp
    then have l: "len = 4096" by (auto simp: block_regions_def)
    have fresh: "(unat a, 4096) \<notin> block_regions s" using len(3) l by (auto simp: disjoint_regions_def)
    have low: "a AND mask 12 = 0" using s1(2) block_addr_low by simp
    have t: "tables s1 = tables s" "current_directory s1 = current_directory s"
      "kernel_directory s1 = kernel_directory s" "usable_blocks s1 = usable_blocks s" "mmngr_max_blocks s1 = mmngr_max_blocks s"
      by (simp_all add: s1(1) f(5) usable_blocks_def)
    have "\<not> out_of_memory s" using f(3,4) by (auto simp: out_of_memory_def)
    from got [OF a(1) nz' low a(2) len(2) [unfolded l] fresh t(1,2,3,4) this t(5)] show thesis .
  next
    assume "pmmngr_alloc_block s = Some (0, set_last_error ENOMEM PMEM_OUT_OF_MEM EO_PMMNGR s)"
      "\<forall>j < usable_blocks s. block_used (mmngr_bitmap s) j"
    then show thesis by (intro fail) (simp_all add: out_of_memory_def)
  qed
qed

lemma create_table_ok:
  fixes s :: "'a vmm_scheme"
  assumes ok: "vm_ok dir s" and np: "\<not> pd_entry_is_present (dirent s dir va)" and f: "flags_ok f"
  obtains (made) s' T where "vmmngr_create_table dir va f s = Some (ERROR_OK, s')" "vm_ok dir s'"
      "dirent s' dir va = new_pde (dirent s dir va) T f" "pd_entry_is_present (dirent s' dir va)"
      "pd_entry_get_frame (dirent s' dir va) = T" "tables s' T = Some (replicate 1024 0)"
      "\<And>w. page_walk s' dir w = page_walk s dir w" "block_regions s \<subseteq> block_regions s'"
      "current_directory s' = current_directory s" "kernel_directory s' = kernel_directory s" "\<not> out_of_memory s"
  | (fail) "vmmngr_create_table dir va f s = Some (ERROR_OCCUR, set_last_error ENOMEM PMEM_OUT_OF_MEM EO_PMMNGR s)" "out_of_memory s"
proof -
  obtain d where d: "tables s dir = Some d" "length d = 1024" "dir_ok dir d s" "dir \<noteq> 0" "pmm_ok s" using ok by (rule vm_ok_dirE)
  let ?i = "PAGE_DIR_INDEX va" and ?e = "dirent s dir va"
  have e: "d ! unat ?i = ?e" using d by (simp add: dirent_def)
  show thesis
  proof (rule vmm_alloc_block [OF d(5)])
    fix T s1
    assume a: "pmmngr_alloc_block s = Some (T, s1)" "T \<noteq> 0" "T AND mask 12 = 0" "pmm_ok s1"
      "block_regions s1 = insert (unat T, 4096) (block_regions s)" "(unat T, 4096) \<notin> block_regions s"
      "tables s1 = tables s" "current_directory s1 = current_directory s" "kernel_directory s1 = kernel_directory s" "\<not> out_of_memory s"
    have "T \<noteq> dir" using ok a(6) by (auto simp: vm_ok_def table_at_def)
    define s' where "s' = s1\<lparr>tables := (tables s)(T \<mapsto> replicate 1024 0, dir \<mapsto> d[unat ?i := new_pde ?e T f])\<rparr>"
    have r: "vmmngr_create_table dir va f s = Some (ERROR_OK, s')"
      using d a \<open>T \<noteq> dir\<close> page_indices_lt(1) [of va] np e
      by (simp add: vmmngr_create_table_def vmmngr_pdirectory_lookup_entry_def entry_get_def entry_put_def zero_table_def
        new_pde_def s'_def)
    have t: "tables s' = (tables s)(T \<mapsto> replicate 1024 0, dir \<mapsto> d[unat ?i := new_pde ?e T f])"
      "block_regions s' = block_regions s1" "pmm_ok s' = pmm_ok s1" by (simp_all add: s'_def)
    note n = vm_ok_new_table [OF ok np d(1) new_pde_ok [OF a(3) f] a(4,2,5,6) t]
    show thesis
      by (rule made [OF r n(1), of T])
        (use n new_pde_ok [OF a(3) f] a t \<open>T \<noteq> dir\<close> in \<open>auto simp: s'_def\<close>)
  next
    assume a: "pmmngr_alloc_block s = Some (0, set_last_error ENOMEM PMEM_OUT_OF_MEM EO_PMMNGR s)" "out_of_memory s"
    show thesis
      by (rule fail) (use d a page_indices_lt(1) [of va] np e in
        \<open>simp_all add: vmmngr_create_table_def vmmngr_pdirectory_lookup_entry_def entry_get_def\<close>)
  qed
qed

subsection \<open>Mapping a page\<close>

definition old_pte :: "'a vmm_scheme \<Rightarrow> ptr \<Rightarrow> virtual_addr \<Rightarrow> pt_entry" where
  "old_pte s dir va = (if pd_entry_is_present (dirent s dir va)
     then the (tables s (pd_entry_get_frame (dirent s dir va))) ! unat (PAGE_TABLE_INDEX va) else 0)"

definition new_pte :: "pt_entry \<Rightarrow> physical_addr \<Rightarrow> u32 \<Rightarrow> pt_entry" where
  "new_pte e phys f = pt_entry_set_frame (e OR f) phys"

lemma new_pte_ok:
  assumes "phys AND mask 12 = 0" and "flags_ok f"
  shows "pt_entry_get_frame (new_pte e phys f) = phys" and "pt_entry_is_present (new_pte e phys f)"
    and "new_pte e phys f AND 0xFFF = (e AND 0xFFF) OR f"
proof -
  have f: "f AND NOT (mask 12) = 0" using assms(2) by (simp add: flags_ok_def frame_mask)
  show "pt_entry_get_frame (new_pte e phys f) = phys"
    using frame_of_set(2) [OF assms(1) f]
    by (simp add: new_pte_def pt_entry_get_frame_def pt_entry_set_frame_def I86_PTE_FRAME_def frame_mask)
  show "new_pte e phys f AND 0xFFF = (e AND 0xFFF) OR f"
    using low_of_set [OF assms(1) f]
    by (simp add: new_pte_def pt_entry_set_frame_def I86_PTE_FRAME_def frame_mask)
  show "pt_entry_is_present (new_pte e phys f)"
    using assms(2)
    by (simp add: new_pte_def pt_entry_is_present_def I86_PTE_PRESENT_def pt_entry_set_frame_def I86_PTE_FRAME_def
      frame_mask flags_ok_def and_1_bit0 bit_simps)
qed

lemma test_present: "pd_entry_test_attrib e I86_PDE_PRESENT = pd_entry_is_present e"
  by (simp add: pd_entry_test_attrib_def pd_entry_is_present_def I86_PDE_PRESENT_def and_one_eq)

lemma map_into_table:
  fixes s :: "'a vmm_scheme"
  assumes ok: "vm_ok dir s" and p: "pd_entry_is_present (dirent s dir va)"
    and "phys AND mask 12 = 0" and "flags_ok f"
  obtains s' where "vmmngr_map_page dir phys va f s = Some (ERROR_OK, s')" "vm_ok dir s'"
    "\<And>w. page_walk s' dir w = (if same_page w va then Some (dirent s dir va, new_pte (old_pte s dir va) phys f) else page_walk s dir w)"
    "\<exists>y. s' = s\<lparr>tables := y\<rparr>"
proof -
  obtain d where d: "tables s dir = Some d" "length d = 1024" "dir_ok dir d s" "dir \<noteq> 0" "pmm_ok s" using ok by (rule vm_ok_dirE)
  let ?T = "pd_entry_get_frame (dirent s dir va)" and ?j = "PAGE_TABLE_INDEX va"
  obtain t where t: "tables s ?T = Some t" "length t = 1024" "?T \<noteq> 0" "?T \<noteq> dir"
    by (rule vm_ok_tableE [OF ok p])
  let ?v = "new_pte (old_pte s dir va) phys f"
  define s' where "s' = s\<lparr>tables := (tables s)(?T \<mapsto> t[unat ?j := ?v])\<rparr>"
  have e: "d ! unat (PAGE_DIR_INDEX va) = dirent s dir va" using d by (simp add: dirent_def)
  have r: "vmmngr_map_page dir phys va f s = Some (ERROR_OK, s')"
    using d t p page_indices_lt [of va] e
    by (simp add: vmmngr_map_page_def vmmngr_pdirectory_lookup_entry_def entry_get_def entry_put_def test_present
      vmmngr_ptable_lookup_entry_def s'_def new_pte_def old_pte_def)
  note w = write_pte_ok [OF ok p refl t(1) s'_def]
  show thesis
    by (rule that [OF r w(1)]) (use w new_pte_ok [OF assms(3,4)] in \<open>auto simp: s'_def\<close>)
qed

lemma map_page_ok:
  fixes s :: "'a vmm_scheme"
  assumes ok: "vm_ok dir s" and ph: "phys AND mask 12 = 0" and f: "flags_ok f"
  obtains (mapped) s' e where "vmmngr_map_page dir phys va f s = Some (ERROR_OK, s')" "vm_ok dir s'"
      "\<And>w. page_walk s' dir w = (if same_page w va then Some (e, new_pte (old_pte s dir va) phys f) else page_walk s dir w)"
      "if pd_entry_is_present (dirent s dir va) then e = dirent s dir va else \<exists>T. e = new_pde (dirent s dir va) T f"
      "block_regions s \<subseteq> block_regions s'"
      "current_directory s' = current_directory s" "kernel_directory s' = kernel_directory s"
  | (fail) "vmmngr_map_page dir phys va f s = Some (ERROR_OCCUR, set_last_error ENOMEM PMEM_OUT_OF_MEM EO_PMMNGR s)"
      "out_of_memory s" "\<not> pd_entry_is_present (dirent s dir va)"
proof (cases "pd_entry_is_present (dirent s dir va)")
  case True
  obtain s' where m: "vmmngr_map_page dir phys va f s = Some (ERROR_OK, s')" "vm_ok dir s'"
    "\<And>w. page_walk s' dir w = (if same_page w va then Some (dirent s dir va, new_pte (old_pte s dir va) phys f) else page_walk s dir w)"
    "\<exists>y. s' = s\<lparr>tables := y\<rparr>"
    using map_into_table [OF ok True ph f] by metis
  from m(4) obtain y where "s' = s\<lparr>tables := y\<rparr>" by blast
  then show thesis using mapped [OF m(1,2,3)] True by simp
next
  case np: False
  obtain d where d: "tables s dir = Some d" "length d = 1024" "dir_ok dir d s" "dir \<noteq> 0" "pmm_ok s" using ok by (rule vm_ok_dirE)
  have e: "d ! unat (PAGE_DIR_INDEX va) = dirent s dir va" using d by (simp add: dirent_def)
  show thesis
  proof (rule create_table_ok [OF ok np f])
    fix s1 T
    assume c: "vmmngr_create_table dir va f s = Some (ERROR_OK, s1)" "vm_ok dir s1"
      "dirent s1 dir va = new_pde (dirent s dir va) T f" "pd_entry_is_present (dirent s1 dir va)"
      "pd_entry_get_frame (dirent s1 dir va) = T" "tables s1 T = Some (replicate 1024 0)"
      "\<And>w. page_walk s1 dir w = page_walk s dir w" "block_regions s \<subseteq> block_regions s1"
      "current_directory s1 = current_directory s" "kernel_directory s1 = kernel_directory s"
    obtain d1 where d1: "tables s1 dir = Some d1" "length d1 = 1024" using c(2) by (rule vm_ok_dirE)
    have e1: "d1 ! unat (PAGE_DIR_INDEX va) = dirent s1 dir va" using d1 by (simp add: dirent_def)
    have old: "old_pte s1 dir va = old_pte s dir va"
      using c(4,5,6) np page_indices_lt [of va] by (simp add: old_pte_def)
    obtain s2 where m: "vmmngr_map_page dir phys va f s1 = Some (ERROR_OK, s2)" "vm_ok dir s2"
      "\<And>w. page_walk s2 dir w = (if same_page w va then Some (dirent s1 dir va, new_pte (old_pte s1 dir va) phys f) else page_walk s1 dir w)"
      "\<exists>y. s2 = s1\<lparr>tables := y\<rparr>"
      using map_into_table [OF c(2,4) ph f] by metis
    have "vmmngr_map_page dir phys va f s = vmmngr_map_page dir phys va f s1"
      using d d1 c(1,4) np e e1 page_indices_lt [of va]
      by (simp add: vmmngr_map_page_def vmmngr_pdirectory_lookup_entry_def entry_get_def test_present)
    with m(1) have r: "vmmngr_map_page dir phys va f s = Some (ERROR_OK, s2)" by simp
    from m(4) obtain y where "s2 = s1\<lparr>tables := y\<rparr>" by blast
    then show thesis
      using mapped [OF r m(2,3) [unfolded old c(7)]] np c(3,8,9,10) by auto
  next
    assume c: "vmmngr_create_table dir va f s = Some (ERROR_OCCUR, set_last_error ENOMEM PMEM_OUT_OF_MEM EO_PMMNGR s)" "out_of_memory s"
    show thesis
      by (rule fail) (use d e np c page_indices_lt [of va] in
        \<open>simp_all add: vmmngr_map_page_def vmmngr_pdirectory_lookup_entry_def entry_get_def test_present ERROR_OCCUR_def ERROR_OK_def\<close>)
  qed
qed

lemma translate_mapped:
  assumes "phys AND mask 12 = 0" and "flags_ok f"
    and "page_walk s' dir w = (if same_page w va then Some (e, new_pte old phys f) else page_walk s dir w)"
  shows "translate s' dir w = (if same_page w va then Some (phys OR (w AND 0xFFF)) else translate s dir w)"
  using assms(3) new_pte_ok(1) [OF assms(1,2), of old]
  by (simp add: translate_def pt_entry_get_frame_def I86_PTE_FRAME_def)

lemma unat_low_bits: "unat (x AND mask 12) = unat x mod 4096"
  for x :: u32
  by (simp add: take_bit_eq_mask [symmetric] unsigned_take_bit_eq take_bit_eq_mod unat_mod)

lemma page_offset:
  assumes "virt AND mask 12 = (0 :: u32)"
  shows "same_page w virt \<longleftrightarrow> unat (w - virt) < 4096"
    and "same_page w virt \<Longrightarrow> phys AND mask 12 = 0 \<Longrightarrow> phys OR (w AND 0xFFF) = phys + (w - virt)"
proof -
  have v: "virt AND NOT (mask 12) = virt"
  proof (rule bit_word_eqI)
    fix n assume "n < LENGTH(32)"
    then show "bit (virt AND NOT (mask 12)) n \<longleftrightarrow> bit virt n"
      using arg_cong [OF assms, of "\<lambda>x. bit x n"] by (auto simp: bit_simps)
  qed
  have split: "w = (w AND NOT (mask 12)) + (w AND mask 12)"
  proof -
    have "(w AND NOT (mask 12)) AND (w AND mask 12) = 0" "(w AND NOT (mask 12)) OR (w AND mask 12) = w"
      by (auto intro!: bit_word_eqI simp: bit_simps)
    then show ?thesis using disjunctive_add_eq_or [of "w AND NOT (mask 12)" "w AND mask 12"] by simp
  qed
  have small: "unat (w AND mask 12) < 4096"
    using and_mask_less' [of 12 w] by (simp add: word_less_nat_alt)
  show "same_page w virt \<longleftrightarrow> unat (w - virt) < 4096"
  proof
    assume "same_page w virt"
    then have "w AND NOT (mask 12) = virt" using v by (simp add: same_page_def frame_mask)
    then have "w - virt = w AND mask 12" using split by (metis add_diff_cancel_left')
    then show "unat (w - virt) < 4096" using small by simp
  next
    assume a: "unat (w - virt) < 4096"
    then have x: "(w - virt) AND mask 12 = w - virt" by (simp add: word_unat_eq_iff unat_low_bits)
    have "virt AND (w - virt) = (virt AND mask 12) AND (w - virt)" using x by (metis and.assoc and.commute)
    then have "virt AND (w - virt) = 0" using assms by simp
    then have "w = virt OR (w - virt)" using disjunctive_add_eq_or [of virt "w - virt"] by simp
    then have "w AND NOT (mask 12) = (virt AND NOT (mask 12)) OR (((w - virt) AND mask 12) AND NOT (mask 12))"
      using x bit.conj_disj_distrib2 [of virt "w - virt" "NOT (mask 12)"] by simp
    then show "same_page w virt" using v by (simp add: same_page_def frame_mask and.assoc)
  qed
  assume "same_page w virt" and p: "phys AND mask 12 = 0"
  then have "w AND NOT (mask 12) = virt" using v by (simp add: same_page_def frame_mask)
  then have d: "w - virt = w AND mask 12" using split by (metis add_diff_cancel_left')
  have "phys AND (w AND mask 12) = 0" using p by (metis and.left_commute and_zero_eq)
  then show "phys OR (w AND 0xFFF) = phys + (w - virt)" using disjunctive_add_eq_or [of phys "w AND mask 12"] d by (simp add: frame_mask)
qed

lemma aligned_mod: "x AND mask 12 = 0 \<longleftrightarrow> unat x mod 4096 = 0"
  for x :: u32
  using unat_low_bits [of x] by (metis unsigned_0 unat_eq_zero)

lemma add_4096_aligned: "x AND mask 12 = 0 \<Longrightarrow> (x + 4096) AND mask 12 = 0"
  for x :: u32
  by (auto simp: aligned_mod unat_word_ariths mod_mod_cancel)

lemma range_split:
  fixes x :: u32
  assumes "4096 * Suc n \<le> 2 ^ 32"
  shows "unat x < 4096 * Suc n \<longleftrightarrow> unat (x - 4096) < 4096 * n \<or> unat x < 4096"
  using assms unat_lt_u32 [of x] by (auto simp: unat_sub_if')

lemma map_range_ok:
  fixes s :: "'a vmm_scheme"
  assumes "vm_ok dir s" and "phys AND mask 12 = 0" and "virt AND mask 12 = 0" and "4096 * n \<le> 2 ^ 32"
  shows "\<exists>err s'. map_range n dir phys virt s = Some (err, s') \<and> vm_ok dir s' \<and>
    kernel_directory s' = kernel_directory s \<and>
    (err = ERROR_OK \<longrightarrow> (\<forall>w. translate s' dir w =
       (if unat (w - virt) < 4096 * n then Some (phys + (w - virt)) else translate s dir w))) \<and>
    (err \<noteq> ERROR_OK \<longrightarrow> err = ERROR_OCCUR \<and> out_of_memory s')"
  using assms
proof (induction n arbitrary: phys virt s)
  case 0
  then show ?case by simp
next
  case (Suc n)
  have f: "flags_ok DEFAULT_FLAGS" by (simp add: flags_ok_def DEFAULT_FLAGS_def I86_PDE_PRESENT_def I86_PDE_WRITABLE_def)
  show ?case
  proof (rule map_page_ok [OF Suc.prems(1,2) f, of virt])
    fix s1 e
    assume m: "vmmngr_map_page dir phys virt DEFAULT_FLAGS s = Some (ERROR_OK, s1)" "vm_ok dir s1"
      "\<And>w. page_walk s1 dir w = (if same_page w virt then Some (e, new_pte (old_pte s dir virt) phys DEFAULT_FLAGS) else page_walk s dir w)"
      "kernel_directory s1 = kernel_directory s"
    have t: "translate s1 dir w = (if unat (w - virt) < 4096 then Some (phys + (w - virt)) else translate s dir w)" for w
      using translate_mapped [OF Suc.prems(2) f m(3), of w] page_offset [OF Suc.prems(3)] Suc.prems(2) by auto
    have le: "4096 * n \<le> 2 ^ 32" using Suc.prems(4) by simp
    obtain err s2 where r: "map_range n dir (phys + 4096) (virt + 4096) s1 = Some (err, s2)" "vm_ok dir s2"
      "kernel_directory s2 = kernel_directory s1"
      "err = ERROR_OK \<longrightarrow> (\<forall>w. translate s2 dir w = (if unat (w - (virt + 4096)) < 4096 * n
         then Some (phys + 4096 + (w - (virt + 4096))) else translate s1 dir w))"
      "err \<noteq> ERROR_OK \<longrightarrow> err = ERROR_OCCUR \<and> out_of_memory s2"
      using Suc.IH [OF m(2) add_4096_aligned [OF Suc.prems(2)] add_4096_aligned [OF Suc.prems(3)] le] by blast
    have "translate s2 dir w = (if unat (w - virt) < 4096 * Suc n then Some (phys + (w - virt)) else translate s dir w)"
      if "err = ERROR_OK" for w
      using r(4) that t [of w] range_split [OF Suc.prems(4), of "w - virt"] by (auto simp: diff_diff_eq)
    then show ?thesis using m(1,4) r by (simp add: ERROR_OK_def)
  next
    assume "vmmngr_map_page dir phys virt DEFAULT_FLAGS s = Some (ERROR_OCCUR, set_last_error ENOMEM PMEM_OUT_OF_MEM EO_PMMNGR s)"
      "out_of_memory s"
    then show ?thesis using Suc.prems(1)
      by (simp add: ERROR_OK_def ERROR_OCCUR_def)
  qed
qed

subsection \<open>Queries, allocating and freeing pages\<close>

lemma is_page_present_ok:
  assumes "vm_ok (current_directory s) s"
  shows "vmmngr_is_page_present va s = Some (translate s (current_directory s) va \<noteq> None, s)"
proof -
  let ?dir = "current_directory s"
  obtain d where d: "tables s ?dir = Some d" "length d = 1024" "?dir \<noteq> 0" using assms by (rule vm_ok_dirE)
  have e: "d ! unat (PAGE_DIR_INDEX va) = dirent s ?dir va" using d by (simp add: dirent_def)
  show ?thesis
  proof (cases "pd_entry_is_present (dirent s ?dir va)")
    case True
    obtain t where "tables s (pd_entry_get_frame (dirent s ?dir va)) = Some t" "length t = 1024"
      "pd_entry_get_frame (dirent s ?dir va) \<noteq> 0" by (rule vm_ok_tableE [OF assms True])
    then show ?thesis
      using d e True page_indices_lt [of va]
      by (simp add: vmmngr_is_page_present_def vmmngr_get_directory_def vmmngr_pdirectory_lookup_entry_def
        vmmngr_ptable_lookup_entry_def entry_get_def translate_def page_walk_def)
  next
    case False
    then show ?thesis
      using d e page_indices_lt [of va]
      by (simp add: vmmngr_is_page_present_def vmmngr_get_directory_def vmmngr_pdirectory_lookup_entry_def
        entry_get_def translate_def page_walk_def)
  qed
qed

lemma get_phys_addr_ok:
  assumes ok: "vm_ok (current_directory s) s" and t: "translate s (current_directory s) va = Some a"
  shows "vmmngr_get_phys_addr va s = Some (a, s)"
proof -
  let ?dir = "current_directory s"
  obtain d where d: "tables s ?dir = Some d" "length d = 1024" "?dir \<noteq> 0" using ok by (rule vm_ok_dirE)
  have e: "d ! unat (PAGE_DIR_INDEX va) = dirent s ?dir va" using d by (simp add: dirent_def)
  have p: "pd_entry_is_present (dirent s ?dir va)"
    using t page_walk_ok [OF ok, of va] by (auto simp: translate_def split: if_splits)
  obtain tb where tb: "tables s (pd_entry_get_frame (dirent s ?dir va)) = Some tb" "length tb = 1024"
    "pd_entry_get_frame (dirent s ?dir va) \<noteq> 0" by (rule vm_ok_tableE [OF ok p])
  let ?e = "tb ! unat (PAGE_TABLE_INDEX va)"
  have a: "a = (?e AND 0xFFFFF000) OR (va AND 0xFFF)"
    using t page_walk_ok [OF ok, of va] p tb by (auto simp: translate_def Let_def split: if_splits)
  have "(?e AND NOT (mask 12)) AND (va AND mask 12) = 0" by (auto intro!: bit_word_eqI simp: bit_simps)
  then have "a = (?e AND 0xFFFFF000) + (va AND 0xFFF)"
    using a disjunctive_add_eq_or [of "?e AND NOT (mask 12)" "va AND mask 12"] by (simp add: frame_mask)
  then show ?thesis
    using d e tb page_indices_lt [of va]
    by (simp add: vmmngr_get_phys_addr_def vmmngr_get_directory_def vmmngr_pdirectory_lookup_entry_def
      vmmngr_ptable_lookup_entry_def entry_get_def pt_entry_get_frame_def I86_PTE_FRAME_def)
qed

lemma translate_low: "va AND mask 12 = 0 \<Longrightarrow> translate s dir va = Some a \<Longrightarrow> a AND mask 12 = 0"
  by (auto simp: translate_def frame_mask and.assoc bit.conj_disj_distrib2)

definition table_block :: "'a vmm_scheme \<Rightarrow> ptr \<Rightarrow> ptr \<Rightarrow> bool" where
  \<comment> \<open>The block holds the directory or one of its page tables.\<close>
  "table_block s dir p \<longleftrightarrow> p = dir \<or> (\<exists>i < 1024. pd_entry_is_present (the (tables s dir) ! i) \<and>
     pd_entry_get_frame (the (tables s dir) ! i) = p)"

lemma vm_ok_less_blocks:
  assumes "vm_ok dir s" and "pmm_ok s'" and "block_regions s - {(unat a, 4096)} \<subseteq> block_regions s'" and "tables s' = tables s"
    and "\<not> table_block s dir a"
  shows "vm_ok dir s'"
proof -
  have "table_at s' p" if "table_at s p" "p \<noteq> a" for p
    using that assms(3,4) by (auto simp: table_at_def word_unat_eq_iff)
  then show ?thesis
    using assms(1,2,4,5) by (auto simp: vm_ok_def dir_ok_def table_block_def)
qed

lemma free_page_addr_ok:
  fixes s :: "'a vmm_scheme"
  assumes ok: "vm_ok (current_directory s) s" and p: "pd_entry_is_present (dirent s (current_directory s) va)"
    and fr: "fr = pt_entry_get_frame (old_pte s (current_directory s) va)"
    and blk: "(unat fr, 4096) \<in> block_regions s" and nt: "\<not> table_block s (current_directory s) fr"
  shows "\<exists>s'. vmmngr_free_page_addr va s = Some s' \<and> vm_ok (current_directory s) s' \<and>
    current_directory s' = current_directory s \<and> block_regions s' = block_regions s - {(unat fr, 4096)} \<and>
    pd_entry_is_present (dirent s' (current_directory s) va) \<and>
    pt_entry_get_frame (old_pte s' (current_directory s) va) = fr \<and>
    (\<forall>w. translate s' (current_directory s) w = (if same_page w va then None else translate s (current_directory s) w)) \<and>
    (\<forall>w. dirent s' (current_directory s) w = dirent s (current_directory s) w) \<and> mmngr_max_blocks s' = mmngr_max_blocks s"
proof -
  let ?dir = "current_directory s"
  obtain d where d: "tables s ?dir = Some d" "length d = 1024" "?dir \<noteq> 0" "pmm_ok s" using ok by (rule vm_ok_dirE)
  have e: "d ! unat (PAGE_DIR_INDEX va) = dirent s ?dir va" using d by (simp add: dirent_def)
  let ?T = "pd_entry_get_frame (dirent s ?dir va)" and ?j = "PAGE_TABLE_INDEX va"
  obtain t where t: "tables s ?T = Some t" "length t = 1024" "?T \<noteq> 0" by (rule vm_ok_tableE [OF ok p])
  have fr': "fr = pt_entry_get_frame (t ! unat ?j)" using fr p t by (simp add: old_pte_def)
  have fnz: "fr \<noteq> 0" using blk by (auto simp: block_regions_def)
  obtain s1 where s1: "pmmngr_free_block fr s = Some s1" "pmm_ok s1" "block_regions s1 = block_regions s - {(unat fr, 4096)}"
    using pmm.free_law [OF d(4) blk] by blast
  have keep: "tables s1 = tables s" "current_directory s1 = ?dir" "mmngr_max_blocks s1 = mmngr_max_blocks s"
    using s1(1) by (auto simp: pmmngr_free_block_def Let_def split: if_splits elim!: bind_SomeE)
  have ok1: "vm_ok ?dir s1" using vm_ok_less_blocks [OF ok s1(2) _ keep(1) nt] s1(3) by simp
  have ent: "dirent s1 ?dir = dirent s ?dir" using keep by (simp add: dirent_def fun_eq_iff)
  let ?v = "(t ! unat ?j AND NOT I86_PTE_PRESENT) AND NOT I86_PTE_WRITABLE"
  define s2 where "s2 = s1\<lparr>tables := (tables s1)(?T \<mapsto> t[unat ?j := ?v])\<rparr>"
  have r: "vmmngr_free_page_addr va s = Some s2"
    using d e t keep s1(1) page_indices_lt [of va] fr' fnz
    by (simp add: vmmngr_free_page_addr_def vmmngr_get_directory_def vmmngr_pdirectory_lookup_entry_def
      vmmngr_ptable_lookup_entry_def entry_get_def entry_put_def vmmngr_free_page_def s2_def pt_entry_del_attrib_def)
  have p1: "pd_entry_is_present (dirent s1 ?dir va)" using p ent by simp
  have T1: "?T = pd_entry_get_frame (dirent s1 ?dir va)" "tables s1 ?T = Some t" using t keep ent by simp_all
  note w = write_pte_ok [OF ok1 p1 T1 s2_def]
  have np: "\<not> pt_entry_is_present ?v"
    by (auto simp: pt_entry_is_present_def I86_PTE_PRESENT_def I86_PTE_WRITABLE_def and_1_bit0 bit_simps)
  have "page_walk s1 = page_walk s" using keep by (simp add: page_walk_def fun_eq_iff cong: Option.bind_cong if_cong)
  then have "translate s2 ?dir x = (if same_page x va then None else translate s ?dir x)" for x
    using w(3) [of x] np by (simp add: translate_def)
  moreover have "pt_entry_get_frame (old_pte s2 ?dir va) = fr"
  proof -
    have "?v AND I86_PTE_FRAME = t ! unat ?j AND I86_PTE_FRAME"
      by (intro bit_word_eqI) (auto simp: bit_simps I86_PTE_FRAME_def I86_PTE_PRESENT_def I86_PTE_WRITABLE_def frame_mask bit_2_iff)
    then show ?thesis
      using w(2) [of va] p1 t page_indices_lt [of va] ent by (simp add: old_pte_def s2_def fr' pt_entry_get_frame_def)
  qed
  moreover have "dirent s2 ?dir x = dirent s ?dir x" for x using w(2) [of x] ent by simp
  ultimately show ?thesis using r w(1) p1 keep s1(3) p by (simp add: s2_def)
qed

lemma translate_same_page:
  assumes "va AND mask 12 = 0" and "translate s dir va = Some a" and "same_page w va"
  shows "translate s dir w = Some (a OR (w AND 0xFFF))"
  using assms(2) page_walk_same [OF assms(3), of s dir] assms(1)
  by (auto simp: translate_def frame_mask)

lemma table_block_regions: "vm_ok dir s \<Longrightarrow> table_block s dir p \<Longrightarrow> (unat p, 4096) \<in> block_regions s"
  by (auto simp: vm_ok_def dir_ok_def table_block_def table_at_def)

lemma alloc_page_f_mapped:
  fixes s :: "'a vmm_scheme"
  assumes ok: "vm_ok (current_directory s) s" and b: "base AND mask 12 = 0" and f: "flags_ok f"
    and t: "translate s (current_directory s) base = Some a"
  shows "\<exists>s'. vmmngr_alloc_page_f base f s = Some (ERROR_OK, s') \<and> vm_ok (current_directory s) s' \<and>
    (\<forall>w. translate s' (current_directory s) w = translate s (current_directory s) w)"
proof -
  have p: "pd_entry_is_present (dirent s (current_directory s) base)"
    using t page_walk_ok [OF ok, of base] by (auto simp: translate_def split: if_splits)
  show ?thesis
  proof (rule map_page_ok [OF ok translate_low [OF b t] f, of base])
    fix s' e
    assume m: "vmmngr_map_page (current_directory s) a base f s = Some (ERROR_OK, s')" "vm_ok (current_directory s) s'"
      "\<And>w. page_walk s' (current_directory s) w = (if same_page w base then
         Some (e, new_pte (old_pte s (current_directory s) base) a f) else page_walk s (current_directory s) w)"
    have "translate s' (current_directory s) w = translate s (current_directory s) w" for w
      using translate_mapped [OF translate_low [OF b t] f m(3), of w] translate_same_page [OF b t, of w] by simp
    then show ?thesis
      using m(1,2) is_page_present_ok [OF ok, of base] get_phys_addr_ok [OF ok t] t
      by (simp add: vmmngr_alloc_page_f_def vmmngr_get_directory_def ERROR_OK_def)
  qed (use p in simp)
qed

lemma alloc_page_f_fresh:
  fixes s :: "'a vmm_scheme"
  assumes ok: "vm_ok (current_directory s) s" and f: "flags_ok f"
    and t: "translate s (current_directory s) base = None" and lo: "base < 0xF0000000"
  shows "\<exists>err s'. vmmngr_alloc_page_f base f s = Some (err, s') \<and> vm_ok (current_directory s) s' \<and>
    (err = ERROR_OK \<longrightarrow> (\<exists>a. (unat a, 4096) \<notin> block_regions s \<and> (unat a, 4096) \<in> block_regions s' \<and>
       (\<forall>w. translate s' (current_directory s) w =
          (if same_page w base then Some (a OR (w AND 0xFFF)) else translate s (current_directory s) w)))) \<and>
    (err \<noteq> ERROR_OK \<longrightarrow> err = ERROR_OCCUR \<and>
       (\<forall>w. translate s' (current_directory s) w = translate s (current_directory s) w) \<and>
       (out_of_memory s \<and> block_regions s' = block_regions s \<or>
        (\<exists>a :: u32. (unat a, 4096) \<notin> block_regions s \<and> block_regions s' = insert (unat a, 4096) (block_regions s))))"
proof -
  let ?dir = "current_directory s"
  have pm: "pmm_ok s" using ok by (simp add: vm_ok_def)
  note q = is_page_present_ok [OF ok, of base]
  have [simp]: "translate (set_last_error b x c s) = translate s" for b x c s
    by (simp add: translate_def fun_eq_iff)
  have [simp]: "block_regions (set_last_error b x c s) = block_regions s" for b x c and s :: "'a vmm_scheme"
    by (simp add: block_regions_def set_last_error_def)
  show ?thesis
  proof (rule vmm_alloc_block [OF pm])
    assume "pmmngr_alloc_block s = Some (0, set_last_error ENOMEM PMEM_OUT_OF_MEM EO_PMMNGR s)" "out_of_memory s"
    then show ?thesis using q t lo ok
      by (simp add: vmmngr_alloc_page_f_def ERROR_OK_def ERROR_OCCUR_def)
  next
    fix a s1
    assume a: "pmmngr_alloc_block s = Some (a, s1)" "a \<noteq> 0" "a AND mask 12 = 0" "pmm_ok s1"
      "block_regions s1 = insert (unat a, 4096) (block_regions s)" "(unat a, 4096) \<notin> block_regions s"
      "tables s1 = tables s" "current_directory s1 = ?dir"
    have ok1: "vm_ok ?dir s1"
      by (rule vm_ok_less_blocks [OF ok a(4) _ a(7), of a]) (use a(5,6) table_block_regions [OF ok] in auto)
    have walk: "page_walk s1 = page_walk s" using a(7) by (simp add: page_walk_def fun_eq_iff cong: Option.bind_cong if_cong)
    then have tr: "translate s1 = translate s" by (simp add: translate_def fun_eq_iff)
    have go: "vmmngr_alloc_page_f base f s = (do {
       (err, s) \<leftarrow> vmmngr_map_page ?dir a base f s1;
       Some ((if err \<noteq> ERROR_OK then ERROR_OCCUR else ERROR_OK), s) })"
      using q t lo a(1,2,8) by (simp add: vmmngr_alloc_page_f_def vmmngr_get_directory_def ERROR_OK_def ERROR_OCCUR_def)
    show ?thesis
    proof (rule map_page_ok [OF ok1 a(3) f, of base])
      fix s2 e
      assume m: "vmmngr_map_page ?dir a base f s1 = Some (ERROR_OK, s2)" "vm_ok ?dir s2"
        "\<And>w. page_walk s2 ?dir w = (if same_page w base then Some (e, new_pte (old_pte s1 ?dir base) a f) else page_walk s1 ?dir w)"
        "block_regions s1 \<subseteq> block_regions s2"
      show ?thesis
        using go m(1,2,4) a(5,6) translate_mapped [OF a(3) f m(3)]
        by (intro exI [of _ ERROR_OK] exI [of _ s2] conjI impI exI [of _ a]) (auto simp: tr)
    next
      assume "vmmngr_map_page ?dir a base f s1 = Some (ERROR_OCCUR, set_last_error ENOMEM PMEM_OUT_OF_MEM EO_PMMNGR s1)"
      moreover have "\<exists>a :: u32. (unat a, 4096) \<notin> block_regions s \<and> block_regions s1 = insert (unat a, 4096) (block_regions s)"
        using a(5,6) by blast
      ultimately show ?thesis using go ok1 by (simp add: tr ERROR_OK_def ERROR_OCCUR_def)
    qed
  qed
qed

subsection \<open>Building the kernel directory\<close>

lemma vm_ok_new_directory:
  assumes "pmm_ok s" and "tables s dir = Some (replicate 1024 0)" and "(unat dir, 4096) \<in> block_regions s"
  shows "vm_ok dir s" and "translate s dir w = None"
proof -
  show ok: "vm_ok dir s"
    using assms by (simp add: vm_ok_def table_at_def dir_ok_def pd_entry_is_present_def)
  have "\<not> pd_entry_is_present (dirent s dir w)"
    using assms(2) page_indices_lt [of w] by (simp add: dirent_def pd_entry_is_present_def)
  then show "translate s dir w = None" using page_walk_ok [OF ok, of w] by (simp add: translate_def)
qed

lemma vmm_registers: "translate (s\<lparr>current_directory := d, current_pdbr := q, cr3 := r\<rparr>) = translate s"
  "vm_ok dir (s\<lparr>current_directory := d, current_pdbr := q, cr3 := r\<rparr>) = vm_ok dir s"
  by (simp_all add: translate_def page_walk_def fun_eq_iff vm_ok_def table_at_def dir_ok_def block_regions_def pmm_ok_def
    cong: Option.bind_cong if_cong)

lemma vmmngr_initialize_ok:
  fixes s :: "'a vmm_scheme"
  assumes pm: "pmm_ok s" and k: "4096 * unat kernel_pages \<le> 2 ^ 30"
  shows "\<exists>err s'. vmmngr_initialize kernel_pages s = Some (err, s') \<and> pmm_ok s' \<and>
    (err \<noteq> ERROR_OK \<longrightarrow> err = ERROR_OCCUR \<and> out_of_memory s') \<and>
    (err = ERROR_OK \<longrightarrow> vm_ok (kernel_directory s') s' \<and>
       (current_directory s' = kernel_directory s' \<or> pmmngr_get_PDBR s' = kernel_directory s') \<and>
       (\<forall>w. translate s' (kernel_directory s') w =
          (if unat (w - 0xC0000000) < 4096 * unat kernel_pages then Some (0x100000 + (w - 0xC0000000))
           else if unat w < 4096 * 1024 then Some w else None)))"
proof (rule vmm_alloc_block [OF pm])
  assume "pmmngr_alloc_block s = Some (0, set_last_error ENOMEM PMEM_OUT_OF_MEM EO_PMMNGR s)" "out_of_memory s"
  then show ?thesis using pm by (simp add: vmmngr_initialize_def ERROR_OK_def ERROR_OCCUR_def)
next
  fix dir s1
  assume a: "pmmngr_alloc_block s = Some (dir, s1)" "dir \<noteq> 0" "pmm_ok s1"
    "block_regions s1 = insert (unat dir, 4096) (block_regions s)"
  define s2 where "s2 = zero_table dir (s1\<lparr>kernel_directory := dir\<rparr>)"
  have s2: "pmm_ok s2" "tables s2 dir = Some (replicate 1024 0)" "(unat dir, 4096) \<in> block_regions s2" "kernel_directory s2 = dir"
    using a by (simp_all add: s2_def zero_table_def)
  note n = vm_ok_new_directory [OF s2(1,2,3)]
  have "\<exists>err s'. map_range 1024 dir 0 0 s2 = Some (err, s') \<and> vm_ok dir s' \<and>
    kernel_directory s' = kernel_directory s2 \<and>
    (err = ERROR_OK \<longrightarrow> (\<forall>w. translate s' dir w = (if unat (w - 0) < 4096 * 1024 then Some (0 + (w - 0)) else translate s2 dir w))) \<and>
    (err \<noteq> ERROR_OK \<longrightarrow> err = ERROR_OCCUR \<and> out_of_memory s')"
    by (rule map_range_ok [OF n(1)]) simp_all
  then obtain e1 s3 where m: "map_range 1024 dir 0 0 s2 = Some (e1, s3)" "vm_ok dir s3" "kernel_directory s3 = kernel_directory s2"
    "e1 = ERROR_OK \<longrightarrow> (\<forall>w. translate s3 dir w = (if unat (w - 0) < 4096 * 1024 then Some (0 + (w - 0)) else translate s2 dir w))"
    "e1 \<noteq> ERROR_OK \<longrightarrow> e1 = ERROR_OCCUR \<and> out_of_memory s3" by blast
  have m1: "map_range 1024 dir 0 0 s2 = Some (e1, s3)" "vm_ok dir s3" "kernel_directory s3 = dir"
    "e1 = ERROR_OK \<Longrightarrow> \<forall>w. translate s3 dir w = (if unat w < 4096 * 1024 then Some w else None)"
    "e1 \<noteq> ERROR_OK \<Longrightarrow> e1 = ERROR_OCCUR \<and> out_of_memory s3"
    using m s2(4) by (simp_all add: n(2))
  have "(0xC0000000 :: u32) AND mask 12 = 0" "(0x100000 :: u32) AND mask 12 = 0" by (simp_all add: aligned_mod)
  from map_range_ok [OF m1(2) this(2,1), of "unat kernel_pages"] k m1(3)
  obtain e2 s4 where m2: "map_range (unat kernel_pages) dir 0x100000 0xC0000000 s3 = Some (e2, s4)" "vm_ok dir s4"
    "kernel_directory s4 = dir"
    "e2 = ERROR_OK \<Longrightarrow> \<forall>w. translate s4 dir w = (if unat (w - 0xC0000000) < 4096 * unat kernel_pages
       then Some (0x100000 + (w - 0xC0000000)) else translate s3 dir w)"
    "e2 \<noteq> ERROR_OK \<Longrightarrow> e2 = ERROR_OCCUR \<and> out_of_memory s4" by auto
  define s5 where "s5 = snd (vmmngr_switch_directory dir dir s4)"
  have sw: "vmmngr_switch_directory dir dir s4 = (ERROR_OK, s5)" "translate s5 = translate s4" "vm_ok dir s5"
    "kernel_directory s5 = dir" "current_directory s5 = dir \<or> pmmngr_get_PDBR s5 = dir"
    using a(2) m2(2,3) by (simp_all add: s5_def vmmngr_switch_directory_def vmm_registers pmmngr_load_PDBR_def pmmngr_get_PDBR_def)
  have r: "vmmngr_initialize kernel_pages s = (if e1 \<noteq> ERROR_OK then Some (ERROR_OCCUR, s3)
     else if e2 \<noteq> ERROR_OK then Some (ERROR_OCCUR, s4) else Some (ERROR_OK, s5))"
    using a(1,2) m1(1) m2(1) sw(1) by (simp add: vmmngr_initialize_def s2_def [symmetric] Let_def)
  have pms: "pmm_ok s3" "pmm_ok s4" "pmm_ok s5" using m1(2) m2(2) sw(3) by (simp_all add: vm_ok_def)
  show ?thesis
  proof (cases "e1 = ERROR_OK \<and> e2 = ERROR_OK")
    case True
    then show ?thesis using r sw m1(4) m2(4) pms by simp
  next
    case False
    then show ?thesis using r m1(5) m2(5) pms by (auto simp: ERROR_OK_def ERROR_OCCUR_def)
  qed
qed

subsection \<open>Properties\<close>

definition sample_vmm :: vmm where
  \<comment> \<open>A directory in block 1, a page table in block 2, block 3 mapped at \<^verbatim>\<open>0x1000\<close>.\<close>
  "sample_vmm = \<lparr>last_error = 0, mmngr_memory_size = 128, mmngr_used_blocks = 4, mmngr_max_blocks = 32,
     mmngr_bitmap = [0xF, 0], cr0 = 0, cr3 = 4096,
     tables = [4096 \<mapsto> 0x2003 # replicate 1023 0, 8192 \<mapsto> 0 # 0x3003 # replicate 1022 0],
     current_directory = 4096, current_pdbr = 4096, kernel_directory = 4096\<rparr>"

lemma sample_vmm_ok: "vm_ok 4096 sample_vmm"
proof -
  have "card (used_blocks [0xF, 0] 32) = 4"
    unfolding used_blocks_filter block_used_def by code_simp
  then have pm: "pmm_ok sample_vmm" by (simp add: pmm_ok_def sample_vmm_def block_used_def)
  have blk: "(4096, 4096) \<in> block_regions sample_vmm" "(8192, 4096) \<in> block_regions sample_vmm"
    by (auto simp: block_regions_def sample_vmm_def block_used_def intro: exI [of _ 1] exI [of _ 2])
  have "pd_entry_is_present ((0x2003 # replicate 1023 0) ! i) \<longleftrightarrow> i = 0" if "i < 1024" for i
    using that by (cases i) (simp_all add: pd_entry_is_present_def I86_PDE_PRESENT_def)
  then have "dir_ok 4096 (0x2003 # replicate 1023 0) sample_vmm"
    using blk by (auto simp: dir_ok_def pd_entry_get_frame_def I86_PDE_FRAME_def table_at_def) (auto simp: sample_vmm_def)
  then show ?thesis using pm blk by (simp add: vm_ok_def table_at_def) (simp add: sample_vmm_def)
qed

lemma sample_vmm_dirent: "pd_entry_is_present (dirent sample_vmm 4096 0x1000)" "dirent sample_vmm 4096 0x1000 = 0x2003"
  "old_pte sample_vmm 4096 0x1000 = 0x3003" "page_walk sample_vmm 4096 0x1000 = Some (0x2003, 0x3003)"
  "translate sample_vmm 4096 0x1000 = Some 0x3000"
  unfolding sample_vmm_def by code_simp+

text \<open>
  C8. Mapping a page into a directory: the call comes back; on success the processor's walk takes
  every address of the page to the frame and every other address where it went before; on failure
  the block allocator is exhausted and no translation changed. The directory stays well formed.
\<close>

theorem map_page_correct:
  assumes "vm_ok dir s" and "phys AND 0xFFF = 0" and "flags_ok f"
  shows "\<exists>err s'. vmmngr_map_page dir phys virt f s = Some (err, s') \<and> vm_ok dir s' \<and>
    (err = ERROR_OK \<longrightarrow> (\<forall>w. translate s' dir w = (if same_page w virt then Some (phys OR (w AND 0xFFF)) else translate s dir w))) \<and>
    (err \<noteq> ERROR_OK \<longrightarrow> err = ERROR_OCCUR \<and> out_of_memory s \<and> (\<forall>w. translate s' dir w = translate s dir w))"
proof -
  have ph: "phys AND mask 12 = 0" using assms(2) by (simp add: frame_mask)
  show ?thesis
  proof (rule map_page_ok [OF assms(1) ph assms(3), of virt])
    fix s' e
    assume "vmmngr_map_page dir phys virt f s = Some (ERROR_OK, s')" "vm_ok dir s'"
      "\<And>w. page_walk s' dir w = (if same_page w virt then Some (e, new_pte (old_pte s dir virt) phys f) else page_walk s dir w)"
    then show ?thesis using translate_mapped [OF ph assms(3)] by blast
  next
    assume "vmmngr_map_page dir phys virt f s = Some (ERROR_OCCUR, set_last_error ENOMEM PMEM_OUT_OF_MEM EO_PMMNGR s)" "out_of_memory s"
    then show ?thesis using assms(1) by (simp add: ERROR_OK_def ERROR_OCCUR_def translate_def)
  qed
qed

lemma map_page_correct_witness:
  "\<exists>err s'. vmmngr_map_page 4096 0x5000 0x40000000 3 sample_vmm = Some (err, s') \<and> vm_ok 4096 s'"
  using map_page_correct [OF sample_vmm_ok, of "0x5000" 3 "0x40000000"] by (auto simp: flags_ok_def)

text \<open>
  The protection bits of a mapped page. Because the old entry is not cleared, the new one has the
  union of the old and the requested bits: mapping a writable page again with read-only flags
  succeeds and leaves it writable. And because an existing table keeps its directory entry, a page
  mapped with the USER flag in a table made without it is not accessible to user code.
\<close>

theorem page_flags_accumulate:
  assumes "vm_ok dir s" and "phys AND 0xFFF = 0" and "flags_ok f" and "pd_entry_is_present (dirent s dir virt)"
  shows "\<exists>s' pte. vmmngr_map_page dir phys virt f s = Some (ERROR_OK, s') \<and>
    page_walk s' dir virt = Some (dirent s dir virt, pte) \<and>
    pte AND 0xFFF = (old_pte s dir virt AND 0xFFF) OR f \<and>
    (pt_entry_is_writable (old_pte s dir virt) \<longrightarrow> pt_entry_is_writable pte) \<and>
    (\<not> pd_entry_is_user (dirent s dir virt) \<longrightarrow> \<not> pd_entry_is_user (fst (the (page_walk s' dir virt))))"
proof -
  have ph: "phys AND mask 12 = 0" using assms(2) by (simp add: frame_mask)
  show ?thesis
  proof (rule map_page_ok [OF assms(1) ph assms(3), of virt])
    fix s' e
    assume m: "vmmngr_map_page dir phys virt f s = Some (ERROR_OK, s')"
      "\<And>w. page_walk s' dir w = (if same_page w virt then Some (e, new_pte (old_pte s dir virt) phys f) else page_walk s dir w)"
      "if pd_entry_is_present (dirent s dir virt) then e = dirent s dir virt else \<exists>T. e = new_pde (dirent s dir virt) T f"
    let ?pte = "new_pte (old_pte s dir virt) phys f"
    have w: "page_walk s' dir virt = Some (dirent s dir virt, ?pte)"
      using m(2) [of virt] m(3) assms(4) by (simp add: same_page_def)
    have low: "?pte AND 0xFFF = (old_pte s dir virt AND 0xFFF) OR f" by (rule new_pte_ok(3) [OF ph assms(3)])
    have "bit ?pte 1" if "bit (old_pte s dir virt) 1"
      using arg_cong [OF low, of "\<lambda>x. bit x 1"] that by (simp add: frame_mask bit_simps)
    moreover have "x AND 2 \<noteq> 0 \<longleftrightarrow> bit x 1" for x :: u32
      using and_exp_eq_0_iff_not_bit [of x 1] by simp
    ultimately show ?thesis using m(1) w low by (simp add: pt_entry_is_writable_def I86_PTE_WRITABLE_def)
  qed (use assms(4) in simp)
qed

lemma page_flags_accumulate_witness:
  "\<exists>s' pte. vmmngr_map_page 4096 0x5000 0x1000 1 sample_vmm = Some (ERROR_OK, s') \<and>
    page_walk s' 4096 0x1000 = Some (0x2003, pte) \<and> pt_entry_is_writable pte"
  using page_flags_accumulate [OF sample_vmm_ok, of "0x5000" 1 "0x1000"] sample_vmm_dirent
  by (auto simp: flags_ok_def pt_entry_is_writable_def I86_PTE_WRITABLE_def)

text \<open>
  Allocating a page in the current directory. An address that is mapped keeps its frame. An
  unmapped one below the device area gets a block that was free and is now in use, and no other
  translation changes; when the call fails no translation changes, but if it was the page table
  that could not be allocated the block taken for the page is lost.
\<close>

theorem alloc_page_correct:
  assumes "vm_ok (current_directory s) s" and "base AND 0xFFF = 0" and "flags_ok f" and "base < 0xF0000000"
  shows "\<exists>err s'. vmmngr_alloc_page_f base f s = Some (err, s') \<and> vm_ok (current_directory s) s' \<and>
    (if translate s (current_directory s) base \<noteq> None
     then err = ERROR_OK \<and> (\<forall>w. translate s' (current_directory s) w = translate s (current_directory s) w)
     else (err = ERROR_OK \<longrightarrow> (\<exists>a. (unat a, 4096) \<notin> block_regions s \<and> (unat a, 4096) \<in> block_regions s' \<and>
         (\<forall>w. translate s' (current_directory s) w =
            (if same_page w base then Some (a OR (w AND 0xFFF)) else translate s (current_directory s) w)))) \<and>
       (err \<noteq> ERROR_OK \<longrightarrow> err = ERROR_OCCUR \<and>
         (\<forall>w. translate s' (current_directory s) w = translate s (current_directory s) w) \<and>
         (out_of_memory s \<and> block_regions s' = block_regions s \<or>
          (\<exists>a :: u32. (unat a, 4096) \<notin> block_regions s \<and> block_regions s' = insert (unat a, 4096) (block_regions s)))))"
proof (cases "translate s (current_directory s) base")
  case None
  show ?thesis using alloc_page_f_fresh [OF assms(1,3) None assms(4)] None by (simp only:) simp
next
  case (Some a)
  then show ?thesis using alloc_page_f_mapped [OF assms(1) _ assms(3) Some] assms(2) by (auto simp: frame_mask)
qed

lemma alloc_page_correct_witness:
  "\<exists>err s'. vmmngr_alloc_page_f 0x2000 3 sample_vmm = Some (err, s') \<and> vm_ok 4096 s'"
proof -
  have "current_directory sample_vmm = 4096" by (simp add: sample_vmm_def)
  then show ?thesis using alloc_page_correct [of sample_vmm "0x2000" 3] sample_vmm_ok by (auto simp: flags_ok_def)
qed

text \<open>
  Freeing a page by its address: its block goes back to the block allocator, the page is no
  longer mapped and no other translation changes. The frame stays in the entry and the PRESENT bit
  is not looked at, so the hypotheses do not ask for a mapped page and hold again after the call
  once the block has a new owner: a second call takes the block from that owner.
\<close>

theorem free_page_correct:
  assumes "vm_ok (current_directory s) s" and "pd_entry_is_present (dirent s (current_directory s) va)"
    and "fr = pt_entry_get_frame (old_pte s (current_directory s) va)"
    and "(unat fr, 4096) \<in> block_regions s" and "\<not> table_block s (current_directory s) fr"
  shows "\<exists>s'. vmmngr_free_page_addr va s = Some s' \<and> vm_ok (current_directory s) s' \<and>
    block_regions s' = block_regions s - {(unat fr, 4096)} \<and>
    (\<forall>w. translate s' (current_directory s) w = (if same_page w va then None else translate s (current_directory s) w)) \<and>
    pd_entry_is_present (dirent s' (current_directory s) va) \<and>
    pt_entry_get_frame (old_pte s' (current_directory s) va) = fr"
  using free_page_addr_ok [OF assms] by blast

lemma free_page_correct_witness:
  "\<exists>s'. vmmngr_free_page_addr 0x1000 sample_vmm = Some s' \<and> translate s' 4096 0x1000 = None \<and>
     block_regions s' = block_regions sample_vmm - {(0x3000, 4096)}"
proof -
  have c: "current_directory sample_vmm = 4096" by (simp add: sample_vmm_def)
  have fr: "0x3000 = pt_entry_get_frame (old_pte sample_vmm 4096 0x1000)"
    by (simp add: sample_vmm_dirent pt_entry_get_frame_def I86_PTE_FRAME_def)
  have b: "(unat (0x3000 :: u32), 4096) \<in> block_regions sample_vmm"
    by (auto simp: block_regions_def sample_vmm_def block_used_def intro: exI [of _ 3])
  have "pd_entry_get_frame ((0x2003 # replicate 1023 0) ! i) \<noteq> 0x3000" if "i < 1024" for i
    using that by (cases i) (simp_all add: pd_entry_get_frame_def I86_PDE_FRAME_def)
  then have "\<not> table_block sample_vmm 4096 0x3000" by (auto simp: table_block_def sample_vmm_def)
  from free_page_correct [of sample_vmm, unfolded c, OF sample_vmm_ok sample_vmm_dirent(1) fr b this]
  show ?thesis by (auto simp: same_page_def)
qed

text \<open>
  Building the kernel's address space from any well formed block allocator, for a kernel below
  the end of the address space: the call comes back; if it reports success the directory in force
  translates the kernel's pages at \<^verbatim>\<open>0xC0000000\<close> to physical memory from 1 MB, the first 4 MB to
  themselves and nothing else; if it fails no block is free.
\<close>

theorem vmm_initialize_correct:
  assumes "pmm_ok s" and "4096 * unat kernel_pages \<le> 2 ^ 30"
  shows "\<exists>err s'. vmmngr_initialize kernel_pages s = Some (err, s') \<and> pmm_ok s' \<and>
    (err \<noteq> ERROR_OK \<longrightarrow> err = ERROR_OCCUR \<and> out_of_memory s') \<and>
    (err = ERROR_OK \<longrightarrow> vm_ok (kernel_directory s') s' \<and>
       (current_directory s' = kernel_directory s' \<or> pmmngr_get_PDBR s' = kernel_directory s') \<and>
       (\<forall>w. translate s' (kernel_directory s') w =
          (if unat (w - 0xC0000000) < 4096 * unat kernel_pages then Some (0x100000 + (w - 0xC0000000))
           else if unat w < 4096 * 1024 then Some w else None)))"
  by (rule vmmngr_initialize_ok [OF assms])

lemma vmm_initialize_correct_witness:
  "\<exists>err s'. vmmngr_initialize 16 sample_vmm = Some (err, s') \<and> pmm_ok s'"
proof -
  have "pmm_ok sample_vmm" using sample_vmm_ok by (simp add: vm_ok_def)
  from vmm_initialize_correct [OF this, of 16] show ?thesis by auto
qed

end
