(* ===== verification/Vector.thy ===== *)
theory Vector
  imports Kernel_Error
begin

text \<open>
  The growing arrays of vector.h and ordered_vector.h. A vector is its reserved cells, an
  uninitialised cell being \<open>None\<close>, with the number of elements and of reserved cells. The outcome of
  the heap request an operation makes is its argument \<open>granted\<close>. \<open>vec_rep v xs\<close> says that \<open>v\<close> holds
  exactly the elements \<open>xs\<close>. The binary search that several kernel routines spell out is specified
  once, in the locale \<open>binary_search\<close>.
\<close>

subsection \<open>Data\<close>

record 'a vector =
  v_data :: "'a option list"
  v_count :: u32
  v_r_size :: u32

definition vec_get :: "'a vector \<Rightarrow> u32 \<Rightarrow> 'a option" where
  "vec_get v i = do { c \<leftarrow> array_get (v_data v) i; c }"

definition vec_put :: "u32 \<Rightarrow> 'a \<Rightarrow> 'a vector \<Rightarrow> 'a vector option" where
  "vec_put i x v = do { d \<leftarrow> array_set (v_data v) i (Some x); Some (v\<lparr>v_data := d\<rparr>) }"

definition regrow :: "u32 \<Rightarrow> 'a option list \<Rightarrow> 'a option list" where
  \<comment> \<open>\<^verbatim>\<open>realloc\<close> keeps the old cells that fit and leaves the new ones uninitialised.\<close>
  "regrow n d = take (unat n) d @ replicate (unat n - length d) None"

subsection \<open>vector.h\<close>

definition vector_at :: "'a vector \<Rightarrow> u32 \<Rightarrow> 'a option" where
  "vector_at v pos = vec_get v pos"

definition vector_front :: "'a vector \<Rightarrow> 'a option" where
  "vector_front v = vec_get v 0"

definition vector_init :: "bool \<Rightarrow> u32 \<Rightarrow> error_t \<times> 'a vector" where
  "vector_init granted initial_length =
     (let n = (if initial_length = 0 then 1 else initial_length) in
      if granted then (ERROR_OK, \<lparr>v_data = replicate (unat n) None, v_count = 0, v_r_size = n\<rparr>)
      else (ERROR_OCCUR, \<lparr>v_data = [], v_count = 0, v_r_size = n\<rparr>))"

definition vector_reserve :: "bool \<Rightarrow> u32 \<Rightarrow> 'a vector \<Rightarrow> (error_t \<times> 'a vector) option" where
  \<comment> \<open>A refused request is a \<^verbatim>\<open>PANIC\<close>.\<close>
  "vector_reserve granted num_elements v = (if granted
     then Some (ERROR_OK, v\<lparr>v_data := regrow num_elements (v_data v), v_r_size := num_elements\<rparr>) else None)"

definition vector_insert_back :: "bool \<Rightarrow> 'a \<Rightarrow> 'a vector \<Rightarrow> (error_t \<times> 'a vector) option" where
  "vector_insert_back granted x v = do {
     (err, v) \<leftarrow> (if v_count v = v_r_size v then vector_reserve granted (2 * v_count v) v else Some (ERROR_OK, v));
     if err \<noteq> ERROR_OK then Some (ERROR_OCCUR, v)
     else do { v \<leftarrow> vec_put (v_count v) x v; Some (ERROR_OK, v\<lparr>v_count := v_count v + 1\<rparr>) }
   }"

partial_function (option) vector_find_first_loop :: "('a \<Rightarrow> bool) \<Rightarrow> 'a vector \<Rightarrow> u32 \<Rightarrow> u32 option" where
  [code]: "vector_find_first_loop fp v i =
     (if i < v_count v then do { x \<leftarrow> vec_get v i; if fp x then Some i else vector_find_first_loop fp v (i + 1) }
      else Some (- 1))"

definition vector_find_first :: "('a \<Rightarrow> bool) \<Rightarrow> 'a vector \<Rightarrow> u32 option" where
  "vector_find_first fp v = vector_find_first_loop fp v 0"

subsection \<open>ordered_vector.h\<close>

text \<open>The element type's two comparison operators are the arguments \<open>lt\<close> and \<open>gt\<close>.\<close>

definition ordered_vector_init :: "bool \<Rightarrow> error_t \<times> 'a vector" where
  "ordered_vector_init granted = (if granted
     then (ERROR_OK, \<lparr>v_data = [None], v_count = 0, v_r_size = 1\<rparr>)
     else (ERROR_OCCUR, \<lparr>v_data = [], v_count = 0, v_r_size = 1\<rparr>))"

definition ordered_vector_reserve :: "bool \<Rightarrow> u32 \<Rightarrow> 'a vector \<Rightarrow> (error_t \<times> 'a vector) option" where
  "ordered_vector_reserve granted num_elements v = (if granted
     then Some (ERROR_OK, v\<lparr>v_data := regrow num_elements (v_data v), v_r_size := num_elements\<rparr>) else None)"

partial_function (option) ordered_insert_loop ::
  "('a \<Rightarrow> 'a \<Rightarrow> bool) \<Rightarrow> 'a \<Rightarrow> u32 \<Rightarrow> 'a vector \<Rightarrow> (u32 \<times> 'a vector) option" where
  [code]: "ordered_insert_loop lt x i v =
     (if 0 < i then do {
        y \<leftarrow> vec_get v (i - 1);
        if lt x y then do { v \<leftarrow> vec_put i y v; ordered_insert_loop lt x (i - 1) v }
        else Some (i, v)
      }
      else Some (i, v))"

definition ordered_vector_insert ::
  "('a \<Rightarrow> 'a \<Rightarrow> bool) \<Rightarrow> bool \<Rightarrow> 'a \<Rightarrow> 'a vector \<Rightarrow> (error_t \<times> 'a vector) option" where
  "ordered_vector_insert lt granted x v = do {
     (err, v) \<leftarrow> (if v_count v = v_r_size v then ordered_vector_reserve granted (2 * v_count v) v else Some (ERROR_OK, v));
     if err \<noteq> ERROR_OK then Some (ERROR_OCCUR, v)
     else do {
       (i, v) \<leftarrow> ordered_insert_loop lt x (v_count v) v;
       v \<leftarrow> vec_put i x v;
       Some (ERROR_OK, v\<lparr>v_count := v_count v + 1\<rparr>)
     }
   }"

partial_function (option) ordered_remove_loop :: "u32 \<Rightarrow> 'a vector \<Rightarrow> 'a vector option" where
  [code]: "ordered_remove_loop i v =
     (if i < v_count v then do { y \<leftarrow> vec_get v (i + 1); v \<leftarrow> vec_put i y v; ordered_remove_loop (i + 1) v }
      else Some v)"

definition ordered_vector_remove :: "u32 \<Rightarrow> 'a vector \<Rightarrow> (bool \<times> 'a vector) option" where
  "ordered_vector_remove index v =
     (if v_count v \<le> index then Some (False, v)
      else do { v \<leftarrow> ordered_remove_loop index (v\<lparr>v_count := v_count v - 1\<rparr>); Some (True, v) })"

partial_function (option) ordered_find_loop ::
  "('a \<Rightarrow> 'a \<Rightarrow> bool) \<Rightarrow> ('a \<Rightarrow> 'a \<Rightarrow> bool) \<Rightarrow> 'a \<Rightarrow> 'a vector \<Rightarrow> u32 \<Rightarrow> u32 \<Rightarrow> u32 option" where
  [code]: "ordered_find_loop lt gt x v first last' =
     (if first \<le> last' then do {
        let mid = (first + last') div 2;
        y \<leftarrow> vec_get v mid;
        if lt x y then ordered_find_loop lt gt x v first (mid - 1)
        else if gt x y then ordered_find_loop lt gt x v (mid + 1) last'
        else Some mid
      }
      else Some (- 1))"

definition ordered_vector_find :: "('a \<Rightarrow> 'a \<Rightarrow> bool) \<Rightarrow> ('a \<Rightarrow> 'a \<Rightarrow> bool) \<Rightarrow> 'a \<Rightarrow> 'a vector \<Rightarrow> u32 option" where
  "ordered_vector_find lt gt x v = ordered_find_loop lt gt x v 0 (v_count v - 1)"

definition ordered_vector_uninit :: "bool \<Rightarrow> 'a vector \<Rightarrow> error_t option \<times> 'a vector" where
  \<comment> \<open>\<open>freed\<close>: whether \<^verbatim>\<open>free\<close> succeeds. The success path ends without a \<^verbatim>\<open>return\<close>: \<open>None\<close>.\<close>
  "ordered_vector_uninit freed v =
     (let v = v\<lparr>v_count := 0, v_r_size := 0\<rparr> in
      if \<not> freed then (Some ERROR_OCCUR, v) else (None, v\<lparr>v_data := []\<rparr>))"

subsection \<open>What a vector holds\<close>

definition vec_rep :: "'a vector \<Rightarrow> 'a list \<Rightarrow> bool" where
  "vec_rep v xs \<longleftrightarrow> (\<exists>rest. v_data v = map Some xs @ rest) \<and> unat (v_count v) = length xs \<and>
     unat (v_r_size v) = length (v_data v) \<and> 0 < v_r_size v"

lemma vec_repE:
  assumes "vec_rep v xs"
  obtains rest where "v_data v = map Some xs @ rest" "unat (v_count v) = length xs"
    "unat (v_r_size v) = length xs + length rest" "0 < unat (v_r_size v)"
  using assms by (auto simp: vec_rep_def word_less_nat_alt)

lemma vec_get_rep: "vec_rep v xs \<Longrightarrow> unat i < length xs \<Longrightarrow> vec_get v i = Some (xs ! unat i)"
  by (auto simp: vec_get_def vec_rep_def nth_append)

lemma vec_put_rep:
  assumes "vec_rep v xs" and "unat i < length xs"
  shows "vec_put i x v = Some (v\<lparr>v_data := (v_data v)[unat i := Some x]\<rparr>)"
    and "vec_rep (v\<lparr>v_data := (v_data v)[unat i := Some x]\<rparr>) (xs[unat i := x])"
  using assms by (auto simp: vec_put_def vec_rep_def list_update_append map_update)

lemma vec_get_out: "length (v_data v) \<le> unat i \<Longrightarrow> vec_get v i = None"
  by (simp add: vec_get_def)

lemma vector_init_rep: "vec_rep (snd (vector_init True n)) []" "fst (vector_init True n) = ERROR_OK"
  by (simp_all add: vector_init_def vec_rep_def Let_def word_gt_0)

lemma ordered_vector_init_rep: "vec_rep (snd (ordered_vector_init True)) []" "fst (ordered_vector_init True) = ERROR_OK"
  by (simp_all add: ordered_vector_init_def vec_rep_def)

text \<open>Making room for one more element.\<close>

definition vec_room :: "'a vector \<Rightarrow> 'a vector" where
  "vec_room v = (if v_count v = v_r_size v
     then v\<lparr>v_data := regrow (2 * v_count v) (v_data v), v_r_size := 2 * v_count v\<rparr> else v)"

lemma vec_room_rep:
  assumes "vec_rep v xs" and small: "length xs < 2 ^ 31"
  obtains c rest where "v_data (vec_room v) = map Some xs @ c # rest" "v_count (vec_room v) = v_count v"
    "unat (v_r_size (vec_room v)) = Suc (length xs + length rest)" "unat (v_count v) = length xs"
proof -
  obtain rest where r: "v_data v = map Some xs @ rest" "unat (v_count v) = length xs"
    "unat (v_r_size v) = length xs + length rest" "0 < unat (v_r_size v)" using assms(1) by (rule vec_repE)
  show thesis
  proof (cases "v_count v = v_r_size v")
    case True
    then have e: "rest = []" "0 < length xs" using r by auto
    then obtain m where m: "length xs = Suc m" by (cases xs) auto
    have two: "unat (2 * v_r_size v) = 2 * length xs" using r(2) True small by (simp add: unat_word_ariths)
    have "v_data (vec_room v) = map Some xs @ None # replicate m None"
      using True r e(1) m two by (simp add: vec_room_def regrow_def)
    then show thesis by (rule that) (use True two r m in \<open>simp_all add: vec_room_def\<close>)
  next
    case False
    then have "rest \<noteq> []" using r by (metis add_0_right list.size(3) word_unat_eq_iff)
    then obtain c rest' where "rest = c # rest'" by (cases rest) auto
    then show thesis using that [of c rest'] False r by (simp add: vec_room_def)
  qed
qed

lemma vector_insert_back_ok:
  assumes "vec_rep v xs" and small: "length xs < 2 ^ 31"
  shows "\<exists>v'. vector_insert_back True x v = Some (ERROR_OK, v') \<and> vec_rep v' (xs @ [x])"
proof -
  obtain c rest where r: "v_data (vec_room v) = map Some xs @ c # rest" "v_count (vec_room v) = v_count v"
    "unat (v_r_size (vec_room v)) = Suc (length xs + length rest)" "unat (v_count v) = length xs"
    by (rule vec_room_rep [OF assms])
  have "vector_insert_back True x v = do { w \<leftarrow> vec_put (v_count v) x (vec_room v); Some (ERROR_OK, w\<lparr>v_count := v_count w + 1\<rparr>) }"
    using r(2) by (simp add: vector_insert_back_def vector_reserve_def vec_room_def)
  moreover have "vec_put (v_count v) x (vec_room v) = Some ((vec_room v)\<lparr>v_data := map Some (xs @ [x]) @ rest\<rparr>)"
    using r by (simp add: vec_put_def list_update_append)
  moreover have "unat (v_count v + 1) = Suc (length xs)" using r(4) small by (subst unat_suc_u32) simp_all
  ultimately show ?thesis using r by (simp add: vec_rep_def word_less_nat_alt)
qed

lemma vector_find_first_loop_ok:
  assumes "vec_rep v xs" and "unat i \<le> length xs"
  shows "vector_find_first_loop fp v i = Some (case find (\<lambda>k. fp (xs ! k)) [unat i..<length xs] of None \<Rightarrow> - 1 | Some k \<Rightarrow> of_nat k)"
  using assms(2)
proof (induction "length xs - unat i" arbitrary: i)
  case 0
  then have "unat i = length xs" by simp
  then have "\<not> i < v_count v" using assms(1) by (auto simp: vec_rep_def word_less_nat_alt)
  then show ?case using 0 by (subst vector_find_first_loop.simps) simp
next
  case (Suc n)
  then have i: "unat i < length xs" by simp
  then have lt: "i < v_count v" using assms(1) by (auto simp: vec_rep_def word_less_nat_alt)
  have "unat (v_count v) < 4294967296" by (rule unat_lt_u32)
  then have n: "unat (i + 1) = Suc (unat i)"
    using i assms(1) by (subst unat_suc_u32) (auto simp: vec_rep_def)
  have up: "[unat i..<length xs] = unat i # [Suc (unat i)..<length xs]" using i by (rule upt_conv_Cons)
  have "vector_find_first_loop fp v i = (if fp (xs ! unat i) then Some i else vector_find_first_loop fp v (i + 1))"
    using lt vec_get_rep [OF assms(1) i] by (subst vector_find_first_loop.simps) simp
  then show ?case using Suc(1) [of "i + 1"] Suc(2) i n up by simp
qed

subsection \<open>Keeping order\<close>

lemma ordered_insert_loop_ok:
  assumes "v_data v = map Some xs @ c # map Some ys @ rest" and "unat i = length xs" and "length xs < 2 ^ 32"
  shows "\<exists>p q c'. xs = p @ q \<and> (\<forall>y \<in> set q. lt x y) \<and> (p \<noteq> [] \<longrightarrow> \<not> lt x (last p)) \<and>
    ordered_insert_loop lt x i v = Some (of_nat (length p), v\<lparr>v_data := map Some p @ c' # map Some (q @ ys) @ rest\<rparr>)"
  using assms
proof (induction xs arbitrary: i v c ys rule: rev_induct)
  case Nil
  then have "i = 0" by (simp add: unat_eq_0_iff)
  then show ?case using Nil by (intro exI [of _ "[]"] exI [of _ c]) (simp add: ordered_insert_loop.simps [of lt x 0])
next
  case (snoc y xs)
  have i: "i \<noteq> 0" "unat (i - 1) = length xs" using snoc.prems(2) unat_pred_length [of i] by auto
  have y: "vec_get v (i - 1) = Some y" using snoc.prems(1) i(2) by (simp add: vec_get_def nth_append)
  let ?v = "v\<lparr>v_data := map Some xs @ Some y # map Some (y # ys) @ rest\<rparr>"
  have put: "vec_put i y v = Some ?v" using snoc.prems(1,2) by (simp add: vec_put_def list_update_append)
  show ?case
  proof (cases "lt x y")
    case True
    have "ordered_insert_loop lt x i v = ordered_insert_loop lt x (i - 1) ?v"
      using i(1) y put True by (subst ordered_insert_loop.simps) (simp add: word_gt_0)
    moreover have "v_data ?v = map Some xs @ Some y # map Some (y # ys) @ rest" "length xs < 2 ^ 32"
      using snoc.prems(3) by simp_all
    from snoc.IH [OF this(1) i(2) this(2)]
    obtain p q c' where "xs = p @ q" "\<forall>y \<in> set q. lt x y" "p \<noteq> [] \<longrightarrow> \<not> lt x (last p)"
      "ordered_insert_loop lt x (i - 1) ?v = Some (of_nat (length p), ?v\<lparr>v_data := map Some p @ c' # map Some (q @ y # ys) @ rest\<rparr>)" by blast
    ultimately show ?thesis using True
      by (intro exI [of _ p] exI [of _ "q @ [y]"] exI [of _ c']) auto
  next
    case False
    have "i = of_nat (length (xs @ [y]))" using snoc.prems(2,3) unat_of_nat_u32 [of "length (xs @ [y])"] by (simp only: word_unat_eq_iff)
    then have "ordered_insert_loop lt x i v = Some (of_nat (length (xs @ [y])), v)"
      using i(1) y False by (subst ordered_insert_loop.simps) (simp add: word_gt_0)
    then show ?thesis using False snoc.prems(1)
      by (intro exI [of _ "xs @ [y]"] exI [of _ "[]"] exI [of _ c]) simp
  qed
qed

lemma ordered_vector_insert_ok:
  assumes "vec_rep v xs" and small: "length xs < 2 ^ 31"
  shows "\<exists>v' p q. ordered_vector_insert lt True x v = Some (ERROR_OK, v') \<and> xs = p @ q \<and> vec_rep v' (p @ x # q) \<and>
    (\<forall>y \<in> set q. lt x y) \<and> (p \<noteq> [] \<longrightarrow> \<not> lt x (last p))"
proof -
  obtain c rest where r: "v_data (vec_room v) = map Some xs @ c # rest" "v_count (vec_room v) = v_count v"
    "unat (v_r_size (vec_room v)) = Suc (length xs + length rest)" "unat (v_count v) = length xs"
    by (rule vec_room_rep [OF assms])
  have i: "ordered_vector_insert lt True x v = do {
       (i, v) \<leftarrow> ordered_insert_loop lt x (v_count v) (vec_room v);
       v \<leftarrow> vec_put i x v;
       Some (ERROR_OK, v\<lparr>v_count := v_count v + 1\<rparr>) }"
    using r(2) by (simp add: ordered_vector_insert_def ordered_vector_reserve_def vec_room_def)
  from ordered_insert_loop_ok [of "vec_room v" xs c "[]" rest "v_count v" lt x] r(1,4) small
  obtain p q c' where l: "xs = p @ q" "\<forall>y \<in> set q. lt x y" "p \<noteq> [] \<longrightarrow> \<not> lt x (last p)"
    "ordered_insert_loop lt x (v_count v) (vec_room v) = Some (of_nat (length p),
       (vec_room v)\<lparr>v_data := map Some p @ c' # map Some q @ rest\<rparr>)" by auto
  have u: "unat (of_nat (length p) :: u32) = length p" using small l(1) by (intro unat_of_nat_u32) simp
  have "unat (v_count v + 1) = Suc (length xs)" using r(4) small by (subst unat_suc_u32) simp_all
  then show ?thesis using i l r u
    by (intro exI [of _ "(vec_room v)\<lparr>v_data := map Some (p @ x # q) @ rest, v_count := v_count v + 1\<rparr>"] exI [of _ p] exI [of _ q])
      (simp add: vec_put_def list_update_append vec_rep_def word_less_nat_alt)
qed

lemma ordered_remove_loop_ok:
  assumes "v_data v = map Some xs @ c # map Some ys @ rest" and "unat i = length xs"
    and "unat (v_count v) = length xs + length ys"
  shows "\<exists>c'. ordered_remove_loop i v = Some (v\<lparr>v_data := map Some (xs @ ys) @ c' # rest\<rparr>)"
  using assms
proof (induction ys arbitrary: i v xs c)
  case Nil
  then have "\<not> i < v_count v" by (simp add: word_less_nat_alt)
  then show ?case using Nil by (intro exI [of _ c]) (simp add: ordered_remove_loop.simps [of i v])
next
  case (Cons y ys)
  have lt: "i < v_count v" using Cons.prems by (simp add: word_less_nat_alt)
  have n: "unat (i + 1) = Suc (length xs)"
    using Cons.prems(2,3) unat_lt_u32 [of "v_count v"] by (subst unat_suc_u32) auto
  let ?v = "v\<lparr>v_data := map Some (xs @ [y]) @ Some y # map Some ys @ rest\<rparr>"
  have "vec_get v (i + 1) = Some y" using Cons.prems(1) n by (simp add: vec_get_def nth_append)
  moreover have "vec_put i y v = Some ?v" using Cons.prems(1,2) by (simp add: vec_put_def list_update_append)
  ultimately have "ordered_remove_loop i v = ordered_remove_loop (i + 1) ?v"
    using lt by (subst ordered_remove_loop.simps) simp
  then show ?case using Cons.IH [of ?v "xs @ [y]" "Some y" "i + 1"] n Cons.prems(3) by auto
qed

lemma ordered_vector_remove_ok:
  assumes "vec_rep v xs" and "unat i < length xs"
  shows "\<exists>v'. ordered_vector_remove i v = Some (True, v') \<and> vec_rep v' (remove_nth (unat i) xs)"
proof -
  obtain rest where r: "v_data v = map Some xs @ rest" "unat (v_count v) = length xs"
    "unat (v_r_size v) = length xs + length rest" "0 < unat (v_r_size v)" using assms(1) by (rule vec_repE)
  let ?p = "take (unat i) xs" and ?q = "drop (Suc (unat i)) xs" and ?v = "v\<lparr>v_count := v_count v - 1\<rparr>"
  have "xs = ?p @ xs ! unat i # ?q" using assms(2) by (rule id_take_nth_drop)
  then have d: "v_data ?v = map Some ?p @ Some (xs ! unat i) # map Some ?q @ rest"
    using r(1) by simp (metis append.assoc append_Cons list.simps(9) map_append)
  have "v_count v \<noteq> 0" using r(2) assms(2) by auto
  then have c: "unat (v_count ?v) = length ?p + length ?q" using r(2) assms(2) by (simp add: unat_pred_u32)
  obtain c' where l: "ordered_remove_loop i ?v = Some (?v\<lparr>v_data := map Some (?p @ ?q) @ c' # rest\<rparr>)"
    using ordered_remove_loop_ok [OF d _ c] assms(2) by auto
  have "\<not> v_count v \<le> i" using r(2) assms(2) by (simp add: word_le_nat_alt)
  then have e: "ordered_vector_remove i v = Some (True, ?v\<lparr>v_data := map Some (?p @ ?q) @ c' # rest\<rparr>)"
    using l by (simp add: ordered_vector_remove_def)
  show ?thesis
    by (rule exI, rule conjI [OF e])
      (use r assms(2) c in \<open>auto simp: vec_rep_def remove_nth_def word_less_nat_alt\<close>)
qed

lemma ordered_vector_remove_out: "unat (v_count v) \<le> unat i \<Longrightarrow> ordered_vector_remove i v = Some (False, v)"
  by (simp add: ordered_vector_remove_def word_le_nat_alt)

subsection \<open>Binary search\<close>

text \<open>
  Every binary search of the kernel has this loop, on words that wrap: \<open>get\<close> reads the key of a
  cell, \<open>hit\<close> and \<open>miss\<close> build the result. The smallest key must not exceed the target, else \<^verbatim>\<open>last\<close>
  wraps below zero.
\<close>

locale binary_search =
  fixes get :: "u32 \<Rightarrow> u32 option" and target :: u32 and loop :: "u32 \<Rightarrow> u32 \<Rightarrow> 'r option"
    and hit :: "u32 \<Rightarrow> u32 \<Rightarrow> 'r" and miss :: "u32 \<Rightarrow> 'r"
  assumes loop_eq: "loop first last' = (if first \<le> last' then do {
      k \<leftarrow> get ((first + last') div 2);
      if k < target then loop ((first + last') div 2 + 1) last'
      else if target < k then loop first ((first + last') div 2 - 1)
      else Some (hit ((first + last') div 2) last') } else Some (miss last'))"
begin

definition cells :: "u32 list \<Rightarrow> bool" where
  "cells ks \<longleftrightarrow> (\<forall>i. unat i < length ks \<longrightarrow> get i = Some (ks ! unat i)) \<and> sorted_wrt (<) ks \<and>
     ks \<noteq> [] \<and> ks ! 0 \<le> target \<and> length ks \<le> 2 ^ 31"

lemma loop_ok:
  assumes "cells ks" and "unat last' < length ks" and "unat first \<le> Suc (unat last')"
    and "\<And>j. j < unat first \<Longrightarrow> ks ! j < target" and "\<And>j. unat last' < j \<Longrightarrow> j < length ks \<Longrightarrow> target < ks ! j"
  shows "(\<exists>i. unat i < length ks \<and> ks ! unat i = target \<and> (\<exists>l. loop first last' = Some (hit i l))) \<or>
    (\<exists>i. unat i < length ks \<and> ks ! unat i < target \<and> (\<forall>j. unat i < j \<longrightarrow> j < length ks \<longrightarrow> target < ks ! j) \<and>
      loop first last' = Some (miss i))"
  using assms(2-5)
proof (induction "Suc (unat last') - unat first" arbitrary: first last' rule: less_induct)
  case less
  have len: "length ks \<le> 2 ^ 31" "0 < length ks" "ks ! 0 \<le> target" and srt: "sorted_wrt (<) ks" using assms(1) by (simp_all add: cells_def)
  let ?mid = "(first + last') div 2"
  show ?case
  proof (cases "first \<le> last'")
    case False
    then have f: "unat first = Suc (unat last')" using less.prems(2) by (simp add: word_le_nat_alt)
    then have "ks ! unat last' < target" using less.prems(3) [of "unat last'"] by simp
    moreover have "loop first last' = Some (miss last')" using False by (subst loop_eq) simp
    ultimately show ?thesis using less.prems(1,4) by blast
  next
    case True
    then have fl: "unat first \<le> unat last'" by (simp add: word_le_nat_alt)
    have mid: "unat ?mid = (unat first + unat last') div 2"
      using less.prems(1) fl len(1) by (simp add: unat_div unat_add_no_wrap)
    then have m: "unat first \<le> unat ?mid" "unat ?mid \<le> unat last'" using fl by auto
    then have g: "get ?mid = Some (ks ! unat ?mid)" using assms(1) less.prems(1) by (simp add: cells_def)
    have mlt: "unat ?mid < length ks" using m(2) less.prems(1) by simp
    have suc: "unat (?mid + 1) = Suc (unat ?mid)" using mlt len(1) by (subst unat_suc_u32) auto
    consider "ks ! unat ?mid < target" | "target < ks ! unat ?mid" | "ks ! unat ?mid = target" by (rule linorder_cases)
    then show ?thesis
    proof cases
      case 1
      have low: "ks ! j < target" if "j < unat (?mid + 1)" for j
        using that suc 1 mlt sorted_wrt_nth_less [OF srt, of j "unat ?mid"] by (cases "j = unat ?mid") (auto intro: less_trans)
      have "loop first last' = loop (?mid + 1) last'" using True g 1 by (subst loop_eq) simp
      then show ?thesis
        using less.hyps [OF _ less.prems(1) _ low less.prems(4), of "?mid + 1"] suc m by auto
    next
      case 2
      have "unat ?mid \<noteq> 0" using 2 len(3) by (metis leD)
      then have pred: "unat (?mid - 1) = unat ?mid - 1" "0 < unat ?mid" using unat_eq_0_iff [of ?mid] by (simp_all add: unat_pred_u32)
      have high: "target < ks ! j" if "unat (?mid - 1) < j" "j < length ks" for j
        using that pred 2 sorted_wrt_nth_less [OF srt, of "unat ?mid" j] by (cases "j = unat ?mid") (auto intro: less_trans)
      have "loop first last' = loop first (?mid - 1)" using True g 2 by (subst loop_eq) auto
      then show ?thesis
        using less.hyps [OF _ _ _ less.prems(3) high] pred m mlt by auto
    next
      case 3
      have "loop first last' = Some (hit ?mid last')" using True g 3 by (subst loop_eq) simp
      then show ?thesis using 3 mlt by blast
    qed
  qed
qed

lemma search_ok:
  assumes "cells ks" and "unat n = length ks"
  shows "(\<exists>i. unat i < length ks \<and> ks ! unat i = target \<and> (\<exists>l. loop 0 (n - 1) = Some (hit i l))) \<or>
    (\<exists>i. unat i < length ks \<and> ks ! unat i < target \<and> (\<forall>j. unat i < j \<longrightarrow> j < length ks \<longrightarrow> target < ks ! j) \<and>
      loop 0 (n - 1) = Some (miss i))"
proof -
  obtain m where "length ks = Suc m" using assms(1) by (cases ks) (auto simp: cells_def)
  then have "unat (n - 1) = m" using assms(2) unat_pred_length by metis
  then show ?thesis using \<open>length ks = Suc m\<close> by (intro loop_ok [OF assms(1)]) auto
qed

text \<open>When every key exceeds the target the loop leaves the array below its start.\<close>

lemma loop_wild:
  assumes "\<And>i. unat i < n \<Longrightarrow> \<exists>k. get i = Some k \<and> target < k" and "get (- 1 div 2) = None"
    and "unat last' < n"
  shows "loop 0 last' = None"
  using assms(3)
proof (induction "unat last'" arbitrary: last' rule: less_induct)
  case less
  have m: "unat (last' div 2) = unat last' div 2" by (simp add: unat_div)
  then have "unat (last' div 2) < n" using less.prems by linarith
  then obtain k where k: "get (last' div 2) = Some k" "target < k" using assms(1) by blast
  have "loop 0 last' = loop 0 (last' div 2 - 1)" using k by (subst loop_eq) auto
  also have "\<dots> = None"
  proof (cases "last' div 2 = 0")
    case True
    then show ?thesis using assms(2) by (subst loop_eq) simp
  next
    case False
    then have "unat (last' div 2 - 1) = unat last' div 2 - 1" using m by (simp add: unat_pred_u32)
    moreover have "0 < unat last' div 2" using False m unat_eq_0_iff [of "last' div 2"] by simp
    then have "unat last' div 2 - 1 < unat last'" by linarith
    ultimately show ?thesis using less.hyps [of "last' div 2 - 1"] less.prems by simp
  qed
  finally show ?case .
qed

end

end
