(* ===== verification/Vm_Contract.thy ===== *)
theory Vm_Contract
  imports Vector Paging
begin

text \<open>
  The memory contract of a process: vm_area.cpp, vm_contract.cpp and the mapping call
  \<^verbatim>\<open>vfs_mmap_p\<close> of memory.cpp. A contract is an ordered vector of areas between two guard areas that
  cannot be removed. \<open>contract_ok\<close> is its invariant: the areas are sorted and no two share a page.
  A pointer to an area of the contract is its index.
\<close>

subsection \<open>Areas\<close>

definition MMAP_NO_ACCESS :: u32 where "MMAP_NO_ACCESS = 0"
definition MMAP_WRITE :: u32 where "MMAP_WRITE = 4"
definition MMAP_USER :: u32 where "MMAP_USER = 8"
definition MMAP_PROTECTION :: u32 where "MMAP_PROTECTION = 0xF"
definition MMAP_SHARED :: u32 where "MMAP_SHARED = 0x20"
definition MMAP_PRIVATE :: u32 where "MMAP_PRIVATE = 0x40"
definition MMAP_ANONYMOUS :: u32 where "MMAP_ANONYMOUS = 0x80"
definition MMAP_GROWS_DOWN :: u32 where "MMAP_GROWS_DOWN = 0x200"
definition MMAP_NON_REMOVE :: u32 where "MMAP_NON_REMOVE = 0x2000"
definition MMAP_ALLOC_IMMEDIATE :: u32 where "MMAP_ALLOC_IMMEDIATE = 0x4000"
definition MMAP_IDENTITY_MAP :: u32 where "MMAP_IDENTITY_MAP = 0x8000"
definition MMAP_INVALID :: u32 where "MMAP_INVALID = 0x10000"
definition MAP_FAILED :: u32 where "MAP_FAILED = - 1"

definition VM_AREA_BAD_BOUNDS :: u16 where "VM_AREA_BAD_BOUNDS = 1"
definition VM_CONTRACT_BAD_ARGUMENTS :: u16 where "VM_CONTRACT_BAD_ARGUMENTS = 1"
definition VM_CONTRACT_NOT_FOUND :: u16 where "VM_CONTRACT_NOT_FOUND = 2"
definition VM_CONTRACT_AREA_NON_REMOVABLE :: u16 where "VM_CONTRACT_AREA_NON_REMOVABLE = 4"
definition VM_CONTRACT_OVERLAPS :: u16 where "VM_CONTRACT_OVERLAPS = 5"
definition VM_CONTRACT_AREA_EXISTS :: u16 where "VM_CONTRACT_AREA_EXISTS = 6"
definition MEMORY_BAD_PROTECTION :: u16 where "MEMORY_BAD_PROTECTION = 1"
definition MEMORY_BAD_FLAGS :: u16 where "MEMORY_BAD_FLAGS = 2"

record vm_area =
  start_addr :: u32
  end_addr :: u32
  a_flags :: u32
  a_fd :: u32
  a_offset :: u32

definition area_lt :: "vm_area \<Rightarrow> vm_area \<Rightarrow> bool" where
  "area_lt a b \<longleftrightarrow> start_addr a < start_addr b"

definition area_gt :: "vm_area \<Rightarrow> vm_area \<Rightarrow> bool" where
  "area_gt a b \<longleftrightarrow> start_addr a > start_addr b"

definition vm_area_check_bounds :: "u32 \<Rightarrow> u32 \<Rightarrow> bool" where
  "vm_area_check_bounds start end' \<longleftrightarrow>
     \<not> (start mod vmmngr_get_page_size \<noteq> 0 \<or> end' mod vmmngr_get_page_size \<noteq> 0 \<or> start \<ge> end')"

definition vm_area_init :: "vm_area \<Rightarrow> vm_area" where
  "vm_area_init area = area\<lparr>start_addr := 0, end_addr := 0, a_flags := MMAP_INVALID, a_fd := INVALID_FD\<rparr>"

definition vm_area_create ::
  "vm_area \<Rightarrow> u32 \<Rightarrow> u32 \<Rightarrow> u32 \<Rightarrow> u32 \<Rightarrow> u32 \<Rightarrow> 'a kerr_scheme \<Rightarrow> vm_area \<times> 'a kerr_scheme" where
  \<comment> \<open>\<open>raw\<close>: what the stack held where \<^verbatim>\<open>a\<close> lies.\<close>
  "vm_area_create raw start end' flags fd offset s =
     (let a = vm_area_init raw in
      if vm_area_check_bounds start end' = False \<or> flags AND MMAP_INVALID = MMAP_INVALID
      then (a, set_last_error EINVAL VM_AREA_BAD_BOUNDS EO_VM_AREA s)
      else (a\<lparr>start_addr := start, end_addr := end', a_flags := flags, a_fd := fd, a_offset := offset\<rparr>, s))"

definition vm_area_set_bounds :: "u32 \<Rightarrow> u32 \<Rightarrow> vm_area \<Rightarrow> bool \<times> vm_area" where
  "vm_area_set_bounds start length' area =
     (if vm_area_check_bounds start (start + length') = False then (False, area)
      else (True, area\<lparr>start_addr := start, end_addr := start + length'\<rparr>))"

definition vm_area_get_end_address :: "vm_area \<Rightarrow> u32 option" where
  "vm_area_get_end_address area = do { q \<leftarrow> ceil_division (end_addr area) PAGE_SIZE; Some (q * PAGE_SIZE - 1) }"

definition vm_area_get_start_address :: "vm_area \<Rightarrow> u32" where
  "vm_area_get_start_address area = (start_addr area div PAGE_SIZE) * PAGE_SIZE"

definition vm_area_get_length :: "vm_area \<Rightarrow> u32" where
  "vm_area_get_length area = end_addr area - start_addr area"

definition vm_area_intersects :: "vm_area \<Rightarrow> vm_area \<Rightarrow> bool option" where
  "vm_area_intersects ext int' = do {
     let ext_start = vm_area_get_start_address ext;
     ext_end \<leftarrow> vm_area_get_end_address ext;
     let int_start = vm_area_get_start_address int';
     int_end \<leftarrow> vm_area_get_end_address int';
     Some (\<not> (int_end < ext_start \<or> int_start > ext_end))
   }"

definition vm_area_is_ok :: "vm_area \<Rightarrow> bool" where
  "vm_area_is_ok area \<longleftrightarrow> a_flags area AND MMAP_INVALID \<noteq> MMAP_INVALID \<and> start_addr area < end_addr area"

definition vm_area_is_removable :: "vm_area \<Rightarrow> bool" where
  "vm_area_is_removable area \<longleftrightarrow> a_flags area AND MMAP_NON_REMOVE \<noteq> MMAP_NON_REMOVE"

definition vm_area_grows_down :: "vm_area \<Rightarrow> bool" where
  "vm_area_grows_down area \<longleftrightarrow> a_flags area AND MMAP_GROWS_DOWN = MMAP_GROWS_DOWN"

subsection \<open>Contracts\<close>

record vm_contract =
  vc_areas :: "vm_area vector"
  lowest_addr :: u32
  highest_addr :: u32

definition vm_contract_init ::
  "bool \<Rightarrow> bool \<Rightarrow> vm_area \<Rightarrow> u32 \<Rightarrow> u32 \<Rightarrow> vm_contract \<Rightarrow> 'a kerr_scheme \<Rightarrow> (error_t \<times> vm_contract \<times> 'a kerr_scheme) option" where
  \<comment> \<open>\<open>g1\<close>, \<open>g2\<close>: whether the heap grants the first cell and the growth to two.\<close>
  "vm_contract_init g1 g2 raw low_addr high_addr c s =
     (if high_addr mod vmmngr_get_page_size \<noteq> 0 \<or> low_addr mod vmmngr_get_page_size \<noteq> 0 \<or> low_addr \<ge> high_addr
      then Some (ERROR_OCCUR, c, set_last_error EINVAL VM_CONTRACT_BAD_ARGUMENTS EO_VM_CONTRACT s)
      else do {
        let c = c\<lparr>highest_addr := high_addr, lowest_addr := low_addr\<rparr>;
        let (err, v) = ordered_vector_init g1;
        let c = c\<lparr>vc_areas := v\<rparr>;
        if err \<noteq> ERROR_OK then Some (ERROR_OCCUR, c, s)
        else do {
          let area = (vm_area_init raw)\<lparr>a_flags := MMAP_NON_REMOVE\<rparr>;
          let (_, area) = vm_area_set_bounds low_addr 4096 area;
          (err, v) \<leftarrow> ordered_vector_insert area_lt g2 area v;
          let c = c\<lparr>vc_areas := v\<rparr>;
          if err \<noteq> ERROR_OK then Some (ERROR_OCCUR, c, s)
          else do {
            let (_, area) = vm_area_set_bounds (high_addr - 4096) 4096 area;
            (err, v) \<leftarrow> ordered_vector_insert area_lt g2 area v;
            let c = c\<lparr>vc_areas := v\<rparr>;
            if err \<noteq> ERROR_OK then Some (ERROR_OCCUR, c, s) else Some (ERROR_OK, c, s)
          }
        }
      })"

partial_function (option) contract_search ::
  "vm_area vector \<Rightarrow> u32 \<Rightarrow> u32 \<Rightarrow> u32 \<Rightarrow> (u32 option \<times> u32) option" where
  \<comment> \<open>The binary search on start addresses: \<^verbatim>\<open>mid\<close> when \<^verbatim>\<open>found\<close> is set, and \<^verbatim>\<open>last\<close>.\<close>
  [code]: "contract_search v target first last' =
     (if first \<le> last' then do {
        let mid = (first + last') div 2;
        a \<leftarrow> vec_get v mid;
        if start_addr a < target then contract_search v target (mid + 1) last'
        else if start_addr a > target then contract_search v target first (mid - 1)
        else Some (Some mid, last')
      }
      else Some (None, last'))"

definition vm_contract_add_area ::
  "bool \<Rightarrow> vm_contract \<Rightarrow> vm_area \<Rightarrow> 'a kerr_scheme \<Rightarrow> (error_t \<times> vm_contract \<times> 'a kerr_scheme) option" where
  "vm_contract_add_area granted c new_area s = do {
     end' \<leftarrow> vm_area_get_end_address new_area;
     if vm_area_is_ok new_area = False
     then Some (ERROR_OCCUR, c, set_last_error EINVAL VM_CONTRACT_BAD_ARGUMENTS EO_VM_CONTRACT s)
     else if start_addr new_area < lowest_addr c \<or> end' \<ge> highest_addr c
     then Some (ERROR_OCCUR, c, set_last_error EINVAL VM_CONTRACT_BAD_ARGUMENTS EO_VM_CONTRACT s)
     else if v_count (vc_areas c) = 0 then None
     else do {
       (found, last') \<leftarrow> contract_search (vc_areas c) (start_addr new_area) 0 (v_count (vc_areas c) - 1);
       if found \<noteq> None
       then Some (ERROR_OCCUR, c, set_last_error EINVAL VM_CONTRACT_AREA_EXISTS EO_VM_CONTRACT s)
       else if last' + 1 = v_count (vc_areas c) then None
       else do {
         a1 \<leftarrow> vec_get (vc_areas c) last';
         i1 \<leftarrow> vm_area_intersects a1 new_area;
         free \<leftarrow> (if i1 then Some False else do {
           a2 \<leftarrow> vec_get (vc_areas c) (last' + 1);
           i2 \<leftarrow> vm_area_intersects a2 new_area;
           Some (\<not> i2) });
         if free then do {
           (_, v) \<leftarrow> ordered_vector_insert area_lt granted new_area (vc_areas c);
           Some (ERROR_OK, c\<lparr>vc_areas := v\<rparr>, s)
         }
         else Some (ERROR_OCCUR, c, set_last_error EINVAL VM_CONTRACT_OVERLAPS EO_VM_CONTRACT s)
       }
     }
   }"

definition vm_contract_remove_area ::
  "vm_contract \<Rightarrow> vm_area \<Rightarrow> 'a kerr_scheme \<Rightarrow> (error_t \<times> vm_contract \<times> 'a kerr_scheme) option" where
  "vm_contract_remove_area c area s =
     (if vm_area_is_removable area = False
      then Some (ERROR_OCCUR, c, set_last_error EINVAL VM_CONTRACT_AREA_NON_REMOVABLE EO_VM_CONTRACT s)
      else do {
        i \<leftarrow> ordered_vector_find area_lt area_gt area (vc_areas c);
        (ok, v) \<leftarrow> ordered_vector_remove i (vc_areas c);
        if ok = False
        then Some (ERROR_OCCUR, c\<lparr>vc_areas := v\<rparr>, set_last_error EINVAL VM_CONTRACT_NOT_FOUND EO_VM_CONTRACT s)
        else Some (ERROR_OK, c\<lparr>vc_areas := v\<rparr>, s)
      })"

definition vm_contract_expand_area ::
  "vm_contract \<Rightarrow> u32 option \<Rightarrow> u32 \<Rightarrow> 'a kerr_scheme \<Rightarrow> (error_t \<times> vm_contract \<times> 'a kerr_scheme) option" where
  \<comment> \<open>\<open>p\<close>: the pointer to an area of the contract.\<close>
  "vm_contract_expand_area c p length' s =
     (case p of None \<Rightarrow> Some (ERROR_OCCUR, c, set_last_error EINVAL VM_CONTRACT_BAD_ARGUMENTS EO_VM_CONTRACT s)
      | Some k \<Rightarrow> do {
          area \<leftarrow> vec_get (vc_areas c) k;
          if vm_area_is_removable area = False
          then Some (ERROR_OCCUR, c, set_last_error EINVAL VM_CONTRACT_BAD_ARGUMENTS EO_VM_CONTRACT s)
          else if length' mod vmmngr_get_page_size \<noteq> 0 then None
          else do {
            index \<leftarrow> ordered_vector_find area_lt area_gt area (vc_areas c);
            if index \<ge> v_count (vc_areas c)
            then Some (ERROR_OCCUR, c, set_last_error EINVAL VM_CONTRACT_NOT_FOUND EO_VM_CONTRACT s)
            else do {
              (adjacent, temp) \<leftarrow> (if vm_area_grows_down area then do {
                   a \<leftarrow> vec_get (vc_areas c) (index - 1);
                   Some (a, area\<lparr>start_addr := start_addr area - length'\<rparr>) }
                 else do {
                   a \<leftarrow> vec_get (vc_areas c) (index + 1);
                   Some (a, area\<lparr>end_addr := end_addr area + length'\<rparr>) });
              i \<leftarrow> vm_area_intersects adjacent temp;
              if i then Some (ERROR_OCCUR, c, set_last_error EINVAL VM_CONTRACT_OVERLAPS EO_VM_CONTRACT s)
              else do { v \<leftarrow> vec_put k temp (vc_areas c); Some (ERROR_OK, c\<lparr>vc_areas := v\<rparr>, s) }
            }
          }
        })"

definition vm_contract_find_area :: "vm_contract \<Rightarrow> u32 \<Rightarrow> 'a kerr_scheme \<Rightarrow> (u32 option \<times> 'a kerr_scheme) option" where
  "vm_contract_find_area c address s =
     (if v_count (vc_areas c) = 0 \<or> address < lowest_addr c \<or> address \<ge> highest_addr c
      then Some (None, set_last_error EINVAL VM_CONTRACT_BAD_ARGUMENTS EO_VM_CONTRACT s)
      else do {
        (found, last') \<leftarrow> contract_search (vc_areas c) address 0 (v_count (vc_areas c) - 1);
        case found of Some mid \<Rightarrow> Some (Some mid, s)
        | None \<Rightarrow> do {
            a \<leftarrow> vec_get (vc_areas c) last';
            e \<leftarrow> vm_area_get_end_address a;
            if address \<le> e then Some (Some last', s)
            else Some (None, set_last_error EINVAL VM_CONTRACT_NOT_FOUND EO_VM_CONTRACT s)
          }
      })"

partial_function (option) area_for_length_loop :: "vm_area vector \<Rightarrow> u32 \<Rightarrow> u32 \<Rightarrow> u32 option option" where
  [code]: "area_for_length_loop v length' i =
     (if i < v_count v - 1 then do {
        a \<leftarrow> vec_get v (i + 1);
        let start = vm_area_get_start_address a;
        b \<leftarrow> vec_get v i;
        e \<leftarrow> vm_area_get_end_address b;
        let end' = e + 1;
        if start - end' \<ge> length' then Some (Some end') else area_for_length_loop v length' (i + 1)
      }
      else Some None)"

definition vm_contract_get_area_for_length :: "vm_contract \<Rightarrow> u32 \<Rightarrow> 'a kerr_scheme \<Rightarrow> (virtual_addr \<times> 'a kerr_scheme) option" where
  "vm_contract_get_area_for_length c length' s =
     (if v_count (vc_areas c) = 0 then Some (0, set_last_error EINVAL VM_CONTRACT_BAD_ARGUMENTS EO_VM_CONTRACT s)
      else do {
        r \<leftarrow> area_for_length_loop (vc_areas c) length' 0;
        case r of Some a \<Rightarrow> Some (a, s)
        | None \<Rightarrow> Some (0, set_last_error EINVAL VM_CONTRACT_NOT_FOUND EO_VM_CONTRACT s)
      })"

subsection \<open>Mapping into a process\<close>

record proc_mem = kerr +
  memory_contract :: vm_contract
  contract_spinlock :: u32

definition spinlock_init :: u32 where
  "spinlock_init = 0"

definition spinlock_acquire :: "u32 \<Rightarrow> u32 option" where
  \<comment> \<open>The caller does not come back while the lock is taken.\<close>
  "spinlock_acquire lock = (if lock = 1 then None else Some 1)"

definition spinlock_try_acquire :: "u32 \<Rightarrow> bool \<times> u32" where
  "spinlock_try_acquire lock = (if lock = 0 then (True, 1) else (False, lock))"

definition spinlock_release :: "u32 \<Rightarrow> u32" where
  "spinlock_release lock = 0"

definition vfs_mmap_p ::
  "bool \<Rightarrow> vm_area \<Rightarrow> virtual_addr \<Rightarrow> u32 \<Rightarrow> u32 \<Rightarrow> u32 \<Rightarrow> u32 \<Rightarrow> u32 \<Rightarrow> 'a proc_mem_scheme \<Rightarrow> (virtual_addr \<times> 'a proc_mem_scheme) option" where
  "vfs_mmap_p granted raw pref gfd offset length' prot flags s =
     (if prot > 0xF then Some (MAP_FAILED, set_last_error EINVAL MEMORY_BAD_PROTECTION EO_MEMORY s)
      else if \<not> CHK_BIT flags MMAP_SHARED \<and> \<not> CHK_BIT flags MMAP_PRIVATE
      then Some (MAP_FAILED, set_last_error EINVAL MEMORY_BAD_FLAGS EO_MEMORY s)
      else if CHK_BIT flags MMAP_ALLOC_IMMEDIATE \<and> \<not> CHK_BIT flags MMAP_ANONYMOUS
      then Some (MAP_FAILED, set_last_error EINVAL MEMORY_BAD_FLAGS EO_MEMORY s)
      else do {
        let (area, s) = vm_area_create raw pref (pref + length') (flags OR prot) gfd offset s;
        if a_flags area = MMAP_INVALID then Some (MAP_FAILED, s)
        else do {
          l \<leftarrow> spinlock_acquire (contract_spinlock s);
          let s = s\<lparr>contract_spinlock := l\<rparr>;
          (err, c, s) \<leftarrow> vm_contract_add_area granted (memory_contract s) area s;
          let s = s\<lparr>memory_contract := c\<rparr>;
          if err \<noteq> ERROR_OK then Some (MAP_FAILED, s)
          else Some (start_addr area, s\<lparr>contract_spinlock := spinlock_release (contract_spinlock s)\<rparr>)
        }
      })"

subsection \<open>Pages of an area\<close>

definition p_start :: "vm_area \<Rightarrow> nat" where
  "p_start a = unat (start_addr a) div 4096"

definition p_end :: "vm_area \<Rightarrow> nat" where
  \<comment> \<open>The first page after the area.\<close>
  "p_end a = (unat (end_addr a) + 4095) div 4096"

lemma unat_page_start: "unat (vm_area_get_start_address a) = 4096 * p_start a"
proof -
  have "unat (start_addr a) div 4096 * 4096 < 4294967296"
    using unat_lt_u32 [of "start_addr a"] div_times_less_eq_dividend [of "unat (start_addr a)" 4096] by linarith
  then show ?thesis
    by (simp add: vm_area_get_start_address_def PAGE_SIZE_def p_start_def unat_word_ariths unat_div)
qed

lemma page_end:
  assumes "0 < end_addr a"
  obtains e where "vm_area_get_end_address a = Some e" "unat e = 4096 * p_end a - 1" "0 < p_end a" "p_end a \<le> 2 ^ 20"
proof -
  let ?n = "p_end a" and ?e = "of_nat (p_end a) * 4096 - 1 :: u32"
  have d: "vm_area_get_end_address a = Some ?e"
  proof -
    have "ceil_division (end_addr a) 4096 = Some (of_nat (p_end a))"
      using ceil_division_ok [of 4096 "end_addr a"] unfolding p_end_def by (simp, metis add.commute)
    then show ?thesis by (simp add: vm_area_get_end_address_def PAGE_SIZE_def)
  qed
  have pos: "0 < unat (end_addr a)" using assms by (simp add: word_less_nat_alt)
  then have n: "0 < ?n" "?n \<le> 2 ^ 20" using unat_lt_u32 [of "end_addr a"] by (auto simp: p_end_def)
  have "unat ?e = 4096 * ?n - 1"
  proof (cases "?n = 2 ^ 20")
    case True
    then show ?thesis by simp
  next
    case False
    then have "unat (of_nat ?n :: u32) = ?n" "4096 * ?n < 2 ^ 32" using n by (simp_all add: unat_of_nat_u32)
    then have u: "unat (of_nat ?n * 4096 :: u32) = 4096 * ?n" by (simp add: unat_word_ariths)
    then have "(of_nat ?n * 4096 :: u32) \<noteq> 0" using n(1) by auto
    then show ?thesis using u by (simp add: unat_pred_u32)
  qed
  with d n that show thesis by blast
qed

lemma area_pages: "start_addr a < end_addr a \<Longrightarrow> p_start a < p_end a"
  by (auto simp: p_start_def p_end_def word_less_nat_alt)

lemma start_in_page: "4096 * p_start a \<le> unat (start_addr a)" "unat (start_addr a) < 4096 * Suc (p_start a)"
  by (simp_all add: p_start_def)

lemma p_start_mono: "start_addr a \<le> start_addr b \<Longrightarrow> p_start a \<le> p_start b"
  by (simp add: p_start_def word_le_nat_alt div_le_mono)

definition apart :: "vm_area \<Rightarrow> vm_area \<Rightarrow> bool" where
  "apart a b \<longleftrightarrow> p_end a \<le> p_start b \<or> p_end b \<le> p_start a"

lemma intersects_ok:
  assumes "0 < end_addr a" and "0 < end_addr b"
  shows "vm_area_intersects a b = Some (\<not> apart a b)"
proof -
  obtain ea eb where "vm_area_get_end_address a = Some ea" "unat ea = 4096 * p_end a - 1" "0 < p_end a"
    "vm_area_get_end_address b = Some eb" "unat eb = 4096 * p_end b - 1" "0 < p_end b"
    using page_end assms by metis
  then show ?thesis
    by (auto simp: vm_area_intersects_def apart_def word_less_nat_alt unat_page_start)
qed

subsection \<open>The invariant\<close>

definition before :: "vm_area \<Rightarrow> vm_area \<Rightarrow> bool" where
  "before a b \<longleftrightarrow> p_end a \<le> p_start b"

definition contract_ok :: "vm_contract \<Rightarrow> vm_area list \<Rightarrow> bool" where
  "contract_ok c xs \<longleftrightarrow> vec_rep (vc_areas c) xs \<and> 2 \<le> length xs \<and> sorted_wrt before xs \<and>
     (\<forall>a \<in> set xs. start_addr a < end_addr a) \<and>
     start_addr (hd xs) = lowest_addr c \<and> 4096 * p_end (last xs) = unat (highest_addr c) \<and>
     \<not> vm_area_is_removable (hd xs) \<and> \<not> vm_area_is_removable (last xs)"

lemma before_start: "start_addr a < end_addr a \<Longrightarrow> before a b \<Longrightarrow> start_addr a < start_addr b"
proof -
  assume a: "start_addr a < end_addr a" and b: "before a b"
  have "unat (start_addr a) < 4096 * Suc (p_start a)" by (rule start_in_page)
  also have "4096 * Suc (p_start a) \<le> 4096 * p_end a" using area_pages [OF a] by simp
  also have "\<dots> \<le> 4096 * p_start b" using b by (simp add: before_def)
  also have "\<dots> \<le> unat (start_addr b)" by (rule start_in_page)
  finally show ?thesis by (simp add: word_less_nat_alt)
qed

lemma areas_start_sorted:
  assumes "sorted_wrt before xs" and "\<forall>a \<in> set xs. start_addr a < end_addr a"
  shows "sorted_wrt (<) (map start_addr xs)"
  using assms before_start by (induction xs) auto

lemma areas_short:
  assumes "sorted_wrt before xs" and "\<forall>a \<in> set xs. start_addr a < end_addr a" and "i < length xs"
  shows "i \<le> p_start (xs ! i)"
  using assms(3)
proof (induction i)
  case (Suc i)
  have "p_start (xs ! i) < p_end (xs ! i)" using Suc.prems assms(2) by (intro area_pages) simp
  moreover have "p_end (xs ! i) \<le> p_start (xs ! Suc i)"
    using sorted_wrt_nth_less [OF assms(1), of i "Suc i"] Suc.prems by (simp add: before_def)
  ultimately show ?case using Suc by simp
qed simp

lemma contract_length:
  assumes "contract_ok c xs"
  shows "length xs \<le> 2 ^ 20"
proof -
  have "length xs - 1 \<le> p_start (xs ! (length xs - 1))"
    using assms by (intro areas_short) (auto simp: contract_ok_def)
  moreover have "p_start a < 2 ^ 20" for a
    using unat_lt_u32 [of "start_addr a"] by (auto simp: p_start_def)
  ultimately have "length xs - 1 < 2 ^ 20" using le_less_trans by blast
  then show ?thesis by linarith
qed

interpretation contract: binary_search "\<lambda>i. map_option start_addr (vec_get v i)" target "contract_search v target"
    "\<lambda>i l. (Some i, l)" "\<lambda>i. (None, i)"
  for v target
proof unfold_locales
  fix first last' :: u32
  show "contract_search v target first last' = (if first \<le> last' then do {
      k \<leftarrow> map_option start_addr (vec_get v ((first + last') div 2));
      if k < target then contract_search v target ((first + last') div 2 + 1) last'
      else if target < k then contract_search v target first ((first + last') div 2 - 1)
      else Some (Some ((first + last') div 2), last') } else Some (None, last'))"
    by (subst contract_search.simps) (cases "vec_get v ((first + last') div 2)", simp_all add: Let_def)
qed

interpretation area_find: binary_search "\<lambda>i. map_option start_addr (vec_get v i)" "start_addr x"
    "ordered_find_loop area_lt area_gt x v" "\<lambda>i _. i" "\<lambda>_. - 1"
  for v x
proof unfold_locales
  fix first last' :: u32
  show "ordered_find_loop area_lt area_gt x v first last' = (if first \<le> last' then do {
      k \<leftarrow> map_option start_addr (vec_get v ((first + last') div 2));
      if k < start_addr x then ordered_find_loop area_lt area_gt x v ((first + last') div 2 + 1) last'
      else if start_addr x < k then ordered_find_loop area_lt area_gt x v first ((first + last') div 2 - 1)
      else Some ((first + last') div 2) } else Some (- 1))"
    by (subst ordered_find_loop.simps)
      (cases "vec_get v ((first + last') div 2)", auto simp: Let_def area_lt_def area_gt_def)
qed

subsection \<open>Searching a contract\<close>

lemma contract_cells:
  assumes "contract_ok c xs" and "lowest_addr c \<le> t"
  shows "contract.cells (vc_areas c) t (map start_addr xs)"
proof -
  have xs: "xs \<noteq> []" using assms(1) by (auto simp: contract_ok_def)
  have "map start_addr xs ! 0 \<le> t" using assms xs by (simp add: contract_ok_def hd_conv_nth)
  moreover have "sorted_wrt (<) (map start_addr xs)"
    using areas_start_sorted assms(1) by (auto simp: contract_ok_def)
  moreover have "length xs \<le> 2 ^ 31" using contract_length [OF assms(1)] by simp
  moreover have "vec_rep (vc_areas c) xs" using assms(1) by (simp add: contract_ok_def)
  ultimately show ?thesis using xs by (simp add: contract.cells_def vec_get_rep)
qed

lemma contract_search_ok:
  assumes "contract_ok c xs" and "lowest_addr c \<le> t"
  obtains (found) i l where "unat i < length xs" "start_addr (xs ! unat i) = t"
      "contract_search (vc_areas c) t 0 (v_count (vc_areas c) - 1) = Some (Some i, l)"
  | (miss) i where "unat i < length xs" "start_addr (xs ! unat i) < t"
      "\<And>j. unat i < j \<Longrightarrow> j < length xs \<Longrightarrow> t < start_addr (xs ! j)"
      "contract_search (vc_areas c) t 0 (v_count (vc_areas c) - 1) = Some (None, i)"
proof -
  have "unat (v_count (vc_areas c)) = length (map start_addr xs)" using assms(1) by (simp add: contract_ok_def vec_rep_def)
  from contract.search_ok [OF contract_cells [OF assms] this] show thesis
  proof (elim disjE exE conjE)
    fix i l
    assume "unat i < length (map start_addr xs)" "map start_addr xs ! unat i = t"
      "contract_search (vc_areas c) t 0 (v_count (vc_areas c) - 1) = Some (Some i, l)"
    then show thesis by (intro found) simp_all
  next
    fix i
    assume "unat i < length (map start_addr xs)" "map start_addr xs ! unat i < t"
      "\<forall>j. unat i < j \<longrightarrow> j < length (map start_addr xs) \<longrightarrow> t < map start_addr xs ! j"
      "contract_search (vc_areas c) t 0 (v_count (vc_areas c) - 1) = Some (None, i)"
    then show thesis by (intro miss) simp_all
  qed
qed

lemma areas_nth_before:
  assumes "contract_ok c xs" and "i < j" and "j < length xs"
  shows "p_end (xs ! i) \<le> p_start (xs ! j)"
  using sorted_wrt_nth_less [of before xs i j] assms by (simp add: contract_ok_def before_def)

lemma areas_nth_pages: "contract_ok c xs \<Longrightarrow> i < length xs \<Longrightarrow> p_start (xs ! i) < p_end (xs ! i)"
  by (intro area_pages) (simp add: contract_ok_def)

text \<open>A new area between two neighbours it does not meet meets no area at all.\<close>

lemma apart_neighbours:
  assumes ok: "contract_ok c xs" and i: "Suc i < length xs"
    and si: "start_addr (xs ! i) < start_addr a" and sj: "start_addr a < start_addr (xs ! Suc i)" and a: "start_addr a < end_addr a"
  shows "(\<forall>b \<in> set xs. apart b a) \<longleftrightarrow> apart (xs ! i) a \<and> apart (xs ! Suc i) a"
    and "apart (xs ! i) a \<Longrightarrow> p_end (xs ! i) \<le> p_start a"
    and "apart (xs ! Suc i) a \<Longrightarrow> p_end a \<le> p_start (xs ! Suc i)"
proof -
  have pa: "p_start a < p_end a" using a by (rule area_pages)
  have pi: "p_start (xs ! i) \<le> p_start a" "p_start a \<le> p_start (xs ! Suc i)"
    using p_start_mono [OF less_imp_le [OF si]] p_start_mono [OF less_imp_le [OF sj]] by simp_all
  show l: "apart (xs ! i) a \<Longrightarrow> p_end (xs ! i) \<le> p_start a" using pi(1) pa by (auto simp: apart_def)
  show r: "apart (xs ! Suc i) a \<Longrightarrow> p_end a \<le> p_start (xs ! Suc i)"
    using pi(2) pa areas_nth_pages [OF ok, of "Suc i"] i by (auto simp: apart_def)
  show "(\<forall>b \<in> set xs. apart b a) \<longleftrightarrow> apart (xs ! i) a \<and> apart (xs ! Suc i) a"
  proof
    assume b: "apart (xs ! i) a \<and> apart (xs ! Suc i) a"
    show "\<forall>b \<in> set xs. apart b a"
    proof
      fix b assume "b \<in> set xs"
      then obtain j where j: "j < length xs" "b = xs ! j" by (auto simp: in_set_conv_nth)
      consider "j < i" | "j = i" | "j = Suc i" | "Suc i < j" by linarith
      then show "apart b a"
      proof cases
        case 1
        then have "p_end (xs ! j) \<le> p_start (xs ! i)" using areas_nth_before [OF ok 1] i by simp
        then show ?thesis using pi(1) j(2) by (simp add: apart_def)
      next
        case 4
        then have "p_end (xs ! Suc i) \<le> p_start (xs ! j)" using areas_nth_before [OF ok 4] j by simp
        then show ?thesis using r b areas_nth_pages [OF ok i] j(2) by (simp add: apart_def)
      qed (use b j in auto)
    qed
  qed (use i in auto)
qed

lemma contract_insert:
  assumes ok: "contract_ok c xs" and a: "start_addr a < end_addr a" and i: "Suc i < length xs"
    and si: "start_addr (xs ! i) < start_addr a" and sj: "start_addr a < start_addr (xs ! Suc i)"
    and ap: "\<forall>b \<in> set xs. apart b a"
  obtains v p q where "ordered_vector_insert area_lt True a (vc_areas c) = Some (ERROR_OK, v)" "xs = p @ q"
    "contract_ok (c\<lparr>vc_areas := v\<rparr>) (p @ a # q)"
proof -
  have rep: "vec_rep (vc_areas c) xs" "length xs < 2 ^ 31" using ok contract_length [OF ok] by (auto simp: contract_ok_def)
  obtain v p q where v: "ordered_vector_insert area_lt True a (vc_areas c) = Some (ERROR_OK, v)" "xs = p @ q"
    "vec_rep v (p @ a # q)" "\<forall>y \<in> set q. area_lt a y" "p \<noteq> [] \<longrightarrow> \<not> area_lt a (last p)"
    using ordered_vector_insert_ok [OF rep] by blast
  have srt: "sorted_wrt (<) (map start_addr xs)" "sorted_wrt before xs" "\<forall>a \<in> set xs. start_addr a < end_addr a"
    using areas_start_sorted ok by (auto simp: contract_ok_def)
  have sub: "set p \<subseteq> set xs" "set q \<subseteq> set xs" using v(2) by auto
  have pb: "before b a" if bp: "b \<in> set p" for b
  proof -
    obtain p' l where p: "p = p' @ [l]" using bp by (cases p rule: rev_cases) auto
    have "start_addr b \<le> start_addr l" using srt(1) v(2) bp by (auto simp: p sorted_wrt_append less_imp_le)
    then have "start_addr b \<le> start_addr a" using v(5) p by (auto simp: area_lt_def)
    then have "p_start b \<le> p_start a" by (rule p_start_mono)
    moreover have "apart b a" "p_start a < p_end a" using ap sub(1) that area_pages [OF a] by auto
    ultimately show ?thesis by (auto simp: apart_def before_def)
  qed
  have qb: "before a b" if "b \<in> set q" for b
  proof -
    have "start_addr a \<le> start_addr b" using v(4) that by (auto simp: area_lt_def)
    then have "p_start a \<le> p_start b" by (rule p_start_mono)
    moreover have "apart b a" "p_start b < p_end b" using ap sub(2) that srt(3) by (auto intro!: area_pages)
    ultimately show ?thesis by (auto simp: apart_def before_def)
  qed
  have mem: "xs ! i \<in> set xs" "xs ! Suc i \<in> set xs" using i by auto
  have "\<not> area_lt a (xs ! i)" using si by (simp add: area_lt_def)
  then have "xs ! i \<notin> set q" using v(4) by blast
  then have pne: "p \<noteq> []" using mem v(2) by auto
  have "xs ! Suc i \<notin> set p"
  proof
    assume "xs ! Suc i \<in> set p"
    then have "start_addr (xs ! Suc i) \<le> start_addr (last p)"
      using srt(1) v(2) by (cases p rule: rev_cases) (auto simp: sorted_wrt_append less_imp_le)
    then show False using v(5) pne sj by (auto simp: area_lt_def)
  qed
  then have qne: "q \<noteq> []" using mem v(2) by auto
  have "sorted_wrt before (p @ a # q)"
    using srt(2) pb qb v(2) by (auto simp: sorted_wrt_append)
  then have "contract_ok (c\<lparr>vc_areas := v\<rparr>) (p @ a # q)"
    using ok v(2,3) a pne qne by (auto simp: contract_ok_def)
  with v(1,2) show thesis by (rule that)
qed

lemma add_area_ok:
  assumes ok: "contract_ok c xs" and a: "vm_area_is_ok a" and lo: "lowest_addr c \<le> start_addr a"
    and hi: "4096 * p_end a \<le> unat (highest_addr c)" and la: "start_addr a \<le> start_addr (last xs)"
  shows "if \<forall>b \<in> set xs. apart b a
    then \<exists>v p q. vm_contract_add_area True c a s = Some (ERROR_OK, c\<lparr>vc_areas := v\<rparr>, s) \<and> xs = p @ q \<and>
      contract_ok (c\<lparr>vc_areas := v\<rparr>) (p @ a # q)
    else \<exists>x. vm_contract_add_area True c a s = Some (ERROR_OCCUR, c, set_last_error EINVAL x EO_VM_CONTRACT s)"
proof -
  have se: "start_addr a < end_addr a" using a by (simp add: vm_area_is_ok_def)
  then have "0 < end_addr a" by (metis word_gt_0 word_not_simps(1))
  then obtain e where e: "vm_area_get_end_address a = Some e" "unat e = 4096 * p_end a - 1" "0 < p_end a"
    using page_end by metis
  have e': "\<not> highest_addr c \<le> e" using e hi by (simp add: word_le_nat_alt)
  have rep: "vec_rep (vc_areas c) xs" "2 \<le> length xs" "\<forall>b \<in> set xs. start_addr b < end_addr b"
    using ok by (auto simp: contract_ok_def)
  have cnt: "unat (v_count (vc_areas c)) = length xs" using rep(1) by (simp add: vec_rep_def)
  then have nz: "v_count (vc_areas c) \<noteq> 0" using rep(2) by auto
  have pos: "0 < end_addr b" if "b \<in> set xs" for b
    using rep(3) that by (metis word_gt_0 word_not_simps(1))
  have lo': "\<not> start_addr a < lowest_addr c" using lo by simp
  show ?thesis
  proof (rule contract_search_ok [OF ok lo])
    fix i l
    assume f: "unat i < length xs" "start_addr (xs ! unat i) = start_addr a"
      "contract_search (vc_areas c) (start_addr a) 0 (v_count (vc_areas c) - 1) = Some (Some i, l)"
    have m: "xs ! unat i \<in> set xs" using f(1) by simp
    then have "p_start (xs ! unat i) < p_end (xs ! unat i)" using rep(3) by (blast intro: area_pages)
    then have "\<not> apart (xs ! unat i) a" using f(2) area_pages [OF se] by (auto simp: apart_def p_start_def)
    then have "\<not> (\<forall>b \<in> set xs. apart b a)" using m by blast
    moreover have "vm_contract_add_area True c a s = Some (ERROR_OCCUR, c, set_last_error EINVAL VM_CONTRACT_AREA_EXISTS EO_VM_CONTRACT s)"
      using f e(1) e' nz a lo' by (simp add: vm_contract_add_area_def)
    ultimately show ?thesis by auto
  next
    fix i
    assume f: "unat i < length xs" "start_addr (xs ! unat i) < start_addr a"
      "\<And>j. unat i < j \<Longrightarrow> j < length xs \<Longrightarrow> start_addr a < start_addr (xs ! j)"
      "contract_search (vc_areas c) (start_addr a) 0 (v_count (vc_areas c) - 1) = Some (None, i)"
    have "xs \<noteq> []" using rep(2) by auto
    then have "unat i \<noteq> length xs - 1" using f(2) la by (metis last_conv_nth leD)
    then have i: "Suc (unat i) < length xs" using f(1) by linarith
    have suc: "unat (i + 1) = Suc (unat i)" using i contract_length [OF ok] by (subst unat_suc_u32) auto
    have ne: "i + 1 \<noteq> v_count (vc_areas c)" using i suc cnt by auto
    have sj: "start_addr a < start_addr (xs ! Suc (unat i))" using f(3) i by simp
    note ap = apart_neighbours [OF ok i f(2) sj se]
    have g: "vec_get (vc_areas c) i = Some (xs ! unat i)" "vec_get (vc_areas c) (i + 1) = Some (xs ! Suc (unat i))"
      using vec_get_rep [OF rep(1)] f(1) i suc by auto
    have x: "vm_area_intersects (xs ! unat i) a = Some (\<not> apart (xs ! unat i) a)"
      "vm_area_intersects (xs ! Suc (unat i)) a = Some (\<not> apart (xs ! Suc (unat i)) a)"
      using pos [of "xs ! unat i"] pos [of "xs ! Suc (unat i)"] f(1) i \<open>0 < end_addr a\<close> by (simp_all add: intersects_ok)
    show ?thesis
    proof (cases "\<forall>b \<in> set xs. apart b a")
      case True
      obtain v p q where "ordered_vector_insert area_lt True a (vc_areas c) = Some (ERROR_OK, v)" "xs = p @ q"
        "contract_ok (c\<lparr>vc_areas := v\<rparr>) (p @ a # q)"
        by (rule contract_insert [OF ok se i f(2) sj True])
      moreover have "apart (xs ! unat i) a" "apart (xs ! Suc (unat i)) a" using True i f(1) by auto
      ultimately show ?thesis
        using f(4) e(1) e' nz a lo' ne g x True by (auto simp: vm_contract_add_area_def)
    next
      case False
      then have "\<not> (apart (xs ! unat i) a \<and> apart (xs ! Suc (unat i)) a)" using ap(1) by simp
      then have "vm_contract_add_area True c a s = Some (ERROR_OCCUR, c, set_last_error EINVAL VM_CONTRACT_OVERLAPS EO_VM_CONTRACT s)"
        using f(4) e(1) e' nz a lo' ne g x by (auto simp: vm_contract_add_area_def)
      then show ?thesis using False by auto
    qed
  qed
qed

subsection \<open>Lookup and gaps\<close>

definition area_contains :: "vm_area list \<Rightarrow> u32 \<Rightarrow> u32 \<Rightarrow> bool" where
  "area_contains xs addr i \<longleftrightarrow> unat i < length xs \<and> start_addr (xs ! unat i) \<le> addr \<and> unat addr < 4096 * p_end (xs ! unat i)"

lemma area_contains_unique:
  assumes ok: "contract_ok c xs" and i: "area_contains xs addr i" and j: "area_contains xs addr j"
  shows "i = j"
proof -
  have no: False if "area_contains xs addr i" "area_contains xs addr j" "unat i < unat j" for i j
  proof -
    have "unat addr < 4096 * p_end (xs ! unat i)" using that by (simp add: area_contains_def)
    also have "\<dots> \<le> 4096 * p_start (xs ! unat j)" using areas_nth_before [OF ok that(3)] that(2) by (simp add: area_contains_def)
    also have "\<dots> \<le> unat (start_addr (xs ! unat j))" by (rule start_in_page)
    finally show False using that(2) by (simp add: area_contains_def word_le_nat_alt)
  qed
  show ?thesis using no [OF i j] no [OF j i] by (metis linorder_less_linear word_unat_eq_iff)
qed

lemma start_before_end: "start_addr a < end_addr a \<Longrightarrow> unat (start_addr a) < 4096 * p_end a"
  using start_in_page(2) [of a] area_pages [of a] by (simp add: Suc_le_eq [symmetric])

lemma find_area_ok:
  assumes ok: "contract_ok c xs"
  shows "(\<exists>i. area_contains xs addr i \<and> vm_contract_find_area c addr s = Some (Some i, s)) \<or>
    ((\<forall>i. \<not> area_contains xs addr i) \<and> (\<exists>x. vm_contract_find_area c addr s = Some (None, set_last_error EINVAL x EO_VM_CONTRACT s)))"
proof -
  have rep: "vec_rep (vc_areas c) xs" "2 \<le> length xs" "\<forall>b \<in> set xs. start_addr b < end_addr b"
    "start_addr (hd xs) = lowest_addr c" "4096 * p_end (last xs) = unat (highest_addr c)" "sorted_wrt before xs"
    using ok by (auto simp: contract_ok_def)
  have ne: "xs \<noteq> []" using rep(2) by auto
  have cnt: "unat (v_count (vc_areas c)) = length xs" using rep(1) by (simp add: vec_rep_def)
  then have nz: "v_count (vc_areas c) \<noteq> 0" using rep(2) by auto
  show ?thesis
  proof (cases "addr < lowest_addr c \<or> highest_addr c \<le> addr")
    case True
    have "\<not> area_contains xs addr i" for i
    proof
      assume a: "area_contains xs addr i"
      then have i: "unat i < length xs" by (simp add: area_contains_def)
      have "lowest_addr c \<le> start_addr (xs ! unat i)"
      proof (cases "unat i")
        case 0 then show ?thesis using rep(4) ne by (simp add: hd_conv_nth)
      next
        case (Suc n)
        then show ?thesis
          using sorted_wrt_nth_less [OF areas_start_sorted [OF rep(6,3)], of 0 "unat i"] i rep(4) ne by (simp add: hd_conv_nth)
      qed
      moreover have "p_end (xs ! unat i) \<le> p_end (last xs)"
      proof (cases "unat i = length xs - 1")
        case True then show ?thesis using ne by (simp add: last_conv_nth)
      next
        case False
        then have l: "unat i < length xs - 1" using i by simp
        then have "p_end (xs ! unat i) \<le> p_start (xs ! (length xs - 1))" using areas_nth_before [OF ok l] by simp
        then show ?thesis using areas_nth_pages [OF ok, of "length xs - 1"] ne by (simp add: last_conv_nth)
      qed
      ultimately show False using True a rep(5) unfolding area_contains_def word_le_nat_alt word_less_nat_alt by linarith
    qed
    then show ?thesis using True nz by (auto simp: vm_contract_find_area_def)
  next
    case False
    then have lo: "lowest_addr c \<le> addr" by (simp add: not_less)
    show ?thesis
    proof (rule contract_search_ok [OF ok lo])
      fix i l
      assume f: "unat i < length xs" "start_addr (xs ! unat i) = addr"
        "contract_search (vc_areas c) addr 0 (v_count (vc_areas c) - 1) = Some (Some i, l)"
      have "start_addr (xs ! unat i) < end_addr (xs ! unat i)" using rep(3) f(1) by simp
      then have "area_contains xs addr i" using start_before_end f(1,2) by (auto simp: area_contains_def)
      moreover have "vm_contract_find_area c addr s = Some (Some i, s)" using f(3) False nz by (simp add: vm_contract_find_area_def)
      ultimately show ?thesis by blast
    next
      fix i
      assume f: "unat i < length xs" "start_addr (xs ! unat i) < addr"
        "\<And>j. unat i < j \<Longrightarrow> j < length xs \<Longrightarrow> addr < start_addr (xs ! j)"
        "contract_search (vc_areas c) addr 0 (v_count (vc_areas c) - 1) = Some (None, i)"
      have se: "start_addr (xs ! unat i) < end_addr (xs ! unat i)" using rep(3) f(1) by simp
      then have "0 < end_addr (xs ! unat i)" by (metis word_gt_0 word_not_simps(1))
      then obtain e where e: "vm_area_get_end_address (xs ! unat i) = Some e" "unat e = 4096 * p_end (xs ! unat i) - 1" "0 < p_end (xs ! unat i)"
        using page_end by metis
      have le: "addr \<le> e \<longleftrightarrow> unat addr < 4096 * p_end (xs ! unat i)" using e by (auto simp: word_le_nat_alt)
      have r: "vm_contract_find_area c addr s = (if addr \<le> e then Some (Some i, s)
          else Some (None, set_last_error EINVAL VM_CONTRACT_NOT_FOUND EO_VM_CONTRACT s))"
        using f(4) False nz vec_get_rep [OF rep(1) f(1)] e(1) by (simp add: vm_contract_find_area_def)
      show ?thesis
      proof (cases "addr \<le> e")
        case True
        then show ?thesis using r f(1,2) le by (auto simp: area_contains_def)
      next
        case nle: False
        have "\<not> area_contains xs addr j" for j
        proof
          assume j: "area_contains xs addr j"
          then have "unat j \<le> unat i" using f(3) [of "unat j"] by (auto simp: area_contains_def not_less [symmetric])
          moreover have "unat j \<noteq> unat i" using j nle le by (auto simp: area_contains_def)
          ultimately have "p_end (xs ! unat j) \<le> p_start (xs ! unat i)" using areas_nth_before [OF ok, of "unat j" "unat i"] f(1) by simp
          then have "4096 * p_end (xs ! unat j) \<le> unat (start_addr (xs ! unat i))" using start_in_page(1) [of "xs ! unat i"] by linarith
          then show False using j f(2) by (auto simp: area_contains_def word_less_nat_alt)
        qed
        then show ?thesis using r nle by auto
      qed
    qed
  qed
qed

definition gap_at :: "vm_area list \<Rightarrow> nat \<Rightarrow> nat" where
  "gap_at xs i = 4096 * p_start (xs ! Suc i) - 4096 * p_end (xs ! i)"

lemma area_for_length_loop_ok:
  assumes ok: "contract_ok c xs" and "unat i < length xs"
  shows "(\<exists>e k. area_for_length_loop (vc_areas c) len i = Some (Some e) \<and> Suc k < length xs \<and>
      unat e = 4096 * p_end (xs ! k) \<and> unat len \<le> gap_at xs k \<and> (\<forall>j. unat i \<le> j \<longrightarrow> j < k \<longrightarrow> gap_at xs j < unat len)) \<or>
    (area_for_length_loop (vc_areas c) len i = Some None \<and> (\<forall>j. unat i \<le> j \<longrightarrow> Suc j < length xs \<longrightarrow> gap_at xs j < unat len))"
  using assms(2)
proof (induction "length xs - unat i" arbitrary: i rule: less_induct)
  case less
  have rep: "vec_rep (vc_areas c) xs" "2 \<le> length xs" "\<forall>b \<in> set xs. start_addr b < end_addr b" using ok by (auto simp: contract_ok_def)
  have cnt: "unat (v_count (vc_areas c) - 1) = length xs - 1" using rep(1,2) by (subst unat_pred_u32) (auto simp: vec_rep_def)
  show ?case
  proof (cases "Suc (unat i) < length xs")
    case False
    then have "\<not> i < v_count (vc_areas c) - 1" using cnt by (auto simp: word_less_nat_alt)
    then show ?thesis using False by (subst (1 2) area_for_length_loop.simps) auto
  next
    case True
    then have il: "i < v_count (vc_areas c) - 1" using cnt by (auto simp: word_less_nat_alt)
    have suc: "unat (i + 1) = Suc (unat i)" using True contract_length [OF ok] by (subst unat_suc_u32) auto
    let ?a = "xs ! Suc (unat i)" and ?b = "xs ! unat i"
    have pb: "p_end ?b \<le> p_start ?a" using areas_nth_before [OF ok, of "unat i" "Suc (unat i)"] True by simp
    have "0 < end_addr ?b" using rep(3) less.prems by (metis nth_mem word_gt_0 word_not_simps(1))
    then obtain e where e: "vm_area_get_end_address ?b = Some e" "unat e = 4096 * p_end ?b - 1" "0 < p_end ?b"
      using page_end by metis
    have ps: "4096 * p_start ?a < 4294967296" using unat_lt_u32 [of "start_addr ?a"] start_in_page(1) [of ?a] by linarith
    have e1: "unat (e + 1) = 4096 * p_end ?b" using e pb ps by (subst unat_suc_u32) auto
    have d: "unat (vm_area_get_start_address ?a - (e + 1)) = gap_at xs (unat i)"
      using e1 pb by (subst unat_sub_le) (simp_all add: unat_page_start gap_at_def)
    have go: "area_for_length_loop (vc_areas c) len i =
      (if len \<le> vm_area_get_start_address ?a - (e + 1) then Some (Some (e + 1)) else area_for_length_loop (vc_areas c) len (i + 1))"
      using il vec_get_rep [OF rep(1), of i] vec_get_rep [OF rep(1), of "i + 1"] suc True e(1)
      by (subst area_for_length_loop.simps) simp
    show ?thesis
    proof (cases "unat len \<le> gap_at xs (unat i)")
      case t: True
      then have "area_for_length_loop (vc_areas c) len i = Some (Some (e + 1))" using go d by (simp add: word_le_nat_alt)
      then show ?thesis using t True e1 by (intro disjI1 exI [of _ "e + 1"] exI [of _ "unat i"]) auto
    next
      case f: False
      then have r: "area_for_length_loop (vc_areas c) len i = area_for_length_loop (vc_areas c) len (i + 1)"
        using go d by (simp add: word_le_nat_alt)
      have n: "gap_at xs j < unat len" if "unat i \<le> j" "unat (i + 1) \<le> j \<Longrightarrow> gap_at xs j < unat len" for j
        using that f suc by (cases "j = unat i") auto
      have m: "length xs - unat (i + 1) < length xs - unat i" "unat (i + 1) < length xs" using suc True by simp_all
      from less.hyps [OF m] show ?thesis
      proof (elim disjE exE conjE)
        fix e k
        assume h: "area_for_length_loop (vc_areas c) len (i + 1) = Some (Some e)" "Suc k < length xs"
          "unat e = 4096 * p_end (xs ! k)" "unat len \<le> gap_at xs k"
          "\<forall>j. unat (i + 1) \<le> j \<longrightarrow> j < k \<longrightarrow> gap_at xs j < unat len"
        have "\<forall>j. unat i \<le> j \<longrightarrow> j < k \<longrightarrow> gap_at xs j < unat len" using n h(5) by blast
        with h(1-4) r show ?thesis by metis
      next
        assume h: "area_for_length_loop (vc_areas c) len (i + 1) = Some None"
          "\<forall>j. unat (i + 1) \<le> j \<longrightarrow> Suc j < length xs \<longrightarrow> gap_at xs j < unat len"
        have "\<forall>j. unat i \<le> j \<longrightarrow> Suc j < length xs \<longrightarrow> gap_at xs j < unat len" using n h(2) by blast
        with h(1) r show ?thesis by metis
      qed
    qed
  qed
qed

subsection \<open>Making contracts and mapping into gaps\<close>

lemma ceil_multiple: "n mod 4096 = 0 \<Longrightarrow> 4096 * ((n + 4095) div 4096) = (n :: nat)"
proof -
  assume "n mod 4096 = 0"
  then obtain k where "n = 4096 * k" by (metis mod_0_imp_dvd dvdE)
  then show ?thesis by simp
qed

lemma p_end_aligned: "unat (end_addr a) mod 4096 = 0 \<Longrightarrow> 4096 * p_end a = unat (end_addr a)"
  unfolding p_end_def by (rule ceil_multiple)

lemma check_bounds_nat: "vm_area_check_bounds a b \<longleftrightarrow> unat a mod 4096 = 0 \<and> unat b mod 4096 = 0 \<and> unat a < unat b"
  by (auto simp: vm_area_check_bounds_def vmmngr_get_page_size_def PAGE_SIZE_def word_unat_eq_iff unat_mod word_le_nat_alt)

lemma p_end_add: "end_addr a = start + len \<Longrightarrow> unat start + unat len < 2 ^ 32 \<Longrightarrow> unat start mod 4096 = 0 \<Longrightarrow>
    unat len mod 4096 = 0 \<Longrightarrow> 4096 * p_end a = unat start + unat len"
  by (subst p_end_aligned) (auto simp: unat_add_no_wrap)

lemma vm_contract_init_ok:
  assumes lo: "low mod 4096 = 0" and hi: "high mod 4096 = 0" and len: "unat low + 8192 \<le> unat high"
  obtains c' g1 g2 where "vm_contract_init True True raw low high c s = Some (ERROR_OK, c', s)" "contract_ok c' [g1, g2]"
    "lowest_addr c' = low" "highest_addr c' = high"
proof -
  let ?g1 = "(vm_area_init raw)\<lparr>a_flags := MMAP_NON_REMOVE, start_addr := low, end_addr := low + 4096\<rparr>"
  let ?g2 = "(vm_area_init raw)\<lparr>a_flags := MMAP_NON_REMOVE, start_addr := high - 4096, end_addr := high\<rparr>"
  have m: "unat low mod 4096 = 0" "unat high mod 4096 = 0" using lo hi by (simp_all add: word_unat_eq_iff unat_mod)
  have uh: "unat high < 4294967296" by (rule unat_lt_u32)
  have l4: "unat (low + 4096) = unat low + 4096" using len uh by (subst unat_add_no_wrap) auto
  have h4: "unat (high - 4096) = unat high - 4096" using len by (subst unat_sub_le) auto
  have h4m: "(unat high - 4096) mod 4096 = 0" using m(2) by (simp add: mod_eq_0_iff_dvd dvd_diff_nat)
  have b1: "vm_area_check_bounds low (low + 4096)" using m l4 by (simp add: check_bounds_nat)
  have b2: "vm_area_check_bounds (high - 4096) (high - 4096 + 4096)" using m h4 h4m len by (simp add: check_bounds_nat)
  let ?v = "snd (ordered_vector_init True) :: vm_area vector"
  have lt: "area_lt ?g1 ?g2" using h4 len by (simp add: area_lt_def word_less_nat_alt)
  obtain v1 where v1: "ordered_vector_insert area_lt True ?g1 ?v = Some (ERROR_OK, v1)" "vec_rep v1 [?g1]"
    using ordered_vector_insert_ok [OF ordered_vector_init_rep(1), of area_lt ?g1] by auto
  obtain v2 p q where v2: "ordered_vector_insert area_lt True ?g2 v1 = Some (ERROR_OK, v2)" "[?g1] = p @ q" "vec_rep v2 (p @ ?g2 # q)"
    "\<forall>y \<in> set q. area_lt ?g2 y"
    using ordered_vector_insert_ok [OF v1(2), of area_lt ?g2] by auto
  have "q = []" using v2(2,4) lt by (cases p) (auto simp: area_lt_def)
  then have "p = [?g1]" using v2(2) by simp
  then have rep: "vec_rep v2 [?g1, ?g2]" using v2(3) \<open>q = []\<close> by (simp only: append.simps)
  let ?c = "c\<lparr>highest_addr := high, lowest_addr := low, vc_areas := v2\<rparr>"
  have r: "vm_contract_init True True raw low high c s = Some (ERROR_OK, ?c, s)"
    using lo hi len b1 b2 v1(1) v2(1)
    by (simp add: vm_contract_init_def vmmngr_get_page_size_def PAGE_SIZE_def word_le_nat_alt Let_def ordered_vector_init_rep
      vm_area_set_bounds_def ordered_vector_init_def)
  have pe: "4096 * p_end ?g1 = unat low + 4096" "4096 * p_end ?g2 = unat high"
    using p_end_aligned [of ?g1] p_end_aligned [of ?g2] m l4 by simp_all
  have "4096 * p_start ?g2 = unat high - 4096" using h4 h4m by (simp add: p_start_def mult_div_mod_eq [symmetric] dvd_mult_div_cancel mod_0_imp_dvd)
  then have "before ?g1 ?g2" using pe len by (simp add: before_def)
  moreover have "start_addr ?g1 < end_addr ?g1" "start_addr ?g2 < end_addr ?g2"
    using l4 h4 len by (simp_all add: word_less_nat_alt)
  ultimately have "contract_ok ?c [?g1, ?g2]"
    using rep pe(2) by (simp add: contract_ok_def vm_area_is_removable_def MMAP_NON_REMOVE_def)
  then show thesis by (intro that [OF r]) simp_all
qed

lemma get_area_for_length_ok:
  assumes ok: "contract_ok c xs"
  shows "(\<exists>a k. vm_contract_get_area_for_length c len s = Some (a, s) \<and> Suc k < length xs \<and> a \<noteq> 0 \<and>
      unat a = 4096 * p_end (xs ! k) \<and> unat len \<le> gap_at xs k \<and> (\<forall>j < k. gap_at xs j < unat len)) \<or>
    (vm_contract_get_area_for_length c len s = Some (0, set_last_error EINVAL VM_CONTRACT_NOT_FOUND EO_VM_CONTRACT s) \<and>
      (\<forall>j. Suc j < length xs \<longrightarrow> gap_at xs j < unat len))"
proof -
  have rep: "vec_rep (vc_areas c) xs" "2 \<le> length xs" using ok by (auto simp: contract_ok_def)
  then have nz: "v_count (vc_areas c) \<noteq> 0" "unat (0 :: u32) < length xs" by (auto simp: vec_rep_def)
  from area_for_length_loop_ok [OF ok nz(2), of len] show ?thesis
  proof (elim disjE exE conjE)
    fix e k
    assume h: "area_for_length_loop (vc_areas c) len 0 = Some (Some e)" "Suc k < length xs"
      "unat e = 4096 * p_end (xs ! k)" "unat len \<le> gap_at xs k" "\<forall>j. unat (0 :: u32) \<le> j \<longrightarrow> j < k \<longrightarrow> gap_at xs j < unat len"
    have "0 < p_end (xs ! k)" using areas_nth_pages [OF ok, of k] h(2) by simp
    then have "e \<noteq> 0" using h(3) by auto
    then show ?thesis using h nz(1) by (auto simp: vm_contract_get_area_for_length_def)
  next
    assume "area_for_length_loop (vc_areas c) len 0 = Some None"
      "\<forall>j. unat (0 :: u32) \<le> j \<longrightarrow> Suc j < length xs \<longrightarrow> gap_at xs j < unat len"
    then show ?thesis using nz(1) by (auto simp: vm_contract_get_area_for_length_def)
  qed
qed

definition mmap_args_ok :: "u32 \<Rightarrow> u32 \<Rightarrow> bool" where
  "mmap_args_ok prot flags \<longleftrightarrow> prot \<le> 0xF \<and> (CHK_BIT flags MMAP_SHARED \<or> CHK_BIT flags MMAP_PRIVATE) \<and>
     (CHK_BIT flags MMAP_ALLOC_IMMEDIATE \<longrightarrow> CHK_BIT flags MMAP_ANONYMOUS) \<and>
     (flags OR prot) AND MMAP_INVALID \<noteq> MMAP_INVALID"

lemma fill_gap:
  assumes ok: "contract_ok c xs" and k: "Suc k < length xs" and a: "unat a = 4096 * p_end (xs ! k)"
    and gap: "unat len \<le> gap_at xs k" and len: "0 < len" "len mod 4096 = 0"
    and ar: "start_addr ar = a" "end_addr ar = a + len"
  shows "vm_area_check_bounds a (a + len)" and "start_addr ar < end_addr ar" and "\<forall>b \<in> set xs. apart b ar"
    and "lowest_addr c \<le> a" and "4096 * p_end ar \<le> unat (highest_addr c)" and "a \<le> start_addr (last xs)"
proof -
  have m: "unat len mod 4096 = 0" "0 < unat len" using len by (simp_all add: word_unat_eq_iff unat_mod word_less_nat_alt)
  have ps: "4096 * p_start (xs ! Suc k) < 4294967296" using unat_lt_u32 [of "start_addr (xs ! Suc k)"] start_in_page(1) [of "xs ! Suc k"] by linarith
  have pb: "p_end (xs ! k) \<le> p_start (xs ! Suc k)" using areas_nth_before [OF ok, of k "Suc k"] k by simp
  have fit: "unat a + unat len \<le> 4096 * p_start (xs ! Suc k)" using gap pb a by (simp add: gap_at_def)
  then have u: "unat (a + len) = unat a + unat len" using ps by (subst unat_add_no_wrap) auto
  have am: "unat a mod 4096 = 0" using a by simp
  show "vm_area_check_bounds a (a + len)"
    using u m am by (simp add: check_bounds_nat mod_add_eq [symmetric, of "unat a"])
  show se: "start_addr ar < end_addr ar" using ar u m by (simp add: word_less_nat_alt)
  have pa: "p_start ar = p_end (xs ! k)" using ar a by (simp add: p_start_def)
  have pe: "4096 * p_end ar = unat a + unat len" using p_end_add [OF ar(2)] fit ps am m by simp
  have rep: "\<forall>b \<in> set xs. start_addr b < end_addr b" "sorted_wrt before xs" "start_addr (hd xs) = lowest_addr c"
    "4096 * p_end (last xs) = unat (highest_addr c)" using ok by (simp_all add: contract_ok_def)
  have si: "start_addr (xs ! k) < start_addr ar"
    using before_start [of "xs ! k" ar] rep(1) k pa by (simp add: before_def)
  have sj: "start_addr ar < start_addr (xs ! Suc k)"
    using fit m start_in_page(1) [of "xs ! Suc k"] ar(1) by (simp add: word_less_nat_alt)
  have "apart (xs ! k) ar" "apart (xs ! Suc k) ar" using pa pe fit by (simp_all add: apart_def)
  then show "\<forall>b \<in> set xs. apart b ar" using apart_neighbours(1) [OF ok k si sj se] by simp
  have srt: "sorted_wrt (<) (map start_addr xs)" using areas_start_sorted [OF rep(2,1)] .
  have ne: "xs \<noteq> []" using k by auto
  have le: "start_addr (xs ! i) \<le> start_addr (xs ! j)" if "i \<le> j" "j < length xs" for i j
    using sorted_wrt_nth_less [OF srt, of i j] that by (cases "i = j") (auto intro: less_imp_le)
  have "lowest_addr c \<le> start_addr (xs ! k)" using le [of 0 k] k rep(3) ne by (simp add: hd_conv_nth)
  then show "lowest_addr c \<le> a" using si ar(1) by auto
  have "start_addr (xs ! Suc k) \<le> start_addr (last xs)" using le [of "Suc k" "length xs - 1"] k ne by (simp add: last_conv_nth)
  then show "a \<le> start_addr (last xs)" using sj ar(1) by auto
  have "p_start (xs ! Suc k) \<le> p_end (last xs)"
    using p_start_mono [OF \<open>start_addr (xs ! Suc k) \<le> start_addr (last xs)\<close>] area_pages [of "last xs"] rep(1) ne by auto
  then show "4096 * p_end ar \<le> unat (highest_addr c)" using pe fit rep(4) by simp
qed

lemma mmap_gap_ok:
  fixes s :: "'a proc_mem_scheme"
  assumes ok: "contract_ok (memory_contract s) xs" and free: "contract_spinlock s = 0" and args: "mmap_args_ok prot flags"
    and len: "0 < len" "len mod 4096 = 0"
    and a: "vm_contract_get_area_for_length (memory_contract s) len s = Some (a, s)" "a \<noteq> 0"
  shows "\<exists>s' p q ar. vfs_mmap_p True raw a gfd off len prot flags s = Some (a, s') \<and> contract_spinlock s' = 0 \<and>
    contract_ok (memory_contract s') (p @ ar # q) \<and> xs = p @ q \<and> start_addr ar = a \<and> end_addr ar = a + len \<and>
    a_flags ar = (flags OR prot) \<and> a_fd ar = gfd \<and> a_offset ar = off"
proof -
  obtain k where k: "Suc k < length xs" "unat a = 4096 * p_end (xs ! k)" "unat len \<le> gap_at xs k"
    using get_area_for_length_ok [OF ok, of len s] a by auto
  let ?ar = "\<lparr>start_addr = a, end_addr = a + len, a_flags = flags OR prot, a_fd = gfd, a_offset = off\<rparr>"
  note f = fill_gap [OF ok k len, of ?ar, simplified]
  have cr: "vm_area_create raw a (a + len) (flags OR prot) gfd off s = (?ar, s)"
    using f(1) args by (simp add: vm_area_create_def vm_area_init_def mmap_args_ok_def)
  have inv: "flags OR prot \<noteq> MMAP_INVALID" using args by (auto simp: mmap_args_ok_def)
  have oka: "vm_area_is_ok ?ar" using f(2) args by (simp add: vm_area_is_ok_def mmap_args_ok_def)
  obtain v p q where v: "vm_contract_add_area True (memory_contract s) ?ar (s\<lparr>contract_spinlock := 1\<rparr>) =
      Some (ERROR_OK, (memory_contract s)\<lparr>vc_areas := v\<rparr>, s\<lparr>contract_spinlock := 1\<rparr>)" "xs = p @ q"
    "contract_ok ((memory_contract s)\<lparr>vc_areas := v\<rparr>) (p @ ?ar # q)"
    using add_area_ok [OF ok oka, of "s\<lparr>contract_spinlock := 1\<rparr>"] f(3-6) by auto
  let ?s = "s\<lparr>contract_spinlock := 0, memory_contract := (memory_contract s)\<lparr>vc_areas := v\<rparr>\<rparr>"
  have "vfs_mmap_p True raw a gfd off len prot flags s = Some (a, ?s)"
    using args inv v(1) free
    by (auto simp: vfs_mmap_p_def cr mmap_args_ok_def spinlock_acquire_def spinlock_release_def)
  then show ?thesis using v(2,3) by (intro exI [of _ ?s] exI [of _ p] exI [of _ q] exI [of _ ?ar]) simp
qed

subsection \<open>Properties\<close>

definition area_at :: "u32 \<Rightarrow> u32 \<Rightarrow> u32 \<Rightarrow> vm_area" where
  "area_at start end' flags = \<lparr>start_addr = start, end_addr = end', a_flags = flags, a_fd = INVALID_FD, a_offset = 0\<rparr>"

definition sample_areas :: "vm_area list" where
  "sample_areas = [area_at 0x1000 0x2000 MMAP_NON_REMOVE, area_at 0x4000 0x5000 MMAP_PRIVATE, area_at 0xF000 0x10000 MMAP_NON_REMOVE]"

definition sample_contract :: vm_contract where
  "sample_contract = \<lparr>vc_areas = \<lparr>v_data = map Some sample_areas, v_count = 3, v_r_size = 3\<rparr>,
     lowest_addr = 0x1000, highest_addr = 0x10000\<rparr>"

lemma sample_contract_ok: "contract_ok sample_contract sample_areas"
  by (simp add: contract_ok_def sample_contract_def sample_areas_def area_at_def vec_rep_def before_def p_end_def p_start_def
    vm_area_is_removable_def MMAP_NON_REMOVE_def)

definition sample_proc :: proc_mem where
  "sample_proc = \<lparr>last_error = 0, memory_contract = sample_contract, contract_spinlock = 0\<rparr>"

text \<open>
  C9. The invariant of a contract under insertion. For a well formed area inside the contract's
  bounds that does not start after the last guard: it is added exactly when it shares no page with
  an existing area, and the areas stay sorted and pairwise apart; otherwise an error is reported
  and the contract is unchanged.
\<close>

theorem contract_add_keeps_order:
  assumes "contract_ok c xs" and "vm_area_is_ok a" and "lowest_addr c \<le> start_addr a"
    and "4096 * p_end a \<le> unat (highest_addr c)" and "start_addr a \<le> start_addr (last xs)"
  shows "if \<forall>b \<in> set xs. apart b a
    then \<exists>c' p q. vm_contract_add_area True c a s = Some (ERROR_OK, c', s) \<and> xs = p @ q \<and> contract_ok c' (p @ a # q)
    else \<exists>x. vm_contract_add_area True c a s = Some (ERROR_OCCUR, c, set_last_error EINVAL x EO_VM_CONTRACT s)"
  using add_area_ok [OF assms, of s] by (auto split: if_splits)

lemma contract_add_keeps_order_witness:
  "\<exists>c' p q. vm_contract_add_area True sample_contract (area_at 0x6000 0x8000 MMAP_PRIVATE) sample_proc = Some (ERROR_OK, c', sample_proc) \<and>
     sample_areas = p @ q \<and> contract_ok c' (p @ area_at 0x6000 0x8000 MMAP_PRIVATE # q)"
  using contract_add_keeps_order [OF sample_contract_ok, of "area_at 0x6000 0x8000 MMAP_PRIVATE" sample_proc]
  by (simp add: vm_area_is_ok_def area_at_def MMAP_PRIVATE_def MMAP_INVALID_def sample_contract_def sample_areas_def p_end_def
    p_start_def apart_def)

text \<open>
  Looking an address up in a contract: the search ends, and returns the index of an area exactly
  when that area begins at or before the address and its last page reaches it; there is at most one.
\<close>

theorem contract_find_area_correct:
  assumes "contract_ok c xs"
  shows "\<exists>r s'. vm_contract_find_area c addr s = Some (r, s') \<and> (\<forall>i. r = Some i \<longleftrightarrow> area_contains xs addr i)"
  using find_area_ok [OF assms, of addr s] area_contains_unique [OF assms] by (metis option.inject option.simps(3))

lemma contract_find_area_correct_witness:
  "\<exists>s'. vm_contract_find_area sample_contract 0x4FFF sample_proc = Some (Some 1, s')"
proof -
  obtain r s' where r: "vm_contract_find_area sample_contract 0x4FFF sample_proc = Some (r, s')"
    "\<forall>i. r = Some i \<longleftrightarrow> area_contains sample_areas 0x4FFF i"
    using contract_find_area_correct [OF sample_contract_ok] by blast
  have "area_contains sample_areas 0x4FFF 1" by (simp add: area_contains_def sample_areas_def area_at_def p_end_def)
  then have "r = Some 1" using r(2) by simp
  then show ?thesis using r(1) by simp
qed

text \<open>
  C10. Reserving address space: when the search for a gap of a page-aligned length yields an address,
  mapping that length there succeeds, adds an area with the requested protection and file to the
  contract between two others, keeps the invariant and leaves the contract's lock free.
\<close>

theorem mmap_into_gap:
  fixes s :: "'a proc_mem_scheme"
  assumes "contract_ok (memory_contract s) xs" and "contract_spinlock s = 0" and "mmap_args_ok prot flags"
    and "0 < len" and "len mod 4096 = 0"
    and "vm_contract_get_area_for_length (memory_contract s) len s = Some (a, s)" and "a \<noteq> 0"
  shows "\<exists>s' p q ar. vfs_mmap_p True raw a gfd off len prot flags s = Some (a, s') \<and> contract_spinlock s' = 0 \<and>
    contract_ok (memory_contract s') (p @ ar # q) \<and> xs = p @ q \<and> start_addr ar = a \<and> end_addr ar = a + len \<and>
    a_flags ar = (flags OR prot) \<and> a_fd ar = gfd \<and> a_offset ar = off"
  by (rule mmap_gap_ok [OF assms])

lemma mmap_into_gap_witness:
  "\<exists>s'. vfs_mmap_p True (area_at 0 0 0) 0x2000 3 0 0x2000 2 MMAP_PRIVATE sample_proc = Some (0x2000, s') \<and> contract_spinlock s' = 0"
proof -
  have g: "vm_contract_get_area_for_length (memory_contract sample_proc) 0x2000 sample_proc = Some (0x2000, sample_proc)"
    unfolding sample_proc_def by code_simp
  have "contract_ok (memory_contract sample_proc) sample_areas" by (simp add: sample_proc_def sample_contract_ok)
  moreover have "contract_spinlock sample_proc = 0" by (simp add: sample_proc_def)
  moreover have "mmap_args_ok 2 MMAP_PRIVATE"
    by (simp add: mmap_args_ok_def MMAP_PRIVATE_def MMAP_SHARED_def MMAP_INVALID_def MMAP_ALLOC_IMMEDIATE_def CHK_BIT_def)
  ultimately show ?thesis using mmap_into_gap [OF _ _ _ _ _ g] by fastforce
qed

text \<open>
  A mapping that the contract refuses, because it shares a page with an existing area, returns
  \<^verbatim>\<open>MAP_FAILED\<close> without releasing the contract's lock: from then on no mapping call with valid
  arguments into this process comes back.
\<close>

theorem mmap_failure_deadlocks:
  fixes s :: "'a proc_mem_scheme"
  assumes "contract_ok (memory_contract s) xs" and "contract_spinlock s = 0" and "mmap_args_ok prot flags"
    and "vm_area_check_bounds pref (pref + len)" and "lowest_addr (memory_contract s) \<le> pref"
    and "unat (pref + len) \<le> unat (highest_addr (memory_contract s))" and "pref \<le> start_addr (last xs)"
    and "b \<in> set xs" and "\<not> apart b (area_at pref (pref + len) 0)"
  shows "\<exists>s'. vfs_mmap_p True raw pref gfd off len prot flags s = Some (MAP_FAILED, s') \<and>
    memory_contract s' = memory_contract s \<and>
    (\<forall>raw pref len gfd off prot flags. mmap_args_ok prot flags \<longrightarrow> vm_area_check_bounds pref (pref + len) \<longrightarrow>
       vfs_mmap_p True raw pref gfd off len prot flags s' = None)"
proof -
  let ?ar = "\<lparr>start_addr = pref, end_addr = pref + len, a_flags = flags OR prot, a_fd = gfd, a_offset = off\<rparr>"
  let ?s = "s\<lparr>contract_spinlock := 1\<rparr>"
  have cr: "vm_area_create raw p (p + l) (f OR pr) g o' t = (\<lparr>start_addr = p, end_addr = p + l, a_flags = f OR pr, a_fd = g, a_offset = o'\<rparr>, t)"
    if "mmap_args_ok pr f" "vm_area_check_bounds p (p + l)" for raw p l f pr g o' and t :: "'a proc_mem_scheme"
    using that by (simp add: vm_area_create_def vm_area_init_def mmap_args_ok_def)
  have inv: "f OR pr \<noteq> MMAP_INVALID" if "mmap_args_ok pr f" for f pr using that by (auto simp: mmap_args_ok_def)
  have ok: "vm_area_is_ok ?ar" using assms(3,4) by (simp add: vm_area_is_ok_def mmap_args_ok_def check_bounds_nat word_less_nat_alt)
  have pe: "4096 * p_end ?ar \<le> unat (highest_addr (memory_contract s))"
    using assms(4,6) p_end_aligned [of ?ar] by (simp add: check_bounds_nat)
  have "\<not> apart b ?ar" using assms(9) by (simp add: apart_def p_start_def p_end_def area_at_def)
  then have nall: "\<not> (\<forall>b \<in> set xs. apart b ?ar)" using assms(8) by blast
  have lo: "lowest_addr (memory_contract s) \<le> start_addr ?ar" "start_addr ?ar \<le> start_addr (last xs)" using assms(5,7) by simp_all
  obtain x where x: "vm_contract_add_area True (memory_contract s) ?ar ?s =
      Some (ERROR_OCCUR, memory_contract s, set_last_error EINVAL x EO_VM_CONTRACT ?s)"
    using add_area_ok [OF assms(1) ok lo(1) pe lo(2), of ?s, unfolded if_not_P [OF nall]] by blast
  let ?s' = "(set_last_error EINVAL x EO_VM_CONTRACT ?s)\<lparr>memory_contract := memory_contract s\<rparr>"
  have "vfs_mmap_p True raw pref gfd off len prot flags s = Some (MAP_FAILED, ?s')"
    using assms(2,3) inv [OF assms(3)] x
    by (auto simp: vfs_mmap_p_def cr [OF assms(3,4)] mmap_args_ok_def spinlock_acquire_def ERROR_OK_def ERROR_OCCUR_def)
  moreover have "vfs_mmap_p True r p g o' l pr f ?s' = None" if "mmap_args_ok pr f" "vm_area_check_bounds p (p + l)" for r p g o' l pr f
    using that inv [OF that(1)]
    by (auto simp: vfs_mmap_p_def cr [OF that] mmap_args_ok_def spinlock_acquire_def set_last_error_def)
  ultimately show ?thesis by (intro exI [of _ ?s']) simp
qed

lemma mmap_failure_deadlocks_witness:
  "\<exists>s'. vfs_mmap_p True (area_at 0 0 0) 0x4000 3 0 0x1000 2 MMAP_PRIVATE sample_proc = Some (MAP_FAILED, s') \<and>
    vfs_mmap_p True (area_at 0 0 0) 0x8000 3 0 0x1000 2 MMAP_PRIVATE s' = None"
proof -
  have "contract_ok (memory_contract sample_proc) sample_areas" "contract_spinlock sample_proc = 0"
    by (simp_all add: sample_proc_def sample_contract_ok)
  moreover have m: "mmap_args_ok 2 MMAP_PRIVATE"
    by (simp add: mmap_args_ok_def MMAP_PRIVATE_def MMAP_SHARED_def MMAP_INVALID_def MMAP_ALLOC_IMMEDIATE_def CHK_BIT_def)
  moreover have "vm_area_check_bounds 0x4000 (0x4000 + 0x1000)" "vm_area_check_bounds 0x8000 (0x8000 + 0x1000)"
    by (simp_all add: check_bounds_nat)
  moreover have "area_at 0x4000 0x5000 MMAP_PRIVATE \<in> set sample_areas" by (simp add: sample_areas_def)
  moreover have "\<not> apart (area_at 0x4000 0x5000 MMAP_PRIVATE) (area_at 0x4000 (0x4000 + 0x1000) 0)"
    by (simp add: apart_def p_start_def p_end_def area_at_def)
  moreover have "lowest_addr (memory_contract sample_proc) \<le> 0x4000" "unat (0x4000 + 0x1000 :: u32) \<le> unat (highest_addr (memory_contract sample_proc))"
    "0x4000 \<le> start_addr (last sample_areas)"
    by (simp_all add: sample_proc_def sample_contract_def sample_areas_def area_at_def)
  ultimately show ?thesis
    using mmap_failure_deadlocks [of sample_proc sample_areas 2 MMAP_PRIVATE "0x4000" "0x1000" _ "area_at 0 0 0" 3 0] by blast
qed

text \<open>
  Two places where the arithmetic of a contract wraps. Removing an area that starts below every
  area of the contract never comes back, because \<^verbatim>\<open>last\<close> wraps below zero and the search reads far
  outside the array. Expanding an area by a length that wraps its end succeeds and leaves it empty,
  so the contract is no longer well formed.
\<close>

theorem contract_wraps:
  "vm_contract_remove_area sample_contract (area_at 0 0x1000 MMAP_PRIVATE) sample_proc = None \<and>
   (\<exists>c' v. vm_contract_expand_area sample_contract (Some 1) 0xFFFFF000 sample_proc = Some (ERROR_OK, c', sample_proc) \<and>
     vec_get (vc_areas c') 1 = Some v \<and> \<not> vm_area_is_ok v \<and> (\<forall>ys. \<not> contract_ok c' ys))"
proof
  let ?vec = "vc_areas sample_contract" and ?a = "area_at 0 0x1000 MMAP_PRIVATE"
  have rep: "vec_rep ?vec sample_areas" using sample_contract_ok by (simp add: contract_ok_def)
  have all: "\<forall>b \<in> set sample_areas. start_addr ?a < start_addr b" by (simp add: sample_areas_def area_at_def)
  have k: "\<exists>k. map_option start_addr (vec_get ?vec i) = Some k \<and> start_addr ?a < k" if "unat i < length sample_areas" for i
    using vec_get_rep [OF rep that] all that by simp
  have "unat (- 1 div 2 :: u32) = 2147483647" by (simp add: unat_div)
  then have "map_option start_addr (vec_get ?vec (- 1 div 2)) = None"
    by (simp add: vec_get_out sample_contract_def sample_areas_def)
  moreover have "unat (v_count ?vec - 1) < length sample_areas" by (simp add: sample_contract_def sample_areas_def)
  ultimately have "ordered_vector_find area_lt area_gt ?a ?vec = None"
    unfolding ordered_vector_find_def by (intro area_find.loop_wild [of "length sample_areas" ?vec ?a] k)
  then show "vm_contract_remove_area sample_contract ?a sample_proc = None"
    by (simp add: vm_contract_remove_area_def vm_area_is_removable_def area_at_def MMAP_PRIVATE_def MMAP_NON_REMOVE_def)
  let ?v = "area_at 0x4000 0x4000 MMAP_PRIVATE"
  let ?c = "sample_contract\<lparr>vc_areas := (vc_areas sample_contract)\<lparr>v_data := map Some (sample_areas[1 := ?v])\<rparr>\<rparr>"
  have e: "vm_contract_expand_area sample_contract (Some 1) 0xFFFFF000 sample_proc = Some (ERROR_OK, ?c, sample_proc)"
    unfolding sample_contract_def sample_areas_def area_at_def by code_simp
  have g: "vec_get (vc_areas ?c) 1 = Some ?v" by (simp add: vec_get_def sample_contract_def sample_areas_def)
  have n: "\<not> contract_ok ?c ys" for ys
  proof
    assume ok: "contract_ok ?c ys"
    then have r: "vec_rep (vc_areas ?c) ys" "\<forall>a \<in> set ys. start_addr a < end_addr a" "2 \<le> length ys" by (simp_all add: contract_ok_def)
    then have "ys ! 1 = ?v" using vec_get_rep [OF r(1), of 1] g by simp
    moreover have "ys ! 1 \<in> set ys" using r(3) by (intro nth_mem) simp
    ultimately show False using r(2) by (auto simp: area_at_def)
  qed
  show "\<exists>c' v. vm_contract_expand_area sample_contract (Some 1) 0xFFFFF000 sample_proc = Some (ERROR_OK, c', sample_proc) \<and>
     vec_get (vc_areas c') 1 = Some v \<and> \<not> vm_area_is_ok v \<and> (\<forall>ys. \<not> contract_ok c' ys)"
    using e g n by (intro exI [of _ ?c] exI [of _ ?v]) (simp add: vm_area_is_ok_def area_at_def)
qed

end
