(* ===== verification/Dl_List.thy ===== *)
theory Dl_List
  imports Prelude
begin

text \<open>
  The doubly linked list of \<^verbatim>\<open>dl_list.h\<close>, over an explicit store of nodes. The operations move nodes and
  never allocate. \<open>dl_rep\<close> relates a header and a store to the addresses of its nodes in order; every
  operation is shown to refine an operation on that sequence, to keep every node's data and to
  leave nodes outside the list alone.
\<close>

subsection \<open>Data\<close>

record 'a dl_node =
  dn_data :: 'a
  dn_next :: ptr
  dn_prev :: ptr

record dl_list =
  dl_head :: ptr
  dl_tail :: ptr
  dl_count :: u32

type_synonym 'a dl_store = "ptr \<Rightarrow> 'a dl_node option"

definition dn_set_next :: "ptr \<Rightarrow> ptr \<Rightarrow> 'a dl_store \<Rightarrow> 'a dl_store option" where
  "dn_set_next p v st = do { n \<leftarrow> st p; Some (st(p \<mapsto> n\<lparr>dn_next := v\<rparr>)) }"

definition dn_set_prev :: "ptr \<Rightarrow> ptr \<Rightarrow> 'a dl_store \<Rightarrow> 'a dl_store option" where
  "dn_set_prev p v st = do { n \<leftarrow> st p; Some (st(p \<mapsto> n\<lparr>dn_prev := v\<rparr>)) }"

subsection \<open>Operations\<close>

definition dl_list_init :: "dl_list \<Rightarrow> dl_list" where
  "dl_list_init l = l\<lparr>dl_count := 0, dl_head := 0, dl_tail := 0\<rparr>"

partial_function (option) dl_find_loop :: "'a dl_store \<Rightarrow> 'a \<Rightarrow> ptr \<Rightarrow> ptr option" where
  [code]: "dl_find_loop st item temp =
     (if temp = 0 then Some 0
      else do { n \<leftarrow> st temp; if dn_data n = item then Some temp else dl_find_loop st item (dn_next n) })"

definition dl_list_find_node :: "dl_list \<Rightarrow> 'a \<Rightarrow> 'a dl_store \<Rightarrow> ptr option" where
  "dl_list_find_node l item st = (if dl_count l = 0 then Some 0 else dl_find_loop st item (dl_head l))"

definition dl_list_remove_node :: "dl_list \<Rightarrow> ptr \<Rightarrow> 'a dl_store \<Rightarrow> (ptr \<times> dl_list \<times> 'a dl_store) option" where
  "dl_list_remove_node l node st =
     (if dl_count l = 0 then Some (0, l, st)
      else if dl_count l = 1 then do {
        let l = l\<lparr>dl_count := 0, dl_head := 0, dl_tail := 0\<rparr>;
        st \<leftarrow> dn_set_prev node 0 st;
        st \<leftarrow> dn_set_next node 0 st;
        Some (node, l, st)
      }
      else do {
        n \<leftarrow> st node;
        (l, st) \<leftarrow> (if node = dl_head l then do {
             let l = l\<lparr>dl_head := dn_next n\<rparr>;
             st \<leftarrow> dn_set_prev (dn_next n) 0 st;
             Some (l, st) }
           else if node = dl_tail l then do {
             let l = l\<lparr>dl_tail := dn_prev n\<rparr>;
             st \<leftarrow> dn_set_next (dn_prev n) 0 st;
             Some (l, st) }
           else do {
             st \<leftarrow> dn_set_next (dn_prev n) (dn_next n) st;
             n \<leftarrow> st node;
             st \<leftarrow> dn_set_prev (dn_next n) (dn_prev n) st;
             Some (l, st) });
        let l = l\<lparr>dl_count := dl_count l - 1\<rparr>;
        st \<leftarrow> dn_set_prev node 0 st;
        st \<leftarrow> dn_set_next node 0 st;
        Some (node, l, st)
      })"

definition dl_list_remove_front_node :: "dl_list \<Rightarrow> 'a dl_store \<Rightarrow> (ptr \<times> dl_list \<times> 'a dl_store) option" where
  "dl_list_remove_front_node l st =
     (if dl_count l = 0 then Some (0, l, st)
      else do {
        let temp = dl_head l;
        if dl_count l = 1 then do {
          let l = l\<lparr>dl_count := 0, dl_head := 0, dl_tail := 0\<rparr>;
          st \<leftarrow> dn_set_prev temp 0 st;
          st \<leftarrow> dn_set_next temp 0 st;
          Some (temp, l, st)
        }
        else do {
          h \<leftarrow> st (dl_head l);
          let l = l\<lparr>dl_head := dn_next h\<rparr>;
          st \<leftarrow> dn_set_prev (dl_head l) 0 st;
          let l = l\<lparr>dl_count := dl_count l - 1\<rparr>;
          if dl_count l = 0 then None
          else do {
            st \<leftarrow> dn_set_prev temp 0 st;
            st \<leftarrow> dn_set_next temp 0 st;
            Some (temp, l, st)
          }
        }
      })"

definition dl_list_insert_back_node :: "dl_list \<Rightarrow> ptr \<Rightarrow> 'a dl_store \<Rightarrow> (dl_list \<times> 'a dl_store) option" where
  "dl_list_insert_back_node l node st = do {
     st \<leftarrow> dn_set_next node 0 st;
     (l, st) \<leftarrow> (if dl_count l = 0 then do {
          let l = l\<lparr>dl_tail := node, dl_head := node\<rparr>;
          st \<leftarrow> dn_set_prev node 0 st;
          Some (l, st) }
        else do {
          st \<leftarrow> dn_set_next (dl_tail l) node st;
          st \<leftarrow> dn_set_prev node (dl_tail l) st;
          let l = l\<lparr>dl_tail := node\<rparr>;
          Some (l, st) });
     Some (l\<lparr>dl_count := dl_count l + 1\<rparr>, st)
   }"

definition dl_list_head_to_tail :: "dl_list \<Rightarrow> 'a dl_store \<Rightarrow> (dl_list \<times> 'a dl_store) option" where
  "dl_list_head_to_tail l st =
     (if dl_count l = 0 \<or> dl_count l = 1 then Some (l, st)
      else do {
        let temp_head = dl_head l;
        t \<leftarrow> st (dl_tail l);
        if dn_prev t = dl_head l then do {
          st \<leftarrow> dn_set_prev (dl_tail l) 0 st;
          let l = l\<lparr>dl_head := dl_tail l\<rparr>;
          st \<leftarrow> dn_set_next (dl_tail l) temp_head st;
          st \<leftarrow> dn_set_next temp_head 0 st;
          st \<leftarrow> dn_set_prev temp_head (dl_tail l) st;
          Some (l\<lparr>dl_tail := temp_head\<rparr>, st)
        }
        else do {
          h \<leftarrow> st (dl_head l);
          let l = l\<lparr>dl_head := dn_next h\<rparr>;
          st \<leftarrow> dn_set_prev (dl_head l) 0 st;
          st \<leftarrow> dn_set_next temp_head 0 st;
          st \<leftarrow> dn_set_prev temp_head (dl_tail l) st;
          st \<leftarrow> dn_set_next (dl_tail l) temp_head st;
          Some (l\<lparr>dl_tail := temp_head\<rparr>, st)
        }
      })"

definition dl_list_clear_ptrs :: "ptr \<Rightarrow> 'a dl_store \<Rightarrow> 'a dl_store option" where
  "dl_list_clear_ptrs node st =
     (if node = 0 then Some st else do { st \<leftarrow> dn_set_next node 0 st; dn_set_prev node 0 st })"

subsection \<open>The represented sequence\<close>

definition hd_or :: "ptr list \<Rightarrow> ptr \<Rightarrow> ptr" where
  "hd_or ps p = (case ps of [] \<Rightarrow> p | q # _ \<Rightarrow> q)"

definition last_or :: "ptr list \<Rightarrow> ptr \<Rightarrow> ptr" where
  "last_or ps p = (if ps = [] then p else last ps)"

lemma hd_or_simps [simp]: "hd_or [] p = p" "hd_or (q # ps) p = q" "hd_or (xs @ ys) p = hd_or xs (hd_or ys p)"
  by (simp_all add: hd_or_def split: list.split)

lemma last_or_simps [simp]: "last_or [] p = p" "last_or (q # ps) p = last_or ps q" "last_or (xs @ ys) p = last_or ys (last_or xs p)"
  by (simp_all add: last_or_def)

fun lseg :: "'a dl_store \<Rightarrow> ptr \<Rightarrow> ptr list \<Rightarrow> ptr \<Rightarrow> bool" where
  "lseg st pv [] nx = True"
| "lseg st pv (p # ps) nx = ((\<exists>n. st p = Some n \<and> dn_prev n = pv \<and> dn_next n = hd_or ps nx) \<and> lseg st p ps nx)"

lemma lseg_append [simp]: "lseg st pv (xs @ ys) nx \<longleftrightarrow> lseg st pv xs (hd_or ys nx) \<and> lseg st (last_or xs pv) ys nx"
  by (induction xs arbitrary: pv) auto

lemma lseg_frame: "(\<And>p. p \<in> set ps \<Longrightarrow> st' p = st p) \<Longrightarrow> lseg st' pv ps nx = lseg st pv ps nx"
  by (induction ps arbitrary: pv) auto

lemma lseg_upd [simp]: "p \<notin> set ps \<Longrightarrow> lseg (st(p := x)) pv ps nx = lseg st pv ps nx"
  by (rule lseg_frame) auto

lemma lseg_nodes: "lseg st pv ps nx \<Longrightarrow> p \<in> set ps \<Longrightarrow> st p \<noteq> None"
  by (induction ps arbitrary: pv) auto

definition dl_rep :: "'a dl_store \<Rightarrow> dl_list \<Rightarrow> ptr list \<Rightarrow> bool" where
  "dl_rep st l ps \<longleftrightarrow> distinct ps \<and> 0 \<notin> set ps \<and> lseg st 0 ps 0 \<and> dl_head l = hd_or ps 0 \<and> dl_tail l = last_or ps 0 \<and>
     unat (dl_count l) = length ps"

definition same_data :: "'a dl_store \<Rightarrow> 'a dl_store \<Rightarrow> bool" where
  "same_data st st' \<longleftrightarrow> (\<forall>p. map_option dn_data (st' p) = map_option dn_data (st p))"

lemma same_data_refl [simp]: "same_data st st"
  by (simp add: same_data_def)

lemma same_data_trans: "same_data st st' \<Longrightarrow> same_data st' st'' \<Longrightarrow> same_data st st''"
  by (simp add: same_data_def)

lemma dl_rep_frame: "dl_rep st l ps \<Longrightarrow> (\<And>p. p \<in> set ps \<Longrightarrow> st' p = st p) \<Longrightarrow> dl_rep st' l ps"
  using lseg_frame [of ps st' st] by (simp add: dl_rep_def)

lemma dl_list_init_rep: "dl_rep st (dl_list_init l) []"
  by (simp add: dl_rep_def dl_list_init_def)

lemma dl_count_cases:
  assumes "dl_rep st l ps"
  shows "dl_count l = 0 \<longleftrightarrow> ps = []" and "dl_count l = 1 \<longleftrightarrow> (\<exists>p. ps = [p])"
proof -
  have u: "unat (dl_count l) = length ps" using assms by (simp add: dl_rep_def)
  show "dl_count l = 0 \<longleftrightarrow> ps = []" using u unat_eq_0_iff [of "dl_count l"] by simp
  have "dl_count l = 1 \<longleftrightarrow> unat (dl_count l) = 1" by (simp add: word_unat_eq_iff)
  also have "\<dots> \<longleftrightarrow> (\<exists>p. ps = [p])" using u by (auto simp: length_Suc_conv)
  finally show "dl_count l = 1 \<longleftrightarrow> (\<exists>p. ps = [p])" .
qed

lemma dl_find_ok:
  assumes "lseg st pv ps 0" and "0 \<notin> set ps"
  shows "dl_find_loop st x (hd_or ps 0) = Some (hd_or (dropWhile (\<lambda>p. dn_data (the (st p)) \<noteq> x) ps) 0)"
  using assms
proof (induction ps arbitrary: pv)
  case Nil
  then show ?case by (simp add: dl_find_loop.simps)
next
  case (Cons p ps)
  then obtain n where "st p = Some n" "dn_next n = hd_or ps 0" "p \<noteq> 0" by auto
  then show ?case using Cons by (subst dl_find_loop.simps) auto
qed

lemma dl_list_find_node_ok:
  "dl_rep st l ps \<Longrightarrow> dl_list_find_node l x st = Some (hd_or (dropWhile (\<lambda>p. dn_data (the (st p)) \<noteq> x) ps) 0)"
  using dl_find_ok [of st 0 ps x] dl_count_cases(1) [of st l ps]
  by (auto simp: dl_list_find_node_def dl_rep_def)

lemma fresh_length:
  fixes ps :: "ptr list"
  assumes "distinct ps" and "p \<notin> set ps"
  shows "Suc (length ps) \<le> 2 ^ 32"
proof -
  have "card (set ps) \<le> card (UNIV - {p} :: ptr set)" using assms(2) by (intro card_mono) auto
  then show ?thesis using assms(1) by (simp add: distinct_card card_Diff_singleton card_word)
qed

lemma dl_insert_back_ok:
  assumes rep: "dl_rep st l ps" and p: "p \<notin> set ps" "p \<noteq> 0" "st p \<noteq> None"
  obtains l' st' where "dl_list_insert_back_node l p st = Some (l', st')" "dl_rep st' l' (ps @ [p])" "same_data st st'"
    "\<And>q. q \<notin> set ps \<Longrightarrow> q \<noteq> p \<Longrightarrow> st' q = st q"
proof -
  obtain n where n: "st p = Some n" using p(3) by blast
  have "Suc (length (0 # ps)) \<le> 2 ^ 32" using rep p by (intro fresh_length [of _ p]) (auto simp: dl_rep_def)
  then have len: "length ps < 2 ^ 32 - 1" by simp
  have cnt: "unat (dl_count l + 1) = Suc (length ps)"
    using rep len by (subst unat_suc_u32) (auto simp: dl_rep_def)
  show thesis
  proof (cases ps rule: rev_cases)
    case Nil
    let ?l = "l\<lparr>dl_tail := p, dl_head := p, dl_count := dl_count l + 1\<rparr>" and ?st = "st(p \<mapsto> n\<lparr>dn_next := 0, dn_prev := 0\<rparr>)"
    have "dl_list_insert_back_node l p st = Some (?l, ?st)"
      using n dl_count_cases(1) [OF rep] Nil by (simp add: dl_list_insert_back_node_def dn_set_next_def dn_set_prev_def)
    then show thesis
      by (rule that) (use Nil p n cnt in \<open>auto simp: dl_rep_def same_data_def\<close>)
  next
    case (snoc xs t)
    have c: "dl_count l \<noteq> 0" "dl_tail l = t" using dl_count_cases(1) [OF rep] snoc rep by (auto simp: dl_rep_def)
    obtain m where m: "st t = Some m" "dn_prev m = last_or xs 0" using rep snoc by (auto simp: dl_rep_def)
    have ne: "p \<noteq> t" "t \<notin> set xs" "p \<notin> set xs" "t \<noteq> 0" using p snoc rep by (auto simp: dl_rep_def)
    let ?l = "l\<lparr>dl_tail := p, dl_count := dl_count l + 1\<rparr>" and ?st = "st(t \<mapsto> m\<lparr>dn_next := p\<rparr>, p \<mapsto> n\<lparr>dn_next := 0, dn_prev := t\<rparr>)"
    have "dl_list_insert_back_node l p st = Some (?l, ?st)"
      using n m c ne by (simp add: dl_list_insert_back_node_def dn_set_next_def dn_set_prev_def fun_upd_twist)
    then show thesis
      by (rule that) (use snoc p n m ne cnt rep in \<open>auto simp: dl_rep_def same_data_def\<close>)
  qed
qed

lemma dl_remove_node_ok:
  assumes rep: "dl_rep st l (xs @ p # ys)"
  obtains l' st' where "dl_list_remove_node l p st = Some (p, l', st')" "dl_rep st' l' (xs @ ys)" "same_data st st'"
    "\<And>q. q \<notin> set (xs @ p # ys) \<Longrightarrow> st' q = st q"
proof -
  obtain n where n: "st p = Some n" "dn_prev n = last_or xs 0" "dn_next n = hd_or ys 0" using rep by (auto simp: dl_rep_def)
  have dis: "distinct (xs @ p # ys)" "0 \<notin> set (xs @ p # ys)" using rep by (simp_all add: dl_rep_def)
  have c0: "dl_count l \<noteq> 0" using dl_count_cases(1) [OF rep] by simp
  have cnt: "unat (dl_count l - 1) = length (xs @ ys)" using rep c0 by (simp add: dl_rep_def unat_pred_u32)
  consider (one) "xs = []" "ys = []" | (head) y zs where "xs = []" "ys = y # zs" | (tail) ws x where "xs = ws @ [x]" "ys = []"
    | (mid) ws x y zs where "xs = ws @ [x]" "ys = y # zs" by (cases xs rule: rev_cases; cases ys) auto
  then show thesis
  proof cases
    case one
    let ?l = "l\<lparr>dl_count := 0, dl_head := 0, dl_tail := 0\<rparr>" and ?st = "st(p \<mapsto> n\<lparr>dn_prev := 0, dn_next := 0\<rparr>)"
    have "dl_list_remove_node l p st = Some (p, ?l, ?st)"
      using n one c0 dl_count_cases(2) [OF rep] by (simp add: dl_list_remove_node_def dn_set_next_def dn_set_prev_def)
    then show thesis by (rule that) (use one n in \<open>auto simp: dl_rep_def same_data_def\<close>)
  next
    case head
    obtain m where m: "st y = Some m" "dn_next m = hd_or zs 0" using rep head by (auto simp: dl_rep_def)
    have ne: "p \<noteq> y" "p \<notin> set zs" "y \<notin> set zs" using dis head by auto
    have c1: "dl_count l \<noteq> 1" "dl_head l = p" using dl_count_cases(2) [OF rep] head rep by (auto simp: dl_rep_def)
    let ?l = "l\<lparr>dl_head := y, dl_count := dl_count l - 1\<rparr>"
    let ?st = "st(y \<mapsto> m\<lparr>dn_prev := 0\<rparr>, p \<mapsto> n\<lparr>dn_prev := 0, dn_next := 0\<rparr>)"
    have "dl_list_remove_node l p st = Some (p, ?l, ?st)"
      using n m head c0 c1 ne by (simp add: dl_list_remove_node_def dn_set_next_def dn_set_prev_def)
    then show thesis by (rule that) (use head n m ne cnt rep dis in \<open>auto simp: dl_rep_def same_data_def\<close>)
  next
    case tail
    obtain m where m: "st x = Some m" "dn_prev m = last_or ws 0" using rep tail by (auto simp: dl_rep_def)
    have ne: "p \<noteq> x" "p \<notin> set ws" "x \<notin> set ws" using dis tail by auto
    have h: "dl_head l = hd_or ws x" "dl_tail l = p" using rep tail by (simp_all add: dl_rep_def)
    then have c1: "dl_count l \<noteq> 1" "dl_head l \<noteq> p" "dl_tail l = p"
      using dl_count_cases(2) [OF rep] tail ne by (cases ws; auto)+
    let ?l = "l\<lparr>dl_tail := x, dl_count := dl_count l - 1\<rparr>"
    let ?st = "st(x \<mapsto> m\<lparr>dn_next := 0\<rparr>, p \<mapsto> n\<lparr>dn_prev := 0, dn_next := 0\<rparr>)"
    have "dl_list_remove_node l p st = Some (p, ?l, ?st)"
      using n m tail c0 c1 ne by (simp add: dl_list_remove_node_def dn_set_next_def dn_set_prev_def)
    then show thesis by (rule that) (use tail n m ne cnt rep dis in \<open>auto simp: dl_rep_def same_data_def\<close>)
  next
    case mid
    obtain m where m: "st x = Some m" "dn_prev m = last_or ws 0" using rep mid by (auto simp: dl_rep_def)
    obtain k where k: "st y = Some k" "dn_next k = hd_or zs 0" using rep mid by (auto simp: dl_rep_def)
    have ne: "p \<noteq> x" "p \<notin> set ws" "x \<notin> set ws" "p \<noteq> y" "x \<noteq> y" "p \<notin> set zs" "y \<notin> set zs" "x \<notin> set zs" "y \<notin> set ws"
      using dis mid by auto
    have h: "dl_head l = hd_or ws x" "dl_tail l = last_or zs y" using rep mid by (simp_all add: dl_rep_def)
    then have c1: "dl_count l \<noteq> 1" "dl_head l \<noteq> p" "dl_tail l \<noteq> p"
      using dl_count_cases(2) [OF rep] mid ne by (cases ws; cases zs rule: rev_cases; auto)+
    let ?l = "l\<lparr>dl_count := dl_count l - 1\<rparr>"
    let ?st = "st(x \<mapsto> m\<lparr>dn_next := y\<rparr>, y \<mapsto> k\<lparr>dn_prev := x\<rparr>, p \<mapsto> n\<lparr>dn_prev := 0, dn_next := 0\<rparr>)"
    have "dl_list_remove_node l p st = Some (p, ?l, ?st)"
      using n m k mid c0 c1 ne by (auto simp: dl_list_remove_node_def dn_set_next_def dn_set_prev_def)
    then show thesis by (rule that) (use mid n m k ne cnt rep dis in \<open>auto simp: dl_rep_def same_data_def\<close>)
  qed
qed

lemma dl_remove_front_ok:
  assumes rep: "dl_rep st l (p # ys)"
  obtains l' st' where "dl_list_remove_front_node l st = Some (p, l', st')" "dl_rep st' l' ys" "same_data st st'"
    "\<And>q. q \<notin> set (p # ys) \<Longrightarrow> st' q = st q"
proof -
  obtain n where n: "st p = Some n" "dn_next n = hd_or ys 0" using rep by (auto simp: dl_rep_def)
  have dis: "distinct (p # ys)" "0 \<notin> set (p # ys)" using rep by (simp_all add: dl_rep_def)
  have c0: "dl_count l \<noteq> 0" "dl_head l = p" using dl_count_cases(1) [OF rep] rep by (auto simp: dl_rep_def)
  have cnt: "unat (dl_count l - 1) = length ys" using rep c0 by (simp add: dl_rep_def unat_pred_u32)
  show thesis
  proof (cases ys)
    case Nil
    let ?l = "l\<lparr>dl_count := 0, dl_head := 0, dl_tail := 0\<rparr>" and ?st = "st(p \<mapsto> n\<lparr>dn_prev := 0, dn_next := 0\<rparr>)"
    have "dl_list_remove_front_node l st = Some (p, ?l, ?st)"
      using n Nil c0 dl_count_cases(2) [OF rep] by (simp add: dl_list_remove_front_node_def dn_set_next_def dn_set_prev_def)
    then show thesis by (rule that) (use Nil n in \<open>auto simp: dl_rep_def same_data_def\<close>)
  next
    case (Cons y zs)
    obtain m where m: "st y = Some m" "dn_next m = hd_or zs 0" using rep Cons by (auto simp: dl_rep_def)
    have ne: "p \<noteq> y" "p \<notin> set zs" "y \<notin> set zs" using dis Cons by auto
    have c1: "dl_count l \<noteq> 1" "dl_count l - 1 \<noteq> 0" using dl_count_cases(2) [OF rep] Cons by auto
    let ?l = "l\<lparr>dl_head := y, dl_count := dl_count l - 1\<rparr>"
    let ?st = "st(y \<mapsto> m\<lparr>dn_prev := 0\<rparr>, p \<mapsto> n\<lparr>dn_prev := 0, dn_next := 0\<rparr>)"
    have "dl_list_remove_front_node l st = Some (p, ?l, ?st)"
      using n m Cons c0 c1 ne by (simp add: dl_list_remove_front_node_def dn_set_next_def dn_set_prev_def)
    then show thesis by (rule that) (use Cons n m ne cnt rep dis in \<open>auto simp: dl_rep_def same_data_def\<close>)
  qed
qed

lemma dl_head_to_tail_ok:
  assumes rep: "dl_rep st l ps"
  obtains l' st' where "dl_list_head_to_tail l st = Some (l', st')" "dl_rep st' l' (rotate1 ps)" "same_data st st'"
    "\<And>q. q \<notin> set ps \<Longrightarrow> st' q = st q"
proof -
  note cc = dl_count_cases [OF rep]
  consider (short) "ps = [] \<or> (\<exists>p. ps = [p])" | (two) p t where "ps = [p, t]" | (more) p y zs t where "ps = p # y # zs @ [t]"
  proof (cases ps)
    case (Cons p qs)
    then show ?thesis using that
    proof (cases qs)
      case c2: (Cons y rs)
      then show ?thesis using that Cons by (cases rs rule: rev_cases) auto
    qed simp
  qed simp
  then show thesis
  proof cases
    case short
    then have "dl_list_head_to_tail l st = Some (l, st)" using cc by (auto simp: dl_list_head_to_tail_def)
    moreover have "rotate1 ps = ps" using short by auto
    ultimately show thesis using that [of l st] rep by simp
  next
    case two
    obtain n m where n: "st p = Some n" "st t = Some m" "dn_prev m = p" using rep two by (auto simp: dl_rep_def)
    have ne: "p \<noteq> t" "p \<noteq> 0" "t \<noteq> 0" using rep two by (auto simp: dl_rep_def)
    have hdr: "dl_head l = p" "dl_tail l = t" "dl_count l \<noteq> 0" "dl_count l \<noteq> 1" "unat (dl_count l) = 2"
      using rep two cc by (auto simp: dl_rep_def)
    let ?l = "l\<lparr>dl_head := t, dl_tail := p\<rparr>"
    let ?st = "st(t \<mapsto> m\<lparr>dn_prev := 0, dn_next := p\<rparr>, p \<mapsto> n\<lparr>dn_next := 0, dn_prev := t\<rparr>)"
    have "dl_list_head_to_tail l st = Some (?l, ?st)"
      using n hdr ne by (simp add: dl_list_head_to_tail_def dn_set_next_def dn_set_prev_def)
    then show thesis by (rule that) (use two n ne hdr in \<open>auto simp: dl_rep_def same_data_def\<close>)
  next
    case more
    obtain n where n: "st p = Some n" "dn_next n = y" using rep more by (auto simp: dl_rep_def)
    obtain k where k: "st y = Some k" "dn_next k = hd_or zs t" using rep more by (auto simp: dl_rep_def)
    obtain m where m: "st t = Some m" "dn_prev m = last_or zs y" using rep more by (auto simp: dl_rep_def)
    have ne: "p \<noteq> t" "p \<noteq> y" "y \<noteq> t" "p \<notin> set zs" "y \<notin> set zs" "t \<notin> set zs" "distinct zs" "0 \<notin> set zs" "p \<noteq> 0" "y \<noteq> 0" "t \<noteq> 0"
      using rep more by (auto simp: dl_rep_def)
    have pv: "dn_prev m \<noteq> p" using m(2) ne by (cases zs rule: rev_cases) auto
    have hdr: "dl_head l = p" "dl_tail l = t" "dl_count l \<noteq> 0" "dl_count l \<noteq> 1" "unat (dl_count l) = length ps"
      using rep more cc by (auto simp: dl_rep_def)
    have seg: "lseg st y zs t" using rep more by (simp add: dl_rep_def)
    let ?l = "l\<lparr>dl_head := y, dl_tail := p\<rparr>"
    let ?st = "st(y \<mapsto> k\<lparr>dn_prev := 0\<rparr>, p \<mapsto> n\<lparr>dn_next := 0, dn_prev := t\<rparr>, t \<mapsto> m\<lparr>dn_next := p\<rparr>)"
    have "dl_list_head_to_tail l st = Some (?l, ?st)"
      using n k m hdr ne pv by (simp add: dl_list_head_to_tail_def dn_set_next_def dn_set_prev_def)
    then show thesis by (rule that) (use more n m k ne hdr seg in \<open>auto simp: dl_rep_def same_data_def\<close>)
  qed
qed

end
