(* ===== verification/Scheduler.thy ===== *)
theory Scheduler
  imports Dl_List
begin

text \<open>
  The thread scheduler, thread_sched.cpp, with the semaphores and mutexes built on it. The threads
  and the list nodes live in stores; the ready queues are indexed by priority, 0 the highest. The
  context switch itself (saving and loading registers) is not part of the state: an operation that
  gives the processor away ends when the next thread has been chosen.
\<close>

subsection \<open>Data\<close>

datatype thread_state = THREAD_NONE | THREAD_SLEEP | THREAD_READY | THREAD_RUNNING | THREAD_BLOCK

record tcb =
  t_id :: u32
  t_state :: thread_state
  t_sleep_time :: u32
  t_base_priority :: u32
  t_plus_priority :: u32
  t_attribute :: u32
  t_parent :: ptr

record thread_sched =
  nodes :: "ptr dl_store"
  tcbs :: "ptr \<Rightarrow> tcb option"
  thread_queues :: "dl_list list"
  block_queue :: dl_list
  sleep_queue :: dl_list
  current_thread :: ptr
  in_critical_section :: u32
  frequency :: u32

definition NUMBER_PRIORITIES :: u32 where "NUMBER_PRIORITIES = 8"
definition HIGHEST_PRIORITY :: u32 where "HIGHEST_PRIORITY = 0"
definition THREAD_NONPREEMPT :: u32 where "THREAD_NONPREEMPT = 2"

definition thread_get_priority :: "tcb \<Rightarrow> u32" where
  "thread_get_priority t = t_base_priority t + t_plus_priority t"

definition thread_is_preemptible :: "tcb \<Rightarrow> bool" where
  "thread_is_preemptible t \<longleftrightarrow> t_attribute t AND THREAD_NONPREEMPT \<noteq> THREAD_NONPREEMPT"

definition thread_get_lower_priority :: "tcb \<Rightarrow> tcb \<Rightarrow> tcb" where
  "thread_get_lower_priority t1 t2 =
     (if sint (thread_get_priority t1) > sint (thread_get_priority t2) then t1 else t2)"

definition upd_tcb :: "ptr \<Rightarrow> (tcb \<Rightarrow> tcb) \<Rightarrow> 'a thread_sched_scheme \<Rightarrow> 'a thread_sched_scheme option" where
  "upd_tcb p f s = do { t \<leftarrow> tcbs s p; Some (s\<lparr>tcbs := (tcbs s)(p \<mapsto> f t)\<rparr>) }"

definition ready_index :: "ptr \<Rightarrow> 'a thread_sched_scheme \<Rightarrow> u32 option" where
  "ready_index thread s = do { t \<leftarrow> tcbs s thread; Some (thread_get_priority t) }"

definition READY_QUEUE :: "u32 \<Rightarrow> 'a thread_sched_scheme \<Rightarrow> dl_list option" where
  "READY_QUEUE x s = array_get (thread_queues s) x"

definition ready_insert_back :: "u32 \<Rightarrow> ptr \<Rightarrow> 'a thread_sched_scheme \<Rightarrow> 'a thread_sched_scheme option" where
  \<comment> \<open>\<^verbatim>\<open>dl_list_insert_back_node(&READY_QUEUE(i), node)\<close>; the next ones likewise.\<close>
  "ready_insert_back i node s = do {
     l \<leftarrow> READY_QUEUE i s;
     (l, st) \<leftarrow> dl_list_insert_back_node l node (nodes s);
     Some (s\<lparr>thread_queues := (thread_queues s)[unat i := l], nodes := st\<rparr>)
   }"

definition ready_remove_node :: "u32 \<Rightarrow> ptr \<Rightarrow> 'a thread_sched_scheme \<Rightarrow> 'a thread_sched_scheme option" where
  "ready_remove_node i node s = do {
     l \<leftarrow> READY_QUEUE i s;
     (_, l, st) \<leftarrow> dl_list_remove_node l node (nodes s);
     Some (s\<lparr>thread_queues := (thread_queues s)[unat i := l], nodes := st\<rparr>)
   }"

definition ready_remove_front :: "u32 \<Rightarrow> 'a thread_sched_scheme \<Rightarrow> 'a thread_sched_scheme option" where
  "ready_remove_front i s = do {
     l \<leftarrow> READY_QUEUE i s;
     (_, l, st) \<leftarrow> dl_list_remove_front_node l (nodes s);
     Some (s\<lparr>thread_queues := (thread_queues s)[unat i := l], nodes := st\<rparr>)
   }"

definition ready_head_to_tail :: "u32 \<Rightarrow> 'a thread_sched_scheme \<Rightarrow> 'a thread_sched_scheme option" where
  "ready_head_to_tail i s = do {
     l \<leftarrow> READY_QUEUE i s;
     (l, st) \<leftarrow> dl_list_head_to_tail l (nodes s);
     Some (s\<lparr>thread_queues := (thread_queues s)[unat i := l], nodes := st\<rparr>)
   }"

definition block_insert_back :: "ptr \<Rightarrow> 'a thread_sched_scheme \<Rightarrow> 'a thread_sched_scheme option" where
  "block_insert_back node s = do {
     (l, st) \<leftarrow> dl_list_insert_back_node (block_queue s) node (nodes s);
     Some (s\<lparr>block_queue := l, nodes := st\<rparr>)
   }"

definition sleep_insert_back :: "ptr \<Rightarrow> 'a thread_sched_scheme \<Rightarrow> 'a thread_sched_scheme option" where
  "sleep_insert_back node s = do {
     (l, st) \<leftarrow> dl_list_insert_back_node (sleep_queue s) node (nodes s);
     Some (s\<lparr>sleep_queue := l, nodes := st\<rparr>)
   }"

subsection \<open>Operations\<close>

definition init_thread_scheduler :: "'a thread_sched_scheme \<Rightarrow> 'a thread_sched_scheme" where
  "init_thread_scheduler s = s\<lparr>thread_queues := map dl_list_init (thread_queues s),
     block_queue := dl_list_init (block_queue s), sleep_queue := dl_list_init (sleep_queue s)\<rparr>"

primrec first_non_empty_loop :: "nat \<Rightarrow> u32 \<Rightarrow> 'a thread_sched_scheme \<Rightarrow> u32 option option" where
  \<comment> \<open>\<open>n\<close> iterations remain, \<open>i\<close> is the loop variable; the result is the index of the queue.\<close>
  "first_non_empty_loop 0 i s = Some None"
| "first_non_empty_loop (Suc n) i s = do {
     l \<leftarrow> READY_QUEUE i s;
     if dl_count l > 0 then Some (Some i) else first_non_empty_loop n (i + 1) s
   }"

definition sched_get_first_non_empty :: "'a thread_sched_scheme \<Rightarrow> u32 option option" where
  "sched_get_first_non_empty s = first_non_empty_loop (unat (NUMBER_PRIORITIES - HIGHEST_PRIORITY)) HIGHEST_PRIORITY s"

definition LIST_PEEK :: "u32 \<Rightarrow> 'a thread_sched_scheme \<Rightarrow> ptr option" where
  "LIST_PEEK i s = do { l \<leftarrow> READY_QUEUE i s; n \<leftarrow> nodes s (dl_head l); Some (dn_data n) }"

definition thread_get_current_node :: "'a thread_sched_scheme \<Rightarrow> ptr option" where
  "thread_get_current_node s = do {
     i \<leftarrow> ready_index (current_thread s) s;
     l \<leftarrow> READY_QUEUE i s;
     dl_list_find_node l (current_thread s) (nodes s)
   }"

definition thread_get_current :: "'a thread_sched_scheme \<Rightarrow> ptr" where
  "thread_get_current s = current_thread s"

definition process_get_current :: "'a thread_sched_scheme \<Rightarrow> ptr option" where
  "process_get_current s = do { t \<leftarrow> tcbs s (current_thread s); Some (t_parent t) }"

definition scheduler_thread_switch :: "'a thread_sched_scheme \<Rightarrow> 'a thread_sched_scheme option" where
  "scheduler_thread_switch s =
     (if in_critical_section s \<noteq> 0 then Some s
      else do {
        c \<leftarrow> tcbs s (current_thread s);
        s \<leftarrow> (if t_state c = THREAD_RUNNING then do {
               s \<leftarrow> upd_tcb (current_thread s) (\<lambda>t. t\<lparr>t_state := THREAD_READY\<rparr>) s;
               i \<leftarrow> ready_index (current_thread s) s;
               ready_head_to_tail i s }
             else Some s);
        q \<leftarrow> sched_get_first_non_empty s;
        i \<leftarrow> q;
        to_execute \<leftarrow> LIST_PEEK i s;
        e \<leftarrow> tcbs s to_execute;
        if t_state e \<noteq> THREAD_READY then None
        else do {
          s \<leftarrow> upd_tcb to_execute (\<lambda>t. t\<lparr>t_state := THREAD_RUNNING\<rparr>) s;
          Some (s\<lparr>current_thread := to_execute\<rparr>)
        }
      })"

definition scheduler_start :: "'a thread_sched_scheme \<Rightarrow> 'a thread_sched_scheme option" where
  "scheduler_start s = do {
     q \<leftarrow> sched_get_first_non_empty s;
     i \<leftarrow> q;
     c \<leftarrow> LIST_PEEK i s;
     let s = s\<lparr>current_thread := c\<rparr>;
     upd_tcb (current_thread s) (\<lambda>t. t\<lparr>t_state := THREAD_RUNNING\<rparr>) s
   }"

definition thread_insert :: "ptr \<Rightarrow> ptr \<Rightarrow> 'a thread_sched_scheme \<Rightarrow> (ptr \<times> 'a thread_sched_scheme) option" where
  \<comment> \<open>\<open>node\<close>: the address \<^verbatim>\<open>new\<close> returns.\<close>
  "thread_insert node thread s = do {
     s \<leftarrow> upd_tcb thread (\<lambda>t. t\<lparr>t_state := THREAD_READY\<rparr>) s;
     s \<leftarrow> (if node = 0 then None else Some (s\<lparr>nodes := (nodes s)(node \<mapsto> \<lparr>dn_data = thread, dn_next = 0, dn_prev = 0\<rparr>)\<rparr>));
     i \<leftarrow> ready_index thread s;
     s \<leftarrow> ready_insert_back i node s;
     Some (node, s)
   }"

definition thread_set_priority :: "ptr \<Rightarrow> u32 \<Rightarrow> 'a thread_sched_scheme \<Rightarrow> 'a thread_sched_scheme" where
  \<comment> \<open>The body is commented out.\<close>
  "thread_set_priority thread priority s = s"

partial_function (option) thread_find_in :: "u32 \<Rightarrow> ptr \<Rightarrow> 'a thread_sched_scheme \<Rightarrow> ptr option" where
  [code]: "thread_find_in i temp s =
     (if temp = 0 then Some 0
      else do {
        n \<leftarrow> nodes s temp;
        t \<leftarrow> tcbs s (dn_data n);
        if t_id t = i then Some temp else thread_find_in i (dn_next n) s
      })"

primrec thread_find_loop :: "nat \<Rightarrow> u32 \<Rightarrow> u32 \<Rightarrow> ptr \<Rightarrow> 'a thread_sched_scheme \<Rightarrow> ptr option" where
  \<comment> \<open>The \<^verbatim>\<open>break\<close> leaves the inner loop only, so \<^verbatim>\<open>temp\<close> is set again for every queue.\<close>
  "thread_find_loop 0 i tid temp s = Some temp"
| "thread_find_loop (Suc n) i tid temp s = do {
     l \<leftarrow> READY_QUEUE i s;
     temp \<leftarrow> thread_find_in tid (dl_head l) s;
     thread_find_loop n (i + 1) tid temp s
   }"

definition thread_find :: "u32 \<Rightarrow> 'a thread_sched_scheme \<Rightarrow> ptr option" where
  "thread_find tid s = do {
     temp \<leftarrow> thread_find_loop (unat (NUMBER_PRIORITIES - HIGHEST_PRIORITY)) HIGHEST_PRIORITY tid 0 s;
     if temp = 0 then Some 0 else do { n \<leftarrow> nodes s temp; Some (dn_data n) }
   }"

definition thread_current_yield :: "'a thread_sched_scheme \<Rightarrow> 'a thread_sched_scheme option" where
  "thread_current_yield s = scheduler_thread_switch s"

definition thread_block :: "ptr \<Rightarrow> 'a thread_sched_scheme \<Rightarrow> 'a thread_sched_scheme option" where
  "thread_block node s = do {
     n \<leftarrow> nodes s node;
     let thread = dn_data n;
     t \<leftarrow> tcbs s thread;
     if t_state t = THREAD_BLOCK then None
     else if t_state t \<noteq> THREAD_RUNNING \<and> t_state t \<noteq> THREAD_READY then None
     else if t_state t \<noteq> THREAD_RUNNING then do {
       s \<leftarrow> upd_tcb thread (\<lambda>t. t\<lparr>t_state := THREAD_BLOCK\<rparr>) s;
       i \<leftarrow> ready_index thread s;
       s \<leftarrow> ready_remove_node i node s;
       block_insert_back node s
     }
     else do {
       s \<leftarrow> upd_tcb thread (\<lambda>t. t\<lparr>t_state := THREAD_BLOCK\<rparr>) s;
       if thread = current_thread s then do {
         i \<leftarrow> ready_index thread s;
         s \<leftarrow> ready_remove_front i s;
         s \<leftarrow> block_insert_back node s;
         scheduler_thread_switch s
       }
       else None
     }
   }"

definition thread_sleep :: "ptr \<Rightarrow> u32 \<Rightarrow> 'a thread_sched_scheme \<Rightarrow> 'a thread_sched_scheme option" where
  "thread_sleep node sleep_time s = do {
     n \<leftarrow> nodes s node;
     let thread = dn_data n;
     t \<leftarrow> tcbs s thread;
     if t_state t = THREAD_SLEEP then None
     else if t_state t \<noteq> THREAD_RUNNING \<and> t_state t \<noteq> THREAD_READY then None
     else do {
       s \<leftarrow> upd_tcb thread (\<lambda>t. t\<lparr>t_sleep_time := sleep_time\<rparr>) s;
       if t_state t \<noteq> THREAD_RUNNING then do {
         s \<leftarrow> upd_tcb thread (\<lambda>t. t\<lparr>t_state := THREAD_SLEEP\<rparr>) s;
         i \<leftarrow> ready_index thread s;
         s \<leftarrow> ready_remove_node i node s;
         sleep_insert_back node s
       }
       else if thread = current_thread s then do {
         s \<leftarrow> upd_tcb thread (\<lambda>t. t\<lparr>t_state := THREAD_SLEEP\<rparr>) s;
         i \<leftarrow> ready_index thread s;
         s \<leftarrow> ready_remove_front i s;
         s \<leftarrow> sleep_insert_back node s;
         scheduler_thread_switch s
       }
       else None
     }
   }"

definition thread_notify :: "ptr \<Rightarrow> 'a thread_sched_scheme \<Rightarrow> 'a thread_sched_scheme option" where
  "thread_notify node s = do {
     n \<leftarrow> nodes s node;
     let thread = dn_data n;
     t \<leftarrow> tcbs s thread;
     if t_state t \<noteq> THREAD_BLOCK then Some s
     else do {
       (node', l, st) \<leftarrow> dl_list_remove_node (block_queue s) node (nodes s);
       let s = s\<lparr>block_queue := l, nodes := st\<rparr>;
       s \<leftarrow> upd_tcb thread (\<lambda>t. t\<lparr>t_state := THREAD_READY\<rparr>) s;
       i \<leftarrow> ready_index thread s;
       ready_insert_back i node' s
     }
   }"

partial_function (option) decrease_sleep_loop ::
  "u32 \<Rightarrow> ptr \<Rightarrow> ptr \<Rightarrow> 'a thread_sched_scheme \<Rightarrow> 'a thread_sched_scheme option" where
  [code]: "decrease_sleep_loop elapsed p prev s =
     (if p = 0 then Some s
      else do {
        n \<leftarrow> nodes s p;
        let thread = dn_data n;
        t \<leftarrow> tcbs s thread;
        if elapsed > t_sleep_time t then do {
          let p = dn_next n;
          (node, l, st) \<leftarrow> (if prev = 0 then dl_list_remove_front_node (sleep_queue s) (nodes s)
             else dl_list_remove_node (sleep_queue s) prev (nodes s));
          let s = s\<lparr>sleep_queue := l, nodes := st\<rparr>;
          s \<leftarrow> upd_tcb thread (\<lambda>t. t\<lparr>t_state := THREAD_READY, t_sleep_time := 0\<rparr>) s;
          i \<leftarrow> ready_index thread s;
          s \<leftarrow> ready_insert_back i node s;
          decrease_sleep_loop elapsed p prev s
        }
        else do {
          s \<leftarrow> upd_tcb thread (\<lambda>t. t\<lparr>t_sleep_time := t_sleep_time t - elapsed\<rparr>) s;
          decrease_sleep_loop elapsed (dn_next n) p s
        }
      })"

definition scheduler_decrease_sleep_time :: "'a thread_sched_scheme \<Rightarrow> 'a thread_sched_scheme option" where
  "scheduler_decrease_sleep_time s =
     (if frequency s = 0 then None
      else decrease_sleep_loop (1000 div frequency s) (dl_head (sleep_queue s)) 0 s)"

definition scheduler_interrupt :: "'a thread_sched_scheme \<Rightarrow> 'a thread_sched_scheme option" where
  \<comment> \<open>Without the tick counter, the register traffic and the address space switch.\<close>
  "scheduler_interrupt s =
     (if current_thread s = 0 then Some s
      else do { s \<leftarrow> scheduler_thread_switch s; scheduler_decrease_sleep_time s })"

subsection \<open>Semaphores and mutexes\<close>

record semaphore =
  sem_lock :: u32
  waiting_threads :: dl_list

definition semaphore_init :: "u32 \<Rightarrow> semaphore \<Rightarrow> semaphore" where
  "semaphore_init initial_value m = m\<lparr>sem_lock := initial_value, waiting_threads := dl_list_init (waiting_threads m)\<rparr>"

definition semaphore_wait :: "semaphore \<Rightarrow> 'a thread_sched_scheme \<Rightarrow> (semaphore \<times> 'a thread_sched_scheme) option" where
  "semaphore_wait m s = do {
     thread \<leftarrow> thread_get_current_node s;
     if sint (sem_lock m) \<le> 0 then do {
       n \<leftarrow> nodes s thread;
       s \<leftarrow> upd_tcb (dn_data n) (\<lambda>t. t\<lparr>t_state := THREAD_BLOCK\<rparr>) s;
       i \<leftarrow> ready_index (dn_data n) s;
       s \<leftarrow> ready_remove_node i thread s;
       (l, st) \<leftarrow> dl_list_insert_back_node (waiting_threads m) thread (nodes s);
       let m = m\<lparr>waiting_threads := l\<rparr>;
       s \<leftarrow> thread_current_yield (s\<lparr>nodes := st\<rparr>);
       Some (m, s)
     }
     else Some (m\<lparr>sem_lock := sem_lock m - 1\<rparr>, s)
   }"

definition semaphore_signal :: "semaphore \<Rightarrow> 'a thread_sched_scheme \<Rightarrow> (semaphore \<times> 'a thread_sched_scheme) option" where
  "semaphore_signal m s =
     (if dl_count (waiting_threads m) > 0 then do {
        (temp, l, st) \<leftarrow> dl_list_remove_front_node (waiting_threads m) (nodes s);
        let m = m\<lparr>waiting_threads := l\<rparr>;
        let s = s\<lparr>nodes := st\<rparr>;
        n \<leftarrow> nodes s temp;
        s \<leftarrow> upd_tcb (dn_data n) (\<lambda>t. t\<lparr>t_state := THREAD_READY\<rparr>) s;
        i \<leftarrow> ready_index (dn_data n) s;
        s \<leftarrow> ready_insert_back i temp s;
        Some (m, s)
      }
      else Some (m\<lparr>sem_lock := sem_lock m + 1\<rparr>, s))"

definition mutex_init :: "semaphore \<Rightarrow> semaphore" where
  "mutex_init m = semaphore_init 1 m"

definition mutex_acquire :: "semaphore \<Rightarrow> 'a thread_sched_scheme \<Rightarrow> (semaphore \<times> 'a thread_sched_scheme) option" where
  "mutex_acquire m s = semaphore_wait m s"

definition mutex_release :: "semaphore \<Rightarrow> 'a thread_sched_scheme \<Rightarrow> (semaphore \<times> 'a thread_sched_scheme) option" where
  "mutex_release m s = semaphore_signal m s"

subsection \<open>The invariant\<close>

text \<open>
  The ten queues are handled together: \<open>xs ! i\<close> lists the nodes of ready queue \<open>i\<close> for \<open>i < 8\<close>,
  \<open>xs ! 8\<close> those of the block queue, \<open>xs ! 9\<close> those of the sleep queue.
\<close>

definition hdrs :: "'a thread_sched_scheme \<Rightarrow> dl_list list" where
  "hdrs s = thread_queues s @ [block_queue s, sleep_queue s]"

definition thr :: "'a thread_sched_scheme \<Rightarrow> ptr \<Rightarrow> ptr" where
  "thr s p = dn_data (the (nodes s p))"

definition queues_ok :: "'a thread_sched_scheme \<Rightarrow> ptr list list \<Rightarrow> bool" where
  "queues_ok s xs \<longleftrightarrow> length (thread_queues s) = 8 \<and> length xs = 10 \<and>
     (\<forall>i < 10. dl_rep (nodes s) (hdrs s ! i) (xs ! i)) \<and>
     (\<forall>i < 10. \<forall>j < 10. i \<noteq> j \<longrightarrow> set (xs ! i) \<inter> set (xs ! j) = {})"

definition expected :: "nat \<Rightarrow> bool \<Rightarrow> thread_state" where
  "expected i running = (if i < 8 then (if running then THREAD_RUNNING else THREAD_READY)
     else if i = 8 then THREAD_BLOCK else THREAD_SLEEP)"

definition members :: "ptr list list \<Rightarrow> ptr set" where
  "members xs = (\<Union>i < 10. set (xs ! i))"

definition threads_ok :: "'a thread_sched_scheme \<Rightarrow> ptr option \<Rightarrow> ptr list list \<Rightarrow> bool" where
  \<comment> \<open>\<open>r\<close>: the running thread, if there is one.\<close>
  "threads_ok s r xs \<longleftrightarrow> inj_on (thr s) (members xs) \<and>
     (\<forall>i < 10. \<forall>p \<in> set (xs ! i). \<exists>t. tcbs s (thr s p) = Some t \<and> thread_get_priority t < 8 \<and>
        (i < 8 \<longrightarrow> unat (thread_get_priority t) = i) \<and> t_state t = expected i (r = Some (thr s p)))"

definition sched_ok :: "'a thread_sched_scheme \<Rightarrow> ptr list list \<Rightarrow> bool" where
  "sched_ok s xs \<longleftrightarrow> queues_ok s xs \<and> threads_ok s (Some (current_thread s)) xs \<and>
     (\<exists>i < 8. xs ! i \<noteq> [] \<and> thr s (hd (xs ! i)) = current_thread s)"

definition top_queue :: "ptr list list \<Rightarrow> nat" where
  "top_queue xs = length (takeWhile (\<lambda>q. q = []) (take 8 xs))"

lemma top_queue_ok:
  assumes "length xs = 10" and "k < 8" and "xs ! k \<noteq> []"
  shows "top_queue xs < 8" and "xs ! top_queue xs \<noteq> []" and "j < top_queue xs \<Longrightarrow> xs ! j = []"
proof -
  have "take 8 xs ! k \<in> set (take 8 xs)" using assms(1,2) by (intro nth_mem) simp
  then have "takeWhile (\<lambda>q. q = []) (take 8 xs) \<noteq> take 8 xs"
    using assms by (metis (mono_tags, lifting) nth_take takeWhile_eq_all_conv)
  then have l: "top_queue xs < length (take 8 xs)"
    unfolding top_queue_def by (metis length_takeWhile_le le_neq_implies_less takeWhile_eq_take take_all order_refl)
  then show "top_queue xs < 8" using assms(1) by simp
  then show "xs ! top_queue xs \<noteq> []"
    using nth_length_takeWhile [of "\<lambda>q. q = []" "take 8 xs"] l by (simp add: top_queue_def)
  show "xs ! j = []" if "j < top_queue xs"
    using takeWhile_nth [of j "\<lambda>q. q = []" "take 8 xs"] that \<open>top_queue xs < 8\<close> set_takeWhileD [of _ "\<lambda>q. q = []" "take 8 xs"]
    by (metis (mono_tags, lifting) dual_order.strict_trans nth_mem nth_take top_queue_def)
qed

subsection \<open>Moving nodes\<close>

definition only_moved :: "'a thread_sched_scheme \<Rightarrow> 'a thread_sched_scheme \<Rightarrow> bool" where
  \<comment> \<open>Nothing but the links of the queues differs.\<close>
  "only_moved s s' \<longleftrightarrow> same_data (nodes s) (nodes s') \<and> tcbs s' = tcbs s \<and> current_thread s' = current_thread s \<and>
     in_critical_section s' = in_critical_section s \<and> frequency s' = frequency s"

lemma same_data_thr: "same_data st st' \<Longrightarrow> st p \<noteq> None \<Longrightarrow> dn_data (the (st' p)) = dn_data (the (st p))"
  unfolding same_data_def by (metis option.exhaust_sel option.map_sel option.map_disc_iff)

lemma same_data_None: "same_data st st' \<Longrightarrow> st' p = None \<longleftrightarrow> st p = None"
  unfolding same_data_def by (metis option.map_disc_iff)

lemma queues_update:
  assumes "queues_ok s xs" and "i < 10" and h: "hdrs s' = (hdrs s)[i := l']" "length (thread_queues s') = 8"
    and rep: "dl_rep (nodes s') l' ps" and fr: "\<And>q. q \<notin> set (xs ! i) \<Longrightarrow> q \<notin> X \<Longrightarrow> nodes s' q = nodes s q"
    and sub: "set ps \<subseteq> set (xs ! i) \<union> X" and X: "\<And>j. j < 10 \<Longrightarrow> j \<noteq> i \<Longrightarrow> set (xs ! j) \<inter> X = {}"
  shows "queues_ok s' (xs[i := ps])"
proof -
  have q: "length (thread_queues s) = 8" "length xs = 10" "\<And>i. i < 10 \<Longrightarrow> dl_rep (nodes s) (hdrs s ! i) (xs ! i)"
    "\<And>i j. i < 10 \<Longrightarrow> j < 10 \<Longrightarrow> i \<noteq> j \<Longrightarrow> set (xs ! i) \<inter> set (xs ! j) = {}" using assms(1) by (simp_all add: queues_ok_def)
  have len: "length (hdrs s) = 10" using q(1) by (simp add: hdrs_def)
  have "dl_rep (nodes s') (hdrs s' ! j) (xs[i := ps] ! j)" if j: "j < 10" for j
  proof (cases "j = i")
    case True
    then show ?thesis using h(1) rep assms(2) len q(2) by simp
  next
    case False
    have "nodes s' p = nodes s p" if "p \<in> set (xs ! j)" for p
      using fr q(4) [OF j assms(2) False] X [OF j False] that by blast
    then show ?thesis using dl_rep_frame [OF q(3) [OF j], of "nodes s'"] False h(1) q(2) by simp
  qed
  moreover have "set (xs[i := ps] ! j) \<inter> set (xs[i := ps] ! k) = {}" if "j < 10" "k < 10" "j \<noteq> k" for j k
    using that q(2,4) X sub assms(2) by (cases "j = i"; cases "k = i") (auto, blast+)
  ultimately show ?thesis using h(2) q(2) by (simp add: queues_ok_def)
qed

lemma hdrs_ready: "length (thread_queues s) = 8 \<Longrightarrow> i < 8 \<Longrightarrow> hdrs (s\<lparr>thread_queues := (thread_queues s)[i := l], nodes := st\<rparr>) = (hdrs s)[i := l]"
  by (simp add: hdrs_def list_update_append)

lemma hdrs_block: "length (thread_queues s) = 8 \<Longrightarrow> hdrs (s\<lparr>block_queue := l, nodes := st\<rparr>) = (hdrs s)[8 := l]"
  by (simp add: hdrs_def list_update_append)

lemma hdrs_sleep: "length (thread_queues s) = 8 \<Longrightarrow> hdrs (s\<lparr>sleep_queue := l, nodes := st\<rparr>) = (hdrs s)[9 := l]"
  by (simp add: hdrs_def list_update_append)

lemma ready_rep:
  assumes "queues_ok s xs" and "unat i < 8"
  shows "READY_QUEUE i s = Some (thread_queues s ! unat i)" and "dl_rep (nodes s) (thread_queues s ! unat i) (xs ! unat i)"
    and "dl_rep (nodes s) (block_queue s) (xs ! 8)" and "dl_rep (nodes s) (sleep_queue s) (xs ! 9)"
proof -
  have q: "length (thread_queues s) = 8" "\<And>i. i < 10 \<Longrightarrow> dl_rep (nodes s) (hdrs s ! i) (xs ! i)"
    using assms(1) by (simp_all add: queues_ok_def)
  show "READY_QUEUE i s = Some (thread_queues s ! unat i)" using q(1) assms(2) by (simp add: READY_QUEUE_def)
  show "dl_rep (nodes s) (thread_queues s ! unat i) (xs ! unat i)"
    using q(2) [of "unat i"] q(1) assms(2) by (simp add: hdrs_def nth_append)
  show "dl_rep (nodes s) (block_queue s) (xs ! 8)" "dl_rep (nodes s) (sleep_queue s) (xs ! 9)"
    using q(2) [of 8] q(2) [of 9] q(1) by (simp_all add: hdrs_def nth_append)
qed

lemma members_mono: "i < 10 \<Longrightarrow> set (xs ! i) \<subseteq> members xs"
  by (auto simp: members_def)

lemma queues_members: "queues_ok s xs \<Longrightarrow> p \<in> members xs \<Longrightarrow> nodes s p \<noteq> None \<and> p \<noteq> 0"
  using lseg_nodes by (fastforce simp: members_def queues_ok_def dl_rep_def)

lemma ready_head_to_tail_ok:
  assumes q: "queues_ok s xs" and i: "unat i < 8"
  obtains s' where "ready_head_to_tail i s = Some s'" "queues_ok s' (xs[unat i := rotate1 (xs ! unat i)])" "only_moved s s'"
proof -
  note r = ready_rep [OF q i]
  obtain l st where l: "dl_list_head_to_tail (thread_queues s ! unat i) (nodes s) = Some (l, st)"
    "dl_rep st l (rotate1 (xs ! unat i))" "same_data (nodes s) st" "\<And>q. q \<notin> set (xs ! unat i) \<Longrightarrow> st q = nodes s q"
    by (rule dl_head_to_tail_ok [OF r(2)]) (rule that; assumption)
  let ?s = "s\<lparr>thread_queues := (thread_queues s)[unat i := l], nodes := st\<rparr>"
  have h: "length (thread_queues s) = 8" using q by (simp add: queues_ok_def)
  have "queues_ok ?s (xs[unat i := rotate1 (xs ! unat i)])"
    by (rule queues_update [where X = "{}", OF q _ hdrs_ready [OF h i]]) (use i h l in auto)
  moreover have "ready_head_to_tail i s = Some ?s" using r(1) l(1) by (simp add: ready_head_to_tail_def)
  ultimately show thesis using that l(3) by (simp add: only_moved_def)
qed

lemma ready_remove_node_ok:
  assumes q: "queues_ok s xs" and i: "unat i < 8" and x: "xs ! unat i = a @ p # b"
  obtains s' where "ready_remove_node i p s = Some s'" "queues_ok s' (xs[unat i := a @ b])" "only_moved s s'"
proof -
  note r = ready_rep [OF q i]
  obtain l st where l: "dl_list_remove_node (thread_queues s ! unat i) p (nodes s) = Some (p, l, st)"
    "dl_rep st l (a @ b)" "same_data (nodes s) st" "\<And>q. q \<notin> set (a @ p # b) \<Longrightarrow> st q = nodes s q"
    by (rule dl_remove_node_ok [OF r(2) [unfolded x]]) (rule that; assumption)
  let ?s = "s\<lparr>thread_queues := (thread_queues s)[unat i := l], nodes := st\<rparr>"
  have h: "length (thread_queues s) = 8" using q by (simp add: queues_ok_def)
  have "queues_ok ?s (xs[unat i := a @ b])"
    by (rule queues_update [where X = "{}", OF q _ hdrs_ready [OF h i]]) (use i h l x in auto)
  moreover have "ready_remove_node i p s = Some ?s" using r(1) l(1) by (simp add: ready_remove_node_def)
  ultimately show thesis using that l(3) by (simp add: only_moved_def)
qed

lemma ready_remove_front_ok:
  assumes q: "queues_ok s xs" and i: "unat i < 8" and x: "xs ! unat i = p # b"
  obtains s' where "ready_remove_front i s = Some s'" "queues_ok s' (xs[unat i := b])" "only_moved s s'"
proof -
  note r = ready_rep [OF q i]
  obtain l st where l: "dl_list_remove_front_node (thread_queues s ! unat i) (nodes s) = Some (p, l, st)"
    "dl_rep st l b" "same_data (nodes s) st" "\<And>q. q \<notin> set (p # b) \<Longrightarrow> st q = nodes s q"
    by (rule dl_remove_front_ok [OF r(2) [unfolded x]]) (rule that; assumption)
  let ?s = "s\<lparr>thread_queues := (thread_queues s)[unat i := l], nodes := st\<rparr>"
  have h: "length (thread_queues s) = 8" using q by (simp add: queues_ok_def)
  have "queues_ok ?s (xs[unat i := b])"
    by (rule queues_update [where X = "{}", OF q _ hdrs_ready [OF h i]]) (use i h l x in auto)
  moreover have "ready_remove_front i s = Some ?s" using r(1) l(1) by (simp add: ready_remove_front_def)
  ultimately show thesis using that l(3) by (simp add: only_moved_def)
qed

lemma ready_insert_back_ok:
  assumes q: "queues_ok s xs" and i: "unat i < 8" and p: "p \<notin> members xs" "p \<noteq> 0" "nodes s p \<noteq> None"
  obtains s' where "ready_insert_back i p s = Some s'" "queues_ok s' (xs[unat i := xs ! unat i @ [p]])" "only_moved s s'"
proof -
  note r = ready_rep [OF q i]
  have pn: "p \<notin> set (xs ! j)" if "j < 10" for j using p(1) that by (auto simp: members_def)
  have i10: "unat i < 10" using i by simp
  obtain l st where l: "dl_list_insert_back_node (thread_queues s ! unat i) p (nodes s) = Some (l, st)"
    "dl_rep st l (xs ! unat i @ [p])" "same_data (nodes s) st" "\<And>q. q \<notin> set (xs ! unat i) \<Longrightarrow> q \<noteq> p \<Longrightarrow> st q = nodes s q"
    by (rule dl_insert_back_ok [OF r(2) pn [OF i10] p(2,3)]) (rule that; assumption)
  let ?s = "s\<lparr>thread_queues := (thread_queues s)[unat i := l], nodes := st\<rparr>"
  have h: "length (thread_queues s) = 8" using q by (simp add: queues_ok_def)
  have "queues_ok ?s (xs[unat i := xs ! unat i @ [p]])"
    by (rule queues_update [where X = "{p}", OF q _ hdrs_ready [OF h i]]) (use i h l pn in auto)
  moreover have "ready_insert_back i p s = Some ?s" using r(1) l(1) by (simp add: ready_insert_back_def)
  ultimately show thesis using that l(3) by (simp add: only_moved_def)
qed

lemma block_insert_back_ok:
  assumes q: "queues_ok s xs" and p: "p \<notin> members xs" "p \<noteq> 0" "nodes s p \<noteq> None"
  obtains s' where "block_insert_back p s = Some s'" "queues_ok s' (xs[8 := xs ! 8 @ [p]])" "only_moved s s'"
proof -
  have r: "dl_rep (nodes s) (block_queue s) (xs ! 8)" using ready_rep(3) [OF q, of 0] by simp
  have pn: "p \<notin> set (xs ! j)" if "j < 10" for j using p(1) that by (auto simp: members_def)
  obtain l st where l: "dl_list_insert_back_node (block_queue s) p (nodes s) = Some (l, st)"
    "dl_rep st l (xs ! 8 @ [p])" "same_data (nodes s) st" "\<And>q. q \<notin> set (xs ! 8) \<Longrightarrow> q \<noteq> p \<Longrightarrow> st q = nodes s q"
    by (rule dl_insert_back_ok [OF r pn p(2,3)]) (simp, (rule that; assumption))
  let ?s = "s\<lparr>block_queue := l, nodes := st\<rparr>"
  have h: "length (thread_queues s) = 8" using q by (simp add: queues_ok_def)
  have "queues_ok ?s (xs[8 := xs ! 8 @ [p]])"
    by (rule queues_update [where X = "{p}", OF q _ hdrs_block [OF h]]) (use h l pn in auto)
  moreover have "block_insert_back p s = Some ?s" using l(1) by (simp add: block_insert_back_def)
  ultimately show thesis using that l(3) by (simp add: only_moved_def)
qed

lemma sleep_insert_back_ok:
  assumes q: "queues_ok s xs" and p: "p \<notin> members xs" "p \<noteq> 0" "nodes s p \<noteq> None"
  obtains s' where "sleep_insert_back p s = Some s'" "queues_ok s' (xs[9 := xs ! 9 @ [p]])" "only_moved s s'"
proof -
  have r: "dl_rep (nodes s) (sleep_queue s) (xs ! 9)" using ready_rep(4) [OF q, of 0] by simp
  have pn: "p \<notin> set (xs ! j)" if "j < 10" for j using p(1) that by (auto simp: members_def)
  obtain l st where l: "dl_list_insert_back_node (sleep_queue s) p (nodes s) = Some (l, st)"
    "dl_rep st l (xs ! 9 @ [p])" "same_data (nodes s) st" "\<And>q. q \<notin> set (xs ! 9) \<Longrightarrow> q \<noteq> p \<Longrightarrow> st q = nodes s q"
    by (rule dl_insert_back_ok [OF r pn p(2,3)]) (simp, (rule that; assumption))
  let ?s = "s\<lparr>sleep_queue := l, nodes := st\<rparr>"
  have h: "length (thread_queues s) = 8" using q by (simp add: queues_ok_def)
  have "queues_ok ?s (xs[9 := xs ! 9 @ [p]])"
    by (rule queues_update [where X = "{p}", OF q _ hdrs_sleep [OF h]]) (use h l pn in auto)
  moreover have "sleep_insert_back p s = Some ?s" using l(1) by (simp add: sleep_insert_back_def)
  ultimately show thesis using that l(3) by (simp add: only_moved_def)
qed

lemma block_remove_ok:
  assumes q: "queues_ok s xs" and x: "xs ! 8 = a @ p # b"
  obtains l st where "dl_list_remove_node (block_queue s) p (nodes s) = Some (p, l, st)"
    "queues_ok (s\<lparr>block_queue := l, nodes := st\<rparr>) (xs[8 := a @ b])" "same_data (nodes s) st"
proof -
  have r: "dl_rep (nodes s) (block_queue s) (a @ p # b)" using ready_rep(3) [OF q, of 0] x by simp
  obtain l st where l: "dl_list_remove_node (block_queue s) p (nodes s) = Some (p, l, st)"
    "dl_rep st l (a @ b)" "same_data (nodes s) st" "\<And>q. q \<notin> set (a @ p # b) \<Longrightarrow> st q = nodes s q"
    by (rule dl_remove_node_ok [OF r]) (rule that; assumption)
  have h: "length (thread_queues s) = 8" using q by (simp add: queues_ok_def)
  have "queues_ok (s\<lparr>block_queue := l, nodes := st\<rparr>) (xs[8 := a @ b])"
    by (rule queues_update [where X = "{}", OF q _ hdrs_block [OF h]]) (use h l x in auto)
  then show thesis using that l(1,3) by blast
qed

subsection \<open>Choosing a thread\<close>

lemma queue_distinct: "queues_ok s xs \<Longrightarrow> i < 10 \<Longrightarrow> distinct (xs ! i)"
  by (simp add: queues_ok_def dl_rep_def)

lemma only_moved_thr: "only_moved s s' \<Longrightarrow> nodes s p \<noteq> None \<Longrightarrow> thr s' p = thr s p"
  using same_data_thr by (fastforce simp: only_moved_def thr_def)

lemma only_moved_trans: "only_moved s s' \<Longrightarrow> only_moved s' s'' \<Longrightarrow> only_moved s s''"
  by (auto simp: only_moved_def intro: same_data_trans)

lemma first_non_empty_loop_ok:
  assumes "queues_ok s xs" and "unat i + n = 8"
  shows "first_non_empty_loop n i s = Some (case find (\<lambda>k. xs ! k \<noteq> []) [unat i..<8] of None \<Rightarrow> None | Some k \<Rightarrow> Some (of_nat k))"
  using assms(2)
proof (induction n arbitrary: i)
  case 0
  then show ?case by simp
next
  case (Suc n)
  then have i: "unat i < 8" by simp
  note r = ready_rep [OF assms(1) i]
  have "unat (i + 1) = Suc (unat i)" using i by (subst unat_suc_u32) simp_all
  moreover have "dl_count (thread_queues s ! unat i) > 0 \<longleftrightarrow> xs ! unat i \<noteq> []"
    using dl_count_cases(1) [OF r(2)] by (simp add: word_gt_0)
  moreover have "[unat i..<8] = unat i # [Suc (unat i)..<8]" using i by (rule upt_conv_Cons)
  ultimately show ?case using Suc r(1) by simp
qed

lemma find_top:
  assumes "length xs = 10" and "k < 8" and "xs ! k \<noteq> []"
  shows "find (\<lambda>k. xs ! k \<noteq> []) [0..<8] = Some (top_queue xs)"
  using top_queue_ok [OF assms] by (auto simp: find_Some_iff)

lemma get_first_non_empty_ok:
  assumes q: "queues_ok s xs" and k: "k < 8" "xs ! k \<noteq> []"
  shows "sched_get_first_non_empty s = Some (Some (of_nat (top_queue xs)))"
    and "LIST_PEEK (of_nat (top_queue xs)) s = Some (thr s (hd (xs ! top_queue xs)))"
proof -
  have len: "length xs = 10" using q by (simp add: queues_ok_def)
  note t = top_queue_ok [OF len k]
  show "sched_get_first_non_empty s = Some (Some (of_nat (top_queue xs)))"
    using first_non_empty_loop_ok [OF q, of 0 8] find_top [OF len k]
    by (simp add: sched_get_first_non_empty_def NUMBER_PRIORITIES_def HIGHEST_PRIORITY_def)
  have u: "unat (of_nat (top_queue xs) :: u32) = top_queue xs" using t(1) by (intro unat_of_nat_u32) simp
  note r = ready_rep [OF q, of "of_nat (top_queue xs)", unfolded u, OF t(1)]
  obtain p ps where p: "xs ! top_queue xs = p # ps" using t(2) by (cases "xs ! top_queue xs") auto
  then have "dl_head (thread_queues s ! top_queue xs) = p" "nodes s p \<noteq> None"
    using r(2) lseg_nodes [of "nodes s" 0 "p # ps" 0 p] by (auto simp: dl_rep_def)
  then show "LIST_PEEK (of_nat (top_queue xs)) s = Some (thr s (hd (xs ! top_queue xs)))"
    using r(1) p by (auto simp: LIST_PEEK_def thr_def)
qed

lemma threads_okD: "threads_ok s r xs \<Longrightarrow> i < 10 \<Longrightarrow> p \<in> set (xs ! i) \<Longrightarrow>
    \<exists>t. tcbs s (thr s p) = Some t \<and> thread_get_priority t < 8 \<and>
      (i < 8 \<longrightarrow> unat (thread_get_priority t) = i) \<and> t_state t = expected i (r = Some (thr s p))"
  by (simp add: threads_ok_def)

lemma threads_same: "threads_ok s r xs \<Longrightarrow> p \<in> members xs \<Longrightarrow> q \<in> members xs \<Longrightarrow> thr s p = thr s q \<Longrightarrow> p = q"
  by (auto simp: threads_ok_def dest: inj_onD)

lemma queue_unique: "queues_ok s xs \<Longrightarrow> i < 10 \<Longrightarrow> j < 10 \<Longrightarrow> p \<in> set (xs ! i) \<Longrightarrow> p \<in> set (xs ! j) \<Longrightarrow> i = j"
  unfolding queues_ok_def by blast

lemma dispatch_ok:
  assumes q: "queues_ok s xs" and t: "threads_ok s None xs" and k: "k < 8" "xs ! k \<noteq> []"
  defines "c \<equiv> thr s (hd (xs ! top_queue xs))"
  obtains e s' where "tcbs s c = Some e" "t_state e = THREAD_READY"
    "s' = s\<lparr>tcbs := (tcbs s)(c \<mapsto> e\<lparr>t_state := THREAD_RUNNING\<rparr>), current_thread := c\<rparr>" "sched_ok s' xs"
proof -
  have len: "length xs = 10" using q by (simp add: queues_ok_def)
  note tq = top_queue_ok [OF len k]
  let ?p = "hd (xs ! top_queue xs)"
  have pin: "?p \<in> set (xs ! top_queue xs)" "top_queue xs < 10" using tq(1,2) by auto
  obtain e where e: "tcbs s c = Some e" "thread_get_priority e < 8" "unat (thread_get_priority e) = top_queue xs"
    "t_state e = THREAD_READY"
    using threads_okD [OF t pin(2,1)] tq(1) by (auto simp: expected_def c_def)
  let ?s = "s\<lparr>tcbs := (tcbs s)(c \<mapsto> e\<lparr>t_state := THREAD_RUNNING\<rparr>), current_thread := c\<rparr>"
  have thr: "thr ?s = thr s" by (simp add: thr_def fun_eq_iff)
  have inj: "inj_on (thr s) (members xs)" using t by (simp add: threads_ok_def)
  have other: "i = top_queue xs" if "i < 10" "p \<in> set (xs ! i)" "thr s p = c" for i p
  proof -
    have "p = ?p" using inj_onD [OF inj, of p ?p] that members_mono pin by (auto simp: c_def)
    then show ?thesis using queue_unique [OF q that(1) pin(2)] that(2) pin(1) by simp
  qed
  have "threads_ok ?s (Some c) xs"
    unfolding threads_ok_def thr
  proof (intro conjI allI ballI impI)
    show "inj_on (thr s) (members xs)" by (rule inj)
    fix i p assume ip: "i < 10" "p \<in> set (xs ! i)"
    show "\<exists>t. tcbs ?s (thr s p) = Some t \<and> thread_get_priority t < 8 \<and> (i < 8 \<longrightarrow> unat (thread_get_priority t) = i) \<and>
        t_state t = expected i (Some c = Some (thr s p))"
    proof (cases "thr s p = c")
      case True
      then show ?thesis using other [OF ip True] e(2,3) tq(1) by (simp add: expected_def thread_get_priority_def)
    next
      case False
      then show ?thesis using t ip by (simp add: threads_ok_def expected_def)
    qed
  qed
  moreover have "queues_ok ?s xs" using q by (simp add: queues_ok_def hdrs_def)
  moreover have "thr ?s (hd (xs ! top_queue xs)) = current_thread ?s" by (simp add: thr_def c_def)
  moreover have "current_thread ?s = c" by simp
  ultimately have "sched_ok ?s xs" using tq(1,2) unfolding sched_ok_def by metis
  with e(1,4) show thesis by (intro that [of e ?s]) auto
qed

lemma sched_current:
  assumes "sched_ok s xs"
  obtains i p ps t where "i < 8" "xs ! i = p # ps" "thr s p = current_thread s" "tcbs s (current_thread s) = Some t"
    "unat (thread_get_priority t) = i" "t_state t = THREAD_RUNNING" "nodes s p \<noteq> None" "p \<noteq> 0"
proof -
  obtain i where i: "i < 8" "xs ! i \<noteq> []" "thr s (hd (xs ! i)) = current_thread s"
    and q: "queues_ok s xs" and t: "threads_ok s (Some (current_thread s)) xs" using assms by (auto simp: sched_ok_def)
  then obtain p ps where p: "xs ! i = p # ps" by (cases "xs ! i") auto
  have "p \<in> members xs" using i(1) p by (auto simp: members_def intro!: bexI [of _ i])
  then have n: "nodes s p \<noteq> None" "p \<noteq> 0" using queues_members [OF q] by auto
  obtain tt where "tcbs s (thr s p) = Some tt" "unat (thread_get_priority tt) = i" "t_state tt = THREAD_RUNNING"
    using threads_okD [OF t, of i p] i(1,3) p by (auto simp: expected_def)
  with i p n that show thesis by auto
qed

lemma thread_switch_ok:
  assumes ok: "sched_ok s xs" and crit: "in_critical_section s = 0"
  obtains s' i where "scheduler_thread_switch s = Some s'" "i < 8" "xs ! i \<noteq> []" "thr s (hd (xs ! i)) = current_thread s"
    "sched_ok s' (xs[i := rotate1 (xs ! i)])" "in_critical_section s' = 0"
    "current_thread s' = thr s (hd (xs[i := rotate1 (xs ! i)] ! top_queue (xs[i := rotate1 (xs ! i)])))"
    "\<And>p. p \<in> members xs \<Longrightarrow> thr s' p = thr s p" "frequency s' = frequency s"
proof -
  obtain i p ps t where c: "i < 8" "xs ! i = p # ps" "thr s p = current_thread s" "tcbs s (current_thread s) = Some t"
    "unat (thread_get_priority t) = i" "t_state t = THREAD_RUNNING" by (rule sched_current [OF ok]) (rule that; assumption)
  have q: "queues_ok s xs" and th: "threads_ok s (Some (current_thread s)) xs" using ok by (simp_all add: sched_ok_def)
  have len: "length xs = 10" using q by (simp add: queues_ok_def)
  let ?t = "t\<lparr>t_state := THREAD_READY\<rparr>" and ?ys = "xs[i := rotate1 (xs ! i)]"
  define s1 where "s1 = s\<lparr>tcbs := (tcbs s)(current_thread s \<mapsto> ?t)\<rparr>"
  have q1: "queues_ok s1 xs" using q by (simp add: queues_ok_def s1_def hdrs_def)
  have pr: "thread_get_priority ?t = thread_get_priority t" by (simp add: thread_get_priority_def)
  have i8: "unat (thread_get_priority t) < 8" using c(1,5) by simp
  obtain s2 where s2: "ready_head_to_tail (thread_get_priority t) s1 = Some s2" "queues_ok s2 ?ys" "only_moved s1 s2"
    using ready_head_to_tail_ok [OF q1 i8] c(5) by metis
  have mem: "members ?ys = members xs"
    using len c(1) by (auto simp: members_def nth_list_update split: if_splits)
  have setj: "set (?ys ! j) = set (xs ! j)" if "j < 10" for j using len c(1) that by (cases "j = i") auto
  have thr2: "thr s2 a = thr s a" if "a \<in> members xs" for a
    using only_moved_thr [OF s2(3), of a] queues_members [OF q that] by (simp add: s1_def thr_def)
  have tc2: "tcbs s2 = (tcbs s)(current_thread s \<mapsto> ?t)" using s2(3) by (simp add: only_moved_def s1_def)
  have "threads_ok s2 None ?ys"
    unfolding threads_ok_def mem
  proof (intro conjI allI ballI impI)
    show "inj_on (thr s2) (members xs)"
      using th inj_on_cong [of "members xs" "thr s2" "thr s"] thr2 by (simp add: threads_ok_def)
    fix j a assume j: "j < 10" "a \<in> set (?ys ! j)"
    then have a: "a \<in> set (xs ! j)" "a \<in> members xs" using setj members_mono by blast+
    show "\<exists>t. tcbs s2 (thr s2 a) = Some t \<and> thread_get_priority t < 8 \<and> (j < 8 \<longrightarrow> unat (thread_get_priority t) = j) \<and>
        t_state t = expected j (None = Some (thr s2 a))"
    proof (cases "thr s a = current_thread s")
      case True
      moreover have pm: "p \<in> set (xs ! i)" "i < 10" using c(1,2) by simp_all
      ultimately have "a = p" using threads_same [OF th a(2), of p] members_mono [OF pm(2)] c(3) by auto
      then have "j = i" using queue_unique [OF q j(1) pm(2)] a(1) pm(1) by simp
      then show ?thesis using True c(1,5) pr thr2 [OF a(2)] i8
        by (simp add: tc2 expected_def word_less_nat_alt)
    next
      case False
      obtain t' where "tcbs s (thr s a) = Some t'" "thread_get_priority t' < 8" "j < 8 \<longrightarrow> unat (thread_get_priority t') = j"
        "t_state t' = expected j (Some (current_thread s) = Some (thr s a))"
        using threads_okD [OF th j(1) a(1)] by blast
      then show ?thesis using False thr2 [OF a(2)] by (intro exI [of _ t']) (simp add: tc2 expected_def)
    qed
  qed
  moreover have k: "i < 8" "?ys ! i \<noteq> []" using c(1,2) len by simp_all
  ultimately obtain e s3 where e: "tcbs s2 (thr s2 (hd (?ys ! top_queue ?ys))) = Some e" "t_state e = THREAD_READY"
    "s3 = s2\<lparr>tcbs := (tcbs s2)(thr s2 (hd (?ys ! top_queue ?ys)) \<mapsto> e\<lparr>t_state := THREAD_RUNNING\<rparr>),
      current_thread := thr s2 (hd (?ys ! top_queue ?ys))\<rparr>" "sched_ok s3 ?ys"
    using dispatch_ok [OF s2(2)] by metis
  have cur: "current_thread s1 = current_thread s" "current_thread s2 = current_thread s"
    using s2(3) by (simp_all add: only_moved_def s1_def)
  note g = get_first_non_empty_ok [OF s2(2) k]
  have tc1: "tcbs s1 (current_thread s) = Some ?t" by (simp add: s1_def)
  have sw: "scheduler_thread_switch s = Some s3"
    using tc1 crit c(4,6) s2(1) g e(1,2,3) pr cur
    by (simp add: scheduler_thread_switch_def upd_tcb_def ready_index_def s1_def [symmetric])
  have m: "hd (?ys ! top_queue ?ys) \<in> members xs"
  proof -
    have "length ?ys = 10" using len by simp
    note tq = top_queue_ok [OF this k]
    then have "hd (?ys ! top_queue ?ys) \<in> set (?ys ! top_queue ?ys)" by simp
    then show ?thesis using members_mono [of "top_queue ?ys" ?ys] tq(1) mem by auto
  qed
  have h: "thr s (hd (xs ! i)) = current_thread s" "xs ! i \<noteq> []" using c(2,3) by simp_all
  have t3: "thr s3 a = thr s2 a" for a by (simp add: e(3) thr_def)
  have r: "in_critical_section s3 = 0" "frequency s3 = frequency s"
    "current_thread s3 = thr s (hd (?ys ! top_queue ?ys))"
    using s2(3) crit thr2 [OF m] by (simp_all add: only_moved_def e(3) s1_def)
  show thesis
    by (rule that [OF sw c(1) h(2,1) e(4) r(1,3) _ r(2)]) (simp add: t3 thr2)
qed

subsection \<open>Running in turn\<close>

primrec switch_n :: "nat \<Rightarrow> 'a thread_sched_scheme \<Rightarrow> 'a thread_sched_scheme option" where
  "switch_n 0 s = Some s"
| "switch_n (Suc n) s = do { s \<leftarrow> scheduler_thread_switch s; switch_n n s }"

lemma current_top:
  assumes ok: "sched_ok s xs" and i: "i < 8" "xs ! i \<noteq> []" "thr s (hd (xs ! i)) = current_thread s"
    and j: "j < 8" "xs ! j \<noteq> []" "thr s (hd (xs ! j)) = current_thread s"
  shows "i = j"
proof -
  have q: "queues_ok s xs" and t: "threads_ok s (Some (current_thread s)) xs" using ok by (simp_all add: sched_ok_def)
  have "hd (xs ! i) \<in> set (xs ! i)" "hd (xs ! j) \<in> set (xs ! j)" using i(2) j(2) by simp_all
  moreover have "hd (xs ! i) = hd (xs ! j)"
    using threads_same [OF t, of "hd (xs ! i)" "hd (xs ! j)"] calculation i(1,3) j(1,3) members_mono [of i xs] members_mono [of j xs] by auto
  ultimately show ?thesis using queue_unique [OF q, of i j "hd (xs ! i)"] i(1) j(1) by simp
qed

lemma round_robin:
  assumes "sched_ok s xs" and "in_critical_section s = 0" and "thr s (hd (xs ! top_queue xs)) = current_thread s"
    and "k < length (xs ! top_queue xs)"
  shows "\<exists>s'. switch_n k s = Some s' \<and> current_thread s' = thr s (xs ! top_queue xs ! k) \<and>
    sched_ok s' (xs[top_queue xs := rotate k (xs ! top_queue xs)])"
  using assms
proof (induction k arbitrary: s xs)
  case 0
  then have "xs ! top_queue xs \<noteq> []" by auto
  then show ?case using 0 by (simp add: hd_conv_nth)
next
  case (Suc k)
  have len: "length xs = 10" using Suc.prems(1) by (simp add: sched_ok_def queues_ok_def)
  obtain i0 where i0: "i0 < 8" "xs ! i0 \<noteq> []" using Suc.prems(1) by (auto simp: sched_ok_def)
  note tq = top_queue_ok [OF len i0]
  let ?i = "top_queue xs"
  let ?ys = "xs[?i := rotate1 (xs ! ?i)]"
  have ti: "top_queue ?ys = ?i"
  proof -
    have leny: "length ?ys = 10" "?ys ! ?i \<noteq> []" using len tq by simp_all
    note ty = top_queue_ok [OF leny(1) tq(1) leny(2)]
    have "\<not> top_queue ?ys < ?i" using tq(3) [of "top_queue ?ys"] ty(2) by auto
    moreover have "\<not> ?i < top_queue ?ys" using ty(3) [of ?i] leny(2) by auto
    ultimately show ?thesis by simp
  qed
  obtain s1 j where s1: "scheduler_thread_switch s = Some s1" "j < 8" "xs ! j \<noteq> []" "thr s (hd (xs ! j)) = current_thread s"
    "sched_ok s1 (xs[j := rotate1 (xs ! j)])" "in_critical_section s1 = 0"
    "current_thread s1 = thr s (hd (xs[j := rotate1 (xs ! j)] ! top_queue (xs[j := rotate1 (xs ! j)])))"
    "\<And>p. p \<in> members xs \<Longrightarrow> thr s1 p = thr s p"
    by (rule thread_switch_ok [OF Suc.prems(1,2)]) (rule that; assumption)
  have j: "j = ?i" using current_top [OF Suc.prems(1) s1(2,3,4) tq(1,2) Suc.prems(3)] .
  have row: "?ys ! ?i = rotate1 (xs ! ?i)" using tq(1) len by simp
  have inm: "p \<in> members xs" if "p \<in> set (xs ! ?i)" for p using that tq(1) members_mono [of ?i xs] by auto
  have "hd (?ys ! ?i) \<in> set (xs ! ?i)" using row tq(2) hd_in_set [of "rotate1 (xs ! ?i)"] by simp
  then have cur: "thr s1 (hd (?ys ! top_queue ?ys)) = current_thread s1" using s1(7,8) inm j ti by simp
  have kl: "k < length (?ys ! top_queue ?ys)" using Suc.prems(4) row ti by simp
  from Suc.IH [OF s1(5) [unfolded j] s1(6) cur kl] obtain s' where s': "switch_n k s1 = Some s'"
    "current_thread s' = thr s1 (?ys ! top_queue ?ys ! k)" "sched_ok s' (?ys[top_queue ?ys := rotate k (?ys ! top_queue ?ys)])" by blast
  have "rotate1 (xs ! ?i) ! k = xs ! ?i ! Suc k" using nth_rotate1 [of k "xs ! ?i"] Suc.prems(4) by simp
  moreover have "xs ! ?i ! Suc k \<in> set (xs ! ?i)" using Suc.prems(4) by simp
  ultimately have "current_thread s' = thr s (xs ! ?i ! Suc k)" using s'(2) ti row s1(8) inm by simp
  moreover have "sched_ok s' (xs[?i := rotate (Suc k) (xs ! ?i)])" using s'(3) ti row by (simp add: rotate1_rotate_swap)
  ultimately show ?case using s'(1) s1(1) by simp
qed

subsection \<open>Blocking and waking\<close>

lemma members_move:
  assumes "length xs = 10" and "i < 10" and "j < 10" and "i \<noteq> j" and "xs ! i = a @ p # b"
  shows "members (xs[i := a @ b, j := xs ! j @ [p]]) = members xs"
    and "k < 10 \<Longrightarrow> set (xs[i := a @ b, j := xs ! j @ [p]] ! k) =
      (if k = i then set a \<union> set b else if k = j then insert p (set (xs ! j)) else set (xs ! k))"
proof -
  show s: "set (xs[i := a @ b, j := xs ! j @ [p]] ! k) =
      (if k = i then set a \<union> set b else if k = j then insert p (set (xs ! j)) else set (xs ! k))" if "k < 10" for k
    using that assms by (cases "k = j"; cases "k = i") auto
  have "(\<Union>k<10. if k = i then set a \<union> set b else if k = j then insert p (set (xs ! j)) else set (xs ! k)) = (\<Union>k<10. set (xs ! k))"
    using assms by (auto split: if_splits)
  then show "members (xs[i := a @ b, j := xs ! j @ [p]]) = members xs" using s by (simp add: members_def)
qed

lemma threads_move:
  assumes q: "queues_ok s xs" and t: "threads_ok s r xs" and x: "xs ! i = a @ p # b" and ij: "i < 10" "j < 10" "i \<noteq> j"
    and thr: "\<And>k. k \<in> members xs \<Longrightarrow> thr s' k = thr s k"
    and tc: "tcbs s' = (tcbs s)(thr s p \<mapsto> e)" and e: "thread_get_priority e < 8" "j < 8 \<Longrightarrow> unat (thread_get_priority e) = j"
      "t_state e = expected j False"
    and r': "r' = (if r = Some (thr s p) then None else r)"
  shows "threads_ok s' r' (xs[i := a @ b, j := xs ! j @ [p]])"
proof -
  have len: "length xs = 10" using q by (simp add: queues_ok_def)
  note m = members_move [OF len ij x]
  have dist: "distinct (a @ p # b)" using queue_distinct [OF q ij(1)] x by simp
  have pm: "p \<in> members xs" using members_mono [OF ij(1), of xs] x by auto
  show ?thesis
    unfolding threads_ok_def m(1)
  proof (intro conjI allI ballI impI)
    show "inj_on (thr s') (members xs)"
      using t inj_on_cong [of "members xs" "thr s'" "thr s"] thr by (simp add: threads_ok_def)
    fix k c assume k: "k < 10" "c \<in> set (xs[i := a @ b, j := xs ! j @ [p]] ! k)"
    show "\<exists>t. tcbs s' (thr s' c) = Some t \<and> thread_get_priority t < 8 \<and> (k < 8 \<longrightarrow> unat (thread_get_priority t) = k) \<and>
        t_state t = expected k (r' = Some (thr s' c))"
    proof (cases "c = p")
      case True
      then have "k = j"
      proof -
        have "k = i \<Longrightarrow> p \<in> set a \<union> set b" "k \<noteq> i \<Longrightarrow> k \<noteq> j \<Longrightarrow> p \<in> set (xs ! k)" using k(2) True m(2) [OF k(1)] by auto
        then show ?thesis using dist queue_unique [OF q k(1) ij(1), of p] x by fastforce
      qed
      moreover have "(r' = Some (thr s p)) = False" using r' by auto
      ultimately show ?thesis using e True thr [OF pm] tc by simp
    next
      case False
      then have c: "c \<in> set (xs ! k)" using k(2) m(2) [OF k(1)] x by (auto split: if_splits)
      then have cm: "c \<in> members xs" using members_mono [OF k(1)] by auto
      have ne: "thr s c \<noteq> thr s p" using threads_same [OF t cm pm] False by auto
      obtain t' where "tcbs s (thr s c) = Some t'" "thread_get_priority t' < 8" "k < 8 \<longrightarrow> unat (thread_get_priority t') = k"
        "t_state t' = expected k (r = Some (thr s c))" using threads_okD [OF t k(1) c] by blast
      moreover have "(r' = Some (thr s c)) = (r = Some (thr s c))" using r' ne by auto
      ultimately show ?thesis using thr [OF cm] tc ne by (intro exI [of _ t']) simp
    qed
  qed
qed

lemma queues_tcbs: "queues_ok (s\<lparr>tcbs := f\<rparr>) xs = queues_ok s xs"
  by (simp add: queues_ok_def hdrs_def)

lemma removed_not_member:
  assumes "queues_ok s xs" and "i < 10" and "xs ! i = a @ p # b"
  shows "p \<notin> members (xs[i := a @ b])" and "p \<in> members xs"
proof -
  have len: "length xs = 10" using assms(1) by (simp add: queues_ok_def)
  have dist: "distinct (a @ p # b)" using queue_distinct [OF assms(1,2)] assms(3) by simp
  show "p \<in> members xs" using members_mono [OF assms(2), of xs] assms(3) by auto
  show "p \<notin> members (xs[i := a @ b])"
  proof
    assume "p \<in> members (xs[i := a @ b])"
    then obtain k where k: "k < 10" "p \<in> set (xs[i := a @ b] ! k)" by (auto simp: members_def)
    then have "k = i" using queue_unique [OF assms(1) k(1) assms(2), of p] assms(3) by (cases "k = i") auto
    then show False using k dist len by auto
  qed
qed

lemma block_ready_ok:
  assumes ok: "sched_ok s xs" and i: "i < 8" and x: "xs ! i = a @ p # b" and nc: "thr s p \<noteq> current_thread s"
  obtains s' where "thread_block p s = Some s'" "sched_ok s' (xs[i := a @ b, 8 := xs ! 8 @ [p]])"
    "current_thread s' = current_thread s" "\<And>k. k \<in> members xs \<Longrightarrow> thr s' k = thr s k"
    "in_critical_section s' = in_critical_section s"
    "\<exists>e. tcbs s (thr s p) = Some e \<and> unat (thread_get_priority e) = i \<and>
      tcbs s' = (tcbs s)(thr s p \<mapsto> e\<lparr>t_state := THREAD_BLOCK\<rparr>)"
proof -
  have q: "queues_ok s xs" and t: "threads_ok s (Some (current_thread s)) xs" using ok by (simp_all add: sched_ok_def)
  have len: "length xs = 10" using q by (simp add: queues_ok_def)
  have i10: "i < 10" using i by simp
  have pin: "p \<in> set (xs ! i)" using x by simp
  obtain e where e: "tcbs s (thr s p) = Some e" "thread_get_priority e < 8" "unat (thread_get_priority e) = i" "t_state e = THREAD_READY"
    using threads_okD [OF t i10 pin] i nc by (auto simp: expected_def)
  let ?e = "e\<lparr>t_state := THREAD_BLOCK\<rparr>"
  have pr: "thread_get_priority ?e = thread_get_priority e" by (simp add: thread_get_priority_def)
  define s1 where "s1 = s\<lparr>tcbs := (tcbs s)(thr s p \<mapsto> ?e)\<rparr>"
  have q1: "queues_ok s1 xs" using q by (simp add: s1_def queues_tcbs)
  have i8: "unat (thread_get_priority e) < 8" "xs ! unat (thread_get_priority e) = a @ p # b" using e(3) i x by simp_all
  obtain s2 where s2: "ready_remove_node (thread_get_priority e) p s1 = Some s2" "queues_ok s2 (xs[i := a @ b])" "only_moved s1 s2"
    using ready_remove_node_ok [OF q1 i8] e(3) by metis
  note nm = removed_not_member [OF q i10 x]
  have pn: "nodes s1 p \<noteq> None" "p \<noteq> 0" using queues_members [OF q1 nm(2)] by simp_all
  have pn2: "nodes s2 p \<noteq> None" using same_data_None [of "nodes s1" "nodes s2" p] s2(3) pn(1) by (auto simp: only_moved_def)
  have x8: "xs[i := a @ b] ! 8 = xs ! 8" using i by simp
  obtain s3 where s3: "block_insert_back p s2 = Some s3" "queues_ok s3 (xs[i := a @ b, 8 := xs ! 8 @ [p]])" "only_moved s2 s3"
    using block_insert_back_ok [OF s2(2) nm(1) pn(2) pn2] x8 by metis
  have om: "only_moved s1 s3" by (rule only_moved_trans [OF s2(3) s3(3)])
  have thr3: "thr s3 k = thr s k" if "k \<in> members xs" for k
    using only_moved_thr [OF om, of k] queues_members [OF q1 that] by (simp add: s1_def thr_def)
  have rest: "tcbs s3 = (tcbs s)(thr s p \<mapsto> ?e)" "current_thread s3 = current_thread s" "in_critical_section s3 = in_critical_section s"
    using om by (simp_all add: only_moved_def s1_def)
  have ne8: "(8 :: nat) < 10" "i \<noteq> 8" using i by simp_all
  have t3: "threads_ok s3 (Some (current_thread s)) (xs[i := a @ b, 8 := xs ! 8 @ [p]])"
    by (rule threads_move [OF q t x i10 ne8 thr3 rest(1)]) (use e(2) pr nc in \<open>simp_all add: expected_def\<close>)
  obtain k where k: "k < 8" "xs ! k \<noteq> []" "thr s (hd (xs ! k)) = current_thread s" using ok by (auto simp: sched_ok_def)
  have hk: "xs[i := a @ b, 8 := xs ! 8 @ [p]] ! k \<noteq> [] \<and> hd (xs[i := a @ b, 8 := xs ! 8 @ [p]] ! k) = hd (xs ! k)"
  proof (cases "k = i")
    case True
    then have "a \<noteq> []" using k(3) x nc by (cases a) auto
    then show ?thesis using True i x len by simp
  qed (use k(1,2) in simp)
  have "hd (xs ! k) \<in> members xs" using k(1,2) members_mono [of k xs] by auto
  then have "sched_ok s3 (xs[i := a @ b, 8 := xs ! 8 @ [p]])"
    unfolding sched_ok_def using s3(2) t3 rest(2) k hk thr3 by metis
  moreover have "thread_block p s = Some s3"
  proof -
    obtain n where n: "nodes s p = Some n" "dn_data n = thr s p" using pn(1) by (auto simp: s1_def thr_def)
    have "tcbs s1 (thr s p) = Some ?e" by (simp add: s1_def)
    then show ?thesis
      using n e(1,4) s2(1) s3(1) pr
      by (simp add: thread_block_def upd_tcb_def ready_index_def s1_def [symmetric])
  qed
  ultimately show thesis using that rest thr3 e(1,3) by blast
qed

lemma notify_ok:
  assumes ok: "sched_ok s xs" and x: "xs ! 8 = a @ p # b"
  obtains s' i where "thread_notify p s = Some s'" "i < 8" "sched_ok s' (xs[8 := a @ b, i := xs ! i @ [p]])"
    "current_thread s' = current_thread s" "\<And>k. k \<in> members xs \<Longrightarrow> thr s' k = thr s k"
    "\<exists>e. tcbs s (thr s p) = Some e \<and> unat (thread_get_priority e) = i"
proof -
  have q: "queues_ok s xs" and t: "threads_ok s (Some (current_thread s)) xs" using ok by (simp_all add: sched_ok_def)
  have len: "length xs = 10" using q by (simp add: queues_ok_def)
  have pin: "p \<in> set (xs ! 8)" using x by simp
  obtain e where e: "tcbs s (thr s p) = Some e" "thread_get_priority e < 8" "t_state e = THREAD_BLOCK"
    using threads_okD [OF t _ pin] by (auto simp: expected_def)
  let ?i = "unat (thread_get_priority e)" and ?e = "e\<lparr>t_state := THREAD_READY\<rparr>"
  have i: "?i < 8" using e(2) by (simp add: word_less_nat_alt)
  have pr: "thread_get_priority ?e = thread_get_priority e" by (simp add: thread_get_priority_def)
  note nm = removed_not_member [OF q _ x, simplified]
  have pn: "nodes s p \<noteq> None" "p \<noteq> 0" using queues_members [OF q nm(2)] by simp_all
  obtain n where n: "nodes s p = Some n" "dn_data n = thr s p" using pn(1) by (auto simp: thr_def)
  obtain l st where l: "dl_list_remove_node (block_queue s) p (nodes s) = Some (p, l, st)"
    "queues_ok (s\<lparr>block_queue := l, nodes := st\<rparr>) (xs[8 := a @ b])" "same_data (nodes s) st"
    by (rule block_remove_ok [OF q x]) (rule that; assumption)
  define s2 where "s2 = s\<lparr>block_queue := l, nodes := st, tcbs := (tcbs s)(thr s p \<mapsto> ?e)\<rparr>"
  have q2: "queues_ok s2 (xs[8 := a @ b])" using l(2) by (simp add: s2_def queues_ok_def hdrs_def)
  have pn2: "nodes s2 p \<noteq> None" using same_data_None [OF l(3)] pn(1) by (simp add: s2_def)
  have xi: "xs[8 := a @ b] ! ?i = xs ! ?i" using i by simp
  obtain s3 where s3: "ready_insert_back (thread_get_priority e) p s2 = Some s3"
    "queues_ok s3 (xs[8 := a @ b, ?i := xs ! ?i @ [p]])" "only_moved s2 s3"
    using ready_insert_back_ok [OF q2 i nm(1) pn(2) pn2] xi by metis
  have sd: "same_data (nodes s) (nodes s3)" using l(3) s3(3) by (auto simp: only_moved_def s2_def intro: same_data_trans)
  have thr3: "thr s3 k = thr s k" if "k \<in> members xs" for k
    using same_data_thr [OF sd, of k] queues_members [OF q that] by (simp add: thr_def)
  have rest: "tcbs s3 = (tcbs s)(thr s p \<mapsto> ?e)" "current_thread s3 = current_thread s"
    using s3(3) by (simp_all add: only_moved_def s2_def)
  have cur: "thr s p \<noteq> current_thread s"
  proof
    assume "thr s p = current_thread s"
    moreover obtain k where k: "k < 8" "xs ! k \<noteq> []" "thr s (hd (xs ! k)) = current_thread s" using ok by (auto simp: sched_ok_def)
    moreover have "hd (xs ! k) \<in> set (xs ! k)" using k(2) by simp
    moreover have "hd (xs ! k) \<in> members xs" using members_mono [of k xs] k(1,2) by auto
    ultimately have "p = hd (xs ! k)" using threads_same [OF t nm(2), of "hd (xs ! k)"] by simp
    then have "p \<in> set (xs ! k)" using k(2) by simp
    then show False using queue_unique [OF q _ _ pin, of k] k(1) by simp
  qed
  have ij: "(8 :: nat) < 10" "?i < 10" "8 \<noteq> ?i" using i by simp_all
  have t3: "threads_ok s3 (Some (current_thread s)) (xs[8 := a @ b, ?i := xs ! ?i @ [p]])"
    by (rule threads_move [OF q t x ij thr3 rest(1)]) (use e(2) pr cur i in \<open>simp_all add: expected_def\<close>)
  obtain k where k: "k < 8" "xs ! k \<noteq> []" "thr s (hd (xs ! k)) = current_thread s" using ok by (auto simp: sched_ok_def)
  have hk: "xs[8 := a @ b, ?i := xs ! ?i @ [p]] ! k \<noteq> [] \<and> hd (xs[8 := a @ b, ?i := xs ! ?i @ [p]] ! k) = hd (xs ! k)"
    using k(1,2) len by (cases "k = ?i") simp_all
  have "hd (xs ! k) \<in> members xs" using k(1,2) members_mono [of k xs] by auto
  then have "sched_ok s3 (xs[8 := a @ b, ?i := xs ! ?i @ [p]])"
    unfolding sched_ok_def using s3(2) t3 rest(2) k hk thr3 by metis
  moreover have "thread_notify p s = Some s3"
  proof -
    have "tcbs s2 (thr s p) = Some ?e" by (simp add: s2_def)
    then show ?thesis
      using n e(1,3) l(1) s3(1) pr
      by (simp add: thread_notify_def upd_tcb_def ready_index_def s2_def [symmetric])
  qed
  ultimately show thesis using that [of s3 ?i] i rest(2) thr3 e(1) by blast
qed

subsection \<open>Waking sleepers\<close>

lemma sleep_remove_ok:
  assumes q: "queues_ok s xs" and x: "xs ! 9 = a @ p # b"
  obtains l st where "dl_list_remove_node (sleep_queue s) p (nodes s) = Some (p, l, st)"
    "queues_ok (s\<lparr>sleep_queue := l, nodes := st\<rparr>) (xs[9 := a @ b])" "same_data (nodes s) st"
proof -
  have r: "dl_rep (nodes s) (sleep_queue s) (a @ p # b)" using ready_rep(4) [OF q, of 0] x by simp
  obtain l st where l: "dl_list_remove_node (sleep_queue s) p (nodes s) = Some (p, l, st)"
    "dl_rep st l (a @ b)" "same_data (nodes s) st" "\<And>q. q \<notin> set (a @ p # b) \<Longrightarrow> st q = nodes s q"
    by (rule dl_remove_node_ok [OF r]) (rule that; assumption)
  have h: "length (thread_queues s) = 8" using q by (simp add: queues_ok_def)
  have "queues_ok (s\<lparr>sleep_queue := l, nodes := st\<rparr>) (xs[9 := a @ b])"
    by (rule queues_update [where X = "{}", OF q _ hdrs_sleep [OF h]]) (use h l x in auto)
  then show thesis using that l(1,3) by blast
qed

lemma wrong_sleeper:
  assumes ok: "sched_ok s xs" and x: "xs ! 9 = [p, q]" and f: "frequency s \<noteq> 0"
    and tp: "tcbs s (thr s p) = Some tp" "\<not> 1000 div frequency s > t_sleep_time tp"
    and tq: "tcbs s (thr s q) = Some tq" "1000 div frequency s > t_sleep_time tq"
  obtains s' where "scheduler_decrease_sleep_time s = Some s'"
    "queues_ok s' (xs[9 := [q], unat (thread_get_priority tq) := xs ! unat (thread_get_priority tq) @ [p]])"
    "unat (thread_get_priority tq) < 8" "\<And>k. k \<in> members xs \<Longrightarrow> thr s' k = thr s k"
    "tcbs s' = (tcbs s)(thr s p \<mapsto> tp\<lparr>t_sleep_time := t_sleep_time tp - 1000 div frequency s\<rparr>,
       thr s q \<mapsto> tq\<lparr>t_state := THREAD_READY, t_sleep_time := 0\<rparr>)"
    "current_thread s' = current_thread s" "in_critical_section s' = in_critical_section s"
proof -
  have qo: "queues_ok s xs" and t: "threads_ok s (Some (current_thread s)) xs" using ok by (simp_all add: sched_ok_def)
  have pq: "p \<in> set (xs ! 9)" "q \<in> set (xs ! 9)" "p \<noteq> q" using x queue_distinct [OF qo, of 9] by simp_all
  have mem: "p \<in> members xs" "q \<in> members xs" using members_mono [of 9 xs] pq by auto
  have ne: "thr s p \<noteq> thr s q" using threads_same [OF t mem] pq(3) by blast
  have i8: "unat (thread_get_priority tq) < 8"
    using threads_okD [OF t _ pq(2)] tq(1) by (auto simp: word_less_nat_alt)
  let ?i = "unat (thread_get_priority tq)" and ?el = "1000 div frequency s"
  have rep: "dl_rep (nodes s) (sleep_queue s) [p, q]" using ready_rep(4) [OF qo, of 0] x by simp
  obtain np nq where n: "nodes s p = Some np" "dn_next np = q" "nodes s q = Some nq" "dn_next nq = 0" "dl_head (sleep_queue s) = p"
    "p \<noteq> 0" "q \<noteq> 0" using rep by (auto simp: dl_rep_def)
  have d: "dn_data np = thr s p" "dn_data nq = thr s q" using n by (simp_all add: thr_def)
  let ?tp = "tp\<lparr>t_sleep_time := t_sleep_time tp - ?el\<rparr>" and ?tq = "tq\<lparr>t_state := THREAD_READY, t_sleep_time := 0\<rparr>"
  define s1 where "s1 = s\<lparr>tcbs := (tcbs s)(thr s p \<mapsto> ?tp)\<rparr>"
  have q1: "queues_ok s1 xs" using qo by (simp add: s1_def queues_tcbs)
  have x1: "xs ! 9 = [] @ p # [q]" using x by simp
  obtain l st where l: "dl_list_remove_node (sleep_queue s1) p (nodes s1) = Some (p, l, st)"
    "queues_ok (s1\<lparr>sleep_queue := l, nodes := st\<rparr>) (xs[9 := [] @ [q]])" "same_data (nodes s1) st"
    by (rule sleep_remove_ok [OF q1 x1]) (rule that; assumption)
  define s2 where "s2 = s1\<lparr>sleep_queue := l, nodes := st, tcbs := (tcbs s1)(thr s q \<mapsto> ?tq)\<rparr>"
  have q2: "queues_ok s2 (xs[9 := [q]])" using l(2) by (simp add: s2_def queues_ok_def hdrs_def)
  have nm: "p \<notin> members (xs[9 := [q]])" using removed_not_member(1) [OF q1 _ x1] by simp
  have pn2: "nodes s2 p \<noteq> None" using same_data_None [OF l(3)] n(1) by (simp add: s2_def s1_def)
  have xi: "xs[9 := [q]] ! ?i = xs ! ?i" using i8 by simp
  obtain s3 where s3: "ready_insert_back (thread_get_priority tq) p s2 = Some s3"
    "queues_ok s3 (xs[9 := [q], ?i := xs ! ?i @ [p]])" "only_moved s2 s3"
    using ready_insert_back_ok [OF q2 i8 nm n(6) pn2] xi by metis
  have sd: "same_data (nodes s) (nodes s3)" using l(3) s3(3) by (auto simp: only_moved_def s2_def s1_def intro: same_data_trans)
  have thr3: "thr s3 k = thr s k" if "k \<in> members xs" for k
    using same_data_thr [OF sd, of k] queues_members [OF qo that] by (simp add: thr_def)
  have rest: "tcbs s3 = (tcbs s)(thr s p \<mapsto> ?tp, thr s q \<mapsto> ?tq)" "current_thread s3 = current_thread s"
    "in_critical_section s3 = in_critical_section s"
    using s3(3) by (simp_all add: only_moved_def s2_def s1_def)
  have "thread_get_priority ?tq = thread_get_priority tq" by (simp add: thread_get_priority_def)
  then have step2: "decrease_sleep_loop ?el q p s1 = Some s3"
    using n d tq ne l(1) s3(1)
    by (subst decrease_sleep_loop.simps)
      (simp add: upd_tcb_def ready_index_def s1_def s2_def decrease_sleep_loop.simps [of _ 0])
  have "decrease_sleep_loop ?el p 0 s = decrease_sleep_loop ?el q p s1"
    using n d tp by (subst decrease_sleep_loop.simps) (simp add: upd_tcb_def s1_def)
  then have "scheduler_decrease_sleep_time s = Some s3"
    using f n(5) step2 by (simp add: scheduler_decrease_sleep_time_def)
  then show thesis using that s3(2) i8 thr3 rest by blast
qed

subsection \<open>Properties\<close>

definition sample_tcb :: "u32 \<Rightarrow> thread_state \<Rightarrow> u32 \<Rightarrow> u32 \<Rightarrow> tcb" where
  "sample_tcb i st sl pr = \<lparr>t_id = i, t_state = st, t_sleep_time = sl, t_base_priority = pr, t_plus_priority = 0,
     t_attribute = 1, t_parent = 0\<rparr>"

definition sample_lists :: "ptr list list" where
  "sample_lists = [[], [0x10, 0x20], [], [], [], [], [], [], [0x50], [0x30, 0x40]]"

definition empty_list :: dl_list where
  "empty_list = \<lparr>dl_head = 0, dl_tail = 0, dl_count = 0\<rparr>"

definition sample_sched :: thread_sched where
  \<comment> \<open>Threads 1 (running) and 2 in ready queue 1, 3 and 4 asleep, 5 blocked.\<close>
  "sample_sched = \<lparr>
     nodes = [0x10 \<mapsto> \<lparr>dn_data = 0x100, dn_next = 0x20, dn_prev = 0\<rparr>, 0x20 \<mapsto> \<lparr>dn_data = 0x200, dn_next = 0, dn_prev = 0x10\<rparr>,
       0x30 \<mapsto> \<lparr>dn_data = 0x300, dn_next = 0x40, dn_prev = 0\<rparr>, 0x40 \<mapsto> \<lparr>dn_data = 0x400, dn_next = 0, dn_prev = 0x30\<rparr>,
       0x50 \<mapsto> \<lparr>dn_data = 0x500, dn_next = 0, dn_prev = 0\<rparr>],
     tcbs = [0x100 \<mapsto> sample_tcb 1 THREAD_RUNNING 0 1, 0x200 \<mapsto> sample_tcb 2 THREAD_READY 0 1,
       0x300 \<mapsto> sample_tcb 3 THREAD_SLEEP 100 0, 0x400 \<mapsto> sample_tcb 4 THREAD_SLEEP 1 0, 0x500 \<mapsto> sample_tcb 5 THREAD_BLOCK 0 1],
     thread_queues = [empty_list, \<lparr>dl_head = 0x10, dl_tail = 0x20, dl_count = 2\<rparr>, empty_list, empty_list, empty_list, empty_list,
       empty_list, empty_list],
     block_queue = \<lparr>dl_head = 0x50, dl_tail = 0x50, dl_count = 1\<rparr>,
     sleep_queue = \<lparr>dl_head = 0x30, dl_tail = 0x40, dl_count = 2\<rparr>,
     current_thread = 0x100, in_critical_section = 0, frequency = 100\<rparr>"

lemma all_lt_10: "(\<forall>i < 10. P i) \<longleftrightarrow> P 0 \<and> P 1 \<and> P 2 \<and> P 3 \<and> P 4 \<and> P 5 \<and> P 6 \<and> P 7 \<and> P 8 \<and> P (9 :: nat)"
proof -
  have "{..< 10 :: nat} = set [0, 1, 2, 3, 4, 5, 6, 7, 8, 9]"
    by (simp add: lessThan_nat_numeral lessThan_Suc insert_commute)
  then have "(\<forall>i < 10. P i) \<longleftrightarrow> (\<forall>i \<in> set [0, 1, 2, 3, 4, 5, 6, 7, 8, 9]. P i)"
    unfolding lessThan_def by (metis (mono_tags, lifting) mem_Collect_eq)
  then show ?thesis unfolding list.set ball_simps by simp
qed

lemma members_sample: "members sample_lists = {0x10, 0x20, 0x30, 0x40, 0x50}"
proof -
  have l: "length sample_lists = 10" by (simp add: sample_lists_def)
  have "members sample_lists = \<Union> (set ` set sample_lists)"
    unfolding members_def l [symmetric] set_conv_nth [of sample_lists] by blast
  then show ?thesis by (auto simp: sample_lists_def)
qed

lemma sample_sched_ok: "sched_ok sample_sched sample_lists"
proof -
  have "queues_ok sample_sched sample_lists"
    unfolding queues_ok_def all_lt_10
    by (simp add: sample_sched_def sample_lists_def hdrs_def dl_rep_def empty_list_def)
  moreover have "inj_on (thr sample_sched) {0x10, 0x20, 0x30, 0x40, 0x50}"
    by (auto simp: inj_on_def thr_def sample_sched_def)
  then have "threads_ok sample_sched (Some (current_thread sample_sched)) sample_lists"
    unfolding threads_ok_def all_lt_10 members_sample
    by (simp add: sample_lists_def thr_def expected_def)
      (simp add: sample_sched_def sample_tcb_def thread_get_priority_def)
  moreover have "sample_lists ! 1 \<noteq> [] \<and> thr sample_sched (hd (sample_lists ! 1)) = current_thread sample_sched"
    by (simp add: sample_lists_def thr_def sample_sched_def)
  ultimately show ?thesis unfolding sched_ok_def by (intro conjI exI [of _ 1]) simp_all
qed

text \<open>
  C11. A scheduling point outside a critical section: the running thread goes to the back of its ready
  queue and becomes ready, the thread at the front of the first non-empty queue runs, and the
  queues, states and priorities stay consistent.
\<close>

theorem switch_runs_highest:
  assumes "sched_ok s xs" and "in_critical_section s = 0"
  shows "\<exists>s' i. scheduler_thread_switch s = Some s' \<and> i < 8 \<and> thr s (hd (xs ! i)) = current_thread s \<and>
    (let ys = xs[i := rotate1 (xs ! i)] in sched_ok s' ys \<and> current_thread s' = thr s (hd (ys ! top_queue ys)) \<and>
       (\<forall>j < top_queue ys. ys ! j = []))"
proof -
  obtain s' i where s': "scheduler_thread_switch s = Some s'" "i < 8" "xs ! i \<noteq> []" "thr s (hd (xs ! i)) = current_thread s"
    "sched_ok s' (xs[i := rotate1 (xs ! i)])"
    "current_thread s' = thr s (hd (xs[i := rotate1 (xs ! i)] ! top_queue (xs[i := rotate1 (xs ! i)])))"
    by (rule thread_switch_ok [OF assms]) (rule that; assumption)
  have len: "length (xs[i := rotate1 (xs ! i)]) = 10" using s'(5) by (simp add: sched_ok_def queues_ok_def)
  have "xs[i := rotate1 (xs ! i)] ! i \<noteq> []" using s'(2,3) len by simp
  then have "\<forall>j < top_queue (xs[i := rotate1 (xs ! i)]). xs[i := rotate1 (xs ! i)] ! j = []"
    using top_queue_ok(3) [OF len s'(2)] by blast
  then show ?thesis using s' unfolding Let_def by blast
qed

lemma switch_runs_highest_witness:
  "\<exists>s' ys. scheduler_thread_switch sample_sched = Some s' \<and> sched_ok s' ys"
proof -
  have "in_critical_section sample_sched = 0" by (simp add: sample_sched_def)
  from switch_runs_highest [OF sample_sched_ok this] show ?thesis unfolding Let_def by blast
qed

text \<open>
  C12. Every thread of the highest occupied priority gets the processor in turn: if the running
  thread is of that priority and nothing else happens, the \<open>k\<close>-th thread of its queue runs
  after \<open>k\<close> switches.
\<close>

theorem round_robin_liveness:
  assumes "sched_ok s xs" and "in_critical_section s = 0" and "thr s (hd (xs ! top_queue xs)) = current_thread s"
    and "k < length (xs ! top_queue xs)"
  shows "\<exists>s'. switch_n k s = Some s' \<and> current_thread s' = thr s (xs ! top_queue xs ! k) \<and>
    sched_ok s' (xs[top_queue xs := rotate k (xs ! top_queue xs)])"
  by (rule round_robin [OF assms])

lemma round_robin_liveness_witness:
  "\<exists>s'. switch_n 1 sample_sched = Some s' \<and> current_thread s' = 0x200"
proof -
  have "top_queue sample_lists = 1" by (simp add: top_queue_def sample_lists_def)
  then show ?thesis
    using round_robin_liveness [OF sample_sched_ok, of 1] by (auto simp: sample_sched_def sample_lists_def thr_def)
qed

text \<open>
  Blocking a ready thread and waking it again: it leaves its ready queue for the end of the block
  queue, and comes back at the end of the ready queue of its priority; the running thread, the other
  threads and the order of the others do not change.
\<close>

theorem block_notify_roundtrip:
  assumes "sched_ok s xs" and "i < 8" and "xs ! i = a @ p # b" and "thr s p \<noteq> current_thread s"
  shows "\<exists>s1 s2. thread_block p s = Some s1 \<and> sched_ok s1 (xs[i := a @ b, 8 := xs ! 8 @ [p]]) \<and>
    thread_notify p s1 = Some s2 \<and> sched_ok s2 (xs[i := a @ b @ [p]]) \<and> current_thread s2 = current_thread s"
proof -
  have q: "queues_ok s xs" and t: "threads_ok s (Some (current_thread s)) xs" using assms(1) by (simp_all add: sched_ok_def)
  then have len: "length xs = 10" by (simp add: queues_ok_def)
  obtain s1 where s1: "thread_block p s = Some s1" "sched_ok s1 (xs[i := a @ b, 8 := xs ! 8 @ [p]])"
    "current_thread s1 = current_thread s" "\<And>k. k \<in> members xs \<Longrightarrow> thr s1 k = thr s k"
    "\<exists>e. tcbs s (thr s p) = Some e \<and> unat (thread_get_priority e) = i \<and>
      tcbs s1 = (tcbs s)(thr s p \<mapsto> e\<lparr>t_state := THREAD_BLOCK\<rparr>)"
    by (rule block_ready_ok [OF assms]) (rule that; assumption)
  let ?ys = "xs[i := a @ b, 8 := xs ! 8 @ [p]]"
  have y8: "?ys ! 8 = xs ! 8 @ p # []" using len by simp
  obtain s2 j where s2: "thread_notify p s1 = Some s2" "j < 8" "sched_ok s2 (?ys[8 := xs ! 8 @ [], j := ?ys ! j @ [p]])"
    "current_thread s2 = current_thread s1" "\<exists>e. tcbs s1 (thr s1 p) = Some e \<and> unat (thread_get_priority e) = j"
    by (rule notify_ok [OF s1(2) y8]) (rule that; assumption)
  have "j = i"
  proof -
    have pin: "p \<in> set (xs ! i)" "p \<in> members xs" using assms(2,3) members_mono [of i xs] by auto
    obtain e0 where e0: "unat (thread_get_priority e0) = i" "tcbs s1 = (tcbs s)(thr s p \<mapsto> e0\<lparr>t_state := THREAD_BLOCK\<rparr>)"
      using s1(5) by blast
    obtain e where e: "tcbs s1 (thr s1 p) = Some e" "unat (thread_get_priority e) = j" using s2(5) by blast
    show "j = i" using e e0 s1(4) [OF pin(2)] by (auto simp: thread_get_priority_def)
  qed
  moreover have "?ys[8 := xs ! 8 @ [], i := ?ys ! i @ [p]] = xs[i := a @ b @ [p]]"
    using assms(2) len by (simp add: list_update_swap [of 8 i] list_update_same_conv)
  ultimately show ?thesis using s1 s2 by auto
qed

lemma block_notify_roundtrip_witness:
  "\<exists>s1 s2. thread_block 0x20 sample_sched = Some s1 \<and> thread_notify 0x20 s1 = Some s2 \<and> sched_ok s2 sample_lists"
proof -
  have "sample_lists ! 1 = [0x10] @ 0x20 # []" "thr sample_sched 0x20 \<noteq> current_thread sample_sched"
    by (simp_all add: sample_lists_def thr_def sample_sched_def)
  from block_notify_roundtrip [OF sample_sched_ok _ this] show ?thesis by (auto simp: sample_lists_def)
qed

text \<open>
  C13. The timer wakes the wrong sleeper. With two sleepers of which only the second is due, it is the
  first that is moved to the ready queue, still in the sleeping state, while the second is marked
  ready and stays in the sleep queue. If the second one's priority is higher than that of every
  ready thread, the next scheduling point halts the kernel.
\<close>

theorem sleep_wakes_wrong_thread:
  assumes ok: "sched_ok s xs" and x: "xs ! 9 = [p, q]" and f: "frequency s \<noteq> 0"
    and tp: "tcbs s (thr s p) = Some tp" "\<not> 1000 div frequency s > t_sleep_time tp"
    and tq: "tcbs s (thr s q) = Some tq" "1000 div frequency s > t_sleep_time tq"
  shows "\<exists>s'. scheduler_decrease_sleep_time s = Some s' \<and>
    queues_ok s' (xs[9 := [q], unat (thread_get_priority tq) := xs ! unat (thread_get_priority tq) @ [p]]) \<and>
    map_option t_state (tcbs s' (thr s' p)) = Some THREAD_SLEEP \<and> map_option t_state (tcbs s' (thr s' q)) = Some THREAD_READY \<and>
    ((\<forall>k \<le> unat (thread_get_priority tq). xs ! k = []) \<longrightarrow> in_critical_section s = 0 \<longrightarrow> scheduler_thread_switch s' = None)"
proof -
  have qo: "queues_ok s xs" and t: "threads_ok s (Some (current_thread s)) xs" using ok by (simp_all add: sched_ok_def)
  have len: "length xs = 10" using qo by (simp add: queues_ok_def)
  let ?i = "unat (thread_get_priority tq)"
  let ?ys = "xs[9 := [q], ?i := xs ! ?i @ [p]]"
  obtain s' where s': "scheduler_decrease_sleep_time s = Some s'" "queues_ok s' ?ys" "?i < 8"
    "\<And>k. k \<in> members xs \<Longrightarrow> thr s' k = thr s k"
    "tcbs s' = (tcbs s)(thr s p \<mapsto> tp\<lparr>t_sleep_time := t_sleep_time tp - 1000 div frequency s\<rparr>,
       thr s q \<mapsto> tq\<lparr>t_state := THREAD_READY, t_sleep_time := 0\<rparr>)"
    "current_thread s' = current_thread s" "in_critical_section s' = in_critical_section s"
    by (rule wrong_sleeper [OF ok x f tp tq]) (rule that; assumption)
  have pq: "p \<in> set (xs ! 9)" "q \<in> set (xs ! 9)" "p \<noteq> q" using x queue_distinct [OF qo, of 9] by simp_all
  have mem: "p \<in> members xs" "q \<in> members xs" using members_mono [of 9 xs] pq by auto
  have ne: "thr s p \<noteq> thr s q" using threads_same [OF t mem] pq(3) by blast
  have sp: "t_state tp = THREAD_SLEEP" using threads_okD [OF t _ pq(1)] tp(1) by (auto simp: expected_def)
  have tcp: "tcbs s' (thr s' p) = Some (tp\<lparr>t_sleep_time := t_sleep_time tp - 1000 div frequency s\<rparr>)"
    "tcbs s' (thr s' q) = Some (tq\<lparr>t_state := THREAD_READY, t_sleep_time := 0\<rparr>)"
    using s'(4,5) mem ne by simp_all
  have "scheduler_thread_switch s' = None" if emp: "\<forall>k \<le> ?i. xs ! k = []" and cr: "in_critical_section s = 0"
  proof -
    obtain r c cs tc where c: "r < 8" "xs ! r = c # cs" "thr s c = current_thread s" "tcbs s (current_thread s) = Some tc"
      "unat (thread_get_priority tc) = r" "t_state tc = THREAD_RUNNING"
      by (rule sched_current [OF ok]) (rule that; assumption)
    have ri: "?i < r" using emp c(2) by (metis leI list.distinct(1))
    have cm: "c \<in> members xs" using c(1,2) members_mono [of r xs] by auto
    have "c \<noteq> p" "c \<noteq> q" using queue_unique [OF qo, of r 9 c] c(1,2) pq by auto
    then have cne: "current_thread s \<noteq> thr s p" "current_thread s \<noteq> thr s q"
      using threads_same [OF t cm mem(1)] threads_same [OF t cm mem(2)] c(3) by auto
    let ?tc = "tc\<lparr>t_state := THREAD_READY\<rparr>"
    define s1 where "s1 = s'\<lparr>tcbs := (tcbs s')(current_thread s \<mapsto> ?tc)\<rparr>"
    have q1: "queues_ok s1 ?ys" using s'(2) by (simp add: s1_def queues_tcbs)
    have pr: "thread_get_priority ?tc = thread_get_priority tc" by (simp add: thread_get_priority_def)
    have r8: "unat (thread_get_priority tc) < 8" using c(1,5) by simp
    obtain s2 where s2: "ready_head_to_tail (thread_get_priority tc) s1 = Some s2"
      "queues_ok s2 (?ys[r := rotate1 (?ys ! r)])" "only_moved s1 s2"
      using ready_head_to_tail_ok [OF q1 r8] c(5) by metis
    let ?zs = "?ys[r := rotate1 (?ys ! r)]"
    have zi: "?zs ! ?i = [p]" using emp ri s'(3) len by simp
    have zlen: "length ?zs = 10" "?zs ! ?i \<noteq> []" using len zi by simp_all
    note tq = top_queue_ok [OF zlen(1) s'(3) zlen(2)]
    have top: "top_queue ?zs = ?i"
    proof -
      have "\<not> top_queue ?zs < ?i"
      proof
        assume l: "top_queue ?zs < ?i"
        then have "?zs ! top_queue ?zs = xs ! top_queue ?zs" using ri s'(3) by simp
        then show False using emp l tq(2) by simp
      qed
      moreover have "\<not> ?i < top_queue ?zs" using tq(3) zlen(2) by blast
      ultimately show ?thesis by simp
    qed
    note g = get_first_non_empty_ok [OF s2(2) s'(3) zlen(2)]
    have pm: "nodes s1 p \<noteq> None"
    proof -
      have "p \<in> set (?ys ! ?i)" using s'(3) len by simp
      then show ?thesis using queues_members [OF q1, of p] members_mono [of ?i ?ys] s'(3) by auto
    qed
    have "thr s2 p = thr s p" using only_moved_thr [OF s2(3) pm] s'(4) [OF mem(1)] by (simp add: s1_def thr_def)
    then have peek: "LIST_PEEK (of_nat ?i) s2 = Some (thr s p)" "sched_get_first_non_empty s2 = Some (Some (of_nat ?i))"
      using g top zi by simp_all
    have "tcbs s2 = (tcbs s')(current_thread s \<mapsto> ?tc)" using s2(3) by (simp add: only_moved_def s1_def)
    then have e: "tcbs s2 (thr s p) = Some (tp\<lparr>t_sleep_time := t_sleep_time tp - 1000 div frequency s\<rparr>)"
      using cne tcp(1) s'(4) [OF mem(1)] by simp
    have cur: "tcbs s' (current_thread s) = Some tc" "tcbs s1 (current_thread s) = Some ?tc" "current_thread s1 = current_thread s"
      using c(4) cne s'(5,6) by (simp_all add: s1_def)
    show ?thesis
      using cr s'(6,7) cur c(6) s2(1) peek e sp pr
      by (simp add: scheduler_thread_switch_def upd_tcb_def ready_index_def s1_def [symmetric])
  qed
  then show ?thesis using s'(1,2) tcp sp by auto
qed

lemma sleep_wakes_wrong_thread_witness:
  "\<exists>s'. scheduler_decrease_sleep_time sample_sched = Some s' \<and> scheduler_thread_switch s' = None"
proof -
  have a: "sample_lists ! 9 = [0x30, 0x40]" "frequency sample_sched \<noteq> 0" by (simp_all add: sample_lists_def sample_sched_def)
  have b: "tcbs sample_sched (thr sample_sched 0x30) = Some (sample_tcb 3 THREAD_SLEEP 100 0)"
    "tcbs sample_sched (thr sample_sched 0x40) = Some (sample_tcb 4 THREAD_SLEEP 1 0)"
    by (simp_all add: thr_def sample_sched_def)
  have c: "\<not> 1000 div frequency sample_sched > t_sleep_time (sample_tcb 3 THREAD_SLEEP 100 0)"
    "1000 div frequency sample_sched > t_sleep_time (sample_tcb 4 THREAD_SLEEP 1 0)"
    by (simp_all add: sample_sched_def sample_tcb_def)
  have d: "\<forall>k \<le> unat (thread_get_priority (sample_tcb 4 THREAD_SLEEP 1 0)). sample_lists ! k = []" "in_critical_section sample_sched = 0"
    by (simp_all add: sample_tcb_def thread_get_priority_def sample_lists_def sample_sched_def)
  from sleep_wakes_wrong_thread [OF sample_sched_ok a b(1) c(1) b(2) c(2)] d show ?thesis by blast
qed

end
