(* ===== verification/Vfs.thy ===== *)
theory Vfs
  imports Paging Single_List Cstring
begin

text \<open>
  The virtual file system tree, vfs.cpp and vfs.h. Nodes, the cells of their child lists and the
  tables of file operations live in three stores; a name is the buffer its pointer points to. A
  function pointer is an address, and what the function at an address does is the argument
  \<open>calls\<close> of the operations that call through one. \<open>resolve\<close> is the reference walk of a path over
  the tree; \<^verbatim>\<open>vfs_find_relative_node\<close>, which overwrites the slashes of the caller's path while it
  walks, is shown to compute it and to leave the path as it was.
\<close>

subsection \<open>Data\<close>

record fs_operations =
  fs_read :: ptr
  fs_write :: ptr
  fs_open :: ptr
  fs_close :: ptr
  fs_sync :: ptr
  fs_lookup :: ptr
  fs_ioctl :: ptr

record vfs_node =
  vn_name :: bytes
  vn_name_length :: u32
  vn_attributes :: u32
  vn_capabilities :: u32
  vn_file_length :: u32
  vn_tag :: ptr
  vn_parent :: ptr
  vn_fs_ops :: ptr
  vn_children :: list_t

record vfs = vmm +
  vnodes :: "ptr \<Rightarrow> vfs_node option"
  vcells :: "ptr nodes"
  fops :: "ptr \<Rightarrow> fs_operations option"
  default_ops :: ptr
  root :: ptr

record 's fs_calls =
  call_read :: "ptr \<Rightarrow> u32 \<Rightarrow> ptr \<Rightarrow> u32 \<Rightarrow> u32 \<Rightarrow> virtual_addr \<Rightarrow> 's \<Rightarrow> (u32 \<times> 's) option"
  call_write :: "ptr \<Rightarrow> u32 \<Rightarrow> ptr \<Rightarrow> u32 \<Rightarrow> u32 \<Rightarrow> virtual_addr \<Rightarrow> 's \<Rightarrow> (u32 \<times> 's) option"
  call_open :: "ptr \<Rightarrow> ptr \<Rightarrow> u32 \<Rightarrow> 's \<Rightarrow> (error_t \<times> 's) option"
  call_sync :: "ptr \<Rightarrow> u32 \<Rightarrow> ptr \<Rightarrow> u32 \<Rightarrow> u32 \<Rightarrow> 's \<Rightarrow> (error_t \<times> 's) option"
  call_lookup :: "ptr \<Rightarrow> ptr \<Rightarrow> bytes \<Rightarrow> 's \<Rightarrow> (error_t \<times> ptr \<times> 's) option"

definition VFS_FILE :: u32 where "VFS_FILE = 1"
definition VFS_DIRECTORY :: u32 where "VFS_DIRECTORY = 2"
definition VFS_LINK :: u32 where "VFS_LINK = 3"
definition VFS_DEVICE :: u32 where "VFS_DEVICE = 4"
definition VFS_MOUNT_PT :: u32 where "VFS_MOUNT_PT = 5"
definition VFS_PIPE :: u32 where "VFS_PIPE = 6"
definition VFS_READ :: u32 where "VFS_READ = 8"
definition VFS_WRITE :: u32 where "VFS_WRITE = 16"
definition VFS_HIDDEN :: u32 where "VFS_HIDDEN = 32"

definition VFS_CAP_NONE :: u32 where "VFS_CAP_NONE = 1"
definition VFS_CAP_READ :: u32 where "VFS_CAP_READ = 2"
definition VFS_CAP_WRITE :: u32 where "VFS_CAP_WRITE = 4"
definition VFS_CAP_CACHE :: u32 where "VFS_CAP_CACHE = 8"
definition VFS_CAP_MAX :: u32 where "VFS_CAP_MAX = 0xFFFF"

definition VFS_PATH_NOT_FOUND :: u16 where "VFS_PATH_NOT_FOUND = 3"
definition VFS_BAD_ARGUMENTS :: u16 where "VFS_BAD_ARGUMENTS = 8"

subsection \<open>Searching the tree\<close>

partial_function (option) find_child_loop :: "bytes \<Rightarrow> ptr \<Rightarrow> 'a vfs_scheme \<Rightarrow> ptr option" where
  [code]: "find_child_loop name temp s =
     (if temp = 0 then Some 0
      else do {
        c \<leftarrow> vcells s temp;
        n \<leftarrow> vnodes s (ln_data c);
        r \<leftarrow> strcmp name (vn_name n);
        if r = 0 then Some (ln_data c) else find_child_loop name (ln_next c) s
      })"

definition vfs_find_child :: "ptr \<Rightarrow> bytes \<Rightarrow> 'a vfs_scheme \<Rightarrow> ptr option" where
  "vfs_find_child node name s = do {
     n \<leftarrow> vnodes s node;
     find_child_loop name (l_head (vn_children n)) s
   }"

partial_function (option) relative_loop :: "ptr \<Rightarrow> bytes \<Rightarrow> nat \<Rightarrow> 'a vfs_scheme \<Rightarrow> (ptr \<times> bytes \<times> 'a vfs_scheme) option" where
  \<comment> \<open>\<open>buf\<close> is the caller's buffer and \<open>path\<close> the index \<^verbatim>\<open>path\<close> points to.\<close>
  [code]: "relative_loop next buf path s = do {
     slash \<leftarrow> strchr (drop path buf) 47;
     case slash of
       None \<Rightarrow> do { next \<leftarrow> vfs_find_child next (drop path buf) s; Some (next, buf, s) }
     | Some i \<Rightarrow> do {
         let buf = buf[path + i := 0];
         next \<leftarrow> vfs_find_child next (drop path buf) s;
         let buf = buf[path + i := 47];
         let path = path + i + 1;
         if next = 0 then Some (0, buf, set_last_error ENOENT VFS_PATH_NOT_FOUND EO_VFS s)
         else relative_loop next buf path s
       }
   }"

definition vfs_find_relative_node :: "ptr \<Rightarrow> bytes option \<Rightarrow> 'a vfs_scheme \<Rightarrow> (ptr \<times> bytes option \<times> 'a vfs_scheme) option" where
  \<comment> \<open>The path is returned as the call leaves it; a null path is \<open>None\<close>.\<close>
  "vfs_find_relative_node start path s =
     (case path of
        None \<Rightarrow> Some (0, None, set_last_error EINVAL VFS_BAD_ARGUMENTS EO_VFS s)
      | Some buf \<Rightarrow> do { (r, buf, s) \<leftarrow> relative_loop start buf 0 s; Some (r, Some buf, s) })"

definition vfs_get_root :: "'a vfs_scheme \<Rightarrow> ptr" where
  "vfs_get_root s = root s"

definition vfs_find_node :: "bytes option \<Rightarrow> 'a vfs_scheme \<Rightarrow> (ptr \<times> bytes option \<times> 'a vfs_scheme) option" where
  "vfs_find_node path s = vfs_find_relative_node (vfs_get_root s) path s"

definition vfs_get_dev :: "'a vfs_scheme \<Rightarrow> ptr option" where
  "vfs_get_dev s = vfs_find_child (root s) [100, 101, 118, 0] s"

partial_function (option) vfs_get_mount_point :: "ptr \<Rightarrow> 'a vfs_scheme \<Rightarrow> ptr option" where
  [code]: "vfs_get_mount_point mnt_point s =
     (if mnt_point = 0 then Some 0
      else do {
        n \<leftarrow> vnodes s mnt_point;
        if \<not> CHK_BIT (vn_attributes n) VFS_MOUNT_PT then vfs_get_mount_point (vn_parent n) s else Some mnt_point
      })"

definition vfs_get_parent :: "ptr \<Rightarrow> 'a vfs_scheme \<Rightarrow> ptr option" where
  "vfs_get_parent node s = (if node = 0 then Some 0 else do { n \<leftarrow> vnodes s node; Some (vn_parent n) })"

subsection \<open>The default file operations\<close>

definition vfs_default_read :: "u32 \<Rightarrow> ptr \<Rightarrow> u32 \<Rightarrow> u32 \<Rightarrow> virtual_addr \<Rightarrow> 'a vfs_scheme \<Rightarrow> u32 \<times> 'a vfs_scheme" where
  "vfs_default_read fd node start count address s = (0, clear_last_error s)"

definition vfs_default_write :: "u32 \<Rightarrow> ptr \<Rightarrow> u32 \<Rightarrow> u32 \<Rightarrow> virtual_addr \<Rightarrow> 'a vfs_scheme \<Rightarrow> u32 \<times> 'a vfs_scheme" where
  "vfs_default_write fd node start count address s = (0, clear_last_error s)"

definition vfs_default_sync :: "u32 \<Rightarrow> ptr \<Rightarrow> u32 \<Rightarrow> u32 \<Rightarrow> 'a vfs_scheme \<Rightarrow> error_t \<times> 'a vfs_scheme" where
  "vfs_default_sync fd node start_page end_page s = (ERROR_OK, clear_last_error s)"

definition vfs_default_open :: "ptr \<Rightarrow> u32 \<Rightarrow> 'a vfs_scheme \<Rightarrow> error_t \<times> 'a vfs_scheme" where
  "vfs_default_open node capabilities s = (ERROR_OK, clear_last_error s)"

definition vfs_default_lookup :: "ptr \<Rightarrow> bytes option \<Rightarrow> 'a vfs_scheme \<Rightarrow> (error_t \<times> ptr \<times> bytes option \<times> 'a vfs_scheme) option" where
  "vfs_default_lookup parent path s = do {
     (result, path, s) \<leftarrow> vfs_find_relative_node parent path s;
     if result = 0 then Some (ERROR_OCCUR, result, path, set_last_error ENOENT VFS_PATH_NOT_FOUND EO_VFS s)
     else Some (ERROR_OK, result, path, s)
   }"

subsection \<open>Calls through the operations of a node\<close>

definition node_ops :: "ptr \<Rightarrow> 'a vfs_scheme \<Rightarrow> fs_operations option" where
  "node_ops node s = do { n \<leftarrow> vnodes s node; fops s (vn_fs_ops n) }"

definition vfs_open_file :: "'a vfs_scheme fs_calls \<Rightarrow> ptr \<Rightarrow> u32 \<Rightarrow> 'a vfs_scheme \<Rightarrow> (error_t \<times> 'a vfs_scheme) option" where
  "vfs_open_file calls node capabilities s = do { f \<leftarrow> node_ops node s; call_open calls (fs_open f) node capabilities s }"

definition vfs_read_file ::
  "'a vfs_scheme fs_calls \<Rightarrow> u32 \<Rightarrow> ptr \<Rightarrow> u32 \<Rightarrow> u32 \<Rightarrow> virtual_addr \<Rightarrow> 'a vfs_scheme \<Rightarrow> (u32 \<times> 'a vfs_scheme) option" where
  "vfs_read_file calls fd node start count address s = do { f \<leftarrow> node_ops node s; call_read calls (fs_read f) fd node start count address s }"

definition vfs_write_file ::
  "'a vfs_scheme fs_calls \<Rightarrow> u32 \<Rightarrow> ptr \<Rightarrow> u32 \<Rightarrow> u32 \<Rightarrow> virtual_addr \<Rightarrow> 'a vfs_scheme \<Rightarrow> (u32 \<times> 'a vfs_scheme) option" where
  "vfs_write_file calls fd node start count address s = do { f \<leftarrow> node_ops node s; call_write calls (fs_write f) fd node start count address s }"

definition vfs_sync :: "'a vfs_scheme fs_calls \<Rightarrow> u32 \<Rightarrow> ptr \<Rightarrow> u32 \<Rightarrow> u32 \<Rightarrow> 'a vfs_scheme \<Rightarrow> (error_t \<times> 'a vfs_scheme) option" where
  "vfs_sync calls fd node page_start page_end s = do { f \<leftarrow> node_ops node s; call_sync calls (fs_sync f) fd node page_start page_end s }"

definition vfs_lookup :: "'a vfs_scheme fs_calls \<Rightarrow> ptr \<Rightarrow> bytes \<Rightarrow> 'a vfs_scheme \<Rightarrow> (error_t \<times> ptr \<times> 'a vfs_scheme) option" where
  "vfs_lookup calls parent path s = do { f \<leftarrow> node_ops parent s; call_lookup calls (fs_lookup f) parent path s }"

definition vfs_root_lookup :: "'a vfs_scheme fs_calls \<Rightarrow> bytes \<Rightarrow> 'a vfs_scheme \<Rightarrow> (error_t \<times> ptr \<times> 'a vfs_scheme) option" where
  "vfs_root_lookup calls path s = vfs_lookup calls (vfs_get_root s) path s"

subsection \<open>Growing the tree\<close>

definition fill_ops :: "fs_operations \<Rightarrow> fs_operations \<Rightarrow> fs_operations" where
  "fill_ops d f = f\<lparr>fs_close := (if fs_close f = 0 then fs_close d else fs_close f),
     fs_ioctl := (if fs_ioctl f = 0 then fs_ioctl d else fs_ioctl f),
     fs_lookup := (if fs_lookup f = 0 then fs_lookup d else fs_lookup f),
     fs_open := (if fs_open f = 0 then fs_open d else fs_open f),
     fs_read := (if fs_read f = 0 then fs_read d else fs_read f),
     fs_write := (if fs_write f = 0 then fs_write d else fs_write f),
     fs_sync := (if fs_sync f = 0 then fs_sync d else fs_sync f)\<rparr>"

definition vfs_create_node ::
  "ptr \<Rightarrow> bool \<Rightarrow> bytes \<Rightarrow> bool \<Rightarrow> u32 \<Rightarrow> u32 \<Rightarrow> u32 \<Rightarrow> ptr \<Rightarrow> ptr \<Rightarrow> ptr \<Rightarrow> 'a vfs_scheme \<Rightarrow> (ptr \<times> 'a vfs_scheme) option" where
  \<comment> \<open>\<open>n\<close> is what the first \<^verbatim>\<open>malloc\<close> returns, \<open>granted\<close> whether the second one succeeds. The deep
     metadata after the node is left to its owner.\<close>
  "vfs_create_node n granted name copy_name attributes capabilities file_length tag parent file_fncs s =
     (if n = 0 then Some (0, s)
      else do {
        len \<leftarrow> strlen name;
        let ops = (if file_fncs \<noteq> 0 then file_fncs else default_ops s);
        f \<leftarrow> (if file_fncs = 0 then None else fops s file_fncs);
        d \<leftarrow> fops s (default_ops s);
        let s = s\<lparr>fops := (fops s)(file_fncs \<mapsto> fill_ops d f)\<rparr>;
        if copy_name \<and> \<not> granted then Some (0, s)
        else do {
          copy \<leftarrow> (if copy_name then strcpy (replicate (unat len + 1) 0) name else Some name);
          Some (n, s\<lparr>vnodes := (vnodes s)(n \<mapsto> \<lparr>vn_name = copy, vn_name_length = ucast len, vn_attributes = attributes,
            vn_capabilities = capabilities, vn_file_length = file_length, vn_tag = tag, vn_parent = parent,
            vn_fs_ops = ops, vn_children = \<lparr>l_head = 0, l_tail = 0, l_count = 0\<rparr>\<rparr>)\<rparr>)
        }
      })"

definition insert_child :: "ptr \<Rightarrow> ptr \<Rightarrow> ptr \<Rightarrow> 'a vfs_scheme \<Rightarrow> 'a vfs_scheme option" where
  \<comment> \<open>\<^verbatim>\<open>list_insert_back(&parent->children, child)\<close>; \<open>cell\<close> is the address \<^verbatim>\<open>new\<close> returns.\<close>
  "insert_child cell parent child s = do {
     p \<leftarrow> vnodes s parent;
     (l, cells) \<leftarrow> list_insert_back (vn_children p) cell child (vcells s);
     Some (s\<lparr>vcells := cells, vnodes := (vnodes s)(parent \<mapsto> p\<lparr>vn_children := l\<rparr>)\<rparr>)
   }"

definition vfs_add_child :: "ptr \<Rightarrow> ptr \<Rightarrow> ptr \<Rightarrow> 'a vfs_scheme \<Rightarrow> 'a vfs_scheme option" where
  "vfs_add_child cell parent child s = do {
     s \<leftarrow> insert_child cell parent child s;
     c \<leftarrow> vnodes s child;
     Some (s\<lparr>vnodes := (vnodes s)(child \<mapsto> c\<lparr>vn_parent := parent\<rparr>)\<rparr>)
   }"

definition vfs_create_device ::
  "ptr \<Rightarrow> bool \<Rightarrow> ptr \<Rightarrow> bytes \<Rightarrow> u32 \<Rightarrow> ptr \<Rightarrow> ptr \<Rightarrow> 'a vfs_scheme \<Rightarrow> (ptr \<times> 'a vfs_scheme) option" where
  "vfs_create_device n granted cell name capabilities tag dev_fncs s = do {
     dev \<leftarrow> vfs_get_dev s;
     (node, s) \<leftarrow> vfs_create_node n granted name True (VFS_DEVICE OR VFS_READ) capabilities 0 tag dev dev_fncs s;
     if node = 0 then Some (0, s)
     else do {
       dev \<leftarrow> vfs_get_dev s;
       s \<leftarrow> insert_child cell dev node s;
       Some (node, s)
     }
   }"

definition init_vfs :: "ptr \<Rightarrow> ptr \<Rightarrow> ptr \<Rightarrow> 'a vfs_scheme \<Rightarrow> 'a vfs_scheme option" where
  "init_vfs n1 n2 cell s = do {
     (r, s) \<leftarrow> vfs_create_node n1 False [114, 111, 111, 116, 0] False VFS_DIRECTORY VFS_CAP_READ 0 0 0 0 s;
     let s = s\<lparr>root := r\<rparr>;
     (dev, s) \<leftarrow> vfs_create_node n2 False [100, 101, 118, 0] False 0 VFS_CAP_READ 0 0 (root s) 0 s;
     vfs_add_child cell (root s) dev s
   }"

subsection \<open>Attribute strings\<close>

definition put_str :: "bytes \<Rightarrow> nat \<Rightarrow> bytes \<Rightarrow> bytes option" where
  \<comment> \<open>\<^verbatim>\<open>strcpy(str + pos, text)\<close>.\<close>
  "put_str str pos text = do { t \<leftarrow> strcpy (drop pos str) text; Some (take pos str @ t) }"

definition vfs_attributes_to_string :: "u32 \<Rightarrow> bytes \<Rightarrow> bytes option" where
  "vfs_attributes_to_string attrs str = do {
     let k = attrs AND 7;
     (str, pos) \<leftarrow> (if k = VFS_FILE then do { t \<leftarrow> put_str str 0 [70, 32, 0]; Some (t, 2) }
       else if k = VFS_DIRECTORY then do { t \<leftarrow> put_str str 0 [68, 73, 82, 32, 0]; Some (t, 4) }
       else if k = VFS_LINK then do { t \<leftarrow> put_str str 0 [76, 32, 0]; Some (t, 2) }
       else if k = VFS_DEVICE then do { t \<leftarrow> put_str str 0 [68, 69, 86, 32, 0]; Some (t, 4) }
       else if k = VFS_MOUNT_PT then do { t \<leftarrow> put_str str 0 [77, 78, 84, 32, 0]; Some (t, 4) }
       else if k = VFS_PIPE then do { t \<leftarrow> put_str str 0 [80, 32, 0]; Some (t, 2) }
       else do { t \<leftarrow> put_str str 0 [85, 32, 0]; Some (t, 2) });
     (str, pos) \<leftarrow> (if attrs AND VFS_READ = VFS_READ then do { t \<leftarrow> put_str str pos [82, 32, 0]; Some (t, pos + 2) } else Some (str, pos));
     (str, pos) \<leftarrow> (if attrs AND VFS_WRITE = VFS_WRITE then do { t \<leftarrow> put_str str pos [87, 32, 0]; Some (t, pos + 2) } else Some (str, pos));
     (str, pos) \<leftarrow> (if attrs AND VFS_HIDDEN = VFS_HIDDEN then do { t \<leftarrow> put_str str pos [72, 32, 0]; Some (t, pos + 2) } else Some (str, pos));
     Some str
   }"

lemma put_str_length: "put_str str pos text = Some t \<Longrightarrow> pos \<le> length str \<Longrightarrow> length t = length str"
proof -
  have "strcpy d s = Some r \<Longrightarrow> length r = length d" for d s r
    by (induction d s arbitrary: r rule: strcpy.induct) (auto split: if_splits)
  then show "put_str str pos text = Some t \<Longrightarrow> pos \<le> length str \<Longrightarrow> length t = length str"
    by (auto simp: put_str_def elim!: bind_SomeE)
qed

subsection \<open>The tree\<close>

text \<open>
  \<open>kids p\<close> lists the child cells of node \<open>p\<close> with the child each one holds, \<open>nm p\<close> is its name.
\<close>

definition vfs_ok :: "'a vfs_scheme \<Rightarrow> (ptr \<Rightarrow> (ptr \<times> ptr) list) \<Rightarrow> (ptr \<Rightarrow> bytes) \<Rightarrow> bool" where
  "vfs_ok s kids nm \<longleftrightarrow> (\<forall>p n. vnodes s p = Some n \<longrightarrow> p \<noteq> 0 \<and> list_ok (vn_children n) (vcells s) (kids p) \<and>
     cstr (vn_name n) (nm p) \<and> (\<forall>(a, c) \<in> set (kids p). vnodes s c \<noteq> None)) \<and>
     (\<forall>p q. vnodes s p \<noteq> None \<longrightarrow> vnodes s q \<noteq> None \<longrightarrow> p \<noteq> q \<longrightarrow> fst ` set (kids p) \<inter> fst ` set (kids q) = {})"

definition child :: "(ptr \<Rightarrow> (ptr \<times> ptr) list) \<Rightarrow> (ptr \<Rightarrow> bytes) \<Rightarrow> ptr \<Rightarrow> bytes \<Rightarrow> ptr" where
  "child kids nm p name = (case find (\<lambda>c. nm c = name) (map snd (kids p)) of None \<Rightarrow> 0 | Some c \<Rightarrow> c)"

fun components :: "bytes \<Rightarrow> bytes list" where
  "components [] = [[]]"
| "components (c # cs) = (if c = 47 then [] # components cs
     else (case components cs of x # xs \<Rightarrow> (c # x) # xs | [] \<Rightarrow> [[c]]))"

fun resolve :: "(ptr \<Rightarrow> (ptr \<times> ptr) list) \<Rightarrow> (ptr \<Rightarrow> bytes) \<Rightarrow> ptr \<Rightarrow> bytes list \<Rightarrow> ptr" where
  "resolve kids nm p [] = p"
| "resolve kids nm p (c # cs) = (if p = 0 then 0 else resolve kids nm (child kids nm p c) cs)"

lemma components_nonempty [simp]: "components cs \<noteq> []"
  by (induction cs) (auto split: list.splits)

lemma components_split:
  "components path = (if 47 \<in> set path then takeWhile (\<lambda>c. c \<noteq> 47) path # components (tl (dropWhile (\<lambda>c. c \<noteq> 47) path)) else [path])"
  by (induction path) (auto split: list.splits)

lemma resolve_0 [simp]: "resolve kids nm 0 cs = 0"
  by (cases cs) auto

lemma vfs_okD:
  assumes "vfs_ok s kids nm" and "vnodes s p = Some n"
  shows "p \<noteq> 0" and "list_ok (vn_children n) (vcells s) (kids p)" and "cstr (vn_name n) (nm p)"
    and "(a, c) \<in> set (kids p) \<Longrightarrow> vnodes s c \<noteq> None"
  using assms unfolding vfs_ok_def by blast+

lemma strcmp_ok: "cstr b1 s1 \<Longrightarrow> cstr b2 s2 \<Longrightarrow> \<exists>r. strcmp b1 b2 = Some r \<and> (r = 0 \<longleftrightarrow> s1 = s2)"
  using strcmp_loop_ok [of b1 s1 b2 s2 "\<lambda>c. c"] by (auto simp: strcmp_def sign8_0)

lemma find_child_loop_ok:
  assumes ok: "vfs_ok s kids nm" and b: "cstr buf name"
    and "chain (vcells s) p cs 0" and "\<forall>(a, c) \<in> set cs. vnodes s c \<noteq> None"
  shows "find_child_loop buf p s = Some (case find (\<lambda>c. nm c = name) (map snd cs) of None \<Rightarrow> 0 | Some c \<Rightarrow> c)"
  using assms(3,4)
proof (induction cs arbitrary: p)
  case Nil
  then show ?case by (subst find_child_loop.simps) simp
next
  case (Cons x cs)
  obtain a c where x: "x = (a, c)" by (cases x)
  obtain n where n: "vnodes s c = Some n" using Cons.prems(2) x by auto
  obtain r where r: "strcmp buf (vn_name n) = Some r" "r = 0 \<longleftrightarrow> name = nm c"
    using strcmp_ok [OF b vfs_okD(3) [OF ok n]] by blast
  show ?case using Cons x n r by (subst find_child_loop.simps) auto
qed

lemma vfs_find_child_ok:
  assumes "vfs_ok s kids nm" and "vnodes s p \<noteq> None" and "cstr buf name"
  shows "vfs_find_child p buf s = Some (child kids nm p name)"
    and "child kids nm p name \<noteq> 0 \<longleftrightarrow> (\<exists>c \<in> snd ` set (kids p). nm c = name)"
    and "child kids nm p name \<noteq> 0 \<Longrightarrow> vnodes s (child kids nm p name) \<noteq> None"
proof -
  obtain n where n: "vnodes s p = Some n" using assms(2) by blast
  note ok = vfs_okD [OF assms(1) n]
  have ch: "chain (vcells s) (l_head (vn_children n)) (kids p) 0" using ok(2) by (simp add: list_ok_def)
  have ex: "\<forall>(a, c) \<in> set (kids p). vnodes s c \<noteq> None" using ok(4) by blast
  show "vfs_find_child p buf s = Some (child kids nm p name)"
    using find_child_loop_ok [OF assms(1,3) ch ex] n by (simp add: vfs_find_child_def child_def)
  have nz: "c \<noteq> 0" if "c \<in> snd ` set (kids p)" for c
    using that ex vfs_okD(1) [OF assms(1), of c] by fastforce
  show "child kids nm p name \<noteq> 0 \<longleftrightarrow> (\<exists>c \<in> snd ` set (kids p). nm c = name)"
    using nz by (auto simp: child_def find_None_iff find_Some_iff in_set_conv_nth split: option.splits) (metis image_iff nth_mem snd_conv)+
  assume "child kids nm p name \<noteq> 0"
  then obtain c where c: "find (\<lambda>c. nm c = name) (map snd (kids p)) = Some c" "child kids nm p name = c"
    by (auto simp: child_def split: option.splits)
  then have "c \<in> set (map snd (kids p))" by (auto simp: find_Some_iff)
  then show "vnodes s (child kids nm p name) \<noteq> None" using ex c(2) by auto
qed

lemma sint_47: "sint (x :: u8) = 47 \<longleftrightarrow> x = 47"
proof
  assume "sint x = 47"
  then have "sint x = sint (47 :: u8)" by simp
  then show "x = 47" by (rule signed_word_eqI)
qed simp

lemma strchr_slash:
  assumes "cstr buf path"
  shows "strchr buf 47 = Some (if 47 \<in> set path then Some (length (takeWhile (\<lambda>c. c \<noteq> 47) path)) else None)"
proof -
  have "(47 \<in> sint ` set path) = (47 \<in> set path)" using sint_47 by (auto simp: image_iff)
  then show ?thesis using strchr_from_ok [OF assms, of 0 47] by (simp add: strchr_def sint_47)
qed

lemma slash_cut:
  assumes "cstr (drop pos buf) path" and "47 \<in> set path"
  defines "i \<equiv> length (takeWhile (\<lambda>c. c \<noteq> 47) path)"
  shows "cstr (drop pos (buf[pos + i := 0])) (takeWhile (\<lambda>c. c \<noteq> 47) path)"
    and "buf[pos + i := 0, pos + i := 47] = buf"
    and "cstr (drop (pos + i + 1) buf) (tl (dropWhile (\<lambda>c. c \<noteq> 47) path))"
    and "length (tl (dropWhile (\<lambda>c. c \<noteq> 47) path)) < length path"
proof -
  let ?w = "takeWhile (\<lambda>c. c \<noteq> 47) path" and ?t = "tl (dropWhile (\<lambda>c. c \<noteq> 47) path)"
  have ne: "dropWhile (\<lambda>c. c \<noteq> 47) path \<noteq> []" using assms(2) by auto
  then have "hd (dropWhile (\<lambda>c. c \<noteq> 47) path) = 47" using hd_dropWhile by blast
  then have p: "path = ?w @ 47 # ?t" using ne takeWhile_dropWhile_id [of "\<lambda>c. c \<noteq> 47" path] by (metis list.collapse)
  obtain rest where r: "drop pos buf = path @ 0 # rest" "0 \<notin> set path" using assms(1) by (auto simp: cstr_def)
  then have d: "drop pos buf = ?w @ 47 # ?t @ 0 # rest" using p by (metis append.assoc append_Cons)
  have le: "pos \<le> length buf" using r(1) by (metis drop_all list.distinct(1) append_is_Nil_conv nat_le_linear)
  have w0: "0 \<notin> set ?w" "0 \<notin> set ?t" using r(2) p by (metis Un_iff set_append, metis Un_iff set_append list.set_intros(2))
  have "drop pos (buf[pos + i := 0]) = (drop pos buf)[i := 0]" using le by (simp add: drop_update_swap)
  also have "\<dots> = ?w @ 0 # ?t @ 0 # rest" unfolding d i_def by simp
  finally show "cstr (drop pos (buf[pos + i := 0])) ?w" using w0(1) by (auto simp: cstr_def)
  have "buf ! (pos + i) = drop pos buf ! i" using le by simp
  also have "\<dots> = 47" unfolding d i_def by simp
  finally show "buf[pos + i := 0, pos + i := 47] = buf" by (metis list_update_id list_update_overwrite)
  have "drop (pos + i + 1) buf = drop (i + 1) (drop pos buf)" by (simp add: add.commute add.left_commute)
  also have "\<dots> = ?t @ 0 # rest" unfolding d i_def by simp
  finally show "cstr (drop (pos + i + 1) buf) ?t" using w0(2) by (auto simp: cstr_def)
  show "length ?t < length path" using arg_cong [OF p, of length] by simp
qed

lemma relative_loop_ok:
  assumes ok: "vfs_ok s kids nm" and "vnodes s nx \<noteq> None" and "cstr (drop pos buf) path"
  shows "\<exists>e. relative_loop nx buf pos s = Some (resolve kids nm nx (components path), buf, s\<lparr>last_error := e\<rparr>) \<and>
    (resolve kids nm nx (components path) \<noteq> 0 \<longrightarrow> e = last_error s)"
  using assms(2,3)
proof (induction path arbitrary: nx pos rule: length_induct)
  case (1 path)
  obtain n where n: "vnodes s nx = Some n" using 1(2) by blast
  have nz: "nx \<noteq> 0" by (rule vfs_okD(1) [OF ok n])
  note ch = strchr_slash [OF 1(3)]
  show ?case
  proof (cases "47 \<in> set path")
    case False
    note f = vfs_find_child_ok [OF ok 1(2,3)]
    show ?thesis using ch False f(1) nz components_split [of path] by (subst relative_loop.simps) (auto intro!: exI [of _ "last_error s"])
  next
    case True
    let ?w = "takeWhile (\<lambda>c. c \<noteq> 47) path" and ?t = "tl (dropWhile (\<lambda>c. c \<noteq> 47) path)"
    note cut = slash_cut [OF 1(3) True]
    note f = vfs_find_child_ok [OF ok 1(2) cut(1)]
    let ?q = "child kids nm nx ?w"
    have res: "resolve kids nm nx (components path) = resolve kids nm ?q (components ?t)"
      using nz True components_split [of path] by simp
    show ?thesis
    proof (cases "?q = 0")
      case True
      then show ?thesis using ch \<open>47 \<in> set path\<close> f(1) cut(2) res
        by (subst relative_loop.simps) (auto simp: set_last_error_def)
    next
      case False
      have "\<exists>e. relative_loop ?q buf (pos + length ?w + 1) s = Some (resolve kids nm ?q (components ?t), buf, s\<lparr>last_error := e\<rparr>) \<and>
        (resolve kids nm ?q (components ?t) \<noteq> 0 \<longrightarrow> e = last_error s)"
        using 1(1) cut(3,4) f(3) [OF False] by blast
      then show ?thesis using ch True f(1) cut(2) res False by (subst relative_loop.simps) auto
    qed
  qed
qed

subsection \<open>Adding a device\<close>

lemma create_node_ok:
  assumes "n \<noteq> 0" and "file_fncs \<noteq> 0" and "fops s file_fncs = Some f" and "fops s (default_ops s) = Some d"
    and "cstr name nmx" and "length nmx < 2 ^ 16 - 1"
  shows "vfs_create_node n True name True attrs caps flen tag parent file_fncs s =
    Some (n, s\<lparr>fops := (fops s)(file_fncs \<mapsto> fill_ops d f),
      vnodes := (vnodes s)(n \<mapsto> \<lparr>vn_name = nmx @ [0], vn_name_length = of_nat (length nmx), vn_attributes = attrs,
        vn_capabilities = caps, vn_file_length = flen, vn_tag = tag, vn_parent = parent,
        vn_fs_ops = file_fncs, vn_children = \<lparr>l_head = 0, l_tail = 0, l_count = 0\<rparr>\<rparr>)\<rparr>)"
proof -
  have l: "strlen name = Some (of_nat (length nmx))" using strlen_ok [OF assms(5)] assms(6) by simp
  have u: "unat (of_nat (length nmx) :: u16) = length nmx" using unat_of_nat_u16 [of "length nmx"] assms(6) by simp
  have c: "strcpy (replicate (length nmx + 1) 0) name = Some (nmx @ [0])" using strcpy_ok [OF assms(5)] by simp
  have "(ucast (of_nat (length nmx) :: u16) :: u32) = of_nat (length nmx)"
    by (rule word_unat_eq_iff [THEN iffD2]) (use u assms(6) in \<open>simp add: unat_of_nat_u32\<close>)
  then show ?thesis using assms(1-4) l u c by (simp add: vfs_create_node_def)
qed

lemma new_node_vfs_ok:
  assumes ok: "vfs_ok s kids nm" and n: "n \<noteq> 0" "vnodes s n = None" and "cstr (vn_name v) nmx" and "vn_children v = \<lparr>l_head = 0, l_tail = 0, l_count = 0\<rparr>"
  shows "vfs_ok (s\<lparr>fops := fo, vnodes := (vnodes s)(n \<mapsto> v)\<rparr>) (kids(n := [])) (nm(n := nmx))"
proof -
  let ?s = "s\<lparr>fops := fo, vnodes := (vnodes s)(n \<mapsto> v)\<rparr>"
  have e: "list_ok \<lparr>l_head = 0, l_tail = 0, l_count = 0\<rparr> (vcells s) []" by (simp add: list_ok_Nil)
  show ?thesis
    unfolding vfs_ok_def
  proof (intro conjI allI impI)
    fix q m assume q: "vnodes ?s q = Some m"
    show "q \<noteq> 0" using q n(1) vfs_okD(1) [OF ok] by (auto split: if_splits)
    show "list_ok (vn_children m) (vcells ?s) ((kids(n := [])) q)" using q e assms(5) vfs_okD(2) [OF ok] by (auto split: if_splits)
    show "cstr (vn_name m) ((nm(n := nmx)) q)" using q assms(4) vfs_okD(3) [OF ok] by (auto split: if_splits)
    show "\<forall>(a, k) \<in> set ((kids(n := [])) q). vnodes ?s k \<noteq> None" using q vfs_okD(4) [OF ok, of q] by (auto split: if_splits)
  next
    fix q r assume "vnodes ?s q \<noteq> None" "vnodes ?s r \<noteq> None" "q \<noteq> r"
    then show "fst ` set ((kids(n := [])) q) \<inter> fst ` set ((kids(n := [])) r) = {}"
      using ok unfolding vfs_ok_def by (auto split: if_splits)
  qed
qed

lemma insert_child_ok:
  assumes ok: "vfs_ok s kids nm" and p: "vnodes s p \<noteq> None" and c: "vnodes s c \<noteq> None"
    and cell: "cell \<noteq> 0" "\<And>q. vnodes s q \<noteq> None \<Longrightarrow> cell \<notin> fst ` set (kids q)" and len: "length (kids p) + 1 < 2 ^ 32"
  shows "\<exists>s'. insert_child cell p c s = Some s' \<and> vfs_ok s' (kids(p := kids p @ [(cell, c)])) nm \<and>
    root s' = root s \<and> last_error s' = last_error s \<and> (\<forall>q. vnodes s' q = None \<longleftrightarrow> vnodes s q = None)"
proof -
  obtain n where n: "vnodes s p = Some n" using p by blast
  note d = vfs_okD [OF ok n]
  have cp: "cell \<notin> fst ` set (kids p)" by (rule cell(2) [OF p])
  obtain l' h' where i: "list_insert_back (vn_children n) cell c (vcells s) = Some (l', h')" "list_ok l' h' (kids p @ [(cell, c)])"
    "\<forall>a. a \<notin> insert cell (fst ` set (kids p)) \<longrightarrow> h' a = vcells s a"
    using list_insert_back_ok [OF d(2) cell(1) cp len] by blast
  let ?s = "s\<lparr>vcells := h', vnodes := (vnodes s)(p \<mapsto> n\<lparr>vn_children := l'\<rparr>)\<rparr>"
  have other: "list_ok (vn_children m) h' (kids q)" if q: "vnodes s q = Some m" "q \<noteq> p" for q m
  proof (rule list_ok_frame [OF vfs_okD(2) [OF ok q(1)]])
    fix a assume a: "a \<in> fst ` set (kids q)"
    have "fst ` set (kids q) \<inter> fst ` set (kids p) = {}" using ok q n unfolding vfs_ok_def by blast
    then have "a \<notin> fst ` set (kids p)" using a by blast
    moreover have "a \<noteq> cell" using cell(2) [of q] q(1) a by auto
    ultimately show "h' a = vcells s a" using i(3) by simp
  qed
  have "vfs_ok ?s (kids(p := kids p @ [(cell, c)])) nm"
    unfolding vfs_ok_def
  proof (intro conjI allI impI)
    fix q m assume q: "vnodes ?s q = Some m"
    show "q \<noteq> 0" using q d(1) vfs_okD(1) [OF ok] by (auto split: if_splits)
    show "list_ok (vn_children m) (vcells ?s) ((kids(p := kids p @ [(cell, c)])) q)" using q i(2) other by (auto split: if_splits)
    show "cstr (vn_name m) (nm q)" using q d(3) vfs_okD(3) [OF ok] by (auto split: if_splits)
    show "\<forall>(a, k) \<in> set ((kids(p := kids p @ [(cell, c)])) q). vnodes ?s k \<noteq> None"
      using q d(4) c vfs_okD(4) [OF ok, of q] by (auto split: if_splits)
  next
    fix q r assume "vnodes ?s q \<noteq> None" "vnodes ?s r \<noteq> None" "q \<noteq> r"
    then show "fst ` set ((kids(p := kids p @ [(cell, c)])) q) \<inter> fst ` set ((kids(p := kids p @ [(cell, c)])) r) = {}"
      using ok n cell(2) [of q] cell(2) [of r] unfolding vfs_ok_def by (auto split: if_splits)
  qed
  then show ?thesis using n i(1) by (auto simp: insert_child_def)
qed

lemma find_append: "find P (xs @ ys) = (case find P xs of None \<Rightarrow> find P ys | Some x \<Rightarrow> Some x)"
  by (induction xs) auto

lemma find_cong_set: "(\<And>x. x \<in> set xs \<Longrightarrow> P x = Q x) \<Longrightarrow> find P xs = find Q xs"
  by (induction xs) auto

lemma child_grow:
  assumes "\<And>c. c \<in> snd ` set (kids p) \<Longrightarrow> nm' c = nm c" and "child kids nm p x \<noteq> 0"
  shows "child (kids(p := kids p @ ys)) nm' p x = child kids nm p x"
proof -
  have "find (\<lambda>c. nm' c = x) (map snd (kids p)) = find (\<lambda>c. nm c = x) (map snd (kids p))"
    by (rule find_cong_set) (use assms(1) in auto)
  then show ?thesis using assms(2) by (simp add: child_def find_append split: option.splits)
qed

lemma child_new:
  assumes "\<And>c. c \<in> snd ` set (kids p) \<Longrightarrow> nm c \<noteq> x" and "nm n = x"
  shows "child (kids(p := kids p @ [(a, n)])) nm p x = n"
proof -
  have "find (\<lambda>c. nm c = x) (map snd (kids p)) = None" using assms(1) by (auto simp: find_None_iff)
  then show ?thesis using assms(2) by (simp add: child_def find_append)
qed

lemma create_device_ok:
  assumes ok: "vfs_ok s kids nm" and r: "vnodes s (root s) \<noteq> None" and dev: "child kids nm (root s) [100, 101, 118] = dev" "dev \<noteq> 0"
    and n: "n \<noteq> 0" "vnodes s n = None" and cell: "cell \<noteq> 0" "\<And>q. vnodes s q \<noteq> None \<Longrightarrow> cell \<notin> fst ` set (kids q)"
    and f: "dev_fncs \<noteq> 0" "fops s dev_fncs \<noteq> None" "fops s (default_ops s) \<noteq> None"
    and nmx: "cstr name nmx" "length nmx < 2 ^ 16 - 1" "\<And>c. c \<in> snd ` set (kids dev) \<Longrightarrow> nm c \<noteq> nmx"
    and len: "length (kids dev) + 1 < 2 ^ 32"
  shows "\<exists>s'. vfs_create_device n True cell name caps tag dev_fncs s = Some (n, s') \<and>
    vfs_ok s' (kids(n := [], dev := kids dev @ [(cell, n)])) (nm(n := nmx)) \<and>
    (\<forall>q. vnodes s' q = None \<longleftrightarrow> vnodes s q = None \<and> q \<noteq> n) \<and> root s' = root s"
proof -
  obtain fo d where fo: "fops s dev_fncs = Some fo" "fops s (default_ops s) = Some d" using f by blast
  have dn: "cstr [100, 101, 118, 0 :: u8] [100, 101, 118]" by (simp add: cstr_Cons)
  have g: "vfs_get_dev s = Some dev" using vfs_find_child_ok(1) [OF ok r dn] dev(1) by (simp add: vfs_get_dev_def)
  have vd: "vnodes s dev \<noteq> None" using vfs_find_child_ok(3) [OF ok r dn] dev by simp
  define s1 where "s1 = s\<lparr>fops := (fops s)(dev_fncs \<mapsto> fill_ops d fo), vnodes := (vnodes s)(n \<mapsto> \<lparr>vn_name = nmx @ [0],
    vn_name_length = of_nat (length nmx), vn_attributes = VFS_DEVICE OR VFS_READ, vn_capabilities = caps, vn_file_length = 0,
    vn_tag = tag, vn_parent = dev, vn_fs_ops = dev_fncs, vn_children = \<lparr>l_head = 0, l_tail = 0, l_count = 0\<rparr>\<rparr>)\<rparr>"
  have c: "vfs_create_node n True name True (VFS_DEVICE OR VFS_READ) caps 0 tag dev dev_fncs s = Some (n, s1)"
    unfolding s1_def by (rule create_node_ok [OF n(1) f(1) fo nmx(1,2)])
  have n0: "cstr (nmx @ [0]) nmx" using nmx(1) by (auto simp: cstr_def)
  have ok1: "vfs_ok s1 (kids(n := [])) (nm(n := nmx))"
    unfolding s1_def by (rule new_node_vfs_ok [OF ok n]) (use n0 in simp_all)
  have nd: "dev \<noteq> n" "root s \<noteq> n" using vd r n(2) by auto
  have r1: "root s1 = root s" "vnodes s1 (root s1) \<noteq> None" "vnodes s1 dev \<noteq> None" "vnodes s1 n \<noteq> None"
    using r vd nd by (simp_all add: s1_def)
  have "nm c = (nm(n := nmx)) c" if "c \<in> snd ` set (kids (root s))" for c
  proof -
    obtain m where "vnodes s (root s) = Some m" using r by blast
    then have "vnodes s c \<noteq> None" using vfs_okD(4) [OF ok, of "root s"] that by fastforce
    then show ?thesis using n(2) by auto
  qed
  then have "child (kids(n := [])) (nm(n := nmx)) (root s) [100, 101, 118] = dev"
    using child_grow [of kids "root s" "nm(n := nmx)" nm "[100, 101, 118]" "[]"] dev nd by (simp add: child_def)
  then have g1: "vfs_get_dev s1 = Some dev"
    using vfs_find_child_ok(1) [OF ok1 r1(2) dn] r1(1) by (simp add: vfs_get_dev_def)
  have fresh: "cell \<notin> fst ` set ((kids(n := [])) q)" if "vnodes s1 q \<noteq> None" for q
    using that cell(2) [of q] by (auto simp: s1_def split: if_splits)
  have len1: "length ((kids(n := [])) dev) + 1 < 2 ^ 32" using len nd by simp
  obtain s' where s': "insert_child cell dev n s1 = Some s'"
    "vfs_ok s' ((kids(n := []))(dev := (kids(n := [])) dev @ [(cell, n)])) (nm(n := nmx))"
    "root s' = root s1" "\<forall>q. vnodes s' q = None \<longleftrightarrow> vnodes s1 q = None"
    using insert_child_ok [OF ok1 r1(3,4) cell(1) _ len1, OF fresh] by blast
  have "vfs_create_device n True cell name caps tag dev_fncs s = Some (n, s')"
    using g c g1 s'(1) n(1) by (simp add: vfs_create_device_def)
  moreover have "vfs_ok s' (kids(n := [], dev := kids dev @ [(cell, n)])) (nm(n := nmx))" using s'(2) nd by simp
  moreover have "\<forall>q. vnodes s' q = None \<longleftrightarrow> vnodes s q = None \<and> q \<noteq> n" using s'(4) by (simp add: s1_def)
  ultimately show ?thesis using s'(3) r1(1) by (intro exI [of _ s']) simp
qed

subsection \<open>Properties\<close>

definition sample_node :: "bytes \<Rightarrow> ptr \<Rightarrow> list_t \<Rightarrow> vfs_node" where
  "sample_node name parent l = \<lparr>vn_name = name, vn_name_length = 0, vn_attributes = VFS_DIRECTORY, vn_capabilities = VFS_CAP_READ,
     vn_file_length = 0, vn_tag = 0, vn_parent = parent, vn_fs_ops = 0x400, vn_children = l\<rparr>"

definition sample_vfs :: vfs where
  \<comment> \<open>A root with one child, dev, that has none.\<close>
  "sample_vfs = \<lparr>last_error = 0, mmngr_memory_size = 0, mmngr_used_blocks = 0, mmngr_max_blocks = 0, mmngr_bitmap = [],
     cr0 = 0, cr3 = 0, tables = Map.empty, current_directory = 0, current_pdbr = 0, kernel_directory = 0,
     vnodes = [0x100 \<mapsto> sample_node [114, 111, 111, 116, 0] 0 \<lparr>l_head = 0x10, l_tail = 0x10, l_count = 1\<rparr>,
       0x200 \<mapsto> sample_node [100, 101, 118, 0] 0x100 \<lparr>l_head = 0, l_tail = 0, l_count = 0\<rparr>],
     vcells = [0x10 \<mapsto> \<lparr>ln_data = 0x200, ln_next = 0\<rparr>],
     fops = [0x300 \<mapsto> \<lparr>fs_read = 0x1000, fs_write = 0, fs_open = 0, fs_close = 0, fs_sync = 0, fs_lookup = 0, fs_ioctl = 0\<rparr>,
       0x400 \<mapsto> \<lparr>fs_read = 0x2000, fs_write = 0x2010, fs_open = 0x2020, fs_close = 0, fs_sync = 0x2030, fs_lookup = 0x2040, fs_ioctl = 0\<rparr>],
     default_ops = 0x400, root = 0x100\<rparr>"

definition sample_kids :: "ptr \<Rightarrow> (ptr \<times> ptr) list" where
  "sample_kids p = (if p = 0x100 then [(0x10, 0x200)] else [])"

definition sample_names :: "ptr \<Rightarrow> bytes" where
  "sample_names p = (if p = 0x100 then [114, 111, 111, 116] else [100, 101, 118])"

lemma sample_vfs_ok: "vfs_ok sample_vfs sample_kids sample_names"
  by (auto simp: vfs_ok_def sample_vfs_def sample_kids_def sample_names_def sample_node_def list_ok_def cstr_Cons split: if_splits)

text \<open>
  C14. Looking a path up from a node. On a well formed tree the lookup ends and gives exactly the node
  that the reference walk reaches over the components of the path, the first child of each name; it
  reports ENOENT when there is none. The caller's path, whose slashes are overwritten on the way, is
  as before, and nothing else of the state changes.
\<close>

theorem path_lookup_correct:
  assumes "vfs_ok s kids nm" and "vnodes s p \<noteq> None" and "cstr buf path"
  shows "let r = resolve kids nm p (components path) in
    vfs_default_lookup p (Some buf) s = Some (if r = 0
      then (ERROR_OCCUR, 0, Some buf, set_last_error ENOENT VFS_PATH_NOT_FOUND EO_VFS s) else (ERROR_OK, r, Some buf, s))"
proof -
  obtain e where e: "relative_loop p buf 0 s = Some (resolve kids nm p (components path), buf, s\<lparr>last_error := e\<rparr>)"
    "resolve kids nm p (components path) \<noteq> 0 \<longrightarrow> e = last_error s"
    using relative_loop_ok [OF assms(1,2), of 0 buf path] assms(3) by auto
  then show ?thesis
    by (simp add: vfs_default_lookup_def vfs_find_relative_node_def Let_def) (simp add: set_last_error_def Let_def)
qed

lemma path_lookup_correct_witness:
  "vfs_default_lookup 0x100 (Some [100, 101, 118, 0]) sample_vfs = Some (ERROR_OK, 0x200, Some [100, 101, 118, 0], sample_vfs)"
proof -
  have v: "vnodes sample_vfs 0x100 \<noteq> None" by (simp add: sample_vfs_def)
  have c: "cstr [100, 101, 118, 0 :: u8] [100, 101, 118]" by (simp add: cstr_Cons)
  have r: "resolve sample_kids sample_names 0x100 (components [100, 101, 118]) = 0x200"
    by (simp add: child_def sample_kids_def sample_names_def)
  show ?thesis using path_lookup_correct [OF sample_vfs_ok v c] unfolding r Let_def by simp
qed

text \<open>
  A device that is registered can be found: when memory is granted and no device of that name
  exists, registering a device under \<^verbatim>\<open>dev\<close> keeps the tree well formed, adds nothing but the new
  node, and the path of the device resolves to it from the root.
\<close>

theorem device_roundtrip:
  assumes "vfs_ok s kids nm" and "vnodes s (root s) \<noteq> None" and "child kids nm (root s) [100, 101, 118] = dev" and "dev \<noteq> 0"
    and "n \<noteq> 0" and "vnodes s n = None" and "cell \<noteq> 0" and "\<And>q. vnodes s q \<noteq> None \<Longrightarrow> cell \<notin> fst ` set (kids q)"
    and "dev_fncs \<noteq> 0" and "fops s dev_fncs \<noteq> None" and "fops s (default_ops s) \<noteq> None"
    and "cstr name nmx" and "length nmx < 2 ^ 16 - 1" and "47 \<notin> set nmx" and "\<And>c. c \<in> snd ` set (kids dev) \<Longrightarrow> nm c \<noteq> nmx"
    and "length (kids dev) + 1 < 2 ^ 32"
  shows "\<exists>s' kids' nm'. vfs_create_device n True cell name caps tag dev_fncs s = Some (n, s') \<and> vfs_ok s' kids' nm' \<and>
    (\<forall>q. vnodes s' q = None \<longleftrightarrow> vnodes s q = None \<and> q \<noteq> n) \<and>
    vfs_find_node (Some ([100, 101, 118, 47] @ nmx @ [0])) s' = Some (n, Some ([100, 101, 118, 47] @ nmx @ [0]), s')"
proof -
  let ?kids = "kids(n := [], dev := kids dev @ [(cell, n)])" and ?nm = "nm(n := nmx)"
  obtain s' where s': "vfs_create_device n True cell name caps tag dev_fncs s = Some (n, s')" "vfs_ok s' ?kids ?nm"
    "\<forall>q. vnodes s' q = None \<longleftrightarrow> vnodes s q = None \<and> q \<noteq> n" "root s' = root s"
    using create_device_ok [OF assms(1-13,15,16)] by blast
  have dn: "cstr [100, 101, 118, 0 :: u8] [100, 101, 118]" by (simp add: cstr_Cons)
  have vd: "vnodes s dev \<noteq> None" using vfs_find_child_ok(3) [OF assms(1,2) dn] assms(3,4) by simp
  have old: "vnodes s c \<noteq> None" if "vnodes s p \<noteq> None" "c \<in> snd ` set (kids p)" for p c
  proof -
    from that(1) obtain m where "vnodes s p = Some m" by blast
    then show ?thesis using vfs_okD(4) [OF assms(1), of p] that(2) by fastforce
  qed
  have nd: "dev \<noteq> n" "root s \<noteq> n" using vd assms(2,6) by auto
  have same: "?nm c = nm c" if "vnodes s p \<noteq> None" "c \<in> snd ` set (kids p)" for p c using old [OF that] assms(6) by auto
  have "child ?kids ?nm (root s) [100, 101, 118] = dev"
  proof (cases "root s = dev")
    case True
    have "child (kids(dev := kids dev @ [(cell, n)])) ?nm dev [100, 101, 118] = dev"
      using child_grow [of kids dev ?nm nm "[100, 101, 118]"] same [OF vd] assms(3,4) True by simp
    then show ?thesis using True by (simp add: child_def)
  next
    case False
    have "child (kids(root s := kids (root s) @ [])) ?nm (root s) [100, 101, 118] = dev"
      using child_grow [of kids "root s" ?nm nm "[100, 101, 118]" "[]"] same [OF assms(2)] assms(3,4) by simp
    then show ?thesis using False nd by (simp add: child_def)
  qed
  moreover have "child ?kids ?nm dev nmx = n"
  proof -
    have "child (kids(dev := kids dev @ [(cell, n)])) ?nm dev nmx = n"
      by (rule child_new) (use same [OF vd] assms(15) in auto)
    then show ?thesis by (simp add: child_def)
  qed
  moreover have "components ([100, 101, 118, 47] @ nmx) = [[100, 101, 118], nmx]"
    using assms(14) components_split [of nmx] by simp
  moreover have "root s \<noteq> 0" using assms(1,2) by (auto simp: vfs_ok_def)
  ultimately have r: "resolve ?kids ?nm (root s') (components ([100, 101, 118, 47] @ nmx)) = n"
    using s'(4) assms(4) by (simp only: resolve.simps if_False)
  have c: "cstr (drop 0 ([100, 101, 118, 47] @ nmx @ [0])) ([100, 101, 118, 47] @ nmx)" using assms(12) by (auto simp: cstr_def)
  have v: "vnodes s' (root s') \<noteq> None" using s'(3,4) assms(2) nd by simp
  have "relative_loop (root s') ([100, 101, 118, 47] @ nmx @ [0]) 0 s' = Some (n, [100, 101, 118, 47] @ nmx @ [0], s')"
    using relative_loop_ok [OF s'(2) v c] assms(5) unfolding r by auto
  then have "vfs_find_node (Some ([100, 101, 118, 47] @ nmx @ [0])) s' = Some (n, Some ([100, 101, 118, 47] @ nmx @ [0]), s')"
    by (simp add: vfs_find_node_def vfs_find_relative_node_def vfs_get_root_def)
  then show ?thesis using s'(1,2,3) by blast
qed

lemma device_roundtrip_witness:
  "\<exists>s'. vfs_create_device 0x500 True 0x20 [97, 0] VFS_CAP_READ 0 0x300 sample_vfs = Some (0x500, s') \<and>
     vfs_find_node (Some [100, 101, 118, 47, 97, 0]) s' = Some (0x500, Some [100, 101, 118, 47, 97, 0], s')"
proof -
  have "child sample_kids sample_names (root sample_vfs) [100, 101, 118] = 0x200"
    by (simp add: child_def sample_kids_def sample_names_def sample_vfs_def)
  moreover have "vnodes sample_vfs (root sample_vfs) \<noteq> None" "vnodes sample_vfs 0x500 = None"
    "fops sample_vfs 0x300 \<noteq> None" "fops sample_vfs (default_ops sample_vfs) \<noteq> None"
    by (simp_all add: sample_vfs_def)
  moreover have "\<And>q. (0x20 :: ptr) \<notin> fst ` set (sample_kids q)" "snd ` set (sample_kids 0x200) = {}" "length (sample_kids 0x200) = 0"
    by (auto simp: sample_kids_def)
  moreover have "cstr [97, 0 :: u8] [97]" by (simp add: cstr_Cons)
  ultimately show ?thesis
    using device_roundtrip [OF sample_vfs_ok, of "0x200" "0x500" "0x20" "0x300" "[97, 0]" "[97]" VFS_CAP_READ 0]
    by (simp del: One_nat_def) blast
qed

end
