(* ===== verification/Open_Files.thy ===== *)
theory Open_Files
  imports Vfs Vector Utility Vm_Contract Ring_Queue
begin

text \<open>
  The tables of open files, open_file_table.cpp: one table for the whole system, whose entries name a
  node of the virtual file system, count how often it is open and list its cached pages, and one
  table for the current process. The record also holds the fields of the page cache and the bytes of
  the address space, which the components above use. Whether the heap grants a request is the
  argument \<open>granted\<close>. An entry's address is its index.
\<close>

subsection \<open>Data\<close>

record page_cache_file_info =
  fi_page :: u32
  fi_buffer_index :: u32
  fi_dirty :: bool

record local_file_entry =
  le_flags :: u32
  le_gfd :: u32

record global_file_entry =
  ge_file_node :: ptr
  ge_open_count :: u32
  ge_lock :: u32
  ge_pages :: list_t

record files = vfs +
  gft :: "global_file_entry vector"
  gft_lock :: u32
  lft :: "local_file_entry vector"
  lft_lock :: u32
  in_critical :: u32
  fi_cells :: "page_cache_file_info nodes"
  pc_cache :: virtual_addr
  pc_cache_size :: u32
  alloced_bitmap :: virtual_addr
  bytes_at :: mem

definition OPEN_FILE_OUT_OF_BOUNDS :: u16 where "OPEN_FILE_OUT_OF_BOUNDS = 1"
definition OPEN_FILE_NOT_EXIST :: u16 where "OPEN_FILE_NOT_EXIST = 2"
definition OPEN_FILE_BAD_GLOBAL_DESCRIPTOR :: u16 where "OPEN_FILE_BAD_GLOBAL_DESCRIPTOR = 3"

subsection \<open>The table of the process\<close>

definition init_local_file_table :: "bool \<Rightarrow> u32 \<Rightarrow> 'a files_scheme \<Rightarrow> error_t \<times> 'a files_scheme" where
  "init_local_file_table granted initial_size s =
     (let (err, v) = vector_init granted initial_size; s = s\<lparr>lft := v\<rparr> in
      if err \<noteq> ERROR_OK then (ERROR_OCCUR, s) else (ERROR_OK, s\<lparr>lft_lock := spinlock_init\<rparr>))"

definition create_lfe :: "u32 \<Rightarrow> u32 \<Rightarrow> local_file_entry" where
  "create_lfe gfd flags = \<lparr>le_flags = flags, le_gfd = gfd\<rparr>"

definition lfe_is_invalid :: "local_file_entry \<Rightarrow> bool" where
  "lfe_is_invalid e \<longleftrightarrow> le_gfd e = INVALID_FD"

definition free_slot :: "('e \<Rightarrow> bool) \<Rightarrow> 'e vector \<Rightarrow> u32 option option" where
  \<comment> \<open>The first test of both insertions: \<open>None\<close> to append, \<open>Some i\<close> to reuse cell \<open>i\<close>.\<close>
  "free_slot invalid v =
     (if v_count v < v_r_size v then Some None
      else do { i \<leftarrow> vector_find_first invalid v; Some (if v_r_size v \<le> i then None else Some i) })"

definition lft_insert :: "bool \<Rightarrow> local_file_entry \<Rightarrow> 'a files_scheme \<Rightarrow> (u32 \<times> 'a files_scheme) option" where
  "lft_insert granted entry s =
     (if v_count (gft s) \<le> le_gfd entry
      then Some (INVALID_FD, set_last_error EBADF OPEN_FILE_BAD_GLOBAL_DESCRIPTOR EO_OPEN_FILE_TBL s)
      else do {
        l \<leftarrow> spinlock_acquire (lft_lock s);
        let s = s\<lparr>lft_lock := l\<rparr>;
        slot \<leftarrow> free_slot lfe_is_invalid (lft s);
        (err, loc_index, s) \<leftarrow> (case slot of
            None \<Rightarrow> do { (err, v) \<leftarrow> vector_insert_back granted entry (lft s); Some (err, v_count v - 1, s\<lparr>lft := v\<rparr>) }
          | Some i \<Rightarrow> Some (ERROR_OK, i, s));
        if err \<noteq> ERROR_OK then Some (INVALID_FD, s\<lparr>lft_lock := spinlock_release (lft_lock s)\<rparr>)
        else do {
          v \<leftarrow> vec_put loc_index entry (lft s);
          Some (loc_index, s\<lparr>lft := v, lft_lock := spinlock_release (lft_lock s)\<rparr>)
        }
      })"

definition lft_remove :: "u32 \<Rightarrow> 'a files_scheme \<Rightarrow> (error_t \<times> 'a files_scheme) option" where
  "lft_remove index s =
     (if v_count (lft s) \<le> index then Some (ERROR_OCCUR, set_last_error EBADF OPEN_FILE_OUT_OF_BOUNDS EO_OPEN_FILE_TBL s)
      else do {
        v \<leftarrow> vec_put index \<lparr>le_flags = VFS_CAP_NONE, le_gfd = INVALID_FD\<rparr> (lft s);
        Some (ERROR_OK, s\<lparr>lft := v\<rparr>)
      })"

definition lft_get :: "u32 \<Rightarrow> 'a files_scheme \<Rightarrow> (local_file_entry option \<times> 'a files_scheme) option" where
  "lft_get index s =
     (if v_count (lft s) \<le> index then Some (None, set_last_error EBADF OPEN_FILE_OUT_OF_BOUNDS EO_OPEN_FILE_TBL s)
      else do { e \<leftarrow> vec_get (lft s) index; Some (Some e, s) })"

subsection \<open>The table of the system\<close>

definition init_global_file_table :: "bool \<Rightarrow> u32 \<Rightarrow> 'a files_scheme \<Rightarrow> error_t \<times> 'a files_scheme" where
  "init_global_file_table granted initial_size s =
     (let (err, v) = vector_init granted initial_size; s = s\<lparr>gft := v\<rparr> in
      if err \<noteq> ERROR_OK then (ERROR_OCCUR, s) else (ERROR_OK, s\<lparr>gft_lock := spinlock_init\<rparr>))"

definition create_gfe :: "ptr \<Rightarrow> global_file_entry" where
  "create_gfe file = \<lparr>ge_file_node = file, ge_open_count = 0, ge_lock = spinlock_init,
     ge_pages = \<lparr>l_head = 0, l_tail = 0, l_count = 0\<rparr>\<rparr>"

definition gfe_is_invalid :: "global_file_entry \<Rightarrow> bool" where
  "gfe_is_invalid e \<longleftrightarrow> ge_file_node e = 0"

definition gft_insert :: "bool \<Rightarrow> global_file_entry \<Rightarrow> 'a files_scheme \<Rightarrow> (error_t \<times> u32 \<times> 'a files_scheme) option" where
  "gft_insert granted entry s = do {
     slot \<leftarrow> free_slot gfe_is_invalid (gft s);
     (err, i, s) \<leftarrow> (case slot of
         None \<Rightarrow> do { (err, v) \<leftarrow> vector_insert_back granted entry (gft s); Some (err, v_count v - 1, s\<lparr>gft := v\<rparr>) }
       | Some i \<Rightarrow> Some (ERROR_OK, i, s));
     if err \<noteq> ERROR_OK then Some (ERROR_OCCUR, - 1, s)
     else do { v \<leftarrow> vec_put i entry (gft s); Some (ERROR_OK, i, s\<lparr>gft := v\<rparr>) }
   }"

partial_function (option) get_n_loop :: "u32 \<Rightarrow> u32 \<Rightarrow> ptr \<Rightarrow> global_file_entry vector \<Rightarrow> u32 option" where
  [code]: "get_n_loop count i node v =
     (if i < count then do {
        e \<leftarrow> vec_get v i;
        if ge_file_node e = node then Some i else get_n_loop count (i + 1) node v
      }
      else Some (- 1))"

definition gft_get_n :: "ptr \<Rightarrow> 'a files_scheme \<Rightarrow> u32 option" where
  "gft_get_n node s = get_n_loop (v_count (gft s)) 0 node (gft s)"

definition gft_insert_s :: "bool \<Rightarrow> global_file_entry \<Rightarrow> 'a files_scheme \<Rightarrow> (u32 \<times> 'a files_scheme) option" where
  "gft_insert_s granted entry s = do {
     let s = s\<lparr>in_critical := critlock_acquire (in_critical s)\<rparr>;
     entry_index \<leftarrow> gft_get_n (ge_file_node entry) s;
     (err, entry_index, s) \<leftarrow> (if entry_index = - 1 then gft_insert granted entry s else Some (ERROR_OK, entry_index, s));
     if err \<noteq> ERROR_OK then Some (INVALID_FD, s\<lparr>in_critical := critlock_release (in_critical s)\<rparr>)
     else do {
       e \<leftarrow> vec_get (gft s) entry_index;
       v \<leftarrow> vec_put entry_index (e\<lparr>ge_open_count := ge_open_count e + 1\<rparr>) (gft s);
       Some (entry_index, s\<lparr>gft := v, in_critical := critlock_release (in_critical s)\<rparr>)
     }
   }"

definition gft_remove :: "u32 \<Rightarrow> 'a files_scheme \<Rightarrow> (bool \<times> 'a files_scheme) option" where
  \<comment> \<open>The function returns \<^verbatim>\<open>bool\<close>: the error codes 1 and 0 come back as true and false.\<close>
  "gft_remove index s =
     (if v_count (gft s) \<le> index then Some (ERROR_OCCUR \<noteq> 0, set_last_error EBADF OPEN_FILE_OUT_OF_BOUNDS EO_OPEN_FILE_TBL s)
      else do {
        e \<leftarrow> vec_get (gft s) index;
        v \<leftarrow> vec_put index (e\<lparr>ge_file_node := 0, ge_open_count := 0\<rparr>) (gft s);
        Some (ERROR_OK \<noteq> 0, s\<lparr>gft := v\<rparr>)
      })"

definition gft_get :: "u32 \<Rightarrow> 'a files_scheme \<Rightarrow> u32 option \<times> 'a files_scheme" where
  \<comment> \<open>\<open>None\<close> is the null pointer, \<open>Some i\<close> the address of entry \<open>i\<close>.\<close>
  "gft_get index s =
     (if v_count (gft s) \<le> index then (None, set_last_error EBADF OPEN_FILE_OUT_OF_BOUNDS EO_OPEN_FILE_TBL s)
      else (Some index, s))"

definition valid_gfe :: "u32 option \<Rightarrow> 'a files_scheme \<Rightarrow> global_file_entry option option" where
  \<comment> \<open>The test \<^verbatim>\<open>entry == 0 || gfe_is_invalid(entry)\<close>: \<open>Some None\<close> when it is true, else the entry.\<close>
  "valid_gfe p s = (case p of None \<Rightarrow> Some None
     | Some i \<Rightarrow> do { e \<leftarrow> vec_get (gft s) i; Some (if gfe_is_invalid e then None else Some e) })"

definition gfe_increase_open_count :: "u32 \<Rightarrow> 'a files_scheme \<Rightarrow> (error_t \<times> 'a files_scheme) option" where
  "gfe_increase_open_count index s = do {
     let (p, s) = gft_get index s;
     entry \<leftarrow> valid_gfe p s;
     case entry of None \<Rightarrow> Some (ERROR_OCCUR, set_last_error EBADF OPEN_FILE_NOT_EXIST EO_OPEN_FILE_TBL s)
     | Some e \<Rightarrow> do {
         v \<leftarrow> vec_put index (e\<lparr>ge_open_count := ge_open_count e + 1\<rparr>) (gft s);
         Some (ERROR_OK, s\<lparr>gft := v\<rparr>)
       }
   }"

definition gfe_decrement_open_count :: "u32 \<Rightarrow> 'a files_scheme \<Rightarrow> (error_t \<times> 'a files_scheme) option" where
  "gfe_decrement_open_count index s = do {
     let s = s\<lparr>in_critical := critlock_acquire (in_critical s)\<rparr>;
     let (p, s) = gft_get index s;
     entry \<leftarrow> valid_gfe p s;
     case entry of None \<Rightarrow>
         Some (ERROR_OCCUR, set_last_error EBADF OPEN_FILE_NOT_EXIST EO_OPEN_FILE_TBL
           (s\<lparr>in_critical := critlock_release (in_critical s)\<rparr>))
     | Some e \<Rightarrow> do {
         v \<leftarrow> vec_put index (e\<lparr>ge_open_count := ge_open_count e - 1\<rparr>) (gft s);
         Some (ERROR_OK, s\<lparr>gft := v, in_critical := critlock_release (in_critical s)\<rparr>)
       }
   }"

definition CAS :: "u32 \<Rightarrow> u32 \<Rightarrow> u32 \<Rightarrow> bool \<times> u32" where
  \<comment> \<open>The result and the new value of the cell.\<close>
  "CAS cell old_val new_val = (if cell = old_val then (True, new_val) else (False, cell))"

definition gfe_decrement_open_count_raw :: "u32 \<Rightarrow> 'a files_scheme \<Rightarrow> 'a files_scheme option" where
  \<comment> \<open>Without interference the first exchange succeeds.\<close>
  "gfe_decrement_open_count_raw index s = do {
     e \<leftarrow> vec_get (gft s) index;
     let open_cnt = ge_open_count e;
     let (ok, cell) = CAS (ge_open_count e) open_cnt (open_cnt - 1);
     v \<leftarrow> vec_put index (e\<lparr>ge_open_count := cell\<rparr>) (gft s);
     Some (s\<lparr>gft := v\<rparr>)
   }"

definition gft_get_by_fd :: "u32 \<Rightarrow> 'a files_scheme \<Rightarrow> u32 option" where
  "gft_get_by_fd fd s =
     (if v_count (lft s) \<le> fd then Some INVALID_FD else do { e \<leftarrow> vec_get (lft s) fd; Some (le_gfd e) })"

partial_function (option) get_by_name_loop :: "u32 \<Rightarrow> bytes \<Rightarrow> 'a files_scheme \<Rightarrow> u32 option" where
  [code]: "get_by_name_loop i name s =
     (if i < v_count (gft s) then do {
        e \<leftarrow> vec_get (gft s) i;
        n \<leftarrow> vnodes s (ge_file_node e);
        r \<leftarrow> strcmp_insensitive name (vn_name n);
        if r = 0 then Some i else get_by_name_loop (i + 1) name s
      }
      else Some INVALID_FD)"

definition gft_get_by_name :: "bytes \<Rightarrow> 'a files_scheme \<Rightarrow> u32 option" where
  "gft_get_by_name name s = get_by_name_loop 0 name s"

subsection \<open>Inserting into a table\<close>

lemma vec_rep_count: "vec_rep v xs \<Longrightarrow> unat (v_count v) = length xs"
  by (simp add: vec_rep_def)

lemma vec_rep_len: "vec_rep v xs \<Longrightarrow> length xs < 2 ^ 32"
  using unat_lt_u32 [of "v_count v"] by (simp add: vec_rep_def)

lemma find_upt_None: "find (\<lambda>k. P (xs ! k)) [0..<length xs] = None \<longleftrightarrow> (\<forall>k < length xs. \<not> P (xs ! k))"
  by (auto simp: find_None_iff)

lemma find_upt_Some: "find (\<lambda>k. P (xs ! k)) [0..<length xs] = Some k \<Longrightarrow> k < length xs \<and> P (xs ! k)"
  by (auto simp: find_Some_iff)

lemma free_slot_ok:
  assumes v: "vec_rep v xs" and small: "length xs < 2 ^ 31"
  obtains "free_slot P v = Some None" | k where "free_slot P v = Some (Some (of_nat k))" "k < length xs" "P (xs ! k)"
proof (cases "v_count v < v_r_size v")
  case True
  then show thesis using that(1) by (simp add: free_slot_def)
next
  case False
  obtain rest where r: "v_data v = map Some xs @ rest" "unat (v_count v) = length xs"
    "unat (v_r_size v) = length xs + length rest" "0 < unat (v_r_size v)" using v by (rule vec_repE)
  with False have sz: "unat (v_r_size v) = length xs" by (simp add: word_less_nat_alt)
  note f = vector_find_first_loop_ok [OF v, of 0 P]
  show thesis
  proof (cases "find (\<lambda>k. P (xs ! k)) [0..<length xs]")
    case None
    then show thesis using that(1) f False by (simp add: free_slot_def vector_find_first_def)
  next
    case (Some k)
    have k: "k < length xs" "P (xs ! k)" using find_upt_Some [OF Some] by simp_all
    have "unat (of_nat k :: u32) = k" using k(1) small by (simp add: unat_of_nat_u32)
    then have "\<not> v_r_size v \<le> of_nat k" using k(1) sz by (simp add: word_le_nat_alt)
    then show thesis using that(2) [OF _ k] f False Some by (simp add: free_slot_def vector_find_first_def)
  qed
qed

lemma get_n_loop_ok:
  assumes v: "vec_rep v xs" and "unat i \<le> length xs"
  shows "get_n_loop (v_count v) i node v = vector_find_first_loop (\<lambda>e. ge_file_node e = node) v i"
  using assms(2)
proof (induction "length xs - unat i" arbitrary: i)
  case 0
  then have "\<not> i < v_count v" using vec_rep_count [OF v] by (simp add: word_less_nat_alt)
  then show ?case by (subst get_n_loop.simps, subst vector_find_first_loop.simps) simp
next
  case (Suc n)
  then have i: "unat i < length xs" by simp
  have "unat (i + 1) = unat i + 1" using i vec_rep_len [OF v] by (intro unat_suc_u32) simp
  then have "get_n_loop (v_count v) (i + 1) node v = vector_find_first_loop (\<lambda>e. ge_file_node e = node) v (i + 1)"
    using Suc i by (intro Suc(1)) simp_all
  then show ?case by (subst get_n_loop.simps, subst vector_find_first_loop.simps) (simp cong: Option.bind_cong if_cong)
qed

lemma gft_get_n_ok:
  assumes v: "vec_rep (gft s) xs" and small: "length xs < 2 ^ 31"
  obtains k where "gft_get_n node s = Some (of_nat k)" "k < length xs" "ge_file_node (xs ! k) = node" "(of_nat k :: u32) \<noteq> - 1"
  | "gft_get_n node s = Some (- 1)" "\<forall>k < length xs. ge_file_node (xs ! k) \<noteq> node"
proof -
  have g: "gft_get_n node s = Some (case find (\<lambda>k. ge_file_node (xs ! k) = node) [0..<length xs] of None \<Rightarrow> - 1 | Some k \<Rightarrow> of_nat k)"
    using vector_find_first_loop_ok [OF v, of 0 "\<lambda>e. ge_file_node e = node"] get_n_loop_ok [OF v, of 0] by (simp add: gft_get_n_def)
  show thesis
  proof (cases "find (\<lambda>k. ge_file_node (xs ! k) = node) [0..<length xs]")
    case None
    then show thesis using that(2) g find_upt_None [of "\<lambda>e. ge_file_node e = node" xs] by simp
  next
    case (Some k)
    then have k: "k < length xs" "ge_file_node (xs ! k) = node" using find_upt_Some [of "\<lambda>e. ge_file_node e = node" xs k] by simp_all
    then have "unat (of_nat k :: u32) = k" using small by (simp add: unat_of_nat_u32)
    moreover have "unat (- 1 :: u32) = 2 ^ 32 - 1" by (simp add: unsigned_minus_1_eq_mask mask_eq_exp_minus_1)
    ultimately have "(of_nat k :: u32) \<noteq> - 1" using k(1) small by auto
    then show thesis using that(1) [OF _ k] g Some by simp
  qed
qed

lemma gft_insert_ok:
  assumes v: "vec_rep (gft s) xs" and small: "length xs < 2 ^ 31"
  obtains i v' ys where "gft_insert True entry s = Some (ERROR_OK, of_nat i, s\<lparr>gft := v'\<rparr>)" "vec_rep v' ys" "i < length ys"
    "ys ! i = entry" "\<And>j. j < length xs \<Longrightarrow> j \<noteq> i \<Longrightarrow> ys ! j = xs ! j" "i < length xs \<Longrightarrow> ge_file_node (xs ! i) = 0"
    "length ys = max (length xs) (i + 1)" "i \<le> length xs"
  using v small
proof (rule free_slot_ok [where P = gfe_is_invalid])
  assume s: "free_slot gfe_is_invalid (gft s) = Some None"
  obtain w where w: "vector_insert_back True entry (gft s) = Some (ERROR_OK, w)" "vec_rep w (xs @ [entry])"
    using vector_insert_back_ok [OF v small] by blast
  have "unat (v_count w) = Suc (length xs)" using vec_rep_count [OF w(2)] by simp
  then have "unat (v_count w - 1) = length xs" by (metis unat_pred_length)
  then have c: "v_count w - 1 = of_nat (length xs)" using small by (metis unat_of_nat_u32 word_unat_eq_iff vec_rep_len v)
  have i: "unat (of_nat (length xs) :: u32) = length xs" using small by (simp add: unat_of_nat_u32)
  then have lt: "unat (of_nat (length xs) :: u32) < length (xs @ [entry])" by simp
  note p = vec_put_rep [OF w(2) lt, of entry]
  show thesis
    by (rule that [of "length xs" "w\<lparr>v_data := (v_data w)[unat (of_nat (length xs) :: u32) := Some entry]\<rparr>" "xs @ [entry]"])
      (use s w(1) p c i in \<open>simp_all add: gft_insert_def nth_append\<close>)
next
  fix k assume k: "free_slot gfe_is_invalid (gft s) = Some (Some (of_nat k))" "k < length xs" "gfe_is_invalid (xs ! k)"
  have i: "unat (of_nat k :: u32) = k" using small k(2) by (simp add: unat_of_nat_u32)
  then have lt: "unat (of_nat k :: u32) < length xs" using k(2) by simp
  note p = vec_put_rep [OF v lt, of entry]
  show thesis
    by (rule that [of k "(gft s)\<lparr>v_data := (v_data (gft s))[unat (of_nat k :: u32) := Some entry]\<rparr>" "xs[k := entry]"])
      (use k p i in \<open>simp_all add: gft_insert_def gfe_is_invalid_def\<close>)
qed

definition gft_ok :: "'a files_scheme \<Rightarrow> global_file_entry list \<Rightarrow> bool" where
  \<comment> \<open>The table holds \<open>xs\<close>, and no node has two entries.\<close>
  "gft_ok s xs \<longleftrightarrow> vec_rep (gft s) xs \<and> length xs < 2 ^ 31 \<and>
     (\<forall>i < length xs. \<forall>j < length xs. ge_file_node (xs ! i) \<noteq> 0 \<longrightarrow> ge_file_node (xs ! i) = ge_file_node (xs ! j) \<longrightarrow> i = j)"

lemma gft_insert_s_ok:
  assumes ok: "gft_ok s xs" and node: "ge_file_node entry \<noteq> 0" and small: "length xs + 1 < 2 ^ 31"
  obtains i s' ys where "gft_insert_s True entry s = Some (of_nat i, s')" "gft_ok s' ys" "i < length ys"
    "ge_file_node (ys ! i) = ge_file_node entry" "in_critical s' = 0" "lft s' = lft s"
    "\<And>j. j < length xs \<Longrightarrow> j \<noteq> i \<Longrightarrow> ys ! j = xs ! j" "length ys = max (length xs) (i + 1)"
    "(i < length xs \<and> ys ! i = (xs ! i)\<lparr>ge_open_count := ge_open_count (xs ! i) + 1\<rparr>) \<or>
     ((\<forall>j < length xs. ge_file_node (xs ! j) \<noteq> ge_file_node entry) \<and> i \<le> length xs \<and> (i < length xs \<longrightarrow> ge_file_node (xs ! i) = 0) \<and>
       ys ! i = entry\<lparr>ge_open_count := ge_open_count entry + 1\<rparr>)"
proof -
  have v: "vec_rep (gft s) xs" and sm: "length xs < 2 ^ 31" using ok by (simp_all add: gft_ok_def)
  let ?s = "s\<lparr>in_critical := critlock_acquire (in_critical s)\<rparr>"
  have v1: "vec_rep (gft ?s) xs" using v by simp
  show thesis
  proof (rule gft_get_n_ok [where node = "ge_file_node entry", OF v1 sm])
    fix k assume g: "gft_get_n (ge_file_node entry) ?s = Some (of_nat k)" "k < length xs" "ge_file_node (xs ! k) = ge_file_node entry"
      "(of_nat k :: u32) \<noteq> - 1"
    have u: "unat (of_nat k :: u32) = k" using g(2) sm by (simp add: unat_of_nat_u32)
    then have lt: "unat (of_nat k :: u32) < length xs" using g(2) by simp
    let ?e = "(xs ! k)\<lparr>ge_open_count := ge_open_count (xs ! k) + 1\<rparr>"
    note p = vec_put_rep [OF v lt, of ?e]
    let ?s' = "s\<lparr>gft := (gft s)\<lparr>v_data := (v_data (gft s))[unat (of_nat k :: u32) := Some ?e]\<rparr>, in_critical := 0\<rparr>"
    have r: "gft_insert_s True entry s = Some (of_nat k, ?s')"
      using g(1,4) vec_get_rep [OF v lt] p(1) u by (simp add: gft_insert_s_def critlock_release_def)
    have nodes: "ge_file_node (xs[k := ?e] ! j) = ge_file_node (xs ! j)" if "j < length xs" for j
      using that by (cases "j = k") simp_all
    have ok': "gft_ok ?s' (xs[k := ?e])" using p(2) ok nodes u by (auto simp: gft_ok_def)
    show thesis by (rule that [OF r ok']) (use g(2,3) in simp_all)
  next
    assume g: "gft_get_n (ge_file_node entry) ?s = Some (- 1)" "\<forall>k < length xs. ge_file_node (xs ! k) \<noteq> ge_file_node entry"
    show thesis
    proof (rule gft_insert_ok [where entry = entry, OF v1 sm])
      fix i v' ys
      assume i: "gft_insert True entry ?s = Some (ERROR_OK, of_nat i, ?s\<lparr>gft := v'\<rparr>)" "vec_rep v' ys" "i < length ys"
        "ys ! i = entry" "\<And>j. j < length xs \<Longrightarrow> j \<noteq> i \<Longrightarrow> ys ! j = xs ! j" "i < length xs \<Longrightarrow> ge_file_node (xs ! i) = 0"
        "length ys = max (length xs) (i + 1)" "i \<le> length xs"
      have u: "unat (of_nat i :: u32) = i" using i(8) sm by (simp add: unat_of_nat_u32)
      then have lt: "unat (of_nat i :: u32) < length ys" using i(3) by simp
      let ?e = "entry\<lparr>ge_open_count := ge_open_count entry + 1\<rparr>"
      note p = vec_put_rep [OF i(2) lt, of ?e]
      let ?s' = "s\<lparr>gft := v'\<lparr>v_data := (v_data v')[unat (of_nat i :: u32) := Some ?e]\<rparr>, in_critical := 0\<rparr>"
      have r: "gft_insert_s True entry s = Some (of_nat i, ?s')"
        using g(1) i(1,4) vec_get_rep [OF i(2) lt] p(1) u by (simp add: gft_insert_s_def critlock_release_def)
      have old: "j < length xs" if "j < length ys" "j \<noteq> i" for j using that i(7,8) by auto
      have uniq: "k = j" if kj: "k < length ys" "j < length ys" "ge_file_node (ys[i := ?e] ! k) \<noteq> 0"
        "ge_file_node (ys[i := ?e] ! k) = ge_file_node (ys[i := ?e] ! j)" for k j
      proof -
        have e: "ge_file_node (ys[i := ?e] ! m) = (if m = i then ge_file_node entry else ge_file_node (xs ! m))" if "m < length ys" for m
          using that i(5) old [OF that] by (cases "m = i") simp_all
        show ?thesis
          using kj(3,4) e [OF kj(1)] e [OF kj(2)] g(2) old [OF kj(1)] old [OF kj(2)] ok unfolding gft_ok_def by (cases "k = i"; cases "j = i") auto
      qed
      have "length ys < 2 ^ 31" using i(7,8) small by simp
      then have ok': "gft_ok ?s' (ys[i := ?e])"
        unfolding gft_ok_def using p(2) u uniq by (intro conjI allI impI) (simp_all del: nth_list_update)
      show thesis
      proof (rule that [OF r ok'])
        show "(ys[i := ?e]) ! j = xs ! j" if "j < length xs" "j \<noteq> i" for j using that i(5) by simp
      qed (use i(3,6,7,8) g(2) in simp_all)
    qed
  qed
qed

subsection \<open>Properties\<close>

definition sample_finfo :: "u32 \<Rightarrow> u32 \<Rightarrow> page_cache_file_info" where
  "sample_finfo page b = \<lparr>fi_page = page, fi_buffer_index = b, fi_dirty = True\<rparr>"

definition sample_entries :: "global_file_entry list" where
  \<comment> \<open>Two open files, the first with two cached pages.\<close>
  "sample_entries = [\<lparr>ge_file_node = 0x100, ge_open_count = 1, ge_lock = 0, ge_pages = \<lparr>l_head = 0x40, l_tail = 0x44, l_count = 2\<rparr>\<rparr>,
     \<lparr>ge_file_node = 0x200, ge_open_count = 1, ge_lock = 0, ge_pages = \<lparr>l_head = 0, l_tail = 0, l_count = 0\<rparr>\<rparr>]"

definition sample_files :: files where
  \<comment> \<open>Four buffers at 0x10000, the last of which holds the bitmap.\<close>
  "sample_files = \<lparr>last_error = 0, mmngr_memory_size = mmngr_memory_size sample_vmm, mmngr_used_blocks = mmngr_used_blocks sample_vmm,
     mmngr_max_blocks = mmngr_max_blocks sample_vmm, mmngr_bitmap = mmngr_bitmap sample_vmm, cr0 = 0, cr3 = 0, tables = tables sample_vmm,
     current_directory = current_directory sample_vmm, current_pdbr = 0, kernel_directory = 0,
     vnodes = map_option (\<lambda>n. n\<lparr>vn_file_length := 0x2000\<rparr>) \<circ> vnodes sample_vfs, vcells = vcells sample_vfs, fops = fops sample_vfs,
     default_ops = 0x400, root = 0x100,
     gft = \<lparr>v_data = map Some sample_entries, v_count = 2, v_r_size = 2\<rparr>, gft_lock = 0,
     lft = \<lparr>v_data = [Some \<lparr>le_flags = 14, le_gfd = 0\<rparr>], v_count = 1, v_r_size = 1\<rparr>, lft_lock = 0, in_critical = 0,
     fi_cells = [0x40 \<mapsto> \<lparr>ln_data = sample_finfo 0 0, ln_next = 0x44\<rparr>, 0x44 \<mapsto> \<lparr>ln_data = sample_finfo 1 1, ln_next = 0\<rparr>],
     pc_cache = 0x10000, pc_cache_size = 0x4000, alloced_bitmap = 0x13000,
     bytes_at = (\<lambda>a. if a = 0x13000 \<or> a = 0x13001 \<or> a = 0x13003 then 1 else 0)\<rparr>"

lemma sample_gft_ok: "gft_ok sample_files sample_entries"
  by (auto simp: gft_ok_def vec_rep_def sample_files_def sample_entries_def less_Suc_eq nth_Cons')

text \<open>
  C15. Opening a node enters it in the system table once. If the node is already open its entry is
  found, whatever its place, and only that entry's open count goes up by one; otherwise it gets the
  end of the table or a slot whose node was removed, with open count one and no cached page. The
  other entries stay, no node ever has two entries, and the critical section is left.
\<close>

theorem open_enters_node_once:
  assumes "gft_ok s xs" and "node \<noteq> 0" and "length xs + 1 < 2 ^ 31"
  shows "\<exists>i s' ys. gft_insert_s True (create_gfe node) s = Some (of_nat i, s') \<and> gft_ok s' ys \<and> i < length ys \<and>
    in_critical s' = 0 \<and> (\<forall>j < length xs. j \<noteq> i \<longrightarrow> ys ! j = xs ! j) \<and>
    (if \<exists>j < length xs. ge_file_node (xs ! j) = node
     then ge_file_node (xs ! i) = node \<and> length ys = length xs \<and> ys ! i = (xs ! i)\<lparr>ge_open_count := ge_open_count (xs ! i) + 1\<rparr>
     else (i < length xs \<longrightarrow> ge_file_node (xs ! i) = 0) \<and> ys ! i = (create_gfe node)\<lparr>ge_open_count := 1\<rparr>)"
proof -
  have n: "ge_file_node (create_gfe node) \<noteq> 0" using assms(2) by (simp add: create_gfe_def)
  obtain i s' ys where r: "gft_insert_s True (create_gfe node) s = Some (of_nat i, s')" "gft_ok s' ys" "i < length ys"
    "ge_file_node (ys ! i) = node" "in_critical s' = 0" "\<And>j. j < length xs \<Longrightarrow> j \<noteq> i \<Longrightarrow> ys ! j = xs ! j"
    "length ys = max (length xs) (i + 1)"
    "(i < length xs \<and> ys ! i = (xs ! i)\<lparr>ge_open_count := ge_open_count (xs ! i) + 1\<rparr>) \<or>
     ((\<forall>j < length xs. ge_file_node (xs ! j) \<noteq> node) \<and> i \<le> length xs \<and> (i < length xs \<longrightarrow> ge_file_node (xs ! i) = 0) \<and>
       ys ! i = (create_gfe node)\<lparr>ge_open_count := ge_open_count (create_gfe node) + 1\<rparr>)"
    by (rule gft_insert_s_ok [OF assms(1) n assms(3)]) (auto simp: create_gfe_def)
  have c: "ge_open_count (create_gfe node) + 1 = 1" by (simp add: create_gfe_def)
  show ?thesis
  proof (cases "\<exists>j < length xs. ge_file_node (xs ! j) = node")
    case True
    then have e: "i < length xs" "ys ! i = (xs ! i)\<lparr>ge_open_count := ge_open_count (xs ! i) + 1\<rparr>" using r(8) by blast+
    then have "ge_file_node (xs ! i) = node" "length ys = length xs" using r(4,7) by simp_all
    then show ?thesis using True e r(1-3,5,6) by (intro exI [of _ i] exI [of _ s'] exI [of _ ys]) simp
  next
    case False
    then have "\<not> (i < length xs \<and> ys ! i = (xs ! i)\<lparr>ge_open_count := ge_open_count (xs ! i) + 1\<rparr>)"
      using r(4) by (metis global_file_entry.select_convs(1) global_file_entry.surjective global_file_entry.update_convs(2))
    then have e: "i < length xs \<longrightarrow> ge_file_node (xs ! i) = 0" "ys ! i = (create_gfe node)\<lparr>ge_open_count := 1\<rparr>"
      using r(8) unfolding c by blast+
    show ?thesis unfolding if_not_P [OF False] using e r(1-3,5,6) by (intro exI [of _ i] exI [of _ s'] exI [of _ ys]) simp
  qed
qed

lemma open_enters_node_once_witness:
  "\<exists>s' ys. gft_insert_s True (create_gfe 0x200) sample_files = Some (1, s') \<and> gft_ok s' ys \<and> ge_open_count (ys ! 1) = 2"
proof -
  obtain i s' ys where r: "gft_insert_s True (create_gfe 0x200) sample_files = Some (of_nat i, s')" "gft_ok s' ys" "i < length ys"
    "if \<exists>j < length sample_entries. ge_file_node (sample_entries ! j) = 0x200
     then ge_file_node (sample_entries ! i) = 0x200 \<and> length ys = length sample_entries \<and>
       ys ! i = (sample_entries ! i)\<lparr>ge_open_count := ge_open_count (sample_entries ! i) + 1\<rparr>
     else (i < length sample_entries \<longrightarrow> ge_file_node (sample_entries ! i) = 0) \<and> ys ! i = (create_gfe 0x200)\<lparr>ge_open_count := 1\<rparr>"
    using open_enters_node_once [OF sample_gft_ok, of "0x200"] by (auto simp: sample_entries_def)
  have ex: "\<exists>j < length sample_entries. ge_file_node (sample_entries ! j) = 0x200"
    by (rule exI [of _ 1]) (simp add: sample_entries_def)
  then have f: "ge_file_node (sample_entries ! i) = 0x200" "i < 2"
    "ys ! i = (sample_entries ! i)\<lparr>ge_open_count := ge_open_count (sample_entries ! i) + 1\<rparr>"
    using r(3,4) by (simp_all add: sample_entries_def)
  have "i \<noteq> 0"
  proof
    assume "i = 0"
    then show False using f(1) by (simp add: sample_entries_def)
  qed
  then have "i = 1" using f(2) by simp
  then show ?thesis using r(1,2) f(3) by (auto simp: sample_entries_def)
qed

end
