(* ===== verification/Page_Cache.thy ===== *)
theory Page_Cache
  imports Open_Files
begin

text \<open>
  The page cache, page_cache.cpp: a region of equal buffers whose last one holds a byte per buffer
  that says whether it is reserved. A buffer is backed by a page of the virtual memory manager while
  it is reserved. The cached pages of an open file are listed in its entry of the system table.
  \<open>cell\<close> is the address \<^verbatim>\<open>new\<close> returns for a list cell. A page that is mapped shows the bytes the
  address space had there before; what a fresh block really contains is not specified.
\<close>

definition PAGE_CACHE_SIZE :: u32 where [kernel_simps]: "PAGE_CACHE_SIZE = 4096"
definition PAGE_CACHE_OUT_OF_BOUNDS :: u16 where "PAGE_CACHE_OUT_OF_BOUNDS = 1"
definition PAGE_CACHE_INVALID :: u16 where "PAGE_CACHE_INVALID = 2"
definition PAGE_CACHE_DEPLET :: u16 where "PAGE_CACHE_DEPLET = 3"
definition PAGE_CACHE_BAD_PAGES :: u16 where "PAGE_CACHE_BAD_PAGES = 4"
definition PAGE_CACHE_PAGE_NOT_FOUND :: u16 where "PAGE_CACHE_PAGE_NOT_FOUND = 5"
definition PAGE_CACHE_FINFO_NOT_FOUND :: u16 where "PAGE_CACHE_FINFO_NOT_FOUND = 6"

subsection \<open>Buffers\<close>

definition page_cache_num_buffers :: "'a files_scheme \<Rightarrow> u32" where
  "page_cache_num_buffers s = pc_cache_size s div PAGE_CACHE_SIZE"

definition page_cache_index_by_addr :: "virtual_addr \<Rightarrow> 'a files_scheme \<Rightarrow> u32" where
  "page_cache_index_by_addr address s = (address - pc_cache s) div PAGE_CACHE_SIZE"

definition page_cache_addr_by_index :: "u32 \<Rightarrow> 'a files_scheme \<Rightarrow> virtual_addr" where
  "page_cache_addr_by_index index s = pc_cache s + index * PAGE_CACHE_SIZE"

definition page_cache_get_last :: "'a files_scheme \<Rightarrow> virtual_addr" where
  "page_cache_get_last s = pc_cache s + (page_cache_num_buffers s - 1) * PAGE_CACHE_SIZE"

primrec free_buffer_loop :: "nat \<Rightarrow> u32 \<Rightarrow> 'a files_scheme \<Rightarrow> u32" where
  \<comment> \<open>\<open>n\<close> iterations remain, \<open>i\<close> is the loop variable.\<close>
  "free_buffer_loop 0 i s = page_cache_num_buffers s"
| "free_buffer_loop (Suc n) i s = (if bytes_at s (alloced_bitmap s + i) = 0 then i else free_buffer_loop n (i + 1) s)"

definition page_cache_index_free_buffer :: "'a files_scheme \<Rightarrow> u32" where
  "page_cache_index_free_buffer s = free_buffer_loop (unat (page_cache_num_buffers s)) 0 s"

definition page_cache_index_reserve_buffer :: "u32 \<Rightarrow> 'a files_scheme \<Rightarrow> 'a files_scheme" where
  "page_cache_index_reserve_buffer index s = s\<lparr>bytes_at := (bytes_at s)(alloced_bitmap s + index := 1)\<rparr>"

definition page_cache_index_release_buffer :: "u32 \<Rightarrow> 'a files_scheme \<Rightarrow> 'a files_scheme" where
  "page_cache_index_release_buffer index s = s\<lparr>bytes_at := (bytes_at s)(alloced_bitmap s + index := 0)\<rparr>"

definition page_cache_file_info_create :: "u32 \<Rightarrow> u32 \<Rightarrow> page_cache_file_info" where
  "page_cache_file_info_create page buffer_index = \<lparr>fi_page = page, fi_buffer_index = buffer_index, fi_dirty = False\<rparr>"

partial_function (option) finfo_loop :: "ptr \<Rightarrow> u32 \<Rightarrow> page_cache_file_info nodes \<Rightarrow> ptr option" where
  [code]: "finfo_loop temp page h =
     (if temp = 0 then Some 0
      else do { n \<leftarrow> h temp; if fi_page (ln_data n) = page then Some temp else finfo_loop (ln_next n) page h })"

definition page_cache_get_finfo :: "u32 \<Rightarrow> u32 \<Rightarrow> 'a files_scheme \<Rightarrow> (ptr \<times> 'a files_scheme) option" where
  "page_cache_get_finfo gfd page s =
     (if v_count (gft s) \<le> gfd then Some (0, set_last_error EBADF PAGE_CACHE_OUT_OF_BOUNDS EO_PAGE_CACHE s)
      else do {
        e \<leftarrow> vec_get (gft s) gfd;
        if ge_file_node e = 0 then Some (0, set_last_error EBADF PAGE_CACHE_INVALID EO_PAGE_CACHE s)
        else do {
          temp \<leftarrow> finfo_loop (l_head (ge_pages e)) page (fi_cells s);
          if temp \<noteq> 0 then Some (temp, s)
          else Some (0, set_last_error EINVAL PAGE_CACHE_FINFO_NOT_FOUND EO_PAGE_CACHE s)
        }
      })"

subsection \<open>Operations\<close>

definition page_cache_init :: "virtual_addr \<Rightarrow> u32 \<Rightarrow> 'a files_scheme \<Rightarrow> error_t \<times> 'a files_scheme" where
  "page_cache_init start no_buffers s =
     (let s = s\<lparr>pc_cache_size := no_buffers * PAGE_CACHE_SIZE\<rparr>;
        s = s\<lparr>pc_cache := start\<rparr>;
        last_buffer = page_cache_get_last s;
        s = s\<lparr>alloced_bitmap := last_buffer\<rparr>;
        s = s\<lparr>bytes_at := memset (alloced_bitmap s) 0 PAGE_CACHE_SIZE (bytes_at s)\<rparr>
      in (ERROR_OK, page_cache_index_reserve_buffer (page_cache_index_by_addr last_buffer s) s))"

definition page_cache_get_buffer :: "u32 \<Rightarrow> u32 \<Rightarrow> 'a files_scheme \<Rightarrow> (virtual_addr \<times> 'a files_scheme) option" where
  "page_cache_get_buffer gfd page s = do {
     (finfo, s) \<leftarrow> page_cache_get_finfo gfd page s;
     if finfo = 0 then Some (0, s)
     else do { n \<leftarrow> fi_cells s finfo; Some (pc_cache s + fi_buffer_index (ln_data n) * PAGE_CACHE_SIZE, s) }
   }"

definition page_cache_reserve_anonymous :: "'a files_scheme \<Rightarrow> (virtual_addr \<times> 'a files_scheme) option" where
  "page_cache_reserve_anonymous s = do {
     let free_buf = page_cache_index_free_buffer s;
     if page_cache_num_buffers s \<le> free_buf then Some (0, set_last_error ENOMEM PAGE_CACHE_DEPLET EO_PAGE_CACHE s)
     else do {
       let s = page_cache_index_reserve_buffer free_buf s;
       let address = page_cache_addr_by_index free_buf s;
       (err, s) \<leftarrow> vmmngr_alloc_page address s;
       if err \<noteq> ERROR_OK then Some (0, page_cache_index_release_buffer free_buf s)
       else Some (address, s)
     }
   }"

definition page_cache_release_anonymous :: "virtual_addr \<Rightarrow> 'a files_scheme \<Rightarrow> 'a files_scheme option" where
  "page_cache_release_anonymous address s =
     (let index = page_cache_index_by_addr address s in
      if page_cache_num_buffers s \<le> index then Some s
      else vmmngr_free_page_addr address (page_cache_index_release_buffer index s))"

definition page_cache_reserve_buffer :: "ptr \<Rightarrow> u32 \<Rightarrow> u32 \<Rightarrow> 'a files_scheme \<Rightarrow> (virtual_addr \<times> 'a files_scheme) option" where
  "page_cache_reserve_buffer cell gfd page s = do {
     (address, s) \<leftarrow> page_cache_reserve_anonymous s;
     if address = 0 then Some (0, set_last_error ENOMEM PAGE_CACHE_DEPLET EO_PAGE_CACHE s)
     else do {
       let free_buf = page_cache_index_by_addr address s;
       let finfo = page_cache_file_info_create page free_buf;
       let (p, s) = gft_get gfd s;
       i \<leftarrow> p;
       e \<leftarrow> vec_get (gft s) i;
       (l, h) \<leftarrow> list_insert_back (ge_pages e) cell finfo (fi_cells s);
       v \<leftarrow> vec_put i (e\<lparr>ge_pages := l\<rparr>) (gft s);
       Some (address, s\<lparr>fi_cells := h, gft := v\<rparr>)
     }
   }"

partial_function (option) release_loop ::
  "ptr \<Rightarrow> u32 \<Rightarrow> list_t \<Rightarrow> page_cache_file_info nodes \<Rightarrow> (u32 \<times> list_t \<times> page_cache_file_info nodes) option" where
  [code]: "release_loop prev page l h = do {
     p \<leftarrow> h prev;
     if ln_next p \<noteq> 0 then do {
       n \<leftarrow> h (ln_next p);
       if fi_page (ln_data n) = page then do {
         let index = fi_buffer_index (ln_data n);
         (_, l, h) \<leftarrow> list_remove l prev h;
         Some (index, l, h)
       }
       else release_loop (ln_next p) page l h
     }
     else Some (- 1, l, h)
   }"

definition page_cache_release_buffer :: "u32 \<Rightarrow> u32 \<Rightarrow> 'a files_scheme \<Rightarrow> (error_t \<times> 'a files_scheme) option" where
  "page_cache_release_buffer gfd page s = do {
     e \<leftarrow> vec_get (gft s) gfd;
     let l = ge_pages e;
     let prev = l_head l;
     if prev = 0 then Some (ERROR_OCCUR, set_last_error EINVAL PAGE_CACHE_BAD_PAGES EO_PAGE_CACHE s)
     else do {
       n \<leftarrow> fi_cells s prev;
       (index, l, h) \<leftarrow> (if fi_page (ln_data n) = page then do {
           let index = fi_buffer_index (ln_data n);
           (l, h) \<leftarrow> list_remove_front l (fi_cells s);
           Some (index, l, h)
         }
         else release_loop prev page l (fi_cells s));
       v \<leftarrow> vec_put gfd (e\<lparr>ge_pages := l\<rparr>) (gft s);
       let s = s\<lparr>fi_cells := h, gft := v\<rparr>;
       if index = - 1 then Some (ERROR_OCCUR, set_last_error EINVAL PAGE_CACHE_PAGE_NOT_FOUND EO_PAGE_CACHE s)
       else do {
         s \<leftarrow> page_cache_release_anonymous (page_cache_addr_by_index index s) s;
         Some (ERROR_OK, s)
       }
     }
   }"

definition page_cache_make_dirty :: "u32 \<Rightarrow> u32 \<Rightarrow> bool \<Rightarrow> 'a files_scheme \<Rightarrow> (error_t \<times> 'a files_scheme) option" where
  "page_cache_make_dirty gfd page dirty s = do {
     (finfo, s) \<leftarrow> page_cache_get_finfo gfd page s;
     if finfo = 0 then Some (ERROR_OCCUR, s)
     else do {
       n \<leftarrow> fi_cells s finfo;
       Some (ERROR_OK, s\<lparr>fi_cells := (fi_cells s)(finfo \<mapsto> n\<lparr>ln_data := (ln_data n)\<lparr>fi_dirty := dirty\<rparr>\<rparr>)\<rparr>)
     }
   }"

definition page_cache_is_page_dirty :: "u32 \<Rightarrow> u32 \<Rightarrow> 'a files_scheme \<Rightarrow> (bool \<times> 'a files_scheme) option" where
  "page_cache_is_page_dirty gfd page s = do {
     (finfo, s) \<leftarrow> page_cache_get_finfo gfd page s;
     if finfo = 0 then Some (False, s) else do { n \<leftarrow> fi_cells s finfo; Some (fi_dirty (ln_data n), s) }
   }"

subsection \<open>The virtual memory manager does not touch the rest\<close>

definition rest_same :: "'a vmm_scheme \<Rightarrow> 'a vmm_scheme \<Rightarrow> bool" where
  "rest_same s s' \<longleftrightarrow> vmm.more s' = vmm.more s \<and> current_directory s' = current_directory s"

lemma rest_same_refl [simp]: "rest_same s s"
  by (simp add: rest_same_def)

lemma rest_same_trans: "rest_same s t \<Longrightarrow> rest_same t u \<Longrightarrow> rest_same s u"
  by (simp add: rest_same_def)

lemma rest_same_error [simp]: "rest_same t (set_last_error b x c s) = rest_same t s"
  by (simp add: rest_same_def set_last_error_def)

lemma rest_same_entry_put: "entry_put e v s = Some s' \<Longrightarrow> rest_same s s'"
  by (auto simp: entry_put_def rest_same_def elim!: bind_SomeE)

lemma rest_same_zero_table [simp]: "rest_same t (zero_table p s) = rest_same t s"
  by (simp add: rest_same_def zero_table_def)

lemma rest_same_alloc_block: "pmmngr_alloc_block s = Some (a, s') \<Longrightarrow> rest_same s s'"
  by (auto simp: pmmngr_alloc_block_def mmap_first_free_def rest_same_def set_last_error_def Let_def
    split: if_splits option.splits elim!: bind_SomeE)

lemma rest_same_free_block: "pmmngr_free_block a s = Some s' \<Longrightarrow> rest_same s s'"
  by (auto simp: pmmngr_free_block_def rest_same_def set_last_error_def Let_def
    split: if_splits option.splits elim!: bind_SomeE)

lemma rest_same_lookup:
  "vmmngr_pdirectory_lookup_entry d a s = (e, s') \<Longrightarrow> rest_same s s'"
  "vmmngr_ptable_lookup_entry d a s = (e, s') \<Longrightarrow> rest_same s s'"
  by (auto simp: vmmngr_pdirectory_lookup_entry_def vmmngr_ptable_lookup_entry_def split: if_splits)

lemma rest_same_create_table: "vmmngr_create_table d a f s = Some (e, s') \<Longrightarrow> rest_same s s'"
  unfolding vmmngr_create_table_def Let_def
  by (auto split: if_splits option.splits prod.splits elim!: bind_SomeE
      dest!: rest_same_lookup rest_same_alloc_block rest_same_entry_put; simp add: rest_same_def zero_table_def)

lemma rest_same_map_page: "vmmngr_map_page d p a f s = Some (e, s') \<Longrightarrow> rest_same s s'"
  unfolding vmmngr_map_page_def Let_def
  by (auto split: if_splits option.splits prod.splits elim!: bind_SomeE
      dest!: rest_same_lookup rest_same_create_table rest_same_entry_put; simp add: rest_same_def zero_table_def)

lemma rest_same_is_page_present: "vmmngr_is_page_present a s = Some (b, s') \<Longrightarrow> rest_same s s'"
  unfolding vmmngr_is_page_present_def Let_def
  by (auto split: if_splits option.splits prod.splits elim!: bind_SomeE dest!: rest_same_lookup; simp add: rest_same_def zero_table_def)

lemma rest_same_get_phys_addr: "vmmngr_get_phys_addr a s = Some (b, s') \<Longrightarrow> rest_same s s'"
  unfolding vmmngr_get_phys_addr_def Let_def
  by (auto split: if_splits option.splits prod.splits elim!: bind_SomeE dest!: rest_same_lookup; simp add: rest_same_def zero_table_def)

lemma rest_same_alloc_page: "vmmngr_alloc_page a s = Some (e, s') \<Longrightarrow> rest_same s s'"
  unfolding vmmngr_alloc_page_def vmmngr_alloc_page_f_def Let_def
  by (auto split: if_splits option.splits prod.splits elim!: bind_SomeE
      dest!: rest_same_is_page_present rest_same_get_phys_addr rest_same_alloc_block rest_same_map_page; simp add: rest_same_def set_last_error_def Let_def)

lemma rest_same_free_page: "vmmngr_free_page p s = Some (e, s') \<Longrightarrow> rest_same s s'"
  unfolding vmmngr_free_page_def Let_def
  by (auto split: if_splits option.splits prod.splits elim!: bind_SomeE
      dest!: rest_same_free_block rest_same_entry_put; simp add: rest_same_def zero_table_def)

lemma rest_same_free_page_addr: "vmmngr_free_page_addr a s = Some s' \<Longrightarrow> rest_same s s'"
  unfolding vmmngr_free_page_addr_def Let_def
  by (auto split: if_splits option.splits prod.splits elim!: bind_SomeE
      dest!: rest_same_lookup rest_same_free_page; simp add: rest_same_def zero_table_def)

lemma rest_same_fields:
  assumes "rest_same s s'"
  shows "gft s' = gft s" "lft s' = lft s" "fi_cells s' = fi_cells s" "pc_cache s' = pc_cache s" "pc_cache_size s' = pc_cache_size s"
    "alloced_bitmap s' = alloced_bitmap s" "bytes_at s' = bytes_at s" "vnodes s' = vnodes s" "fops s' = fops s"
    "current_directory s' = current_directory s"
  using assms by (cases s; cases s'; simp add: rest_same_def)+

subsection \<open>What an allocation costs\<close>

definition free_blocks :: "'a pmm_scheme \<Rightarrow> nat" where
  "free_blocks s = usable_blocks s - card (used_blocks (mmngr_bitmap s) (usable_blocks s))"

lemma free_blocks_same [simp]:
  "free_blocks (set_last_error b x c s) = free_blocks s" "free_blocks (zero_table p v) = free_blocks v"
  by (simp_all add: free_blocks_def usable_blocks_def set_last_error_def zero_table_def)

lemma no_free_blocks: "out_of_memory s \<longleftrightarrow> free_blocks s = 0"
proof -
  let ?n = "usable_blocks s" and ?u = "used_blocks (mmngr_bitmap s) (usable_blocks s)"
  have sub: "?u \<subseteq> {..< ?n}" by (auto simp: used_blocks_def)
  have "free_blocks s = 0 \<longleftrightarrow> card ?u = ?n" using card_used_le [of "mmngr_bitmap s" ?n] unfolding free_blocks_def by linarith
  also have "\<dots> \<longleftrightarrow> ?u = {..< ?n}" using card_subset_eq [OF finite_lessThan sub] by (metis card_lessThan)
  also have "\<dots> \<longleftrightarrow> out_of_memory s" by (auto simp: out_of_memory_def used_blocks_def)
  finally show ?thesis by simp
qed

definition costs :: "nat \<Rightarrow> 'a pmm_scheme \<Rightarrow> 'a pmm_scheme \<Rightarrow> bool" where
  \<comment> \<open>From the first state to the second at most \<open>n\<close> blocks have been taken.\<close>
  "costs n s s' \<longleftrightarrow> (pmm_ok s \<longrightarrow> pmm_ok s' \<and> free_blocks s \<le> free_blocks s' + n)"

lemma alloc_block_cost:
  assumes a: "pmmngr_alloc_block s = Some (a, s')"
  shows "costs 1 s s'"
  unfolding costs_def
proof
  assume ok: "pmm_ok s"
  have l: "usable_blocks s \<le> 32 * length (mmngr_bitmap s)" using ok by (auto simp: pmm_ok_def usable_blocks_def)
  from pmmngr_alloc_block_ok [OF ok] show "pmm_ok s' \<and> free_blocks s \<le> free_blocks s' + 1"
  proof (elim disjE exE conjE)
    fix f t assume f: "pmmngr_alloc_block s = Some (f * PMMNGR_BLOCK_SIZE, t)" "unat f < usable_blocks s"
      "\<not> block_used (mmngr_bitmap s) (unat f)" "pmm_ok t"
      "t = s\<lparr>mmngr_bitmap := block_set (unat f) (mmngr_bitmap s), mmngr_used_blocks := mmngr_used_blocks s + 1\<rparr>"
    have "usable_blocks t = usable_blocks s" by (simp add: f(5) usable_blocks_def)
    then have "free_blocks s \<le> free_blocks t + 1" using card_used_set [OF f(2) l f(3)] by (simp add: free_blocks_def) (simp add: f(5))
    moreover have "t = s'" using a f(1) by simp
    ultimately show ?thesis using f(4) by simp
  qed (use a ok in \<open>simp add: pmm_ok_error\<close>)
qed

lemma entry_put_cost: "entry_put e v s = Some s' \<Longrightarrow> costs 0 s s'"
  by (auto simp: entry_put_def free_blocks_def usable_blocks_def pmm_ok_def costs_def elim!: bind_SomeE)

lemma lookup_cost:
  "vmmngr_pdirectory_lookup_entry d a s = (e, s') \<Longrightarrow> costs 0 s s'"
  "vmmngr_ptable_lookup_entry d a s = (e, s') \<Longrightarrow> costs 0 s s'"
  by (auto simp: vmmngr_pdirectory_lookup_entry_def vmmngr_ptable_lookup_entry_def costs_def pmm_ok_error split: if_splits)

lemma pmm_ok_zero_table [simp]: "pmm_ok (zero_table p s) = pmm_ok s"
  by (simp add: pmm_ok_def zero_table_def)

lemma create_table_cost: "vmmngr_create_table d a f s = Some (e, s') \<Longrightarrow> costs 1 s s'"
  unfolding vmmngr_create_table_def Let_def
  by (auto split: if_splits option.splits prod.splits elim!: bind_SomeE
      dest!: lookup_cost alloc_block_cost entry_put_cost; auto simp: costs_def)

lemma map_page_cost: "vmmngr_map_page d p a f s = Some (e, s') \<Longrightarrow> costs 1 s s'"
  unfolding vmmngr_map_page_def Let_def
  by (auto split: if_splits option.splits prod.splits elim!: bind_SomeE
      dest!: lookup_cost create_table_cost entry_put_cost; auto simp: costs_def)

lemma is_page_present_cost: "vmmngr_is_page_present a s = Some (b, s') \<Longrightarrow> costs 0 s s'"
  unfolding vmmngr_is_page_present_def Let_def
  by (auto split: if_splits option.splits prod.splits elim!: bind_SomeE dest!: lookup_cost; auto simp: costs_def)

lemma get_phys_addr_cost: "vmmngr_get_phys_addr a s = Some (b, s') \<Longrightarrow> costs 0 s s'"
  unfolding vmmngr_get_phys_addr_def Let_def
  by (auto split: if_splits option.splits prod.splits elim!: bind_SomeE dest!: lookup_cost; auto simp: costs_def)

lemma alloc_page_f_costs: "vmmngr_alloc_page_f a f s = Some (e, s') \<Longrightarrow> costs 2 s s'"
  unfolding vmmngr_alloc_page_f_def Let_def
  by (auto split: if_splits option.splits prod.splits elim!: bind_SomeE
      dest!: is_page_present_cost get_phys_addr_cost alloc_block_cost map_page_cost; auto simp: costs_def)

lemma alloc_page_f_cost:
  fixes s :: "'a vmm_scheme"
  assumes ok: "vm_ok (current_directory s) s" and f: "flags_ok f" and al: "base AND mask 12 = 0"
    and lo: "base < 0xF0000000" and a: "vmmngr_alloc_page_f base f s = Some (err, s')"
  shows "free_blocks s \<le> free_blocks s' + 2" and "err = ERROR_OK \<or> free_blocks s < 2"
proof -
  have pm: "pmm_ok s" using ok by (simp add: vm_ok_def)
  note q = is_page_present_ok [OF ok, of base]
  show "free_blocks s \<le> free_blocks s' + 2"
    using alloc_page_f_costs [OF a] pm by (simp add: costs_def)
  show "err = ERROR_OK \<or> free_blocks s < 2"
  proof (cases "translate s (current_directory s) base")
    case (Some x)
    then show ?thesis using alloc_page_f_mapped [OF ok al f Some] a by auto
  next
    case None
    show ?thesis
    proof (rule vmm_alloc_block [OF pm])
      assume "out_of_memory s"
      then show ?thesis by (simp add: no_free_blocks)
    next
      fix b s1
      assume b: "pmmngr_alloc_block s = Some (b, s1)" "b \<noteq> 0" "b AND mask 12 = 0" "pmm_ok s1"
        "block_regions s1 = insert (unat b, 4096) (block_regions s)" "(unat b, 4096) \<notin> block_regions s"
        "tables s1 = tables s" "current_directory s1 = current_directory s"
      have ok1: "vm_ok (current_directory s) s1"
        by (rule vm_ok_less_blocks [OF ok b(4) _ b(7), of b]) (use b(5,6) table_block_regions [OF ok] in auto)
      show ?thesis
      proof (rule map_page_ok [OF ok1 b(3) f, of base])
        fix s2
        assume "vmmngr_map_page (current_directory s) b base f s1 = Some (ERROR_OK, s2)"
        then show ?thesis using a q None lo b(1,2,8) by (simp add: vmmngr_alloc_page_f_def vmmngr_get_directory_def ERROR_OK_def)
      next
        assume "out_of_memory s1"
        then have "free_blocks s1 = 0" by (simp add: no_free_blocks)
        then show ?thesis using alloc_block_cost [OF b(1)] pm by (simp add: costs_def)
      qed
    qed
  qed
qed

subsection \<open>The invariant\<close>

definition nbuf :: "'a files_scheme \<Rightarrow> nat" where
  "nbuf s = unat (page_cache_num_buffers s)"

definition reserved :: "nat \<Rightarrow> 'a files_scheme \<Rightarrow> bool" where
  "reserved b s \<longleftrightarrow> bytes_at s (alloced_bitmap s + of_nat b) \<noteq> 0"

definition region_ok :: "'a files_scheme \<Rightarrow> bool" where
  \<comment> \<open>The buffers lie below the device area, and the last one, which holds the bitmap, is reserved.\<close>
  "region_ok s \<longleftrightarrow> 1 \<le> nbuf s \<and> nbuf s \<le> 4096 \<and> pc_cache s AND mask 12 = 0 \<and> 0 < unat (pc_cache s) \<and>
     unat (pc_cache s) + 4096 * nbuf s \<le> 0xF0000000 \<and> alloced_bitmap s = page_cache_get_last s \<and>
     reserved (nbuf s - 1) s \<and> vm_ok (current_directory s) s"

definition buffer_addr :: "nat \<Rightarrow> 'a files_scheme \<Rightarrow> virtual_addr" where
  "buffer_addr b s = pc_cache s + of_nat b * PAGE_CACHE_SIZE"

definition cache_ok :: "'a files_scheme \<Rightarrow> global_file_entry list \<Rightarrow> (ptr \<times> page_cache_file_info) list list \<Rightarrow> bool" where
  \<comment> \<open>\<open>pgs ! k\<close> lists the cached pages of open file \<open>k\<close>. Each has a reserved buffer of its own.\<close>
  "cache_ok s es pgs \<longleftrightarrow> region_ok s \<and> vec_rep (gft s) es \<and> length pgs = length es \<and>
     (\<forall>k < length es. list_ok (ge_pages (es ! k)) (fi_cells s) (pgs ! k) \<and> distinct (map (fi_page \<circ> snd) (pgs ! k))) \<and>
     distinct (map fst (concat pgs)) \<and> distinct (map (fi_buffer_index \<circ> snd) (concat pgs)) \<and>
     (\<forall>x \<in> set (concat pgs). unat (fi_buffer_index (snd x)) < nbuf s - 1 \<and> reserved (unat (fi_buffer_index (snd x))) s)"

lemma vm_ok_fields [simp]:
  "vm_ok d (s\<lparr>bytes_at := m\<rparr>) = vm_ok d s" "vm_ok d (s\<lparr>fi_cells := h\<rparr>) = vm_ok d s" "vm_ok d (s\<lparr>gft := v\<rparr>) = vm_ok d s"
  by (simp_all add: vm_ok_def dir_ok_def table_at_def pmm_ok_def block_regions_def)

lemma nbuf_fields [simp]: "nbuf (s\<lparr>bytes_at := m\<rparr>) = nbuf s" "nbuf (s\<lparr>fi_cells := h\<rparr>) = nbuf s" "nbuf (s\<lparr>gft := v\<rparr>) = nbuf s"
  by (simp_all add: nbuf_def page_cache_num_buffers_def)

lemma region_ok_fields [simp]: "region_ok (s\<lparr>fi_cells := h\<rparr>) = region_ok s" "region_ok (s\<lparr>gft := v\<rparr>) = region_ok s"
  by (simp_all add: region_ok_def reserved_def page_cache_get_last_def page_cache_num_buffers_def)

lemma buffer_addr_ok:
  assumes r: "region_ok s" and b: "b < nbuf s"
  shows "unat (buffer_addr b s) = unat (pc_cache s) + 4096 * b" and "buffer_addr b s AND mask 12 = 0"
    and "buffer_addr b s < 0xF0000000" and "buffer_addr b s \<noteq> 0"
    and "page_cache_index_by_addr (buffer_addr b s) s = of_nat b" and "page_cache_addr_by_index (of_nat b) s = buffer_addr b s"
    and "unat (of_nat b :: u32) = b"
proof -
  have n: "nbuf s \<le> 4096" "unat (pc_cache s) + 4096 * nbuf s \<le> 0xF0000000" "0 < unat (pc_cache s)" "pc_cache s AND mask 12 = 0"
    using r by (simp_all add: region_ok_def)
  show u: "unat (of_nat b :: u32) = b" using b n(1) by (simp add: unat_of_nat_u32)
  have m: "unat (of_nat b * PAGE_CACHE_SIZE) = 4096 * b"
    using u b n(1) by (simp add: unat_word_ariths PAGE_CACHE_SIZE_def)
  show a: "unat (buffer_addr b s) = unat (pc_cache s) + 4096 * b"
    unfolding buffer_addr_def using m b n(2) by (subst unat_add_no_wrap) simp_all
  have "unat (pc_cache s) mod 4096 = 0" using n(4) by (rule aligned_mod [THEN iffD1])
  then have "unat (buffer_addr b s) mod 4096 = 0" using a by simp
  then show "buffer_addr b s AND mask 12 = 0" by (rule aligned_mod [THEN iffD2])
  show "buffer_addr b s < 0xF0000000" using a b n(2) by (simp add: word_less_nat_alt)
  show "buffer_addr b s \<noteq> 0" using a n(3) by auto
  have "buffer_addr b s - pc_cache s = of_nat b * PAGE_CACHE_SIZE" by (simp add: buffer_addr_def)
  moreover have "of_nat b * PAGE_CACHE_SIZE div PAGE_CACHE_SIZE = (of_nat b :: u32)"
    by (rule word_unat_eq_iff [THEN iffD2]) (use m u in \<open>simp add: unat_div PAGE_CACHE_SIZE_def\<close>)
  ultimately show "page_cache_index_by_addr (buffer_addr b s) s = of_nat b" by (simp add: page_cache_index_by_addr_def)
  show "page_cache_addr_by_index (of_nat b) s = buffer_addr b s" by (simp add: page_cache_addr_by_index_def buffer_addr_def)
qed

lemma free_buffer_loop_ok:
  assumes "unat i + n \<le> 2 ^ 31"
  shows "(free_buffer_loop n i s = page_cache_num_buffers s \<and> (\<forall>j < n. reserved (unat i + j) s)) \<or>
    (\<exists>j < n. free_buffer_loop n i s = i + of_nat j \<and> \<not> reserved (unat i + j) s \<and> (\<forall>k < j. reserved (unat i + k) s))"
  using assms
proof (induction n arbitrary: i)
  case (Suc n)
  have res: "bytes_at s (alloced_bitmap s + i) = 0 \<longleftrightarrow> \<not> reserved (unat i) s" by (simp add: reserved_def)
  show ?case
  proof (cases "reserved (unat i) s")
    case False
    then show ?thesis using res by (intro disjI2 exI [of _ 0]) simp
  next
    case True
    have u: "unat (i + 1) = Suc (unat i)" using Suc.prems by (subst unat_suc_u32) simp_all
    then have ih: "(free_buffer_loop n (i + 1) s = page_cache_num_buffers s \<and> (\<forall>j < n. reserved (Suc (unat i) + j) s)) \<or>
      (\<exists>j < n. free_buffer_loop n (i + 1) s = i + 1 + of_nat j \<and> \<not> reserved (Suc (unat i) + j) s \<and> (\<forall>k < j. reserved (Suc (unat i) + k) s))"
      using Suc.IH [of "i + 1"] Suc.prems by simp
    have step: "\<forall>k < Suc j. reserved (unat i + k) s" if "\<forall>k < j. reserved (Suc (unat i) + k) s" for j
      using that True by (auto simp: less_Suc_eq_0_disj)
    from ih show ?thesis
    proof
      assume "free_buffer_loop n (i + 1) s = page_cache_num_buffers s \<and> (\<forall>j < n. reserved (Suc (unat i) + j) s)"
      then show ?thesis using step [of n] True res by simp
    next
      assume "\<exists>j < n. free_buffer_loop n (i + 1) s = i + 1 + of_nat j \<and> \<not> reserved (Suc (unat i) + j) s \<and> (\<forall>k < j. reserved (Suc (unat i) + k) s)"
      then obtain j where j: "j < n" "free_buffer_loop n (i + 1) s = i + 1 + of_nat j" "\<not> reserved (Suc (unat i) + j) s"
        "\<forall>k < j. reserved (Suc (unat i) + k) s" by blast
      show ?thesis using j step [OF j(4)] True res by (intro disjI2 exI [of _ "Suc j"]) (simp add: add.assoc)
    qed
  qed
qed simp

lemma free_buffer_ok:
  assumes "region_ok s"
  obtains "page_cache_index_free_buffer s = page_cache_num_buffers s" "\<forall>b < nbuf s. reserved b s"
  | b where "page_cache_index_free_buffer s = of_nat b" "b < nbuf s - 1" "\<not> reserved b s" "\<forall>c < b. reserved c s"
proof -
  have n: "nbuf s \<le> 4096" "1 \<le> nbuf s" and last: "reserved (nbuf s - 1) s" using assms by (simp_all add: region_ok_def)
  then have "unat (0 :: u32) + nbuf s \<le> 2 ^ 31" by simp
  from free_buffer_loop_ok [OF this, of s] show thesis
  proof
    assume "free_buffer_loop (nbuf s) 0 s = page_cache_num_buffers s \<and> (\<forall>j < nbuf s. reserved (unat (0 :: u32) + j) s)"
    then show thesis using that(1) by (simp add: page_cache_index_free_buffer_def nbuf_def)
  next
    assume "\<exists>j < nbuf s. free_buffer_loop (nbuf s) 0 s = 0 + of_nat j \<and> \<not> reserved (unat (0 :: u32) + j) s \<and> (\<forall>k < j. reserved (unat (0 :: u32) + k) s)"
    then obtain j where j: "j < nbuf s" "free_buffer_loop (nbuf s) 0 s = of_nat j" "\<not> reserved j s" "\<forall>k < j. reserved k s" by auto
    then have "j \<noteq> nbuf s - 1" using last by blast
    then have "j < nbuf s - 1" using j(1) by linarith
    then show thesis using that(2) j by (simp add: page_cache_index_free_buffer_def nbuf_def)
  qed
qed

lemma bitmap_index: "b < 2 ^ 32 \<Longrightarrow> c < 2 ^ 32 \<Longrightarrow> (x :: u32) + of_nat b = x + of_nat c \<longleftrightarrow> b = c"
  by (metis add_left_cancel unat_of_nat_u32)

lemma reserved_upd:
  assumes "b < 2 ^ 32" and "c < 2 ^ 32"
  shows "reserved b (s\<lparr>bytes_at := (bytes_at s)(alloced_bitmap s + of_nat c := v)\<rparr>) \<longleftrightarrow> (if b = c then v \<noteq> 0 else reserved b s)"
  using bitmap_index [OF assms, of "alloced_bitmap s"] by (simp add: reserved_def)

lemma nbuf_rest: "rest_same s s' \<Longrightarrow> nbuf s' = nbuf s"
  by (simp add: nbuf_def page_cache_num_buffers_def rest_same_fields)

lemma reserved_rest: "rest_same s s' \<Longrightarrow> reserved b s' = reserved b s"
  by (simp add: reserved_def rest_same_fields)

lemma buffer_addr_rest: "rest_same s s' \<Longrightarrow> buffer_addr b s' = buffer_addr b s"
  by (simp add: buffer_addr_def rest_same_fields)

lemma region_ok_rest:
  assumes "region_ok s" and "rest_same s s'" and "vm_ok (current_directory s) s'"
  shows "region_ok s'"
  using assms rest_same_fields [OF assms(2)] nbuf_rest [OF assms(2)] reserved_rest [OF assms(2)]
  by (simp add: region_ok_def page_cache_get_last_def page_cache_num_buffers_def)

lemma region_ok_reserve:
  assumes "region_ok s" and "b < nbuf s - 1"
  shows "region_ok (s\<lparr>bytes_at := (bytes_at s)(alloced_bitmap s + of_nat b := v)\<rparr>)"
proof -
  have "nbuf s \<le> 4096" using assms(1) by (simp add: region_ok_def)
  then have "b < 2 ^ 32" "nbuf s - 1 < 2 ^ 32" "nbuf s - 1 \<noteq> b" using assms(2) by simp_all
  then show ?thesis using assms reserved_upd [of "nbuf s - 1" b s v]
    by (simp add: region_ok_def page_cache_get_last_def page_cache_num_buffers_def)
qed

definition free_buffers :: "'a files_scheme \<Rightarrow> nat" where
  "free_buffers s = card {b. b < nbuf s - 1 \<and> \<not> reserved b s}"

lemma no_free_buffer: "\<forall>b < nbuf s. reserved b s \<Longrightarrow> free_buffers s = 0"
  by (auto simp: free_buffers_def)

lemma free_buffers_rest: "rest_same s s' \<Longrightarrow> free_buffers s' = free_buffers s"
  by (simp add: free_buffers_def nbuf_rest reserved_rest)

lemma free_buffers_take:
  assumes "region_ok s" and "b < nbuf s - 1"
  shows "free_buffers s \<le> free_buffers (s\<lparr>bytes_at := (bytes_at s)(alloced_bitmap s + of_nat b := v)\<rparr>) + 1"
proof -
  let ?t = "s\<lparr>bytes_at := (bytes_at s)(alloced_bitmap s + of_nat b := v)\<rparr>"
  have "nbuf s \<le> 4096" using assms(1) by (simp add: region_ok_def)
  then have "reserved c ?t \<longleftrightarrow> (if c = b then v \<noteq> 0 else reserved c s)" if "c < nbuf s - 1" for c
    using that assms(2) by (intro reserved_upd) simp_all
  then have "{c. c < nbuf s - 1 \<and> \<not> reserved c s} \<subseteq> insert b {c. c < nbuf ?t - 1 \<and> \<not> reserved c ?t}" by auto
  then have "free_buffers s \<le> card (insert b {c. c < nbuf ?t - 1 \<and> \<not> reserved c ?t})"
    unfolding free_buffers_def by (rule card_mono [rotated]) simp
  also have "\<dots> \<le> free_buffers ?t + 1" by (simp add: free_buffers_def card_insert_if)
  finally show ?thesis .
qed

lemma free_fields [simp]:
  "free_blocks (s\<lparr>bytes_at := m\<rparr>) = free_blocks s" "free_blocks (s\<lparr>fi_cells := h\<rparr>) = free_blocks s" "free_blocks (s\<lparr>gft := v\<rparr>) = free_blocks s"
  "free_buffers (s\<lparr>fi_cells := h\<rparr>) = free_buffers s" "free_buffers (s\<lparr>gft := v\<rparr>) = free_buffers s"
  by (simp_all add: free_blocks_def usable_blocks_def free_buffers_def reserved_def)

lemma alloc_page_total:
  assumes "vm_ok (current_directory s) s" and "a AND mask 12 = 0" and "a < 0xF0000000"
  obtains e s' where "vmmngr_alloc_page a s = Some (e, s')" "vm_ok (current_directory s) s'" "rest_same s s'"
    "free_blocks s \<le> free_blocks s' + 2" "e = ERROR_OK \<or> free_blocks s < 2"
proof -
  have f: "flags_ok DEFAULT_FLAGS" by (simp add: flags_ok_def DEFAULT_FLAGS_def I86_PDE_PRESENT_def I86_PDE_WRITABLE_def)
  have "\<exists>e s'. vmmngr_alloc_page a s = Some (e, s') \<and> vm_ok (current_directory s) s'"
  proof (cases "translate s (current_directory s) a")
    case None
    then show ?thesis using alloc_page_f_fresh [OF assms(1) f None assms(3)] by (auto simp: vmmngr_alloc_page_def)
  next
    case (Some x)
    then show ?thesis using alloc_page_f_mapped [OF assms(1,2) f Some] by (auto simp: vmmngr_alloc_page_def)
  qed
  then obtain e s' where a: "vmmngr_alloc_page a s = Some (e, s')" "vm_ok (current_directory s) s'" by blast
  show thesis
    using that [OF a rest_same_alloc_page [OF a(1)]] alloc_page_f_cost [OF assms(1) f assms(2,3)] a(1) by (simp add: vmmngr_alloc_page_def)
qed

lemma reserve_anonymous_ok:
  assumes r: "region_ok s"
  obtains s' where "page_cache_reserve_anonymous s = Some (0, s')" "rest_same s s'" "region_ok s'"
      "free_buffers s = 0 \<or> free_blocks s < 2"
  | b s' where "page_cache_reserve_anonymous s = Some (buffer_addr b s, s')" "b < nbuf s - 1" "\<not> reserved b s"
      "rest_same (s\<lparr>bytes_at := (bytes_at s)(alloced_bitmap s + of_nat b := 1)\<rparr>) s'" "region_ok s'"
      "free_blocks s \<le> free_blocks s' + 2"
proof (rule free_buffer_ok [OF r])
  assume f: "page_cache_index_free_buffer s = page_cache_num_buffers s" and all: "\<forall>b < nbuf s. reserved b s"
  show thesis
    by (rule that(1) [of "set_last_error ENOMEM PAGE_CACHE_DEPLET EO_PAGE_CACHE s"])
      (use f r no_free_buffer [OF all] region_ok_rest [OF r, of "set_last_error ENOMEM PAGE_CACHE_DEPLET EO_PAGE_CACHE s"] in
        \<open>simp_all add: page_cache_reserve_anonymous_def region_ok_def\<close>)
next
  fix b assume b: "page_cache_index_free_buffer s = of_nat b" "b < nbuf s - 1" "\<not> reserved b s"
  have bn: "b < nbuf s" using b(2) by simp
  note a = buffer_addr_ok [OF r bn]
  let ?s = "s\<lparr>bytes_at := (bytes_at s)(alloced_bitmap s + of_nat b := 1)\<rparr>"
  have r1: "region_ok ?s" by (rule region_ok_reserve [OF r b(2)])
  have nn: "\<not> page_cache_num_buffers s \<le> of_nat b" using bn a(7) by (simp add: word_le_nat_alt nbuf_def)
  have addr: "page_cache_addr_by_index (of_nat b) ?s = buffer_addr b s" by (simp add: page_cache_addr_by_index_def buffer_addr_def)
  have vm: "vm_ok (current_directory ?s) ?s" using r1 by (simp add: region_ok_def)
  obtain e s2 where al: "vmmngr_alloc_page (buffer_addr b s) ?s = Some (e, s2)" "vm_ok (current_directory ?s) s2" "rest_same ?s s2"
    "free_blocks ?s \<le> free_blocks s2 + 2" "e = ERROR_OK \<or> free_blocks ?s < 2"
    by (rule alloc_page_total [OF vm a(2,3)])
  have r2: "region_ok s2" by (rule region_ok_rest [OF r1 al(3,2)])
  show thesis
  proof (cases "e = ERROR_OK")
    case True
    show thesis by (rule that(2) [OF _ b(2,3) al(3) r2])
        (use b(1) nn addr al(1,4) True in \<open>simp_all add: page_cache_reserve_anonymous_def page_cache_index_reserve_buffer_def\<close>)
  next
    case False
    let ?s3 = "page_cache_index_release_buffer (of_nat b) s2"
    have run: "page_cache_reserve_anonymous s = Some (0, ?s3)"
      using b(1) nn addr al(1) False by (simp add: page_cache_reserve_anonymous_def page_cache_index_reserve_buffer_def)
    have z: "bytes_at s (alloced_bitmap s + of_nat b) = 0" using b(3) by (simp add: reserved_def)
    have same: "rest_same s ?s3"
      using al(3) z unfolding page_cache_index_release_buffer_def
      by (cases s; cases s2) (auto simp: rest_same_def fun_upd_idem)
    have "b < nbuf s2 - 1" using b(2) nbuf_rest [OF al(3)] by simp
    then have "region_ok ?s3" unfolding page_cache_index_release_buffer_def by (rule region_ok_reserve [OF r2])
    then show thesis using that(1) [OF run same] al(5) False by simp
  qed
qed

subsection \<open>The lists of cached pages\<close>

lemma concat_nth:
  assumes "k < length xss"
  shows "concat xss = concat (take k xss) @ xss ! k @ concat (drop (Suc k) xss)"
    and "concat (xss[k := ys]) = concat (take k xss) @ ys @ concat (drop (Suc k) xss)"
  using id_take_nth_drop [OF assms] upd_conv_take_nth_drop [OF assms, of ys]
  by (metis concat.simps(2) concat_append)+

lemma cache_okD:
  assumes "cache_ok s es pgs" and "k < length es"
  shows "list_ok (ge_pages (es ! k)) (fi_cells s) (pgs ! k)" and "distinct (map (fi_page \<circ> snd) (pgs ! k))"
    and "set (pgs ! k) \<subseteq> set (concat pgs)" and "length (pgs ! k) \<le> 4096"
proof -
  have n: "nbuf s \<le> 4096" using assms(1) by (simp add: cache_ok_def region_ok_def)
  have k: "k < length pgs" using assms by (simp add: cache_ok_def)
  show "list_ok (ge_pages (es ! k)) (fi_cells s) (pgs ! k)" "distinct (map (fi_page \<circ> snd) (pgs ! k))"
    using assms by (simp_all add: cache_ok_def)
  show sub: "set (pgs ! k) \<subseteq> set (concat pgs)" using concat_nth(1) [OF k] by (metis Un_iff set_append subsetI)
  let ?ix = "map (unat \<circ> fi_buffer_index \<circ> snd) (pgs ! k)"
  have "distinct (map (fi_buffer_index \<circ> snd) (concat pgs))" using assms(1) by (simp add: cache_ok_def)
  then have "distinct (map (fi_buffer_index \<circ> snd) (pgs ! k))" unfolding concat_nth(1) [OF k] by simp
  moreover have "inj_on unat (set (map (fi_buffer_index \<circ> snd) (pgs ! k)))"
    by (intro inj_onI) (rule word_unat_eq_iff [THEN iffD2])
  ultimately have "distinct (map unat (map (fi_buffer_index \<circ> snd) (pgs ! k)))" using distinct_map by blast
  then have d: "distinct ?ix" by (simp add: comp_assoc)
  have "set ?ix \<subseteq> {..< 4096}" using assms(1) sub n by (fastforce simp: cache_ok_def)
  then have "card (set ?ix) \<le> 4096" using card_mono [of "{..< 4096 :: nat}" "set ?ix"] by simp
  then show "length (pgs ! k) \<le> 4096" using distinct_card [OF d] by simp
qed

lemma cache_buffer:
  assumes "cache_ok s es pgs" and "x \<in> set (concat pgs)"
  shows "unat (fi_buffer_index (snd x)) < nbuf s - 1" and "reserved (unat (fi_buffer_index (snd x))) s"
  using assms unfolding cache_ok_def by blast+

lemma cache_ok_rest:
  assumes "cache_ok s es pgs" and "rest_same s s'" and "region_ok s'"
  shows "cache_ok s' es pgs"
  using assms(1,3) rest_same_fields [OF assms(2)] nbuf_rest [OF assms(2)] reserved_rest [OF assms(2)] by (simp add: cache_ok_def)

lemma finfo_loop_ok:
  "chain h p cs 0 \<Longrightarrow> finfo_loop p page h = Some (case find (\<lambda>x. fi_page (snd x) = page) cs of None \<Rightarrow> 0 | Some x \<Rightarrow> fst x)"
proof (induction cs arbitrary: p)
  case Nil
  then show ?case by (subst finfo_loop.simps) simp
next
  case (Cons x cs)
  then show ?case by (cases x) (subst finfo_loop.simps, auto)
qed

lemma find_unique:
  assumes "distinct (map f xs)" and "x \<in> set xs" and "f x = v"
  shows "find (\<lambda>y. f y = v) xs = Some x"
  using assms by (induction xs) auto

lemma find_cached:
  assumes "cache_ok s es pgs" and "k < length es" and "x \<in> set (pgs ! k)"
  shows "find (\<lambda>y. fi_page (snd y) = fi_page (snd x)) (pgs ! k) = Some x"
  using find_unique [of "fi_page \<circ> snd" "pgs ! k" x] cache_okD(2) [OF assms(1,2)] assms(3) by simp

lemma get_finfo_ok:
  assumes ok: "cache_ok s es pgs" and k: "unat gfd < length es" and node: "ge_file_node (es ! unat gfd) \<noteq> 0"
  shows "page_cache_get_finfo gfd page s = Some (case find (\<lambda>x. fi_page (snd x) = page) (pgs ! unat gfd) of
     None \<Rightarrow> (0, set_last_error EINVAL PAGE_CACHE_FINFO_NOT_FOUND EO_PAGE_CACHE s) | Some x \<Rightarrow> (fst x, s))"
proof -
  have v: "vec_rep (gft s) es" using ok by (simp add: cache_ok_def)
  have c: "\<not> v_count (gft s) \<le> gfd" using k vec_rep_count [OF v] by (simp add: word_le_nat_alt)
  note l = cache_okD(1) [OF ok k]
  have ch: "chain (fi_cells s) (l_head (ge_pages (es ! unat gfd))) (pgs ! unat gfd) 0" using l by (simp add: list_ok_def)
  have nz: "fst x \<noteq> 0" if "find (\<lambda>x. fi_page (snd x) = page) (pgs ! unat gfd) = Some x" for x
    using that list_ok_addr [OF l, of "fst x" "snd x"] by (auto simp: find_Some_iff)
  show ?thesis using c vec_get_rep [OF v k] node finfo_loop_ok [OF ch, of page] nz
    by (auto simp: page_cache_get_finfo_def split: option.splits)
qed

lemma get_buffer_ok:
  assumes ok: "cache_ok s es pgs" and k: "unat gfd < length es" and node: "ge_file_node (es ! unat gfd) \<noteq> 0"
  shows "x \<in> set (pgs ! unat gfd) \<Longrightarrow>
      page_cache_get_buffer gfd (fi_page (snd x)) s = Some (buffer_addr (unat (fi_buffer_index (snd x))) s, s)"
    and "page \<notin> (fi_page \<circ> snd) ` set (pgs ! unat gfd) \<Longrightarrow>
      page_cache_get_buffer gfd page s = Some (0, set_last_error EINVAL PAGE_CACHE_FINFO_NOT_FOUND EO_PAGE_CACHE s)"
proof -
  note g = get_finfo_ok [OF assms]
  assume x: "x \<in> set (pgs ! unat gfd)"
  obtain n where n: "fst x \<noteq> 0" "fi_cells s (fst x) = Some n" "ln_data n = snd x"
    using list_ok_addr [OF cache_okD(1) [OF ok k], of "fst x" "snd x"] x by auto
  show "page_cache_get_buffer gfd (fi_page (snd x)) s = Some (buffer_addr (unat (fi_buffer_index (snd x))) s, s)"
    using g [of "fi_page (snd x)"] find_cached [OF ok k x] n by (simp add: page_cache_get_buffer_def buffer_addr_def)
next
  assume "page \<notin> (fi_page \<circ> snd) ` set (pgs ! unat gfd)"
  then have "find (\<lambda>x. fi_page (snd x) = page) (pgs ! unat gfd) = None" by (force simp: find_None_iff)
  then show "page_cache_get_buffer gfd page s = Some (0, set_last_error EINVAL PAGE_CACHE_FINFO_NOT_FOUND EO_PAGE_CACHE s)"
    using get_finfo_ok [OF assms, of page] by (simp add: page_cache_get_buffer_def)
qed

lemma concat_grow:
  assumes "k < length xss"
  shows "set (concat (xss[k := xss ! k @ [x]])) = insert x (set (concat xss))"
    and "distinct (map f (concat (xss[k := xss ! k @ [x]]))) \<longleftrightarrow> distinct (map f (concat xss)) \<and> f x \<notin> f ` set (concat xss)"
  unfolding concat_nth(1) [OF assms] concat_nth(2) [OF assms] by auto

lemma other_lists:
  assumes ok: "cache_ok s es pgs" and k: "k < length es" "j < length es" "j \<noteq> k" and x: "x \<in> set (pgs ! j)"
  shows "fst x \<notin> fst ` set (pgs ! k)"
proof
  assume "fst x \<in> fst ` set (pgs ! k)"
  then obtain y where y: "y \<in> set (pgs ! k)" "fst y = fst x" by auto
  have len: "length pgs = length es" and d: "distinct (map fst (concat pgs))" using ok by (simp_all add: cache_ok_def)
  have kl: "k < length pgs" using k len by simp
  have "x \<in> set (concat (take k pgs)) \<union> set (concat (drop (Suc k) pgs))"
  proof (cases "j < k")
    case True
    then have "pgs ! j \<in> set (take k pgs)" using k len by (metis in_set_conv_nth length_take min_less_iff_conj nth_take)
    then show ?thesis using x by auto
  next
    case False
    then have "Suc k \<le> j" using k(3) by simp
    then have "pgs ! j = drop (Suc k) pgs ! (j - Suc k)" "j - Suc k < length (drop (Suc k) pgs)" using k(2) len by simp_all
    then have "pgs ! j \<in> set (drop (Suc k) pgs)" by (metis nth_mem)
    then show ?thesis using x by auto
  qed
  then have "fst x \<in> set (map fst (concat (take k pgs))) \<union> set (map fst (concat (drop (Suc k) pgs)))" by auto
  moreover have "fst x \<in> set (map fst (pgs ! k))" using y by (metis image_eqI set_map)
  ultimately show False using d unfolding concat_nth(1) [OF kl] map_append distinct_append set_append by blast
qed

lemma cache_ok_insert:
  assumes ok: "cache_ok s es pgs" and k: "k < length es" and l: "list_ok l h (pgs ! k @ [(cell, fi)])"
    and h: "\<And>a. a \<notin> insert cell (fst ` set (pgs ! k)) \<Longrightarrow> h a = fi_cells s a"
    and cell: "cell \<notin> fst ` set (concat pgs)" and page: "fi_page fi \<notin> (fi_page \<circ> snd) ` set (pgs ! k)"
    and v: "vec_rep v (es[k := (es ! k)\<lparr>ge_pages := l\<rparr>])" and s': "region_ok s'" "gft s' = v" "fi_cells s' = h" "nbuf s' = nbuf s"
    and b: "unat (fi_buffer_index fi) < nbuf s - 1" "\<not> reserved (unat (fi_buffer_index fi)) s"
    and r: "\<And>c. c < nbuf s \<Longrightarrow> reserved c s' \<longleftrightarrow> reserved c s \<or> c = unat (fi_buffer_index fi)"
  shows "cache_ok s' (es[k := (es ! k)\<lparr>ge_pages := l\<rparr>]) (pgs[k := pgs ! k @ [(cell, fi)]])"
proof -
  have len: "length pgs = length es" using ok by (simp add: cache_ok_def)
  then have kl: "k < length pgs" using k by simp
  note g = concat_grow [OF kl, where x = "(cell, fi)"]
  have lists: "list_ok (ge_pages (es[k := (es ! k)\<lparr>ge_pages := l\<rparr>] ! j)) h (pgs[k := pgs ! k @ [(cell, fi)]] ! j) \<and>
    distinct (map (fi_page \<circ> snd) (pgs[k := pgs ! k @ [(cell, fi)]] ! j))" if j: "j < length es" for j
  proof (cases "j = k")
    case True
    then show ?thesis using l k kl cache_okD(2) [OF ok k] page by (auto simp: comp_def)
  next
    case False
    have "h a = fi_cells s a" if a: "a \<in> fst ` set (pgs ! j)" for a
    proof (rule h)
      have "a \<noteq> cell" using a cell cache_okD(3) [OF ok j] by blast
      moreover have "a \<notin> fst ` set (pgs ! k)" using a other_lists [OF ok k j False] by auto
      ultimately show "a \<notin> insert cell (fst ` set (pgs ! k))" by simp
    qed
    then have "list_ok (ge_pages (es ! j)) h (pgs ! j)" by (rule list_ok_frame [OF cache_okD(1) [OF ok j]])
    then show ?thesis using False cache_okD(2) [OF ok j] by simp
  qed
  have nb: "fi_buffer_index fi \<notin> (fi_buffer_index \<circ> snd) ` set (concat pgs)"
  proof
    assume "fi_buffer_index fi \<in> (fi_buffer_index \<circ> snd) ` set (concat pgs)"
    then obtain y where "y \<in> set (concat pgs)" "fi_buffer_index fi = fi_buffer_index (snd y)" by (metis comp_apply imageE)
    then show False using cache_buffer(2) [OF ok] b(2) by metis
  qed
  have "distinct (map fst (concat (pgs[k := pgs ! k @ [(cell, fi)]])))" using g(2) [where f = fst] ok cell by (simp add: cache_ok_def)
  moreover have "distinct (map (fi_buffer_index \<circ> snd) (concat (pgs[k := pgs ! k @ [(cell, fi)]])))"
    using g(2) [where f = "fi_buffer_index \<circ> snd"] ok nb by (simp add: cache_ok_def)
  moreover have "unat (fi_buffer_index (snd x)) < nbuf s' - 1 \<and> reserved (unat (fi_buffer_index (snd x))) s'"
    if "x \<in> set (concat (pgs[k := pgs ! k @ [(cell, fi)]]))" for x
  proof -
    have "x = (cell, fi) \<or> x \<in> set (concat pgs)" using that g(1) by blast
    then have c: "unat (fi_buffer_index (snd x)) < nbuf s - 1" "reserved (unat (fi_buffer_index (snd x))) s \<or> x = (cell, fi)"
      using b(1) cache_buffer [OF ok, of x] by (cases "x = (cell, fi)"; simp)+
    then have "unat (fi_buffer_index (snd x)) < nbuf s" by simp
    from r [OF this] c s'(4) show ?thesis by auto
  qed
  ultimately show ?thesis using lists v s' len unfolding cache_ok_def by simp
qed

lemma reserve_buffer_ok:
  assumes ok: "cache_ok s es pgs" and k: "unat gfd < length es"
    and cell: "cell \<noteq> 0" "cell \<notin> fst ` set (concat pgs)" and page: "page \<notin> (fi_page \<circ> snd) ` set (pgs ! unat gfd)"
  obtains s' where "page_cache_reserve_buffer cell gfd page s = Some (0, s')" "rest_same s s'" "cache_ok s' es pgs"
      "free_buffers s = 0 \<or> free_blocks s < 2"
  | b l h v t s' where "page_cache_reserve_buffer cell gfd page s = Some (buffer_addr b s, s')" "b < nbuf s - 1" "\<not> reserved b s"
      "rest_same (s\<lparr>bytes_at := (bytes_at s)(alloced_bitmap s + of_nat b := 1)\<rparr>) t" "s' = t\<lparr>fi_cells := h, gft := v\<rparr>"
      "cache_ok s' (es[unat gfd := (es ! unat gfd)\<lparr>ge_pages := l\<rparr>])
         (pgs[unat gfd := pgs ! unat gfd @ [(cell, page_cache_file_info_create page (of_nat b))]])"
      "\<forall>a. a \<notin> insert cell (fst ` set (pgs ! unat gfd)) \<longrightarrow> h a = fi_cells s a" "free_blocks s \<le> free_blocks t + 2"
proof -
  have r: "region_ok s" and v: "vec_rep (gft s) es" using ok by (simp_all add: cache_ok_def)
  show thesis
  proof (rule reserve_anonymous_ok [OF r])
    fix s' assume s': "page_cache_reserve_anonymous s = Some (0, s')" "rest_same s s'" "region_ok s'" "free_buffers s = 0 \<or> free_blocks s < 2"
    let ?s = "set_last_error ENOMEM PAGE_CACHE_DEPLET EO_PAGE_CACHE s'"
    have "vm_ok (current_directory s') ?s" using s'(3) by (simp add: region_ok_def)
    then have "region_ok ?s" using region_ok_rest [OF s'(3), of ?s] by simp
    then have "cache_ok ?s es pgs" using cache_ok_rest [OF ok, of ?s] s'(2) by simp
    then show thesis using that(1) [of ?s] s'(1,2,4) by (simp add: page_cache_reserve_buffer_def)
  next
    fix b t assume t: "page_cache_reserve_anonymous s = Some (buffer_addr b s, t)" "b < nbuf s - 1" "\<not> reserved b s"
      "rest_same (s\<lparr>bytes_at := (bytes_at s)(alloced_bitmap s + of_nat b := 1)\<rparr>) t" "region_ok t" "free_blocks s \<le> free_blocks t + 2"
    have bn: "b < nbuf s" using t(2) by simp
    note a = buffer_addr_ok [OF r bn]
    note f = rest_same_fields [OF t(4), simplified]
    have vt: "vec_rep (gft t) es" using v f(1) by simp
    have c: "gft_get gfd t = (Some gfd, t)" using k vec_rep_count [OF vt] by (simp add: gft_get_def word_le_nat_alt)
    have ix: "page_cache_index_by_addr (buffer_addr b s) t = of_nat b" using a(5) f(4) by (simp add: page_cache_index_by_addr_def)
    let ?fi = "page_cache_file_info_create page (of_nat b)"
    have nin: "cell \<notin> fst ` set (pgs ! unat gfd)" using cell(2) cache_okD(3) [OF ok k] by blast
    have lb: "length (pgs ! unat gfd) + 1 < 2 ^ 32" using cache_okD(4) [OF ok k] by simp
    have "list_ok (ge_pages (es ! unat gfd)) (fi_cells t) (pgs ! unat gfd)" using cache_okD(1) [OF ok k] f(3) by simp
    from list_insert_back_ok [OF this cell(1) nin lb, of ?fi] obtain l h where i:
      "list_insert_back (ge_pages (es ! unat gfd)) cell ?fi (fi_cells t) = Some (l, h)" "list_ok l h (pgs ! unat gfd @ [(cell, ?fi)])"
      "\<forall>a. a \<notin> insert cell (fst ` set (pgs ! unat gfd)) \<longrightarrow> h a = fi_cells t a" by blast
    let ?e = "(es ! unat gfd)\<lparr>ge_pages := l\<rparr>"
    note p = vec_put_rep [OF vt k, of ?e]
    define w where "w = (gft t)\<lparr>v_data := (v_data (gft t))[unat gfd := Some ?e]\<rparr>"
    let ?s = "t\<lparr>fi_cells := h, gft := w\<rparr>"
    have run: "page_cache_reserve_buffer cell gfd page s = Some (buffer_addr b s, ?s)"
      using t(1) a(4) ix c vec_get_rep [OF vt k] i(1) p(1) by (simp add: page_cache_reserve_buffer_def w_def [symmetric])
    have b2: "unat (fi_buffer_index ?fi) = b" using a(7) by (simp add: page_cache_file_info_create_def)
    have rs: "region_ok ?s" using t(5) by simp
    have nb: "nbuf ?s = nbuf s" using nbuf_rest [OF t(4)] by simp
    have res: "reserved c ?s \<longleftrightarrow> reserved c s \<or> c = unat (fi_buffer_index ?fi)" if "c < nbuf s" for c
    proof -
      have "nbuf s \<le> 4096" using r by (simp add: region_ok_def)
      then have "c < 2 ^ 32" "b < 2 ^ 32" using that bn by simp_all
      then have "reserved c t \<longleftrightarrow> (if c = b then (1 :: u8) \<noteq> 0 else reserved c s)" unfolding reserved_rest [OF t(4)] by (rule reserved_upd)
      moreover have "reserved c ?s = reserved c t" by (simp add: reserved_def)
      ultimately show ?thesis using b2 by simp
    qed
    have "cache_ok ?s (es[unat gfd := ?e]) (pgs[unat gfd := pgs ! unat gfd @ [(cell, ?fi)]])"
    proof (rule cache_ok_insert [where h = h and s = s and v = w])
      show "fi_page ?fi \<notin> (fi_page \<circ> snd) ` set (pgs ! unat gfd)" using page by (simp add: page_cache_file_info_create_def)
      show "h x = fi_cells s x" if "x \<notin> insert cell (fst ` set (pgs ! unat gfd))" for x using that i(3) f(3) by simp
    qed (use ok k i(2) cell(2) p(2) rs nb t(2,3) b2 res in \<open>simp_all add: w_def\<close>)
    moreover have "\<forall>a. a \<notin> insert cell (fst ` set (pgs ! unat gfd)) \<longrightarrow> h a = fi_cells s a" using i(3) f(3) by simp
    ultimately show thesis using that(2) [OF run t(2,3,4)] t(6) by blast
  qed
qed

subsection \<open>Releasing a buffer\<close>

lemma release_loop_ok:
  assumes "list_ok l h (ds @ (p, y) # rest)" and "distinct (map (fi_page \<circ> snd) rest)"
  shows "(page \<notin> (fi_page \<circ> snd) ` set rest \<longrightarrow> release_loop p page l h = Some (- 1, l, h)) \<and>
    (\<forall>us t x vs. rest = us @ (t, x) # vs \<longrightarrow> fi_page x = page \<longrightarrow>
      (\<exists>l' h'. release_loop p page l h = Some (fi_buffer_index x, l', h') \<and> list_ok l' h' (ds @ (p, y) # us @ vs) \<and>
        (\<forall>a. a \<notin> fst ` set (ds @ (p, y) # rest) \<longrightarrow> h' a = h a)))"
  using assms
proof (induction rest arbitrary: ds p y)
  case Nil
  have "chain h (l_head l) (ds @ [(p, y)]) 0" using Nil(1) by (simp add: list_ok_def)
  then obtain n where "h p = Some n" "ln_next n = 0" by auto
  then show ?case by (subst release_loop.simps) simp
next
  case (Cons c rest)
  obtain t x where c: "c = (t, x)" by (cases c)
  note sp = list_ok_split [OF Cons.prems(1) [unfolded c]]
  obtain n m where nm: "h p = Some n" "ln_next n = t" "h t = Some m" "ln_data m = x" using sp(1) by blast
  have tz: "t \<noteq> 0" using sp(3) .
  have stop: "fi_page z \<noteq> fi_page x" if "z \<in> snd ` set rest" for z using Cons.prems(2) that c by (auto simp: image_iff)
  show ?case
  proof (cases "fi_page x = page")
    case True
    obtain l' h' where r: "list_remove l p h = Some (True, l', h')" "list_ok l' h' (ds @ (p, y) # rest)"
      "\<forall>a. a \<noteq> p \<longrightarrow> a \<noteq> t \<longrightarrow> h' a = h a" using list_remove_ok [OF Cons.prems(1) [unfolded c]] by blast
    have run: "release_loop p page l h = Some (fi_buffer_index x, l', h')"
      using nm tz True r(1) by (subst release_loop.simps) simp
    have only: "us = [] \<and> t' = t \<and> x' = x \<and> vs = rest" if "c # rest = us @ (t', x') # vs" "fi_page x' = page" for us t' x' vs
    proof (cases us)
      case (Cons u us')
      then have "x' \<in> snd ` set rest" using that(1) by (auto simp: image_iff)
      then show ?thesis using stop [of x'] that(2) True by simp
    qed (use that c in simp)
    show ?thesis
    proof (intro conjI impI allI)
      assume "page \<notin> (fi_page \<circ> snd) ` set (c # rest)"
      then show "release_loop p page l h = Some (- 1, l, h)" using True c by simp
    next
      fix us t' x' vs assume "c # rest = us @ (t', x') # vs" "fi_page x' = page"
      from only [OF this] show "\<exists>l' h'. release_loop p page l h = Some (fi_buffer_index x', l', h') \<and> list_ok l' h' (ds @ (p, y) # us @ vs) \<and>
        (\<forall>a. a \<notin> fst ` set (ds @ (p, y) # c # rest) \<longrightarrow> h' a = h a)" using run r(2,3) c by auto
    qed
  next
    case False
    have step: "release_loop p page l h = release_loop t page l h" using nm tz False by (subst release_loop.simps) simp
    have ok: "list_ok l h ((ds @ [(p, y)]) @ (t, x) # rest)" using Cons.prems(1) c by simp
    have d: "distinct (map (fi_page \<circ> snd) rest)" using Cons.prems(2) unfolding list.map distinct.simps by blast
    note ih = Cons.IH [OF ok d]
    show ?thesis
    proof (intro conjI impI allI)
      assume "page \<notin> (fi_page \<circ> snd) ` set (c # rest)"
      then show "release_loop p page l h = Some (- 1, l, h)" using ih step by simp
    next
      fix us t' x' vs assume a: "c # rest = us @ (t', x') # vs" "fi_page x' = page"
      then obtain us' where us: "us = c # us'" "rest = us' @ (t', x') # vs" using False c by (cases us) auto
      then show "\<exists>l' h'. release_loop p page l h = Some (fi_buffer_index x', l', h') \<and> list_ok l' h' (ds @ (p, y) # us @ vs) \<and>
        (\<forall>a. a \<notin> fst ` set (ds @ (p, y) # c # rest) \<longrightarrow> h' a = h a)" using ih a(2) step c by auto
    qed
  qed
qed

definition backed :: "virtual_addr \<Rightarrow> 'a vmm_scheme \<Rightarrow> bool" where
  \<comment> \<open>The page has a table, and its frame is a block in use that holds no table.\<close>
  "backed a s \<longleftrightarrow> (let dir = current_directory s; fr = pt_entry_get_frame (old_pte s dir a) in
     pd_entry_is_present (dirent s dir a) \<and> (unat fr, 4096) \<in> block_regions s \<and> \<not> table_block s dir fr)"

lemma backed_fields [simp]:
  "backed a (s\<lparr>bytes_at := m\<rparr>) = backed a s" "backed a (s\<lparr>fi_cells := h\<rparr>) = backed a s" "backed a (s\<lparr>gft := v\<rparr>) = backed a s"
  by (simp_all add: backed_def dirent_def old_pte_def block_regions_def table_block_def Let_def)

lemma concat_shrink:
  assumes "k < length xss" and "xss ! k = us @ x # vs"
  shows "set (concat (xss[k := us @ vs])) \<subseteq> set (concat xss)"
    and "distinct (map f (concat xss)) \<Longrightarrow> distinct (map f (concat (xss[k := us @ vs]))) \<and> f x \<notin> f ` set (concat (xss[k := us @ vs]))"
  unfolding concat_nth(1) [OF assms(1)] concat_nth(2) [OF assms(1)] assms(2) by auto

lemma release_buffer_ok:
  assumes ok: "cache_ok s es pgs" and k: "unat gfd < length es" and x: "pgs ! unat gfd = us @ (c, fi) # vs"
    and bk: "backed (buffer_addr (unat (fi_buffer_index fi)) s) s"
  shows "\<exists>l s'. page_cache_release_buffer gfd (fi_page fi) s = Some (ERROR_OK, s') \<and>
    cache_ok s' (es[unat gfd := (es ! unat gfd)\<lparr>ge_pages := l\<rparr>]) (pgs[unat gfd := us @ vs]) \<and>
    (\<forall>b < nbuf s. reserved b s' \<longleftrightarrow> reserved b s \<and> b \<noteq> unat (fi_buffer_index fi)) \<and>
    translate s' (current_directory s) (buffer_addr (unat (fi_buffer_index fi)) s) = None"
proof -
  let ?k = "unat gfd" and ?b = "unat (fi_buffer_index fi)"
  have r: "region_ok s" and v: "vec_rep (gft s) es" and len: "length pgs = length es" using ok by (simp_all add: cache_ok_def)
  have kl: "?k < length pgs" using k len by simp
  have inx: "(c, fi) \<in> set (concat pgs)" using cache_okD(3) [OF ok k] x by auto
  have b: "?b < nbuf s - 1" "reserved ?b s" using cache_buffer [OF ok inx] by simp_all
  then have bn: "?b < nbuf s" by simp
  note a = buffer_addr_ok [OF r bn]
  note l0 = cache_okD(1) [OF ok k, unfolded x]
  have d0: "distinct (map (fi_page \<circ> snd) (us @ (c, fi) # vs))" using cache_okD(2) [OF ok k] x by simp
  obtain l h where lh: "list_ok l h (us @ vs)" "\<forall>q. q \<notin> fst ` set (pgs ! ?k) \<longrightarrow> h q = fi_cells s q"
    and run: "(do { n \<leftarrow> fi_cells s (l_head (ge_pages (es ! ?k)));
        (if fi_page (ln_data n) = fi_page fi then do {
           (l, h) \<leftarrow> list_remove_front (ge_pages (es ! ?k)) (fi_cells s); Some (fi_buffer_index (ln_data n), l, h) }
         else release_loop (l_head (ge_pages (es ! ?k))) (fi_page fi) (ge_pages (es ! ?k)) (fi_cells s)) }) = Some (fi_buffer_index fi, l, h)"
    and hd: "l_head (ge_pages (es ! ?k)) \<noteq> 0"
  proof (cases us)
    case Nil
    note lc = list_ok_Cons [OF l0 [unfolded Nil append_Nil]]
    obtain l h where "list_remove_front (ge_pages (es ! ?k)) (fi_cells s) = Some (l, h)" "list_ok l h vs" "h = (fi_cells s)(c := None)"
      using list_remove_front_ok [OF l0 [unfolded Nil append_Nil]] by blast
    then show thesis using that [of l h] lc(1,2,3) Nil x by auto
  next
    case (Cons u us')
    obtain p y where u: "u = (p, y)" by (cases u)
    have l1: "list_ok (ge_pages (es ! ?k)) (fi_cells s) ([] @ (p, y) # us' @ (c, fi) # vs)" using l0 Cons u by simp
    note lc = list_ok_Cons [OF l1 [unfolded append_Nil]]
    have d1: "distinct (map (fi_page \<circ> snd) (us' @ (c, fi) # vs))" using d0 Cons by simp
    obtain l h where "release_loop p (fi_page fi) (ge_pages (es ! ?k)) (fi_cells s) = Some (fi_buffer_index fi, l, h)"
      "list_ok l h ([] @ (p, y) # us' @ vs)" "\<forall>q. q \<notin> fst ` set ([] @ (p, y) # us' @ (c, fi) # vs) \<longrightarrow> h q = fi_cells s q"
      using release_loop_ok [OF l1 d1, of "fi_page fi"] by blast
    moreover have "fi_page y \<noteq> fi_page fi" using d0 Cons u by auto
    ultimately show thesis using that [of l h] lc(1,2,3) Cons u x by auto
  qed
  let ?e = "(es ! ?k)\<lparr>ge_pages := l\<rparr>"
  note p = vec_put_rep [OF v k, of ?e]
  define w where "w = (gft s)\<lparr>v_data := (v_data (gft s))[?k := Some ?e]\<rparr>"
  define s1 where "s1 = s\<lparr>fi_cells := h, gft := w, bytes_at := (bytes_at s)(alloced_bitmap s + fi_buffer_index fi := 0)\<rparr>"
  have of_b: "of_nat ?b = fi_buffer_index fi" by simp
  have r1: "region_ok s1"
    using region_ok_reserve [of "s\<lparr>fi_cells := h, gft := w\<rparr>" ?b 0] r b(1) of_b by (simp add: s1_def)
  have "backed (buffer_addr ?b s) s1" using bk by (simp add: s1_def)
  then obtain s2 where s2: "vmmngr_free_page_addr (buffer_addr ?b s) s1 = Some s2" "vm_ok (current_directory s1) s2"
    "translate s2 (current_directory s1) (buffer_addr ?b s) = None"
    using free_page_addr_ok [of s1 "buffer_addr ?b s", OF _ _ refl] r1
    by (auto simp: backed_def Let_def region_ok_def same_page_def)
  have rs: "rest_same s1 s2" by (rule rest_same_free_page_addr [OF s2(1)])
  have r2: "region_ok s2" by (rule region_ok_rest [OF r1 rs s2(2)])
  have n1: "fi_buffer_index fi \<noteq> - 1"
  proof
    assume "fi_buffer_index fi = - 1"
    then have "unat (fi_buffer_index fi) = 2 ^ 32 - 1" by (simp add: unsigned_minus_1_eq_mask mask_eq_exp_minus_1)
    moreover have "nbuf s \<le> 4096" using r by (simp add: region_ok_def)
    ultimately show False using b(1) by simp
  qed
  have nn: "\<not> page_cache_num_buffers s \<le> fi_buffer_index fi" using bn by (simp add: nbuf_def word_le_nat_alt)
  let ?s0 = "s\<lparr>fi_cells := h, gft := w\<rparr>"
  have ra: "page_cache_release_anonymous (page_cache_addr_by_index (fi_buffer_index fi) ?s0) ?s0 = Some s2"
    using s2(1) nn a(5,6) of_b
    by (simp add: page_cache_release_anonymous_def page_cache_index_by_addr_def page_cache_addr_by_index_def
        page_cache_num_buffers_def page_cache_index_release_buffer_def s1_def Let_def)
  have go: "page_cache_release_buffer gfd (fi_page fi) s = Some (ERROR_OK, s2)"
    using run hd n1 ra vec_get_rep [OF v k] p(1)
    by (auto simp: page_cache_release_buffer_def w_def [symmetric] Let_def elim!: bind_SomeE split: if_splits)
  have res: "reserved q s2 \<longleftrightarrow> reserved q s \<and> q \<noteq> ?b" if "q < nbuf s" for q
  proof -
    have "nbuf s \<le> 4096" using r by (simp add: region_ok_def)
    then have "q < 2 ^ 32" "?b < 2 ^ 32" using that bn by simp_all
    then have "reserved q (?s0\<lparr>bytes_at := (bytes_at ?s0)(alloced_bitmap ?s0 + of_nat ?b := 0)\<rparr>) \<longleftrightarrow> (if q = ?b then (0 :: u8) \<noteq> 0 else reserved q ?s0)"
      by (rule reserved_upd)
    moreover have "reserved q ?s0 = reserved q s" by (simp add: reserved_def)
    ultimately show ?thesis using reserved_rest [OF rs] of_b by (simp add: s1_def)
  qed
  note f = rest_same_fields [OF rs]
  have cok: "cache_ok s2 (es[?k := ?e]) (pgs[?k := us @ vs])"
  proof -
    note cs = concat_shrink [OF kl x]
    have lists: "list_ok (ge_pages (es[?k := ?e] ! j)) h (pgs[?k := us @ vs] ! j) \<and> distinct (map (fi_page \<circ> snd) (pgs[?k := us @ vs] ! j))"
      if j: "j < length es" for j
    proof (cases "j = ?k")
      case True
      then show ?thesis using lh(1) k kl d0 by auto
    next
      case False
      have "h q = fi_cells s q" if "q \<in> fst ` set (pgs ! j)" for q using that lh(2) other_lists [OF ok k j False] by auto
      then have "list_ok (ge_pages (es ! j)) h (pgs ! j)" by (rule list_ok_frame [OF cache_okD(1) [OF ok j]])
      then show ?thesis using False cache_okD(2) [OF ok j] by simp
    qed
    have di: "distinct (map (fi_buffer_index \<circ> snd) (concat (pgs[?k := us @ vs])))"
      "fi_buffer_index fi \<notin> (fi_buffer_index \<circ> snd) ` set (concat (pgs[?k := us @ vs]))"
      using cs(2) [of "fi_buffer_index \<circ> snd"] ok by (simp_all add: cache_ok_def)
    have df: "distinct (map fst (concat (pgs[?k := us @ vs])))" using cs(2) [of fst] ok by (simp add: cache_ok_def)
    have nb: "nbuf s2 = nbuf s" using nbuf_rest [OF rs] by (simp add: s1_def)
    have bufs: "unat (fi_buffer_index (snd z)) < nbuf s2 - 1 \<and> reserved (unat (fi_buffer_index (snd z))) s2"
      if z: "z \<in> set (concat (pgs[?k := us @ vs]))" for z
    proof -
      have c: "unat (fi_buffer_index (snd z)) < nbuf s - 1" "reserved (unat (fi_buffer_index (snd z))) s" using cache_buffer [OF ok, of z] cs(1) z by auto
      have "fi_buffer_index (snd z) \<noteq> fi_buffer_index fi" using di(2) z by (metis comp_apply imageI)
      then have "unat (fi_buffer_index (snd z)) \<noteq> ?b" by (metis word_unat_eq_iff)
      then show ?thesis using c res [of "unat (fi_buffer_index (snd z))"] nb by simp
    qed
    have "gft s2 = w" "fi_cells s2 = h" using f by (simp_all add: s1_def)
    then show ?thesis using r2 p(2) len lists di(1) df bufs by (simp add: cache_ok_def w_def)
  qed
  have "current_directory s1 = current_directory s" by (simp add: s1_def)
  then show ?thesis using go cok res s2(3) by (intro exI [of _ l] exI [of _ s2]) simp
qed

subsection \<open>Properties\<close>

definition sample_pages :: "(ptr \<times> page_cache_file_info) list list" where
  "sample_pages = [[(0x40, sample_finfo 0 0), (0x44, sample_finfo 1 1)], []]"

lemma sample_region: "nbuf sample_files = 4" "region_ok sample_files"
proof -
  show n: "nbuf sample_files = 4" by (simp add: nbuf_def page_cache_num_buffers_def sample_files_def PAGE_CACHE_SIZE_def)
  have "vm_ok 4096 sample_files = vm_ok 4096 sample_vmm"
    by (simp add: vm_ok_def dir_ok_def table_at_def pmm_ok_def block_regions_def sample_files_def)
  then have "vm_ok (current_directory sample_files) sample_files"
    using sample_vmm_ok by (simp add: sample_files_def sample_vmm_def)
  moreover have "alloced_bitmap sample_files = page_cache_get_last sample_files"
    by (simp add: page_cache_get_last_def page_cache_num_buffers_def sample_files_def PAGE_CACHE_SIZE_def)
  moreover have "pc_cache sample_files AND mask 12 = 0" by (simp add: sample_files_def mask_eq_exp_minus_1)
  moreover have "reserved 3 sample_files" by (simp add: reserved_def sample_files_def)
  ultimately show "region_ok sample_files" using n by (simp add: region_ok_def) (simp add: sample_files_def)
qed

lemma sample_cache_ok: "cache_ok sample_files sample_entries sample_pages"
proof -
  have "reserved 0 sample_files" "reserved 1 sample_files" by (simp_all add: reserved_def sample_files_def)
  moreover have "list_ok (ge_pages (sample_entries ! k)) (fi_cells sample_files) (sample_pages ! k) \<and>
    distinct (map (fi_page \<circ> snd) (sample_pages ! k))" if "k < 2" for k
    using that by (cases k) (simp_all add: sample_entries_def sample_files_def sample_pages_def sample_finfo_def list_ok_def)
  moreover have "vec_rep (gft sample_files) sample_entries" using sample_gft_ok by (simp add: gft_ok_def)
  ultimately show ?thesis using sample_region
    by (simp add: cache_ok_def) (simp add: sample_entries_def sample_pages_def sample_finfo_def)
qed

text \<open>
  C16. Buffers of the page cache are never shared. Reserving a buffer for a page of an open file that is
  not cached either fails, and then no list and no byte changes, or gives the address of a buffer
  that no cached page of any file has, under which the page is found from then on; releasing the
  page again, when its address is backed by a block of its own, frees the buffer and restores the
  lists.
\<close>

theorem cache_buffers_never_shared:
  assumes ok: "cache_ok s es pgs" and k: "unat gfd < length es" and node: "ge_file_node (es ! unat gfd) \<noteq> 0"
    and cell: "cell \<noteq> 0" "cell \<notin> fst ` set (concat pgs)" and page: "page \<notin> (fi_page \<circ> snd) ` set (pgs ! unat gfd)"
  shows "\<exists>a s' es' pgs'. page_cache_reserve_buffer cell gfd page s = Some (a, s') \<and> cache_ok s' es' pgs' \<and>
    (if a = 0 then es' = es \<and> pgs' = pgs \<and> bytes_at s' = bytes_at s
     else \<exists>b < nbuf s - 1. a = buffer_addr b s \<and> (\<forall>x \<in> set (concat pgs). unat (fi_buffer_index (snd x)) \<noteq> b) \<and>
       pgs' = pgs[unat gfd := pgs ! unat gfd @ [(cell, page_cache_file_info_create page (of_nat b))]] \<and>
       page_cache_get_buffer gfd page s' = Some (a, s') \<and>
       (backed a s' \<longrightarrow> (\<exists>s'' es''. page_cache_release_buffer gfd page s' = Some (ERROR_OK, s'') \<and>
          cache_ok s'' es'' pgs \<and> \<not> reserved b s'')))"
proof (rule reserve_buffer_ok [OF ok k cell page])
  fix s' assume "page_cache_reserve_buffer cell gfd page s = Some (0, s')" "rest_same s s'" "cache_ok s' es pgs"
  then show ?thesis using rest_same_fields(7) by (intro exI [of _ 0] exI [of _ s'] exI [of _ es] exI [of _ pgs]) simp
next
  fix b l h v t s'
  let ?fi = "page_cache_file_info_create page (of_nat b)"
  let ?es = "es[unat gfd := (es ! unat gfd)\<lparr>ge_pages := l\<rparr>]" and ?pgs = "pgs[unat gfd := pgs ! unat gfd @ [(cell, ?fi)]]"
  assume c: "page_cache_reserve_buffer cell gfd page s = Some (buffer_addr b s, s')" "b < nbuf s - 1" "\<not> reserved b s"
    "rest_same (s\<lparr>bytes_at := (bytes_at s)(alloced_bitmap s + of_nat b := 1)\<rparr>) t" "s' = t\<lparr>fi_cells := h, gft := v\<rparr>" "cache_ok s' ?es ?pgs"
  have r: "region_ok s" and len: "length pgs = length es" using ok by (simp_all add: cache_ok_def)
  have bn: "b < nbuf s" using c(2) by simp
  note a = buffer_addr_ok [OF r bn]
  have k': "unat gfd < length ?es" "unat gfd < length pgs" using k len by simp_all
  have n': "ge_file_node (?es ! unat gfd) \<noteq> 0" using k node by simp
  have in': "(cell, ?fi) \<in> set (?pgs ! unat gfd)" using k' by simp
  have fi: "fi_page ?fi = page" "unat (fi_buffer_index ?fi) = b" using a(7) by (simp_all add: page_cache_file_info_create_def)
  have ad: "buffer_addr b s' = buffer_addr b s" using rest_same_fields(4) [OF c(4)] by (simp add: buffer_addr_def c(5))
  have get: "page_cache_get_buffer gfd page s' = Some (buffer_addr b s, s')"
    using get_buffer_ok(1) [OF c(6) k'(1) n' in'] fi ad by simp
  have free: "\<forall>x \<in> set (concat pgs). unat (fi_buffer_index (snd x)) \<noteq> b" using cache_buffer(2) [OF ok] c(3) by metis
  have rel: "\<exists>s'' es''. page_cache_release_buffer gfd page s' = Some (ERROR_OK, s'') \<and> cache_ok s'' es'' pgs \<and> \<not> reserved b s''"
    if bk: "backed (buffer_addr b s) s'"
  proof -
    have x: "?pgs ! unat gfd = pgs ! unat gfd @ (cell, ?fi) # []" using k' by simp
    have "backed (buffer_addr (unat (fi_buffer_index ?fi)) s') s'" using bk fi ad by simp
    from release_buffer_ok [OF c(6) k'(1) x this] fi(1,2)
    obtain l' s'' where s'': "page_cache_release_buffer gfd page s' = Some (ERROR_OK, s'')"
      "cache_ok s'' (?es[unat gfd := (?es ! unat gfd)\<lparr>ge_pages := l'\<rparr>]) (?pgs[unat gfd := pgs ! unat gfd @ []])"
      "\<forall>q < nbuf s'. reserved q s'' \<longleftrightarrow> reserved q s' \<and> q \<noteq> b" by auto
    have "nbuf s' = nbuf s" using nbuf_rest [OF c(4)] by (simp add: c(5))
    then show ?thesis using s'' bn by auto
  qed
  have e: "\<exists>b' < nbuf s - 1. buffer_addr b s = buffer_addr b' s \<and> (\<forall>x \<in> set (concat pgs). unat (fi_buffer_index (snd x)) \<noteq> b') \<and>
      ?pgs = pgs[unat gfd := pgs ! unat gfd @ [(cell, page_cache_file_info_create page (of_nat b'))]] \<and>
      page_cache_get_buffer gfd page s' = Some (buffer_addr b s, s') \<and>
      (backed (buffer_addr b s) s' \<longrightarrow> (\<exists>s'' es''. page_cache_release_buffer gfd page s' = Some (ERROR_OK, s'') \<and>
         cache_ok s'' es'' pgs \<and> \<not> reserved b' s''))"
    using c(2) free get rel by blast
  show ?thesis
    by (intro exI [of _ "buffer_addr b s"] exI [of _ s'] exI [of _ ?es] exI [of _ ?pgs] conjI c(1) c(6)) (subst if_not_P [OF a(4)], rule e)
qed

lemma cache_buffers_never_shared_witness:
  "\<exists>a s' es' pgs'. page_cache_reserve_buffer 0x48 1 7 sample_files = Some (a, s') \<and> cache_ok s' es' pgs'"
proof -
  have "unat (1 :: u32) < length sample_entries" "ge_file_node (sample_entries ! unat (1 :: u32)) \<noteq> 0"
    "(0x48 :: ptr) \<notin> fst ` set (concat sample_pages)" "(7 :: u32) \<notin> (fi_page \<circ> snd) ` set (sample_pages ! unat (1 :: u32))" "(0x48 :: ptr) \<noteq> 0"
    by (simp_all add: sample_entries_def sample_pages_def)
  from cache_buffers_never_shared [OF sample_cache_ok this(1,2,5,3,4)] show ?thesis by blast
qed

end
