(* ===== verification/File_Io.thy ===== *)
theory File_Io
  imports Page_Cache
begin

text \<open>
  File input and output through the page cache, file.cpp. \<open>calls\<close> says what the file operations of a
  node do, \<open>new\<close> gives the address the allocator returns for a list cell in a state, and \<open>granted\<close>
  whether the heap grants a larger table. A size or descriptor is returned with the state.
\<close>

definition FILE_GFD_NOT_FOUND :: u16 where "FILE_GFD_NOT_FOUND = 1"
definition FILE_CAPABILITIES_ERROR :: u16 where "FILE_CAPABILITIES_ERROR = 3"
definition FILE_READ_ACCESS_DENIED :: u16 where "FILE_READ_ACCESS_DENIED = 4"
definition FILE_WRITE_ACCESS_DENIED :: u16 where "FILE_WRITE_ACCESS_DENIED = 5"
definition FILE_UNALIGED_ADDRESS :: u16 where "FILE_UNALIGED_ADDRESS = 6"
definition FILE_BIG_REQUEST :: u16 where "FILE_BIG_REQUEST = 7"
definition FILE_FAR_START :: u16 where "FILE_FAR_START = 8"

definition min_u32 :: "u32 \<Rightarrow> u32 \<Rightarrow> u32" where
  "min_u32 a b = (if a < b then a else b)"

definition file_validate_capabilities :: "u32 \<Rightarrow> u32 \<Rightarrow> bool" where
  "file_validate_capabilities base_caps required_caps \<longleftrightarrow>
     base_caps AND (required_caps AND VFS_CAP_MAX) = required_caps AND VFS_CAP_MAX"

subsection \<open>Opening\<close>

definition open_file_by_node ::
  "'a files_scheme fs_calls \<Rightarrow> bool \<Rightarrow> ptr \<Rightarrow> u32 \<Rightarrow> u32 \<Rightarrow> 'a files_scheme \<Rightarrow> (error_t \<times> u32 \<times> 'a files_scheme) option" where
  \<comment> \<open>\<open>fd\<close> is the old value of \<^verbatim>\<open>*local_fd\<close>; the result holds the new one.\<close>
  "open_file_by_node calls granted node fd capabilities s = do {
     n \<leftarrow> vnodes s node;
     if \<not> file_validate_capabilities (vn_capabilities n) capabilities
     then Some (ERROR_OCCUR, fd, set_last_error EACCES FILE_CAPABILITIES_ERROR EO_FILE_INTERFACE s)
     else do {
       let entry = create_gfe node;
       (gfd, s) \<leftarrow> gft_insert_s granted entry s;
       if gfd = INVALID_FD then Some (ERROR_OCCUR, fd, s)
       else do {
         let local_entry = create_lfe gfd capabilities;
         (fd, s) \<leftarrow> lft_insert granted local_entry s;
         if fd = INVALID_FD then do { (_, s) \<leftarrow> gfe_decrement_open_count gfd s; Some (ERROR_OCCUR, fd, s) }
         else do { (err, s) \<leftarrow> vfs_open_file calls node capabilities s; Some (err, fd, s) }
       }
     }
   }"

definition open_file ::
  "'a files_scheme fs_calls \<Rightarrow> bool \<Rightarrow> bytes \<Rightarrow> u32 \<Rightarrow> 'a files_scheme \<Rightarrow> (error_t \<times> u32 \<times> 'a files_scheme) option" where
  "open_file calls granted path capabilities s = do {
     (err, node, s) \<leftarrow> vfs_root_lookup calls path s;
     if err \<noteq> ERROR_OK then Some (ERROR_OCCUR, INVALID_FD, s)
     else open_file_by_node calls granted node INVALID_FD capabilities s
   }"

subsection \<open>Reading\<close>

definition fetch_page :: "'a files_scheme fs_calls \<Rightarrow> ('a files_scheme \<Rightarrow> ptr) \<Rightarrow> u32 \<Rightarrow> ptr \<Rightarrow> u32 \<Rightarrow> u32 \<Rightarrow>
    'a files_scheme \<Rightarrow> (bool \<times> virtual_addr \<times> 'a files_scheme) option" where
  \<comment> \<open>The part of the loop that finds or loads a page; the flag says that the function returns.\<close>
  "fetch_page calls new gfd node page off s = do {
     (cache, s) \<leftarrow> page_cache_get_buffer gfd page s;
     if cache = 0 then do {
       (cache, s) \<leftarrow> page_cache_reserve_buffer (new s) gfd page s;
       if cache = 0 then Some (True, 0, s)
       else do {
         (r, s) \<leftarrow> vfs_read_file calls gfd node off PAGE_CACHE_SIZE cache s;
         if r = INVALID_IO then do { (_, s) \<leftarrow> page_cache_release_buffer gfd page s; Some (True, 0, s) }
         else Some (False, cache, s)
       }
     }
     else Some (False, cache, s)
   }"

primrec read_loop :: "nat \<Rightarrow> u32 \<Rightarrow> 'a files_scheme fs_calls \<Rightarrow> ('a files_scheme \<Rightarrow> ptr) \<Rightarrow> u32 \<Rightarrow> ptr \<Rightarrow>
    u32 \<Rightarrow> u32 \<Rightarrow> virtual_addr \<Rightarrow> u32 \<Rightarrow> 'a files_scheme \<Rightarrow> (u32 \<times> 'a files_scheme) option" where
  \<comment> \<open>\<open>k\<close> iterations remain, \<open>i\<close> is the loop variable, \<open>node\<close> is \<^verbatim>\<open>entry->file_node\<close>.\<close>
  "read_loop 0 i calls new gfd node start count buf bytes_read s = Some (bytes_read, s)"
| "read_loop (Suc k) i calls new gfd node start count buf bytes_read s = do {
     let page = start div PAGE_CACHE_SIZE + i;
     n \<leftarrow> vnodes s node;
     if vn_file_length n \<le> page * PAGE_CACHE_SIZE then Some (bytes_read, s)
     else do {
       (stop, cache, s) \<leftarrow> fetch_page calls new gfd node page (start + i * PAGE_CACHE_SIZE) s;
       if stop then Some (bytes_read, s)
       else do {
         let s = (if buf \<noteq> - 1 then s\<lparr>bytes_at := memcpy (buf + i * PAGE_CACHE_SIZE) cache (min_u32 (count - bytes_read) PAGE_CACHE_SIZE) (bytes_at s)\<rparr>
           else s);
         let s = (if count - bytes_read < PAGE_CACHE_SIZE
           then s\<lparr>bytes_at := memset (cache + count - bytes_read) 0 (count - bytes_read) (bytes_at s)\<rparr> else s);
         read_loop k (i + 1) calls new gfd node start count buf (bytes_read + min_u32 (count - bytes_read) PAGE_CACHE_SIZE) s
       }
     }
   }"

definition read_file_global :: "'a files_scheme fs_calls \<Rightarrow> ('a files_scheme \<Rightarrow> ptr) \<Rightarrow> u32 \<Rightarrow> u32 \<Rightarrow> u32 \<Rightarrow>
    virtual_addr \<Rightarrow> u32 \<Rightarrow> 'a files_scheme \<Rightarrow> (u32 \<times> 'a files_scheme) option" where
  "read_file_global calls new gfd start count buf capabilities s = do {
     let (p, s) = gft_get gfd s;
     entry \<leftarrow> valid_gfe p s;
     case entry of
       None \<Rightarrow> Some (INVALID_IO, set_last_error EBADF FILE_GFD_NOT_FOUND EO_FILE_INTERFACE s)
     | Some e \<Rightarrow>
         if \<not> CHK_BIT capabilities VFS_CAP_READ
         then Some (INVALID_IO, set_last_error EACCES FILE_READ_ACCESS_DENIED EO_FILE_INTERFACE s)
         else if CHK_BIT capabilities VFS_CAP_CACHE then
           (if start mod PAGE_CACHE_SIZE \<noteq> 0
            then Some (INVALID_IO, set_last_error EINVAL FILE_UNALIGED_ADDRESS EO_FILE_INTERFACE s)
            else do {
              total_pages \<leftarrow> ceil_division count PAGE_CACHE_SIZE;
              read_loop (unat total_pages) 0 calls new gfd (ge_file_node e) start count buf 0 s
            })
         else vfs_read_file calls gfd (ge_file_node e) start count buf s
   }"

definition read_file :: "'a files_scheme fs_calls \<Rightarrow> ('a files_scheme \<Rightarrow> ptr) \<Rightarrow> u32 \<Rightarrow> u32 \<Rightarrow> u32 \<Rightarrow>
    virtual_addr \<Rightarrow> 'a files_scheme \<Rightarrow> (u32 \<times> 'a files_scheme) option" where
  "read_file calls new fd start count buf s =
     (if MAX_IO < count then Some (INVALID_IO, set_last_error EINVAL FILE_BIG_REQUEST EO_FILE_INTERFACE s)
      else do {
        (local_entry, s) \<leftarrow> lft_get fd s;
        case local_entry of None \<Rightarrow> Some (INVALID_IO, s)
        | Some e \<Rightarrow> read_file_global calls new (le_gfd e) start count buf (le_flags e) s
      })"

subsection \<open>Writing\<close>

primrec write_loop :: "nat \<Rightarrow> u32 \<Rightarrow> ('a files_scheme \<Rightarrow> ptr) \<Rightarrow> u32 \<Rightarrow> u32 \<Rightarrow> u32 \<Rightarrow> virtual_addr \<Rightarrow> u32 \<Rightarrow>
    'a files_scheme \<Rightarrow> (bool \<times> u32 \<times> 'a files_scheme) option" where
  \<comment> \<open>The flag says that the function returns from inside the loop.\<close>
  "write_loop 0 i new gfd start count buf bytes_written s = Some (False, bytes_written, s)"
| "write_loop (Suc k) i new gfd start count buf bytes_written s = do {
     let page = start div PAGE_CACHE_SIZE + i;
     (cache, s) \<leftarrow> page_cache_get_buffer gfd page s;
     (cache, s) \<leftarrow> (if cache = 0 then do {
         (cache, s) \<leftarrow> page_cache_reserve_buffer (new s) gfd page s;
         Some (cache, if cache \<noteq> 0 \<and> count - bytes_written < PAGE_CACHE_SIZE
           then s\<lparr>bytes_at := memset cache 0 (PAGE_CACHE_SIZE - count mod PAGE_CACHE_SIZE) (bytes_at s)\<rparr> else s)
       }
       else Some (cache, s));
     if cache = 0 then Some (True, bytes_written, s)
     else do {
       let s = (if buf \<noteq> - 1 then s\<lparr>bytes_at := memcpy cache (buf + i * PAGE_CACHE_SIZE) PAGE_CACHE_SIZE (bytes_at s)\<rparr> else s);
       let bytes_written = bytes_written + min_u32 (count - bytes_written) PAGE_CACHE_SIZE;
       (err, s) \<leftarrow> page_cache_make_dirty gfd page True s;
       if err \<noteq> ERROR_OK then Some (True, bytes_written, s)
       else write_loop k (i + 1) new gfd start count buf bytes_written s
     }
   }"

definition write_file_global :: "'a files_scheme fs_calls \<Rightarrow> ('a files_scheme \<Rightarrow> ptr) \<Rightarrow> u32 \<Rightarrow> u32 \<Rightarrow> u32 \<Rightarrow>
    virtual_addr \<Rightarrow> u32 \<Rightarrow> 'a files_scheme \<Rightarrow> (u32 \<times> 'a files_scheme) option" where
  "write_file_global calls new gfd start count buf capabilities s = do {
     let (p, s) = gft_get gfd s;
     entry \<leftarrow> valid_gfe p s;
     case entry of
       None \<Rightarrow> Some (INVALID_IO, set_last_error EBADF FILE_GFD_NOT_FOUND EO_FILE_INTERFACE s)
     | Some e \<Rightarrow>
         if \<not> CHK_BIT capabilities VFS_CAP_WRITE
         then Some (INVALID_IO, set_last_error EACCES FILE_WRITE_ACCESS_DENIED EO_FILE_INTERFACE s)
         else if CHK_BIT capabilities VFS_CAP_CACHE then
           (if start mod PAGE_CACHE_SIZE \<noteq> 0
            then Some (INVALID_IO, set_last_error EINVAL FILE_UNALIGED_ADDRESS EO_FILE_INTERFACE s)
            else do {
              n \<leftarrow> vnodes s (ge_file_node e);
              file_pages \<leftarrow> ceil_division (vn_file_length n) PAGE_CACHE_SIZE;
              if file_pages + 2 \<le> start div PAGE_CACHE_SIZE
              then Some (INVALID_IO, set_last_error EINVAL FILE_FAR_START EO_FILE_INTERFACE s)
              else do {
                total_pages \<leftarrow> ceil_division count PAGE_CACHE_SIZE;
                (returned, bytes_written, s) \<leftarrow> write_loop (unat total_pages) 0 new gfd start count buf 0 s;
                if returned then Some (bytes_written, s)
                else do {
                  n \<leftarrow> vnodes s (ge_file_node e);
                  let len = vn_file_length n;
                  if len < start + bytes_written then do {
                    let (_, cell) = CAS (vn_file_length n) len (start + bytes_written);
                    Some (bytes_written, s\<lparr>vnodes := (vnodes s)(ge_file_node e \<mapsto> n\<lparr>vn_file_length := cell\<rparr>)\<rparr>)
                  }
                  else Some (bytes_written, s)
                }
              }
            })
         else vfs_write_file calls gfd (ge_file_node e) start count buf s
   }"

definition write_file :: "'a files_scheme fs_calls \<Rightarrow> ('a files_scheme \<Rightarrow> ptr) \<Rightarrow> u32 \<Rightarrow> u32 \<Rightarrow> u32 \<Rightarrow>
    virtual_addr \<Rightarrow> 'a files_scheme \<Rightarrow> (u32 \<times> 'a files_scheme) option" where
  "write_file calls new fd start count buf s =
     (if MAX_IO < count then Some (INVALID_IO, set_last_error EINVAL FILE_BIG_REQUEST EO_FILE_INTERFACE s)
      else do {
        (local_entry, s) \<leftarrow> lft_get fd s;
        case local_entry of None \<Rightarrow> Some (INVALID_IO, s)
        | Some e \<Rightarrow> write_file_global calls new (le_gfd e) start count buf (le_flags e) s
      })"

subsection \<open>Synchronising\<close>

partial_function (option) sync_loop :: "u32 \<Rightarrow> 'a files_scheme fs_calls \<Rightarrow> u32 \<Rightarrow> ptr \<Rightarrow> u32 \<Rightarrow> u32 \<Rightarrow>
    'a files_scheme \<Rightarrow> (error_t \<times> 'a files_scheme) option" where
  [code]: "sync_loop pg calls gfd node start_page end_page s =
     (if pg \<le> end_page then do {
        (cache, s) \<leftarrow> page_cache_get_buffer gfd pg s;
        if cache = 0 then sync_loop (pg + 1) calls gfd node start_page end_page s
        else do {
          (dirty, s) \<leftarrow> page_cache_is_page_dirty gfd pg s;
          if \<not> dirty then sync_loop (pg + 1) calls gfd node start_page end_page s
          else do {
            (r, s) \<leftarrow> vfs_write_file calls gfd node (start_page * PAGE_CACHE_SIZE) PAGE_CACHE_SIZE cache s;
            if r \<noteq> PAGE_CACHE_SIZE then Some (ERROR_OCCUR, s)
            else do {
              (err, s) \<leftarrow> page_cache_make_dirty gfd pg False s;
              if err = ERROR_OCCUR then Some (ERROR_OCCUR, s)
              else sync_loop (pg + 1) calls gfd node start_page end_page s
            }
          }
        }
      }
      else Some (ERROR_OK, s))"

definition sync_file :: "'a files_scheme fs_calls \<Rightarrow> u32 \<Rightarrow> u32 \<Rightarrow> u32 \<Rightarrow> 'a files_scheme \<Rightarrow> (error_t \<times> 'a files_scheme) option" where
  "sync_file calls fd start_page end_page s = do {
     (local_entry, s) \<leftarrow> lft_get fd s;
     case local_entry of None \<Rightarrow> Some (ERROR_OCCUR, s)
     | Some le \<Rightarrow> do {
         let global_fd = le_gfd le;
         let (p, s) = gft_get global_fd s;
         entry \<leftarrow> valid_gfe p s;
         case entry of None \<Rightarrow> Some (ERROR_OCCUR, set_last_error EBADF FILE_GFD_NOT_FOUND EO_FILE_INTERFACE s)
         | Some e \<Rightarrow>
             if \<not> CHK_BIT (le_flags le) (VFS_CAP_WRITE OR VFS_CAP_CACHE)
             then Some (INVALID_IO, set_last_error EACCES FILE_CAPABILITIES_ERROR EO_FILE_INTERFACE s)
             else do {
               (start_page, end_page) \<leftarrow> (if end_page < start_page then do {
                   n \<leftarrow> vnodes s (ge_file_node e);
                   pages \<leftarrow> ceil_division (vn_file_length n) PAGE_CACHE_SIZE;
                   Some (0, pages)
                 }
                 else Some (start_page, end_page));
               sync_loop start_page calls global_fd (ge_file_node e) start_page end_page s
             }
       }
   }"

subsection \<open>Addresses of the cache\<close>

lemma page_window:
  fixes x w :: u32
  assumes "unat w = 4096 * b" and "4096 * b + 4096 \<le> 2 ^ 32"
  shows "unat (x - w) < 4096 \<longleftrightarrow> unat x div 4096 = b"
proof
  assume l: "unat (x - w) < 4096"
  have "unat (w + (x - w)) = unat w + unat (x - w)" using l assms by (intro unat_add_no_wrap) simp
  then have "unat x = 4096 * b + unat (x - w)" using assms(1) by simp
  then show "unat x div 4096 = b" using l by simp
next
  assume d: "unat x div 4096 = b"
  have "unat x = 4096 * (unat x div 4096) + unat x mod 4096" by simp
  then have x: "unat x = 4096 * b + unat x mod 4096" using d by simp
  then have "unat (x - w) = unat x - unat w" using assms(1) by (intro unat_sub_le) simp
  then show "unat (x - w) < 4096" using x assms(1) by simp
qed

definition cell_of :: "virtual_addr \<Rightarrow> 'a files_scheme \<Rightarrow> nat" where
  \<comment> \<open>The buffer an address lies in; not below \<^term>\<open>nbuf s\<close> for addresses outside the cache.\<close>
  "cell_of a s = unat (a - pc_cache s) div 4096"

lemma in_buffer:
  assumes r: "region_ok s" and b: "b < nbuf s"
  shows "unat (a - buffer_addr b s) < 4096 \<longleftrightarrow> cell_of a s = b"
proof -
  have n: "nbuf s \<le> 4096" using r by (simp add: region_ok_def)
  have "unat (of_nat b * PAGE_CACHE_SIZE :: u32) = 4096 * b"
    using buffer_addr_ok(7) [OF r b] b n by (simp add: unat_word_ariths PAGE_CACHE_SIZE_def)
  then show ?thesis
    using page_window [of "of_nat b * PAGE_CACHE_SIZE" b "a - pc_cache s"] b n
    by (simp add: cell_of_def buffer_addr_def diff_diff_eq)
qed

lemma bitmap_addr:
  assumes "region_ok s"
  shows "alloced_bitmap s = buffer_addr (nbuf s - 1) s"
proof -
  have "(of_nat (nbuf s - 1) :: u32) = page_cache_num_buffers s - 1" using assms by (simp add: region_ok_def nbuf_def of_nat_diff)
  then show ?thesis using assms by (simp add: region_ok_def page_cache_get_last_def buffer_addr_def)
qed

lemma bitmap_cell:
  assumes r: "region_ok s" and c: "c < nbuf s"
  shows "cell_of (alloced_bitmap s + of_nat c) s = nbuf s - 1"
proof -
  have n: "nbuf s \<le> 4096" "1 \<le> nbuf s" using r by (simp_all add: region_ok_def)
  have "alloced_bitmap s + of_nat c - buffer_addr (nbuf s - 1) s = of_nat c" using bitmap_addr [OF r] by simp
  then have "unat (alloced_bitmap s + of_nat c - buffer_addr (nbuf s - 1) s) < 4096" using c n(1) by (simp add: unat_of_nat_u32)
  then show ?thesis using in_buffer [OF r, of "nbuf s - 1"] n(2) by simp
qed

lemma cell_of_rest: "pc_cache s' = pc_cache s \<Longrightarrow> cell_of a s' = cell_of a s"
  by (simp add: cell_of_def)

lemma cache_ok_bytes:
  assumes ok: "cache_ok s es pgs" and m: "\<And>a. cell_of a s = nbuf s - 1 \<Longrightarrow> m a = bytes_at s a"
  shows "cache_ok (s\<lparr>bytes_at := m\<rparr>) es pgs"
proof -
  have r: "region_ok s" using ok by (simp add: cache_ok_def)
  have n: "1 \<le> nbuf s" using r by (simp add: region_ok_def)
  have res: "reserved c (s\<lparr>bytes_at := m\<rparr>) = reserved c s" if "c < nbuf s" for c
    using m [OF bitmap_cell [OF r that]] by (simp add: reserved_def)
  have "region_ok (s\<lparr>bytes_at := m\<rparr>)"
    using r res [of "nbuf s - 1"] n by (simp add: region_ok_def page_cache_get_last_def page_cache_num_buffers_def)
  moreover have "reserved (unat (fi_buffer_index (snd x))) (s\<lparr>bytes_at := m\<rparr>)" if "x \<in> set (concat pgs)" for x
    using cache_buffer [OF ok that] res by simp
  ultimately show ?thesis using ok by (simp add: cache_ok_def)
qed

lemma free_buffers_bytes:
  assumes r: "region_ok s" and m: "\<And>a. cell_of a s = nbuf s - 1 \<Longrightarrow> m a = bytes_at s a"
  shows "free_buffers (s\<lparr>bytes_at := m\<rparr>) = free_buffers s"
proof -
  have "reserved c (s\<lparr>bytes_at := m\<rparr>) = reserved c s" if "c < nbuf s - 1" for c
    using m [OF bitmap_cell [OF r, of c]] that by (simp add: reserved_def)
  then have "{b. b < nbuf s - 1 \<and> \<not> reserved b (s\<lparr>bytes_at := m\<rparr>)} = {b. b < nbuf s - 1 \<and> \<not> reserved b s}" by auto
  then show ?thesis by (simp add: free_buffers_def)
qed

subsection \<open>A file and its cached pages\<close>

definition cached :: "(ptr \<times> page_cache_file_info) list \<Rightarrow> u32 set" where
  "cached ps = (fi_page \<circ> snd) ` set ps"

definition to_load :: "(ptr \<times> page_cache_file_info) list \<Rightarrow> u32 \<Rightarrow> nat \<Rightarrow> nat \<Rightarrow> nat" where
  \<comment> \<open>How many of the pages \<open>p + i\<close>, \<dots>, \<open>p + i + k - 1\<close> are not cached.\<close>
  "to_load ps p i k = length (filter (\<lambda>j. p + of_nat j \<notin> cached ps) [i ..< i + k])"

lemma to_load_step:
  assumes "cached ps' = insert (p + of_nat i) (cached ps)" and "\<And>j. i < j \<Longrightarrow> j < i + Suc k \<Longrightarrow> p + of_nat j \<noteq> p + of_nat i"
  shows "to_load ps p i (Suc k) = (if p + of_nat i \<in> cached ps then 0 else 1) + to_load ps' p (i + 1) k"
proof -
  have "filter (\<lambda>j. p + of_nat j \<notin> cached ps') [Suc i ..< Suc (i + k)] = filter (\<lambda>j. p + of_nat j \<notin> cached ps) [Suc i ..< Suc (i + k)]"
  proof (rule filter_cong [OF refl])
    fix x assume "x \<in> set [Suc i ..< Suc (i + k)]"
    then have "p + of_nat x \<noteq> p + of_nat i" using assms(2) [of x] by auto
    then show "p + of_nat x \<notin> cached ps' \<longleftrightarrow> p + of_nat x \<notin> cached ps" unfolding assms(1) by blast
  qed
  then show ?thesis by (simp add: to_load_def upt_conv_Cons del: upt_Suc)
qed

definition coherent :: "'a files_scheme \<Rightarrow> (u32 \<Rightarrow> u8) \<Rightarrow> (ptr \<times> page_cache_file_info) list \<Rightarrow> bool" where
  \<comment> \<open>The cached pages hold the bytes of the file; \<open>content off\<close> is the byte at offset \<open>off\<close>.\<close>
  "coherent s content ps \<longleftrightarrow> (\<forall>x \<in> set ps. \<forall>a. cell_of a s = unat (fi_buffer_index (snd x)) \<longrightarrow>
     bytes_at s a = content (fi_page (snd x) * PAGE_CACHE_SIZE + (a - buffer_addr (unat (fi_buffer_index (snd x))) s)))"

definition reads_file :: "'a files_scheme fs_calls \<Rightarrow> u32 \<Rightarrow> ptr \<Rightarrow> (u32 \<Rightarrow> u8) \<Rightarrow> bool" where
  \<comment> \<open>The read operation of the node fills a page with the bytes of the file and changes nothing else.\<close>
  "reads_file calls gfd node content \<longleftrightarrow> (\<forall>f off addr s. node_ops node s = Some f \<longrightarrow>
     call_read calls (fs_read f) gfd node off PAGE_CACHE_SIZE addr s = Some (PAGE_CACHE_SIZE,
       s\<lparr>bytes_at := (\<lambda>a. if unat (a - addr) < 4096 then content (off + (a - addr)) else bytes_at s a)\<rparr>))"

definition io_inv :: "'a files_scheme \<Rightarrow> u32 \<Rightarrow> ptr \<Rightarrow> (u32 \<Rightarrow> u8) \<Rightarrow> 'a files_scheme \<Rightarrow> global_file_entry list \<Rightarrow>
    (ptr \<times> page_cache_file_info) list list \<Rightarrow> bool" where
  \<comment> \<open>The invariant of an operation on open file \<open>gfd\<close> that began in state \<open>s0\<close>.\<close>
  "io_inv s0 gfd node content s es pgs \<longleftrightarrow> cache_ok s es pgs \<and> unat gfd < length es \<and> ge_file_node (es ! unat gfd) = node \<and> node \<noteq> 0 \<and>
     dom (fi_cells s) = fst ` set (concat pgs) \<and> coherent s content (pgs ! unat gfd) \<and> vnodes s = vnodes s0 \<and> fops s = fops s0 \<and>
     pc_cache s = pc_cache s0 \<and> nbuf s = nbuf s0"

definition fresh_cells :: "('a files_scheme \<Rightarrow> ptr) \<Rightarrow> bool" where
  \<comment> \<open>The allocator gives an address at which no cell lives, when every cell is in a list.\<close>
  "fresh_cells new \<longleftrightarrow> (\<forall>s es pgs. cache_ok s es pgs \<longrightarrow> dom (fi_cells s) = fst ` set (concat pgs) \<longrightarrow>
     new s \<noteq> 0 \<and> new s \<notin> fst ` set (concat pgs))"

lemma io_inv_rest:
  assumes i: "io_inv s0 gfd node content s es pgs" and "rest_same s s'" and "region_ok s'"
  shows "io_inv s0 gfd node content s' es pgs"
proof -
  note f = rest_same_fields [OF assms(2)]
  have "coherent s' content (pgs ! unat gfd)"
    using i f buffer_addr_rest [OF assms(2)] unfolding io_inv_def coherent_def by (simp add: cell_of_def)
  then show ?thesis using i f cache_ok_rest [of s es pgs s', OF _ assms(2,3)] nbuf_rest [OF assms(2)] by (simp add: io_inv_def)
qed

lemma io_inv_bytes:
  assumes i: "io_inv s0 gfd node content s es pgs" and m: "\<And>a. cell_of a s < nbuf s \<Longrightarrow> m a = bytes_at s a"
  shows "io_inv s0 gfd node content (s\<lparr>bytes_at := m\<rparr>) es pgs"
proof -
  have ok: "cache_ok s es pgs" and k: "unat gfd < length es" using i by (simp_all add: io_inv_def)
  have n: "1 \<le> nbuf s" using ok by (simp add: cache_ok_def region_ok_def)
  have "cache_ok (s\<lparr>bytes_at := m\<rparr>) es pgs" by (rule cache_ok_bytes [OF ok]) (use m n in simp)
  moreover have "coherent (s\<lparr>bytes_at := m\<rparr>) content (pgs ! unat gfd)"
  proof -
    have "unat (fi_buffer_index (snd x)) < nbuf s" if "x \<in> set (pgs ! unat gfd)" for x
      using cache_buffer(1) [OF ok, of x] cache_okD(3) [OF ok k] that by fastforce
    then show ?thesis using i m unfolding io_inv_def coherent_def by (simp add: cell_of_def buffer_addr_def)
  qed
  ultimately show ?thesis using i by (simp add: io_inv_def)
qed

subsection \<open>Loading a page\<close>

lemma fetch_page_ok:
  assumes i: "io_inv s0 gfd node content s es pgs" and rd: "reads_file calls gfd node content" and nw: "fresh_cells new"
    and no: "node_ops node s0 \<noteq> None" and off: "off = page * PAGE_CACHE_SIZE"
  obtains s' where "fetch_page calls new gfd node page off s = Some (True, 0, s')" "io_inv s0 gfd node content s' es pgs"
      "page \<notin> cached (pgs ! unat gfd)" "bytes_at s' = bytes_at s" "free_buffers s = 0 \<or> free_blocks s < 2"
  | x s' es' pgs' where "fetch_page calls new gfd node page off s = Some (False, buffer_addr (unat (fi_buffer_index (snd x))) s0, s')"
      "io_inv s0 gfd node content s' es' pgs'" "x \<in> set (pgs' ! unat gfd)" "fi_page (snd x) = page"
      "\<And>a. \<not> cell_of a s0 < nbuf s0 \<Longrightarrow> bytes_at s' a = bytes_at s a"
      "cached (pgs' ! unat gfd) = insert page (cached (pgs ! unat gfd))"
      "free_buffers s \<le> free_buffers s' + (if page \<in> cached (pgs ! unat gfd) then 0 else 1)"
      "free_blocks s \<le> free_blocks s' + (if page \<in> cached (pgs ! unat gfd) then 0 else 2)"
proof -
  have ok: "cache_ok s es pgs" and k: "unat gfd < length es" and nd: "ge_file_node (es ! unat gfd) \<noteq> 0"
    and dom: "dom (fi_cells s) = fst ` set (concat pgs)" and pc: "pc_cache s = pc_cache s0" "nbuf s = nbuf s0"
    using i by (simp_all add: io_inv_def)
  have r: "region_ok s" using ok by (simp add: cache_ok_def)
  have ba: "buffer_addr b s = buffer_addr b s0" for b using pc(1) by (simp add: buffer_addr_def)
  note g = get_buffer_ok [OF ok k nd]
  show thesis
  proof (cases "page \<in> (fi_page \<circ> snd) ` set (pgs ! unat gfd)")
    case True
    then have in_cache: "page \<in> cached (pgs ! unat gfd)" by (simp add: cached_def)
    obtain x where x: "x \<in> set (pgs ! unat gfd)" "fi_page (snd x) = page" using True by auto
    have "unat (fi_buffer_index (snd x)) < nbuf s" using cache_buffer(1) [OF ok, of x] cache_okD(3) [OF ok k] x(1) by fastforce
    then have "buffer_addr (unat (fi_buffer_index (snd x))) s0 \<noteq> 0" using buffer_addr_ok(4) [OF r] ba by metis
    then have "fetch_page calls new gfd node page off s = Some (False, buffer_addr (unat (fi_buffer_index (snd x))) s0, s)"
      using g(1) [OF x(1)] x(2) ba by (simp add: fetch_page_def)
    then show thesis using that(2) [OF _ i x] in_cache by (simp add: insert_absorb)
  next
    case False
    let ?s = "set_last_error EINVAL PAGE_CACHE_FINFO_NOT_FOUND EO_PAGE_CACHE s"
    have rs: "rest_same s ?s" by simp
    have r1: "region_ok ?s" using region_ok_rest [OF r rs] r by (simp add: region_ok_def)
    have i1: "io_inv s0 gfd node content ?s es pgs" by (rule io_inv_rest [OF i rs r1])
    have ok1: "cache_ok ?s es pgs" using i1 by (simp add: io_inv_def)
    have fresh: "new ?s \<noteq> 0" "new ?s \<notin> fst ` set (concat pgs)" using nw i1 unfolding fresh_cells_def io_inv_def by blast+
    have run: "fetch_page calls new gfd node page off s = (do {
         (cache, s) \<leftarrow> page_cache_reserve_buffer (new ?s) gfd page ?s;
         if cache = 0 then Some (True, 0, s)
         else do { (r, s) \<leftarrow> vfs_read_file calls gfd node off PAGE_CACHE_SIZE cache s;
           if r = INVALID_IO then do { (_, s) \<leftarrow> page_cache_release_buffer gfd page s; Some (True, 0, s) } else Some (False, cache, s) } })"
      using g(2) [OF False] by (simp add: fetch_page_def)
    show thesis
    proof (rule reserve_buffer_ok [OF ok1 k fresh False])
      fix s' assume s': "page_cache_reserve_buffer (new ?s) gfd page ?s = Some (0, s')" "rest_same ?s s'" "cache_ok s' es pgs"
        "free_buffers ?s = 0 \<or> free_blocks ?s < 2"
      have "io_inv s0 gfd node content s' es pgs" by (rule io_inv_rest [OF i1 s'(2)]) (use s'(3) in \<open>simp add: cache_ok_def\<close>)
      moreover have "bytes_at s' = bytes_at s" using rest_same_fields(7) [OF s'(2)] rest_same_fields(7) [OF rs] by simp
      ultimately show thesis using that(1) [of s'] run s'(1,4) False free_buffers_rest [OF rs] by (simp add: cached_def)
    next
      fix b l h v t s'
      let ?fi = "page_cache_file_info_create page (of_nat b)"
      let ?es = "es[unat gfd := (es ! unat gfd)\<lparr>ge_pages := l\<rparr>]"
      let ?pgs = "pgs[unat gfd := pgs ! unat gfd @ [(new ?s, ?fi)]]"
      assume c: "page_cache_reserve_buffer (new ?s) gfd page ?s = Some (buffer_addr b ?s, s')" "b < nbuf ?s - 1" "\<not> reserved b ?s"
        "rest_same (?s\<lparr>bytes_at := (bytes_at ?s)(alloced_bitmap ?s + of_nat b := 1)\<rparr>) t" "s' = t\<lparr>fi_cells := h, gft := v\<rparr>"
        "cache_ok s' ?es ?pgs" "\<forall>a. a \<notin> insert (new ?s) (fst ` set (pgs ! unat gfd)) \<longrightarrow> h a = fi_cells ?s a" "free_blocks ?s \<le> free_blocks t + 2"
      note f = rest_same_fields [OF c(4)] and fs = rest_same_fields [OF rs]
      have nb: "nbuf ?s = nbuf s" by (rule nbuf_rest [OF rs])
      have bn: "b < nbuf s" using c(2) nb by simp
      have ad: "buffer_addr b ?s = buffer_addr b s0" using buffer_addr_rest [OF rs] ba by simp
      define s2 where "s2 = s'\<lparr>bytes_at := (\<lambda>a. if unat (a - buffer_addr b s0) < 4096 then content (off + (a - buffer_addr b s0)) else bytes_at s' a)\<rparr>"
      have vn: "vnodes s' = vnodes s0" "fops s' = fops s0" "pc_cache s' = pc_cache s0" "nbuf s' = nbuf s0"
        using f fs i nbuf_rest [OF c(4)] nb pc by (simp_all add: c(5) io_inv_def)
      have "node_ops node s' = node_ops node s0" using vn by (simp add: node_ops_def)
      then have rf: "vfs_read_file calls gfd node off PAGE_CACHE_SIZE (buffer_addr b s0) s' = Some (PAGE_CACHE_SIZE, s2)"
        using no rd unfolding reads_file_def vfs_read_file_def s2_def by fastforce
      have "buffer_addr b s0 \<noteq> 0" using buffer_addr_ok(4) [OF r bn] ba by simp
      then have go: "fetch_page calls new gfd node page off s = Some (False, buffer_addr b s0, s2)"
        using run c(1) ad rf by (simp add: PAGE_CACHE_SIZE_def INVALID_IO_def)
      have r': "region_ok s'" using c(6) by (simp add: cache_ok_def)
      have b': "b < nbuf s'" "b < nbuf s' - 1" using c(2) nb vn(4) pc(2) by simp_all
      have win: "unat (a - buffer_addr b s0) < 4096 \<longleftrightarrow> cell_of a s0 = b" for a
        using in_buffer [OF r' b'(1), of a] vn(3) by (simp add: cell_of_def buffer_addr_def)
      have cs: "cell_of a s' = cell_of a s0" "cell_of a s = cell_of a s0" for a using vn(3) pc(1) by (simp_all add: cell_of_def)
      have kl: "unat gfd < length pgs" "unat gfd < length ?es" using k ok by (simp_all add: cache_ok_def)
      have ok2: "cache_ok s2 ?es ?pgs"
        unfolding s2_def by (rule cache_ok_bytes [OF c(6)]) (use win cs b' in auto)
      have u: "unat (fi_buffer_index ?fi) = b" using buffer_addr_ok(7) [OF r bn] by (simp add: page_cache_file_info_create_def)
      have co: "coherent s2 content (?pgs ! unat gfd)"
        unfolding coherent_def
      proof (intro ballI allI impI)
        fix x a assume x: "x \<in> set (?pgs ! unat gfd)" and a: "cell_of a s2 = unat (fi_buffer_index (snd x))"
        have a0: "cell_of a s0 = unat (fi_buffer_index (snd x))" using a vn(3) by (simp add: s2_def cell_of_def)
        have ba2: "buffer_addr q s2 = buffer_addr q s0" for q using vn(3) by (simp add: s2_def buffer_addr_def)
        show "bytes_at s2 a = content (fi_page (snd x) * PAGE_CACHE_SIZE + (a - buffer_addr (unat (fi_buffer_index (snd x))) s2))"
        proof (cases "x = (new ?s, ?fi)")
          case True
          then show ?thesis using a0 win [of a] u ba2 off by (simp add: s2_def page_cache_file_info_create_def)
        next
          case False
          then have xo: "x \<in> set (pgs ! unat gfd)" using x kl by simp
          then have xc: "x \<in> set (concat pgs)" using cache_okD(3) [OF ok k] by blast
          have xb: "unat (fi_buffer_index (snd x)) < nbuf s - 1" "reserved (unat (fi_buffer_index (snd x))) ?s"
            using cache_buffer [OF ok xc] reserved_rest [OF rs] by simp_all
          then have ne: "unat (fi_buffer_index (snd x)) \<noteq> b" using c(3) by metis
          have "bytes_at s' a = bytes_at s a"
          proof -
            have "cell_of (alloced_bitmap s + of_nat b) s = nbuf s - 1" by (rule bitmap_cell [OF r bn])
            then have "a \<noteq> alloced_bitmap s + of_nat b" using a0 cs(2) xb(1) by auto
            then show ?thesis using f(7) fs(6,7) by (simp add: c(5))
          qed
          then have "bytes_at s2 a = bytes_at s a" using win [of a] a0 ne by (simp add: s2_def)
          also have "\<dots> = content (fi_page (snd x) * PAGE_CACHE_SIZE + (a - buffer_addr (unat (fi_buffer_index (snd x))) s))"
            using i xo a0 cs(2) unfolding io_inv_def coherent_def by simp
          finally show ?thesis using ba ba2 by simp
        qed
      qed
      have dm: "dom (fi_cells s2) = fst ` set (concat ?pgs)"
      proof -
        have lo: "list_ok (ge_pages (?es ! j)) h (?pgs ! j)" if "j < length es" for j
          using cache_okD(1) [OF c(6), of j] that by (simp add: c(5))
        have "fst ` set (concat ?pgs) \<subseteq> dom h"
        proof
          fix q assume "q \<in> fst ` set (concat ?pgs)"
          then obtain x ps where x: "ps \<in> set ?pgs" "x \<in> set ps" "fst x = q" by auto
          then obtain j where "j < length ?pgs" "?pgs ! j = ps" by (metis in_set_conv_nth)
          then have "list_ok (ge_pages (?es ! j)) h ps" using lo [of j] ok by (simp add: cache_ok_def)
          then have "\<exists>n. h (fst x) = Some n" using list_ok_addr [of _ h ps "fst x" "snd x"] x(2) by fastforce
          then show "q \<in> dom h" using x(3) by auto
        qed
        moreover have "dom h \<subseteq> fst ` set (concat ?pgs)"
        proof
          fix q assume "q \<in> dom h"
          then have "q \<in> insert (new ?s) (fst ` set (pgs ! unat gfd)) \<or> q \<in> dom (fi_cells s)" using c(7) fs(3) by (metis domI domIff)
          then have "q \<in> insert (new ?s) (fst ` set (concat pgs))" using dom cache_okD(3) [OF ok k] by blast
          then show "q \<in> fst ` set (concat ?pgs)" unfolding concat_grow(1) [OF kl(1)] by auto
        qed
        ultimately show ?thesis by (simp add: s2_def c(5))
      qed
      have "io_inv s0 gfd node content s2 ?es ?pgs"
        using ok2 kl co dm i k vn by (simp add: io_inv_def s2_def nbuf_def page_cache_num_buffers_def)
      moreover have "(new ?s, ?fi) \<in> set (?pgs ! unat gfd)" using kl by simp
      moreover have "bytes_at s2 a = bytes_at s a" if "\<not> cell_of a s0 < nbuf s0" for a
      proof -
        have "cell_of (alloced_bitmap s + of_nat b) s = nbuf s - 1" by (rule bitmap_cell [OF r bn])
        then have "a \<noteq> alloced_bitmap s + of_nat b" using that cs(2) pc(2) bn by auto
        then have "bytes_at s' a = bytes_at s a" using f(7) fs(6,7) by (simp add: c(5))
        then show ?thesis using that win [of a] bn pc(2) by (simp add: s2_def)
      qed
      moreover have "cached (?pgs ! unat gfd) = insert page (cached (pgs ! unat gfd))"
        using kl by (simp add: cached_def page_cache_file_info_create_def)
      moreover have "free_buffers s \<le> free_buffers s2 + 1"
      proof -
        have "free_buffers s2 = free_buffers s'"
          unfolding s2_def by (rule free_buffers_bytes [OF r']) (use win cs b' in auto)
        also have "\<dots> = free_buffers t" by (simp add: c(5))
        also have "\<dots> = free_buffers (?s\<lparr>bytes_at := (bytes_at ?s)(alloced_bitmap ?s + of_nat b := 1)\<rparr>)" by (rule free_buffers_rest [OF c(4)])
        finally show ?thesis using free_buffers_take [OF r1 c(2), of 1] free_buffers_rest [OF rs] by simp
      qed
      moreover have "free_blocks s \<le> free_blocks s2 + 2" using c(8) by (simp add: s2_def c(5))
      ultimately show thesis using that(2) [of "(new ?s, ?fi)" s2 ?es ?pgs] go u False by (simp add: page_cache_file_info_create_def cached_def)
    qed
  qed
qed

subsection \<open>The read loop\<close>

lemma aligned_page:
  fixes start :: u32
  assumes "start mod PAGE_CACHE_SIZE = 0"
  shows "(start div PAGE_CACHE_SIZE + x) * PAGE_CACHE_SIZE = start + x * PAGE_CACHE_SIZE"
proof -
  have "start div PAGE_CACHE_SIZE * PAGE_CACHE_SIZE = start"
    using word_mod_div_equality [of start PAGE_CACHE_SIZE] assms by simp
  then show ?thesis by (simp add: distrib_right)
qed

lemma unat_pages:
  assumes "4096 * i < 2 ^ 32"
  shows "unat (of_nat i * PAGE_CACHE_SIZE :: u32) = 4096 * i" and "of_nat (4096 * i) = (of_nat i * PAGE_CACHE_SIZE :: u32)"
proof -
  show e: "of_nat (4096 * i) = (of_nat i * PAGE_CACHE_SIZE :: u32)" by (simp add: PAGE_CACHE_SIZE_def)
  show "unat (of_nat i * PAGE_CACHE_SIZE :: u32) = 4096 * i" unfolding e [symmetric] using assms by (rule unat_of_nat_u32)
qed

lemma user_page:
  fixes a buf :: u32
  assumes "4096 * i + 4096 \<le> 2 ^ 32"
  shows "unat (a - (buf + of_nat i * PAGE_CACHE_SIZE)) < 4096 \<longleftrightarrow> 4096 * i \<le> unat (a - buf) \<and> unat (a - buf) < 4096 * (i + 1)"
proof -
  have "unat (of_nat i * PAGE_CACHE_SIZE :: u32) = 4096 * i" using assms by (intro unat_pages(1)) simp
  then have "unat (a - buf - of_nat i * PAGE_CACHE_SIZE) < 4096 \<longleftrightarrow> unat (a - buf) div 4096 = i"
    using page_window [of "of_nat i * PAGE_CACHE_SIZE" i "a - buf"] assms by simp
  also have "\<dots> \<longleftrightarrow> 4096 * i \<le> unat (a - buf) \<and> unat (a - buf) < 4096 * (i + 1)"
  proof -
    have "unat (a - buf) div 4096 = i \<longleftrightarrow> i \<le> unat (a - buf) div 4096 \<and> unat (a - buf) div 4096 < i + 1" by auto
    then show ?thesis by (simp add: less_eq_div_iff_mult_less_eq div_less_iff_less_mult mult.commute)
  qed
  finally show ?thesis by (simp add: diff_diff_eq)
qed

definition outside_cache :: "virtual_addr \<Rightarrow> nat \<Rightarrow> 'a files_scheme \<Rightarrow> bool" where
  \<comment> \<open>The \<open>n\<close> bytes from \<open>buf\<close> on are not in the cache.\<close>
  "outside_cache buf n s \<longleftrightarrow> buf \<noteq> - 1 \<and> (\<forall>a. unat (a - buf) < n \<longrightarrow> nbuf s \<le> cell_of a s)"

lemma copy_page:
  assumes i: "io_inv s0 gfd node content s es pgs" and x: "x \<in> set (pgs ! unat gfd)"
    and user: "outside_cache buf (4096 * m) s0" "j < m" "4096 * m < 2 ^ 32"
  defines "m' \<equiv> memcpy (buf + of_nat j * PAGE_CACHE_SIZE) (buffer_addr (unat (fi_buffer_index (snd x))) s0) PAGE_CACHE_SIZE (bytes_at s)"
  shows "io_inv s0 gfd node content (s\<lparr>bytes_at := m'\<rparr>) es pgs"
    and "m' a = (if 4096 * j \<le> unat (a - buf) \<and> unat (a - buf) < 4096 * (j + 1)
      then content (fi_page (snd x) * PAGE_CACHE_SIZE + (a - (buf + of_nat j * PAGE_CACHE_SIZE))) else bytes_at s a)"
    and "free_buffers (s\<lparr>bytes_at := m'\<rparr>) = free_buffers s"
proof -
  let ?b = "unat (fi_buffer_index (snd x))"
  have ok: "cache_ok s es pgs" and k: "unat gfd < length es" and pc: "pc_cache s = pc_cache s0" "nbuf s = nbuf s0"
    using i by (simp_all add: io_inv_def)
  have r: "region_ok s" using ok by (simp add: cache_ok_def)
  have b: "?b < nbuf s" using cache_buffer(1) [OF ok, of x] cache_okD(3) [OF ok k] x by fastforce
  have ba: "buffer_addr ?b s0 = buffer_addr ?b s" using pc(1) by (simp add: buffer_addr_def)
  have cs: "cell_of a s = cell_of a s0" for a using pc(1) by (simp add: cell_of_def)
  have up: "unat (a - (buf + of_nat j * PAGE_CACHE_SIZE)) < 4096 \<longleftrightarrow> 4096 * j \<le> unat (a - buf) \<and> unat (a - buf) < 4096 * (j + 1)" for a
    using user(2,3) by (intro user_page) simp
  have out: "nbuf s \<le> cell_of a s" if "unat (a - (buf + of_nat j * PAGE_CACHE_SIZE)) < 4096" for a
  proof -
    have "unat (a - buf) < 4096 * (j + 1)" using that up by blast
    then have "unat (a - buf) < 4096 * m" using user(2) by simp
    then show ?thesis using user(1) cs pc(2) by (simp add: outside_cache_def)
  qed
  have inb: "cell_of (buffer_addr ?b s + \<delta>) s = ?b" if "unat \<delta> < 4096" for \<delta>
    using in_buffer [OF r b, of "buffer_addr ?b s + \<delta>"] that by simp
  have sz: "unat PAGE_CACHE_SIZE = 4096" by (simp add: PAGE_CACHE_SIZE_def)
  have nc: "no_clobber (unat PAGE_CACHE_SIZE) (buf + of_nat j * PAGE_CACHE_SIZE) (buffer_addr ?b s)"
    unfolding no_clobber_def sz
  proof (intro allI impI notI)
    fix p q :: nat
    assume l: "p < q" "q < 4096" and e: "buf + of_nat j * PAGE_CACHE_SIZE + of_nat p = buffer_addr ?b s + of_nat q"
    have "unat (of_nat p :: u32) < 4096" "unat (of_nat q :: u32) < 4096" using l by (simp_all add: unat_of_nat_u32)
    then have "nbuf s \<le> cell_of (buf + of_nat j * PAGE_CACHE_SIZE + of_nat p) s" "cell_of (buffer_addr ?b s + of_nat q) s = ?b"
      using out [of "buf + of_nat j * PAGE_CACHE_SIZE + of_nat p"] inb by simp_all
    then show False using e b by simp
  qed
  have m': "m' a = (if unat (a - (buf + of_nat j * PAGE_CACHE_SIZE)) < 4096
     then bytes_at s (buffer_addr ?b s + (a - (buf + of_nat j * PAGE_CACHE_SIZE))) else bytes_at s a)" for a
    unfolding m'_def ba using memcpy_ok [OF nc] sz by simp
  show "io_inv s0 gfd node content (s\<lparr>bytes_at := m'\<rparr>) es pgs"
    by (rule io_inv_bytes [OF i]) (use m' out in \<open>force simp: not_le [symmetric]\<close>)
  have "1 \<le> nbuf s" using r by (simp add: region_ok_def)
  then show "free_buffers (s\<lparr>bytes_at := m'\<rparr>) = free_buffers s"
    by (intro free_buffers_bytes [OF r]) (use m' out in \<open>force simp: not_le [symmetric]\<close>)
  have "bytes_at s (buffer_addr ?b s + \<delta>) = content (fi_page (snd x) * PAGE_CACHE_SIZE + \<delta>)" if "unat \<delta> < 4096" for \<delta>
    using i x inb [OF that] unfolding io_inv_def coherent_def by fastforce
  then show "m' a = (if 4096 * j \<le> unat (a - buf) \<and> unat (a - buf) < 4096 * (j + 1)
      then content (fi_page (snd x) * PAGE_CACHE_SIZE + (a - (buf + of_nat j * PAGE_CACHE_SIZE))) else bytes_at s a)"
    using m' [of a] up [of a] by simp
qed

lemma read_loop_ok:
  assumes rd: "reads_file calls gfd node content" and nw: "fresh_cells new" and no: "node_ops node s0 \<noteq> None"
    and al: "start mod PAGE_CACHE_SIZE = 0" and lim: "unat start + 4096 * m < 2 ^ 32" and user: "outside_cache buf (4096 * m) s0"
  shows "i + k = m \<Longrightarrow> io_inv s0 gfd node content s es pgs \<Longrightarrow>
    \<exists>d s' es' pgs'. d \<le> k \<and> read_loop k (of_nat i) calls new gfd node start (of_nat (4096 * m)) buf (of_nat (4096 * i)) s =
        Some (of_nat (4096 * (i + d)), s') \<and> io_inv s0 gfd node content s' es' pgs' \<and>
      (\<forall>a. \<not> cell_of a s0 < nbuf s0 \<longrightarrow> bytes_at s' a = (if 4096 * i \<le> unat (a - buf) \<and> unat (a - buf) < 4096 * (i + d)
         then content (start + (a - buf)) else bytes_at s a)) \<and>
      (d < k \<longrightarrow> (\<exists>n. vnodes s0 node = Some n \<and> unat (vn_file_length n) \<le> unat start + 4096 * (i + d)) \<or>
         free_buffers s < to_load (pgs ! unat gfd) (start div PAGE_CACHE_SIZE) i k \<or>
         free_blocks s < 2 * to_load (pgs ! unat gfd) (start div PAGE_CACHE_SIZE) i k)"
proof (induction k arbitrary: i s es pgs)
  case 0
  then show ?case by (intro exI [of _ 0] exI [of _ s] exI [of _ es] exI [of _ pgs]) simp
next
  case (Suc k)
  note inv = Suc.prems(2)
  have im: "i < m" "4096 * i < 2 ^ 32" "4096 * m < 2 ^ 32" using Suc.prems(1) lim by simp_all
  let ?page = "start div PAGE_CACHE_SIZE + of_nat i" and ?off = "start + of_nat i * PAGE_CACHE_SIZE"
  have off: "?off = ?page * PAGE_CACHE_SIZE" by (rule aligned_page [OF al, symmetric])
  have uoff: "unat (?page * PAGE_CACHE_SIZE) = unat start + 4096 * i"
    unfolding off [symmetric] using unat_pages(1) [OF im(2)] lim im(1) by (subst unat_add_no_wrap) simp_all
  obtain n where n: "vnodes s node = Some n" "vnodes s0 node = Some n"
    using no inv by (auto simp: node_ops_def io_inv_def elim!: bind_SomeE)
  show ?case
  proof (cases "vn_file_length n \<le> ?page * PAGE_CACHE_SIZE")
    case True
    then have "unat (vn_file_length n) \<le> unat start + 4096 * i" using uoff by (simp add: word_le_nat_alt)
    then show ?thesis using n inv True by (intro exI [of _ 0] exI [of _ s] exI [of _ es] exI [of _ pgs]) (simp add: Let_def)
  next
    case False
    have stop: ?thesis if f: "fetch_page calls new gfd node ?page ?off s = Some (True, 0, s')" "io_inv s0 gfd node content s' es pgs"
      "?page \<notin> cached (pgs ! unat gfd)" "bytes_at s' = bytes_at s" "free_buffers s = 0 \<or> free_blocks s < 2" for s'
    proof -
      have "1 \<le> to_load (pgs ! unat gfd) (start div PAGE_CACHE_SIZE) i (Suc k)"
        using f(3) by (simp add: to_load_def upt_conv_Cons del: upt_Suc)
      then have "free_buffers s < to_load (pgs ! unat gfd) (start div PAGE_CACHE_SIZE) i (Suc k) \<or>
          free_blocks s < 2 * to_load (pgs ! unat gfd) (start div PAGE_CACHE_SIZE) i (Suc k)" using f(5) by linarith
      then show ?thesis
        using f(1,2,4) n False by (intro exI [of _ 0] exI [of _ s'] exI [of _ es] exI [of _ pgs]) (simp add: Let_def)
    qed
    show ?thesis
    proof (rule fetch_page_ok [OF inv rd nw no off])
      fix x s1 es1 pgs1
      assume f: "fetch_page calls new gfd node ?page ?off s = Some (False, buffer_addr (unat (fi_buffer_index (snd x))) s0, s1)"
        "io_inv s0 gfd node content s1 es1 pgs1" "x \<in> set (pgs1 ! unat gfd)" "fi_page (snd x) = ?page"
        "\<And>a. \<not> cell_of a s0 < nbuf s0 \<Longrightarrow> bytes_at s1 a = bytes_at s a"
        "cached (pgs1 ! unat gfd) = insert ?page (cached (pgs ! unat gfd))"
        "free_buffers s \<le> free_buffers s1 + (if ?page \<in> cached (pgs ! unat gfd) then 0 else 1)"
        "free_blocks s \<le> free_blocks s1 + (if ?page \<in> cached (pgs ! unat gfd) then 0 else 2)"
      let ?m = "memcpy (buf + of_nat i * PAGE_CACHE_SIZE) (buffer_addr (unat (fi_buffer_index (snd x))) s0) PAGE_CACHE_SIZE (bytes_at s1)"
      note cp = copy_page [OF f(2,3) user im(1,3)]
      let ?s2 = "s1\<lparr>bytes_at := ?m\<rparr>"
      obtain d s' es' pgs' where ih: "d \<le> k" "read_loop k (of_nat (i + 1)) calls new gfd node start (of_nat (4096 * m)) buf (of_nat (4096 * (i + 1))) ?s2 =
          Some (of_nat (4096 * (i + 1 + d)), s')" "io_inv s0 gfd node content s' es' pgs'"
        "\<forall>a. \<not> cell_of a s0 < nbuf s0 \<longrightarrow> bytes_at s' a = (if 4096 * (i + 1) \<le> unat (a - buf) \<and> unat (a - buf) < 4096 * (i + 1 + d)
           then content (start + (a - buf)) else bytes_at ?s2 a)"
        "d < k \<longrightarrow> (\<exists>n. vnodes s0 node = Some n \<and> unat (vn_file_length n) \<le> unat start + 4096 * (i + 1 + d)) \<or>
           free_buffers ?s2 < to_load (pgs1 ! unat gfd) (start div PAGE_CACHE_SIZE) (i + 1) k \<or>
           free_blocks ?s2 < 2 * to_load (pgs1 ! unat gfd) (start div PAGE_CACHE_SIZE) (i + 1) k"
        using Suc.IH [of "i + 1", OF _ cp(1)] Suc.prems(1) by auto
      have left: "(of_nat (4096 * m) :: u32) - of_nat (4096 * i) = of_nat (4096 * (m - i))"
        using im(1) by (simp add: of_nat_diff right_diff_distrib)
      have "unat (of_nat (4096 * (m - i)) :: u32) = 4096 * (m - i)" using im(3) by (intro unat_of_nat_u32) simp
      then have ge: "\<not> (of_nat (4096 * m) :: u32) - of_nat (4096 * i) < PAGE_CACHE_SIZE"
        unfolding left using im(1) by (simp add: word_less_nat_alt PAGE_CACHE_SIZE_def)
      then have mn: "min_u32 (of_nat (4096 * m) - of_nat (4096 * i)) PAGE_CACHE_SIZE = PAGE_CACHE_SIZE" by (simp only: min_u32_def if_False)
      have nx: "(of_nat (4096 * i) :: u32) + PAGE_CACHE_SIZE = of_nat (4096 * (i + 1))" "(of_nat i :: u32) + 1 = of_nat (i + 1)"
        by (simp_all add: PAGE_CACHE_SIZE_def)
      have bf: "buf \<noteq> - 1" using user by (simp add: outside_cache_def)
      have step: "read_loop (Suc k) (of_nat i) calls new gfd node start (of_nat (4096 * m)) buf (of_nat (4096 * i)) s =
          read_loop k (of_nat (i + 1)) calls new gfd node start (of_nat (4096 * m)) buf (of_nat (4096 * (i + 1))) ?s2"
        using n(1) False f(1) ge mn bf unfolding nx [symmetric] by (simp del: of_nat_mult of_nat_add add: Let_def)
      have mem: "bytes_at s' a = (if 4096 * i \<le> unat (a - buf) \<and> unat (a - buf) < 4096 * (i + Suc d) then content (start + (a - buf)) else bytes_at s a)"
        if out: "\<not> cell_of a s0 < nbuf s0" for a
      proof (cases "4096 * i \<le> unat (a - buf) \<and> unat (a - buf) < 4096 * (i + 1)")
        case True
        then have "bytes_at s' a = ?m a" using ih(4) out by simp
        also have "\<dots> = content (?page * PAGE_CACHE_SIZE + (a - (buf + of_nat i * PAGE_CACHE_SIZE)))" using cp(2) True f(4) by simp
        also have "?page * PAGE_CACHE_SIZE + (a - (buf + of_nat i * PAGE_CACHE_SIZE)) = start + (a - buf)" unfolding off [symmetric] by simp
        finally show ?thesis using True by simp
      next
        case False
        have "?m a = bytes_at s a" unfolding cp(2) [of a] if_not_P [OF False] by (rule f(5) [OF out])
        then show ?thesis using ih(4) out False by auto
      qed
      have other: "start div PAGE_CACHE_SIZE + of_nat j \<noteq> start div PAGE_CACHE_SIZE + (of_nat i :: u32)" if "i < j" "j < i + Suc k" for j
      proof
        assume "start div PAGE_CACHE_SIZE + of_nat j = start div PAGE_CACHE_SIZE + (of_nat i :: u32)"
        then have "unat (of_nat j :: u32) = unat (of_nat i :: u32)" by simp
        then show False using that Suc.prems(1) lim by (simp add: unat_of_nat_u32)
      qed
      have t: "to_load (pgs ! unat gfd) (start div PAGE_CACHE_SIZE) i (Suc k) =
          (if ?page \<in> cached (pgs ! unat gfd) then 0 else 1) + to_load (pgs1 ! unat gfd) (start div PAGE_CACHE_SIZE) (i + 1) k"
        by (rule to_load_step [OF f(6) other])
      have less: "free_buffers s < to_load (pgs ! unat gfd) (start div PAGE_CACHE_SIZE) i (Suc k) \<or>
          free_blocks s < 2 * to_load (pgs ! unat gfd) (start div PAGE_CACHE_SIZE) i (Suc k)"
        if "free_buffers ?s2 < to_load (pgs1 ! unat gfd) (start div PAGE_CACHE_SIZE) (i + 1) k \<or>
           free_blocks ?s2 < 2 * to_load (pgs1 ! unat gfd) (start div PAGE_CACHE_SIZE) (i + 1) k"
        using that f(7,8) unfolding t cp(3) free_fields by (auto split: if_splits)
      have short: "Suc d < Suc k \<longrightarrow> (\<exists>n. vnodes s0 node = Some n \<and> unat (vn_file_length n) \<le> unat start + 4096 * (i + Suc d)) \<or>
          free_buffers s < to_load (pgs ! unat gfd) (start div PAGE_CACHE_SIZE) i (Suc k) \<or>
          free_blocks s < 2 * to_load (pgs ! unat gfd) (start div PAGE_CACHE_SIZE) i (Suc k)"
        using ih(5) less by (simp only: Suc_less_eq add_Suc_right add_Suc add_0_left add_0_right One_nat_def) blast
      show ?thesis
        using step ih(1,2,3) short mem by (intro exI [of _ "Suc d"] exI [of _ s'] exI [of _ es'] exI [of _ pgs']) (simp add: add.assoc)
    qed (rule stop)
  qed
qed

subsection \<open>Properties\<close>

definition sample_calls :: "'a files_scheme fs_calls" where
  \<comment> \<open>A file whose byte at offset \<open>off\<close> is the low byte of \<open>off\<close>; writing reports success and does nothing.\<close>
  "sample_calls = \<lparr>
     call_read = (\<lambda>f fd node off count addr s. Some (count,
       s\<lparr>bytes_at := (\<lambda>a. if unat (a - addr) < 4096 then ucast (off + (a - addr)) else bytes_at s a)\<rparr>)),
     call_write = (\<lambda>f fd node off count addr s. Some (count, s)), call_open = (\<lambda>f node caps s. Some (ERROR_OK, s)),
     call_sync = (\<lambda>f fd node p q s. Some (ERROR_OK, s)), call_lookup = (\<lambda>f parent path s. Some (ERROR_OCCUR, 0, s))\<rparr>"

lemma sample_reads: "reads_file sample_calls gfd node ucast"
  by (simp add: reads_file_def sample_calls_def PAGE_CACHE_SIZE_def)

definition first_free_cell :: "'a files_scheme \<Rightarrow> ptr" where
  \<comment> \<open>An allocator for the samples.\<close>
  "first_free_cell s = (case find (\<lambda>a. fi_cells s a = None) (map of_nat [1..<4099]) of Some a \<Rightarrow> a | None \<Rightarrow> 0)"

lemma find_inD: "find P xs = Some x \<Longrightarrow> x \<in> set xs \<and> P x"
  by (induction xs) (auto split: if_splits)

lemma first_free_cell_fresh: "fresh_cells (first_free_cell :: 'a files_scheme \<Rightarrow> ptr)"
  unfolding fresh_cells_def
proof (intro allI impI)
  fix s :: "'a files_scheme" and es pgs
  assume ok: "cache_ok s es pgs" and dom: "dom (fi_cells s) = fst ` set (concat pgs)"
  let ?as = "map of_nat [1..<4099] :: ptr list"
  have inj: "inj_on (of_nat :: nat \<Rightarrow> ptr) {1..<4099}"
    by (rule inj_on_inverseI [of _ unat]) (simp add: unat_of_nat_u32)
  have card: "card (set ?as) = 4098" unfolding set_map set_upt card_image [OF inj] by simp
  let ?ix = "(unat \<circ> fi_buffer_index \<circ> snd) ` set (concat pgs)"
  have n: "nbuf s \<le> 4096" using ok by (simp add: cache_ok_def region_ok_def)
  have "distinct (map (fi_buffer_index \<circ> snd) (concat pgs))" using ok by (simp add: cache_ok_def)
  then have "inj_on (fi_buffer_index \<circ> snd) (set (concat pgs))" by (simp add: distinct_map del: set_concat)
  then have "inj_on (unat \<circ> fi_buffer_index \<circ> snd) (set (concat pgs))" unfolding comp_assoc [of unat] by (rule comp_inj_on) (rule inj_onI, rule word_unat_eq_iff [THEN iffD2])
  then have "card (set (concat pgs)) = card ?ix" by (rule card_image [symmetric])
  also have "\<dots> \<le> card {..< 4096 :: nat}"
  proof (rule card_mono)
    show "?ix \<subseteq> {..< 4096}" using cache_buffer(1) [OF ok] n by (fastforce simp del: set_concat)
  qed simp
  finally have "card (set (concat pgs)) \<le> 4096" by simp
  then have "card (dom (fi_cells s)) \<le> 4096" unfolding dom using card_image_le [of "set (concat pgs)" fst] by simp
  moreover have "finite (dom (fi_cells s))" unfolding dom by simp
  ultimately have "\<not> set ?as \<subseteq> dom (fi_cells s)" using card card_mono [of "dom (fi_cells s)" "set ?as"] by linarith
  then obtain a where a: "find (\<lambda>a. fi_cells s a = None) ?as = Some a"
    by (cases "find (\<lambda>a. fi_cells s a = None) ?as") (auto simp: find_None_iff simp del: set_map)
  then have fa: "a \<in> set ?as" "fi_cells s a = None" using find_inD by fast+
  have "unat a \<noteq> 0" using fa(1) by (auto simp: unat_of_nat_u32)
  then have "a \<noteq> 0" by auto
  then show "first_free_cell s \<noteq> 0 \<and> first_free_cell s \<notin> fst ` set (concat pgs)"
    using a fa(2) dom by (auto simp: first_free_cell_def simp del: set_concat)
qed

lemma sample_outside:
  assumes "n \<le> 16384"
  shows "outside_cache 0x400000 n sample_files"
  unfolding outside_cache_def
proof (intro conjI allI impI)
  fix a :: u32 assume "unat (a - 0x400000) < n"
  then have "unat ((a - 0x400000) + 0x3F0000) = unat (a - 0x400000) + unat (0x3F0000 :: u32)" using assms by (intro unat_add_no_wrap) simp
  moreover have "(a - 0x400000) + 0x3F0000 = a - 0x10000" "unat (0x3F0000 :: u32) = 0x3F0000" by simp_all
  ultimately have "unat (a - 0x10000) = unat (a - 0x400000) + 0x3F0000" by (simp only:)
  then show "nbuf sample_files \<le> cell_of a sample_files" by (simp add: sample_region cell_of_def) (simp add: sample_files_def)
qed simp

lemma sample_io: "io_inv sample_files 0 0x100 ucast (sample_files\<lparr>bytes_at := (\<lambda>a.
     if cell_of a sample_files < 2 then ucast (a - 0x10000) else bytes_at sample_files a)\<rparr>) sample_entries sample_pages"
proof -
  let ?m = "\<lambda>a. if cell_of a sample_files < 2 then ucast (a - 0x10000) else bytes_at sample_files a"
  have c: "cache_ok (sample_files\<lparr>bytes_at := ?m\<rparr>) sample_entries sample_pages"
    by (rule cache_ok_bytes [OF sample_cache_ok]) (simp add: sample_region)
  have p: "pc_cache sample_files = 0x10000" by (simp add: sample_files_def)
  have "coherent (sample_files\<lparr>bytes_at := ?m\<rparr>) ucast (sample_pages ! unat (0 :: u32))"
    using p by (auto simp: coherent_def sample_pages_def sample_finfo_def cell_of_def buffer_addr_def PAGE_CACHE_SIZE_def)
  moreover have "dom (fi_cells sample_files) = fst ` set (concat sample_pages)"
    by (auto simp: sample_files_def sample_pages_def)
  ultimately show ?thesis using c by (simp add: io_inv_def sample_entries_def)
qed

lemma read_global_ok:
  assumes inv: "io_inv s gfd node content s es pgs" and rd: "reads_file calls gfd node content" and nw: "fresh_cells new"
    and no: "node_ops node s \<noteq> None" and caps: "CHK_BIT caps VFS_CAP_READ" "CHK_BIT caps VFS_CAP_CACHE"
    and al: "start mod PAGE_CACHE_SIZE = 0" and lim: "unat start + 4096 * m < 2 ^ 32" and user: "outside_cache buf (4096 * m) s"
  shows "\<exists>d s' es' pgs'. d \<le> m \<and>
    read_file_global calls new gfd start (of_nat (4096 * m)) buf caps s = Some (of_nat (4096 * d), s') \<and>
    io_inv s gfd node content s' es' pgs' \<and>
    (\<forall>a. \<not> cell_of a s < nbuf s \<longrightarrow> bytes_at s' a = (if unat (a - buf) < 4096 * d then content (start + (a - buf)) else bytes_at s a)) \<and>
    (d < m \<longrightarrow> (\<exists>n. vnodes s node = Some n \<and> unat (vn_file_length n) \<le> unat start + 4096 * d) \<or>
       free_buffers s < to_load (pgs ! unat gfd) (start div PAGE_CACHE_SIZE) 0 m \<or>
       free_blocks s < 2 * to_load (pgs ! unat gfd) (start div PAGE_CACHE_SIZE) 0 m)"
proof -
  have ok: "cache_ok s es pgs" and k: "unat gfd < length es" and nd: "ge_file_node (es ! unat gfd) = node" "node \<noteq> 0"
    using inv by (simp_all add: io_inv_def)
  have v: "vec_rep (gft s) es" using ok by (simp add: cache_ok_def)
  have g: "gft_get gfd s = (Some gfd, s)" using k vec_rep_count [OF v] by (simp add: gft_get_def word_le_nat_alt)
  have e: "valid_gfe (Some gfd) s = Some (Some (es ! unat gfd))" using vec_get_rep [OF v k] nd by (simp add: valid_gfe_def gfe_is_invalid_def)
  have um: "unat (of_nat (4096 * m) :: u32) = 4096 * m" using lim by (intro unat_of_nat_u32) simp
  have md: "(of_nat (4096 * m) :: u32) mod PAGE_CACHE_SIZE = 0"
    by (rule word_unat_eq_iff [THEN iffD2]) (use um in \<open>simp add: unat_mod PAGE_CACHE_SIZE_def\<close>)
  have cd: "ceil_division (of_nat (4096 * m)) PAGE_CACHE_SIZE = Some (of_nat (4096 * m) div PAGE_CACHE_SIZE)"
    using md by (simp add: ceil_division_def Let_def) (simp add: PAGE_CACHE_SIZE_def)
  have tp: "unat ((of_nat (4096 * m) :: u32) div PAGE_CACHE_SIZE) = m" using um by (simp add: unat_div PAGE_CACHE_SIZE_def)
  have go: "read_file_global calls new gfd start (of_nat (4096 * m)) buf caps s =
      read_loop m 0 calls new gfd node start (of_nat (4096 * m)) buf 0 s"
    using g e caps al cd tp nd(1) by (simp add: read_file_global_def)
  show ?thesis using read_loop_ok [OF rd nw no al lim user, of 0 m s es pgs] inv go by auto
qed

text \<open>
  C17. Reading whole pages of an open file through the page cache. Whether its pages are cached or have
  to be loaded, the read delivers a prefix of the request, a whole number of pages, with the bytes of
  the file. The whole request is delivered unless the file ends before it does, or the pages that
  have to be loaded need more than there is: a free buffer for each, and two free blocks of memory for
  each (the buffer's page and, when it is missing, the page table). No other byte outside the cache
  changes, and the cache stays consistent and coherent with the file. The read operation of the file
  system is assumed to fill the buffer with the bytes of the file.
\<close>

theorem read_whole_pages:
  assumes inv: "io_inv s gfd node content s es pgs" and rd: "reads_file calls gfd node content" and nw: "fresh_cells new"
    and no: "node_ops node s \<noteq> None" and caps: "CHK_BIT caps VFS_CAP_READ" "CHK_BIT caps VFS_CAP_CACHE"
    and al: "start mod PAGE_CACHE_SIZE = 0" and lim: "unat start + 4096 * m < 2 ^ 32" and user: "outside_cache buf (4096 * m) s"
  shows "\<exists>d s' es' pgs'. d \<le> m \<and>
    read_file_global calls new gfd start (of_nat (4096 * m)) buf caps s = Some (of_nat (4096 * d), s') \<and>
    io_inv s gfd node content s' es' pgs' \<and>
    (\<forall>a. \<not> cell_of a s < nbuf s \<longrightarrow> bytes_at s' a = (if unat (a - buf) < 4096 * d then content (start + (a - buf)) else bytes_at s a)) \<and>
    (d < m \<longrightarrow> (\<exists>n. vnodes s node = Some n \<and> unat (vn_file_length n) \<le> unat start + 4096 * d) \<or>
       free_buffers s < to_load (pgs ! unat gfd) (start div PAGE_CACHE_SIZE) 0 m \<or>
       free_blocks s < 2 * to_load (pgs ! unat gfd) (start div PAGE_CACHE_SIZE) 0 m)"
  by (rule read_global_ok [OF assms])

lemma cache_ok_vnodes: "cache_ok (s\<lparr>vnodes := v\<rparr>) es pgs = cache_ok s es pgs"
  by (simp add: cache_ok_def region_ok_def reserved_def page_cache_get_last_def page_cache_num_buffers_def nbuf_def
    vm_ok_def dir_ok_def table_at_def pmm_ok_def block_regions_def)

definition longer_files :: files where
  \<comment> \<open>The sample with a file of three pages, the first two of which are cached.\<close>
  "longer_files = sample_files\<lparr>bytes_at := (\<lambda>a. if cell_of a sample_files < 2 then ucast (a - 0x10000) else bytes_at sample_files a),
     vnodes := map_option (\<lambda>n. n\<lparr>vn_file_length := 0x3000\<rparr>) \<circ> vnodes sample_files\<rparr>"

lemma longer_io: "io_inv longer_files 0 0x100 ucast longer_files sample_entries sample_pages"
proof -
  have "cache_ok longer_files sample_entries sample_pages \<longleftrightarrow> cache_ok (sample_files\<lparr>bytes_at := bytes_at longer_files\<rparr>) sample_entries sample_pages"
    by (simp add: longer_files_def cache_ok_vnodes)
  moreover have "coherent longer_files = coherent (sample_files\<lparr>bytes_at := bytes_at longer_files\<rparr>)"
    by (simp add: coherent_def cell_of_def buffer_addr_def longer_files_def fun_eq_iff)
  ultimately show ?thesis using sample_io by (simp add: io_inv_def) (simp add: longer_files_def)
qed

lemma read_whole_pages_witness:
  "\<exists>s'. read_file_global sample_calls first_free_cell 0 0 (of_nat (4096 * 3)) 0x400000 14 longer_files = Some (of_nat (4096 * 3), s') \<and>
     bytes_at s' 0x400007 = 7 \<and> bytes_at s' 0x402005 = 5"
proof -
  have no: "node_ops 0x100 longer_files \<noteq> None" by (simp add: node_ops_def longer_files_def sample_files_def sample_vfs_def sample_node_def)
  have caps: "CHK_BIT 14 VFS_CAP_READ" "CHK_BIT 14 VFS_CAP_CACHE" by (simp_all add: CHK_BIT_def VFS_CAP_READ_def VFS_CAP_CACHE_def)
  have user: "outside_cache 0x400000 (4096 * 3) longer_files"
    using sample_outside [of "4096 * 3"] by (simp add: outside_cache_def cell_of_def longer_files_def nbuf_def page_cache_num_buffers_def)
  have lim: "unat (0 :: u32) + 4096 * 3 < 2 ^ 32" by simp
  have al: "(0 :: u32) mod PAGE_CACHE_SIZE = 0" by simp
  have len: "vnodes longer_files 0x100 = Some n \<Longrightarrow> unat (vn_file_length n) = 0x3000" for n
    by (auto simp: longer_files_def sample_files_def sample_vfs_def)
  have load: "to_load (sample_pages ! unat (0 :: u32)) (0 div PAGE_CACHE_SIZE) 0 3 = 1"
    by (simp add: to_load_def cached_def sample_pages_def sample_finfo_def upt_rec PAGE_CACHE_SIZE_def)
  have "nbuf longer_files = 4" using sample_region(1) by (simp add: longer_files_def nbuf_def page_cache_num_buffers_def)
  moreover have "\<not> reserved 2 longer_files" by (simp add: reserved_def longer_files_def sample_files_def cell_of_def)
  ultimately have "2 \<in> {b. b < nbuf longer_files - 1 \<and> \<not> reserved b longer_files}" by simp
  then have bufs: "0 < free_buffers longer_files" unfolding free_buffers_def by (subst card_gt_0_iff) auto
  have "card (used_blocks [0xF, 0] 32) = 4" unfolding used_blocks_filter block_used_def by code_simp
  then have blocks: "free_blocks longer_files = 28"
    by (simp add: free_blocks_def usable_blocks_def longer_files_def sample_files_def sample_vmm_def)
  obtain d s' where d: "d \<le> 3"
    "read_file_global sample_calls first_free_cell 0 0 (of_nat (4096 * 3)) 0x400000 14 longer_files = Some (of_nat (4096 * d), s')"
    "\<forall>a. \<not> cell_of a longer_files < nbuf longer_files \<longrightarrow> bytes_at s' a =
       (if unat (a - 0x400000) < 4096 * d then ucast (0 + (a - 0x400000)) else bytes_at longer_files a)"
    "d < 3 \<longrightarrow> (\<exists>n. vnodes longer_files 0x100 = Some n \<and> unat (vn_file_length n) \<le> unat (0 :: u32) + 4096 * d) \<or>
       free_buffers longer_files < to_load (sample_pages ! unat (0 :: u32)) (0 div PAGE_CACHE_SIZE) 0 3 \<or>
       free_blocks longer_files < 2 * to_load (sample_pages ! unat (0 :: u32)) (0 div PAGE_CACHE_SIZE) 0 3"
    using read_whole_pages [OF longer_io sample_reads first_free_cell_fresh no caps al lim user] by blast
  have "\<not> d < 3"
  proof
    assume "d < 3"
    then obtain n where "vnodes longer_files 0x100 = Some n" "unat (vn_file_length n) \<le> 4096 * d"
      using d(4) bufs blocks unfolding load by auto
    then show False using len [of n] \<open>d < 3\<close> by simp
  qed
  then have d3: "d = 3" using d(1) by simp
  have "\<not> cell_of a longer_files < nbuf longer_files" if "unat (a - 0x400000) < 4096 * 3" for a
    using user that by (auto simp: outside_cache_def not_less)
  then show ?thesis using d(2,3) unfolding d3 by simp
qed

lemma cache_offset:
  assumes r: "region_ok s" and b: "b < nbuf s" and j: "j < 2 ^ 31"
  shows "unat (buffer_addr b s + of_nat j - pc_cache s) = 4096 * b + j"
    and "cell_of (buffer_addr b s + of_nat j) s = b + j div 4096"
proof -
  have n: "nbuf s \<le> 4096" using r by (simp add: region_ok_def)
  have "unat (of_nat b * PAGE_CACHE_SIZE :: u32) = 4096 * b" by (intro unat_pages(1)) (use b n in simp)
  moreover have "unat (of_nat j :: u32) = j" using j by (intro unat_of_nat_u32) simp
  moreover have "4096 * b < 2 ^ 25" using b n by simp
  ultimately have "unat (of_nat b * PAGE_CACHE_SIZE + of_nat j :: u32) = 4096 * b + j" using j by (subst unat_add_no_wrap) simp_all
  moreover have "buffer_addr b s + of_nat j - pc_cache s = of_nat b * PAGE_CACHE_SIZE + of_nat j" by (simp add: buffer_addr_def)
  ultimately show u: "unat (buffer_addr b s + of_nat j - pc_cache s) = 4096 * b + j" by (simp only:)
  show "cell_of (buffer_addr b s + of_nat j) s = b + j div 4096" by (simp add: cell_of_def u)
qed

text \<open>
  A short read destroys cached data. Reading the first \<open>c\<close> bytes of a cached page, \<open>c\<close> less than a
  page, delivers them, but zeroes the \<open>c\<close> bytes of the cache that follow them, the rest of the page
  where it is long enough and beyond its end the start of the next buffer, whoever owns it. When
  that buffer is the one with the bitmap, the first buffers are free again although files still use them.
\<close>

theorem short_read_overruns:
  assumes ok: "cache_ok s es pgs" and k: "unat gfd < length es" and nd: "ge_file_node (es ! unat gfd) = node" "node \<noteq> 0"
    and x: "x \<in> set (pgs ! unat gfd)" "fi_page (snd x) = 0" and n: "vnodes s node = Some n" "vn_file_length n \<noteq> 0"
    and caps: "CHK_BIT caps VFS_CAP_READ" "CHK_BIT caps VFS_CAP_CACHE" and c: "0 < c" "c < 4096" and user: "outside_cache buf c s"
    and b: "b = unat (fi_buffer_index (snd x))"
  shows "\<exists>s'. read_file_global calls new gfd 0 (of_nat c) buf caps s = Some (of_nat c, s') \<and>
    (\<forall>j < c. bytes_at s' (buf + of_nat j) = bytes_at s (buffer_addr b s + of_nat j)) \<and>
    (\<forall>j < c. bytes_at s' (buffer_addr b s + of_nat (c + j)) = 0) \<and>
    (\<forall>j < 2 * c - 4096. bytes_at s' (buffer_addr (b + 1) s + of_nat j) = 0) \<and>
    (b + 2 = nbuf s \<longrightarrow> (\<forall>q < min (nbuf s) (2 * c - 4096). \<not> reserved q s'))"
proof -
  let ?cache = "buffer_addr b s"
  have r: "region_ok s" and v: "vec_rep (gft s) es" using ok by (simp_all add: cache_ok_def)
  have nb: "nbuf s \<le> 4096" using r by (simp add: region_ok_def)
  have b1: "b < nbuf s - 1" using cache_buffer(1) [OF ok, of x] cache_okD(3) [OF ok k] x(1) b by blast
  then have bn: "b < nbuf s" "b + 1 < nbuf s" by simp_all
  have g: "gft_get gfd s = (Some gfd, s)" using k vec_rep_count [OF v] by (simp add: gft_get_def word_le_nat_alt)
  have e: "valid_gfe (Some gfd) s = Some (Some (es ! unat gfd))" using vec_get_rep [OF v k] nd by (simp add: valid_gfe_def gfe_is_invalid_def)
  have uc: "unat (of_nat c :: u32) = c" using c(2) by (intro unat_of_nat_u32) simp
  have "(of_nat c :: u32) div PAGE_CACHE_SIZE = 0"
    by (rule word_unat_eq_iff [THEN iffD2]) (use uc c(2) in \<open>simp add: unat_div PAGE_CACHE_SIZE_def\<close>)
  moreover have "unat ((of_nat c :: u32) mod PAGE_CACHE_SIZE) = c" using uc c(2) by (simp add: unat_mod PAGE_CACHE_SIZE_def)
  then have "(of_nat c :: u32) mod PAGE_CACHE_SIZE \<noteq> 0" using c(1) by (metis less_irrefl unat_0)
  ultimately have cd: "ceil_division (of_nat c) PAGE_CACHE_SIZE = Some 1"
    by (simp add: ceil_division_def Let_def) (simp add: PAGE_CACHE_SIZE_def)
  have "page_cache_get_buffer gfd 0 s = Some (?cache, s)"
    using get_buffer_ok(1) [OF ok k _ x(1)] nd x(2) b by simp
  then have f: "fetch_page calls new gfd node 0 0 s = Some (False, ?cache, s)"
    using buffer_addr_ok(4) [OF r bn(1)] by (simp add: fetch_page_def)
  have lt: "(of_nat c :: u32) < PAGE_CACHE_SIZE" using uc c(2) by (simp add: word_less_nat_alt PAGE_CACHE_SIZE_def)
  let ?m1 = "memcpy buf ?cache (of_nat c) (bytes_at s)"
  let ?m2 = "memset (?cache + of_nat c) 0 (of_nat c) ?m1"
  let ?s = "s\<lparr>bytes_at := ?m2\<rparr>"
  have bf: "buf \<noteq> - 1" using user by (simp add: outside_cache_def)
  have run: "read_file_global calls new gfd 0 (of_nat c) buf caps s = Some (of_nat c, ?s)"
    using g e caps cd n f lt bf nd(1) by (simp add: read_file_global_def min_u32_def Let_def)
  have ub: "unat (buf + of_nat j - buf) = j" if "j < c" for j using that c(2) by (simp add: unat_of_nat_u32)
  have inc: "cell_of (?cache + of_nat j) s < nbuf s" if "j < 8192" for j
  proof -
    have "j div 4096 < 2" using that by (simp add: div_less_iff_less_mult)
    moreover have "cell_of (?cache + of_nat j) s = b + j div 4096" using cache_offset(2) [OF r bn(1), of j] that by simp
    ultimately show ?thesis using bn(2) by simp
  qed
  have disj: "buf + of_nat i \<noteq> ?cache + of_nat j" if "i < c" "j < 8192" for i j
  proof
    assume "buf + of_nat i = ?cache + of_nat j"
    moreover have "nbuf s \<le> cell_of (buf + of_nat i) s" using user ub [OF that(1)] that(1) by (simp add: outside_cache_def)
    ultimately show False using inc [OF that(2)] by simp
  qed
  have nc: "no_clobber (unat (of_nat c :: u32)) buf ?cache"
    unfolding no_clobber_def uc by (intro allI impI disj) (use c(2) in simp_all)
  note m1 = memcpy_ok [OF nc, of "bytes_at s", unfolded uc]
  have m2: "?m2 a = (if unat (a - (?cache + of_nat c)) < c then 0 else ?m1 a)" for a using memset_ok [of "?cache + of_nat c" 0 "of_nat c"] uc by simp
  have copied: "bytes_at ?s (buf + of_nat j) = bytes_at s (?cache + of_nat j)" if j: "j < c" for j
  proof -
    have "\<not> unat (buf + of_nat j - (?cache + of_nat c)) < c"
    proof
      assume l: "unat (buf + of_nat j - (?cache + of_nat c)) < c"
      let ?d = "unat (buf + of_nat j - (?cache + of_nat c))"
      have "buf + of_nat j = ?cache + of_nat (c + ?d)" by (simp add: algebra_simps)
      then show False using disj [OF j, of "c + ?d"] l c(2) by simp
    qed
    then show ?thesis using m2 m1 [of "buf + of_nat j"] ub [OF j] j by simp
  qed
  have zeroed: "bytes_at ?s (?cache + of_nat (c + j)) = 0" if j: "j < c" for j
  proof -
    have "?cache + of_nat (c + j) - (?cache + of_nat c) = of_nat j" by simp
    then show ?thesis using m2 [of "?cache + of_nat (c + j)"] j c(2) by (simp add: unat_of_nat_u32)
  qed
  have beyond: "bytes_at ?s (buffer_addr (b + 1) s + of_nat j) = 0" if j: "j < 2 * c - 4096" for j
  proof -
    have "c + (4096 - c + j) = 4096 + j" using c(2) by simp
    then have e: "buffer_addr (b + 1) s + of_nat j = ?cache + of_nat (c + (4096 - c + j))"
      by (simp add: buffer_addr_def PAGE_CACHE_SIZE_def distrib_right)
    show ?thesis unfolding e by (rule zeroed) (use j c(2) in simp)
  qed
  have bitmap: "\<not> reserved q ?s" if bb: "b + 2 = nbuf s" and q: "q < min (nbuf s) (2 * c - 4096)" for q
  proof -
    have "nbuf s - 1 = b + 1" using bb by simp
    then have "alloced_bitmap s = buffer_addr (b + 1) s" using bitmap_addr [OF r] by simp
    then show ?thesis using beyond [of q] q by (simp add: reserved_def)
  qed
  show ?thesis using run copied zeroed beyond bitmap by blast
qed

lemma short_read_overruns_witness:
  "\<exists>s'. read_file_global sample_calls first_free_cell 0 0 (of_nat 4095) 0x400000 14 sample_files = Some (of_nat 4095, s') \<and>
     bytes_at s' (buffer_addr 1 sample_files) = 0"
proof -
  have k: "unat (0 :: u32) < length sample_entries" "ge_file_node (sample_entries ! unat (0 :: u32)) = 0x100" "(0x100 :: ptr) \<noteq> 0"
    by (simp_all add: sample_entries_def)
  have x: "(0x40, sample_finfo 0 0) \<in> set (sample_pages ! unat (0 :: u32))" "fi_page (snd (0x40 :: ptr, sample_finfo 0 0)) = 0"
    by (simp_all add: sample_pages_def sample_finfo_def)
  obtain n where n: "vnodes sample_files 0x100 = Some n" "vn_file_length n \<noteq> 0"
    by (simp add: sample_files_def sample_vfs_def sample_node_def)
  have caps: "CHK_BIT 14 VFS_CAP_READ" "CHK_BIT 14 VFS_CAP_CACHE" by (simp_all add: CHK_BIT_def VFS_CAP_READ_def VFS_CAP_CACHE_def)
  have user: "outside_cache 0x400000 4095 sample_files"
    by (rule sample_outside) simp
  have b: "0 = unat (fi_buffer_index (snd (0x40 :: ptr, sample_finfo 0 0)))" by (simp add: sample_finfo_def)
  have c: "0 < (4095 :: nat)" "4095 < (4096 :: nat)" by simp_all
  obtain s' where s': "read_file_global sample_calls first_free_cell 0 0 (of_nat 4095) 0x400000 14 sample_files = Some (of_nat 4095, s')"
    "\<forall>j < 2 * 4095 - 4096. bytes_at s' (buffer_addr (0 + 1) sample_files + of_nat j) = 0"
    using short_read_overruns [OF sample_cache_ok k x n caps c user b, of sample_calls first_free_cell] by blast
  show ?thesis using s'(1) s'(2) [rule_format, of 0] by auto
qed

end
