(* ===== verification/Bytes.thy ===== *)
theory Bytes
  imports Utility
begin

text \<open>
  Structures in memory: reading and writing runs of bytes and 16-bit fields of a byte-addressed memory.
  Drivers and file systems use these where the source casts an address to a packed structure.
\<close>

definition load :: "mem \<Rightarrow> u32 \<Rightarrow> nat \<Rightarrow> bytes" where
  "load m a n = map (\<lambda>k. m (a + of_nat k)) [0..<n]"

primrec store :: "u32 \<Rightarrow> bytes \<Rightarrow> mem \<Rightarrow> mem" where
  "store a [] m = m"
| "store a (c # cs) m = store (a + 1) cs (m(a := c))"

definition read16 :: "mem \<Rightarrow> u32 \<Rightarrow> u16" where
  "read16 m a = ucast (m a) OR push_bit 8 (ucast (m (a + 1)))"

definition write16 :: "u32 \<Rightarrow> u16 \<Rightarrow> mem \<Rightarrow> mem" where
  "write16 a v m = m(a := ucast v, a + 1 := ucast (drop_bit 8 v))"

lemma store_at: "length cs \<le> 2 ^ 32 \<Longrightarrow> store a cs m x = (if unat (x - a) < length cs then cs ! unat (x - a) else m x)"
proof (induction cs arbitrary: a m)
  case (Cons c cs)
  have ih: "store (a + 1) cs (m(a := c)) x = (if unat (x - (a + 1)) < length cs then cs ! unat (x - (a + 1)) else (m(a := c)) x)"
    by (rule Cons.IH) (use Cons.prems in simp)
  show ?case
  proof (cases "x = a")
    case True
    have "unat (a - (a + 1)) = 2 ^ 32 - 1" by (simp add: unsigned_minus_1_eq_mask mask_eq_exp_minus_1)
    then show ?thesis using ih True Cons.prems by simp
  next
    case False
    then have "unat (x - a) \<noteq> 0" by (simp add: unat_eq_0)
    moreover have "unat (x - (a + 1)) = unat (x - a) - 1"
      using unat_minus_one [of "x - a"] False by (simp add: diff_diff_eq)
    ultimately have "unat (x - a) = Suc (unat (x - (a + 1)))" by simp
    then show ?thesis using ih False by simp
  qed
qed simp

lemma store_store: "length cs = length ds \<Longrightarrow> length cs \<le> 2 ^ 32 \<Longrightarrow> store a cs (store a ds m) = store a cs m"
  by (rule ext) (simp add: store_at)

lemma load_stored: "length cs \<le> 2 ^ 31 \<Longrightarrow> load (store a cs m) a (length cs) = cs"
  by (rule nth_equalityI) (simp_all add: load_def store_at unat_of_nat_u32)

lemma read16_write16 [simp]: "read16 (write16 a v m) a = v"
  by (rule bit_word_eqI) (auto simp: read16_def write16_def bit_simps)

subsection \<open>Runs of words\<close>

definition slots :: "u32 \<Rightarrow> nat \<Rightarrow> u32 set" where
  \<comment> \<open>The bytes of the first \<open>n\<close> words from \<open>a\<close> on.\<close>
  "slots a n = (\<lambda>j. a + of_nat j) ` {..<4 * n}"

lemma read32_write32 [simp]: "read32 (write32 m a v) a = v"
proof (rule bit_word_eqI)
  fix n :: nat assume "n < LENGTH(32)"
  then show "bit (read32 (write32 m a v) a) n = bit v n"
    by (cases "n < 8"; cases "n < 16"; cases "n < 24") (auto simp: read32_def write32_def bit_simps)
qed

lemma slots_Suc: "slots a (Suc n) = slots a n \<union> {a + 4 * of_nat n, a + 4 * of_nat n + 1, a + 4 * of_nat n + 2, a + 4 * of_nat n + 3}"
proof -
  have "4 * Suc n = Suc (Suc (Suc (Suc (4 * n))))" by simp
  then show ?thesis unfolding slots_def by (simp only: lessThan_Suc image_insert) (auto simp: algebra_simps)
qed

lemma of_nat_u32_inj: "i < 2 ^ 32 \<Longrightarrow> j < 2 ^ 32 \<Longrightarrow> of_nat i = (of_nat j :: u32) \<longleftrightarrow> i = j"
  using unat_of_nat_u32 [of i] unat_of_nat_u32 [of j] by metis

lemma slot_bytes: "{a + 4 * of_nat k, a + 4 * of_nat k + 1, a + 4 * of_nat k + 2, a + 4 * of_nat k + 3} = (\<lambda>j. a + of_nat j) ` {4 * k..<4 * k + 4}"
proof -
  have "{4 * k..<4 * k + 4} = {4 * k, 4 * k + 1, 4 * k + 2, 4 * k + 3}" by auto
  then show ?thesis by (simp only: image_insert image_empty of_nat_add of_nat_mult of_nat_numeral of_nat_1 add.assoc)
qed

lemma slot_disjoint:
  assumes "4 * n < 2 ^ 32" and "j < k" and "k < n" and "x \<in> {a + 4 * of_nat j, a + 4 * of_nat j + 1, a + 4 * of_nat j + 2, a + 4 * of_nat j + 3 :: u32}"
  shows "x \<notin> {a + 4 * of_nat k, a + 4 * of_nat k + 1, a + 4 * of_nat k + 2, a + 4 * of_nat k + 3}"
  using assms of_nat_u32_inj unfolding slot_bytes by fastforce

lemma write32_other: "x \<notin> {a, a + 1, a + 2, a + 3} \<Longrightarrow> write32 m a v x = m x"
  by (simp add: write32_def)

lemma read32_cong: "(\<And>x. x \<in> {a, a + 1, a + 2, a + 3} \<Longrightarrow> m x = m' x) \<Longrightarrow> read32 m a = read32 m' a"
  by (simp add: read32_def)

lemma slots_mono: "k < n \<Longrightarrow> {a + 4 * of_nat k, a + 4 * of_nat k + 1, a + 4 * of_nat k + 2, a + 4 * of_nat k + 3} \<subseteq> slots a n"
  unfolding slot_bytes by (auto simp: slots_def)

end
