(* ===== verification/Fat32.thy ===== *)
theory Fat32
  imports File_Io Bytes
begin

text \<open>
  The FAT32 driver, FAT32_fs.cpp. The metadata behind a node of the virtual file system are two more
  stores, for files and for mount points. Sectors are exchanged through the operations of the device
  node, so what the disk does is part of the argument \<open>calls\<close>; a 4 KB region is read into or written
  from a buffer of the page cache, where entries of the allocation table and of directories are
  words and bytes of the address space. \<open>fat_env\<close> holds what lies outside this file: the file operations
  of the nodes, the address the allocator returns in a state, whether the heap grants a request, and
  the values of memory the code reads before it has written it (the byte behind a table, a new node's
  load flag, a new mount point's descriptor).
\<close>

subsection \<open>Data\<close>

definition FAT_EOF :: u32 where "FAT_EOF = 0x0FFFFFF8"
definition FAT_FORMAT_PAGE_SIZE :: u32 where "FAT_FORMAT_PAGE_SIZE = 4096"

definition FAT_READ_ONLY :: u32 where "FAT_READ_ONLY = 1"
definition FAT_HIDDEN :: u32 where "FAT_HIDDEN = 2"
definition FAT_VOLUME_ID :: u32 where "FAT_VOLUME_ID = 8"
definition FAT_DIRECTORY :: u32 where "FAT_DIRECTORY = 16"

definition FAT_BAD_NODE_STRUCTURE :: u16 where "FAT_BAD_NODE_STRUCTURE = 2"
definition FAT_BAD_ARGUMENTS :: u16 where "FAT_BAD_ARGUMENTS = 3"
definition FAT_BAD_LAYOUT :: u16 where "FAT_BAD_LAYOUT = 4"
definition FAT_INVALID_83_NAME :: u16 where "FAT_INVALID_83_NAME = 5"
definition FAT_BAD_ALIGN :: u16 where "FAT_BAD_ALIGN = 7"
definition FAT_NODE_NOT_OPEN :: u16 where "FAT_NODE_NOT_OPEN = 8"

type_synonym fat_file_layout = "u32 vector"

record fat_node_data =
  fn_layout :: fat_file_layout
  fn_layout_loaded :: bool
  fn_metadata_cluster :: u32
  fn_metadata_index :: u32

record fat_mount_data =
  fm_layout :: fat_file_layout
  fm_partition_offset :: u32
  fm_fat_lba :: u32
  fm_cluster_lba :: u32
  fm_root_dir_first_cluster :: u32
  fm_fd :: u32

record fat = files +
  fat_nodes :: "ptr \<Rightarrow> fat_node_data option"
  fat_mounts :: "ptr \<Rightarrow> fat_mount_data option"
  fat_fs_operations :: ptr
  fat_mount_operations :: ptr

record 's fat_env =
  fe_calls :: "'s fs_calls"
  fe_new :: "'s \<Rightarrow> ptr"
  fe_granted :: bool
  fe_stray :: u8
  fe_loaded :: bool
  fe_fd :: u32

definition fat_fs_operations_table :: "ptr \<Rightarrow> ptr \<Rightarrow> ptr \<Rightarrow> ptr \<Rightarrow> ptr \<Rightarrow> fs_operations" where
  \<comment> \<open>The arguments are the addresses of the functions of this file.\<close>
  "fat_fs_operations_table rd wr op sy io = \<lparr>fs_read = rd, fs_write = wr, fs_open = op, fs_close = 0, fs_sync = sy, fs_lookup = 0, fs_ioctl = io\<rparr>"

definition fat_mount_operations_table :: "ptr \<Rightarrow> ptr \<Rightarrow> fs_operations" where
  "fat_mount_operations_table wr sy = \<lparr>fs_read = 0, fs_write = wr, fs_open = 0, fs_close = 0, fs_sync = sy, fs_lookup = 0, fs_ioctl = 0\<rparr>"

definition layout_of :: "ptr \<Rightarrow> 'a fat_scheme \<Rightarrow> fat_file_layout option" where
  \<comment> \<open>\<^verbatim>\<open>LAYOUT(n)\<close>: the layout is the first member of both kinds of metadata.\<close>
  "layout_of n s = (case fat_nodes s n of Some d \<Rightarrow> Some (fn_layout d) | None \<Rightarrow> map_option fm_layout (fat_mounts s n))"

definition put_layout :: "ptr \<Rightarrow> fat_file_layout \<Rightarrow> 'a fat_scheme \<Rightarrow> 'a fat_scheme option" where
  "put_layout n l s = (case fat_nodes s n of
       Some d \<Rightarrow> Some (s\<lparr>fat_nodes := (fat_nodes s)(n \<mapsto> d\<lparr>fn_layout := l\<rparr>)\<rparr>)
     | None \<Rightarrow> do { m \<leftarrow> fat_mounts s n; Some (s\<lparr>fat_mounts := (fat_mounts s)(n \<mapsto> m\<lparr>fm_layout := l\<rparr>)\<rparr>) })"

subsection \<open>Attributes and names\<close>

definition fat_to_vfs_attributes :: "u32 \<Rightarrow> u32" where
  "fat_to_vfs_attributes fat_attrs =
     (let attrs = VFS_READ;
        attrs = (if fat_attrs AND FAT_READ_ONLY \<noteq> FAT_READ_ONLY then attrs OR VFS_WRITE else attrs);
        attrs = (if fat_attrs AND FAT_HIDDEN = FAT_HIDDEN then attrs OR VFS_HIDDEN else attrs)
      in (if fat_attrs AND FAT_DIRECTORY = FAT_DIRECTORY then attrs OR VFS_DIRECTORY else attrs OR VFS_FILE))"

definition vfs_to_fat_attributes :: "u32 \<Rightarrow> u32" where
  "vfs_to_fat_attributes vfs_attrs =
     (let k = vfs_attrs AND 7;
        attrs = (if k = VFS_DIRECTORY then 0 OR FAT_DIRECTORY else if k = VFS_LINK then 0 OR FAT_DIRECTORY else 0);
        attrs = (if vfs_attrs AND VFS_WRITE \<noteq> VFS_WRITE then attrs OR FAT_READ_ONLY else attrs)
      in (if vfs_attrs AND VFS_HIDDEN = VFS_HIDDEN then attrs OR FAT_HIDDEN else attrs))"

fun copy_nonspace :: "bytes \<Rightarrow> nat \<Rightarrow> bytes \<Rightarrow> (nat \<times> bytes) option" where
  \<comment> \<open>The two loops of \<^verbatim>\<open>fat_fs_retrieve_short_name\<close>; \<open>k\<close> is \<^verbatim>\<open>name_index\<close>.\<close>
  "copy_nonspace [] k buf = Some (k, buf)"
| "copy_nonspace (c # cs) k buf =
     (if c \<noteq> 32 then if k < length buf then copy_nonspace cs (k + 1) (buf[k := c]) else None
      else copy_nonspace cs k buf)"

definition fat_fs_retrieve_short_name :: "bytes \<Rightarrow> bytes \<Rightarrow> bytes \<Rightarrow> bytes option" where
  \<comment> \<open>\<open>name\<close> and \<open>ext\<close> are the fields of the entry, \<open>buf\<close> has 13 bytes.\<close>
  "fat_fs_retrieve_short_name name ext buf = do {
     let buf = buf[12 := 0];
     (k, buf) \<leftarrow> copy_nonspace name 0 buf;
     buf \<leftarrow> (if k < length buf then Some (buf[k := 46]) else None);
     let prev_index = k + 1;
     (k, buf) \<leftarrow> copy_nonspace ext prev_index buf;
     Some (if k = prev_index then buf[k - 1 := 0] else buf)
   }"

fun base_loop :: "nat \<Rightarrow> nat \<Rightarrow> bytes \<Rightarrow> nat \<Rightarrow> bytes \<Rightarrow> (nat \<times> nat \<times> bytes) option" where
  \<comment> \<open>The first loop of \<^verbatim>\<open>fat_fs_generate_short_name\<close>: \<open>k\<close> iterations may follow, \<open>i\<close> is the index; the result is
     \<^verbatim>\<open>i\<close>, \<^verbatim>\<open>dot_index\<close> and the buffer.\<close>
  "base_loop 0 i src len buf = Some (i, 0, buf)"
| "base_loop (Suc k) i src len buf =
     (if i < len then do {
        c \<leftarrow> (if i < length src then Some (src ! i) else None);
        if c = 46 then Some (8, i, take i buf @ replicate (8 - i) 32 @ drop 8 buf)
        else base_loop k (i + 1) src len (buf[i := c])
      }
      else Some (i, 0, buf))"

fun ext_loop :: "nat \<Rightarrow> nat \<Rightarrow> nat \<Rightarrow> nat \<Rightarrow> bytes \<Rightarrow> nat \<Rightarrow> bytes \<Rightarrow> bytes option" where
  "ext_loop 0 j i dot src len buf = Some buf"
| "ext_loop (Suc k) j i dot src len buf =
     (if dot + j + 1 < len then do {
        c \<leftarrow> (if dot + j + 1 < length src then Some (src ! (dot + j + 1)) else None);
        ext_loop k (j + 1) (i + 1) dot src len (buf[i := c])
      }
      else Some buf)"

definition fat_fs_generate_short_name :: "vfs_node \<Rightarrow> bytes \<Rightarrow> bytes option" where
  \<comment> \<open>\<open>buf\<close> has at least 11 bytes. The counters are below 16, so they are naturals here.\<close>
  "fat_fs_generate_short_name node buf =
     (if vn_name_length node > 12 then Some buf
      else do {
        let buf = replicate 11 32 @ drop 11 buf;
        (i, dot_index, buf) \<leftarrow> base_loop 8 0 (vn_name node) (unat (vn_name_length node)) buf;
        if dot_index = 0 then Some buf
        else ext_loop 3 0 i dot_index (vn_name node) (unat (vn_name_length node)) buf
      })"

definition bad_values :: bytes where
  "bad_values = [0x22, 0x2A, 0x2B, 0x2C, 0x2F, 0x3A, 0x3B, 0x3C, 0x3D, 0x3E, 0x3F, 0x5B, 0x5C, 0x5D, 0x7C]"

fun validate_loop :: "u8 \<Rightarrow> bool \<Rightarrow> nat \<Rightarrow> bytes \<Rightarrow> bool option" where
  "validate_loop stray first 0 name = Some True"
| "validate_loop stray first (Suc k) [] = None"
| "validate_loop stray first (Suc k) (c # name) =
     (if \<not> first \<and> sint c < 0x20 then Some False
      else if first \<and> sint c < 0x20 \<and> c \<noteq> 5 then Some False
      else if \<exists>x \<in> set (bad_values @ [stray]). sint c = uint x then Some False
      else validate_loop stray False k name)"

definition fat_fs_validate_83_name :: "u8 \<Rightarrow> bytes \<Rightarrow> u32 \<Rightarrow> bool option" where
  \<comment> \<open>The inner loop runs over 16 values of an array of 15; \<open>stray\<close> is the byte behind it.\<close>
  "fat_fs_validate_83_name stray name length' =
     (if length' > 11 then Some False else validate_loop stray True (unat length') name)"

subsection \<open>Entries of a directory\<close>

text \<open>
  An entry of a directory, \<^verbatim>\<open>fat_dir_entry_short\<close>, is 32 bytes: name at 0, extension at 8, attributes
  at 11, dates and times from 12 on, the high half of the cluster at 20, its low half at 26, the file size at 28.
\<close>

definition entry_at :: "virtual_addr \<Rightarrow> u32 \<Rightarrow> virtual_addr" where
  "entry_at cache i = cache + i * 32"

definition last_error_word :: "u8 \<Rightarrow> u16 \<Rightarrow> error_origin \<Rightarrow> error_t" where
  \<comment> \<open>The word \<^verbatim>\<open>set_last_error\<close> returns, which two functions here return on.\<close>
  "last_error_word b x c = error_create b x (origin_code c)"

subsection \<open>Access to sectors\<close>

definition fat_fs_read_by_lba ::
  "'a fat_scheme fs_calls \<Rightarrow> ptr \<Rightarrow> u32 \<Rightarrow> virtual_addr \<Rightarrow> 'a fat_scheme \<Rightarrow> (bool \<times> 'a fat_scheme) option" where
  \<comment> \<open>The addresses behind \<^verbatim>\<open>MOUNT_DATA\<close> and \<^verbatim>\<open>STORAGE_INFO\<close> lie inside a node and are never null.\<close>
  "fat_fs_read_by_lba calls mount_point lba address s =
     (if mount_point = 0 then Some (False, set_last_error EINVAL FAT_BAD_ARGUMENTS EO_MASS_STORAGE_FS s)
      else do {
        n \<leftarrow> vnodes s mount_point;
        if vn_attributes n AND 7 \<noteq> VFS_MOUNT_PT \<or> vn_tag n = 0
        then Some (False, set_last_error EINVAL FAT_BAD_ARGUMENTS EO_MASS_STORAGE_FS s)
        else do {
          (r, s) \<leftarrow> vfs_read_file calls 0 (vn_tag n) lba 8 address s;
          Some (r = 8, s)
        }
      })"

definition fat_fs_write_by_lba ::
  "'a fat_scheme fs_calls \<Rightarrow> ptr \<Rightarrow> u32 \<Rightarrow> virtual_addr \<Rightarrow> 'a fat_scheme \<Rightarrow> (bool \<times> 'a fat_scheme) option" where
  "fat_fs_write_by_lba calls mount_point lba address s =
     (if mount_point = 0 then Some (False, set_last_error EINVAL FAT_BAD_ARGUMENTS EO_MASS_STORAGE_FS s)
      else do {
        n \<leftarrow> vnodes s mount_point;
        if vn_attributes n AND 7 \<noteq> VFS_MOUNT_PT
        then Some (False, set_last_error EINVAL FAT_BAD_ARGUMENTS EO_MASS_STORAGE_FS s)
        else do {
          (r, s) \<leftarrow> vfs_write_file calls 0 (vn_tag n) lba 8 address s;
          Some (r = 8, s)
        }
      })"

definition fat_fs_read_by_data_cluster ::
  "'a fat_scheme fs_calls \<Rightarrow> ptr \<Rightarrow> u32 \<Rightarrow> virtual_addr \<Rightarrow> 'a fat_scheme \<Rightarrow> (bool \<times> 'a fat_scheme) option" where
  "fat_fs_read_by_data_cluster calls mount_point cluster address s =
     (if mount_point = 0 then Some (False, set_last_error EINVAL FAT_BAD_ARGUMENTS EO_MASS_STORAGE_FS s)
      else do {
        n \<leftarrow> vnodes s mount_point;
        if vn_attributes n AND 7 \<noteq> VFS_MOUNT_PT
        then Some (False, set_last_error EINVAL FAT_BAD_ARGUMENTS EO_MASS_STORAGE_FS s)
        else do {
          md \<leftarrow> fat_mounts s mount_point;
          fat_fs_read_by_lba calls mount_point (fm_cluster_lba md + (cluster - 2) * 8) address s
        }
      })"

definition fat_fs_write_by_data_cluster ::
  "'a fat_scheme fs_calls \<Rightarrow> ptr \<Rightarrow> u32 \<Rightarrow> virtual_addr \<Rightarrow> 'a fat_scheme \<Rightarrow> (bool \<times> 'a fat_scheme) option" where
  "fat_fs_write_by_data_cluster calls mount_point cluster address s =
     (if mount_point = 0 then Some (False, set_last_error EINVAL FAT_BAD_ARGUMENTS EO_MASS_STORAGE_FS s)
      else do {
        n \<leftarrow> vnodes s mount_point;
        if vn_attributes n AND 7 \<noteq> VFS_MOUNT_PT
        then Some (False, set_last_error EINVAL FAT_BAD_ARGUMENTS EO_MASS_STORAGE_FS s)
        else do {
          md \<leftarrow> fat_mounts s mount_point;
          fat_fs_write_by_lba calls mount_point (fm_cluster_lba md + (cluster - 2) * 8) address s
        }
      })"

definition fat_fs_read_by_page ::
  "'a fat_scheme fs_calls \<Rightarrow> ptr \<Rightarrow> ptr \<Rightarrow> u32 \<Rightarrow> virtual_addr \<Rightarrow> 'a fat_scheme \<Rightarrow> (bool \<times> 'a fat_scheme) option" where
  "fat_fs_read_by_page calls mount_point node file_page address s = do {
     l \<leftarrow> layout_of node s;
     if v_count l \<le> file_page then Some (False, set_last_error EINVAL FAT_BAD_LAYOUT EO_MASS_STORAGE_FS s)
     else do {
       cluster \<leftarrow> vector_at l file_page;
       fat_fs_read_by_data_cluster calls mount_point cluster address s
     }
   }"

definition fat_fs_write_by_page ::
  "'a fat_scheme fs_calls \<Rightarrow> ptr \<Rightarrow> ptr \<Rightarrow> u32 \<Rightarrow> virtual_addr \<Rightarrow> 'a fat_scheme \<Rightarrow> (bool \<times> 'a fat_scheme) option" where
  "fat_fs_write_by_page calls mount_point node file_page address s = do {
     l \<leftarrow> layout_of node s;
     if v_count l \<le> file_page then Some (False, set_last_error EINVAL FAT_BAD_LAYOUT EO_MASS_STORAGE_FS s)
     else do {
       cluster \<leftarrow> vector_at l file_page;
       fat_fs_write_by_data_cluster calls mount_point cluster address s
     }
   }"

subsection \<open>The allocation table\<close>

definition fat_fs_read_fat_value :: "virtual_addr \<Rightarrow> u32 \<Rightarrow> 'a fat_scheme \<Rightarrow> u32" where
  "fat_fs_read_fat_value buf index s = read32 (bytes_at s) (buf + 4 * index) AND 0x0FFFFFFF"

definition put_fat_value :: "virtual_addr \<Rightarrow> u32 \<Rightarrow> u32 \<Rightarrow> 'a fat_scheme \<Rightarrow> 'a fat_scheme" where
  "put_fat_value buf index v s = s\<lparr>bytes_at := write32 (bytes_at s) (buf + 4 * index) v\<rparr>"

definition fat_fs_get_entry_data_cluster :: "virtual_addr \<Rightarrow> mem \<Rightarrow> u32" where
  "fat_fs_get_entry_data_cluster e m = ucast (read16 m (e + 26)) + (ucast (read16 m (e + 20)) AND 0x0FFFFFFF)"

definition fat_fs_find_next_cluster :: "'a fat_scheme fs_calls \<Rightarrow> ptr \<Rightarrow> u32 \<Rightarrow> 'a fat_scheme \<Rightarrow> (u32 \<times> 'a fat_scheme) option" where
  "fat_fs_find_next_cluster calls mount_point current_cluster s = do {
     let fat_offset = current_cluster div 128;
     (address, s) \<leftarrow> page_cache_reserve_anonymous s;
     if address = 0 then Some (ERROR_OCCUR, s)
     else do {
       md \<leftarrow> fat_mounts s mount_point;
       (ok, s) \<leftarrow> fat_fs_read_by_lba calls mount_point (fm_fat_lba md + fat_offset) address s;
       if \<not> ok then do { s \<leftarrow> page_cache_release_anonymous address s; Some (0, s) }
       else do {
         let res = fat_fs_read_fat_value address current_cluster s;
         s \<leftarrow> page_cache_release_anonymous address s;
         Some (res, s)
       }
     }
   }"

primrec free_entry_loop :: "nat \<Rightarrow> u32 \<Rightarrow> virtual_addr \<Rightarrow> 'a fat_scheme \<Rightarrow> u32 option" where
  \<comment> \<open>The search of \<^verbatim>\<open>fat_fs_reserve_first_cluster\<close> through the entries of a buffer.\<close>
  "free_entry_loop 0 i address s = None"
| "free_entry_loop (Suc n) i address s =
     (if fat_fs_read_fat_value address i s = 0 then Some i else free_entry_loop n (i + 1) address s)"

partial_function (option) reserve_cluster_loop ::
  "'a fat_scheme fs_calls \<Rightarrow> ptr \<Rightarrow> u32 \<Rightarrow> virtual_addr \<Rightarrow> u32 \<Rightarrow> 'a fat_scheme \<Rightarrow> (u32 \<times> 'a fat_scheme) option" where
  [code]: "reserve_cluster_loop calls mount_point next_cluster address fat_lba_index s = do {
     md \<leftarrow> fat_mounts s mount_point;
     (ok, s) \<leftarrow> fat_fs_read_by_lba calls mount_point (fm_fat_lba md + fat_lba_index * 8) address s;
     if \<not> ok then do { s \<leftarrow> page_cache_release_anonymous address s; Some (0, s) }
     else (case free_entry_loop 128 0 address s of
         None \<Rightarrow> reserve_cluster_loop calls mount_point next_cluster address (fat_lba_index + 1) s
       | Some i \<Rightarrow> do {
           let s = put_fat_value address i (next_cluster AND 0x0FFFFFFF) s;
           md \<leftarrow> fat_mounts s mount_point;
           (ok, s) \<leftarrow> fat_fs_write_by_lba calls mount_point (fm_fat_lba md + fat_lba_index * 8) address s;
           s \<leftarrow> page_cache_release_anonymous address s;
           Some (if ok then fat_lba_index * 128 + i else 0, s)
         })
   }"

definition fat_fs_reserve_first_cluster :: "'a fat_scheme fs_calls \<Rightarrow> ptr \<Rightarrow> u32 \<Rightarrow> 'a fat_scheme \<Rightarrow> (u32 \<times> 'a fat_scheme) option" where
  "fat_fs_reserve_first_cluster calls mount_point next_cluster s = do {
     (address, s) \<leftarrow> page_cache_reserve_anonymous s;
     if address = 0 then Some (0, s)
     else reserve_cluster_loop calls mount_point next_cluster address 0 s
   }"

definition fat_fs_mark_cluster :: "'a fat_scheme fs_calls \<Rightarrow> ptr \<Rightarrow> u32 \<Rightarrow> u32 \<Rightarrow> 'a fat_scheme \<Rightarrow> (u32 \<times> 'a fat_scheme) option" where
  "fat_fs_mark_cluster calls mount_point fat_index value s = do {
     let fat_offset = fat_index div 128;
     (address, s) \<leftarrow> page_cache_reserve_anonymous s;
     if address = 0 then Some (ERROR_OCCUR, s)
     else do {
       md \<leftarrow> fat_mounts s mount_point;
       (ok, s) \<leftarrow> fat_fs_read_by_lba calls mount_point (fm_fat_lba md + fat_offset) address s;
       if \<not> ok then do { s \<leftarrow> page_cache_release_anonymous address s; Some (0, s) }
       else do {
         let last_value = fat_fs_read_fat_value address (fat_index mod 128) s;
         let s = put_fat_value address (fat_index mod 128) (value AND 0x0FFFFFFF) s;
         md \<leftarrow> fat_mounts s mount_point;
         (ok, s) \<leftarrow> fat_fs_write_by_lba calls mount_point (fm_fat_lba md + fat_offset) address s;
         s \<leftarrow> page_cache_release_anonymous address s;
         Some (if ok then last_value else 0, s)
       }
     }
   }"

partial_function (option) load_layout_loop :: "'a fat_scheme fat_env \<Rightarrow> ptr \<Rightarrow> 'a fat_scheme \<Rightarrow> (error_t \<times> 'a fat_scheme) option" where
  [code]: "load_layout_loop env node s = do {
     n \<leftarrow> vnodes s node;
     l \<leftarrow> layout_of node s;
     last' \<leftarrow> vector_at l (v_count l - 1);
     (next_cluster, s) \<leftarrow> fat_fs_find_next_cluster (fe_calls env) (vn_tag n) last' s;
     if FAT_EOF \<le> next_cluster then Some (ERROR_OK, s)
     else do {
       l \<leftarrow> layout_of node s;
       (err, l) \<leftarrow> vector_insert_back (fe_granted env) next_cluster l;
       s \<leftarrow> put_layout node l s;
       if err \<noteq> ERROR_OK then Some (ERROR_OCCUR, s) else load_layout_loop env node s
     }
   }"

definition fat_fs_load_file_layout :: "'a fat_scheme fat_env \<Rightarrow> ptr \<Rightarrow> 'a fat_scheme \<Rightarrow> (error_t \<times> 'a fat_scheme) option" where
  "fat_fs_load_file_layout env node s = load_layout_loop env node s"

subsection \<open>The file operations\<close>

primrec fat_read_loop :: "nat \<Rightarrow> u32 \<Rightarrow> 'a fat_scheme fs_calls \<Rightarrow> ptr \<Rightarrow> ptr \<Rightarrow> u32 \<Rightarrow> u32 \<Rightarrow> virtual_addr \<Rightarrow>
    'a fat_scheme \<Rightarrow> (u32 \<times> 'a fat_scheme) option" where
  "fat_read_loop 0 pg calls mount_point file start_pg count address s = Some (count, s)"
| "fat_read_loop (Suc k) pg calls mount_point file start_pg count address s = do {
     (ok, s) \<leftarrow> fat_fs_read_by_page calls mount_point file (start_pg + pg) (address + FAT_FORMAT_PAGE_SIZE * pg) s;
     if ok then fat_read_loop k (pg + 1) calls mount_point file start_pg count address s else Some (INVALID_IO, s)
   }"

definition fat_fs_read ::
  "'a fat_scheme fs_calls \<Rightarrow> u32 \<Rightarrow> ptr \<Rightarrow> u32 \<Rightarrow> u32 \<Rightarrow> virtual_addr \<Rightarrow> 'a fat_scheme \<Rightarrow> (u32 \<times> 'a fat_scheme) option" where
  "fat_fs_read calls fd file start count address s = do {
     d \<leftarrow> fat_nodes s file;
     if \<not> fn_layout_loaded d then Some (INVALID_IO, set_last_error EPERM FAT_NODE_NOT_OPEN EO_MASS_STORAGE_FS s)
     else if start mod FAT_FORMAT_PAGE_SIZE \<noteq> 0 \<or> count mod FAT_FORMAT_PAGE_SIZE \<noteq> 0
     then Some (INVALID_IO, set_last_error EINVAL FAT_BAD_ALIGN EO_MASS_STORAGE_FS s)
     else do {
       let start_pg = start div FAT_FORMAT_PAGE_SIZE;
       n \<leftarrow> vnodes s file;
       pages \<leftarrow> ceil_division count FAT_FORMAT_PAGE_SIZE;
       fat_read_loop (unat pages) 0 calls (vn_tag n) file start_pg count address s
     }
   }"

primrec fat_write_loop :: "nat \<Rightarrow> u32 \<Rightarrow> 'a fat_scheme fs_calls \<Rightarrow> ptr \<Rightarrow> ptr \<Rightarrow> u32 \<Rightarrow> u32 \<Rightarrow> virtual_addr \<Rightarrow>
    'a fat_scheme \<Rightarrow> (u32 \<times> 'a fat_scheme) option" where
  "fat_write_loop 0 pg calls mount_point file start_pg count address s = Some (count, s)"
| "fat_write_loop (Suc k) pg calls mount_point file start_pg count address s = do {
     (ok, s) \<leftarrow> fat_fs_write_by_page calls mount_point file (start_pg + pg) (address + FAT_FORMAT_PAGE_SIZE * pg) s;
     if ok then fat_write_loop k (pg + 1) calls mount_point file start_pg count address s else Some (INVALID_IO, s)
   }"

definition fat_fs_write ::
  "'a fat_scheme fs_calls \<Rightarrow> u32 \<Rightarrow> ptr \<Rightarrow> u32 \<Rightarrow> u32 \<Rightarrow> virtual_addr \<Rightarrow> 'a fat_scheme \<Rightarrow> (u32 \<times> 'a fat_scheme) option" where
  "fat_fs_write calls fd file start count address s = do {
     d \<leftarrow> fat_nodes s file;
     if \<not> fn_layout_loaded d then Some (INVALID_IO, set_last_error EPERM FAT_NODE_NOT_OPEN EO_MASS_STORAGE_FS s)
     else if start mod FAT_FORMAT_PAGE_SIZE \<noteq> 0 \<or> count mod FAT_FORMAT_PAGE_SIZE \<noteq> 0
     then Some (INVALID_IO, set_last_error EINVAL FAT_BAD_ALIGN EO_MASS_STORAGE_FS s)
     else do {
       let start_pg = start div FAT_FORMAT_PAGE_SIZE;
       n \<leftarrow> vnodes s file;
       pages \<leftarrow> ceil_division count FAT_FORMAT_PAGE_SIZE;
       fat_write_loop (unat pages) 0 calls (vn_tag n) file start_pg count address s
     }
   }"

definition fat_fs_open :: "'a fat_scheme fat_env \<Rightarrow> ptr \<Rightarrow> u32 \<Rightarrow> 'a fat_scheme \<Rightarrow> (error_t \<times> 'a fat_scheme) option" where
  "fat_fs_open env node capabilities s = do {
     n \<leftarrow> vnodes s node;
     mp \<leftarrow> vnodes s (vn_tag n);
     if vn_tag mp = 0
     then Some (last_error_word EINVAL FAT_BAD_NODE_STRUCTURE EO_MASS_STORAGE_FS, set_last_error EINVAL FAT_BAD_NODE_STRUCTURE EO_MASS_STORAGE_FS s)
     else do {
       d \<leftarrow> fat_nodes s node;
       if \<not> fn_layout_loaded d
       then fat_fs_load_file_layout env node (s\<lparr>fat_nodes := (fat_nodes s)(node \<mapsto> d\<lparr>fn_layout_loaded := True\<rparr>)\<rparr>)
       else Some (ERROR_OK, s)
     }
   }"

partial_function (option) fat_sync_loop :: "'a fat_scheme fs_calls \<Rightarrow> u32 \<Rightarrow> ptr \<Rightarrow> ptr \<Rightarrow> u32 \<Rightarrow> u32 \<Rightarrow>
    'a fat_scheme \<Rightarrow> (error_t \<times> 'a fat_scheme) option" where
  [code]: "fat_sync_loop calls fd mount_point file pg page_end s =
     (if pg \<le> page_end then do {
        (cache, s) \<leftarrow> page_cache_get_buffer fd pg s;
        if cache = 0 then fat_sync_loop calls fd mount_point file (pg + 1) page_end s
        else do {
          (ok, s) \<leftarrow> fat_fs_write_by_page calls mount_point file pg cache s;
          if ok then fat_sync_loop calls fd mount_point file (pg + 1) page_end s else Some (ERROR_OCCUR, s)
        }
      }
      else Some (ERROR_OK, s))"

definition fat_fs_sync :: "'a fat_scheme fs_calls \<Rightarrow> u32 \<Rightarrow> ptr \<Rightarrow> u32 \<Rightarrow> u32 \<Rightarrow> 'a fat_scheme \<Rightarrow> (error_t \<times> 'a fat_scheme) option" where
  "fat_fs_sync calls fd file page_start page_end s = do {
     n \<leftarrow> vnodes s file;
     let k = vn_attributes n AND 7;
     if \<not> (k = VFS_FILE \<or> k = VFS_DIRECTORY) \<and> k \<noteq> VFS_MOUNT_PT
     then Some (last_error_word EINVAL FAT_BAD_NODE_STRUCTURE EO_MASS_STORAGE_FS, set_last_error EINVAL FAT_BAD_NODE_STRUCTURE EO_MASS_STORAGE_FS s)
     else do {
       mount_point \<leftarrow> (if k = VFS_FILE \<or> k = VFS_DIRECTORY
          then do { _ \<leftarrow> vnodes s (vn_tag n); Some (vn_tag n) } else Some file);
       (page_start, page_end) \<leftarrow> (if page_end < page_start
          then do { l \<leftarrow> layout_of file s; Some (0, v_count l - 1) } else Some (page_start, page_end));
       fat_sync_loop calls fd mount_point file page_start page_end s
     }
   }"

definition fat_fs_ioctl :: "'a fat_scheme fs_calls \<Rightarrow> ptr \<Rightarrow> u32 \<Rightarrow> 'a fat_scheme \<Rightarrow> (error_t \<times> 'a fat_scheme) option" where
  "fat_fs_ioctl calls node command s =
     (if command = 0 then do {
        n \<leftarrow> vnodes s node;
        let mount = vn_tag n;
        f \<leftarrow> node_ops mount s;
        md \<leftarrow> fat_mounts s mount;
        (_, s) \<leftarrow> call_write calls (fs_write f) (fm_fd md) node 0 0 0 s;
        Some (ERROR_OK, s)
      }
      else Some (ERROR_OK, s))"

definition fat_node_write :: "bytes \<Rightarrow> u32 \<Rightarrow> ptr \<Rightarrow> u32 \<Rightarrow> u32 \<Rightarrow> virtual_addr \<Rightarrow> 'a fat_scheme \<Rightarrow> (u32 \<times> 'a fat_scheme) option" where
  \<comment> \<open>\<open>junk\<close> is what the local array of 12 bytes holds before it is written.\<close>
  "fat_node_write junk fd node start count address s = do {
     d \<leftarrow> fat_nodes s node;
     let page = fn_metadata_cluster d;
     let offset = fn_metadata_index d;
     (buf, s) \<leftarrow> page_cache_get_buffer fd page s;
     let entry = buf + offset;
     n \<leftarrow> vnodes s node;
     let m = write32 (bytes_at s) (entry + 28) (vn_file_length n);
     name \<leftarrow> fat_fs_generate_short_name n junk;
     Some (32, s\<lparr>bytes_at := store entry (take 11 name) m\<rparr>)
   }"

subsection \<open>Directory entries\<close>

definition fat_fs_create_short_entry_from_node :: "virtual_addr \<Rightarrow> ptr \<Rightarrow> 'a fat_scheme \<Rightarrow> (error_t \<times> 'a fat_scheme) option" where
  "fat_fs_create_short_entry_from_node e node s = do {
     l \<leftarrow> layout_of node s;
     if v_count l = 0 then Some (ERROR_OCCUR, set_last_error EINVAL FAT_BAD_NODE_STRUCTURE EO_MASS_STORAGE_FS s)
     else do {
       first_cluster \<leftarrow> vector_at l 0;
       n \<leftarrow> vnodes s node;
       let m = (bytes_at s)(e + 11 := ucast (vfs_to_fat_attributes (vn_attributes n)));
       name \<leftarrow> fat_fs_generate_short_name n (load m e 11);
       let m = write32 (store e name m) (e + 28) 0;
       let m = write16 (e + 16) 8225 m;
       let m = write16 (e + 14) 2082 m;
       let m = m(e + 13 := 0);
       let m = write16 (e + 18) 8225 m;
       let m = write16 (e + 24) 8225 m;
       let m = write16 (e + 22) 2082 m;
       let m = write16 (e + 26) (ucast first_cluster) m;
       let m = write16 (e + 20) (ucast (drop_bit 16 first_cluster) AND 0x0FFF) m;
       Some (ERROR_OK, s\<lparr>bytes_at := m(e + 12 := 0)\<rparr>)
     }
   }"

definition dot_name :: bytes where
  "dot_name = 46 # replicate 10 32"

definition dotdot_name :: bytes where
  "dotdot_name = 46 # 46 # replicate 9 32"

definition fat_fs_initialize_directory :: "u32 \<Rightarrow> bytes \<Rightarrow> virtual_addr \<Rightarrow> mem \<Rightarrow> mem" where
  \<comment> \<open>\<open>new_dir\<close> is the entry of 32 bytes the caller keeps on its stack.\<close>
  "fat_fs_initialize_directory parent_cluster new_dir buf m =
     (let m = store buf new_dir m;
        m = store buf dot_name m;
        dotdot = entry_at buf 1;
        m = store dotdot new_dir m;
        m = store dotdot dotdot_name m;
        m = write16 (dotdot + 26) (ucast parent_cluster) m
      in write16 (dotdot + 20) (ucast (drop_bit 16 parent_cluster AND 0x00FF)) m)"

partial_function (option) delete_chain_loop :: "'a fat_scheme fs_calls \<Rightarrow> ptr \<Rightarrow> u32 \<Rightarrow> 'a fat_scheme \<Rightarrow> (error_t \<times> 'a fat_scheme) option" where
  [code]: "delete_chain_loop calls mount_point next_cluster s =
     (if next_cluster < FAT_EOF then do {
        (next_cluster, s) \<leftarrow> fat_fs_mark_cluster calls mount_point next_cluster 0 s;
        if next_cluster = 0 then Some (ERROR_OCCUR, s) else delete_chain_loop calls mount_point next_cluster s
      }
      else Some (ERROR_OK, s))"

definition fat_fs_delete_node :: "'a fat_scheme fs_calls \<Rightarrow> ptr \<Rightarrow> ptr \<Rightarrow> 'a fat_scheme \<Rightarrow> (error_t \<times> 'a fat_scheme) option" where
  "fat_fs_delete_node calls mount_point node s = do {
     n \<leftarrow> vnodes s node;
     if vn_attributes n AND 7 = VFS_DIRECTORY \<and> 2 < l_count (vn_children n)
     then Some (ERROR_OCCUR, set_last_error EINVAL VFS_BAD_ARGUMENTS EO_MASS_STORAGE_FS s)
     else do {
       (cache, s) \<leftarrow> page_cache_reserve_anonymous s;
       if cache = 0 then Some (ERROR_OCCUR, s)
       else do {
         d \<leftarrow> fat_nodes s node;
         let cluster = fn_metadata_cluster d;
         let index = fn_metadata_index d;
         (ok, s) \<leftarrow> fat_fs_read_by_data_cluster calls mount_point cluster cache s;
         if \<not> ok then do { s \<leftarrow> page_cache_release_anonymous cache s; Some (ERROR_OCCUR, s) }
         else do {
           let e = entry_at cache index;
           let value = (if index < 127 \<and> bytes_at s (e + 32) = 0 then 0 else 0xE5);
           (ok, s) \<leftarrow> fat_fs_write_by_data_cluster calls mount_point cluster cache (s\<lparr>bytes_at := (bytes_at s)(e := value)\<rparr>);
           s \<leftarrow> page_cache_release_anonymous cache s;
           if \<not> ok then Some (ERROR_OCCUR, s)
           else do {
             l \<leftarrow> layout_of node s;
             next_cluster \<leftarrow> vector_at l 0;
             delete_chain_loop calls mount_point next_cluster s
           }
         }
       }
     }
   }"

primrec empty_entry_loop :: "nat \<Rightarrow> u32 \<Rightarrow> virtual_addr \<Rightarrow> mem \<Rightarrow> u32 option" where
  \<comment> \<open>The inner loop of \<^verbatim>\<open>fat_fs_find_empty_entry\<close>.\<close>
  "empty_entry_loop 0 j cache m = None"
| "empty_entry_loop (Suc k) j cache m =
     (if m (entry_at cache j) = 0xE5 \<or> m (entry_at cache j) = 0 then Some j else empty_entry_loop k (j + 1) cache m)"

partial_function (option) find_empty_loop :: "'a fat_scheme fs_calls \<Rightarrow> ptr \<Rightarrow> ptr \<Rightarrow> virtual_addr \<Rightarrow> u32 \<Rightarrow> 'a fat_scheme \<Rightarrow>
    (bool \<times> u32 \<times> u32 \<times> 'a fat_scheme) option" where
  [code]: "find_empty_loop calls mount_point directory cache i s = do {
     l \<leftarrow> layout_of directory s;
     if i < v_count l then do {
       c \<leftarrow> vector_at l i;
       (ok, s) \<leftarrow> fat_fs_read_by_data_cluster calls mount_point c cache s;
       if \<not> ok then Some (False, 0, 129, s)
       else (case empty_entry_loop 127 0 cache (bytes_at s) of
           Some j \<Rightarrow> do { l \<leftarrow> layout_of directory s; c \<leftarrow> vector_at l i; Some (True, c, j, s) }
         | None \<Rightarrow> find_empty_loop calls mount_point directory cache (i + 1) s)
     }
     else Some (False, 0, 129, s)
   }"

definition fat_fs_find_empty_entry :: "'a fat_scheme fs_calls \<Rightarrow> ptr \<Rightarrow> ptr \<Rightarrow> virtual_addr \<Rightarrow> 'a fat_scheme \<Rightarrow>
    (bool \<times> u32 \<times> u32 \<times> 'a fat_scheme) option" where
  \<comment> \<open>The result, \<^verbatim>\<open>*cluster\<close> and \<^verbatim>\<open>*index\<close>.\<close>
  "fat_fs_find_empty_entry calls mount_point directory cache s = find_empty_loop calls mount_point directory cache 0 s"

definition fat_fs_move_node :: "'a fat_scheme fat_env \<Rightarrow> ptr \<Rightarrow> ptr \<Rightarrow> ptr \<Rightarrow> 'a fat_scheme \<Rightarrow> (error_t \<times> 'a fat_scheme) option" where
  \<comment> \<open>The descriptor of the directory is a local variable that is not used again.\<close>
  "fat_fs_move_node env mount_point node directory s = do {
     bad \<leftarrow> (if mount_point = 0 \<or> node = 0 \<or> directory = 0 then Some True
       else do {
         m \<leftarrow> vnodes s mount_point;
         if vn_attributes m AND 7 \<noteq> VFS_MOUNT_PT then Some True
         else do { d \<leftarrow> vnodes s directory; Some (vn_attributes d AND 7 \<noteq> VFS_DIRECTORY) }
       });
     if bad then Some (ERROR_OCCUR, set_last_error EINVAL FAT_BAD_NODE_STRUCTURE EO_MASS_STORAGE_FS s)
     else do {
       (err, fd, s) \<leftarrow> open_file_by_node (fe_calls env) (fe_granted env) directory INVALID_FD 0 s;
       if err \<noteq> ERROR_OK then Some (ERROR_OCCUR, s)
       else do {
         (cache, s) \<leftarrow> page_cache_reserve_anonymous s;
         if cache = 0 then Some (ERROR_OCCUR, s)
         else do {
           d \<leftarrow> fat_nodes s node;
           (ok, s) \<leftarrow> fat_fs_read_by_data_cluster (fe_calls env) mount_point (fn_metadata_cluster d) cache s;
           if \<not> ok then do { s \<leftarrow> page_cache_release_anonymous cache s; Some (ERROR_OCCUR, s) }
           else do {
             d \<leftarrow> fat_nodes s node;
             let e = entry_at cache (fn_metadata_index d);
             let entry = load (bytes_at s) e 32;
             let value = (if fn_metadata_index d < 127 \<and> bytes_at s (e + 32) = 0 then 0 else 0xE5);
             (ok, s) \<leftarrow> fat_fs_write_by_data_cluster (fe_calls env) mount_point (fn_metadata_cluster d) cache
               (s\<lparr>bytes_at := (bytes_at s)(e := value)\<rparr>);
             if \<not> ok then do { s \<leftarrow> page_cache_release_anonymous cache s; Some (ERROR_OCCUR, s) }
             else do {
               (found, metadata_cluster, metadata_index, s) \<leftarrow> fat_fs_find_empty_entry (fe_calls env) mount_point directory cache s;
               if found then do {
                 (ok, s) \<leftarrow> fat_fs_write_by_data_cluster (fe_calls env) mount_point metadata_cluster cache
                   (s\<lparr>bytes_at := store (entry_at cache metadata_index) entry (bytes_at s)\<rparr>);
                 if \<not> ok then do { s \<leftarrow> page_cache_release_anonymous cache s; Some (ERROR_OCCUR, s) }
                 else do {
                   d \<leftarrow> fat_nodes s node;
                   s \<leftarrow> page_cache_release_anonymous cache (s\<lparr>fat_nodes := (fat_nodes s)(node \<mapsto>
                     d\<lparr>fn_metadata_cluster := metadata_cluster, fn_metadata_index := metadata_index\<rparr>)\<rparr>);
                   Some (ERROR_OK, s)
                 }
               }
               else do { s \<leftarrow> page_cache_release_anonymous cache s; Some (ERROR_OK, s) }
             }
           }
         }
       }
     }
   }"

subsection \<open>Creation\<close>

definition add_dot_child :: "'a fat_scheme fat_env \<Rightarrow> bytes \<Rightarrow> ptr \<Rightarrow> ptr \<Rightarrow> 'a fat_scheme \<Rightarrow> 'a fat_scheme option" where
  \<comment> \<open>One of the two calls of \<^verbatim>\<open>vfs_add_child\<close>; its child is a node with this name.\<close>
  "add_dot_child env name mount_point directory s = do {
     (n, s) \<leftarrow> vfs_create_node (fe_new env s) (fe_granted env) (name @ [0]) False (VFS_DIRECTORY OR VFS_READ OR VFS_WRITE)
       (VFS_CAP_READ OR VFS_CAP_WRITE) 0 mount_point directory (fat_fs_operations s) s;
     vfs_add_child (fe_new env s) directory n s
   }"

definition fat_fs_initialize_node_cluster ::
  "'a fat_scheme fat_env \<Rightarrow> ptr \<Rightarrow> ptr \<Rightarrow> ptr \<Rightarrow> bytes \<Rightarrow> virtual_addr \<Rightarrow> 'a fat_scheme \<Rightarrow> (bool \<times> 'a fat_scheme) option" where
  "fat_fs_initialize_node_cluster env mount_point nd directory entry cache s = do {
     let free_cluster = fat_fs_get_entry_data_cluster 0 (store 0 entry (\<lambda>_. 0));
     (ok, s) \<leftarrow> fat_fs_read_by_data_cluster (fe_calls env) mount_point free_cluster cache s;
     if \<not> ok then Some (False, s)
     else do {
       let s = s\<lparr>bytes_at := memset cache 0 4096 (bytes_at s)\<rparr>;
       n \<leftarrow> vnodes s nd;
       s \<leftarrow> (if vn_attributes n AND 7 = VFS_DIRECTORY then do {
              l \<leftarrow> layout_of directory s;
              parent_cluster \<leftarrow> vector_at l 0;
              let s = s\<lparr>bytes_at := fat_fs_initialize_directory parent_cluster entry cache (bytes_at s)\<rparr>;
              s \<leftarrow> add_dot_child env dot_name mount_point directory s;
              add_dot_child env dotdot_name mount_point directory s
            }
            else Some s);
       fat_fs_write_by_data_cluster (fe_calls env) mount_point free_cluster cache s
     }
   }"

definition delete_fat_node :: "ptr \<Rightarrow> 'a fat_scheme \<Rightarrow> 'a fat_scheme" where
  \<comment> \<open>\<^verbatim>\<open>delete new_node\<close>: no object lives at the address any longer.\<close>
  "delete_fat_node n s = s\<lparr>vnodes := (vnodes s)(n := None), fat_nodes := (fat_nodes s)(n := None)\<rparr>"

definition no_layout :: fat_file_layout where
  \<comment> \<open>The layout of a node before \<^verbatim>\<open>vector_init\<close>.\<close>
  "no_layout = \<lparr>v_data = [], v_count = 0, v_r_size = 0\<rparr>"

definition file_creation :: "'a fat_scheme fat_env \<Rightarrow> ptr \<Rightarrow> ptr \<Rightarrow> bytes \<Rightarrow> u32 \<Rightarrow> virtual_addr \<Rightarrow> u32 \<Rightarrow> u32 \<Rightarrow>
    'a fat_scheme \<Rightarrow> (ptr \<times> 'a fat_scheme) option" where
  \<comment> \<open>\<^verbatim>\<open>fat_fs_create_node\<close> from its label \<^verbatim>\<open>file_creation\<close> on. The load flag of the new node is not written.\<close>
  "file_creation env mount_point directory name vfs_attributes cache metadata_cluster metadata_index s = do {
     let file_entry = entry_at cache metadata_index;
     (free_cluster, s) \<leftarrow> fat_fs_reserve_first_cluster (fe_calls env) mount_point FAT_EOF s;
     if free_cluster = 0 then do { s \<leftarrow> page_cache_release_anonymous cache s; Some (0, s) }
     else do {
       (nd, s) \<leftarrow> vfs_create_node (fe_new env s) (fe_granted env) name True vfs_attributes 0 0 mount_point directory (fat_fs_operations s) s;
       (err, l) \<leftarrow> (if nd = 0 then None else Some (vector_init (fe_granted env) 1));
       let s = s\<lparr>fat_nodes := (fat_nodes s)(nd \<mapsto> \<lparr>fn_layout = l, fn_layout_loaded = fe_loaded env,
         fn_metadata_cluster = metadata_cluster, fn_metadata_index = metadata_index\<rparr>)\<rparr>;
       if err \<noteq> ERROR_OK then Some (0, s)
       else do {
         (err, l) \<leftarrow> vector_insert_back (fe_granted env) free_cluster l;
         s \<leftarrow> put_layout nd l s;
         if err \<noteq> ERROR_OK then Some (0, s)
         else do {
           (err, s) \<leftarrow> fat_fs_create_short_entry_from_node file_entry nd s;
           if err \<noteq> ERROR_OK then do { s \<leftarrow> page_cache_release_anonymous cache s; Some (0, delete_fat_node nd s) }
           else do {
             (ok, s) \<leftarrow> fat_fs_write_by_data_cluster (fe_calls env) mount_point metadata_cluster cache s;
             if \<not> ok then do { s \<leftarrow> page_cache_release_anonymous cache s; Some (0, delete_fat_node nd s) }
             else do {
               let temp_entry = load (bytes_at s) file_entry 32;
               (ok, s) \<leftarrow> fat_fs_initialize_node_cluster env mount_point nd directory temp_entry cache s;
               s \<leftarrow> page_cache_release_anonymous cache s;
               Some (if ok then (nd, s) else (0, delete_fat_node nd s))
             }
           }
         }
       }
     }
   }"

definition fat_fs_create_node :: "'a fat_scheme fat_env \<Rightarrow> ptr \<Rightarrow> ptr \<Rightarrow> bytes \<Rightarrow> u32 \<Rightarrow> 'a fat_scheme \<Rightarrow> (ptr \<times> 'a fat_scheme) option" where
  "fat_fs_create_node env mount_point directory name vfs_attributes s = do {
     bad \<leftarrow> (if mount_point = 0 \<or> directory = 0 then Some True
       else do {
         m \<leftarrow> vnodes s mount_point;
         if vn_attributes m AND 7 \<noteq> VFS_MOUNT_PT then Some True
         else do { d \<leftarrow> vnodes s directory; Some (vn_attributes d AND 7 \<noteq> VFS_DIRECTORY) }
       });
     if bad then Some (0, set_last_error EINVAL FAT_BAD_NODE_STRUCTURE EO_MASS_STORAGE_FS s)
     else do {
       len \<leftarrow> strlen name;
       valid \<leftarrow> fat_fs_validate_83_name (fe_stray env) name (ucast len);
       if \<not> valid then Some (0, set_last_error EINVAL FAT_INVALID_83_NAME EO_MASS_STORAGE_FS s)
       else do {
         (cache, s) \<leftarrow> page_cache_reserve_anonymous s;
         if cache = 0 then Some (0, s)
         else do {
           (found, metadata_cluster, metadata_index, s) \<leftarrow> fat_fs_find_empty_entry (fe_calls env) mount_point directory cache s;
           if found then file_creation env mount_point directory name vfs_attributes cache metadata_cluster metadata_index s
           else do {
             (free_cluster, s) \<leftarrow> fat_fs_reserve_first_cluster (fe_calls env) mount_point FAT_EOF s;
             if free_cluster = 0 then do { s \<leftarrow> page_cache_release_anonymous cache s; Some (0, s) }
             else do {
               l \<leftarrow> layout_of directory s;
               c \<leftarrow> vector_at l (v_count l - 1);
               (_, s) \<leftarrow> fat_fs_mark_cluster (fe_calls env) mount_point c free_cluster s;
               l \<leftarrow> layout_of directory s;
               (err, l) \<leftarrow> vector_insert_back (fe_granted env) free_cluster l;
               s \<leftarrow> put_layout directory l s;
               if err \<noteq> ERROR_OK then Some (0, s)
               else file_creation env mount_point directory name vfs_attributes cache free_cluster 0 s
             }
           }
         }
       }
     }
   }"

subsection \<open>Mounting\<close>

datatype entry_exit = Entry_Next | Entry_Stop | Entry_Return

definition read_entry :: "'a fat_scheme fat_env \<Rightarrow> (u32 \<Rightarrow> ptr \<Rightarrow> 'a fat_scheme \<Rightarrow> (list_t \<times> 'a fat_scheme) option) \<Rightarrow>
    ptr \<Rightarrow> u32 \<Rightarrow> virtual_addr \<Rightarrow> ptr \<Rightarrow> u32 \<Rightarrow> list_t \<Rightarrow> 'a fat_scheme \<Rightarrow> (entry_exit \<times> list_t \<times> 'a fat_scheme) option" where
  \<comment> \<open>The body of the loop over the entries; \<open>descend\<close> is the recursive call.\<close>
  "read_entry env descend mount_point offset cache parent i l s = do {
     let e = entry_at cache i;
     let m = bytes_at s;
     if m e = 0 then Some (Entry_Stop, l, s)
     else if m e = 0xE5 then Some (Entry_Next, l, s)
     else if (ucast (m (e + 11)) AND FAT_VOLUME_ID) = FAT_VOLUME_ID then Some (Entry_Next, l, s)
     else do {
       name \<leftarrow> fat_fs_retrieve_short_name (load m e 8) (load m (e + 8) 3) (replicate 13 0);
       let attrs = fat_to_vfs_attributes (ucast (m (e + 11)));
       (node, s) \<leftarrow> vfs_create_node (fe_new env s) (fe_granted env) name True attrs (VFS_CAP_READ OR VFS_CAP_WRITE OR VFS_CAP_CACHE)
         (read32 m (e + 28)) mount_point parent (fat_fs_operations s) s;
       s \<leftarrow> (if node = 0 then None else Some (s\<lparr>fat_nodes := (fat_nodes s)(node \<mapsto> \<lparr>fn_layout = no_layout, fn_layout_loaded = False,
         fn_metadata_cluster = offset, fn_metadata_index = i\<rparr>)\<rparr>));
       (kids, s) \<leftarrow> (if name ! 0 \<noteq> 46 \<and> (ucast (bytes_at s (e + 11)) AND FAT_DIRECTORY) = FAT_DIRECTORY
          then descend (fat_fs_get_entry_data_cluster e (bytes_at s)) node s
          else Some (\<lparr>l_head = 0, l_tail = 0, l_count = 0\<rparr>, s));
       pages \<leftarrow> ceil_division (read32 (bytes_at s) (e + 28)) 4096;
       let (err, v) = vector_init (fe_granted env) pages;
       s \<leftarrow> put_layout node v s;
       if err \<noteq> ERROR_OK then Some (Entry_Return, \<lparr>l_head = 0, l_tail = 0, l_count = 0\<rparr>, s)
       else do {
         (err, v) \<leftarrow> vector_insert_back (fe_granted env) (fat_fs_get_entry_data_cluster e (bytes_at s)) v;
         s \<leftarrow> put_layout node v s;
         if err \<noteq> ERROR_OK then Some (Entry_Return, \<lparr>l_head = 0, l_tail = 0, l_count = 0\<rparr>, s)
         else do {
           n \<leftarrow> vnodes s node;
           let s = s\<lparr>vnodes := (vnodes s)(node \<mapsto> n\<lparr>vn_children := kids\<rparr>)\<rparr>;
           (l, cs) \<leftarrow> list_insert_back l (fe_new env s) node (vcells s);
           Some (Entry_Next, l, s\<lparr>vcells := cs\<rparr>)
         }
       }
     }
   }"

primrec read_entries :: "nat \<Rightarrow> 'a fat_scheme fat_env \<Rightarrow> (u32 \<Rightarrow> ptr \<Rightarrow> 'a fat_scheme \<Rightarrow> (list_t \<times> 'a fat_scheme) option) \<Rightarrow>
    ptr \<Rightarrow> u32 \<Rightarrow> virtual_addr \<Rightarrow> ptr \<Rightarrow> u32 \<Rightarrow> list_t \<Rightarrow> 'a fat_scheme \<Rightarrow> (bool \<times> list_t \<times> 'a fat_scheme) option" where
  \<comment> \<open>\<open>k\<close> entries remain; the flag says that the function returns.\<close>
  "read_entries 0 env descend mount_point offset cache parent i l s = Some (False, l, s)"
| "read_entries (Suc k) env descend mount_point offset cache parent i l s = do {
     (ex, l, s) \<leftarrow> read_entry env descend mount_point offset cache parent i l s;
     if ex = Entry_Next then read_entries k env descend mount_point offset cache parent (i + 1) l s
     else Some (ex = Entry_Return, l, s)
   }"

lemma read_entry_mono [partial_function_mono]:
  assumes "\<And>a b c. mono_option (\<lambda>f. g f a b c)"
  shows "mono_option (\<lambda>f. read_entry env (g f) mount_point offset cache parent i l s)"
  unfolding read_entry_def Let_def split_beta by (intro partial_function_mono assms)

lemma read_entries_mono [partial_function_mono]:
  assumes g: "\<And>a b c. mono_option (\<lambda>f. g f a b c)"
  shows "mono_option (\<lambda>f. read_entries k env (g f) mount_point offset cache parent i l s)"
proof (induction k arbitrary: i l s)
  case (Suc k)
  show ?case
    unfolding read_entries.simps split_beta
    by (intro partial_function_mono g Suc.IH)
next
  case 0
  show ?case unfolding read_entries.simps by (rule partial_function_mono)
qed

partial_function (option) directory_loop :: "'a fat_scheme fat_env \<Rightarrow> ptr \<Rightarrow> u32 \<Rightarrow> ptr \<Rightarrow> list_t \<Rightarrow> 'a fat_scheme \<Rightarrow> (list_t \<times> 'a fat_scheme) option" where
  \<comment> \<open>The loop over the clusters of a directory, with the recursion on its subdirectories.\<close>
  [code]: "directory_loop env mount_point offset parent l s =
     (if offset < FAT_EOF then do {
        (cache, s) \<leftarrow> page_cache_reserve_anonymous s;
        if cache = 0 then Some (\<lparr>l_head = 0, l_tail = 0, l_count = 0\<rparr>, s)
        else do {
          (ok, s) \<leftarrow> fat_fs_read_by_data_cluster (fe_calls env) mount_point offset cache s;
          if \<not> ok then Some (\<lparr>l_head = 0, l_tail = 0, l_count = 0\<rparr>, snd (get_last_error s))
          else do {
            (ret, l, s) \<leftarrow> read_entries 128 env (\<lambda>clus nd s. directory_loop env mount_point clus nd \<lparr>l_head = 0, l_tail = 0, l_count = 0\<rparr> s)
              mount_point offset cache parent 0 l s;
            if ret then Some (l, s)
            else do {
              (offset, s) \<leftarrow> fat_fs_find_next_cluster (fe_calls env) mount_point offset s;
              s \<leftarrow> page_cache_release_anonymous cache s;
              directory_loop env mount_point offset parent l s
            }
          }
        }
      }
      else Some (l, s))"

definition fat_fs_read_directory :: "'a fat_scheme fat_env \<Rightarrow> ptr \<Rightarrow> u32 \<Rightarrow> ptr \<Rightarrow> 'a fat_scheme \<Rightarrow> (list_t \<times> 'a fat_scheme) option" where
  "fat_fs_read_directory env mount_point current_cluster parent s =
     directory_loop env mount_point current_cluster parent \<lparr>l_head = 0, l_tail = 0, l_count = 0\<rparr> s"

definition fat_fs_mount :: "'a fat_scheme fat_env \<Rightarrow> bytes \<Rightarrow> ptr \<Rightarrow> 'a fat_scheme \<Rightarrow> (ptr \<times> 'a fat_scheme) option" where
  \<comment> \<open>In the boot record the offset of the first partition is at 454. In the volume record the number of
     reserved sectors is at 14, that of tables at 16, the size of a table at 36, the root cluster at 44.\<close>
  "fat_fs_mount env mount_name dev_node s = do {
     (cache, s) \<leftarrow> page_cache_reserve_anonymous s;
     if cache = 0 then Some (0, s)
     else do {
       (r, s) \<leftarrow> vfs_read_file (fe_calls env) 0 dev_node 0 1 cache s;
       if r \<noteq> 1 then Some (0, s)
       else do {
         let partition_offset = read32 (bytes_at s) (cache + 454);
         (r, s) \<leftarrow> vfs_read_file (fe_calls env) 0 dev_node partition_offset 1 cache s;
         if r \<noteq> 1 then Some (0, s)
         else do {
           let fat_lba = partition_offset + ucast (read16 (bytes_at s) (cache + 14));
           let cluster_lba = fat_lba + ucast (bytes_at s (cache + 16)) * read32 (bytes_at s) (cache + 36);
           let root_dir_first_cluster = read32 (bytes_at s) (cache + 44);
           s \<leftarrow> page_cache_release_anonymous cache s;
           (mount_point, s) \<leftarrow> vfs_create_node (fe_new env s) (fe_granted env) mount_name True VFS_MOUNT_PT
             (VFS_CAP_READ OR VFS_CAP_WRITE) 0 dev_node 0 (fat_mount_operations s) s;
           (err, v) \<leftarrow> (if mount_point = 0 then None else Some (vector_init (fe_granted env) 1));
           let s = s\<lparr>fat_mounts := (fat_mounts s)(mount_point \<mapsto> \<lparr>fm_layout = v, fm_partition_offset = partition_offset,
             fm_fat_lba = fat_lba, fm_cluster_lba = cluster_lba, fm_root_dir_first_cluster = root_dir_first_cluster, fm_fd = fe_fd env\<rparr>)\<rparr>;
           if err \<noteq> ERROR_OK then Some (0, s)
           else do {
             (kids, s) \<leftarrow> fat_fs_read_directory env mount_point root_dir_first_cluster mount_point s;
             n \<leftarrow> vnodes s mount_point;
             Some (mount_point, s\<lparr>vnodes := (vnodes s)(mount_point \<mapsto> n\<lparr>vn_children := kids\<rparr>)\<rparr>)
           }
         }
       }
     }
   }"

end
