(* ===== verification/Anon_Buffer.thy ===== *)
theory Anon_Buffer
  imports File_Io
begin

text \<open>
  Borrowing a buffer of the page cache: what \<^verbatim>\<open>page_cache_reserve_anonymous\<close> gives, some code fills,
  and \<^verbatim>\<open>page_cache_release_anonymous\<close> takes back. When the page tables of the cache exist, one block of
  memory is free and free buffers are unmapped, borrowing succeeds, and giving back restores all of that.
\<close>

lemma out_of_memory_regions:
  assumes "pmm_ok s"
  shows "out_of_memory s \<longleftrightarrow> (\<forall>j. 0 < j \<longrightarrow> j < usable_blocks s \<longrightarrow> (4096 * j, 4096) \<in> block_regions s)"
proof -
  have "usable_blocks s \<le> unat (mmngr_max_blocks s)" by (simp add: usable_blocks_def)
  moreover have "block_used (mmngr_bitmap s) 0" using assms by (simp add: pmm_ok_def)
  ultimately show ?thesis unfolding out_of_memory_def block_regions_def by (auto simp: less_le_trans) (metis gr0I)
qed

lemma out_of_memory_blocks:
  assumes "pmm_ok s" and "pmm_ok s'" and "block_regions s' = block_regions s" and "mmngr_max_blocks s' = mmngr_max_blocks s"
  shows "out_of_memory s' \<longleftrightarrow> out_of_memory s"
  using assms by (simp add: out_of_memory_regions usable_blocks_def)

lemma dirent_fields [simp]:
  "dirent (s\<lparr>bytes_at := m\<rparr>) = dirent s" "translate (s\<lparr>bytes_at := m\<rparr>) = translate s" "out_of_memory (s\<lparr>bytes_at := m\<rparr>) = out_of_memory s"
  by (simp_all add: dirent_def translate_def page_walk_def out_of_memory_def usable_blocks_def fun_eq_iff cong: Option.bind_cong if_cong)

text \<open>Allocating a page whose table exists.\<close>

lemma alloc_page_into_table:
  fixes s :: "'a vmm_scheme"
  assumes ok: "vm_ok (current_directory s) s" and p: "pd_entry_is_present (dirent s (current_directory s) a)"
    and t: "translate s (current_directory s) a = None" and lo: "a < 0xF0000000" and mem: "\<not> out_of_memory s"
  obtains fr s' where "vmmngr_alloc_page a s = Some (ERROR_OK, s')" "vm_ok (current_directory s) s'"
    "block_regions s' = insert (unat fr, 4096) (block_regions s)" "(unat fr, 4096) \<notin> block_regions s"
    "\<And>w. dirent s' (current_directory s) w = dirent s (current_directory s) w"
    "fr = pt_entry_get_frame (old_pte s' (current_directory s) a)" "\<not> table_block s' (current_directory s) fr"
    "\<And>w. \<not> same_page w a \<Longrightarrow> translate s' (current_directory s) w = translate s (current_directory s) w"
    "mmngr_max_blocks s' = mmngr_max_blocks s"
proof -
  let ?dir = "current_directory s"
  have f: "flags_ok DEFAULT_FLAGS" by (simp add: flags_ok_def DEFAULT_FLAGS_def I86_PDE_PRESENT_def I86_PDE_WRITABLE_def)
  have pm: "pmm_ok s" using ok by (simp add: vm_ok_def)
  note q = is_page_present_ok [OF ok, of a]
  show thesis
  proof (rule vmm_alloc_block [OF pm])
    fix fr s1
    assume a: "pmmngr_alloc_block s = Some (fr, s1)" "fr \<noteq> 0" "fr AND mask 12 = 0" "pmm_ok s1"
      "block_regions s1 = insert (unat fr, 4096) (block_regions s)" "(unat fr, 4096) \<notin> block_regions s"
      "tables s1 = tables s" "current_directory s1 = ?dir" "mmngr_max_blocks s1 = mmngr_max_blocks s"
    have ok1: "vm_ok ?dir s1"
      by (rule vm_ok_less_blocks [OF ok a(4) _ a(7), of fr]) (use a(5,6) table_block_regions [OF ok] in auto)
    have walk: "page_walk s1 = page_walk s" using a(7) by (simp add: page_walk_def fun_eq_iff cong: Option.bind_cong if_cong)
    have d1: "dirent s1 ?dir = dirent s ?dir" using a(7) by (simp add: dirent_def fun_eq_iff)
    obtain d where d: "tables s1 ?dir = Some d" "length d = 1024" "?dir \<noteq> 0" using ok1 by (rule vm_ok_dirE)
    obtain T where T: "tables s1 (pd_entry_get_frame (dirent s1 ?dir a)) = Some T" "length T = 1024"
      "pd_entry_get_frame (dirent s1 ?dir a) \<noteq> 0" "pd_entry_get_frame (dirent s1 ?dir a) \<noteq> ?dir"
      by (rule vm_ok_tableE [OF ok1]) (use p d1 in simp)
    let ?v = "new_pte (old_pte s1 ?dir a) fr DEFAULT_FLAGS"
    define s2 where "s2 = s1\<lparr>tables := (tables s1)(pd_entry_get_frame (dirent s1 ?dir a) \<mapsto> T[unat (PAGE_TABLE_INDEX a) := ?v])\<rparr>"
    have e: "d ! unat (PAGE_DIR_INDEX a) = dirent s1 ?dir a" using d by (simp add: dirent_def)
    have p1: "pd_entry_is_present (dirent s1 ?dir a)" using p d1 by simp
    have m: "vmmngr_map_page ?dir fr a DEFAULT_FLAGS s1 = Some (ERROR_OK, s2)"
      using d T p1 page_indices_lt [of a] e
      by (simp add: vmmngr_map_page_def vmmngr_pdirectory_lookup_entry_def entry_get_def entry_put_def test_present
        vmmngr_ptable_lookup_entry_def s2_def new_pte_def old_pte_def)
    note w = write_pte_ok [OF ok1 p1 refl T(1) s2_def]
    have go: "vmmngr_alloc_page a s = Some (ERROR_OK, s2)"
      using q t lo a(1,2,8) m by (simp add: vmmngr_alloc_page_def vmmngr_alloc_page_f_def vmmngr_get_directory_def ERROR_OK_def ERROR_OCCUR_def)
    have dir2: "tables s2 ?dir = tables s1 ?dir" using T(4) by (simp add: s2_def)
    have "tables s2 (pd_entry_get_frame (dirent s1 ?dir a)) = Some (T[unat (PAGE_TABLE_INDEX a) := ?v])" by (simp add: s2_def)
    then have old: "old_pte s2 ?dir a = ?v"
      using w(2) [of a] p1 T(2) page_indices_lt(2) [of a] unfolding old_pte_def [of s2] by simp
    have fr: "fr = pt_entry_get_frame (old_pte s2 ?dir a)" using new_pte_ok(1) [OF a(3) f] old by simp
    have nt: "\<not> table_block s2 ?dir fr"
      using table_block_regions [OF ok, of fr] a(6,7) dir2 by (auto simp: table_block_def)
    have tr: "translate s2 ?dir x = translate s ?dir x" if "\<not> same_page x a" for x
      using w(3) [of x] that walk by (simp add: translate_def)
    show thesis
      by (rule that [OF go w(1) _ a(6) _ fr nt tr]) (use a(5,9) w(2) d1 in \<open>simp_all add: s2_def\<close>)
  next
    assume "out_of_memory s"
    then show thesis using mem by simp
  qed
qed

subsection \<open>Borrowing\<close>

definition buffers_ready :: "'a files_scheme \<Rightarrow> bool" where
  "buffers_ready s \<longleftrightarrow> region_ok s \<and> (\<exists>b < nbuf s - 1. \<not> reserved b s) \<and> \<not> out_of_memory s \<and>
     (\<forall>b < nbuf s - 1. pd_entry_is_present (dirent s (current_directory s) (buffer_addr b s)) \<and>
        (\<not> reserved b s \<longrightarrow> translate s (current_directory s) (buffer_addr b s) = None))"

definition lent :: "nat \<Rightarrow> 'a files_scheme \<Rightarrow> 'a files_scheme \<Rightarrow> bool" where
  \<comment> \<open>State \<open>s'\<close> is \<open>s\<close> with buffer \<open>b\<close> reserved and mapped.\<close>
  "lent b s s' \<longleftrightarrow> b < nbuf s - 1 \<and> \<not> reserved b s \<and> rest_same (s\<lparr>bytes_at := (bytes_at s)(alloced_bitmap s + of_nat b := 1)\<rparr>) s' \<and>
     vm_ok (current_directory s) s' \<and> mmngr_max_blocks s' = mmngr_max_blocks s \<and>
     (\<forall>w. dirent s' (current_directory s) w = dirent s (current_directory s) w) \<and>
     (\<forall>w. \<not> same_page w (buffer_addr b s) \<longrightarrow> translate s' (current_directory s) w = translate s (current_directory s) w) \<and>
     (\<exists>fr. block_regions s' = insert (unat fr, 4096) (block_regions s) \<and> (unat fr, 4096) \<notin> block_regions s \<and>
        fr = pt_entry_get_frame (old_pte s' (current_directory s) (buffer_addr b s)) \<and> \<not> table_block s' (current_directory s) fr)"

lemma borrow_buffer:
  assumes "buffers_ready s"
  obtains b s' where "page_cache_reserve_anonymous s = Some (buffer_addr b s, s')" "lent b s s'" "region_ok s'" "buffer_addr b s \<noteq> 0"
proof -
  have r: "region_ok s" and "\<exists>b < nbuf s - 1. \<not> reserved b s" and mem: "\<not> out_of_memory s"
    and pages: "\<And>b. b < nbuf s - 1 \<Longrightarrow> pd_entry_is_present (dirent s (current_directory s) (buffer_addr b s))"
      "\<And>b. b < nbuf s - 1 \<Longrightarrow> \<not> reserved b s \<Longrightarrow> translate s (current_directory s) (buffer_addr b s) = None"
    using assms by (auto simp: buffers_ready_def)
  then obtain b where b: "page_cache_index_free_buffer s = of_nat b" "b < nbuf s - 1" "\<not> reserved b s"
    by (rule_tac free_buffer_ok [OF r]) auto
  have bn: "b < nbuf s" using b(2) by simp
  note a = buffer_addr_ok [OF r bn]
  let ?s = "s\<lparr>bytes_at := (bytes_at s)(alloced_bitmap s + of_nat b := 1)\<rparr>"
  have r1: "region_ok ?s" by (rule region_ok_reserve [OF r b(2)])
  have vm: "vm_ok (current_directory ?s) ?s" using r1 by (simp add: region_ok_def)
  obtain fr s' where al: "vmmngr_alloc_page (buffer_addr b s) ?s = Some (ERROR_OK, s')" "vm_ok (current_directory ?s) s'"
    "block_regions s' = insert (unat fr, 4096) (block_regions ?s)" "(unat fr, 4096) \<notin> block_regions ?s"
    "\<And>w. dirent s' (current_directory ?s) w = dirent ?s (current_directory ?s) w"
    "fr = pt_entry_get_frame (old_pte s' (current_directory ?s) (buffer_addr b s))" "\<not> table_block s' (current_directory ?s) fr"
    "\<And>w. \<not> same_page w (buffer_addr b s) \<Longrightarrow> translate s' (current_directory ?s) w = translate ?s (current_directory ?s) w"
    "mmngr_max_blocks s' = mmngr_max_blocks ?s"
    by (rule alloc_page_into_table [OF vm, where a = "buffer_addr b s"]) (use a(3) pages b mem in simp_all)
  have rs: "rest_same ?s s'" by (rule rest_same_alloc_page [OF al(1)])
  have r2: "region_ok s'" by (rule region_ok_rest [OF r1 rs]) (use al(2) in simp)
  have nn: "\<not> page_cache_num_buffers s \<le> of_nat b" using bn a(7) by (simp add: word_le_nat_alt nbuf_def)
  have addr: "page_cache_addr_by_index (of_nat b) ?s = buffer_addr b s" by (simp add: page_cache_addr_by_index_def buffer_addr_def)
  have run: "page_cache_reserve_anonymous s = Some (buffer_addr b s, s')"
    using b(1) nn addr al(1) by (simp add: page_cache_reserve_anonymous_def page_cache_index_reserve_buffer_def)
  have br: "block_regions ?s = block_regions s" by (simp add: block_regions_def)
  have "lent b s s'" unfolding lent_def using b rs al br by (intro conjI exI [of _ fr]) simp_all
  then show thesis using that run r2 a(4) by blast
qed

lemma aligned_frame: "x AND mask 12 = 0 \<Longrightarrow> x AND 0xFFFFF000 = x" for x :: u32
proof -
  assume "x AND mask 12 = 0"
  then have "\<not> bit (x AND mask 12) i" for i by simp
  then have "x AND NOT (mask 12) = x" by (intro bit_word_eqI) (auto simp: bit_simps)
  then show "x AND 0xFFFFF000 = x" unfolding frame_mask(1) .
qed

lemma buffer_pages:
  assumes r: "region_ok s" and b: "b < nbuf s" and c: "c < nbuf s"
  shows "same_page (buffer_addr c s) (buffer_addr b s) \<longleftrightarrow> c = b"
proof
  assume "same_page (buffer_addr c s) (buffer_addr b s)"
  then have "unat (buffer_addr c s) = unat (buffer_addr b s)"
    using buffer_addr_ok(2) [OF r b] buffer_addr_ok(2) [OF r c] by (simp add: same_page_def aligned_frame)
  then show "c = b" using buffer_addr_ok(1) [OF r b] buffer_addr_ok(1) [OF r c] by simp
qed (simp add: same_page_def)

lemma give_back_buffer:
  assumes ready: "buffers_ready s" and l: "lent b s s'" and m: "\<And>a. cell_of a s \<noteq> b \<Longrightarrow> m a = bytes_at s' a"
    and r': "region_ok s'"
  obtains t where "page_cache_release_anonymous (buffer_addr b s) (s'\<lparr>bytes_at := m\<rparr>) = Some t" "buffers_ready t"
    "rest_same (s\<lparr>bytes_at := m(alloced_bitmap s + of_nat b := 0)\<rparr>) t"
proof -
  let ?dir = "current_directory s" and ?a = "buffer_addr b s"
  have r: "region_ok s" and ex: "\<exists>b < nbuf s - 1. \<not> reserved b s" and mem: "\<not> out_of_memory s"
    and pages: "\<And>b. b < nbuf s - 1 \<Longrightarrow> pd_entry_is_present (dirent s ?dir (buffer_addr b s))"
      "\<And>b. b < nbuf s - 1 \<Longrightarrow> \<not> reserved b s \<Longrightarrow> translate s ?dir (buffer_addr b s) = None"
    using ready by (auto simp: buffers_ready_def)
  have b: "b < nbuf s - 1" "\<not> reserved b s"
    and rs: "rest_same (s\<lparr>bytes_at := (bytes_at s)(alloced_bitmap s + of_nat b := 1)\<rparr>) s'" using l by (simp_all add: lent_def)
  then have bn: "b < nbuf s" by simp
  obtain fr where fr: "block_regions s' = insert (unat fr, 4096) (block_regions s)" "(unat fr, 4096) \<notin> block_regions s"
    "fr = pt_entry_get_frame (old_pte s' ?dir ?a)" "\<not> table_block s' ?dir fr" using l unfolding lent_def by blast
  note f = rest_same_fields [OF rs, simplified]
  note a = buffer_addr_ok [OF r bn]
  have n: "nbuf s \<le> 4096" using r by (simp add: region_ok_def)
  have nb': "nbuf s' = nbuf s" using nbuf_rest [OF rs] by simp
  have cd: "current_directory s' = ?dir" using rs by (simp add: rest_same_def)
  have bit: "m (alloced_bitmap s + of_nat c) = bytes_at s' (alloced_bitmap s + of_nat c)" if "c < nbuf s" for c
    using m bitmap_cell [OF r that] b(1) by simp
  let ?m = "m(alloced_bitmap s + of_nat b := 0)"
  let ?s0 = "s'\<lparr>bytes_at := m\<rparr>" and ?s1 = "s'\<lparr>bytes_at := ?m\<rparr>"
  have "reserved (nbuf s - 1) ?s0 = reserved (nbuf s - 1) s'"
    using bit [of "nbuf s - 1"] bn f(6) by (simp add: reserved_def)
  then have r0: "region_ok ?s0"
    using r' nb' by (simp add: region_ok_def page_cache_get_last_def page_cache_num_buffers_def)
  have r1: "region_ok ?s1" using region_ok_reserve [OF r0, of b 0] b(1) nb' f(6) by simp
  have vm1: "vm_ok (current_directory ?s1) ?s1" using r1 by (simp add: region_ok_def)
  have same: "old_pte ?s1 = old_pte s'" "block_regions ?s1 = block_regions s'" "table_block ?s1 = table_block s'"
    by (simp_all add: old_pte_def dirent_def block_regions_def table_block_def fun_eq_iff)
  have l': "\<And>w. dirent s' ?dir w = dirent s ?dir w" "mmngr_max_blocks s' = mmngr_max_blocks s"
    "\<And>w. \<not> same_page w ?a \<Longrightarrow> translate s' ?dir w = translate s ?dir w" using l by (simp_all add: lent_def)
  have p1: "pd_entry_is_present (dirent ?s1 (current_directory ?s1) ?a)" using pages(1) [OF b(1)] l'(1) cd by simp
  have fr1: "fr = pt_entry_get_frame (old_pte ?s1 (current_directory ?s1) ?a)" using fr(3) cd same(1) by simp
  have in1: "(unat fr, 4096) \<in> block_regions ?s1" using fr(1) unfolding same(2) by simp
  have nt1: "\<not> table_block ?s1 (current_directory ?s1) fr" using fr(4) cd same(3) by simp
  obtain t where t: "vmmngr_free_page_addr ?a ?s1 = Some t" "vm_ok ?dir t" "current_directory t = ?dir"
    "block_regions t = block_regions s' - {(unat fr, 4096)}"
    "\<And>w. translate t ?dir w = (if same_page w ?a then None else translate s' ?dir w)"
    "\<And>w. dirent t ?dir w = dirent s' ?dir w" "mmngr_max_blocks t = mmngr_max_blocks s'"
    using free_page_addr_ok [OF vm1 p1 fr1 in1 nt1] cd same(2) by auto
  have idx: "page_cache_index_by_addr ?a ?s0 = of_nat b" using a(5) f(4) by (simp add: page_cache_index_by_addr_def)
  have nn: "\<not> page_cache_num_buffers ?s0 \<le> of_nat b"
    using bn a(7) nb' by (simp add: word_le_nat_alt nbuf_def page_cache_num_buffers_def)
  have run: "page_cache_release_anonymous ?a ?s0 = Some t"
    using t(1) idx nn f(6) by (simp add: page_cache_release_anonymous_def Let_def page_cache_index_release_buffer_def)
  have rt: "rest_same ?s1 t" by (rule rest_same_free_page_addr [OF t(1)])
  have rst: "rest_same (s\<lparr>bytes_at := ?m\<rparr>) t"
    using rs rt by (cases s; cases s'; cases t) (simp add: rest_same_def)
  have okt: "region_ok t" by (rule region_ok_rest [OF r1 rt]) (use t(2) cd in simp)
  have res: "reserved c t \<longleftrightarrow> reserved c s" if "c < nbuf s" for c
  proof -
    have lt: "c < 2 ^ 32" "b < 2 ^ 32" using that bn n by simp_all
    have "reserved c t = reserved c (s\<lparr>bytes_at := ?m\<rparr>)" by (rule reserved_rest [OF rst])
    also have "\<dots> \<longleftrightarrow> (if c = b then False else bytes_at s' (alloced_bitmap s + of_nat c) \<noteq> 0)"
      using bitmap_index [OF lt, of "alloced_bitmap s"] bit [OF that] by (simp add: reserved_def)
    also have "\<dots> \<longleftrightarrow> reserved c s" using b(2) bitmap_index [OF lt, of "alloced_bitmap s"] f(7) by (simp add: reserved_def)
    finally show ?thesis .
  qed
  have nbt: "nbuf t = nbuf s" using nbuf_rest [OF rst] by simp
  have adr: "buffer_addr c t = buffer_addr c s" for c using buffer_addr_rest [OF rst, of c] by (simp add: buffer_addr_def)
  have "block_regions t = block_regions s" using t(4) fr(1,2) by auto
  then have "\<not> out_of_memory t"
    using out_of_memory_blocks [of s t] mem t(2,7) l'(2) r by (simp add: vm_ok_def region_ok_def)
  moreover have "pd_entry_is_present (dirent t (current_directory t) (buffer_addr c t)) \<and>
      (\<not> reserved c t \<longrightarrow> translate t (current_directory t) (buffer_addr c t) = None)" if c: "c < nbuf t - 1" for c
  proof -
    have cn: "c < nbuf s - 1" "c < nbuf s" using c nbt by simp_all
    have "translate t ?dir (buffer_addr c s) = None" if "\<not> reserved c s"
      using t(5) l'(3) [of "buffer_addr c s"] pages(2) [OF cn(1) that] by simp
    then show ?thesis using pages(1) [OF cn(1)] t(3,6) l'(1) adr res [OF cn(2)] by simp
  qed
  moreover have "\<exists>c < nbuf t - 1. \<not> reserved c t" using b res [OF bn] nbt by auto
  ultimately have "buffers_ready t" using okt by (simp add: buffers_ready_def)
  then show thesis using that run rst by blast
qed

end
