(* ===== verification/Fat32_Facts.thy ===== *)
theory Fat32_Facts
  imports Fat32 Anon_Buffer
begin

text \<open>
  What the FAT32 driver does: names in their 8.3 form and back, the entry of the allocation table
  that following a chain reads, and the layout of a file as it is loaded.
\<close>

subsection \<open>Short names\<close>

lemma base_loop_prefix:
  assumes "46 \<notin> set cs" and "length cs \<le> k" and "length cs \<le> length ts" and "length pre + length cs \<le> len"
  shows "base_loop k (length pre) (pre @ cs @ r) len (pre @ ts) =
    base_loop (k - length cs) (length pre + length cs) (pre @ cs @ r) len (pre @ cs @ drop (length cs) ts)"
  using assms
proof (induction cs arbitrary: pre k ts)
  case (Cons c cs)
  obtain k' where k: "k = Suc k'" using Cons.prems by (cases k) auto
  obtain t ts' where ts: "ts = t # ts'" using Cons.prems by (cases ts) auto
  have "base_loop k (length pre) (pre @ (c # cs) @ r) len (pre @ ts) =
    base_loop k' (length (pre @ [c])) ((pre @ [c]) @ cs @ r) len ((pre @ [c]) @ ts')"
    using Cons.prems by (simp add: k ts nth_append)
  also have "\<dots> = base_loop (k' - length cs) (length (pre @ [c]) + length cs) ((pre @ [c]) @ cs @ r) len ((pre @ [c]) @ cs @ drop (length cs) ts')"
    by (rule Cons.IH) (use Cons.prems k ts in auto)
  finally show ?case by (simp add: k ts)
qed simp

lemma ext_loop_all:
  assumes "length es \<le> k" and "length es \<le> length ts" and "length pre = dot + j + 1"
  shows "ext_loop k j (length bp) dot (pre @ es @ r) (length pre + length es) (bp @ ts) = Some (bp @ es @ drop (length es) ts)"
  using assms
proof (induction es arbitrary: pre bp k ts j)
  case Nil
  then show ?case by (cases k) simp_all
next
  case (Cons e es)
  obtain k' where k: "k = Suc k'" using Cons.prems by (cases k) auto
  obtain t ts' where ts: "ts = t # ts'" using Cons.prems by (cases ts) auto
  have "ext_loop k' (j + 1) (length (bp @ [e])) dot ((pre @ [e]) @ es @ r) (length (pre @ [e]) + length es) ((bp @ [e]) @ ts')
      = Some ((bp @ [e]) @ es @ drop (length es) ts')"
    by (rule Cons.IH) (use Cons.prems k ts in auto)
  then show ?case using Cons.prems by (simp add: k ts nth_append)
qed

lemma copy_nonspace_all:
  assumes "32 \<notin> set cs" and "length cs \<le> length ts"
  shows "copy_nonspace (cs @ replicate n 32) (length bp) (bp @ ts) = Some (length bp + length cs, bp @ cs @ drop (length cs) ts)"
  using assms
proof (induction cs arbitrary: bp ts)
  case Nil
  have "copy_nonspace (replicate n 32) k buf = Some (k, buf)" for k buf by (induction n) simp_all
  then show ?case by simp
next
  case (Cons c cs)
  obtain t ts' where ts: "ts = t # ts'" using Cons.prems by (cases ts) auto
  have "copy_nonspace (cs @ replicate n 32) (length (bp @ [c])) ((bp @ [c]) @ ts') =
    Some (length (bp @ [c]) + length cs, (bp @ [c]) @ cs @ drop (length cs) ts')"
    by (rule Cons.IH) (use Cons.prems ts in auto)
  then show ?case using Cons.prems by (simp add: ts)
qed

lemma generate_short_name_ok:
  assumes name: "vn_name n = b @ 46 # x @ 0 # rest" "unat (vn_name_length n) = length b + 1 + length x"
    and b: "46 \<notin> set b" "0 < length b" "length b \<le> 8" and x: "length x \<le> 3" and buf: "11 \<le> length buf"
  shows "fat_fs_generate_short_name n buf = Some (b @ replicate (8 - length b) 32 @
    (if length b = 8 then replicate 3 32 else x @ replicate (3 - length x) 32) @ drop 11 buf)"
proof -
  let ?len = "length b + 1 + length x" and ?ts = "replicate 11 32 @ drop 11 buf"
  have small: "\<not> vn_name_length n > 12" using name(2) b x by (simp add: word_less_nat_alt)
  have "base_loop 8 0 (vn_name n) ?len ?ts = base_loop (8 - length b) (length b) (vn_name n) ?len (b @ drop (length b) ?ts)"
    using base_loop_prefix [where pre = "[]" and cs = b and k = 8 and ts = ?ts and len = ?len and r = "46 # x @ 0 # rest"] b
    by (simp add: name(1))
  also have "\<dots> = Some (8, if length b = 8 then 0 else length b, b @ replicate (8 - length b) 32 @ drop 8 ?ts)"
  proof (cases "length b = 8")
    case False
    then obtain k where "8 - length b = Suc k" using b by (cases "8 - length b") auto
    then show ?thesis using b False by (simp add: name(1) nth_append)
  qed simp
  finally have base: "base_loop 8 0 (vn_name n) ?len ?ts = \<dots>" .
  have ts: "drop 8 ?ts = replicate 3 32 @ drop 11 buf" by (simp add: eval_nat_numeral)
  have "ext_loop 3 0 8 (length b) (vn_name n) ?len (b @ replicate (8 - length b) 32 @ drop 8 ?ts) =
    Some (b @ replicate (8 - length b) 32 @ x @ replicate (3 - length x) 32 @ drop 11 buf)"
    using ext_loop_all [where es = x and k = 3 and pre = "b @ [46]" and dot = "length b" and j = 0 and r = "0 # rest"
        and bp = "b @ replicate (8 - length b) 32" and ts = "drop 8 ?ts"] x b
    by (simp add: name(1) ts)
  then show ?thesis using small base b by (simp add: fat_fs_generate_short_name_def name(2) ts)
qed

lemma retrieve_short_name_ok:
  assumes b: "32 \<notin> set b" "length b \<le> 8" and x: "32 \<notin> set x" "length x \<le> 3"
  shows "\<exists>r. fat_fs_retrieve_short_name (b @ replicate p 32) (x @ replicate q 32) (replicate 13 0) = Some r \<and>
    r = b @ (if x = [] then [] else 46 # x) @ replicate (13 - length b - (if x = [] then 0 else Suc (length x))) 0"
proof -
  have buf: "(replicate 13 0)[12 := 0 :: u8] = replicate 13 0" by (simp add: list_update_same_conv)
  have "copy_nonspace (b @ replicate p 32) 0 ((replicate 13 0)[12 := 0]) = Some (length b, b @ replicate (13 - length b) 0)"
    using copy_nonspace_all [where cs = b and n = p and bp = "[]" and ts = "replicate 13 0"] b unfolding buf by simp
  moreover obtain m where m: "13 - length b = Suc m" using b by (cases "13 - length b") auto
  moreover have "copy_nonspace (x @ replicate q 32) (Suc (length b)) (b @ 46 # replicate m 0) =
    Some (Suc (length b) + length x, b @ 46 # x @ replicate (m - length x) 0)"
    using copy_nonspace_all [where cs = x and n = q and bp = "b @ [46]" and ts = "replicate m 0"] b x m by simp
  ultimately show ?thesis by (auto simp: fat_fs_retrieve_short_name_def)
qed

text \<open>
  A name of at most eight and three characters, made into the padded 11 bytes of a directory
  entry and read back from there, is the name again when its base has at most seven characters.
  With a base of eight the search for the dot stops before the dot, so the extension is lost: what is
  read back is the base alone.
\<close>

theorem short_name_roundtrip:
  assumes name: "vn_name n = b @ 46 # x @ 0 # rest" "unat (vn_name_length n) = length b + 1 + length x"
    and b: "46 \<notin> set b" "32 \<notin> set b" "0 \<notin> set b" "0 < length b" "length b \<le> 8"
    and x: "32 \<notin> set x" "0 \<notin> set x" "0 < length x" "length x \<le> 3" and buf: "11 \<le> length buf"
  shows "\<exists>e r. fat_fs_generate_short_name n buf = Some e \<and>
    fat_fs_retrieve_short_name (take 8 e) (take 3 (drop 8 e)) (replicate 13 0) = Some r \<and>
    cstr r (if length b = 8 then b else b @ 46 # x)"
proof -
  let ?x = "if length b = 8 then [] else x"
  let ?q = "if length b = 8 then 3 else 3 - length x"
  let ?e = "b @ replicate (8 - length b) 32 @ (?x @ replicate ?q 32) @ drop 11 buf"
  have g: "fat_fs_generate_short_name n buf = Some ?e"
    using generate_short_name_ok [OF name b(1,4,5) x(4) buf] by (simp split: if_splits)
  have t: "take 8 ?e = b @ replicate (8 - length b) 32" "take 3 (drop 8 ?e) = ?x @ replicate ?q 32"
    using b(5) x(4) by simp_all
  obtain r where r: "fat_fs_retrieve_short_name (take 8 ?e) (take 3 (drop 8 ?e)) (replicate 13 0) = Some r"
    "r = b @ (if ?x = [] then [] else 46 # ?x) @ replicate (13 - length b - (if ?x = [] then 0 else Suc (length ?x))) 0"
    using retrieve_short_name_ok [where b = b and x = ?x and p = "8 - length b" and q = ?q] b x unfolding t by auto
  obtain m where "13 - length b - (if ?x = [] then 0 else Suc (length ?x)) = Suc m"
    using b(5) x(4) by (cases "13 - length b - (if ?x = [] then 0 else Suc (length ?x))") (auto split: if_splits)
  then have "cstr r (if length b = 8 then b else b @ 46 # x)" using r(2) b x by (auto simp: cstr_def)
  then show ?thesis using g r(1) by blast
qed

lemma short_name_roundtrip_witness:
  "\<exists>n e r. vn_name n = [97, 46, 116, 0] \<and> fat_fs_generate_short_name n (replicate 12 0) = Some e \<and>
    fat_fs_retrieve_short_name (take 8 e) (take 3 (drop 8 e)) (replicate 13 0) = Some r \<and> cstr r [97, 46, 116]"
proof -
  let ?n = "\<lparr>vn_name = [97, 46, 116, 0], vn_name_length = 3, vn_attributes = VFS_FILE, vn_capabilities = 0, vn_file_length = 0,
    vn_tag = 0, vn_parent = 0, vn_fs_ops = 0, vn_children = \<lparr>l_head = 0, l_tail = 0, l_count = 0\<rparr>\<rparr>"
  show ?thesis
    using short_name_roundtrip [where n = ?n and b = "[97]" and x = "[116]" and rest = "[]" and buf = "replicate 12 0"]
    by (intro exI [of _ ?n]) simp
qed

subsection \<open>Reading the allocation table\<close>

definition disk_region :: "(u32 \<Rightarrow> bytes) \<Rightarrow> u32 \<Rightarrow> bytes" where
  \<comment> \<open>Eight consecutive sectors.\<close>
  "disk_region disk lba = concat (map (\<lambda>k. disk (lba + of_nat k)) [0..<8])"

definition word_in :: "bytes \<Rightarrow> nat \<Rightarrow> u32" where
  "word_in bs i = (ucast (bs ! i) OR push_bit 8 (ucast (bs ! (i + 1)))) OR
     (push_bit 16 (ucast (bs ! (i + 2))) OR push_bit 24 (ucast (bs ! (i + 3))))"

definition table_entry :: "(u32 \<Rightarrow> bytes) \<Rightarrow> u32 \<Rightarrow> u32 \<Rightarrow> u32" where
  \<comment> \<open>Entry \<open>c\<close> of the allocation table that starts at a sector: 128 entries to a sector, the top four bits are not part of it.\<close>
  "table_entry disk fat_lba c = word_in (disk (fat_lba + c div 128)) (4 * unat (c mod 128)) AND 0x0FFFFFFF"

definition reads_disk :: "'s fs_calls \<Rightarrow> ptr \<Rightarrow> ptr \<Rightarrow> (u32 \<Rightarrow> bytes) \<Rightarrow> ('s \<Rightarrow> virtual_addr \<Rightarrow> bytes \<Rightarrow> 's) \<Rightarrow> bool" where
  \<comment> \<open>Reading eight sectors through a device's read operation delivers them and changes nothing else.\<close>
  "reads_disk calls op dev disk put \<longleftrightarrow> (\<forall>i. length (disk i) = 512) \<and>
     (\<forall>lba a s. call_read calls op 0 dev lba 8 a s = Some (8, put s a (disk_region disk lba)))"

definition put_bytes_at :: "'a fat_scheme \<Rightarrow> virtual_addr \<Rightarrow> bytes \<Rightarrow> 'a fat_scheme" where
  "put_bytes_at s a cs = s\<lparr>bytes_at := store a cs (bytes_at s)\<rparr>"

definition mounted :: "'a fat_scheme \<Rightarrow> ptr \<Rightarrow> ptr \<Rightarrow> ptr \<Rightarrow> fat_mount_data \<Rightarrow> bool" where
  \<comment> \<open>\<open>mp\<close> is a mount point on device \<open>dev\<close>, whose read operation is \<open>op\<close>.\<close>
  "mounted s mp dev op md \<longleftrightarrow> mp \<noteq> 0 \<and> dev \<noteq> 0 \<and> fat_mounts s mp = Some md \<and> map_option fs_read (node_ops dev s) = Some op \<and>
     (\<exists>n. vnodes s mp = Some n \<and> vn_attributes n AND 7 = VFS_MOUNT_PT \<and> vn_tag n = dev)"

lemma concat_equal_nth:
  assumes "\<forall>ys \<in> set xss. length ys = n" and "q < length xss" and "i < n"
  shows "concat xss ! (n * q + i) = xss ! q ! i"
  using assms
proof (induction xss arbitrary: q)
  case (Cons ys xss)
  then show ?case by (cases q) (simp_all add: nth_append add.assoc)
qed simp

lemma disk_region_nth:
  assumes "\<forall>i. length (disk i) = 512" and "q < 8" and "i < 512"
  shows "disk_region disk lba ! (512 * q + i) = disk (lba + of_nat q) ! i" and "length (disk_region disk lba) = 4096"
proof -
  show "disk_region disk lba ! (512 * q + i) = disk (lba + of_nat q) ! i"
    unfolding disk_region_def by (subst concat_equal_nth [where n = 512]) (use assms in auto)
  show "length (disk_region disk lba) = 4096"
    using assms(1) by (simp add: disk_region_def length_concat comp_def sum_list_triv)
qed

lemma read_stored_word:
  assumes cs: "length cs = 4096" and c: "c < 1024"
  shows "read32 (store a cs m) (a + 4 * c) = word_in cs (4 * unat c)"
proof -
  have u: "unat c < 1024" using c by (simp add: word_less_nat_alt)
  then have "unat (4 * c + of_nat j) = 4 * unat c + j" if "j < 4" for j
    using that by (simp add: unat_word_ariths unat_of_nat_u32)
  note w = this [of 0] this [of 1] this [of 2] this [of 3]
  have "store a cs m (a + 4 * c + of_nat j) = cs ! (4 * unat c + j)" if "j < 4" for j
  proof -
    have "unat (a + 4 * c + of_nat j - a) = 4 * unat c + j" using \<open>j < 4 \<Longrightarrow> unat (4 * c + of_nat j) = 4 * unat c + j\<close> that by (simp add: add.assoc)
    then show ?thesis using u that cs by (subst store_at) simp_all
  qed
  note s = this [of 0] this [of 1] this [of 2] this [of 3]
  show ?thesis unfolding read32_def word_in_def using s by (simp add: add.assoc)
qed

lemma region_word:
  assumes d: "\<forall>i. length (disk i) = 512" and c: "c < 1024"
  shows "word_in (disk_region disk (lba + c div 128)) (4 * unat c) AND 0x0FFFFFFF = table_entry disk lba (c + 128 * (c div 128))"
proof -
  let ?q = "unat c div 128" and ?r = "unat c mod 128" and ?e = "c + 128 * (c div 128)"
  have u: "unat c < 1024" using c by (simp add: word_less_nat_alt)
  have q: "?q < 8" using u by simp
  have ud: "unat (c div 128) = ?q" by (simp add: unat_div)
  have ue: "unat ?e = unat c + 128 * ?q" using u q ud by (simp add: unat_word_ariths)
  have eq: "unat ?e = 128 * (2 * ?q) + ?r" unfolding ue by simp
  have "(128 * k + r) div 128 = k" "(128 * k + r) mod 128 = r" if "r < 128" for k r :: nat
    using that by simp_all
  from this [of ?r "2 * ?q"] have "unat ?e div 128 = 2 * ?q" "unat ?e mod 128 = ?r" unfolding eq by simp_all
  then have e: "?e div 128 = c div 128 + of_nat ?q" "unat (?e mod 128) = ?r"
    using q ud by (simp_all add: word_unat_eq_iff unat_div unat_mod unat_word_ariths unat_of_nat_u32)
  have byte: "disk_region disk (lba + c div 128) ! (4 * unat c + j) = disk (lba + ?e div 128) ! (4 * ?r + j)" if "j < 4" for j
  proof -
    have "unat c = 128 * ?q + ?r" by simp
    then have "4 * unat c + j = 512 * ?q + (4 * ?r + j)" by linarith
    moreover have "4 * ?r + j < 512" using that by simp
    ultimately show ?thesis using disk_region_nth(1) [OF d q, of "4 * ?r + j"] e(1) by (simp add: add.assoc)
  qed
  show ?thesis
    using byte [of 0] byte [of 1] byte [of 2] byte [of 3] by (simp add: table_entry_def word_in_def e(2))
qed

lemma rest_same_fat:
  assumes "rest_same s s'"
  shows "fat_nodes s' = fat_nodes s" "fat_mounts s' = fat_mounts s" "bytes_at s' = bytes_at s" "vnodes s' = vnodes s" "fops s' = fops s"
  using assms by (cases s; cases s'; auto simp: rest_same_def)+

lemma mounted_same:
  assumes "mounted s mp dev op md" and "fat_mounts s' = fat_mounts s" and "vnodes s' = vnodes s" and "fops s' = fops s"
  shows "mounted s' mp dev op md"
  using assms by (simp add: mounted_def node_ops_def)

lemma read_by_lba_ok:
  assumes "mounted s mp dev op md" and "reads_disk calls op dev disk put"
  shows "fat_fs_read_by_lba calls mp lba a s = Some (True, put s a (disk_region disk lba))"
  using assms by (auto simp: mounted_def reads_disk_def fat_fs_read_by_lba_def vfs_read_file_def)

lemma find_next_ok:
  assumes ready: "buffers_ready s" and mnt: "mounted s mp dev op md" and rd: "reads_disk calls op dev disk put_bytes_at" and c: "c < 1024"
  obtains t where "fat_fs_find_next_cluster calls mp c s = Some (table_entry disk (fm_fat_lba md) (c + 128 * (c div 128)), t)"
    "buffers_ready t" "fat_nodes t = fat_nodes s" "fat_mounts t = fat_mounts s" "vnodes t = vnodes s" "fops t = fops s"
proof -
  have d: "\<forall>i. length (disk i) = 512" using rd by (simp add: reads_disk_def)
  obtain b s' where b: "page_cache_reserve_anonymous s = Some (buffer_addr b s, s')" "lent b s s'" "region_ok s'" "buffer_addr b s \<noteq> 0"
    by (rule borrow_buffer [OF ready])
  let ?a = "buffer_addr b s" and ?cs = "disk_region disk (fm_fat_lba md + c div 128)"
  let ?m = "store ?a ?cs (bytes_at s')"
  have r: "region_ok s" using ready by (simp add: buffers_ready_def)
  have bn: "b < nbuf s" and rs: "rest_same (s\<lparr>bytes_at := (bytes_at s)(alloced_bitmap s + of_nat b := 1)\<rparr>) s'" using b(2) by (auto simp: lent_def)
  have len: "length ?cs = 4096" using disk_region_nth(2) [OF d, of 0 0] by simp
  note f = rest_same_fat [OF rs, simplified]
  have mnt': "mounted s' mp dev op md" by (rule mounted_same [OF mnt]) (use f in simp_all)
  have md: "fat_mounts s' mp = Some md" using mnt' by (simp add: mounted_def)
  have out: "?m x = bytes_at s' x" if "cell_of x s \<noteq> b" for x
    using that in_buffer [OF r bn, of x] len by (simp add: store_at)
  obtain t where t: "page_cache_release_anonymous ?a (s'\<lparr>bytes_at := ?m\<rparr>) = Some t" "buffers_ready t"
    "rest_same (s\<lparr>bytes_at := ?m(alloced_bitmap s + of_nat b := 0)\<rparr>) t"
    by (rule give_back_buffer [OF ready b(2) out b(3)])
  have v: "fat_fs_read_fat_value ?a c (s'\<lparr>bytes_at := ?m\<rparr>) = table_entry disk (fm_fat_lba md) (c + 128 * (c div 128))"
    using read_stored_word [OF len c] region_word [OF d c] by (simp add: fat_fs_read_fat_value_def)
  have run: "fat_fs_find_next_cluster calls mp c s = Some (table_entry disk (fm_fat_lba md) (c + 128 * (c div 128)), t)"
    using b(1,4) md read_by_lba_ok [OF mnt' rd] v t(1) by (simp add: fat_fs_find_next_cluster_def put_bytes_at_def)
  show thesis by (rule that [OF run t(2)]) (use rest_same_fat [OF t(3)] in simp_all)
qed

text \<open>
  Following a chain through the allocation table, when a buffer is free and the disk can be read:
  the buffer is given back, nothing but the contents of free buffers changes, and the value returned
  is, for a cluster \<open>c\<close> below 1024, entry \<open>c + 128 * (c div 128)\<close> of the table. This is entry \<open>c\<close> only
  below 128: the sector is chosen by \<open>c\<close>, but the index into what was read is not reduced.
\<close>

theorem next_cluster_reads_wrong_entry:
  assumes ready: "buffers_ready s" and mnt: "mounted s mp dev op md" and rd: "reads_disk calls op dev disk put_bytes_at" and c: "c < 1024"
  shows "\<exists>t. fat_fs_find_next_cluster calls mp c s = Some (table_entry disk (fm_fat_lba md) (c + 128 * (c div 128)), t) \<and>
    buffers_ready t \<and> fat_nodes t = fat_nodes s \<and> fat_mounts t = fat_mounts s \<and> vnodes t = vnodes s \<and> fops t = fops s \<and>
    (c < 128 \<longrightarrow> c + 128 * (c div 128) = c)"
proof -
  have "c div 128 = 0" if "c < 128" using that by (simp add: word_unat_eq_iff unat_div word_less_nat_alt)
  moreover obtain t where "fat_fs_find_next_cluster calls mp c s = Some (table_entry disk (fm_fat_lba md) (c + 128 * (c div 128)), t)"
    "buffers_ready t" "fat_nodes t = fat_nodes s" "fat_mounts t = fat_mounts s" "vnodes t = vnodes s" "fops t = fops s"
    by (rule find_next_ok [OF assms])
  ultimately show ?thesis by (intro exI [of _ t]) simp
qed

subsection \<open>The layout of a file\<close>

fun chain_of :: "(u32 \<Rightarrow> u32) \<Rightarrow> u32 list \<Rightarrow> bool" where
  \<comment> \<open>The clusters of a file in order, linked by the table \<open>nx\<close>.\<close>
  "chain_of nx [] \<longleftrightarrow> False"
| "chain_of nx [c] \<longleftrightarrow> FAT_EOF \<le> nx c"
| "chain_of nx (c # d # cs) \<longleftrightarrow> nx c = d \<and> d < FAT_EOF \<and> chain_of nx (d # cs)"

definition laid_out :: "'a fat_scheme \<Rightarrow> ptr \<Rightarrow> ptr \<Rightarrow> bool \<Rightarrow> u32 list \<Rightarrow> bool" where
  \<comment> \<open>\<open>node\<close> is a file of mount point \<open>mp\<close> whose layout lists these clusters.\<close>
  "laid_out s node mp loaded cs \<longleftrightarrow> (\<exists>n d. vnodes s node = Some n \<and> vn_tag n = mp \<and> fat_nodes s node = Some d \<and>
     vec_rep (fn_layout d) cs \<and> fn_layout_loaded d = loaded)"

lemma buffers_ready_fat [simp]: "buffers_ready (s\<lparr>fat_nodes := x\<rparr>) = buffers_ready s"
  by (simp add: buffers_ready_def region_ok_def nbuf_def reserved_def page_cache_num_buffers_def page_cache_get_last_def
      vm_ok_def dir_ok_def table_at_def pmm_ok_def block_regions_def buffer_addr_def dirent_def translate_def page_walk_def
      out_of_memory_def usable_blocks_def cong: Option.bind_cong if_cong)

lemma mounted_fat [simp]: "mounted (s\<lparr>fat_nodes := x\<rparr>) mp dev op md = mounted s mp dev op md"
  by (simp add: mounted_def node_ops_def)

lemma load_layout_step:
  assumes rd: "reads_disk (fe_calls env) op dev disk put_bytes_at" and g: "fe_granted env"
    and ready: "buffers_ready s" and mnt: "mounted s mp dev op md" and lay: "laid_out s node mp loaded (ps @ [c])"
    and c: "c < 128" and lim: "length ps + 1 < 2 ^ 31"
  shows "\<exists>t. (let x = table_entry disk (fm_fat_lba md) c in
      if FAT_EOF \<le> x then load_layout_loop env node s = Some (ERROR_OK, t) \<and> laid_out t node mp loaded (ps @ [c])
      else load_layout_loop env node s = load_layout_loop env node t \<and> laid_out t node mp loaded ((ps @ [c]) @ [x])) \<and>
    buffers_ready t \<and> mounted t mp dev op md \<and> vnodes t = vnodes s \<and> fops t = fops s \<and> fat_mounts t = fat_mounts s"
proof -
  let ?x = "table_entry disk (fm_fat_lba md) c"
  obtain n d where n: "vnodes s node = Some n" "vn_tag n = mp" "fat_nodes s node = Some d" "vec_rep (fn_layout d) (ps @ [c])"
    "fn_layout_loaded d = loaded" using lay by (auto simp: laid_out_def)
  have "unat (v_count (fn_layout d)) = Suc (length ps)" using n(4) by (simp add: vec_rep_def)
  then have "unat (v_count (fn_layout d) - 1) = length ps" by (subst unat_minus_one) auto
  then have last: "vector_at (fn_layout d) (v_count (fn_layout d) - 1) = Some c"
    using vec_get_rep [OF n(4), of "v_count (fn_layout d) - 1"] by (simp add: vector_at_def)
  have "c div 128 = 0" using c by (simp add: word_unat_eq_iff unat_div word_less_nat_alt)
  then have e: "c + 128 * (c div 128) = c" by simp
  have "c < 1024" using c by (simp add: word_less_nat_alt)
  from find_next_ok [OF ready mnt rd this] e
  obtain t where t: "fat_fs_find_next_cluster (fe_calls env) mp c s = Some (?x, t)"
    "buffers_ready t" "fat_nodes t = fat_nodes s" "fat_mounts t = fat_mounts s" "vnodes t = vnodes s" "fops t = fops s" by metis
  have mt: "mounted t mp dev op md" by (rule mounted_same [OF mnt t(4,5,6)])
  have lay_t: "layout_of node t = Some (fn_layout d)" "layout_of node s = Some (fn_layout d)" using n(3) t(3) by (simp_all add: layout_of_def)
  show ?thesis
  proof (cases "FAT_EOF \<le> ?x")
    case True
    have "load_layout_loop env node s = Some (ERROR_OK, t)"
      using n(1,2) lay_t(2) last t(1) True by (subst load_layout_loop.simps) simp
    moreover have "laid_out t node mp loaded (ps @ [c])" using lay t(3,5) by (simp add: laid_out_def)
    ultimately show ?thesis using True t mt by (intro exI [of _ t]) simp
  next
    case False
    have "length (ps @ [c]) < 2 ^ 31" using lim by simp
    from vector_insert_back_ok [OF n(4) this, of ?x]
    obtain v where v: "vector_insert_back True ?x (fn_layout d) = Some (ERROR_OK, v)" "vec_rep v ((ps @ [c]) @ [?x])" by blast
    let ?t = "t\<lparr>fat_nodes := (fat_nodes t)(node \<mapsto> d\<lparr>fn_layout := v\<rparr>)\<rparr>"
    have "load_layout_loop env node s = load_layout_loop env node ?t"
      using n(1,2,3) lay_t last t(1,3) False v(1) g by (subst load_layout_loop.simps) (simp add: put_layout_def)
    moreover have "laid_out ?t node mp loaded ((ps @ [c]) @ [?x])" using n v(2) t(5) by (simp add: laid_out_def)
    ultimately show ?thesis using False t mt by (intro exI [of _ ?t]) simp
  qed
qed

lemma load_layout_loop_ok:
  assumes rd: "reads_disk (fe_calls env) op dev disk put_bytes_at" and g: "fe_granted env"
  shows "buffers_ready s \<Longrightarrow> mounted s mp dev op md \<Longrightarrow> laid_out s node mp loaded (ps @ [c]) \<Longrightarrow>
    chain_of (table_entry disk (fm_fat_lba md)) (c # cs) \<Longrightarrow> \<forall>x \<in> set (c # cs). x < 128 \<Longrightarrow> length ps + length cs + 1 < 2 ^ 31 \<Longrightarrow>
    \<exists>t. load_layout_loop env node s = Some (ERROR_OK, t) \<and> buffers_ready t \<and> mounted t mp dev op md \<and>
      laid_out t node mp loaded (ps @ c # cs) \<and> vnodes t = vnodes s \<and> fops t = fops s \<and> fat_mounts t = fat_mounts s"
proof (induction cs arbitrary: s ps c)
  case (Nil s ps c)
  note st = load_layout_step [OF rd g Nil.prems(1,2,3)]
  obtain t where t: "load_layout_loop env node s = Some (ERROR_OK, t)" "buffers_ready t" "mounted t mp dev op md"
    "laid_out t node mp loaded (ps @ [c])" "vnodes t = vnodes s" "fops t = fops s" "fat_mounts t = fat_mounts s"
    using st Nil.prems(4,5,6) by (auto split: if_splits)
  then show ?case by (intro exI [of _ t]) simp
next
  case (Cons c' cs s ps c)
  have nx: "table_entry disk (fm_fat_lba md) c = c'" "c' < FAT_EOF" and ch: "chain_of (table_entry disk (fm_fat_lba md)) (c' # cs)"
    using Cons.prems(4) by simp_all
  have c: "c < 128" and lim: "length ps + 1 < 2 ^ 31" using Cons.prems(5,6) by simp_all
  have ne: "\<not> FAT_EOF \<le> c'" using nx(2) by simp
  from load_layout_step [OF rd g Cons.prems(1,2,3) c lim, unfolded Let_def nx(1) if_not_P [OF ne]]
  obtain t where st: "(load_layout_loop env node s = load_layout_loop env node t \<and> laid_out t node mp loaded ((ps @ [c]) @ [c'])) \<and>
    buffers_ready t \<and> mounted t mp dev op md \<and> vnodes t = vnodes s \<and> fops t = fops s \<and> fat_mounts t = fat_mounts s"
    by (rule exE)
  then have t: "load_layout_loop env node s = load_layout_loop env node t" "buffers_ready t" "mounted t mp dev op md"
    "laid_out t node mp loaded ((ps @ [c]) @ [c'])" "vnodes t = vnodes s" "fops t = fops s" "fat_mounts t = fat_mounts s"
    by blast+
  have "\<forall>x \<in> set (c' # cs). x < 128" "length (ps @ [c]) + length cs + 1 < 2 ^ 31" using Cons.prems(5,6) by simp_all
  from Cons.IH [OF t(2,3,4) ch this] show ?case unfolding t(1) using t(5,6,7) by simp
qed

text \<open>
  C18. Opening a file whose first cluster is known, on a volume where all of the file's clusters are
  below 128, loads its clusters in the order the allocation table links them; from then on a page of
  the file is read from its own cluster, and reading at or behind the end of the chain is refused
  with an error. The call comes back whatever the length of the chain and gives its buffer back.
  (From cluster 128 on the code looks the successor up in the wrong place.)
\<close>

theorem open_then_read:
  assumes "buffers_ready s" and mnt: "mounted s mp dev op md" and rd: "reads_disk (fe_calls env) op dev disk put_bytes_at"
    and g: "fe_granted env" and "laid_out s node mp False [c]" and "chain_of (table_entry disk (fm_fat_lba md)) (c # cs)"
    and "\<forall>x \<in> set (c # cs). x < 128" and lim: "length (c # cs) < 2 ^ 20"
  shows "\<exists>t. fat_fs_open env node caps s = Some (ERROR_OK, t) \<and> buffers_ready t \<and> laid_out t node mp True (c # cs) \<and>
    (\<forall>i < 2 ^ 20. \<forall>fd a. fat_fs_read (fe_calls env) fd node (of_nat i * 4096) 4096 a t =
       Some (if i < length (c # cs) then (4096, put_bytes_at t a (disk_region disk (fm_cluster_lba md + ((c # cs) ! i - 2) * 8)))
             else (INVALID_IO, set_last_error EINVAL FAT_BAD_LAYOUT EO_MASS_STORAGE_FS t)))"
proof -
  obtain n d where n: "vnodes s node = Some n" "vn_tag n = mp" "fat_nodes s node = Some d" "vec_rep (fn_layout d) [c]"
    "\<not> fn_layout_loaded d" using assms(5) by (auto simp: laid_out_def)
  let ?s = "s\<lparr>fat_nodes := (fat_nodes s)(node \<mapsto> d\<lparr>fn_layout_loaded := True\<rparr>)\<rparr>"
  have "laid_out ?s node mp True ([] @ [c])" using n by (simp add: laid_out_def)
  from load_layout_loop_ok [OF rd g _ _ this assms(6,7)] assms(1) mnt lim
  obtain t where t: "load_layout_loop env node ?s = Some (ERROR_OK, t)" "buffers_ready t" "mounted t mp dev op md"
    "laid_out t node mp True (c # cs)" by auto
  have op: "fat_fs_open env node caps s = Some (ERROR_OK, t)"
    using n mnt t(1) by (auto simp: fat_fs_open_def fat_fs_load_file_layout_def mounted_def)
  obtain n' d' where n': "vnodes t node = Some n'" "vn_tag n' = mp" "fat_nodes t node = Some d'" "vec_rep (fn_layout d') (c # cs)"
    "fn_layout_loaded d'" using t(4) by (auto simp: laid_out_def)
  have cnt: "unat (v_count (fn_layout d')) = length (c # cs)" using n'(4) by (simp add: vec_rep_def)
  have read: "fat_fs_read (fe_calls env) fd node (of_nat i * 4096) 4096 a t =
       Some (if i < length (c # cs) then (4096, put_bytes_at t a (disk_region disk (fm_cluster_lba md + ((c # cs) ! i - 2) * 8)))
             else (INVALID_IO, set_last_error EINVAL FAT_BAD_LAYOUT EO_MASS_STORAGE_FS t))" if i: "i < 2 ^ 20" for i fd a
  proof -
    have u: "unat (of_nat i * 4096 :: u32) = 4096 * i" "unat (of_nat i :: u32) = i" using i by (simp_all add: unat_word_ariths unat_of_nat_u32)
    then have al: "(of_nat i * 4096 :: u32) mod 4096 = 0" "(of_nat i * 4096 :: u32) div 4096 = of_nat i"
      by (simp_all add: word_unat_eq_iff unat_mod unat_div)
    have "fat_fs_read (fe_calls env) fd node (of_nat i * 4096) 4096 a t = do {
       (ok, s) \<leftarrow> fat_fs_read_by_page (fe_calls env) mp node (of_nat i) a t; if ok then Some (4096, s) else Some (INVALID_IO, s) }"
      using n'(1,2,3,5) al by (simp add: fat_fs_read_def FAT_FORMAT_PAGE_SIZE_def ceil_division_def Let_def cong: if_cong)
    moreover have "fat_fs_read_by_page (fe_calls env) mp node (of_nat i) a t = Some (if i < length (c # cs)
       then (True, put_bytes_at t a (disk_region disk (fm_cluster_lba md + ((c # cs) ! i - 2) * 8)))
       else (False, set_last_error EINVAL FAT_BAD_LAYOUT EO_MASS_STORAGE_FS t))"
    proof (cases "i < length (c # cs)")
      case True
      then have "vector_at (fn_layout d') (of_nat i) = Some ((c # cs) ! i)"
        using vec_get_rep [OF n'(4), of "of_nat i"] u by (simp add: vector_at_def)
      then show ?thesis
        using True cnt u n'(3) t(3) read_by_lba_ok [OF t(3) rd]
        by (auto simp: fat_fs_read_by_page_def layout_of_def word_le_nat_alt fat_fs_read_by_data_cluster_def mounted_def)
    next
      case False
      then show ?thesis using cnt u n'(3) by (simp add: fat_fs_read_by_page_def layout_of_def word_le_nat_alt)
    qed
    ultimately show ?thesis by simp
  qed
  show ?thesis using op t(2,4) read by blast
qed

subsection \<open>A small volume\<close>

definition sample_disk :: "u32 \<Rightarrow> bytes" where
  \<comment> \<open>The allocation table starts at sector 10; cluster 5 is followed by cluster 6, which ends a chain.\<close>
  "sample_disk i = (if i = 10 then replicate 20 0 @ [6, 0, 0, 0, 0xF8, 0xFF, 0xFF, 0x0F] @ replicate 484 0 else replicate 512 0)"

definition sample_fat_node :: "u32 \<Rightarrow> ptr \<Rightarrow> vfs_node" where
  "sample_fat_node attrs tag = \<lparr>vn_name = [0], vn_name_length = 0, vn_attributes = attrs, vn_capabilities = 0, vn_file_length = 0,
     vn_tag = tag, vn_parent = 0, vn_fs_ops = 0x400, vn_children = \<lparr>l_head = 0, l_tail = 0, l_count = 0\<rparr>\<rparr>"

definition sample_mount :: fat_mount_data where
  "sample_mount = \<lparr>fm_layout = no_layout, fm_partition_offset = 0, fm_fat_lba = 10, fm_cluster_lba = 100, fm_root_dir_first_cluster = 2, fm_fd = 0\<rparr>"

definition sample_fat :: fat where
  "sample_fat = files.extend (sample_files\<lparr>vnodes := [0x500 \<mapsto> sample_fat_node VFS_MOUNT_PT 0x600, 0x600 \<mapsto> sample_fat_node VFS_DEVICE 0,
       0x700 \<mapsto> sample_fat_node VFS_FILE 0x500],
       fops := [0x400 \<mapsto> \<lparr>fs_read = 1, fs_write = 2, fs_open = 3, fs_close = 0, fs_sync = 4, fs_lookup = 0, fs_ioctl = 5\<rparr>]\<rparr>)
     (fat.fields [0x700 \<mapsto> \<lparr>fn_layout = \<lparr>v_data = [Some 5], v_count = 1, v_r_size = 1\<rparr>, fn_layout_loaded = False,
         fn_metadata_cluster = 2, fn_metadata_index = 0\<rparr>] [0x500 \<mapsto> sample_mount] 0x400 0x404)"

definition sample_fat_env :: "fat fat_env" where
  "sample_fat_env = \<lparr>fe_calls = \<lparr>call_read = (\<lambda>f fd node lba count a s. Some (8, put_bytes_at s a (disk_region sample_disk lba))),
       call_write = (\<lambda>f fd node lba count a s. Some (count, s)), call_open = (\<lambda>f node caps s. Some (0, s)),
       call_sync = (\<lambda>f fd node p q s. Some (0, s)), call_lookup = (\<lambda>f node path s. None)\<rparr>,
     fe_new = (\<lambda>_. 0), fe_granted = True, fe_stray = 0, fe_loaded = False, fe_fd = 0\<rparr>"

lemma sample_fat_facts: "reads_disk (fe_calls sample_fat_env) 1 0x600 sample_disk put_bytes_at" "mounted sample_fat 0x500 0x600 1 sample_mount"
  "laid_out sample_fat 0x700 0x500 False [5]" "chain_of (table_entry sample_disk (fm_fat_lba sample_mount)) [5, 6]" "fe_granted sample_fat_env"
proof -
  show "reads_disk (fe_calls sample_fat_env) 1 0x600 sample_disk put_bytes_at"
    by (simp add: reads_disk_def sample_fat_env_def sample_disk_def)
  show "mounted sample_fat 0x500 0x600 1 sample_mount"
    by (simp add: mounted_def sample_fat_def files.defs fat.defs node_ops_def sample_fat_node_def VFS_MOUNT_PT_def)
  show "laid_out sample_fat 0x700 0x500 False [5]"
    by (simp add: laid_out_def sample_fat_def files.defs fat.defs sample_fat_node_def vec_rep_def)
  show "chain_of (table_entry sample_disk (fm_fat_lba sample_mount)) [5, 6]"
    by (simp add: table_entry_def sample_disk_def sample_mount_def word_in_def FAT_EOF_def nth_append)
  show "fe_granted sample_fat_env" by (simp add: sample_fat_env_def)
qed

lemma sample_fat_ready: "buffers_ready sample_fat"
proof -
  have "buffers_ready sample_fat = buffers_ready sample_files"
    by (simp add: buffers_ready_def region_ok_def nbuf_def reserved_def page_cache_num_buffers_def page_cache_get_last_def
      vm_ok_def dir_ok_def table_at_def pmm_ok_def block_regions_def buffer_addr_def dirent_def translate_def page_walk_def
      out_of_memory_def usable_blocks_def sample_fat_def files.defs fat.defs cong: Option.bind_cong if_cong)
  moreover have "\<not> reserved 2 sample_files" by (simp add: reserved_def sample_files_def)
  moreover have "\<not> out_of_memory sample_files"
    by (auto simp: out_of_memory_def sample_files_def sample_vmm_def usable_blocks_def block_used_def intro!: exI [of _ 4])
  moreover have "pd_entry_is_present (dirent sample_files (current_directory sample_files) (buffer_addr b sample_files)) \<and>
      (\<not> reserved b sample_files \<longrightarrow> translate sample_files (current_directory sample_files) (buffer_addr b sample_files) = None)" if b: "b < 3" for b
  proof -
    consider "b = 0" | "b = 1" | "b = 2" using b by linarith
    then have a: "buffer_addr b sample_files \<in> {0x10000, 0x11000, 0x12000}"
      by cases (simp_all add: buffer_addr_def sample_files_def PAGE_CACHE_SIZE_def)
    have c: "current_directory sample_files = 4096" "tables sample_files = tables sample_vmm" by (simp_all add: sample_files_def sample_vmm_def)
    have "dirent sample_files 4096 (buffer_addr b sample_files) = 0x2003"
      using a by (auto simp: dirent_def c sample_vmm_def PAGE_DIR_INDEX_def)
    moreover have "translate sample_files 4096 (buffer_addr b sample_files) = None"
      using a by (auto simp: translate_def page_walk_def c sample_vmm_def PAGE_DIR_INDEX_def PAGE_TABLE_INDEX_def pd_entry_is_present_def
          pt_entry_is_present_def pd_entry_get_frame_def I86_PDE_FRAME_def)
    ultimately show ?thesis using c by (simp add: pd_entry_is_present_def I86_PDE_PRESENT_def)
  qed
  ultimately show ?thesis using sample_region by (auto simp: buffers_ready_def intro: exI [of _ 2])
qed

lemma next_cluster_reads_wrong_entry_witness:
  "\<exists>t. fat_fs_find_next_cluster (fe_calls sample_fat_env) 0x500 133 sample_fat = Some (table_entry sample_disk 10 261, t) \<and> buffers_ready t"
proof -
  have "(133 :: u32) < 1024" by simp
  from next_cluster_reads_wrong_entry [OF sample_fat_ready sample_fat_facts(2,1) this] show ?thesis by (auto simp: sample_mount_def)
qed

lemma open_then_read_witness:
  "\<exists>t. fat_fs_open sample_fat_env 0x700 0 sample_fat = Some (ERROR_OK, t) \<and> laid_out t 0x700 0x500 True [5, 6] \<and>
    fat_fs_read (fe_calls sample_fat_env) 9 0x700 4096 4096 0x80000 t =
      Some (4096, put_bytes_at t 0x80000 (disk_region sample_disk 132))"
proof -
  have "\<forall>x \<in> set [5, 6 :: u32]. x < 128" "length [5, 6 :: u32] < 2 ^ 20" by simp_all
  from open_then_read [OF sample_fat_ready sample_fat_facts(2,1,5,3,4) this, of 0]
  obtain t where t: "fat_fs_open sample_fat_env 0x700 0 sample_fat = Some (ERROR_OK, t)" "laid_out t 0x700 0x500 True [5, 6]"
    "\<forall>i < 2 ^ 20. \<forall>fd a. fat_fs_read (fe_calls sample_fat_env) fd 0x700 (of_nat i * 4096) 4096 a t =
       Some (if i < length [5, 6 :: u32] then (4096, put_bytes_at t a (disk_region sample_disk (fm_cluster_lba sample_mount + ([5, 6] ! i - 2) * 8)))
             else (INVALID_IO, set_last_error EINVAL FAT_BAD_LAYOUT EO_MASS_STORAGE_FS t))" by blast
  from t(3) [rule_format, of 1 9 "0x80000"] t(1,2) show ?thesis by (intro exI [of _ t]) (simp add: sample_mount_def)
qed

end
