(* ===== verification/Fat32_Free.thy ===== *)
theory Fat32_Free
  imports Fat32_Facts
begin

text \<open>
  Reserving a cluster of a FAT32 volume: which entry of the allocation table is marked and which
  cluster the caller is told. The device of this theory records what is written to it.
\<close>

subsection \<open>A region in a buffer\<close>

definition put_word :: "bytes \<Rightarrow> nat \<Rightarrow> u32 \<Rightarrow> bytes" where
  "put_word bs i v = bs[i := ucast v, i + 1 := ucast (drop_bit 8 v), i + 2 := ucast (drop_bit 16 v), i + 3 := ucast (drop_bit 24 v)]"

lemma write_in_stored:
  assumes cs: "length cs = 4096" and i: "unat i < 1024"
  shows "write32 (store a cs m) (a + 4 * i) v = store a (put_word cs (4 * unat i) v) m"
proof
  fix x
  have u: "unat (4 * i + of_nat j) = 4 * unat i + j" if "j < 4" for j
    using that i by (simp add: unat_word_ariths unat_of_nat_u32)
  have eq: "x = a + 4 * i + of_nat j \<longleftrightarrow> unat (x - a) = 4 * unat i + j" if "j < 4" for j
  proof -
    have "x = a + 4 * i + of_nat j \<longleftrightarrow> x - a = 4 * i + of_nat j" by (auto simp: algebra_simps)
    then show ?thesis using u [OF that] by (simp add: word_unat_eq_iff)
  qed
  note e = eq [of 0, simplified] eq [of 1, simplified] eq [of 2, simplified] eq [of 3, simplified]
  have len: "length (put_word cs (4 * unat i) v) = 4096" using cs by (simp add: put_word_def)
  show "write32 (store a cs m) (a + 4 * i) v x = store a (put_word cs (4 * unat i) v) m x"
    using i unfolding write32_def
    by (subst (1) store_at, simp add: len) (auto simp: e cs len put_word_def nth_list_update store_at)
qed

lemma region_first_words:
  assumes d: "\<forall>i. length (disk i) = 512" and i: "unat i < 128" and j: "unat j < 2 ^ 22"
  shows "word_in (disk_region disk (lba + 8 * j)) (4 * unat i) AND 0x0FFFFFFF = table_entry disk lba (1024 * j + i)"
proof -
  have e: "unat (1024 * j + i) = 1024 * unat j + unat i" using i j by (simp add: unat_word_ariths)
  have "(128 * q + r) div 128 = q" "(128 * q + r) mod 128 = r" if "r < 128" for q r :: nat using that by simp_all
  from this [OF i, of "8 * unat j"] have "(1024 * unat j + unat i) div 128 = 8 * unat j" "(1024 * unat j + unat i) mod 128 = unat i"
    by (simp_all add: mult.assoc)
  then have s: "(1024 * j + i) div 128 = 8 * j" "unat ((1024 * j + i) mod 128) = unat i"
    using j by (simp_all add: word_unat_eq_iff unat_div unat_mod e unat_word_ariths)
  have byte: "disk_region disk (lba + 8 * j) ! (4 * unat i + b) = disk (lba + 8 * j) ! (4 * unat i + b)" if "b < 4" for b
    using disk_region_nth(1) [OF d, of 0 "4 * unat i + b" "lba + 8 * j"] that i by simp
  show ?thesis using byte [of 0] byte [of 1] byte [of 2] byte [of 3] s by (simp add: table_entry_def word_in_def)
qed

lemma free_entry_loop_none:
  "\<forall>x < n. fat_fs_read_fat_value a (j + of_nat x) s \<noteq> 0 \<Longrightarrow> free_entry_loop n j a s = None"
proof (induction n arbitrary: j)
  case (Suc n)
  have "fat_fs_read_fat_value a (j + 1 + of_nat x) s \<noteq> 0" if "x < n" for x
    using Suc.prems [rule_format, of "Suc x"] that by (simp add: add.assoc)
  then show ?case using Suc.IH [of "j + 1"] Suc.prems [rule_format, of 0] by simp
qed simp

lemma free_entry_loop_some:
  "x < n \<Longrightarrow> fat_fs_read_fat_value a (j + of_nat x) s = 0 \<Longrightarrow> \<forall>y < x. fat_fs_read_fat_value a (j + of_nat y) s \<noteq> 0 \<Longrightarrow>
    free_entry_loop n j a s = Some (j + of_nat x)"
proof (induction n arbitrary: j x)
  case (Suc n)
  show ?case
  proof (cases x)
    case (Suc y)
    have "fat_fs_read_fat_value a (j + 1 + of_nat z) s \<noteq> 0" if "z < y" for z
      using Suc.prems(3) [rule_format, of "Suc z"] that \<open>x = Suc y\<close> by (simp add: add.assoc)
    then show ?thesis using Suc.IH [of y "j + 1"] Suc.prems \<open>x = Suc y\<close> by (auto simp: add.assoc)
  qed (use Suc.prems in simp)
qed simp

subsection \<open>The search\<close>

definition logs_writes :: "((u32 \<times> bytes) list) fat_scheme fs_calls \<Rightarrow> ptr \<Rightarrow> ptr \<Rightarrow> bool" where
  \<comment> \<open>Writing eight sectors through a device's write operation succeeds; the state's last field records where and what.\<close>
  "logs_writes calls wop dev \<longleftrightarrow> (\<forall>lba a s. call_write calls wop 0 dev lba 8 a s =
     Some (8, s\<lparr>fat.more := fat.more s @ [(lba, load (bytes_at s) a 4096)]\<rparr>))"

definition write_op :: "'a fat_scheme \<Rightarrow> ptr \<Rightarrow> ptr option" where
  "write_op s dev = map_option fs_write (node_ops dev s)"

lemma write_by_lba_ok:
  assumes "mounted s mp dev op md" and "logs_writes calls wop dev" and "write_op s dev = Some wop"
  shows "fat_fs_write_by_lba calls mp lba a s = Some (True, s\<lparr>fat.more := fat.more s @ [(lba, load (bytes_at s) a 4096)]\<rparr>)"
  using assms by (auto simp: mounted_def logs_writes_def write_op_def fat_fs_write_by_lba_def vfs_write_file_def)

lemma same_operations [simp]:
  "mounted (s\<lparr>bytes_at := m\<rparr>) mp dev op md = mounted s mp dev op md" "mounted (s\<lparr>fat.more := x\<rparr>) mp dev op md = mounted s mp dev op md"
  "write_op (s\<lparr>bytes_at := m\<rparr>) dev = write_op s dev"
  by (simp_all add: mounted_def node_ops_def write_op_def)

definition free_at :: "(u32 \<Rightarrow> bytes) \<Rightarrow> u32 \<Rightarrow> nat \<Rightarrow> nat \<Rightarrow> bool" where
  \<comment> \<open>Of the entries the search looks at, the first that is free is entry \<open>i\<close> of region \<open>k\<close>.\<close>
  "free_at disk lba k i \<longleftrightarrow> i < 128 \<and> k < 2 ^ 20 \<and> table_entry disk lba (1024 * of_nat k + of_nat i) = 0 \<and>
     (\<forall>y < i. table_entry disk lba (1024 * of_nat k + of_nat y) \<noteq> 0) \<and>
     (\<forall>j < k. \<forall>y < 128. table_entry disk lba (1024 * of_nat j + of_nat y) \<noteq> 0)"

definition marked_region :: "(u32 \<Rightarrow> bytes) \<Rightarrow> u32 \<Rightarrow> nat \<Rightarrow> nat \<Rightarrow> u32 \<Rightarrow> bytes" where
  "marked_region disk lba k i v = put_word (disk_region disk (lba + 8 * of_nat k)) (4 * i) (v AND 0x0FFFFFFF)"

lemma fat_value_in_region:
  assumes d: "\<forall>i. length (disk i) = 512" and y: "y < 128" and j: "j < 2 ^ 20"
  shows "fat_fs_read_fat_value a (of_nat y) (put_bytes_at s a (disk_region disk (lba + of_nat j * 8))) =
    table_entry disk lba (1024 * of_nat j + of_nat y)"
proof -
  have u: "unat (of_nat y :: u32) = y" "unat (of_nat j :: u32) = j" using y j by (simp_all add: unat_of_nat_u32)
  have len: "length (disk_region disk x) = 4096" for x using disk_region_nth(2) [OF d, of 0 0] by simp
  have "(of_nat y :: u32) < 1024" using y u by (simp add: word_less_nat_alt)
  then show ?thesis
    using read_stored_word [OF len, of "of_nat y"] region_first_words [OF d, of "of_nat y" "of_nat j" lba] y j u
    by (simp add: fat_fs_read_fat_value_def put_bytes_at_def mult.commute)
qed

lemma reserve_cluster_loop_ok:
  assumes rd: "reads_disk calls op dev disk put_bytes_at" and wr: "logs_writes calls wop dev"
    and fr: "free_at disk (fm_fat_lba md) k i"
  shows "j \<le> k \<Longrightarrow> mounted q mp dev op md \<Longrightarrow> write_op q dev = Some wop \<Longrightarrow>
    reserve_cluster_loop calls mp v a (of_nat j) q = do {
      t \<leftarrow> page_cache_release_anonymous a (q\<lparr>bytes_at := store a (marked_region disk (fm_fat_lba md) k i v) (bytes_at q),
        fat.more := fat.more q @ [(fm_fat_lba md + 8 * of_nat k, marked_region disk (fm_fat_lba md) k i v)]\<rparr>);
      Some (of_nat (128 * k + i), t) }"
proof (induction "k - j" arbitrary: j q)
  case 0
  then have jk: "j = k" by simp
  let ?L = "fm_fat_lba md"
  let ?cs = "disk_region disk (?L + of_nat k * 8)"
  let ?q = "put_bytes_at q a ?cs"
  have d: "\<forall>i. length (disk i) = 512" using rd by (simp add: reads_disk_def)
  have len: "length ?cs = 4096" using disk_region_nth(2) [OF d, of 0 0] by simp
  have i: "i < 128" "k < 2 ^ 20" using fr by (simp_all add: free_at_def)
  have ui: "unat (of_nat i :: u32) = i" using i by (simp add: unat_of_nat_u32)
  have fe: "free_entry_loop 128 0 a ?q = Some (of_nat i)"
    using free_entry_loop_some [of i 128 a 0 ?q] fr fat_value_in_region [OF d _ i(2), of _ a q ?L] i by (simp add: free_at_def)
  have mk: "marked_region disk ?L k i v = put_word ?cs (4 * i) (v AND 0x0FFFFFFF)" by (simp add: marked_region_def mult.commute)
  have pl: "length (put_word ?cs (4 * i) (v AND 0x0FFFFFFF)) = 4096" using len by (simp add: put_word_def)
  have put: "put_fat_value a (of_nat i) (v AND 0x0FFFFFFF) ?q = q\<lparr>bytes_at := store a (marked_region disk ?L k i v) (bytes_at q)\<rparr>"
    using write_in_stored [OF len, of "of_nat i"] i ui by (simp add: put_fat_value_def put_bytes_at_def mk)
  have ld: "load (store a (marked_region disk ?L k i v) m) a 4096 = marked_region disk ?L k i v" for m
    using load_stored [of "marked_region disk ?L k i v"] pl by (simp add: mk)
  note m = 0(3)
  have md: "fat_mounts q mp = Some md" using m by (simp add: mounted_def)
  have w: "fat_fs_write_by_lba calls mp (?L + of_nat k * 8) a (q\<lparr>bytes_at := store a (marked_region disk ?L k i v) (bytes_at q)\<rparr>) =
    Some (True, q\<lparr>bytes_at := store a (marked_region disk ?L k i v) (bytes_at q),
      fat.more := fat.more q @ [(?L + 8 * of_nat k, marked_region disk ?L k i v)]\<rparr>)"
    by (subst write_by_lba_ok [OF _ wr]) (use m 0(4) ld in \<open>simp_all add: mult.commute\<close>)
  show ?case
    unfolding jk
    by (subst reserve_cluster_loop.simps)
      (use md read_by_lba_ok [OF m rd] fe put w in \<open>simp add: mult.commute\<close>)
next
  case (Suc n)
  then have jk: "j < k" by simp
  let ?L = "fm_fat_lba md"
  let ?cs = "disk_region disk (?L + of_nat j * 8)"
  let ?q = "put_bytes_at q a ?cs"
  have d: "\<forall>i. length (disk i) = 512" using rd by (simp add: reads_disk_def)
  have len: "length (disk_region disk x) = 4096" for x using disk_region_nth(2) [OF d, of 0 0] by simp
  have "j < 2 ^ 20" using jk fr by (simp add: free_at_def)
  note val = fat_value_in_region [OF d _ this, of _ a q ?L]
  have fe: "free_entry_loop 128 0 a ?q = None"
    by (rule free_entry_loop_none) (use val fr jk in \<open>simp add: free_at_def\<close>)
  have md: "fat_mounts q mp = Some md" using Suc.prems by (simp add: mounted_def)
  have "reserve_cluster_loop calls mp v a (of_nat j) q = reserve_cluster_loop calls mp v a (of_nat (Suc j)) ?q"
    by (subst reserve_cluster_loop.simps) (use md read_by_lba_ok [OF Suc.prems(2) rd] fe in \<open>simp add: add.commute\<close>)
  moreover have "length (marked_region disk ?L k i v) = 4096" using len by (simp add: marked_region_def put_word_def)
  then have "store a (marked_region disk ?L k i v) (store a ?cs (bytes_at q)) = store a (marked_region disk ?L k i v) (bytes_at q)"
    using len by (simp add: store_store)
  moreover have "n = k - Suc j" "Suc j \<le> k" using Suc(2) jk by simp_all
  ultimately show ?case using Suc.hyps(1) [of "Suc j" ?q] Suc.prems by (simp add: put_bytes_at_def)
qed

lemma ready_more:
  "buffers_ready (s\<lparr>fat.more := x\<rparr>) = buffers_ready s" "region_ok (s\<lparr>fat.more := x\<rparr>) = region_ok s"
  "buffer_addr b (s\<lparr>fat.more := x\<rparr>) = buffer_addr b s" "cell_of a (s\<lparr>fat.more := x\<rparr>) = cell_of a s"
  by (simp_all add: buffers_ready_def region_ok_def nbuf_def reserved_def page_cache_num_buffers_def page_cache_get_last_def
      vm_ok_def dir_ok_def table_at_def pmm_ok_def block_regions_def buffer_addr_def dirent_def translate_def page_walk_def
      out_of_memory_def usable_blocks_def cell_of_def cong: Option.bind_cong if_cong)

lemma memory_more:
  "nbuf (s\<lparr>fat.more := x\<rparr>) = nbuf s" "reserved b (s\<lparr>fat.more := x\<rparr>) = reserved b s" "dirent (s\<lparr>fat.more := x\<rparr>) = dirent s"
  "translate (s\<lparr>fat.more := x\<rparr>) = translate s" "old_pte (s\<lparr>fat.more := x\<rparr>) = old_pte s" "table_block (s\<lparr>fat.more := x\<rparr>) = table_block s"
  "block_regions (s\<lparr>fat.more := x\<rparr>) = block_regions s" "vm_ok d (s\<lparr>fat.more := x\<rparr>) = vm_ok d s"
  by (simp_all add: nbuf_def reserved_def page_cache_num_buffers_def dirent_def translate_def page_walk_def old_pte_def table_block_def
      block_regions_def vm_ok_def dir_ok_def table_at_def pmm_ok_def fun_eq_iff cong: Option.bind_cong if_cong)

lemma more_commute: "s\<lparr>fat.more := x, bytes_at := m\<rparr> = s\<lparr>bytes_at := m, fat.more := x\<rparr>"
  by (cases s) simp

lemma lent_more:
  assumes "lent b s s'"
  shows "lent b (s\<lparr>fat.more := x\<rparr>) (s'\<lparr>fat.more := x\<rparr>)"
proof -
  have "rest_same (s\<lparr>fat.more := x, bytes_at := m\<rparr>) (s'\<lparr>fat.more := x\<rparr>)" if "rest_same (s\<lparr>bytes_at := m\<rparr>) s'" for m
    using that by (cases s; cases s') (auto simp: rest_same_def)
  then show ?thesis using assms unfolding lent_def memory_more ready_more by simp
qed

text \<open>
  Reserving a cluster when entry \<open>i\<close> of the \<open>k\<close>-th group of 1024 table entries is the first free
  one the search sees, since it looks at the first 128 of each group only: the call comes back,
  exactly one write reaches the device, which marks entry \<open>1024 * k + i\<close> of the table, but the caller is
  told cluster \<open>128 * k + i\<close>. The two agree only for \<open>k = 0\<close>; otherwise the caller goes on with a
  cluster that was not reserved. The buffer is given back.
\<close>

theorem reserved_cluster_not_marked:
  assumes ready: "buffers_ready s" and mnt: "mounted s mp dev op md" and wop: "write_op s dev = Some wop"
    and rd: "reads_disk calls op dev disk put_bytes_at" and wr: "logs_writes calls wop dev"
    and fr: "free_at disk (fm_fat_lba md) k i"
  shows "\<exists>t. fat_fs_reserve_first_cluster calls mp v s = Some (of_nat (128 * k + i), t) \<and> buffers_ready t \<and>
    fat.more t = fat.more s @ [(fm_fat_lba md + 8 * of_nat k, marked_region disk (fm_fat_lba md) k i v)] \<and>
    table_entry disk (fm_fat_lba md) (of_nat (1024 * k + i)) = 0 \<and> (k > 0 \<longrightarrow> (of_nat (1024 * k + i) :: u32) \<noteq> of_nat (128 * k + i))"
proof -
  obtain b s' where b: "page_cache_reserve_anonymous s = Some (buffer_addr b s, s')" "lent b s s'" "region_ok s'" "buffer_addr b s \<noteq> 0"
    by (rule borrow_buffer [OF ready])
  let ?x = "fat.more s @ [(fm_fat_lba md + 8 * of_nat k, marked_region disk (fm_fat_lba md) k i v)]"
  let ?cs = "marked_region disk (fm_fat_lba md) k i v"
  have r: "region_ok s" using ready by (simp add: buffers_ready_def)
  have bn: "b < nbuf s" and rs: "rest_same (s\<lparr>bytes_at := (bytes_at s)(alloced_bitmap s + of_nat b := 1)\<rparr>) s'" using b(2) by (auto simp: lent_def)
  note f = rest_same_fat [OF rs, simplified]
  have more: "fat.more s' = fat.more s" using rs by (cases s; cases s') (auto simp: rest_same_def)
  have mnt': "mounted s' mp dev op md" by (rule mounted_same [OF mnt]) (use f in simp_all)
  have wop': "write_op s' dev = Some wop" using wop f by (simp add: write_op_def node_ops_def)
  have "\<forall>i. length (disk i) = 512" using rd by (simp add: reads_disk_def)
  then have len: "length ?cs = 4096" using disk_region_nth(2) [of disk 0 0] by (simp add: marked_region_def put_word_def)
  let ?m = "store (buffer_addr b s) ?cs (bytes_at s')"
  have out: "?m a = bytes_at (s'\<lparr>fat.more := ?x\<rparr>) a" if "cell_of a (s\<lparr>fat.more := ?x\<rparr>) \<noteq> b" for a
    using that in_buffer [OF r bn, of a] len by (simp add: store_at ready_more)
  have "buffers_ready (s\<lparr>fat.more := ?x\<rparr>)" "region_ok (s'\<lparr>fat.more := ?x\<rparr>)" using ready b(3) by (simp_all add: ready_more)
  from give_back_buffer [OF this(1) lent_more [OF b(2)] out this(2)]
  obtain t where t: "page_cache_release_anonymous (buffer_addr b s) (s'\<lparr>fat.more := ?x, bytes_at := ?m\<rparr>) = Some t" "buffers_ready t"
    "rest_same (s\<lparr>fat.more := ?x, bytes_at := ?m(alloced_bitmap s + of_nat b := 0)\<rparr>) t" by (auto simp: ready_more)
  have mt: "fat.more t = ?x" using t(3) by (cases s; cases t) (auto simp: rest_same_def)
  have "reserve_cluster_loop calls mp v (buffer_addr b s) (of_nat 0) s' = Some (of_nat (128 * k + i), t)"
    using reserve_cluster_loop_ok [OF rd wr fr _ mnt' wop', of 0 v "buffer_addr b s"] t(1) more by (simp add: more_commute)
  then have run: "fat_fs_reserve_first_cluster calls mp v s = Some (of_nat (128 * k + i), t)"
    using b(1,4) by (simp add: fat_fs_reserve_first_cluster_def)
  have "i < 128" "k < 2 ^ 20" using fr by (simp_all add: free_at_def)
  then have u: "unat (of_nat (1024 * k + i) :: u32) = 1024 * k + i" "unat (of_nat (128 * k + i) :: u32) = 128 * k + i"
    by (simp_all add: unat_of_nat_u32 del: of_nat_add of_nat_mult)
  have "(of_nat (1024 * k + i) :: u32) \<noteq> of_nat (128 * k + i)" if "k > 0"
  proof
    assume "(of_nat (1024 * k + i) :: u32) = of_nat (128 * k + i)"
    from arg_cong [OF this, of unat] have "1024 * k + i = 128 * k + i" unfolding u .
    then show False using that by simp
  qed
  moreover have "table_entry disk (fm_fat_lba md) (of_nat (1024 * k + i)) = 0" using fr by (simp add: free_at_def)
  ultimately show ?thesis using run t(2) mt by (intro exI [of _ t]) simp
qed

definition full_disk :: "u32 \<Rightarrow> bytes" where
  \<comment> \<open>A table at sector 10 whose first 128 entries are in use; the others are free.\<close>
  "full_disk i = (if i = 10 then replicate 512 1 else replicate 512 0)"

definition log_fat :: "((u32 \<times> bytes) list) fat_scheme" where
  "log_fat = fat.extend sample_fat []"

definition log_calls :: "((u32 \<times> bytes) list) fat_scheme fs_calls" where
  "log_calls = \<lparr>call_read = (\<lambda>f fd node lba count a s. Some (8, put_bytes_at s a (disk_region full_disk lba))),
     call_write = (\<lambda>f fd node lba count a s. Some (8, s\<lparr>fat.more := fat.more s @ [(lba, load (bytes_at s) a 4096)]\<rparr>)),
     call_open = (\<lambda>f node caps s. Some (0, s)), call_sync = (\<lambda>f fd node p q s. Some (0, s)), call_lookup = (\<lambda>f node path s. None)\<rparr>"

lemma reserved_cluster_not_marked_witness:
  "\<exists>t. fat_fs_reserve_first_cluster log_calls 0x500 FAT_EOF log_fat = Some (128, t) \<and>
    fat.more t = [(18, marked_region full_disk 10 1 0 FAT_EOF)]"
proof -
  have "buffers_ready log_fat = buffers_ready sample_fat"
    by (simp add: buffers_ready_def region_ok_def nbuf_def reserved_def page_cache_num_buffers_def page_cache_get_last_def
      vm_ok_def dir_ok_def table_at_def pmm_ok_def block_regions_def buffer_addr_def dirent_def translate_def page_walk_def
      out_of_memory_def usable_blocks_def log_fat_def fat.defs cong: Option.bind_cong if_cong)
  then have ready: "buffers_ready log_fat" using sample_fat_ready by simp
  have m: "mounted log_fat 0x500 0x600 1 sample_mount" "write_op log_fat 0x600 = Some 2"
    by (simp_all add: mounted_def write_op_def log_fat_def sample_fat_def files.defs fat.defs node_ops_def sample_fat_node_def VFS_MOUNT_PT_def)
  have c: "reads_disk log_calls 1 0x600 full_disk put_bytes_at" "logs_writes log_calls 2 0x600"
    by (simp_all add: reads_disk_def logs_writes_def log_calls_def full_disk_def)
  have used: "table_entry full_disk 10 (of_nat y) \<noteq> 0" if "y < 128" for y
  proof -
    have u: "unat (of_nat y :: u32) = y" using that by (simp add: unat_of_nat_u32)
    then have "(of_nat y :: u32) div 128 = 0" "unat ((of_nat y :: u32) mod 128) = y"
      using that by (simp_all add: word_unat_eq_iff unat_div unat_mod)
    then show ?thesis using that by (simp add: table_entry_def full_disk_def word_in_def)
  qed
  have "table_entry full_disk 10 1024 = 0" by (simp add: table_entry_def full_disk_def word_in_def)
  then have f: "free_at full_disk (fm_fat_lba sample_mount) 1 0" using used by (simp add: free_at_def sample_mount_def)
  have "fat.more log_fat = []" by (simp add: log_fat_def fat.defs)
  with reserved_cluster_not_marked [OF ready m c f, of FAT_EOF] show ?thesis by (auto simp: sample_mount_def)
qed

end
