(* ===== verification/Net.thy ===== *)
theory Net
  imports Bytes Vector
begin

text \<open>
  The network stack: socket buffers (sock_buf.cpp), byte order and layers (net.cpp, net_protocol.cpp),
  ethernet.cpp, arp.cpp, ip.cpp, icmp.cpp and udp.cpp, built with \<^verbatim>\<open>LITTLE_ENDIAN\<close> as the project file
  does. Frames are bytes of the address space; a header is read and written at its offsets. \<open>send\<close> is
  \<^verbatim>\<open>e1000_send\<close> on the card's device; an address an operation only copies from is given by its bytes.
\<close>

subsection \<open>Socket buffers\<close>

definition NET_STACK_LAYERS :: u32 where "NET_STACK_LAYERS = 4"
definition TRANSPORT_LAYER :: u32 where "TRANSPORT_LAYER = 2"

record sock_buf =
  sb_src_addrs :: "bytes list"
  sb_dst_addrs :: "bytes list"
  sb_head :: ptr
  sb_data :: ptr
  sb_tail :: ptr

datatype net_fn = Arp_Recv | Arp_Send | Ipv4_Recv | Ipv4_Send | Icmp_Recv | Icmp_Send | Udp_Recv | Udp_Send

record net_operations =
  op_recv :: net_fn
  op_send :: net_fn

record net_stats =
  pkts_sent :: u32
  pkts_recvd :: u32
  pkts_dropped :: u32
  pkts_rejected :: u32

record net_protocol =
  np_identifier :: u32
  np_ops :: net_operations
  np_stats :: net_stats

record net_layer =
  nl_protocols :: "net_protocol vector"
  nl_layer_ind :: u32

record net =
  net_bytes :: mem
  nic_mac :: bytes
  net_layers :: "net_layer list"
  sock_ind :: u32
  udp_recved :: u32

definition sock_buf_init :: "ptr \<Rightarrow> u32 \<Rightarrow> sock_buf \<Rightarrow> 'a net_scheme \<Rightarrow> error_t \<times> sock_buf \<times> 'a net_scheme" where
  \<comment> \<open>\<open>a\<close> is what \<^verbatim>\<open>malloc\<close> returns.\<close>
  "sock_buf_init a len buf s =
     (let buf = buf\<lparr>sb_head := a\<rparr>; s = s\<lparr>sock_ind := sock_ind s + 1\<rparr> in
      if a = 0 then (ERROR_OCCUR, buf, s)
      else (ERROR_OK, buf\<lparr>sb_data := a, sb_tail := a + len, sb_dst_addrs := replicate 4 (replicate 16 0),
        sb_src_addrs := replicate 4 (replicate 16 0)\<rparr>, s))"

definition sock_buf_init_recv :: "ptr \<Rightarrow> u32 \<Rightarrow> ptr \<Rightarrow> sock_buf \<Rightarrow> 'a net_scheme \<Rightarrow> error_t \<times> sock_buf \<times> 'a net_scheme" where
  "sock_buf_init_recv a len data buf s =
     (let (err, buf, s) = sock_buf_init a len buf s in
      if err \<noteq> ERROR_OK then (ERROR_OCCUR, buf, s)
      else (ERROR_OK, buf, s\<lparr>net_bytes := memcpy (sb_data buf) data len (net_bytes s)\<rparr>))"

definition sock_buf_put :: "sock_buf \<Rightarrow> ptr \<Rightarrow> u32 \<Rightarrow> 'a net_scheme \<Rightarrow> sock_buf \<times> 'a net_scheme" where
  "sock_buf_put buf data len s =
     (buf\<lparr>sb_data := sb_data buf + len\<rparr>, s\<lparr>net_bytes := memcpy (sb_data buf) data len (net_bytes s)\<rparr>)"

definition sock_buf_pull :: "sock_buf \<Rightarrow> ptr \<Rightarrow> u32 \<Rightarrow> 'a net_scheme \<Rightarrow> sock_buf \<times> 'a net_scheme" where
  "sock_buf_pull buf data len s =
     (let buf = buf\<lparr>sb_data := sb_data buf - len\<rparr> in (buf, s\<lparr>net_bytes := memcpy data (sb_data buf) len (net_bytes s)\<rparr>))"

definition sock_buf_push :: "sock_buf \<Rightarrow> u32 \<Rightarrow> sock_buf" where
  "sock_buf_push buf len = buf\<lparr>sb_data := sb_data buf + len\<rparr>"

definition sock_buf_pop :: "sock_buf \<Rightarrow> u32 \<Rightarrow> sock_buf" where
  "sock_buf_pop buf len = buf\<lparr>sb_data := sb_data buf - len\<rparr>"

definition sock_buf_get_len :: "sock_buf \<Rightarrow> u32" where
  "sock_buf_get_len buf = sb_tail buf - sb_head buf"

definition sock_buf_get_header_len :: "sock_buf \<Rightarrow> u32" where
  "sock_buf_get_header_len buf = sb_data buf - sb_head buf"

definition sock_buf_get_data_len :: "sock_buf \<Rightarrow> u32" where
  "sock_buf_get_data_len buf = sb_tail buf - sb_data buf"

definition sock_buf_release :: "(ptr \<Rightarrow> 's \<Rightarrow> (error_t \<times> 's) option) \<Rightarrow> sock_buf \<Rightarrow> 's \<Rightarrow> (error_t \<times> 's) option" where
  \<comment> \<open>\<open>free\<close> is the allocator's function.\<close>
  "sock_buf_release free buf s = do {
     (err, s) \<leftarrow> free (sb_head buf) s;
     Some (if err \<noteq> ERROR_OK then ERROR_OCCUR else ERROR_OK, s)
   }"

definition sock_buf_reset :: "sock_buf \<Rightarrow> sock_buf" where
  "sock_buf_reset buf = buf\<lparr>sb_data := sb_head buf\<rparr>"

definition put_addr :: "nat \<Rightarrow> bytes \<Rightarrow> bytes list \<Rightarrow> bytes list" where
  \<comment> \<open>\<^verbatim>\<open>memcpy(addrs[i].addr, bs, n)\<close> into one of the fixed arrays of a socket buffer.\<close>
  "put_addr i bs addrs = addrs[i := bs @ drop (length bs) (addrs ! i)]"

definition first_bytes :: "nat \<Rightarrow> bytes \<Rightarrow> bytes option" where
  "first_bytes n bs = (if n \<le> length bs then Some (take n bs) else None)"

subsection \<open>Byte order\<close>

definition bswap :: "u32 \<Rightarrow> u32" where
  \<comment> \<open>The \<^verbatim>\<open>bswap\<close> instruction.\<close>
  "bswap x = (push_bit 24 (x AND 0xFF) OR push_bit 16 (drop_bit 8 x AND 0xFF)) OR (push_bit 8 (drop_bit 16 x AND 0xFF) OR drop_bit 24 x)"

definition htonl :: "u32 \<Rightarrow> u32" where "htonl host = bswap host"
definition htons :: "u16 \<Rightarrow> u16" where "htons host = push_bit 8 host OR drop_bit 8 host"
definition ntohl :: "u32 \<Rightarrow> u32" where "ntohl x = bswap x"
definition ntohs :: "u16 \<Rightarrow> u16" where "ntohs x = push_bit 8 x OR drop_bit 8 x"

subsection \<open>Layers\<close>

definition net_protocol_create :: "u32 \<Rightarrow> net_operations \<Rightarrow> net_protocol" where
  "net_protocol_create id' operations = \<lparr>np_identifier = id', np_ops = operations,
     np_stats = \<lparr>pkts_sent = 0, pkts_recvd = 0, pkts_dropped = 0, pkts_rejected = 0\<rparr>\<rparr>"

definition net_layer_init :: "bool \<Rightarrow> u32 \<Rightarrow> u32 \<Rightarrow> 'a net_scheme \<Rightarrow> (error_t \<times> 'a net_scheme) option" where
  "net_layer_init granted layer_ind proto_count s = do {
     l \<leftarrow> array_get (net_layers s) layer_ind;
     let (err, v) = vector_init granted proto_count;
     ls \<leftarrow> array_set (net_layers s) layer_ind (l\<lparr>nl_layer_ind := layer_ind, nl_protocols := v\<rparr>);
     Some (err, s\<lparr>net_layers := ls\<rparr>)
   }"

definition net_layer_register_proto :: "bool \<Rightarrow> u32 \<Rightarrow> net_protocol \<Rightarrow> 'a net_scheme \<Rightarrow> (error_t \<times> 'a net_scheme) option" where
  "net_layer_register_proto granted layer_ind proto s = do {
     l \<leftarrow> array_get (net_layers s) layer_ind;
     (err, v) \<leftarrow> vector_insert_back granted proto (nl_protocols l);
     ls \<leftarrow> array_set (net_layers s) layer_ind (l\<lparr>nl_protocols := v\<rparr>);
     Some (err, s\<lparr>net_layers := ls\<rparr>)
   }"

primrec get_proto_loop :: "nat \<Rightarrow> u32 \<Rightarrow> u32 \<Rightarrow> net_protocol vector \<Rightarrow> net_protocol option option" where
  \<comment> \<open>\<open>n\<close> elements remain; \<open>Some None\<close> is the null result.\<close>
  "get_proto_loop 0 i proto_id v = Some None"
| "get_proto_loop (Suc n) i proto_id v = do {
     p \<leftarrow> vec_get v i;
     if np_identifier p = proto_id then Some (Some p) else get_proto_loop n (i + 1) proto_id v
   }"

definition net_layer_get_proto :: "u32 \<Rightarrow> u32 \<Rightarrow> 'a net_scheme \<Rightarrow> net_protocol option option" where
  "net_layer_get_proto layer_ind proto_id s =
     (if NET_STACK_LAYERS \<le> layer_ind then Some None
      else do {
        l \<leftarrow> array_get (net_layers s) layer_ind;
        get_proto_loop (unat (v_count (nl_protocols l))) 0 proto_id (nl_protocols l)
      })"

primrec init_net_loop :: "nat \<Rightarrow> u32 \<Rightarrow> bool \<Rightarrow> 'a net_scheme \<Rightarrow> (error_t \<times> 'a net_scheme) option" where
  "init_net_loop 0 i granted s = Some (ERROR_OK, s)"
| "init_net_loop (Suc n) i granted s = do {
     (err, s) \<leftarrow> net_layer_init granted i 2 s;
     if err \<noteq> ERROR_OK then Some (ERROR_OCCUR, s) else init_net_loop n (i + 1) granted s
   }"

definition init_net :: "bool \<Rightarrow> 'a net_scheme \<Rightarrow> (error_t \<times> 'a net_scheme) option" where
  "init_net granted s = init_net_loop 4 0 granted s"

subsection \<open>Ethernet\<close>

definition ETH_TYPE_ARP :: u16 where "ETH_TYPE_ARP = 0x0806"

definition mac_broadcast :: bytes where
  "mac_broadcast = replicate 6 0xFF"

primrec cmp_loop :: "nat \<Rightarrow> nat \<Rightarrow> bytes \<Rightarrow> bytes \<Rightarrow> bool option" where
  "cmp_loop 0 i m1 m2 = Some True"
| "cmp_loop (Suc n) i m1 m2 =
     (if i < length m1 \<and> i < length m2 then if m1 ! i \<noteq> m2 ! i then Some False else cmp_loop n (i + 1) m1 m2 else None)"

definition eth_cmp_mac :: "bytes \<Rightarrow> bytes \<Rightarrow> bool option" where
  "eth_cmp_mac mac1 mac2 = cmp_loop 6 0 mac1 mac2"

definition eth_create :: "sock_buf \<Rightarrow> bytes \<Rightarrow> bytes \<Rightarrow> u16 \<Rightarrow> 'a net_scheme \<Rightarrow> (ptr \<times> sock_buf \<times> 'a net_scheme) option" where
  \<comment> \<open>Destination at 0, source at 6, type at 12 of the frame; the header has 14 bytes.\<close>
  "eth_create buf dest_mac src_mac eth_type s = do {
     let eth = sb_data buf;
     d \<leftarrow> first_bytes 6 dest_mac;
     c \<leftarrow> first_bytes 6 src_mac;
     let m = store eth d (net_bytes s);
     let m = store (eth + 6) c m;
     let m = write16 (eth + 12) (htons eth_type) m;
     Some (eth, sock_buf_push buf 14, s\<lparr>net_bytes := m\<rparr>)
   }"

definition eth_send :: "(ptr \<Rightarrow> u16 \<Rightarrow> 's \<Rightarrow> 's option) \<Rightarrow> sock_buf \<Rightarrow> 's \<Rightarrow> 's option" where
  "eth_send send buf s =
     (let packet_size = sock_buf_get_header_len buf in send (sb_head buf) (ucast packet_size) s)"

subsection \<open>Address resolution\<close>

definition HW_ETHER :: u16 where "HW_ETHER = 1"
definition PROTO_IPv4 :: u16 where "PROTO_IPv4 = 0x0800"
definition ARP_REQ :: u16 where "ARP_REQ = 1"
definition ARP_REP :: u16 where "ARP_REP = 2"

definition my_ip :: bytes where
  "my_ip = [192, 168, 1, 30]"

definition protocol_addr_equal :: "bytes \<Rightarrow> bytes \<Rightarrow> u8 \<Rightarrow> bool option" where
  "protocol_addr_equal proto1 proto2 len = cmp_loop (unat len) 0 proto1 proto2"

definition arp_create :: "sock_buf \<Rightarrow> u16 \<Rightarrow> u16 \<Rightarrow> u8 \<Rightarrow> u8 \<Rightarrow> u16 \<Rightarrow> bytes \<Rightarrow> bytes \<Rightarrow> bytes \<Rightarrow> bytes \<Rightarrow>
    'a net_scheme \<Rightarrow> (sock_buf \<times> 'a net_scheme) option" where
  \<comment> \<open>Types at 0 and 2, lengths at 4 and 5, opcode at 6, the addresses from 8 on.\<close>
  "arp_create buf hw_type prot_type hw_len prot_len opcode src_hw src_prot dest_hw dest_prot s = do {
     let arp = sb_data buf;
     let m = write16 arp (htons hw_type) (net_bytes s);
     let m = write16 (arp + 2) (htons prot_type) m;
     let m = m(arp + 4 := hw_len, arp + 5 := prot_len);
     let m = write16 (arp + 6) (htons opcode) m;
     let p = arp + 8;
     a \<leftarrow> first_bytes (unat hw_len) src_hw;
     let m = store p a m;
     let p = p + ucast hw_len;
     a \<leftarrow> first_bytes (unat prot_len) src_prot;
     let m = store p a m;
     let p = p + ucast prot_len;
     a \<leftarrow> first_bytes (unat hw_len) dest_hw;
     let m = store p a m;
     let p = p + ucast hw_len;
     a \<leftarrow> first_bytes (unat prot_len) dest_prot;
     let m = store p a m;
     let arp_size = (8 + 2 * ucast (m (arp + 4)) + 2 * ucast (m (arp + 5)) :: u16);
     Some (sock_buf_push buf (ucast arp_size), s\<lparr>net_bytes := m\<rparr>)
   }"

definition arp_send :: "(ptr \<Rightarrow> u16 \<Rightarrow> 's \<Rightarrow> 's option) \<Rightarrow> sock_buf \<Rightarrow> 's \<Rightarrow> (error_t \<times> 's) option" where
  "arp_send send buf s = do { s \<leftarrow> eth_send send buf s; Some (ERROR_OK, s) }"

definition arp_receive_ipv4 :: "(ptr \<Rightarrow> u16 \<Rightarrow> 'a net_scheme \<Rightarrow> 'a net_scheme option) \<Rightarrow> sock_buf \<Rightarrow> 'a net_scheme \<Rightarrow> (sock_buf \<times> 'a net_scheme) option" where
  \<comment> \<open>In the data behind the header: sender's hardware address at 8 and protocol address at 14, target's at 18 and 24.\<close>
  "arp_receive_ipv4 send buf s = do {
     let arp = sb_data buf;
     let m = net_bytes s;
     let buf = buf\<lparr>sb_src_addrs := put_addr 1 (load m (arp + 14) 4) (sb_src_addrs buf)\<rparr>;
     let buf = buf\<lparr>sb_dst_addrs := put_addr 1 (load m (arp + 24) 4) (sb_dst_addrs buf)\<rparr>;
     mine \<leftarrow> protocol_addr_equal (load m (arp + 24) 4) my_ip 4;
     if mine \<and> ntohs (read16 m (arp + 6)) = ARP_REQ then do {
       let buf = sock_buf_reset buf;
       (_, buf, s) \<leftarrow> eth_create buf (sb_src_addrs buf ! 0) (nic_mac s) 0x0806 s;
       (buf, s) \<leftarrow> arp_create buf HW_ETHER PROTO_IPv4 6 4 ARP_REP (nic_mac s) (sb_dst_addrs buf ! 1) (sb_src_addrs buf ! 0) (sb_src_addrs buf ! 1) s;
       (_, s) \<leftarrow> arp_send send buf s;
       Some (buf, s)
     }
     else Some (buf, s)
   }"

definition arp_recv :: "(ptr \<Rightarrow> u16 \<Rightarrow> 'a net_scheme \<Rightarrow> 'a net_scheme option) \<Rightarrow> sock_buf \<Rightarrow> 'a net_scheme \<Rightarrow>
    (error_t \<times> sock_buf \<times> 'a net_scheme) option" where
  "arp_recv send buf s =
     (let arp = sb_data buf; m = net_bytes s in
      if read16 m arp \<noteq> htons HW_ETHER then Some (ERROR_OCCUR, buf, s)
      else if ntohs (read16 m (arp + 2)) = PROTO_IPv4 then
        (if m (arp + 5) \<noteq> 4 then Some (ERROR_OCCUR, buf, s)
         else do { (buf, s) \<leftarrow> arp_receive_ipv4 send buf s; Some (ERROR_OK, buf, s) })
      else Some (ERROR_OK, buf, s))"

definition init_arp :: "bool \<Rightarrow> u32 \<Rightarrow> 'a net_scheme \<Rightarrow> (error_t \<times> 'a net_scheme) option" where
  "init_arp granted layer s = net_layer_register_proto granted layer (net_protocol_create 0x0806 \<lparr>op_recv = Arp_Recv, op_send = Arp_Send\<rparr>) s"

definition eth_recv :: "(ptr \<Rightarrow> u16 \<Rightarrow> 'a net_scheme \<Rightarrow> 'a net_scheme option) \<Rightarrow> sock_buf \<Rightarrow> 'a net_scheme \<Rightarrow> (sock_buf \<times> 'a net_scheme) option" where
  "eth_recv send buf s = do {
     let eth = sb_data buf;
     let m = net_bytes s;
     mine \<leftarrow> eth_cmp_mac (load m eth 6) (nic_mac s);
     all' \<leftarrow> (if mine then Some True else eth_cmp_mac (load m eth 6) mac_broadcast);
     if \<not> all' then Some (buf, s)
     else do {
       let buf = buf\<lparr>sb_dst_addrs := put_addr 0 (load m eth 6) (sb_dst_addrs buf)\<rparr>;
       let buf = buf\<lparr>sb_src_addrs := put_addr 0 (load m (eth + 6) 6) (sb_src_addrs buf)\<rparr>;
       let eth_type = ntohs (read16 m (eth + 12));
       let buf = sock_buf_push buf 14;
       if eth_type = 0x0806 then do { (_, buf, s) \<leftarrow> arp_recv send buf s; Some (buf, s) } else Some (buf, s)
     }
   }"

subsection \<open>Internet protocol\<close>

primrec checksum_loop :: "nat \<Rightarrow> u32 \<Rightarrow> mem \<Rightarrow> u32 \<Rightarrow> u32" where
  \<comment> \<open>\<open>n\<close> words remain, the next is at \<open>p\<close>.\<close>
  "checksum_loop 0 p m acc = acc"
| "checksum_loop (Suc n) p m acc = checksum_loop n (p + 2) m (acc + ucast (read16 m p))"

definition ipv4_ihl :: "ptr \<Rightarrow> mem \<Rightarrow> u8" where
  \<comment> \<open>The bit field \<^verbatim>\<open>ihl\<close>: the low half of the first byte.\<close>
  "ipv4_ihl ip m = m ip AND 0xF"

definition ipv4_checksum :: "ptr \<Rightarrow> mem \<Rightarrow> u16" where
  "ipv4_checksum header m =
     (let len = 2 * ipv4_ihl header m;
        total = checksum_loop (unat len) header m 0;
        sum16 = (ucast (drop_bit 16 total + (total AND 0xffff)) :: u16)
      in NOT sum16)"

definition ipv4_create :: "sock_buf \<Rightarrow> u8 \<Rightarrow> u8 \<Rightarrow> u16 \<Rightarrow> u16 \<Rightarrow> u8 \<Rightarrow> u8 \<Rightarrow> u8 \<Rightarrow> bytes \<Rightarrow> bytes \<Rightarrow> bytes \<Rightarrow> u8 \<Rightarrow> u16 \<Rightarrow>
    'a net_scheme \<Rightarrow> (ptr \<times> sock_buf \<times> 'a net_scheme) option" where
  \<comment> \<open>Length at 2, identifier at 4, fragment field at 6, time to live at 8, protocol at 9, checksum at 10,
     addresses at 12 and 16, options at 20.\<close>
  "ipv4_create buf ecn dscp id' frag_offset flags ttl protocol src_ip dest_ip options options_len data_len s = do {
     let ip = sb_data buf;
     let m = net_bytes s;
     let m = m(ip := (m ip AND 0x0F) OR push_bit 4 4);
     let m = m(ip := (m ip AND 0xF0) OR (ucast ((20 + (ucast options_len :: u32)) div 4) AND 0x0F));
     let m = m(ip + 1 := (m (ip + 1) AND 0xFC) OR (ecn AND 3));
     let m = m(ip + 1 := (m (ip + 1) AND 3) OR push_bit 2 dscp);
     let m = write16 (ip + 2) (htons (20 + ucast options_len + data_len)) m;
     let m = write16 (ip + 4) (htons id') m;
     let m = write16 (ip + 6) (htons (push_bit 13 (ucast flags) OR (frag_offset AND NOT 0xE000))) m;
     let m = m(ip + 8 := ttl, ip + 9 := protocol);
     a \<leftarrow> first_bytes 4 src_ip;
     let m = store (ip + 12) a m;
     a \<leftarrow> first_bytes 4 dest_ip;
     let m = store (ip + 16) a m;
     a \<leftarrow> first_bytes (unat options_len) options;
     let m = store (ip + 20) a m;
     let m = write16 (ip + 10) (ipv4_checksum ip m) m;
     Some (ip, sock_buf_push buf (ucast (ipv4_ihl ip m) * 4), s\<lparr>net_bytes := m\<rparr>)
   }"

definition ipv4_send :: "(ptr \<Rightarrow> u16 \<Rightarrow> 's \<Rightarrow> 's option) \<Rightarrow> sock_buf \<Rightarrow> 's \<Rightarrow> (error_t \<times> 's) option" where
  "ipv4_send send buf s = do { s \<leftarrow> eth_send send buf s; Some (ERROR_OK, s) }"

definition ipv4_get_data_addr :: "ptr \<Rightarrow> mem \<Rightarrow> ptr" where
  "ipv4_get_data_addr header m = header + ucast (ipv4_ihl header m) * 4"

subsection \<open>Messages and datagrams\<close>

definition icmp_send :: "sock_buf \<Rightarrow> error_t" where
  "icmp_send buf = 0"

definition icmp_recv :: "sock_buf \<Rightarrow> error_t" where
  "icmp_recv buf = ERROR_OK"

definition udp_checksum :: "ptr \<Rightarrow> u16" where
  "udp_checksum header = 0"

definition udp_create :: "sock_buf \<Rightarrow> u16 \<Rightarrow> u16 \<Rightarrow> u16 \<Rightarrow> 'a net_scheme \<Rightarrow> ptr \<times> sock_buf \<times> 'a net_scheme" where
  "udp_create buf src_port dest_port data_len s =
     (let udp = sb_data buf;
        m = write16 (udp + 6) 0 (net_bytes s);
        m = write16 udp (htons src_port) m;
        m = write16 (udp + 2) (htons dest_port) m;
        m = write16 (udp + 4) (htons (8 + data_len)) m
      in (udp, sock_buf_push buf 8, s\<lparr>net_bytes := m\<rparr>))"

definition udp_send :: "(ptr \<Rightarrow> u16 \<Rightarrow> 's \<Rightarrow> 's option) \<Rightarrow> sock_buf \<Rightarrow> 's \<Rightarrow> (error_t \<times> 's) option" where
  "udp_send send buf s = do { (_, s) \<leftarrow> ipv4_send send buf s; Some (ERROR_OK, s) }"

definition udp_recv :: "sock_buf \<Rightarrow> 'a net_scheme \<Rightarrow> error_t \<times> sock_buf \<times> 'a net_scheme" where
  \<comment> \<open>\<^verbatim>\<open>(uint8*)udp->src_port\<close> is the value of the field used as an address.\<close>
  "udp_recv buf s =
     (let udp = sb_data buf;
        m = net_bytes s;
        buf = buf\<lparr>sb_src_addrs := put_addr 2 (load m (ucast (read16 m udp)) 2) (sb_src_addrs buf)\<rparr>;
        buf = buf\<lparr>sb_dst_addrs := put_addr 2 (load m (ucast (read16 m (udp + 2))) 2) (sb_dst_addrs buf)\<rparr>;
        s = (if ntohs (read16 m (udp + 2)) = 12345 then s\<lparr>udp_recved := udp_recved s + 1\<rparr> else s)
      in (ERROR_OK, sock_buf_push buf 8, s))"

partial_function (option) ipv4_recv :: "(ptr \<Rightarrow> u16 \<Rightarrow> 'a net_scheme \<Rightarrow> 'a net_scheme option) \<Rightarrow> sock_buf \<Rightarrow> 'a net_scheme \<Rightarrow>
    (error_t \<times> sock_buf \<times> 'a net_scheme) option" where
  \<comment> \<open>With the dispatch on the protocol's receive function; the sending functions as a receive function have the same type.\<close>
  [code]: "ipv4_recv send buf s = do {
     let ip = sb_data buf;
     let m = net_bytes s;
     let buf = buf\<lparr>sb_src_addrs := put_addr 1 (load m (ip + 12) 4) (sb_src_addrs buf)\<rparr>;
     let buf = buf\<lparr>sb_dst_addrs := put_addr 1 (load m (ip + 16) 4) (sb_dst_addrs buf)\<rparr>;
     let buf = sock_buf_push buf (ucast (ipv4_ihl ip m) * 4);
     n_proto \<leftarrow> net_layer_get_proto TRANSPORT_LAYER (ucast (m (ip + 9))) s;
     case n_proto of
       None \<Rightarrow> Some (ERROR_OCCUR, buf, s)
     | Some p \<Rightarrow> do {
         (_, buf, s) \<leftarrow> (case op_recv (np_ops p) of
             Arp_Recv \<Rightarrow> arp_recv send buf s
           | Ipv4_Recv \<Rightarrow> ipv4_recv send buf s
           | Icmp_Recv \<Rightarrow> Some (icmp_recv buf, buf, s)
           | Udp_Recv \<Rightarrow> Some (udp_recv buf s)
           | Arp_Send \<Rightarrow> do { (e, s) \<leftarrow> arp_send send buf s; Some (e, buf, s) }
           | Ipv4_Send \<Rightarrow> do { (e, s) \<leftarrow> ipv4_send send buf s; Some (e, buf, s) }
           | Udp_Send \<Rightarrow> do { (e, s) \<leftarrow> udp_send send buf s; Some (e, buf, s) }
           | Icmp_Send \<Rightarrow> Some (icmp_send buf, buf, s));
         Some (ERROR_OK, buf, s)
       }
   }"

definition init_ipv4 :: "bool \<Rightarrow> u32 \<Rightarrow> 'a net_scheme \<Rightarrow> (error_t \<times> 'a net_scheme) option" where
  "init_ipv4 granted layer s = net_layer_register_proto granted layer (net_protocol_create 0x0800 \<lparr>op_recv = Ipv4_Recv, op_send = Ipv4_Send\<rparr>) s"

definition init_icmp :: "bool \<Rightarrow> u32 \<Rightarrow> 'a net_scheme \<Rightarrow> (error_t \<times> 'a net_scheme) option" where
  "init_icmp granted layer s = net_layer_register_proto granted layer (net_protocol_create 1 \<lparr>op_recv = Icmp_Recv, op_send = Icmp_Send\<rparr>) s"

definition init_udp :: "bool \<Rightarrow> u32 \<Rightarrow> 'a net_scheme \<Rightarrow> (error_t \<times> 'a net_scheme) option" where
  "init_udp granted layer s = net_layer_register_proto granted layer (net_protocol_create 17 \<lparr>op_recv = Udp_Recv, op_send = Udp_Send\<rparr>) s"

end
