(* ===== verification/Net_Facts.thy ===== *)
theory Net_Facts
  imports Net
begin

text \<open>
  What the network stack does: the answer to an address resolution request, the header checksum, and
  a datagram sent and received.
\<close>

subsection \<open>Headers as runs of bytes\<close>

lemma store_append: "store a (xs @ ys) m = store (a + of_nat (length xs)) ys (store a xs m)"
  by (induction xs arbitrary: a m) (simp_all add: add.assoc)

lemma write16_store: "write16 a v m = store a [ucast v, ucast (drop_bit 8 v)] m"
  by (simp add: write16_def)

lemma byte_store: "m(a := x) = store a [x] m"
  by simp

lemma load_slice: "k + n \<le> l \<Longrightarrow> load m (a + of_nat k) n = take n (drop k (load m a l))"
  by (rule nth_equalityI) (simp_all add: load_def add.assoc)

lemma load_nth: "k < n \<Longrightarrow> load m a n ! k = m (a + of_nat k)"
  by (simp add: load_def)

lemma length_load [simp]: "length (load m a n) = n"
  by (simp add: load_def)

lemma read16_load: "k + 1 < n \<Longrightarrow> read16 m (a + of_nat k) = ucast (load m a n ! k) OR push_bit 8 (ucast (load m a n ! (k + 1)))"
  by (simp add: read16_def load_nth add.commute add.left_commute)

lemma cmp_loop_ok: "length a = i + n \<Longrightarrow> length b = i + n \<Longrightarrow> cmp_loop n i a b = Some (drop i a = drop i b)"
proof (induction n arbitrary: i)
  case (Suc n)
  then have d: "drop i a = a ! i # drop (i + 1) a" "drop i b = b ! i # drop (i + 1) b"
    using Cons_nth_drop_Suc [of i a] Cons_nth_drop_Suc [of i b] by simp_all
  show ?case using Suc.IH [of "i + 1"] Suc.prems by (simp add: d)
qed simp

subsection \<open>Address resolution\<close>

definition arp_frame :: "bytes \<Rightarrow> bytes \<Rightarrow> u8 \<Rightarrow> u8 \<Rightarrow> bytes \<Rightarrow> bytes \<Rightarrow> bytes \<Rightarrow> bytes \<Rightarrow> bytes" where
  \<comment> \<open>An Ethernet frame with an IPv4 address resolution message: both hardware addresses of the frame, the
     hardware length, the opcode, then the sender's and the target's hardware and protocol addresses.\<close>
  "arp_frame dest src hl opcode sha spa tha tpa =
     dest @ src @ [0x08, 0x06, 0, 1, 0x08, 0, hl, 4, 0, opcode] @ sha @ spa @ tha @ tpa"

definition fresh_buf :: "sock_buf \<Rightarrow> bool" where
  \<comment> \<open>A socket buffer as \<^verbatim>\<open>sock_buf_init\<close> leaves it.\<close>
  "fresh_buf buf \<longleftrightarrow> sb_data buf = sb_head buf \<and> sb_src_addrs buf = replicate 4 (replicate 16 0) \<and> sb_dst_addrs buf = replicate 4 (replicate 16 0)"

lemma eth_create_ok:
  assumes "length d = 6" and "length c = 6"
  shows "eth_create buf (d @ d') c t s = Some (sb_data buf, sock_buf_push buf 14,
    s\<lparr>net_bytes := store (sb_data buf) (d @ c @ [ucast (htons t), ucast (drop_bit 8 (htons t))]) (net_bytes s)\<rparr>)"
  using assms by (simp add: eth_create_def first_bytes_def store_append write16_store add.assoc Let_def)

lemma arp_create_ok:
  assumes l: "length a = 6" "length b = 4" "length c = 6" "length d = 4"
  shows "arp_create buf hw pr 6 4 op (a @ a') (b @ b') (c @ c') (d @ d') s = Some (sock_buf_push buf 28,
    s\<lparr>net_bytes := store (sb_data buf) ([ucast (htons hw), ucast (drop_bit 8 (htons hw)), ucast (htons pr), ucast (drop_bit 8 (htons pr)), 6, 4,
      ucast (htons op), ucast (drop_bit 8 (htons op))] @ a @ b @ c @ d) (net_bytes s)\<rparr>)"
proof -
  let ?p = "sb_data buf"
  let ?cs = "[ucast (htons hw), ucast (drop_bit 8 (htons hw)), ucast (htons pr), ucast (drop_bit 8 (htons pr)), 6, 4,
      ucast (htons op), ucast (drop_bit 8 (htons op))] @ a @ b @ c @ d"
  have st: "store (?p + 24) d (store (?p + 18) c (store (?p + 14) b (store (?p + 8) a (write16 (?p + 6) (htons op)
      ((write16 (?p + 2) (htons pr) (write16 ?p (htons hw) (net_bytes s)))(?p + 4 := 6, ?p + 5 := 4)))))) = store ?p ?cs (net_bytes s)"
    using l by (simp add: store_append write16_def add.assoc)
  have "unat (?p + 4 - ?p) = 4" "unat (?p + 5 - ?p) = 5" by simp_all
  then have v: "store ?p ?cs (net_bytes s) (?p + 4) = 6" "store ?p ?cs (net_bytes s) (?p + 5) = 4"
    using l by (subst store_at; simp)+
  show ?thesis
    using l st v by (simp add: arp_create_def first_bytes_def Let_def add.assoc)
qed

lemma arp_frame_fields:
  assumes f: "load m h 42 = arp_frame dest src hl opcode sha spa tha tpa"
    and l: "length dest = 6" "length src = 6" "length sha = 6" "length spa = 4" "length tha = 6" "length tpa = 4"
  shows "load m h 6 = dest" "load m (h + 6) 6 = src" "read16 m (h + 12) = 0x0608" "read16 m (h + 14) = 0x0100" "read16 m (h + 16) = 0x0008"
    "m (h + 19) = 4" "read16 m (h + 20) = push_bit 8 (ucast opcode)" "load m (h + 28) 4 = spa" "load m (h + 38) 4 = tpa"
proof -
  note s = load_slice [of _ _ 42 m h, unfolded f arp_frame_def]
  note r = read16_load [of _ 42 m h, unfolded f arp_frame_def]
  show "load m h 6 = dest" using s [of 0 6] l by simp
  show "load m (h + 6) 6 = src" using s [of 6 6] l by simp
  show "load m (h + 28) 4 = spa" using s [of 28 4] l by simp
  show "load m (h + 38) 4 = tpa" using s [of 38 4] l by simp
  show "read16 m (h + 12) = 0x0608" using r [of 12] l by (simp add: nth_append)
  show "read16 m (h + 14) = 0x0100" using r [of 14] l by (simp add: nth_append)
  show "read16 m (h + 16) = 0x0008" using r [of 16] l by (simp add: nth_append)
  show "read16 m (h + 20) = push_bit 8 (ucast opcode)" using r [of 20] l by (simp add: nth_append)
  show "m (h + 19) = 4" using load_nth [of 19 42 m h, unfolded f arp_frame_def] l by (simp add: nth_append)
qed

lemma unat_ucast_8_16 [simp]: "unat (ucast a :: u16) = unat a" for a :: u8
  using unsigned_less [of a, where ?'a = nat] by (simp add: unsigned_ucast_eq take_bit_nat_eq_self)

lemma ntohs_low: "ntohs (push_bit 8 (ucast x)) = (ucast x :: u16)" for x :: u8
  unfolding ntohs_def by (rule bit_word_eqI) (auto simp: bit_simps dest: bit_imp_le_length)

lemma arp_reply_ok:
  assumes d: "sb_data buf = h + 14" "sb_head buf = h" and len: "length src = 6" "length (nic_mac s) = 6" "length spa = 4"
    and a: "sb_src_addrs buf ! 0 = src @ x0" "sb_src_addrs buf ! 1 = spa @ x1" "sb_dst_addrs buf ! 1 = my_ip @ x2"
  shows "do { let buf = sock_buf_reset buf;
       (_, buf, s) \<leftarrow> eth_create buf (sb_src_addrs buf ! 0) (nic_mac s) 0x0806 s;
       (buf, s) \<leftarrow> arp_create buf HW_ETHER PROTO_IPv4 6 4 ARP_REP (nic_mac s) (sb_dst_addrs buf ! 1) (sb_src_addrs buf ! 0) (sb_src_addrs buf ! 1) s;
       (_, s) \<leftarrow> arp_send send buf s;
       Some (buf, s) } = map_option (Pair (buf\<lparr>sb_data := h + 42\<rparr>)) (send h 42
         (s\<lparr>net_bytes := store h (arp_frame src (nic_mac s) 6 2 (nic_mac s) my_ip src spa) (net_bytes s)\<rparr>))"
proof -
  let ?b = "sock_buf_reset buf" and ?eth = "src @ nic_mac s @ [ucast (htons 0x0806), ucast (drop_bit 8 (htons 0x0806))]"
  let ?s = "s\<lparr>net_bytes := store h ?eth (net_bytes s)\<rparr>"
  have b: "sb_data ?b = h" "sb_src_addrs ?b = sb_src_addrs buf" "sb_dst_addrs ?b = sb_dst_addrs buf" using d by (simp_all add: sock_buf_reset_def)
  have e: "eth_create ?b (sb_src_addrs ?b ! 0) (nic_mac s) 0x0806 s = Some (h, sock_buf_push ?b 14, ?s)"
    using eth_create_ok [OF len(1,2), where buf = ?b and d' = x0 and t = "0x0806" and s = s] a(1) b by simp
  let ?b2 = "sock_buf_push ?b 14"
  have b2: "sb_data ?b2 = h + 14" "sb_src_addrs ?b2 = sb_src_addrs buf" "sb_dst_addrs ?b2 = sb_dst_addrs buf" using b by (simp_all add: sock_buf_push_def)
  have ml: "length my_ip = 4" by (simp add: my_ip_def)
  note ac = arp_create_ok [OF len(2) ml len(1,3), where buf = ?b2 and hw = HW_ETHER and pr = PROTO_IPv4 and op = ARP_REP
      and a' = "[]" and b' = x2 and c' = x0 and d' = x1 and s = ?s]
  have st: "store (h + 14) xs (store h ?eth m) = store h (?eth @ xs) m" for xs m using len by (simp add: store_append add.assoc)
  have w: "htons HW_ETHER = 0x0100" "htons PROTO_IPv4 = 8" "htons ARP_REP = 0x0200" "htons 0x0806 = 0x0608"
    by (simp_all add: htons_def HW_ETHER_def PROTO_IPv4_def ARP_REP_def)
  let ?arp = "[ucast (htons HW_ETHER), ucast (drop_bit 8 (htons HW_ETHER)), ucast (htons PROTO_IPv4), ucast (drop_bit 8 (htons PROTO_IPv4)), 6, 4,
      ucast (htons ARP_REP), ucast (drop_bit 8 (htons ARP_REP))] @ nic_mac s @ my_ip @ src @ spa"
  have "?eth @ ?arp = arp_frame src (nic_mac s) 6 2 (nic_mac s) my_ip src spa" by (simp add: w arp_frame_def)
  then have m: "store (h + 14) ?arp (store h ?eth m) = store h (arp_frame src (nic_mac s) 6 2 (nic_mac s) my_ip src spa) m" for m by (simp only: st)
  have r: "arp_create ?b2 HW_ETHER PROTO_IPv4 6 4 ARP_REP (nic_mac ?s) (sb_dst_addrs ?b2 ! 1) (sb_src_addrs ?b2 ! 0) (sb_src_addrs ?b2 ! 1) ?s =
    Some (sock_buf_push ?b2 28, s\<lparr>net_bytes := store h (arp_frame src (nic_mac s) 6 2 (nic_mac s) my_ip src spa) (net_bytes s)\<rparr>)"
    using ac unfolding a b2 append_Nil2 by (simp add: m del: store.simps append.simps append_assoc)
  have fin: "sock_buf_push ?b2 28 = buf\<lparr>sb_data := h + 42\<rparr>" using d by (simp add: sock_buf_push_def sock_buf_reset_def)
  have hl: "sock_buf_get_header_len (buf\<lparr>sb_data := h + 42\<rparr>) = 42" using d by (simp add: sock_buf_get_header_len_def)
  show ?thesis
    unfolding Let_def e bind.bind_lunit prod.case r fin
    using d hl by (cases "send h 42 (s\<lparr>net_bytes := store h (arp_frame src (nic_mac s) 6 2 (nic_mac s) my_ip src spa) (net_bytes s)\<rparr>)")
      (simp_all add: arp_send_def eth_send_def Let_def)
qed

lemma arp_exchange:
  assumes frame: "load (net_bytes s) (sb_head buf) 42 = arp_frame dest src hl opcode sha spa tha tpa"
    and len: "length dest = 6" "length src = 6" "length sha = 6" "length spa = 4" "length tha = 6" "length tpa = 4" "length (nic_mac s) = 6"
    and buf: "fresh_buf buf"
  shows "\<exists>b1 b2. sb_head b1 = sb_head buf \<and> sb_head b2 = sb_head buf \<and> eth_recv send buf s =
    (if dest \<noteq> nic_mac s \<and> dest \<noteq> mac_broadcast then Some (buf, s)
     else if tpa \<noteq> my_ip \<or> opcode \<noteq> 1 then Some (b1, s)
     else map_option (Pair b2) (send (sb_head buf) 42
       (s\<lparr>net_bytes := store (sb_head buf) (arp_frame src (nic_mac s) 6 2 (nic_mac s) my_ip src spa) (net_bytes s)\<rparr>)))"
proof -
  let ?h = "sb_head buf" and ?m = "net_bytes s"
  note f = arp_frame_fields [OF frame len(1-6)]
  have d: "sb_data buf = ?h" and a: "sb_src_addrs buf = replicate 4 (replicate 16 0)" "sb_dst_addrs buf = replicate 4 (replicate 16 0)"
    using buf by (simp_all add: fresh_buf_def)
  have cmp: "eth_cmp_mac dest (nic_mac s) = Some (dest = nic_mac s)" "eth_cmp_mac dest mac_broadcast = Some (dest = mac_broadcast)"
    using cmp_loop_ok [of dest 0 6] len by (simp_all add: eth_cmp_mac_def mac_broadcast_def)
  have ip: "protocol_addr_equal tpa my_ip 4 = Some (tpa = my_ip)"
    using cmp_loop_ok [of tpa 0 4 my_ip] len by (simp add: protocol_addr_equal_def my_ip_def)
  let ?b0 = "buf\<lparr>sb_dst_addrs := put_addr 0 dest (sb_dst_addrs buf), sb_src_addrs := put_addr 0 src (sb_src_addrs buf), sb_data := ?h + 14\<rparr>"
  let ?b1 = "?b0\<lparr>sb_src_addrs := put_addr 1 spa (sb_src_addrs ?b0), sb_dst_addrs := put_addr 1 tpa (sb_dst_addrs ?b0)\<rparr>"
  have rc: "eth_recv send buf s = (if dest \<noteq> nic_mac s \<and> dest \<noteq> mac_broadcast then Some (buf, s)
     else do { (_, buf, s) \<leftarrow> arp_recv send ?b0 s; Some (buf, s) })"
    using f(1,2,3) d cmp by (auto simp: eth_recv_def Let_def ntohs_def sock_buf_push_def)
  have off: "?h + 14 + 2 = ?h + 16" "?h + 14 + 5 = ?h + 19" "?h + 14 + 6 = ?h + 20" "?h + 14 + 14 = ?h + 28" "?h + 14 + 24 = ?h + 38"
    by simp_all
  have ar: "arp_recv send ?b0 s = do { (buf, s) \<leftarrow> arp_receive_ipv4 send ?b0 s; Some (ERROR_OK, buf, s) }"
    using f(4,5,6) by (simp add: arp_recv_def off htons_def ntohs_def HW_ETHER_def PROTO_IPv4_def)
  have op: "ntohs (read16 ?m (?h + 20)) = ARP_REQ \<longleftrightarrow> opcode = 1"
  proof -
    have "unat (ucast opcode :: u16) = unat opcode" by (rule unat_ucast_8_16)
    then show ?thesis unfolding f(7) ntohs_low ARP_REQ_def by (auto simp: word_unat_eq_iff)
  qed
  let ?r = "map_option (Pair (?b1\<lparr>sb_data := ?h + 42\<rparr>)) (send ?h 42
       (s\<lparr>net_bytes := store ?h (arp_frame src (nic_mac s) 6 2 (nic_mac s) my_ip src spa) ?m\<rparr>))"
  have rv: "arp_receive_ipv4 send ?b0 s = (if tpa \<noteq> my_ip \<or> opcode \<noteq> 1 then Some (?b1, s) else ?r)"
  proof (cases "tpa = my_ip \<and> opcode = 1")
    case True
    have x: "sb_src_addrs ?b1 ! 0 = src @ drop 6 (replicate 16 0)" "sb_src_addrs ?b1 ! 1 = spa @ drop 4 (replicate 16 0)"
      "sb_dst_addrs ?b1 ! 1 = my_ip @ drop 4 (replicate 16 0)"
      using a len True by (simp_all add: put_addr_def)
    have h: "sb_data ?b1 = ?h + 14" "sb_head ?b1 = ?h" by simp_all
    have "arp_receive_ipv4 send ?b0 s = ?r"
      using arp_reply_ok [OF h len(2,7,4) x, of send] True ip op f(8,9)
      by (simp add: arp_receive_ipv4_def off Let_def)
    then show ?thesis using True by simp
  next
    case False
    then show ?thesis using ip op f(8,9) by (auto simp: arp_receive_ipv4_def off Let_def)
  qed
  have "do { (_, buf, s) \<leftarrow> do { (buf, s) \<leftarrow> map_option (Pair b) z; Some (ERROR_OK, buf, s) }; Some (buf, s) } = map_option (Pair b) z" for b z
    by (cases z) simp_all
  then show ?thesis unfolding rc ar rv by (intro exI [of _ ?b1] exI [of _ "?b1\<lparr>sb_data := ?h + 42\<rparr>"]) auto
qed

definition asks_for_us :: "bytes \<Rightarrow> bytes \<Rightarrow> bool" where
  \<comment> \<open>The frame is for this hardware address or for all, and carries a request that asks, over
     Ethernet, for the IPv4 address of this machine. The hardware length at 18 is never looked at.\<close>
  "asks_for_us mac fr \<longleftrightarrow> (take 6 fr = mac \<or> take 6 fr = mac_broadcast) \<and> take 2 (drop 12 fr) = [0x08, 0x06] \<and>
     take 2 (drop 14 fr) = [0, 1] \<and> take 2 (drop 16 fr) = [0x08, 0] \<and> fr ! 19 = 4 \<and> take 2 (drop 20 fr) = [0, 1] \<and>
     take 4 (drop 38 fr) = my_ip"

lemma ntohs_read16: "ntohs (read16 m p) = v \<longleftrightarrow> m p = ucast (drop_bit 8 v) \<and> m (p + 1) = ucast v"
proof
  assume "ntohs (read16 m p) = v"
  then have v: "v = ntohs (read16 m p)" by simp
  show "m p = ucast (drop_bit 8 v) \<and> m (p + 1) = ucast v"
    unfolding v by (intro conjI bit_word_eqI) (auto simp: ntohs_def read16_def bit_simps dest: bit_imp_le_length)
next
  assume "m p = ucast (drop_bit 8 v) \<and> m (p + 1) = ucast v"
  then show "ntohs (read16 m p) = v"
    by (intro bit_word_eqI) (auto simp: ntohs_def read16_def bit_simps dest: bit_imp_le_length)
qed

lemma htons_swap: "x = htons v \<longleftrightarrow> ntohs x = v"
proof -
  have "ntohs (htons v) = v" by (rule bit_word_eqI) (auto simp: ntohs_def htons_def bit_simps)
  moreover have "htons (ntohs x) = x" by (rule bit_word_eqI) (auto simp: ntohs_def htons_def bit_simps)
  ultimately show ?thesis by auto
qed

lemma load_pair: "k + 2 \<le> n \<Longrightarrow> take 2 (drop k (load m a n)) = [x, y] \<longleftrightarrow> m (a + of_nat k) = x \<and> m (a + of_nat k + 1) = y"
proof -
  assume "k + 2 \<le> n"
  then have "take 2 (drop k (load m a n)) = load m (a + of_nat k) 2" by (simp add: load_slice)
  then show ?thesis by (simp add: load_def numeral_2_eq_2)
qed

lemma take_drop_join: "k + n = l \<Longrightarrow> take n (drop k xs) @ drop l xs = drop k xs"
  by (metis add.commute append_take_drop_id drop_drop)

lemma other_frames_ignored:
  assumes "\<not> asks_for_us (nic_mac s) (load (net_bytes s) (sb_head buf) 42)" and "length (nic_mac s) = 6" and "fresh_buf buf"
  shows "\<exists>b. sb_head b = sb_head buf \<and> eth_recv send buf s = Some (b, s)"
proof -
  let ?h = "sb_head buf" and ?m = "net_bytes s"
  have d: "sb_data buf = ?h" using assms(3) by (simp add: fresh_buf_def)
  have cmp: "eth_cmp_mac (load ?m ?h 6) (nic_mac s) = Some (load ?m ?h 6 = nic_mac s)"
    "eth_cmp_mac (load ?m ?h 6) mac_broadcast = Some (load ?m ?h 6 = mac_broadcast)"
    using cmp_loop_ok [of "load ?m ?h 6" 0 6] assms(2) by (simp_all add: eth_cmp_mac_def mac_broadcast_def)
  have ip: "protocol_addr_equal (load ?m (?h + 38) 4) my_ip 4 = Some (load ?m (?h + 38) 4 = my_ip)"
    using cmp_loop_ok [of "load ?m (?h + 38) 4" 0 4 my_ip] by (simp add: protocol_addr_equal_def my_ip_def)
  have slices: "load ?m ?h 6 = take 6 (load ?m ?h 42)" "load ?m (?h + 38) 4 = take 4 (drop 38 (load ?m ?h 42))"
    "?m (?h + 19) = load ?m ?h 42 ! 19"
    using load_slice [of 0 6 42 ?m ?h] load_slice [of 38 4 42 ?m ?h] load_nth [of 19 42 ?m ?h] by simp_all
  have no: "\<not> ((load ?m ?h 6 = nic_mac s \<or> load ?m ?h 6 = mac_broadcast) \<and> ntohs (read16 ?m (?h + 12)) = 0x0806 \<and>
      read16 ?m (?h + 14) = htons HW_ETHER \<and> ntohs (read16 ?m (?h + 16)) = PROTO_IPv4 \<and> ?m (?h + 19) = 4 \<and>
      ntohs (read16 ?m (?h + 20)) = ARP_REQ \<and> load ?m (?h + 38) 4 = my_ip)"
    using assms(1) unfolding slices htons_swap ntohs_read16 asks_for_us_def
    by (simp add: load_pair HW_ETHER_def PROTO_IPv4_def ARP_REQ_def add.assoc)
  have off: "?h + 14 + 2 = ?h + 16" "?h + 14 + 5 = ?h + 19" "?h + 14 + 6 = ?h + 20" "?h + 14 + 14 = ?h + 28" "?h + 14 + 24 = ?h + 38"
    by simp_all
  let ?b0 = "buf\<lparr>sb_dst_addrs := put_addr 0 (load ?m ?h 6) (sb_dst_addrs buf), sb_src_addrs := put_addr 0 (load ?m (?h + 6) 6) (sb_src_addrs buf), sb_data := ?h + 14\<rparr>"
  let ?b1 = "?b0\<lparr>sb_src_addrs := put_addr 1 (load ?m (?h + 28) 4) (sb_src_addrs ?b0), sb_dst_addrs := put_addr 1 (load ?m (?h + 38) 4) (sb_dst_addrs ?b0)\<rparr>"
  have rc: "eth_recv send buf s = (if load ?m ?h 6 \<noteq> nic_mac s \<and> load ?m ?h 6 \<noteq> mac_broadcast then Some (buf, s)
     else if ntohs (read16 ?m (?h + 12)) \<noteq> 0x0806 then Some (?b0, s)
     else do { (_, buf, s) \<leftarrow> arp_recv send ?b0 s; Some (buf, s) })"
  proof -
    obtain dst where t: "load ?m ?h 6 = dst" by blast
    show ?thesis using cmp unfolding t by (auto simp: eth_recv_def Let_def d t sock_buf_push_def)
  qed
  have ar: "arp_recv send ?b0 s = (if read16 ?m (?h + 14) \<noteq> htons HW_ETHER then Some (ERROR_OCCUR, ?b0, s)
     else if ntohs (read16 ?m (?h + 16)) \<noteq> PROTO_IPv4 then Some (ERROR_OK, ?b0, s)
     else if ?m (?h + 19) \<noteq> 4 then Some (ERROR_OCCUR, ?b0, s)
     else do { (buf, s) \<leftarrow> arp_receive_ipv4 send ?b0 s; Some (ERROR_OK, buf, s) })"
    by (simp add: arp_recv_def Let_def off)
  have rv: "arp_receive_ipv4 send ?b0 s = Some (?b1, s)"
    if "\<not> (load ?m (?h + 38) 4 = my_ip \<and> ntohs (read16 ?m (?h + 20)) = ARP_REQ)"
    using that ip by (auto simp: arp_receive_ipv4_def off Let_def)
  have h: "sb_head ?b0 = ?h" "sb_head ?b1 = ?h" by simp_all
  show ?thesis
  proof (cases "load ?m (?h + 38) 4 = my_ip \<and> ntohs (read16 ?m (?h + 20)) = ARP_REQ")
    case True
    then show ?thesis unfolding rc ar using no h by (cases "read16 ?m (?h + 14) = htons HW_ETHER") auto
  next
    case False
    then show ?thesis unfolding rc ar rv [OF False] using h by auto
  qed
qed

text \<open>
  C19. What a received Ethernet frame makes the machine do, whatever its bytes. If the frame is for this
  hardware address or for all and carries a request over Ethernet for our IPv4 address, the card is
  handed one frame of 42 bytes, in place of the request in the same buffer: the reply, addressed to
  the frame's sender, that tells it our hardware address and repeats its protocol address. Every
  other frame, of another type, for another machine, of other hardware or protocol types or
  lengths, with another opcode or for another address, sends nothing and changes no state.
\<close>

theorem arp_request_answered:
  assumes fr: "fr = load (net_bytes s) (sb_head buf) 42" and "length (nic_mac s) = 6" and "fresh_buf buf"
  shows "\<exists>b1 b2. eth_recv send buf s =
    (if asks_for_us (nic_mac s) fr then
       map_option (Pair b2) (send (sb_head buf) 42 (s\<lparr>net_bytes := store (sb_head buf)
         (arp_frame (take 6 (drop 6 fr)) (nic_mac s) 6 2 (nic_mac s) my_ip (take 6 (drop 6 fr)) (take 4 (drop 28 fr))) (net_bytes s)\<rparr>))
     else Some (b1, s))"
proof (cases "asks_for_us (nic_mac s) fr")
  case False
  then show ?thesis using other_frames_ignored [OF _ assms(2,3), of send] fr by (simp add: ex_comm) blast
next
  case True
  let ?x = "\<lambda>k n. take n (drop k fr)"
  have l: "length fr = 42" by (simp add: fr)
  have "?x 38 4 = drop 38 fr" "?x 32 6 @ drop 38 fr = drop 32 fr" "?x 28 4 @ drop 32 fr = drop 28 fr" "?x 22 6 @ drop 28 fr = drop 22 fr"
    "?x 20 2 @ drop 22 fr = drop 20 fr" "?x 18 2 @ drop 20 fr = drop 18 fr" "?x 16 2 @ drop 18 fr = drop 16 fr"
    "?x 14 2 @ drop 16 fr = drop 14 fr" "?x 12 2 @ drop 14 fr = drop 12 fr" "?x 6 6 @ drop 12 fr = drop 6 fr" "?x 0 6 @ drop 6 fr = fr"
    using l take_drop_join [of 0 6 6 fr] by (simp_all add: take_drop_join)
  moreover have "?x 18 2 = [fr ! 18, fr ! 19]"
    using l Cons_nth_drop_Suc [of 18 fr] Cons_nth_drop_Suc [of 19 fr] by (simp add: numeral_2_eq_2 flip: Cons_nth_drop_Suc)
  ultimately have "fr = ?x 0 6 @ ?x 6 6 @ ?x 12 2 @ ?x 14 2 @ ?x 16 2 @ [fr ! 18, fr ! 19] @ ?x 20 2 @ ?x 22 6 @ ?x 28 4 @ ?x 32 6 @ ?x 38 4"
    by simp
  also have "\<dots> = arp_frame (?x 0 6) (?x 6 6) (fr ! 18) 1 (?x 22 6) (?x 28 4) (?x 32 6) my_ip"
    using True by (simp add: asks_for_us_def arp_frame_def)
  finally have f: "load (net_bytes s) (sb_head buf) 42 = arp_frame (?x 0 6) (?x 6 6) (fr ! 18) 1 (?x 22 6) (?x 28 4) (?x 32 6) my_ip"
    unfolding fr by simp
  have ln: "length (?x 0 6) = 6" "length (?x 6 6) = 6" "length (?x 22 6) = 6" "length (?x 28 4) = 4" "length (?x 32 6) = 6" "length my_ip = 4"
    using l by (simp_all add: my_ip_def)
  have "?x 0 6 = nic_mac s \<or> ?x 0 6 = mac_broadcast" using True by (simp add: asks_for_us_def)
  then show ?thesis using True arp_exchange [OF f ln assms(2,3), of send] by auto
qed

definition request_net :: net where
  \<comment> \<open>A machine with the request of 192.168.1.1 for our address at 0x1000.\<close>
  "request_net = \<lparr>net_bytes = store 0x1000 (arp_frame mac_broadcast [1, 2, 3, 4, 5, 6] 6 1 [1, 2, 3, 4, 5, 6] [192, 168, 1, 1] (replicate 6 0) my_ip) (\<lambda>_. 0),
     nic_mac = [9, 8, 7, 6, 5, 4], net_layers = [], sock_ind = 0, udp_recved = 0\<rparr>"

definition request_buf :: sock_buf where
  "request_buf = \<lparr>sb_src_addrs = replicate 4 (replicate 16 0), sb_dst_addrs = replicate 4 (replicate 16 0), sb_head = 0x1000, sb_data = 0x1000, sb_tail = 0x1040\<rparr>"

theorem arp_request_answered_witness:
  "(\<exists>b2. eth_recv (\<lambda>p n s. if n = 42 then Some s else None) request_buf request_net =
     Some (b2, request_net\<lparr>net_bytes := store 0x1000 (arp_frame [1, 2, 3, 4, 5, 6] [9, 8, 7, 6, 5, 4] 6 2 [9, 8, 7, 6, 5, 4] my_ip [1, 2, 3, 4, 5, 6] [192, 168, 1, 1])
       (net_bytes request_net)\<rparr>)) \<and>
   (\<exists>b1. eth_recv (\<lambda>p n s. None) request_buf (request_net\<lparr>net_bytes := (\<lambda>_. 0)\<rparr>) = Some (b1, request_net\<lparr>net_bytes := (\<lambda>_. 0)\<rparr>))"
proof -
  let ?f = "arp_frame mac_broadcast [1, 2, 3, 4, 5, 6] 6 1 [1, 2, 3, 4, 5, 6] [192, 168, 1, 1] (replicate 6 0) my_ip"
  have "length ?f = 42" by (simp add: arp_frame_def mac_broadcast_def my_ip_def)
  then have f: "?f = load (net_bytes request_net) (sb_head request_buf) 42"
    using load_stored [of ?f "0x1000" "\<lambda>_. 0"] by (simp add: request_net_def request_buf_def del: store.simps)
  have l: "nic_mac request_net = [9, 8, 7, 6, 5, 4]" "sb_head request_buf = 0x1000" by (simp_all add: request_net_def request_buf_def)
  have b: "fresh_buf request_buf" by (simp add: fresh_buf_def request_buf_def)
  have y: "asks_for_us (nic_mac request_net) ?f" unfolding l by code_simp
  have p: "take 6 (drop 6 ?f) = [1, 2, 3, 4, 5, 6]" "take 4 (drop 28 ?f) = [192, 168, 1, 1]"
    by (simp_all add: arp_frame_def mac_broadcast_def my_ip_def)
  let ?z = "request_net\<lparr>net_bytes := (\<lambda>_. 0)\<rparr>"
  have n: "\<not> asks_for_us (nic_mac ?z) (load (net_bytes ?z) (sb_head request_buf) 42)"
    by (simp add: asks_for_us_def l load_def upt_rec)
  have m: "length (nic_mac request_net) = 6" "length (nic_mac ?z) = 6" by (simp_all add: l)
  show ?thesis
    using arp_request_answered [OF f m(1) b, of "\<lambda>p n s. if n = 42 then Some s else None"]
      arp_request_answered [OF refl m(2) b, of "\<lambda>p n s. None"] y n
    unfolding p l by (auto simp del: store.simps)
qed

subsection \<open>Headers and datagrams\<close>

definition word_at :: "mem \<Rightarrow> u32 \<Rightarrow> nat \<Rightarrow> nat" where
  "word_at m ip k = unat (read16 m (ip + 2 * of_nat k))"

definition rest_sum :: "mem \<Rightarrow> u32 \<Rightarrow> nat \<Rightarrow> nat" where
  \<comment> \<open>The sum of the first \<open>n\<close> words without the checksum field, which is word 5.\<close>
  "rest_sum m ip n = (\<Sum>k\<in>{0..<n} - {5}. word_at m ip k)"

lemma word_at_bound: "word_at m ip k < 65536"
  using unsigned_less [of "read16 m (ip + 2 * of_nat k)", where ?'a = nat] by (simp add: word_at_def)

lemma checksum_loop_sum:
  "unat acc + n * 65536 < 2 ^ 32 \<Longrightarrow> unat (checksum_loop n p m acc) = unat acc + (\<Sum>k = 0..<n. word_at m p k)"
proof (induction n arbitrary: p acc)
  case (Suc n)
  have b: "unat (ucast (read16 m p) :: u32) < 65536" using word_at_bound [of m p 0] by (simp add: word_at_def)
  have a: "unat (acc + ucast (read16 m p)) = unat acc + word_at m p 0"
    using Suc.prems b by (simp add: unat_word_ariths word_at_def)
  have "(\<Sum>k = 0..<n. word_at m (p + 2) k) = (\<Sum>k = 0..<n. word_at m p (Suc k))"
    by (rule sum.cong) (simp_all add: word_at_def algebra_simps)
  moreover have "(\<Sum>k = 0..<Suc n. word_at m p k) = word_at m p 0 + (\<Sum>k = 0..<n. word_at m p (Suc k))"
    by (simp add: sum.atLeast0_lessThan_Suc_shift comp_def del: sum.op_ivl_Suc)
  moreover have "unat (acc + ucast (read16 m p)) + n * 65536 < 2 ^ 32" using Suc.prems word_at_bound [of m p 0] unfolding a by simp
  ultimately show ?case using Suc.IH [of "acc + ucast (read16 m p)" "p + 2"] by (simp add: a)
qed simp

lemma header_sum_split: "5 < n \<Longrightarrow> (\<Sum>k = 0..<n. word_at m ip k) = rest_sum m ip n + word_at m ip 5"
  unfolding rest_sum_def by (subst sum.remove [of _ 5]) auto

lemma fold_word: "unat (NOT (ucast (drop_bit 16 t + (t AND 0xffff)) :: u16)) = 65535 - (unat t div 65536 + unat t mod 65536) mod 65536" for t :: u32
proof -
  have h: "unat (drop_bit 16 t) = unat t div 65536" by (simp add: drop_bit_eq_div unat_div)
  have l: "unat (t AND 0xffff) = unat t mod 65536"
  proof -
    have "t AND 0xffff = take_bit 16 t" by (simp add: take_bit_eq_mask mask_numeral)
    then show ?thesis by (simp add: unsigned_take_bit_eq) (simp add: take_bit_eq_mod)
  qed
  have "unat t div 65536 < 65536" using unsigned_less [of t, where ?'a = nat] by simp
  then have "unat (drop_bit 16 t + (t AND 0xffff)) = unat t div 65536 + unat t mod 65536"
    using h l by (simp add: unat_word_ariths)
  then have "unat (ucast (drop_bit 16 t + (t AND 0xffff)) :: u16) = (unat t div 65536 + unat t mod 65536) mod 65536"
    by (simp add: unsigned_ucast_eq take_bit_eq_mod)
  moreover have "unat (NOT x) = 65535 - unat x" for x :: u16
  proof -
    have n: "NOT x = - 1 - x" by (simp add: not_eq_complement)
    have m: "unat (- 1 :: u16) = 65535" by (simp add: unsigned_minus_1_eq_mask mask_eq_exp_minus_1)
    have "x \<le> - 1" by simp
    from unat_sub [OF this] show ?thesis unfolding n m .
  qed
  ultimately show ?thesis by simp
qed

lemma dvd_65535: "0 < z \<Longrightarrow> z < 131070 \<Longrightarrow> 65535 dvd z \<longleftrightarrow> z = (65535 :: nat)"
proof
  assume b: "0 < z" "z < 131070" and "65535 dvd z"
  then obtain k where k: "z = 65535 * k" by (elim dvdE)
  then have "k = 1" using b by simp
  then show "z = 65535" using k by simp
qed simp

lemma folded_valid:
  fixes R x T :: nat
  assumes c: "(R + x) div 65536 + (R + x) mod 65536 < 65536" and x: "x < 65536" and R: "0 < R" "R < 2 ^ 31"
    and T: "T = R + (65535 - ((R + x) div 65536 + (R + x) mod 65536))"
  shows "(T div 65536 + T mod 65536) mod 65536 = 65535 \<longleftrightarrow> x = 0 \<or> x = 65535"
proof -
  obtain q r where q: "R + x = q * 65536 + r" "q + r < 65536" "r < 65536"
    using c by (metis div_mult_mod_eq mod_less_divisor zero_less_numeral)
  then have d: "(R + x) div 65536 = q" "(R + x) mod 65536 = r" by simp_all
  have s: "T + x = (q + 1) * 65535" using T q unfolding d by simp
  obtain a b where t: "T = a * 65536 + b" "b < 65536" by (metis div_mult_mod_eq mod_less_divisor zero_less_numeral)
  have f: "T div 65536 + T mod 65536 = a + b" using t by simp
  have "0 < T" unfolding T using R by simp
  then have "0 < a + b" using t by (cases "a = 0") simp_all
  moreover have "a < 32770" using t T R q unfolding d by simp
  ultimately have a: "a < 32770" "0 < a + b" by simp_all
  have "(a + b) mod 65536 = 65535 \<longleftrightarrow> a + b = 65535"
  proof
    assume m: "(a + b) mod 65536 = 65535"
    have "a + b < 131071" using a t by simp
    moreover have "65535 \<le> a + b" using mod_less_eq_dividend [of "a + b" 65536] unfolding m .
    moreover have "65536 \<le> a + b \<Longrightarrow> (a + b) mod 65536 = (a + b - 65536) mod 65536" by (rule le_mod_geq)
    ultimately show "a + b = 65535" using m by (cases "65536 \<le> a + b") simp_all
  qed simp
  moreover have "a + b = 65535 \<longleftrightarrow> 65535 dvd a + b" using dvd_65535 [of "a + b"] a t by simp
  moreover have "65535 dvd a + b \<longleftrightarrow> 65535 dvd T"
  proof -
    have "T = a * 65535 + (a + b)" using t by simp
    then show ?thesis using dvd_add_right_iff [of 65535 "a * 65535" "a + b"] by simp
  qed
  moreover have "65535 dvd T \<longleftrightarrow> 65535 dvd x"
    using dvd_add_right_iff [of 65535 T x] dvd_add_left_iff [of 65535 x T] unfolding s by auto
  moreover have "65535 dvd x \<longleftrightarrow> x = 0 \<or> x = 65535" using dvd_65535 [of x] x by (cases "x = 0") simp_all
  ultimately show ?thesis unfolding f by simp
qed

definition header_without_checksum :: "ptr \<Rightarrow> u8 \<Rightarrow> u8 \<Rightarrow> u16 \<Rightarrow> u16 \<Rightarrow> u8 \<Rightarrow> u8 \<Rightarrow> u8 \<Rightarrow> bytes \<Rightarrow> bytes \<Rightarrow> bytes \<Rightarrow> u8 \<Rightarrow> u16 \<Rightarrow> mem \<Rightarrow> mem" where
  \<comment> \<open>The memory \<^verbatim>\<open>ipv4_create\<close> hands to the checksum.\<close>
  "header_without_checksum ip ecn dscp id' frag_offset flags ttl protocol src_ip dest_ip options options_len data_len m =
    (let m = m(ip := (m ip AND 0x0F) OR push_bit 4 4);
     m = m(ip := (m ip AND 0xF0) OR (ucast ((20 + (ucast options_len :: u32)) div 4) AND 0x0F));
     m = m(ip + 1 := (m (ip + 1) AND 0xFC) OR (ecn AND 3));
     m = m(ip + 1 := (m (ip + 1) AND 3) OR push_bit 2 dscp);
     m = write16 (ip + 2) (htons (20 + ucast options_len + data_len)) m;
     m = write16 (ip + 4) (htons id') m;
     m = write16 (ip + 6) (htons (push_bit 13 (ucast flags) OR (frag_offset AND NOT 0xE000))) m;
     m = m(ip + 8 := ttl, ip + 9 := protocol)
     in store (ip + 20) options (store (ip + 16) dest_ip (store (ip + 12) src_ip m)))"

lemma ipv4_create_ok:
  assumes l: "length src_ip = 4" "length dest_ip = 4" "length options = unat options_len"
    and m: "m = header_without_checksum (sb_data buf) ecn dscp id' frag_offset flags ttl protocol src_ip dest_ip options options_len data_len (net_bytes s)"
  shows "ipv4_create buf ecn dscp id' frag_offset flags ttl protocol (src_ip @ a) (dest_ip @ b) (options @ c) options_len data_len s =
    (let m' = write16 (sb_data buf + 10) (ipv4_checksum (sb_data buf) m) m in
      Some (sb_data buf, sock_buf_push buf (ucast (ipv4_ihl (sb_data buf) m') * 4), s\<lparr>net_bytes := m'\<rparr>))"
  using l unfolding ipv4_create_def m header_without_checksum_def by (simp add: first_bytes_def Let_def del: store.simps)

lemma outside_options:
  assumes "length options \<le> 255" and "k < 20"
  shows "store (ip + 20) options m (ip + of_nat k) = m (ip + of_nat k)"
proof -
  have "unat (ip + of_nat k - (ip + 20)) = unat (of_nat k - 20 :: u32)" by simp
  also have "of_nat k - 20 = - (of_nat (20 - k) :: u32)" using assms by (simp add: of_nat_diff)
  also have "- (of_nat (20 - k) :: u32) = of_nat (2 ^ 32 - (20 - k))" by (simp add: of_nat_diff)
  also have "unat (of_nat (2 ^ 32 - (20 - k)) :: u32) = 2 ^ 32 - (20 - k)" by (rule unat_of_nat_u32) (use assms in simp)
  finally have "\<not> unat (ip + of_nat k - (ip + 20)) < length options" using assms by simp
  then show ?thesis using assms by (simp add: store_at)
qed

lemma load_4: "load m a 4 = [m a, m (a + 1), m (a + 2), m (a + 3)]"
  by (simp add: load_def eval_nat_numeral)

lemma header_bytes:
  assumes l: "length src_ip = 4" "length dest_ip = 4" "length options = unat options_len"
    and m: "m = header_without_checksum ip ecn dscp id' frag_offset flags ttl protocol src_ip dest_ip options options_len data_len m0"
  shows "m ip AND 0xF = ucast ((20 + (ucast options_len :: u32)) div 4) AND 0x0F" "m (ip + 9) = protocol"
    "m (ip + 10) = m0 (ip + 10)" "m (ip + 11) = m0 (ip + 11)" "load m (ip + 12) 4 = src_ip" "load m (ip + 16) 4 = dest_ip"
proof -
  have o: "length options \<le> 255" using l unsigned_less [of options_len, where ?'a = nat] by simp
  note x = outside_options [OF o, of _ ip]
  obtain a b c d e f g h where s: "src_ip = [a, b, c, d]" "dest_ip = [e, f, g, h]"
    using l by (auto simp: length_Suc_conv eval_nat_numeral)
  note c = add.commute [of ip 13] add.commute [of ip 14] add.commute [of ip 15] add.commute [of ip 17] add.commute [of ip 18] add.commute [of ip 19]
  note defs = m header_without_checksum_def Let_def s write16_def
  show "m ip AND 0xF = ucast ((20 + (ucast options_len :: u32)) div 4) AND 0x0F"
    using x [of 0] unfolding defs by (simp add: bit.conj_disj_distrib2 and.assoc)
  show "m (ip + 9) = protocol" using x [of 9] unfolding defs by simp
  show "m (ip + 10) = m0 (ip + 10)" using x [of 10] unfolding defs by simp
  show "m (ip + 11) = m0 (ip + 11)" using x [of 11] unfolding defs by simp
  show "load m (ip + 12) 4 = src_ip" using x [of 12] x [of 13] x [of 14] x [of 15] unfolding defs by (simp add: load_4 c)
  show "load m (ip + 16) 4 = dest_ip" using x [of 16] x [of 17] x [of 18] x [of 19] unfolding defs by (simp add: load_4 c)
qed

lemma ihl_value:
  fixes options_len :: u8
  assumes o: "unat options_len \<le> 40" "unat options_len mod 4 = 0" and h: "m ip AND 0xF = ucast ((20 + (ucast options_len :: u32)) div 4) AND 0x0F"
  shows "unat (ipv4_ihl ip m) = 5 + unat options_len div 4" "unat (2 * ipv4_ihl ip m) = 10 + unat options_len div 2"
proof -
  let ?w = "(20 + (ucast options_len :: u32)) div 4"
  have "unat (20 + (ucast options_len :: u32)) = 20 + unat options_len" using o by (simp add: unat_word_ariths)
  then have w: "unat ?w = 5 + unat options_len div 4" using o by (simp add: unat_div)
  have "ucast ?w AND (0x0F :: u8) = take_bit 4 (ucast ?w)" by (simp add: take_bit_eq_mask mask_numeral)
  then have "unat (ucast ?w AND (0x0F :: u8)) = unat ?w mod 256 mod 16" by (simp add: unsigned_take_bit_eq unsigned_ucast_eq) (simp add: take_bit_eq_mod mod_mod_cancel)
  then show i: "unat (ipv4_ihl ip m) = 5 + unat options_len div 4" unfolding ipv4_ihl_def h w using o by simp
  have "2 * (unat options_len div 4) = unat options_len div 2" using o(2) by presburger
  then show "unat (2 * ipv4_ihl ip m) = 10 + unat options_len div 2" using i o by (simp add: unat_word_ariths)
qed

lemma words_apart: "k < 30 \<Longrightarrow> k \<noteq> 5 \<Longrightarrow> word_at (write16 (ip + 10) c m) ip k = word_at m ip k"
proof -
  assume k: "k < 30" "k \<noteq> 5"
  have n: "(2 * of_nat k :: u32) = of_nat (2 * k)" "(2 * of_nat k + 1 :: u32) = of_nat (2 * k + 1)" by simp_all
  have "(of_nat i :: u32) \<noteq> of_nat j" if "i < 100" "j < 100" "i \<noteq> j" for i j
    using that unat_of_nat_u32 [of i] unat_of_nat_u32 [of j] by auto
  from this [of "2 * k" 10] this [of "2 * k" 11] this [of "2 * k + 1" 10] this [of "2 * k + 1" 11]
  have "(2 * of_nat k :: u32) \<noteq> 10" "(2 * of_nat k :: u32) \<noteq> 11" "(2 * of_nat k + 1 :: u32) \<noteq> 10" "(2 * of_nat k + 1 :: u32) \<noteq> 11"
    using k unfolding n by (auto simp del: of_nat_mult of_nat_add)
  then show ?thesis by (simp add: word_at_def read16_def write16_def add.assoc)
qed

text \<open>
  C20. The checksum of a header that \<^verbatim>\<open>ipv4_create\<close> builds passes the receiver's verification
  (the checksum over the finished header is zero) exactly when the two bytes the checksum field
  held before were zero, or both 0xFF: the sum is taken without clearing the field first, so the
  bytes a buffer held before decide whether the header is valid. This is for headers whose sum,
  the old field included, folds to 16 bits in one step: \<^verbatim>\<open>ipv4_checksum\<close> adds the carries once and
  loses a carry of that addition, so for other headers the statement does not hold.
\<close>

theorem header_checksum_valid:
  assumes l: "length src_ip = 4" "length dest_ip = 4" "length options = unat options_len"
    and o: "unat options_len \<le> 40" "unat options_len mod 4 = 0"
    and c: "ipv4_create buf ecn dscp id' frag_offset flags ttl protocol src_ip dest_ip options options_len data_len s = Some (ip, buf', s')"
    and n: "T0 = rest_sum (net_bytes s') ip (10 + unat options_len div 2) + unat (read16 (net_bytes s) (ip + 10))"
      "T0 div 65536 + T0 mod 65536 < 65536"
  shows "ipv4_checksum ip (net_bytes s') = 0 \<longleftrightarrow> read16 (net_bytes s) (ip + 10) = 0 \<or> read16 (net_bytes s) (ip + 10) = 0xFFFF"
proof -
  let ?x = "read16 (net_bytes s) (ip + 10)" and ?n = "10 + unat options_len div 2"
  define m where "m = header_without_checksum (sb_data buf) ecn dscp id' frag_offset flags ttl protocol src_ip dest_ip options options_len data_len (net_bytes s)"
  have ip: "ip = sb_data buf" and s': "net_bytes s' = write16 (ip + 10) (ipv4_checksum ip m) m"
    using c ipv4_create_ok [OF l m_def, where a = "[]" and b = "[]" and c = "[]"] by (auto simp: Let_def)
  note b = header_bytes [OF l m_def [folded ip]]
  have i: "net_bytes s' ip = m ip" unfolding s' by (simp add: write16_def)
  note len = ihl_value(2) [OF o, of m ip, OF b(1)] ihl_value(2) [OF o, of "net_bytes s'" ip, unfolded i, OF b(1)]
  have n30: "?n \<le> 30" "5 < ?n" using o by simp_all
  have w: "word_at (net_bytes s') ip k = word_at m ip k" if "k < ?n" "k \<noteq> 5" for k
    unfolding s' by (rule words_apart) (use that n30 in simp_all)
  have R: "rest_sum (net_bytes s') ip ?n = rest_sum m ip ?n" unfolding rest_sum_def by (rule sum.cong) (simp_all add: w)
  have w5: "word_at m ip 5 = unat ?x" "word_at (net_bytes s') ip 5 = unat (ipv4_checksum ip m)"
    using b(3,4) by (simp_all add: word_at_def s' read16_def [of m] read16_def [of "net_bytes s"] add.commute [of ip 11])
  have small: "unat (0 :: u32) + ?n * 65536 < 2 ^ 32" using n30 by simp
  note sum = checksum_loop_sum [OF small, of ip, unfolded header_sum_split [OF n30(2)], simplified]
  have c1: "unat (ipv4_checksum ip m) = 65535 - (T0 div 65536 + T0 mod 65536)"
    using n(2) unfolding ipv4_checksum_def Let_def fold_word len sum w5 n(1) R by simp
  have T0: "T0 = rest_sum m ip ?n + unat ?x" unfolding n(1) R ..
  let ?T = "rest_sum m ip ?n + unat (ipv4_checksum ip m)"
  have c2: "unat (ipv4_checksum ip (net_bytes s')) = 65535 - (?T div 65536 + ?T mod 65536) mod 65536"
    unfolding ipv4_checksum_def [of ip "net_bytes s'"] Let_def fold_word len sum w5 R ..
  have "word_at m ip 0 \<le> rest_sum m ip ?n" unfolding rest_sum_def by (rule member_le_sum) simp_all
  moreover have "word_at m ip 0 \<noteq> 0"
  proof
    assume "word_at m ip 0 = 0"
    then have "read16 m ip = 0" by (simp add: word_at_def unat_eq_0)
    then have "(ucast (m ip) :: u16) = 0" unfolding read16_def or_eq_0_iff by simp
    then have "m ip = 0" using unat_ucast_8_16 [of "m ip"] by (simp add: unat_eq_0)
    then show False using ihl_value(1) [OF o, of m ip, OF b(1)] by (simp add: ipv4_ihl_def)
  qed
  ultimately have pos: "0 < rest_sum m ip ?n" by simp
  have "rest_sum m ip ?n \<le> of_nat (card ({0..<?n} - {5})) * 65536"
    unfolding rest_sum_def by (rule sum_bounded_above) (use word_at_bound in \<open>simp add: less_imp_le\<close>)
  moreover have "card ({0..<?n} - {5}) \<le> 30" using card_mono [of "{0..<30 :: nat}" "{0..<?n} - {5}"] n30 by auto
  ultimately have big: "rest_sum m ip ?n < 2 ^ 31" by simp
  have x: "unat ?x < 65536" using unsigned_less [of ?x, where ?'a = nat] by simp
  have z: "65535 - z = 0 \<longleftrightarrow> z = 65535" if "z < 65536" for z :: nat using that by auto
  have "ipv4_checksum ip (net_bytes s') = 0 \<longleftrightarrow> (?T div 65536 + ?T mod 65536) mod 65536 = 65535"
    unfolding unat_eq_0 [symmetric] c2 by (rule z) simp
  also have "\<dots> \<longleftrightarrow> unat ?x = 0 \<or> unat ?x = 65535"
    by (rule folded_valid [OF n(2) [unfolded T0] x pos big c1 [unfolded T0, THEN arg_cong [where f = "(+) (rest_sum m ip ?n)"]]])
  also have "\<dots> \<longleftrightarrow> ?x = 0 \<or> ?x = 0xFFFF" using word_unat_eq_iff [of ?x 0] word_unat_eq_iff [of ?x "0xFFFF"] by simp
  finally show ?thesis .
qed

definition header_net :: "u8 \<Rightarrow> net" where
  \<comment> \<open>A buffer at 0x1000 that last held \<open>x\<close> where the checksum goes.\<close>
  "header_net x = \<lparr>net_bytes = (\<lambda>_. 0)(0x100A := x), nic_mac = [], net_layers = [], sock_ind = 0, udp_recved = 0\<rparr>"

definition header_call :: "u8 \<Rightarrow> (ptr \<times> sock_buf \<times> net) option" where
  "header_call x = ipv4_create request_buf 0 0 7 0 0 64 17 [192, 168, 1, 30] [192, 168, 1, 1] [] 0 8 (header_net x)"

lemma rest_sum_10: "rest_sum m ip 10 = word_at m ip 0 + word_at m ip 1 + word_at m ip 2 + word_at m ip 3 + word_at m ip 4 +
  word_at m ip 6 + word_at m ip 7 + word_at m ip 8 + word_at m ip 9"
proof -
  have "{0..<10} - {5} = {0, 1, 2, 3, 4, 6, 7, 8, 9 :: nat}" by auto
  then show ?thesis by (simp add: rest_sum_def)
qed

theorem header_checksum_valid_witness:
  "\<exists>b s. header_call 1 = Some (0x1000, b, s) \<and> ipv4_checksum 0x1000 (net_bytes s) \<noteq> 0"
proof -
  define m where "m = header_without_checksum (sb_data request_buf) 0 0 7 0 0 64 17 [192, 168, 1, 30] [192, 168, 1, 1] [] 0 8 (net_bytes (header_net 1))"
  obtain b s where c: "header_call 1 = Some (0x1000, b, s)" and s: "net_bytes s = write16 0x100A (ipv4_checksum 0x1000 m) m"
    using ipv4_create_ok [OF _ _ _ m_def, where a = "[]" and b = "[]" and c = "[]"]
    by (auto simp: Let_def header_call_def request_buf_def)
  have r: "rest_sum (net_bytes s) 0x1000 10 = 107783"
    unfolding rest_sum_10 s m_def header_without_checksum_def
    by (simp add: word_at_def read16_def write16_def Let_def request_buf_def header_net_def htons_def)
  have x: "read16 (net_bytes (header_net 1)) (0x1000 + 10) = 1" by (simp add: read16_def header_net_def)
  show ?thesis using header_checksum_valid [OF _ _ _ _ _ c [unfolded header_call_def] refl] c r x by auto
qed

lemma ntohs_htons [simp]: "ntohs (htons x) = x"
  unfolding ntohs_def htons_def by (rule bit_word_eqI) (auto simp: bit_simps)

lemma get_proto_bytes [simp]: "net_layer_get_proto l i (s\<lparr>net_bytes := m\<rparr>) = net_layer_get_proto l i s"
  by (simp add: net_layer_get_proto_def)

text \<open>
  C21. A datagram that is built by \<^verbatim>\<open>ipv4_create\<close> and \<^verbatim>\<open>udp_create\<close> is understood by
  \<^verbatim>\<open>ipv4_recv\<close>: on a stack where the datagram protocol is registered at the transport layer, it is
  passed to \<^verbatim>\<open>udp_recv\<close>, the socket buffer holds the sender's and the receiver's address as they were
  given and stands behind both headers. The port itself is not delivered: of it, only the counter of
  received datagrams shows, which grows exactly when the destination port is 12345.
\<close>

theorem datagram_received:
  assumes l: "length src_ip = 4" "length dest_ip = 4" and a: "length (sb_src_addrs buf) = 4" "length (sb_dst_addrs buf) = 4"
    and p: "net_layer_get_proto TRANSPORT_LAYER 17 s = Some (Some p)" "op_recv (np_ops p) = Udp_Recv"
  shows "\<exists>b b' s'. do {
      (ip, b1, s1) \<leftarrow> ipv4_create buf ecn dscp id' frag_offset flags ttl 17 src_ip dest_ip [] 0 (8 + n) s;
      (_, b2, s2) \<leftarrow> Some (udp_create b1 src_port dest_port n s1);
      ipv4_recv send (b2\<lparr>sb_data := ip\<rparr>) s2 } = Some (ERROR_OK, b, s') \<and>
    take 4 (sb_src_addrs b ! 1) = src_ip \<and> take 4 (sb_dst_addrs b ! 1) = dest_ip \<and> sb_data b = sb_data buf + 28 \<and>
    udp_recved s' = udp_recved s + (if dest_port = 12345 then 1 else 0)"
proof -
  define ip where "ip = sb_data buf"
  define m where "m = header_without_checksum ip ecn dscp id' frag_offset flags ttl 17 src_ip dest_ip [] 0 (8 + n) (net_bytes s)"
  have o: "length [] = unat (0 :: u8)" "unat (0 :: u8) \<le> 40" "unat (0 :: u8) mod 4 = 0" by simp_all
  note b = header_bytes [OF l o(1) m_def]
  define m1 where "m1 = write16 (ip + 10) (ipv4_checksum ip m) m"
  define m2 where "m2 = write16 (ip + 24) (htons (8 + n)) (write16 (ip + 22) (htons dest_port) (write16 (ip + 20) (htons src_port) (write16 (ip + 26) 0 m1)))"
  have ihl: "ipv4_ihl ip m1 = 5" "ipv4_ihl ip m2 = 5" using b(1) by (simp_all add: m1_def m2_def ipv4_ihl_def write16_def)
  have "ipv4_create buf ecn dscp id' frag_offset flags ttl 17 src_ip dest_ip [] 0 (8 + n) s = Some (ip, sock_buf_push buf 20, s\<lparr>net_bytes := m1\<rparr>)"
    using ipv4_create_ok [OF l o(1) m_def [unfolded ip_def], where a = "[]" and b = "[]" and c = "[]"] ihl(1)
    by (simp add: Let_def m1_def ip_def)
  moreover have "udp_create (sock_buf_push buf 20) src_port dest_port n (s\<lparr>net_bytes := m1\<rparr>) = (ip + 20, sock_buf_push buf 28, s\<lparr>net_bytes := m2\<rparr>)"
    by (simp add: udp_create_def Let_def m2_def ip_def sock_buf_push_def add.assoc)
  moreover have "m2 (ip + 9) = 17" using b(2) by (simp add: m2_def m1_def write16_def)
  moreover have "load m2 (ip + 12) 4 = src_ip" "load m2 (ip + 16) 4 = dest_ip"
    using b(5,6) by (simp_all add: load_4 m2_def m1_def write16_def)
  moreover have "read16 m2 (ip + 22) = htons dest_port"
    using read16_write16 [of "ip + 22" "htons dest_port"] by (simp add: m2_def write16_def read16_def)
  ultimately show ?thesis 
    using p a l
    by (simp add: ipv4_recv.simps [of send "b\<lparr>sb_data := ip\<rparr>" for b] ihl udp_recv_def Let_def put_addr_def sock_buf_push_def add.commute [of ip 22] flip: ip_def)
qed

definition started_net :: "(error_t \<times> net) option" where
  \<comment> \<open>The stack after its layers, messages and datagrams are set up.\<close>
  "started_net = do {
     let l = \<lparr>nl_protocols = \<lparr>v_data = [], v_count = 0, v_r_size = 0\<rparr>, nl_layer_ind = 0\<rparr>;
     (_, s) \<leftarrow> init_net True \<lparr>net_bytes = (\<lambda>_. 0), nic_mac = [], net_layers = replicate 4 l, sock_ind = 0, udp_recved = 0\<rparr>;
     (_, s) \<leftarrow> init_icmp True TRANSPORT_LAYER s;
     init_udp True TRANSPORT_LAYER s
   }"

theorem datagram_received_witness:
  "\<exists>s b b' s'. started_net = Some (ERROR_OK, s) \<and> do {
      (ip, b1, s1) \<leftarrow> ipv4_create request_buf 0 0 7 0 0 64 17 [192, 168, 1, 1] [192, 168, 1, 30] [] 0 (8 + 4) s;
      (_, b2, s2) \<leftarrow> Some (udp_create b1 5000 12345 4 s1);
      ipv4_recv (\<lambda>p n s. None) (b2\<lparr>sb_data := ip\<rparr>) s2 } = Some (ERROR_OK, b, s') \<and> udp_recved s' = 1"
proof -
  have "case started_net of Some (e, s) \<Rightarrow> e = ERROR_OK \<and> udp_recved s = 0 \<and>
      (case net_layer_get_proto TRANSPORT_LAYER 17 s of Some (Some p) \<Rightarrow> op_recv (np_ops p) = Udp_Recv | _ \<Rightarrow> False) | None \<Rightarrow> False"
    by code_simp
  then obtain s p where s: "started_net = Some (ERROR_OK, s)" "udp_recved s = 0" and
    p: "net_layer_get_proto TRANSPORT_LAYER 17 s = Some (Some p)" "op_recv (np_ops p) = Udp_Recv"
    by (auto split: option.splits)
  have a: "length (sb_src_addrs request_buf) = 4" "length (sb_dst_addrs request_buf) = 4" by (simp_all add: request_buf_def)
  show ?thesis
    using datagram_received [OF _ _ a p, where src_ip = "[192, 168, 1, 1]" and dest_ip = "[192, 168, 1, 30]" and ecn = 0 and dscp = 0 and id' = 7
      and frag_offset = 0 and flags = 0 and ttl = 64 and n = 4 and src_port = 5000 and dest_port = "12345" and send = "\<lambda>p n s. None"] s
    by auto
qed

end
