(* ===== verification/Keyboard.thy ===== *)
theory Keyboard
  imports Scheduler Ring_Queue Cstring Utility
begin

text \<open>
  The keyboard driver, keyboard.cpp: the interrupt handler that queues scan codes, the daemon that turns
  them into modifier state and keys for a reader, and the device's read operation. What the controller's
  two ports give is part of the state: the values of successive reads. A thread that blocks ends its
  round; \<open>kybd_read\<close> then says how much is left to read.
\<close>

subsection \<open>State\<close>

record kbd = thread_sched +
  scancode :: u32
  keycode_buffer :: "u8 queue_spsc"
  user_buffer :: "u32 queue_spsc"
  code :: int
  numlock :: bool
  capslock :: bool
  scrolllock :: bool
  shift_down :: bool
  alt_down :: bool
  ctrl_down :: bool
  kybrd_BAT_res :: bool
  kybrd_diag_res :: bool
  kybrd_resend_res :: bool
  kybrd_disabled :: bool
  keyboard_daemon :: ptr
  active :: ptr
  status_port :: "nat \<Rightarrow> u8"
  status_reads :: nat
  data_port :: "nat \<Rightarrow> u8"
  data_reads :: nat
  written :: "(u16 \<times> u8) list"
  user_bytes :: mem

definition KYBRD_ENC_CMD_REG :: u16 where "KYBRD_ENC_CMD_REG = 0x60"
definition KYBRD_CTRL_CMD_REG :: u16 where "KYBRD_CTRL_CMD_REG = 0x64"
definition KYBRD_CTRL_STATS_MASK_OUT_BUF :: u8 where "KYBRD_CTRL_STATS_MASK_OUT_BUF = 1"
definition KYBRD_CTRL_STATS_MASK_IN_BUF :: u8 where "KYBRD_CTRL_STATS_MASK_IN_BUF = 2"
definition KYBRD_ENC_CMD_SET_LED :: u8 where "KYBRD_ENC_CMD_SET_LED = 0xED"
definition KYBRD_ERR_BAT_FAILED :: int where "KYBRD_ERR_BAT_FAILED = 0xFC"
definition KYBRD_ERR_DIAG_FAILED :: int where "KYBRD_ERR_DIAG_FAILED = 0xFD"
definition KYBRD_ERR_RESEND_CMD :: int where "KYBRD_ERR_RESEND_CMD = 0xFE"
definition KYBRD_SELF_TEST :: u8 where "KYBRD_SELF_TEST = 0x55"
definition KYBRD_CTRL_CMD_SELF_TEST :: u8 where "KYBRD_CTRL_CMD_SELF_TEST = 0xAA"
definition KYBRD_CTRL_CMD_DISABLE :: u8 where "KYBRD_CTRL_CMD_DISABLE = 0xAD"
definition KYBRD_CTRL_CMD_ENABLE :: u8 where "KYBRD_CTRL_CMD_ENABLE = 0xAE"
definition KYBRD_CTRL_CMD_SYSTEM_RESET :: u8 where "KYBRD_CTRL_CMD_SYSTEM_RESET = 0xFE"

definition KEY_LSHIFT :: u32 where "KEY_LSHIFT = 0x4002"
definition KEY_LCTRL :: u32 where "KEY_LCTRL = 0x4003"
definition KEY_LALT :: u32 where "KEY_LALT = 0x4004"
definition KEY_RSHIFT :: u32 where "KEY_RSHIFT = 0x4006"
definition KEY_RCTRL :: u32 where "KEY_RCTRL = 0x4007"
definition KEY_RALT :: u32 where "KEY_RALT = 0x4008"
definition KEY_CAPSLOCK :: u32 where "KEY_CAPSLOCK = 0x4001"
definition KEY_KP_NUMLOCK :: u32 where "KEY_KP_NUMLOCK = 0x300f"
definition KEY_SCROLLLOCK :: u32 where "KEY_SCROLLLOCK = 0x4010"
definition KEY_UNKNOWN :: u32 where "KEY_UNKNOWN = 0x4012"
definition INVALID_SCAN_CODE :: u32 where "INVALID_SCAN_CODE = 0"

definition kybrd_scancode_std :: "u32 list" where
  "kybrd_scancode_std =
    [0x4012, 0x1001, 0x31, 0x32, 0x33, 0x34, 0x35, 0x36, 0x37, 0x38, 0x39, 0x30, 0x2D, 0x3D, 8, 0x4000,
     0x71, 0x77, 0x65, 0x72, 0x74, 0x79, 0x75, 0x69, 0x6F, 0x70, 0x5B, 0x5D, 13, 0x4003, 0x61, 0x73,
     0x64, 0x66, 0x67, 0x68, 0x6A, 0x6B, 0x6C, 0x3B, 0x27, 0x60, 0x4002, 0x5C, 0x7A, 0x78, 0x63, 0x76,
     0x62, 0x6E, 0x6D, 0x2C, 0x2E, 0x2F, 0x4006, 0x2A, 0x4008, 0x20, 0x4001, 0x1201, 0x1202, 0x1203, 0x1204, 0x1205,
     0x1206, 0x1207, 0x1208, 0x1209, 0x120A, 0x300F, 0x4010, 0x400C, 0x38, 0x400E, 0x32, 0x33, 0x30, 0x2E, 0x4012, 0x4012,
     0x4012, 0x120B, 0x120B]"

definition std_key :: "int \<Rightarrow> u32 option" where
  \<comment> \<open>\<^verbatim>\<open>_kybrd_scancode_std[code]\<close>.\<close>
  "std_key c = (if 0 \<le> c \<and> nat c < length kybrd_scancode_std then Some (kybrd_scancode_std ! nat c) else None)"

subsection \<open>Ports\<close>

definition kybrd_ctrl_read_status :: "'a kbd_scheme \<Rightarrow> u8 \<times> 'a kbd_scheme" where
  "kybrd_ctrl_read_status s = (status_port s (status_reads s), s\<lparr>status_reads := status_reads s + 1\<rparr>)"

definition kybrd_ctrl_input_ready :: "'a kbd_scheme \<Rightarrow> bool \<times> 'a kbd_scheme" where
  "kybrd_ctrl_input_ready s =
     (let (v, s) = kybrd_ctrl_read_status s in (v AND KYBRD_CTRL_STATS_MASK_IN_BUF = 0, s))"

definition kybrd_ctrl_output_ready :: "'a kbd_scheme \<Rightarrow> bool \<times> 'a kbd_scheme" where
  "kybrd_ctrl_output_ready s =
     (let (v, s) = kybrd_ctrl_read_status s in (v AND KYBRD_CTRL_STATS_MASK_OUT_BUF \<noteq> 0, s))"

partial_function (option) wait_input_ready :: "'a kbd_scheme \<Rightarrow> 'a kbd_scheme option" where
  [code]: "wait_input_ready s = (let (ready, s) = kybrd_ctrl_input_ready s in if ready then Some s else wait_input_ready s)"

partial_function (option) wait_output_ready :: "'a kbd_scheme \<Rightarrow> 'a kbd_scheme option" where
  [code]: "wait_output_ready s = (let (ready, s) = kybrd_ctrl_output_ready s in if ready then Some s else wait_output_ready s)"

definition kybrd_ctrl_send_cmd :: "u8 \<Rightarrow> 'a kbd_scheme \<Rightarrow> 'a kbd_scheme option" where
  "kybrd_ctrl_send_cmd cmd s = do { s \<leftarrow> wait_input_ready s; Some (s\<lparr>written := written s @ [(KYBRD_CTRL_CMD_REG, cmd)]\<rparr>) }"

definition kybrd_enc_read_status :: "'a kbd_scheme \<Rightarrow> u8 \<times> 'a kbd_scheme" where
  "kybrd_enc_read_status s = (data_port s (data_reads s), s\<lparr>data_reads := data_reads s + 1\<rparr>)"

definition kybrd_enc_send_cmd :: "u8 \<Rightarrow> 'a kbd_scheme \<Rightarrow> 'a kbd_scheme option" where
  "kybrd_enc_send_cmd cmd s = do { s \<leftarrow> wait_input_ready s; Some (s\<lparr>written := written s @ [(KYBRD_ENC_CMD_REG, cmd)]\<rparr>) }"

definition kybrd_self_test :: "'a kbd_scheme \<Rightarrow> (bool \<times> 'a kbd_scheme) option" where
  "kybrd_self_test s = do {
     s \<leftarrow> kybrd_ctrl_send_cmd KYBRD_CTRL_CMD_SELF_TEST s;
     s \<leftarrow> wait_output_ready s;
     let (v, s) = kybrd_enc_read_status s;
     Some (v AND KYBRD_SELF_TEST \<noteq> 0, s)
   }"

definition kybrd_set_leds :: "bool \<Rightarrow> bool \<Rightarrow> bool \<Rightarrow> 'a kbd_scheme \<Rightarrow> 'a kbd_scheme option" where
  "kybrd_set_leds num caps scroll s = do {
     let data = (0 :: u8);
     let data = (if scroll then data OR 1 else data);
     let data = (if num then data OR 2 else data);
     let data = (if caps then data OR 4 else data);
     s \<leftarrow> kybrd_enc_send_cmd KYBRD_ENC_CMD_SET_LED s;
     kybrd_enc_send_cmd data s
   }"

definition kybrd_disable :: "'a kbd_scheme \<Rightarrow> 'a kbd_scheme option" where
  "kybrd_disable s = do { s \<leftarrow> kybrd_ctrl_send_cmd KYBRD_CTRL_CMD_DISABLE s; Some (s\<lparr>kybrd_disabled := True\<rparr>) }"

definition kybrd_enable :: "'a kbd_scheme \<Rightarrow> 'a kbd_scheme option" where
  "kybrd_enable s = do { s \<leftarrow> kybrd_ctrl_send_cmd KYBRD_CTRL_CMD_ENABLE s; Some (s\<lparr>kybrd_disabled := False\<rparr>) }"

definition kybrd_reset_system :: "'a kbd_scheme \<Rightarrow> 'a kbd_scheme option" where
  "kybrd_reset_system s = kybrd_ctrl_send_cmd KYBRD_CTRL_CMD_SYSTEM_RESET s"

subsection \<open>The last key\<close>

definition kybrd_ignore_resend :: "'a kbd_scheme \<Rightarrow> 'a kbd_scheme" where
  "kybrd_ignore_resend s = s\<lparr>kybrd_resend_res := False\<rparr>"

definition kybrd_get_last_scan :: "'a kbd_scheme \<Rightarrow> u8" where
  "kybrd_get_last_scan s = ucast (scancode s)"

definition kybrd_get_last_key :: "'a kbd_scheme \<Rightarrow> u32 option" where
  "kybrd_get_last_key s = (if scancode s = INVALID_SCAN_CODE then Some KEY_UNKNOWN else array_get kybrd_scancode_std (scancode s))"

definition kybrd_discard_last_key :: "'a kbd_scheme \<Rightarrow> 'a kbd_scheme" where
  "kybrd_discard_last_key s = s\<lparr>scancode := INVALID_SCAN_CODE\<rparr>"

definition kybrd_key_to_ascii :: "u32 \<Rightarrow> 'a kbd_scheme \<Rightarrow> u8" where
  "kybrd_key_to_ascii code' s =
     (let key = ucast code';
        key = (if isalpha key then
            (if \<not> shift_down s \<and> capslock s \<or> shift_down s \<and> \<not> capslock s then toupper key else key)
          else key)
      in if shift_down s then
          (if isdigit key then
             (if key = 0x30 then 0x29 else if key = 0x31 then 0x21 else if key = 0x32 then 0x40 else if key = 0x33 then 0x23
              else if key = 0x34 then 0x24 else if key = 0x35 then 0x25 else if key = 0x36 then 0x5E else if key = 0x37 then 0x26
              else if key = 0x38 then 0x2A else if key = 0x39 then 0x28 else key)
           else
             (if key = 0x2C then 0x3C else if key = 0x2E then 0x3E else if key = 0x2F then 0x3F else if key = 0x3B then 0x3A
              else if key = 0x27 then 0x22 else if key = 0x5B then 0x7B else if key = 0x5D then 0x7D else if key = 0x60 then 0x7E
              else if key = 0x2D then 0x5F else if key = 0x2B then 0x3D else if key = 0x5C then 0x7C else key))
        else key)"

subsection \<open>Interrupt and daemon\<close>

definition keyboard_callback :: "'a kbd_scheme \<Rightarrow> 'a kbd_scheme option" where
  "keyboard_callback s = do {
     let (ready, s) = kybrd_ctrl_input_ready s;
     if ready then do {
       let (v, s) = kybrd_enc_read_status s;
       (_, q) \<leftarrow> queue_spsc_insert v (keycode_buffer s);
       let s = s\<lparr>keycode_buffer := q\<rparr>;
       if keyboard_daemon s \<noteq> 0 then thread_notify (keyboard_daemon s) s else Some s
     }
     else Some s
   }"

definition key_released :: "u32 \<Rightarrow> 'a kbd_scheme \<Rightarrow> 'a kbd_scheme" where
  "key_released key s =
     (if key = KEY_LSHIFT \<or> key = KEY_RSHIFT then s\<lparr>shift_down := False\<rparr>
      else if key = KEY_LCTRL \<or> key = KEY_RCTRL then s\<lparr>ctrl_down := False\<rparr>
      else if key = KEY_LALT \<or> key = KEY_RALT then s\<lparr>alt_down := False\<rparr>
      else s)"

definition key_pressed :: "u32 \<Rightarrow> 'a kbd_scheme \<Rightarrow> 'a kbd_scheme option" where
  "key_pressed key s =
     (if key = KEY_LSHIFT \<or> key = KEY_RSHIFT then Some (s\<lparr>shift_down := True\<rparr>)
      else if key = KEY_LCTRL \<or> key = KEY_RCTRL then Some (s\<lparr>ctrl_down := True\<rparr>)
      else if key = KEY_LALT \<or> key = KEY_RALT then Some (s\<lparr>alt_down := True\<rparr>)
      else if key = KEY_CAPSLOCK then
        (let s = s\<lparr>capslock := \<not> capslock s\<rparr> in kybrd_set_leds (numlock s) (capslock s) (scrolllock s) s)
      else if key = KEY_KP_NUMLOCK then
        (let s = s\<lparr>numlock := \<not> numlock s\<rparr> in kybrd_set_leds (numlock s) (capslock s) (scrolllock s) s)
      else if key = KEY_SCROLLLOCK then
        (let s = s\<lparr>scrolllock := \<not> scrolllock s\<rparr> in kybrd_set_leds (numlock s) (capslock s) (scrolllock s) s)
      else Some s)"

definition watch_errors :: "'a kbd_scheme \<Rightarrow> 'a kbd_scheme" where
  "watch_errors s =
     (if code s = KYBRD_ERR_BAT_FAILED then s\<lparr>kybrd_BAT_res := False\<rparr>
      else if code s = KYBRD_ERR_DIAG_FAILED then s\<lparr>kybrd_diag_res := False\<rparr>
      else if code s = KYBRD_ERR_RESEND_CMD then s\<lparr>kybrd_resend_res := True\<rparr>
      else s)"

definition handle_code :: "'a kbd_scheme \<Rightarrow> 'a kbd_scheme option" where
  \<comment> \<open>The body of the daemon's inner loop.\<close>
  "handle_code s = do {
     c \<leftarrow> queue_spsc_peek 0 (keycode_buffer s);
     let s = s\<lparr>code := uint c\<rparr>;
     (_, q) \<leftarrow> queue_spsc_remove (keycode_buffer s);
     let s = s\<lparr>keycode_buffer := q\<rparr>;
     s \<leftarrow> (if code s AND 0x80 \<noteq> 0 then do {
         let s = s\<lparr>code := code s - 0x80\<rparr>;
         key \<leftarrow> std_key (code s);
         Some (key_released key s)
       }
       else do {
         let s = s\<lparr>scancode := of_int (code s)\<rparr>;
         key \<leftarrow> std_key (code s);
         s \<leftarrow> key_pressed key s;
         if active s \<noteq> 0 then do {
           (_, q) \<leftarrow> queue_spsc_insert key (user_buffer s);
           thread_notify (active s) (s\<lparr>user_buffer := q\<rparr>)
         }
         else Some s
       });
     Some (watch_errors s)
   }"

partial_function (option) keyboard_drain :: "'a kbd_scheme \<Rightarrow> 'a kbd_scheme option" where
  [code]: "keyboard_drain s =
     (if \<not> queue_spsc_is_empty (keycode_buffer s) then do { s \<leftarrow> handle_code s; keyboard_drain s } else Some s)"

definition keyboard_irq :: "'a kbd_scheme \<Rightarrow> 'a kbd_scheme option" where
  \<comment> \<open>One round of the daemon: the loop around it never ends.\<close>
  "keyboard_irq s = do {
     s \<leftarrow> keyboard_drain s;
     node \<leftarrow> thread_get_current_node s;
     thread_block node s
   }"

subsection \<open>The device\<close>

datatype read_result = Read_Done | Read_Blocked u32 ptr

partial_function (option) kybd_read_loop :: "u32 \<Rightarrow> ptr \<Rightarrow> 'a kbd_scheme \<Rightarrow> (read_result \<times> 'a kbd_scheme) option" where
  \<comment> \<open>\<open>Read_Blocked n p\<close>: the thread has blocked with \<open>n\<close> bytes to go, the next to be put at \<open>p\<close>; it goes on
     with the loop when it runs again.\<close>
  [code]: "kybd_read_loop temp_count buf s =
     (if temp_count > 0 then
        (if \<not> queue_spsc_is_empty (user_buffer s) then do {
           key \<leftarrow> queue_spsc_peek 0 (user_buffer s);
           let s = s\<lparr>user_bytes := (user_bytes s)(buf := ucast key)\<rparr>;
           (_, q) \<leftarrow> queue_spsc_remove (user_buffer s);
           kybd_read_loop (temp_count - 1) (buf + 1) (s\<lparr>user_buffer := q\<rparr>)
         }
         else do {
           node \<leftarrow> thread_get_current_node s;
           s \<leftarrow> thread_block node s;
           Some (Read_Blocked temp_count buf, s)
         })
      else Some (Read_Done, s\<lparr>active := 0\<rparr>))"

definition kybd_read :: "u32 \<Rightarrow> virtual_addr \<Rightarrow> 'a kbd_scheme \<Rightarrow> (read_result \<times> 'a kbd_scheme) option" where
  "kybd_read count address s = do {
     node \<leftarrow> thread_get_current_node s;
     kybd_read_loop count address (s\<lparr>active := node\<rparr>)
   }"

definition kybd_open :: error_t where "kybd_open = 0"
definition kybd_ioctl :: error_t where "kybd_ioctl = 0"

definition init_keyboard :: "u8 list \<Rightarrow> u32 list \<Rightarrow> 'a kbd_scheme \<Rightarrow> 'a kbd_scheme option" where
  \<comment> \<open>The driver's own state; the cells are what the queues' buffers hold. The handler, the device and the
     daemon's thread are entered into the tables of other components.\<close>
  "init_keyboard cells user_cells s = 
     (let s = s\<lparr>keycode_buffer := queue_spsc_init 10 cells, user_buffer := queue_spsc_init 10 user_cells, kybrd_BAT_res := True,
        scancode := INVALID_SCAN_CODE, numlock := False, capslock := False, scrolllock := False,
        shift_down := False, alt_down := False, ctrl_down := False\<rparr>
      in kybrd_set_leds False False False s)"

end
