(* ===== verification/Keyboard_Facts.thy ===== *)
theory Keyboard_Facts
  imports Keyboard
begin

text \<open>
  What the keyboard driver does: the modifier state and the keys delivered after any sequence of scan
  codes, and the characters of the keys.
\<close>

subsection \<open>The controller\<close>

definition controller_drains :: "'a kbd_scheme \<Rightarrow> bool" where
  \<comment> \<open>The controller's input buffer is empty again and again.\<close>
  "controller_drains s \<longleftrightarrow> (\<forall>n. \<exists>m\<ge>n. status_port s m AND KYBRD_CTRL_STATS_MASK_IN_BUF = 0)"

lemma input_ready_eq:
  "kybrd_ctrl_input_ready s = (status_port s (status_reads s) AND KYBRD_CTRL_STATS_MASK_IN_BUF = 0, s\<lparr>status_reads := status_reads s + 1\<rparr>)"
  by (simp add: kybrd_ctrl_input_ready_def kybrd_ctrl_read_status_def)

lemma wait_input_ready_ok:
  assumes "controller_drains s"
  shows "\<exists>k. wait_input_ready s = Some (s\<lparr>status_reads := k\<rparr>)"
proof -
  obtain m where "status_reads s \<le> m" "status_port s m AND KYBRD_CTRL_STATS_MASK_IN_BUF = 0"
    using assms unfolding controller_drains_def by blast
  then show ?thesis
  proof (induction "m - status_reads s" arbitrary: s)
    case 0
    then have "status_reads s = m" by simp
    then show ?case using 0 by (intro exI [of _ "m + 1"]) (simp add: wait_input_ready.simps [of s] input_ready_eq)
  next
    case (Suc d)
    show ?case
    proof (cases "status_port s (status_reads s) AND KYBRD_CTRL_STATS_MASK_IN_BUF = 0")
      case True
      then show ?thesis by (intro exI [of _ "status_reads s + 1"]) (simp add: wait_input_ready.simps [of s] input_ready_eq)
    next
      case False
      let ?t = "s\<lparr>status_reads := status_reads s + 1\<rparr>"
      have "\<exists>k. wait_input_ready ?t = Some (?t\<lparr>status_reads := k\<rparr>)" by (rule Suc.hyps) (use Suc in simp_all)
      then show ?thesis using False by (auto simp: wait_input_ready.simps [of s] input_ready_eq)
    qed
  qed
qed

lemma set_leds_ok:
  assumes "controller_drains s"
  shows "\<exists>k w. kybrd_set_leds a b c s = Some (s\<lparr>status_reads := k, written := w\<rparr>)"
proof -
  have "\<exists>k w. kybrd_enc_send_cmd x t = Some (t\<lparr>status_reads := k, written := w\<rparr>)" if "controller_drains t" for x and t :: "'a kbd_scheme"
  proof -
    from wait_input_ready_ok [OF that] obtain k where "wait_input_ready t = Some (t\<lparr>status_reads := k\<rparr>)" ..
    then show ?thesis by (intro exI [of _ k] exI [of _ "written t @ [(KYBRD_ENC_CMD_REG, x)]"]) (simp add: kybrd_enc_send_cmd_def)
  qed
  note send = this
  from send [OF assms] obtain k w where 1: "kybrd_enc_send_cmd KYBRD_ENC_CMD_SET_LED s = Some (s\<lparr>status_reads := k, written := w\<rparr>)" by blast
  have "controller_drains (s\<lparr>status_reads := k, written := w\<rparr>)" using assms by (simp add: controller_drains_def)
  from send [OF this] show ?thesis using 1 by (simp add: kybrd_set_leds_def Let_def) 
qed

subsection \<open>Scan codes\<close>

definition known_code :: "u8 \<Rightarrow> bool" where
  "known_code c \<longleftrightarrow> unat c mod 128 < 83"

definition listed_code :: "u8 \<Rightarrow> bool" where
  \<comment> \<open>A press or release of a key up to 0x49, where the table has the key its comment says; behind it,
     the keys of 0x4A to 0x4F are missing from the table and the later ones are found too early.\<close>
  "listed_code c \<longleftrightarrow> unat c mod 128 < 0x4A"

lemma listed_known: "listed_code c \<Longrightarrow> known_code c"
  by (simp add: listed_code_def known_code_def)

definition held :: "nat set \<Rightarrow> u8 list \<Rightarrow> bool \<Rightarrow> bool" where
  \<comment> \<open>Whether a key with one of these make codes is down: what the last of its codes says.\<close>
  "held keys cs before = (case rev (filter (\<lambda>c. unat c mod 128 \<in> keys) cs) of [] \<Rightarrow> before | c # _ \<Rightarrow> unat c < 128)"

definition toggled :: "u8 \<Rightarrow> u8 list \<Rightarrow> bool \<Rightarrow> bool" where
  "toggled key cs before = (before \<noteq> odd (count_list cs key))"

definition pressed_keys :: "u8 list \<Rightarrow> u32 list" where
  "pressed_keys cs = map (\<lambda>c. kybrd_scancode_std ! unat c) (filter (\<lambda>c. unat c < 128) cs)"

lemma held_Cons: "held keys (c # cs) b = held keys cs (if unat c mod 128 \<in> keys then unat c < 128 else b)"
  by (cases "rev (filter (\<lambda>c. unat c mod 128 \<in> keys) cs)") (simp_all add: held_def)

lemma toggled_Cons: "toggled key (c # cs) b = toggled key cs (if c = key then \<not> b else b)"
  by (auto simp: toggled_def)

lemma pressed_Cons: "pressed_keys (c # cs) = (if unat c < 128 then kybrd_scancode_std ! unat c # pressed_keys cs else pressed_keys cs)"
  by (simp add: pressed_keys_def)

lemma scan_table:
  "\<forall>n < 83. (kybrd_scancode_std ! n = KEY_LSHIFT \<longleftrightarrow> n = 0x2A) \<and> (kybrd_scancode_std ! n = KEY_RSHIFT \<longleftrightarrow> n = 0x36) \<and>
    (kybrd_scancode_std ! n = KEY_LCTRL \<longleftrightarrow> n = 0x1D) \<and> kybrd_scancode_std ! n \<noteq> KEY_RCTRL \<and> kybrd_scancode_std ! n \<noteq> KEY_LALT \<and>
    (kybrd_scancode_std ! n = KEY_RALT \<longleftrightarrow> n = 0x38) \<and> (kybrd_scancode_std ! n = KEY_CAPSLOCK \<longleftrightarrow> n = 0x3A) \<and>
    (kybrd_scancode_std ! n = KEY_KP_NUMLOCK \<longleftrightarrow> n = 0x45) \<and> (kybrd_scancode_std ! n = KEY_SCROLLLOCK \<longleftrightarrow> n = 0x46)"
  by code_simp

lemma scan_table_length: "length kybrd_scancode_std = 83"
  by (simp add: kybrd_scancode_std_def)

lemmas key_codes = KEY_LSHIFT_def KEY_RSHIFT_def KEY_LCTRL_def KEY_RCTRL_def KEY_LALT_def KEY_RALT_def KEY_CAPSLOCK_def KEY_KP_NUMLOCK_def KEY_SCROLLLOCK_def

lemma key_released_eq:
  assumes "n < 83"
  shows "key_released (kybrd_scancode_std ! n) s = s\<lparr>shift_down := shift_down s \<and> n \<noteq> 0x2A \<and> n \<noteq> 0x36,
    ctrl_down := ctrl_down s \<and> n \<noteq> 0x1D, alt_down := alt_down s \<and> n \<noteq> 0x38\<rparr>"
  using scan_table [rule_format, OF assms] by (auto simp: key_released_def)

lemma key_pressed_eq:
  assumes n: "n < 83" and c: "controller_drains s"
  shows "\<exists>k w. key_pressed (kybrd_scancode_std ! n) s = Some (s\<lparr>shift_down := shift_down s \<or> n = 0x2A \<or> n = 0x36,
    ctrl_down := ctrl_down s \<or> n = 0x1D, alt_down := alt_down s \<or> n = 0x38, capslock := (capslock s \<noteq> (n = 0x3A)),
    numlock := (numlock s \<noteq> (n = 0x45)), scrolllock := (scrolllock s \<noteq> (n = 0x46)), status_reads := k, written := w\<rparr>)"
proof -
  note t = scan_table [rule_format, OF n]
  have leds: "\<exists>k w. kybrd_set_leds a b d u = Some (u\<lparr>status_reads := k, written := w\<rparr>)" if "status_port u = status_port s" for a b d and u :: "'a kbd_scheme"
    by (rule set_leds_ok) (use c that in \<open>simp add: controller_drains_def\<close>)
  consider "n = 0x3A" | "n = 0x45" | "n = 0x46" | "n \<noteq> 0x3A" "n \<noteq> 0x45" "n \<noteq> 0x46" by blast
  then show ?thesis
  proof cases
    case 1
    from leds [of "s\<lparr>capslock := \<not> capslock s\<rparr>" "numlock s" "\<not> capslock s" "scrolllock s"] obtain k w
      where "kybrd_set_leds (numlock s) (\<not> capslock s) (scrolllock s) (s\<lparr>capslock := \<not> capslock s\<rparr>) = Some (s\<lparr>capslock := \<not> capslock s, status_reads := k, written := w\<rparr>)"
      by auto
    then show ?thesis using t 1 by (intro exI [of _ k] exI [of _ w]) (simp add: key_pressed_def Let_def key_codes)
  next
    case 2
    from leds [of "s\<lparr>numlock := \<not> numlock s\<rparr>" "\<not> numlock s" "capslock s" "scrolllock s"] obtain k w
      where "kybrd_set_leds (\<not> numlock s) (capslock s) (scrolllock s) (s\<lparr>numlock := \<not> numlock s\<rparr>) = Some (s\<lparr>numlock := \<not> numlock s, status_reads := k, written := w\<rparr>)"
      by auto
    then show ?thesis using t 2 by (intro exI [of _ k] exI [of _ w]) (simp add: key_pressed_def Let_def key_codes)
  next
    case 3
    from leds [of "s\<lparr>scrolllock := \<not> scrolllock s\<rparr>" "numlock s" "capslock s" "\<not> scrolllock s"] obtain k w
      where "kybrd_set_leds (numlock s) (capslock s) (\<not> scrolllock s) (s\<lparr>scrolllock := \<not> scrolllock s\<rparr>) = Some (s\<lparr>scrolllock := \<not> scrolllock s, status_reads := k, written := w\<rparr>)"
      by auto
    then show ?thesis using t 3 by (intro exI [of _ k] exI [of _ w]) (simp add: key_pressed_def Let_def key_codes)
  next
    case 4
    then show ?thesis using t by (intro exI [of _ "status_reads s"] exI [of _ "written s"]) (simp add: key_pressed_def key_codes)
  qed
qed

subsection \<open>The daemon\<close>

definition awake :: "'a kbd_scheme \<Rightarrow> ptr \<Rightarrow> bool" where
  \<comment> \<open>The thread of this node is not blocked.\<close>
  "awake s p \<longleftrightarrow> (\<exists>n t. nodes s p = Some n \<and> tcbs s (dn_data n) = Some t \<and> t_state t \<noteq> THREAD_BLOCK)"

definition kbd_ready :: "'a kbd_scheme \<Rightarrow> bool" where
  "kbd_ready s \<longleftrightarrow> spsc_ok (keycode_buffer s) \<and> spsc_ok (user_buffer s) \<and> controller_drains s \<and> (active s = 0 \<or> awake s (active s))"

lemma notify_awake: "awake s p \<Longrightarrow> thread_notify p s = Some s"
  by (auto simp: awake_def thread_notify_def Let_def)

lemma break_bit: "uint c AND 0x80 \<noteq> 0 \<longleftrightarrow> 128 \<le> unat c" for c :: u8
proof -
  have l: "uint c < 256" using uint_bounded [of c] by simp
  have "uint c AND 0x80 \<noteq> 0 \<longleftrightarrow> bit (uint c) 7" using and_exp_eq_0_iff_not_bit [of "uint c" 7] by simp
  also have "\<dots> \<longleftrightarrow> odd (uint c div 128)" by (simp add: bit_iff_odd)
  also have "\<dots> \<longleftrightarrow> 128 \<le> uint c"
  proof (cases "128 \<le> uint c")
    case True
    then have "uint c div 128 = 1" using l by (simp add: div_pos_geq)
    then show ?thesis using True by simp
  qed simp
  also have "\<dots> \<longleftrightarrow> 128 \<le> unat c"
  proof -
    have "int (unat c) = uint c" by simp
    then show ?thesis by linarith
  qed
  finally show ?thesis .
qed

lemma std_key_code:
  assumes "known_code c"
  shows "128 \<le> unat c \<Longrightarrow> std_key (uint c - 0x80) = Some (kybrd_scancode_std ! (unat c mod 128))"
    and "unat c < 128 \<Longrightarrow> std_key (uint c) = Some (kybrd_scancode_std ! unat c)"
proof -
  have u: "uint c = int (unat c)" "unat c < 256" using unsigned_less [of c, where ?'a = nat] by simp_all
  show "std_key (uint c - 0x80) = Some (kybrd_scancode_std ! (unat c mod 128))" if g: "128 \<le> unat c"
  proof -
    have "unat c mod 128 = unat c - 128" using g u by (simp add: le_mod_geq)
    moreover have "128 \<le> uint c" using g u(1) by linarith
    moreover have "nat (uint c - 128) = unat c - 128" using g u(1) by linarith
    ultimately show ?thesis using assms unfolding std_key_def known_code_def by (simp add: scan_table_length nat_diff_distrib)
  qed
  show "std_key (uint c) = Some (kybrd_scancode_std ! unat c)" if "unat c < 128"
    using assms that unfolding u std_key_def known_code_def by (simp add: scan_table_length)
qed

definition same_but_keys :: "'a kbd_scheme \<Rightarrow> 'a kbd_scheme \<Rightarrow> bool" where
  \<comment> \<open>What no scan code touches.\<close>
  "same_but_keys s t \<longleftrightarrow> nodes t = nodes s \<and> tcbs t = tcbs s \<and> active t = active s \<and> status_port t = status_port s \<and>
     kybrd_BAT_res t = kybrd_BAT_res s \<and> kybrd_diag_res t = kybrd_diag_res s \<and> kybrd_resend_res t = kybrd_resend_res s \<and>
     max_count (user_buffer t) = max_count (user_buffer s)"

definition after_codes :: "u8 list \<Rightarrow> 'a kbd_scheme \<Rightarrow> 'a kbd_scheme \<Rightarrow> bool" where
  \<comment> \<open>The state \<open>t\<close> shows what these codes do to \<open>s\<close>.\<close>
  "after_codes cs s t \<longleftrightarrow> shift_down t = held {0x2A, 0x36} cs (shift_down s) \<and> ctrl_down t = held {0x1D} cs (ctrl_down s) \<and>
     alt_down t = held {0x38} cs (alt_down s) \<and> capslock t = toggled 0x3A cs (capslock s) \<and>
     numlock t = toggled 0x45 cs (numlock s) \<and> scrolllock t = toggled 0x46 cs (scrolllock s) \<and>
     spsc_contents (user_buffer t) = (if active s = 0 then spsc_contents (user_buffer s)
       else spsc_contents (user_buffer s) @ take (unat (max_count (user_buffer s)) - 1 - length (spsc_contents (user_buffer s))) (pressed_keys cs))"

lemma after_Nil: "after_codes [] s s"
  by (simp add: after_codes_def held_def toggled_def pressed_keys_def)

lemma watch_errors_code: "0 \<le> code s \<Longrightarrow> code s < 0x80 \<Longrightarrow> watch_errors s = s"
  by (simp add: watch_errors_def KYBRD_ERR_BAT_FAILED_def KYBRD_ERR_DIAG_FAILED_def KYBRD_ERR_RESEND_CMD_def)

lemma handle_break:
  assumes "queue_spsc_peek 0 (keycode_buffer s) = Some c" "queue_spsc_remove (keycode_buffer s) = Some (b, q)" "uint c AND 0x80 \<noteq> 0"
    "std_key (uint c - 0x80) = Some key"
  shows "handle_code s = Some (watch_errors (key_released key (s\<lparr>keycode_buffer := q, code := uint c - 0x80\<rparr>)))"
  using assms by (simp add: handle_code_def Let_def)

lemma handle_make:
  assumes "queue_spsc_peek 0 (keycode_buffer s) = Some c" "queue_spsc_remove (keycode_buffer s) = Some (b, q)" "uint c AND 0x80 = 0"
    "std_key (uint c) = Some key" "key_pressed key (s\<lparr>code := uint c, keycode_buffer := q, scancode := of_int (uint c)\<rparr>) = Some t"
  shows "handle_code s = do {
    t \<leftarrow> (if active t \<noteq> 0 then do { (_, q) \<leftarrow> queue_spsc_insert key (user_buffer t); thread_notify (active t) (t\<lparr>user_buffer := q\<rparr>) } else Some t);
    Some (watch_errors t) }"
  using assms by (simp add: handle_code_def Let_def cong: if_cong)

lemma handle_code_ok:
  assumes r: "kbd_ready s" and c: "spsc_contents (keycode_buffer s) = c # cs" "known_code c"
  shows "\<exists>t. handle_code s = Some t \<and> kbd_ready t \<and> spsc_contents (keycode_buffer t) = cs \<and> same_but_keys s t \<and> after_codes [c] s t"
proof -
  have k: "spsc_ok (keycode_buffer s)" and u: "spsc_ok (user_buffer s)" and d: "controller_drains s" and a: "active s = 0 \<or> awake s (active s)"
    using r by (auto simp: kbd_ready_def)
  have pk: "queue_spsc_peek 0 (keycode_buffer s) = Some c" using queue_spsc_peek_ok [OF k, of 0] c by auto
  obtain q where q: "queue_spsc_remove (keycode_buffer s) = Some (True, q)" "spsc_ok q" "spsc_contents q = cs"
    using queue_spsc_remove_ok [OF k] c by auto
  have n: "unat c mod 128 < 83" using c(2) by (simp add: known_code_def)
  show ?thesis
  proof (cases "128 \<le> unat c")
    case True
    let ?n = "unat c mod 128" and ?s = "s\<lparr>keycode_buffer := q, code := uint c - 0x80\<rparr>"
    let ?t = "?s\<lparr>shift_down := shift_down s \<and> ?n \<noteq> 0x2A \<and> ?n \<noteq> 0x36, ctrl_down := ctrl_down s \<and> ?n \<noteq> 0x1D, alt_down := alt_down s \<and> ?n \<noteq> 0x38\<rparr>"
    have b: "uint c AND 0x80 \<noteq> 0" using True break_bit by blast
    have "int (unat c) = uint c" by simp
    then have l: "128 \<le> uint c" "uint c < 256" using True uint_bounded [of c] by (linarith, simp)
    have "watch_errors ?t = ?t" by (rule watch_errors_code) (use l in simp_all)
    then have "handle_code s = Some ?t"
      unfolding handle_break [OF pk q(1) b std_key_code(1) [OF c(2) True]] key_released_eq [OF n] by simp
    moreover have "kbd_ready ?t" using r q by (simp add: kbd_ready_def controller_drains_def awake_def)
    moreover have "same_but_keys s ?t" by (simp add: same_but_keys_def)
    moreover have "after_codes [c] s ?t" using True by (auto simp: after_codes_def held_def toggled_def pressed_keys_def)
    ultimately show ?thesis using q by (intro exI [of _ ?t]) simp
  next
    case False
    then have m: "unat c mod 128 = unat c" "unat c < 83" using n by simp_all
    let ?n = "unat c" and ?s = "s\<lparr>code := uint c, keycode_buffer := q, scancode := of_int (uint c)\<rparr>"
    let ?key = "kybrd_scancode_std ! ?n"
    have b: "uint c AND 0x80 = 0" using False break_bit by blast
    have "int (unat c) = uint c" by simp
    then have l: "0 \<le> uint c" "uint c < 0x80" using False by (simp, linarith)
    have "controller_drains ?s" using d by (simp add: controller_drains_def)
    from key_pressed_eq [OF m(2) this] obtain k w where kp: "key_pressed ?key ?s = Some (?s\<lparr>shift_down := shift_down s \<or> ?n = 0x2A \<or> ?n = 0x36,
      ctrl_down := ctrl_down s \<or> ?n = 0x1D, alt_down := alt_down s \<or> ?n = 0x38, capslock := (capslock s \<noteq> (?n = 0x3A)),
      numlock := (numlock s \<noteq> (?n = 0x45)), scrolllock := (scrolllock s \<noteq> (?n = 0x46)), status_reads := k, written := w\<rparr>)" by auto
    let ?t = "?s\<lparr>shift_down := shift_down s \<or> ?n = 0x2A \<or> ?n = 0x36,
      ctrl_down := ctrl_down s \<or> ?n = 0x1D, alt_down := alt_down s \<or> ?n = 0x38, capslock := (capslock s \<noteq> (?n = 0x3A)),
      numlock := (numlock s \<noteq> (?n = 0x45)), scrolllock := (scrolllock s \<noteq> (?n = 0x46)), status_reads := k, written := w\<rparr>"
    obtain e u' where u': "queue_spsc_insert ?key (user_buffer s) = Some (e, u')" "spsc_ok u'" "max_count u' = max_count (user_buffer s)"
      "spsc_contents u' = (if e then spsc_contents (user_buffer s) @ [?key] else spsc_contents (user_buffer s))"
      "e \<longleftrightarrow> length (spsc_contents (user_buffer s)) + 1 < unat (max_count (user_buffer s))"
      using queue_spsc_insert_ok [OF u, of ?key] by auto
    define t where "t = (if active s \<noteq> 0 then ?t\<lparr>user_buffer := u'\<rparr> else ?t)"
    have "awake (?t\<lparr>user_buffer := u'\<rparr>) (active s)" if "active s \<noteq> 0" using a that by (simp add: awake_def)
    note nt = notify_awake [OF this]
    have we: "watch_errors t = t" by (rule watch_errors_code) (use l in \<open>simp_all add: t_def\<close>)
    have "handle_code s = Some (watch_errors t)"
      unfolding handle_make [OF pk q(1) b std_key_code(2) [OF c(2)] kp, OF False [unfolded not_le]] t_def using u' nt by simp
    then have "handle_code s = Some t" unfolding we .
    moreover have "kbd_ready t" using k u d a q u' by (auto simp: kbd_ready_def controller_drains_def awake_def t_def)
    moreover have "same_but_keys s t" using u' by (simp add: same_but_keys_def t_def)
    moreover have "after_codes [c] s t"
    proof -
      have "c = 0x3A \<longleftrightarrow> ?n = 0x3A" "c = 0x45 \<longleftrightarrow> ?n = 0x45" "c = 0x46 \<longleftrightarrow> ?n = 0x46" by (simp_all add: word_unat_eq_iff)
      then have "toggled 0x3A [c] b = (b \<noteq> (?n = 0x3A))" "toggled 0x45 [c] b = (b \<noteq> (?n = 0x45))" "toggled 0x46 [c] b = (b \<noteq> (?n = 0x46))" for b
        by (simp_all add: toggled_def)
      moreover have "held keys [c] b = (b \<or> ?n \<in> keys)" for keys b using False m by (simp add: held_def)
      moreover have "pressed_keys [c] = [?key]" using False by (simp add: pressed_keys_def)
      ultimately show ?thesis using u' by (simp add: after_codes_def t_def)
    qed
    ultimately show ?thesis using q by (intro exI [of _ t]) (simp add: t_def)
  qed
qed

lemma after_codes_Cons:
  assumes a: "after_codes [c] s t" and b: "after_codes cs t u" and m: "same_but_keys s t"
  shows "after_codes (c # cs) s u"
proof -
  have h: "held keys cs (held keys [c] b) = held keys (c # cs) b" for keys b by (simp only: held_Cons) (simp add: held_def)
  have t: "toggled k cs (toggled k [c] b) = toggled k (c # cs) b" for k b by (simp only: toggled_Cons) (simp add: toggled_def)
  have p: "m - Suc (n + min k (m - Suc n)) = m - Suc (n + k)" for m n k :: nat by (simp add: min_def)
  have q: "pressed_keys (c # cs) = pressed_keys [c] @ pressed_keys cs" by (simp add: pressed_keys_def)
  show ?thesis
    using a b m unfolding after_codes_def same_but_keys_def q by (simp add: h t p diff_diff_left)
qed

lemma same_but_keys_trans: "same_but_keys s t \<Longrightarrow> same_but_keys t u \<Longrightarrow> same_but_keys s u"
  by (simp add: same_but_keys_def)

lemma drain_ok:
  "kbd_ready s \<Longrightarrow> spsc_contents (keycode_buffer s) = cs \<Longrightarrow> (\<And>c. c \<in> set cs \<Longrightarrow> known_code c) \<Longrightarrow>
    \<exists>t. keyboard_drain s = Some t \<and> kbd_ready t \<and> spsc_contents (keycode_buffer t) = [] \<and> same_but_keys s t \<and> after_codes cs s t"
proof (induction cs arbitrary: s)
  case Nil
  then have "queue_spsc_is_empty (keycode_buffer s)" by (simp add: queue_spsc_is_empty_ok kbd_ready_def)
  then have "keyboard_drain s = Some s" by (simp add: keyboard_drain.simps [of s])
  then show ?case using Nil after_Nil [of s] by (intro exI [of _ s]) (simp add: same_but_keys_def)
next
  case (Cons c cs)
  have ne: "\<not> queue_spsc_is_empty (keycode_buffer s)" using Cons.prems by (simp add: queue_spsc_is_empty_ok kbd_ready_def)
  have kc: "known_code c" using Cons.prems(3) by simp
  obtain t where t: "handle_code s = Some t" "kbd_ready t" "spsc_contents (keycode_buffer t) = cs" "same_but_keys s t" "after_codes [c] s t"
    using handle_code_ok [OF Cons.prems(1,2) kc] by auto
  have "known_code d" if "d \<in> set cs" for d using Cons.prems(3) that by simp
  from Cons.IH [OF t(2,3) this] obtain u where u: "keyboard_drain t = Some u" "kbd_ready u" "spsc_contents (keycode_buffer u) = []"
    "same_but_keys t u" "after_codes cs t u" by auto
  have "keyboard_drain s = Some u" using ne t(1) u(1) by (simp add: keyboard_drain.simps [of s])
  then show ?case using u after_codes_Cons [OF t(5) u(5) t(4)] same_but_keys_trans [OF t(4) u(4)] by blast
qed

text \<open>
  C22. Whatever codes of keys up to 0x49 the interrupt handler has queued, the daemon works off all of
  them and comes back, provided that the controller is ready again and again and that a reader, if
  there is one, is not blocked. Each of Shift, Control and Alt is then down exactly if the last of its
  codes was a press; each lock is toggled once for every press of its key; a reader gets the pressed
  keys in order, as far as its queue has room. No such code touches the results of the self test or
  the request to resend. (Codes from 0x4A on are looked up in the wrong places of the table, and
  those from 0x53 on outside it.)
\<close>

theorem modifiers_follow_codes:
  assumes "kbd_ready s" and "spsc_contents (keycode_buffer s) = cs" and "\<forall>c \<in> set cs. listed_code c"
  shows "\<exists>t. keyboard_drain s = Some t \<and> spsc_contents (keycode_buffer t) = [] \<and>
    shift_down t = held {0x2A, 0x36} cs (shift_down s) \<and> ctrl_down t = held {0x1D} cs (ctrl_down s) \<and> alt_down t = held {0x38} cs (alt_down s) \<and>
    capslock t = toggled 0x3A cs (capslock s) \<and> numlock t = toggled 0x45 cs (numlock s) \<and> scrolllock t = toggled 0x46 cs (scrolllock s) \<and>
    spsc_contents (user_buffer t) = (if active s = 0 then spsc_contents (user_buffer s)
      else spsc_contents (user_buffer s) @ take (unat (max_count (user_buffer s)) - 1 - length (spsc_contents (user_buffer s))) (pressed_keys cs)) \<and>
    kybrd_BAT_res t = kybrd_BAT_res s \<and> kybrd_diag_res t = kybrd_diag_res s \<and> kybrd_resend_res t = kybrd_resend_res s"
proof -
  obtain t where t: "keyboard_drain s = Some t" "spsc_contents (keycode_buffer t) = []" "same_but_keys s t" "after_codes cs s t"
    using drain_ok [OF assms(1,2)] assms(3) listed_known by auto
  then show ?thesis unfolding same_but_keys_def after_codes_def by (intro exI [of _ t]) simp
qed

definition idle_kbd :: "u8 list \<Rightarrow> kbd" where
  \<comment> \<open>A keyboard whose handler has queued these codes; nobody reads, and the controller is always ready.\<close>
  "idle_kbd cs = \<lparr>nodes = (\<lambda>_. None), tcbs = (\<lambda>_. None), thread_queues = [], block_queue = dl_list_init \<lparr>dl_head = 0, dl_tail = 0, dl_count = 0\<rparr>,
     sleep_queue = dl_list_init \<lparr>dl_head = 0, dl_tail = 0, dl_count = 0\<rparr>, current_thread = 0, in_critical_section = 0, frequency = 0,
     scancode = 0, keycode_buffer = \<lparr>buffer = cs @ replicate (10 - length cs) 0, max_count = 10, head_index = 0, tail_index = of_nat (length cs)\<rparr>,
     user_buffer = queue_spsc_init 10 (replicate 10 0), code = 0, numlock = False, capslock = False, scrolllock = False,
     shift_down = False, alt_down = False, ctrl_down = False, kybrd_BAT_res = True, kybrd_diag_res = False, kybrd_resend_res = False,
     kybrd_disabled = False, keyboard_daemon = 0, active = 0, status_port = (\<lambda>_. 0), status_reads = 0, data_port = (\<lambda>_. 0), data_reads = 0,
     written = [], user_bytes = (\<lambda>_. 0)\<rparr>"

lemma idle_kbd_ready: "kbd_ready (idle_kbd [0x2A, 0x1E, 0x3A])" "spsc_contents (keycode_buffer (idle_kbd [0x2A, 0x1E, 0x3A])) = [0x2A, 0x1E, 0x3A]"
  by (simp_all add: kbd_ready_def controller_drains_def idle_kbd_def spsc_ok_def queue_spsc_init_def spsc_contents_def ring_def) (auto simp: upt_rec)

theorem modifiers_follow_codes_witness:
  "\<exists>t. keyboard_drain (idle_kbd [0x2A, 0x1E, 0x3A]) = Some t \<and> shift_down t \<and> capslock t \<and> \<not> kybrd_resend_res t"
proof -
  have "\<forall>c \<in> set [0x2A, 0x1E, 0x3A]. listed_code c" by (simp add: listed_code_def)
  from modifiers_follow_codes [OF idle_kbd_ready this] show ?thesis
    by (elim exE, intro exI) (auto simp: held_def toggled_def idle_kbd_def)
qed

definition us_keys :: "(u8 \<times> u8) list" where
  \<comment> \<open>The characters of the keys of the main block without and with Shift, in the layout of the driver's table.\<close>
  "us_keys = [(0x60, 0x7E), (0x31, 0x21), (0x32, 0x40), (0x33, 0x23), (0x34, 0x24), (0x35, 0x25), (0x36, 0x5E), (0x37, 0x26), (0x38, 0x2A),
     (0x39, 0x28), (0x30, 0x29), (0x2D, 0x5F), (0x5B, 0x7B), (0x5D, 0x7D), (0x5C, 0x7C), (0x3B, 0x3A), (0x27, 0x22), (0x2C, 0x3C),
     (0x2E, 0x3E), (0x2F, 0x3F), (0x20, 0x20)] @ map (\<lambda>k. (of_nat (97 + k), of_nat (65 + k))) [0..<26]"

text \<open>
  The character of a key is the one its layout shows: with Shift the upper one, where Caps Lock
  reverses Shift for the letters and for nothing else. The one key for which this fails is the equals
  sign, whose upper character should be the plus sign: it stays an equals sign, since the driver maps the plus
  sign (which only the keypad has) to the equals sign instead.
\<close>

theorem key_to_ascii_layout:
  "map (\<lambda>(low, up). kybrd_key_to_ascii (ucast low) s) us_keys =
     map (\<lambda>(low, up). if shift_down s \<noteq> (capslock s \<and> isalpha low) then up else low) us_keys \<and>
   kybrd_key_to_ascii 0x3D s = 0x3D \<and> kybrd_key_to_ascii 0x2B s = (if shift_down s then 0x3D else 0x2B)"
  by (cases "shift_down s"; cases "capslock s")
    (simp_all add: us_keys_def upt_rec kybrd_key_to_ascii_def isalpha_def islower_def isupper_def isdigit_def toupper_def)

text \<open>
  Every code the table has no key for makes the daemon read outside the table and stops it: the release or press of
  key 0x53 and of all keys above it, and each of the error codes the keyboard can send, so the driver's check for them is
  never reached. The keys 0x50 to 0x52 are looked up six places too far.
\<close>

theorem unknown_code_reads_outside:
  assumes "spsc_ok (keycode_buffer s)" and "spsc_contents (keycode_buffer s) = c # cs" and "\<not> known_code c"
  shows "keyboard_drain s = None \<and> \<not> known_code 0x53 \<and> \<not> known_code 0xFC \<and> \<not> known_code 0xFD \<and> \<not> known_code 0xFE \<and>
    std_key 0x50 = Some KEY_UNKNOWN \<and> std_key 0x51 = Some 0x120B"
proof -
  have pk: "queue_spsc_peek 0 (keycode_buffer s) = Some c" using queue_spsc_peek_ok [OF assms(1), of 0] assms(2) by auto
  obtain q where q: "queue_spsc_remove (keycode_buffer s) = Some (True, q)" using queue_spsc_remove_ok [OF assms(1)] assms(2) by auto
  have i: "int (unat c) = uint c" by simp
  have "handle_code s = None"
  proof (cases "128 \<le> unat c")
    case True
    have "unat c < 256" using unsigned_less [of c, where ?'a = nat] by simp
    then have "unat c mod 128 = unat c - 128" using True by (simp add: le_mod_geq)
    then have "128 + 83 \<le> unat c" using assms(3) True by (simp add: known_code_def)
    then have "\<not> nat (uint c - 0x80) < 83" using i by linarith
    then have "std_key (uint c - 0x80) = None" by (simp add: std_key_def scan_table_length)
    moreover have "uint c AND 0x80 \<noteq> 0" using True break_bit by blast
    ultimately show ?thesis using pk q by (simp add: handle_code_def Let_def cong: if_cong)
  next
    case False
    then have "\<not> nat (uint c) < 83" using assms(3) by (simp add: known_code_def)
    then have "std_key (uint c) = None" by (simp add: std_key_def scan_table_length)
    moreover have "uint c AND 0x80 = 0" using False break_bit by blast
    ultimately show ?thesis using pk q by (simp add: handle_code_def Let_def cong: if_cong)
  qed
  moreover have "\<not> queue_spsc_is_empty (keycode_buffer s)" using assms by (simp add: queue_spsc_is_empty_ok)
  ultimately have "keyboard_drain s = None" by (simp add: keyboard_drain.simps [of s])
  moreover have "std_key 0x50 = Some KEY_UNKNOWN" "std_key 0x51 = Some 0x120B" by (simp_all add: std_key_def kybrd_scancode_std_def KEY_UNKNOWN_def)
  ultimately show ?thesis by (simp add: known_code_def)
qed

theorem unknown_code_reads_outside_witness: "keyboard_drain (idle_kbd [0x53]) = None"
proof -
  have "spsc_ok (keycode_buffer (idle_kbd [0x53]))" "spsc_contents (keycode_buffer (idle_kbd [0x53])) = [0x53]"
    by (simp_all add: idle_kbd_def spsc_ok_def spsc_contents_def ring_def)
  moreover have "\<not> known_code 0x53" by (simp add: known_code_def)
  ultimately show ?thesis using unknown_code_reads_outside [of "idle_kbd [0x53]" "0x53" "[]"] by simp
qed

end
