(* ===== verification/Page_Fault.thy ===== *)
theory Page_Fault
  imports File_Io Vm_Contract Ring_Queue
begin

text \<open>
  The page fault handler of mmngr_virtual.cpp, which brings the pages of a process into memory when they
  are first used: the top half that queues the fault, and the bottom half that looks the address up in the process's memory
  contract and maps a page. The process's contract and lock and the thread's queue of exceptions join the
  state of the page tables and files. A halt of the kernel is \<open>None\<close>.
\<close>

subsection \<open>State\<close>

record thread_exception =
  te_number :: u8
  te_addr :: u32
  te_code :: u32

record fault = files +
  pf_contract :: vm_contract
  pf_spinlock :: u32
  pf_exceptions :: "thread_exception queue_spsc"
  pf_threading :: bool

definition page_fault_error_is_page_present :: "u32 \<Rightarrow> bool" where
  "page_fault_error_is_page_present error \<longleftrightarrow> error AND 1 \<noteq> 0"

definition page_fault_error_is_write :: "u32 \<Rightarrow> bool" where
  "page_fault_error_is_write error \<longleftrightarrow> error AND 2 \<noteq> 0"

definition page_fault_error_is_user :: "u32 \<Rightarrow> bool" where
  "page_fault_error_is_user error \<longleftrightarrow> error AND 4 \<noteq> 0"

subsection \<open>The handler\<close>

definition page_fault :: "u32 \<Rightarrow> u32 \<Rightarrow> 'a fault_scheme \<Rightarrow> 'a fault_scheme option" where
  \<comment> \<open>\<open>addr\<close> is what the register \<^verbatim>\<open>cr2\<close> holds. A full queue is only reported.\<close>
  "page_fault addr err_code s =
     (if pf_threading s then do {
        (_, q) \<leftarrow> queue_spsc_insert \<lparr>te_number = 14, te_addr = addr, te_code = err_code\<rparr> (pf_exceptions s);
        Some (s\<lparr>pf_exceptions := q\<rparr>)
      }
      else None)"

definition page_fault_calculate_present_flags :: "u32 \<Rightarrow> u32" where
  "page_fault_calculate_present_flags area_flags =
     (let flags = I86_PDE_PRESENT;
        flags = (if CHK_BIT area_flags MMAP_WRITE then flags OR I86_PDE_WRITABLE else flags);
        flags = (if CHK_BIT area_flags MMAP_USER then flags OR I86_PDE_USER else flags)
      in flags)"

definition page_fault_alloc_page :: "u32 \<Rightarrow> virtual_addr \<Rightarrow> 'a fault_scheme \<Rightarrow> 'a fault_scheme option" where
  "page_fault_alloc_page area_flags address s = do {
     let flags = page_fault_calculate_present_flags area_flags;
     (_, s) \<leftarrow> (if CHK_BIT area_flags MMAP_IDENTITY_MAP
       then vmmngr_map_page (vmmngr_get_directory s) address address flags s
       else vmmngr_alloc_page_f address flags s);
     Some s
   }"

partial_function (option) alloc_area_loop :: "u32 \<Rightarrow> virtual_addr \<Rightarrow> virtual_addr \<Rightarrow> 'a fault_scheme \<Rightarrow> 'a fault_scheme option" where
  [code]: "alloc_area_loop area_flags address end' s =
     (if address < end' then do {
        s \<leftarrow> page_fault_alloc_page area_flags address s;
        alloc_area_loop area_flags (address + 4096) end' s
      }
      else Some s)"

definition private_fault ::
  "'a fault_scheme fs_calls \<Rightarrow> ('a fault_scheme \<Rightarrow> ptr) \<Rightarrow> vm_area \<Rightarrow> u32 \<Rightarrow> 'a fault_scheme \<Rightarrow> 'a fault_scheme option" where
  "private_fault calls new area addr s =
     (if CHK_BIT (a_flags area) MMAP_ALLOC_IMMEDIATE
      then alloc_area_loop (a_flags area) (start_addr area) (end_addr area) s
      else if CHK_BIT (a_flags area) MMAP_ANONYMOUS then page_fault_alloc_page (a_flags area) (addr AND NOT 0xFFF) s
      else do {
        let flags = page_fault_calculate_present_flags (a_flags area);
        (_, s) \<leftarrow> vmmngr_alloc_page_f (addr AND NOT 0xFFF) flags s;
        let read_start = a_offset area + ((addr - start_addr area) div PAGE_SIZE) * PAGE_SIZE;
        (_, s) \<leftarrow> vmmngr_get_phys_addr (addr AND NOT 0xFFF) s;
        let (entry, s) = gft_get (a_fd area) s;
        if entry = None then None
        else do {
          (n, s) \<leftarrow> read_file_global calls new (a_fd area) read_start PAGE_SIZE (addr AND NOT 0xFFF) (VFS_CAP_READ OR VFS_CAP_CACHE) s;
          if n \<noteq> PAGE_SIZE then None else Some s
        }
      })"

definition shared_fault ::
  "'a fault_scheme fs_calls \<Rightarrow> ('a fault_scheme \<Rightarrow> ptr) \<Rightarrow> vm_area \<Rightarrow> u32 \<Rightarrow> 'a fault_scheme \<Rightarrow> 'a fault_scheme option" where
  "shared_fault calls new area addr s =
     (if CHK_BIT (a_flags area) MMAP_ANONYMOUS then None
      else do {
        let read_start = a_offset area + ((addr AND NOT 0xFFF) - start_addr area);
        let (_, s) = gft_get (a_fd area) s;
        (n, s) \<leftarrow> read_file_global calls new (a_fd area) read_start PAGE_SIZE (- 1) (VFS_CAP_READ OR VFS_CAP_CACHE) s;
        if n \<noteq> PAGE_SIZE then None
        else do {
          (used_cache, s) \<leftarrow> page_cache_get_buffer (a_fd area) (read_start div PAGE_SIZE) s;
          let flags = page_fault_calculate_present_flags (a_flags area);
          (phys, s) \<leftarrow> vmmngr_get_phys_addr used_cache s;
          (_, s) \<leftarrow> vmmngr_map_page (vmmngr_get_directory s) phys (addr AND NOT 0xFFF) flags s;
          Some s
        }
      })"

definition page_fault_bottom ::
  "'a fault_scheme fs_calls \<Rightarrow> ('a fault_scheme \<Rightarrow> ptr) \<Rightarrow> thread_exception \<Rightarrow> 'a fault_scheme \<Rightarrow> 'a fault_scheme option" where
  "page_fault_bottom calls new te s =
     (let addr = te_addr te; code = te_code te in
      if pf_spinlock s = 1 then None
      else do {
        l \<leftarrow> spinlock_acquire (pf_spinlock s);
        let s = s\<lparr>pf_spinlock := l\<rparr>;
        (p_area, s) \<leftarrow> vm_contract_find_area (pf_contract s) addr s;
        i \<leftarrow> p_area;
        area \<leftarrow> vec_get (vc_areas (pf_contract s)) i;
        let s = s\<lparr>pf_spinlock := spinlock_release (pf_spinlock s)\<rparr>;
        if a_flags area AND MMAP_PROTECTION = MMAP_NO_ACCESS then None
        else if page_fault_error_is_write code \<and> a_flags area AND MMAP_WRITE \<noteq> MMAP_WRITE then None
        else if page_fault_error_is_page_present code then None
        else if CHK_BIT (a_flags area) MMAP_PRIVATE then private_fault calls new area addr s
        else shared_fault calls new area addr s
      })"

subsection \<open>What the handler decides\<close>

definition access_allowed :: "vm_area \<Rightarrow> u32 \<Rightarrow> bool" where
  \<comment> \<open>What the handler asks of an access with this error code. Whether it came from user mode, and the
    flags \<^verbatim>\<open>MMAP_READ\<close>, \<^verbatim>\<open>MMAP_EXEC\<close> and \<^verbatim>\<open>MMAP_USER\<close> apart from all four being absent, play no part.\<close>
  "access_allowed area code \<longleftrightarrow> a_flags area AND MMAP_PROTECTION \<noteq> MMAP_NO_ACCESS \<and>
     (page_fault_error_is_write code \<longrightarrow> CHK_BIT (a_flags area) MMAP_WRITE) \<and> \<not> page_fault_error_is_page_present code"

lemma lock_unchanged: "pf_spinlock s = 0 \<Longrightarrow> s\<lparr>pf_spinlock := 0\<rparr> = s"
  by (cases s) (simp add: fault.defs)

lemma bottom_eq:
  assumes ok: "contract_ok (pf_contract s) xs" and l: "pf_spinlock s = 0" and i: "area_contains xs (te_addr te) i"
  shows "page_fault_bottom calls new te s =
    (if \<not> access_allowed (xs ! unat i) (te_code te) then None
     else if CHK_BIT (a_flags (xs ! unat i)) MMAP_PRIVATE then private_fault calls new (xs ! unat i) (te_addr te) s
     else shared_fault calls new (xs ! unat i) (te_addr te) s)"
proof -
  have f: "vm_contract_find_area (pf_contract s) (te_addr te) (s\<lparr>pf_spinlock := 1\<rparr>) = Some (Some i, s\<lparr>pf_spinlock := 1\<rparr>)"
    using find_area_ok [OF ok, of "te_addr te" "s\<lparr>pf_spinlock := 1\<rparr>"] area_contains_unique [OF ok i] i by blast
  have v: "vec_get (vc_areas (pf_contract s)) i = Some (xs ! unat i)"
    using ok i by (intro vec_get_rep) (auto simp: contract_ok_def area_contains_def)
  have l1: "spinlock_acquire 0 = Some 1" "spinlock_release x = 0" for x by (simp_all add: spinlock_acquire_def spinlock_release_def)
  show ?thesis
    using l f v by (simp add: page_fault_bottom_def Let_def l1 access_allowed_def CHK_BIT_def lock_unchanged)
qed

lemma bottom_no_area:
  assumes ok: "contract_ok (pf_contract s) xs" and "\<forall>i. \<not> area_contains xs (te_addr te) i"
  shows "page_fault_bottom calls new te s = None"
proof -
  obtain x where "vm_contract_find_area (pf_contract s) (te_addr te) (s\<lparr>pf_spinlock := 1\<rparr>) =
      Some (None, set_last_error EINVAL x EO_VM_CONTRACT (s\<lparr>pf_spinlock := 1\<rparr>))"
    using find_area_ok [OF ok, of "te_addr te" "s\<lparr>pf_spinlock := 1\<rparr>"] assms(2) by blast
  then show ?thesis by (simp add: page_fault_bottom_def Let_def spinlock_acquire_def)
qed

lemma fault_flags_ok: "flags_ok (page_fault_calculate_present_flags f)"
  by (auto simp: flags_ok_def page_fault_calculate_present_flags_def Let_def kernel_simps)

lemma page_aligned: "(x AND NOT 0xFFF) AND mask 12 = (0 :: u32)"
  by (rule bit_word_eqI) (simp add: bit_simps frame_mask)

lemma alloc_page_f_returns:
  assumes "vm_ok (current_directory s) s" and "page AND mask 12 = 0" and "page < 0xF0000000" and "flags_ok f"
  shows "\<exists>e s'. vmmngr_alloc_page_f page f s = Some (e, s')"
  using alloc_page_f_fresh [OF assms(1,4) _ assms(3)] alloc_page_f_mapped [OF assms(1,2,4)]
  by (cases "translate s (current_directory s) page") blast+

lemma page_fault_alloc_page_returns:
  assumes "vm_ok (current_directory s) s" and "page AND mask 12 = 0" and "page < 0xF0000000"
  shows "\<exists>s'. page_fault_alloc_page f page s = Some s'"
proof -
  obtain e s' where a: "vmmngr_alloc_page_f page (page_fault_calculate_present_flags f) s = Some (e, s')"
    using alloc_page_f_returns [OF assms fault_flags_ok] by blast
  show ?thesis
    by (rule map_page_ok [OF assms(1,2) fault_flags_ok [of f], of page])
      (use a in \<open>auto simp: page_fault_alloc_page_def Let_def vmmngr_get_directory_def\<close>)
qed

text \<open>
  C23. Which faulting accesses are let through. If the handler of a page fault comes back at all, the
  contract's lock was free, the address lies in an area of the process's memory contract whose
  protection is not \<^verbatim>\<open>MMAP_NO_ACCESS\<close>, a write was to an area with \<^verbatim>\<open>MMAP_WRITE\<close>, and the page was absent;
  in every other case the kernel halts. In private anonymous memory below the device area these
  checks are also all there is: when they pass, the handler comes back, whether or not the access
  came from user mode and the area has \<^verbatim>\<open>MMAP_USER\<close>, and whether or not a read area has \<^verbatim>\<open>MMAP_READ\<close>.
\<close>

theorem page_fault_protects:
  assumes "contract_ok (pf_contract s) xs" and "pf_spinlock s = 0 \<or> pf_spinlock s = 1" and "vm_ok (current_directory s) s"
  shows "(\<forall>s'. page_fault_bottom calls new te s = Some s' \<longrightarrow>
      pf_spinlock s = 0 \<and> (\<exists>i. area_contains xs (te_addr te) i \<and> access_allowed (xs ! unat i) (te_code te))) \<and>
    (\<forall>i. pf_spinlock s = 0 \<and> area_contains xs (te_addr te) i \<and> access_allowed (xs ! unat i) (te_code te) \<and>
      CHK_BIT (a_flags (xs ! unat i)) MMAP_PRIVATE \<and> CHK_BIT (a_flags (xs ! unat i)) MMAP_ANONYMOUS \<and>
      \<not> CHK_BIT (a_flags (xs ! unat i)) MMAP_ALLOC_IMMEDIATE \<and> te_addr te AND NOT 0xFFF < 0xF0000000 \<longrightarrow>
      (\<exists>s'. page_fault_bottom calls new te s = Some s'))"
proof (intro conjI allI impI)
  fix s' assume r: "page_fault_bottom calls new te s = Some s'"
  then show l: "pf_spinlock s = 0" using assms(2) by (auto simp: page_fault_bottom_def)
  show "\<exists>i. area_contains xs (te_addr te) i \<and> access_allowed (xs ! unat i) (te_code te)"
  proof (cases "\<exists>i. area_contains xs (te_addr te) i")
    case True
    then obtain i where i: "area_contains xs (te_addr te) i" ..
    then show ?thesis using bottom_eq [OF assms(1) l i, of calls new] r by (auto split: if_splits)
  next
    case False
    then show ?thesis using bottom_no_area [OF assms(1)] r by auto
  qed
next
  fix i assume i: "pf_spinlock s = 0 \<and> area_contains xs (te_addr te) i \<and> access_allowed (xs ! unat i) (te_code te) \<and>
      CHK_BIT (a_flags (xs ! unat i)) MMAP_PRIVATE \<and> CHK_BIT (a_flags (xs ! unat i)) MMAP_ANONYMOUS \<and>
      \<not> CHK_BIT (a_flags (xs ! unat i)) MMAP_ALLOC_IMMEDIATE \<and> te_addr te AND NOT 0xFFF < 0xF0000000"
  then obtain s' where "page_fault_alloc_page (a_flags (xs ! unat i)) (te_addr te AND NOT 0xFFF) s = Some s'"
    using page_fault_alloc_page_returns [OF assms(3) page_aligned] by blast
  then show "\<exists>s'. page_fault_bottom calls new te s = Some s'"
    using i bottom_eq [OF assms(1), of te i calls new] by (simp add: private_fault_def)
qed

lemma rest_same_alloc_page_f: "vmmngr_alloc_page_f a f s = Some (e, s') \<Longrightarrow> rest_same s s'"
  unfolding vmmngr_alloc_page_f_def Let_def
  by (auto split: if_splits option.splits prod.splits elim!: bind_SomeE
      dest!: rest_same_is_page_present rest_same_get_phys_addr rest_same_alloc_block rest_same_map_page; simp add: rest_same_def set_last_error_def Let_def)

lemma rest_same_fault: "rest_same s s' \<Longrightarrow> pf_contract s' = pf_contract s \<and> pf_spinlock s' = pf_spinlock s"
  by (cases s; cases s') (simp add: rest_same_def)

text \<open>
  The first use of a page of anonymous private memory. When the access is allowed and the page is not
  mapped, the handler comes back, the contract and its free lock are as before, and either
  the page is now mapped to a block that was free and is in use, and no other page is mapped differently, or no
  translation has changed: then memory was exhausted, or a block was taken for the page but not for the table it
  needed. The handler does not tell the two cases apart, so in the second the access faults again.
\<close>

theorem anonymous_page_fault:
  fixes s :: "'a fault_scheme"
  assumes ok: "contract_ok (pf_contract s) xs" and l: "pf_spinlock s = 0" and i: "area_contains xs (te_addr te) i"
    and acc: "access_allowed (xs ! unat i) (te_code te)"
    and fl: "CHK_BIT (a_flags (xs ! unat i)) MMAP_PRIVATE" "CHK_BIT (a_flags (xs ! unat i)) MMAP_ANONYMOUS"
      "\<not> CHK_BIT (a_flags (xs ! unat i)) MMAP_ALLOC_IMMEDIATE" "\<not> CHK_BIT (a_flags (xs ! unat i)) MMAP_IDENTITY_MAP"
    and vm: "vm_ok (current_directory s) s" and t: "translate s (current_directory s) (te_addr te AND NOT 0xFFF) = None"
    and lo: "te_addr te AND NOT 0xFFF < 0xF0000000"
  shows "\<exists>s'. page_fault_bottom calls new te s = Some s' \<and> vm_ok (current_directory s) s' \<and> pf_contract s' = pf_contract s \<and> pf_spinlock s' = 0 \<and>
    ((\<exists>a. (unat a, 4096) \<notin> block_regions s \<and> (unat a, 4096) \<in> block_regions s' \<and>
       (\<forall>w. translate s' (current_directory s) w =
         (if same_page w (te_addr te AND NOT 0xFFF) then Some (a OR (w AND 0xFFF)) else translate s (current_directory s) w))) \<or>
     (\<forall>w. translate s' (current_directory s) w = translate s (current_directory s) w) \<and>
       (out_of_memory s \<or> (\<exists>a :: u32. (unat a, 4096) \<notin> block_regions s \<and> block_regions s' = insert (unat a, 4096) (block_regions s))))"
proof -
  let ?f = "page_fault_calculate_present_flags (a_flags (xs ! unat i))"
  obtain err s' where a: "vmmngr_alloc_page_f (te_addr te AND NOT 0xFFF) ?f s = Some (err, s')"
    and r: "vm_ok (current_directory s) s'"
      "err = ERROR_OK \<longrightarrow> (\<exists>a. (unat a, 4096) \<notin> block_regions s \<and> (unat a, 4096) \<in> block_regions s' \<and>
         (\<forall>w. translate s' (current_directory s) w =
           (if same_page w (te_addr te AND NOT 0xFFF) then Some (a OR (w AND 0xFFF)) else translate s (current_directory s) w)))"
      "err \<noteq> ERROR_OK \<longrightarrow> (\<forall>w. translate s' (current_directory s) w = translate s (current_directory s) w) \<and>
         (out_of_memory s \<or> (\<exists>a :: u32. (unat a, 4096) \<notin> block_regions s \<and> block_regions s' = insert (unat a, 4096) (block_regions s)))"
    using alloc_page_f_fresh [OF vm fault_flags_ok t lo, of "a_flags (xs ! unat i)"] by (elim exE conjE) auto
  have "page_fault_bottom calls new te s = Some s'"
    using bottom_eq [OF ok l i, of calls new] acc fl a by (simp add: private_fault_def page_fault_alloc_page_def Let_def)
  moreover have "pf_contract s' = pf_contract s" "pf_spinlock s' = 0" using rest_same_fault [OF rest_same_alloc_page_f [OF a]] l by simp_all
  ultimately show ?thesis using r by (cases "err = ERROR_OK") simp_all
qed

lemma whole_pages_aligned: "x mod PAGE_CACHE_SIZE = 0 \<Longrightarrow> (x + y * PAGE_SIZE) mod PAGE_CACHE_SIZE = (0 :: u32)"
proof -
  have p: "PAGE_CACHE_SIZE = 2 ^ 12" "PAGE_SIZE = 2 ^ 12" by (simp_all add: PAGE_CACHE_SIZE_def PAGE_SIZE_def)
  have e: "x mod 2 ^ 12 = 0 \<longleftrightarrow> 2 ^ 12 dvd unat x" for x :: u32
    by (simp add: word_unat_eq_iff unat_mod mod_eq_0_iff_dvd)
  assume "x mod PAGE_CACHE_SIZE = 0"
  then have "4096 dvd unat x" using e [of x] unfolding p by simp
  then have "4096 dvd (unat x + unat y * 4096) mod 4294967296" by (simp add: dvd_mod_iff)
  moreover have "unat (x + y * 4096) = (unat x + unat y * 4096) mod 4294967296" by (simp add: unat_word_ariths mod_simps)
  ultimately show ?thesis using e [of "x + y * 4096"] unfolding p by simp
qed

text \<open>
  C24. The first use of a page of a privately mapped file. When the handler's checks pass, the file
  reaches into that page, and either the page of the file is cached or a buffer of the cache is free
  for it, and enough blocks of memory are free for the page, the buffer and their page tables, then
  the handler comes back and the page of memory holds the page of the file that the mapping gives to
  this address, with the page cache consistent and coherent with the file. The read operation of the
  file system is assumed to fill the buffer with the bytes of the file.
\<close>

theorem file_page_fault:
  fixes s :: "'a fault_scheme"
  assumes ok: "contract_ok (pf_contract s) xs" and l: "pf_spinlock s = 0" and i: "area_contains xs (te_addr te) i"
    and area: "area = xs ! unat i" and acc: "access_allowed area (te_code te)"
    and fl: "CHK_BIT (a_flags area) MMAP_PRIVATE" "\<not> CHK_BIT (a_flags area) MMAP_ANONYMOUS" "\<not> CHK_BIT (a_flags area) MMAP_ALLOC_IMMEDIATE"
    and page: "page = te_addr te AND NOT 0xFFF" "off = a_offset area + ((te_addr te - start_addr area) div PAGE_SIZE) * PAGE_SIZE"
    and al: "a_offset area mod PAGE_CACHE_SIZE = 0" and lim: "unat off + 4096 < 2 ^ 32"
    and inv: "io_inv s (a_fd area) node content s es pgs" and rd: "reads_file calls (a_fd area) node content"
    and nw: "fresh_cells new" and no: "node_ops node s \<noteq> None" and user: "outside_cache page 4096 s"
    and t: "page < 0xF0000000"
    and len: "\<And>n. vnodes s node = Some n \<Longrightarrow> unat off < unat (vn_file_length n)"
    and room: "off div PAGE_CACHE_SIZE \<in> cached (pgs ! unat (a_fd area)) \<or> 0 < free_buffers s"
    and mem: "(if off div PAGE_CACHE_SIZE \<in> cached (pgs ! unat (a_fd area)) then 2 else 4) \<le> free_blocks s"
  shows "\<exists>s' es' pgs'. page_fault_bottom calls new te s = Some s' \<and> io_inv s (a_fd area) node content s' es' pgs' \<and>
    (\<forall>k < 4096. bytes_at s' (page + of_nat k) = content (off + of_nat k))"
proof -
  have r: "region_ok s" and k: "unat (a_fd area) < length es" using inv by (simp_all add: io_inv_def cache_ok_def)
  have vm: "vm_ok (current_directory s) s" using r by (simp add: region_ok_def)
  have pg: "page AND mask 12 = 0" unfolding page(1) by (rule page_aligned)
  obtain e s1 where a1: "vmmngr_alloc_page_f page (page_fault_calculate_present_flags (a_flags area)) s = Some (e, s1)"
    using alloc_page_f_returns [OF vm pg t fault_flags_ok] by blast
  have two: "2 \<le> free_blocks s" using mem by (simp split: if_splits)
  have granted: "vmmngr_alloc_page_f page (page_fault_calculate_present_flags (a_flags area)) s = Some (ERROR_OK, s1)"
    and left: "free_blocks s \<le> free_blocks s1 + 2"
    using alloc_page_f_cost [OF vm fault_flags_ok pg t a1] a1 two by simp_all
  have vm1: "vm_ok (current_directory s) s1" and t1: "translate s1 (current_directory s) page \<noteq> None"
  proof -
    show "vm_ok (current_directory s) s1" "translate s1 (current_directory s) page \<noteq> None"
      using alloc_page_f_fresh [OF vm fault_flags_ok _ t, of "a_flags area"] alloc_page_f_mapped [OF vm pg fault_flags_ok, of _ "a_flags area"] granted
      by (cases "translate s (current_directory s) page"; auto simp: same_page_def)+
  qed
  note rs = rest_same_alloc_page_f [OF granted]
  note f1 = rest_same_fields [OF rs]
  obtain b where b: "translate s1 (current_directory s1) page = Some b" using t1 f1(10) by auto
  have ph: "vmmngr_get_phys_addr page s1 = Some (b, s1)" by (rule get_phys_addr_ok [OF _ b]) (use vm1 f1(10) in simp)
  have inv1: "io_inv s (a_fd area) node content s1 es pgs" by (rule io_inv_rest [OF inv rs region_ok_rest [OF r rs vm1]])
  then have inv2: "io_inv s1 (a_fd area) node content s1 es pgs" by (simp add: io_inv_def)
  have g: "gft_get (a_fd area) s1 = (Some (a_fd area), s1)"
  proof -
    have "vec_rep (gft s1) es" using inv2 by (simp add: io_inv_def cache_ok_def)
    then show ?thesis using k vec_rep_count [of "gft s1" es] by (simp add: gft_get_def word_le_nat_alt)
  qed
  have caps: "CHK_BIT (VFS_CAP_READ OR VFS_CAP_CACHE) VFS_CAP_READ" "CHK_BIT (VFS_CAP_READ OR VFS_CAP_CACHE) VFS_CAP_CACHE"
    by (simp_all add: CHK_BIT_def VFS_CAP_READ_def VFS_CAP_CACHE_def)
  have no1: "node_ops node s1 \<noteq> None" using no f1 by (simp add: node_ops_def)
  have al1: "off mod PAGE_CACHE_SIZE = 0" unfolding page(2) by (rule whole_pages_aligned [OF al])
  have u1: "outside_cache page (4096 * 1) s1" using user nbuf_rest [OF rs] f1 by (simp add: outside_cache_def cell_of_def)
  have lim1: "unat off + 4096 * 1 < 2 ^ 32" using lim by simp
  have ps: "PAGE_SIZE = of_nat (4096 * 1)" by (simp add: PAGE_SIZE_def)
  have c0: "to_load (pgs ! unat (a_fd area)) (off div PAGE_CACHE_SIZE) 0 1 =
      (if off div PAGE_CACHE_SIZE \<in> cached (pgs ! unat (a_fd area)) then 0 else 1)"
    by (simp add: to_load_def)
  obtain d s' es' pgs' where d: "d \<le> 1"
    "read_file_global calls new (a_fd area) off PAGE_SIZE page (VFS_CAP_READ OR VFS_CAP_CACHE) s1 = Some (of_nat (4096 * d), s')"
    "io_inv s1 (a_fd area) node content s' es' pgs'"
    "\<forall>a. \<not> cell_of a s1 < nbuf s1 \<longrightarrow> bytes_at s' a = (if unat (a - page) < 4096 * d then content (off + (a - page)) else bytes_at s1 a)"
    "d < 1 \<longrightarrow> (\<exists>n. vnodes s1 node = Some n \<and> unat (vn_file_length n) \<le> unat off + 4096 * d) \<or>
       free_buffers s1 < to_load (pgs ! unat (a_fd area)) (off div PAGE_CACHE_SIZE) 0 1 \<or>
       free_blocks s1 < 2 * to_load (pgs ! unat (a_fd area)) (off div PAGE_CACHE_SIZE) 0 1"
    using read_global_ok [OF inv2 rd nw no1 caps al1 lim1 u1] unfolding ps [symmetric] by blast
  have True: "d = 1"
  proof (rule ccontr)
    assume "d \<noteq> 1"
    then have z: "d = 0" using d(1) by simp
    have "free_buffers s1 = free_buffers s" by (rule free_buffers_rest [OF rs])
    moreover have "vnodes s1 = vnodes s" using f1 by simp
    ultimately show False using d(5) len room mem left unfolding c0 z by (auto split: if_splits dest!: len)
  qed
  have io: "io_inv s (a_fd area) node content s' es' pgs'" using d(3) f1 nbuf_rest [OF rs] by (simp add: io_inv_def)
  have run: "page_fault_bottom calls new te s = (if (of_nat (4096 * d) :: u32) \<noteq> PAGE_SIZE then None else Some s')"
  proof -
    have "private_fault calls new area (te_addr te) s = (if (of_nat (4096 * d) :: u32) \<noteq> PAGE_SIZE then None else Some s')"
      unfolding private_fault_def Let_def page [symmetric] using fl granted ph g d(2) by simp
    then show ?thesis using bottom_eq [OF ok l i, of calls new] acc fl unfolding area [symmetric] by simp
  qed
  have "bytes_at s' (page + of_nat k) = content (off + of_nat k)" if "k < 4096" for k
  proof -
    have "unat (page + of_nat k - page) = k" using that by (simp add: unat_of_nat_u32)
    then have "nbuf s1 \<le> cell_of (page + of_nat k) s1" using u1 that unfolding outside_cache_def by simp
    then show ?thesis using d(4) True that by (simp add: unat_of_nat_u32)
  qed
  then show ?thesis using run io True ps by (intro exI [of _ s'] exI [of _ es'] exI [of _ pgs']) simp
qed

subsection \<open>Instances\<close>

definition fault_areas :: "vm_area list" where
  \<comment> \<open>A mapped file, an anonymous area and a guard.\<close>
  "fault_areas = [\<lparr>start_addr = 0x1000, end_addr = 0x2000, a_flags = MMAP_PRIVATE OR MMAP_NON_REMOVE OR 2, a_fd = 0, a_offset = 0\<rparr>,
     area_at 0x2000 0x4000 (MMAP_PRIVATE OR MMAP_ANONYMOUS OR MMAP_WRITE), area_at 0xF000 0x10000 MMAP_NON_REMOVE]"

definition fault_memory :: "u32 \<Rightarrow> u8" where
  "fault_memory a = (if cell_of a sample_files < 2 then ucast (a - 0x10000) else bytes_at sample_files a)"

definition sample_fault :: fault where
  "sample_fault = files.extend (sample_files\<lparr>bytes_at := fault_memory\<rparr>) (fault.fields
     \<lparr>vc_areas = \<lparr>v_data = map Some fault_areas, v_count = 3, v_r_size = 3\<rparr>, lowest_addr = 0x1000, highest_addr = 0x10000\<rparr> 0
     (queue_spsc_init 10 (replicate 10 \<lparr>te_number = 0, te_addr = 0, te_code = 0\<rparr>)) True)"

lemma fault_areas_ok: "contract_ok (pf_contract sample_fault) fault_areas" "pf_spinlock sample_fault = 0"
  by (simp_all add: sample_fault_def contract_ok_def fault_areas_def area_at_def vec_rep_def before_def p_end_def p_start_def
    vm_area_is_removable_def MMAP_NON_REMOVE_def MMAP_PRIVATE_def files.defs fault.defs)

lemma extend_fields [simp]:
  "mmngr_memory_size (files.extend s m) = mmngr_memory_size s" "mmngr_used_blocks (files.extend s m) = mmngr_used_blocks s"
  "mmngr_max_blocks (files.extend s m) = mmngr_max_blocks s" "mmngr_bitmap (files.extend s m) = mmngr_bitmap s"
  "tables (files.extend s m) = tables s" "current_directory (files.extend s m) = current_directory s"
  "vnodes (files.extend s m) = vnodes s" "fops (files.extend s m) = fops s" "gft (files.extend s m) = gft s"
  "fi_cells (files.extend s m) = fi_cells s" "pc_cache (files.extend s m) = pc_cache s" "pc_cache_size (files.extend s m) = pc_cache_size s"
  "alloced_bitmap (files.extend s m) = alloced_bitmap s" "bytes_at (files.extend s m) = bytes_at s"
  by (cases s; simp add: files.defs)+

lemma io_inv_extend:
  "io_inv s0 gfd node content s es pgs \<Longrightarrow> io_inv (files.extend s0 m0) gfd node content (files.extend s m) es pgs"
proof -
  assume i: "io_inv s0 gfd node content s es pgs"
  have n: "nbuf (files.extend s m) = nbuf s" for s :: files and m :: 'a by (simp add: nbuf_def page_cache_num_buffers_def)
  have v: "vm_ok d (files.extend s m) = vm_ok d s" for d by (simp add: vm_ok_def dir_ok_def table_at_def pmm_ok_def block_regions_def)
  have r: "reserved b (files.extend s m) = reserved b s" for b by (simp add: reserved_def)
  have c: "cell_of a (files.extend s m) = cell_of a s" "buffer_addr b (files.extend s m) = buffer_addr b s" for a b
    by (simp_all add: cell_of_def buffer_addr_def)
  have "io_inv (files.extend s0 m0) gfd node content (files.extend s m) es pgs = io_inv s0 gfd node content s es pgs"
    unfolding io_inv_def cache_ok_def region_ok_def coherent_def page_cache_get_last_def page_cache_num_buffers_def n v r c extend_fields ..
  then show ?thesis using i by simp
qed

lemma sample_fault_io: "io_inv sample_fault 0 0x100 ucast sample_fault sample_entries sample_pages"
proof -
  have "io_inv (sample_files\<lparr>bytes_at := fault_memory\<rparr>) 0 0x100 ucast (sample_files\<lparr>bytes_at := fault_memory\<rparr>) sample_entries sample_pages"
    using sample_io unfolding fault_memory_def [abs_def] by (simp add: io_inv_def)
  then show ?thesis unfolding sample_fault_def by (rule io_inv_extend)
qed

theorem file_page_fault_witness:
  "\<exists>s'. page_fault_bottom sample_calls first_free_cell \<lparr>te_number = 14, te_addr = 0x1008, te_code = 0\<rparr> sample_fault = Some s' \<and>
    bytes_at s' 0x1003 = 3 \<and> bytes_at s' 0x1FFE = 0xFE"
proof -
  let ?te = "\<lparr>te_number = 14, te_addr = 0x1008, te_code = 0\<rparr>" and ?a = "fault_areas ! unat (0 :: u32)"
  have ar: "a_fd ?a = 0" "a_offset ?a = 0" "start_addr ?a = 0x1000" "a_flags ?a = MMAP_PRIVATE OR MMAP_NON_REMOVE OR 2" by (simp_all add: fault_areas_def)
  have i: "area_contains fault_areas (te_addr ?te) 0" by (simp add: area_contains_def fault_areas_def area_at_def p_end_def)
  have a: "access_allowed ?a (te_code ?te)"
    by (simp add: access_allowed_def fault_areas_def page_fault_error_is_page_present_def page_fault_error_is_write_def MMAP_PRIVATE_def MMAP_NON_REMOVE_def
      MMAP_PROTECTION_def MMAP_NO_ACCESS_def)
  have f: "CHK_BIT (a_flags ?a) MMAP_PRIVATE" "\<not> CHK_BIT (a_flags ?a) MMAP_ANONYMOUS" "\<not> CHK_BIT (a_flags ?a) MMAP_ALLOC_IMMEDIATE"
    by (simp_all add: fault_areas_def CHK_BIT_def MMAP_PRIVATE_def MMAP_NON_REMOVE_def MMAP_ANONYMOUS_def MMAP_ALLOC_IMMEDIATE_def)
  have pg: "0x1000 = te_addr ?te AND NOT 0xFFF" "0 = a_offset ?a + ((te_addr ?te - start_addr ?a) div PAGE_SIZE) * PAGE_SIZE"
    by (simp_all add: fault_areas_def PAGE_SIZE_def)
  have al: "a_offset ?a mod PAGE_CACHE_SIZE = 0" "unat (0 :: u32) + 4096 < 2 ^ 32" "(0x1000 :: u32) < 0xF0000000" by (simp_all add: fault_areas_def)
  have no: "node_ops 0x100 sample_fault \<noteq> None" by (simp add: node_ops_def sample_fault_def sample_files_def sample_vfs_def sample_node_def)
  have pc: "pc_cache sample_fault = 0x10000" "nbuf sample_fault = 4"
    by (simp_all add: sample_fault_def sample_files_def nbuf_def page_cache_num_buffers_def PAGE_CACHE_SIZE_def)
  have user: "outside_cache 0x1000 4096 sample_fault"
    unfolding outside_cache_def cell_of_def pc
  proof (intro conjI allI impI)
    fix a :: u32 assume l: "unat (a - 0x1000) < 4096"
    then have "unat ((a - 0x1000) + 0xFFFF1000) = unat (a - 0x1000) + unat (0xFFFF1000 :: u32)" by (intro unat_add_no_wrap) simp
    moreover have "(a - 0x1000) + 0xFFFF1000 = a - 0x10000" by simp
    ultimately have "unat (a - 0x10000) = unat (a - 0x1000) + 0xFFFF1000" by simp
    then show "4 \<le> unat (a - 0x10000) div 4096" by simp
  qed simp
  have len: "vnodes sample_fault 0x100 = Some n \<Longrightarrow> unat (0 :: u32) < unat (vn_file_length n)" for n
    by (auto simp: sample_fault_def sample_files_def sample_vfs_def)
  have cach: "(0 :: u32) div PAGE_CACHE_SIZE \<in> cached (sample_pages ! unat (a_fd ?a))"
    unfolding ar by (simp add: cached_def sample_pages_def sample_finfo_def PAGE_CACHE_SIZE_def)
  have "card (used_blocks [0xF, 0] 32) = 4" unfolding used_blocks_filter block_used_def by code_simp
  then have "free_blocks sample_fault = 28"
    by (simp add: free_blocks_def usable_blocks_def sample_fault_def sample_files_def sample_vmm_def)
  then have mem: "(if (0 :: u32) div PAGE_CACHE_SIZE \<in> cached (sample_pages ! unat (a_fd ?a)) then 2 else 4) \<le> free_blocks sample_fault" by simp
  have "io_inv sample_fault (a_fd ?a) 0x100 ucast sample_fault sample_entries sample_pages" unfolding ar by (rule sample_fault_io)
  from file_page_fault [OF fault_areas_ok i refl a f pg al(1,2) this sample_reads first_free_cell_fresh no user al(3) len disjI1 [OF cach] mem]
  obtain s' where "page_fault_bottom sample_calls first_free_cell ?te sample_fault = Some s'"
    and b: "\<forall>k < 4096. bytes_at s' (0x1000 + of_nat k) = ucast (0 + of_nat k :: u32)" by blast
  then show ?thesis using b [rule_format, of 3] b [rule_format, of 4094] by auto
qed

theorem anonymous_page_fault_witness:
  "\<exists>s'. page_fault_bottom sample_calls first_free_cell \<lparr>te_number = 14, te_addr = 0x2008, te_code = 2\<rparr> sample_fault = Some s' \<and> pf_spinlock s' = 0"
proof -
  let ?te = "\<lparr>te_number = 14, te_addr = 0x2008, te_code = 2\<rparr>"
  have i: "area_contains fault_areas (te_addr ?te) 1" by (simp add: area_contains_def fault_areas_def area_at_def p_end_def)
  have a: "access_allowed (fault_areas ! unat (1 :: u32)) (te_code ?te)"
    by (simp add: access_allowed_def fault_areas_def area_at_def page_fault_error_is_page_present_def CHK_BIT_def
      MMAP_PRIVATE_def MMAP_ANONYMOUS_def MMAP_WRITE_def MMAP_PROTECTION_def MMAP_NO_ACCESS_def)
  have f: "CHK_BIT (a_flags (fault_areas ! unat (1 :: u32))) MMAP_PRIVATE" "CHK_BIT (a_flags (fault_areas ! unat (1 :: u32))) MMAP_ANONYMOUS"
    "\<not> CHK_BIT (a_flags (fault_areas ! unat (1 :: u32))) MMAP_ALLOC_IMMEDIATE" "\<not> CHK_BIT (a_flags (fault_areas ! unat (1 :: u32))) MMAP_IDENTITY_MAP"
    by (simp_all add: fault_areas_def area_at_def CHK_BIT_def
      MMAP_PRIVATE_def MMAP_ANONYMOUS_def MMAP_WRITE_def MMAP_ALLOC_IMMEDIATE_def MMAP_IDENTITY_MAP_def)
  have vm: "vm_ok (current_directory sample_fault) sample_fault" using sample_fault_io by (simp add: io_inv_def cache_ok_def region_ok_def)
  have t: "translate sample_fault (current_directory sample_fault) (te_addr ?te AND NOT 0xFFF) = None"
    by (simp add: translate_def page_walk_def sample_fault_def sample_files_def sample_vmm_def PAGE_DIR_INDEX_def PAGE_TABLE_INDEX_def
      pd_entry_get_frame_def pd_entry_is_present_def pt_entry_is_present_def kernel_simps)
  have lo: "te_addr ?te AND NOT 0xFFF < 0xF0000000" by simp
  show ?thesis using anonymous_page_fault [OF fault_areas_ok i a f vm t lo] by blast
qed

lemma sample_anonymous_fault:
  "\<exists>s'. page_fault_bottom sample_calls first_free_cell \<lparr>te_number = 14, te_addr = 0x2008, te_code = 2\<rparr> sample_fault = Some s'"
proof -
  let ?te = "\<lparr>te_number = 14, te_addr = 0x2008, te_code = 2\<rparr>"
  have i: "area_contains fault_areas (te_addr ?te) 1" by (simp add: area_contains_def fault_areas_def area_at_def p_end_def)
  have vm: "vm_ok (current_directory sample_fault) sample_fault" using sample_fault_io by (simp add: io_inv_def cache_ok_def region_ok_def)
  have t: "translate sample_fault (current_directory sample_fault) 0x2000 = None"
    by (simp add: translate_def page_walk_def sample_fault_def sample_files_def sample_vmm_def PAGE_DIR_INDEX_def PAGE_TABLE_INDEX_def
      pd_entry_get_frame_def pd_entry_is_present_def pt_entry_is_present_def kernel_simps)
  have lo: "(0x2000 :: u32) < 0xF0000000" by simp
  obtain err s' where "vmmngr_alloc_page_f 0x2000 (page_fault_calculate_present_flags (MMAP_PRIVATE OR MMAP_ANONYMOUS OR MMAP_WRITE)) sample_fault = Some (err, s')"
    using alloc_page_f_fresh [OF vm fault_flags_ok t lo, of "MMAP_PRIVATE OR MMAP_ANONYMOUS OR MMAP_WRITE"] by blast
  then show ?thesis
    unfolding bottom_eq [OF fault_areas_ok i]
    by (simp add: access_allowed_def page_fault_error_is_page_present_def private_fault_def page_fault_alloc_page_def Let_def fault_areas_def area_at_def
      CHK_BIT_def MMAP_PRIVATE_def MMAP_ANONYMOUS_def MMAP_WRITE_def MMAP_PROTECTION_def MMAP_NO_ACCESS_def MMAP_ALLOC_IMMEDIATE_def MMAP_IDENTITY_MAP_def)
qed

theorem page_fault_protects_witness:
  "(\<exists>s'. page_fault_bottom sample_calls first_free_cell \<lparr>te_number = 14, te_addr = 0x2008, te_code = 6\<rparr> sample_fault = Some s') \<and>
    \<not> CHK_BIT (a_flags (fault_areas ! 1)) MMAP_USER \<and> page_fault_error_is_user 6"
proof -
  let ?te = "\<lparr>te_number = 14, te_addr = 0x2008, te_code = 6\<rparr>"
  have i: "area_contains fault_areas (te_addr ?te) 1" by (simp add: area_contains_def fault_areas_def area_at_def p_end_def)
  have vm: "vm_ok (current_directory sample_fault) sample_fault" using sample_fault_io by (simp add: io_inv_def cache_ok_def region_ok_def)
  have a: "access_allowed (fault_areas ! unat (1 :: u32)) (te_code ?te)"
    "CHK_BIT (a_flags (fault_areas ! unat (1 :: u32))) MMAP_PRIVATE" "CHK_BIT (a_flags (fault_areas ! unat (1 :: u32))) MMAP_ANONYMOUS"
    "\<not> CHK_BIT (a_flags (fault_areas ! unat (1 :: u32))) MMAP_ALLOC_IMMEDIATE" "\<not> CHK_BIT (a_flags (fault_areas ! 1)) MMAP_USER"
    by (simp_all add: access_allowed_def fault_areas_def area_at_def page_fault_error_is_page_present_def CHK_BIT_def
      MMAP_PRIVATE_def MMAP_ANONYMOUS_def MMAP_WRITE_def MMAP_PROTECTION_def MMAP_NO_ACCESS_def MMAP_ALLOC_IMMEDIATE_def MMAP_USER_def)
  have lo: "te_addr ?te AND NOT 0xFFF < 0xF0000000" by simp
  have u: "page_fault_error_is_user 6" by (simp add: page_fault_error_is_user_def)
  show ?thesis
    using page_fault_protects [OF fault_areas_ok(1) _ vm, of sample_calls first_free_cell ?te] fault_areas_ok(2) i a lo u by blast
qed

end
