(* ===== verification/Pe_Image.thy ===== *)
theory Pe_Image
  imports Page_Fault Bytes Cstring
begin

text \<open>
  The loader of portable executables, pe_loader.cpp: validation of an image, its sections mapped into a
  process's memory contract, the search for an exported function by name and the binding of the
  imports of one image to the exports of another. An image lies in the byte memory; a structure is read at its
  offsets (PE_Definitions.h). A character string in memory is read byte by byte.
\<close>

subsection \<open>Headers\<close>

definition IMAGE_DOS_SIGNATURE :: u16 where "IMAGE_DOS_SIGNATURE = 0x5A4D"
definition IMAGE_NT_SIGNATURE :: u32 where "IMAGE_NT_SIGNATURE = 0x00004550"
definition IMAGE_FILE_MACHINE_I386 :: u16 where "IMAGE_FILE_MACHINE_I386 = 0x14c"
definition PE_EXPORT_DIRECTORY :: u32 where "PE_EXPORT_DIRECTORY = 0"
definition PE_IMPORT_DIRECTORY :: u32 where "PE_IMPORT_DIRECTORY = 1"
definition PROT_READ :: u32 where "PROT_READ = 2"
definition PROT_EXEC :: u32 where "PROT_EXEC = 1"
definition PROT_WRITE :: u32 where "PROT_WRITE = 4"
definition MMAP_EXEC :: u32 where "MMAP_EXEC = 1"

definition e_lfanew :: "mem \<Rightarrow> ptr \<Rightarrow> u32" where
  "e_lfanew m header = read32 m (header + 60)"

definition pe_get_nt_headers :: "mem \<Rightarrow> ptr \<Rightarrow> ptr" where
  "pe_get_nt_headers m header = e_lfanew m header + header"

definition pe_get_image_base :: "mem \<Rightarrow> ptr \<Rightarrow> u32" where
  \<comment> \<open>The signature takes 4 bytes and the file header 20; the image base is at 28 of the optional header.\<close>
  "pe_get_image_base m header = read32 m (pe_get_nt_headers m header + 24 + 28)"

definition pe_get_data_directory :: "mem \<Rightarrow> ptr \<Rightarrow> ptr" where
  "pe_get_data_directory m header = pe_get_nt_headers m header + 24 + 96"

definition pe_get_section_header :: "mem \<Rightarrow> ptr \<Rightarrow> ptr" where
  "pe_get_section_header m header =
     (let nt = pe_get_nt_headers m header in nt + 24 + ucast (read16 m (nt + 20)))"

definition validate_PE_image :: "mem \<Rightarrow> ptr \<Rightarrow> bool" where
  \<comment> \<open>In the third test \<^verbatim>\<open>==\<close> binds before \<^verbatim>\<open>&\<close>: what is compared with zero is the mask.\<close>
  "validate_PE_image m img =
     (if e_lfanew m img = 0 \<or> read16 m img \<noteq> IMAGE_DOS_SIGNATURE then False
      else let nt = e_lfanew m img + img in
      if read32 m nt \<noteq> IMAGE_NT_SIGNATURE then False
      else if read16 m (nt + 4) \<noteq> IMAGE_FILE_MACHINE_I386 then False
      else if read16 m (nt + 22) AND (if (0x0002 OR 0x0100 :: u16) = 0 then 1 else 0) \<noteq> 0 then False
      else if read16 m (nt + 22) AND 1 = 0 then False
      else if read32 m (nt + 52) < 4 * 1024 * 1024 \<or> read32 m (nt + 52) \<ge> 2 * 1024 * 1024 * 1024 then False
      else True)"

definition pe_get_section_protection_and_flags :: "u32 \<Rightarrow> u32 \<Rightarrow> u32 \<Rightarrow> u32 \<times> u32" where
  \<comment> \<open>The last two arguments are the values the caller's variables hold.\<close>
  "pe_get_section_protection_and_flags characteristics protection flags =
     (let (protection, flags) =
        (if characteristics AND 0x20 = 0x20 then (PROT_READ OR PROT_EXEC, MMAP_EXEC OR MMAP_SHARED)
         else if characteristics AND 0x40 = 0x40 then (PROT_READ OR PROT_WRITE, MMAP_PRIVATE)
         else if characteristics AND 0x80 = 0x80 then (PROT_READ OR PROT_WRITE, MMAP_ANONYMOUS OR MMAP_PRIVATE)
         else (protection, flags))
      in (protection, flags OR MMAP_USER))"

subsection \<open>Exports\<close>

partial_function (option) strcmp_at :: "mem \<Rightarrow> ptr \<Rightarrow> ptr \<Rightarrow> u8 option" where
  \<comment> \<open>\<^verbatim>\<open>strcmp\<close> of two strings in memory, before its result is normalised.\<close>
  [code]: "strcmp_at m s1 s2 =
     (let res = m s1 - m s2 in if res = 0 \<and> m s2 \<noteq> 0 then strcmp_at m (s1 + 1) (s2 + 1) else Some res)"

definition pe_get_export_function :: "mem \<Rightarrow> ptr \<Rightarrow> u32 \<Rightarrow> u32 \<Rightarrow> ptr \<times> virtual_addr" where
  "pe_get_export_function m export_directory image_base index =
     (let names = read32 m (export_directory + 32) + image_base;
        ordinals = read32 m (export_directory + 36) + image_base;
        addrs = read32 m (export_directory + 28) + image_base
      in (read32 m (names + 4 * index) + image_base,
          read32 m (addrs + 4 * ucast (read16 m (ordinals + 2 * index))) + image_base))"

partial_function (option) export_loop :: "mem \<Rightarrow> ptr \<Rightarrow> u32 \<Rightarrow> ptr \<Rightarrow> u32 \<Rightarrow> u32 option" where
  \<comment> \<open>\<open>i\<close> is a signed \<^verbatim>\<open>int\<close>, compared as an unsigned word.\<close>
  [code]: "export_loop m export_directory image_base function_name i =
     (if i < read32 m (export_directory + 20) then do {
        let names = read32 m (export_directory + 32) + image_base;
        let func_name = read32 m (names + 4 * i) + image_base;
        res \<leftarrow> strcmp_at m func_name function_name;
        if sign8 res = 0 then
          let ordinal = read16 m (read32 m (export_directory + 36) + image_base + 2 * i);
            address = read32 m (read32 m (export_directory + 28) + image_base + 4 * ucast ordinal) + image_base
          in Some address
        else export_loop m export_directory image_base function_name (i + 1)
      }
      else Some 0)"

definition pe_get_export_function_addr :: "mem \<Rightarrow> ptr \<Rightarrow> u32 \<Rightarrow> ptr \<Rightarrow> u32 option" where
  "pe_get_export_function_addr m export_directory image_base function_name =
     export_loop m export_directory image_base function_name 0"

subsection \<open>Imports\<close>

partial_function (option) import_loop :: "ptr \<Rightarrow> ptr \<Rightarrow> u32 \<Rightarrow> ptr \<Rightarrow> u32 \<Rightarrow> u32 \<Rightarrow> mem \<Rightarrow> mem option" where
  \<comment> \<open>\<open>thunk\<close> is the address of the next import; the memory is read again in every round.\<close>
  [code]: "import_loop import_descriptor dep_export_dir dep_image_base thunk index image_base m =
     (if read32 m thunk \<noteq> 0 then do {
        let func_name = image_base + (read32 m thunk + 2);
        let addr = image_base + read32 m (import_descriptor + 16) + 4 * index;
        address \<leftarrow> pe_get_export_function_addr m dep_export_dir dep_image_base func_name;
        import_loop import_descriptor dep_export_dir dep_image_base (thunk + 4) (index + 1) image_base (write32 m addr address)
      }
      else Some m)"

definition pe_parse_import_functions :: "ptr \<Rightarrow> ptr \<Rightarrow> mem \<Rightarrow> (error_t \<times> mem) option" where
  "pe_parse_import_functions img dependency_image m = do {
     let image_base = pe_get_image_base m img;
     let data_dir = pe_get_data_directory m img + 8 * PE_IMPORT_DIRECTORY;
     let import_descriptor = read32 m data_dir + image_base;
     let thunk = image_base + read32 m import_descriptor;
     let dep_image_base = pe_get_image_base m dependency_image;
     let dep_data_dir = pe_get_data_directory m dependency_image + 8 * PE_EXPORT_DIRECTORY;
     let dep_export_dir = read32 m dep_data_dir + dep_image_base;
     m \<leftarrow> import_loop import_descriptor dep_export_dir dep_image_base thunk 0 image_base m;
     Some (ERROR_OK, m)
   }"

subsection \<open>Loading\<close>

definition mmap_process :: "bool \<Rightarrow> vm_area \<Rightarrow> virtual_addr \<Rightarrow> u32 \<Rightarrow> u32 \<Rightarrow> u32 \<Rightarrow> u32 \<Rightarrow> u32 \<Rightarrow> 'a fault_scheme \<Rightarrow>
    (virtual_addr \<times> 'a fault_scheme) option" where
  \<comment> \<open>\<^verbatim>\<open>vfs_mmap_p\<close> on the process of this state.\<close>
  "mmap_process granted raw pref gfd offset len prot flags s = do {
     (r, p) \<leftarrow> vfs_mmap_p granted raw pref gfd offset len prot flags
       \<lparr>last_error = last_error s, memory_contract = pf_contract s, contract_spinlock = pf_spinlock s\<rparr>;
     Some (r, s\<lparr>last_error := last_error p, pf_contract := memory_contract p, pf_spinlock := contract_spinlock p\<rparr>)
   }"

primrec sections_loop :: "nat \<Rightarrow> u32 \<Rightarrow> (u32 \<Rightarrow> bool) \<Rightarrow> vm_area \<Rightarrow> u32 \<Rightarrow> ptr \<Rightarrow> u32 \<Rightarrow> 'a fault_scheme \<Rightarrow> 'a fault_scheme option" where
  \<comment> \<open>\<open>n\<close> sections remain, the next has index \<open>i\<close>; \<open>granted i\<close>: whether the heap grants what mapping it needs.\<close>
  "sections_loop 0 i granted raw gfd section' image_base s = Some s"
| "sections_loop (Suc n) i granted raw gfd section' image_base s = do {
     let m = bytes_at s;
     let sec = section' + 40 * i;
     let (protection, flags) = pe_get_section_protection_and_flags (read32 m (sec + 36)) 0 MMAP_NO_ACCESS;
     (r, s) \<leftarrow> mmap_process (granted i) raw (read32 m (sec + 12) + image_base) gfd (read32 m (sec + 20)) 4096 protection flags s;
     if r = MAP_FAILED then None else sections_loop n (i + 1) granted raw gfd section' image_base s
   }"

definition pe_load_image :: "'a fault_scheme fs_calls \<Rightarrow> ('a fault_scheme \<Rightarrow> ptr) \<Rightarrow> (u32 \<Rightarrow> bool) \<Rightarrow> vm_area \<Rightarrow> u32 \<Rightarrow>
    'a fault_scheme \<Rightarrow> (ptr \<times> 'a fault_scheme) option" where
  \<comment> \<open>The process is the one of the state.\<close>
  "pe_load_image calls new granted raw gfd s = do {
     (n, s) \<leftarrow> read_file_global calls new gfd 0 PAGE_CACHE_SIZE (- 1) (VFS_CAP_READ OR VFS_CAP_CACHE) s;
     if n < 512 then Some (0, s)
     else do {
       (buf, s) \<leftarrow> page_cache_get_buffer gfd 0 s;
       if buf = 0 then None
       else if \<not> validate_PE_image (bytes_at s) buf then Some (0, s)
       else do {
         let m = bytes_at s;
         let nt_header = pe_get_nt_headers m buf;
         let image_base = read32 m (nt_header + 52);
         let section' = pe_get_section_header m buf;
         s \<leftarrow> sections_loop (unat (read16 m (nt_header + 6))) 0 granted raw gfd section' image_base s;
         Some (buf, s)
       }
     }
   }"

end
