(* ===== verification/Pe_Facts.thy ===== *)
theory Pe_Facts
  imports Pe_Image
begin

text \<open>
  What the loader of executables does: which images it accepts, which address the search for an
  exported function finds, and the table of imports after it has been bound.
\<close>

subsection \<open>Strings and exports\<close>

primrec string_at :: "mem \<Rightarrow> u32 \<Rightarrow> bytes \<Rightarrow> bool" where
  "string_at m a [] \<longleftrightarrow> m a = 0"
| "string_at m a (c # cs) \<longleftrightarrow> m a = c \<and> c \<noteq> 0 \<and> string_at m (a + 1) cs"

lemma sign8_zero: "sign8 r = 0 \<longleftrightarrow> r = 0"
proof -
  have "sint r = 0 \<longleftrightarrow> r = 0" using signed_eq_0_iff [of r] by simp
  then show ?thesis by (cases "sint r < 0"; cases "sint r > 0") (auto simp: sign8_def)
qed

lemma strcmp_at_ok: "string_at m a s \<Longrightarrow> string_at m b t \<Longrightarrow> \<exists>r. strcmp_at m a b = Some r \<and> (r = 0 \<longleftrightarrow> s = t)"
proof (induction t arbitrary: a b s)
  case Nil
  then show ?case by (cases s) (auto simp: strcmp_at.simps [of m a b] Let_def)
next
  case (Cons d t)
  show ?case
  proof (cases s)
    case Nil
    then show ?thesis using Cons.prems by (auto simp: strcmp_at.simps [of m a b] Let_def)
  next
    case (Cons c u)
    show ?thesis
    proof (cases "c = d")
      case True
      then show ?thesis using Cons.IH [of "a + 1" u "b + 1"] Cons.prems Cons by (auto simp: strcmp_at.simps [of m a b] Let_def)
    next
      case False
      then show ?thesis using Cons.prems Cons by (auto simp: strcmp_at.simps [of m a b] Let_def)
    qed
  qed
qed

definition exports_at :: "mem \<Rightarrow> ptr \<Rightarrow> u32 \<Rightarrow> (bytes \<times> u32) list \<Rightarrow> bool" where
  \<comment> \<open>The export directory lists these functions: name and address of each.\<close>
  "exports_at m dir base es \<longleftrightarrow> unat (read32 m (dir + 20)) = length es \<and>
     (\<forall>i < length es. string_at m (read32 m (read32 m (dir + 32) + base + 4 * of_nat i) + base) (fst (es ! i)) \<and>
        read32 m (read32 m (dir + 28) + base + 4 * ucast (read16 m (read32 m (dir + 36) + base + 2 * of_nat i))) + base = snd (es ! i))"

definition export_named :: "(bytes \<times> u32) list \<Rightarrow> bytes \<Rightarrow> u32" where
  \<comment> \<open>The address of the first export of this name, zero if there is none.\<close>
  "export_named es f = (case find (\<lambda>e. fst e = f) es of Some e \<Rightarrow> snd e | None \<Rightarrow> 0)"

lemma export_loop_ok:
  assumes e: "exports_at m dir base es" and f: "string_at m fn f"
  shows "i \<le> length es \<Longrightarrow> export_loop m dir base fn (of_nat i) = Some (export_named (drop i es) f)"
proof (induction "length es - i" arbitrary: i)
  case 0
  have n: "unat (read32 m (dir + 20)) = length es" using e by (simp add: exports_at_def)
  then have "unat (read32 m (dir + 20)) = i" using 0 by simp
  then have "read32 m (dir + 20) = of_nat i" by auto
  then show ?case using 0 by (simp add: export_loop.simps [of m dir base fn "of_nat i"] export_named_def)
next
  case (Suc d)
  have n: "unat (read32 m (dir + 20)) = length es" using e by (simp add: exports_at_def)
  have i: "i < length es" using Suc.hyps(2) by simp
  then have "i < 2 ^ 32" using n unsigned_less [of "read32 m (dir + 20)", where ?'a = nat] by simp
  then have "unat (of_nat i :: u32) = i" by (rule unat_of_nat_u32)
  then have lt: "(of_nat i :: u32) < read32 m (dir + 20)" using i n by (simp add: word_less_nat_alt)
  let ?fn = "read32 m (read32 m (dir + 32) + base + 4 * of_nat i) + base"
  have s: "string_at m ?fn (fst (es ! i))" and a: "read32 m (read32 m (dir + 28) + base + 4 * ucast (read16 m (read32 m (dir + 36) + base + 2 * of_nat i))) + base = snd (es ! i)"
    using e i by (auto simp: exports_at_def)
  obtain r where r: "strcmp_at m ?fn fn = Some r" "r = 0 \<longleftrightarrow> fst (es ! i) = f" using strcmp_at_ok [OF s f] by auto
  have dr: "drop i es = es ! i # drop (Suc i) es" using i by (simp add: Cons_nth_drop_Suc)
  have ih: "export_loop m dir base fn (of_nat i + 1) = Some (export_named (drop (Suc i) es) f)"
    using Suc.hyps(1) [of "Suc i"] Suc.hyps(2) i by (simp add: add.commute)
  show ?case
    unfolding export_loop.simps [of m dir base fn "of_nat i"] dr using lt r a ih
    by (simp add: Let_def sign8_zero export_named_def)
qed

text \<open>
  The images the loader accepts: those with both signatures, for this processor, that have the
  lowest bit of the characteristics set and an image base between 4 MB and 2 GB. The bits that say that
  the image is executable and for 32 bits are not looked at, although the code means to test them.
\<close>

theorem validate_accepts:
  "validate_PE_image m img \<longleftrightarrow>
     (let nt = e_lfanew m img + img in
      e_lfanew m img \<noteq> 0 \<and> read16 m img = 0x5A4D \<and> read32 m nt = 0x4550 \<and> read16 m (nt + 4) = 0x14C \<and>
      read16 m (nt + 22) AND 1 \<noteq> 0 \<and> 0x400000 \<le> read32 m (nt + 52) \<and> read32 m (nt + 52) < 0x80000000)"
  by (auto simp: validate_PE_image_def IMAGE_DOS_SIGNATURE_def IMAGE_NT_SIGNATURE_def IMAGE_FILE_MACHINE_I386_def Let_def)

definition link_memory :: mem where
  \<comment> \<open>Two images at 0x1000 and 0x2000, of bases 0x400000 and 0x800000; the first imports from the second the function \<open>f\<close>.\<close>
  "link_memory = (\<lambda>_. 0)
     (0x103C := 64, 0x1076 := 0x40, 0x10C1 := 1, 0x400101 := 2, 0x400111 := 3, 0x400201 := 4, 0x400402 := 0x66,
      0x203C := 64, 0x2076 := 0x80, 0x20B9 := 1, 0x800114 := 1, 0x80011D := 2, 0x800121 := 3, 0x800125 := 4,
      0x800301 := 5, 0x800500 := 0x66, 0x800200 := 0x34, 0x800201 := 0x12)"

lemma link_exports: "\<forall>x. x \<notin> (\<lambda>j. 0x400300 + of_nat j) ` {..<4 :: nat} \<longrightarrow> m' x = link_memory x \<Longrightarrow> exports_at m' 0x800100 0x800000 [([0x66], 0x801234)]"
  by (simp add: exports_at_def read32_def read16_def lessThan_nat_numeral lessThan_Suc link_memory_def)

text \<open>
  Looking an exported function up by its name returns the address of the first export of that
  name, or zero when there is none; the search always ends.
\<close>

theorem export_lookup_correct:
  assumes "exports_at m dir base es" and "string_at m fn f"
  shows "pe_get_export_function_addr m dir base fn = Some (export_named es f)"
  using export_loop_ok [OF assms, of 0] by (simp add: pe_get_export_function_addr_def)

theorem export_lookup_correct_witness:
  "pe_get_export_function_addr link_memory 0x800100 0x800000 0x400402 = Some 0x801234"
proof -
  have "string_at link_memory 0x400402 [0x66]" by (simp add: link_memory_def)
  with link_exports have "pe_get_export_function_addr link_memory 0x800100 0x800000 0x400402 = Some (export_named [([0x66], 0x801234)] [0x66])"
    by (intro export_lookup_correct) simp_all
  then show ?thesis by (simp add: export_named_def)
qed

subsection \<open>Imports\<close>

definition imports_at :: "mem \<Rightarrow> ptr \<Rightarrow> u32 \<Rightarrow> u32 \<Rightarrow> u32 \<Rightarrow> bytes list \<Rightarrow> bool" where
  \<comment> \<open>The import descriptor lists these names; \<open>thunk\<close> is the address of the list, \<open>iat\<close> of the table to bind.\<close>
  "imports_at m desc base thunk iat fs \<longleftrightarrow> base + read32 m (desc + 16) = iat \<and> read32 m (thunk + 4 * of_nat (length fs)) = 0 \<and>
     (\<forall>k < length fs. read32 m (thunk + 4 * of_nat k) \<noteq> 0 \<and> string_at m (base + (read32 m (thunk + 4 * of_nat k) + 2)) (fs ! k))"

definition linked :: "mem \<Rightarrow> ptr \<Rightarrow> ptr \<Rightarrow> ptr \<Rightarrow> ptr \<Rightarrow> ptr \<Rightarrow> u32 \<Rightarrow> u32 \<Rightarrow> (bytes \<times> u32) list \<Rightarrow> bytes list \<Rightarrow> u32 \<Rightarrow> bool" where
  \<comment> \<open>What binding reads: both images' headers, the names imported and the functions exported.\<close>
  "linked m img dep desc dir thunk base dbase es fs iat \<longleftrightarrow> pe_get_image_base m img = base \<and> pe_get_image_base m dep = dbase \<and>
     read32 m (pe_get_data_directory m img + 8) + base = desc \<and> read32 m (pe_get_data_directory m dep) + dbase = dir \<and>
     base + read32 m desc = thunk \<and> exports_at m dir dbase es \<and> imports_at m desc base thunk iat fs"

lemma import_loop_ok:
  assumes l: "\<And>m'. (\<forall>x. x \<notin> slots iat (length fs) \<longrightarrow> m' x = m x) \<Longrightarrow> linked m' img dep desc dir thunk base dbase es fs iat"
    and n: "4 * length fs < 2 ^ 32"
  shows "k \<le> length fs \<Longrightarrow> \<forall>x. x \<notin> slots iat (length fs) \<longrightarrow> m' x = m x \<Longrightarrow>
    \<forall>j < k. read32 m' (iat + 4 * of_nat j) = export_named es (fs ! j) \<Longrightarrow>
    \<exists>m''. import_loop desc dir dbase (thunk + 4 * of_nat k) (of_nat k) base m' = Some m'' \<and>
      (\<forall>x. x \<notin> slots iat (length fs) \<longrightarrow> m'' x = m x) \<and> (\<forall>j < length fs. read32 m'' (iat + 4 * of_nat j) = export_named es (fs ! j))"
proof (induction "length fs - k" arbitrary: k m')
  case 0
  then have k: "k = length fs" by simp
  have "imports_at m' desc base thunk iat fs" using l [OF "0.prems"(2)] by (simp add: linked_def)
  then have "read32 m' (thunk + 4 * of_nat k) = 0" by (simp add: imports_at_def k)
  then have "import_loop desc dir dbase (thunk + 4 * of_nat k) (of_nat k) base m' = Some m'"
    by (simp add: import_loop.simps [of desc dir dbase "thunk + 4 * of_nat k"])
  then show ?case using "0.prems" k by blast
next
  case (Suc d)
  have k: "k < length fs" using Suc.hyps(2) by simp
  have li: "linked m' img dep desc dir thunk base dbase es fs iat" by (rule l [OF Suc.prems(2)])
  have ex: "exports_at m' dir dbase es" and im: "imports_at m' desc base thunk iat fs" using li by (simp_all add: linked_def)
  have nz: "read32 m' (thunk + 4 * of_nat k) \<noteq> 0" and nm: "string_at m' (base + (read32 m' (thunk + 4 * of_nat k) + 2)) (fs ! k)"
    and ia: "base + read32 m' (desc + 16) = iat" using im k by (simp_all add: imports_at_def)
  have ad: "pe_get_export_function_addr m' dir dbase (base + (read32 m' (thunk + 4 * of_nat k) + 2)) = Some (export_named es (fs ! k))"
    using export_loop_ok [OF ex nm, of 0] by (simp add: pe_get_export_function_addr_def)
  define w where "w = write32 m' (iat + 4 * of_nat k) (export_named es (fs ! k))"
  have out: "\<forall>x. x \<notin> slots iat (length fs) \<longrightarrow> w x = m x"
  proof (intro allI impI)
    fix x assume x: "x \<notin> slots iat (length fs)"
    have "x \<notin> {iat + 4 * of_nat k, iat + 4 * of_nat k + 1, iat + 4 * of_nat k + 2, iat + 4 * of_nat k + 3}"
      using slots_mono [OF k, of iat] x by (rule contra_subsetD)
    then show "w x = m x" using x Suc.prems(2) write32_other by (simp add: w_def)
  qed
  have old: "read32 w (iat + 4 * of_nat j) = read32 m' (iat + 4 * of_nat j)" if "j < k" for j
    unfolding w_def by (rule read32_cong) (rule write32_other, rule slot_disjoint [OF n that k], assumption)
  have done': "\<forall>j < Suc k. read32 w (iat + 4 * of_nat j) = export_named es (fs ! j)"
    using Suc.prems(3) old by (auto simp: less_Suc_eq) (simp add: w_def)
  have step: "import_loop desc dir dbase (thunk + 4 * of_nat k) (of_nat k) base m' =
      import_loop desc dir dbase (thunk + 4 * of_nat (Suc k)) (of_nat (Suc k)) base w"
    unfolding import_loop.simps [of desc dir dbase "thunk + 4 * of_nat k" _ _ m'] using nz ad ia
    by (simp add: Let_def w_def algebra_simps)
  have h: "d = length fs - Suc k" and le: "Suc k \<le> length fs" using Suc.hyps(2) k by simp_all
  show ?case unfolding step by (rule Suc.hyps(1) [OF h le out done'])
qed

text \<open>
  C25. Binding the imports of an image: if the image imports the functions \<open>fs\<close> from an image that exports
  \<open>es\<close>, and the table being bound overlaps none of the tables and names that are read, then every entry of the
  table holds the address of the export of its name (zero when there is none) and no byte outside the table
  has changed.
\<close>

theorem imports_bound:
  assumes "\<And>m'. (\<forall>x. x \<notin> slots iat (length fs) \<longrightarrow> m' x = m x) \<Longrightarrow> linked m' img dep desc dir thunk base dbase es fs iat"
    and "4 * length fs < 2 ^ 32"
  shows "\<exists>m'. pe_parse_import_functions img dep m = Some (ERROR_OK, m') \<and>
    (\<forall>x. x \<notin> slots iat (length fs) \<longrightarrow> m' x = m x) \<and> (\<forall>j < length fs. read32 m' (iat + 4 * of_nat j) = export_named es (fs ! j))"
proof -
  have "linked m img dep desc dir thunk base dbase es fs iat" by (rule assms(1)) simp
  then have "pe_parse_import_functions img dep m = import_loop desc dir dbase thunk 0 base m \<bind> (\<lambda>m. Some (ERROR_OK, m))"
    by (simp add: linked_def pe_parse_import_functions_def PE_IMPORT_DIRECTORY_def PE_EXPORT_DIRECTORY_def)
  then show ?thesis using import_loop_ok [OF assms(1) assms(2), where m = m and k = 0 and m' = m] by auto
qed

theorem imports_bound_witness:
  "\<exists>m'. pe_parse_import_functions 0x1000 0x2000 link_memory = Some (ERROR_OK, m') \<and> read32 m' 0x400300 = 0x801234 \<and> m' 0x400304 = 0"
proof -
  have l: "linked m' 0x1000 0x2000 0x400100 0x800100 0x400200 0x400000 0x800000 [([0x66], 0x801234)] [[0x66]] 0x400300"
    if m': "\<forall>x. x \<notin> slots 0x400300 (length [[0x66 :: u8]]) \<longrightarrow> m' x = link_memory x" for m'
  proof -
    have a: "\<forall>x. x \<notin> (\<lambda>j. 0x400300 + of_nat j) ` {..<4 :: nat} \<longrightarrow> m' x = link_memory x" using m' by (simp add: slots_def)
    show ?thesis unfolding linked_def using link_exports [OF a] a
      by (simp add: imports_at_def pe_get_image_base_def pe_get_data_directory_def pe_get_nt_headers_def e_lfanew_def
          read32_def lessThan_nat_numeral lessThan_Suc link_memory_def)
  qed
  have "(0x400304 :: u32) \<notin> slots 0x400300 (length [[0x66 :: u8]])" by (simp add: slots_def lessThan_nat_numeral lessThan_Suc)
  moreover have "link_memory 0x400304 = 0" by (simp add: link_memory_def)
  moreover have "\<exists>m'. pe_parse_import_functions 0x1000 0x2000 link_memory = Some (ERROR_OK, m') \<and>
      (\<forall>x. x \<notin> slots 0x400300 (length [[0x66 :: u8]]) \<longrightarrow> m' x = link_memory x) \<and>
      (\<forall>j < length [[0x66 :: u8]]. read32 m' (0x400300 + 4 * of_nat j) = export_named [([0x66], 0x801234)] ([[0x66]] ! j))"
    by (rule imports_bound) (erule l, simp)
  ultimately show ?thesis by (auto simp: export_named_def)
qed

end
