(* ===== verification/Linked_Queue.thy ===== *)
theory Linked_Queue
  imports Prelude
begin

text \<open>
  The linked queue of queue.h, over an explicit store of nodes: \<open>new\<close> puts a node into the store at the
  address the allocator returned, \<open>delete\<close> takes it out. A process keeps its threads in such a queue. \<open>queue_rep\<close>
  relates a header and a store to the addresses and the elements of its nodes, first to last.
\<close>

subsection \<open>Data and operations\<close>

record 'a queue_node =
  qn_data :: 'a
  qn_next :: ptr

record queue =
  q_head :: ptr
  q_tail :: ptr
  q_count :: u32

type_synonym 'a queue_store = "ptr \<Rightarrow> 'a queue_node option"

definition queue_init :: queue where
  "queue_init = \<lparr>q_head = 0, q_tail = 0, q_count = 0\<rparr>"

definition queue_remove :: "queue \<Rightarrow> 'a queue_store \<Rightarrow> (queue \<times> 'a queue_store) option" where
  "queue_remove q st =
     (if q_count q = 0 then Some (q, st)
      else do {
        let temp = q_head q;
        n \<leftarrow> st temp;
        let q = q\<lparr>q_head := qn_next n\<rparr>;
        let st = st(temp := None);
        let q = q\<lparr>q_count := q_count q - 1\<rparr>;
        Some (if q_head q = 0 then q\<lparr>q_tail := 0\<rparr> else q, st)
      })"

definition queue_insert :: "ptr \<Rightarrow> 'a \<Rightarrow> queue \<Rightarrow> 'a queue_store \<Rightarrow> (queue \<times> 'a queue_store) option" where
  \<comment> \<open>\<open>node\<close>: the address \<^verbatim>\<open>new\<close> returns.\<close>
  "queue_insert node element q st =
     (if node = 0 then None
      else do {
        let st = st(node \<mapsto> \<lparr>qn_data = element, qn_next = 0\<rparr>);
        (q, st) \<leftarrow> (if q_count q = 0 then Some (q\<lparr>q_head := node, q_tail := node\<rparr>, st)
           else do {
             t \<leftarrow> st (q_tail q);
             Some (q\<lparr>q_tail := node\<rparr>, st(q_tail q \<mapsto> t\<lparr>qn_next := node\<rparr>))
           });
        Some (q\<lparr>q_count := q_count q + 1\<rparr>, st)
      })"

definition queue_peek :: "'a \<Rightarrow> queue \<Rightarrow> 'a queue_store \<Rightarrow> 'a option" where
  \<comment> \<open>The first argument is the value-initialised \<^verbatim>\<open>T()\<close>.\<close>
  "queue_peek T0 q st = (if q_count q > 0 then map_option qn_data (st (q_head q)) else Some T0)"

definition queue_peek_ptr :: "queue \<Rightarrow> ptr" where
  \<comment> \<open>The element lies at the start of its node.\<close>
  "queue_peek_ptr q = (if q_count q > 0 then q_head q else 0)"

subsection \<open>The sequence of nodes\<close>

fun qseg :: "'a queue_store \<Rightarrow> ptr list \<Rightarrow> 'a list \<Rightarrow> bool" where
  "qseg st [] [] \<longleftrightarrow> True"
| "qseg st (p # ps) (x # xs) \<longleftrightarrow> p \<noteq> 0 \<and> st p = Some \<lparr>qn_data = x, qn_next = (if ps = [] then 0 else hd ps)\<rparr> \<and> qseg st ps xs"
| "qseg st _ _ \<longleftrightarrow> False"

definition queue_rep :: "'a queue_store \<Rightarrow> queue \<Rightarrow> ptr list \<Rightarrow> 'a list \<Rightarrow> bool" where
  "queue_rep st q ps xs \<longleftrightarrow> qseg st ps xs \<and> distinct ps \<and> length ps < 2 ^ 32 \<and> unat (q_count q) = length ps \<and>
     q_head q = (if ps = [] then 0 else hd ps) \<and> q_tail q = (if ps = [] then 0 else last ps)"

lemma qseg_frame: "(\<And>p. p \<in> set ps \<Longrightarrow> st' p = st p) \<Longrightarrow> qseg st' ps xs = qseg st ps xs"
  by (induction st ps xs rule: qseg.induct) auto

lemma qseg_length: "qseg st ps xs \<Longrightarrow> length xs = length ps"
  by (induction st ps xs rule: qseg.induct) auto

lemma qseg_snoc:
  "qseg st (ps @ [t]) (xs @ [y]) \<Longrightarrow> distinct (ps @ [t]) \<Longrightarrow> p \<notin> set (ps @ [t]) \<Longrightarrow> p \<noteq> 0 \<Longrightarrow>
   qseg (st(p \<mapsto> \<lparr>qn_data = x, qn_next = 0\<rparr>, t \<mapsto> \<lparr>qn_data = y, qn_next = p\<rparr>)) (ps @ [t, p]) (xs @ [y, x])"
proof (induction st ps xs rule: qseg.induct)
  case (2 st q qs z zs)
  then show ?case by (cases qs) auto
qed (auto simp: neq_Nil_conv Cons_eq_append_conv dest: qseg_length)

lemma qseg_last: "qseg st (qs @ [t]) (ys @ [y]) \<Longrightarrow> length ys = length qs \<Longrightarrow> st t = Some \<lparr>qn_data = y, qn_next = 0\<rparr>"
  by (induction st qs ys rule: qseg.induct) auto

lemma queue_init_rep: "queue_rep st queue_init [] []"
  by (simp add: queue_rep_def queue_init_def)

lemma queue_insert_rep:
  assumes r: "queue_rep st q ps xs" and p: "p \<notin> set ps" "p \<noteq> 0" and l: "length ps + 1 < 2 ^ 32"
  obtains q' st' where "queue_insert p x q st = Some (q', st')" "queue_rep st' q' (ps @ [p]) (xs @ [x])"
    "\<And>y. y \<notin> set ps \<Longrightarrow> y \<noteq> p \<Longrightarrow> st' y = st y"
proof (cases ps rule: rev_cases)
  case Nil
  then have "xs = []" "q_count q = 0" using r by (auto simp: queue_rep_def dest: qseg_length intro: unat_eq_0_iff [THEN iffD1])
  then show thesis using p Nil by (intro that [of "q\<lparr>q_head := p, q_tail := p, q_count := q_count q + 1\<rparr>" "st(p \<mapsto> \<lparr>qn_data = x, qn_next = 0\<rparr>)"])
    (simp_all add: queue_insert_def queue_rep_def)
next
  case (snoc qs t)
  have c: "unat (q_count q) = length ps" using r by (simp add: queue_rep_def)
  then have c0: "q_count q \<noteq> 0" using snoc by auto
  have c1: "unat (q_count q + 1) = length ps + 1" using c l by (subst unat_suc_u32) simp_all
  have len: "length xs = length ps" using r qseg_length by (auto simp: queue_rep_def)
  then obtain ys y where xs: "xs = ys @ [y]" using snoc by (cases xs rule: rev_cases) auto
  have sg: "qseg st (qs @ [t]) (ys @ [y])" using r snoc xs by (simp add: queue_rep_def)
  have t: "st t = Some \<lparr>qn_data = y, qn_next = 0\<rparr>" using qseg_last [OF sg] len snoc xs by simp
  have d: "distinct ps" using r by (simp add: queue_rep_def)
  have tl: "q_tail q = t" using r snoc by (simp add: queue_rep_def)
  let ?q = "q\<lparr>q_tail := p, q_count := q_count q + 1\<rparr>"
  let ?st = "st(p \<mapsto> \<lparr>qn_data = x, qn_next = 0\<rparr>, t \<mapsto> \<lparr>qn_data = y, qn_next = p\<rparr>)"
  have "queue_insert p x q st = Some (?q, ?st)" using c0 t tl p snoc by (auto simp: queue_insert_def)
  moreover have "queue_rep ?st ?q (ps @ [p]) (xs @ [x])"
    using qseg_snoc [OF sg, of p x] d p snoc xs c1 l r by (auto simp: queue_rep_def hd_append)
  ultimately show thesis by (rule that) (use snoc in auto)
qed

lemma queue_remove_rep:
  assumes r: "queue_rep st q (p # ps) (x # xs)"
  obtains q' where "queue_remove q st = Some (q', st(p := None))" "queue_rep (st(p := None)) q' ps xs" "queue_peek T0 q st = Some x"
    "queue_peek_ptr q = p"
proof -
  have n: "st p = Some \<lparr>qn_data = x, qn_next = (if ps = [] then 0 else hd ps)\<rparr>" "p \<noteq> 0" "qseg st ps xs" "p \<notin> set ps" "distinct ps"
    and c: "unat (q_count q) = Suc (length ps)" and h: "q_head q = p" "q_tail q = (if ps = [] then p else last ps)"
    and l: "Suc (length ps) < 2 ^ 32" using r by (auto simp: queue_rep_def)
  have c0: "q_count q \<noteq> 0" and c1: "unat (q_count q - 1) = length ps" using unat_pred_length [OF c] by simp_all
  have z: "hd ps \<noteq> 0" if "ps \<noteq> []" using n(3) that by (cases ps; cases xs) auto
  have sg: "qseg (st(p := None)) ps xs" using n(3,4) by (subst qseg_frame [of ps "st(p := None)" st]) auto
  let ?q = "q\<lparr>q_head := (if ps = [] then 0 else hd ps), q_count := q_count q - 1, q_tail := (if ps = [] then 0 else q_tail q)\<rparr>"
  have "queue_remove q st = Some (?q, st(p := None))" using c0 n h z by (cases "ps = []") (simp_all add: queue_remove_def)
  moreover have "queue_rep (st(p := None)) ?q ps xs" using sg c1 l h n(5) by (simp add: queue_rep_def)
  moreover have "queue_peek T0 q st = Some x" "queue_peek_ptr q = p" using c0 n(1) h by (simp_all add: queue_peek_def queue_peek_ptr_def word_gt_0)
  ultimately show thesis by (rule that)
qed

end
