(* ===== verification/Threads.thy ===== *)
theory Threads
  imports Page_Fault Scheduler Linked_Queue Bytes
begin

text \<open>
  Processes and threads as process.cpp creates them. The code fills a new thread's stack through the address
  space of its process, so physical memory is part of the state and an access through a virtual address goes
  where the processor's walk of the directory in \<^verbatim>\<open>cr3\<close> leads. Control blocks lie in stores of
  their own. What the allocator returned, and what lay there, are arguments.
\<close>

subsection \<open>Data\<close>

record thread_control_block = tcb +
  t_esp :: u32
  t_ss :: u32
  t_stack_top :: virtual_addr
  t_thread_lock :: u32
  t_exceptions :: "thread_exception queue_spsc"
  t_exception_lock :: u32

record pcb =
  pc_page_dir :: ptr
  pc_parent :: ptr
  pc_id :: u32
  pc_image_base :: u32
  pc_image_size :: u32
  pc_lft :: "local_file_entry vector"
  pc_lft_lock :: u32
  pc_memory_contract :: vm_contract
  pc_contract_spinlock :: u32
  pc_threads :: queue

record procs = vmm +
  phys :: mem
  last_id :: u32
  pcbs :: "ptr \<Rightarrow> pcb option"
  thread_cells :: "thread_control_block queue_store"

definition THREAD_KERNEL :: u32 where "THREAD_KERNEL = 1"
definition THREAD_LOCK_NONE :: u32 where "THREAD_LOCK_NONE = 0"

subsection \<open>Memory through the directory\<close>

definition virt_put :: "virtual_addr \<Rightarrow> u32 \<Rightarrow> 'a procs_scheme \<Rightarrow> 'a procs_scheme option" where
  \<comment> \<open>A word written through a virtual address; an absent page is \<open>None\<close>.\<close>
  "virt_put a v s = do {
     p0 \<leftarrow> translate s (pmmngr_get_PDBR s) a;
     p1 \<leftarrow> translate s (pmmngr_get_PDBR s) (a + 1);
     p2 \<leftarrow> translate s (pmmngr_get_PDBR s) (a + 2);
     p3 \<leftarrow> translate s (pmmngr_get_PDBR s) (a + 3);
     Some (s\<lparr>phys := (phys s)(p0 := ucast v, p1 := ucast (drop_bit 8 v), p2 := ucast (drop_bit 16 v), p3 := ucast (drop_bit 24 v))\<rparr>)
   }"

definition upd_thread :: "ptr \<Rightarrow> (thread_control_block \<Rightarrow> thread_control_block) \<Rightarrow> 'a procs_scheme \<Rightarrow> 'a procs_scheme option" where
  "upd_thread t f s = do {
     n \<leftarrow> thread_cells s t;
     Some (s\<lparr>thread_cells := (thread_cells s)(t \<mapsto> n\<lparr>qn_data := f (qn_data n)\<rparr>)\<rparr>)
   }"

definition get_thread :: "ptr \<Rightarrow> 'a procs_scheme \<Rightarrow> thread_control_block option" where
  "get_thread t s = map_option qn_data (thread_cells s t)"

subsection \<open>Creation\<close>

definition thread_add_parameter :: "ptr \<Rightarrow> u32 \<Rightarrow> 'a procs_scheme \<Rightarrow> 'a procs_scheme option" where
  "thread_add_parameter thread param s = do {
     s \<leftarrow> upd_thread thread (\<lambda>t. t\<lparr>t_esp := t_esp t - 4\<rparr>) s;
     t \<leftarrow> get_thread thread s;
     virt_put (t_esp t) param s
   }"

primrec put_fields :: "(u32 \<times> u32) list \<Rightarrow> ptr \<Rightarrow> 'a procs_scheme \<Rightarrow> 'a procs_scheme option" where
  \<comment> \<open>The words of a structure at \<open>f\<close>, offset and value, in the order they are assigned.\<close>
  "put_fields [] f s = Some s"
| "put_fields (x # xs) f s = do { s \<leftarrow> virt_put (f + fst x) (snd x) s; put_fields xs f s }"

definition thread_setup_execution_stack :: "ptr \<Rightarrow> u32 \<Rightarrow> 'a procs_scheme \<Rightarrow> 'a procs_scheme option" where
  \<comment> \<open>A trap frame is 15 words: gs, fs, es, ds, eax, ebx, ecx, edx, esi, edi, esp, ebp, eip, cs, flags.\<close>
  "thread_setup_execution_stack t entry s = do {
     s \<leftarrow> upd_thread t (\<lambda>t. t\<lparr>t_esp := t_esp t - 60\<rparr>) s;
     c \<leftarrow> get_thread t s;
     put_fields [(56, 0x202), (52, 0x8), (12, 0x10), (16, 0), (44, 0), (20, 0), (24, 0), (36, 0), (28, 0),
       (48, entry), (8, 0x10), (32, 0), (40, 0), (4, 0x10), (0, 0x10)] (t_esp c) s
   }"

fun add_parameters :: "nat \<Rightarrow> u32 list \<Rightarrow> ptr \<Rightarrow> 'a procs_scheme \<Rightarrow> 'a procs_scheme option" where
  \<comment> \<open>\<open>n\<close> parameters remain; fewer passed than counted is \<open>None\<close>.\<close>
  "add_parameters 0 args t s = Some s"
| "add_parameters (Suc n) [] t s = None"
| "add_parameters (Suc n) (arg # args) t s = do { s \<leftarrow> thread_add_parameter t arg s; add_parameters n args t s }"

definition thread_create ::
  "ptr \<Rightarrow> thread_control_block \<Rightarrow> thread_exception list \<Rightarrow> ptr \<Rightarrow> u32 \<Rightarrow> virtual_addr \<Rightarrow> u32 \<Rightarrow> u32 \<Rightarrow> u32 \<Rightarrow> u32 list \<Rightarrow>
   'a procs_scheme \<Rightarrow> (ptr \<times> 'a procs_scheme) option" where
  \<comment> \<open>\<open>node\<close>: the address \<^verbatim>\<open>new\<close> returns for the queue's node; \<open>temp\<close>: the uninitialised local;
     \<open>cells\<close>: the buffer of the exception queue.\<close>
  "thread_create node temp cells parent entry stack_top stack_size priority param_count params s =
     (if stack_top mod vmmngr_get_page_size \<noteq> 0 then None
      else do {
        p \<leftarrow> pcbs s parent;
        (q, st) \<leftarrow> queue_insert node temp (pc_threads p) (thread_cells s);
        let s = s\<lparr>thread_cells := st, pcbs := (pcbs s)(parent \<mapsto> p\<lparr>pc_threads := q\<rparr>)\<rparr>;
        let t = q_tail q;
        let s = s\<lparr>last_id := last_id s + 1\<rparr>;
        s \<leftarrow> upd_thread t (\<lambda>c. c\<lparr>t_id := last_id s, t_parent := parent, t_stack_top := stack_top, t_state := THREAD_READY,
               t_base_priority := priority, t_plus_priority := 0, t_attribute := THREAD_KERNEL,
               t_thread_lock := THREAD_LOCK_NONE, t_ss := 0x10, t_esp := stack_top,
               t_exceptions := queue_spsc_init 10 cells, t_exception_lock := 0\<rparr>) s;
        let old_dir = vmmngr_get_directory s;
        p \<leftarrow> pcbs s parent;
        let (_, s) = vmmngr_switch_directory (pc_page_dir p) (pc_page_dir p) s;
        s \<leftarrow> thread_add_parameter t 0 s;
        s \<leftarrow> add_parameters (unat param_count) params t s;
        s \<leftarrow> thread_add_parameter t 0 s;
        s \<leftarrow> thread_setup_execution_stack t entry s;
        let (_, s) = vmmngr_switch_directory old_dir old_dir s;
        Some (t, s)
      })"

definition thread_get_error :: "thread_control_block \<Rightarrow> ptr" where
  "thread_get_error thread = t_stack_top thread - 4"

definition process_create :: "ptr \<Rightarrow> pcb \<Rightarrow> bool \<Rightarrow> bool \<Rightarrow> bool \<Rightarrow> vm_area \<Rightarrow> ptr \<Rightarrow> ptr \<Rightarrow> u32 \<Rightarrow> u32 \<Rightarrow>
    'a procs_scheme \<Rightarrow> (ptr \<times> 'a procs_scheme) option" where
  \<comment> \<open>\<open>proc\<close>: what \<^verbatim>\<open>malloc\<close> returns, \<open>raw\<close> the block's contents; \<open>g1\<close>, \<open>g2\<close>, \<open>g3\<close>: whether the heap
     grants the contract's areas and the file table. The table of open files is set up as Open_Files has it, in
     the control block.\<close>
  "process_create proc raw g1 g2 g3 raw_area parent pdir low_address high_address s =
     (if proc = 0 then None
      else do {
        let s = s\<lparr>last_id := last_id s + 1\<rparr>;
        let p = raw\<lparr>pc_id := last_id s, pc_parent := parent\<rparr>;
        (dir, s) \<leftarrow> (if pdir = 0 then do {
             (dir, s) \<leftarrow> vmmngr_create_address_space s;
             (_, s) \<leftarrow> vmmngr_map_kernel_space dir s;
             Some (dir, s)
           }
           else Some (pdir, s));
        let p = p\<lparr>pc_page_dir := dir, pc_threads := queue_init\<rparr>;
        (_, c, s) \<leftarrow> vm_contract_init g1 g2 raw_area low_address high_address (pc_memory_contract p) s;
        let (err, v) = vector_init g3 10;
        let p = p\<lparr>pc_memory_contract := c, pc_lft := v, pc_lft_lock := (if err \<noteq> ERROR_OK then pc_lft_lock p else spinlock_init)\<rparr>;
        Some (proc, s\<lparr>pcbs := (pcbs s)(proc \<mapsto> p)\<rparr>)
      })"

subsection \<open>Kernel stacks\<close>

definition kernel_stack_reserve :: "'a files_scheme \<Rightarrow> (virtual_addr \<times> 'a files_scheme) option" where
  "kernel_stack_reserve s = do {
     (address, s) \<leftarrow> page_cache_reserve_anonymous s;
     Some (if address = 0 then 0 else address + PAGE_SIZE, s)
   }"

definition kernel_stack_release :: "virtual_addr \<Rightarrow> 'a files_scheme \<Rightarrow> (error_t \<times> 'a files_scheme) option" where
  "kernel_stack_release address s = do {
     s \<leftarrow> page_cache_release_anonymous (address - PAGE_SIZE) s;
     Some (ERROR_OK, s)
   }"

end
