(* ===== verification/Threads_Facts.thy ===== *)
theory Threads_Facts
  imports Threads
begin

text \<open>
  What creation gives: the stack of a new thread, word by word, in the address space of its process and
  whatever directory was active, and the address space and memory contract of a new process.
\<close>

subsection \<open>The words of a page\<close>

definition page_words :: "mem \<Rightarrow> physical_addr \<Rightarrow> u32 list" where
  "page_words m F = map (\<lambda>k. read32 m (F + 4 * of_nat k)) [0..<1024]"

lemma page_words_write:
  assumes k: "k < 1024"
  shows "page_words (write32 m (F + 4 * of_nat k) v) F = (page_words m F)[k := v]"
proof (rule nth_equalityI)
  fix j assume "j < length (page_words (write32 m (F + 4 * of_nat k) v) F)"
  then have j: "j < 1024" by (simp add: page_words_def)
  show "page_words (write32 m (F + 4 * of_nat k) v) F ! j = (page_words m F)[k := v] ! j"
  proof (cases "j = k")
    case False
    have "read32 (write32 m (F + 4 * of_nat k) v) (F + 4 * of_nat j) = read32 m (F + 4 * of_nat j)"
      by (rule read32_cong, rule write32_other)
        (use False j k slot_disjoint [of 1024 j k _ F] slot_disjoint [of 1024 k j _ F] in \<open>auto simp del: insert_iff simp: neq_iff\<close>)
    then show ?thesis using j False by (simp add: page_words_def)
  qed (use j in \<open>simp add: page_words_def\<close>)
qed (simp add: page_words_def)

lemma outside_page: "k < 1024 \<Longrightarrow> 4096 \<le> unat (x - F) \<Longrightarrow> write32 m (F + 4 * of_nat k) v x = m x"
proof (rule write32_other, rule notI)
  assume k: "k < 1024" and x: "4096 \<le> unat (x - F)" and "x \<in> {F + 4 * of_nat k, F + 4 * of_nat k + 1, F + 4 * of_nat k + 2, F + 4 * of_nat k + 3}"
  then obtain j where "j < 4 * k + 4" "x = F + of_nat j" unfolding slot_bytes by auto
  then have "unat (x - F) = j" "j < 4096" using k by (simp_all add: unat_of_nat_u32)
  with x show False by simp
qed

lemma length_page_words [simp]: "length (page_words m F) = 1024"
  by (simp add: page_words_def)

definition stack_page :: "'a procs_scheme \<Rightarrow> ptr \<Rightarrow> virtual_addr \<Rightarrow> physical_addr \<Rightarrow> bool" where
  \<comment> \<open>The page at \<open>base\<close> lies in frame \<open>F\<close> in the address space of \<open>dir\<close>.\<close>
  "stack_page s dir base F \<longleftrightarrow> base AND mask 12 = 0 \<and> translate s dir base = Some F"

lemma virt_put_ok:
  assumes p: "stack_page s (cr3 s) base F" and k: "k < 1024"
  shows "virt_put (base + 4 * of_nat k) v s = Some (s\<lparr>phys := write32 (phys s) (F + 4 * of_nat k) v\<rparr>)"
proof -
  have b: "base AND mask 12 = 0" and t: "translate s (cr3 s) base = Some F" using p by (simp_all add: stack_page_def)
  have F: "F AND mask 12 = 0" by (rule translate_low [OF b t])
  have tr: "translate s (cr3 s) (base + of_nat j) = Some (F + of_nat j)" if "j < 4096" for j
  proof -
    have "same_page (base + of_nat j) base" using page_offset(1) [OF b, of "base + of_nat j"] that by (simp add: unat_of_nat_u32)
    then show ?thesis using translate_same_page [OF b t] page_offset(2) [OF b _ F, of "base + of_nat j"] by simp
  qed
  show ?thesis using k tr [of "4 * k"] tr [of "4 * k + 1"] tr [of "4 * k + 2"] tr [of "4 * k + 3"]
    by (simp add: virt_put_def write32_def pmmngr_get_PDBR_def ac_simps)
qed

subsection \<open>Pushing words\<close>

definition pushed :: "'a procs_scheme \<Rightarrow> ptr \<Rightarrow> ptr \<Rightarrow> thread_control_block \<Rightarrow> virtual_addr \<Rightarrow> nat \<Rightarrow> mem \<Rightarrow> 'a procs_scheme" where
  \<comment> \<open>The stack pointer of thread \<open>t\<close> is at word \<open>k\<close> of its page, and memory holds \<open>m\<close>.\<close>
  "pushed s t nx d base k m = s\<lparr>thread_cells := (thread_cells s)(t \<mapsto> \<lparr>qn_data = d\<lparr>t_esp := base + 4 * of_nat k\<rparr>, qn_next = nx\<rparr>), phys := m\<rparr>"

lemma pushed_tables [simp]: "tables (pushed s t nx d base k m) = tables s" "cr3 (pushed s t nx d base k m) = cr3 s"
  by (simp_all add: pushed_def)

lemma pushed_phys: "phys (pushed s t nx d base k m) = m" "pushed s t nx d base k m\<lparr>phys := m'\<rparr> = pushed s t nx d base k m'"
  by (simp_all add: pushed_def)

lemma pushed_page [simp]: "stack_page (pushed s t nx d base k m) dir b F = stack_page s dir b F"
  unfolding stack_page_def translate_def page_walk_def pushed_tables ..

lemma add_parameter_ok:
  assumes "stack_page s (cr3 s) base F" and "k < 1024"
  shows "thread_add_parameter t v (pushed s t nx d base (Suc k) m) = Some (pushed s t nx d base k (write32 m (F + 4 * of_nat k) v))"
proof -
  have "upd_thread t (\<lambda>t. t\<lparr>t_esp := t_esp t - 4\<rparr>) (pushed s t nx d base (Suc k) m) = Some (pushed s t nx d base k m)"
    by (simp add: upd_thread_def pushed_def algebra_simps)
  moreover have "get_thread t (pushed s t nx d base k m) = Some (d\<lparr>t_esp := base + 4 * of_nat k\<rparr>)" by (simp add: get_thread_def pushed_def)
  ultimately show ?thesis using virt_put_ok [of "pushed s t nx d base k m" base F k v] assms by (simp add: thread_add_parameter_def pushed_phys)
qed

definition fills :: "mem \<Rightarrow> mem \<Rightarrow> physical_addr \<Rightarrow> nat \<Rightarrow> u32 list \<Rightarrow> bool" where
  \<comment> \<open>\<open>m'\<close> is \<open>m\<close> with the words of the page from number \<open>k\<close> on replaced by \<open>vs\<close>.\<close>
  "fills m m' F k vs \<longleftrightarrow> page_words m' F = take k (page_words m F) @ vs @ drop (k + length vs) (page_words m F) \<and>
     (\<forall>x. 4096 \<le> unat (x - F) \<longrightarrow> m' x = m x)"

lemma fills_none: "fills m m F k []"
  by (simp add: fills_def)

lemma fills_push:
  assumes f: "fills m m' F (Suc k) vs" and k: "k + length vs < 1024"
  shows "fills m (write32 m' (F + 4 * of_nat k) v) F k (v # vs)"
proof -
  have "(take (Suc k) (page_words m F) @ ys)[k := v] = take k (page_words m F) @ v # ys" for ys
    using k by (simp add: take_Suc_conv_app_nth list_update_append)
  then show ?thesis using f k outside_page [of k] by (simp add: fills_def page_words_write)
qed

lemma add_parameters_ok:
  assumes p: "stack_page s (cr3 s) base F"
  shows "fills m m' F k vs \<Longrightarrow> length args \<le> k \<Longrightarrow> k + length vs \<le> 1024 \<Longrightarrow>
    \<exists>m''. add_parameters (length args) args t (pushed s t nx d base k m') = Some (pushed s t nx d base (k - length args) m'') \<and>
      fills m m'' F (k - length args) (rev args @ vs)"
proof (induction args arbitrary: k m' vs)
  case (Cons v args)
  then obtain j where j: "k = Suc j" by (cases k) auto
  have f: "fills m (write32 m' (F + 4 * of_nat j) v) F j (v # vs)" by (rule fills_push) (use Cons.prems j in simp_all)
  have "thread_add_parameter t v (pushed s t nx d base k m') = Some (pushed s t nx d base j (write32 m' (F + 4 * of_nat j) v))"
    unfolding j by (rule add_parameter_ok [OF p]) (use Cons.prems j in simp)
  then show ?case using Cons.IH [OF f] Cons.prems j by auto
qed auto

subsection \<open>The trap frame\<close>

definition trap_frame :: "u32 \<Rightarrow> u32 list" where
  "trap_frame entry = [0x10, 0x10, 0x10, 0x10, 0, 0, 0, 0, 0, 0, 0, 0, entry, 0x8, 0x202]"

lemma put_fields_ok:
  assumes p: "stack_page s (cr3 s) base F"
  shows "\<forall>(j, v) \<in> set ys. k + j < 1024 \<Longrightarrow> \<exists>m'. put_fields (map (\<lambda>(j, v). (4 * of_nat j, v)) ys) (base + 4 * of_nat k) (pushed s t nx d base l m) =
      Some (pushed s t nx d base l m') \<and>
    page_words m' F = fold (\<lambda>(j, v) ws. ws[k + j := v]) ys (page_words m F) \<and> (\<forall>x. 4096 \<le> unat (x - F) \<longrightarrow> m' x = m x)"
proof (induction ys arbitrary: m)
  case (Cons y ys)
  obtain j v where y: "y = (j, v)" by (cases y)
  have j: "k + j < 1024" using Cons.prems y by auto
  have e: "base + 4 * of_nat k + 4 * of_nat j = base + 4 * of_nat (k + j)" by (simp add: algebra_simps)
  have "virt_put (base + 4 * of_nat k + 4 * of_nat j) v (pushed s t nx d base l m) =
      Some (pushed s t nx d base l (write32 m (F + 4 * of_nat (k + j)) v))"
    unfolding e using virt_put_ok [of "pushed s t nx d base l m" base F "k + j" v] p j by (simp add: pushed_phys del: of_nat_add)
  then show ?case using Cons.IH [of "write32 m (F + 4 * of_nat (k + j)) v"] Cons.prems y page_words_write [OF j] outside_page [OF j]
    by (auto simp del: of_nat_add)
qed auto

lemma fold_frame:
  assumes "length fr = 15"
  shows "fold (\<lambda>(j, v) ws. ws[j := v]) [(14, 0x202), (13, 0x8), (3, 0x10), (4, 0), (11, 0), (5, 0), (6, 0), (9, 0), (7, 0),
       (12, entry), (2, 0x10), (8, 0), (10, 0), (1, 0x10), (0, 0x10)] fr = trap_frame entry"
proof -
  obtain a b c d e f g h i j k l m n q where "fr = [a, b, c, d, e, f, g, h, i, j, k, l, m, n, q]"
    using assms by (auto simp: eval_nat_numeral length_Suc_conv)
  then show ?thesis by (simp add: trap_frame_def)
qed

lemma fold_update_append: "length xs = k \<Longrightarrow> \<forall>(j, v) \<in> set ys. j < length fr \<Longrightarrow>
    fold (\<lambda>(j, v) ws. ws[k + j := v]) ys (xs @ fr @ zs) = xs @ fold (\<lambda>(j, v) ws. ws[j := v]) ys fr @ zs"
  by (induction ys arbitrary: fr) (auto simp: list_update_append)

lemma setup_stack_ok:
  assumes p: "stack_page s (cr3 s) base F" and f: "fills m m' F (k + 15) vs" and k: "k + 15 + length vs \<le> 1024"
  shows "\<exists>m''. thread_setup_execution_stack t entry (pushed s t nx d base (k + 15) m') = Some (pushed s t nx d base k m'') \<and>
    fills m m'' F k (trap_frame entry @ vs)"
proof -
  let ?ys = "[(14, 0x202), (13, 0x8), (3, 0x10), (4, 0), (11, 0), (5, 0), (6, 0), (9, 0), (7, 0),
       (12, entry), (2, 0x10), (8, 0), (10, 0), (1, 0x10), (0, 0x10)] :: (nat \<times> u32) list"
  obtain m'' where m: "put_fields (map (\<lambda>(j, v). (4 * of_nat j, v)) ?ys) (base + 4 * of_nat k) (pushed s t nx d base k m') = Some (pushed s t nx d base k m'')"
    "page_words m'' F = fold (\<lambda>(j, v) ws. ws[k + j := v]) ?ys (page_words m' F)" "\<forall>x. 4096 \<le> unat (x - F) \<longrightarrow> m'' x = m' x"
    using put_fields_ok [OF p, of ?ys k t nx d k m'] k by auto
  have w: "page_words m' F = take k (page_words m F) @ take 15 (drop k (page_words m F)) @ vs @ drop (k + 15 + length vs) (page_words m F)"
    using f by (simp add: fills_def take_add)
  have "page_words m'' F = take k (page_words m F) @ trap_frame entry @ vs @ drop (k + 15 + length vs) (page_words m F)"
    unfolding m(2) w using k fold_frame [of "take 15 (drop k (page_words m F))" entry]
      fold_update_append [of "take k (page_words m F)" k ?ys "take 15 (drop k (page_words m F))" "vs @ drop (k + 15 + length vs) (page_words m F)"]
    by simp
  moreover have "length (trap_frame entry) = 15" by (simp add: trap_frame_def)
  ultimately have "fills m m'' F k (trap_frame entry @ vs)" using m(3) f by (simp add: fills_def add.assoc)
  moreover have "thread_setup_execution_stack t entry (pushed s t nx d base (k + 15) m') = Some (pushed s t nx d base k m'')"
  proof -
    have "upd_thread t (\<lambda>t. t\<lparr>t_esp := t_esp t - 60\<rparr>) (pushed s t nx d base (k + 15) m') = Some (pushed s t nx d base k m')"
      by (simp add: upd_thread_def pushed_def algebra_simps)
    moreover have "get_thread t (pushed s t nx d base k m') = Some (d\<lparr>t_esp := base + 4 * of_nat k\<rparr>)" by (simp add: get_thread_def pushed_def)
    ultimately show ?thesis using m(1) by (simp add: thread_setup_execution_stack_def)
  qed
  ultimately show ?thesis by blast
qed

subsection \<open>Threads\<close>

lemma queue_set_last:
  assumes "queue_rep st q (ps @ [p]) (xs @ [x])"
  shows "queue_rep (st(p \<mapsto> \<lparr>qn_data = y, qn_next = 0\<rparr>)) q (ps @ [p]) (xs @ [y])"
proof -
  have "qseg st (ps @ [p]) (xs @ [x]) \<Longrightarrow> distinct (ps @ [p]) \<Longrightarrow> qseg (st(p \<mapsto> \<lparr>qn_data = y, qn_next = 0\<rparr>)) (ps @ [p]) (xs @ [y])"
    by (induction st ps xs rule: qseg.induct) (auto simp: neq_Nil_conv Cons_eq_append_conv dest: qseg_length)
  then show ?thesis using assms by (simp add: queue_rep_def)
qed

lemma switch_ok:
  assumes "d \<noteq> 0" and "current_directory s = cr3 s"
  shows "\<exists>b. vmmngr_switch_directory d d s = (ERROR_OK, s\<lparr>current_directory := d, current_pdbr := b, cr3 := d\<rparr>)"
proof (cases "cr3 s = d")
  case True
  then have "s = s\<lparr>current_directory := d, current_pdbr := current_pdbr s, cr3 := d\<rparr>" using assms by simp
  then show ?thesis using True by (metis vmmngr_switch_directory_def pmmngr_get_PDBR_def)
next
  case False
  then show ?thesis using assms
    by (intro exI [of _ d]) (simp add: vmmngr_switch_directory_def pmmngr_get_PDBR_def pmmngr_load_PDBR_def)
qed

lemma pushed_self:
  assumes "thread_cells s t = Some \<lparr>qn_data = d, qn_next = nx\<rparr>" and "t_esp d = base + 4 * of_nat k"
  shows "pushed s t nx d base k (phys s) = s"
proof -
  have "d\<lparr>t_esp := base + 4 * of_nat k\<rparr> = d" using assms(2) [symmetric] by simp
  moreover have "(thread_cells s)(t \<mapsto> \<lparr>qn_data = d, qn_next = nx\<rparr>) = thread_cells s" using assms(1) by auto
  ultimately show ?thesis by (simp add: pushed_def)
qed

lemma aligned_next: "base AND mask 12 = 0 \<Longrightarrow> t = base + 4096 \<Longrightarrow> t mod 4096 = 0"
  for base t :: u32
proof -
  assume b: "base AND mask 12 = 0" and t: "t = base + 4096"
  have "unat base mod 4096 = 0" using unat_low_bits [of base] b by simp
  then have "unat (base + 4096) mod 4096 = 0" by (simp add: unat_word_ariths mod_mod_cancel)
  then show ?thesis using t by (simp add: word_unat_eq_iff unat_mod)
qed

lemma stack_filled:
  assumes p: "stack_page s (cr3 s) base F" and n: "length args \<le> 1007"
    and c: "thread_cells s t = Some \<lparr>qn_data = d, qn_next = nx\<rparr>" "t_esp d = base + 4096"
  shows "\<exists>m'. (do { s \<leftarrow> thread_add_parameter t 0 s; s \<leftarrow> add_parameters (length args) args t s; s \<leftarrow> thread_add_parameter t 0 s;
        thread_setup_execution_stack t entry s }) = Some (pushed s t nx d base (1007 - length args) m') \<and>
    fills (phys s) m' F (1007 - length args) (trap_frame entry @ [0] @ rev args @ [0])"
proof -
  let ?P = "pushed s t nx d base"
  have s: "s = ?P 1024 (phys s)" using pushed_self [OF c(1), of base 1024] c(2) by simp
  obtain m1 where 1: "thread_add_parameter t 0 s = Some (?P 1023 m1)" "fills (phys s) m1 F 1023 [0]"
    using add_parameter_ok [OF p, of 1023 t 0 nx d "phys s"] fills_push [OF fills_none, of 1023 "phys s" F 0] s by (auto simp: fills_def)
  obtain m2 where 2: "add_parameters (length args) args t (?P 1023 m1) = Some (?P (1023 - length args) m2)"
    "fills (phys s) m2 F (1023 - length args) (rev args @ [0])"
    using add_parameters_ok [OF p 1(2), of args t nx d] n by auto
  have e: "1023 - length args = Suc (1022 - length args)" "1022 - length args = 1007 - length args + 15" using n by simp_all
  have 3: "thread_add_parameter t 0 (?P (1023 - length args) m2) = Some (?P (1022 - length args) (write32 m2 (F + 4 * of_nat (1022 - length args)) 0))"
    unfolding e(1) by (rule add_parameter_ok [OF p]) simp
  have 4: "fills (phys s) (write32 m2 (F + 4 * of_nat (1022 - length args)) 0) F (1007 - length args + 15) ([0] @ rev args @ [0])"
    using fills_push [OF 2(2) [unfolded e(1)], of 0] n unfolding e(2) by simp
  show ?thesis using 1(1) 2(1) 3 setup_stack_ok [OF p 4, of t entry nx d] n unfolding e(2) by auto
qed

text \<open>
  C26. Creating a thread of a process, whatever address space is active: the thread is entered as the
  last one of its process, ready, with the next number, and its stack pointer is at a trap frame that starts it at
  \<open>entry\<close> with interrupts on; above it lie a zero return address, the arguments with the last one first, and the
  zeroed error word at the top. The words are in the frame that the process's own directory gives the stack page, nothing
  else of physical memory has changed, and the directory that was active is active again.
\<close>

theorem thread_create_stack:
  assumes parent: "pcbs s parent = Some p" and q: "queue_rep (thread_cells s) (pc_threads p) ps xs"
    and node: "node \<notin> set ps" "node \<noteq> 0" "length ps + 1 < 2 ^ 32"
    and page: "stack_page s (pc_page_dir p) (stack_top - 4096) F" and dirs: "pc_page_dir p \<noteq> 0" "current_directory s \<noteq> 0" "cr3 s = current_directory s"
    and n: "length args \<le> 1007"
  shows "\<exists>s' t. thread_create node temp cells parent entry stack_top stack_size priority (of_nat (length args)) args s = Some (node, s') \<and>
    get_thread node s' = Some t \<and> t_id t = last_id s + 1 \<and> t_state t = THREAD_READY \<and> t_parent t = parent \<and>
    t_esp t = stack_top - 4 * of_nat (17 + length args) \<and>
    page_words (phys s') F = take (1007 - length args) (page_words (phys s) F) @ trap_frame entry @ [0] @ rev args @ [0] \<and>
    (\<forall>x. 4096 \<le> unat (x - F) \<longrightarrow> phys s' x = phys s x) \<and>
    cr3 s' = cr3 s \<and> current_directory s' = current_directory s \<and>
    (\<exists>p'. pcbs s' parent = Some p' \<and> queue_rep (thread_cells s') (pc_threads p') (ps @ [node]) (xs @ [t]))"
proof -
  define base where "base = stack_top - 4096"
  have "base AND mask 12 = 0" using page by (simp add: stack_page_def base_def)
  moreover have "stack_top = base + 4096" by (simp add: base_def)
  ultimately have al: "stack_top mod 4096 = 0" by (rule aligned_next)
  obtain qu st where qu: "queue_insert node temp (pc_threads p) (thread_cells s) = Some (qu, st)" "queue_rep st qu (ps @ [node]) (xs @ [temp])"
    using queue_insert_rep [OF q node] by metis
  define d where "d = temp\<lparr>t_id := last_id s + 1, t_parent := parent, t_stack_top := stack_top, t_state := THREAD_READY,
               t_base_priority := priority, t_plus_priority := 0, t_attribute := THREAD_KERNEL,
               t_thread_lock := THREAD_LOCK_NONE, t_ss := 0x10, t_esp := stack_top,
               t_exceptions := queue_spsc_init 10 cells, t_exception_lock := 0\<rparr>"
  define s1 where "s1 = s\<lparr>thread_cells := st(node \<mapsto> \<lparr>qn_data = d, qn_next = 0\<rparr>), pcbs := (pcbs s)(parent \<mapsto> p\<lparr>pc_threads := qu\<rparr>), last_id := last_id s + 1\<rparr>"
  have st: "st node = Some \<lparr>qn_data = temp, qn_next = 0\<rparr>" "q_tail qu = node" using qu(2) qseg_last by (fastforce simp: queue_rep_def dest: qseg_length)+
  let ?pd = "pc_page_dir p"
  have dir: "vmmngr_get_directory s1 = current_directory s" by (simp add: s1_def vmmngr_get_directory_def)
  have "current_directory s1 = cr3 s1" using dirs by (simp add: s1_def)
  then obtain b2 where sw: "vmmngr_switch_directory ?pd ?pd s1 = (ERROR_OK, s1\<lparr>current_directory := ?pd, current_pdbr := b2, cr3 := ?pd\<rparr>)"
    using switch_ok [OF dirs(1)] by blast
  define s2 where "s2 = s1\<lparr>current_directory := ?pd, current_pdbr := b2, cr3 := ?pd\<rparr>"
  have tb: "tables s2 = tables s" "cr3 s2 = ?pd" "phys s2 = phys s" by (simp_all add: s2_def s1_def)
  have pg: "stack_page s2 (cr3 s2) base F" using page unfolding stack_page_def translate_def page_walk_def tb base_def .
  have cell: "thread_cells s2 node = Some \<lparr>qn_data = d, qn_next = 0\<rparr>" "t_esp d = base + 4096" by (simp_all add: s2_def s1_def d_def base_def)
  let ?k = "1007 - length args"
  obtain m where m: "(do { s \<leftarrow> thread_add_parameter node 0 s2; s \<leftarrow> add_parameters (length args) args node s; s \<leftarrow> thread_add_parameter node 0 s;
        thread_setup_execution_stack node entry s }) = Some (pushed s2 node 0 d base ?k m)"
    "fills (phys s) m F ?k (trap_frame entry @ [0] @ rev args @ [0])"
    using stack_filled [OF pg n cell, of entry] tb(3) by auto
  let ?s3 = "pushed s2 node 0 d base ?k m"
  have "current_directory ?s3 = cr3 ?s3" by (simp add: pushed_def s2_def)
  then obtain b3 where sw3: "vmmngr_switch_directory (current_directory s) (current_directory s) ?s3 =
      (ERROR_OK, ?s3\<lparr>current_directory := current_directory s, current_pdbr := b3, cr3 := current_directory s\<rparr>)"
    using switch_ok [OF dirs(2)] by blast
  let ?s' = "?s3\<lparr>current_directory := current_directory s, current_pdbr := b3, cr3 := current_directory s\<rparr>"
  have un: "unat (of_nat (length args) :: u32) = length args" using n by (simp add: unat_of_nat_u32)
  have "upd_thread node (\<lambda>c. c\<lparr>t_id := last_id s + 1, t_parent := parent, t_stack_top := stack_top, t_state := THREAD_READY,
               t_base_priority := priority, t_plus_priority := 0, t_attribute := THREAD_KERNEL,
               t_thread_lock := THREAD_LOCK_NONE, t_ss := 0x10, t_esp := stack_top,
               t_exceptions := queue_spsc_init 10 cells, t_exception_lock := 0\<rparr>)
      (s\<lparr>thread_cells := st, pcbs := (pcbs s)(parent \<mapsto> p\<lparr>pc_threads := qu\<rparr>), last_id := last_id s + 1\<rparr>) = Some s1"
    using st(1) by (simp add: upd_thread_def s1_def d_def)
  moreover have "pcbs s1 parent = Some (p\<lparr>pc_threads := qu\<rparr>)" by (simp add: s1_def)
  ultimately have run: "thread_create node temp cells parent entry stack_top stack_size priority (of_nat (length args)) args s = Some (node, ?s')"
    using m(1) sw3
    by (simp add: thread_create_def al vmmngr_get_page_size_def PAGE_SIZE_def parent qu(1) st(2) dir sw s2_def [symmetric] un)
      (auto simp: bind_eq_Some_conv Let_def)
  let ?t = "d\<lparr>t_esp := base + 4 * of_nat ?k\<rparr>"
  have "queue_rep (thread_cells ?s') qu (ps @ [node]) (xs @ [?t])" using queue_set_last [OF qu(2), of ?t] by (simp add: pushed_def s2_def s1_def)
  moreover have "pcbs ?s' parent = Some (p\<lparr>pc_threads := qu\<rparr>)" by (simp add: pushed_def s2_def s1_def)
  moreover have "get_thread node ?s' = Some ?t" by (simp add: get_thread_def pushed_def)
  moreover have "base + 4 * of_nat ?k = stack_top - 4 * of_nat (17 + length args)" using n by (simp add: base_def of_nat_diff algebra_simps)
  moreover have "page_words (phys ?s') F = take ?k (page_words (phys s) F) @ trap_frame entry @ [0] @ rev args @ [0]"
    "\<forall>x. 4096 \<le> unat (x - F) \<longrightarrow> phys ?s' x = phys s x"
    using m(2) n by (simp_all add: fills_def pushed_phys trap_frame_def)
  ultimately show ?thesis using run dirs(3) by (intro exI [of _ ?s'] exI [of _ ?t]) (simp add: d_def)
qed

definition sample_procs :: procs where
  \<comment> \<open>Two processes: the active directory is another one than that of the process at 0x100.\<close>
  "sample_procs = vmm.extend (sample_vmm\<lparr>current_directory := 0x5000, cr3 := 0x5000\<rparr>)
     (procs.fields (\<lambda>_. 0xAA) 5
       [0x100 \<mapsto> \<lparr>pc_page_dir = 4096, pc_parent = 0, pc_id = 1, pc_image_base = 0, pc_image_size = 0,
          pc_lft = \<lparr>v_data = [], v_count = 0, v_r_size = 0\<rparr>, pc_lft_lock = 0,
          pc_memory_contract = \<lparr>vc_areas = \<lparr>v_data = [], v_count = 0, v_r_size = 0\<rparr>, lowest_addr = 0, highest_addr = 0\<rparr>,
          pc_contract_spinlock = 0, pc_threads = queue_init\<rparr>] (\<lambda>_. None))"

lemma sample_procs_tables: "tables sample_procs = tables sample_vmm" "pmm_ok sample_procs = pmm_ok sample_vmm"
  "block_regions sample_procs = block_regions sample_vmm" "kernel_directory sample_procs = 4096"
  "cr3 sample_procs = 0x5000" "current_directory sample_procs = 0x5000"
  by (simp_all add: sample_procs_def sample_vmm_def vmm.defs procs.defs pmm_ok_def block_regions_def)

definition sample_cells :: "thread_exception list" where
  "sample_cells = replicate 10 \<lparr>te_number = 0xAA, te_addr = 0xAAAAAAAA, te_code = 0xAAAAAAAA\<rparr>"

definition sample_tcb :: thread_control_block where
  \<comment> \<open>An uninitialised local.\<close>
  "sample_tcb = tcb.extend (tcb.fields 0xAAAAAAAA THREAD_BLOCK 0xAAAAAAAA 0xAAAAAAAA 0xAAAAAAAA 0xAAAAAAAA 0xAAAAAAAA)
     (thread_control_block.fields 0xAAAAAAAA 0xAAAAAAAA 0xAAAAAAAA 0xAAAAAAAA (queue_spsc_init 0 []) 0xAAAAAAAA)"

lemma thread_create_stack_witness:
  "\<exists>s' t. thread_create 0x700 sample_tcb sample_cells 0x100 0x400000 0x2000 4096 3 2 [7, 8] sample_procs = Some (0x700, s') \<and>
     get_thread 0x700 s' = Some t \<and> t_esp t = 0x1FB4 \<and>
     drop 1005 (page_words (phys s') 0x3000) = trap_frame 0x400000 @ [0, 8, 7, 0]"
proof -
  let ?p = "the (pcbs sample_procs 0x100)"
  have "translate sample_procs 4096 0x1000 = translate sample_vmm 4096 0x1000"
    unfolding translate_def page_walk_def sample_procs_tables ..
  then have pg: "stack_page sample_procs (pc_page_dir ?p) (0x2000 - 4096) 0x3000"
    using sample_vmm_dirent(5) by (simp add: stack_page_def sample_procs_def procs.defs vmm.defs mask_eq_exp_minus_1)
  have q: "queue_rep (thread_cells sample_procs) (pc_threads ?p) [] []"
    by (simp add: sample_procs_def procs.defs vmm.defs queue_init_rep)
  have d: "pcbs sample_procs 0x100 = Some ?p" "pc_page_dir ?p \<noteq> 0" by (simp_all add: sample_procs_def procs.defs vmm.defs)
  show ?thesis
    using thread_create_stack [OF d(1) q _ _ _ pg d(2), where node = "0x700" and args = "[7, 8]" and temp = sample_tcb and cells = sample_cells
        and entry = "0x400000" and stack_size = 4096 and priority = 3] by (auto simp: sample_procs_tables)
qed

subsection \<open>Processes\<close>

lemma kernel_space_ok:
  fixes s :: "'a vmm_scheme"
  assumes ok: "vm_ok (kernel_directory s) s" and mem: "\<not> out_of_memory s"
  obtains dir s1 s2 where "vmmngr_create_address_space s = Some (dir, s1)" "vmmngr_map_kernel_space dir s1 = Some (ERROR_OK, s2)" "dir \<noteq> 0"
    "(unat dir, 4096) \<notin> block_regions s" "\<And>va. translate s2 dir va = translate s (kernel_directory s) va"
    "\<And>va. translate s2 (kernel_directory s) va = translate s (kernel_directory s) va"
proof -
  have pm: "pmm_ok s" using ok by (simp add: vm_ok_def)
  let ?k = "kernel_directory s"
  obtain d where d: "tables s ?k = Some d" "length d = 1024" "dir_ok ?k d s" using ok by (rule vm_ok_dirE)
  show thesis
  proof (rule vmm_alloc_block [OF pm])
    fix T s1
    assume T: "pmmngr_alloc_block s = Some (T, s1)" "T \<noteq> 0" "(unat T, 4096) \<notin> block_regions s" "tables s1 = tables s"
      "kernel_directory s1 = ?k"
    have kT: "?k \<noteq> T" using ok T(3) by (auto simp: vm_ok_def table_at_def)
    let ?s1 = "zero_table T s1"
    let ?s2 = "?s1\<lparr>tables := (tables ?s1)(T \<mapsto> d)\<rparr>"
    have c: "vmmngr_create_address_space s = Some (T, ?s1)" using T(1,2) by (simp add: vmmngr_create_address_space_def)
    have m: "vmmngr_map_kernel_space T ?s1 = Some (ERROR_OK, ?s2)"
      using T(2,4,5) d(1) kT by (simp add: vmmngr_map_kernel_space_def zero_table_def)
    have "pd_entry_get_frame (d ! i) \<noteq> T" if "i < 1024" "pd_entry_is_present (d ! i)" for i
      using d(3) that T(3) by (auto simp: dir_ok_def table_at_def)
    then have "page_walk ?s2 x va = page_walk s ?k va" if "x = T \<or> x = ?k" for x va
      using d(1,2) T(4) kT page_indices_lt(1) [of va] that
      by (auto simp: page_walk_def zero_table_def)
    then show thesis using that [OF c m T(2,3)] by (simp add: translate_def)
  next
    assume "out_of_memory s"
    with mem show thesis by simp
  qed
qed

text \<open>
  C27. A new process without a directory of its own gets one in a block nobody used, which gives every address the
  translation the kernel's directory gives it; the kernel's translations are as before; the process has the next number,
  no thread, and a memory contract that consists of its two guard areas at the bounds asked for.
\<close>

theorem process_create_address_space:
  assumes "vm_ok (kernel_directory s) s" and "\<not> out_of_memory s" and "proc \<noteq> 0"
    and "low mod 4096 = 0" and "high mod 4096 = 0" and "unat low + 8192 \<le> unat high"
  shows "\<exists>s' p. process_create proc raw True True True raw_area parent 0 low high s = Some (proc, s') \<and>
    pcbs s' proc = Some p \<and> pc_id p = last_id s + 1 \<and> pc_parent p = parent \<and> pc_threads p = queue_init \<and>
    (unat (pc_page_dir p), 4096) \<notin> block_regions s \<and>
    (\<forall>va. translate s' (pc_page_dir p) va = translate s (kernel_directory s) va \<and>
       translate s' (kernel_directory s) va = translate s (kernel_directory s) va) \<and>
    (\<exists>g1 g2. contract_ok (pc_memory_contract p) [g1, g2]) \<and>
    lowest_addr (pc_memory_contract p) = low \<and> highest_addr (pc_memory_contract p) = high"
proof -
  let ?s0 = "s\<lparr>last_id := last_id s + 1\<rparr>"
  have ok: "vm_ok (kernel_directory ?s0) ?s0" "\<not> out_of_memory ?s0" "block_regions ?s0 = block_regions s"
    using assms(1,2) by (simp_all add: vm_ok_def table_at_def dir_ok_def block_regions_def pmm_ok_def out_of_memory_def usable_blocks_def)
  obtain dir s1 s2 where sp: "vmmngr_create_address_space ?s0 = Some (dir, s1)" "vmmngr_map_kernel_space dir s1 = Some (ERROR_OK, s2)" "dir \<noteq> 0"
    "(unat dir, 4096) \<notin> block_regions s" "\<And>va. translate s2 dir va = translate ?s0 (kernel_directory s) va"
    "\<And>va. translate s2 (kernel_directory s) va = translate ?s0 (kernel_directory s) va"
    using kernel_space_ok [OF ok(1,2)] ok(3) by auto
  have t0: "translate ?s0 = translate s" by (simp add: translate_def page_walk_def fun_eq_iff cong: Option.bind_cong if_cong)
  obtain c g1 g2 where c: "vm_contract_init True True raw_area low high (pc_memory_contract raw) s2 = Some (ERROR_OK, c, s2)" "contract_ok c [g1, g2]"
    "lowest_addr c = low" "highest_addr c = high"
    using vm_contract_init_ok [OF assms(4,5,6), of raw_area "pc_memory_contract raw" s2] by metis
  have tr: "translate (s2\<lparr>pcbs := f\<rparr>) = translate s2" for f
    by (simp add: translate_def page_walk_def fun_eq_iff cong: Option.bind_cong if_cong)
  show ?thesis
    using sp c(1,3,4) assms(3) exI [of "\<lambda>g1. \<exists>g2. contract_ok c [g1, g2]", OF exI, OF c(2)]
    by (simp add: process_create_def Let_def vector_init_def tr t0)
qed

definition sample_pcb :: pcb where
  \<comment> \<open>What the allocated block holds.\<close>
  "sample_pcb = the (pcbs sample_procs 0x100)\<lparr>pc_id := 0xAAAAAAAA, pc_contract_spinlock := 0xAAAAAAAA\<rparr>"

definition sample_area :: vm_area where
  "sample_area = \<lparr>start_addr = 0, end_addr = 0, a_flags = 0, a_fd = 0, a_offset = 0\<rparr>"

lemma process_create_address_space_witness:
  "\<exists>s' p. process_create 0x900 sample_pcb True True True sample_area 0x100 0 0x400000 0x800000 sample_procs = Some (0x900, s') \<and>
     pcbs s' 0x900 = Some p \<and> pc_id p = 6 \<and> (\<forall>va. translate s' (pc_page_dir p) va = translate sample_procs 4096 va)"
proof -
  have "vm_ok 4096 sample_procs" using sample_vmm_ok by (simp add: vm_ok_def table_at_def dir_ok_def sample_procs_tables)
  moreover have "\<not> out_of_memory sample_procs"
    by (auto simp: out_of_memory_def usable_blocks_def block_used_def sample_procs_def sample_vmm_def vmm.defs procs.defs intro!: exI [of _ 5])
  moreover have "last_id sample_procs = 5" by (simp add: sample_procs_def vmm.defs procs.defs)
  ultimately show ?thesis
    using process_create_address_space [where s = sample_procs and proc = "0x900" and low = "0x400000" and high = "0x800000"
        and raw = sample_pcb and raw_area = sample_area and parent = "0x100"] by (auto simp: sample_procs_tables)
qed

end
