(* ===== verification/Semaphores.thy ===== *)
theory Semaphores
  imports Scheduler
begin

text \<open>
  What the semaphores of semaphore.cpp promise on top of the scheduler: a wait that finds no unit moves the running
  thread to the end of the semaphore's waiting list and lets the next ready thread run, a signal gives the unit to
  the thread that has waited longest. The waiting list takes the place of the block queue in the scheduler's
  invariant: \<open>sem_ok m s xs\<close> says that the queues \<open>xs\<close> are consistent when \<open>xs ! 8\<close> is the waiting list of \<open>m\<close>.
\<close>

definition seen :: "semaphore \<Rightarrow> 'a thread_sched_scheme \<Rightarrow> 'a thread_sched_scheme" where
  "seen m s = s\<lparr>block_queue := waiting_threads m\<rparr>"

definition sem_ok :: "semaphore \<Rightarrow> 'a thread_sched_scheme \<Rightarrow> ptr list list \<Rightarrow> bool" where
  "sem_ok m s xs \<longleftrightarrow> sched_ok (seen m s) xs"

subsection \<open>Operations that leave the block queue alone\<close>

lemma seen_fields [simp]: "nodes (seen m s) = nodes s" "tcbs (seen m s) = tcbs s" "current_thread (seen m s) = current_thread s"
  "thread_queues (seen m s) = thread_queues s" "block_queue (seen m s) = waiting_threads m" "in_critical_section (seen m s) = in_critical_section s"
  "thr (seen m s) = thr s"
  by (simp_all add: seen_def thr_def fun_eq_iff)

lemma seen_reads [simp]: "ready_index p (seen m s) = ready_index p s" "READY_QUEUE i (seen m s) = READY_QUEUE i s"
  "thread_get_current_node (seen m s) = thread_get_current_node s"
  by (simp_all add: ready_index_def READY_QUEUE_def thread_get_current_node_def)

lemma upd_tcb_seen: "seen m s\<lparr>tcbs := f\<rparr> = seen m (s\<lparr>tcbs := f\<rparr>)"
  by (simp add: seen_def)

lemma ready_remove_seen: "ready_remove_node i p (seen m s) = map_option (seen m) (ready_remove_node i p s)"
  unfolding ready_remove_node_def seen_reads seen_fields
  by (cases "READY_QUEUE i s"; cases "dl_list_remove_node (the (READY_QUEUE i s)) p (nodes s)") (auto simp: seen_def)

lemma ready_insert_seen: "ready_insert_back i p (seen m s) = map_option (seen m) (ready_insert_back i p s)"
  unfolding ready_insert_back_def seen_reads seen_fields
  by (cases "READY_QUEUE i s"; cases "dl_list_insert_back_node (the (READY_QUEUE i s)) p (nodes s)") (auto simp: seen_def)

lemma first_non_empty_seen: "first_non_empty_loop n i (seen m s) = first_non_empty_loop n i s"
  by (induction n arbitrary: i) (simp_all cong: Option.bind_cong if_cong)

lemma choose_seen: "sched_get_first_non_empty (seen m s) = sched_get_first_non_empty s" "LIST_PEEK i (seen m s) = LIST_PEEK i s"
  by (simp_all add: sched_get_first_non_empty_def first_non_empty_seen LIST_PEEK_def)

subsection \<open>The running thread's node\<close>

lemma current_node_ok:
  assumes ok: "sched_ok s xs" and i: "i < 8" "xs ! i \<noteq> []" "thr s (hd (xs ! i)) = current_thread s"
  shows "thread_get_current_node s = Some (hd (xs ! i))"
proof -
  obtain j p ps t where j: "j < 8" "xs ! j = p # ps" "thr s p = current_thread s" "tcbs s (current_thread s) = Some t"
    "unat (thread_get_priority t) = j" "p \<noteq> 0" by (rule sched_current [OF ok]) (rule that; assumption)
  have "i = j" using current_top [OF ok i j(1)] j(2,3) by simp
  have q: "queues_ok s xs" using ok by (simp add: sched_ok_def)
  note r = ready_rep [OF q, of "thread_get_priority t", unfolded j(5), OF j(1)]
  have "dl_list_find_node (thread_queues s ! j) (current_thread s) (nodes s) = Some p"
    using dl_list_find_node_ok [OF r(2), of "current_thread s"] j(2,3) by (simp add: thr_def)
  then show ?thesis using r(1) j(2,4,5) \<open>i = j\<close> by (simp add: thread_get_current_node_def ready_index_def)
qed

subsection \<open>Waiting\<close>

lemma yield_blocked:
  \<comment> \<open>The running thread has left the ready queues: the next one is chosen and no queue is rotated.\<close>
  assumes q: "queues_ok (seen m s) xs" and t: "threads_ok (seen m s) None xs" and k: "k < 8" "xs ! k \<noteq> []"
    and c: "tcbs s (current_thread s) = Some c" "t_state c = THREAD_BLOCK" and crit: "in_critical_section s = 0"
  obtains s' where "thread_current_yield s = Some s'" "sem_ok m s' xs" "current_thread s' = thr s (hd (xs ! top_queue xs))"
proof -
  note g = get_first_non_empty_ok [OF q k, unfolded choose_seen seen_fields]
  obtain e t' where e: "tcbs s (thr s (hd (xs ! top_queue xs))) = Some e" "t_state e = THREAD_READY"
    "t' = seen m s\<lparr>tcbs := (tcbs s)(thr s (hd (xs ! top_queue xs)) \<mapsto> e\<lparr>t_state := THREAD_RUNNING\<rparr>),
       current_thread := thr s (hd (xs ! top_queue xs))\<rparr>" "sched_ok t' xs"
    using dispatch_ok [OF q t k] unfolding seen_fields by metis
  let ?s = "s\<lparr>tcbs := (tcbs s)(thr s (hd (xs ! top_queue xs)) \<mapsto> e\<lparr>t_state := THREAD_RUNNING\<rparr>),
       current_thread := thr s (hd (xs ! top_queue xs))\<rparr>"
  have "t' = seen m ?s" using e(3) by (simp add: seen_def)
  then have "sem_ok m ?s xs" using e(4) by (simp add: sem_ok_def)
  moreover have "thread_current_yield s = Some ?s"
    using crit c g e(1,2) by (simp add: thread_current_yield_def scheduler_thread_switch_def upd_tcb_def)
  ultimately show thesis using that by simp
qed

lemma semaphore_wait_taken:
  assumes ok: "sem_ok m s xs" and l: "0 <s sem_lock m"
  shows "semaphore_wait m s = Some (m\<lparr>sem_lock := sem_lock m - 1\<rparr>, s)"
proof -
  obtain i where i: "i < 8" "xs ! i \<noteq> []" "thr (seen m s) (hd (xs ! i)) = current_thread (seen m s)"
    using ok unfolding sem_ok_def sched_ok_def by blast
  then have "thread_get_current_node s = Some (hd (xs ! i))" using current_node_ok [OF ok [unfolded sem_ok_def] i] by simp
  then show ?thesis using l by (simp add: semaphore_wait_def word_sless_alt)
qed

lemma semaphore_wait_blocks:
  assumes ok: "sem_ok m s xs" and l: "sint (sem_lock m) \<le> 0" and crit: "in_critical_section s = 0"
    and i: "i < 8" "xs ! i = p # rest" "thr s p = current_thread s" and k: "k < 8" "xs[i := rest] ! k \<noteq> []"
  defines "ys \<equiv> xs[i := rest, 8 := xs ! 8 @ [p]]"
  obtains m' s' where "semaphore_wait m s = Some (m', s')" "sem_ok m' s' ys" "sem_lock m' = sem_lock m"
    "current_thread s' = thr s (hd (ys ! top_queue ys))"
proof -
  have so: "sched_ok (seen m s) xs" using ok by (simp add: sem_ok_def)
  have q: "queues_ok (seen m s) xs" and t: "threads_ok (seen m s) (Some (current_thread s)) xs" using so by (simp_all add: sched_ok_def)
  have len: "length xs = 10" using q by (simp add: queues_ok_def)
  have i10: "i < 10" and x: "xs ! i = [] @ p # rest" using i by simp_all
  have pin: "p \<in> set (xs ! i)" using i(2) by simp
  obtain e where e: "tcbs s (thr s p) = Some e" "thread_get_priority e < 8" "unat (thread_get_priority e) = i" "t_state e = THREAD_RUNNING"
    using threads_okD [OF t i10 pin] i(1,3) by (auto simp: expected_def)
  let ?e = "e\<lparr>t_state := THREAD_BLOCK\<rparr>"
  have pr: "thread_get_priority ?e = thread_get_priority e" by (simp add: thread_get_priority_def)
  define s1 where "s1 = s\<lparr>tcbs := (tcbs s)(thr s p \<mapsto> ?e)\<rparr>"
  have q1: "queues_ok (seen m s1) xs" using q by (simp add: s1_def upd_tcb_seen [symmetric] queues_tcbs)
  have i8: "unat (thread_get_priority e) < 8" "xs ! unat (thread_get_priority e) = [] @ p # rest" using e(3) i by simp_all
  obtain t2 where "ready_remove_node (thread_get_priority e) p (seen m s1) = Some t2" "queues_ok t2 (xs[i := rest])" "only_moved (seen m s1) t2"
    using ready_remove_node_ok [OF q1 i8] e(3) by auto
  then obtain s2 where s2: "ready_remove_node (thread_get_priority e) p s1 = Some s2" "queues_ok (seen m s2) (xs[i := rest])"
    "only_moved (seen m s1) (seen m s2)" by (auto simp: ready_remove_seen)
  note nm = removed_not_member [OF q i10 x, simplified]
  have pn: "nodes s p \<noteq> None" "p \<noteq> 0" using queues_members [OF q nm(2)] by simp_all
  have pn2: "nodes (seen m s2) p \<noteq> None" using same_data_None [of "nodes s1" "nodes s2" p] s2(3) pn(1) by (simp add: only_moved_def s1_def)
  have x8: "xs[i := rest] ! 8 = xs ! 8" using i by simp
  obtain t3 where t3: "block_insert_back p (seen m s2) = Some t3" "queues_ok t3 ys" "only_moved (seen m s2) t3"
    using block_insert_back_ok [OF s2(2) nm(1) pn(2) pn2] x8 unfolding ys_def by metis
  then obtain wl st where w: "dl_list_insert_back_node (waiting_threads m) p (nodes s2) = Some (wl, st)"
    "t3 = seen m s2\<lparr>block_queue := wl, nodes := st\<rparr>" by (auto simp: block_insert_back_def bind_eq_Some_conv)
  define m' where "m' = m\<lparr>waiting_threads := wl\<rparr>"
  define s3 where "s3 = s2\<lparr>nodes := st\<rparr>"
  have t3s: "t3 = seen m' s3" using w(2) by (simp add: seen_def m'_def s3_def)
  have om: "only_moved (seen m s1) (seen m' s3)" using only_moved_trans [OF s2(3) t3(3)] t3s by simp
  have thr3: "thr (seen m' s3) a = thr (seen m s) a" if "a \<in> members xs" for a
    using only_moved_thr [OF om, of a] queues_members [OF q1 that] by (simp add: s1_def thr_def)
  have rest3: "tcbs s3 = (tcbs s)(thr s p \<mapsto> ?e)" "current_thread s3 = current_thread s" "in_critical_section s3 = 0"
    using om crit by (simp_all add: only_moved_def s1_def)
  have tc3: "tcbs (seen m' s3) = (tcbs (seen m s))(thr (seen m s) p \<mapsto> ?e)" using rest3(1) by simp
  have ij: "i < 10" "(8 :: nat) < 10" "i \<noteq> 8" using i(1) by simp_all
  have ys: "ys = xs[i := [] @ rest, 8 := xs ! 8 @ [p]]" by (simp add: ys_def)
  have th3: "threads_ok (seen m' s3) None ys"
    unfolding ys by (rule threads_move [OF q t x ij thr3 tc3]) (use e(2) pr i(3) in \<open>simp_all add: expected_def\<close>)
  have ky: "ys ! k \<noteq> []" using k by (simp add: ys_def)
  have cur3: "tcbs s3 (current_thread s3) = Some ?e" "t_state ?e = THREAD_BLOCK" using rest3 i(3) by simp_all
  have q3: "queues_ok (seen m' s3) ys" using t3(2) t3s by simp
  obtain s4 where s4: "thread_current_yield s3 = Some s4" "sem_ok m' s4 ys" "current_thread s4 = thr s3 (hd (ys ! top_queue ys))"
    by (rule yield_blocked [OF q3 th3 k(1) ky cur3 rest3(3)]) (rule that; assumption)
  have "hd (ys ! top_queue ys) \<in> members xs"
  proof -
    have ly: "length ys = 10" using len by (simp add: ys_def)
    note tq = top_queue_ok [OF ly k(1) ky]
    then have "hd (ys ! top_queue ys) \<in> set (ys ! top_queue ys)" by simp
    then show ?thesis using members_mono [of "top_queue ys" ys] tq(1) members_move(1) [OF len ij x] unfolding ys by auto
  qed
  then have cur: "current_thread s4 = thr s (hd (ys ! top_queue ys))" using s4(3) thr3 by simp
  have cn: "thread_get_current_node s = Some p" using current_node_ok [OF so i(1)] i by simp
  obtain n where n: "nodes s p = Some n" "dn_data n = thr s p" using pn(1) by (auto simp: thr_def)
  have "semaphore_wait m s = Some (m', s4)"
    using cn n l e(1) s2(1) w(1) s4(1) pr
    by (simp add: semaphore_wait_def upd_tcb_def ready_index_def s1_def [symmetric]) (simp add: s1_def m'_def s3_def)
  then show thesis using that s4(2) cur by (simp add: m'_def)
qed

subsection \<open>Signalling\<close>

lemma semaphore_signal_free:
  assumes "sem_ok m s xs" and "xs ! 8 = []"
  shows "semaphore_signal m s = Some (m\<lparr>sem_lock := sem_lock m + 1\<rparr>, s)"
proof -
  have "dl_rep (nodes s) (waiting_threads m) (xs ! 8)"
    using ready_rep(3) [of "seen m s" xs 0] assms(1) by (simp add: sem_ok_def sched_ok_def)
  then have "dl_count (waiting_threads m) = 0" using dl_count_cases(1) assms(2) by fastforce
  then show ?thesis by (simp add: semaphore_signal_def)
qed

lemma semaphore_signal_wakes:
  assumes ok: "sem_ok m s xs" and x: "xs ! 8 = p # rest"
  obtains m' s' j where "semaphore_signal m s = Some (m', s')" "j < 8" "sem_ok m' s' (xs[8 := rest, j := xs ! j @ [p]])"
    "sem_lock m' = sem_lock m" "current_thread s' = current_thread s" "in_critical_section s' = in_critical_section s"
    "\<exists>e. tcbs s (thr s p) = Some e \<and> unat (thread_get_priority e) = j" "\<And>k. k \<in> members xs \<Longrightarrow> thr s' k = thr s k"
proof -
  have so: "sched_ok (seen m s) xs" using ok by (simp add: sem_ok_def)
  have q: "queues_ok (seen m s) xs" and t: "threads_ok (seen m s) (Some (current_thread s)) xs" using so by (simp_all add: sched_ok_def)
  have len: "length xs = 10" using q by (simp add: queues_ok_def)
  have pin: "p \<in> set (xs ! 8)" and x': "xs ! 8 = [] @ p # rest" using x by simp_all
  have rep: "dl_rep (nodes s) (waiting_threads m) (p # rest)" using ready_rep(3) [OF q, of 0] x by simp
  have c0: "dl_count (waiting_threads m) > 0" using dl_count_cases(1) [OF rep] by (simp add: word_gt_0)
  obtain e where e: "tcbs s (thr s p) = Some e" "thread_get_priority e < 8" "t_state e = THREAD_BLOCK"
    using threads_okD [OF t _ pin] by (auto simp: expected_def)
  let ?i = "unat (thread_get_priority e)" and ?e = "e\<lparr>t_state := THREAD_READY\<rparr>"
  have i: "?i < 8" using e(2) by (simp add: word_less_nat_alt)
  have pr: "thread_get_priority ?e = thread_get_priority e" by (simp add: thread_get_priority_def)
  note nm = removed_not_member [OF q _ x', simplified]
  have pn: "nodes s p \<noteq> None" "p \<noteq> 0" using queues_members [OF q nm(2)] by simp_all
  obtain l st where l: "dl_list_remove_front_node (waiting_threads m) (nodes s) = Some (p, l, st)" "dl_rep st l rest" "same_data (nodes s) st"
    "\<And>y. y \<notin> set (p # rest) \<Longrightarrow> st y = nodes s y" by (rule dl_remove_front_ok [OF rep]) (rule that; assumption)
  define m' where "m' = m\<lparr>waiting_threads := l\<rparr>"
  define s2 where "s2 = s\<lparr>nodes := st, tcbs := (tcbs s)(thr s p \<mapsto> ?e)\<rparr>"
  have h: "length (thread_queues (seen m s)) = 8" using q by (simp add: queues_ok_def)
  have "queues_ok (seen m s\<lparr>block_queue := l, nodes := st\<rparr>) (xs[8 := rest])"
    by (rule queues_update [where X = "{}", OF q _ hdrs_block [OF h]]) (use h l x in auto)
  then have q2: "queues_ok (seen m' s2) (xs[8 := rest])" by (simp add: seen_def s2_def m'_def queues_ok_def hdrs_def)
  have pn2: "nodes (seen m' s2) p \<noteq> None" using same_data_None [OF l(3)] pn(1) by (simp add: s2_def)
  have xi: "xs[8 := rest] ! ?i = xs ! ?i" using i by simp
  obtain t3 where "ready_insert_back (thread_get_priority e) p (seen m' s2) = Some t3"
    "queues_ok t3 (xs[8 := rest, ?i := xs ! ?i @ [p]])" "only_moved (seen m' s2) t3"
    using ready_insert_back_ok [OF q2 i nm(1) pn(2) pn2] xi by metis
  then obtain s3 where s3: "ready_insert_back (thread_get_priority e) p s2 = Some s3"
    "queues_ok (seen m' s3) (xs[8 := rest, ?i := xs ! ?i @ [p]])" "only_moved (seen m' s2) (seen m' s3)" by (auto simp: ready_insert_seen)
  have sd: "same_data (nodes s) (nodes s3)" using l(3) s3(3) by (auto simp: only_moved_def s2_def intro: same_data_trans)
  have thr3: "thr (seen m' s3) k = thr (seen m s) k" if "k \<in> members xs" for k
    using same_data_thr [OF sd, of k] queues_members [OF q that] by (simp add: thr_def)
  have rest3: "tcbs s3 = (tcbs s)(thr s p \<mapsto> ?e)" "current_thread s3 = current_thread s" "in_critical_section s3 = in_critical_section s"
    using s3(3) by (simp_all add: only_moved_def s2_def)
  have tc3: "tcbs (seen m' s3) = (tcbs (seen m s))(thr (seen m s) p \<mapsto> ?e)" using rest3(1) by simp
  have cur: "thr s p \<noteq> current_thread s" by (rule sched_current [OF so]) (use e in auto)
  have ij: "(8 :: nat) < 10" "?i < 10" "8 \<noteq> ?i" using i by simp_all
  have th3: "threads_ok (seen m' s3) (Some (current_thread s)) (xs[8 := [] @ rest, ?i := xs ! ?i @ [p]])"
    by (rule threads_move [OF q t x' ij thr3 tc3]) (use e(2) pr cur i in \<open>simp_all add: expected_def\<close>)
  obtain k where k: "k < 8" "xs ! k \<noteq> []" "thr s (hd (xs ! k)) = current_thread s" using so by (auto simp: sched_ok_def)
  have hk: "xs[8 := rest, ?i := xs ! ?i @ [p]] ! k \<noteq> [] \<and> hd (xs[8 := rest, ?i := xs ! ?i @ [p]] ! k) = hd (xs ! k)"
    using k(1,2) len by (cases "k = ?i") simp_all
  have "hd (xs ! k) \<in> members xs" using k(1,2) members_mono [of k xs] by auto
  then have "thr s3 (hd (xs ! k)) = current_thread s3" using thr3 rest3(2) k(3) by simp
  then have "sem_ok m' s3 (xs[8 := rest, ?i := xs ! ?i @ [p]])"
    unfolding sem_ok_def sched_ok_def using s3(2) th3 rest3(2) k(1) hk by (intro conjI exI [of _ k]) simp_all
  moreover have "semaphore_signal m s = Some (m', s3)"
  proof -
    obtain n where n: "st p = Some n" "dn_data n = thr s p" using pn(1) same_data_thr [OF l(3) pn(1)] same_data_None [OF l(3), of p] by (auto simp: thr_def)
    have "tcbs s2 (thr s p) = Some ?e" by (simp add: s2_def)
    then show ?thesis using c0 n e(1) l(1) s3(1) pr
      by (simp add: semaphore_signal_def upd_tcb_def ready_index_def s2_def [symmetric]) (simp add: s2_def m'_def)
  qed
  ultimately show thesis using that [of m' s3 ?i] i rest3(2,3) e(1) thr3 by (simp add: m'_def)
qed

subsection \<open>First come, first served\<close>

text \<open>
  C28. Waiting on a semaphore without units puts the running thread behind those that wait already and
  gives the processor to the first thread of the highest non-empty ready queue; the next signal gives the unit to the thread
  that has waited longest, which becomes ready at the end of its ready queue, whoever runs runs on, and the count
  of units is as it was.
\<close>

theorem semaphore_first_come_first_served:
  assumes "sem_ok m s xs" and "sint (sem_lock m) \<le> 0" and "in_critical_section s = 0"
    and "i < 8" and "xs ! i = p # rest" and "thr s p = current_thread s" and "k < 8" and "xs[i := rest] ! k \<noteq> []"
  defines "ys \<equiv> xs[i := rest, 8 := xs ! 8 @ [p]]"
  shows "\<exists>m1 s1 m2 s2 j. semaphore_wait m s = Some (m1, s1) \<and> sem_ok m1 s1 ys \<and> current_thread s1 = thr s (hd (ys ! top_queue ys)) \<and>
    semaphore_signal m1 s1 = Some (m2, s2) \<and> j < 8 \<and> sem_ok m2 s2 (ys[8 := tl (ys ! 8), j := ys ! j @ [hd (ys ! 8)]]) \<and>
    current_thread s2 = current_thread s1 \<and> sem_lock m2 = sem_lock m"
proof -
  obtain m1 s1 where 1: "semaphore_wait m s = Some (m1, s1)" "sem_ok m1 s1 ys" "sem_lock m1 = sem_lock m"
    "current_thread s1 = thr s (hd (ys ! top_queue ys))"
    using semaphore_wait_blocks [OF assms(1-8)] unfolding ys_def by metis
  have "length xs = 10" using assms(1) by (simp add: sem_ok_def sched_ok_def queues_ok_def)
  then have "ys ! 8 = hd (ys ! 8) # tl (ys ! 8)" by (simp add: ys_def)
  then obtain m2 s2 j where "semaphore_signal m1 s1 = Some (m2, s2)" "j < 8" "sem_ok m2 s2 (ys[8 := tl (ys ! 8), j := ys ! j @ [hd (ys ! 8)]])"
    "sem_lock m2 = sem_lock m1" "current_thread s2 = current_thread s1"
    using semaphore_signal_wakes [OF 1(2)] by metis
  with 1 show ?thesis by auto
qed

lemma semaphore_first_come_first_served_witness:
  "\<exists>m1 s1 m2 s2. semaphore_wait \<lparr>sem_lock = 0, waiting_threads = block_queue sample_sched\<rparr> sample_sched = Some (m1, s1) \<and>
     semaphore_signal m1 s1 = Some (m2, s2) \<and> sem_lock m2 = 0"
proof -
  let ?m = "\<lparr>sem_lock = 0, waiting_threads = block_queue sample_sched\<rparr>"
  have "sem_ok ?m sample_sched sample_lists" using sample_sched_ok by (simp add: sem_ok_def seen_def)
  moreover have "sample_lists ! 1 = 0x10 # [0x20]" "thr sample_sched 0x10 = current_thread sample_sched" "in_critical_section sample_sched = 0"
    "sample_lists[1 := [0x20]] ! 1 \<noteq> []"
    by (simp_all add: sample_lists_def thr_def sample_sched_def)
  ultimately show ?thesis using semaphore_first_come_first_served [of ?m sample_sched sample_lists 1 "0x10" "[0x20]" 1] by auto
qed

end
