(* ===== verification/Pipe.thy ===== *)
theory Pipe
  imports Semaphores Fifo Utility Kernel_Error
begin

text \<open>
  Pipes, pipe.cpp: a circular buffer of characters between two semaphores, one that counts the free places and one
  that counts the characters. A thread that has to wait stops in the middle of an operation; the model splits
  reading and writing there: \<open>pipe_take\<close> and \<open>pipe_put\<close> are what a thread does once it has its unit.
  Without waiting, pipes satisfy the \<open>fifo\<close> contract.
\<close>

subsection \<open>Operations\<close>

record pipe =
  p_buffer :: "u8 list"
  p_size :: u32
  read_pos :: u32
  write_pos :: u32
  lock_slots :: semaphore
  lock_messages :: semaphore

definition create_pipe :: "u8 list \<Rightarrow> u32 \<Rightarrow> semaphore \<Rightarrow> semaphore \<Rightarrow> pipe" where
  \<comment> \<open>The last two: what the uninitialised local holds.\<close>
  "create_pipe buf n raw1 raw2 = \<lparr>p_buffer = buf, p_size = n, read_pos = 0, write_pos = 0,
     lock_slots = semaphore_init n raw1, lock_messages = semaphore_init 0 raw2\<rparr>"

definition pipe_take :: "pipe \<Rightarrow> 'a thread_sched_scheme \<Rightarrow> (u8 \<times> pipe \<times> 'a thread_sched_scheme) option" where
  "pipe_take p s = do {
     c \<leftarrow> array_get (p_buffer p) (read_pos p);
     let r = read_pos p + 1;
     p \<leftarrow> (if p_size p = 0 then None else Some (p\<lparr>read_pos := r mod p_size p\<rparr>));
     (m, s) \<leftarrow> semaphore_signal (lock_slots p) s;
     Some (c, p\<lparr>lock_slots := m\<rparr>, s)
   }"

definition pipe_read :: "pipe \<Rightarrow> 'a thread_sched_scheme \<Rightarrow> (u8 option \<times> pipe \<times> 'a thread_sched_scheme) option" where
  \<comment> \<open>No character: the thread waits, and goes on with \<open>pipe_take\<close> when it runs again.\<close>
  "pipe_read p s = do {
     (m, s') \<leftarrow> semaphore_wait (lock_messages p) s;
     let p' = p\<lparr>lock_messages := m\<rparr>;
     if sint (sem_lock (lock_messages p)) \<le> 0 then Some (None, p', s')
     else do { (c, p', s') \<leftarrow> pipe_take p' s'; Some (Some c, p', s') }
   }"

definition pipe_put :: "u8 \<Rightarrow> pipe \<Rightarrow> 'a thread_sched_scheme \<Rightarrow> (pipe \<times> 'a thread_sched_scheme) option" where
  "pipe_put element p s = do {
     b \<leftarrow> array_set (p_buffer p) (write_pos p) element;
     let w = write_pos p + 1;
     p \<leftarrow> (if p_size p = 0 then None else Some (p\<lparr>p_buffer := b, write_pos := w mod p_size p\<rparr>));
     (m, s) \<leftarrow> semaphore_signal (lock_messages p) s;
     Some (p\<lparr>lock_messages := m\<rparr>, s)
   }"

definition pipe_write :: "u8 \<Rightarrow> pipe \<Rightarrow> 'a thread_sched_scheme \<Rightarrow> (bool \<times> pipe \<times> 'a thread_sched_scheme) option" where
  \<comment> \<open>False: the thread waits, and goes on with \<open>pipe_put\<close> when it runs again.\<close>
  "pipe_write element p s = do {
     (m, s') \<leftarrow> semaphore_wait (lock_slots p) s;
     let p' = p\<lparr>lock_slots := m\<rparr>;
     if sint (sem_lock (lock_slots p)) \<le> 0 then Some (False, p', s')
     else do { (p', s') \<leftarrow> pipe_put element p' s'; Some (True, p', s') }
   }"

datatype pipe_result = Pipe_Done error_t | Pipe_Waits nat virtual_addr

primrec pipe_read_loop :: "nat \<Rightarrow> virtual_addr \<Rightarrow> pipe \<Rightarrow> mem \<Rightarrow> 'a thread_sched_scheme \<Rightarrow> (pipe_result \<times> pipe \<times> mem \<times> 'a thread_sched_scheme) option" where
  \<comment> \<open>\<open>n\<close> characters to go, the next goes to \<open>a\<close>; \<open>Pipe_Waits\<close>: the thread waits there.\<close>
  "pipe_read_loop 0 a p m s = Some (Pipe_Done ERROR_OK, p, m, s)"
| "pipe_read_loop (Suc n) a p m s = do {
     (c, p, s) \<leftarrow> pipe_read p s;
     case c of None \<Rightarrow> Some (Pipe_Waits (Suc n) a, p, m, s)
     | Some c \<Rightarrow> pipe_read_loop n (a + 1) p (m(a := c)) s
   }"

definition pipe_vfs_read :: "u32 \<Rightarrow> virtual_addr \<Rightarrow> pipe \<Rightarrow> mem \<Rightarrow> 'a thread_sched_scheme \<Rightarrow> (pipe_result \<times> pipe \<times> mem \<times> 'a thread_sched_scheme) option" where
  "pipe_vfs_read count address p m s = pipe_read_loop (unat count) address p m s"

primrec pipe_write_loop :: "nat \<Rightarrow> virtual_addr \<Rightarrow> pipe \<Rightarrow> mem \<Rightarrow> 'a thread_sched_scheme \<Rightarrow> (pipe_result \<times> pipe \<times> 'a thread_sched_scheme) option" where
  "pipe_write_loop 0 a p m s = Some (Pipe_Done ERROR_OK, p, s)"
| "pipe_write_loop (Suc n) a p m s = do {
     (done', p, s) \<leftarrow> pipe_write (m a) p s;
     if done' then pipe_write_loop n (a + 1) p m s else Some (Pipe_Waits (Suc n) a, p, s)
   }"

definition pipe_vfs_write :: "u32 \<Rightarrow> virtual_addr \<Rightarrow> pipe \<Rightarrow> mem \<Rightarrow> 'a thread_sched_scheme \<Rightarrow> (pipe_result \<times> pipe \<times> 'a thread_sched_scheme) option" where
  "pipe_vfs_write count address p m s = pipe_write_loop (unat count) address p m s"

definition pipe_vfs_open :: error_t where
  "pipe_vfs_open = ERROR_OK"

subsection \<open>The characters in a pipe\<close>

definition messages :: "pipe \<Rightarrow> nat" where
  "messages p = unat (sem_lock (lock_messages p))"

definition pipe_contents :: "pipe \<Rightarrow> u8 list" where
  "pipe_contents p = map (\<lambda>k. p_buffer p ! ((unat (read_pos p) + k) mod unat (p_size p))) [0..<messages p]"

definition pipe_ok :: "pipe \<Rightarrow> bool" where
  "pipe_ok p \<longleftrightarrow> 0 < unat (p_size p) \<and> unat (p_size p) < 2 ^ 31 \<and> length (p_buffer p) = unat (p_size p) \<and>
     unat (read_pos p) < unat (p_size p) \<and> unat (write_pos p) = (unat (read_pos p) + messages p) mod unat (p_size p) \<and>
     messages p + unat (sem_lock (lock_slots p)) = unat (p_size p)"

definition idle :: "semaphore \<Rightarrow> 'a thread_sched_scheme \<Rightarrow> bool" where
  \<comment> \<open>Nobody waits.\<close>
  "idle m s \<longleftrightarrow> (\<exists>xs. sem_ok m s xs \<and> xs ! 8 = [])"

lemma sint_pos: "0 < unat a \<Longrightarrow> unat a < 2 ^ 31 \<Longrightarrow> 0 < sint a"
  for a :: u32
proof -
  assume a: "0 < unat a" "unat a < 2 ^ 31"
  have u: "int (unat a) = uint a" by simp
  have "int 0 < int (unat a)" "int (unat a) < int (2 ^ 31)" using a by (simp_all only: of_nat_less_iff)
  then have "0 < uint a" "uint a < 2 ^ 31" unfolding u by simp_all
  then show ?thesis by (simp add: sint_uint signed_take_bit_int_eq_self)
qed

lemma unat_pred_pos: "0 < unat a \<Longrightarrow> unat (a - 1) = unat a - 1"
  for a :: u32
  using unat_pred_u32 [of a] by (cases "a = 0") simp_all

lemma mod_distinct: "k < m \<Longrightarrow> m < N \<Longrightarrow> (r + k) mod N \<noteq> (r + m) mod (N :: nat)"
proof
  assume k: "k < m" "m < N" and "(r + k) mod N = (r + m) mod N"
  then have "N dvd (r + m) - (r + k)" using mod_eq_dvd_iff_nat [of "r + k" "r + m" N] by simp
  then show False using k by (auto dest: dvd_imp_le)
qed

lemma next_pos: "i < n \<Longrightarrow> n < 2 ^ 31 \<Longrightarrow> unat (a :: u32) = i \<Longrightarrow> unat (z :: u32) = n \<Longrightarrow> unat ((a + 1) mod z) = (i + 1) mod n"
  by (simp add: unat_mod unat_suc_u32)

lemma idle_signal: "idle m s \<Longrightarrow> semaphore_signal m s = Some (m\<lparr>sem_lock := sem_lock m + 1\<rparr>, s)"
  using semaphore_signal_free by (auto simp: idle_def)

lemma idle_wait: "idle m s \<Longrightarrow> 0 < sint (sem_lock m) \<Longrightarrow> semaphore_wait m s = Some (m\<lparr>sem_lock := sem_lock m - 1\<rparr>, s)"
  using semaphore_wait_taken by (auto simp: idle_def word_sless_alt)

lemma idle_lock [simp]: "idle (m\<lparr>sem_lock := v\<rparr>) s = idle m s"
  by (simp add: idle_def sem_ok_def seen_def)

lemma length_pipe_contents [simp]: "length (pipe_contents p) = messages p"
  by (simp add: pipe_contents_def)

lemma pipe_read_ok:
  assumes ok: "pipe_ok p" and i: "idle (lock_messages p) s" "idle (lock_slots p) s" and n: "0 < messages p"
  obtains p' where "pipe_read p s = Some (Some (hd (pipe_contents p)), p', s)" "pipe_ok p'" "pipe_contents p' = tl (pipe_contents p)"
    "idle (lock_messages p') s" "idle (lock_slots p') s" "p_size p' = p_size p"
proof -
  let ?N = "unat (p_size p)"
  have N: "0 < ?N" "?N < 2 ^ 31" "length (p_buffer p) = ?N" "unat (read_pos p) < ?N"
    "unat (write_pos p) = (unat (read_pos p) + messages p) mod ?N" "messages p + unat (sem_lock (lock_slots p)) = ?N"
    using ok by (simp_all add: pipe_ok_def)
  have z: "p_size p \<noteq> 0" using N(1) by auto
  have sp: "0 < sint (sem_lock (lock_messages p))" using n N by (intro sint_pos) (simp_all add: messages_def)
  have w: "semaphore_wait (lock_messages p) s = Some (lock_messages p\<lparr>sem_lock := sem_lock (lock_messages p) - 1\<rparr>, s)"
    by (rule idle_wait [OF i(1) sp])
  define p' where "p' = p\<lparr>lock_messages := lock_messages p\<lparr>sem_lock := sem_lock (lock_messages p) - 1\<rparr>,
    read_pos := (read_pos p + 1) mod p_size p, lock_slots := lock_slots p\<lparr>sem_lock := sem_lock (lock_slots p) + 1\<rparr>\<rparr>"
  have rn: "unat (read_pos p') = (unat (read_pos p) + 1) mod ?N" using next_pos [OF N(4,2)] by (simp add: p'_def)
  have mn: "messages p' = messages p - 1" using n by (simp add: p'_def messages_def unat_pred_pos)
  have sn: "unat (sem_lock (lock_slots p')) = unat (sem_lock (lock_slots p)) + 1" using N n by (simp add: p'_def unat_suc_u32)
  have hd: "hd (pipe_contents p) = p_buffer p ! unat (read_pos p)" using n N(4) by (simp add: pipe_contents_def hd_map)
  have r: "pipe_read p s = Some (Some (hd (pipe_contents p)), p', s)"
    unfolding pipe_read_def w using sp z N(3,4) hd idle_signal [of "lock_slots p" s] i(2) by (simp add: pipe_take_def Let_def p'_def)
  have "(unat (read_pos p') + (messages p - 1)) mod ?N = (unat (read_pos p) + messages p) mod ?N"
    unfolding rn mod_add_left_eq using n by simp
  then have ok': "pipe_ok p'" using N n rn sn mn by (simp add: pipe_ok_def) (simp add: p'_def)
  have "pipe_contents p' = tl (pipe_contents p)"
  proof (rule nth_equalityI)
    fix k assume "k < length (pipe_contents p')"
    then have k: "k < messages p - 1" using mn by simp
    have "(unat (read_pos p') + k) mod ?N = (unat (read_pos p) + Suc k) mod ?N" unfolding rn mod_add_left_eq by simp
    then show "pipe_contents p' ! k = tl (pipe_contents p) ! k" using k mn
      by (simp add: pipe_contents_def nth_tl) (simp add: p'_def)
  qed (simp add: mn)
  then show thesis using that [OF r ok'] i by (simp add: p'_def)
qed

lemma pipe_write_ok:
  assumes ok: "pipe_ok p" and i: "idle (lock_messages p) s" "idle (lock_slots p) s" and n: "messages p < unat (p_size p)"
  obtains p' where "pipe_write x p s = Some (True, p', s)" "pipe_ok p'" "pipe_contents p' = pipe_contents p @ [x]"
    "idle (lock_messages p') s" "idle (lock_slots p') s" "p_size p' = p_size p"
proof -
  let ?N = "unat (p_size p)"
  have N: "0 < ?N" "?N < 2 ^ 31" "length (p_buffer p) = ?N" "unat (read_pos p) < ?N"
    "unat (write_pos p) = (unat (read_pos p) + messages p) mod ?N" "messages p + unat (sem_lock (lock_slots p)) = ?N"
    using ok by (simp_all add: pipe_ok_def)
  have z: "p_size p \<noteq> 0" and wl: "unat (write_pos p) < ?N" using N(1,5) by auto
  have sp: "0 < sint (sem_lock (lock_slots p))" using n N by (intro sint_pos) simp_all
  have w: "semaphore_wait (lock_slots p) s = Some (lock_slots p\<lparr>sem_lock := sem_lock (lock_slots p) - 1\<rparr>, s)"
    by (rule idle_wait [OF i(2) sp])
  define p' where "p' = p\<lparr>lock_slots := lock_slots p\<lparr>sem_lock := sem_lock (lock_slots p) - 1\<rparr>, p_buffer := (p_buffer p)[unat (write_pos p) := x],
    write_pos := (write_pos p + 1) mod p_size p, lock_messages := lock_messages p\<lparr>sem_lock := sem_lock (lock_messages p) + 1\<rparr>\<rparr>"
  have wn: "unat (write_pos p') = (unat (write_pos p) + 1) mod ?N" using next_pos [OF wl N(2)] by (simp add: p'_def)
  have mn: "messages p' = messages p + 1" using n N(2) by (simp add: p'_def messages_def unat_suc_u32)
  have sn: "unat (sem_lock (lock_slots p')) = unat (sem_lock (lock_slots p)) - 1" using N n by (simp add: p'_def unat_pred_pos)
  have r: "pipe_write x p s = Some (True, p', s)"
    unfolding pipe_write_def w using sp z N(3) wl idle_signal [of "lock_messages p" s] i(1) by (simp add: pipe_put_def Let_def p'_def)
  have "unat (write_pos p') = (unat (read_pos p') + messages p') mod ?N"
    unfolding wn mn using N(5) by (simp add: p'_def mod_Suc_eq)
  then have ok': "pipe_ok p'" using N n sn mn by (simp add: pipe_ok_def) (simp add: p'_def)
  have "pipe_contents p' = pipe_contents p @ [x]"
  proof (rule nth_equalityI)
    fix k assume "k < length (pipe_contents p')"
    then have k: "k \<le> messages p" using mn by simp
    show "pipe_contents p' ! k = (pipe_contents p @ [x]) ! k"
    proof (cases "k = messages p")
      case True
      then show ?thesis using N(1,3,5) by (simp add: pipe_contents_def mn nth_append) (simp add: p'_def)
    next
      case False
      then have "(unat (read_pos p) + k) mod ?N \<noteq> (unat (read_pos p) + messages p) mod ?N"
        using k n by (intro mod_distinct) simp_all
      then show ?thesis using False k N(5) by (simp add: pipe_contents_def mn nth_append) (simp add: p'_def)
    qed
  qed (simp add: mn)
  then show thesis using that [OF r ok'] i by (simp add: p'_def)
qed

subsection \<open>Operations that do not wait\<close>

type_synonym 'a pipe_state = "pipe \<times> 'a thread_sched_scheme"

definition write_now :: "u8 \<Rightarrow> 'a pipe_state \<Rightarrow> (bool \<times> 'a pipe_state) option" where
  \<comment> \<open>A write by a thread that calls it only when it would not wait; the next ones likewise.\<close>
  "write_now x = (\<lambda>(p, s). if sint (sem_lock (lock_slots p)) \<le> 0 then Some (False, p, s) else pipe_write x p s)"

definition read_now :: "'a pipe_state \<Rightarrow> (bool \<times> 'a pipe_state) option" where
  "read_now = (\<lambda>(p, s). if sint (sem_lock (lock_messages p)) \<le> 0 then Some (False, p, s)
     else map_option (\<lambda>(_, p, s). (True, p, s)) (pipe_read p s))"

definition next_char :: "'a pipe_state \<Rightarrow> u8 option" where
  \<comment> \<open>The character \<open>read_now\<close> delivers.\<close>
  "next_char = (\<lambda>(p, s). if sint (sem_lock (lock_messages p)) \<le> 0 then Some 0
     else Option.bind (pipe_read p s) (\<lambda>(c, _, _). c))"

definition pipe_inv :: "'a pipe_state \<Rightarrow> bool" where
  "pipe_inv = (\<lambda>(p, s). pipe_ok p \<and> idle (lock_messages p) s \<and> idle (lock_slots p) s)"

lemma sint_zero: "unat a = 0 \<Longrightarrow> sint a \<le> 0"
  for a :: u32
  by (simp add: unat_eq_zero)

lemma empty_waits:
  assumes "pipe_ok p"
  shows "sint (sem_lock (lock_messages p)) \<le> 0 \<longleftrightarrow> messages p = 0" and "sint (sem_lock (lock_slots p)) \<le> 0 \<longleftrightarrow> messages p = unat (p_size p)"
proof -
  have "unat (sem_lock (lock_messages p)) < 2 ^ 31" "unat (sem_lock (lock_slots p)) < 2 ^ 31"
    using assms by (auto simp: pipe_ok_def messages_def)
  then show "sint (sem_lock (lock_messages p)) \<le> 0 \<longleftrightarrow> messages p = 0" "sint (sem_lock (lock_slots p)) \<le> 0 \<longleftrightarrow> messages p = unat (p_size p)"
    using sint_pos [of "sem_lock (lock_messages p)"] sint_zero [of "sem_lock (lock_messages p)"]
      sint_pos [of "sem_lock (lock_slots p)"] sint_zero [of "sem_lock (lock_slots p)"] assms
    by (fastforce simp: messages_def pipe_ok_def)+
qed

interpretation pipe_fifo: fifo "pipe_inv :: 'a pipe_state \<Rightarrow> bool" "\<lambda>(p, s). pipe_contents p" write_now read_now next_char
  "\<lambda>(p, s). sem_lock (lock_messages p) = 0"
proof (unfold_locales, goal_cases)
  case (1 st x)
  obtain p and s :: "'a thread_sched_scheme" where st: "st = (p, s)" by (cases st)
  have ok: "pipe_ok p" "idle (lock_messages p) s" "idle (lock_slots p) s" using 1 by (simp_all add: pipe_inv_def st)
  then have le: "messages p \<le> unat (p_size p)" by (simp add: pipe_ok_def)
  show ?case
  proof (cases "messages p = unat (p_size p)")
    case True
    then show ?thesis using empty_waits(2) [OF ok(1)] ok by (intro exI [of _ False] exI [of _ st]) (simp add: st write_now_def pipe_inv_def)
  next
    case False
    then obtain p' where "pipe_write x p s = Some (True, p', s)" "pipe_ok p'" "pipe_contents p' = pipe_contents p @ [x]"
      "idle (lock_messages p') s" "idle (lock_slots p') s" using pipe_write_ok [OF ok, of x] le by auto
    then show ?thesis using False empty_waits(2) [OF ok(1)] by (intro exI [of _ True] exI [of _ "(p', s)"]) (simp add: st write_now_def pipe_inv_def)
  qed
next
  case (2 st)
  obtain p and s :: "'a thread_sched_scheme" where st: "st = (p, s)" by (cases st)
  have ok: "pipe_ok p" "idle (lock_messages p) s" "idle (lock_slots p) s" using 2 by (simp_all add: pipe_inv_def st)
  show ?case
  proof (cases "messages p = 0")
    case True
    then have "pipe_contents p = []" by (simp add: pipe_contents_def)
    then show ?thesis using True empty_waits(1) [OF ok(1)] ok by (intro exI [of _ st]) (simp add: st read_now_def pipe_inv_def)
  next
    case False
    then obtain p' where "pipe_read p s = Some (Some (hd (pipe_contents p)), p', s)" "pipe_ok p'" "pipe_contents p' = tl (pipe_contents p)"
      "idle (lock_messages p') s" "idle (lock_slots p') s" using pipe_read_ok [OF ok] by auto
    moreover have "pipe_contents p \<noteq> []" using False length_pipe_contents [of p] by (metis list.size(3))
    ultimately show ?thesis using False empty_waits(1) [OF ok(1)] by (intro exI [of _ "(p', s)"]) (simp add: st read_now_def pipe_inv_def)
  qed
next
  case (3 st)
  obtain p and s :: "'a thread_sched_scheme" where st: "st = (p, s)" by (cases st)
  have ok: "pipe_ok p" "idle (lock_messages p) s" "idle (lock_slots p) s" using 3 by (simp_all add: pipe_inv_def st)
  show ?case
  proof (cases "messages p = 0")
    case True
    then have "pipe_contents p = []" by (simp add: pipe_contents_def)
    then show ?thesis using True empty_waits(1) [OF ok(1)] by (simp add: st next_char_def)
  next
    case False
    then obtain p' where "pipe_read p s = Some (Some (hd (pipe_contents p)), p', s)" using pipe_read_ok [OF ok] by auto
    then show ?thesis using False empty_waits(1) [OF ok(1)] by (simp add: st next_char_def)
  qed
next
  case (4 st)
  have "pipe_contents (fst st) = [] \<longleftrightarrow> messages (fst st) = 0" using length_pipe_contents [of "fst st"] by (metis length_0_conv)
  then show ?case unfolding messages_def unat_eq_0_iff by (cases st) simp
qed

lemma write_flag:
  assumes "pipe_ok p" and "pipe_write x p s = Some (b, q, t)"
  shows "b \<longleftrightarrow> length (pipe_contents p) < unat (p_size p)"
proof -
  have "messages p \<le> unat (p_size p)" using assms(1) by (simp add: pipe_ok_def)
  then show ?thesis
    using assms(2) empty_waits(2) [OF assms(1)] by (auto simp: pipe_write_def Let_def elim!: bind_SomeE split: if_splits)
qed

lemma read_flag:
  assumes "pipe_ok p" and "pipe_read p s = Some (c, q, t)"
  shows "c = None \<longleftrightarrow> pipe_contents p = []"
proof -
  have "pipe_contents p = [] \<longleftrightarrow> messages p = 0" using length_pipe_contents [of p] by (metis length_0_conv)
  then show ?thesis
    using assms(2) empty_waits(1) [OF assms(1)] by (auto simp: pipe_read_def Let_def elim!: bind_SomeE split: if_splits)
qed

interpretation pipe_bounded: bounded_fifo "pipe_inv :: 'a pipe_state \<Rightarrow> bool" "\<lambda>(p, s). pipe_contents p" write_now read_now next_char
  "\<lambda>(p, s). sem_lock (lock_messages p) = 0" "\<lambda>(p, s). unat (p_size p)"
proof (unfold_locales, goal_cases)
  case (1 st x b st')
  obtain p and s :: "'a thread_sched_scheme" where st: "st = (p, s)" by (cases st)
  have ok: "pipe_ok p" "idle (lock_messages p) s" "idle (lock_slots p) s" using 1(1) by (simp_all add: pipe_inv_def st)
  then have le: "messages p \<le> unat (p_size p)" by (simp add: pipe_ok_def)
  show ?case
  proof (cases "messages p = unat (p_size p)")
    case True
    then show ?thesis using 1(2) empty_waits(2) [OF ok(1)] by (auto simp: st write_now_def)
  next
    case False
    then obtain p' where "pipe_write x p s = Some (True, p', s)" "p_size p' = p_size p" using pipe_write_ok [OF ok, of x] le by auto
    then show ?thesis using 1(2) False le empty_waits(2) [OF ok(1)] by (auto simp: st write_now_def)
  qed
next
  case (2 st b st')
  obtain p and s :: "'a thread_sched_scheme" where st: "st = (p, s)" by (cases st)
  have ok: "pipe_ok p" "idle (lock_messages p) s" "idle (lock_slots p) s" using 2(1) by (simp_all add: pipe_inv_def st)
  show ?case
  proof (cases "messages p = 0")
    case True
    then show ?thesis using 2(2) empty_waits(1) [OF ok(1)] by (auto simp: st read_now_def)
  next
    case False
    then obtain p' where "pipe_read p s = Some (Some (hd (pipe_contents p)), p', s)" "p_size p' = p_size p" using pipe_read_ok [OF ok] by auto
    then show ?thesis using 2(2) False empty_waits(1) [OF ok(1)] by (auto simp: st read_now_def)
  qed
qed

lemma sem_ok_empty:
  \<comment> \<open>The queues are consistent whatever semaphore's waiting list, when it is empty, is looked at.\<close>
  assumes ok: "sem_ok m s xs" and e: "waiting_threads m' = \<lparr>dl_head = 0, dl_tail = 0, dl_count = 0\<rparr>"
  shows "sem_ok m' s (xs[8 := []])"
proof -
  have so: "queues_ok (seen m s) xs" "threads_ok (seen m s) (Some (current_thread s)) xs" using ok by (simp_all add: sem_ok_def sched_ok_def)
  have len: "length xs = 10" and tq: "length (thread_queues s) = 8" using so(1) by (simp_all add: queues_ok_def)
  have h: "hdrs (seen m' s) = (hdrs (seen m s))[8 := waiting_threads m']" by (simp add: hdrs_def tq list_update_append) (simp add: seen_def)
  have "queues_ok (seen m' s) (xs[8 := []])"
    by (rule queues_update [where X = "{}", OF so(1) _ h]) (use tq e in \<open>auto simp: dl_rep_def\<close>)
  moreover have sub: "set (xs[8 := []] ! i) \<subseteq> set (xs ! i)" if "i < 10" for i using len that by (cases "i = 8") auto
  then have "members (xs[8 := []]) \<subseteq> members xs" by (fastforce simp: members_def)
  then have "threads_ok (seen m' s) (Some (current_thread s)) (xs[8 := []])"
    using so(2) sub inj_on_subset unfolding threads_ok_def seen_fields by blast
  moreover obtain k where k: "k < 8" "xs ! k \<noteq> []" "thr s (hd (xs ! k)) = current_thread s" using ok by (auto simp: sem_ok_def sched_ok_def)
  ultimately show ?thesis unfolding sem_ok_def sched_ok_def by (intro conjI exI [of _ k]) simp_all
qed

subsection \<open>Properties\<close>

text \<open>
  C29. A pipe is a bounded first in, first out queue of characters. A writer waits exactly when the
  pipe is full, a reader exactly when it is empty. For every sequence of writes and reads, of which
  those that would have to wait are not begun, no operation faults and each is answered as by a list
  with room for \<^verbatim>\<open>size\<close> characters: a write goes to the back, a read takes the front, and what is in the
  pipe at the end is that list. The pipe stays consistent with its semaphores and keeps its size.
\<close>

theorem pipe_first_in_first_out:
  assumes "pipe_ok p" and "idle (lock_messages p) s" and "idle (lock_slots p) s"
  shows "(\<forall>x b q t. pipe_write x p s = Some (b, q, t) \<longrightarrow> b = (length (pipe_contents p) < unat (p_size p))) \<and>
    (\<forall>c q t. pipe_read p s = Some (c, q, t) \<longrightarrow> (c = None) = (pipe_contents p = [])) \<and>
    (\<exists>p' s'. fifo_answers write_now next_char read_now ops (p, s) =
        Some (fst (bounded_answers (unat (p_size p)) ops (pipe_contents p)), p', s') \<and>
      pipe_contents p' = snd (bounded_answers (unat (p_size p)) ops (pipe_contents p)) \<and> pipe_ok p' \<and> p_size p' = p_size p)"
proof (intro conjI)
  have "pipe_inv (p, s)" using assms by (simp add: pipe_inv_def)
  from pipe_bounded.answers_bounded [OF this, of ops]
  show "\<exists>p' s'. fifo_answers write_now next_char read_now ops (p, s) =
        Some (fst (bounded_answers (unat (p_size p)) ops (pipe_contents p)), p', s') \<and>
      pipe_contents p' = snd (bounded_answers (unat (p_size p)) ops (pipe_contents p)) \<and> pipe_ok p' \<and> p_size p' = p_size p"
    by (auto simp: pipe_inv_def word_unat_eq_iff [of "p_size _"])
qed (use write_flag [OF assms(1)] read_flag [OF assms(1)] in blast)+

definition sample_pipe :: pipe where
  "sample_pipe = create_pipe [1, 2, 3, 4] 4 \<lparr>sem_lock = 9, waiting_threads = empty_list\<rparr> \<lparr>sem_lock = 9, waiting_threads = empty_list\<rparr>"

lemma sample_pipe_ok: "pipe_ok sample_pipe" "messages sample_pipe = 0" "pipe_contents sample_pipe = []"
  by (simp_all add: sample_pipe_def create_pipe_def pipe_ok_def messages_def pipe_contents_def semaphore_init_def)

lemma pipe_first_in_first_out_witness:
  "\<exists>p' s'. fifo_answers write_now next_char read_now [Deq, Enq 7, Enq 8, Deq, Enq 9, Enq 10, Enq 11, Enq 12, Deq] (sample_pipe, sample_sched) =
     Some ([Refused, Accepted, Accepted, Delivered 7, Accepted, Accepted, Accepted, Refused, Delivered 8], p', s') \<and> pipe_contents p' = [9, 10, 11]"
proof -
  have "idle m sample_sched" if "waiting_threads m = \<lparr>dl_head = 0, dl_tail = 0, dl_count = 0\<rparr>" for m
  proof -
    have "sem_ok \<lparr>sem_lock = 0, waiting_threads = block_queue sample_sched\<rparr> sample_sched sample_lists"
      using sample_sched_ok by (simp add: sem_ok_def seen_def)
    from sem_ok_empty [OF this that] show ?thesis by (auto simp: idle_def sample_lists_def)
  qed
  then have "idle (lock_messages sample_pipe) sample_sched" "idle (lock_slots sample_pipe) sample_sched"
    by (simp_all add: sample_pipe_def create_pipe_def semaphore_init_def dl_list_init_def empty_list_def)
  moreover have "unat (p_size sample_pipe) = 4" by (simp add: sample_pipe_def create_pipe_def)
  ultimately show ?thesis
    using pipe_first_in_first_out [OF sample_pipe_ok(1), of sample_sched "[Deq, Enq 7, Enq 8, Deq, Enq 9, Enq 10, Enq 11, Enq 12, Deq]"]
    by (auto simp: sample_pipe_ok(3))
qed

text \<open>
  A thread that reads from an empty pipe waits, and gets the next character written: the reader
  leaves the ready queues and another thread runs; when that one writes a character it runs on, the reader is ready
  again at the end of its ready queue, and once it runs it takes exactly that character and the pipe is empty again.
\<close>

theorem pipe_reader_gets_next_write:
  assumes ok: "pipe_ok p" and e: "messages p = 0" and q: "sem_ok (lock_messages p) s xs" "xs ! 8 = []"
    and slots: "waiting_threads (lock_slots p) = \<lparr>dl_head = 0, dl_tail = 0, dl_count = 0\<rparr>" and crit: "in_critical_section s = 0"
    and i: "i < 8" "xs ! i = t # rest" "thr s t = current_thread s" and k: "k < 8" "xs[i := rest] ! k \<noteq> []"
  shows "\<exists>p1 s1 p2 s2 p3 j. pipe_read p s = Some (None, p1, s1) \<and> sem_ok (lock_messages p1) s1 (xs[i := rest, 8 := [t]]) \<and>
    pipe_write c p1 s1 = Some (True, p2, s2) \<and> j < 8 \<and> sem_ok (lock_messages p2) s2 (xs[i := rest, j := xs[i := rest] ! j @ [t]]) \<and>
    current_thread s2 = current_thread s1 \<and> pipe_take p2 s2 = Some (c, p3, s2) \<and> pipe_ok p3 \<and> pipe_contents p3 = []"
proof -
  let ?N = "unat (p_size p)" and ?ys = "xs[i := rest, 8 := [t]]"
  have N: "0 < ?N" "?N < 2 ^ 31" "length (p_buffer p) = ?N" "unat (read_pos p) < ?N"
    "write_pos p = read_pos p" "unat (sem_lock (lock_slots p)) = ?N" "sem_lock (lock_messages p) = 0"
    using ok e by (simp_all add: pipe_ok_def messages_def word_unat_eq_iff)
  have len: "length xs = 10" using q(1) by (simp add: sem_ok_def sched_ok_def queues_ok_def)
  have l0: "sint (sem_lock (lock_messages p)) \<le> 0" using N(7) by simp
  obtain m1 s1 where 1: "semaphore_wait (lock_messages p) s = Some (m1, s1)" "sem_ok m1 s1 ?ys" "sem_lock m1 = 0"
    using semaphore_wait_blocks [OF q(1) l0 crit i k] unfolding q(2) N(7) append_Nil by metis
  let ?p1 = "p\<lparr>lock_messages := m1\<rparr>"
  have r: "pipe_read p s = Some (None, ?p1, s1)" using 1(1) l0 by (simp add: pipe_read_def)
  have id: "idle (lock_slots p) s1" using sem_ok_empty [OF 1(2) slots] len by (auto simp: idle_def)
  have sp: "0 < sint (sem_lock (lock_slots p))" using N by (intro sint_pos) simp_all
  have w: "semaphore_wait (lock_slots p) s1 = Some (lock_slots p\<lparr>sem_lock := sem_lock (lock_slots p) - 1\<rparr>, s1)"
    by (rule idle_wait [OF id sp])
  have y8: "?ys ! 8 = t # []" using len by simp
  obtain m2 s2 j where 2: "semaphore_signal m1 s1 = Some (m2, s2)" "j < 8" "sem_ok m2 s2 (?ys[8 := [], j := ?ys ! j @ [t]])"
    "sem_lock m2 = sem_lock m1" "current_thread s2 = current_thread s1"
    by (rule semaphore_signal_wakes [OF 1(2) y8]) (rule that; assumption)
  have zs: "?ys[8 := [], j := ?ys ! j @ [t]] = xs[i := rest, j := xs[i := rest] ! j @ [t]]"
  proof -
    have "?ys ! j = xs[i := rest] ! j" using 2(2) by simp
    moreover have "xs[8 := []] = xs" using q(2) by (metis list_update_id)
    then have "?ys[8 := []] = xs[i := rest]" using i(1) by (simp add: list_update_swap [of i 8])
    ultimately show ?thesis by simp
  qed
  have z: "p_size p \<noteq> 0" using N(1) by auto
  define p2 where "p2 = p\<lparr>lock_messages := m2, lock_slots := lock_slots p\<lparr>sem_lock := sem_lock (lock_slots p) - 1\<rparr>,
    p_buffer := (p_buffer p)[unat (read_pos p) := c], write_pos := (read_pos p + 1) mod p_size p\<rparr>"
  have wr: "pipe_write c ?p1 s1 = Some (True, p2, s2)"
    using w sp z N(3,4,5) 2(1) by (simp add: pipe_write_def pipe_put_def Let_def p2_def)
  have id2: "idle (lock_slots p2) s2" using sem_ok_empty [OF 2(3), of "lock_slots p"] slots len
    by (auto simp: idle_def p2_def sem_ok_def seen_def)
  define p3 where "p3 = p2\<lparr>read_pos := (read_pos p + 1) mod p_size p, lock_slots := lock_slots p\<rparr>"
  have tk: "pipe_take p2 s2 = Some (c, p3, s2)"
    using idle_signal [OF id2] z N(3,4) by (simp add: pipe_take_def Let_def p3_def) (simp add: p2_def)
  have "messages p3 = 0" using 1(3) 2(4) by (simp add: p3_def p2_def messages_def)
  moreover have "unat (read_pos p3) < ?N" using next_pos [OF N(4,2)] N(1) by (simp add: p3_def)
  ultimately have "pipe_ok p3" using N by (simp add: pipe_ok_def) (simp add: p3_def p2_def)
  moreover have "pipe_contents p3 = []" using \<open>messages p3 = 0\<close> by (simp add: pipe_contents_def)
  ultimately show ?thesis using r 1(2) wr 2(2,3,5) tk zs
    by (intro exI [of _ ?p1] exI [of _ s1] exI [of _ p2] exI [of _ s2] exI [of _ p3] exI [of _ j]) (simp add: p2_def)
qed

lemma pipe_reader_gets_next_write_witness:
  "\<exists>p1 s1 p2 s2 p3. pipe_read sample_pipe sample_sched = Some (None, p1, s1) \<and> pipe_write 65 p1 s1 = Some (True, p2, s2) \<and>
     pipe_take p2 s2 = Some (65, p3, s2)"
proof -
  have e: "waiting_threads (lock_messages sample_pipe) = \<lparr>dl_head = 0, dl_tail = 0, dl_count = 0\<rparr>"
    "waiting_threads (lock_slots sample_pipe) = \<lparr>dl_head = 0, dl_tail = 0, dl_count = 0\<rparr>"
    by (simp_all add: sample_pipe_def create_pipe_def semaphore_init_def dl_list_init_def empty_list_def)
  have "sem_ok \<lparr>sem_lock = 0, waiting_threads = block_queue sample_sched\<rparr> sample_sched sample_lists"
    using sample_sched_ok by (simp add: sem_ok_def seen_def)
  from sem_ok_empty [OF this e(1)] have q: "sem_ok (lock_messages sample_pipe) sample_sched (sample_lists[8 := []])" .
  have "sample_lists[8 := []] ! 8 = []" "sample_lists[8 := []] ! 1 = 0x10 # [0x20]" "thr sample_sched 0x10 = current_thread sample_sched"
    "in_critical_section sample_sched = 0" "sample_lists[8 := [], 1 := [0x20]] ! 1 \<noteq> []"
    by (simp_all add: sample_lists_def thr_def sample_sched_def)
  from pipe_reader_gets_next_write [OF sample_pipe_ok(1,2) q this(1) e(2) this(4) _ this(2,3) _ this(5), where c = 65] show ?thesis by auto
qed

end
