(* ===== verification/Descriptors.thy ===== *)
theory Descriptors
  imports Prelude
begin

text \<open>
  The processor's descriptor tables, descriptor_tables.c: segments, interrupt gates and the task state segment.
  \<open>segment_base\<close>, \<open>segment_limit\<close> and \<open>gate_target\<close> read an entry the way the processor does. The addresses of the
  tables and of the assembly entry points are arguments; an index outside a table is \<open>None\<close>.
\<close>

subsection \<open>Data\<close>

record gdt_entry =
  limit_low :: u16
  base_low :: u16
  base_middle :: u8
  seg_access :: u8
  granularity :: u8
  base_high :: u8

record idt_entry =
  offset_low :: u16
  selector :: u16
  always0 :: u8
  gate_flags :: u8
  offset_high :: u16

record table_ptr =
  tp_limit :: u16
  tp_base :: u32

record tss_entry =
  prevTss :: u32
  esp0 :: u32
  ss0 :: u32
  esp1 :: u32
  ss1 :: u32
  esp2 :: u32
  ss2 :: u32
  tss_cr3 :: u32
  tss_regs :: "u32 list" \<comment> \<open>eip, eflags, eax, ecx, edx, ebx, esp, ebp, esi, edi\<close>
  tss_es :: u32
  tss_cs :: u32
  tss_ss :: u32
  tss_ds :: u32
  tss_fs :: u32
  tss_gs :: u32
  tss_ldt :: u32
  tss_trap :: u16
  tss_iomap :: u16

record tables =
  gdt_entries :: "gdt_entry list"
  gdt_ptr :: table_ptr
  idt_entries :: "idt_entry list"
  idt_ptr :: table_ptr
  tss :: tss_entry

subsection \<open>Operations\<close>

definition gdt_set_gate :: "u16 \<Rightarrow> u32 \<Rightarrow> u32 \<Rightarrow> u8 \<Rightarrow> u8 \<Rightarrow> 'a tables_scheme \<Rightarrow> 'a tables_scheme option" where
  "gdt_set_gate num base limit access gran s = do {
     e \<leftarrow> array_get (gdt_entries s) num;
     let e = e\<lparr>base_low := ucast (base AND 0x0000FFFF), base_middle := ucast (drop_bit 16 base AND 0xFF),
       base_high := ucast (drop_bit 24 base AND 0xFF), limit_low := ucast (limit AND 0xFFFF),
       granularity := ucast (drop_bit 16 limit AND 0x0F)\<rparr>;
     let e = e\<lparr>granularity := granularity e OR (gran AND 0xF0), seg_access := access\<rparr>;
     es \<leftarrow> array_set (gdt_entries s) num e;
     Some (s\<lparr>gdt_entries := es\<rparr>)
   }"

definition idt_set_gate :: "u8 \<Rightarrow> u32 \<Rightarrow> u16 \<Rightarrow> u8 \<Rightarrow> 'a tables_scheme \<Rightarrow> 'a tables_scheme option" where
  "idt_set_gate num base sel flags s = do {
     e \<leftarrow> array_get (idt_entries s) num;
     let e = e\<lparr>offset_low := ucast (base AND 0x0000FFFF), offset_high := ucast (drop_bit 16 base AND 0xFFFF),
       selector := sel, always0 := 0, gate_flags := flags\<rparr>;
     es \<leftarrow> array_set (idt_entries s) num e;
     Some (s\<lparr>idt_entries := es\<rparr>)
   }"

definition init_gdt :: "u32 \<Rightarrow> 'a tables_scheme \<Rightarrow> 'a tables_scheme option" where
  \<comment> \<open>\<open>addr\<close>: where the table lies. Loading the register is left out.\<close>
  "init_gdt addr s = do {
     let s = s\<lparr>gdt_ptr := \<lparr>tp_limit = 6 * 8 - 1, tp_base = addr\<rparr>\<rparr>;
     s \<leftarrow> gdt_set_gate 0 0 0 0 0 s;
     s \<leftarrow> gdt_set_gate 1 0 0xFFFFFFFF 0x9A 0xCF s;
     s \<leftarrow> gdt_set_gate 2 0 0xFFFFFFFF 0x92 0xCF s;
     s \<leftarrow> gdt_set_gate 3 0 0xFFFFFFFF 0xFA 0xCF s;
     gdt_set_gate 4 0 0xFFFFFFFF 0xF2 0xCF s
   }"

definition zero_tss :: tss_entry where
  "zero_tss = \<lparr>prevTss = 0, esp0 = 0, ss0 = 0, esp1 = 0, ss1 = 0, esp2 = 0, ss2 = 0, tss_cr3 = 0, tss_regs = replicate 10 0,
     tss_es = 0, tss_cs = 0, tss_ss = 0, tss_ds = 0, tss_fs = 0, tss_gs = 0, tss_ldt = 0, tss_trap = 0, tss_iomap = 0\<rparr>"

definition init_tss :: "u32 \<Rightarrow> 'a tables_scheme \<Rightarrow> 'a tables_scheme option" where
  \<comment> \<open>\<open>base\<close>: where the segment lies; its structure takes 104 bytes. Loading the task register is left out.\<close>
  "init_tss base s = do {
     s \<leftarrow> gdt_set_gate 5 base (base + 104) 0xE9 0 s;
     Some (s\<lparr>tss := zero_tss\<lparr>tss_cs := 0x0b, tss_ss := 0x13, tss_es := 0x13, tss_ds := 0x13, tss_fs := 0x13, tss_gs := 0x13\<rparr>\<rparr>)
   }"

definition set_tss :: "u32 \<Rightarrow> u32 \<Rightarrow> 'a tables_scheme \<Rightarrow> 'a tables_scheme" where
  "set_tss kernel_stack kernel_esp s = s\<lparr>tss := tss s\<lparr>ss0 := kernel_stack, esp0 := kernel_esp\<rparr>\<rparr>"

primrec set_gates :: "(u8 \<times> u32 \<times> u8) list \<Rightarrow> 'a tables_scheme \<Rightarrow> 'a tables_scheme option" where
  \<comment> \<open>A sequence of calls with selector 8: vector, entry point and flags of each.\<close>
  "set_gates [] s = Some s"
| "set_gates (g # gs) s = do { s \<leftarrow> idt_set_gate (fst g) (fst (snd g)) 0x08 (snd (snd g)) s; set_gates gs s }"

definition init_idt :: "u32 \<Rightarrow> (nat \<Rightarrow> u32) \<Rightarrow> (nat \<Rightarrow> u32) \<Rightarrow> u32 \<Rightarrow> 'a tables_scheme \<Rightarrow> 'a tables_scheme option" where
  \<comment> \<open>\<open>var\<close>: the address of the variable \<^verbatim>\<open>idt_entries\<close> itself; \<open>isr\<close>, \<open>irq\<close>, \<open>isr128\<close>: the entry points.\<close>
  "init_idt var isr irq isr128 s = do {
     let s = s\<lparr>idt_ptr := \<lparr>tp_limit = 256 * 8 - 1, tp_base = var\<rparr>\<rparr>;
     s \<leftarrow> set_gates (map (\<lambda>n. (of_nat n, isr n, 0x8E)) [0..<32]) s;
     s \<leftarrow> set_gates [(0x80, isr128, 0xEE)] s;
     set_gates (map (\<lambda>n. (of_nat (32 + n), irq n, 0x8E)) [0..<16]) s
   }"

definition init_descriptor_tables :: "u32 \<Rightarrow> u32 \<Rightarrow> u32 \<Rightarrow> (nat \<Rightarrow> u32) \<Rightarrow> (nat \<Rightarrow> u32) \<Rightarrow> u32 \<Rightarrow> idt_entry list \<Rightarrow>
    'a tables_scheme \<Rightarrow> 'a tables_scheme option" where
  \<comment> \<open>\<open>idt_base\<close>: the loader's table. The handlers entered into the table of handlers belong to Interrupts.\<close>
  "init_descriptor_tables gdt_addr tss_addr idt_var isr irq isr128 idt_base s = do {
     let s = s\<lparr>idt_entries := idt_base\<rparr>;
     s \<leftarrow> init_gdt gdt_addr s;
     s \<leftarrow> init_idt idt_var isr irq isr128 s;
     init_tss tss_addr s
   }"

subsection \<open>What the processor reads\<close>

definition segment_base :: "gdt_entry \<Rightarrow> u32" where
  "segment_base e = ucast (base_low e) OR push_bit 16 (ucast (base_middle e)) OR push_bit 24 (ucast (base_high e))"

definition segment_limit :: "gdt_entry \<Rightarrow> u32" where
  \<comment> \<open>20 bits, in bytes or in pages.\<close>
  "segment_limit e = (let l = ucast (limit_low e) OR push_bit 16 (ucast (granularity e AND 0x0F)) in
     if bit (granularity e) 7 then push_bit 12 l OR 0xFFF else l)"

definition segment_level :: "gdt_entry \<Rightarrow> u8" where
  "segment_level e = drop_bit 5 (seg_access e) AND 3"

definition gate_target :: "idt_entry \<Rightarrow> u32" where
  "gate_target e = ucast (offset_low e) OR push_bit 16 (ucast (offset_high e))"

definition gate_level :: "idt_entry \<Rightarrow> u8" where
  "gate_level e = drop_bit 5 (gate_flags e) AND 3"

lemma split_base: "(ucast (ucast (b AND 0xFFFF) :: u16) OR push_bit 16 (ucast (ucast (drop_bit 16 b AND 0xFF) :: u8)) OR
    push_bit 24 (ucast (ucast (drop_bit 24 b AND 0xFF) :: u8)) :: u32) = b"
proof (rule bit_word_eqI)
  fix n :: nat assume "n < LENGTH(32)"
  moreover have m: "(0xFFFF :: u32) = mask 16" "(0xFF :: u32) = mask 8" by (simp_all add: mask_eq_exp_minus_1)
  ultimately show "bit (ucast (ucast (b AND 0xFFFF) :: u16) OR push_bit 16 (ucast (ucast (drop_bit 16 b AND 0xFF) :: u8)) OR
    push_bit 24 (ucast (ucast (drop_bit 24 b AND 0xFF) :: u8)) :: u32) n = bit b n"
    unfolding m by (cases "n < 16"; cases "n < 24") (auto simp: bit_simps)
qed

lemma split_offset: "(ucast (ucast (b AND 0xFFFF) :: u16) OR push_bit 16 (ucast (ucast (drop_bit 16 b AND 0xFFFF) :: u16)) :: u32) = b"
proof (rule bit_word_eqI)
  fix n :: nat assume "n < LENGTH(32)"
  moreover have m: "(0xFFFF :: u32) = mask 16" by (simp add: mask_eq_exp_minus_1)
  ultimately show "bit (ucast (ucast (b AND 0xFFFF) :: u16) OR push_bit 16 (ucast (ucast (drop_bit 16 b AND 0xFFFF) :: u16)) :: u32) n = bit b n"
    unfolding m by (cases "n < 16") (auto simp: bit_simps)
qed

lemma split_limit: "(ucast (ucast (l AND 0xFFFF) :: u16) OR push_bit 16 (ucast ((ucast (drop_bit 16 l AND 0x0F) OR (g AND 0xF0)) AND 0x0F :: u8)) :: u32) = l AND 0xFFFFF"
proof (rule bit_word_eqI)
  fix n :: nat assume "n < LENGTH(32)"
  moreover have m: "(0xFFFF :: u32) = mask 16" "(0xFFFFF :: u32) = mask 20" "(0x0F :: u32) = mask 4" "(0x0F :: u8) = mask 4" "(0xF0 :: u8) = push_bit 4 (mask 4)"
    by (simp_all add: mask_eq_exp_minus_1 push_bit_eq_mult)
  ultimately show "bit (ucast (ucast (l AND 0xFFFF) :: u16) OR push_bit 16 (ucast ((ucast (drop_bit 16 l AND 0x0F) OR (g AND 0xF0)) AND 0x0F :: u8)) :: u32) n =
      bit (l AND 0xFFFFF) n"
    unfolding m by (cases "n < 16"; cases "n < 20") (auto simp: bit_simps)
qed

definition seg :: "u32 \<Rightarrow> u32 \<Rightarrow> u8 \<Rightarrow> u8 \<Rightarrow> gdt_entry" where
  \<comment> \<open>The entry \<open>gdt_set_gate\<close> writes.\<close>
  "seg b l a g = \<lparr>limit_low = ucast (l AND 0xFFFF), base_low = ucast (b AND 0x0000FFFF), base_middle = ucast (drop_bit 16 b AND 0xFF),
     seg_access = a, granularity = ucast (drop_bit 16 l AND 0x0F) OR (g AND 0xF0), base_high = ucast (drop_bit 24 b AND 0xFF)\<rparr>"

definition gate :: "u32 \<Rightarrow> u16 \<Rightarrow> u8 \<Rightarrow> idt_entry" where
  "gate b sel f = \<lparr>offset_low = ucast (b AND 0x0000FFFF), selector = sel, always0 = 0, gate_flags = f,
     offset_high = ucast (drop_bit 16 b AND 0xFFFF)\<rparr>"

lemma gdt_set_gate_eq:
  "unat n < length (gdt_entries s) \<Longrightarrow> gdt_set_gate n b l a g s = Some (s\<lparr>gdt_entries := (gdt_entries s)[unat n := seg b l a g]\<rparr>)"
  by (cases "gdt_entries s ! unat n") (simp add: gdt_set_gate_def Let_def seg_def)

lemma idt_set_gate_eq:
  "unat n < length (idt_entries s) \<Longrightarrow> idt_set_gate n b sel f s = Some (s\<lparr>idt_entries := (idt_entries s)[unat n := gate b sel f]\<rparr>)"
  by (cases "idt_entries s ! unat n") (simp add: idt_set_gate_def Let_def gate_def)

lemma segment_of_seg [simp]: "segment_base (seg b l a g) = b" "segment_level (seg b l a g) = drop_bit 5 a AND 3"
  "segment_limit (seg b l a g) = (if bit g 7 then push_bit 12 (l AND 0xFFFFF) OR 0xFFF else l AND 0xFFFFF)"
proof -
  have "(0x0F :: u32) = mask 4" "(0xF0 :: u8) = push_bit 4 (mask 4)" by (simp_all add: mask_eq_exp_minus_1 push_bit_eq_mult)
  then have "bit (granularity (seg b l a g)) 7 = bit g 7" by (simp add: seg_def bit_simps)
  then show "segment_limit (seg b l a g) = (if bit g 7 then push_bit 12 (l AND 0xFFFFF) OR 0xFFF else l AND 0xFFFFF)"
    unfolding segment_limit_def Let_def using split_limit [of l g] by (simp add: seg_def)
  show "segment_base (seg b l a g) = b" using split_base [of b] by (simp add: segment_base_def seg_def)
  show "segment_level (seg b l a g) = drop_bit 5 a AND 3" by (simp add: segment_level_def seg_def)
qed

lemma gate_of_gate [simp]: "gate_target (gate b sel f) = b" "selector (gate b sel f) = sel" "gate_flags (gate b sel f) = f"
  using split_offset [of b] by (simp_all add: gate_target_def gate_def)

subsection \<open>Initialisation\<close>

definition gate_is :: "idt_entry \<Rightarrow> u32 \<Rightarrow> u8 \<Rightarrow> bool" where
  \<comment> \<open>The gate leads to this entry point in the kernel's code segment, and has these flags.\<close>
  "gate_is e target f \<longleftrightarrow> gate_target e = target \<and> selector e = 8 \<and> gate_flags e = f"

lemma set_gates_ok:
  "distinct (map fst gs) \<Longrightarrow> \<forall>g \<in> set gs. unat (fst g) < length (idt_entries s) \<Longrightarrow>
   \<exists>es. set_gates gs s = Some (s\<lparr>idt_entries := es\<rparr>) \<and> length es = length (idt_entries s) \<and>
     (\<forall>g \<in> set gs. gate_is (es ! unat (fst g)) (fst (snd g)) (snd (snd g))) \<and>
     (\<forall>v. (\<forall>g \<in> set gs. unat (fst g) \<noteq> v) \<longrightarrow> es ! v = idt_entries s ! v)"
proof (induction gs arbitrary: s)
  case Nil
  then show ?case by (intro exI [of _ "idt_entries s"]) simp
next
  case (Cons g gs)
  let ?e = "gate (fst (snd g)) 8 (snd (snd g))"
  have e: "idt_set_gate (fst g) (fst (snd g)) 8 (snd (snd g)) s = Some (s\<lparr>idt_entries := (idt_entries s)[unat (fst g) := ?e]\<rparr>)"
    using Cons.prems(2) by (simp add: idt_set_gate_eq)
  have "gate_is ?e (fst (snd g)) (snd (snd g))" by (simp add: gate_is_def)
  let ?s = "s\<lparr>idt_entries := (idt_entries s)[unat (fst g) := ?e]\<rparr>"
  obtain es where es: "set_gates gs ?s = Some (?s\<lparr>idt_entries := es\<rparr>)" "length es = length (idt_entries s)"
    "\<forall>g \<in> set gs. gate_is (es ! unat (fst g)) (fst (snd g)) (snd (snd g))"
    "\<And>v. \<forall>g \<in> set gs. unat (fst g) \<noteq> v \<Longrightarrow> es ! v = (idt_entries s)[unat (fst g) := ?e] ! v"
    using Cons.IH [of ?s] Cons.prems by auto
  have "\<forall>h \<in> set gs. unat (fst h) \<noteq> unat (fst g)" using Cons.prems(1) by (auto simp: image_iff word_unat_eq_iff)
  then have "es ! unat (fst g) = ?e" using es(4) Cons.prems(2) by simp
  then show ?case using e es by (intro exI [of _ es]) (auto simp: nth_list_update gate_is_def)
qed

lemma of_nat_u8: "n < 256 \<Longrightarrow> unat (of_nat n :: u8) = n"
  by (simp add: unat_of_nat take_bit_nat_eq_self)

lemma vector_map: "k + m \<le> 256 \<Longrightarrow> distinct (map fst (map (\<lambda>n. (of_nat (k + n) :: u8, f n, c)) [0..<m]))"
  by (auto simp: distinct_map inj_on_def o_def word_unat_eq_iff of_nat_u8 simp del: of_nat_add)

text \<open>
  C30. The tables after initialisation: the two kernel and the two user segments span the whole address space from address
  zero on, at levels 0 and 3; the processor exceptions 0 to 31 and the interrupt lines at vectors 32 to 47 lead to their entry
  points, which only the kernel may call, and vector 0x80 to the one that user programs may call; all other gates are
  those of the loader. The task segment lies where the structure does, but its limit is the address after its end, cut to 20 bits.
\<close>

theorem descriptor_tables_correct:
  assumes g: "length (gdt_entries s) = 6" and i: "length idt_base = 256"
  shows "\<exists>s'. init_descriptor_tables gdt_addr tss_addr idt_var isr irq isr128 idt_base s = Some s' \<and>
    (\<forall>(n, level) \<in> {(1, 0), (2, 0), (3, 3), (4, 3)}. segment_base (gdt_entries s' ! n) = 0 \<and>
       segment_limit (gdt_entries s' ! n) = 0xFFFFFFFF \<and> segment_level (gdt_entries s' ! n) = level) \<and>
    segment_base (gdt_entries s' ! 5) = tss_addr \<and> segment_limit (gdt_entries s' ! 5) = (tss_addr + 104) AND 0xFFFFF \<and>
    (\<forall>n < 32. gate_is (idt_entries s' ! n) (isr n) 0x8E) \<and> (\<forall>n < 16. gate_is (idt_entries s' ! (32 + n)) (irq n) 0x8E) \<and>
    gate_is (idt_entries s' ! 0x80) isr128 0xEE \<and>
    (\<forall>v. 48 \<le> v \<longrightarrow> v \<noteq> 0x80 \<longrightarrow> idt_entries s' ! v = idt_base ! v) \<and>
    tp_base (gdt_ptr s') = gdt_addr \<and> tp_limit (gdt_ptr s') = 47 \<and> tss_ss (tss s') = 0x13 \<and> tss_cs (tss s') = 0x0b"
proof -
  define s1 where "s1 = s\<lparr>idt_entries := idt_base, gdt_ptr := \<lparr>tp_limit = 6 * 8 - 1, tp_base = gdt_addr\<rparr>, idt_ptr := \<lparr>tp_limit = 256 * 8 - 1, tp_base = idt_var\<rparr>,
    gdt_entries := (gdt_entries s)[0 := seg 0 0 0 0, 1 := seg 0 0xFFFFFFFF 0x9A 0xCF, 2 := seg 0 0xFFFFFFFF 0x92 0xCF,
      3 := seg 0 0xFFFFFFFF 0xFA 0xCF, 4 := seg 0 0xFFFFFFFF 0xF2 0xCF]\<rparr>"
  let ?A = "map (\<lambda>n. (of_nat n :: u8, isr n, 0x8E :: u8)) [0..<32]" and ?B = "[(0x80 :: u8, isr128, 0xEE :: u8)]"
    and ?C = "map (\<lambda>n. (of_nat (32 + n) :: u8, irq n, 0x8E :: u8)) [0..<16]"
  obtain a where a: "set_gates ?A s1 = Some (s1\<lparr>idt_entries := a\<rparr>)" "length a = 256"
    "\<forall>g \<in> set ?A. gate_is (a ! unat (fst g)) (fst (snd g)) (snd (snd g))" "\<And>v. \<forall>g \<in> set ?A. unat (fst g) \<noteq> v \<Longrightarrow> a ! v = idt_base ! v"
    using set_gates_ok [of ?A s1] vector_map [of 0 32 isr "0x8E"] i by (auto simp: s1_def of_nat_u8)
  obtain b where b: "set_gates ?B (s1\<lparr>idt_entries := a\<rparr>) = Some (s1\<lparr>idt_entries := b\<rparr>)" "length b = 256"
    "gate_is (b ! 0x80) isr128 0xEE" "\<And>v. v \<noteq> 0x80 \<Longrightarrow> b ! v = a ! v"
    using set_gates_ok [of ?B "s1\<lparr>idt_entries := a\<rparr>"] a(2) by auto
  obtain c where c: "set_gates ?C (s1\<lparr>idt_entries := b\<rparr>) = Some (s1\<lparr>idt_entries := c\<rparr>)"
    "\<forall>g \<in> set ?C. gate_is (c ! unat (fst g)) (fst (snd g)) (snd (snd g))" "\<And>v. \<forall>g \<in> set ?C. unat (fst g) \<noteq> v \<Longrightarrow> c ! v = b ! v"
    using set_gates_ok [of ?C "s1\<lparr>idt_entries := b\<rparr>"] vector_map [of 32 16 irq "0x8E"] b(2) by (auto simp: of_nat_u8 simp del: of_nat_add)
  have uC: "unat (of_nat (32 + n) :: u8) = 32 + n" if "n < 16" for n using that by (simp add: of_nat_u8 del: of_nat_add)
  have cv: "c ! v = b ! v" if "v < 32 \<or> 48 \<le> v" for v using c(3) [of v] that by (auto simp: uC simp del: of_nat_add)
  have C: "gate_is (c ! (32 + n)) (irq n) 0x8E" if "n < 16" for n
  proof -
    have "gate_is (c ! unat (of_nat (32 + n) :: u8)) (irq n) 0x8E" using c(2) that by (simp del: of_nat_add)
    then show ?thesis by (simp only: uC [OF that])
  qed
  have A: "gate_is (a ! n) (isr n) 0x8E" if "n < 32" for n using a(3) that by (auto simp: of_nat_u8)
  have av: "a ! v = idt_base ! v" if "32 \<le> v" for v using a(4) [of v] that by (auto simp: of_nat_u8)
  have u: "s1\<lparr>idt_ptr := \<lparr>tp_limit = 2047, tp_base = idt_var\<rparr>\<rparr> = s1" by (cases s) (simp add: s1_def)
  have idt: "init_idt idt_var isr irq isr128 (s1\<lparr>idt_ptr := idt_ptr s\<rparr>) = Some (s1\<lparr>idt_entries := c\<rparr>)"
    using a(1) b(1) c(1) by (simp add: init_idt_def u del: set_gates.simps of_nat_add)
  have gdt: "init_gdt gdt_addr (s\<lparr>idt_entries := idt_base\<rparr>) = Some (s1\<lparr>idt_ptr := idt_ptr s\<rparr>)"
    using g by (cases s) (simp add: init_gdt_def gdt_set_gate_eq s1_def)
  have "init_tss tss_addr (s1\<lparr>idt_entries := c\<rparr>) = Some (s1\<lparr>idt_entries := c, gdt_entries := (gdt_entries s1)[5 := seg tss_addr (tss_addr + 104) 0xE9 0],
      tss := zero_tss\<lparr>tss_cs := 0x0b, tss_ss := 0x13, tss_es := 0x13, tss_ds := 0x13, tss_fs := 0x13, tss_gs := 0x13\<rparr>\<rparr>)"
    using g by (simp add: init_tss_def gdt_set_gate_eq s1_def)
  then have r: "init_descriptor_tables gdt_addr tss_addr idt_var isr irq isr128 idt_base s = Some (s1\<lparr>idt_entries := c,
      gdt_entries := (gdt_entries s1)[5 := seg tss_addr (tss_addr + 104) 0xE9 0],
      tss := zero_tss\<lparr>tss_cs := 0x0b, tss_ss := 0x13, tss_es := 0x13, tss_ds := 0x13, tss_fs := 0x13, tss_gs := 0x13\<rparr>\<rparr>)"
    using gdt idt by (simp add: init_descriptor_tables_def)
  show ?thesis using g b(3) A b(4) cv C av unfolding r by (simp add: s1_def)
qed

lemma descriptor_tables_correct_witness:
  "\<exists>s'. init_descriptor_tables 0x1000 0x2000 0x3000 (\<lambda>n. of_nat (0x100000 + 16 * n)) (\<lambda>n. of_nat (0x200000 + 16 * n)) 0x300000
      (replicate 256 (gate 0 0 0)) \<lparr>gdt_entries = replicate 6 (seg 0 0 0 0), gdt_ptr = \<lparr>tp_limit = 0, tp_base = 0\<rparr>, idt_entries = [],
        idt_ptr = \<lparr>tp_limit = 0, tp_base = 0\<rparr>, tss = zero_tss\<rparr> = Some s' \<and>
    gate_is (idt_entries s' ! 14) 0x1000E0 0x8E \<and> gate_is (idt_entries s' ! 33) 0x200010 0x8E \<and> segment_limit (gdt_entries s' ! 5) = 0x2068"
proof -
  let ?s = "\<lparr>gdt_entries = replicate 6 (seg 0 0 0 0), gdt_ptr = \<lparr>tp_limit = 0, tp_base = 0\<rparr>, idt_entries = [],
        idt_ptr = \<lparr>tp_limit = 0, tp_base = 0\<rparr>, tss = zero_tss\<rparr>"
  obtain s' where r: "init_descriptor_tables 0x1000 0x2000 0x3000 (\<lambda>n. of_nat (0x100000 + 16 * n)) (\<lambda>n. of_nat (0x200000 + 16 * n)) 0x300000
      (replicate 256 (gate 0 0 0)) ?s = Some s'" and l: "segment_limit (gdt_entries s' ! 5) = (0x2000 + 104) AND 0xFFFFF"
    and e: "\<forall>n < 32. gate_is (idt_entries s' ! n) (of_nat (0x100000 + 16 * n)) 0x8E"
    and i: "\<forall>n < 16. gate_is (idt_entries s' ! (32 + n)) (of_nat (0x200000 + 16 * n)) 0x8E"
    using descriptor_tables_correct [of ?s "replicate 256 (gate 0 0 0)" "0x1000" "0x2000" "0x3000" "\<lambda>n. of_nat (0x100000 + 16 * n)"
      "\<lambda>n. of_nat (0x200000 + 16 * n)" "0x300000"] by auto
  show ?thesis using r l spec [OF e, of 14] spec [OF i, of 1] by simp
qed

end
