(* ===== verification/Interrupts.thy ===== *)
theory Interrupts
  imports Page_Fault
begin

text \<open>
  Dispatch of interrupts, isr.cpp, with the handlers descriptor_tables.c and mmngr_virtual.cpp enter. A handler is a
  function of the saved registers and the state that may not come back. The lock of the running thread's queue of exceptions
  and the bytes sent to ports, oldest first, join the state of the page fault handler.
\<close>

subsection \<open>Data\<close>

record registers =
  r_ds :: u32
  r_gp :: "u32 list" \<comment> \<open>edi, esi, ebp, esp, ebx, edx, ecx, eax\<close>
  int_no :: u32
  err_code :: u32
  r_eip :: u32
  r_cs :: u32
  r_eflags :: u32
  r_useresp :: u32
  r_ss :: u32

record intr = fault +
  exception_lock :: u32
  port_log :: "(u16 \<times> u8) list"

type_synonym 's isr = "registers \<Rightarrow> 's \<Rightarrow> 's option"
type_synonym 's isr_bottom = "thread_exception \<Rightarrow> 's \<Rightarrow> 's option"

definition PIC_PRIMARY_COMMAND_PORT :: u16 where "PIC_PRIMARY_COMMAND_PORT = 0x20"
definition PIC_SLAVE_COMMAND_PORT :: u16 where "PIC_SLAVE_COMMAND_PORT = 0xA0"
definition EOI :: u8 where "EOI = push_bit 5 1"

definition outportb :: "u16 \<Rightarrow> u8 \<Rightarrow> 'a intr_scheme \<Rightarrow> 'a intr_scheme" where
  "outportb port data s = s\<lparr>port_log := port_log s @ [(port, data)]\<rparr>"

subsection \<open>isr.cpp\<close>

definition register_interrupt_handler :: "u8 \<Rightarrow> 's isr \<Rightarrow> 's isr option list \<Rightarrow> 's isr option list option" where
  "register_interrupt_handler n handler hs = array_set hs n (Some handler)"

definition register_bottom_interrupt_handler :: "u8 \<Rightarrow> 's isr_bottom \<Rightarrow> 's isr_bottom option list \<Rightarrow> 's isr_bottom option list option" where
  "register_bottom_interrupt_handler n handler bs = array_set bs n (Some handler)"

definition call_handler :: "('b \<Rightarrow> 's \<Rightarrow> 's option) option list \<Rightarrow> u32 \<Rightarrow> 'b \<Rightarrow> 's \<Rightarrow> 's option" where
  \<comment> \<open>The handler in the table, if there is one.\<close>
  "call_handler hs n x s = do {
     h \<leftarrow> array_get hs n;
     case h of Some handler \<Rightarrow> handler x s | None \<Rightarrow> Some s
   }"

definition no_exception :: thread_exception where
  "no_exception = \<lparr>te_number = 0, te_addr = 0, te_code = 0\<rparr>"

partial_function (option) isr_loop :: "'a intr_scheme isr_bottom option list \<Rightarrow> u32 \<Rightarrow> 'a intr_scheme \<Rightarrow> 'a intr_scheme option" where
  [code]: "isr_loop bottoms n s =
     (if queue_spsc_is_empty (pf_exceptions s) then Some s
      else do {
        te \<leftarrow> queue_spsc_peek no_exception (pf_exceptions s);
        (_, q) \<leftarrow> queue_spsc_remove (pf_exceptions s);
        s \<leftarrow> call_handler bottoms n te (s\<lparr>pf_exceptions := q\<rparr>);
        isr_loop bottoms n s
      })"

definition isr_handler :: "'a intr_scheme isr option list \<Rightarrow> 'a intr_scheme isr_bottom option list \<Rightarrow> registers \<Rightarrow> 'a intr_scheme \<Rightarrow> 'a intr_scheme option" where
  "isr_handler handlers bottoms regs s = do {
     s \<leftarrow> call_handler handlers (int_no regs) regs s;
     if exception_lock s = 0 then do {
       s \<leftarrow> isr_loop bottoms (int_no regs) (s\<lparr>exception_lock := 1\<rparr>);
       Some (s\<lparr>exception_lock := 0\<rparr>)
     }
     else Some s
   }"

definition irq_handler :: "'a intr_scheme isr option list \<Rightarrow> registers \<Rightarrow> 'a intr_scheme \<Rightarrow> 'a intr_scheme option" where
  "irq_handler handlers regs s = do {
     s \<leftarrow> call_handler handlers (int_no regs) regs s;
     let s = (if int_no regs \<ge> 40 then outportb PIC_SLAVE_COMMAND_PORT EOI s else s);
     Some (outportb PIC_PRIMARY_COMMAND_PORT EOI s)
   }"

subsection \<open>The handlers entered at start-up\<close>

definition panic_isr :: "'s isr" where
  \<comment> \<open>The handlers of the processor's exceptions all print a message and halt.\<close>
  "panic_isr regs s = None"

definition test_handle :: "'s isr" where
  \<comment> \<open>Only prints.\<close>
  "test_handle regs s = Some s"

primrec register_all :: "(u8 \<times> 's isr) list \<Rightarrow> 's isr option list \<Rightarrow> 's isr option list option" where
  "register_all [] hs = Some hs"
| "register_all (x # xs) hs = do { hs \<leftarrow> register_interrupt_handler (fst x) (snd x) hs; register_all xs hs }"

definition register_exceptions :: "'s isr option list \<Rightarrow> 's isr option list option" where
  \<comment> \<open>Division by zero, debug, overflow, bound range, invalid opcode, device not available, double fault, invalid task
     segment, segment not present, stack segment and general protection.\<close>
  "register_exceptions hs = register_all
     [(0x80, test_handle), (0, panic_isr), (1, panic_isr), (4, panic_isr), (5, panic_isr), (6, panic_isr), (7, panic_isr), (8, panic_isr),
      (10, panic_isr), (11, panic_isr), (12, panic_isr), (13, panic_isr)] hs"

definition register_page_fault ::
  "u32 \<Rightarrow> 'a intr_scheme fs_calls \<Rightarrow> ('a intr_scheme \<Rightarrow> ptr) \<Rightarrow> 'a intr_scheme isr option list \<Rightarrow> 'a intr_scheme isr_bottom option list \<Rightarrow>
   ('a intr_scheme isr option list \<times> 'a intr_scheme isr_bottom option list) option" where
  \<comment> \<open>\<open>cr2\<close>: the address the processor reports.\<close>
  "register_page_fault cr2 calls new hs bs = do {
     hs \<leftarrow> register_interrupt_handler 14 (\<lambda>regs. page_fault cr2 (err_code regs)) hs;
     bs \<leftarrow> register_bottom_interrupt_handler 14 (page_fault_bottom calls new) bs;
     Some (hs, bs)
   }"

lemma register_all_ok:
  "length hs = 256 \<Longrightarrow> \<exists>hs'. register_all xs hs = Some hs' \<and> length hs' = 256 \<and>
    (\<forall>i. (\<forall>x \<in> set xs. unat (fst x) \<noteq> i) \<longrightarrow> hs' ! i = hs ! i)"
proof (induction xs arbitrary: hs)
  case (Cons x xs)
  have "unat (fst x) < length hs" using Cons.prems unsigned_less [of "fst x", where ?'a = nat] by simp
  then show ?case using Cons.IH [of "hs[unat (fst x) := Some (snd x)]"] Cons.prems by (auto simp: register_interrupt_handler_def)
qed simp

subsection \<open>Deferred exceptions\<close>

definition with_queue :: "thread_exception queue_spsc \<Rightarrow> u32 \<Rightarrow> 'a intr_scheme \<Rightarrow> 'a intr_scheme" where
  "with_queue q l s = s\<lparr>pf_exceptions := q, exception_lock := l\<rparr>"

lemma with_queue_simps [simp]:
  "pf_exceptions (with_queue q l s) = q" "exception_lock (with_queue q l s) = l" "pf_contract (with_queue q l s) = pf_contract s"
  "pf_spinlock (with_queue q l s) = pf_spinlock s" "current_directory (with_queue q l s) = current_directory s"
  "(with_queue q l s)\<lparr>pf_exceptions := q'\<rparr> = with_queue q' l s" "(with_queue q l s)\<lparr>exception_lock := l'\<rparr> = with_queue q l' s"
  by (simp_all add: with_queue_def)

lemma with_queue_memory [simp]:
  "vm_ok d (with_queue q l s) = vm_ok d s" "translate (with_queue q l s) d w = translate s d w" "block_regions (with_queue q l s) = block_regions s"
  "out_of_memory (with_queue q l s) = out_of_memory s"
  by (simp_all add: with_queue_def vm_ok_def dir_ok_def table_at_def pmm_ok_def block_regions_def translate_def page_walk_def out_of_memory_def
    usable_blocks_def cong: Option.bind_cong if_cong)

lemma isr_loop_empty: "spsc_ok (pf_exceptions s) \<Longrightarrow> spsc_contents (pf_exceptions s) = [] \<Longrightarrow> isr_loop bs n s = Some s"
  by (simp add: isr_loop.simps queue_spsc_is_empty_ok)

lemma isr_loop_one:
  assumes q: "spsc_ok (pf_exceptions s)" "spsc_contents (pf_exceptions s) = [te]" and b: "unat n < length bs" "bs ! unat n = Some f"
  obtains q' where "spsc_ok q'" "spsc_contents q' = []"
    "isr_loop bs n s = Option.bind (f te (s\<lparr>pf_exceptions := q'\<rparr>)) (isr_loop bs n)"
proof -
  obtain q' where r: "queue_spsc_remove (pf_exceptions s) = Some (True, q')" "spsc_ok q'" "spsc_contents q' = []"
    using queue_spsc_remove_ok [OF q(1)] q(2) by auto
  moreover have "queue_spsc_peek no_exception (pf_exceptions s) = Some te"
    using queue_spsc_peek_ok [OF q(1), of no_exception] q(2) by auto
  moreover have "\<not> queue_spsc_is_empty (pf_exceptions s)" using q by (simp add: queue_spsc_is_empty_ok)
  ultimately have "isr_loop bs n s = Option.bind (f te (s\<lparr>pf_exceptions := q'\<rparr>)) (isr_loop bs n)"
    using b by (subst isr_loop.simps) (simp add: call_handler_def)
  then show thesis by (rule that [OF r(2,3)])
qed

text \<open>
  The top half of a fault, once another exception of the thread is being handled: the exception is queued and nothing else
  is done, so it is the earlier run of the handler that will serve it.
\<close>

lemma nested_fault_deferred:
  assumes "exception_lock s \<noteq> 0" and "unat (int_no regs) < length hs" "hs ! unat (int_no regs) = Some (\<lambda>regs. page_fault cr2 (err_code regs))"
    and q: "spsc_ok (pf_exceptions s)" "length (spsc_contents (pf_exceptions s)) + 1 < unat (max_count (pf_exceptions s))" and "pf_threading s"
  shows "\<exists>q. isr_handler hs bs regs s = Some (s\<lparr>pf_exceptions := q\<rparr>) \<and> spsc_ok q \<and>
    spsc_contents q = spsc_contents (pf_exceptions s) @ [\<lparr>te_number = 14, te_addr = cr2, te_code = err_code regs\<rparr>]"
proof -
  obtain q where "queue_spsc_insert \<lparr>te_number = 14, te_addr = cr2, te_code = err_code regs\<rparr> (pf_exceptions s) = Some (True, q)" "spsc_ok q"
    "spsc_contents q = spsc_contents (pf_exceptions s) @ [\<lparr>te_number = 14, te_addr = cr2, te_code = err_code regs\<rparr>]"
    using queue_spsc_insert_ok [OF q(1), of "\<lparr>te_number = 14, te_addr = cr2, te_code = err_code regs\<rparr>"] q(2) by auto
  then show ?thesis using assms by (intro exI [of _ q]) (simp add: isr_handler_def call_handler_def page_fault_def)
qed

lemma page_fault_served:
  fixes s :: "'a intr_scheme"
  assumes hs: "length hs = 256" "length bs = 256" and reg: "register_page_fault cr2 calls new hs bs = Some (hs', bs')"
    and n: "int_no regs = 14" and l: "exception_lock s = 0" and thr: "pf_threading s"
    and q: "spsc_ok (pf_exceptions s)" "spsc_contents (pf_exceptions s) = []" "1 < unat (max_count (pf_exceptions s))"
  obtains q' where "spsc_ok q'" "spsc_contents q' = []"
    "isr_handler hs' bs' regs s = Option.bind (page_fault_bottom calls new \<lparr>te_number = 14, te_addr = cr2, te_code = err_code regs\<rparr> (with_queue q' 1 s))
       (\<lambda>s. Option.bind (isr_loop bs' 14 s) (\<lambda>s. Some (s\<lparr>exception_lock := 0\<rparr>)))"
proof -
  let ?te = "\<lparr>te_number = 14, te_addr = cr2, te_code = err_code regs\<rparr>"
  have t: "unat (14 :: u32) < length bs'" "hs' ! 14 = Some (\<lambda>regs. page_fault cr2 (err_code regs))" "length hs' = 256"
    "bs' ! unat (14 :: u32) = Some (page_fault_bottom calls new)"
    using reg hs by (auto simp: register_page_fault_def register_interrupt_handler_def register_bottom_interrupt_handler_def)
  obtain q1 where q1: "queue_spsc_insert ?te (pf_exceptions s) = Some (True, q1)" "spsc_ok q1" "spsc_contents q1 = [?te]"
    using queue_spsc_insert_ok [OF q(1), of ?te] q(2,3) by auto
  obtain q' where q': "spsc_ok q'" "spsc_contents q' = []"
    "isr_loop bs' 14 (with_queue q1 1 s) = Option.bind (page_fault_bottom calls new ?te ((with_queue q1 1 s)\<lparr>pf_exceptions := q'\<rparr>)) (isr_loop bs' 14)"
    by (rule isr_loop_one [OF _ _ t(1,4), of "with_queue q1 1 s" ?te]) (simp_all add: q1)
  have "(s\<lparr>pf_exceptions := q1\<rparr>)\<lparr>exception_lock := 1\<rparr> = with_queue q1 1 s" by (simp add: with_queue_def)
  then have "isr_handler hs' bs' regs s = Option.bind (isr_loop bs' 14 (with_queue q1 1 s)) (\<lambda>s. Some (s\<lparr>exception_lock := 0\<rparr>))"
    using t(2,3) q1(1) n l thr by (simp add: isr_handler_def call_handler_def page_fault_def)
  then show thesis using that [OF q'(1,2)] q'(3) by simp
qed

subsection \<open>A page fault from the interrupt to the mapped page\<close>

lemma rest_same_queue: "rest_same s s' \<Longrightarrow> pf_exceptions s' = pf_exceptions s"
  by (cases s; cases s') (simp add: rest_same_def)

lemma anonymous_bottom:
  assumes ok: "contract_ok (pf_contract s) xs" and l: "pf_spinlock s = 0" and i: "area_contains xs (te_addr te) i"
    and acc: "access_allowed (xs ! unat i) (te_code te)"
    and fl: "CHK_BIT (a_flags (xs ! unat i)) MMAP_PRIVATE" "CHK_BIT (a_flags (xs ! unat i)) MMAP_ANONYMOUS"
      "\<not> CHK_BIT (a_flags (xs ! unat i)) MMAP_ALLOC_IMMEDIATE" "\<not> CHK_BIT (a_flags (xs ! unat i)) MMAP_IDENTITY_MAP"
    and r: "page_fault_bottom calls new te s = Some s'"
  shows "rest_same s s'"
proof -
  have "Option.bind (vmmngr_alloc_page_f (te_addr te AND NOT 0xFFF) (page_fault_calculate_present_flags (a_flags (xs ! unat i))) s) (\<lambda>(_, s). Some s) = Some s'"
    using bottom_eq [OF ok l i, of calls new] acc fl r by (simp add: private_fault_def page_fault_alloc_page_def Let_def)
  then obtain e where "vmmngr_alloc_page_f (te_addr te AND NOT 0xFFF) (page_fault_calculate_present_flags (a_flags (xs ! unat i))) s = Some (e, s')"
    by (auto elim: bind_SomeE)
  then show ?thesis by (rule rest_same_alloc_page_f)
qed

text \<open>
  C31. A page fault, from the processor's interrupt to the return to the program. When a thread without queued
  exceptions first uses a page of anonymous private memory, in a way its area allows, the handlers entered at start-up return to the
  program with no exception left and the locks free, and either the page is mapped to a block nobody used and no
  other page has changed, or no translation has changed because memory ran out.
\<close>

theorem page_fault_interrupt:
  fixes s :: "'a intr_scheme"
  assumes hs: "length hs = 256" "length bs = 256" and reg: "register_page_fault cr2 calls new hs bs = Some (hs', bs')"
    and n: "int_no regs = 14" and lock: "exception_lock s = 0" and thr: "pf_threading s"
    and q: "spsc_ok (pf_exceptions s)" "spsc_contents (pf_exceptions s) = []" "1 < unat (max_count (pf_exceptions s))"
    and ok: "contract_ok (pf_contract s) xs" and l: "pf_spinlock s = 0" and i: "area_contains xs cr2 i"
    and acc: "access_allowed (xs ! unat i) (err_code regs)"
    and fl: "CHK_BIT (a_flags (xs ! unat i)) MMAP_PRIVATE" "CHK_BIT (a_flags (xs ! unat i)) MMAP_ANONYMOUS"
      "\<not> CHK_BIT (a_flags (xs ! unat i)) MMAP_ALLOC_IMMEDIATE" "\<not> CHK_BIT (a_flags (xs ! unat i)) MMAP_IDENTITY_MAP"
    and vm: "vm_ok (current_directory s) s" and t: "translate s (current_directory s) (cr2 AND NOT 0xFFF) = None"
    and lo: "cr2 AND NOT 0xFFF < 0xF0000000"
  shows "\<exists>s'. isr_handler hs' bs' regs s = Some s' \<and> exception_lock s' = 0 \<and> pf_spinlock s' = 0 \<and> spsc_contents (pf_exceptions s') = [] \<and>
    pf_contract s' = pf_contract s \<and> vm_ok (current_directory s) s' \<and>
    ((\<exists>a. (unat a, 4096) \<notin> block_regions s \<and> (unat a, 4096) \<in> block_regions s' \<and>
       (\<forall>w. translate s' (current_directory s) w =
         (if same_page w (cr2 AND NOT 0xFFF) then Some (a OR (w AND 0xFFF)) else translate s (current_directory s) w))) \<or>
     (\<forall>w. translate s' (current_directory s) w = translate s (current_directory s) w) \<and>
       (out_of_memory s \<or> (\<exists>a :: u32. (unat a, 4096) \<notin> block_regions s \<and> block_regions s' = insert (unat a, 4096) (block_regions s))))"
proof -
  let ?te = "\<lparr>te_number = 14, te_addr = cr2, te_code = err_code regs\<rparr>"
  obtain q' where q': "spsc_ok q'" "spsc_contents q' = []"
    "isr_handler hs' bs' regs s = Option.bind (page_fault_bottom calls new ?te (with_queue q' 1 s))
       (\<lambda>s. Option.bind (isr_loop bs' 14 s) (\<lambda>s. Some (s\<lparr>exception_lock := 0\<rparr>)))"
    by (rule page_fault_served [OF hs reg n lock thr q])
  let ?s = "with_queue q' 1 s"
  have c: "contract_ok (pf_contract ?s) xs" "pf_spinlock ?s = 0" "area_contains xs (te_addr ?te) i" "access_allowed (xs ! unat i) (te_code ?te)"
    using ok l i acc by simp_all
  obtain s' where s': "page_fault_bottom calls new ?te ?s = Some s'" "vm_ok (current_directory s) s'" "pf_contract s' = pf_contract s" "pf_spinlock s' = 0"
    "(\<exists>a. (unat a, 4096) \<notin> block_regions s \<and> (unat a, 4096) \<in> block_regions s' \<and>
       (\<forall>w. translate s' (current_directory s) w =
         (if same_page w (cr2 AND NOT 0xFFF) then Some (a OR (w AND 0xFFF)) else translate s (current_directory s) w))) \<or>
     (\<forall>w. translate s' (current_directory s) w = translate s (current_directory s) w) \<and>
       (out_of_memory s \<or> (\<exists>a :: u32. (unat a, 4096) \<notin> block_regions s \<and> block_regions s' = insert (unat a, 4096) (block_regions s)))"
    using anonymous_page_fault [OF c fl, of calls new, unfolded with_queue_memory with_queue_simps thread_exception.select_convs, OF vm t lo]
    by (elim exE conjE) (rule that)
  have "pf_exceptions s' = q'" using rest_same_queue [OF anonymous_bottom [OF c fl s'(1)]] by simp
  then have "isr_handler hs' bs' regs s = Some (with_queue q' 0 s')"
    using q' s'(1) isr_loop_empty [of s' bs' 14] by (simp add: with_queue_def)
  then show ?thesis using s'(2-5) q'(2) by (intro exI [of _ "with_queue q' 0 s'"]) simp
qed

definition sample_intr :: intr where
  "sample_intr = fault.extend sample_fault (intr.fields 0 [])"

lemma sample_intr_simps: "exception_lock sample_intr = 0" "port_log sample_intr = []" "pf_threading sample_intr" "pf_contract sample_intr = pf_contract sample_fault"
  "pf_spinlock sample_intr = pf_spinlock sample_fault" "pf_exceptions sample_intr = queue_spsc_init 10 (replicate 10 no_exception)"
  "current_directory sample_intr = current_directory sample_fault"
  by (simp_all add: sample_intr_def sample_fault_def fault.defs intr.defs files.defs no_exception_def)

lemma sample_intr_memory: "vm_ok d sample_intr = vm_ok d sample_fault" "translate sample_intr d w = translate sample_fault d w"
  by (simp_all add: sample_intr_def vm_ok_def dir_ok_def table_at_def pmm_ok_def block_regions_def translate_def page_walk_def fault.defs intr.defs
    cong: Option.bind_cong if_cong)

lemma page_fault_interrupt_witness:
  "\<exists>hs bs s'. register_page_fault 0x2008 sample_calls first_free_cell (replicate 256 None) (replicate 256 None) = Some (hs, bs) \<and>
     isr_handler hs bs \<lparr>r_ds = 0x10, r_gp = replicate 8 0, int_no = 14, err_code = 2, r_eip = 0x400000, r_cs = 8, r_eflags = 0x202, r_useresp = 0, r_ss = 0\<rparr>
       sample_intr = Some s' \<and> spsc_contents (pf_exceptions s') = [] \<and> exception_lock s' = 0"
proof -
  let ?regs = "\<lparr>r_ds = 0x10, r_gp = replicate 8 0, int_no = 14, err_code = 2, r_eip = 0x400000, r_cs = 8, r_eflags = 0x202, r_useresp = 0, r_ss = 0\<rparr>"
    and ?E = "replicate 256 None"
  obtain hs :: "intr isr option list" and bs where r: "register_page_fault 0x2008 sample_calls first_free_cell ?E ?E = Some (hs, bs)"
    by (simp add: register_page_fault_def register_interrupt_handler_def register_bottom_interrupt_handler_def)
  have i: "area_contains fault_areas 0x2008 1" by (simp add: area_contains_def fault_areas_def area_at_def p_end_def)
  have a: "access_allowed (fault_areas ! unat (1 :: u32)) (err_code ?regs)"
    by (simp add: access_allowed_def fault_areas_def area_at_def page_fault_error_is_page_present_def CHK_BIT_def
      MMAP_PRIVATE_def MMAP_ANONYMOUS_def MMAP_WRITE_def MMAP_PROTECTION_def MMAP_NO_ACCESS_def)
  have f: "CHK_BIT (a_flags (fault_areas ! unat (1 :: u32))) MMAP_PRIVATE" "CHK_BIT (a_flags (fault_areas ! unat (1 :: u32))) MMAP_ANONYMOUS"
    "\<not> CHK_BIT (a_flags (fault_areas ! unat (1 :: u32))) MMAP_ALLOC_IMMEDIATE" "\<not> CHK_BIT (a_flags (fault_areas ! unat (1 :: u32))) MMAP_IDENTITY_MAP"
    by (simp_all add: fault_areas_def area_at_def CHK_BIT_def
      MMAP_PRIVATE_def MMAP_ANONYMOUS_def MMAP_WRITE_def MMAP_ALLOC_IMMEDIATE_def MMAP_IDENTITY_MAP_def)
  have vm: "vm_ok (current_directory sample_intr) sample_intr"
    using sample_fault_io by (simp add: io_inv_def cache_ok_def region_ok_def sample_intr_memory sample_intr_simps)
  have t: "translate sample_intr (current_directory sample_intr) (0x2008 AND NOT 0xFFF) = None"
    unfolding sample_intr_memory sample_intr_simps
    by (simp add: translate_def page_walk_def sample_fault_def sample_files_def sample_vmm_def PAGE_DIR_INDEX_def
      PAGE_TABLE_INDEX_def pd_entry_get_frame_def pd_entry_is_present_def pt_entry_is_present_def kernel_simps)
  have lo: "0x2008 AND NOT 0xFFF < (0xF0000000 :: u32)" by simp
  have q: "spsc_ok (pf_exceptions sample_intr)" "spsc_contents (pf_exceptions sample_intr) = []" "1 < unat (max_count (pf_exceptions sample_intr))"
    using queue_spsc_init_ok [of 10 "replicate 10 no_exception"] by (simp_all add: sample_intr_simps) (simp add: queue_spsc_init_def)
  have c: "contract_ok (pf_contract sample_intr) fault_areas" "pf_spinlock sample_intr = 0" using fault_areas_ok by (simp_all add: sample_intr_simps)
  have n: "int_no ?regs = 14" by simp
  from page_fault_interrupt [OF _ _ r n sample_intr_simps(1,3) q c i a f vm t lo] r show ?thesis by auto
qed

text \<open>
  The end of a hardware interrupt: after the handler has run, the controllers are told, the slave one first and only for
  the lines it serves.
\<close>

lemma end_of_interrupt:
  assumes "call_handler hs (int_no regs) regs s = Some s1"
  shows "\<exists>s'. irq_handler hs regs s = Some s' \<and>
    port_log s' = port_log s1 @ (if 40 \<le> int_no regs then [(0xA0, 0x20), (0x20, 0x20)] else [(0x20, 0x20)]) \<and> s'\<lparr>port_log := port_log s1\<rparr> = s1"
  using assms by (simp add: irq_handler_def outportb_def Let_def PIC_PRIMARY_COMMAND_PORT_def PIC_SLAVE_COMMAND_PORT_def EOI_def push_bit_eq_mult)

text \<open>
  The processor's exceptions that no handler can repair stop the kernel; entering their handlers leaves the page fault
  handler and the hardware lines alone.
\<close>

lemma fatal_exceptions_halt:
  assumes "length hs = 256" and "unat (int_no regs) \<in> {0, 1, 4, 5, 6, 7, 8, 10, 11, 12, 13}"
  shows "\<exists>hs'. register_exceptions hs = Some hs' \<and> isr_handler hs' bs regs s = None \<and> (\<forall>i. i \<in> {14} \<union> {32..47} \<longrightarrow> hs' ! i = hs ! i)"
  using assms by (auto simp: register_exceptions_def register_interrupt_handler_def isr_handler_def call_handler_def panic_isr_def)

end
