(* ===== verification/Screen_Gfx.thy ===== *)
theory Screen_Gfx
  imports Bytes
begin

text \<open>
  The text screen drawn into a frame buffer, screen_gfx.cpp. \<open>memory\<close> is what the kernel's addresses reach; the frame
  buffer lies in it at \<open>framebuffer\<close>. A character is a signed byte; an index outside the font is \<open>None\<close>, and so is a
  loop that does not end. Lines and rectangles, which need floating point, are left out.
\<close>

subsection \<open>Data\<close>

record vbe_mode =
  pitch :: u16
  width :: u16
  height :: u16
  bpp :: u8
  framebuffer :: u32

record point =
  p_x :: u16
  p_y :: u16

record screen =
  memory :: mem
  font :: "u8 list"
  font_loaded :: bool
  vbe :: vbe_mode
  cursor :: point
  charsHorizontal :: u16
  charsVertical :: u16
  foreground :: u32
  background :: u32
  screen_initialized :: bool

definition FONT_SIZE :: nat where
  "FONT_SIZE = (8 + 1) * 16 * 256"

primrec for_each :: "('b \<Rightarrow> 's \<Rightarrow> 's option) \<Rightarrow> 'b list \<Rightarrow> 's \<Rightarrow> 's option" where
  "for_each f [] s = Some s"
| "for_each f (x # xs) s = do { s \<leftarrow> f x s; for_each f xs s }"

subsection \<open>Pixels\<close>

definition make_point :: "u16 \<Rightarrow> u16 \<Rightarrow> point" where
  "make_point x y = \<lparr>p_x = x, p_y = y\<rparr>"

definition get_LFA_index :: "point \<Rightarrow> 'a screen_scheme \<Rightarrow> u32" where
  "get_LFA_index p s = ucast (p_y p) * ucast (pitch (vbe s)) + (ucast (p_x p) * ucast (bpp (vbe s))) div 8 + framebuffer (vbe s)"

definition put_pixel_raw :: "u32 \<Rightarrow> u32 \<Rightarrow> 'a screen_scheme \<Rightarrow> 'a screen_scheme" where
  "put_pixel_raw index color s = s\<lparr>memory := write32 (memory s) index color\<rparr>"

definition put_pixel :: "point \<Rightarrow> u32 \<Rightarrow> 'a screen_scheme \<Rightarrow> 'a screen_scheme" where
  "put_pixel p color s =
     (if p_x p \<ge> width (vbe s) \<or> p_y p \<ge> height (vbe s) then s
      else s\<lparr>memory := write32 (memory s) (get_LFA_index p s) color\<rparr>)"

definition increment_LFA_index :: "u32 \<Rightarrow> 'a screen_scheme \<Rightarrow> u32" where
  "increment_LFA_index cur_index s = cur_index + ucast (bpp (vbe s) div 8)"

definition skip_LFA_line :: "u32 \<Rightarrow> 'a screen_scheme \<Rightarrow> u32" where
  "skip_LFA_line cur_index s = cur_index + ucast (pitch (vbe s))"

definition font_at :: "int \<Rightarrow> 'a screen_scheme \<Rightarrow> u8 option" where
  "font_at i s = (if 0 \<le> i \<and> nat i < length (font s) then Some (font s ! nat i) else None)"

subsection \<open>Characters\<close>

definition glyph_pixel :: "u8 \<Rightarrow> nat \<Rightarrow> nat \<Rightarrow> u32 \<times> 'a screen_scheme \<Rightarrow> (u32 \<times> 'a screen_scheme) option" where
  "glyph_pixel c y x = (\<lambda>(vidmem, s). do {
     b \<leftarrow> font_at (sint c * (8 + 1) + int y * 256 * (8 + 1) + int x) s;
     let s = put_pixel_raw vidmem (if b \<noteq> 0 then foreground s else background s) s;
     Some (increment_LFA_index vidmem s, s)
   })"

definition glyph_row :: "u8 \<Rightarrow> nat \<Rightarrow> u32 \<times> 'a screen_scheme \<Rightarrow> (u32 \<times> 'a screen_scheme) option" where
  "glyph_row c y = (\<lambda>(start_vidmem, s). do {
     (_, s) \<leftarrow> for_each (glyph_pixel c y) [0..<8] (start_vidmem, s);
     Some (skip_LFA_line start_vidmem s, s)
   })"

definition draw_glyph :: "u8 \<Rightarrow> point \<Rightarrow> 'a screen_scheme \<Rightarrow> 'a screen_scheme option" where
  "draw_glyph c p s = do {
     (_, s) \<leftarrow> for_each (glyph_row c) [0..<16] (get_LFA_index p s, s);
     Some s
   }"

definition draw_char :: "u8 \<Rightarrow> 'a screen_scheme \<Rightarrow> 'a screen_scheme option" where
  "draw_char c s =
     (if \<not> screen_initialized s then Some s
      else do {
        s \<leftarrow> (if c = 0x08 then
               if p_x (cursor s) > 0 then do {
                 let s = s\<lparr>cursor := (cursor s)\<lparr>p_x := p_x (cursor s) - 1\<rparr>\<rparr>;
                 draw_glyph 0 (make_point (p_x (cursor s) * 8) (p_y (cursor s) * 16)) s
               }
               else if p_y (cursor s) > 0 then do {
                 let s = s\<lparr>cursor := \<lparr>p_x = charsHorizontal s - 1, p_y = p_y (cursor s) - 1\<rparr>\<rparr>;
                 draw_glyph 0 (make_point (p_x (cursor s) * 8) (p_y (cursor s) * 16)) s
               }
               else Some s
             else if c = 13 \<or> c = 10 then Some (s\<lparr>cursor := \<lparr>p_x = 0, p_y = p_y (cursor s) + 1\<rparr>\<rparr>)
             else do {
               let c = (if c = 0x09 then 0x20 else c);
               s \<leftarrow> draw_glyph c (make_point (p_x (cursor s) * 8) (p_y (cursor s) * 16)) s;
               Some (s\<lparr>cursor := (cursor s)\<lparr>p_x := p_x (cursor s) + 1\<rparr>\<rparr>)
             });
        let s = (if p_x (cursor s) \<ge> charsHorizontal s then s\<lparr>cursor := \<lparr>p_x = 0, p_y = p_y (cursor s) + 1\<rparr>\<rparr> else s);
        Some (if p_y (cursor s) \<ge> charsVertical s then s\<lparr>cursor := (cursor s)\<lparr>p_y := 0\<rparr>\<rparr> else s)
      })"

partial_function (option) draw_text :: "virtual_addr \<Rightarrow> 'a screen_scheme \<Rightarrow> (virtual_addr \<times> 'a screen_scheme) option" where
  [code]: "draw_text ptr s =
     (if memory s ptr = 0 then Some (ptr, s)
      else do {
        s' \<leftarrow> draw_char (memory s ptr) s;
        draw_text (ptr + 1) s'
      })"

definition draw_string :: "virtual_addr \<Rightarrow> 'a screen_scheme \<Rightarrow> 'a screen_scheme option" where
  "draw_string str s = (if \<not> screen_initialized s then Some s else map_option snd (draw_text str s))"

definition clear_screen :: "'a screen_scheme \<Rightarrow> 'a screen_scheme option" where
  "clear_screen s = do {
     s \<leftarrow> for_each (\<lambda>i. for_each (\<lambda>j. draw_char 0) [0..<unat (charsVertical s)]) [0..<unat (charsHorizontal s)] s;
     Some (s\<lparr>cursor := make_point 0 0\<rparr>)
   }"

subsection \<open>The device\<close>

definition screen_gfx_write :: "u32 \<Rightarrow> u32 \<Rightarrow> virtual_addr \<Rightarrow> 'a screen_scheme \<Rightarrow> (u32 \<times> 'a screen_scheme) option" where
  \<comment> \<open>A \<open>count\<close> of zero: a string that ends with a zero byte. \<^verbatim>\<open>size_t\<close> has 32 bits.\<close>
  "screen_gfx_write start count address s =
     (if \<not> font_loaded s then Some (INVALID_IO, s)
      else let ptr = address + start in
        if count \<noteq> 0 then do {
          s \<leftarrow> for_each (\<lambda>i s. draw_char (memory s (ptr + of_nat i)) s) [0..<unat count] s;
          Some (count, s)
        }
        else do { (ptr, s) \<leftarrow> draw_text ptr s; Some (ptr - address, s) })"

definition set_foreground_color :: "u32 \<Rightarrow> 'a screen_scheme \<Rightarrow> 'a screen_scheme" where
  "set_foreground_color color s = s\<lparr>foreground := color AND 0x00FFFFFF\<rparr>"

definition set_background_color :: "u32 \<Rightarrow> 'a screen_scheme \<Rightarrow> 'a screen_scheme" where
  "set_background_color color s = s\<lparr>background := color AND 0x00FFFFFF\<rparr>"

definition set_cursor :: "u16 \<Rightarrow> u16 \<Rightarrow> 'a screen_scheme \<Rightarrow> 'a screen_scheme" where
  "set_cursor x y s = s\<lparr>cursor := \<lparr>p_x = x, p_y = y\<rparr>\<rparr>"

definition load_default_font :: "bool \<Rightarrow> u32 \<times> u8 list \<Rightarrow> 'a screen_scheme \<Rightarrow> 'a screen_scheme option" where
  \<comment> \<open>\<open>opened\<close>: whether the file was found; \<open>res\<close>: what \<^verbatim>\<open>read_file\<close> returns and leaves in \<^verbatim>\<open>font\<close>.\<close>
  "load_default_font opened res s =
     (if \<not> opened then Some s
      else let s = s\<lparr>font := snd res\<rparr> in
        if unat (fst res) \<noteq> FONT_SIZE then None else Some (s\<lparr>font_loaded := True\<rparr>))"

definition init_screen_gfx :: "(u32 \<Rightarrow> u32 \<Rightarrow> u32) \<Rightarrow> bool \<Rightarrow> u32 \<times> u8 list \<Rightarrow> vbe_mode \<Rightarrow> 'a screen_scheme \<Rightarrow> 'a screen_scheme option" where
  \<comment> \<open>\<open>mmap\<close>: the result of \<^verbatim>\<open>vfs_mmap\<close> for an address and a length; the source compares its negation with -1. The
     device's node belongs to Vfs.\<close>
  "init_screen_gfx mmap opened res mode s = (
     let s = s\<lparr>vbe := mode\<rparr>;
       frame_length = ucast (pitch (vbe s)) * ucast (height (vbe s));
       r = mmap (framebuffer (vbe s) AND NOT 0xFFF) (frame_length + 4096 - frame_length mod 4096) in
     if (if r = 0 then 1 else 0) = (- 1 :: int) then None
     else do {
       let s = s\<lparr>cursor := make_point 0 0, charsHorizontal := width (vbe s) div 8, charsVertical := height (vbe s) div 16\<rparr>;
       s \<leftarrow> load_default_font opened res s;
       Some (s\<lparr>screen_initialized := True\<rparr>)
     })"

end
