(* ===== verification/Screen_Facts.thy ===== *)
theory Screen_Facts
  imports Screen_Gfx
begin

text \<open>
  What is on the screen. A pixel is the word of the frame buffer at its place, and a cell shows a character when its 8 by 16
  pixels are the character's glyph in the colors in use. Cells are numbered row by row from the top left.
\<close>

subsection \<open>Pixels\<close>

definition pixel_offset :: "vbe_mode \<Rightarrow> nat \<Rightarrow> nat \<Rightarrow> nat" where
  "pixel_offset m x y = y * unat (pitch m) + 4 * x"

definition pixel_addr :: "vbe_mode \<Rightarrow> nat \<Rightarrow> nat \<Rightarrow> u32" where
  "pixel_addr m x y = framebuffer m + of_nat (pixel_offset m x y)"

definition pixel :: "'a screen_scheme \<Rightarrow> nat \<Rightarrow> nat \<Rightarrow> u32" where
  "pixel s x y = read32 (memory s) (pixel_addr (vbe s) x y)"

definition in_frame :: "vbe_mode \<Rightarrow> u32 \<Rightarrow> bool" where
  "in_frame m a \<longleftrightarrow> unat (a - framebuffer m) < unat (pitch m) * unat (height m)"

definition mode_ok :: "vbe_mode \<Rightarrow> bool" where
  \<comment> \<open>Four bytes for each pixel, and lines at least as long as their pixels.\<close>
  "mode_ok m \<longleftrightarrow> bpp m = 32 \<and> 4 * unat (width m) \<le> unat (pitch m)"

lemma u16_lt: "unat (a :: u16) < 65536"
  using unsigned_less [of a, where ?'a = nat] by simp

lemma pixel_offset_bound:
  assumes "mode_ok m" and "x < unat (width m)" and "y < unat (height m)"
  shows "pixel_offset m x y + 4 \<le> unat (pitch m) * unat (height m)" and "pixel_offset m x y + 4 < 2 ^ 32"
proof -
  have x: "4 * x + 4 \<le> unat (pitch m)" using assms(1,2) by (simp add: mode_ok_def)
  have "Suc y * unat (pitch m) \<le> unat (height m) * unat (pitch m)" using assms(3) by (intro mult_le_mono1) simp
  then show a: "pixel_offset m x y + 4 \<le> unat (pitch m) * unat (height m)" using x by (simp add: pixel_offset_def mult.commute)
  have "unat (pitch m) * unat (height m) \<le> 65535 * 65535" using u16_lt [of "pitch m"] u16_lt [of "height m"] by (intro mult_le_mono) simp_all
  then show "pixel_offset m x y + 4 < 2 ^ 32" using a by simp
qed

lemma pixel_offset_apart:
  assumes "mode_ok m" and "x < unat (width m)" and "x' < unat (width m)" and "(x, y) \<noteq> (x', y')"
  shows "pixel_offset m x y + 4 \<le> pixel_offset m x' y' \<or> pixel_offset m x' y' + 4 \<le> pixel_offset m x y"
proof (cases "y = y'")
  case False
  have row: "pixel_offset m x y + 4 \<le> pixel_offset m x' y'" if "y < y'" "x < unat (width m)" for x y x' y'
  proof -
    have "4 * x + 4 \<le> unat (pitch m)" using assms(1) that(2) by (simp add: mode_ok_def)
    moreover have "Suc y * unat (pitch m) \<le> y' * unat (pitch m)" using that(1) by (intro mult_le_mono1) simp
    ultimately show ?thesis by (simp add: pixel_offset_def)
  qed
  show ?thesis using False row [of y y' x x'] row [of y' y x' x] assms(2,3) by linarith
qed (use assms(4) in \<open>auto simp: pixel_offset_def\<close>)

lemma bytes_disjoint:
  assumes "p + 4 < 2 ^ 32" and "q + 4 < 2 ^ 32" and "p + 4 \<le> q \<or> q + 4 \<le> p" and "a \<in> {f + of_nat p, f + of_nat p + 1, f + of_nat p + 2, f + of_nat p + 3 :: u32}"
  shows "a \<notin> {f + of_nat q, f + of_nat q + 1, f + of_nat q + 2, f + of_nat q + 3}"
proof -
  have e: "{f + of_nat n, f + of_nat n + 1, f + of_nat n + 2, f + of_nat n + 3} = (\<lambda>j. f + of_nat j) ` {n..<n + 4}" for n
  proof -
    have "{n..<n + 4} = {n, n + 1, n + 2, n + 3}" by auto
    then show ?thesis by (simp only: image_insert image_empty of_nat_add of_nat_numeral of_nat_1 add.assoc)
  qed
  obtain i where i: "a = f + of_nat i" "p \<le> i" "i < p + 4" using assms(4) unfolding e by auto
  show ?thesis
  proof
    assume "a \<in> {f + of_nat q, f + of_nat q + 1, f + of_nat q + 2, f + of_nat q + 3}"
    then obtain j where j: "a = f + of_nat j" "q \<le> j" "j < q + 4" unfolding e by auto
    then have "i = j" using i assms(1,2) of_nat_u32_inj [of i j] by simp
    then show False using i j assms(3) by linarith
  qed
qed

lemma pixel_write:
  assumes m: "mode_ok (vbe s)" and "x < unat (width (vbe s))" "y < unat (height (vbe s))" and "x' < unat (width (vbe s))" "y' < unat (height (vbe s))"
  shows "pixel (put_pixel_raw (pixel_addr (vbe s) x y) v s) x' y' = (if x' = x \<and> y' = y then v else pixel s x' y')"
proof (cases "x' = x \<and> y' = y")
  case False
  then have "(x, y) \<noteq> (x', y')" by auto
  then have ap: "pixel_offset (vbe s) x y + 4 \<le> pixel_offset (vbe s) x' y' \<or> pixel_offset (vbe s) x' y' + 4 \<le> pixel_offset (vbe s) x y"
    by (rule pixel_offset_apart [OF m assms(2,4)])
  have "read32 (write32 (memory s) (pixel_addr (vbe s) x y) v) (pixel_addr (vbe s) x' y') = read32 (memory s) (pixel_addr (vbe s) x' y')"
    unfolding pixel_addr_def
    by (intro read32_cong write32_other bytes_disjoint [OF pixel_offset_bound(2) [OF m assms(4,5)] pixel_offset_bound(2) [OF m assms(2,3)]])
      (use ap in auto)
  then show ?thesis using False by (auto simp: pixel_def put_pixel_raw_def)
qed (simp add: pixel_def put_pixel_raw_def)

lemma pixel_write_outside:
  assumes m: "mode_ok (vbe s)" and "x < unat (width (vbe s))" "y < unat (height (vbe s))" and a: "\<not> in_frame (vbe s) a"
  shows "memory (put_pixel_raw (pixel_addr (vbe s) x y) v s) a = memory s a"
proof -
  let ?o = "pixel_offset (vbe s) x y" and ?f = "framebuffer (vbe s)"
  note b = pixel_offset_bound [OF assms(1-3)]
  have "in_frame (vbe s) (?f + of_nat j)" if "?o \<le> j" "j < ?o + 4" for j
    using that b unat_of_nat_u32 [of j] by (simp add: in_frame_def)
  from this [of ?o] this [of "?o + 1"] this [of "?o + 2"] this [of "?o + 3"]
  have "a \<notin> {?f + of_nat ?o, ?f + of_nat ?o + 1, ?f + of_nat ?o + 2, ?f + of_nat ?o + 3}"
    using a by (auto simp: ac_simps)
  then show ?thesis by (simp add: put_pixel_raw_def pixel_addr_def write32_other)
qed

subsection \<open>Glyphs\<close>

definition glyph :: "'a screen_scheme \<Rightarrow> u8 \<Rightarrow> nat \<Rightarrow> nat \<Rightarrow> u32" where
  \<comment> \<open>The color of a character's pixel.\<close>
  "glyph s c x y = (if font s ! (unat c * 9 + y * 2304 + x) \<noteq> 0 then foreground s else background s)"

definition ready :: "'a screen_scheme \<Rightarrow> bool" where
  \<comment> \<open>What \<open>init_screen_gfx\<close> sets up.\<close>
  "ready s \<longleftrightarrow> screen_initialized s \<and> font_loaded s \<and> length (font s) = FONT_SIZE \<and> mode_ok (vbe s) \<and>
     charsHorizontal s = width (vbe s) div 8 \<and> charsVertical s = height (vbe s) div 16 \<and>
     charsHorizontal s > 0 \<and> charsVertical s > 0 \<and> p_x (cursor s) < charsHorizontal s \<and> p_y (cursor s) < charsVertical s"

definition painted :: "'a screen_scheme \<Rightarrow> (nat \<Rightarrow> nat \<Rightarrow> u32 option) \<Rightarrow> mem \<Rightarrow> bool" where
  \<comment> \<open>The memory after painting: the colors given, the other pixels and all memory outside the frame as before.\<close>
  "painted s f m \<longleftrightarrow> (\<forall>x < unat (width (vbe s)). \<forall>y < unat (height (vbe s)).
       pixel (s\<lparr>memory := m\<rparr>) x y = (case f x y of Some v \<Rightarrow> v | None \<Rightarrow> pixel s x y)) \<and>
     (\<forall>a. \<not> in_frame (vbe s) a \<longrightarrow> m a = memory s a)"

lemma for_each_append: "for_each f (xs @ ys) s = Option.bind (for_each f xs s) (for_each f ys)"
  by (induction xs arbitrary: s) (auto simp: Option.bind_assoc)

lemma painted_nothing: "painted s (\<lambda>x y. None) (memory s)"
  by (simp add: painted_def)

lemma painted_pixel:
  assumes "painted s f m" and "mode_ok (vbe s)" and "x < unat (width (vbe s))" "y < unat (height (vbe s))"
  shows "painted s (\<lambda>x' y'. if x' = x \<and> y' = y then Some v else f x' y') (memory (put_pixel_raw (pixel_addr (vbe s) x y) v (s\<lparr>memory := m\<rparr>)))"
proof -
  have "put_pixel_raw a v (s\<lparr>memory := m\<rparr>) = s\<lparr>memory := memory (put_pixel_raw a v (s\<lparr>memory := m\<rparr>))\<rparr>" for a
    by (simp add: put_pixel_raw_def)
  then show ?thesis
    using assms pixel_write [of "s\<lparr>memory := m\<rparr>" x y _ _ v] pixel_write_outside [of "s\<lparr>memory := m\<rparr>" x y _ v]
    by (auto simp: painted_def)
qed

lemma painted_cong: "painted s f m \<Longrightarrow> (\<And>x y. f x y = g x y) \<Longrightarrow> painted s g m"
  by (simp add: painted_def)

lemma font_index: "unat c < 128 \<Longrightarrow> y < 16 \<Longrightarrow> x < 8 \<Longrightarrow> length (font s) = FONT_SIZE \<Longrightarrow>
    font_at (sint c * (8 + 1) + int y * 256 * (8 + 1) + int x) s = Some (font s ! (unat c * 9 + y * 2304 + x))"
  for c :: u8
proof -
  assume a: "unat c < 128" "y < 16" "x < 8" "length (font s) = FONT_SIZE"
  have u: "uint c = int (unat c)" by simp
  have "c < 128" using a(1) by (simp add: word_less_nat_alt)
  then have "uint c < 128" by (simp add: word_less_def)
  moreover have "- 128 \<le> uint c" using uint_ge_0 [of c] by linarith
  ultimately have "sint c = int (unat c)" unfolding sint_uint u by (intro signed_take_bit_int_eq_self) simp_all
  then have "sint c * (8 + 1) + int y * 256 * (8 + 1) + int x = int (unat c * 9 + y * 2304 + x)" by simp
  moreover have "unat c * 9 + y * 2304 + x < FONT_SIZE" using a by (simp add: FONT_SIZE_def)
  ultimately show ?thesis using a(4) by (simp only: font_at_def nat_int) simp
qed

lemma pixel_addr_right: "pixel_addr m x y + 4 = pixel_addr m (Suc x) y"
  by (simp add: pixel_addr_def pixel_offset_def)

lemma pixel_addr_down: "pixel_addr m x y + ucast (pitch m) = pixel_addr m x (Suc y)"
proof -
  have "(ucast (pitch m) :: u32) = of_nat (unat (pitch m))" by (rule word_unat_eq_iff [THEN iffD2]) (use u16_lt [of "pitch m"] in \<open>simp add: unat_of_nat_u32\<close>)
  then show ?thesis by (simp add: pixel_addr_def pixel_offset_def algebra_simps)
qed

lemma glyph_pixels:
  assumes m: "mode_ok (vbe s)" "length (font s) = FONT_SIZE" "unat c < 128" "y < 16"
    and X: "X + 8 \<le> unat (width (vbe s))" "Y < unat (height (vbe s))" and p: "painted s f m"
  shows "k \<le> 8 \<Longrightarrow> \<exists>m'. for_each (glyph_pixel c y) [0..<k] (pixel_addr (vbe s) X Y, s\<lparr>memory := m\<rparr>) = Some (pixel_addr (vbe s) (X + k) Y, s\<lparr>memory := m'\<rparr>) \<and>
    painted s (\<lambda>x' y'. if X \<le> x' \<and> x' < X + k \<and> y' = Y then Some (glyph s c (x' - X) y) else f x' y') m'"
proof (induction k)
  case 0
  have "painted s (\<lambda>x' y'. if X \<le> x' \<and> x' < X + 0 \<and> y' = Y then Some (glyph s c (x' - X) y) else f x' y') m"
    by (rule painted_cong [OF p]) auto
  then show ?case by (intro exI [of _ m]) simp
next
  case (Suc k)
  then obtain m1 where m1: "for_each (glyph_pixel c y) [0..<k] (pixel_addr (vbe s) X Y, s\<lparr>memory := m\<rparr>) = Some (pixel_addr (vbe s) (X + k) Y, s\<lparr>memory := m1\<rparr>)"
    "painted s (\<lambda>x' y'. if X \<le> x' \<and> x' < X + k \<and> y' = Y then Some (glyph s c (x' - X) y) else f x' y') m1"
    by auto
  let ?m = "memory (put_pixel_raw (pixel_addr (vbe s) (X + k) Y) (glyph s c k y) (s\<lparr>memory := m1\<rparr>))"
  have fa: "font_at (sint c * 9 + int y * 256 * 9 + int k) (s\<lparr>memory := m1\<rparr>) = Some (font s ! (unat c * 9 + y * 2304 + k))"
    using font_index [of c y k "s\<lparr>memory := m1\<rparr>"] m Suc.prems by simp
  have "glyph_pixel c y k (pixel_addr (vbe s) (X + k) Y, s\<lparr>memory := m1\<rparr>) = Some (pixel_addr (vbe s) (X + Suc k) Y, s\<lparr>memory := ?m\<rparr>)"
    using m(1) fa pixel_addr_right [of "vbe s" "X + k" Y]
    by (simp add: glyph_pixel_def glyph_def put_pixel_raw_def increment_LFA_index_def mode_ok_def)
  moreover have "painted s (\<lambda>x' y'. if x' = X + k \<and> y' = Y then Some (glyph s c k y)
      else if X \<le> x' \<and> x' < X + k \<and> y' = Y then Some (glyph s c (x' - X) y) else f x' y') ?m"
    by (rule painted_pixel [OF m1(2) m(1)]) (use X Suc.prems in auto)
  then have "painted s (\<lambda>x' y'. if X \<le> x' \<and> x' < X + Suc k \<and> y' = Y then Some (glyph s c (x' - X) y) else f x' y') ?m"
    by (rule painted_cong) auto
  ultimately show ?case using m1(1) by (intro exI [of _ ?m]) (simp add: for_each_append)
qed

lemma glyph_rows:
  assumes m: "mode_ok (vbe s)" "length (font s) = FONT_SIZE" "unat c < 128" and X: "X + 8 \<le> unat (width (vbe s))" "Y + 16 \<le> unat (height (vbe s))"
  shows "k \<le> 16 \<Longrightarrow> \<exists>m'. for_each (glyph_row c) [0..<k] (pixel_addr (vbe s) X Y, s) = Some (pixel_addr (vbe s) X (Y + k), s\<lparr>memory := m'\<rparr>) \<and>
    painted s (\<lambda>x' y'. if X \<le> x' \<and> x' < X + 8 \<and> Y \<le> y' \<and> y' < Y + k then Some (glyph s c (x' - X) (y' - Y)) else None) m'"
proof (induction k)
  case 0
  then show ?case by (intro exI [of _ "memory s"]) (auto intro: painted_cong [OF painted_nothing])
next
  case (Suc k)
  then obtain m1 where m1: "for_each (glyph_row c) [0..<k] (pixel_addr (vbe s) X Y, s) = Some (pixel_addr (vbe s) X (Y + k), s\<lparr>memory := m1\<rparr>)"
    "painted s (\<lambda>x' y'. if X \<le> x' \<and> x' < X + 8 \<and> Y \<le> y' \<and> y' < Y + k then Some (glyph s c (x' - X) (y' - Y)) else None) m1"
    by auto
  obtain m2 where m2: "for_each (glyph_pixel c k) [0..<8] (pixel_addr (vbe s) X (Y + k), s\<lparr>memory := m1\<rparr>) = Some (pixel_addr (vbe s) (X + 8) (Y + k), s\<lparr>memory := m2\<rparr>)"
    "painted s (\<lambda>x' y'. if X \<le> x' \<and> x' < X + 8 \<and> y' = Y + k then Some (glyph s c (x' - X) k)
       else if X \<le> x' \<and> x' < X + 8 \<and> Y \<le> y' \<and> y' < Y + k then Some (glyph s c (x' - X) (y' - Y)) else None) m2"
    using glyph_pixels [OF m _ X(1) _ m1(2), of k "Y + k" 8] Suc.prems X(2) by auto
  have "painted s (\<lambda>x' y'. if X \<le> x' \<and> x' < X + 8 \<and> Y \<le> y' \<and> y' < Y + Suc k then Some (glyph s c (x' - X) (y' - Y)) else None) m2"
    by (rule painted_cong [OF m2(2)]) auto
  moreover have "glyph_row c k (pixel_addr (vbe s) X (Y + k), s\<lparr>memory := m1\<rparr>) = Some (pixel_addr (vbe s) X (Y + Suc k), s\<lparr>memory := m2\<rparr>)"
    using m2(1) pixel_addr_down [of "vbe s" X "Y + k"] by (simp add: glyph_row_def skip_LFA_line_def del: upt.simps upt_Suc)
  ultimately show ?case using m1(1) by (intro exI [of _ m2]) (simp add: for_each_append)
qed

subsection \<open>Cells\<close>

definition columns :: "'a screen_scheme \<Rightarrow> nat" where
  "columns s = unat (charsHorizontal s)"

definition cells :: "'a screen_scheme \<Rightarrow> nat" where
  "cells s = columns s * unat (charsVertical s)"

definition cell_no :: "'a screen_scheme \<Rightarrow> nat" where
  \<comment> \<open>The cell the cursor is at.\<close>
  "cell_no s = unat (p_y (cursor s)) * columns s + unat (p_x (cursor s))"

definition cell_pixel :: "'a screen_scheme \<Rightarrow> nat \<Rightarrow> nat \<Rightarrow> nat \<Rightarrow> u32" where
  "cell_pixel s q x y = pixel s (8 * (q mod columns s) + x) (16 * (q div columns s) + y)"

definition shows_char :: "'a screen_scheme \<Rightarrow> u8 \<Rightarrow> nat \<Rightarrow> bool" where
  "shows_char s c q \<longleftrightarrow> (\<forall>x < 8. \<forall>y < 16. cell_pixel s q x y = glyph s c x y)"

definition printable :: "u8 \<Rightarrow> bool" where
  "printable c \<longleftrightarrow> unat c < 128 \<and> c \<notin> {8, 9, 10, 13}"

definition drawn :: "'a screen_scheme \<Rightarrow> 'a screen_scheme \<Rightarrow> bool" where
  \<comment> \<open>Drawing changes only the frame and the cursor.\<close>
  "drawn s s' \<longleftrightarrow> s' = s\<lparr>memory := memory s', cursor := cursor s'\<rparr> \<and> (\<forall>a. \<not> in_frame (vbe s) a \<longrightarrow> memory s' a = memory s a)"

lemma drawn_fields:
  assumes "drawn s s'"
  shows "vbe s' = vbe s" "columns s' = columns s" "cells s' = cells s" "glyph s' = glyph s"
    "charsHorizontal s' = charsHorizontal s" "charsVertical s' = charsVertical s" "font s' = font s"
    "screen_initialized s' = screen_initialized s" "font_loaded s' = font_loaded s"
  using assms by (cases s; cases s'; simp add: drawn_def columns_def cells_def glyph_def fun_eq_iff)+

lemma drawn_trans: "drawn s s1 \<Longrightarrow> drawn s1 s2 \<Longrightarrow> drawn s s2"
  using drawn_fields [of s s1] by (cases s; cases s1; cases s2) (simp add: drawn_def)

lemma LFA_index: "mode_ok (vbe s) \<Longrightarrow> get_LFA_index (make_point x y) s = pixel_addr (vbe s) (unat x) (unat y)"
proof -
  assume m: "mode_ok (vbe s)"
  have u: "(ucast a :: u32) = of_nat (unat a)" for a :: u16
    using u16_lt [of a] by (simp add: word_unat_eq_iff unat_of_nat_u32)
  have "unat (ucast x * 32 :: u32) = unat x * 32" using u16_lt [of x] by (simp add: unat_word_ariths)
  then have "unat ((ucast x * 32 :: u32) div 8) = 4 * unat x" by (simp add: unat_div)
  then have "(ucast x * 32 :: u32) div 8 = of_nat (4 * unat x)"
    using u16_lt [of x] by (simp add: word_unat_eq_iff unat_of_nat_u32 del: of_nat_mult)
  moreover have "bpp (vbe s) = 32" using m by (simp add: mode_ok_def)
  ultimately have "get_LFA_index (make_point x y) s = of_nat (unat y) * of_nat (unat (pitch (vbe s))) + of_nat (4 * unat x) + framebuffer (vbe s)"
    by (simp only: get_LFA_index_def make_point_def point.select_convs u) simp
  then show ?thesis by (simp only: pixel_addr_def pixel_offset_def of_nat_add of_nat_mult add.commute)
qed

lemma ready_bounds:
  assumes "ready s"
  shows "8 * unat (p_x (cursor s)) + 8 \<le> unat (width (vbe s))" "16 * unat (p_y (cursor s)) + 16 \<le> unat (height (vbe s))"
    "unat (p_x (cursor s) * 8) = 8 * unat (p_x (cursor s))" "unat (p_y (cursor s) * 16) = 16 * unat (p_y (cursor s))"
    "columns s = unat (width (vbe s)) div 8" "unat (charsVertical s) = unat (height (vbe s)) div 16"
    "unat (p_x (cursor s)) < columns s" "unat (p_y (cursor s)) < unat (charsVertical s)" "cell_no s < cells s"
proof -
  show c: "columns s = unat (width (vbe s)) div 8" "unat (charsVertical s) = unat (height (vbe s)) div 16"
    using assms by (simp_all add: ready_def columns_def unat_div)
  show l: "unat (p_x (cursor s)) < columns s" "unat (p_y (cursor s)) < unat (charsVertical s)"
    using assms unfolding ready_def columns_def word_less_nat_alt by blast+
  show b: "8 * unat (p_x (cursor s)) + 8 \<le> unat (width (vbe s))" "16 * unat (p_y (cursor s)) + 16 \<le> unat (height (vbe s))"
    using c l by linarith+
  show "unat (p_x (cursor s) * 8) = 8 * unat (p_x (cursor s))" "unat (p_y (cursor s) * 16) = 16 * unat (p_y (cursor s))"
    using b u16_lt [of "width (vbe s)"] u16_lt [of "height (vbe s)"] by (simp_all add: unat_word_ariths)
  have "Suc (unat (p_y (cursor s))) * columns s \<le> unat (charsVertical s) * columns s" using l by (intro mult_le_mono1) simp
  then show "cell_no s < cells s" using l by (simp add: cell_no_def cells_def mult.commute)
qed

lemma cell_position: "ready s \<Longrightarrow> cell_no s mod columns s = unat (p_x (cursor s)) \<and> cell_no s div columns s = unat (p_y (cursor s))"
  using ready_bounds(7) [of s] by (simp add: cell_no_def)

lemma cell_inside:
  assumes "ready s" and "q < cells s" and "x < 8" and "y < 16"
  shows "8 * (q mod columns s) + x < unat (width (vbe s))" and "16 * (q div columns s) + y < unat (height (vbe s))"
proof -
  have p: "0 < columns s" using ready_bounds(7) [OF assms(1)] by simp
  then have "q mod columns s < columns s" by simp
  then show "8 * (q mod columns s) + x < unat (width (vbe s))" using ready_bounds(5) [OF assms(1)] assms(3) by linarith
  have "q div columns s < unat (charsVertical s)" using assms(2) p by (simp add: cells_def less_mult_imp_div_less mult.commute)
  then show "16 * (q div columns s) + y < unat (height (vbe s))" using ready_bounds(6) [OF assms(1)] assms(4) by linarith
qed

lemma draw_glyph_ok:
  assumes r: "ready s" and c: "unat c < 128"
  obtains m where "draw_glyph c (make_point (p_x (cursor s) * 8) (p_y (cursor s) * 16)) s = Some (s\<lparr>memory := m\<rparr>)"
    "painted s (\<lambda>x' y'. if 8 * unat (p_x (cursor s)) \<le> x' \<and> x' < 8 * unat (p_x (cursor s)) + 8 \<and>
        16 * unat (p_y (cursor s)) \<le> y' \<and> y' < 16 * unat (p_y (cursor s)) + 16
      then Some (glyph s c (x' - 8 * unat (p_x (cursor s))) (y' - 16 * unat (p_y (cursor s)))) else None) m"
proof -
  have m: "mode_ok (vbe s)" "length (font s) = FONT_SIZE" using r by (simp_all add: ready_def)
  show thesis
    using glyph_rows [OF m c ready_bounds(1,2) [OF r], of 16] that
    unfolding draw_glyph_def LFA_index [OF m(1)] ready_bounds(3,4) [OF r] by (auto simp del: upt.simps)
qed

lemma advance:
  fixes h v x y :: nat
  assumes "x < h" and "y < v"
  shows "(y * h + x + 1) mod (h * v) =
    (if x + 1 = h then (if y + 1 = v then 0 else (y + 1) * h) else y * h + (x + 1))"
proof -
  have e: "(y + 1) * h \<le> v * h" using assms(2) by (intro mult_le_mono1) simp
  show ?thesis
  proof (cases "x + 1 = h")
    case True
    then have n: "y * h + x + 1 = (y + 1) * h" by simp
    show ?thesis
    proof (cases "y + 1 = v")
      case False
      then have "(y + 1) * h < v * h" using assms by (intro mult_strict_right_mono) simp_all
      then show ?thesis unfolding n using True False by (simp add: mult.commute)
    qed (use True n in \<open>simp add: mult.commute\<close>)
  next
    case False
    then have "y * h + x + 1 < h * v" using assms e by (simp add: mult.commute)
    then show ?thesis using False by simp
  qed
qed

lemma cursor_steps:
  assumes r: "ready s" and s1: "s1 = s\<lparr>memory := m, cursor := (cursor s)\<lparr>p_x := p_x (cursor s) + 1\<rparr>\<rparr>"
    and s2: "s2 = (if p_x (cursor s1) \<ge> charsHorizontal s1 then s1\<lparr>cursor := \<lparr>p_x = 0, p_y = p_y (cursor s1) + 1\<rparr>\<rparr> else s1)"
    and s3: "s3 = (if p_y (cursor s2) \<ge> charsVertical s2 then s2\<lparr>cursor := (cursor s2)\<lparr>p_y := 0\<rparr>\<rparr> else s2)"
  shows "ready s3 \<and> cell_no s3 = (cell_no s + 1) mod cells s \<and> s3 = s\<lparr>memory := m, cursor := cursor s3\<rparr>"
proof -
  let ?x = "unat (p_x (cursor s))" and ?y = "unat (p_y (cursor s))" and ?h = "columns s" and ?v = "unat (charsVertical s)"
  note b = ready_bounds [OF r]
  have hv: "?h \<le> 8191" "?v \<le> 4095" using b(5,6) u16_lt [of "width (vbe s)"] u16_lt [of "height (vbe s)"] by linarith+
  have x1: "unat (p_x (cursor s) + 1) = ?x + 1" and y1: "unat (p_y (cursor s) + 1) = ?y + 1"
    using b(7,8) hv by (simp_all add: unat_word_ariths)
  have cmp: "charsHorizontal s \<le> p_x (cursor s) + 1 \<longleftrightarrow> ?x + 1 = ?h" "charsVertical s \<le> p_y (cursor s) + 1 \<longleftrightarrow> ?y + 1 = ?v"
    "\<not> charsVertical s \<le> p_y (cursor s)"
    using b(7,8) by (auto simp: word_le_nat_alt x1 y1 columns_def)
  have c3: "cursor s3 = (if ?x + 1 = ?h then \<lparr>p_x = 0, p_y = (if ?y + 1 = ?v then 0 else p_y (cursor s) + 1)\<rparr>
      else (cursor s)\<lparr>p_x := p_x (cursor s) + 1\<rparr>)"
    unfolding s3 s2 s1 using cmp by simp
  have e: "s3 = s\<lparr>memory := m, cursor := cursor s3\<rparr>" unfolding s3 s2 s1 by simp
  have f: "columns s3 = columns s" "charsVertical s3 = charsVertical s" "charsHorizontal s3 = charsHorizontal s"
    by (subst e, simp add: columns_def)+
  have "cell_no s3 = (cell_no s + 1) mod cells s"
    unfolding cell_no_def cells_def f advance [OF b(7,8)] c3 using x1 y1 by simp
  moreover have "p_x (cursor s3) < charsHorizontal s \<and> p_y (cursor s3) < charsVertical s"
    unfolding c3 using b(7,8) x1 y1 by (auto simp: word_less_nat_alt columns_def)
  then have "ready (s\<lparr>memory := m, cursor := cursor s3\<rparr>)" using r unfolding ready_def by (elim conjE) simp
  then have "ready s3" using e by metis
  ultimately show ?thesis using e by blast
qed

lemma other_cell:
  assumes p: "0 < h" and q: "q \<noteq> r" and x: "x < 8" "y < (16 :: nat)"
  shows "\<not> (8 * (r mod h) \<le> 8 * (q mod h) + x \<and> 8 * (q mod h) + x < 8 * (r mod h) + 8 \<and>
    16 * (r div h) \<le> 16 * (q div h) + y \<and> 16 * (q div h) + y < 16 * (r div h) + 16)"
proof
  assume "8 * (r mod h) \<le> 8 * (q mod h) + x \<and> 8 * (q mod h) + x < 8 * (r mod h) + 8 \<and>
    16 * (r div h) \<le> 16 * (q div h) + y \<and> 16 * (q div h) + y < 16 * (r div h) + 16"
  then have "q mod h = r mod h" "q div h = r div h" using x by linarith+
  then show False using q div_mult_mod_eq [of q h] div_mult_mod_eq [of r h] by simp
qed

lemma draw_char_shows:
  assumes r: "ready s" and c: "printable c"
  obtains s' where "draw_char c s = Some s'" "ready s'" "drawn s s'" "cell_no s' = (cell_no s + 1) mod cells s"
    "shows_char s' c (cell_no s)" "\<And>q x y. q < cells s \<Longrightarrow> q \<noteq> cell_no s \<Longrightarrow> x < 8 \<Longrightarrow> y < 16 \<Longrightarrow> cell_pixel s' q x y = cell_pixel s q x y"
proof -
  let ?x = "unat (p_x (cursor s))" and ?y = "unat (p_y (cursor s))"
  have c': "unat c < 128" "c \<noteq> 8" "c \<noteq> 9" "c \<noteq> 10" "c \<noteq> 13" using c by (simp_all add: printable_def)
  obtain m where m: "draw_glyph c (make_point (p_x (cursor s) * 8) (p_y (cursor s) * 16)) s = Some (s\<lparr>memory := m\<rparr>)"
    "painted s (\<lambda>x' y'. if 8 * ?x \<le> x' \<and> x' < 8 * ?x + 8 \<and> 16 * ?y \<le> y' \<and> y' < 16 * ?y + 16
      then Some (glyph s c (x' - 8 * ?x) (y' - 16 * ?y)) else None) m"
    by (rule draw_glyph_ok [OF r c'(1)])
  define s1 where "s1 = s\<lparr>memory := m, cursor := (cursor s)\<lparr>p_x := p_x (cursor s) + 1\<rparr>\<rparr>"
  define s2 where "s2 = (if p_x (cursor s1) \<ge> charsHorizontal s1 then s1\<lparr>cursor := \<lparr>p_x = 0, p_y = p_y (cursor s1) + 1\<rparr>\<rparr> else s1)"
  define s3 where "s3 = (if p_y (cursor s2) \<ge> charsVertical s2 then s2\<lparr>cursor := (cursor s2)\<lparr>p_y := 0\<rparr>\<rparr> else s2)"
  have st: "ready s3" "cell_no s3 = (cell_no s + 1) mod cells s" "s3 = s\<lparr>memory := m, cursor := cursor s3\<rparr>"
    using cursor_steps [OF r s1_def s2_def s3_def] by blast+
  have d: "draw_char c s = Some s3"
    using r c'(2-5) m(1) by (simp add: draw_char_def ready_def s1_def s2_def s3_def Let_def)
  have mem: "memory s3 = m" by (subst st(3)) simp
  have dr: "drawn s s3" using m(2) st(3) mem by (simp add: drawn_def painted_def)
  note f = drawn_fields [OF dr]
  have cp: "cell_pixel s3 q x y = pixel (s\<lparr>memory := m\<rparr>) (8 * (q mod columns s) + x) (16 * (q div columns s) + y)" for q x y
    unfolding cell_pixel_def f pixel_def mem by simp
  have cn: "cell_no s mod columns s = ?x" "cell_no s div columns s = ?y" using cell_position [OF r] by simp_all
  have "shows_char s3 c (cell_no s)"
    unfolding shows_char_def cp f cn
  proof (intro allI impI)
    fix x y :: nat assume "x < 8" "y < 16"
    then show "pixel (s\<lparr>memory := m\<rparr>) (8 * ?x + x) (16 * ?y + y) = glyph s c x y"
      using m(2) cell_inside [OF r ready_bounds(9) [OF r], unfolded cn, of x y] by (simp add: painted_def)
  qed
  moreover have "cell_pixel s3 q x y = cell_pixel s q x y" if "q < cells s" "q \<noteq> cell_no s" "x < 8" "y < 16" for q x y
  proof -
    have "0 < columns s" using ready_bounds(7) [OF r] by simp
    from other_cell [OF this that(2-4), unfolded cn] show ?thesis
      unfolding cp cell_pixel_def [of s] using m(2) cell_inside [OF r that(1,3,4)] by (auto simp: painted_def)
  qed
  ultimately show thesis using that d st(1,2) dr by blast
qed

subsection \<open>Text\<close>

lemma shows_char_keeps:
  assumes "shows_char s c q" and "drawn s s'" and "\<And>x y. x < 8 \<Longrightarrow> y < 16 \<Longrightarrow> cell_pixel s' q x y = cell_pixel s q x y"
  shows "shows_char s' c q"
  using assms drawn_fields [OF assms(2)] by (simp add: shows_char_def)

lemma draw_chars_shows:
  assumes "ready s" and "\<forall>c \<in> set cs. printable c" and "length cs \<le> cells s"
  shows "\<exists>s'. for_each draw_char cs s = Some s' \<and> ready s' \<and> drawn s s' \<and> cell_no s' = (cell_no s + length cs) mod cells s \<and>
    (\<forall>i < length cs. shows_char s' (cs ! i) ((cell_no s + i) mod cells s)) \<and>
    (\<forall>q < cells s. q \<notin> (\<lambda>i. (cell_no s + i) mod cells s) ` {..<length cs} \<longrightarrow> (\<forall>x < 8. \<forall>y < 16. cell_pixel s' q x y = cell_pixel s q x y))"
  using assms(2,3)
proof (induction cs rule: rev_induct)
  case Nil
  then show ?case using assms(1) ready_bounds(9) [OF assms(1)] by (simp add: drawn_def)
next
  case (snoc c cs)
  obtain s1 where s1: "for_each draw_char cs s = Some s1" "ready s1" "drawn s s1" "cell_no s1 = (cell_no s + length cs) mod cells s"
    "\<And>i. i < length cs \<Longrightarrow> shows_char s1 (cs ! i) ((cell_no s + i) mod cells s)"
    "\<And>q x y. q < cells s \<Longrightarrow> q \<notin> (\<lambda>i. (cell_no s + i) mod cells s) ` {..<length cs} \<Longrightarrow> x < 8 \<Longrightarrow> y < 16 \<Longrightarrow> cell_pixel s1 q x y = cell_pixel s q x y"
    using snoc.IH snoc.prems by auto
  note f = drawn_fields [OF s1(3)]
  obtain s2 where s2: "draw_char c s1 = Some s2" "ready s2" "drawn s1 s2" "cell_no s2 = (cell_no s1 + 1) mod cells s"
    "shows_char s2 c (cell_no s1)" "\<And>q x y. q < cells s \<Longrightarrow> q \<noteq> cell_no s1 \<Longrightarrow> x < 8 \<Longrightarrow> y < 16 \<Longrightarrow> cell_pixel s2 q x y = cell_pixel s1 q x y"
    using draw_char_shows [OF s1(2)] snoc.prems(1) unfolding f by (metis in_set_conv_decomp)
  have pos: "0 < cells s" using ready_bounds(9) [OF assms(1)] by simp
  have apart: "(cell_no s + i) mod cells s \<noteq> cell_no s1" if "i < length cs" for i
  proof
    assume "(cell_no s + i) mod cells s = cell_no s1"
    then have "(cell_no s + i) mod cells s = (cell_no s + length cs) mod cells s" using s1(4) by simp
    then have "cells s dvd (cell_no s + length cs) - (cell_no s + i)" using that by (metis mod_eq_dvd_iff_nat add_le_cancel_left less_imp_le)
    then have "cells s dvd length cs - i" by simp
    then show False using that snoc.prems(2) by (auto dest!: dvd_imp_le)
  qed
  have keep: "shows_char s2 (cs ! i) ((cell_no s + i) mod cells s)" if "i < length cs" for i
    by (rule shows_char_keeps [OF s1(5) [OF that] s2(3)], rule s2(6)) (use pos apart [OF that] in simp_all)
  have "for_each draw_char (cs @ [c]) s = Some s2" using s1(1) s2(1) by (simp add: for_each_append)
  moreover have "\<forall>i < length (cs @ [c]). shows_char s2 ((cs @ [c]) ! i) ((cell_no s + i) mod cells s)"
    using keep s2(5) s1(4) by (auto simp: nth_append less_Suc_eq)
  moreover have "cell_no s2 = (cell_no s + length (cs @ [c])) mod cells s" using s2(4) s1(4) by (simp add: mod_simps)
  moreover have "cell_pixel s2 q x y = cell_pixel s q x y"
    if "q < cells s" "q \<notin> (\<lambda>i. (cell_no s + i) mod cells s) ` {..<length (cs @ [c])}" "x < 8" "y < 16" for q x y
    using that s1(4) s1(6) [of q x y] s2(6) [of q x y] by (auto simp: lessThan_Suc)
  ultimately show ?case using s2(2) drawn_trans [OF s1(3) s2(3)] by blast
qed

lemma for_each_const: "for_each (\<lambda>j. for_each f xs) js s = for_each f (concat (replicate (length js) xs)) s"
  by (induction js arbitrary: s) (simp_all add: for_each_append)

lemma for_each_replicate: "for_each (\<lambda>j. draw_char c) js s = for_each draw_char (replicate (length js) c) s"
  by (induction js arbitrary: s) simp_all

lemma concat_replicate_replicate: "concat (replicate n (replicate m c)) = replicate (n * m) c"
  by (induction n) (simp_all add: replicate_add)

text \<open>
  Clearing the screen, wherever the cursor is: every cell then shows the character 0, the cursor is at
  the top left, and no memory outside the frame buffer has changed.
\<close>

theorem clear_screen_correct:
  assumes "ready s"
  shows "\<exists>s'. clear_screen s = Some s' \<and> ready s' \<and> cell_no s' = 0 \<and> (\<forall>q < cells s. shows_char s' 0 q) \<and>
    (\<forall>a. \<not> in_frame (vbe s) a \<longrightarrow> memory s' a = memory s a)"
proof -
  note b = ready_bounds [OF assms]
  have "for_each (\<lambda>i. for_each (\<lambda>j. draw_char 0) [0..<unat (charsVertical s)]) [0..<unat (charsHorizontal s)] s =
      for_each draw_char (replicate (cells s) 0) s"
    unfolding for_each_replicate for_each_const concat_replicate_replicate by (simp add: cells_def columns_def length_concat sum_list_replicate)
  moreover obtain s1 where s1: "for_each draw_char (replicate (cells s) 0) s = Some s1" "ready s1" "drawn s s1"
    "\<And>i. i < cells s \<Longrightarrow> shows_char s1 (replicate (cells s) 0 ! i) ((cell_no s + i) mod cells s)"
    using draw_chars_shows [OF assms, of "replicate (cells s) 0"] by (auto simp: printable_def)
  ultimately have run: "clear_screen s = Some (s1\<lparr>cursor := make_point 0 0\<rparr>)" by (simp add: clear_screen_def)
  have same: "cell_pixel (s1\<lparr>cursor := p\<rparr>) = cell_pixel s1" "glyph (s1\<lparr>cursor := p\<rparr>) = glyph s1" "columns (s1\<lparr>cursor := p\<rparr>) = columns s1" for p
    by (simp_all add: cell_pixel_def fun_eq_iff pixel_def columns_def glyph_def)
  have "shows_char (s1\<lparr>cursor := make_point 0 0\<rparr>) 0 q" if q: "q < cells s" for q
  proof -
    have e: "(cell_no s + (q + cells s - cell_no s) mod cells s) mod cells s = q"
      using q b(9) by (simp add: mod_simps)
    have "(q + cells s - cell_no s) mod cells s < cells s" using q by (intro mod_less_divisor) simp
    from s1(4) [OF this] have "shows_char s1 0 q" unfolding e using q by simp
    then show ?thesis by (simp add: shows_char_def same)
  qed
  moreover have "ready (s1\<lparr>cursor := make_point 0 0\<rparr>)" using s1(2) unfolding ready_def make_point_def by (elim conjE) simp
  moreover have "cell_no (s1\<lparr>cursor := make_point 0 0\<rparr>) = 0" by (simp add: cell_no_def make_point_def)
  ultimately show ?thesis using run s1(3) by (simp add: drawn_def)
qed

lemma text_loop:
  assumes "\<And>i. i \<in> set is \<Longrightarrow> printable (memory s (ptr + of_nat i)) \<and> \<not> in_frame (vbe s) (ptr + of_nat i)"
  shows "ready s1 \<Longrightarrow> drawn s s1 \<Longrightarrow> for_each (\<lambda>i s. draw_char (memory s (ptr + of_nat i)) s) is s1 =
    for_each draw_char (map (\<lambda>i. memory s (ptr + of_nat i)) is) s1"
  using assms
proof (induction "is" arbitrary: s1)
  case (Cons i "is")
  have c: "printable (memory s (ptr + of_nat i))" "memory s1 (ptr + of_nat i) = memory s (ptr + of_nat i)"
    using Cons.prems(2,3) by (auto simp: drawn_def)
  obtain s2 where s2: "draw_char (memory s (ptr + of_nat i)) s1 = Some s2" "ready s2" "drawn s1 s2"
    by (rule draw_char_shows [OF Cons.prems(1) c(1)])
  show ?case using Cons.IH [OF s2(2) drawn_trans [OF Cons.prems(2) s2(3)]] Cons.prems(3) c(2) s2(1) by simp
qed simp

lemma draw_text_loop:
  assumes "ready s1" and "drawn s s1" and "\<And>i. i < n \<Longrightarrow> printable (memory s (ptr + of_nat i)) \<and> memory s (ptr + of_nat i) \<noteq> 0"
    and "\<And>i. i \<le> n \<Longrightarrow> \<not> in_frame (vbe s) (ptr + of_nat i)" and "memory s (ptr + of_nat n) = 0"
  shows "draw_text ptr s1 = Option.bind (for_each draw_char (map (\<lambda>i. memory s (ptr + of_nat i)) [0..<n]) s1) (\<lambda>s. Some (ptr + of_nat n, s))"
  using assms
proof (induction n arbitrary: s1 ptr)
  case 0
  then have "memory s1 ptr = 0" using 0(4) [of 0] by (auto simp: drawn_def)
  then show ?case by (simp add: draw_text.simps)
next
  case (Suc n)
  have c: "printable (memory s ptr)" "memory s1 ptr = memory s ptr" "memory s ptr \<noteq> 0"
    using Suc.prems(2) Suc.prems(3,4) [of 0] by (auto simp: drawn_def)
  obtain s2 where s2: "draw_char (memory s ptr) s1 = Some s2" "ready s2" "drawn s1 s2"
    by (rule draw_char_shows [OF Suc.prems(1) c(1)])
  have e: "ptr + 1 + of_nat i = ptr + of_nat (Suc i)" for i by simp
  have "draw_text (ptr + 1) s2 = Option.bind (for_each draw_char (map (\<lambda>i. memory s (ptr + 1 + of_nat i)) [0..<n]) s2) (\<lambda>s. Some (ptr + 1 + of_nat n, s))"
  proof (rule Suc.IH [OF s2(2) drawn_trans [OF Suc.prems(2) s2(3)]])
    show "printable (memory s (ptr + 1 + of_nat i)) \<and> memory s (ptr + 1 + of_nat i) \<noteq> 0" if "i < n" for i
      using Suc.prems(3) [of "Suc i"] that unfolding e by simp
    show "\<not> in_frame (vbe s) (ptr + 1 + of_nat i)" if "i \<le> n" for i using Suc.prems(4) [of "Suc i"] that unfolding e by simp
    show "memory s (ptr + 1 + of_nat n) = 0" using Suc.prems(5) unfolding e .
  qed
  then have "draw_text ptr s1 = Option.bind (for_each draw_char (map (\<lambda>i. memory s (ptr + of_nat (Suc i))) [0..<n]) s2) (\<lambda>s. Some (ptr + of_nat (Suc n), s))"
    using c s2(1) by (simp add: draw_text.simps [of ptr s1] e)
  moreover have "map (\<lambda>i. memory s (ptr + of_nat i)) [0..<Suc n] = memory s ptr # map (\<lambda>i. memory s (ptr + of_nat (Suc i))) [0..<n]"
    by (simp add: map_upt_Suc del: upt.simps)
  ultimately show ?case using s2(1) by simp
qed

text \<open>
  C37. Writing text to the screen's device, either a number of bytes or a string with its end: for printable text
  that lies outside the frame buffer and is no longer than the screen, the cells from the cursor on, row after row and from the
  last one on to the first, show the characters in order; the cursor is behind the last one; no other cell and no memory outside
  the frame buffer has changed.
\<close>

theorem write_shows_text:
  assumes r: "ready s" and cs: "load (memory s) (address + start) (length cs) = cs" "\<forall>c \<in> set cs. printable c" "length cs \<le> cells s"
    and out: "\<forall>i \<le> length cs. \<not> in_frame (vbe s) (address + start + of_nat i)"
    and n: "count = of_nat (length cs) \<and> cs \<noteq> [] \<or> count = 0 \<and> 0 \<notin> set cs \<and> memory s (address + start + of_nat (length cs)) = 0"
  shows "\<exists>s'. screen_gfx_write start count address s = Some (if count = 0 then start + of_nat (length cs) else count, s') \<and>
    ready s' \<and> cell_no s' = (cell_no s + length cs) mod cells s \<and>
    (\<forall>i < length cs. shows_char s' (cs ! i) ((cell_no s + i) mod cells s)) \<and>
    (\<forall>q < cells s. q \<notin> (\<lambda>i. (cell_no s + i) mod cells s) ` {..<length cs} \<longrightarrow> (\<forall>x < 8. \<forall>y < 16. cell_pixel s' q x y = cell_pixel s q x y)) \<and>
    (\<forall>a. \<not> in_frame (vbe s) a \<longrightarrow> memory s' a = memory s a)"
proof -
  let ?p = "address + start"
  have m: "map (\<lambda>i. memory s (?p + of_nat i)) [0..<length cs] = cs" using cs(1) by (simp add: load_def)
  have ci: "memory s (?p + of_nat i) = cs ! i" if "i < length cs" for i
    using that arg_cong [OF m, of "\<lambda>xs. xs ! i"] by simp
  obtain s' where s': "for_each draw_char cs s = Some s'" "ready s'" "drawn s s'" "cell_no s' = (cell_no s + length cs) mod cells s"
    "\<forall>i < length cs. shows_char s' (cs ! i) ((cell_no s + i) mod cells s)"
    "\<forall>q < cells s. q \<notin> (\<lambda>i. (cell_no s + i) mod cells s) ` {..<length cs} \<longrightarrow> (\<forall>x < 8. \<forall>y < 16. cell_pixel s' q x y = cell_pixel s q x y)"
    using draw_chars_shows [OF r cs(2,3)] by blast
  have fl: "font_loaded s" using r by (simp add: ready_def)
  have refl: "drawn s s" by (simp add: drawn_def)
  have "screen_gfx_write start count address s = Some (if count = 0 then start + of_nat (length cs) else count, s')"
    using n
  proof
    assume n: "count = of_nat (length cs) \<and> cs \<noteq> []"
    have "columns s \<le> 65535" "unat (charsVertical s) \<le> 65535" using u16_lt [of "charsHorizontal s"] u16_lt [of "charsVertical s"]
      by (simp_all add: columns_def)
    then have "cells s \<le> 65535 * 65535" unfolding cells_def by (rule mult_le_mono)
    then have "length cs < 2 ^ 32" using cs(3) by simp
    then have u: "unat count = length cs" using n by (simp add: unat_of_nat_u32)
    have "for_each (\<lambda>i s. draw_char (memory s (?p + of_nat i)) s) [0..<length cs] s =
        for_each draw_char (map (\<lambda>i. memory s (?p + of_nat i)) [0..<length cs]) s"
      by (rule text_loop [OF _ r refl]) (use out cs(2) ci in simp)
    then have "for_each (\<lambda>i s. draw_char (memory s (?p + of_nat i)) s) [0..<length cs] s = Some s'" unfolding m using s'(1) by simp
    moreover have "count \<noteq> 0" using u n by auto
    ultimately show ?thesis using fl u by (simp add: screen_gfx_write_def Let_def)
  next
    assume n: "count = 0 \<and> 0 \<notin> set cs \<and> memory s (?p + of_nat (length cs)) = 0"
    have "draw_text ?p s = Option.bind (for_each draw_char (map (\<lambda>i. memory s (?p + of_nat i)) [0..<length cs]) s) (\<lambda>s. Some (?p + of_nat (length cs), s))"
    proof (rule draw_text_loop [OF r refl])
      show "printable (memory s (?p + of_nat i)) \<and> memory s (?p + of_nat i) \<noteq> 0" if "i < length cs" for i
        using ci [OF that] n cs(2) nth_mem [OF that] by force
    qed (use out n in auto)
    then show ?thesis using fl n s'(1) unfolding m by (simp add: screen_gfx_write_def Let_def)
  qed
  then show ?thesis using s'(2-6) by (simp add: drawn_def)
qed

subsection \<open>An instance\<close>

definition sample_screen :: screen where
  \<comment> \<open>Twenty columns and two rows, the cursor at the last column; the text ``MeOS'' lies at 0x1000.\<close>
  "sample_screen = \<lparr>memory = (\<lambda>_. 0)(0x1000 := 0x4D, 0x1001 := 0x65, 0x1002 := 0x4F, 0x1003 := 0x53), font = replicate FONT_SIZE 1, font_loaded = True,
     vbe = \<lparr>pitch = 640, width = 160, height = 32, bpp = 32, framebuffer = 0xE0000000\<rparr>, cursor = \<lparr>p_x = 19, p_y = 0\<rparr>,
     charsHorizontal = 20, charsVertical = 2, foreground = 0xFFFFFF, background = 0, screen_initialized = True\<rparr>"

lemma sample_screen_ready: "ready sample_screen" "cells sample_screen = 40" "cell_no sample_screen = 19"
  by (simp_all add: sample_screen_def ready_def mode_ok_def cells_def columns_def cell_no_def)

lemma clear_screen_correct_witness:
  "\<exists>s'. clear_screen sample_screen = Some s' \<and> cell_no s' = 0 \<and> shows_char s' 0 39"
  using clear_screen_correct [OF sample_screen_ready(1)] by (auto simp: sample_screen_ready)

lemma write_shows_text_witness:
  "\<exists>s'. screen_gfx_write 0 0 0x1000 sample_screen = Some (4, s') \<and> cell_no s' = 23 \<and> shows_char s' 0x4D 19 \<and> shows_char s' 0x65 20"
proof -
  let ?cs = "[0x4D, 0x65, 0x4F, 0x53] :: bytes"
  have l: "load (memory sample_screen) (0x1000 + 0) (length ?cs) = ?cs" by (simp add: load_def sample_screen_def upt_rec)
  have p: "\<forall>c \<in> set ?cs. printable c" by (simp add: printable_def)
  have "\<not> in_frame (vbe sample_screen) (0x1000 + 0 + of_nat i)" if "i \<le> 4" for i
  proof -
    have "i \<in> {0, 1, 2, 3, 4}" using that by auto
    then show ?thesis by (auto simp: in_frame_def sample_screen_def)
  qed
  then have o: "\<forall>i \<le> length ?cs. \<not> in_frame (vbe sample_screen) (0x1000 + 0 + of_nat i)" by simp
  have n: "0 = of_nat (length ?cs) \<and> ?cs \<noteq> [] \<or> (0 :: u32) = 0 \<and> 0 \<notin> set ?cs \<and> memory sample_screen (0x1000 + 0 + of_nat (length ?cs)) = 0"
    by (simp add: sample_screen_def)
  have c: "length ?cs \<le> cells sample_screen" by (simp add: sample_screen_ready)
  from write_shows_text [OF sample_screen_ready(1) l p c o n] obtain s' where
    s': "screen_gfx_write 0 0 0x1000 sample_screen = Some (4, s')" "cell_no s' = 23"
      "\<And>i. i < 4 \<Longrightarrow> shows_char s' (?cs ! i) ((19 + i) mod 40)"
    by (auto simp: sample_screen_ready)
  show ?thesis using s'(1,2) s'(3) [of 0] s'(3) [of 1] by auto
qed

end
