(* ===== verification/Printing.thy ===== *)
theory Printing
  imports Screen_Facts
begin

text \<open>
  Formatted output, print_utility.cpp and SerialDebugger.cpp. The arguments of a variadic call are the words on the stack; the
  string at a pointer is given by \<open>str\<close>, its terminating zero included. A write to the screen's file is \<open>write\<close>, of a count and the
  bytes at the address; what it returns is ignored. More arguments than were passed, and a text that does not fit the
  buffer of 20 bytes, are \<open>None\<close>.
\<close>

subsection \<open>print_utility.cpp\<close>

definition va_arg :: "u32 list \<Rightarrow> (u32 \<times> u32 list) option" where
  "va_arg args = (case args of [] \<Rightarrow> None | x # xs \<Rightarrow> Some (x, xs))"

definition print_directive ::
  "(u32 \<Rightarrow> bytes) \<Rightarrow> (u32 \<Rightarrow> bytes \<Rightarrow> 's \<Rightarrow> 's option) \<Rightarrow> u8 \<Rightarrow> bytes \<Rightarrow> u32 list \<Rightarrow> 's \<Rightarrow> (bytes \<times> u32 list \<times> 's) option" where
  \<comment> \<open>The characters u, i, h, x, s, c, l and b, in this order.\<close>
  "print_directive str write d buffer args s =
     (if d = 117 then do {
        (val, args) \<leftarrow> va_arg args;
        buffer \<leftarrow> uitoa val buffer 10;
        s \<leftarrow> write 0 buffer s;
        Some (buffer, args, s)
      }
      else if d = 105 then do {
        (ival, args) \<leftarrow> va_arg args;
        buffer \<leftarrow> itoa ival buffer 10;
        s \<leftarrow> write 0 buffer s;
        Some (buffer, args, s)
      }
      else if d = 104 then do {
        (val, args) \<leftarrow> va_arg args;
        buffer \<leftarrow> uitoa val buffer 16;
        s \<leftarrow> write 2 [48, 120, 0] s;
        s \<leftarrow> write 0 buffer s;
        Some (buffer, args, s)
      }
      else if d = 120 then do {
        (val, args) \<leftarrow> va_arg args;
        buffer \<leftarrow> uitoa val buffer 16;
        s \<leftarrow> write 0 buffer s;
        Some (buffer, args, s)
      }
      else if d = 115 then do {
        (ptr, args) \<leftarrow> va_arg args;
        s \<leftarrow> write 0 (str ptr) s;
        Some (buffer, args, s)
      }
      else if d = 99 then do {
        (cval, args) \<leftarrow> va_arg args;
        buffer \<leftarrow> array_set buffer (0 :: u32) (ucast cval);
        s \<leftarrow> write 1 buffer s;
        Some (buffer, args, s)
      }
      else if d = 108 then do {
        (lval, args) \<leftarrow> va_arg args;
        (_, args) \<leftarrow> va_arg args;
        buffer \<leftarrow> uitoa lval buffer 10;
        s \<leftarrow> write 0 buffer s;
        Some (buffer, args, s)
      }
      else if d = 98 then do {
        (val, args) \<leftarrow> va_arg args;
        buffer \<leftarrow> uitoa val buffer 2;
        s \<leftarrow> write 0 buffer s;
        Some (buffer, args, s)
      }
      else Some (buffer, args, s))"

partial_function (option) printf_loop ::
  "(u32 \<Rightarrow> bytes) \<Rightarrow> (u32 \<Rightarrow> bytes \<Rightarrow> 's \<Rightarrow> 's option) \<Rightarrow> bytes \<Rightarrow> u16 \<Rightarrow> u16 \<Rightarrow> bytes \<Rightarrow> u32 list \<Rightarrow> 's \<Rightarrow> 's option" where
  [code]: "printf_loop str write fmt length' i buffer args s =
     (if i < length' then do {
        c \<leftarrow> array_get fmt i;
        if c = 37 then do {
          d \<leftarrow> array_get fmt (ucast i + 1 :: u32);
          (buffer, args, s) \<leftarrow> print_directive str write d buffer args s;
          printf_loop str write fmt length' (i + 2) buffer args s
        }
        else do {
          s \<leftarrow> write 1 (drop (unat i) fmt) s;
          printf_loop str write fmt length' (i + 1) buffer args s
        }
      }
      else Some s)"

definition printf_base ::
  "bool \<Rightarrow> (u32 \<Rightarrow> bytes) \<Rightarrow> (u32 \<Rightarrow> bytes \<Rightarrow> 's \<Rightarrow> 's option) \<Rightarrow> bytes \<Rightarrow> bytes \<Rightarrow> u32 list \<Rightarrow> 's \<Rightarrow> 's option" where
  \<comment> \<open>\<open>buffer\<close>: the uninitialised local.\<close>
  "printf_base initialized str write buffer fmt args s =
     (if \<not> initialized then Some s
      else do {
        length' \<leftarrow> strlen fmt;
        printf_loop str write fmt length' 0 buffer args s
      })"

definition printf where
  "printf initialized str write buffer fmt args s = printf_base initialized str write buffer fmt args s"

definition printfln where
  "printfln initialized str write buffer fmt args s = do {
     s \<leftarrow> printf_base initialized str write buffer fmt args s;
     printf initialized str write buffer [10, 0] [] s
   }"

subsection \<open>The text of a format\<close>

definition unsigned_text :: "nat \<Rightarrow> u32 \<Rightarrow> bytes" where
  "unsigned_text b v = map ((!) hexes) (rev (rdigits b (unat v)))"

definition directive_text :: "(u32 \<Rightarrow> bytes) \<Rightarrow> u8 \<Rightarrow> u32 list \<Rightarrow> (bytes \<times> u32 list) option" where
  \<comment> \<open>What a directive stands for; l is a 64-bit number, its low word first. \<open>None\<close> where the code cannot say it: the
     least integer, a 64-bit number of 2 ^ 32 and more, a binary number of 20 or more digits, a string without end.\<close>
  "directive_text str d args =
     (if d \<notin> {117, 105, 104, 120, 115, 99, 108, 98} then Some ([], args)
      else case args of [] \<Rightarrow> None
      | v # rest \<Rightarrow>
         if d = 117 then Some (unsigned_text 10 v, rest)
         else if d = 105 then (if sint v = - (2 ^ 31) then None else Some (signed_text v, rest))
         else if d = 104 then Some ([48, 120] @ unsigned_text 16 v, rest)
         else if d = 120 then Some (unsigned_text 16 v, rest)
         else if d = 115 then (if 0 \<in> set (str v) then Some (takeWhile (\<lambda>c. c \<noteq> 0) (str v), rest) else None)
         else if d = 99 then Some ([ucast v], rest)
         else if d = 108 then (case rest of [] \<Rightarrow> None
           | high # rest \<Rightarrow> (let x = unat v + 2 ^ 32 * unat high in
               if x < 2 ^ 32 then Some (map ((!) hexes) (rev (rdigits 10 x)), rest) else None))
         else if unat v < 2 ^ 19 then Some (unsigned_text 2 v, rest) else None)"

fun format_text :: "(u8 \<Rightarrow> u32 list \<Rightarrow> (bytes \<times> u32 list) option) \<Rightarrow> bytes \<Rightarrow> u32 list \<Rightarrow> bytes option" where
  \<comment> \<open>The text of a format, \<open>meaning\<close> being what the directives stand for.\<close>
  "format_text meaning [] args = Some []"
| "format_text meaning [c] args = Some (if c = 37 then [] else [c])"
| "format_text meaning (c # d # fmt) args =
     (if c = 37 then do {
        (text, args) \<leftarrow> meaning d args;
        rest \<leftarrow> format_text meaning fmt args;
        Some (text @ rest)
      }
      else map_option ((#) c) (format_text meaning (d # fmt) args))"

definition emitted :: "u32 \<Rightarrow> bytes \<Rightarrow> bytes" where
  \<comment> \<open>What a write of this count sends: as many bytes, or the string when it is zero.\<close>
  "emitted n b = (if n = 0 then takeWhile (\<lambda>c. c \<noteq> 0) b else take (unat n) b)"

lemma hexes_nonzero: "2 \<le> b \<Longrightarrow> b \<le> 16 \<Longrightarrow> 0 \<notin> set (unsigned_text b v)"
  using digits_nonzero [of b "unat v"] by (simp add: unsigned_text_def)

lemma emitted_string: "0 \<notin> set xs \<Longrightarrow> emitted 0 (xs @ 0 # ys) = xs"
  by (induction xs) (auto simp: emitted_def)

lemma unsigned_text_length: "2 \<le> b \<Longrightarrow> unat v < b ^ Suc k \<Longrightarrow> length (unsigned_text b v) \<le> Suc k"
  using rdigits_length [of b "unat v" k] by (simp add: unsigned_text_def)

lemma uitoa_emits:
  assumes "2 \<le> unat base" "unat base \<le> 16" and "length (unsigned_text (unat base) v) < length buffer"
  obtains b where "uitoa v buffer base = Some b" "length b = length buffer" "emitted 0 b = unsigned_text (unat base) v" "0 \<in> set b"
proof -
  let ?t = "unsigned_text (unat base) v"
  have "uitoa v buffer base = Some (?t @ 0 # drop (Suc (length ?t)) buffer)"
    using uitoa_text [OF assms(1,2), of v buffer] assms(3) by (simp add: unsigned_text_def)
  then show thesis by (rule that) (use assms hexes_nonzero emitted_string in auto)
qed

lemma uitoa_10: "20 \<le> length buffer \<Longrightarrow> \<exists>b. uitoa v buffer 10 = Some b \<and> length b = length buffer \<and> emitted 0 b = unsigned_text 10 v \<and> 0 \<in> set b"
  using uitoa_emits [of 10 v buffer] unsigned_text_length [of 10 v 9] unat_lt_u32 [of v] by fastforce

lemma uitoa_16: "20 \<le> length buffer \<Longrightarrow> \<exists>b. uitoa v buffer 16 = Some b \<and> length b = length buffer \<and> emitted 0 b = unsigned_text 16 v \<and> 0 \<in> set b"
  using uitoa_emits [of 16 v buffer] unsigned_text_length [of 16 v 7] unat_lt_u32 [of v] by fastforce

lemma uitoa_2: "20 \<le> length buffer \<Longrightarrow> unat v < 2 ^ 19 \<Longrightarrow>
    \<exists>b. uitoa v buffer 2 = Some b \<and> length b = length buffer \<and> emitted 0 b = unsigned_text 2 v \<and> 0 \<in> set b"
  using uitoa_emits [of 2 v buffer] unsigned_text_length [of 2 v 18] by fastforce

lemma itoa_emits:
  assumes "sint v \<noteq> - (2 ^ 31)" and "20 \<le> length buffer"
  obtains b where "itoa v buffer 10 = Some b" "length b = length buffer" "emitted 0 b = signed_text v" "0 \<in> set b"
proof -
  have r: "- (2 ^ 31) \<le> sint v" "sint v < 2 ^ 31" using sint_greater_eq [of v] sint_less [of v] by simp_all
  then have "nat \<bar>sint v\<bar> < 10 ^ Suc 9" using assms(1) by auto
  then have l: "length (signed_text v) < length buffer"
    using rdigits_length [of 10 "nat \<bar>sint v\<bar>" 9] assms(2) by (cases "sint v < 0") (simp_all add: signed_text_def)
  have "0 \<notin> set (signed_text v)" using digits_nonzero [of 10 "nat \<bar>sint v\<bar>"] by (simp add: signed_text_def)
  then show thesis using that [OF itoa_text [OF assms(1) l]] l emitted_string by auto
qed

subsection \<open>The output is the text\<close>

lemma write_append: "Option.bind (for_each put xs s) (\<lambda>s. Option.bind (for_each put ys s) f) = Option.bind (for_each put (xs @ ys) s) f"
  by (simp add: for_each_append Option.bind_assoc)

lemma directive_ok:
  assumes t: "directive_text str d args = Some (out, args')" and room: "20 \<le> length buffer"
  shows "\<exists>b. length b = length buffer \<and> (\<forall>s. print_directive str (\<lambda>n b. for_each put (emitted n b)) d buffer args s =
    Option.bind (for_each put out s) (\<lambda>s. Some (b, args', s)))"
proof (cases "d \<in> {117, 105, 104, 120, 115, 99, 108, 98}")
  case False
  then show ?thesis using t by (auto simp: directive_text_def print_directive_def)
next
  case True
  then obtain v rest where a: "args = v # rest" using t by (auto simp: directive_text_def split: list.splits)
  note u10 = uitoa_10 [OF room] and u16 = uitoa_16 [OF room] and u2 = uitoa_2 [OF room]
  have i: "sint v \<noteq> - (2 ^ 31) \<Longrightarrow> \<exists>b. itoa v buffer 10 = Some b \<and> length b = length buffer \<and> emitted 0 b = signed_text v" for v
    using itoa_emits [of v buffer] room by metis
  have hx: "emitted 2 [48, 120, 0] = [48, 120]" by (simp add: emitted_def)
  have c: "array_set buffer (0 :: u32) x = Some (buffer[0 := x])" "emitted 1 (buffer[0 := x]) = [x]" for x
    using room by (cases buffer; simp add: emitted_def)+
  have s: "emitted 0 xs = takeWhile (\<lambda>c. c \<noteq> 0) xs" for xs by (simp add: emitted_def)
  note defs = directive_text_def print_directive_def va_arg_def a
  from True consider "d = 117" | "d = 105" | "d = 104" | "d = 120" | "d = 115" | "d = 99" | "d = 108" | "d = 98" by auto
  then show ?thesis
  proof cases
    case 1 then show ?thesis using t u10 [of v] by (auto simp: defs)
  next
    case 2 then show ?thesis using t i [of v] by (auto simp: defs split: if_splits)
  next
    case 3 then show ?thesis using t u16 [of v] hx by (auto simp: defs write_append)
  next
    case 4 then show ?thesis using t u16 [of v] by (auto simp: defs)
  next
    case 5 then show ?thesis using t s [of "str v"] by (auto simp: defs split: if_splits)
  next
    case 6 then show ?thesis using t c by (intro exI [of _ "buffer[0 := ucast v]"]) (auto simp: defs)
  next
    case 7
    then obtain high where h: "rest = high # args'" "unat v + 2 ^ 32 * unat high < 2 ^ 32"
      "out = map ((!) hexes) (rev (rdigits 10 (unat v + 2 ^ 32 * unat high)))"
      using t by (auto simp: defs Let_def split: list.splits if_splits)
    have "unat high = 0" using h(2) by (cases "unat high") simp_all
    then have "out = unsigned_text 10 v" using h(3) by (simp add: unsigned_text_def)
    then show ?thesis using 7 h(1) u10 [of v] by (auto simp: defs)
  next
    case 8 then show ?thesis using t u2 [of v] by (auto simp: defs split: if_splits)
  qed
qed

text \<open>
  The loop over a format is the same for the screen and the serial line. It relies on directives that send what they stand for
  and keep the size of the buffer.
\<close>

locale formatter =
  fixes loop :: "bytes \<Rightarrow> u16 \<Rightarrow> u16 \<Rightarrow> bytes \<Rightarrow> u32 list \<Rightarrow> 's \<Rightarrow> 's option"
    and directive :: "u8 \<Rightarrow> bytes \<Rightarrow> u32 list \<Rightarrow> 's \<Rightarrow> (bytes \<times> u32 list \<times> 's) option"
    and put :: "u8 \<Rightarrow> 's \<Rightarrow> 's option"
    and meaning :: "u8 \<Rightarrow> u32 list \<Rightarrow> (bytes \<times> u32 list) option"
  assumes loop_law: "loop fmt n i buffer args s =
      (if i < n then do {
         c \<leftarrow> array_get fmt i;
         if c = 37 then do {
           d \<leftarrow> array_get fmt (ucast i + 1 :: u32);
           (buffer, args, s) \<leftarrow> directive d buffer args s;
           loop fmt n (i + 2) buffer args s
         }
         else do { s \<leftarrow> put c s; loop fmt n (i + 1) buffer args s }
       }
       else Some s)"
    and end_law: "directive 0 buffer args s = Some (buffer, args, s)"
    and directive_law: "meaning d args = Some (out, args') \<Longrightarrow> 20 \<le> length buffer \<Longrightarrow> \<exists>b. length b = length buffer \<and>
      (\<forall>s. directive d buffer args s = Option.bind (for_each put out s) (\<lambda>s. Some (b, args', s)))"
begin

lemma loop_end: "\<not> i < n \<Longrightarrow> loop fmt n i buffer args = Some"
  by (rule ext) (simp add: loop_law [where i = i])

lemma loop_sends:
  assumes "format_text m cs args = Some out" and "length pre + length cs < 65534" and "20 \<le> length buffer" and "m = meaning"
  shows "loop (pre @ cs @ 0 # zs) (of_nat (length pre + length cs)) (of_nat (length pre)) buffer args = for_each put out"
  using assms
proof (induction m cs args arbitrary: pre buffer out rule: format_text.induct)
  case (1 m args)
  then show ?case by (simp add: loop_end fun_eq_iff)
next
  case (2 m c args)
  let ?n = "length pre" and ?L = "length pre + length [c]" and ?F = "pre @ [c] @ 0 # zs"
  have u: "unat (of_nat ?n :: u16) = ?n" "unat (of_nat ?n + 2 :: u16) = ?n + 2" "unat (of_nat ?L :: u16) = ?n + 1"
    "unat (ucast (of_nat ?n :: u16) + 1 :: u32) = ?n + 1"
    using 2(2) unat_of_nat_u16 [of ?n] by (simp_all add: unat_word_ariths)
  have lt: "(of_nat ?n :: u16) < of_nat ?L" "\<not> (of_nat ?n + 2 :: u16) < of_nat ?L" using u by (simp_all add: word_less_nat_alt)
  have g: "array_get ?F (of_nat ?n :: u16) = Some c" "array_get ?F (ucast (of_nat ?n :: u16) + 1 :: u32) = Some 0"
    using u by (simp_all add: nth_append)
  have n: "of_nat ?n + 1 = (of_nat ?L :: u16)" by simp
  have stop: "loop ?F (of_nat ?L) (of_nat ?n + 2) buffer args = Some" "loop ?F (of_nat ?L) (of_nat ?L) buffer args = Some"
    by (rule loop_end [OF lt(2)], rule loop_end [OF less_irrefl])
  have o: "out = (if c = 37 then [] else [c])" using 2(1) by simp
  show ?case
  proof (rule ext)
    fix s show "loop ?F (of_nat ?L) (of_nat ?n) buffer args s = for_each put out s"
      unfolding loop_law [of ?F "of_nat ?L" "of_nat ?n"] g n o using lt(1) end_law stop by (cases "c = 37") (simp_all del: of_nat_add)
  qed
next
  case (3 m c d fmt args)
  let ?n = "length pre" and ?L = "length pre + length (c # d # fmt)" and ?F = "pre @ (c # d # fmt) @ 0 # zs"
  have u: "unat (of_nat ?n :: u16) = ?n" "unat (of_nat ?L :: u16) = ?L" "unat (ucast (of_nat ?n :: u16) + 1 :: u32) = ?n + 1"
    using 3(4) unat_of_nat_u16 [of ?n] unat_of_nat_u16 [of ?L] by (simp_all add: unat_word_ariths)
  have lt: "(of_nat ?n :: u16) < of_nat ?L" using u by (simp add: word_less_nat_alt)
  have g: "array_get ?F (of_nat ?n :: u16) = Some c" "array_get ?F (ucast (of_nat ?n :: u16) + 1 :: u32) = Some d"
    using u by (simp_all add: nth_append)
  show ?case
  proof (cases "c = 37")
    case True
    obtain t args' rest where t: "meaning d args = Some (t, args')" "format_text m fmt args' = Some rest" "out = t @ rest"
      using 3(3,6) True by (auto elim!: bind_SomeE)
    obtain b where b: "length b = length buffer" "\<And>s. directive d buffer args s = Option.bind (for_each put t s) (\<lambda>s. Some (b, args', s))"
      using directive_law [OF t(1) 3(5)] by blast
    have "loop ((pre @ [c, d]) @ fmt @ 0 # zs) (of_nat (length (pre @ [c, d]) + length fmt)) (of_nat (length (pre @ [c, d]))) b args' = for_each put rest"
      by (rule 3(1) [OF True _ refl t(2)]) (use 3(4-6) b(1) t(1) in auto)
    then have "loop ?F (of_nat ?L) (of_nat ?n + 2) b args' = for_each put rest" by (simp add: algebra_simps)
    then show ?thesis unfolding fun_eq_iff loop_law [of ?F "of_nat ?L" "of_nat ?n"] g
      using lt True b(2) t(3) by (simp add: for_each_append Option.bind_assoc)
  next
    case False
    obtain rest where t: "format_text m (d # fmt) args = Some rest" "out = c # rest" using 3(3) False by auto
    have "loop ((pre @ [c]) @ (d # fmt) @ 0 # zs) (of_nat (length (pre @ [c]) + length (d # fmt))) (of_nat (length (pre @ [c]))) buffer args = for_each put rest"
      by (rule 3(2) [OF False t(1)]) (use 3(4-6) in auto)
    then have ih: "loop ?F (of_nat ?L) (of_nat ?n + 1) buffer args = for_each put rest" by (simp add: algebra_simps)
    show ?thesis
    proof (rule ext)
      fix s show "loop ?F (of_nat ?L) (of_nat ?n) buffer args s = for_each put out s"
        unfolding loop_law [of ?F "of_nat ?L" "of_nat ?n"] g ih using lt False t(2) by simp
    qed
  qed
qed

lemma sends_text:
  assumes "cstr fmt cs" and "length cs < 65534" and "20 \<le> length buffer" and "format_text meaning cs args = Some out"
  shows "Option.bind (strlen fmt) (\<lambda>n. loop fmt n 0 buffer args s) = for_each put out s"
proof -
  obtain zs where f: "fmt = cs @ 0 # zs" using assms(1) by (auto simp: cstr_def)
  have "strlen fmt = Some (of_nat (length cs))" by (rule strlen_ok [OF assms(1)]) (use assms(2) in simp)
  then show ?thesis using loop_sends [OF assms(4) _ assms(3) refl, of "[]" zs] assms(2) f by simp
qed

end

interpretation printf_formatter: formatter "printf_loop str (\<lambda>n b. for_each put (emitted n b))" "print_directive str (\<lambda>n b. for_each put (emitted n b))"
    put "directive_text str" for str put
proof
  have e: "emitted 1 (drop (unat i) fmt) = [c]" if "array_get fmt i = Some c" for i :: u16 and fmt c
    using that by (auto simp: array_get_def emitted_def Cons_nth_drop_Suc [symmetric] split: if_splits)
  fix fmt n i buffer args s
  show "printf_loop str (\<lambda>n b. for_each put (emitted n b)) fmt n i buffer args s =
      (if i < n then do {
         c \<leftarrow> array_get fmt i;
         if c = 37 then do {
           d \<leftarrow> array_get fmt (ucast i + 1 :: u32);
           (buffer, args, s) \<leftarrow> print_directive str (\<lambda>n b. for_each put (emitted n b)) d buffer args s;
           printf_loop str (\<lambda>n b. for_each put (emitted n b)) fmt n (i + 2) buffer args s
         }
         else do { s \<leftarrow> put c s; printf_loop str (\<lambda>n b. for_each put (emitted n b)) fmt n (i + 1) buffer args s }
       }
       else Some s)"
    by (subst printf_loop.simps) (cases "array_get fmt i"; simp add: e)
qed (simp add: print_directive_def, rule directive_ok)

lemma printf_output:
  assumes "cstr fmt cs" and "length cs < 65534" and "20 \<le> length buffer" and "format_text (directive_text str) cs args = Some out"
  shows "printf_base True str (\<lambda>n b. for_each put (emitted n b)) buffer fmt args s = for_each put out s"
  using printf_formatter.sends_text [OF assms] by (simp add: printf_base_def)

text \<open>
  C35. Printing is rendering: whatever takes the characters, printing a format sends exactly the text that the
  format and its arguments stand for, in order, for numbers of every base, signed numbers, strings and
  characters, also when a percent sign ends the format. The arguments must be ones the code can
  say: 64-bit numbers below 2 ^ 32 (of others only the low word is printed), signed numbers other
  than the least, binary numbers of at most 19 digits, and terminated strings.
\<close>

theorem printf_prints:
  assumes "cstr fmt cs" and "length cs < 65534" and "20 \<le> length buffer" and "format_text (directive_text str) cs args = Some out"
  shows "printf_base True str (\<lambda>n b. for_each put (emitted n b)) buffer fmt args s = for_each put out s"
  using assms by (rule printf_output)

lemma printf_prints_witness:
  "printf_base True (\<lambda>p. [79, 75, 0]) (\<lambda>n b. for_each (\<lambda>c out. Some (out @ [c])) (emitted n b)) (replicate 20 0xAA)
     [37, 117, 45, 37, 104, 32, 37, 115, 33, 0] [1024, 0xBEEF, 0x5000] [] =
   Some [49, 48, 50, 52, 45, 48, 120, 66, 69, 69, 70, 32, 79, 75, 33]" (is "printf_base True ?str ?W ?B ?F ?A [] = Some ?out")
proof -
  let ?cs = "[37, 117, 45, 37, 104, 32, 37, 115, 33] :: bytes"
  have d: "unsigned_text 10 1024 = [49, 48, 50, 52]" "unsigned_text 16 0xBEEF = [66, 69, 69, 70]"
    by (simp_all add: unsigned_text_def rdigits.simps hexes_def)
  have c: "cstr ?F ?cs" by (simp add: cstr_def)
  have "format_text (directive_text ?str) ?cs ?A = Some ?out" by (simp add: directive_text_def d)
  from printf_prints [OF c _ _ this, of ?B "\<lambda>c out. Some (out @ [c])" "[]"] show ?thesis by simp
qed

lemma long_loses_high_word:
  \<comment> \<open>What is printed for a 64-bit number does not depend on its high word.\<close>
  assumes "20 \<le> length buffer"
  shows "\<exists>b. print_directive str (\<lambda>n b. for_each put (emitted n b)) 108 buffer (low # high # args) s =
    Option.bind (for_each put (unsigned_text 10 low) s) (\<lambda>s. Some (b, args, s))"
proof -
  obtain b where "uitoa low buffer 10 = Some b" "emitted 0 b = unsigned_text 10 low" using uitoa_10 [OF assms, of low] by blast
  then show ?thesis by (auto simp: print_directive_def va_arg_def)
qed

text \<open>
  Printing on the screen: when the text of the format is printable and no longer than the screen, the cells from the
  cursor on show it, the cursor is behind it, and no memory outside the frame buffer has changed.
\<close>

theorem printf_shows:
  assumes "cstr fmt cs" and "length cs < 65534" and "20 \<le> length buffer" and "format_text (directive_text str) cs args = Some out"
    and r: "ready s" and "\<forall>c \<in> set out. printable c" and "length out \<le> cells s"
  shows "\<exists>s'. printf True str (\<lambda>n b. for_each draw_char (emitted n b)) buffer fmt args s = Some s' \<and> ready s' \<and>
    cell_no s' = (cell_no s + length out) mod cells s \<and> (\<forall>i < length out. shows_char s' (out ! i) ((cell_no s + i) mod cells s)) \<and>
    (\<forall>a. \<not> in_frame (vbe s) a \<longrightarrow> memory s' a = memory s a)"
proof -
  have "printf True str (\<lambda>n b. for_each draw_char (emitted n b)) buffer fmt args s = for_each draw_char out s"
    unfolding printf_def using assms(1-4) by (rule printf_output)
  then show ?thesis using draw_chars_shows [OF r assms(6,7)] by (auto simp: drawn_def)
qed

lemma printf_shows_witness:
  "\<exists>s'. printf True (\<lambda>p. [0]) (\<lambda>n b. for_each draw_char (emitted n b)) (replicate 20 0xAA) [116, 61, 37, 105, 0] [- 7] sample_screen = Some s' \<and>
     shows_char s' 45 21 \<and> shows_char s' 55 22 \<and> cell_no s' = 23"
proof -
  let ?cs = "[116, 61, 37, 105] :: bytes" and ?out = "[116, 61, 45, 55] :: bytes"
  have c: "cstr [116, 61, 37, 105, 0] ?cs" by (simp add: cstr_def)
  have v: "sint (- 7 :: u32) = - 7" by simp
  then have "signed_text (- 7) = [45, 55]" by (simp add: signed_text_def rdigits.simps hexes_def)
  then have "format_text (directive_text (\<lambda>p. [0])) ?cs [- 7] = Some ?out" using v by (simp add: directive_text_def)
  from printf_shows [OF c _ _ this sample_screen_ready(1), of "replicate 20 0xAA"] obtain s' where
    s': "printf True (\<lambda>p. [0]) (\<lambda>n b. for_each draw_char (emitted n b)) (replicate 20 0xAA) [116, 61, 37, 105, 0] [- 7] sample_screen = Some s'"
    "cell_no s' = 23" "\<And>i. i < 4 \<Longrightarrow> shows_char s' (?out ! i) ((19 + i) mod 40)"
    by (auto simp: sample_screen_ready printable_def)
  show ?thesis using s'(1,2) s'(3) [of 2] s'(3) [of 3] by auto
qed

end
