(* ===== verification/Serial.thy ===== *)
theory Serial
  imports Printing
begin

text \<open>
  The serial line, SerialDebugger.cpp. What the line's status and data registers will deliver is part of the state, and
  bytes written to its ports are kept, oldest first. When the status never allows the next byte, the kernel waits for ever:
  \<open>None\<close>.
\<close>

record serial =
  serial_port_found :: bool
  line_status :: "u8 list" \<comment> \<open>what successive reads of the status register return\<close>
  received :: "u8 list" \<comment> \<open>what successive reads of the data register return\<close>
  sent :: bytes
  setup_log :: "(u16 \<times> u8) list" \<comment> \<open>the bytes written at initialisation\<close>

definition PORT :: u16 where
  "PORT = 0x3f8"

definition init_serial :: "u8 \<Rightarrow> 'a serial_scheme \<Rightarrow> 'a serial_scheme" where
  \<comment> \<open>\<open>scratch\<close>: what the scratch register returns after 87 was written to it.\<close>
  "init_serial scratch s = (
     let s = s\<lparr>setup_log := setup_log s @ [(PORT + 7, 87)]\<rparr> in
     if scratch \<noteq> 87 then s
     else s\<lparr>serial_port_found := True, setup_log := setup_log s @ [(PORT + 1, 0x00), (PORT + 3, 0x80), (PORT + 0, 12), (PORT + 1, 0x00),
       (PORT + 3, 0x03), (PORT + 2, 0xC7), (PORT + 4, 0x0B)]\<rparr>)"

fun is_transmit_empty :: "'a serial_scheme \<Rightarrow> (bool \<times> 'a serial_scheme) option" where
  "is_transmit_empty s = (case line_status s of [] \<Rightarrow> None | x # xs \<Rightarrow> Some (x AND 0x20 \<noteq> 0, s\<lparr>line_status := xs\<rparr>))"

fun is_receive_ready :: "'a serial_scheme \<Rightarrow> (bool \<times> 'a serial_scheme) option" where
  "is_receive_ready s = (case line_status s of [] \<Rightarrow> None | x # xs \<Rightarrow> Some (x AND 0x1 \<noteq> 0, s\<lparr>line_status := xs\<rparr>))"

partial_function (option) wait_line :: "('a serial_scheme \<Rightarrow> (bool \<times> 'a serial_scheme) option) \<Rightarrow> 'a serial_scheme \<Rightarrow> 'a serial_scheme option" where
  [code]: "wait_line test s = do {
     (b, s) \<leftarrow> test s;
     if b then Some s else wait_line test s
   }"

definition serial_read :: "'a serial_scheme \<Rightarrow> (u8 \<times> 'a serial_scheme) option" where
  "serial_read s =
     (if \<not> serial_port_found s then Some (0, s)
      else do {
        s \<leftarrow> wait_line is_receive_ready s;
        case received s of [] \<Rightarrow> None | x # xs \<Rightarrow> Some (x, s\<lparr>received := xs\<rparr>)
      })"

definition serial_printch :: "u8 \<Rightarrow> 'a serial_scheme \<Rightarrow> 'a serial_scheme option" where
  "serial_printch a s =
     (if \<not> serial_port_found s then Some s
      else do {
        s \<leftarrow> wait_line is_transmit_empty s;
        Some (s\<lparr>sent := sent s @ [a]\<rparr>)
      })"

primrec serial_print_loop :: "bytes \<Rightarrow> 'a serial_scheme \<Rightarrow> 'a serial_scheme option" where
  "serial_print_loop [] s = None"
| "serial_print_loop (c # str) s = (if c = 0 then Some s else do { s \<leftarrow> serial_printch c s; serial_print_loop str s })"

definition serial_print :: "bytes \<Rightarrow> 'a serial_scheme \<Rightarrow> 'a serial_scheme option" where
  "serial_print str s = (if \<not> serial_port_found s then Some s else serial_print_loop str s)"

definition serial_number :: "(bytes \<Rightarrow> bytes option) \<Rightarrow> bytes \<Rightarrow> u32 list \<Rightarrow> 'a serial_scheme \<Rightarrow> (bytes \<times> u32 list \<times> 'a serial_scheme) option" where
  "serial_number convert buffer args s = do {
     buffer \<leftarrow> convert buffer;
     s \<leftarrow> serial_print buffer s;
     Some (buffer, args, s)
   }"

definition serial_directive ::
  "(u32 \<Rightarrow> bytes) \<Rightarrow> bytes list \<Rightarrow> u8 \<Rightarrow> bytes \<Rightarrow> u32 list \<Rightarrow> 'a serial_scheme \<Rightarrow> (bytes \<times> u32 list \<times> 'a serial_scheme) option" where
  \<comment> \<open>The characters u, i, h, x, s, c, l, b and e; \<open>origins\<close> is the table of the names of error origins.\<close>
  "serial_directive str origins d buffer args s =
     (if d = 117 then do { (val, args) \<leftarrow> va_arg args; serial_number (\<lambda>b. uitoa val b 10) buffer args s }
      else if d = 105 then do { (ival, args) \<leftarrow> va_arg args; serial_number (\<lambda>b. itoa ival b 10) buffer args s }
      else if d = 104 then do {
        (val, args) \<leftarrow> va_arg args;
        buffer \<leftarrow> uitoa val buffer 16;
        s \<leftarrow> serial_print [48, 120, 0] s;
        s \<leftarrow> serial_print buffer s;
        Some (buffer, args, s)
      }
      else if d = 120 then do { (val, args) \<leftarrow> va_arg args; serial_number (\<lambda>b. uitoa val b 16) buffer args s }
      else if d = 115 then do {
        (ptr, args) \<leftarrow> va_arg args;
        s \<leftarrow> serial_print (str ptr) s;
        Some (buffer, args, s)
      }
      else if d = 99 then do {
        (cval, args) \<leftarrow> va_arg args;
        s \<leftarrow> serial_printch (ucast cval) s;
        Some (buffer, args, s)
      }
      else if d = 108 then do { (lval, args) \<leftarrow> va_arg args; (_, args) \<leftarrow> va_arg args; serial_number (\<lambda>b. uitoa lval b 10) buffer args s }
      else if d = 98 then do { (val, args) \<leftarrow> va_arg args; serial_number (\<lambda>b. uitoa val b 2) buffer args s }
      else if d = 101 then do {
        (err, args) \<leftarrow> va_arg args;
        buffer \<leftarrow> uitoa (err AND 0xFF) buffer 10;
        s \<leftarrow> serial_print [98, 97, 115, 101, 58, 32, 0] s;
        s \<leftarrow> serial_print buffer s;
        s \<leftarrow> serial_print [32, 101, 120, 116, 58, 32, 0] s;
        buffer \<leftarrow> uitoa (drop_bit 8 err AND 0xFFFF) buffer 10;
        s \<leftarrow> serial_print buffer s;
        s \<leftarrow> serial_print [32, 0] s;
        name \<leftarrow> array_get origins (drop_bit 24 err);
        s \<leftarrow> serial_print name s;
        Some (buffer, args, s)
      }
      else Some (buffer, args, s))"

partial_function (option) serial_printf_loop ::
  "(u32 \<Rightarrow> bytes) \<Rightarrow> bytes list \<Rightarrow> bytes \<Rightarrow> u16 \<Rightarrow> u16 \<Rightarrow> bytes \<Rightarrow> u32 list \<Rightarrow> 'a serial_scheme \<Rightarrow> 'a serial_scheme option" where
  [code]: "serial_printf_loop str origins fmt length' i buffer args s =
     (if i < length' then do {
        c \<leftarrow> array_get fmt i;
        if c = 37 then do {
          d \<leftarrow> array_get fmt (ucast i + 1 :: u32);
          (buffer, args, s) \<leftarrow> serial_directive str origins d buffer args s;
          serial_printf_loop str origins fmt length' (i + 2) buffer args s
        }
        else do {
          s \<leftarrow> serial_printch c s;
          serial_printf_loop str origins fmt length' (i + 1) buffer args s
        }
      }
      else Some s)"

definition serial_printf :: "(u32 \<Rightarrow> bytes) \<Rightarrow> bytes list \<Rightarrow> bytes \<Rightarrow> bytes \<Rightarrow> u32 list \<Rightarrow> 'a serial_scheme \<Rightarrow> 'a serial_scheme option" where
  "serial_printf str origins buffer fmt args s =
     (if \<not> serial_port_found s then Some s
      else do {
        length' \<leftarrow> strlen fmt;
        serial_printf_loop str origins fmt length' 0 buffer args s
      })"

primrec serial_dump_loop :: "nat \<Rightarrow> virtual_addr \<Rightarrow> mem \<Rightarrow> bytes \<Rightarrow> 'a serial_scheme \<Rightarrow> 'a serial_scheme option" where
  "serial_dump_loop 0 base m buffer s = Some s"
| "serial_dump_loop (Suc n) base m buffer s = do {
     s \<leftarrow> serial_printf (\<lambda>_. []) [] buffer [37, 120, 32, 0] [scast (m base)] s;
     serial_dump_loop n (base + 1) m buffer s
   }"

definition serial_dump_mem :: "virtual_addr \<Rightarrow> u32 \<Rightarrow> mem \<Rightarrow> bytes \<Rightarrow> 'a serial_scheme \<Rightarrow> 'a serial_scheme option" where
  \<comment> \<open>A byte is passed as a signed character.\<close>
  "serial_dump_mem base length' m buffer s = serial_dump_loop (unat length') base m buffer s"

subsection \<open>What is sent\<close>

lemma unfound_silent: "\<not> serial_port_found s \<Longrightarrow> for_each serial_printch xs s = Some s"
  by (induction xs) (simp_all add: serial_printch_def)

lemma wait_line_rest: "wait_line is_transmit_empty s = Some s' \<Longrightarrow> \<exists>xs. s' = s\<lparr>line_status := xs\<rparr>"
proof (induction "line_status s" arbitrary: s)
  case Nil
  then show ?case by (simp add: wait_line.simps [of _ s])
next
  case (Cons x xs)
  note e = Cons.hyps(2) [symmetric]
  show ?case
  proof (cases "x AND 0x20 = 0")
    case True
    then have "wait_line is_transmit_empty (s\<lparr>line_status := xs\<rparr>) = Some s'" using Cons.prems e by (simp add: wait_line.simps [of _ s])
    then show ?thesis using Cons.hyps(1) [of "s\<lparr>line_status := xs\<rparr>"] by auto
  next
    case False
    then show ?thesis using Cons.prems e by (intro exI [of _ xs]) (simp add: wait_line.simps [of _ s])
  qed
qed

lemma printch_found: "serial_printch c s = Some s' \<Longrightarrow> serial_port_found s' = serial_port_found s"
  by (auto simp: serial_printch_def split: if_splits elim!: bind_SomeE dest!: wait_line_rest)

lemma print_sends: "0 \<in> set str \<Longrightarrow> serial_print str s = for_each serial_printch (emitted 0 str) s"
proof (cases "serial_port_found s")
  case True
  then show "0 \<in> set str \<Longrightarrow> serial_print str s = for_each serial_printch (emitted 0 str) s"
  proof (induction str arbitrary: s)
    case (Cons c str)
    show ?case
    proof (cases "c = 0")
      case False
      have "serial_print_loop str s' = for_each serial_printch (emitted 0 str) s'" if "serial_printch c s = Some s'" for s'
        using Cons.IH [of s'] Cons.prems False printch_found [OF that] by (simp add: serial_print_def)
      then show ?thesis using False Cons.prems(2) by (cases "serial_printch c s") (simp_all add: serial_print_def emitted_def)
    qed (use Cons.prems in \<open>simp add: serial_print_def emitted_def\<close>)
  qed simp
qed (simp add: serial_print_def unfound_silent)

definition serial_text :: "(u32 \<Rightarrow> bytes) \<Rightarrow> bytes list \<Rightarrow> u8 \<Rightarrow> u32 list \<Rightarrow> (bytes \<times> u32 list) option" where
  \<comment> \<open>The directive e is an error word: its Linux code, its extension and the name of its origin.\<close>
  "serial_text str origins d args =
     (if d \<noteq> 101 then directive_text str d args
      else case args of [] \<Rightarrow> None
      | v # rest \<Rightarrow> (let o' = unat (drop_bit 24 v) in
          if o' < length origins \<and> 0 \<in> set (origins ! o') then
            Some ([98, 97, 115, 101, 58, 32] @ unsigned_text 10 (v AND 0xFF) @ [32, 101, 120, 116, 58, 32] @
              unsigned_text 10 (drop_bit 8 v AND 0xFFFF) @ [32] @ emitted 0 (origins ! o'), rest)
          else None))"

lemma number_ok: "\<exists>b. convert buffer = Some b \<and> length b = length buffer \<and> emitted 0 b = t \<and> 0 \<in> set b \<Longrightarrow>
    \<exists>b. length b = length buffer \<and> (\<forall>s. serial_number convert buffer args s = Option.bind (for_each serial_printch t s) (\<lambda>s. Some (b, args, s)))"
  by (auto simp: serial_number_def print_sends)

lemma serial_directive_ok:
  assumes t: "serial_text str origins d args = Some (out, args')" and room: "20 \<le> length buffer"
  shows "\<exists>b. length b = length buffer \<and> (\<forall>s. serial_directive str origins d buffer args s =
    Option.bind (for_each serial_printch out s) (\<lambda>s. Some (b, args', s)))"
proof (cases "d \<in> {117, 105, 104, 120, 115, 99, 108, 98, 101}")
  case False
  then show ?thesis using t by (auto simp: serial_text_def directive_text_def serial_directive_def)
next
  case True
  then obtain v rest where a: "args = v # rest" using t by (auto simp: serial_text_def directive_text_def split: list.splits)
  have lit: "serial_print [48, 120, 0] s = for_each serial_printch [48, 120] s" "serial_print [32, 0] s = for_each serial_printch [32] s"
    "serial_print [98, 97, 115, 101, 58, 32, 0] s = for_each serial_printch [98, 97, 115, 101, 58, 32] s"
    "serial_print [32, 101, 120, 116, 58, 32, 0] s = for_each serial_printch [32, 101, 120, 116, 58, 32] s" for s :: "'a serial_scheme"
    by (simp_all add: print_sends emitted_def)
  have n: "\<exists>b. length b = length buffer \<and> (\<forall>s. serial_number (\<lambda>b. uitoa v b 10) buffer args s = Option.bind (for_each serial_printch (unsigned_text 10 v) s) (\<lambda>s. Some (b, args, s)))"
    "\<exists>b. length b = length buffer \<and> (\<forall>s. serial_number (\<lambda>b. uitoa v b 16) buffer args s = Option.bind (for_each serial_printch (unsigned_text 16 v) s) (\<lambda>s. Some (b, args, s)))"
    "unat v < 2 ^ 19 \<Longrightarrow> \<exists>b. length b = length buffer \<and> (\<forall>s. serial_number (\<lambda>b. uitoa v b 2) buffer args s = Option.bind (for_each serial_printch (unsigned_text 2 v) s) (\<lambda>s. Some (b, args, s)))"
    "sint v \<noteq> - (2 ^ 31) \<Longrightarrow> \<exists>b. length b = length buffer \<and> (\<forall>s. serial_number (\<lambda>b. itoa v b 10) buffer args s = Option.bind (for_each serial_printch (signed_text v) s) (\<lambda>s. Some (b, args, s)))"
    for v and args
    using uitoa_10 [OF room, of v] uitoa_16 [OF room, of v] uitoa_2 [OF room, of v] itoa_emits [of v buffer] room
    by (intro number_ok; metis)+
  note defs = serial_text_def directive_text_def serial_directive_def va_arg_def a
  from True consider "d = 117" | "d = 105" | "d = 104" | "d = 120" | "d = 115" | "d = 99" | "d = 108" | "d = 98" | "d = 101" by auto
  then show ?thesis
  proof cases
    case 1 then show ?thesis using t n(1) [of v] by (auto simp: defs)
  next
    case 2 then show ?thesis using t n(4) [of v] by (auto simp: defs split: if_splits)
  next
    case 3 then show ?thesis using t uitoa_16 [OF room, of v] lit(1) by (auto simp: defs write_append print_sends)
  next
    case 4 then show ?thesis using t n(2) [of v] by (auto simp: defs)
  next
    case 5 then show ?thesis using t by (intro exI [of _ buffer]) (auto simp: defs print_sends emitted_def split: if_splits)
  next
    case 6 then show ?thesis using t by (intro exI [of _ buffer]) (auto simp: defs)
  next
    case 7
    then obtain high where h: "rest = high # args'" "unat v + 2 ^ 32 * unat high < 2 ^ 32"
      "out = map ((!) hexes) (rev (rdigits 10 (unat v + 2 ^ 32 * unat high)))"
      using t by (auto simp: defs Let_def split: list.splits if_splits)
    have "unat high = 0" using h(2) by (cases "unat high") simp_all
    then have "out = unsigned_text 10 v" using h(3) by (simp add: unsigned_text_def)
    then show ?thesis using 7 h(1) n(1) [of v] by (auto simp: defs)
  next
    case 8 then show ?thesis using t n(3) [of v] by (auto simp: defs split: if_splits)
  next
    case 9
    obtain b1 where b1: "uitoa (v AND 0xFF) buffer 10 = Some b1" "length b1 = length buffer" "emitted 0 b1 = unsigned_text 10 (v AND 0xFF)" "0 \<in> set b1"
      using uitoa_10 [OF room] by blast
    obtain b2 where b2: "uitoa (drop_bit 8 v AND 0xFFFF) b1 10 = Some b2" "length b2 = length buffer"
      "emitted 0 b2 = unsigned_text 10 (drop_bit 8 v AND 0xFFFF)" "0 \<in> set b2"
      using uitoa_10 [of b1 "drop_bit 8 v AND 0xFFFF"] room b1(2) by auto
    have o: "unat (drop_bit 24 v) < length origins" "0 \<in> set (origins ! unat (drop_bit 24 v))" "args' = rest"
      "out = [98, 97, 115, 101, 58, 32] @ unsigned_text 10 (v AND 0xFF) @ [32, 101, 120, 116, 58, 32] @
              unsigned_text 10 (drop_bit 8 v AND 0xFFFF) @ [32] @ emitted 0 (origins ! unat (drop_bit 24 v))"
      using t 9 by (simp_all add: defs Let_def split: if_splits)
    have "serial_directive str origins d buffer args s = Option.bind (for_each serial_printch out s) (\<lambda>s. Some (b2, args', s))" for s :: "'a serial_scheme"
      using 9 b1 b2 o by (simp add: defs lit print_sends for_each_append Option.bind_assoc)
    then show ?thesis using b2(2) by blast
  qed
qed

interpretation serial_formatter: formatter "serial_printf_loop str origins" "serial_directive str origins" serial_printch "serial_text str origins"
  for str origins
proof
  fix fmt n i buffer args and s :: "'a serial_scheme"
  show "serial_printf_loop str origins fmt n i buffer args s =
      (if i < n then do {
         c \<leftarrow> array_get fmt i;
         if c = 37 then do {
           d \<leftarrow> array_get fmt (ucast i + 1 :: u32);
           (buffer, args, s) \<leftarrow> serial_directive str origins d buffer args s;
           serial_printf_loop str origins fmt n (i + 2) buffer args s
         }
         else do { s \<leftarrow> serial_printch c s; serial_printf_loop str origins fmt n (i + 1) buffer args s }
       }
       else Some s)"
    by (rule serial_printf_loop.simps)
qed (simp add: serial_directive_def, rule serial_directive_ok)

definition ready_times :: "u8 list \<Rightarrow> nat" where
  \<comment> \<open>How often the status allows a byte to be sent.\<close>
  "ready_times xs = length (filter (\<lambda>x. x AND 0x20 \<noteq> 0) xs)"

lemma wait_line_ready:
  "0 < ready_times (line_status s) \<Longrightarrow>
   \<exists>xs. wait_line is_transmit_empty s = Some (s\<lparr>line_status := xs\<rparr>) \<and> ready_times xs = ready_times (line_status s) - 1"
proof (induction "line_status s" arbitrary: s)
  case Nil
  then show ?case by (simp add: ready_times_def flip: Nil.hyps)
next
  case (Cons x xs)
  note e = Cons.hyps(2) [symmetric]
  show ?case
  proof (cases "x AND 0x20 = 0")
    case True
    then obtain ys where "wait_line is_transmit_empty (s\<lparr>line_status := xs\<rparr>) = Some (s\<lparr>line_status := ys\<rparr>)" "ready_times ys = ready_times xs - 1"
      using Cons.hyps(1) [of "s\<lparr>line_status := xs\<rparr>"] Cons.prems e by (auto simp: ready_times_def)
    then show ?thesis using True e by (intro exI [of _ ys]) (simp add: wait_line.simps [of _ s] ready_times_def)
  next
    case False
    then show ?thesis using e by (intro exI [of _ xs]) (simp add: wait_line.simps [of _ s] ready_times_def)
  qed
qed

lemma serial_sends:
  "serial_port_found s \<Longrightarrow> length cs \<le> ready_times (line_status s) \<Longrightarrow>
   \<exists>xs. for_each serial_printch cs s = Some (s\<lparr>sent := sent s @ cs, line_status := xs\<rparr>)"
proof (induction cs arbitrary: s)
  case Nil
  then show ?case by (intro exI [of _ "line_status s"]) simp
next
  case (Cons c cs)
  obtain xs where xs: "wait_line is_transmit_empty s = Some (s\<lparr>line_status := xs\<rparr>)" "ready_times xs = ready_times (line_status s) - 1"
    using wait_line_ready [of s] Cons.prems(2) by auto
  let ?s = "s\<lparr>line_status := xs, sent := sent s @ [c]\<rparr>"
  obtain ys where "for_each serial_printch cs ?s = Some (?s\<lparr>sent := sent ?s @ cs, line_status := ys\<rparr>)"
    using Cons.IH [of ?s] Cons.prems xs(2) by force
  moreover have "serial_printch c s = Some ?s" using xs(1) Cons.prems(1) by (simp add: serial_printch_def)
  ultimately show ?case by (intro exI [of _ ys]) simp
qed

text \<open>
  C36. The kernel's log: as long as the line allows bytes often enough, a formatted message is sent over the serial line
  exactly as its format and arguments read, error words with their origin included, and nothing is
  received or lost. The arguments must be ones the code can say: 64-bit numbers below 2 ^ 32 (of
  others only the low word is sent), signed numbers other than the least, binary numbers of at most
  19 digits, terminated strings, and error words whose origin is in the table of names.
\<close>

theorem serial_printf_sends:
  assumes "serial_port_found s" and "cstr fmt cs" and "length cs < 65534" and "20 \<le> length buffer"
    and "format_text (serial_text str origins) cs args = Some out" and "length out \<le> ready_times (line_status s)"
  shows "\<exists>xs. serial_printf str origins buffer fmt args s = Some (s\<lparr>sent := sent s @ out, line_status := xs\<rparr>)"
  using serial_formatter.sends_text [OF assms(2-5), of s] serial_sends [OF assms(1,6)] assms(1) by (simp add: serial_printf_def)

lemma serial_printf_sends_witness:
  "\<exists>xs. serial_printf (\<lambda>_. []) [[78, 0], [86, 70, 83, 0]] (replicate 20 0) [37, 101, 0] [0x01000205]
     \<lparr>serial_port_found = True, line_status = 0 # replicate 21 0x60, received = [], sent = [], setup_log = []\<rparr> =
   Some \<lparr>serial_port_found = True, line_status = xs, received = [], sent = [98, 97, 115, 101, 58, 32, 53, 32, 101, 120, 116, 58, 32, 50, 32, 86, 70, 83], setup_log = []\<rparr>"
proof -
  let ?s = "\<lparr>serial_port_found = True, line_status = 0 # replicate 21 (0x60 :: u8), received = [], sent = [], setup_log = []\<rparr>"
  have u: "unsigned_text 10 5 = [53]" "unsigned_text 10 2 = [50]" by (simp_all add: unsigned_text_def rdigits.simps hexes_def)
  have "format_text (serial_text (\<lambda>_. []) [[78, 0], [86, 70, 83, 0]]) [37, 101] [0x01000205] =
      Some [98, 97, 115, 101, 58, 32, 53, 32, 101, 120, 116, 58, 32, 50, 32, 86, 70, 83]"
    by (simp add: serial_text_def u emitted_def drop_bit_eq_div)
  moreover have "cstr [37, 101, 0] [37, 101]" by (simp add: cstr_def)
  moreover have "ready_times (line_status ?s) = 21" by (simp add: ready_times_def)
  ultimately show ?thesis using serial_printf_sends [of ?s "[37, 101, 0]" "[37, 101]" "replicate 20 0" "\<lambda>_. []" "[[78, 0], [86, 70, 83, 0]]" "[0x01000205]"]
    by fastforce
qed

end
