(* ===== verification/Ahci.thy ===== *)
theory Ahci
  imports Semaphores Bytes Kernel_Error
begin

text \<open>
  The disk controller's driver, AHCI.cpp. The controller's registers are fields of the state and each of its ports a record;
  command lists and tables lie in memory at the addresses the registers hold. What the controller changes while the driver polls a
  register is an argument: the list of the values that successive reads return, with the milliseconds passed where the driver
  looks at the clock; a list that runs out stands for a driver that still waits. Writing ones to an interrupt status register
  clears those bits, as the comment in \<^verbatim>\<open>ahci_clear_interrupt\<close> says. An index outside the ports is \<open>None\<close>.
\<close>

subsection \<open>Data\<close>

record hba_port =
  clb :: u32
  clbu :: u32
  fb :: u32
  fbu :: u32
  port_is :: u32
  port_ie :: u32
  port_cmd :: u32
  port_sig :: u32
  port_ssts :: u32
  port_serr :: u32
  port_sact :: u32
  port_ci :: u32

record ahci = thread_sched +
  ahci_memory :: mem
  hba_cap :: u32
  hba_ghc :: u32
  hba_is :: u32
  hba_pi :: u32
  hba_vs :: u32
  hba_ports :: "hba_port list"
  AHCI_BASE :: u32
  port_ok :: u32
  ahci_callback_sem :: semaphore
  ahci_request_sem :: semaphore
  ahci_error :: kerr

definition HBA_PxCMD_ST :: u32 where "HBA_PxCMD_ST = 1"
definition HBA_PxCMD_CR :: u32 where "HBA_PxCMD_CR = push_bit 15 1"
definition HBA_PxCMD_FRE :: u32 where "HBA_PxCMD_FRE = push_bit 4 1"
definition HBA_PxCMD_FR :: u32 where "HBA_PxCMD_FR = push_bit 14 1"
definition HBA_PxIS_TFES :: u32 where "HBA_PxIS_TFES = push_bit 30 1"
definition ATA_DEV_BUSY :: u32 where "ATA_DEV_BUSY = 0x80"
definition ATA_DEV_DRQ :: u32 where "ATA_DEV_DRQ = 0x08"
definition CAP_S64A :: u32 where "CAP_S64A = push_bit 31 1"
definition CAP_SAL :: u32 where "CAP_SAL = push_bit 25 1"
definition CAP_ISS :: u32 where "CAP_ISS = push_bit 20 0xF"
definition CAP_NCS :: u32 where "CAP_NCS = push_bit 8 0xF"
definition CAP_NP :: u32 where "CAP_NP = 0xF"
definition GHC_AE :: u32 where "GHC_AE = push_bit 31 1"
definition GHC_IE :: u32 where "GHC_IE = push_bit 1 1"
definition VS_MJR :: u32 where "VS_MJR = push_bit 16 0xFF"
definition VS_MNR :: u32 where "VS_MNR = 0xFF"

subsection \<open>The controller's properties\<close>

definition ahci_is_64bit :: "'a ahci_scheme \<Rightarrow> bool" where
  "ahci_is_64bit s \<longleftrightarrow> hba_cap s AND CAP_S64A \<noteq> 0"

definition ahci_has_LED :: "'a ahci_scheme \<Rightarrow> bool" where
  "ahci_has_LED s \<longleftrightarrow> hba_cap s AND CAP_SAL \<noteq> 0"

definition ahci_max_interface_speed :: "'a ahci_scheme \<Rightarrow> u8" where
  "ahci_max_interface_speed s = ucast (drop_bit 20 (hba_cap s AND CAP_ISS))"

definition ahci_get_no_command_slots :: "'a ahci_scheme \<Rightarrow> u8" where
  "ahci_get_no_command_slots s = ucast (drop_bit 8 (hba_cap s AND CAP_NCS) + 1)"

definition ahci_get_no_ports :: "'a ahci_scheme \<Rightarrow> u8" where
  "ahci_get_no_ports s = ucast ((hba_cap s AND CAP_NP) + 1)"

definition ahci_is_enabled :: "'a ahci_scheme \<Rightarrow> bool" where
  "ahci_is_enabled s \<longleftrightarrow> hba_ghc s AND GHC_AE \<noteq> 0"

definition ahci_interrupts_enabled :: "'a ahci_scheme \<Rightarrow> bool" where
  "ahci_interrupts_enabled s \<longleftrightarrow> hba_ghc s AND GHC_IE \<noteq> 0"

definition ahci_enable_interrupts :: "bool \<Rightarrow> 'a ahci_scheme \<Rightarrow> 'a ahci_scheme" where
  "ahci_enable_interrupts value s =
     (if value then s\<lparr>hba_ghc := hba_ghc s OR GHC_IE\<rparr> else s\<lparr>hba_ghc := hba_ghc s AND NOT GHC_IE\<rparr>)"

definition port_bit :: "u8 \<Rightarrow> u32" where
  \<comment> \<open>\<^verbatim>\<open>1 << port\<close>; the processor shifts by the count modulo 32.\<close>
  "port_bit port = push_bit (unat port mod 32) 1"

definition ahci_is_port_ok :: "u8 \<Rightarrow> 'a ahci_scheme \<Rightarrow> bool" where
  "ahci_is_port_ok port s \<longleftrightarrow> port_ok s AND port_bit port \<noteq> 0"

definition ahci_is_port_implemented :: "u8 \<Rightarrow> 'a ahci_scheme \<Rightarrow> bool" where
  "ahci_is_port_implemented port s \<longleftrightarrow> hba_pi s AND port_bit port \<noteq> 0"

definition ahci_is_interrupt_pending :: "u8 \<Rightarrow> 'a ahci_scheme \<Rightarrow> bool" where
  "ahci_is_interrupt_pending port s \<longleftrightarrow> \<not> (\<not> ahci_is_port_ok port s \<or> hba_is s AND port_bit port = 0)"

definition ahci_clear_interrupt :: "u8 \<Rightarrow> 'a ahci_scheme \<Rightarrow> 'a ahci_scheme" where
  "ahci_clear_interrupt port s =
     (if ahci_is_interrupt_pending port s then s\<lparr>hba_is := hba_is s AND NOT (hba_is s OR port_bit port)\<rparr> else s)"

definition ahci_get_major_vs :: "'a ahci_scheme \<Rightarrow> u16" where
  "ahci_get_major_vs s = ucast (drop_bit 16 (hba_vs s AND VS_MJR))"

definition ahci_get_minor_vs :: "'a ahci_scheme \<Rightarrow> u16" where
  "ahci_get_minor_vs s = ucast (hba_vs s AND VS_MNR)"

definition get_port :: "u8 \<Rightarrow> 'a ahci_scheme \<Rightarrow> hba_port option" where
  "get_port n s = array_get (hba_ports s) n"

definition upd_port :: "u8 \<Rightarrow> (hba_port \<Rightarrow> hba_port) \<Rightarrow> 'a ahci_scheme \<Rightarrow> 'a ahci_scheme option" where
  "upd_port n f s = do {
     p \<leftarrow> get_port n s;
     ps \<leftarrow> array_set (hba_ports s) n (f p);
     Some (s\<lparr>hba_ports := ps\<rparr>)
   }"

definition clear_port_interrupts :: "hba_port \<Rightarrow> hba_port" where
  \<comment> \<open>Ones written to every bit of the port's status.\<close>
  "clear_port_interrupts p = p\<lparr>port_is := port_is p AND NOT (- 1)\<rparr>"

subsection \<open>A command\<close>

primrec empty_slot_loop :: "nat \<Rightarrow> u32 \<Rightarrow> u32 \<Rightarrow> u32" where
  \<comment> \<open>\<open>n\<close> slots are left, \<open>i\<close> is the next.\<close>
  "empty_slot_loop 0 taken i = - 1"
| "empty_slot_loop (Suc n) taken i = (if taken AND 1 = 0 then i else empty_slot_loop n (drop_bit 1 taken) (i + 1))"

definition ahci_find_empty_slot :: "hba_port \<Rightarrow> 'a ahci_scheme \<Rightarrow> u32" where
  "ahci_find_empty_slot port s = empty_slot_loop (unat (ahci_get_no_command_slots s)) (port_sact port OR port_ci port) 0"

definition write_header :: "u32 \<Rightarrow> bool \<Rightarrow> u16 \<Rightarrow> mem \<Rightarrow> mem" where
  \<comment> \<open>The command header at \<open>cmd\<close>: the length of a frame, 5 words, in its low five bits; the direction in bit 6; and the
     number of entries of the table of regions.\<close>
  "write_header cmd write_dir prdtl m = (
     let m = m(cmd := (m cmd AND NOT 0x1F) OR 5);
         m = m(cmd := (if write_dir then m cmd OR 0x40 else m cmd AND NOT 0x40))
     in write16 (cmd + 2) prdtl m)"

definition write_entry :: "u32 \<Rightarrow> u32 \<Rightarrow> u32 \<Rightarrow> mem \<Rightarrow> mem" where
  \<comment> \<open>An entry of the table of regions: its address, its byte count in the low 22 bits of the last word, and the interrupt bit.\<close>
  "write_entry e dba dbc m = (
     let m = write32 m e dba;
         m = write32 m (e + 12) ((read32 m (e + 12) AND NOT 0x3FFFFF) OR (dbc AND 0x3FFFFF))
     in write32 m (e + 12) (read32 m (e + 12) OR 0x80000000))"

primrec prdt_loop :: "nat \<Rightarrow> u32 \<Rightarrow> u32 \<Rightarrow> u32 \<Rightarrow> u32 \<Rightarrow> mem \<Rightarrow> u32 \<times> u32 \<times> u32 \<times> mem" where
  \<comment> \<open>\<open>n\<close> full entries are left; \<open>e\<close>: the next entry. Returns the entry, buffer, count and memory after the loop.\<close>
  "prdt_loop 0 e buf count' step m = (e, buf, count', m)"
| "prdt_loop (Suc n) e buf count' step m = prdt_loop n (e + 16) (buf + 4 * 1024) (count' - step) step (write_entry e buf (8 * 1024) m)"

definition build_command :: "u32 \<Rightarrow> u32 \<Rightarrow> u32 \<Rightarrow> u32 \<Rightarrow> u32 \<Rightarrow> bool \<Rightarrow> mem \<Rightarrow> mem" where
  "build_command cmd startl starth count' buf read m = (
     let prdtl = (ucast (drop_bit 4 (count' - 1)) :: u16) + 1;
         m = write_header cmd (\<not> read) prdtl m;
         cmdtbl = read32 m (cmd + 8);
         m = memset cmdtbl 0 (144 + (ucast prdtl - 1) * 16) m;
         (e, buf, count', m) = prdt_loop (unat (ucast prdtl - 1 :: u32)) (cmdtbl + 128) buf count' 16 m;
         m = write_entry e buf (push_bit 9 count') m;
         m = m(cmdtbl := 0x27);
         m = m(cmdtbl + 1 := m (cmdtbl + 1) OR 0x80);
         m = m(cmdtbl + 2 := (if read then 0x25 else 0x35));
         m = m(cmdtbl + 4 := ucast startl, cmdtbl + 5 := ucast (drop_bit 8 startl), cmdtbl + 6 := ucast (drop_bit 16 startl),
           cmdtbl + 7 := push_bit 6 1);
         m = m(cmdtbl + 8 := ucast (drop_bit 24 startl), cmdtbl + 9 := ucast starth, cmdtbl + 10 := ucast (drop_bit 8 starth))
     in m(cmdtbl + 12 := ucast count', cmdtbl + 13 := ucast (drop_bit 8 count')))"

fun wait_while :: "('v \<Rightarrow> bool) \<Rightarrow> ('v \<times> u32) list \<Rightarrow> u32 \<Rightarrow> bool option" where
  \<comment> \<open>Polls a register while a condition holds: its values with the milliseconds since the loop began; false when the limit is
     reached.\<close>
  "wait_while busy [] limit = None"
| "wait_while busy ((v, t) # polls) limit =
     (if \<not> busy v then Some True
      else if t \<ge> limit then Some False
      else wait_while busy polls limit)"

datatype transfer = Request_Waits | Callback_Waits | Transfer_Failed error_t | Transfer_Done error_t

definition ahci_fail :: "u8 \<Rightarrow> u16 \<Rightarrow> 'a ahci_scheme \<Rightarrow> 'a ahci_scheme" where
  "ahci_fail base_code ext s = s\<lparr>ahci_error := set_last_error base_code ext EO_MASS_STORAGE_DEV (ahci_error s)\<rparr>"

definition ahci_finish :: "'a ahci_scheme \<Rightarrow> (transfer \<times> 'a ahci_scheme) option" where
  \<comment> \<open>The end of a transfer, once the callback has signalled.\<close>
  "ahci_finish s = do {
     (m, s) \<leftarrow> semaphore_signal (ahci_request_sem s) s;
     Some (Transfer_Done ERROR_OK, s\<lparr>ahci_request_sem := m\<rparr>)
   }"

definition ahci_issue ::
  "u8 \<Rightarrow> u32 \<Rightarrow> u32 \<Rightarrow> u32 \<Rightarrow> physical_addr \<Rightarrow> bool \<Rightarrow> (u32 \<times> u32) list \<Rightarrow> 'a ahci_scheme \<Rightarrow> (transfer \<times> 'a ahci_scheme) option" where
  \<comment> \<open>The part of a transfer that runs when the request semaphore has been taken.\<close>
  "ahci_issue n startl starth count' buf read polls s = do {
     s \<leftarrow> upd_port n clear_port_interrupts s;
     port \<leftarrow> get_port n s;
     let slot = ahci_find_empty_slot port s + 1;
     if slot = - 1 then Some (Transfer_Failed ERROR_OCCUR, ahci_fail EBUSY 1 s)
     else do {
       let cmd = clb port + slot * 32;
       let s = s\<lparr>ahci_memory := build_command cmd startl starth count' buf read (ahci_memory s)\<rparr>;
       free \<leftarrow> wait_while (\<lambda>tfd. tfd AND (ATA_DEV_BUSY OR ATA_DEV_DRQ) \<noteq> 0) polls 500;
       if \<not> free then Some (Transfer_Failed ERROR_OCCUR, ahci_fail EBUSY 8 s)
       else do {
         s \<leftarrow> upd_port n (\<lambda>p. p\<lparr>port_ci := port_ci p OR push_bit (unat slot mod 32) 1\<rparr>) s;
         (m, s') \<leftarrow> semaphore_wait (ahci_callback_sem s) s;
         if sint (sem_lock (ahci_callback_sem s)) \<le> 0 then Some (Callback_Waits, s'\<lparr>ahci_callback_sem := m\<rparr>)
         else ahci_finish (s'\<lparr>ahci_callback_sem := m\<rparr>)
       }
     }
   }"

definition ahci_data_transfer ::
  "u8 \<Rightarrow> u32 \<Rightarrow> u32 \<Rightarrow> u32 \<Rightarrow> physical_addr \<Rightarrow> bool \<Rightarrow> (u32 \<times> u32) list \<Rightarrow> 'a ahci_scheme \<Rightarrow> (transfer \<times> 'a ahci_scheme) option" where
  \<comment> \<open>When the request semaphore has no unit the thread waits, and goes on with \<open>ahci_issue\<close> when it runs again; when it waits
     for the callback it goes on with \<open>ahci_finish\<close>.\<close>
  "ahci_data_transfer n startl starth count' buf read polls s = do {
     (m, s') \<leftarrow> semaphore_wait (ahci_request_sem s) s;
     if sint (sem_lock (ahci_request_sem s)) \<le> 0 then Some (Request_Waits, s'\<lparr>ahci_request_sem := m\<rparr>)
     else ahci_issue n startl starth count' buf read polls (s'\<lparr>ahci_request_sem := m\<rparr>)
   }"

primrec callback_loop :: "nat \<Rightarrow> u8 \<Rightarrow> 'a ahci_scheme \<Rightarrow> 'a ahci_scheme option" where
  "callback_loop 0 i s = Some s"
| "callback_loop (Suc n) i s = do {
     s \<leftarrow> (if ahci_is_interrupt_pending i s then do {
          s \<leftarrow> upd_port i clear_port_interrupts s;
          let s = ahci_clear_interrupt i s;
          (m, s) \<leftarrow> semaphore_signal (ahci_callback_sem s) s;
          Some (s\<lparr>ahci_callback_sem := m\<rparr>)
        }
        else Some s);
     callback_loop n (i + 1) s
   }"

definition ahci_callback :: "'a ahci_scheme \<Rightarrow> 'a ahci_scheme option" where
  "ahci_callback s = callback_loop (unat (ahci_get_no_ports s)) 0 s"

subsection \<open>Ports\<close>

record port_polls =
  \<comment> \<open>What the controller shows while a port is set up.\<close>
  polls_cr :: "(u32 \<times> u32) list"
  polls_fr :: "(u32 \<times> u32) list"
  polls_start :: "((u32 \<times> u32) \<times> u32) list" \<comment> \<open>task file and status\<close>
  polls_spin :: "u32 list" \<comment> \<open>task file\<close>
  polls_done :: "(u32 \<times> u32) list" \<comment> \<open>commands issued and interrupt status\<close>
  final_is :: u32

definition ahci_start_cmd :: "u8 \<Rightarrow> port_polls \<Rightarrow> 'a ahci_scheme \<Rightarrow> (bool \<times> 'a ahci_scheme) option" where
  \<comment> \<open>The pause of 500 milliseconds between the two writes is left out.\<close>
  "ahci_start_cmd n obs s = do {
     port \<leftarrow> get_port n s;
     if port_cmd port AND HBA_PxCMD_CR \<noteq> 0 \<or> port_cmd port AND HBA_PxCMD_FR \<noteq> 0 \<or> port_cmd port AND HBA_PxCMD_FRE \<noteq> 0 then None
     else do {
       s \<leftarrow> upd_port n (\<lambda>p. p\<lparr>port_cmd := port_cmd p OR HBA_PxCMD_FRE\<rparr>) s;
       r \<leftarrow> wait_while (\<lambda>(tfd, ssts). tfd AND 0x80 \<noteq> 0 \<or> tfd AND 0x8 \<noteq> 0 \<or> ssts AND 0xF \<noteq> 3) (polls_start obs) 1000;
       if \<not> r then Some (False, s)
       else do {
         s \<leftarrow> upd_port n (\<lambda>p. p\<lparr>port_cmd := port_cmd p OR HBA_PxCMD_ST\<rparr>) s;
         Some (True, s)
       }
     }
   }"

definition ahci_stop_cmd :: "u8 \<Rightarrow> port_polls \<Rightarrow> 'a ahci_scheme \<Rightarrow> (bool \<times> 'a ahci_scheme) option" where
  \<comment> \<open>\<^verbatim>\<open>~HBA_PxCMD_FRE\<close> expands to \<^verbatim>\<open>~1 << 4\<close>, the shift of the complement.\<close>
  "ahci_stop_cmd n obs s = do {
     s \<leftarrow> upd_port n (\<lambda>p. p\<lparr>port_cmd := port_cmd p AND NOT HBA_PxCMD_ST\<rparr>) s;
     r \<leftarrow> wait_while (\<lambda>cmd. cmd AND HBA_PxCMD_CR = 1) (polls_cr obs) 500;
     if \<not> r then Some (False, s)
     else do {
       s \<leftarrow> upd_port n (\<lambda>p. p\<lparr>port_cmd := port_cmd p AND push_bit 4 (NOT 1)\<rparr>) s;
       r \<leftarrow> wait_while (\<lambda>cmd. cmd AND HBA_PxCMD_FR = 1) (polls_fr obs) 500;
       Some (r, s)
     }
   }"

definition table_addr :: "u32 \<Rightarrow> u8 \<Rightarrow> nat \<Rightarrow> u32" where
  "table_addr base n i = base + push_bit 10 40 + push_bit 13 (ucast n) + push_bit 8 (of_nat i)"

primrec rebase_loop :: "nat \<Rightarrow> nat \<Rightarrow> u32 \<Rightarrow> u8 \<Rightarrow> u32 \<Rightarrow> bool \<Rightarrow> mem \<Rightarrow> mem" where
  \<comment> \<open>\<open>k\<close> headers are left, \<open>i\<close> is the next; \<open>cmd\<close>: the command list.\<close>
  "rebase_loop 0 i base n cmd wide m = m"
| "rebase_loop (Suc k) i base n cmd wide m = (
     let h = cmd + 32 * of_nat i;
         m = write16 (h + 2) 8 m;
         m = write32 m (h + 8) (table_addr base n i);
         m = (if wide then write32 m (h + 12) 0 else m);
         m = memset (table_addr base n i) 0 256 m
     in rebase_loop k (Suc i) base n cmd wide m)"

definition ahci_port_rebase :: "u8 \<Rightarrow> port_polls \<Rightarrow> 'a ahci_scheme \<Rightarrow> (error_t \<times> 'a ahci_scheme) option" where
  "ahci_port_rebase n obs s = do {
     (b, s) \<leftarrow> ahci_stop_cmd n obs s;
     if \<not> b then Some (ERROR_OCCUR, ahci_fail EIO 4 s)
     else do {
       let wide = ahci_is_64bit s;
       let list = AHCI_BASE s + push_bit 10 (ucast n);
       let fis = AHCI_BASE s + push_bit 10 32 + push_bit 8 (ucast n);
       s \<leftarrow> upd_port n (\<lambda>p. p\<lparr>clb := list, clbu := (if wide then 0 else clbu p)\<rparr>) s;
       let s = s\<lparr>ahci_memory := memset list 0 1024 (ahci_memory s)\<rparr>;
       s \<leftarrow> upd_port n (\<lambda>p. p\<lparr>fb := fis, fbu := (if wide then 0 else fbu p)\<rparr>) s;
       let s = s\<lparr>ahci_memory := memset fis 0 256 (ahci_memory s)\<rparr>;
       let s = s\<lparr>ahci_memory := rebase_loop 32 0 (AHCI_BASE s) n list wide (ahci_memory s)\<rparr>;
       s \<leftarrow> upd_port n (\<lambda>p. p\<lparr>port_serr := port_serr p AND NOT (- 1), port_ie := - 1\<rparr>) s;
       (b, s) \<leftarrow> ahci_start_cmd n obs s;
       if \<not> b then Some (ERROR_OCCUR, ahci_fail EIO 4 s)
       else Some (ERROR_OK, s\<lparr>port_ok := port_ok s OR port_bit n\<rparr>)
     }
   }"

fun spin_loop :: "u32 list \<Rightarrow> nat \<Rightarrow> nat option" where
  \<comment> \<open>Counts the reads of a busy task file, at most a million.\<close>
  "spin_loop [] spin = None"
| "spin_loop (tfd # polls) spin =
     (if tfd AND (ATA_DEV_BUSY OR ATA_DEV_DRQ) \<noteq> 0 \<and> spin < 1000000 then spin_loop polls (spin + 1) else Some spin)"

fun done_loop :: "u32 \<Rightarrow> (u32 \<times> u32) list \<Rightarrow> bool option" where
  \<comment> \<open>False: the controller reported an error.\<close>
  "done_loop b [] = None"
| "done_loop b ((ci, pis) # polls) =
     (if ci AND b = 0 then Some True else if pis AND HBA_PxIS_TFES \<noteq> 0 then Some False else done_loop b polls)"

definition build_identify :: "u32 \<Rightarrow> u32 \<Rightarrow> mem \<Rightarrow> mem" where
  "build_identify cmd buf m = (
     let m = write_header cmd False 1 m;
         cmdtbl = read32 m (cmd + 8);
         m = memset cmdtbl 0 144 m;
         m = write_entry (cmdtbl + 128) buf 512 m;
         m = m(cmdtbl := 0x27);
         m = m(cmdtbl + 1 := m (cmdtbl + 1) OR 0x80)
     in m(cmdtbl + 2 := 0xEC, cmdtbl + 7 := 0))"

definition ahci_send_identify :: "u8 \<Rightarrow> virtual_addr \<Rightarrow> port_polls \<Rightarrow> 'a ahci_scheme \<Rightarrow> (error_t \<times> 'a ahci_scheme) option" where
  "ahci_send_identify n buf obs s = do {
     s \<leftarrow> upd_port n clear_port_interrupts s;
     port \<leftarrow> get_port n s;
     let slot = ahci_find_empty_slot port s;
     if slot = - 1 then Some (ERROR_OCCUR, ahci_fail EBUSY 1 s)
     else do {
       let s = s\<lparr>ahci_memory := build_identify (clb port + slot * 32) buf (ahci_memory s)\<rparr>;
       spin \<leftarrow> spin_loop (polls_spin obs) 0;
       if spin = 1000000 then Some (ERROR_OCCUR, ahci_fail EBUSY 8 s)
       else do {
         let b = push_bit (unat slot mod 32) 1;
         s \<leftarrow> upd_port n (\<lambda>p. p\<lparr>port_ci := b\<rparr>) s;
         ok \<leftarrow> done_loop b (polls_done obs);
         if \<not> ok \<or> final_is obs AND HBA_PxIS_TFES \<noteq> 0 then Some (ERROR_OCCUR, ahci_fail EBUSY 9 s)
         else Some (ERROR_OK, s)
       }
     }
   }"

record ahci_storage_info =
  volume_size :: u32
  sector_size :: u16
  serial_number :: bytes
  volume_port :: u8

definition ahci_setup_vfs_port ::
  "u8 \<Rightarrow> virtual_addr \<Rightarrow> (nat \<Rightarrow> u8) \<Rightarrow> port_polls \<Rightarrow> 'a ahci_scheme \<Rightarrow> (error_t \<times> (bytes \<times> ahci_storage_info) option \<times> 'a ahci_scheme) option" where
  \<comment> \<open>The name and information of the device that Vfs enters; \<open>packet\<close>: what the drive has written to the buffer.\<close>
  "ahci_setup_vfs_port n buf packet obs s = do {
     (err, s) \<leftarrow> ahci_send_identify n buf obs s;
     if err \<noteq> ERROR_OK then Some (ERROR_OCCUR, None, s)
     else do {
       name \<leftarrow> uitoalpha (ucast n) (replicate 6 0);
       Some (ERROR_OK, Some (115 # 100 # name,
         \<lparr>volume_size = ucast (packet 120) OR push_bit 8 (ucast (packet 121)) OR push_bit 16 (ucast (packet 122)) OR push_bit 24 (ucast (packet 123)),
           sector_size = 512, serial_number = map (\<lambda>i. packet (20 + i)) [0..<20], volume_port = n\<rparr>), s)
     }
   }"

type_synonym device_entry = "u8 \<times> bytes \<times> ahci_storage_info"

primrec init_ports ::
  "nat \<Rightarrow> u8 \<Rightarrow> virtual_addr \<Rightarrow> (u8 \<Rightarrow> nat \<Rightarrow> u8) \<Rightarrow> (u8 \<Rightarrow> port_polls) \<Rightarrow> device_entry list \<Rightarrow> 'a ahci_scheme \<Rightarrow>
   (error_t \<times> device_entry list \<times> 'a ahci_scheme) option" where
  "init_ports 0 i buf packets obs ds s = Some (ERROR_OK, ds, s)"
| "init_ports (Suc k) i buf packets obs ds s =
     (if ahci_is_port_implemented i s then do {
        (err, s) \<leftarrow> ahci_port_rebase i (obs i) s;
        if err \<noteq> ERROR_OK then Some (ERROR_OCCUR, ds, s)
        else if ahci_is_port_ok i s then do {
          (err, d, s) \<leftarrow> ahci_setup_vfs_port i buf (packets i) (obs i) s;
          case d of None \<Rightarrow> Some (ERROR_OCCUR, ds, s)
          | Some (name, info) \<Rightarrow> init_ports k (i + 1) buf packets obs (ds @ [(i, name, info)]) s
        }
        else init_ports k (i + 1) buf packets obs ds s
      }
      else init_ports k (i + 1) buf packets obs ds s)"

definition init_ahci ::
  "bool \<Rightarrow> bool \<Rightarrow> u32 \<Rightarrow> virtual_addr \<Rightarrow> (u8 \<Rightarrow> nat \<Rightarrow> u8) \<Rightarrow> (u8 \<Rightarrow> port_polls) \<Rightarrow> 'a ahci_scheme \<Rightarrow> (error_t \<times> device_entry list \<times> 'a ahci_scheme) option" where
  \<comment> \<open>\<open>null\<close>: the controller's address is zero; \<open>mapped\<close>: its page could be allocated. The handler of interrupt 43 is entered as
     Interrupts has it. On an error the source stops before the semaphores are set.\<close>
  "init_ahci null mapped base buf packets obs s =
     (if null \<or> \<not> mapped then None
      else do {
        let s = s\<lparr>AHCI_BASE := base\<rparr>;
        (err, ds, s) \<leftarrow> init_ports (unat (ahci_get_no_ports s)) 0 buf packets obs [] s;
        if err \<noteq> ERROR_OK then Some (ERROR_OCCUR, ds, s)
        else do {
          let s = s\<lparr>ahci_callback_sem := semaphore_init 0 (ahci_callback_sem s), ahci_request_sem := semaphore_init 1 (ahci_request_sem s)\<rparr>;
          Some (ERROR_OK, ds, ahci_enable_interrupts True s)
        }
      })"

subsection \<open>The file operations\<close>

definition ahci_fs_transfer ::
  "bool \<Rightarrow> (u32 \<times> ahci_storage_info option) option \<Rightarrow> u32 \<Rightarrow> u32 \<Rightarrow> physical_addr \<Rightarrow> (u32 \<times> u32) list \<Rightarrow> 'a ahci_scheme \<Rightarrow> (transfer \<times> 'a ahci_scheme) option" where
  \<comment> \<open>\<open>file\<close>: the node's attributes and information; 4 is the attribute of a device.\<close>
  "ahci_fs_transfer read file start count' phys polls s =
     (case file of
        Some (attributes, Some info) \<Rightarrow>
          if attributes AND 0x7 \<noteq> 4 then Some (Transfer_Failed INVALID_IO, ahci_fail EINVAL 11 s)
          else if \<not> ahci_is_port_ok (volume_port info) s then Some (Transfer_Failed INVALID_IO, ahci_fail EBADSLT 10 s)
          else do {
            (r, s) \<leftarrow> ahci_data_transfer (volume_port info) start 0 count' phys read polls s;
            Some (case r of Transfer_Failed _ \<Rightarrow> Transfer_Failed INVALID_IO | Transfer_Done _ \<Rightarrow> Transfer_Done count' | w \<Rightarrow> w, s)
          }
      | _ \<Rightarrow> Some (Transfer_Failed INVALID_IO, ahci_fail EINVAL 11 s))"

definition ahci_fs_read where
  "ahci_fs_read file start count' phys polls s = ahci_fs_transfer True file start count' phys polls s"

definition ahci_fs_write where
  "ahci_fs_write file start count' phys polls s = ahci_fs_transfer False file start count' phys polls s"

definition ahci_ioctl :: error_t where
  "ahci_ioctl = ERROR_OK"

end
