(* ===== verification/Ahci_Facts.thy ===== *)
theory Ahci_Facts
  imports Ahci
begin

text \<open>
  What the controller finds in memory when a command is issued, where the driver's structures for the ports lie, and what the
  interrupt handler does when several ports are done.
\<close>

subsection \<open>Memory in a region\<close>

definition outside :: "u32 \<Rightarrow> nat \<Rightarrow> u32 \<Rightarrow> bool" where
  \<comment> \<open>The address is not in the region of \<open>n\<close> bytes at \<open>b\<close>.\<close>
  "outside b n a \<longleftrightarrow> n \<le> unat (a - b)"

lemma outside_offset: "j < 2 ^ 32 \<Longrightarrow> outside b n (b + of_nat j) \<longleftrightarrow> n \<le> j"
  by (simp add: outside_def unat_of_nat_u32)

lemma outside_ne: "outside b n a \<Longrightarrow> j < n \<Longrightarrow> j < 2 ^ 32 \<Longrightarrow> a \<noteq> b + of_nat j"
  by (auto simp: outside_offset)

definition entry_addr :: "mem \<Rightarrow> u32 \<Rightarrow> nat \<Rightarrow> u32" where
  "entry_addr m tbl i = read32 m (tbl + 128 + of_nat (16 * i))"

definition entry_bytes :: "mem \<Rightarrow> u32 \<Rightarrow> nat \<Rightarrow> u32" where
  "entry_bytes m tbl i = read32 m (tbl + 128 + of_nat (16 * i) + 12) AND 0x3FFFFF"

lemma read32_write32_other:
  "{a, a + 1, a + 2, a + 3} \<inter> {b, b + 1, b + 2, b + 3} = {} \<Longrightarrow> read32 (write32 m a v) b = read32 m b"
  by (rule read32_cong) (rule write32_other, blast)

lemma write_entry_outside: "outside e 16 a \<Longrightarrow> write_entry e d c m a = m a"
  using outside_ne [of e 16 a 0] outside_ne [of e 16 a 1] outside_ne [of e 16 a 2] outside_ne [of e 16 a 3]
    outside_ne [of e 16 a 12] outside_ne [of e 16 a 13] outside_ne [of e 16 a 14] outside_ne [of e 16 a 15]
  by (simp add: write_entry_def Let_def write32_other add.assoc)

lemma masked_field: "h AND k = 0 \<Longrightarrow> ((x AND NOT k OR (c AND k)) OR h) AND k = c AND (k :: u32)"
  by (metis (no_types, opaque_lifting) and.assoc and.commute and.idem and.right_neutral bit.conj_cancel_left
      bit.conj_disj_distrib2 bit.conj_zero_right or.left_neutral or.right_neutral)

lemma write_entry_reads: "read32 (write_entry e d c m) e = d" "read32 (write_entry e d c m) (e + 12) AND 0x3FFFFF = c AND 0x3FFFFF"
proof -
  show "read32 (write_entry e d c m) e = d" by (simp add: write_entry_def Let_def read32_write32_other)
  have "((x AND NOT 0x3FFFFF OR (c AND 0x3FFFFF)) OR 0x80000000) AND 0x3FFFFF = c AND 0x3FFFFF" for x :: u32
    by (rule masked_field) simp
  then show "read32 (write_entry e d c m) (e + 12) AND 0x3FFFFF = c AND 0x3FFFFF" by (simp add: write_entry_def Let_def)
qed

lemma read32_outside: "(\<And>a. \<not> outside e 4 a \<Longrightarrow> m a = m' a) \<Longrightarrow> read32 m e = read32 m' e"
  using outside_offset [of 0 e 4] outside_offset [of 1 e 4] outside_offset [of 2 e 4] outside_offset [of 3 e 4]
  by (intro read32_cong) auto

lemma unat_numeral_small: "unat (12 :: u32) < 16" "unat (13 :: u32) < 16" "unat (14 :: u32) < 16" "unat (15 :: u32) < 16"
  by simp_all

lemma prdt_loop_ok:
  assumes "16 * (i + n) < 2 ^ 31"
  shows "\<exists>m'. prdt_loop n (tbl + 128 + of_nat (16 * i)) buf c 16 m = (tbl + 128 + of_nat (16 * (i + n)), buf + of_nat (4096 * n), c - of_nat (16 * n), m') \<and>
    (\<forall>j < n. entry_addr m' tbl (i + j) = buf + of_nat (4096 * j) \<and> entry_bytes m' tbl (i + j) = 8192) \<and>
    (\<forall>a. outside (tbl + 128 + of_nat (16 * i)) (16 * n) a \<longrightarrow> m' a = m a)"
  using assms
proof (induction n arbitrary: i buf c m)
  case (Suc n)
  let ?e = "tbl + 128 + of_nat (16 * i)" and ?m = "write_entry (tbl + 128 + of_nat (16 * i)) buf 8192 m"
  have e: "?e + 16 = tbl + 128 + of_nat (16 * Suc i)" by simp
  obtain m' where m': "prdt_loop n (tbl + 128 + of_nat (16 * Suc i)) (buf + 4096) (c - 16) 16 ?m =
      (tbl + 128 + of_nat (16 * (Suc i + n)), buf + 4096 + of_nat (4096 * n), c - 16 - of_nat (16 * n), m')"
    "\<And>j. j < n \<Longrightarrow> entry_addr m' tbl (Suc i + j) = buf + 4096 + of_nat (4096 * j) \<and> entry_bytes m' tbl (Suc i + j) = 8192"
    "\<And>a. outside (tbl + 128 + of_nat (16 * Suc i)) (16 * n) a \<Longrightarrow> m' a = ?m a"
    using Suc.IH [of "Suc i" "buf + 4096" "c - 16" ?m] Suc.prems by auto
  have o: "outside (tbl + 128 + of_nat (16 * Suc i)) (16 * n) a" if "\<not> outside ?e 16 a" for a
  proof -
    define k where "k = unat (a - ?e)"
    have k: "k < 16" using that by (simp add: outside_def k_def)
    have "a - (tbl + 128 + of_nat (16 * Suc i)) = (a - ?e) - 16" by simp
    also have "a - ?e = of_nat k" by (simp add: k_def)
    also have "of_nat k - 16 = (of_nat (2 ^ 32 - 16 + k) :: u32)" by simp
    finally have "a - (tbl + 128 + of_nat (16 * Suc i)) = of_nat (2 ^ 32 - 16 + k)" .
    from arg_cong [OF this, of unat] have "unat (a - (tbl + 128 + of_nat (16 * Suc i))) = 2 ^ 32 - 16 + k"
      by (subst (asm) unat_of_nat_u32) (use k in \<open>simp_all del: of_nat_add\<close>)
    then show ?thesis using Suc.prems by (simp add: outside_def)
  qed
  have r: "read32 m' ?e = read32 ?m ?e" "read32 m' (?e + 12) = read32 ?m (?e + 12)"
  proof -
    show "read32 m' ?e = read32 ?m ?e" by (rule read32_outside) (use o m'(3) in \<open>auto simp: outside_def\<close>)
    show "read32 m' (?e + 12) = read32 ?m (?e + 12)"
    proof (rule read32_cong)
      fix x assume "x \<in> {?e + 12, ?e + 12 + 1, ?e + 12 + 2, ?e + 12 + 3}"
      then have "x - ?e = 12 \<or> x - ?e = 13 \<or> x - ?e = 14 \<or> x - ?e = 15" by auto
      then have "unat (x - ?e) < 16" by (elim disjE) (simp_all only: unat_numeral_small)
      then have "\<not> outside ?e 16 x" by (simp only: outside_def not_le)
      then show "m' x = ?m x" using o m'(3) by blast
    qed
  qed
  have "entry_addr m' tbl (i + j) = buf + of_nat (4096 * j) \<and> entry_bytes m' tbl (i + j) = 8192" if "j < Suc n" for j
  proof (cases j)
    case 0
    then show ?thesis using r write_entry_reads [of ?e buf 8192 m] by (simp add: entry_addr_def entry_bytes_def)
  next
    case (Suc k)
    then show ?thesis using m'(2) [of k] that by (simp add: algebra_simps)
  qed
  moreover have "m' a = m a" if a: "outside ?e (16 * Suc n) a" for a
  proof -
    have "outside ?e 16 a" using a by (simp add: outside_def)
    moreover have "outside (tbl + 128 + of_nat (16 * Suc i)) (16 * n) a"
    proof -
      have "16 \<le> unat (a - ?e)" using a by (simp add: outside_def)
      then have "unat (a - ?e - 16) = unat (a - ?e) - 16" by (subst unat_sub_le) simp_all
      moreover have "a - (tbl + 128 + of_nat (16 * Suc i)) = a - ?e - 16" by simp
      ultimately have "unat (a - (tbl + 128 + of_nat (16 * Suc i))) = unat (a - ?e) - 16" by (simp only:)
      moreover have "16 * Suc n \<le> u \<Longrightarrow> 16 * n \<le> u - 16" for u by simp
      ultimately show ?thesis using a unfolding outside_def by (simp only:)
    qed
    ultimately show ?thesis using m'(3) write_entry_outside by simp
  qed
  ultimately show ?case using m'(1) unfolding e [symmetric] by (simp add: e algebra_simps)
qed (auto simp: outside_def)

lemma entry_cong:
  assumes "\<And>a. \<not> outside (tbl + 128 + of_nat (16 * i)) 16 a \<Longrightarrow> m a = m' a"
  shows "entry_addr m tbl i = entry_addr m' tbl i \<and> entry_bytes m tbl i = entry_bytes m' tbl i"
proof -
  let ?e = "tbl + 128 + of_nat (16 * i)"
  have "read32 m ?e = read32 m' ?e" by (rule read32_outside) (use assms in \<open>simp add: outside_def\<close>)
  moreover have "read32 m (?e + 12) = read32 m' (?e + 12)"
  proof (rule read32_cong)
    fix x assume "x \<in> {?e + 12, ?e + 12 + 1, ?e + 12 + 2, ?e + 12 + 3}"
    then have "x - ?e = 12 \<or> x - ?e = 13 \<or> x - ?e = 14 \<or> x - ?e = 15" by auto
    then have "unat (x - ?e) < 16" by (elim disjE) (simp_all only: unat_numeral_small)
    then have "\<not> outside ?e 16 x" by (simp only: outside_def not_le)
    then show "m x = m' x" by (rule assms)
  qed
  ultimately show ?thesis by (simp add: entry_addr_def entry_bytes_def)
qed

lemma outside_before:
  assumes "j < d" and "n + (d - j) \<le> 2 ^ 32"
  shows "outside (tbl + of_nat d) n (tbl + of_nat j)"
proof -
  let ?k = "2 ^ 32 - (d - j)"
  have "?k + d = 2 ^ 32 + j" using assms by simp
  from arg_cong [OF this, of "of_nat :: nat \<Rightarrow> u32"] have "of_nat ?k + of_nat d = (of_nat (2 ^ 32) + of_nat j :: u32)" by (simp only: of_nat_add)
  moreover have "of_nat (2 ^ 32) = (0 :: u32)" by simp
  moreover have "k + d = 0 + j' \<Longrightarrow> tbl + j' - (tbl + d) = k" for k d j' :: u32 by (simp add: algebra_simps)
  ultimately have "tbl + of_nat j - (tbl + of_nat d) = of_nat ?k" by (simp only:)
  moreover have "?k < 2 ^ 32" using assms by simp
  ultimately have "unat (tbl + of_nat j - (tbl + of_nat d)) = ?k" using unat_of_nat_u32 [of ?k] by (simp only:)
  moreover have "n \<le> ?k" using assms by linarith
  ultimately show ?thesis unfolding outside_def by (simp only:)
qed

lemma header_written:
  assumes "m' = write_header cmd wr v m"
  shows "m' cmd AND 0x1F = 5" "bit (m' cmd) 6 = wr" "read16 m' (cmd + 2) = v" "outside cmd 4 a \<Longrightarrow> m' a = m a"
proof -
  show "outside cmd 4 a \<Longrightarrow> m' a = m a"
    using outside_ne [of cmd 4 a 0] outside_ne [of cmd 4 a 2] outside_ne [of cmd 4 a 3]
    by (simp add: assms write_header_def Let_def write16_def add.assoc)
  show "read16 m' (cmd + 2) = v" by (simp add: assms write_header_def Let_def read16_write16)
  have c: "m' cmd = (if wr then (m cmd AND NOT 0x1F OR 5) OR 0x40 else (m cmd AND NOT 0x1F OR 5) AND NOT 0x40)"
    by (simp add: assms write_header_def Let_def write16_def)
  show "m' cmd AND 0x1F = 5" unfolding c by (rule bit_word_eqI) (auto simp: bit_simps less_Suc_eq numeral_eq_Suc)
  show "bit (m' cmd) 6 = wr" unfolding c by (auto simp: bit_simps)
qed

definition write_frame :: "u32 \<Rightarrow> u32 \<Rightarrow> u32 \<Rightarrow> u32 \<Rightarrow> bool \<Rightarrow> mem \<Rightarrow> mem" where
  \<comment> \<open>The frame of a command, at the start of its table.\<close>
  "write_frame t startl starth c read m = (
     let m = m(t := 0x27);
         m = m(t + 1 := m (t + 1) OR 0x80);
         m = m(t + 2 := (if read then 0x25 else 0x35));
         m = m(t + 4 := ucast startl, t + 5 := ucast (drop_bit 8 startl), t + 6 := ucast (drop_bit 16 startl),
           t + 7 := push_bit 6 1);
         m = m(t + 8 := ucast (drop_bit 24 startl), t + 9 := ucast starth, t + 10 := ucast (drop_bit 8 starth))
     in m(t + 12 := ucast c, t + 13 := ucast (drop_bit 8 c)))"

lemma frame_outside: "outside t 14 a \<Longrightarrow> write_frame t startl starth c read m a = m a"
  using outside_ne [of t 14 a 0] outside_ne [of t 14 a 1] outside_ne [of t 14 a 2] outside_ne [of t 14 a 4] outside_ne [of t 14 a 5]
    outside_ne [of t 14 a 6] outside_ne [of t 14 a 7] outside_ne [of t 14 a 8] outside_ne [of t 14 a 9] outside_ne [of t 14 a 10]
    outside_ne [of t 14 a 12] outside_ne [of t 14 a 13]
  by (simp add: write_frame_def Let_def)

definition frame_of :: "u32 \<Rightarrow> u32 \<Rightarrow> u32 \<Rightarrow> bool \<Rightarrow> bytes" where
  \<comment> \<open>A frame of a host to a device with a 48-bit address, as the interface's specification lays it out.\<close>
  "frame_of startl starth c read = [0x27, 0x80, (if read then 0x25 else 0x35), 0,
     ucast startl, ucast (drop_bit 8 startl), ucast (drop_bit 16 startl), 0x40,
     ucast (drop_bit 24 startl), ucast starth, ucast (drop_bit 8 starth), 0, ucast c, ucast (drop_bit 8 c)]"

lemma frame_bytes: "load (write_frame t startl starth c read m) t 14 = frame_of startl starth c read"
  if "m (t + 1) = 0" "m (t + 3) = 0" "m (t + 11) = 0"
proof -
  have "[0..<14] = [0, 1, 2, 3, 4, 5, 6, 7, 8, 9, 10, 11, 12, 13]" by (simp add: upt_rec)
  then show ?thesis using that by (simp add: load_def write_frame_def Let_def frame_of_def)
qed

lemma build_command_steps:
  fixes count' :: u32
  assumes c: "1 \<le> unat count'" "unat count' \<le> 128" and n: "n = (unat count' - 1) div 16"
    and m1: "m1 = write_header cmd (\<not> read) (of_nat (n + 1)) m" and t: "t = read32 m1 (cmd + 8)"
    and m2: "m2 = memset t 0 (144 + of_nat n * 16) m1"
    and m3: "prdt_loop n (t + 128) buf count' 16 m2 = (e, buf', c', m3)"
  shows "build_command cmd startl starth count' buf read m = write_frame t startl starth c' read (write_entry e buf' (push_bit 9 c') m3)"
proof -
  have "count' \<noteq> 0" using c by auto
  then have "unat (drop_bit 4 (count' - 1)) = n"
    using c n unat_minus_one [of count'] by (auto simp: unat_drop_bit_eq drop_bit_eq_div unat_div)
  from arg_cong [OF this, of "of_nat :: nat \<Rightarrow> u32"] have d: "drop_bit 4 (count' - 1) = of_nat n" by simp
  have n8: "n < 8" using c n by auto
  have p: "(ucast (of_nat n :: u32) :: u16) + 1 = of_nat (n + 1)" using n8 by (simp add: unsigned_of_nat take_bit_nat_eq_self)
  have q: "(ucast (of_nat (n + 1) :: u16) :: u32) - 1 = of_nat n"
  proof -
    have "(ucast (of_nat (n + 1) :: u16) :: u32) = of_nat (n + 1)" using n8 by (simp add: unsigned_of_nat take_bit_nat_eq_self del: of_nat_Suc of_nat_add)
    then show ?thesis by simp
  qed
  have u: "unat (of_nat n :: u32) = n" using n8 by (simp add: unat_of_nat_u32)
  show ?thesis unfolding build_command_def Let_def d p q u m1 [symmetric] t [symmetric] m2 [symmetric] m3
    by (simp add: write_frame_def Let_def)
qed

lemma table_written:
  assumes n: "n < 8" and m2: "m2 = memset t 0 (144 + of_nat n * 16) m1"
    and m3: "prdt_loop n (t + 128) buf (of_nat c) 16 m2 = (e, buf', c', m3)" and c: "16 * n < c" "c \<le> 16 * n + 16"
    and m5: "m5 = write_frame t startl starth c' read (write_entry e buf' (push_bit 9 c') m3)"
  shows "load m5 t 14 = frame_of startl starth (of_nat (c - 16 * n)) read"
    and "\<forall>i \<le> n. entry_addr m5 t i = buf + of_nat (4096 * i) \<and> entry_bytes m5 t i = (if i < n then 8192 else of_nat (512 * (c - 16 * n)))"
    and "outside t 256 a \<Longrightarrow> m5 a = m1 a"
proof -
  obtain m' where m': "prdt_loop n (t + 128) buf (of_nat c) 16 m2 =
      (t + 128 + of_nat (16 * n), buf + of_nat (4096 * n), of_nat c - of_nat (16 * n), m')"
    and d: "\<And>j. j < n \<Longrightarrow> entry_addr m' t j = buf + of_nat (4096 * j) \<and> entry_bytes m' t j = 8192"
    and o: "\<And>a. outside (t + 128) (16 * n) a \<Longrightarrow> m' a = m2 a"
    using prdt_loop_ok [of 0 n t buf "of_nat c" m2] n by auto
  have e: "e = t + 128 + of_nat (16 * n)" "buf' = buf + of_nat (4096 * n)" "c' = of_nat c - of_nat (16 * n)" "m3 = m'" using m' m3 by auto
  have c': "c' = of_nat (c - 16 * n)" using c e(3) by (simp add: of_nat_diff)
  define m4 where "m4 = write_entry e buf' (push_bit 9 c') m3"
  have l: "144 + of_nat n * 16 = (of_nat (144 + 16 * n) :: u32)" by simp
  have z: "m2 a = (if unat (a - t) < 144 + 16 * n then 0 else m1 a)" for a
    unfolding m2 memset_ok l using n by (subst unat_of_nat_u32) (auto simp del: of_nat_add)
  have low: "m4 (t + of_nat j) = m2 (t + of_nat j)" if "j < 128" for j
  proof -
    have "outside (t + of_nat 128) (16 * n) (t + of_nat j)" by (rule outside_before) (use that n in auto)
    moreover have "outside (t + of_nat (128 + 16 * n)) 16 (t + of_nat j)" by (rule outside_before) (use that n in auto)
    ultimately show ?thesis using o [of "t + of_nat j"] write_entry_outside [of e "t + of_nat j" buf' "push_bit 9 c'" m3]
      by (simp add: m4_def e add.assoc)
  qed
  have "m4 (t + 1) = 0" "m4 (t + 3) = 0" "m4 (t + 11) = 0"
    using low [of 1] low [of 3] low [of 11] z by simp_all
  then show "load m5 t 14 = frame_of startl starth (of_nat (c - 16 * n)) read"
    unfolding m5 m4_def [symmetric] unfolding c' by (rule frame_bytes)
  show "m5 a = m1 a" if "outside t 256 a"
  proof -
    define k where "k = unat (a - t)"
    have k: "256 \<le> k" "k < 2 ^ 32" using that unsigned_less [of "a - t"] by (simp_all add: outside_def k_def)
    have a: "a = t + of_nat k" by (simp add: k_def)
    have s: "unat (a - (t + of_nat d)) = k - d" if "d \<le> 256" for d
    proof -
      have "a - (t + of_nat d) = of_nat (k - d)" using a k that by (simp add: of_nat_diff)
      then show ?thesis using k unat_of_nat_u32 [of "k - d"] by simp
    qed
    have "outside t 14 a" using k by (simp add: outside_def k_def)
    moreover have "outside e 16 a" using s [of "128 + 16 * n"] n k by (simp add: outside_def e add.assoc)
    moreover have "outside (t + 128) (16 * n) a" using s [of 128] n k by (simp add: outside_def)
    ultimately show ?thesis using o z k n by (simp add: m5 frame_outside write_entry_outside e(4) k_def)
  qed
  show "\<forall>i \<le> n. entry_addr m5 t i = buf + of_nat (4096 * i) \<and> entry_bytes m5 t i = (if i < n then 8192 else of_nat (512 * (c - 16 * n)))"
  proof (intro allI impI)
    fix i assume i: "i \<le> n"
    have at: "\<exists>j < 16. x = t + of_nat (128 + 16 * i + j)" if "\<not> outside (t + 128 + of_nat (16 * i)) 16 x" for x
      using that by (intro exI [of _ "unat (x - (t + 128 + of_nat (16 * i)))"]) (simp add: outside_def)
    have 5: "entry_addr m5 t i = entry_addr m4 t i \<and> entry_bytes m5 t i = entry_bytes m4 t i"
    proof (rule entry_cong)
      fix x assume "\<not> outside (t + 128 + of_nat (16 * i)) 16 x"
      then obtain j where "j < 16" "x = t + of_nat (128 + 16 * i + j)" using at by blast
      then have "outside t 14 x" using i n outside_offset [of "128 + 16 * i + j" t 14] by simp
      then show "m5 x = m4 x" by (simp add: m5 m4_def frame_outside)
    qed
    show "entry_addr m5 t i = buf + of_nat (4096 * i) \<and> entry_bytes m5 t i = (if i < n then 8192 else of_nat (512 * (c - 16 * n)))"
    proof (cases "i = n")
      case True
      have "push_bit 9 c' AND 0x3FFFFF = of_nat (512 * (c - 16 * n))"
      proof -
        have "push_bit 9 c' = of_nat (512 * (c - 16 * n))" by (simp add: c' push_bit_eq_mult mult.commute)
        moreover have "(0x3FFFFF :: u32) = mask 22" by (simp add: mask_eq_exp_minus_1)
        moreover have "take_bit 22 (512 * (c - 16 * n)) = 512 * (c - 16 * n)" using c by (intro take_bit_nat_eq_self) simp
        ultimately show ?thesis by (simp only: take_bit_eq_mask [symmetric] take_bit_of_nat)
      qed
      then show ?thesis using 5 True write_entry_reads [of e buf' "push_bit 9 c'" m3]
        by (simp add: m4_def entry_addr_def entry_bytes_def e)
    next
      case False
      then have less: "i < n" using i by simp
      have "entry_addr m4 t i = entry_addr m' t i \<and> entry_bytes m4 t i = entry_bytes m' t i"
      proof (rule entry_cong)
        fix x assume "\<not> outside (t + 128 + of_nat (16 * i)) 16 x"
        then obtain j where "j < 16" "x = t + of_nat (128 + 16 * i + j)" using at by blast
        moreover have "outside (t + of_nat (128 + 16 * n)) 16 (t + of_nat (128 + 16 * i + j))" if "j < 16"
          by (rule outside_before) (use less n that in auto)
        ultimately have "outside e 16 x" by (simp add: e add.assoc)
        then show "m4 x = m' x" by (simp add: m4_def e(4) write_entry_outside)
      qed
      then show ?thesis using 5 d [OF less] less by simp
    qed
  qed
qed

definition entries :: "u32 \<Rightarrow> nat" where
  \<comment> \<open>The entries of the table of regions for a number of sectors.\<close>
  "entries count' = (unat count' - 1) div 16 + 1"

definition last_part :: "u32 \<Rightarrow> nat" where
  \<comment> \<open>The sectors of the last entry.\<close>
  "last_part count' = (unat count' - 1) mod 16 + 1"

text \<open>
  C32. For a transfer of 1 to 128 sectors the driver leaves in memory a header with the frame's length, the direction and the number
  of regions, and a table with the frame and one region for each 16 sectors; every other byte of memory stays as it was.
  The regions describe 16 sectors each, the last one what is left; they start 4096 bytes apart, and the frame's sector count is
  that of the last region only.
\<close>

theorem command_describes_transfer:
  assumes "1 \<le> unat count'" and "unat count' \<le> 128" and "tbl = read32 m (cmd + 8)" and "\<forall>j < 32. outside tbl 256 (cmd + of_nat j)"
    and "m' = build_command cmd startl starth count' buf read m"
  shows "m' cmd AND 0x1F = 5 \<and> bit (m' cmd) 6 = (\<not> read) \<and> read16 m' (cmd + 2) = of_nat (entries count') \<and> read32 m' (cmd + 8) = tbl \<and>
    load m' tbl 14 = frame_of startl starth (of_nat (last_part count')) read \<and>
    (\<forall>i < entries count'. entry_addr m' tbl i = buf + of_nat (4096 * i) \<and>
       entry_bytes m' tbl i = (if i + 1 < entries count' then 8192 else of_nat (512 * last_part count'))) \<and>
    (\<forall>a. outside cmd 4 a \<longrightarrow> outside tbl 256 a \<longrightarrow> m' a = m a)"
proof -
  define n where "n = (unat count' - 1) div 16"
  define m1 where "m1 = write_header cmd (\<not> read) (of_nat (n + 1)) m"
  have n: "n < 8" "16 * n < unat count'" "unat count' \<le> 16 * n + 16" using assms(1,2) by (auto simp: n_def)
  have l: "unat count' - 16 * n = last_part count'" "entries count' = n + 1"
    using assms(1) by (auto simp: last_part_def entries_def n_def minus_div_mult_eq_mod [symmetric])
  have h: "m1 cmd AND 0x1F = 5" "bit (m1 cmd) 6 = (\<not> read)" "read16 m1 (cmd + 2) = of_nat (n + 1)" "\<And>a. outside cmd 4 a \<Longrightarrow> m1 a = m a"
    using header_written [OF m1_def] by simp_all
  have r: "read32 m1 (cmd + 8) = tbl"
    using h(4) outside_offset [of 8 cmd 4] outside_offset [of 9 cmd 4] outside_offset [of 10 cmd 4] outside_offset [of 11 cmd 4]
    by (simp add: assms(3) read32_def add.assoc)
  obtain e buf' c' m3 where m3: "prdt_loop n (tbl + 128) buf count' 16 (memset tbl 0 (144 + of_nat n * 16) m1) = (e, buf', c', m3)"
    by (cases "prdt_loop n (tbl + 128) buf count' 16 (memset tbl 0 (144 + of_nat n * 16) m1)") auto
  have m5: "m' = write_frame tbl startl starth c' read (write_entry e buf' (push_bit 9 c') m3)"
    unfolding assms(5) by (rule build_command_steps [OF assms(1,2) n_def m1_def r [symmetric] refl m3])
  have m3': "prdt_loop n (tbl + 128) buf (of_nat (unat count')) 16 (memset tbl 0 (144 + of_nat n * 16) m1) = (e, buf', c', m3)" using m3 by simp
  have T: "load m' tbl 14 = frame_of startl starth (of_nat (unat count' - 16 * n)) read"
    "\<forall>i \<le> n. entry_addr m' tbl i = buf + of_nat (4096 * i) \<and> entry_bytes m' tbl i = (if i < n then 8192 else of_nat (512 * (unat count' - 16 * n)))"
    "\<And>a. outside tbl 256 a \<Longrightarrow> m' a = m1 a"
    by (fact table_written [OF n(1) refl m3' n(2,3) m5])+
  have k: "m' (cmd + of_nat j) = m1 (cmd + of_nat j)" if "j < 32" for j using T(3) assms(4) that by blast
  have "m' cmd = m1 cmd" "read16 m' (cmd + 2) = read16 m1 (cmd + 2)" "read32 m' (cmd + 8) = read32 m1 (cmd + 8)"
    using k [of 0] k [of 2] k [of 3] k [of 8] k [of 9] k [of 10] k [of 11] by (simp_all add: read16_def read32_def add.assoc)
  then show ?thesis using h r T l by (auto simp: less_Suc_eq_le)
qed

lemma command_describes_transfer_witness:
  "read32 (build_command 0x1000 7 0 40 0x9000 True (write32 (\<lambda>a. 0) 0x1008 0x2000)) 0x1008 = 0x2000 \<and>
   entry_bytes (build_command 0x1000 7 0 40 0x9000 True (write32 (\<lambda>a. 0) 0x1008 0x2000)) 0x2000 2 = 4096"
proof -
  have "\<forall>j < 32. outside 0x2000 256 (0x1000 + of_nat j)"
  proof (intro allI impI)
    fix j :: nat assume "j < 32"
    then have "outside (0x1000 + of_nat 0x1000) 256 (0x1000 + of_nat j)" by (intro outside_before) auto
    then show "outside 0x2000 256 (0x1000 + of_nat j)" by simp
  qed
  from command_describes_transfer [OF _ _ _ this refl, of 40 "write32 (\<lambda>a. 0) 0x1008 0x2000" 7 0 "0x9000" True]
  show ?thesis by (simp add: entries_def last_part_def)
qed

subsection \<open>The interrupt of a finished command\<close>

lemma sched_ok_fields:
  fixes s :: "'a thread_sched_scheme" and s' :: "'b thread_sched_scheme"
  assumes "nodes s' = nodes s" "tcbs s' = tcbs s" "thread_queues s' = thread_queues s" "block_queue s' = block_queue s"
    "sleep_queue s' = sleep_queue s" "current_thread s' = current_thread s"
  shows "sched_ok s' xs = sched_ok s xs"
proof -
  have "thr s' = thr s" "hdrs s' = hdrs s" using assms by (simp_all add: thr_def hdrs_def fun_eq_iff)
  then show ?thesis using assms by (simp add: sched_ok_def queues_ok_def threads_ok_def)
qed

lemma sem_ok_ahci [simp]: "sem_ok m (s\<lparr>hba_ports := ps, hba_is := i\<rparr>) xs = sem_ok m (s :: 'a ahci_scheme) xs"
  "sem_ok m (s\<lparr>ahci_callback_sem := m'\<rparr>) xs = sem_ok m (s :: 'a ahci_scheme) xs"
  unfolding sem_ok_def by (rule sched_ok_fields; simp add: seen_def)+

lemma signal_keeps_controller:
  "semaphore_signal m (s :: 'a ahci_scheme) = Some (m', s') \<Longrightarrow>
   hba_is s' = hba_is s \<and> hba_ports s' = hba_ports s \<and> port_ok s' = port_ok s \<and> hba_cap s' = hba_cap s"
  by (auto simp: semaphore_signal_def upd_tcb_def ready_insert_back_def Let_def bind_eq_Some_conv split: if_splits prod.splits)

lemma callback_idle: "\<forall>k < n. \<not> ahci_is_interrupt_pending (i + of_nat k) s \<Longrightarrow> callback_loop n i s = Some s"
proof (induction n arbitrary: i)
  case (Suc n)
  have "\<not> ahci_is_interrupt_pending i s" using Suc.prems [rule_format, of 0] by simp
  moreover have "callback_loop n (i + 1) s = Some s"
    by (rule Suc.IH) (use Suc.prems in \<open>auto simp: add.assoc dest: spec [of _ "Suc _"]\<close>)
  ultimately show ?case by simp
qed simp

lemma callback_skips:
  "\<forall>k < j. \<not> ahci_is_interrupt_pending (i + of_nat k) s \<Longrightarrow> callback_loop (j + n) i s = callback_loop n (i + of_nat j) s"
proof (induction j arbitrary: i)
  case (Suc j)
  have "\<not> ahci_is_interrupt_pending i s" using Suc.prems [rule_format, of 0] by simp
  moreover have "callback_loop (j + n) (i + 1) s = callback_loop n (i + 1 + of_nat j) s"
    by (rule Suc.IH) (use Suc.prems in \<open>auto simp: add.assoc dest: spec [of _ "Suc _"]\<close>)
  ultimately show ?case by (simp add: add.assoc)
qed simp

text \<open>
  C34. When the threads of \<^verbatim>\<open>p # rest\<close> wait for the callback and port \<open>i\<close> is the first with a pending interrupt, the handler makes
  the thread that waits longest ready, and clears the port's interrupts; the other ports keep their status, but the controller's
  status is cleared for every port, so a second port that is done at the same time signals nothing.
\<close>

theorem callback_wakes_one:
  assumes "sem_ok (ahci_callback_sem s) s xs" and "xs ! 8 = p # rest"
    and "i < unat (ahci_get_no_ports s)" and "i < length (hba_ports s)" and "ahci_is_interrupt_pending (of_nat i) s"
    and "\<forall>k < i. \<not> ahci_is_interrupt_pending (of_nat k) s"
  shows "\<exists>s' j. ahci_callback s = Some s' \<and> j < 8 \<and> sem_ok (ahci_callback_sem s') s' (xs[8 := rest, j := xs ! j @ [p]]) \<and>
    hba_is s' = 0 \<and> hba_ports s' = (hba_ports s)[i := (hba_ports s ! i)\<lparr>port_is := 0\<rparr>]"
proof -
  define s1 where "s1 = s\<lparr>hba_ports := (hba_ports s)[i := (hba_ports s ! i)\<lparr>port_is := 0\<rparr>], hba_is := 0\<rparr>"
  have i: "unat (of_nat i :: u8) = i" using assms(3) unsigned_less [of "ahci_get_no_ports s", where 'a = nat] by (simp add: unat_of_nat)
  have z: "x AND NOT x AND NOT y = 0" for x y :: u32 by (auto simp: bit_eq_iff bit_simps)
  have u: "upd_port (of_nat i) clear_port_interrupts s = Some (s\<lparr>hba_ports := (hba_ports s)[i := (hba_ports s ! i)\<lparr>port_is := 0\<rparr>]\<rparr>)"
    using assms(4) i by (simp add: upd_port_def get_port_def array_get_def array_set_def clear_port_interrupts_def)
  have p: "ahci_is_interrupt_pending (of_nat i) (s\<lparr>hba_ports := ps\<rparr>)" for ps
    using assms(5) by (simp add: ahci_is_interrupt_pending_def ahci_is_port_ok_def)
  have "sem_ok (ahci_callback_sem s) s1 xs" using assms(1) by (simp add: s1_def)
  then obtain m' s2 j where s2: "semaphore_signal (ahci_callback_sem s) s1 = Some (m', s2)" "j < 8"
    "sem_ok m' s2 (xs[8 := rest, j := xs ! j @ [p]])"
    using semaphore_signal_wakes [of "ahci_callback_sem s" s1 xs p rest] assms(2) by metis
  have k: "hba_is s2 = 0" "hba_ports s2 = (hba_ports s)[i := (hba_ports s ! i)\<lparr>port_is := 0\<rparr>]"
    using signal_keeps_controller [OF s2(1)] by (simp_all add: s1_def)
  let ?s = "s2\<lparr>ahci_callback_sem := m'\<rparr>"
  have "callback_loop (unat (ahci_get_no_ports s) - i - 1) (of_nat i + 1) ?s = Some ?s"
    by (rule callback_idle) (simp add: ahci_is_interrupt_pending_def k)
  moreover have "ahci_clear_interrupt (of_nat i) (s\<lparr>hba_ports := (hba_ports s)[i := (hba_ports s ! i)\<lparr>port_is := 0\<rparr>]\<rparr>) = s1"
    using p by (simp add: ahci_clear_interrupt_def z s1_def)
  ultimately have "callback_loop (Suc (unat (ahci_get_no_ports s) - i - 1)) (of_nat i) s = Some ?s"
    using assms(5) u s2(1) by (simp add: s1_def)
  moreover have "unat (ahci_get_no_ports s) = i + Suc (unat (ahci_get_no_ports s) - i - 1)" using assms(3) by simp
  ultimately have "ahci_callback s = Some ?s"
    using callback_skips [of i 0 s "Suc (unat (ahci_get_no_ports s) - i - 1)"] assms(6) by (simp add: ahci_callback_def)
  then show ?thesis using s2 k by auto
qed

definition sample_port :: hba_port where
  "sample_port = \<lparr>clb = 0, clbu = 0, fb = 0, fbu = 0, port_is = 1, port_ie = 0, port_cmd = 0, port_sig = 0, port_ssts = 0, port_serr = 0,
     port_sact = 0, port_ci = 0\<rparr>"

definition sample_ahci :: ahci where
  \<comment> \<open>A controller with two ports that are done at the same time; thread 5 waits for the callback.\<close>
  "sample_ahci = thread_sched.extend sample_sched
     (ahci.fields (\<lambda>a. 0) 1 0 3 3 0 [sample_port, sample_port] 0 3 \<lparr>sem_lock = 0, waiting_threads = block_queue sample_sched\<rparr>
       \<lparr>sem_lock = 0, waiting_threads = empty_list\<rparr> \<lparr>last_error = 0\<rparr>)"

lemma callback_wakes_one_witness:
  "\<exists>s'. ahci_callback sample_ahci = Some s' \<and> hba_is s' = 0 \<and> map port_is (hba_ports s') = [0, 1] \<and>
     ahci_is_interrupt_pending 1 sample_ahci"
proof -
  note d = sample_ahci_def ahci.defs thread_sched.defs
  have "sem_ok (ahci_callback_sem sample_ahci) sample_ahci sample_lists"
    unfolding sem_ok_def
    by (rule sched_ok_fields [THEN iffD2, OF _ _ _ _ _ _ sample_sched_ok]) (simp_all add: seen_def d)
  moreover have "sample_lists ! 8 = [0x50]" by (simp add: sample_lists_def)
  moreover have p: "ahci_is_interrupt_pending 0 sample_ahci" "ahci_is_interrupt_pending 1 sample_ahci"
    by (simp_all add: ahci_is_interrupt_pending_def ahci_is_port_ok_def port_bit_def d)
  ultimately obtain s' where "ahci_callback sample_ahci = Some s'" "hba_is s' = 0"
    "hba_ports s' = (hba_ports sample_ahci)[0 := (hba_ports sample_ahci ! 0)\<lparr>port_is := 0\<rparr>]"
    using callback_wakes_one [of sample_ahci sample_lists "0x50" "[]" 0]
    by (auto simp: ahci_get_no_ports_def CAP_NP_def d)
  then show ?thesis using p by (simp add: d sample_port_def)
qed

subsection \<open>The structures of a port\<close>

definition in_headers :: "nat \<Rightarrow> nat \<Rightarrow> bool" where
  \<comment> \<open>Offsets from the controller's base: the command headers of port \<open>n\<close>.\<close>
  "in_headers n k \<longleftrightarrow> 1024 * n \<le> k \<and> k < 1024 * n + 1024"

definition in_received :: "nat \<Rightarrow> nat \<Rightarrow> bool" where
  "in_received n k \<longleftrightarrow> 32768 + 256 * n \<le> k \<and> k < 32768 + 256 * n + 256"

definition in_table :: "nat \<Rightarrow> nat \<Rightarrow> nat \<Rightarrow> bool" where
  "in_table n i k \<longleftrightarrow> 40960 + 8192 * n + 256 * i \<le> k \<and> k < 40960 + 8192 * n + 256 * i + 256"

definition port_region :: "nat \<Rightarrow> nat \<Rightarrow> bool" where
  "port_region n k \<longleftrightarrow> in_headers n k \<or> in_received n k \<or> (\<exists>i < 32. in_table n i k)"

lemma port_regions_apart: "n < 32 \<Longrightarrow> n' < 32 \<Longrightarrow> n \<noteq> n' \<Longrightarrow> port_region n k \<Longrightarrow> \<not> port_region n' k"
  by (auto simp: port_region_def in_headers_def in_received_def in_table_def)

lemma table_addr_offset: "n < 256 \<Longrightarrow> table_addr base (of_nat n) i = base + of_nat (40960 + 8192 * n + 256 * i)"
proof -
  assume "n < 256"
  then have "(ucast (of_nat n :: u8) :: u32) = of_nat n" by (simp add: unsigned_of_nat take_bit_nat_eq_self)
  then show ?thesis by (simp add: table_addr_def push_bit_eq_mult mult.commute)
qed

lemma memset_offset: "k < 2 ^ 32 \<Longrightarrow> d < 2 ^ 31 \<Longrightarrow> n < 2 ^ 31 \<Longrightarrow> memset (base + of_nat d) v (of_nat n) m (base + of_nat k) =
    (if d \<le> k \<and> k < d + n then v else m (base + of_nat k))"
proof (cases "d \<le> k")
  case True
  assume "k < 2 ^ 32" "d < 2 ^ 31" "n < 2 ^ 31"
  moreover have "base + of_nat k - (base + of_nat d) = (of_nat (k - d) :: u32)" using True by (simp add: of_nat_diff)
  ultimately have "unat (base + of_nat k - (base + of_nat d)) = k - d" "unat (of_nat n :: u32) = n" "k - d < n \<longleftrightarrow> k < d + n"
    using unat_of_nat_u32 [of "k - d"] unat_of_nat_u32 [of n] True by auto
  then show ?thesis using True by (simp only: memset_ok) simp
next
  case False
  assume a: "k < 2 ^ 32" "d < 2 ^ 31" "n < 2 ^ 31"
  have "outside (base + of_nat d) n (base + of_nat k)" by (rule outside_before) (use False a in auto)
  then show ?thesis using False a by (simp add: memset_ok unat_of_nat_u32 outside_def)
qed

definition rebase_step :: "nat \<Rightarrow> u32 \<Rightarrow> u8 \<Rightarrow> u32 \<Rightarrow> bool \<Rightarrow> mem \<Rightarrow> mem" where
  "rebase_step i base n cmd wide m = (
     let h = cmd + 32 * of_nat i;
         m = write16 (h + 2) 8 m;
         m = write32 m (h + 8) (table_addr base n i);
         m = (if wide then write32 m (h + 12) 0 else m)
     in memset (table_addr base n i) 0 256 m)"

lemma rebase_loop_Suc: "rebase_loop (Suc k) i base n cmd wide m = rebase_loop k (Suc i) base n cmd wide (rebase_step i base n cmd wide m)"
  by (simp add: rebase_step_def Let_def)

lemma rebase_step_ok:
  fixes base :: u32 and wide :: bool and m :: mem
  assumes "n < 32" "i < 32"
  defines "m' \<equiv> rebase_step i base (of_nat n) (base + of_nat (1024 * n)) wide m" and "h \<equiv> 1024 * n + 32 * i"
  shows "read16 m' (base + of_nat (h + 2)) = 8" "read32 m' (base + of_nat (h + 8)) = base + of_nat (40960 + 8192 * n + 256 * i)"
    and "k < 2 ^ 32 \<Longrightarrow> \<not> (h \<le> k \<and> k < h + 16) \<Longrightarrow> \<not> in_table n i k \<Longrightarrow> m' (base + of_nat k) = m (base + of_nat k)"
proof -
  let ?t = "40960 + 8192 * n + 256 * i"
  define m1 where "m1 = write32 (write16 (base + of_nat (h + 2)) 8 m) (base + of_nat (h + 8)) (base + of_nat ?t)"
  define m2 where "m2 = (if wide then write32 m1 (base + of_nat (h + 12)) 0 else m1)"
  have m': "m' = memset (base + of_nat ?t) 0 (of_nat 256) m2"
    using assms(1) by (simp add: m'_def rebase_step_def Let_def table_addr_offset m2_def m1_def h_def algebra_simps)
  have s: "m' (base + of_nat k) = (if ?t \<le> k \<and> k < ?t + 256 then 0 else m2 (base + of_nat k))" if "k < 2 ^ 32" for k
    unfolding m' by (rule memset_offset) (use that assms in auto)
  have low: "m' (base + of_nat (h + j)) = m2 (base + of_nat (h + j))" if "j < 16" for j
    using s [of "h + j"] that assms by (simp add: h_def)
  show "read16 m' (base + of_nat (h + 2)) = 8"
  proof -
    let ?m = "write16 (base + of_nat (h + 2)) 8 m"
    have b: "m' (base + of_nat (h + j)) = ?m (base + of_nat (h + j))" if j: "j = 2 \<or> j = 3" for j
    proof -
      have "m' (base + of_nat (h + j)) = m2 (base + of_nat (h + j))" using low [of j] j by auto
      also have "\<dots> = m1 (base + of_nat (h + j))" using j by (auto simp: m2_def write32_other add.assoc)
      also have "\<dots> = ?m (base + of_nat (h + j))" unfolding m1_def by (rule write32_other) (use j in \<open>auto simp: add.assoc\<close>)
      finally show ?thesis .
    qed
    have "base + of_nat (h + 2) + 1 = base + of_nat (h + 3)" by simp
    then have "read16 m' (base + of_nat (h + 2)) = read16 ?m (base + of_nat (h + 2))"
      by (simp only: read16_def b [OF disjI1 [OF refl]] b [OF disjI2 [OF refl]])
    then show ?thesis by simp
  qed
  show "read32 m' (base + of_nat (h + 8)) = base + of_nat ?t"
  proof -
    have "read32 m' (base + of_nat (h + 8)) = read32 m1 (base + of_nat (h + 8))"
    proof (rule read32_cong)
      fix x assume "x \<in> {base + of_nat (h + 8), base + of_nat (h + 8) + 1, base + of_nat (h + 8) + 2, base + of_nat (h + 8) + 3}"
      then have "x = base + of_nat (h + 8) \<or> x = base + of_nat (h + 9) \<or> x = base + of_nat (h + 10) \<or> x = base + of_nat (h + 11)"
        by (simp add: add.assoc)
      then obtain j where j: "j \<in> {8, 9, 10, 11}" "x = base + of_nat (h + j)" by blast
      then have "m' x = m2 x" using low [of j] by auto
      also have "m2 x = m1 x" using j by (auto simp: m2_def write32_other add.assoc)
      finally show "m' x = m1 x" .
    qed
    then show ?thesis by (simp add: m1_def)
  qed
  show "m' (base + of_nat k) = m (base + of_nat k)" if k: "k < 2 ^ 32" "\<not> (h \<le> k \<and> k < h + 16)" "\<not> in_table n i k"
  proof -
    define x where "x = base + of_nat k"
    define y where "y = base + of_nat h"
    have ne: "x \<noteq> y + of_nat j" if "j < 16" for j
    proof -
      have "k \<noteq> h + j" "h + j < 2 ^ 32" using k that assms by (auto simp: h_def)
      then have "of_nat k \<noteq> (of_nat (h + j) :: u32)" using of_nat_u32_inj [of k "h + j"] k(1) by (simp del: of_nat_add)
      then show ?thesis by (simp add: x_def y_def add.assoc)
    qed
    have e: "base + of_nat (h + 2) = y + 2" "base + of_nat (h + 8) = y + 8" "base + of_nat (h + 12) = y + 12" by (simp_all add: y_def)
    have w: "write16 (y + 2) v m'' x = m'' x" for v m'' using ne [of 2] ne [of 3] by (simp add: write16_def add.assoc)
    have "write32 m'' (y + 8) v x = m'' x" "write32 m'' (y + 12) v x = m'' x" for v m''
      using ne [of 8] ne [of 9] ne [of 10] ne [of 11] ne [of 12] ne [of 13] ne [of 14] ne [of 15]
      by (simp_all add: write32_other add.assoc)
    then have "m2 x = m x" unfolding m2_def m1_def e by (simp add: w)
    then have "m2 (base + of_nat k) = m (base + of_nat k)" by (simp add: x_def)
    then show ?thesis using s [of k] k by (auto simp: in_table_def)
  qed
qed

lemma rebase_loop_ok:
  assumes "n < 32" and "i + k \<le> 32"
  defines "a \<equiv> \<lambda>j. 1024 * n + 32 * j"
  shows "(\<forall>j. i \<le> j \<longrightarrow> j < i + k \<longrightarrow>
      read16 (rebase_loop k i base (of_nat n) (base + of_nat (1024 * n)) wide m) (base + of_nat (a j + 2)) = 8 \<and>
      read32 (rebase_loop k i base (of_nat n) (base + of_nat (1024 * n)) wide m) (base + of_nat (a j + 8)) = base + of_nat (40960 + 8192 * n + 256 * j)) \<and>
    (\<forall>d < 2 ^ 32. (\<forall>j. i \<le> j \<longrightarrow> j < i + k \<longrightarrow> \<not> (a j \<le> d \<and> d < a j + 16) \<and> \<not> in_table n j d) \<longrightarrow>
      rebase_loop k i base (of_nat n) (base + of_nat (1024 * n)) wide m (base + of_nat d) = m (base + of_nat d))"
  using assms(2)
proof (induction k arbitrary: i m)
  case (Suc k)
  let ?m1 = "rebase_step i base (of_nat n) (base + of_nat (1024 * n)) wide m"
  let ?m' = "rebase_loop k (Suc i) base (of_nat n) (base + of_nat (1024 * n)) wide ?m1"
  have i: "i < 32" using Suc.prems by simp
  note st = rebase_step_ok [OF assms(1) i, where base = base and wide = wide and m = m]
  note ih = Suc.IH [of "Suc i" ?m1]
  have keep: "?m' (base + of_nat d) = ?m1 (base + of_nat d)" if "d < 2 ^ 32" "\<And>j. Suc i \<le> j \<Longrightarrow> j < Suc i + k \<Longrightarrow> \<not> (a j \<le> d \<and> d < a j + 16) \<and> \<not> in_table n j d" for d
    using ih Suc.prems that by simp
  have head: "?m' (base + of_nat (a i + j)) = ?m1 (base + of_nat (a i + j))" if "j < 16" for j
    by (rule keep) (use that i assms(1) in \<open>auto simp: a_def in_table_def\<close>)
  have h: "read16 ?m' (base + of_nat (a i + 2)) = 8" "read32 ?m' (base + of_nat (a i + 8)) = base + of_nat (40960 + 8192 * n + 256 * i)"
    using st(1,2) head [of 2] head [of 3] head [of 8] head [of 9] head [of 10] head [of 11]
    by (simp_all add: read16_def read32_def a_def ac_simps)
  show ?case unfolding rebase_loop_Suc
  proof (intro conjI allI impI)
    fix j assume j: "i \<le> j" "j < i + Suc k"
    have r: "j = i \<or> Suc i \<le> j \<and> j < Suc i + k" using j by auto
    then show "read16 ?m' (base + of_nat (a j + 2)) = 8" using h ih Suc.prems by fastforce
    from r show "read32 ?m' (base + of_nat (a j + 8)) = base + of_nat (40960 + 8192 * n + 256 * j)" using h ih Suc.prems by fastforce
  next
    fix d :: nat assume d: "d < 2 ^ 32" "\<forall>j. i \<le> j \<longrightarrow> j < i + Suc k \<longrightarrow> \<not> (a j \<le> d \<and> d < a j + 16) \<and> \<not> in_table n j d"
    have "?m' (base + of_nat d) = ?m1 (base + of_nat d)" by (rule keep) (use d in auto)
    moreover have "\<not> (a i \<le> d \<and> d < a i + 16) \<and> \<not> in_table n i d" using d(2) by simp
    then have "?m1 (base + of_nat d) = m (base + of_nat d)" using st(3) [of d] d(1) by (simp add: a_def)
    ultimately show "?m' (base + of_nat d) = m (base + of_nat d)" by simp
  qed
qed simp

lemma upd_port_ok:
  "upd_port n f s = Some s' \<Longrightarrow> ahci_memory s' = ahci_memory s \<and> AHCI_BASE s' = AHCI_BASE s \<and> port_ok s' = port_ok s \<and>
     hba_cap s' = hba_cap s \<and> (\<exists>p. get_port n s = Some p \<and> get_port n s' = Some (f p))"
  by (auto simp: upd_port_def get_port_def array_get_def array_set_def bind_eq_Some_conv split: if_splits)

lemma get_port_other [simp]: "get_port n (s\<lparr>ahci_memory := m\<rparr>) = get_port n s" "get_port n (s\<lparr>port_ok := k\<rparr>) = get_port n s"
  by (simp_all add: get_port_def)

lemma stop_keeps:
  "ahci_stop_cmd n obs s = Some (b, s') \<Longrightarrow> ahci_memory s' = ahci_memory s \<and> AHCI_BASE s' = AHCI_BASE s"
  unfolding ahci_stop_cmd_def by (auto simp: bind_eq_Some_conv dest!: upd_port_ok split: if_splits)

lemma start_keeps:
  assumes "ahci_start_cmd n obs s = Some (b, s')"
  shows "ahci_memory s' = ahci_memory s \<and> AHCI_BASE s' = AHCI_BASE s \<and>
    map_option (\<lambda>p. (clb p, fb p)) (get_port n s') = map_option (\<lambda>p. (clb p, fb p)) (get_port n s)"
  using assms unfolding ahci_start_cmd_def
  by (auto simp: bind_eq_Some_conv dest!: upd_port_ok split: if_splits)

text \<open>
  C33. A port that is set up has its command list, its area for received frames and its 32 command tables at fixed places after the
  controller's base: each header names its own table, whose entries are eight and which does not overlap the header, and
  the memory of the other ports' structures is as it was.
\<close>

theorem port_rebase_layout:
  assumes "n < 32" and "ahci_port_rebase (of_nat n) obs s = Some (ERROR_OK, s')"
  shows "\<exists>p. get_port (of_nat n) s' = Some p \<and> clb p = AHCI_BASE s + of_nat (1024 * n) \<and> fb p = AHCI_BASE s + of_nat (32768 + 256 * n) \<and>
    (\<forall>i < 32. read16 (ahci_memory s') (clb p + of_nat (32 * i + 2)) = 8 \<and>
       read32 (ahci_memory s') (clb p + of_nat (32 * i + 8)) = AHCI_BASE s + of_nat (40960 + 8192 * n + 256 * i) \<and>
       (\<forall>j < 32. outside (AHCI_BASE s + of_nat (40960 + 8192 * n + 256 * i)) 256 (clb p + of_nat (32 * i + j)))) \<and>
    (\<forall>n' < 32. \<forall>k < 2 ^ 32. n' \<noteq> n \<longrightarrow> port_region n' k \<longrightarrow>
       ahci_memory s' (AHCI_BASE s + of_nat k) = ahci_memory s (AHCI_BASE s + of_nat k))"
proof -
  let ?B = "AHCI_BASE s" and ?n = "of_nat n :: u8"
  have u: "(ucast ?n :: u32) = of_nat n" using assms(1) by (simp add: unsigned_of_nat take_bit_nat_eq_self)
  have sh: "push_bit 10 (of_nat n :: u32) = of_nat (1024 * n)" "32768 + push_bit 8 (of_nat n :: u32) = of_nat (32768 + 256 * n)"
    by (simp_all add: push_bit_eq_mult mult.commute)
  obtain s1 s2 s3 s4 s5 where st: "ahci_stop_cmd ?n obs s = Some (True, s1)"
    and s2: "upd_port ?n (\<lambda>p. p\<lparr>clb := ?B + of_nat (1024 * n), clbu := (if ahci_is_64bit s1 then 0 else clbu p)\<rparr>) s1 = Some s2"
    and s3: "upd_port ?n (\<lambda>p. p\<lparr>fb := ?B + of_nat (32768 + 256 * n), fbu := (if ahci_is_64bit s1 then 0 else fbu p)\<rparr>)
      (s2\<lparr>ahci_memory := memset (?B + of_nat (1024 * n)) 0 1024 (ahci_memory s2)\<rparr>) = Some s3"
    and s4: "upd_port ?n (\<lambda>p. p\<lparr>port_serr := 0, port_ie := - 1\<rparr>)
      (s3\<lparr>ahci_memory := rebase_loop 32 0 (AHCI_BASE s3) ?n (?B + of_nat (1024 * n)) (ahci_is_64bit s1)
        (memset (?B + of_nat (32768 + 256 * n)) 0 256 (ahci_memory s3))\<rparr>) = Some s4"
    and s5: "ahci_start_cmd ?n obs s4 = Some (True, s5)" and s': "s' = s5\<lparr>port_ok := port_ok s5 OR port_bit ?n\<rparr>"
    using assms(2) stop_keeps [of ?n obs s] unfolding ahci_port_rebase_def Let_def u sh
    by (auto simp: bind_eq_Some_conv ERROR_OK_def ERROR_OCCUR_def add.assoc sh simp del: of_nat_add of_nat_mult split: if_splits)
  note 1 = stop_keeps [OF st] and 2 = upd_port_ok [OF s2] and 3 = upd_port_ok [OF s3] and 4 = upd_port_ok [OF s4] and 5 = start_keeps [OF s5]
  define m1 where "m1 = memset (?B + of_nat (32768 + 256 * n)) 0 256 (memset (?B + of_nat (1024 * n)) 0 1024 (ahci_memory s))"
  have B: "AHCI_BASE s3 = ?B" using 1 2 3 by simp
  have M: "ahci_memory s' = rebase_loop 32 0 ?B ?n (?B + of_nat (1024 * n)) (ahci_is_64bit s1) m1"
    using 1 2 3 4 5 by (simp add: s' B m1_def del: of_nat_add of_nat_mult)
  note loop = rebase_loop_ok [OF assms(1), of 0 32 ?B "ahci_is_64bit s1" m1, folded M]
  obtain p where p: "get_port ?n s' = Some p" "clb p = ?B + of_nat (1024 * n)" "fb p = ?B + of_nat (32768 + 256 * n)"
    using 2 3 4 5 by (auto simp: s' simp del: of_nat_add of_nat_mult)
  have c: "clb p + of_nat d = ?B + of_nat (1024 * n + d)" for d by (simp add: p(2))
  have o: "outside (?B + of_nat (40960 + 8192 * n + 256 * i)) 256 (clb p + of_nat (32 * i + j))" if "i < 32" "j < 32" for i j
    unfolding c by (rule outside_before) (use that assms(1) in auto)
  have k: "ahci_memory s' (?B + of_nat k) = ahci_memory s (?B + of_nat k)" if k: "n' < 32" "k < 2 ^ 32" "n' \<noteq> n" "port_region n' k" for n' k
  proof -
    have r: "\<not> port_region n k" using port_regions_apart [of n' n k] k assms(1) by simp
    then have "\<not> (1024 * n + 32 * j \<le> k \<and> k < 1024 * n + 32 * j + 16) \<and> \<not> in_table n j k" if "j < 32" for j
      using that by (auto simp: port_region_def in_headers_def)
    then have "ahci_memory s' (?B + of_nat k) = m1 (?B + of_nat k)" using loop k(2) by simp
    moreover have "m1 (?B + of_nat k) = ahci_memory s (?B + of_nat k)"
      using r memset_offset [OF k(2), of "1024 * n" 1024 ?B] memset_offset [OF k(2), of "32768 + 256 * n" 256 ?B] assms(1)
      by (simp add: m1_def port_region_def in_headers_def in_received_def del: of_nat_add of_nat_mult) metis
    ultimately show ?thesis by simp
  qed
  have h: "read16 (ahci_memory s') (clb p + of_nat (32 * i + 2)) = 8 \<and>
      read32 (ahci_memory s') (clb p + of_nat (32 * i + 8)) = ?B + of_nat (40960 + 8192 * n + 256 * i)" if "i < 32" for i
    unfolding c using loop that by (simp add: add.assoc del: of_nat_add of_nat_mult)
  show ?thesis using p o k h by blast
qed

definition sample_polls :: port_polls where
  "sample_polls = \<lparr>polls_cr = [(0, 0)], polls_fr = [(0, 0)], polls_start = [((0, 3), 0)], polls_spin = [], polls_done = [], final_is = 0\<rparr>"

lemma port_rebase_layout_witness:
  "\<exists>s' p. ahci_port_rebase 1 sample_polls sample_ahci = Some (ERROR_OK, s') \<and> get_port 1 s' = Some p \<and>
     read32 (ahci_memory s') (clb p + 0x28) = 0xC100 \<and> ahci_memory s' 0xA000 = ahci_memory sample_ahci 0xA000"
proof -
  note d = sample_ahci_def ahci.defs thread_sched.defs sample_port_def sample_polls_def
  have "\<exists>s'. ahci_port_rebase (of_nat 1) sample_polls sample_ahci = Some (ERROR_OK, s')"
    by (simp add: ahci_port_rebase_def ahci_stop_cmd_def ahci_start_cmd_def upd_port_def get_port_def array_get_def array_set_def
      HBA_PxCMD_ST_def HBA_PxCMD_CR_def HBA_PxCMD_FRE_def HBA_PxCMD_FR_def Let_def d del: rebase_loop.simps)
  then obtain s' where s': "ahci_port_rebase (of_nat 1) sample_polls sample_ahci = Some (ERROR_OK, s')" by blast
  have r: "port_region 0 0xA000" by (auto simp: port_region_def in_table_def intro!: exI [of _ 0])
  from port_rebase_layout [OF _ s'] obtain p where p: "get_port 1 s' = Some p"
    "\<And>i. i < 32 \<Longrightarrow> read32 (ahci_memory s') (clb p + of_nat (32 * i + 8)) = AHCI_BASE sample_ahci + of_nat (40960 + 8192 * 1 + 256 * i)"
    "\<And>n' k. n' < 32 \<Longrightarrow> k < 2 ^ 32 \<Longrightarrow> n' \<noteq> 1 \<Longrightarrow> port_region n' k \<Longrightarrow>
       ahci_memory s' (AHCI_BASE sample_ahci + of_nat k) = ahci_memory sample_ahci (AHCI_BASE sample_ahci + of_nat k)"
    by auto
  have b: "AHCI_BASE sample_ahci = 0" by (simp add: d)
  show ?thesis using s' p(1) p(2) [of 1] p(3) [OF _ _ _ r] by (simp add: b)
qed

end
