(* ===== verification/Text_Screen.thy ===== *)
theory Text_Screen
  imports Bytes
begin

text \<open>
  The text mode screen, screen.c: 25 rows of 80 cells in the video memory from 0xB8000 on, each a character and a color, and
  the cursor of the display controller, set through two ports. Bytes sent to ports are kept, oldest first. A string lies in the
  same memory; one without an end is \<open>None\<close>. The table of functions that is called without their argument types is left out.
\<close>

subsection \<open>Data\<close>

record text_screen =
  ts_memory :: mem
  cursorX :: u16
  cursorY :: u16
  color :: u8
  minWritable :: u8
  canOutput :: u8
  crt_log :: "(u16 \<times> u8) list"

definition SCREEN_WIDTH :: nat where "SCREEN_WIDTH = 80"
definition SCREEN_HEIGHT :: nat where "SCREEN_HEIGHT = 25"
definition SCREEN_DEPTH :: nat where "SCREEN_DEPTH = 2"
definition TAB_SIZE :: u16 where "TAB_SIZE = 20"
definition DEFAULT_COLOR :: u8 where "DEFAULT_COLOR = 0x3F"

abbreviation vidmem :: u32 where
  "vidmem \<equiv> 0xB8000"

subsection \<open>Lines and the cursor\<close>

primrec clear_loop :: "nat \<Rightarrow> nat \<Rightarrow> u8 \<Rightarrow> mem \<Rightarrow> mem" where
  \<comment> \<open>\<open>n\<close> cells are left, \<open>i\<close> is the offset of the next.\<close>
  "clear_loop 0 i c m = m"
| "clear_loop (Suc n) i c m = clear_loop n (i + 2) c (m(vidmem + of_nat i := 0, vidmem + of_nat (i + 1) := c))"

definition ClearLine :: "u8 \<Rightarrow> u8 \<Rightarrow> 'a text_screen_scheme \<Rightarrow> 'a text_screen_scheme" where
  "ClearLine from to' s = (
     let row = SCREEN_WIDTH * unat from * SCREEN_DEPTH in
     s\<lparr>ts_memory := clear_loop ((SCREEN_WIDTH * (unat to' + 1) * SCREEN_DEPTH - row) div 2) row (color s) (ts_memory s)\<rparr>)"

definition UpdateCursor :: "'a text_screen_scheme \<Rightarrow> 'a text_screen_scheme" where
  "UpdateCursor s = (
     let temp = of_nat SCREEN_WIDTH * cursorY s + cursorX s in
     s\<lparr>crt_log := crt_log s @ [(0x3D4, 14), (0x3D5, ucast (drop_bit 8 temp)), (0x3D4, 15), (0x3D5, ucast temp)]\<rparr>)"

definition SetPointer :: "u16 \<Rightarrow> u16 \<Rightarrow> 'a text_screen_scheme \<Rightarrow> 'a text_screen_scheme" where
  "SetPointer x y s = s\<lparr>cursorX := x, cursorY := y\<rparr>"

definition SetCursor :: "u16 \<Rightarrow> u16 \<Rightarrow> 'a text_screen_scheme \<Rightarrow> 'a text_screen_scheme" where
  "SetCursor x y s = UpdateCursor (s\<lparr>cursorX := x, cursorY := y\<rparr>)"

definition ClearScreen :: "'a text_screen_scheme \<Rightarrow> 'a text_screen_scheme" where
  "ClearScreen s = (
     let s = ClearLine 0 (of_nat (SCREEN_HEIGHT - 1)) s in
     UpdateCursor (s\<lparr>cursorX := 0, cursorY := 0\<rparr>))"

primrec scroll_loop :: "nat \<Rightarrow> nat \<Rightarrow> nat \<Rightarrow> mem \<Rightarrow> mem" where
  \<comment> \<open>\<open>n\<close> bytes are left, \<open>i\<close> is the next; \<open>d\<close>: how far up.\<close>
  "scroll_loop 0 i d m = m"
| "scroll_loop (Suc n) i d m = scroll_loop n (i + 1) d (m(vidmem + of_nat i := m (vidmem + of_nat (i + d))))"

definition ScrollUp :: "u8 \<Rightarrow> 'a text_screen_scheme \<Rightarrow> 'a text_screen_scheme" where
  "ScrollUp lineNumber s = (
     let s = s\<lparr>ts_memory := scroll_loop (SCREEN_WIDTH * (SCREEN_HEIGHT - 1) * SCREEN_DEPTH) 0 (SCREEN_WIDTH * SCREEN_DEPTH * unat lineNumber) (ts_memory s)\<rparr>;
         s = ClearLine (of_nat (SCREEN_HEIGHT - 1) - lineNumber) (of_nat (SCREEN_HEIGHT - 1)) s;
         s = (if unat (cursorY s) < unat lineNumber then s\<lparr>cursorX := 0, cursorY := 0\<rparr> else s\<lparr>cursorY := cursorY s - ucast lineNumber\<rparr>)
     in UpdateCursor s)"

definition NewLineCheck :: "'a text_screen_scheme \<Rightarrow> 'a text_screen_scheme" where
  "NewLineCheck s = (if unat (cursorY s) > SCREEN_HEIGHT - 1 then ClearScreen s else s)"

subsection \<open>Characters\<close>

definition cell_addr :: "'a text_screen_scheme \<Rightarrow> u32" where
  \<comment> \<open>The cell at the cursor; the index is an \<^verbatim>\<open>int\<close>.\<close>
  "cell_addr s = vidmem + (ucast (cursorY s) * of_nat SCREEN_WIDTH + ucast (cursorX s)) * of_nat SCREEN_DEPTH"

definition Printch :: "u8 \<Rightarrow> 'a text_screen_scheme \<Rightarrow> 'a text_screen_scheme" where
  "Printch c s =
     (if canOutput s = 0 then s
      else let s = (if c = 0x08 then
                 if cursorX s \<ge> ucast (minWritable s) then let s = s\<lparr>cursorX := cursorX s - 1\<rparr> in s\<lparr>ts_memory := (ts_memory s)(cell_addr s := 0)\<rparr> else s
               else if c = 0x09 then s\<lparr>cursorX := cursorX s + (TAB_SIZE - cursorX s mod TAB_SIZE)\<rparr>
               else if c = 13 \<or> c = 10 then s\<lparr>cursorX := 0, cursorY := cursorY s + 1\<rparr>
               else let s = s\<lparr>ts_memory := (ts_memory s)(cell_addr s := c, cell_addr s + 1 := color s)\<rparr> in s\<lparr>cursorX := cursorX s + 1\<rparr>);
             s = (if unat (cursorX s) \<ge> SCREEN_WIDTH then s\<lparr>cursorX := 0, cursorY := cursorY s + 1\<rparr> else s)
         in UpdateCursor (NewLineCheck s))"

partial_function (option) Print :: "virtual_addr \<Rightarrow> 'a text_screen_scheme \<Rightarrow> 'a text_screen_scheme option" where
  [code]: "Print str s = (if ts_memory s str \<noteq> 0 then Print (str + 1) (Printch (ts_memory s str) s) else Some s)"

definition PrintCentered :: "virtual_addr \<Rightarrow> u16 \<Rightarrow> 'a text_screen_scheme \<Rightarrow> 'a text_screen_scheme option" where
  \<comment> \<open>\<open>len\<close>: the length of the string. The division rounds towards zero.\<close>
  "PrintCentered str len s = (
     let startPos = (word_of_int ((int SCREEN_WIDTH - uint len) sdiv 2) :: u8) in
     Print str (s\<lparr>cursorX := ucast startPos\<rparr>))"

definition MakeColor :: "u8 \<Rightarrow> u8 \<Rightarrow> u8" where
  "MakeColor background foreground = push_bit 4 background OR foreground"

definition SetColor :: "u8 \<Rightarrow> u8 \<Rightarrow> 'a text_screen_scheme \<Rightarrow> 'a text_screen_scheme" where
  "SetColor background foreground s = s\<lparr>color := push_bit 4 background OR foreground\<rparr>"

definition SetForegroundColor :: "u8 \<Rightarrow> 'a text_screen_scheme \<Rightarrow> 'a text_screen_scheme" where
  "SetForegroundColor c s = s\<lparr>color := (color s AND 0xF0) OR c\<rparr>"

definition SetBackgroundColor :: "u8 \<Rightarrow> 'a text_screen_scheme \<Rightarrow> 'a text_screen_scheme" where
  "SetBackgroundColor c s = s\<lparr>color := (color s AND 0x0F) OR push_bit 4 c\<rparr>"

definition PrintLine :: "'a text_screen_scheme \<Rightarrow> 'a text_screen_scheme" where
  "PrintLine s = Printch 10 s"

definition SetMinWritable :: "u8 \<Rightarrow> 'a text_screen_scheme \<Rightarrow> 'a text_screen_scheme" where
  "SetMinWritable m s = s\<lparr>minWritable := m\<rparr>"

subsection \<open>What is shown\<close>

definition in_video :: "u32 \<Rightarrow> bool" where
  "in_video a \<longleftrightarrow> unat (a - vidmem) < 4000"

definition cursor_ok :: "'a text_screen_scheme \<Rightarrow> bool" where
  "cursor_ok s \<longleftrightarrow> unat (cursorX s) < 80 \<and> unat (cursorY s) < 25"

definition position :: "'a text_screen_scheme \<Rightarrow> nat" where
  "position s = 80 * unat (cursorY s) + unat (cursorX s)"

definition shown_cursor :: "(u16 \<times> u8) list \<Rightarrow> nat" where
  \<comment> \<open>The position that the last two bytes for the controller's data port name.\<close>
  "shown_cursor log = 256 * unat (snd (log ! (length log - 3))) + unat (snd (log ! (length log - 1)))"

lemma in_video_offset: "k < 4000 \<Longrightarrow> in_video (vidmem + of_nat k)"
  by (simp add: in_video_def unat_of_nat_u32)

lemma clear_loop_frame: "i + 2 * n \<le> 4000 \<Longrightarrow> \<not> in_video a \<Longrightarrow> clear_loop n i c m a = m a"
proof (induction n arbitrary: i m)
  case (Suc n)
  have "a \<noteq> vidmem + of_nat i" "a \<noteq> vidmem + of_nat (i + 1)" using Suc.prems in_video_offset [of i] in_video_offset [of "i + 1"] by auto
  then show ?case using Suc.IH [of "i + 2"] Suc.prems by simp
qed simp

lemma clear_screen_fields:
  "cursorX (ClearScreen s) = 0" "cursorY (ClearScreen s) = 0" "minWritable (ClearScreen s) = minWritable s" "canOutput (ClearScreen s) = canOutput s"
  "color (ClearScreen s) = color s" "\<not> in_video a \<Longrightarrow> ts_memory (ClearScreen s) a = ts_memory s a"
  by (simp_all add: ClearScreen_def ClearLine_def UpdateCursor_def Let_def SCREEN_WIDTH_def SCREEN_HEIGHT_def SCREEN_DEPTH_def clear_loop_frame)

lemma update_cursor_fields [simp]:
  "cursorX (UpdateCursor s) = cursorX s" "cursorY (UpdateCursor s) = cursorY s" "minWritable (UpdateCursor s) = minWritable s"
  "canOutput (UpdateCursor s) = canOutput s" "color (UpdateCursor s) = color s" "ts_memory (UpdateCursor s) = ts_memory s"
  by (simp_all add: UpdateCursor_def Let_def)

lemma update_cursor_shown:
  assumes "cursor_ok s"
  shows "shown_cursor (crt_log (UpdateCursor s)) = position s"
proof -
  define t where "t = 80 * cursorY s + cursorX s"
  have "unat t = position s"
    using assms by (simp add: t_def position_def cursor_ok_def unat_word_ariths)
  moreover have "unat (ucast (drop_bit 8 t) :: u8) = unat t div 256" "unat (ucast t :: u8) = unat t mod 256"
    using unsigned_less [of t, where ?'a = nat]
    by (simp_all add: unsigned_ucast_eq unat_drop_bit_eq drop_bit_eq_div take_bit_eq_mod unat_div)
  ultimately show ?thesis by (simp add: shown_cursor_def UpdateCursor_def Let_def SCREEN_WIDTH_def t_def nth_append)
qed

lemma cell_addr_in_video:
  assumes "cursor_ok s"
  shows "cell_addr s = vidmem + of_nat (2 * position s)" "in_video (cell_addr s)" "in_video (cell_addr s + 1)"
proof -
  have "(ucast (cursorY s) :: u32) = of_nat (unat (cursorY s))" "(ucast (cursorX s) :: u32) = of_nat (unat (cursorX s))" by simp_all
  then show e: "cell_addr s = vidmem + of_nat (2 * position s)"
    by (simp add: cell_addr_def SCREEN_WIDTH_def SCREEN_DEPTH_def position_def algebra_simps)
  have "2 * position s + 1 < 4000" using assms by (simp add: position_def cursor_ok_def)
  then show "in_video (cell_addr s)" "in_video (cell_addr s + 1)"
    using in_video_offset [of "2 * position s"] in_video_offset [of "2 * position s + 1"] unfolding e by (simp_all add: ac_simps)
qed

text \<open>One character, whatever it is: the state before the cursor is moved to the next line and shown.\<close>

definition put_char :: "u8 \<Rightarrow> 'a text_screen_scheme \<Rightarrow> 'a text_screen_scheme" where
  "put_char c s =
     (if c = 0x08 then
        if cursorX s \<ge> ucast (minWritable s) then let s = s\<lparr>cursorX := cursorX s - 1\<rparr> in s\<lparr>ts_memory := (ts_memory s)(cell_addr s := 0)\<rparr> else s
      else if c = 0x09 then s\<lparr>cursorX := cursorX s + (TAB_SIZE - cursorX s mod TAB_SIZE)\<rparr>
      else if c = 13 \<or> c = 10 then s\<lparr>cursorX := 0, cursorY := cursorY s + 1\<rparr>
      else let s = s\<lparr>ts_memory := (ts_memory s)(cell_addr s := c, cell_addr s + 1 := color s)\<rparr> in s\<lparr>cursorX := cursorX s + 1\<rparr>)"

definition next_line :: "'a text_screen_scheme \<Rightarrow> 'a text_screen_scheme" where
  "next_line s = NewLineCheck (if unat (cursorX s) \<ge> SCREEN_WIDTH then s\<lparr>cursorX := 0, cursorY := cursorY s + 1\<rparr> else s)"

lemma printch_steps: "canOutput s \<noteq> 0 \<Longrightarrow> Printch c s = UpdateCursor (next_line (put_char c s))"
  by (simp add: Printch_def put_char_def next_line_def Let_def)

definition leaves_line :: "u8 \<Rightarrow> 'a text_screen_scheme \<Rightarrow> bool" where
  \<comment> \<open>Backspace at the beginning of a line when no column is protected, as at the start.\<close>
  "leaves_line c s \<longleftrightarrow> c = 0x08 \<and> minWritable s = 0 \<and> cursorX s = 0"

definition stray_addr :: "'a text_screen_scheme \<Rightarrow> u32" where
  \<comment> \<open>Where it writes: the column has wrapped round to 65535.\<close>
  "stray_addr s = vidmem + of_nat (2 * (position s + 65535))"

lemma put_char_ok:
  assumes "cursor_ok s" and "\<not> leaves_line c s"
  shows "unat (cursorX (put_char c s)) \<le> 100" "unat (cursorY (put_char c s)) \<le> 25"
    and "unat (cursorY (put_char c s)) = 25 \<Longrightarrow> unat (cursorX (put_char c s)) = 0"
    and "minWritable (put_char c s) = minWritable s" "canOutput (put_char c s) = canOutput s"
    and "\<not> in_video a \<Longrightarrow> ts_memory (put_char c s) a = ts_memory s a"
proof -
  note v = cell_addr_in_video [OF assms(1)]
  have b: "cursor_ok (s\<lparr>cursorX := cursorX s - 1\<rparr>)" if "c = 0x08" "cursorX s \<ge> ucast (minWritable s)"
  proof -
    have "unat (ucast (minWritable s) :: u16) = unat (minWritable s)"
      using unsigned_less [of "minWritable s", where ?'a = nat] by (simp add: unsigned_ucast_eq take_bit_nat_eq_self)
    then have "unat (minWritable s) \<le> unat (cursorX s)" using that by (simp add: word_le_nat_alt)
    moreover have "minWritable s \<noteq> 0 \<or> cursorX s \<noteq> 0" using assms(2) that(1) by (simp add: leaves_line_def)
    ultimately have "1 \<le> unat (cursorX s)" by (cases "unat (cursorX s)") (auto simp: unat_eq_0)
    then have "unat (cursorX s - 1) = unat (cursorX s) - 1" by (intro unat_minus_one) auto
    then show ?thesis using assms(1) by (simp add: cursor_ok_def less_imp_diff_less)
  qed
  note w = cell_addr_in_video [OF b]
  have x: "unat (cursorX s) < 80" "unat (cursorY s) < 25" using assms(1) by (simp_all add: cursor_ok_def)
  have t: "unat (cursorX s + (TAB_SIZE - cursorX s mod TAB_SIZE)) \<le> 100"
  proof -
    have m: "unat (cursorX s mod TAB_SIZE) < 20" by (simp add: TAB_SIZE_def unat_mod)
    then have "unat (TAB_SIZE - cursorX s mod TAB_SIZE) \<le> 20"
      by (subst unat_sub_le) (simp_all add: TAB_SIZE_def word_le_nat_alt)
    then show ?thesis using x by (simp add: unat_word_ariths)
  qed
  have i: "unat (cursorX s + 1) = unat (cursorX s) + 1" "unat (cursorY s + 1) = unat (cursorY s) + 1"
    using x by (simp_all add: unat_word_ariths)
  have m: "c = 0x08 \<Longrightarrow> cursorX s \<ge> ucast (minWritable s) \<Longrightarrow> unat (cursorX s - 1) < 80" using b by (simp add: cursor_ok_def)
  show "unat (cursorX (put_char c s)) \<le> 100" "unat (cursorY (put_char c s)) \<le> 25"
    "unat (cursorY (put_char c s)) = 25 \<Longrightarrow> unat (cursorX (put_char c s)) = 0"
    using x i m t by (auto simp: put_char_def Let_def split: if_splits)
  show "minWritable (put_char c s) = minWritable s" "canOutput (put_char c s) = canOutput s"
    by (simp_all add: put_char_def Let_def)
  show "ts_memory (put_char c s) a = ts_memory s a" if "\<not> in_video a"
  proof -
    have "a \<noteq> cell_addr s" "a \<noteq> cell_addr s + 1" using v(2,3) that by auto
    moreover have "c = 0x08 \<Longrightarrow> cursorX s \<ge> ucast (minWritable s) \<Longrightarrow> a \<noteq> cell_addr (s\<lparr>cursorX := cursorX s - 1\<rparr>)" using w(2) that by auto
    ultimately show ?thesis by (simp add: put_char_def Let_def)
  qed
qed

lemma next_line_ok:
  assumes "unat (cursorX s) \<le> 100" and "unat (cursorY s) \<le> 25" and "unat (cursorY s) = 25 \<Longrightarrow> unat (cursorX s) = 0"
  shows "cursor_ok (next_line s)"
proof (cases "unat (cursorX s) \<ge> 80")
  case True
  then have "unat (cursorY s + 1) = unat (cursorY s) + 1" using assms(2) by (simp add: unat_word_ariths)
  then show ?thesis using True assms by (simp add: next_line_def NewLineCheck_def cursor_ok_def SCREEN_WIDTH_def SCREEN_HEIGHT_def clear_screen_fields)
next
  case False
  then show ?thesis using assms by (simp add: next_line_def NewLineCheck_def cursor_ok_def SCREEN_WIDTH_def SCREEN_HEIGHT_def clear_screen_fields)
qed

lemma next_line_fields [simp]:
  "minWritable (next_line s) = minWritable s" "canOutput (next_line s) = canOutput s" "\<not> in_video a \<Longrightarrow> ts_memory (next_line s) a = ts_memory s a"
  by (simp_all add: next_line_def NewLineCheck_def clear_screen_fields)

lemma stray_outside:
  assumes "cursor_ok s"
  shows "\<not> in_video (stray_addr s)"
proof -
  have p: "position s < 2000" using assms by (simp add: position_def cursor_ok_def)
  have "stray_addr s - vidmem = of_nat (2 * (position s + 65535))" by (simp add: stray_addr_def del: of_nat_mult of_nat_add)
  moreover have l: "2 * (position s + 65535) < 2 ^ 32" "\<not> 2 * (position s + 65535) < 4000" using p by simp_all
  ultimately show ?thesis using unat_of_nat_u32 [OF l(1)] by (simp only: in_video_def not_False_eq_True)
qed

lemma put_char_stray:
  assumes "leaves_line c s"
  shows "put_char c s = s\<lparr>cursorX := - 1, ts_memory := (ts_memory s)(stray_addr s := 0)\<rparr>"
proof -
  have x: "c = 0x08" "minWritable s = 0" "cursorX s = 0" using assms by (simp_all add: leaves_line_def)
  have "(ucast (cursorY s) :: u32) = of_nat (unat (cursorY s))" by simp
  moreover have "(ucast (- 1 :: u16) :: u32) = 65535" by (simp only: unsigned_minus_1_eq_mask) (simp add: mask_eq_exp_minus_1)
  ultimately have "cell_addr (s\<lparr>cursorX := - 1\<rparr>) = stray_addr s"
    by (simp add: cell_addr_def SCREEN_WIDTH_def SCREEN_DEPTH_def stray_addr_def position_def x(3) del: of_nat_unat)
  then show ?thesis using x by (simp add: put_char_def Let_def)
qed

lemma printch_ok:
  assumes ok: "cursor_ok s"
  shows "cursor_ok (Printch c s)" "minWritable (Printch c s) = minWritable s" "canOutput (Printch c s) = canOutput s"
    and "\<not> in_video a \<Longrightarrow> ts_memory (Printch c s) a =
      (if leaves_line c s \<and> canOutput s \<noteq> 0 \<and> a = stray_addr s then 0 else ts_memory s a)"
    and "canOutput s \<noteq> 0 \<Longrightarrow> shown_cursor (crt_log (Printch c s)) = position (Printch c s)"
proof -
  let ?t = "put_char c s"
  have all: "cursor_ok (next_line ?t) \<and> minWritable ?t = minWritable s \<and> canOutput ?t = canOutput s \<and>
      (\<not> in_video a \<longrightarrow> ts_memory ?t a = (if leaves_line c s \<and> a = stray_addr s then 0 else ts_memory s a))" for a
  proof (cases "leaves_line c s")
    case False
    have "cursor_ok (next_line ?t)" using put_char_ok(1-3) [OF ok False] by (rule next_line_ok)
    then show ?thesis
      using put_char_ok(4-6) [OF ok False] False by simp
  next
    case True
    have "unat (cursorY s) < 25" using ok by (simp add: cursor_ok_def)
    then have "unat (cursorY s + 1) = unat (cursorY s) + 1" by (simp add: unat_word_ariths)
    then have "cursor_ok (next_line ?t)"
      using ok unfolding put_char_stray [OF True]
      by (simp add: next_line_def NewLineCheck_def cursor_ok_def SCREEN_WIDTH_def SCREEN_HEIGHT_def clear_screen_fields)
    then show ?thesis
      using True put_char_stray [OF True] by simp
  qed
  then have t: "cursor_ok (next_line ?t)" "minWritable ?t = minWritable s" "canOutput ?t = canOutput s"
    "\<not> in_video a \<Longrightarrow> ts_memory ?t a = (if leaves_line c s \<and> a = stray_addr s then 0 else ts_memory s a)" for a
    by blast+
  have u: "position (UpdateCursor t) = position t" for t :: "'a text_screen_scheme" by (simp add: position_def)
  show "cursor_ok (Printch c s)"
    using t(1) ok printch_steps [of s c] by (cases "canOutput s = 0") (simp_all add: Printch_def cursor_ok_def)
  show "minWritable (Printch c s) = minWritable s" "canOutput (Printch c s) = canOutput s"
    using t(2,3) printch_steps [of s c] by (cases "canOutput s = 0"; simp add: Printch_def)+
  show "\<not> in_video a \<Longrightarrow> ts_memory (Printch c s) a =
      (if leaves_line c s \<and> canOutput s \<noteq> 0 \<and> a = stray_addr s then 0 else ts_memory s a)"
    using t(4) [of a] printch_steps [of s c] by (cases "canOutput s = 0") (simp_all add: Printch_def)
  show "canOutput s \<noteq> 0 \<Longrightarrow> shown_cursor (crt_log (Printch c s)) = position (Printch c s)"
    using t(1) by (simp add: printch_steps update_cursor_shown u)
qed

fun stray_writes :: "u8 list \<Rightarrow> 'a text_screen_scheme \<Rightarrow> u32 set" where
  \<comment> \<open>The addresses behind the video memory that printing these characters sets to zero.\<close>
  "stray_writes [] s = {}"
| "stray_writes (c # cs) s = (if leaves_line c s \<and> canOutput s \<noteq> 0 then {stray_addr s} else {}) \<union> stray_writes cs (Printch c s)"

text \<open>
  C38. The screen's state stays well-formed whatever is printed. After any characters the cursor is
  inside the 80 by 25 cells and the display controller has been told its place. Of the memory
  outside the video memory only the bytes change, to zero, that a backspace at the beginning of a line
  hits while no column is protected, which is how the driver starts: the column wraps round, and the cell of
  column 65535 of that line is cleared. When a column is protected there are none.
\<close>

theorem printing_keeps_screen:
  assumes "cursor_ok s"
  shows "cursor_ok (fold Printch cs s) \<and>
    (cs \<noteq> [] \<and> canOutput s \<noteq> 0 \<longrightarrow> shown_cursor (crt_log (fold Printch cs s)) = position (fold Printch cs s)) \<and>
    (\<forall>a. \<not> in_video a \<longrightarrow> ts_memory (fold Printch cs s) a = (if a \<in> stray_writes cs s then 0 else ts_memory s a)) \<and>
    (\<forall>a \<in> stray_writes cs s. \<not> in_video a) \<and> (minWritable s \<noteq> 0 \<longrightarrow> stray_writes cs s = {})"
  using assms
proof (induction cs arbitrary: s)
  case (Cons c cs)
  note p = printch_ok [OF Cons.prems, where c = c]
  have "cs = [] \<Longrightarrow> fold Printch (c # cs) s = Printch c s" by simp
  then show ?case
    using Cons.IH [OF p(1)] p Cons.prems stray_outside [OF Cons.prems] by (cases "cs = []") (auto simp: leaves_line_def)
qed simp

definition sample_text_screen :: text_screen where
  "sample_text_screen = \<lparr>ts_memory = \<lambda>a. 7, cursorX = 0, cursorY = 3, color = DEFAULT_COLOR, minWritable = 0, canOutput = 1, crt_log = []\<rparr>"

lemma printing_keeps_screen_witness:
  "cursor_ok (fold Printch [72, 105, 9, 10, 8, 8] sample_text_screen) \<and>
   stray_addr sample_text_screen \<in> stray_writes [8, 72] sample_text_screen \<and>
   ts_memory (fold Printch [8, 72] sample_text_screen) (stray_addr sample_text_screen) = 0"
proof -
  have ok: "cursor_ok sample_text_screen" by (simp add: cursor_ok_def sample_text_screen_def)
  have st: "stray_addr sample_text_screen \<in> stray_writes [8, 72] sample_text_screen"
    by (simp add: leaves_line_def) (simp add: sample_text_screen_def)
  then have "ts_memory (fold Printch [8, 72] sample_text_screen) (stray_addr sample_text_screen) = 0"
    using printing_keeps_screen [OF ok, of "[8, 72]"] stray_outside [OF ok] by metis
  then show ?thesis using st printing_keeps_screen [OF ok] by blast
qed

end
