(* ===== verification/Timers.thy ===== *)
theory Timers
  imports Scheduler "HOL-Library.Word"
begin

text \<open>
  The interval timer, the interrupt controllers and the clock: pit.c, pic.c and timer.cpp. Bytes sent to ports are kept, oldest
  first; what the speaker's port shows is an argument. The scheduler counts the ticks. A division by zero, and a clock whose
  frequency is not set, are \<open>None\<close>. The handler of timer.cpp, which nothing calls, is left out.
\<close>

record timer = thread_sched +
  ticks :: u32
  timer_log :: "(u16 \<times> u8) list"

definition send_bytes :: "(u16 \<times> u8) list \<Rightarrow> 'a timer_scheme \<Rightarrow> 'a timer_scheme" where
  "send_bytes bs s = s\<lparr>timer_log := timer_log s @ bs\<rparr>"

subsection \<open>The interrupt controllers\<close>

definition PIC_PRIMARY_COMMAND :: u16 where "PIC_PRIMARY_COMMAND = 0x20"
definition PIC_PRIMARY_DATA_PORT :: u16 where "PIC_PRIMARY_DATA_PORT = 0x21"
definition PIC_SLAVE_COMMAND :: u16 where "PIC_SLAVE_COMMAND = 0xA0"
definition PIC_SLAVE_DATA_PORT :: u16 where "PIC_SLAVE_DATA_PORT = 0xA1"
definition RECEIVE_ICW4 :: u8 where "RECEIVE_ICW4 = push_bit 0 1"
definition INITIALIZATION :: u8 where "INITIALIZATION = push_bit 4 1"
definition IRQ_0 :: u8 where "IRQ_0 = 0x20"
definition IRQ_8 :: u8 where "IRQ_8 = 0x28"
definition PRIMARY_IRQ_LINE_2 :: u8 where "PRIMARY_IRQ_LINE_2 = push_bit 2 1"
definition SLAVE_IRQ_LINE_2 :: u8 where "SLAVE_IRQ_LINE_2 = push_bit 1 1"
definition OPERATION_80x86 :: u8 where "OPERATION_80x86 = push_bit 0 1"

definition init_pic :: "'a timer_scheme \<Rightarrow> 'a timer_scheme" where
  "init_pic s = send_bytes
     [(PIC_PRIMARY_COMMAND, RECEIVE_ICW4 OR INITIALIZATION), (PIC_SLAVE_COMMAND, RECEIVE_ICW4 OR INITIALIZATION),
      (PIC_PRIMARY_DATA_PORT, IRQ_0), (PIC_SLAVE_DATA_PORT, IRQ_8),
      (PIC_PRIMARY_DATA_PORT, PRIMARY_IRQ_LINE_2), (PIC_SLAVE_DATA_PORT, SLAVE_IRQ_LINE_2),
      (PIC_PRIMARY_DATA_PORT, OPERATION_80x86), (PIC_SLAVE_DATA_PORT, OPERATION_80x86),
      (PIC_PRIMARY_DATA_PORT, 0), (PIC_SLAVE_DATA_PORT, 0)] s"

subsection \<open>The interval timer\<close>

definition PIT_CLOCK_CYCLE :: u32 where "PIT_CLOCK_CYCLE = 1193180"
definition PIT_COMMAND_PORT :: u16 where "PIT_COMMAND_PORT = 0x43"
definition PC_SPEAKER_PORT :: u16 where "PC_SPEAKER_PORT = 0x61"
definition PIT_COUNT_0_PORT :: u16 where "PIT_COUNT_0_PORT = 0x40"
definition PIT_COUNT_2_PORT :: u16 where "PIT_COUNT_2_PORT = 0x42"
definition RATE_GENERATOR :: u8 where "RATE_GENERATOR = push_bit 1 2"
definition SQR_WAVE_GENERATOR :: u8 where "SQR_WAVE_GENERATOR = push_bit 1 3"
definition LSB_THEN_MSB :: u8 where "LSB_THEN_MSB = push_bit 4 3"
definition COUNTER_0 :: u8 where "COUNTER_0 = push_bit 6 0"
definition COUNTER_2 :: u8 where "COUNTER_2 = push_bit 6 2"

definition init_pit_timer :: "u32 \<Rightarrow> 'a timer_scheme \<Rightarrow> 'a timer_scheme option" where
  \<comment> \<open>The handler is entered for interrupt 32 as Interrupts has it.\<close>
  "init_pit_timer freq s = (
     let s = s\<lparr>frequency := freq\<rparr> in
     if freq = 0 then None
     else let count = (ucast (PIT_CLOCK_CYCLE div freq) :: u16) in
       Some (send_bytes [(PIT_COMMAND_PORT, RATE_GENERATOR OR LSB_THEN_MSB OR COUNTER_0),
         (PIT_COUNT_0_PORT, ucast (count AND 0x00FF)), (PIT_COUNT_0_PORT, ucast (drop_bit 8 count AND 0x00FF))] s))"

definition play_sound :: "u32 \<Rightarrow> u8 \<Rightarrow> 'a timer_scheme \<Rightarrow> 'a timer_scheme option" where
  "play_sound freq speaker_status s =
     (if freq = 0 then None
      else let count = (ucast (PIT_CLOCK_CYCLE div freq) :: u16);
               s = send_bytes [(PIT_COMMAND_PORT, SQR_WAVE_GENERATOR OR LSB_THEN_MSB OR COUNTER_2),
                 (PIT_COUNT_2_PORT, ucast count), (PIT_COUNT_2_PORT, ucast (drop_bit 8 count))] s
        in Some (if speaker_status \<noteq> speaker_status OR 3 then send_bytes [(PC_SPEAKER_PORT, speaker_status OR 3)] s else s))"

definition stop_sound :: "u8 \<Rightarrow> 'a timer_scheme \<Rightarrow> 'a timer_scheme" where
  "stop_sound speaker_status s = send_bytes [(PC_SPEAKER_PORT, speaker_status AND 0xFC)] s"

subsection \<open>The clock\<close>

definition millis :: "'a timer_scheme \<Rightarrow> u32 option" where
  "millis s = (if frequency s = 0 then None else Some ((1000 * ticks s) div frequency s))"

definition get_ticks :: "'a timer_scheme \<Rightarrow> u32" where
  "get_ticks s = ticks s"

definition sleep :: "u32 \<Rightarrow> 'a timer_scheme \<Rightarrow> 'a timer_scheme option" where
  "sleep time s = do { n \<leftarrow> thread_get_current_node s; thread_sleep n time s }"

definition beep_start :: "u32 \<Rightarrow> u32 \<Rightarrow> u8 \<Rightarrow> 'a timer_scheme \<Rightarrow> 'a timer_scheme option" where
  \<comment> \<open>\<^verbatim>\<open>beep\<close> up to the point where its thread sleeps; \<open>stop_sound\<close> is the rest.\<close>
  "beep_start freq time speaker_status s = do { s \<leftarrow> play_sound freq speaker_status s; sleep time s }"

record stopwatch =
  start :: u32

definition Timer_Timer :: "'a timer_scheme \<Rightarrow> stopwatch option" where
  "Timer_Timer s = do { m \<leftarrow> millis s; Some \<lparr>start = m\<rparr> }"

definition GetElapsedMillis :: "stopwatch \<Rightarrow> 'a timer_scheme \<Rightarrow> u32 option" where
  "GetElapsedMillis t s = do { m \<leftarrow> millis s; Some (m - start t) }"

definition Restart :: "stopwatch \<Rightarrow> 'a timer_scheme \<Rightarrow> (u32 \<times> stopwatch) option" where
  "Restart t s = do { temp \<leftarrow> GetElapsedMillis t s; m \<leftarrow> millis s; Some (temp, t\<lparr>start := m\<rparr>) }"

subsection \<open>The rate and the clock\<close>

definition divisor :: "(u16 \<times> u8) list \<Rightarrow> nat" where
  \<comment> \<open>The count the last two bytes give, low byte first.\<close>
  "divisor log = unat (snd (log ! (length log - 2))) + 256 * unat (snd (log ! (length log - 1)))"

lemma divisor_bytes:
  "unat (ucast (c AND 0x00FF) :: u8) + 256 * unat (ucast (drop_bit 8 c AND 0x00FF) :: u8) = unat (c :: u16)"
proof -
  have m: "(0xFF :: u16) = mask 8" by (simp add: mask_eq_exp_minus_1)
  have "unat (ucast (c AND 0x00FF) :: u8) = unat c mod 256"
    unfolding m by (simp add: unsigned_ucast_eq take_bit_eq_mask [symmetric] take_bit_eq_mod unat_mod)
  moreover have "unat (ucast (drop_bit 8 c AND 0x00FF) :: u8) = unat c div 256"
    using unsigned_less [of c, where ?'a = nat]
    unfolding m by (simp add: unsigned_ucast_eq take_bit_eq_mask [symmetric] take_bit_eq_mod unat_mod drop_bit_eq_div unat_div)
  ultimately show ?thesis by simp
qed

text \<open>
  The timer's rate: for a frequency from 19 Hz on, the count sent to it is the largest that does not make it slower than asked;
  below, the count does not fit its 16 bits and is cut.
\<close>

lemma pit_rate:
  assumes "0 < freq" and "freq \<le> PIT_CLOCK_CYCLE"
  shows "\<exists>s'. init_pit_timer freq s = Some s' \<and> frequency s' = freq \<and>
    (if 19 \<le> freq then divisor (timer_log s') * unat freq \<le> 1193180 \<and> 1193180 < (divisor (timer_log s') + 1) * unat freq
     else divisor (timer_log s') = 1193180 div unat freq - 65536 * (1193180 div unat freq div 65536))"
proof -
  define c where "c = (ucast (PIT_CLOCK_CYCLE div freq) :: u16)"
  define q where "q = 1193180 div unat freq"
  have f: "0 < unat freq" using assms(1) by (simp add: word_less_nat_alt)
  have u: "unat c = q mod 65536"
    by (simp add: c_def q_def unsigned_ucast_eq take_bit_eq_mod PIT_CLOCK_CYCLE_def unat_mod unat_div)
  have d: "divisor (l @ [(p, x), (p', ucast (c AND 0x00FF)), (p'', ucast (drop_bit 8 c AND 0x00FF))]) = unat c" for l p p' p'' x
    using divisor_bytes [of c] by (simp add: divisor_def nth_append)
  have r: "init_pit_timer freq s = Some (send_bytes [(PIT_COMMAND_PORT, RATE_GENERATOR OR LSB_THEN_MSB OR COUNTER_0),
         (PIT_COUNT_0_PORT, ucast (c AND 0x00FF)), (PIT_COUNT_0_PORT, ucast (drop_bit 8 c AND 0x00FF))] (s\<lparr>frequency := freq\<rparr>))"
    using assms(1) by (auto simp: init_pit_timer_def Let_def c_def)
  have hi: "q < 65536" if "19 \<le> freq"
  proof -
    have "19 \<le> unat freq" using that by (simp add: word_le_nat_alt)
    then have "q \<le> 1193180 div 19" unfolding q_def by (intro div_le_mono2) simp_all
    then show ?thesis by simp
  qed
  have "q * unat freq \<le> 1193180" "1193180 < (q + 1) * unat freq"
  proof -
    have "q * unat freq + 1193180 mod unat freq = 1193180" by (simp add: q_def)
    moreover have "1193180 mod unat freq < unat freq" using f by (rule mod_less_divisor)
    moreover have "(q + 1) * unat freq = q * unat freq + unat freq" by simp
    ultimately show "q * unat freq \<le> 1193180" "1193180 < (q + 1) * unat freq" by linarith+
  qed
  then show ?thesis using hi
    by (intro exI [of _ "send_bytes [(PIT_COMMAND_PORT, RATE_GENERATOR OR LSB_THEN_MSB OR COUNTER_0),
         (PIT_COUNT_0_PORT, ucast (c AND 0x00FF)), (PIT_COUNT_0_PORT, ucast (drop_bit 8 c AND 0x00FF))] (s\<lparr>frequency := freq\<rparr>)"])
      (auto simp: r d u q_def [symmetric] modulo_nat_def send_bytes_def)
qed

text \<open>
  The clock: as long as the product of the ticks and 1000 fits a word, it is the time since the start, rounded down to
  milliseconds, and a stopwatch is off by less than a millisecond.
  Afterwards (at 1000 Hz after 71 and a half minutes) the clock starts again at zero.
\<close>

lemma clock_ok:
  assumes f: "frequency s \<noteq> 0" and t: "1000 * unat (ticks s) < 2 ^ 32"
  shows "\<exists>m. millis s = Some m \<and> unat m = 1000 * unat (ticks s) div unat (frequency s)"
  using assms by (simp add: millis_def unat_div unat_word_ariths)

lemma rounded_difference:
  assumes "A * f + x = a" and "B * f + y = b" and "x < f" and "y < f" and "A \<le> (B :: nat)"
  shows "(B - A) * f < b - a + f" and "b - a < (B - A + 1) * f"
proof -
  obtain d where d: "B = A + d" using assms(5) le_iff_add by auto
  then have "B * f = A * f + d * f" "(d + 1) * f = d * f + f" by (simp_all add: add_mult_distrib)
  then show "(B - A) * f < b - a + f" "b - a < (B - A + 1) * f" using assms d by simp_all
qed

lemma stopwatch_ok:
  assumes f: "frequency s1 \<noteq> 0" "frequency s2 = frequency s1" and t: "unat (ticks s1) \<le> unat (ticks s2)" "1000 * unat (ticks s2) < 2 ^ 32"
    and w: "Timer_Timer s1 = Some w"
  shows "\<exists>e. GetElapsedMillis w s2 = Some e \<and>
    unat e * unat (frequency s1) < 1000 * (unat (ticks s2) - unat (ticks s1)) + unat (frequency s1) \<and>
    1000 * (unat (ticks s2) - unat (ticks s1)) < (unat e + 1) * unat (frequency s1)"
proof -
  let ?f = "unat (frequency s1)" and ?a = "1000 * unat (ticks s1)" and ?b = "1000 * unat (ticks s2)"
  have f0: "0 < ?f" using f(1) by (simp add: unat_gt_0)
  obtain m1 where m1: "millis s1 = Some m1" "unat m1 = ?a div ?f" using clock_ok [of s1] f t by force
  obtain m2 where m2: "millis s2 = Some m2" "unat m2 = ?b div ?f" using clock_ok [of s2] f t by force
  have le: "?a div ?f \<le> ?b div ?f" using t(1) by (intro div_le_mono) simp
  then have e: "unat (m2 - m1) = ?b div ?f - ?a div ?f" using m1 m2 by (subst unat_sub_le) simp_all
  have "?a div ?f * ?f + ?a mod ?f = ?a" "?b div ?f * ?f + ?b mod ?f = ?b" "?a mod ?f < ?f" "?b mod ?f < ?f"
    using f0 by simp_all
  then have "unat (m2 - m1) * ?f < ?b - ?a + ?f" "?b - ?a < (unat (m2 - m1) + 1) * ?f"
    using rounded_difference [of "?a div ?f" ?f "?a mod ?f" ?a "?b div ?f" "?b mod ?f" ?b] le unfolding e by simp_all
  moreover have "GetElapsedMillis w s2 = Some (m2 - m1)" using w m1(1) m2(1) by (auto simp: Timer_Timer_def GetElapsedMillis_def)
  ultimately show ?thesis by (simp add: right_diff_distrib')
qed

lemma clock_starts_again:
  "millis (s\<lparr>ticks := 4294967, frequency := 1000\<rparr>) = Some 4294967 \<and> millis (s\<lparr>ticks := 4294968, frequency := 1000\<rparr>) = Some 0"
  by (simp add: millis_def)

end
