(* ===== verification/Pci.thy ===== *)
theory Pci
  imports Ahci
begin

text \<open>
  The search of the PCI bus for the disk controller, PCI.cpp. \<open>cfg\<close> is what the configuration ports give for an address
  sent to them, and \<open>hba\<close> what the registers of a controller at an address show: the ports it has and their records. Starting
  a network card is kept as the arguments it is called with; what the functions print is left out.
\<close>

subsection \<open>Data\<close>

type_synonym config_space = "u32 \<Rightarrow> u32"

record pci =
  ab :: u32
  nic_started :: "(u8 \<times> u32 \<times> u32 \<times> u32) list"

definition SATA_SIG_ATAPI :: u32 where "SATA_SIG_ATAPI = 0xEB140101"
definition SATA_SIG_SEMB :: u32 where "SATA_SIG_SEMB = 0xC33C0101"
definition SATA_SIG_PM :: u32 where "SATA_SIG_PM = 0x96690101"

subsection \<open>Configuration registers\<close>

definition config_address :: "u8 \<Rightarrow> u8 \<Rightarrow> u8 \<Rightarrow> u8 \<Rightarrow> u32" where
  "config_address bus slot func offset =
     push_bit 16 (ucast bus) OR push_bit 11 (ucast slot) OR push_bit 8 (ucast func) OR (ucast offset AND 0xfc) OR 0x80000000"

definition PCIReadRegister :: "config_space \<Rightarrow> u8 \<Rightarrow> u8 \<Rightarrow> u8 \<Rightarrow> u8 \<Rightarrow> u32" where
  "PCIReadRegister cfg bus slot func offset = cfg (config_address bus slot func offset)"

subsection \<open>Disk controllers\<close>

definition check_type :: "hba_port \<Rightarrow> u32" where
  "check_type port = (
     let ssts = port_ssts port;
         ipm = drop_bit 8 ssts AND 0x0F;
         det = ssts AND 0x0F
     in if det \<noteq> 3 then 0
        else if ipm \<noteq> 1 then 0
        else if port_sig port = SATA_SIG_ATAPI then 1
        else if port_sig port = SATA_SIG_SEMB then 2
        else if port_sig port = SATA_SIG_PM then 3
        else 4)"

primrec ahci_type_loop :: "nat \<Rightarrow> nat \<Rightarrow> u32 \<Rightarrow> hba_port list \<Rightarrow> bool option" where
  \<comment> \<open>\<open>n\<close> ports are left, \<open>i\<close> is the next: whether a disk was found.\<close>
  "ahci_type_loop 0 i ports_bits ports = Some False"
| "ahci_type_loop (Suc n) i ports_bits ports =
     (if ports_bits AND 1 \<noteq> 0 then
        if i < length ports then if check_type (ports ! i) = 4 then Some True else ahci_type_loop n (i + 1) (drop_bit 1 ports_bits) ports
        else None
      else ahci_type_loop n (i + 1) (drop_bit 1 ports_bits) ports)"

definition CheckAHCIType :: "(u32 \<Rightarrow> u32 \<times> hba_port list) \<Rightarrow> u32 \<Rightarrow> 'a pci_scheme \<Rightarrow> (u32 \<times> 'a pci_scheme) option" where
  "CheckAHCIType hba abar s = do {
     let (ports_bits, ports) = hba abar;
     found \<leftarrow> ahci_type_loop 32 0 ports_bits ports;
     Some (if found then (1, s\<lparr>ab := abar\<rparr>) else (0, s))
   }"

subsection \<open>The search\<close>

definition check :: "config_space \<Rightarrow> (u32 \<Rightarrow> u32 \<times> hba_port list) \<Rightarrow> u8 \<Rightarrow> u8 \<Rightarrow> u8 \<Rightarrow> 'a pci_scheme \<Rightarrow> (u32 option \<times> 'a pci_scheme) option" where
  \<comment> \<open>The result is \<open>None\<close> where the function ends without returning a value.\<close>
  "check cfg hba bus device func s =
     (if PCIReadRegister cfg bus device func 0 AND 0xFFFF = 0xFFFF then Some (Some 0, s)
      else let reg = PCIReadRegister cfg bus device func 8;
               cls = (ucast (drop_bit 24 reg) :: u8);
               subcls = (ucast (drop_bit 16 reg AND 0xFF) :: u8);
               progif = (ucast (drop_bit 8 reg AND 0xFF) :: u8)
        in if cls = 0x1 \<and> subcls = 0x6 \<and> progif = 0x1 then do {
             let base = PCIReadRegister cfg bus device func 0x24;
             (r, s) \<leftarrow> CheckAHCIType hba base s;
             Some (Some (if r = 1 then 1 else 0), s)
           }
           else if cls = 0x2 \<and> subcls = 0 \<and> progif = 0 then
             Some (None, s\<lparr>nic_started := nic_started s @ [(ucast (PCIReadRegister cfg bus device func 0x10 AND 0x1),
               PCIReadRegister cfg bus device func 0x10 AND 0xFFFFFFF0, 0x300000, 0x350000)]\<rparr>)
           else Some (Some 0, s))"

primrec function_loop :: "nat \<Rightarrow> u8 \<Rightarrow> config_space \<Rightarrow> (u32 \<Rightarrow> u32 \<times> hba_port list) \<Rightarrow> u8 \<Rightarrow> u8 \<Rightarrow> 'a pci_scheme \<Rightarrow> 'a pci_scheme option" where
  "function_loop 0 func cfg hba bus device s = Some s"
| "function_loop (Suc n) func cfg hba bus device s = do {
     (_, s) \<leftarrow> check cfg hba bus device func s;
     function_loop n (func + 1) cfg hba bus device s
   }"

primrec device_loop :: "nat \<Rightarrow> u8 \<Rightarrow> config_space \<Rightarrow> (u32 \<Rightarrow> u32 \<times> hba_port list) \<Rightarrow> u8 \<Rightarrow> 'a pci_scheme \<Rightarrow> (u8 \<times> 'a pci_scheme) option" where
  \<comment> \<open>\<open>n\<close> devices are left; returns the device number after the loop.\<close>
  "device_loop 0 device cfg hba bus s = Some (device, s)"
| "device_loop (Suc n) device cfg hba bus s = do {
     (_, s) \<leftarrow> check cfg hba bus device 0 s;
     let headerType = (ucast (drop_bit 16 (PCIReadRegister cfg bus device 0 0xC)) :: u8) AND 0x0FF;
     s \<leftarrow> (if headerType AND 0x80 \<noteq> 0 then function_loop 7 1 cfg hba bus device s else Some s);
     device_loop n (device + 1) cfg hba bus s
   }"

primrec bus_loop :: "nat \<Rightarrow> u16 \<Rightarrow> u8 \<Rightarrow> config_space \<Rightarrow> (u32 \<Rightarrow> u32 \<times> hba_port list) \<Rightarrow> 'a pci_scheme \<Rightarrow> 'a pci_scheme option" where
  \<comment> \<open>\<open>n\<close> buses are left. The device number is not set back between buses.\<close>
  "bus_loop 0 bus device cfg hba s = Some s"
| "bus_loop (Suc n) bus device cfg hba s = do {
     (device, s) \<leftarrow> device_loop (32 - unat device) device cfg hba (ucast bus) s;
     bus_loop n (bus + 1) device cfg hba s
   }"

definition PCIFindAHCI :: "config_space \<Rightarrow> (u32 \<Rightarrow> u32 \<times> hba_port list) \<Rightarrow> 'a pci_scheme \<Rightarrow> (u32 \<times> 'a pci_scheme) option" where
  "PCIFindAHCI cfg hba s = do {
     s \<leftarrow> bus_loop 256 0 0 cfg hba s;
     Some (ab s, s)
   }"

subsection \<open>Which controller is found\<close>

definition functions_of :: "config_space \<Rightarrow> u8 \<Rightarrow> u8 list" where
  \<comment> \<open>The functions of a device on the first bus that are looked at.\<close>
  "functions_of cfg device = (if bit (PCIReadRegister cfg 0 device 0 0xC) 23 then [0, 1, 2, 3, 4, 5, 6, 7] else [0])"

definition scanned :: "config_space \<Rightarrow> (u8 \<times> u8) list" where
  "scanned cfg = concat (map (\<lambda>d. map (Pair (of_nat d)) (functions_of cfg (of_nat d))) [0..<32])"

definition has_disk :: "u32 \<times> hba_port list \<Rightarrow> bool" where
  \<comment> \<open>Some implemented port has a drive that is neither a packet device, an enclosure nor a multiplier.\<close>
  "has_disk h \<longleftrightarrow> (\<exists>i < 32. bit (fst h) i \<and> check_type (snd h ! i) = 4)"

definition is_disk_controller :: "config_space \<Rightarrow> (u32 \<Rightarrow> u32 \<times> hba_port list) \<Rightarrow> u8 \<times> u8 \<Rightarrow> bool" where
  "is_disk_controller cfg hba x \<longleftrightarrow> PCIReadRegister cfg 0 (fst x) (snd x) 0 AND 0xFFFF \<noteq> 0xFFFF \<and>
     drop_bit 8 (PCIReadRegister cfg 0 (fst x) (snd x) 8) = 0x010601 \<and> has_disk (hba (PCIReadRegister cfg 0 (fst x) (snd x) 0x24))"

lemma type_loop_ok:
  "i + n \<le> length ports \<Longrightarrow> ahci_type_loop n i bits ports = Some (\<exists>j < n. bit bits j \<and> check_type (ports ! (i + j)) = 4)"
proof (induction n arbitrary: i bits)
  case (Suc n)
  have b: "bits AND 1 \<noteq> 0 \<longleftrightarrow> bit bits 0" by (simp add: and_one_eq bit_0 mod_2_eq_odd)
  have e: "(\<exists>j < Suc n. bit bits j \<and> check_type (ports ! (i + j)) = 4) \<longleftrightarrow>
      bit bits 0 \<and> check_type (ports ! i) = 4 \<or> (\<exists>j < n. bit (drop_bit 1 bits) j \<and> check_type (ports ! (i + 1 + j)) = 4)"
    by (auto simp: less_Suc_eq_0_disj bit_drop_bit_eq)
  show ?case using Suc.IH [of "i + 1" "drop_bit 1 bits"] Suc.prems unfolding e by (simp add: b)
qed simp

definition controller_base :: "config_space \<Rightarrow> u8 \<times> u8 \<Rightarrow> u32" where
  "controller_base cfg x = PCIReadRegister cfg 0 (fst x) (snd x) 0x24"

definition found_step :: "config_space \<Rightarrow> (u32 \<Rightarrow> u32 \<times> hba_port list) \<Rightarrow> u8 \<times> u8 \<Rightarrow> u32 \<Rightarrow> u32" where
  "found_step cfg hba x b = (if is_disk_controller cfg hba x then controller_base cfg x else b)"

lemma class_bytes:
  "(ucast (drop_bit 24 reg) :: u8) = 0x1 \<and> (ucast (drop_bit 16 reg AND 0xFF) :: u8) = 0x6 \<and> (ucast (drop_bit 8 reg AND 0xFF) :: u8) = 0x1
    \<longleftrightarrow> drop_bit 8 (reg :: u32) = 0x010601"
proof -
  have m: "(0xFF :: u32) = mask 8" by (simp add: mask_eq_exp_minus_1)
  define n where "n = unat reg"
  have n: "n < 2 ^ 32" using unsigned_less [of reg, where ?'a = nat] by (simp add: n_def)
  have "unat (ucast (drop_bit 24 reg) :: u8) = n div 2 ^ 24 mod 256" "unat (ucast (drop_bit 16 reg AND 0xFF) :: u8) = n div 2 ^ 16 mod 256"
    "unat (ucast (drop_bit 8 reg AND 0xFF) :: u8) = n div 2 ^ 8 mod 256"
    unfolding m by (simp_all add: unsigned_ucast_eq take_bit_eq_mask [symmetric] take_bit_eq_mod unat_drop_bit_eq drop_bit_eq_div unat_mod unat_div n_def)
  moreover have "unat (drop_bit 8 reg) = n div 256" by (simp add: unat_drop_bit_eq drop_bit_eq_div unat_div n_def)
  moreover have "n div 2 ^ 24 mod 256 = 1 \<and> n div 2 ^ 16 mod 256 = 6 \<and> n div 2 ^ 8 mod 256 = 1 \<longleftrightarrow> n div 256 = 0x010601"
  proof -
    define k where "k = n div 256"
    have d: "n div 2 ^ 8 = k" "n div 2 ^ 16 = k div 256" "n div 2 ^ 24 = k div 256 div 256" by (simp_all add: k_def div_mult2_eq [symmetric])
    have "n div 2 ^ 24 < 256" using n by (intro less_mult_imp_div_less) simp
    then have "k div 256 div 256 < 256" unfolding d(3) .
    then have "k div 256 div 256 mod 256 = k div 256 div 256" by (rule mod_less)
    moreover have "\<And>a b x y. k = 256 * a + x \<Longrightarrow> a = 256 * b + y \<Longrightarrow> b = 1 \<Longrightarrow> y = 6 \<Longrightarrow> x = 1 \<Longrightarrow> k = 0x010601" by simp
    moreover have "k = 256 * (k div 256) + k mod 256" "k div 256 = 256 * (k div 256 div 256) + k div 256 mod 256" by simp_all
    ultimately have "k div 256 div 256 mod 256 = 1 \<and> k div 256 mod 256 = 6 \<and> k mod 256 = 1 \<Longrightarrow> k = 0x010601" by metis
    then show ?thesis unfolding d k_def [symmetric] by auto
  qed
  ultimately show ?thesis unfolding word_unat_eq_iff by simp
qed

lemma check_ok:
  assumes "\<forall>a. length (snd (hba a)) = 32"
  shows "\<exists>r s'. check cfg hba 0 d f s = Some (r, s') \<and> ab s' = found_step cfg hba (d, f) (ab s)"
proof -
  have l: "ahci_type_loop 32 0 (fst (hba a)) (snd (hba a)) = Some (has_disk (hba a))" for a
    using type_loop_ok [of 0 32 "snd (hba a)"] assms by (simp add: has_disk_def)
  show ?thesis
    by (auto simp: check_def Let_def class_bytes CheckAHCIType_def case_prod_unfold l found_step_def is_disk_controller_def controller_base_def)
qed

lemma function_loop_ok:
  assumes "\<forall>a. length (snd (hba a)) = 32"
  shows "\<exists>s'. function_loop n f cfg hba 0 d s = Some s' \<and> ab s' = fold (found_step cfg hba) (map (\<lambda>j. (d, f + of_nat j)) [0..<n]) (ab s)"
proof (induction n arbitrary: f s)
  case (Suc n)
  obtain r s1 where s1: "check cfg hba 0 d f s = Some (r, s1)" "ab s1 = found_step cfg hba (d, f) (ab s)" using check_ok [OF assms, where cfg = cfg and d = d and f = f and s = s] by blast
  have "map (\<lambda>j. (d, f + of_nat j)) [0..<Suc n] = (d, f) # map (\<lambda>j. (d, f + 1 + of_nat j)) [0..<n]"
    by (simp add: map_upt_Suc ac_simps del: upt_Suc)
  then show ?case using Suc.IH [of "f + 1" s1] s1 by simp
qed simp

lemma device_loop_ok:
  assumes "\<forall>a. length (snd (hba a)) = 32"
  shows "\<exists>s'. device_loop n d cfg hba 0 s = Some (d + of_nat n, s') \<and>
    ab s' = fold (found_step cfg hba) (concat (map (\<lambda>j. map (Pair (d + of_nat j)) (functions_of cfg (d + of_nat j))) [0..<n])) (ab s)"
proof (induction n arbitrary: d s)
  case (Suc n)
  let ?m = "bit (PCIReadRegister cfg 0 d 0 0xC) 23"
  have h: "((ucast (drop_bit 16 (PCIReadRegister cfg 0 d 0 0xC)) :: u8) AND 0x0FF) AND 0x80 \<noteq> 0 \<longleftrightarrow> ?m"
    using and_exp_eq_0_iff_not_bit [of "ucast (drop_bit 16 (PCIReadRegister cfg 0 d 0 0xC)) :: u8" 7]
    by (simp add: bit_ucast_iff bit_drop_bit_eq and.assoc)
  obtain r s1 where s1: "check cfg hba 0 d 0 s = Some (r, s1)" "ab s1 = found_step cfg hba (d, 0) (ab s)" using check_ok [OF assms, where cfg = cfg and d = d and f = 0 and s = s] by blast
  have seven: "map (\<lambda>j. (d, 1 + of_nat j :: u8)) [0..<7] = map (Pair d) [1, 2, 3, 4, 5, 6, 7]" by (simp add: upt_rec)
  obtain s2 where s2: "(if ?m then function_loop 7 1 cfg hba 0 d s1 else Some s1) = Some s2" "ab s2 = fold (found_step cfg hba) (map (Pair d) (functions_of cfg d)) (ab s)"
    using function_loop_ok [OF assms, where n = 7 and f = 1 and cfg = cfg and d = d and s = s1] s1(2) unfolding seven by (cases ?m) (auto simp: functions_of_def)
  have "concat (map (\<lambda>j. map (Pair (d + of_nat j)) (functions_of cfg (d + of_nat j))) [0..<Suc n]) =
      map (Pair d) (functions_of cfg d) @ concat (map (\<lambda>j. map (Pair (d + 1 + of_nat j)) (functions_of cfg (d + 1 + of_nat j))) [0..<n])"
    by (simp add: map_upt_Suc ac_simps del: upt_Suc)
  then show ?case using Suc.IH [of "d + 1" s2] s1(1) s2 unfolding device_loop.simps Let_def h by (simp add: ac_simps)
qed simp

lemma later_buses: "bus_loop n bus 32 cfg hba s = Some s"
  by (induction n arbitrary: bus) simp_all

lemma fold_found: "fold (found_step cfg hba) xs b =
    (if filter (is_disk_controller cfg hba) xs = [] then b else controller_base cfg (last (filter (is_disk_controller cfg hba) xs)))"
  by (induction xs arbitrary: b) (auto simp: found_step_def)

text \<open>
  C39. Which disk controller the kernel uses: the search comes back, and gives the base address of the last function on the first
  bus, in the order of device and function numbers, that is a disk controller with a disk, or leaves the
  address as it was when there is none. Functions 1 to 7 count for multifunction devices only. What other buses hold makes no
  difference, although the code means to look at all 256.
\<close>

theorem find_controller_correct:
  assumes "\<forall>a. length (snd (hba a)) = 32"
  shows "\<exists>s'. PCIFindAHCI cfg hba s = Some (ab s', s') \<and>
    (let found = filter (is_disk_controller cfg hba) (scanned cfg) in
     ab s' = (if found = [] then ab s else PCIReadRegister cfg 0 (fst (last found)) (snd (last found)) 0x24))"
proof -
  obtain s' where "device_loop 32 0 cfg hba 0 s = Some (32, s')" "ab s' = fold (found_step cfg hba) (scanned cfg) (ab s)"
    using device_loop_ok [OF assms, where n = 32 and d = 0 and cfg = cfg and s = s] by (auto simp: scanned_def)
  moreover from this have "bus_loop (Suc 255) 0 0 cfg hba s = Some s'" unfolding bus_loop.simps by (simp add: later_buses)
  ultimately show ?thesis by (simp add: PCIFindAHCI_def fold_found Let_def controller_base_def)
qed

lemma config_address_register: "config_address bus slot func offset AND 0xFF = ucast offset AND 0xfc"
proof (rule bit_word_eqI)
  fix n :: nat assume "n < LENGTH(32)"
  have m: "(0xFF :: u32) = mask 8" "(0xfc :: u32) = push_bit 2 (mask 6)" "(2 ^ 31 :: u32) = 0x80000000"
    by (simp_all add: mask_eq_exp_minus_1 push_bit_eq_mult)
  have h: "bit (0x80000000 :: u32) n \<longleftrightarrow> n = 31" unfolding m(3) [symmetric] bit_exp_iff by auto
  show "bit (config_address bus slot func offset AND 0xFF) n = bit (ucast offset AND 0xfc :: u32) n"
    unfolding config_address_def m(1,2) using h by (auto simp: bit_simps)
qed

definition sample_config :: config_space where
  "sample_config a = (if a AND 0xFF = 0x24 then 0xFEBF0000 else if a AND 0xFF = 8 then 0x01060100 else 0)"

definition sample_hba :: "u32 \<Rightarrow> u32 \<times> hba_port list" where
  \<comment> \<open>A disk at the first of 32 ports.\<close>
  "sample_hba abar = (1, replicate 32 \<lparr>clb = 0, clbu = 0, fb = 0, fbu = 0, port_is = 0, port_ie = 0, port_cmd = 0, port_sig = 0x101,
     port_ssts = 0x103, port_serr = 0, port_sact = 0, port_ci = 0\<rparr>)"

lemma find_controller_correct_witness:
  "\<exists>s'. PCIFindAHCI sample_config sample_hba \<lparr>ab = 0, nic_started = []\<rparr> = Some (0xFEBF0000, s')"
proof -
  have r: "PCIReadRegister sample_config 0 d f n = (if ucast n AND 0xfc = (0x24 :: u32) then 0xFEBF0000 else if ucast n AND 0xfc = (8 :: u32) then 0x01060100 else 0)" for d f n
    by (simp only: PCIReadRegister_def sample_config_def config_address_register)
  have "functions_of sample_config d = [0]" for d by (simp add: functions_of_def r)
  then have s: "scanned sample_config = map (\<lambda>d. (of_nat d, 0)) [0..<32]" by (simp add: scanned_def)
  have "is_disk_controller sample_config sample_hba x" for x
    by (auto simp: is_disk_controller_def r has_disk_def sample_hba_def check_type_def Let_def SATA_SIG_ATAPI_def SATA_SIG_SEMB_def SATA_SIG_PM_def
      drop_bit_eq_div intro!: exI [of _ 0])
  then have "filter (is_disk_controller sample_config sample_hba) (scanned sample_config) = scanned sample_config" by simp
  moreover have "scanned sample_config \<noteq> []" by (simp add: s)
  moreover have "\<forall>a. length (snd (sample_hba a)) = 32" by (simp add: sample_hba_def)
  ultimately show ?thesis using find_controller_correct [of sample_hba sample_config "\<lparr>ab = 0, nic_started = []\<rparr>"] r by (auto simp: Let_def)
qed

end
