(* ===== verification/Nic.thy ===== *)
theory Nic
  imports Net Ring_Queue
begin

text \<open>
  The driver of the network card, i217.cpp. The card's descriptors, like the frames, lie in the bytes of the address space; its
  registers are reached through memory or through two ports, as \<open>bar_type\<close> says, and every access is kept, oldest first. What
  the device answers is part of the state: the values of successive register reads, and of successive reads of the status of a
  descriptor that is being sent; when it never answers as the driver waits for, the result is \<open>None\<close>. The creation of the
  daemon's thread belongs to Threads; what the functions print is left out, and so is the function that the
  source marks as a receive test.
\<close>

subsection \<open>Registers\<close>

datatype nic_access = Mem_Write u32 u32 | Port_Write u16 u32

record nic = net +
  bar_type :: u8
  io_base :: u16
  mem_base :: u32
  eeprom_exists :: bool
  rx_descs :: "ptr list"
  tx_descs :: "ptr list"
  rx_cur :: u16
  tx_cur :: u16
  recv_queue :: "u32 queue_spsc"
  packet_in_process :: bool
  nic_log :: "nic_access list"
  nic_answers :: "u32 list"
  tx_answers :: "u8 list"

definition REG_CTRL :: u16 where "REG_CTRL = 0x0000"
definition REG_EEPROM :: u16 where "REG_EEPROM = 0x0014"
definition REG_IMASK :: u16 where "REG_IMASK = 0x00D0"
definition REG_RCTRL :: u16 where "REG_RCTRL = 0x0100"
definition REG_RXDESCLO :: u16 where "REG_RXDESCLO = 0x2800"
definition REG_RXDESCHI :: u16 where "REG_RXDESCHI = 0x2804"
definition REG_RXDESCLEN :: u16 where "REG_RXDESCLEN = 0x2808"
definition REG_RXDESCHEAD :: u16 where "REG_RXDESCHEAD = 0x2810"
definition REG_RXDESCTAIL :: u16 where "REG_RXDESCTAIL = 0x2818"
definition REG_TCTRL :: u16 where "REG_TCTRL = 0x0400"
definition REG_TXDESCLO :: u16 where "REG_TXDESCLO = 0x3800"
definition REG_TXDESCHI :: u16 where "REG_TXDESCHI = 0x3804"
definition REG_TXDESCLEN :: u16 where "REG_TXDESCLEN = 0x3808"
definition REG_TXDESCHEAD :: u16 where "REG_TXDESCHEAD = 0x3810"
definition REG_TXDESCTAIL :: u16 where "REG_TXDESCTAIL = 0x3818"
definition REG_TIPG :: u16 where "REG_TIPG = 0x0410"
definition RCTL_EN :: u32 where "RCTL_EN = push_bit 1 1"
definition RCTL_SBP :: u32 where "RCTL_SBP = push_bit 2 1"
definition RCTL_UPE :: u32 where "RCTL_UPE = push_bit 3 1"
definition RCTL_MPE :: u32 where "RCTL_MPE = push_bit 4 1"
definition RCTL_LBM_NONE :: u32 where "RCTL_LBM_NONE = push_bit 6 0"
definition RTCL_RDMTS_HALF :: u32 where "RTCL_RDMTS_HALF = push_bit 8 0"
definition RCTL_BAM :: u32 where "RCTL_BAM = push_bit 15 1"
definition RCTL_SECRC :: u32 where "RCTL_SECRC = push_bit 26 1"
definition RCTL_BSIZE_2048 :: u32 where "RCTL_BSIZE_2048 = push_bit 16 0"
definition CTRL_SLU :: u32 where "CTRL_SLU = push_bit 6 1"
definition CMD_EOP :: u8 where "CMD_EOP = push_bit 0 1"
definition CMD_IFCS :: u8 where "CMD_IFCS = push_bit 1 1"
definition CMD_RS :: u8 where "CMD_RS = push_bit 3 1"
definition CMD_RPS :: u8 where "CMD_RPS = push_bit 4 1"
definition TCTL_EN :: u32 where "TCTL_EN = push_bit 1 1"
definition TCTL_PSP :: u32 where "TCTL_PSP = push_bit 3 1"
definition TCTL_RTLC :: u32 where "TCTL_RTLC = push_bit 24 1"
definition E1000_NUM_RX_DESC :: nat where "E1000_NUM_RX_DESC = 32"
definition E1000_NUM_TX_DESC :: nat where "E1000_NUM_TX_DESC = 8"

definition nic_note :: "nic_access list \<Rightarrow> 'a nic_scheme \<Rightarrow> 'a nic_scheme" where
  "nic_note xs s = s\<lparr>nic_log := nic_log s @ xs\<rparr>"

definition e1000_write_command :: "u16 \<Rightarrow> u32 \<Rightarrow> 'a nic_scheme \<Rightarrow> 'a nic_scheme" where
  "e1000_write_command addr value s =
     (if bar_type s = 0 then nic_note [Mem_Write (mem_base s + ucast addr) value] s
      else nic_note [Port_Write (io_base s) (ucast addr), Port_Write (io_base s + 4) value] s)"

definition e1000_read_command :: "u16 \<Rightarrow> 'a nic_scheme \<Rightarrow> (u32 \<times> 'a nic_scheme) option" where
  "e1000_read_command addr s = (
     let s = (if bar_type s = 0 then s else nic_note [Port_Write (io_base s) (ucast addr)] s) in
     case nic_answers s of [] \<Rightarrow> None | x # xs \<Rightarrow> Some (x, s\<lparr>nic_answers := xs\<rparr>))"

subsection \<open>The hardware address\<close>

primrec detect_loop :: "nat \<Rightarrow> 'a nic_scheme \<Rightarrow> 'a nic_scheme option" where
  "detect_loop 0 s = Some s"
| "detect_loop (Suc n) s =
     (if eeprom_exists s then Some s
      else do {
        (val, s) \<leftarrow> e1000_read_command REG_EEPROM s;
        detect_loop n (if val AND 0x10 \<noteq> 0 then s\<lparr>eeprom_exists := True\<rparr> else s)
      })"

definition e1000_detect_eeprom :: "'a nic_scheme \<Rightarrow> (bool \<times> 'a nic_scheme) option" where
  "e1000_detect_eeprom s = do {
     let s = e1000_write_command REG_EEPROM 0x1 s;
     s \<leftarrow> detect_loop 1000 (s\<lparr>eeprom_exists := False\<rparr>);
     Some (eeprom_exists s, s)
   }"

partial_function (option) poll_eeprom :: "u32 \<Rightarrow> 'a nic_scheme \<Rightarrow> (u32 \<times> 'a nic_scheme) option" where
  [code]: "poll_eeprom b s = do {
     (temp, s) \<leftarrow> e1000_read_command REG_EEPROM s;
     if temp AND b = 0 then poll_eeprom b s else Some (temp, s)
   }"

definition e1000_eeprom_read :: "u8 \<Rightarrow> 'a nic_scheme \<Rightarrow> (u32 \<times> 'a nic_scheme) option" where
  "e1000_eeprom_read addr s = do {
     (temp, s) \<leftarrow>
       (if eeprom_exists s then poll_eeprom (push_bit 4 1) (e1000_write_command REG_EEPROM (1 OR push_bit 8 (ucast addr)) s)
        else poll_eeprom (push_bit 1 1) (e1000_write_command REG_EEPROM (1 OR push_bit 2 (ucast addr)) s));
     Some (drop_bit 16 temp AND 0xFFFF, s)
   }"

definition e1000_read_mac_address :: "'a nic_scheme \<Rightarrow> (bool \<times> 'a nic_scheme) option" where
  "e1000_read_mac_address s =
     (if eeprom_exists s then do {
        (a, s) \<leftarrow> e1000_eeprom_read 0 s;
        (b, s) \<leftarrow> e1000_eeprom_read 1 s;
        (c, s) \<leftarrow> e1000_eeprom_read 2 s;
        Some (True, s\<lparr>nic_mac := [ucast a, ucast (drop_bit 8 a), ucast b, ucast (drop_bit 8 b), ucast c, ucast (drop_bit 8 c)]\<rparr>)
      }
      else if read32 (net_bytes s) (mem_base s + 0x5400) \<noteq> 0 then Some (True, s\<lparr>nic_mac := load (net_bytes s) (mem_base s + 0x5400) 6\<rparr>)
      else Some (False, s))"

subsection \<open>Descriptors\<close>

definition write64_low :: "ptr \<Rightarrow> u32 \<Rightarrow> mem \<Rightarrow> mem" where
  \<comment> \<open>A 64-bit field that gets a 32-bit value.\<close>
  "write64_low p v m = write32 (write32 m p v) (p + 4) 0"

primrec rx_loop :: "nat \<Rightarrow> nat \<Rightarrow> physical_addr \<Rightarrow> 'a nic_scheme \<Rightarrow> 'a nic_scheme" where
  \<comment> \<open>\<open>n\<close> descriptors are left, \<open>i\<close> is the next.\<close>
  "rx_loop 0 i base_rx s = s"
| "rx_loop (Suc n) i base_rx s = (
     let p = base_rx + 16 * of_nat i;
         s = s\<lparr>rx_descs := (rx_descs s)[i := p]\<rparr>;
         m = write64_low p (0x360000 + of_nat i * (2048 + 16)) (net_bytes s);
         m = m(p + 12 := 0)
     in rx_loop n (i + 1) base_rx (s\<lparr>net_bytes := m\<rparr>))"

definition rx_init :: "physical_addr \<Rightarrow> 'a nic_scheme \<Rightarrow> 'a nic_scheme" where
  "rx_init base_rx s = (
     let s = rx_loop E1000_NUM_RX_DESC 0 base_rx s;
         s = e1000_write_command REG_RXDESCLO base_rx s;
         s = e1000_write_command REG_RXDESCHI 0 s;
         s = e1000_write_command REG_RXDESCLEN (of_nat E1000_NUM_RX_DESC * 16) s;
         s = e1000_write_command REG_RXDESCHEAD 0 s;
         s = e1000_write_command REG_RXDESCTAIL (of_nat E1000_NUM_RX_DESC - 1) s;
         s = s\<lparr>rx_cur := 0\<rparr>
     in e1000_write_command REG_RCTRL
          (RCTL_EN OR RCTL_SBP OR RCTL_UPE OR RCTL_MPE OR RCTL_LBM_NONE OR RTCL_RDMTS_HALF OR RCTL_BAM OR RCTL_SECRC OR RCTL_BSIZE_2048) s)"

primrec tx_loop :: "nat \<Rightarrow> nat \<Rightarrow> physical_addr \<Rightarrow> 'a nic_scheme \<Rightarrow> 'a nic_scheme" where
  "tx_loop 0 i base_tx s = s"
| "tx_loop (Suc n) i base_tx s = (
     let p = base_tx + of_nat i * 16;
         s = s\<lparr>tx_descs := (tx_descs s)[i := p]\<rparr>;
         m = write64_low p 0 (net_bytes s);
         m = m(p + 11 := 0)
     in tx_loop n (i + 1) base_tx (s\<lparr>net_bytes := m\<rparr>))"

definition tx_init :: "physical_addr \<Rightarrow> 'a nic_scheme \<Rightarrow> 'a nic_scheme" where
  "tx_init base_tx s = (
     let s = tx_loop E1000_NUM_TX_DESC 0 base_tx s;
         s = e1000_write_command REG_TXDESCLO base_tx s;
         s = e1000_write_command REG_TXDESCHI 0 s;
         s = e1000_write_command REG_TXDESCLEN (of_nat E1000_NUM_TX_DESC * 16) s;
         s = e1000_write_command REG_TXDESCHEAD 0 s;
         s = e1000_write_command REG_TXDESCTAIL (of_nat E1000_NUM_TX_DESC) s;
         s = s\<lparr>tx_cur := 0\<rparr>;
         s = e1000_write_command REG_TCTRL (TCTL_EN OR TCTL_PSP OR push_bit 4 15 OR push_bit 12 64 OR TCTL_RTLC) s;
         s = e1000_write_command REG_TCTRL 0x3003F0FA s
     in e1000_write_command REG_TIPG 0x0060200A s)"

subsection \<open>Sending\<close>

fun wait_sent :: "u8 list \<Rightarrow> (u8 \<times> u8 list) option" where
  "wait_sent [] = None"
| "wait_sent (x # xs) = (if x AND 0xf = 0 then wait_sent xs else Some (x, xs))"

definition e1000_send :: "(virtual_addr \<Rightarrow> u32) \<Rightarrow> ptr \<Rightarrow> u16 \<Rightarrow> 'a nic_scheme \<Rightarrow> 'a nic_scheme option" where
  \<comment> \<open>\<open>phys\<close> is \<^verbatim>\<open>vmmngr_get_phys_addr\<close>. The status in memory is what the last read of it showed.\<close>
  "e1000_send phys data p_len s = do {
     d \<leftarrow> array_get (tx_descs s) (tx_cur s);
     let m = write64_low d (phys data) (net_bytes s);
     let m = write16 (d + 8) p_len m;
     let m = m(d + 11 := CMD_EOP OR CMD_IFCS OR CMD_RS OR CMD_RPS);
     let m = m(d + 12 := 0);
     let s = s\<lparr>net_bytes := m, tx_cur := (tx_cur s + 1) mod of_nat E1000_NUM_TX_DESC\<rparr>;
     let s = e1000_write_command REG_TXDESCTAIL (ucast (tx_cur s)) s;
     (x, xs) \<leftarrow> wait_sent (tx_answers s);
     Some (s\<lparr>tx_answers := xs, net_bytes := (net_bytes s)(d + 12 := x)\<rparr>)
   }"

subsection \<open>Receiving\<close>

definition e1000_recv_packet :: "'a nic_scheme \<Rightarrow> 'a nic_scheme option" where
  \<comment> \<open>The end, which wakes the daemon's thread, is \<open>thread_notify\<close> of Scheduler.\<close>
  "e1000_recv_packet s = do {
     let recv_index = (ucast (rx_cur s) :: u32);
     let s = s\<lparr>rx_cur := (rx_cur s + 1) mod of_nat E1000_NUM_RX_DESC\<rparr>;
     let s = e1000_write_command REG_RXDESCTAIL (ucast (rx_cur s)) s;
     (_, q) \<leftarrow> queue_spsc_insert recv_index (recv_queue s);
     Some (s\<lparr>recv_queue := q\<rparr>)
   }"

definition e1000_callback :: "'a nic_scheme \<Rightarrow> 'a nic_scheme option" where
  "e1000_callback s = do {
     (icr, s) \<leftarrow> e1000_read_command 0xC0 s;
     if icr AND 0x80 \<noteq> 0 then e1000_recv_packet s else Some s
   }"

definition recv_one ::
  "(virtual_addr \<Rightarrow> u32) \<Rightarrow> ('a nic_scheme \<Rightarrow> ptr) \<Rightarrow> (ptr \<Rightarrow> 'a nic_scheme \<Rightarrow> (error_t \<times> 'a nic_scheme) option) \<Rightarrow> sock_buf \<Rightarrow> u32 \<Rightarrow> 'a nic_scheme \<Rightarrow> 'a nic_scheme option" where
  \<comment> \<open>One frame: the descriptor's address and length, a socket buffer \<open>new\<close> gives, the stack, and the release. \<open>b0\<close>: the
     uninitialised socket buffer.\<close>
  "recv_one phys new free b0 pkt_ind s = do {
     d \<leftarrow> array_get (rx_descs s) pkt_ind;
     let pkt = read32 (net_bytes s) d;
     let pktlen = read16 (net_bytes s) (d + 8);
     let (_, buffer, s) = sock_buf_init_recv (new s) (ucast pktlen) pkt b0 s;
     (buffer, s) \<leftarrow> eth_recv (e1000_send phys) buffer s;
     (_, s) \<leftarrow> sock_buf_release free buffer s;
     Some (s\<lparr>packet_in_process := False\<rparr>)
   }"

partial_function (option) e1000_recv_defered ::
  "(virtual_addr \<Rightarrow> u32) \<Rightarrow> ('a nic_scheme \<Rightarrow> ptr) \<Rightarrow> (ptr \<Rightarrow> 'a nic_scheme \<Rightarrow> (error_t \<times> 'a nic_scheme) option) \<Rightarrow> sock_buf \<Rightarrow> 'a nic_scheme \<Rightarrow> 'a nic_scheme option" where
  \<comment> \<open>One round of the daemon, until the queue is empty; the source then looks again.\<close>
  [code]: "e1000_recv_defered phys new free b0 s =
     (if queue_spsc_is_empty (recv_queue s) then Some s
      else do {
        let s = s\<lparr>packet_in_process := True\<rparr>;
        pkt_ind \<leftarrow> queue_spsc_peek 0 (recv_queue s);
        (_, q) \<leftarrow> queue_spsc_remove (recv_queue s);
        s \<leftarrow> recv_one phys new free b0 pkt_ind (s\<lparr>recv_queue := q\<rparr>);
        e1000_recv_defered phys new free b0 s
      })"

subsection \<open>Start\<close>

definition e1000_enable_interrupts :: "'a nic_scheme \<Rightarrow> 'a nic_scheme option" where
  \<comment> \<open>The handler of interrupt 42 is entered as Interrupts has it.\<close>
  "e1000_enable_interrupts s = do {
     let s = e1000_write_command REG_IMASK 0x1F6DC s;
     let s = e1000_write_command REG_IMASK (0xff AND NOT 4) s;
     (_, s) \<leftarrow> e1000_read_command 0xc0 s;
     Some s
   }"

primrec multicast_loop :: "nat \<Rightarrow> nat \<Rightarrow> 'a nic_scheme \<Rightarrow> 'a nic_scheme" where
  "multicast_loop 0 i s = s"
| "multicast_loop (Suc n) i s = multicast_loop n (i + 1) (e1000_write_command (0x5200 + of_nat i * 4) 0 s)"

definition e1000_start :: "u8 \<Rightarrow> u32 \<Rightarrow> physical_addr \<Rightarrow> u32 list \<Rightarrow> 'a nic_scheme \<Rightarrow> 'a nic_scheme option" where
  \<comment> \<open>\<open>cells\<close>: the memory the queue gets. The parameter \<^verbatim>\<open>rx_base\<close> is not used. The state holds the new device's fields as the
     allocator leaves them.\<close>
  "e1000_start bar mbase tx_base cells s = do {
     let s = s\<lparr>bar_type := bar, mem_base := mbase\<rparr>;
     (_, s) \<leftarrow> e1000_detect_eeprom s;
     (_, s) \<leftarrow> e1000_read_mac_address s;
     (ctrl, s) \<leftarrow> e1000_read_command REG_CTRL s;
     let s = e1000_write_command REG_CTRL (ctrl OR CTRL_SLU) s;
     let s = multicast_loop 0x80 0 s;
     let s = s\<lparr>recv_queue := queue_spsc_init 32 cells\<rparr>;
     s \<leftarrow> e1000_enable_interrupts s;
     Some (tx_init tx_base (rx_init 0x350000 s))
   }"

end
