(* ===== verification/Nic_Facts.thy ===== *)
theory Nic_Facts
  imports Nic Net_Facts
begin

text \<open>
  What the network card's driver does with the stack above it: a request that arrives is answered, from the card's interrupt to
  the descriptor of the reply. The receive ring's buffers do not overlap.
\<close>

subsection \<open>Sending\<close>

lemma wait_sent_ok: "x AND 0xf \<noteq> 0 \<Longrightarrow> wait_sent (replicate k 0 @ x # xs) = Some (x, xs)"
  by (induction k) simp_all

definition off16 :: "ptr \<Rightarrow> u32 \<Rightarrow> bool" where
  \<comment> \<open>The address is not in the descriptor at \<open>t\<close>.\<close>
  "off16 t a \<longleftrightarrow> 16 \<le> unat (a - t)"

lemma off16_ne: "off16 t a \<Longrightarrow> j < 16 \<Longrightarrow> a \<noteq> t + of_nat j"
  by (auto simp: off16_def unat_of_nat_u32)

definition sent_descriptor :: "ptr \<Rightarrow> u32 \<Rightarrow> u16 \<Rightarrow> u8 \<Rightarrow> mem \<Rightarrow> mem" where
  "sent_descriptor t p n x m = (write16 (t + 8) n (write64_low t p m))(t + 11 := 0x1B, t + 12 := x)"

lemma sent_descriptor_reads:
  "read32 (sent_descriptor t p n x m) t = p" "read16 (sent_descriptor t p n x m) (t + 8) = n" "sent_descriptor t p n x m (t + 11) = 0x1B"
  "off16 t a \<Longrightarrow> sent_descriptor t p n x m a = m a"
proof -
  let ?m = "write32 m t p"
  have "read32 (sent_descriptor t p n x m) t = read32 ?m t"
    by (rule read32_cong) (auto simp: sent_descriptor_def write64_low_def write16_def write32_other)
  then show "read32 (sent_descriptor t p n x m) t = p" by simp
  have "read16 (sent_descriptor t p n x m) (t + 8) = read16 (write16 (t + 8) n (write64_low t p m)) (t + 8)"
    by (simp add: sent_descriptor_def read16_def)
  then show "read16 (sent_descriptor t p n x m) (t + 8) = n" by simp
  show "sent_descriptor t p n x m (t + 11) = 0x1B" by (simp add: sent_descriptor_def)
  show "off16 t a \<Longrightarrow> sent_descriptor t p n x m a = m a"
    using off16_ne [of t a 0] off16_ne [of t a 1] off16_ne [of t a 2] off16_ne [of t a 3] off16_ne [of t a 4] off16_ne [of t a 5]
      off16_ne [of t a 6] off16_ne [of t a 7] off16_ne [of t a 8] off16_ne [of t a 9] off16_ne [of t a 11] off16_ne [of t a 12]
    by (simp add: sent_descriptor_def write64_low_def write16_def write32_other add.assoc)
qed

lemma e1000_send_ok:
  assumes "bar_type s = 0" and "unat (tx_cur s) < length (tx_descs s)" and "tx_answers s = replicate k 0 @ x # xs" and "x AND 0xf \<noteq> 0"
  shows "e1000_send phys data n s = Some (s\<lparr>net_bytes := sent_descriptor (tx_descs s ! unat (tx_cur s)) (phys data) n x (net_bytes s),
    tx_cur := (tx_cur s + 1) mod 8, tx_answers := xs, nic_log := nic_log s @ [Mem_Write (mem_base s + 0x3818) (ucast ((tx_cur s + 1) mod 8))]\<rparr>)"
  using assms wait_sent_ok [OF assms(4), of k xs]
  by (simp add: e1000_send_def array_get_def Let_def e1000_write_command_def nic_note_def E1000_NUM_TX_DESC_def REG_TXDESCTAIL_def sent_descriptor_def
    CMD_EOP_def CMD_IFCS_def CMD_RS_def CMD_RPS_def)

subsection \<open>Receiving\<close>

lemma callback_ok:
  assumes "bar_type s = 0" and "nic_answers s = icr # rest" and "icr AND 0x80 \<noteq> 0" and "spsc_ok (recv_queue s)"
    and "length (spsc_contents (recv_queue s)) + 1 < unat (max_count (recv_queue s))"
  shows "\<exists>q. e1000_callback s = Some (s\<lparr>nic_answers := rest, rx_cur := (rx_cur s + 1) mod 32,
      nic_log := nic_log s @ [Mem_Write (mem_base s + 0x2818) (ucast ((rx_cur s + 1) mod 32))], recv_queue := q\<rparr>) \<and>
    spsc_ok q \<and> spsc_contents q = spsc_contents (recv_queue s) @ [ucast (rx_cur s)]"
proof -
  obtain q where "queue_spsc_insert (ucast (rx_cur s)) (recv_queue s) = Some (True, q)" "spsc_ok q"
    "spsc_contents q = spsc_contents (recv_queue s) @ [ucast (rx_cur s)]"
    using queue_spsc_insert_ok [OF assms(4), of "ucast (rx_cur s)"] assms(5) by auto
  then show ?thesis using assms(1-3)
    by (auto simp: e1000_callback_def e1000_read_command_def e1000_recv_packet_def e1000_write_command_def nic_note_def Let_def
      E1000_NUM_RX_DESC_def REG_RXDESCTAIL_def)
qed

lemma length_arp_frame:
  "length dest = 6 \<Longrightarrow> length src = 6 \<Longrightarrow> length sha = 6 \<Longrightarrow> length spa = 4 \<Longrightarrow> length tha = 6 \<Longrightarrow> length tpa = 4 \<Longrightarrow>
   length (arp_frame dest src hl opcode sha spa tha tpa) = 42"
  by (simp add: arp_frame_def)

lemma load_cong: "(\<And>i. i < n \<Longrightarrow> m (a + of_nat i) = m' (b + of_nat i)) \<Longrightarrow> load m a n = load m' b n"
  by (simp add: load_def)

lemma recv_request:
  assumes d: "unat i < length (rx_descs s)" "read32 (net_bytes s) (rx_descs s ! unat i) = pkt" "read16 (net_bytes s) (rx_descs s ! unat i + 8) = 42"
    and f: "load (net_bytes s) pkt 42 = arp_frame dest src hl 1 sha spa tha my_ip" "dest = nic_mac s \<or> dest = mac_broadcast"
    and len: "length dest = 6" "length src = 6" "length sha = 6" "length spa = 4" "length tha = 6" "length (nic_mac s) = 6"
    and a: "\<forall>s. new s = a" "a \<noteq> 0" "\<forall>s. free a s = Some (ERROR_OK, s)" "no_clobber 42 a pkt"
    and t: "bar_type s = 0" "unat (tx_cur s) < length (tx_descs s)" "\<forall>j < 42. off16 (tx_descs s ! unat (tx_cur s)) (a + of_nat j)"
    and x: "tx_answers s = replicate k 0 @ x # xs" "x AND 0xf \<noteq> 0"
  shows "\<exists>s'. recv_one phys new free b0 i s = Some s' \<and> load (net_bytes s') a 42 = arp_frame src (nic_mac s) 6 2 (nic_mac s) my_ip src spa \<and>
    read32 (net_bytes s') (tx_descs s ! unat (tx_cur s)) = phys a \<and> read16 (net_bytes s') (tx_descs s ! unat (tx_cur s) + 8) = 42 \<and>
    net_bytes s' (tx_descs s ! unat (tx_cur s) + 11) = 0x1B \<and> recv_queue s' = recv_queue s \<and> rx_cur s' = rx_cur s \<and>
    nic_log s' = nic_log s @ [Mem_Write (mem_base s + 0x3818) (ucast ((tx_cur s + 1) mod 8))] \<and> tx_cur s' = (tx_cur s + 1) mod 8"
proof -
  let ?t = "tx_descs s ! unat (tx_cur s)" and ?R = "arp_frame src (nic_mac s) 6 2 (nic_mac s) my_ip src spa"
  let ?buf = "b0\<lparr>sb_head := a, sb_data := a, sb_tail := a + 42, sb_dst_addrs := replicate 4 (replicate 16 0), sb_src_addrs := replicate 4 (replicate 16 0)\<rparr>"
  define s1 where "s1 = s\<lparr>sock_ind := sock_ind s + 1, net_bytes := memcpy a pkt 42 (net_bytes s)\<rparr>"
  have i: "sock_buf_init_recv (new s) (ucast (42 :: u16)) pkt b0 s = (ERROR_OK, ?buf, s1)"
    using a(1,2) by (simp add: sock_buf_init_recv_def sock_buf_init_def Let_def s1_def ERROR_OK_def ERROR_OCCUR_def)
  have "load (net_bytes s1) a 42 = load (net_bytes s) pkt 42"
    by (rule load_cong) (use memcpy_ok [of 42 a pkt] a(4) in \<open>simp add: s1_def unat_of_nat_u32\<close>)
  then have fr: "load (net_bytes s1) (sb_head ?buf) 42 = arp_frame dest src hl 1 sha spa tha my_ip" using f(1) by simp
  have ml: "length my_ip = 4" by (simp add: my_ip_def)
  have l1: "length (nic_mac s1) = 6" using len(6) by (simp add: s1_def)
  have fb: "fresh_buf ?buf" by (simp add: fresh_buf_def)
  define s2 where "s2 = s1\<lparr>net_bytes := store a ?R (net_bytes s1)\<rparr>"
  obtain b2 where b2: "sb_head b2 = a" "eth_recv (e1000_send phys) ?buf s1 = map_option (Pair b2) (e1000_send phys a 42 s2)"
    using arp_exchange [OF fr len(1-5) ml l1 fb, of "e1000_send phys"] f(2) by (auto simp: s2_def s1_def)
  define s3 where "s3 = s2\<lparr>net_bytes := sent_descriptor ?t (phys a) 42 x (net_bytes s2), tx_cur := (tx_cur s + 1) mod 8, tx_answers := xs,
    nic_log := nic_log s @ [Mem_Write (mem_base s + 0x3818) (ucast ((tx_cur s + 1) mod 8))]\<rparr>"
  have "e1000_send phys a 42 s2 = Some s3"
    using e1000_send_ok [of s2 k x xs phys a 42] t(1,2) x by (simp add: s3_def s2_def s1_def)
  then have run: "recv_one phys new free b0 i s = Some (s3\<lparr>packet_in_process := False\<rparr>)"
    using d i b2 a(3) by (simp add: recv_one_def array_get_def Let_def sock_buf_release_def)
  have "load (net_bytes s3) a 42 = load (store a ?R (net_bytes s1)) a 42"
    by (rule load_cong) (use t(3) in \<open>simp add: s3_def s2_def sent_descriptor_reads(4)\<close>)
  moreover have "length ?R = 42" by (rule length_arp_frame) (use len ml in simp_all)
  then have "load (store a ?R (net_bytes s1)) a 42 = ?R" using load_stored [of ?R a "net_bytes s1"] by simp
  ultimately have "load (net_bytes s3) a 42 = ?R" by simp
  then show ?thesis using run sent_descriptor_reads(1-3) by (simp add: s3_def s2_def s1_def)
qed

text \<open>
  C40. A request for our address, from the card to the card: the frame lies in the buffer of the current receive descriptor when the card
  interrupts. The handler moves the receive ring on and queues the descriptor; the daemon takes it from the queue, copies
  the frame into a socket buffer and hands it to the stack; and the card is given the next transmit descriptor, with the
  address and length of the reply, which has our hardware address in it and goes to the sender. The queue is empty again.
\<close>

theorem request_reaches_card:
  assumes card: "bar_type s = 0" "nic_answers s = icr # rest" "icr AND 0x80 \<noteq> 0"
    and q: "spsc_ok (recv_queue s)" "spsc_contents (recv_queue s) = []" "1 < unat (max_count (recv_queue s))"
    and d: "unat (rx_cur s) < length (rx_descs s)" "read32 (net_bytes s) (rx_descs s ! unat (rx_cur s)) = pkt"
      "read16 (net_bytes s) (rx_descs s ! unat (rx_cur s) + 8) = 42"
    and f: "load (net_bytes s) pkt 42 = arp_frame dest src hl 1 sha spa tha my_ip" "dest = nic_mac s \<or> dest = mac_broadcast"
    and len: "length dest = 6" "length src = 6" "length sha = 6" "length spa = 4" "length tha = 6" "length (nic_mac s) = 6"
    and a: "\<forall>s. new s = a" "a \<noteq> 0" "\<forall>s. free a s = Some (ERROR_OK, s)" "no_clobber 42 a pkt"
    and t: "unat (tx_cur s) < length (tx_descs s)" "\<forall>j < 42. off16 (tx_descs s ! unat (tx_cur s)) (a + of_nat j)"
    and x: "tx_answers s = replicate k 0 @ x # xs" "x AND 0xf \<noteq> 0"
  shows "\<exists>s1 s2. e1000_callback s = Some s1 \<and> e1000_recv_defered phys new free b0 s1 = Some s2 \<and>
    load (net_bytes s2) a 42 = arp_frame src (nic_mac s) 6 2 (nic_mac s) my_ip src spa \<and>
    read32 (net_bytes s2) (tx_descs s ! unat (tx_cur s)) = phys a \<and> read16 (net_bytes s2) (tx_descs s ! unat (tx_cur s) + 8) = 42 \<and>
    net_bytes s2 (tx_descs s ! unat (tx_cur s) + 11) = 0x1B \<and>
    spsc_contents (recv_queue s2) = [] \<and> rx_cur s2 = (rx_cur s + 1) mod 32 \<and> tx_cur s2 = (tx_cur s + 1) mod 8 \<and>
    nic_log s2 = nic_log s @ [Mem_Write (mem_base s + 0x2818) (ucast ((rx_cur s + 1) mod 32)), Mem_Write (mem_base s + 0x3818) (ucast ((tx_cur s + 1) mod 8))]"
proof -
  obtain q1 where cb: "e1000_callback s = Some (s\<lparr>nic_answers := rest, rx_cur := (rx_cur s + 1) mod 32,
      nic_log := nic_log s @ [Mem_Write (mem_base s + 0x2818) (ucast ((rx_cur s + 1) mod 32))], recv_queue := q1\<rparr>)" (is "_ = Some ?s1")
    and q1: "spsc_ok q1" "spsc_contents q1 = [ucast (rx_cur s)]"
    using callback_ok [OF card q(1)] q(2,3) by auto
  obtain q2 where q2: "queue_spsc_remove q1 = Some (True, q2)" "spsc_ok q2" "spsc_contents q2 = []"
    using queue_spsc_remove_ok [OF q1(1)] q1(2) by auto
  have p: "queue_spsc_peek 0 q1 = Some (ucast (rx_cur s))" using queue_spsc_peek_ok [OF q1(1), of 0] q1(2) by auto
  have e: "\<not> queue_spsc_is_empty q1" "queue_spsc_is_empty q2"
    using queue_spsc_is_empty_ok [OF q1(1)] queue_spsc_is_empty_ok [OF q2(2)] q1(2) q2(3) by simp_all
  let ?r = "?s1\<lparr>packet_in_process := True, recv_queue := q2\<rparr>"
  have u: "unat (ucast (rx_cur s) :: u32) = unat (rx_cur s)"
    using unsigned_less [of "rx_cur s", where ?'a = nat] by (simp add: unsigned_ucast_eq take_bit_nat_eq_self)
  obtain s2 where s2: "recv_one phys new free b0 (ucast (rx_cur s)) ?r = Some s2"
    "load (net_bytes s2) a 42 = arp_frame src (nic_mac s) 6 2 (nic_mac s) my_ip src spa"
    "read32 (net_bytes s2) (tx_descs s ! unat (tx_cur s)) = phys a" "read16 (net_bytes s2) (tx_descs s ! unat (tx_cur s) + 8) = 42"
    "net_bytes s2 (tx_descs s ! unat (tx_cur s) + 11) = 0x1B" "recv_queue s2 = q2" "rx_cur s2 = (rx_cur s + 1) mod 32" "tx_cur s2 = (tx_cur s + 1) mod 8"
    "nic_log s2 = nic_log s @ [Mem_Write (mem_base s + 0x2818) (ucast ((rx_cur s + 1) mod 32)), Mem_Write (mem_base s + 0x3818) (ucast ((tx_cur s + 1) mod 8))]"
    using recv_request [of "ucast (rx_cur s)" ?r pkt dest src hl sha spa tha new a free k x xs phys b0] d f len a t x card(1) u by auto
  have "e1000_recv_defered phys new free b0 s2 = Some s2"
    using e(2) s2(6) by (subst e1000_recv_defered.simps) simp
  then have "e1000_recv_defered phys new free b0 ?s1 = Some s2"
    using e(1) p q2(1) s2(1) by (subst e1000_recv_defered.simps) simp
  then show ?thesis using cb s2 q2(3) by auto
qed

definition sample_frame :: bytes where
  "sample_frame = arp_frame mac_broadcast [1, 2, 3, 4, 5, 6] 6 1 [1, 2, 3, 4, 5, 6] [192, 168, 1, 1] (replicate 6 0) my_ip"

definition sample_nic :: nic where
  \<comment> \<open>A request in the buffer at 0x1000 of the only receive descriptor, at 0x100; the transmit descriptor is at 0x200.\<close>
  "sample_nic = \<lparr>net_bytes = store 0x1000 sample_frame (write16 0x108 42 (write32 (\<lambda>_. 0) 0x100 0x1000)), nic_mac = [9, 8, 7, 6, 5, 4],
     net_layers = [], sock_ind = 0, udp_recved = 0, bar_type = 0, io_base = 0, mem_base = 0xFEB00000, eeprom_exists = True, rx_descs = [0x100], tx_descs = [0x200],
     rx_cur = 0, tx_cur = 0, recv_queue = \<lparr>buffer = [0, 0], max_count = 2, head_index = 0, tail_index = 0\<rparr>, packet_in_process = False,
     nic_log = [], nic_answers = [0x80], tx_answers = [0, 0, 1]\<rparr>"

lemma request_reaches_card_witness:
  "\<exists>s1 s2. e1000_callback sample_nic = Some s1 \<and>
     e1000_recv_defered (\<lambda>v. v + 0x100000) (\<lambda>_. 0x2000) (\<lambda>p s. Some (ERROR_OK, s)) request_buf s1 = Some s2 \<and>
     read32 (net_bytes s2) 0x200 = 0x102000 \<and> load (net_bytes s2) 0x2000 6 = [1, 2, 3, 4, 5, 6]"
proof -
  have fl: "length sample_frame = 42" by (simp add: sample_frame_def length_arp_frame mac_broadcast_def my_ip_def)
  have at: "net_bytes sample_nic a = write16 0x108 42 (write32 (\<lambda>_. 0) 0x100 0x1000) a" if "42 \<le> unat (a - 0x1000)" for a
    using that fl by (simp add: sample_nic_def store_at)
  have d: "read32 (net_bytes sample_nic) 0x100 = 0x1000" "read16 (net_bytes sample_nic) 0x108 = 42"
  proof -
    have "read32 (net_bytes sample_nic) 0x100 = read32 (write32 (\<lambda>_. 0) 0x100 0x1000) 0x100"
      by (rule read32_cong) (auto simp: at write16_def)
    then show "read32 (net_bytes sample_nic) 0x100 = 0x1000" by simp
    have "read16 (net_bytes sample_nic) 0x108 = read16 (write16 0x108 42 (write32 (\<lambda>_. 0) 0x100 0x1000)) 0x108"
      by (simp add: read16_def at)
    then show "read16 (net_bytes sample_nic) 0x108 = 42" by simp
  qed
  have f: "load (net_bytes sample_nic) 0x1000 42 = sample_frame"
    using load_stored [of sample_frame "0x1000"] fl by (simp add: sample_nic_def)
  have c: "no_clobber 42 0x2000 0x1000"
    unfolding no_clobber_def
  proof (intro allI impI)
    fix i j :: nat assume "i < j" "j < 42"
    then have "(of_nat (0x2000 + i) :: u32) \<noteq> of_nat (0x1000 + j)" using of_nat_u32_inj [of "0x2000 + i" "0x1000 + j"] by simp
    then show "0x2000 + of_nat i \<noteq> (0x1000 :: u32) + of_nat j" by simp
  qed
  have o: "\<forall>j < 42. off16 0x200 (0x2000 + of_nat j)"
  proof (intro allI impI)
    fix j :: nat assume "j < 42"
    then have "unat (of_nat (0x1E00 + j) :: u32) = 0x1E00 + j" by (intro unat_of_nat_u32) simp
    moreover have "0x2000 + of_nat j - 0x200 = (of_nat (0x1E00 + j) :: u32)" by simp
    ultimately show "off16 0x200 (0x2000 + of_nat j)" unfolding off16_def by (simp only:)
  qed
  have n: "unat (rx_cur sample_nic) = 0" "rx_descs sample_nic ! 0 = 0x100" "tx_descs sample_nic ! 0 = 0x200" "unat (tx_cur sample_nic) = 0"
    by (simp_all add: sample_nic_def)
  have x: "tx_answers sample_nic = replicate 2 0 @ 1 # []" by (simp add: sample_nic_def numeral_2_eq_2)
  have q: "spsc_ok (recv_queue sample_nic)" "spsc_contents (recv_queue sample_nic) = []"
    by (simp_all add: sample_nic_def spsc_ok_def spsc_contents_def ring_def)
  obtain s1 s2 where s: "e1000_callback sample_nic = Some s1"
    "e1000_recv_defered (\<lambda>v. v + 0x100000) (\<lambda>_. 0x2000) (\<lambda>p s. Some (ERROR_OK, s)) request_buf s1 = Some s2"
    "load (net_bytes s2) 0x2000 42 = arp_frame [1, 2, 3, 4, 5, 6] (nic_mac sample_nic) 6 2 (nic_mac sample_nic) my_ip [1, 2, 3, 4, 5, 6] [192, 168, 1, 1]"
    "read32 (net_bytes s2) 0x200 = 0x2000 + 0x100000"
    using request_reaches_card [of sample_nic "0x80" "[]" "0x1000" mac_broadcast "[1, 2, 3, 4, 5, 6]" 6 "[1, 2, 3, 4, 5, 6]" "[192, 168, 1, 1]" "replicate 6 0"
      "\<lambda>_. 0x2000" "0x2000" "\<lambda>p s. Some (ERROR_OK, s)" 2 1 "[]" "\<lambda>v. v + 0x100000" request_buf] d f c o x q n
    by (simp add: sample_frame_def mac_broadcast_def) (simp add: sample_nic_def, blast)
  have "take 6 (load (net_bytes s2) 0x2000 42) = load (net_bytes s2) 0x2000 6" by (simp add: load_def take_map)
  then have "load (net_bytes s2) 0x2000 6 = [1, 2, 3, 4, 5, 6]" using s(3) by (simp add: arp_frame_def)
  then show ?thesis using s(1,2,4) by auto
qed

subsection \<open>The receive ring\<close>

lemma off16_of_nat: "j < i \<or> 16 \<le> j - i \<Longrightarrow> i < 2 ^ 31 \<Longrightarrow> j < 2 ^ 31 \<Longrightarrow> off16 (base + of_nat i) (base + of_nat j)"
proof (cases "j < i")
  case True
  assume "i < 2 ^ 31" "j < 2 ^ 31"
  then have "unat (of_nat j - of_nat i :: u32) = 2 ^ 32 - (i - j)" using True
    by (simp add: unat_sub_if_size word_size unat_of_nat_u32 word_le_nat_alt)
  then show ?thesis using \<open>i < 2 ^ 31\<close> by (simp add: off16_def)
next
  case False
  assume "j < i \<or> 16 \<le> j - i" "i < 2 ^ 31" "j < 2 ^ 31"
  moreover have "base + of_nat j - (base + of_nat i) = (of_nat (j - i) :: u32)" using False by (simp add: of_nat_diff)
  moreover have "unat (of_nat (j - i) :: u32) = j - i" using \<open>j < 2 ^ 31\<close> by (intro unat_of_nat_u32) simp
  ultimately show ?thesis using False unfolding off16_def by (simp only:) simp
qed

definition rx_step :: "nat \<Rightarrow> physical_addr \<Rightarrow> mem \<Rightarrow> mem" where
  "rx_step i base m = (write64_low (base + 16 * of_nat i) (0x360000 + of_nat i * (2048 + 16)) m)(base + 16 * of_nat i + 12 := 0)"

lemma rx_step_ok:
  "read32 (rx_step i base m) (base + 16 * of_nat i) = 0x360000 + of_nat (2064 * i)" "rx_step i base m (base + 16 * of_nat i + 12) = 0"
  "off16 (base + 16 * of_nat i) a \<Longrightarrow> rx_step i base m a = m a"
proof -
  let ?p = "base + 16 * of_nat i"
  have "read32 (rx_step i base m) ?p = read32 (write32 m ?p (0x360000 + of_nat i * (2048 + 16))) ?p"
    by (rule read32_cong) (auto simp: rx_step_def write64_low_def write32_other)
  then show "read32 (rx_step i base m) ?p = 0x360000 + of_nat (2064 * i)" by (simp add: mult.commute)
  show "rx_step i base m (?p + 12) = 0" by (simp add: rx_step_def)
  show "off16 ?p a \<Longrightarrow> rx_step i base m a = m a"
    using off16_ne [of ?p a 0] off16_ne [of ?p a 1] off16_ne [of ?p a 2] off16_ne [of ?p a 3] off16_ne [of ?p a 4] off16_ne [of ?p a 5]
      off16_ne [of ?p a 6] off16_ne [of ?p a 7] off16_ne [of ?p a 12]
    by (simp add: rx_step_def write64_low_def write32_other add.assoc)
qed

lemma rx_loop_ok:
  assumes "i + n \<le> length (rx_descs s)" and "i + n \<le> 32"
  shows "net_bytes (rx_loop n i base s) = fold (\<lambda>j. rx_step j base) [i..<i + n] (net_bytes s) \<and>
    rx_descs (rx_loop n i base s) = take i (rx_descs s) @ map (\<lambda>j. base + 16 * of_nat j) [i..<i + n] @ drop (i + n) (rx_descs s)"
  using assms
proof (induction n arbitrary: i s)
  case (Suc n)
  let ?p = "base + 16 * of_nat i"
  let ?s = "s\<lparr>rx_descs := (rx_descs s)[i := ?p], net_bytes := rx_step i base (net_bytes s)\<rparr>"
  have r: "rx_loop (Suc n) i base s = rx_loop n (Suc i) base ?s" by (simp add: Let_def rx_step_def)
  have u: "[i..<i + Suc n] = i # [Suc i..<Suc i + n]" by (simp add: upt_rec)
  have "take (Suc i) ((rx_descs s)[i := ?p]) = take i (rx_descs s) @ [?p]" using Suc.prems by (simp add: take_Suc_conv_app_nth)
  then show ?case using Suc.IH [of "Suc i" ?s] Suc.prems unfolding r u by simp
qed simp

lemma fold_rx_step:
  assumes "k \<le> 32" and "j < 32" and "l < 16"
  shows "fold (\<lambda>j. rx_step j base) [0..<k] m (base + 16 * of_nat j + of_nat l) =
    (if j < k then rx_step j base m (base + 16 * of_nat j + of_nat l) else m (base + 16 * of_nat j + of_nat l))"
  using assms(1)
proof (induction k)
  case (Suc k)
  let ?f = "fold (\<lambda>j. rx_step j base) [0..<k] m" and ?a = "base + 16 * of_nat j + of_nat l"
  have o: "off16 (base + 16 * of_nat k) ?a" if "j \<noteq> k"
  proof -
    have "16 * j + l < 16 * k \<or> 16 \<le> 16 * j + l - 16 * k" "16 * k < 2 ^ 31" "16 * j + l < 2 ^ 31" using that assms(2,3) Suc.prems by auto
    from off16_of_nat [OF this, of base] show ?thesis by (simp add: add.assoc)
  qed
  show ?case
  proof (cases "j = k")
    case True
    have "?f ?a = m ?a" using Suc True by simp
    then have "rx_step k base ?f ?a = rx_step k base m ?a" by (simp add: rx_step_def write64_low_def write32_def)
    then show ?thesis using True by simp
  next
    case False
    then show ?thesis using Suc rx_step_ok(3) [OF o] by (auto simp: less_Suc_eq)
  qed
qed simp

text \<open>
  The receive ring after initialisation: descriptor \<open>i\<close> lies at the base plus \<open>16 * i\<close>, is not done, and has its own buffer of 2064 bytes from
  0x360000 on; the buffers do not overlap. The card is told that all but the last descriptor are its own.
\<close>

lemma rx_ring_ready:
  assumes "length (rx_descs s) = 32" and "bar_type s = 0"
  shows "length (rx_descs (rx_init base s)) = 32 \<and> rx_cur (rx_init base s) = 0 \<and>
    Mem_Write (mem_base s + 0x2818) 31 \<in> set (nic_log (rx_init base s)) \<and>
    (\<forall>i < 32. rx_descs (rx_init base s) ! i = base + 16 * of_nat i \<and> net_bytes (rx_init base s) (base + 16 * of_nat i + 12) = 0 \<and>
       read32 (net_bytes (rx_init base s)) (base + 16 * of_nat i) = 0x360000 + of_nat (2064 * i))"
proof -
  let ?s = "rx_loop 32 0 base s"
  note l = rx_loop_ok [of 0 32 s base, unfolded assms(1), simplified]
  have nb: "net_bytes (e1000_write_command r v t) = net_bytes t" "rx_descs (e1000_write_command r v t) = rx_descs t"
    "rx_cur (e1000_write_command r v t) = rx_cur t" for r v and t :: "'a nic_scheme"
    by (auto simp: e1000_write_command_def nic_note_def)
  have keep: "bar_type (rx_loop n i base t) = bar_type t" "mem_base (rx_loop n i base t) = mem_base t" for n i and t :: "'a nic_scheme"
    by (induction n arbitrary: i t) (simp_all add: Let_def)
  have fin: "net_bytes (rx_init base s) = net_bytes ?s" "rx_descs (rx_init base s) = rx_descs ?s" "rx_cur (rx_init base s) = 0"
    by (simp_all add: rx_init_def Let_def nb E1000_NUM_RX_DESC_def)
  have m: "net_bytes ?s (base + 16 * of_nat j + of_nat k) = rx_step j base (net_bytes s) (base + 16 * of_nat j + of_nat k)" if "j < 32" "k < 16" for j k
    using l fold_rx_step [of 32 j k base "net_bytes s"] that by simp
  have "read32 (net_bytes ?s) (base + 16 * of_nat i) = 0x360000 + of_nat (2064 * i) \<and> net_bytes ?s (base + 16 * of_nat i + 12) = 0" if "i < 32" for i
  proof -
    have "read32 (net_bytes ?s) (base + 16 * of_nat i) = read32 (rx_step i base (net_bytes s)) (base + 16 * of_nat i)"
      using m [OF that, of 0] m [OF that, of 1] m [OF that, of 2] m [OF that, of 3] by (simp add: read32_def)
    then show ?thesis using rx_step_ok(1,2) m [OF that, of 12] by simp
  qed
  moreover have "Mem_Write (mem_base s + 0x2818) 31 \<in> set (nic_log (rx_init base s))"
    by (simp add: rx_init_def Let_def e1000_write_command_def nic_note_def keep assms(2) E1000_NUM_RX_DESC_def REG_RXDESCTAIL_def)
  ultimately show ?thesis using l fin assms(1) by (simp add: nth_append)
qed

end
