(* ===== verification/Spec2Isabelle.thy ===== *)
theory Spec2Isabelle
  imports Single_List Ring_Queue Heap_Service Paging Vm_Contract Scheduler Fat32_Free Net_Facts Keyboard_Facts Pe_Facts Threads_Facts Pipe Descriptors Interrupts Serial Ahci_Facts Text_Screen Timers Pci Nic_Facts
begin

text \<open>
  A verification development for MeOS, a 32-bit x86 kernel written in C and C++ (src/MeOS). It models
  the kernel's data structures, memory management, processes, file system, drivers and network stack as
  executable functions on explicit states, and proves what each component promises, or, where the
  code does something else, what it really does.

  \<^bold>\<open>How the program is put together.\<close> The physical memory manager hands out blocks of 4 KB; the virtual
  memory manager maps them through page directories and tables; the kernel heap carves a mapped
  region into blocks for \<^verbatim>\<open>malloc\<close>. A process has a page directory and a memory contract, a sorted array
  of areas; \<^verbatim>\<open>mmap\<close> adds an area and maps nothing, and the page fault handler, run in two halves around a queue of
  deferred exceptions, maps a page when it is first touched, from a fresh block or from a file. Files
  are nodes of a virtual file system tree; they are read and written through the page cache, whose
  buffers are pages of the virtual memory manager and whose misses go to the file system's driver
  (FAT32), which asks the device below it (the disk controller). Threads sit in ready queues by
  priority, a block queue and a sleep queue; semaphores, pipes and drivers block and wake them.
  Interrupt handlers put work into queues that daemons (keyboard, network card) drain; a
  received frame climbs from the card's driver through the layers of the network stack.

  \<^bold>\<open>Conventions.\<close> Prelude has the machine types (\<open>u8\<close>, \<open>u16\<close>, \<open>u32\<close> are words, so arithmetic wraps as in the
  source), checked access to arrays, and the meaning of \<open>None\<close>: control does not come back to the caller,
  because the kernel halts (PANIC), an access faults, a division is by zero, or a lock or a device is
  waited for in vain. Errors the code reports are values: an \<open>error_t\<close>, a null pointer (0) or
  a negative descriptor, with \<open>last_error\<close> in the state. Structures are records, extended along the
  components that add to one global state: \<open>kerr\<close> (Kernel_Error), the physical and virtual memory
  managers, the file system tree, the open files with page cache and bytes, then page faults, FAT32 or
  threads. Linked structures live in stores from addresses to nodes; drivers' structures lie at their
  offsets in a byte memory (Bytes). Bounded loops recurse on the number of rounds left; the others are
  \<open>partial_function (option)\<close>, so a loop that does not end is \<open>None\<close>, and the theorems say \<open>Some\<close>. No fuel is
  used. What successive reads of a device's register return is a list or a function in the state;
  a list that runs out is \<open>None\<close>, so a theorem states how many answers are enough.

  \<^bold>\<open>Which theory models what.\<close>

  Containers. Single_List: list.h over a node store, with the invariant \<open>list_ok\<close>. Dl_List: dl_list.h.
  Linked_Queue: queue.h. Vector: vector.h and ordered_vector.h, and the contract \<open>binary_search\<close>. Fifo: the contracts
  \<open>fifo\<close> and \<open>bounded_fifo\<close> of the kernel's buffers. Ring_Queue: queue_spsc.h, also with the reads
  and writes of a producer and a consumer interleaved one at a time, and queue_mpmc.h with critlock.cpp.

  Basic services. Kernel_Error: error.h, error.cpp. Cstring: cstring.c. Utility: utility.cpp (numbers
  to text and back, word-wise memset and memcpy). Bytes: packed structures in memory.

  Memory. Allocator: the contract of an allocator and its clients. Phys_Memory: mmngr_phys.cpp.
  Kernel_Heap and Heap_Service: mmngr_heap.cpp and the allocation functions of memory.cpp. Paging:
  vmmngr_pde.cpp, vmmngr_pte.cpp, mmngr_virtual.cpp, against the processor's two-level walk \<open>translate\<close>. Vm_Contract:
  vm_area.cpp, vm_contract.cpp, \<^verbatim>\<open>vfs_mmap_p\<close> of memory.cpp, spinlock.cpp. Page_Fault: the page fault handler of
  mmngr_virtual.cpp. Interrupts: isr.cpp and the exception handlers. Descriptors: descriptor_tables.c.

  Threads. Scheduler: thread_sched.cpp, semaphore.cpp, mutex.cpp. Semaphores: the waiting lists. Threads,
  Threads_Facts: process.cpp, kernel_stack.cpp. Pipe: pipe.cpp. Timers: pit.c, pic.c, timer.cpp.

  Files. Vfs: vfs.cpp. Open_Files: open_file_table.cpp. Page_Cache, Anon_Buffer: page_cache.cpp. File_Io: file.cpp.
  Fat32, Fat32_Facts, Fat32_Free: FAT32_fs.cpp. Pe_Image, Pe_Facts: pe_loader.cpp.

  Devices. Keyboard, Keyboard_Facts: keyboard.cpp. Screen_Gfx, Screen_Facts: screen_gfx.cpp. Text_Screen: screen.c.
  Printing: print_utility.cpp. Serial: SerialDebugger.cpp. Ahci, Ahci_Facts: AHCI.cpp. Pci: PCI.cpp.

  Network. Net, Net_Facts: sock_buf.cpp, net.cpp, net_protocol.cpp, ethernet.cpp, arp.cpp, ip.cpp, icmp.cpp,
  udp.cpp. Nic, Nic_Facts: i217.cpp.
\<close>

text \<open>
  \<^bold>\<open>What the lemmas show.\<close> Each theory has a lemma per operation (named after it, with the suffix
  \<open>_ok\<close>), which gives its result on every branch and that it keeps the component's invariant: \<open>spsc_ok\<close>, \<open>pmm_ok\<close>,
  \<open>heap_ok\<close>, \<open>vm_ok\<close>, \<open>contract_ok\<close>, \<open>sched_ok\<close>, \<open>vfs_ok\<close>, \<open>cache_ok\<close>, \<open>io_inv\<close>, \<open>pipe_ok\<close>, \<open>cursor_ok\<close>. The theorems
  labelled C1 to C40 compose these.

  Queues: every interleaving of one producer and one consumer keeps order and loses nothing (C1); the
  other queue answers every sequence of calls as a bounded list (C2), and so does a pipe between its semaphores (C29).
  Memory: the lowest free block or ENOMEM, and freeing restores the state (C3); the heap's walk with splitting and
  merging (C6); no client of either ever holds memory twice (C4, C7); mapping a page changes that
  translation only (C8); a contract stays sorted and disjoint (C9) and a mapping goes into the first gap (C10).
  Faults: what the handler lets through (C23), a page of a file brought in (C24), and the whole way from interrupt to
  return for anonymous memory (C31). Threads: the switch runs the highest priority (C11) in turn (C12),
  semaphores serve first come first (C28), the stack (C26) and address space (C27) of what is
  created. Files: path lookup equals a walk over components (C14), open counts (C15), buffers that are never
  shared (C16), reads that deliver the file (C17), and a FAT32 file read along its chain (C18); imports of
  an executable bound (C25). Text: numbers printed and read back (C5), formatted printing to screen and line
  (C35, C36), text on both screens (C37, C38). Devices: descriptor tables as the processor
  decodes them (C30), the command the disk controller finds (C32), its structures for the
  ports (C33), keys and modifiers (C22), the search of the bus (C39). Network: frames answered or ignored (C19, C40),
  header checksums (C20), datagrams (C21).

  Several of these pin what the code does where it fails to do what it means to: the sleeper that is
  woken instead of the one that is due (C13), the second finished port that signals nobody (C34), the
  controller behind the first bus that is never found (C39), the backspace that writes behind the
  video memory (C38), the checksum over a stale field (C20). Other theorems without a label show
  further such failures, among them \<open>spsc_producer_clear_unsafe\<close>, \<open>pmm_alloc_blocks_faults\<close>,
  \<open>pmm_free_blocks_leak\<close>, \<open>heap_double_free_undetected\<close>, \<open>page_flags_accumulate\<close>, \<open>mmap_failure_deadlocks\<close>,
  \<open>short_read_overruns\<close>, \<open>next_cluster_reads_wrong_entry\<close>, \<open>reserved_cluster_not_marked\<close> and
  \<open>unknown_code_reads_outside\<close>.

  \<^bold>\<open>Interfaces.\<close> Contracts between components are locales, interpreted on the code's models: \<open>allocator\<close> by the heap
  (\<open>kheap\<close>) and the physical memory manager (\<open>pmm\<close>); \<open>fifo\<close> by both ring queues (\<open>spsc\<close>, \<open>mpmc\<close>) and pipes
  (\<open>pipe_fifo\<close>); \<open>bounded_fifo\<close>, which extends it, by \<open>spsc_bounded\<close> and \<open>pipe_bounded\<close>; \<open>binary_search\<close> by the two searches of a
  memory contract (\<open>contract\<close>, \<open>area_find\<close>); \<open>formatter\<close> by the screen's and the line's printing
  (\<open>printf_formatter\<close>, \<open>serial_formatter\<close>).

  \<^bold>\<open>Parameters and assumptions.\<close> What is reached through a function pointer is an argument (\<open>calls\<close>); \<open>reads_file\<close>
  and \<open>reads_disk\<close> say that a file system's or a device's read operation fills the buffer with the content and
  changes nothing else, \<open>fresh_cells\<close> that the allocator gives unused addresses for list cells. Whether
  the heap grants a request, and the addresses it gives where only their freshness matters, are arguments.
  Page tables are taken to be mapped at their physical addresses, as the kernel does. The bounds that
  occur (at most 2 ^ 20 blocks of memory, at most 4096 buffers of the page cache, texts below 65534 characters) are
  those of the address space and of the types the code counts in.

  \<^bold>\<open>What is not modelled.\<close> Instructions with no effect on the modelled state: the TLB flush, the interrupt
  flag, halting; the register traffic of a context switch, so that an operation that gives the
  processor away ends when the next thread is chosen. A byte access to an address that is not mapped does not fault
  in the byte memory of the file system and the drivers (Threads does translate), and a page that is mapped anew shows the bytes that were there,
  since what a fresh block contains is unspecified. Messages that are only printed are left out.
  Of modelled files: \<^verbatim>\<open>process_create_s\<close>, \<^verbatim>\<open>create_vfs_pipe\<close>, \<^verbatim>\<open>timer_callback\<close>, the lines and rectangles of
  screen_gfx.cpp (floating point), the table of functions of screen.c, the receive test of i217.cpp and
  the start-up of the keyboard. Not modelled at all: kernel.cpp and the tests (start-up and demonstration
  threads), the boot loader (src/MeOSLDR) and the assembly files.
\<close>

end
